(* ===== verification/Prelude.thy ===== *)
theory Prelude
  imports Main "HOL-Library.List_Lexorder" "HOL-Library.Char_ord" "HOL-Library.AList"
    "HOL-Library.Sublist"
begin

text \<open>
  Shared vocabulary of the development: the Python values, containers and string operations the
  modelled modules of BitBake use, the exceptions they raise, and the two ways an exception is
  carried (a plain result, and a result with the state the exception leaves behind).

  Python strings are \<open>string\<close> (lists of 8-bit characters, so code points up to 255), compared
  lexicographically as Python compares them; dictionaries keep their insertion order and are
  association lists updated with \<^const>\<open>AList.update\<close>, which overwrites in place and appends a
  new key at the end, as a Python dictionary does; a set that the code iterates over is a list
  without duplicates (the list is one iteration order, and the theorems hold for every list).
\<close>

section \<open>Exceptions and results\<close>

datatype exn =
    AttributeError
  | IndexError
  | KeyError string
  | OSError string
  | TypeError
  | ValueError string
  | VersionStringException string
  | NoProvider string
  | NoRProvider string
  | MultipleRProvider string
  | Fatal string
  | TooManyLoops
  | SyntaxError string
  | SkipRecipe string
  | PlainException string
  | ExpansionError "string list"
  | ParseError string
  | OutOfFuel

type_synonym 'a res = "exn + 'a"
type_synonym ('k, 'v) dict = "('k \<times> 'v) list"

definition rbind :: "'a res \<Rightarrow> ('a \<Rightarrow> 'b res) \<Rightarrow> 'b res" where
  "rbind m f = (case m of Inl e \<Rightarrow> Inl e | Inr x \<Rightarrow> f x)"

fun rfold :: "('a \<Rightarrow> 's \<Rightarrow> 's res) \<Rightarrow> 'a list \<Rightarrow> 's \<Rightarrow> 's res" where
  "rfold f [] s = Inr s"
| "rfold f (x # xs) s = rbind (f x s) (rfold f xs)"

fun rmap :: "('a \<Rightarrow> 'b res) \<Rightarrow> 'a list \<Rightarrow> 'b list res" where
  "rmap f [] = Inr []"
| "rmap f (x # xs) = rbind (f x) (\<lambda>y. rbind (rmap f xs) (\<lambda>ys. Inr (y # ys)))"

named_theorems result_simps "evaluation of results and of state-passing exceptions"

lemma rbind_Inl [simp, result_simps]: "rbind (Inl e) f = Inl e"
  by (simp add: rbind_def)

lemma rbind_Inr [simp, result_simps]: "rbind (Inr x) f = f x"
  by (simp add: rbind_def)

lemma rbind_eq_Inr: "rbind m f = Inr y \<longleftrightarrow> (\<exists>x. m = Inr x \<and> f x = Inr y)"
  by (cases m) auto

lemma rbind_eq_Inl: "rbind m f = Inl e \<longleftrightarrow> m = Inl e \<or> (\<exists>x. m = Inr x \<and> f x = Inl e)"
  by (cases m) auto

lemma rfold_cong [fundef_cong]:
  assumes "xs = ys" and "s = t" and "\<And>x u. x \<in> set ys \<Longrightarrow> f x u = g x u"
  shows "rfold f xs s = rfold g ys t"
proof -
  have "rfold f ys t = rfold g ys t"
    using assms(3)
    by (induction ys arbitrary: t) (auto simp: rbind_def split: sum.split)
  with assms show ?thesis by simp
qed

lemma rfold_append: "rfold f (xs @ ys) s = rbind (rfold f xs s) (rfold f ys)"
  by (induction xs arbitrary: s) (auto simp: rbind_def split: sum.split)

text \<open>An invariant of the loop body is an invariant of the loop.\<close>

lemma rfold_invariant:
  assumes "rfold f xs s = Inr t" and "P s"
    and "\<And>x u v. x \<in> set xs \<Longrightarrow> P u \<Longrightarrow> f x u = Inr v \<Longrightarrow> P v"
  shows "P t"
  using assms
proof (induction xs arbitrary: s)
  case Nil
  then show ?case by simp
next
  case (Cons x xs)
  from Cons.prems(1) obtain u where u: "f x s = Inr u" and t: "rfold f xs u = Inr t"
    by (auto simp: rbind_eq_Inr)
  have "P u" using Cons.prems(2,3) u by (meson list.set_intros(1))
  with t show ?case using Cons.IH Cons.prems(3) by (meson list.set_intros(2))
qed

text \<open>The same over a list without duplicates, when the invariant says which elements are done.\<close>

lemma rfold_progress:
  assumes "rfold f xs s = Inr t" and "distinct xs" and "D \<inter> set xs = {}" and "P D s"
    and "\<And>x u v E. x \<in> set xs \<Longrightarrow> x \<notin> E \<Longrightarrow> P E u \<Longrightarrow> f x u = Inr v \<Longrightarrow> P (insert x E) v"
  shows "P (D \<union> set xs) t"
  using assms
proof (induction xs arbitrary: s D)
  case Nil
  then show ?case by simp
next
  case (Cons x xs)
  from Cons.prems(1) obtain u where u: "f x s = Inr u" and t: "rfold f xs u = Inr t"
    by (auto simp: rbind_eq_Inr)
  have "P (insert x D) u" using Cons.prems(3,4,5) u by (auto intro: Cons.prems(5))
  then have "P (insert x D \<union> set xs) t"
    using Cons.prems(2,3,5) t by (intro Cons.IH) auto
  then show ?case by simp
qed

lemma rfold_progress_total:
  assumes "distinct xs" and "D \<inter> set xs = {}" and "P D s"
    and "\<And>x u E. x \<in> set xs \<Longrightarrow> x \<notin> E \<Longrightarrow> P E u \<Longrightarrow> \<exists>v. f x u = Inr v \<and> P (insert x E) v"
  shows "\<exists>t. rfold f xs s = Inr t \<and> P (D \<union> set xs) t"
  using assms
proof (induction xs arbitrary: s D)
  case Nil
  then show ?case by simp
next
  case (Cons x xs)
  then have "x \<notin> D" by auto
  then obtain u where u: "f x s = Inr u" "P (insert x D) u"
    using Cons.prems(3,4) by (meson list.set_intros(1))
  have "\<exists>t. rfold f xs u = Inr t \<and> P (insert x D \<union> set xs) t"
    using Cons.prems u(2) by (intro Cons.IH) auto
  with u show ?case by simp
qed

lemma rfold_total:
  assumes "P s" and "\<And>x u. x \<in> set xs \<Longrightarrow> P u \<Longrightarrow> \<exists>v. f x u = Inr v \<and> P v"
  shows "\<exists>t. rfold f xs s = Inr t \<and> P t"
  using assms
proof (induction xs arbitrary: s)
  case Nil
  then show ?case by simp
next
  case (Cons x xs)
  from Cons.prems obtain u where "f x s = Inr u" and "P u"
    by (meson list.set_intros(1))
  moreover have "\<exists>t. rfold f xs u = Inr t \<and> P t"
    using Cons.IH Cons.prems(2) \<open>P u\<close> by (meson list.set_intros(2))
  ultimately show ?case by simp
qed

text \<open>
  \<open>yields P r\<close>: the computation was not cut off by its fuel, and if it returns, the value is in
  \<open>P\<close>. It may raise the exceptions of the code.
\<close>

definition yields :: "('a \<Rightarrow> bool) \<Rightarrow> 'a res \<Rightarrow> bool" where
  "yields P r = (case r of Inl e \<Rightarrow> e \<noteq> OutOfFuel | Inr x \<Rightarrow> P x)"

named_theorems yields_rules "structural rules for the values a computation may return"

lemma yields_simps [simp]: "yields P (Inr x) = P x" "yields P (Inl e) = (e \<noteq> OutOfFuel)"
  by (simp_all add: yields_def)

lemma yieldsD: "yields P r \<Longrightarrow> r = Inr x \<Longrightarrow> P x"
  by simp

lemma yields_bind [yields_rules]:
  "yields Q m \<Longrightarrow> (\<And>x. Q x \<Longrightarrow> yields P (f x)) \<Longrightarrow> yields P (rbind m f)"
  by (cases m) auto

lemma yields_weaken: "yields Q m \<Longrightarrow> (\<And>x. Q x \<Longrightarrow> P x) \<Longrightarrow> yields P m"
  by (cases m) auto

lemma yields_if [yields_rules]:
  "(b \<Longrightarrow> yields P m) \<Longrightarrow> (\<not> b \<Longrightarrow> yields P n) \<Longrightarrow> yields P (if b then m else n)"
  by simp

lemma yields_fold:
  assumes "P s" and "\<And>x u. x \<in> set xs \<Longrightarrow> P u \<Longrightarrow> yields P (f x u)"
  shows "yields P (rfold f xs s)"
  using assms
proof (induction xs arbitrary: s)
  case Nil
  then show ?case by simp
next
  case (Cons x xs)
  have "yields P (f x s)" using Cons.prems by simp
  then show ?case using Cons by (auto intro: yields_bind)
qed

lemma yields_map:
  "(\<And>x. x \<in> set xs \<Longrightarrow> yields (\<lambda>_. True) (f x)) \<Longrightarrow> yields (\<lambda>_. True) (rmap f xs)"
  by (induction xs) (auto intro!: yields_bind)

section \<open>Exceptions that keep the state\<close>

text \<open>
  A method that mutates its object and then raises leaves the mutation behind, and callers that
  catch the exception go on from that state. Such a method is a function from the state to a
  result and the state it leaves.
\<close>

type_synonym ('s, 'a) meth = "'s \<Rightarrow> 'a res \<times> 's"

definition mreturn :: "'a \<Rightarrow> ('s, 'a) meth" where
  "mreturn x s = (Inr x, s)"

definition mraise :: "exn \<Rightarrow> ('s, 'a) meth" where
  "mraise e s = (Inl e, s)"

definition mupd :: "('s \<Rightarrow> 's) \<Rightarrow> ('s, unit) meth" where
  "mupd f s = (Inr (), f s)"

definition mbind :: "('s, 'a) meth \<Rightarrow> ('a \<Rightarrow> ('s, 'b) meth) \<Rightarrow> ('s, 'b) meth" where
  "mbind m f s = (case m s of (Inl e, t) \<Rightarrow> (Inl e, t) | (Inr x, t) \<Rightarrow> f x t)"

definition mthen :: "('s, 'a) meth \<Rightarrow> ('s, 'b) meth \<Rightarrow> ('s, 'b) meth" where
  "mthen m n = mbind m (\<lambda>_. n)"

text \<open>\<open>mcatch m h\<close> runs \<open>m\<close>; the handler sees the exception and the state \<open>m\<close> left.\<close>

definition mcatch :: "('s, 'a) meth \<Rightarrow> (exn \<Rightarrow> ('s, 'a) meth) \<Rightarrow> ('s, 'a) meth" where
  "mcatch m h s = (case m s of (Inl e, t) \<Rightarrow> h e t | (Inr x, t) \<Rightarrow> (Inr x, t))"

text \<open>\<open>mread f\<close> reads the state and goes on with what \<open>f\<close> makes of it.\<close>

definition mread :: "('s \<Rightarrow> ('s, 'a) meth) \<Rightarrow> ('s, 'a) meth" where
  "mread f s = f s s"

definition mlift :: "'a res \<Rightarrow> ('s, 'a) meth" where
  "mlift r s = (r, s)"

fun mfor :: "('a \<Rightarrow> ('s, unit) meth) \<Rightarrow> 'a list \<Rightarrow> ('s, unit) meth" where
  "mfor f [] = mreturn ()"
| "mfor f (x # xs) = mthen (f x) (mfor f xs)"

text \<open>
  \<open>triple P m Q R\<close>: from a state in \<open>P\<close>, \<open>m\<close> either returns a value and a state in \<open>Q\<close>, or raises an
  exception and leaves a state in \<open>R\<close>.
\<close>

definition triple ::
  "('s \<Rightarrow> bool) \<Rightarrow> ('s, 'a) meth \<Rightarrow> ('a \<Rightarrow> 's \<Rightarrow> bool) \<Rightarrow> (exn \<Rightarrow> 's \<Rightarrow> bool) \<Rightarrow> bool" where
  "triple P m Q R \<longleftrightarrow> (\<forall>s. P s \<longrightarrow>
     (case m s of (Inr x, t) \<Rightarrow> Q x t | (Inl e, t) \<Rightarrow> R e t))"

lemma tripleD:
  assumes "triple P m Q R" and "P s"
  shows "m s = (Inr x, t) \<Longrightarrow> Q x t" and "m s = (Inl e, t) \<Longrightarrow> R e t"
  using assms by (auto simp: triple_def)

lemma triple_weaken:
  assumes "triple P' m Q' R'" and "\<And>s. P s \<Longrightarrow> P' s" and "\<And>x s. Q' x s \<Longrightarrow> Q x s"
    and "\<And>e s. R' e s \<Longrightarrow> R e s"
  shows "triple P m Q R"
  unfolding triple_def
proof (intro allI impI)
  fix s assume "P s"
  with assms(2) have "P' s" by blast
  then show "case m s of (Inr x, t) \<Rightarrow> Q x t | (Inl e, t) \<Rightarrow> R e t"
    using tripleD [OF assms(1)] assms(3,4) by (fastforce split: prod.split sum.split)
qed

lemma triple_pre: "triple P' m Q R \<Longrightarrow> (\<And>s. P s \<Longrightarrow> P' s) \<Longrightarrow> triple P m Q R"
  by (auto simp: triple_def)

lemma triple_return: "(\<And>s. P s \<Longrightarrow> Q x s) \<Longrightarrow> triple P (mreturn x) Q R"
  by (simp add: triple_def mreturn_def)

lemma triple_raise: "(\<And>s. P s \<Longrightarrow> R e s) \<Longrightarrow> triple P (mraise e) Q R"
  by (simp add: triple_def mraise_def)

lemma triple_upd: "(\<And>s. P s \<Longrightarrow> Q () (f s)) \<Longrightarrow> triple P (mupd f) Q R"
  by (simp add: triple_def mupd_def)

lemma triple_lift:
  "(\<And>s x. P s \<Longrightarrow> r = Inr x \<Longrightarrow> Q x s) \<Longrightarrow> (\<And>s e. P s \<Longrightarrow> r = Inl e \<Longrightarrow> R e s) \<Longrightarrow>
    triple P (mlift r) Q R"
  by (cases r) (simp_all add: triple_def mlift_def)

lemma triple_read:
  "(\<And>t. P t \<Longrightarrow> triple (\<lambda>s. s = t) (f t) Q R) \<Longrightarrow> triple P (mread f) Q R"
  by (simp add: triple_def mread_def)

lemma triple_read_inv: "(\<And>t. P t \<Longrightarrow> triple P (f t) Q R) \<Longrightarrow> triple P (mread f) Q R"
  by (simp add: triple_def mread_def)

lemma triple_bind:
  assumes "triple P m S R" and "\<And>x. triple (S x) (f x) Q R"
  shows "triple P (mbind m f) Q R"
  unfolding triple_def
proof (intro allI impI)
  fix s assume "P s"
  obtain r t where m: "m s = (r, t)" by (cases "m s")
  show "case mbind m f s of (Inr x, t) \<Rightarrow> Q x t | (Inl e, t) \<Rightarrow> R e t"
  proof (cases r)
    case (Inl e)
    then show ?thesis using tripleD(2) [OF assms(1) \<open>P s\<close>] m by (simp add: mbind_def)
  next
    case (Inr x)
    then have "S x t" using tripleD(1) [OF assms(1) \<open>P s\<close>] m by simp
    then show ?thesis using assms(2) [of x] m Inr by (simp add: triple_def mbind_def)
  qed
qed

lemma triple_then:
  "triple P m (\<lambda>_. S) R \<Longrightarrow> triple S n Q R \<Longrightarrow> triple P (mthen m n) Q R"
  unfolding mthen_def by (rule triple_bind)

lemma triple_catch:
  assumes "triple P m Q S" and "\<And>e. triple (S e) (h e) Q R"
  shows "triple P (mcatch m h) Q R"
  unfolding triple_def
proof (intro allI impI)
  fix s assume "P s"
  obtain r t where m: "m s = (r, t)" by (cases "m s")
  show "case mcatch m h s of (Inr x, t) \<Rightarrow> Q x t | (Inl e, t) \<Rightarrow> R e t"
  proof (cases r)
    case (Inr x)
    then show ?thesis using tripleD(1) [OF assms(1) \<open>P s\<close>] m by (simp add: mcatch_def)
  next
    case (Inl e)
    then have "S e t" using tripleD(2) [OF assms(1) \<open>P s\<close>] m by simp
    then show ?thesis using assms(2) [of e] m Inl by (simp add: triple_def mcatch_def)
  qed
qed

lemma triple_if:
  "(b \<Longrightarrow> triple P m Q R) \<Longrightarrow> (\<not> b \<Longrightarrow> triple P n Q R) \<Longrightarrow> triple P (if b then m else n) Q R"
  by simp

lemma triple_for:
  "(\<And>x. x \<in> set xs \<Longrightarrow> triple P (f x) (\<lambda>_. P) R) \<Longrightarrow> triple P (mfor f xs) (\<lambda>_. P) R"
  by (induction xs) (auto intro: triple_return triple_then)

text \<open>A loop whose invariant says which elements are done.\<close>

lemma triple_for_progress:
  assumes "\<And>x D. x \<in> set xs \<Longrightarrow> triple (P D) (f x) (\<lambda>_. P (insert x D)) R"
  shows "triple (P D) (mfor f xs) (\<lambda>_. P (D \<union> set xs)) R"
  using assms
proof (induction xs arbitrary: D)
  case Nil
  show ?case by (auto intro: triple_return)
next
  case (Cons x xs)
  have "triple (P (insert x D)) (mfor f xs) (\<lambda>_. P (insert x D \<union> set xs)) R"
    using Cons.prems by (intro Cons.IH) auto
  then show ?case using Cons.prems by (auto intro: triple_then)
qed

text \<open>\<open>stable P R m\<close>: \<open>m\<close> keeps \<open>P\<close> when it returns, and leaves \<open>R\<close> when it raises.\<close>

definition stable :: "('s \<Rightarrow> bool) \<Rightarrow> (exn \<Rightarrow> 's \<Rightarrow> bool) \<Rightarrow> ('s, 'a) meth \<Rightarrow> bool" where
  "stable P R m = triple P m (\<lambda>_. P) R"

named_theorems stable_rules "structural rules for a property kept by a method"

lemma stable_return [stable_rules]: "stable P R (mreturn x)"
  unfolding stable_def by (rule triple_return)

lemma stable_raise [stable_rules]: "(\<And>s. P s \<Longrightarrow> R e s) \<Longrightarrow> stable P R (mraise e)"
  unfolding stable_def by (rule triple_raise)

lemma stable_upd [stable_rules]: "(\<And>s. P s \<Longrightarrow> P (f s)) \<Longrightarrow> stable P R (mupd f)"
  unfolding stable_def by (rule triple_upd)

lemma stable_lift [stable_rules]: "(\<And>s e. P s \<Longrightarrow> r = Inl e \<Longrightarrow> R e s) \<Longrightarrow> stable P R (mlift r)"
  unfolding stable_def by (rule triple_lift)

lemma stable_read [stable_rules]: "(\<And>t. P t \<Longrightarrow> stable P R (f t)) \<Longrightarrow> stable P R (mread f)"
  unfolding stable_def by (rule triple_read_inv)

lemma stable_bind [stable_rules]:
  "stable P R m \<Longrightarrow> (\<And>x. stable P R (f x)) \<Longrightarrow> stable P R (mbind m f)"
  unfolding stable_def by (rule triple_bind)

lemma stable_then [stable_rules]: "stable P R m \<Longrightarrow> stable P R n \<Longrightarrow> stable P R (mthen m n)"
  unfolding stable_def by (rule triple_then)

lemma stable_if [stable_rules]:
  "(b \<Longrightarrow> stable P R m) \<Longrightarrow> (\<not> b \<Longrightarrow> stable P R n) \<Longrightarrow> stable P R (if b then m else n)"
  by simp

lemma stable_for [stable_rules]:
  "(\<And>x. x \<in> set xs \<Longrightarrow> stable P R (f x)) \<Longrightarrow> stable P R (mfor f xs)"
  unfolding stable_def by (rule triple_for)

lemma stable_catch:
  "stable P S m \<Longrightarrow> (\<And>e. triple (S e) (h e) (\<lambda>_. P) R) \<Longrightarrow> stable P R (mcatch m h)"
  unfolding stable_def by (rule triple_catch)

lemma stable_weaken:
  "stable P R m \<Longrightarrow> (\<And>e s. R e s \<Longrightarrow> R' e s) \<Longrightarrow> stable P R' m"
  unfolding stable_def by (erule triple_weaken)

lemma mbind_eval [result_simps]:
  "mbind m f s = (case m s of (Inl e, t) \<Rightarrow> (Inl e, t) | (Inr x, t) \<Rightarrow> f x t)"
  by (simp add: mbind_def)

lemma mthen_eval [result_simps]:
  "mthen m n s = (case m s of (Inl e, t) \<Rightarrow> (Inl e, t) | (Inr x, t) \<Rightarrow> n t)"
  by (simp add: mthen_def mbind_def)

lemmas meth_defs [result_simps] = mreturn_def mraise_def mupd_def mcatch_def mread_def mlift_def

section \<open>Dictionaries and ordered sets\<close>

definition dget :: "('k, 'v) dict \<Rightarrow> 'k \<Rightarrow> 'v \<Rightarrow> 'v" where
  "dget d k v = (case map_of d k of None \<Rightarrow> v | Some x \<Rightarrow> x)"

definition dkeys :: "('k, 'v) dict \<Rightarrow> 'k list" where
  "dkeys d = map fst d"

definition has_key :: "('k, 'v) dict \<Rightarrow> 'k \<Rightarrow> bool" where
  "has_key d k = (map_of d k \<noteq> None)"

definition sadd :: "'a \<Rightarrow> 'a list \<Rightarrow> 'a list" where
  "sadd x xs = (if x \<in> set xs then xs else xs @ [x])"

definition sunion :: "'a list \<Rightarrow> 'a list \<Rightarrow> 'a list" where
  "sunion xs ys = fold sadd ys xs"

named_theorems dict_simps "facts about dictionaries and ordered sets"

lemma set_sadd [simp, dict_simps]: "set (sadd x xs) = insert x (set xs)"
  by (auto simp: sadd_def)

lemma distinct_sadd [simp, dict_simps]: "distinct (sadd x xs) = distinct xs"
  by (auto simp: sadd_def)

lemma set_sunion [simp, dict_simps]: "set (sunion xs ys) = set xs \<union> set ys"
  unfolding sunion_def by (induction ys arbitrary: xs) auto

lemma distinct_sunion [simp, dict_simps]: "distinct (sunion xs ys) = distinct xs"
  unfolding sunion_def by (induction ys arbitrary: xs) auto

lemma has_key_iff [dict_simps]: "has_key d k \<longleftrightarrow> k \<in> set (dkeys d)"
  by (auto simp: has_key_def dkeys_def map_of_eq_None_iff)

lemma dget_key: "dget d k v \<noteq> v \<Longrightarrow> k \<in> set (dkeys d)"
  unfolding has_key_iff [symmetric] by (auto simp: has_key_def dget_def split: option.splits)

lemma has_key_update [simp]: "has_key (AList.update k v d) k' \<longleftrightarrow> k' = k \<or> has_key d k'"
  by (simp add: has_key_def update_conv)

lemma dget_update [simp]: "dget (AList.update k v d) k' w = (if k' = k then v else dget d k' w)"
  by (simp add: dget_def update_conv)

lemma dkeys_update [dict_simps]:
  "dkeys (AList.update k v d) = (if has_key d k then dkeys d else dkeys d @ [k])"
  by (simp add: has_key_iff dkeys_def update_keys)

lemma set_dkeys_update [simp]: "set (dkeys (AList.update k v d)) = insert k (set (dkeys d))"
  by (auto simp: dkeys_def dom_update)

lemma distinct_dkeys_update [simp]: "distinct (dkeys d) \<Longrightarrow> distinct (dkeys (AList.update k v d))"
  by (simp add: dkeys_def distinct_update)

lemma sort_key_cong_set:
  "set (sort (remdups xs)) = set xs" for xs :: "'a::linorder list"
  by simp

end
