(* ===== verification/PyString.thy ===== *)
theory PyString
  imports Prelude
begin

text \<open>
  The Python string methods the modelled modules call, each on the standard library's documented
  behaviour: \<open>str.split\<close> (on a separator and on whitespace), \<open>str.join\<close>, \<open>str.rsplit(sep, 1)\<close>,
  \<open>str.strip\<close>, \<open>str.replace\<close>, \<open>str.count\<close> and the conversion \<open>int(s)\<close>, with the round trips
  between splitting and joining that the callers rely on.
\<close>

named_theorems string_simps "facts about splitting and joining strings"

section \<open>Splitting on a separator\<close>

fun split_on :: "char \<Rightarrow> string \<Rightarrow> string list" where
  "split_on c [] = [[]]"
| "split_on c (x # xs) =
     (if x = c then [] # split_on c xs
      else case split_on c xs of [] \<Rightarrow> [[x]] | w # ws \<Rightarrow> (x # w) # ws)"

fun join :: "string \<Rightarrow> string list \<Rightarrow> string" where
  "join sep [] = []"
| "join sep [w] = w"
| "join sep (w # v # ws) = w @ sep @ join sep (v # ws)"

definition count_char :: "char \<Rightarrow> string \<Rightarrow> nat" where
  "count_char c s = length (filter (\<lambda>x. x = c) s)"

lemma split_on_nonempty [simp]: "split_on c s \<noteq> []"
  by (induction s) (auto split: list.split)

lemma length_split_on [string_simps]: "length (split_on c s) = Suc (count_char c s)"
  by (induction s) (auto simp: count_char_def split: list.split dest: sym)

lemma split_on_append:
  "split_on c (s @ c # t) = split_on c s @ split_on c t"
  by (induction s) (auto split: list.split)

lemma split_on_free [string_simps]: "c \<notin> set s \<Longrightarrow> split_on c s = [s]"
  by (induction s) auto

lemma split_on_parts: "w \<in> set (split_on c s) \<Longrightarrow> c \<notin> set w"
proof (induction s arbitrary: w)
  case Nil
  then show ?case by simp
next
  case (Cons x s)
  then show ?case
    by (cases "split_on c s") (auto split: if_splits)
qed

lemma join_Cons: "ws \<noteq> [] \<Longrightarrow> join sep (w # ws) = w @ sep @ join sep ws"
  by (cases ws) auto

lemma join_split_on [string_simps]: "join [c] (split_on c s) = s"
proof (induction s)
  case Nil
  then show ?case by simp
next
  case (Cons x s)
  show ?case
  proof (cases "x = c")
    case True
    then show ?thesis using Cons by (simp add: join_Cons)
  next
    case False
    obtain w ws where "split_on c s = w # ws" by (cases "split_on c s") auto
    with False Cons show ?thesis by (cases ws) auto
  qed
qed

lemma split_on_join [string_simps]:
  "ws \<noteq> [] \<Longrightarrow> (\<And>w. w \<in> set ws \<Longrightarrow> c \<notin> set w) \<Longrightarrow> split_on c (join [c] ws) = ws"
proof (induction ws)
  case Nil
  then show ?case by simp
next
  case (Cons w ws)
  then show ?case
    by (cases ws) (simp_all add: split_on_free split_on_append)
qed

lemma join_append:
  "xs \<noteq> [] \<Longrightarrow> ys \<noteq> [] \<Longrightarrow> join sep (xs @ ys) = join sep xs @ sep @ join sep ys"
proof (induction xs)
  case Nil
  then show ?case by simp
next
  case (Cons x xs)
  then show ?case by (cases xs) (simp_all add: join_Cons)
qed

text \<open>
  \<open>s.rsplit(c, 1)\<close>: the text before and after the last \<open>c\<close>, or \<open>None\<close> where \<open>c\<close> does not occur
  (Python then returns the one-element list).
\<close>

definition rsplit1 :: "char \<Rightarrow> string \<Rightarrow> (string \<times> string) option" where
  "rsplit1 c s =
     (if c \<in> set s
      then Some (join [c] (butlast (split_on c s)), last (split_on c s))
      else None)"

lemma rsplit1_append [string_simps]: "c \<notin> set t \<Longrightarrow> rsplit1 c (s @ c # t) = Some (s, t)"
  by (simp add: rsplit1_def split_on_append split_on_free join_split_on)

lemma rsplit1_Some:
  assumes "rsplit1 c s = Some (a, b)"
  shows "s = a @ c # b" and "c \<notin> set b"
proof -
  from assms have c: "c \<in> set s" and ab: "a = join [c] (butlast (split_on c s))"
      "b = last (split_on c s)"
    by (auto simp: rsplit1_def split: if_splits)
  obtain p q where pq: "s = p @ c # q" and "c \<notin> set q"
    using split_list_last [OF c] by blast
  then have "rsplit1 c s = Some (p, q)" by (simp add: rsplit1_append)
  with assms pq \<open>c \<notin> set q\<close> show "s = a @ c # b" and "c \<notin> set b" by auto
qed

lemma rsplit1_None_iff: "rsplit1 c s = None \<longleftrightarrow> c \<notin> set s"
  by (simp add: rsplit1_def)

section \<open>Whitespace\<close>

definition is_space :: "char \<Rightarrow> bool" where
  "is_space c =
     (let n = (of_char c :: nat) in 9 \<le> n \<and> n \<le> 13 \<or> 28 \<le> n \<and> n \<le> 32 \<or> n = 133 \<or> n = 160)"

fun words_acc :: "string \<Rightarrow> string \<Rightarrow> string list" where
  "words_acc w [] = (if w = [] then [] else [w])"
| "words_acc w (x # xs) =
     (if is_space x then (if w = [] then words_acc [] xs else w # words_acc [] xs)
      else words_acc (w @ [x]) xs)"

text \<open>\<open>s.split()\<close>\<close>

definition words :: "string \<Rightarrow> string list" where
  "words s = words_acc [] s"

lemma words_acc_append:
  "\<not> is_space x \<Longrightarrow> words_acc w (x # xs) = words_acc (w @ [x]) xs"
  by simp

lemma words_acc_word:
  "(\<And>x. x \<in> set v \<Longrightarrow> \<not> is_space x) \<Longrightarrow> words_acc w (v @ xs) = words_acc (w @ v) xs"
  by (induction v arbitrary: w) auto

lemma words_acc_parts:
  assumes "u \<in> set (words_acc w s)" and "list_all (\<lambda>x. \<not> is_space x) w"
  shows "u \<noteq> [] \<and> list_all (\<lambda>x. \<not> is_space x) u"
  using assms
proof (induction s arbitrary: w)
  case Nil
  then show ?case by (simp split: if_splits)
next
  case (Cons x s)
  show ?case
  proof (cases "is_space x")
    case True
    with Cons.prems have "u \<in> set (words_acc [] s) \<or> (w \<noteq> [] \<and> u = w)"
      by (auto split: if_splits)
    then show ?thesis using Cons.IH [of "[]"] Cons.prems(2) by auto
  next
    case False
    then show ?thesis using Cons.IH [of "w @ [x]"] Cons.prems by simp
  qed
qed

lemma words_nonempty: "u \<in> set (words s) \<Longrightarrow> u \<noteq> []"
  using words_acc_parts [of u "[]" s] by (simp add: words_def)

lemma words_spaceless: "u \<in> set (words s) \<Longrightarrow> x \<in> set u \<Longrightarrow> \<not> is_space x"
  using words_acc_parts [of u "[]" s] by (auto simp: words_def list_all_iff)

lemma words_acc_space: "is_space c \<Longrightarrow> words_acc w (a @ c # b) = words_acc w a @ words_acc [] b"
  by (induction w a rule: words_acc.induct) auto

lemma words_append [string_simps]: "is_space c \<Longrightarrow> words (a @ c # b) = words a @ words b"
  by (simp add: words_def words_acc_space)

lemma words_single [string_simps]:
  "w \<noteq> [] \<Longrightarrow> (\<And>x. x \<in> set w \<Longrightarrow> \<not> is_space x) \<Longrightarrow> words w = [w]"
  using words_acc_word [of w "[]" "[]"] by (simp add: words_def)

lemma is_space_blank [simp]: "is_space (CHR '' '')"
  by (simp add: is_space_def)

lemma not_space_bracket [simp]: "\<not> is_space (CHR ''('')" "\<not> is_space (CHR '')'')"
  by (simp_all add: is_space_def)

lemma words_Nil [simp]: "words [] = []"
  by (simp add: words_def)

text \<open>Splitting a blank-separated text gives the words of its pieces.\<close>

lemma words_join_concat: "words (join '' '' ws) = concat (map words ws)"
proof (induction ws)
  case Nil
  then show ?case by simp
next
  case (Cons w ws)
  then show ?case by (cases ws) (simp_all add: words_append)
qed

definition strip_chars :: "string \<Rightarrow> string \<Rightarrow> string" where
  "strip_chars cs s =
     rev (dropWhile (\<lambda>c. c \<in> set cs) (rev (dropWhile (\<lambda>c. c \<in> set cs) s)))"

definition strip :: "string \<Rightarrow> string" where
  "strip s = rev (dropWhile is_space (rev (dropWhile is_space s)))"

lemma strip_spaceless: "(\<And>x. x \<in> set s \<Longrightarrow> \<not> is_space x) \<Longrightarrow> strip s = s"
proof -
  have d: "(\<And>x. x \<in> set u \<Longrightarrow> \<not> is_space x) \<Longrightarrow> dropWhile is_space u = u" for u
    by (cases u) auto
  assume "\<And>x. x \<in> set s \<Longrightarrow> \<not> is_space x"
  then show ?thesis using d [of s] d [of "rev s"] by (simp add: strip_def)
qed

section \<open>Replacement\<close>

text \<open>\<open>s.replace(old, new)\<close> for a non-empty \<open>old\<close>: left to right, without overlaps.\<close>

function replace_all :: "string \<Rightarrow> string \<Rightarrow> string \<Rightarrow> string" where
  "replace_all old new s =
     (if s = [] \<or> old = [] then s
      else if prefix old s then new @ replace_all old new (drop (length old) s)
      else hd s # replace_all old new (tl s))"
  by pat_completeness auto
termination
  by (relation "measure (\<lambda>(old, new, s). length s)") auto

declare replace_all.simps [simp del]

lemma replace_all_Nil [simp]: "replace_all old new [] = []"
  by (simp add: replace_all.simps)

text \<open>Deleting a single character is filtering it out.\<close>

lemma replace_all_delete: "replace_all [c] [] s = filter (\<lambda>x. x \<noteq> c) s"
proof (induction s)
  case Nil
  then show ?case by simp
next
  case (Cons x s)
  then show ?case by (subst replace_all.simps) auto
qed

text \<open>\<open>s.split(sep)\<close> for a text \<open>sep\<close> that is not empty; \<open>acc\<close> is the piece read so far, reversed.\<close>

function split_text_from :: "string \<Rightarrow> string \<Rightarrow> string \<Rightarrow> string list" where
  "split_text_from sep acc s =
     (if s = [] then [rev acc]
      else if sep \<noteq> [] \<and> prefix sep s then rev acc # split_text_from sep [] (drop (length sep) s)
      else split_text_from sep (hd s # acc) (tl s))"
  by pat_completeness auto
termination
  by (relation "measure (\<lambda>(sep, acc, s). length s)") auto

declare split_text_from.simps [simp del]

definition split_text :: "string \<Rightarrow> string \<Rightarrow> string list" where
  "split_text sep = split_text_from sep []"

text \<open>\<open>s.rstrip(c)\<close> for one character.\<close>

definition rstrip_char :: "char \<Rightarrow> string \<Rightarrow> string" where
  "rstrip_char c s = rev (dropWhile (\<lambda>x. x = c) (rev s))"

section \<open>Integers\<close>

definition is_digit :: "char \<Rightarrow> bool" where
  "is_digit c = (let n = (of_char c :: nat) in 48 \<le> n \<and> n \<le> 57)"

definition is_letter :: "char \<Rightarrow> bool" where
  "is_letter c =
     (let n = (of_char c :: nat) in 65 \<le> n \<and> n \<le> 90 \<or> 97 \<le> n \<and> n \<le> 122)"

definition digit_val :: "char \<Rightarrow> int" where
  "digit_val c = int (of_char c) - 48"

definition digits_val :: "string \<Rightarrow> int" where
  "digits_val s = foldl (\<lambda>n c. n * 10 + digit_val c) 0 s"

text \<open>
  The digit groups of an integer literal: non-empty, decimal digits only, single underscores
  between them.
\<close>

definition int_body :: "string \<Rightarrow> int option" where
  "int_body s =
     (let gs = split_on (CHR ''_'') s
      in if \<forall>g \<in> set gs. g \<noteq> [] \<and> list_all is_digit g then Some (digits_val (concat gs)) else None)"

text \<open>\<open>int(s)\<close>: surrounding whitespace and one sign are allowed; anything else raises.\<close>

definition py_int :: "string \<Rightarrow> int res" where
  "py_int s =
     (let t = strip s in
      case (if t \<noteq> [] \<and> hd t = CHR ''-'' then map_option uminus (int_body (tl t))
            else if t \<noteq> [] \<and> hd t = CHR ''+'' then int_body (tl t)
            else int_body t)
      of None \<Rightarrow> Inl (ValueError s) | Some n \<Rightarrow> Inr n)"

lemma py_int_yields: "yields (\<lambda>_. True) (py_int s)"
  by (simp add: py_int_def Let_def split: option.split)

lemma digit_val_bounds: "is_digit c \<Longrightarrow> 0 \<le> digit_val c \<and> digit_val c \<le> 9"
  by (auto simp: is_digit_def digit_val_def Let_def)

lemma digits_val_nonneg: "list_all is_digit s \<Longrightarrow> 0 \<le> digits_val s"
proof -
  have "list_all is_digit s \<Longrightarrow> 0 \<le> n \<Longrightarrow> 0 \<le> foldl (\<lambda>n c. n * 10 + digit_val c) n s" for n
    by (induction s arbitrary: n) (auto simp: digit_val_bounds)
  then show "list_all is_digit s \<Longrightarrow> 0 \<le> digits_val s" by (simp add: digits_val_def)
qed

lemma is_digit_not_letter: "is_digit c \<Longrightarrow> \<not> is_letter c"
  by (auto simp: is_digit_def is_letter_def Let_def)

text \<open>\<open>str(n)\<close> of a natural number.\<close>

fun show_nat :: "nat \<Rightarrow> string" where
  "show_nat n = (if n < 10 then [char_of (48 + n)] else show_nat (n div 10) @ [char_of (48 + n mod 10)])"

declare show_nat.simps [simp del]

end
