(* ===== verification/Versions.thy ===== *)
theory Versions
  imports PyString "HOL-Library.Product_Lexorder" "HOL-Library.Option_ord"
begin

text \<open>
  Version comparison, from \<open>bb/utils.py\<close>: a version string is exploded into ordered parts
  (\<open>explode_version\<close>), two exploded versions are compared part by part with an end marker that
  sorts after \<open>~\<close> and before everything else (\<open>vercmp_part\<close>), and \<open>(epoch, version, revision)\<close>
  triples are compared field by field (\<open>vercmp\<close>). The comparison is proved equal to a
  lexicographic linear order on part lists, from which the laws of a comparison function (locale
  \<open>comparator\<close>) follow; the callers that pick a latest version rest on that locale.
\<close>

section \<open>Comparison functions\<close>

locale comparator =
  fixes cmp :: "'a \<Rightarrow> 'a \<Rightarrow> int"
  assumes cmp_sym: "sgn (cmp y x) = - sgn (cmp x y)"
    and cmp_trans: "cmp x y \<le> 0 \<Longrightarrow> cmp y z \<le> 0 \<Longrightarrow> cmp x z \<le> 0"
begin

lemma cmp_refl: "cmp x x = 0"
  using cmp_sym [of x x] by (simp add: sgn_if split: if_splits)

lemma cmp_neg_iff: "cmp y x < 0 \<longleftrightarrow> 0 < cmp x y"
  using cmp_sym [of x y] by (simp add: sgn_if split: if_splits)

lemma cmp_le_iff: "cmp y x \<le> 0 \<longleftrightarrow> 0 \<le> cmp x y"
  using cmp_sym [of x y] by (simp add: sgn_if split: if_splits)

lemma cmp_zero_iff: "cmp y x = 0 \<longleftrightarrow> cmp x y = 0"
  using cmp_sym [of x y] by (simp add: sgn_if split: if_splits)

lemma cmp_total: "cmp x y \<le> 0 \<or> cmp y x \<le> 0"
  using cmp_le_iff [of x y] by linarith

lemma cmp_less_trans: "cmp x y < 0 \<Longrightarrow> cmp y z \<le> 0 \<Longrightarrow> cmp x z < 0"
  by (meson cmp_le_iff cmp_trans linorder_not_less)

lemma cmp_le_less_trans: "cmp x y \<le> 0 \<Longrightarrow> cmp y z < 0 \<Longrightarrow> cmp x z < 0"
  by (meson cmp_le_iff cmp_trans linorder_not_less)

text \<open>Keeping the best so far, and replacing it only by something strictly greater, ends with the
  first of the greatest elements.\<close>

lemma keep_greatest:
  fixes k x xs
  defines "b \<equiv> fold (\<lambda>x best. if cmp (k best) (k x) < 0 then x else best) xs x"
  shows "\<exists>ys zs. x # xs = ys @ b # zs \<and>
    (\<forall>y\<in>set ys. cmp (k y) (k b) < 0) \<and> (\<forall>z\<in>set zs. cmp (k z) (k b) \<le> 0)"
  unfolding b_def
proof (induction xs rule: rev_induct)
  case Nil
  show ?case by (intro exI [of _ "[]"]) simp
next
  case (snoc w xs)
  define b where "b = fold (\<lambda>x best. if cmp (k best) (k x) < 0 then x else best) xs x"
  from snoc.IH [folded b_def] obtain ys zs where xs: "x # xs = ys @ b # zs"
    and ys: "\<And>y. y \<in> set ys \<Longrightarrow> cmp (k y) (k b) < 0"
    and zs: "\<And>z. z \<in> set zs \<Longrightarrow> cmp (k z) (k b) \<le> 0" by blast
  have le: "cmp (k y) (k b) \<le> 0" if "y \<in> set (x # xs)" for y
  proof -
    have "y \<in> set ys \<or> y = b \<or> y \<in> set zs" using that by (auto simp only: xs set_append list.set)
    then show ?thesis using ys [of y] zs [of y] cmp_refl [of "k b"] by fastforce
  qed
  show ?case
  proof (cases "cmp (k b) (k w) < 0")
    case True
    then have "cmp (k y) (k w) < 0" if "y \<in> set (x # xs)" for y
      using le [OF that] cmp_le_less_trans by blast
    with True show ?thesis
      by (intro exI [of _ "x # xs"] exI [of _ "[]"]) (simp add: b_def [symmetric])
  next
    case False
    then have "cmp (k w) (k b) \<le> 0" using cmp_le_iff [of "k w" "k b"] by simp
    with False show ?thesis
      using xs ys zs
      by (intro exI [of _ ys] exI [of _ "zs @ [w]"]) (auto simp: b_def [symmetric] simp flip: append_Cons)
  qed
qed

end

section \<open>Exploding a version\<close>

datatype vkey = VNum int | VStr string

instantiation vkey :: linorder
begin

fun less_eq_vkey :: "vkey \<Rightarrow> vkey \<Rightarrow> bool" where
  "less_eq_vkey (VNum a) (VNum b) = (a \<le> b)"
| "less_eq_vkey (VNum a) (VStr b) = True"
| "less_eq_vkey (VStr a) (VNum b) = False"
| "less_eq_vkey (VStr a) (VStr b) = (a \<le> b)"

definition less_vkey :: "vkey \<Rightarrow> vkey \<Rightarrow> bool" where
  "less_vkey a b = (a \<le> b \<and> \<not> b \<le> a)"

instance
proof
  fix x y z :: vkey
  show "(x < y) = (x \<le> y \<and> \<not> y \<le> x)" by (simp add: less_vkey_def)
  show "x \<le> x" by (cases x) auto
  show "x \<le> z" if "x \<le> y" and "y \<le> z" using that by (cases x; cases y; cases z) auto
  show "x = y" if "x \<le> y" and "y \<le> x" using that by (cases x; cases y) auto
  show "x \<le> y \<or> y \<le> x" by (cases x; cases y) auto
qed

end

type_synonym vpart = "int \<times> vkey"

text \<open>
  What \<open>(.*)$\<close> leaves of the text after a run: \<open>.\<close> stops at a newline, and \<open>$\<close> matches at the
  end or before one final newline, which the group then drops. Otherwise the match fails, and
  reading the group of a failed match raises \<open>AttributeError\<close>.
\<close>

definition dot_rest :: "string \<Rightarrow> string option" where
  "dot_rest s =
     (let t = takeWhile (\<lambda>c. c \<noteq> CHR 0x0A) s; u = dropWhile (\<lambda>c. c \<noteq> CHR 0x0A) s
      in if u = [] \<or> u = [CHR 0x0A] then Some t else None)"

lemma dot_rest_length: "dot_rest s = Some t \<Longrightarrow> length t \<le> length s"
proof -
  assume "dot_rest s = Some t"
  then have "t = takeWhile (\<lambda>c. c \<noteq> CHR 0x0A) s"
    by (simp only: dot_rest_def Let_def split: if_splits) simp_all
  then show "length t \<le> length s" by (simp only: length_takeWhile_le)
qed

lemma dot_rest_free [simp]: "CHR 0x0A \<notin> set s \<Longrightarrow> dot_rest s = Some s"
proof -
  assume n: "CHR 0x0A \<notin> set s"
  have "takeWhile (\<lambda>c. c \<noteq> CHR 0x0A) s = s" using n by (auto simp: takeWhile_eq_all_conv)
  moreover have "dropWhile (\<lambda>c. c \<noteq> CHR 0x0A) s = []" using n by (auto simp: dropWhile_eq_Nil_conv)
  ultimately show ?thesis by (simp add: dot_rest_def)
qed

lemma dropWhile_shorter: "s \<noteq> [] \<Longrightarrow> P (hd s) \<Longrightarrow> length (dropWhile P s) < length s"
  by (cases s) (auto simp: le_imp_less_Suc length_dropWhile_le)

function explode_version :: "string \<Rightarrow> vpart list res" where
  "explode_version s =
     (if s = [] then Inr []
      else if is_digit (hd s) then
        (case dot_rest (dropWhile is_digit s) of
           None \<Rightarrow> Inl AttributeError
         | Some t \<Rightarrow> rbind (explode_version t)
             (\<lambda>r. Inr ((0, VNum (digits_val (takeWhile is_digit s))) # r)))
      else if is_letter (hd s) then
        (case dot_rest (dropWhile is_letter s) of
           None \<Rightarrow> Inl AttributeError
         | Some t \<Rightarrow> rbind (explode_version t)
             (\<lambda>r. Inr ((1, VStr (takeWhile is_letter s)) # r)))
      else rbind (explode_version (tl s))
             (\<lambda>r. Inr ((if hd s = CHR ''~'' then (-1, VStr [hd s]) else (2, VStr [hd s])) # r)))"
  by pat_completeness auto
termination
proof (relation "measure length", goal_cases)
  case 1
  then show ?case by simp
next
  case (2 s t)
  then show ?case using dropWhile_shorter [of s is_digit] dot_rest_length by fastforce
next
  case (3 s t)
  then show ?case using dropWhile_shorter [of s is_letter] dot_rest_length by fastforce
next
  case (4 s)
  then show ?case by simp
qed

declare explode_version.simps [simp del]

section \<open>Comparing versions\<close>

definition vpop :: "vpart list \<Rightarrow> (int \<times> vkey option) \<times> vpart list" where
  "vpop v = (case v of [] \<Rightarrow> ((0, None), []) | (ord, c) # r \<Rightarrow> ((ord, Some c), r))"

function vercmp_loop :: "vpart list \<Rightarrow> vpart list \<Rightarrow> int" where
  "vercmp_loop va vb =
     (let pa = vpop va; pb = vpop vb; oa = fst (fst pa); ca = snd (fst pa);
          ob = fst (fst pb); cb = snd (fst pb)
      in if (oa, ca) = (0, None) \<and> (ob, cb) = (0, None) then 0
         else if oa < ob then -1
         else if oa > ob then 1
         else if ca = None then -1
         else if cb = None then 1
         else if ca < cb then -1
         else if ca > cb then 1
         else vercmp_loop (snd pa) (snd pb))"
  by pat_completeness auto
termination
  by (relation "measure (\<lambda>(va, vb). length va + length vb)")
    (auto simp: vpop_def split: list.splits prod.splits)

declare vercmp_loop.simps [simp del]

definition vercmp_part :: "string \<Rightarrow> string \<Rightarrow> int res" where
  "vercmp_part a b =
     rbind (explode_version a) (\<lambda>va. rbind (explode_version b) (\<lambda>vb. Inr (vercmp_loop va vb)))"

text \<open>An epoch is the string of a recipe's \<open>PE\<close> or the integer \<open>split_version\<close> parsed.\<close>

datatype epoch = EInt int | EStr string

definition epoch_int :: "epoch \<Rightarrow> int res" where
  "epoch_int e = (case e of EInt n \<Rightarrow> Inr n | EStr s \<Rightarrow> if s = [] then Inr 0 else py_int s)"

type_synonym version = "epoch \<times> string \<times> string"

definition vercmp :: "version \<Rightarrow> version \<Rightarrow> int res" where
  "vercmp ta tb =
     (case ta of (ea, va, ra) \<Rightarrow> case tb of (eb, vb, rb) \<Rightarrow>
      rbind (epoch_int ea) (\<lambda>na. rbind (epoch_int eb) (\<lambda>nb.
        let r = na - nb in
        rbind (if r = 0 then vercmp_part va vb else Inr r) (\<lambda>r.
          if r = 0 then vercmp_part ra rb else Inr r))))"

definition split_version :: "string \<Rightarrow> version res" where
  "split_version s0 =
     (let s = strip_chars '' <>='' s0 in
      rbind (if count_char (CHR '':'') s > 0
             then rbind (py_int (hd (split_on (CHR '':'') s)))
                    (\<lambda>e. Inr (e, split_on (CHR '':'') s ! 1))
             else Inr (0, s))
        (\<lambda>(e, s).
           if count_char (CHR ''-'') s > 0
           then (case rsplit1 (CHR ''-'') s of
                   Some (v, r) \<Rightarrow> Inr (EInt e, v, r)
                 | None \<Rightarrow> Inl IndexError)
           else Inr (EInt e, s, [])))"

definition vercmp_string :: "string \<Rightarrow> string \<Rightarrow> int res" where
  "vercmp_string a b =
     rbind (split_version a) (\<lambda>ta. rbind (split_version b) (\<lambda>tb. vercmp ta tb))"

definition vercmp_string_op :: "string \<Rightarrow> string \<Rightarrow> string \<Rightarrow> bool res" where
  "vercmp_string_op a b op =
     rbind (vercmp_string a b) (\<lambda>res.
       if op \<in> {''='', ''==''} then Inr (res = 0)
       else if op = ''<='' then Inr (res \<le> 0)
       else if op = ''>='' then Inr (res \<ge> 0)
       else if op \<in> {''>'', ''>>''} then Inr (res > 0)
       else if op \<in> {''<'', ''<<''} then Inr (res < 0)
       else if op = ''!='' then Inr (res \<noteq> 0)
       else Inl (VersionStringException (''Unsupported comparison operator '' @ op)))"

section \<open>The order behind the comparison\<close>

text \<open>
  Reference order: part lists with an end marker, compared lexicographically. The marker is
  \<open>(0, None)\<close>, below every numeric part and above \<open>~\<close>.
\<close>

definition vkeys :: "vpart list \<Rightarrow> (int \<times> vkey option) list" where
  "vkeys v = map (\<lambda>(ord, c). (ord, Some c)) v @ [(0, None)]"

definition compare_linear :: "'a::linorder \<Rightarrow> 'a \<Rightarrow> int" where
  "compare_linear x y = (if x < y then -1 else if y < x then 1 else 0)"

lemma vkeys_Nil: "vkeys [] = [(0, None)]"
  by (simp add: vkeys_def)

lemma vkeys_Cons: "vkeys ((ord, c) # v) = (ord, Some c) # vkeys v"
  by (simp add: vkeys_def)

lemma vkeys_nonempty: "vkeys v \<noteq> []"
  by (simp add: vkeys_def)

lemma vercmp_loop_reference: "vercmp_loop va vb = compare_linear (vkeys va) (vkeys vb)"
proof (induction va vb rule: vercmp_loop.induct)
  case (1 va vb)
  show ?case
  proof (cases va)
    case Nil
    then show ?thesis
      by (subst vercmp_loop.simps, cases vb)
        (auto simp: Let_def vpop_def vkeys_Nil vkeys_Cons compare_linear_def)
  next
    case (Cons pa va')
    show ?thesis
    proof (cases vb)
      case Nil
      then show ?thesis using Cons
        by (subst vercmp_loop.simps, cases pa)
          (auto simp: Let_def vpop_def vkeys_Nil vkeys_Cons compare_linear_def)
    next
      case (Cons pb vb')
      obtain oa ca ob cb where p: "pa = (oa, ca)" "pb = (ob, cb)" by fastforce
      have va: "va = (oa, ca) # va'" and vb: "vb = (ob, cb) # vb'"
        using \<open>va = pa # va'\<close> Cons p by simp_all
      have IH: "oa = ob \<Longrightarrow> ca = cb \<Longrightarrow> vercmp_loop va' vb' = compare_linear (vkeys va') (vkeys vb')"
        using "1" va vb by (simp add: vpop_def)
      show ?thesis
        unfolding va vb
        by (subst vercmp_loop.simps, cases "oa < ob"; cases "ob < oa"; cases "ca < cb"; cases "cb < ca")
          (auto simp: Let_def vpop_def vkeys_Cons compare_linear_def IH)
    qed
  qed
qed

lemma compare_linear_comparator: "comparator compare_linear"
  by unfold_locales (auto simp: compare_linear_def split: if_splits)

lemma compare_linear_swap: "compare_linear y x = - compare_linear x y"
  by (auto simp: compare_linear_def)

lemma compare_linear_le_iff: "compare_linear x y \<le> 0 \<longleftrightarrow> x \<le> y"
  by (auto simp: compare_linear_def)

text \<open>Parsed version triples, and \<open>vercmp\<close> on them.\<close>

type_synonym vparsed = "int \<times> vpart list \<times> vpart list"

definition vparse :: "version \<Rightarrow> vparsed res" where
  "vparse t =
     (case t of (e, v, r) \<Rightarrow>
      rbind (epoch_int e) (\<lambda>n. rbind (explode_version v) (\<lambda>pv.
        rbind (explode_version r) (\<lambda>pr. Inr (n, pv, pr)))))"

definition vercmp_parsed :: "vparsed \<Rightarrow> vparsed \<Rightarrow> int" where
  "vercmp_parsed x y =
     (case x of (ea, va, ra) \<Rightarrow> case y of (eb, vb, rb) \<Rightarrow>
      if ea \<noteq> eb then ea - eb
      else if vercmp_loop va vb \<noteq> 0 then vercmp_loop va vb
      else vercmp_loop ra rb)"

lemma vercmp_vparse:
  "vparse ta = Inr x \<Longrightarrow> vparse tb = Inr y \<Longrightarrow> vercmp ta tb = Inr (vercmp_parsed x y)"
  by (cases ta; cases tb)
    (auto simp: vparse_def vercmp_def vercmp_parsed_def vercmp_part_def rbind_eq_Inr Let_def)

lemma vercmp_parsed_sgn:
  "sgn (vercmp_parsed (ea, va, ra) (eb, vb, rb)) =
     compare_linear (ea, vkeys va, vkeys ra) (eb, vkeys vb, vkeys rb)"
  by (auto simp: vercmp_parsed_def vercmp_loop_reference compare_linear_def less_prod_def)

interpretation vc: comparator vercmp_parsed
proof unfold_locales
  fix x y z :: vparsed
  obtain ea va ra eb vb rb ec vc' rc where p: "x = (ea, va, ra)" "y = (eb, vb, rb)"
      "z = (ec, vc', rc)"
    by (cases x; cases y; cases z) auto
  show "sgn (vercmp_parsed y x) = - sgn (vercmp_parsed x y)"
    by (simp only: p vercmp_parsed_sgn) (rule compare_linear_swap)
  have sg: "vercmp_parsed u v \<le> 0 \<longleftrightarrow> sgn (vercmp_parsed u v) \<le> 0" for u v
    by (simp add: sgn_if)
  show "vercmp_parsed x z \<le> 0" if "vercmp_parsed x y \<le> 0" and "vercmp_parsed y z \<le> 0"
    using that
    by (simp only: sg p vercmp_parsed_sgn compare_linear_le_iff)
qed

section \<open>Exploding: totality and structure\<close>

text \<open>The pieces never mix types at one order: numbers at 0, strings elsewhere.\<close>

definition part_ok :: "vpart \<Rightarrow> bool" where
  "part_ok p = (case p of (ord, c) \<Rightarrow>
     (case c of VNum n \<Rightarrow> ord = 0 \<and> 0 \<le> n | VStr s \<Rightarrow> ord \<in> {-1, 1, 2} \<and> s \<noteq> []))"

lemma part_ok_simps [simp]:
  "part_ok (n, VNum k) \<longleftrightarrow> n = 0 \<and> 0 \<le> k"
  "part_ok (n, VStr w) \<longleftrightarrow> n \<in> {-1, 1, 2} \<and> w \<noteq> []"
  by (simp_all add: part_ok_def)

lemma explode_version_total:
  assumes "CHR 0x0A \<notin> set s"
  shows "\<exists>v. explode_version s = Inr v \<and> list_all part_ok v"
  using assms
proof (induction s rule: explode_version.induct)
  case (1 s)
  have dw: "CHR 0x0A \<notin> set (dropWhile P s)" for P
    using "1.prems" by (meson set_dropWhileD)
  show ?case
  proof (cases "s = []")
    case True
    then show ?thesis by (simp add: explode_version.simps)
  next
    case False
    then have ne: "P (hd s) \<Longrightarrow> takeWhile P s \<noteq> []" for P by (cases s) auto
    have tl: "CHR 0x0A \<notin> set (tl s)" using "1.prems" False by (cases s) auto
    consider (dig) "is_digit (hd s)" | (alp) "\<not> is_digit (hd s)" "is_letter (hd s)"
      | (other) "\<not> is_digit (hd s)" "\<not> is_letter (hd s)" by blast
    then show ?thesis
    proof cases
      case dig
      have "list_all is_digit (takeWhile is_digit s)" by (auto simp: list_all_iff dest: set_takeWhileD)
      then show ?thesis using "1.IH"(1) [OF False dig dot_rest_free [OF dw] dw] dig False
        by (subst explode_version.simps) (auto simp: dw digits_val_nonneg)
    next
      case alp
      then show ?thesis using "1.IH"(2) [OF False alp dot_rest_free [OF dw] dw] False ne
        by (subst explode_version.simps) (auto simp: dw)
    next
      case other
      then show ?thesis using "1.IH"(3) [OF False other tl] False
        by (subst explode_version.simps) auto
    qed
  qed
qed

text \<open>A part that is neither digit nor letter splits the explosion.\<close>

lemma takeWhile_sep: "\<not> P c \<Longrightarrow> takeWhile P (s @ c # t) = takeWhile P s"
  by (induction s) auto

lemma dropWhile_sep: "\<not> P c \<Longrightarrow> dropWhile P (s @ c # t) = dropWhile P s @ c # t"
  by (induction s) auto

lemma explode_version_sep:
  assumes "CHR 0x0A \<notin> set s" and "CHR 0x0A \<notin> set t" and "c \<noteq> CHR 0x0A"
    and "\<not> is_digit c" and "\<not> is_letter c" and "explode_version s = Inr v"
  shows "explode_version (s @ c # t) =
    rbind (explode_version (c # t)) (\<lambda>w. Inr (v @ w))"
  using assms
proof (induction s arbitrary: v rule: explode_version.induct)
  case (1 s)
  obtain w where w: "explode_version (c # t) = Inr w"
    using explode_version_total [of "c # t"] "1.prems" by auto
  have dw: "CHR 0x0A \<notin> set (dropWhile P s)" for P
    using "1.prems" by (meson set_dropWhileD)
  have dwc: "CHR 0x0A \<notin> set (dropWhile P s @ c # t)" for P
    using "1.prems" dw by auto
  show ?case
  proof (cases "s = []")
    case True
    then show ?thesis using "1.prems" w by (simp add: explode_version.simps [of "[]"])
  next
    case False
    then have hd: "hd (s @ c # t) = hd s" and tl: "tl (s @ c # t) = tl s @ c # t"
      by (cases s; simp)+
    have tls: "CHR 0x0A \<notin> set (tl s)" using "1.prems" False by (cases s) auto
    consider (dig) "is_digit (hd s)" | (alp) "\<not> is_digit (hd s)" "is_letter (hd s)"
      | (other) "\<not> is_digit (hd s)" "\<not> is_letter (hd s)" by blast
    then show ?thesis
    proof cases
      case dig
      from "1.prems"(6) dig False obtain v' where v': "explode_version (dropWhile is_digit s) = Inr v'"
        "v = (0, VNum (digits_val (takeWhile is_digit s))) # v'"
        by (subst (asm) explode_version.simps) (auto simp: dw rbind_eq_Inr)
      show ?thesis
        using "1.IH"(1) [OF False dig dot_rest_free [OF dw] dw "1.prems"(2-5) v'(1)] dig False w v'
        by (subst explode_version.simps)
          (simp add: hd takeWhile_sep [of _ c s t] dropWhile_sep [of _ c s t] "1.prems"(4,5)
            dot_rest_free [OF dwc])
    next
      case alp
      from "1.prems"(6) alp False obtain v' where v': "explode_version (dropWhile is_letter s) = Inr v'"
        "v = (1, VStr (takeWhile is_letter s)) # v'"
        by (subst (asm) explode_version.simps) (auto simp: dw rbind_eq_Inr)
      show ?thesis
        using "1.IH"(2) [OF False alp dot_rest_free [OF dw] dw "1.prems"(2-5) v'(1)] alp False w v'
        by (subst explode_version.simps)
          (simp add: hd takeWhile_sep [of _ c s t] dropWhile_sep [of _ c s t] "1.prems"(4,5)
            dot_rest_free [OF dwc])
    next
      case other
      from "1.prems"(6) other False obtain v' where v': "explode_version (tl s) = Inr v'"
        "v = (if hd s = CHR ''~'' then (-1, VStr [hd s]) else (2, VStr [hd s])) # v'"
        by (subst (asm) explode_version.simps) (auto simp: rbind_eq_Inr)
      show ?thesis
        using "1.IH"(3) [OF False other tls "1.prems"(2-5) v'(1)] other False w v'
        by (subst explode_version.simps) (simp add: hd tl)
    qed
  qed
qed

lemma vkeys_append_less:
  "vkeys (v @ (-1, c) # w) < vkeys v"
  by (induction v) (auto simp: vkeys_Nil vkeys_Cons split: prod.split)

section \<open>Properties\<close>

lemma vparse_total:
  assumes "CHR 0x0A \<notin> set v" and "CHR 0x0A \<notin> set r"
  shows "\<exists>pv pr. vparse (EInt e, v, r) = Inr (e, pv, pr)"
  using explode_version_total [OF assms(1)] explode_version_total [OF assms(2)]
  by (auto simp: vparse_def epoch_int_def)

text \<open>On versions without a line break, \<open>vercmp_part\<close> always returns, and its result is the
  comparison of the exploded parts in the lexicographic order with an end marker.\<close>

theorem vercmp_part_correct:
  assumes "CHR 0x0A \<notin> set a" and "CHR 0x0A \<notin> set b"
  shows "\<exists>va vb. explode_version a = Inr va \<and> explode_version b = Inr vb \<and>
    list_all part_ok va \<and> list_all part_ok vb \<and>
    vercmp_part a b = Inr (compare_linear (vkeys va) (vkeys vb))"
proof -
  obtain va vb where "explode_version a = Inr va" "list_all part_ok va"
      "explode_version b = Inr vb" "list_all part_ok vb"
    using explode_version_total assms by blast
  then show ?thesis by (simp add: vercmp_part_def vercmp_loop_reference)
qed

lemma vercmp_part_correct_witness:
  "\<exists>va vb. explode_version ''1.10'' = Inr va \<and> explode_version ''1.9'' = Inr vb \<and>
    list_all part_ok va \<and> list_all part_ok vb \<and>
    vercmp_part ''1.10'' ''1.9'' = Inr (compare_linear (vkeys va) (vkeys vb))"
  by (rule vercmp_part_correct) simp_all

text \<open>C39: \<open>vercmp\<close> is a total preorder on the version triples whose fields parse: it returns, the two
  directions have opposite signs, and "at most" composes.\<close>

theorem vercmp_total_preorder:
  assumes "vparse ta = Inr x" and "vparse tb = Inr y" and "vparse tc = Inr z"
  shows "\<exists>ab ba bc ac. vercmp ta tb = Inr ab \<and> vercmp tb ta = Inr ba \<and> vercmp tb tc = Inr bc \<and>
    vercmp ta tc = Inr ac \<and> sgn ba = - sgn ab \<and> (ab \<le> 0 \<and> bc \<le> 0 \<longrightarrow> ac \<le> 0)"
proof (intro exI conjI impI)
  show "vercmp ta tb = Inr (vercmp_parsed x y)" "vercmp tb ta = Inr (vercmp_parsed y x)"
    "vercmp tb tc = Inr (vercmp_parsed y z)" "vercmp ta tc = Inr (vercmp_parsed x z)"
    using assms by (simp_all only: vercmp_vparse)
  show "sgn (vercmp_parsed y x) = - sgn (vercmp_parsed x y)" by (rule vc.cmp_sym)
  show "vercmp_parsed x z \<le> 0" if "vercmp_parsed x y \<le> 0 \<and> vercmp_parsed y z \<le> 0"
    using that vc.cmp_trans by blast
qed

lemma vercmp_total_preorder_witness:
  "\<exists>ab ba bc ac. vercmp (EInt 0, ''1'', ''r0'') (EInt 1, ''0'', []) = Inr ab \<and>
    vercmp (EInt 1, ''0'', []) (EInt 0, ''1'', ''r0'') = Inr ba \<and>
    vercmp (EInt 1, ''0'', []) (EInt 0, ''1'', ''r0'') = Inr bc \<and>
    vercmp (EInt 0, ''1'', ''r0'') (EInt 0, ''1'', ''r0'') = Inr ac \<and>
    sgn ba = - sgn ab \<and> (ab \<le> 0 \<and> bc \<le> 0 \<longrightarrow> ac \<le> 0)"
proof -
  obtain x y where "vparse (EInt 0, ''1'', ''r0'') = Inr x" "vparse (EInt 1, ''0'', []) = Inr y"
    using vparse_total [of "''1''" "''r0''" 0] vparse_total [of "''0''" "[]" 1] by auto
  then show ?thesis by (intro vercmp_total_preorder)
qed

text \<open>A pre-release suffix introduced by \<open>~\<close> sorts before the version it is attached to,
  whatever follows the \<open>~\<close>.\<close>

theorem tilde_sorts_before:
  assumes "CHR 0x0A \<notin> set v" and "CHR 0x0A \<notin> set x"
  shows "vercmp_part (v @ ''~'' @ x) v = Inr (-1)"
proof -
  obtain pv where pv: "explode_version v = Inr pv"
    using explode_version_total [OF assms(1)] by blast
  obtain px where px: "explode_version x = Inr px"
    using explode_version_total [OF assms(2)] by blast
  have tilde: "explode_version (CHR ''~'' # x) = Inr ((-1, VStr ''~'') # px)"
    using px by (subst explode_version.simps) (simp add: is_digit_def is_letter_def)
  have "explode_version (v @ CHR ''~'' # x) = Inr (pv @ (-1, VStr ''~'') # px)"
    using explode_version_sep [OF assms, of "CHR ''~''" pv] pv tilde
    by (simp add: is_digit_def is_letter_def)
  then show ?thesis using pv vkeys_append_less
    by (simp add: vercmp_part_def vercmp_loop_reference compare_linear_def)
qed

lemma tilde_sorts_before_witness: "vercmp_part (''2.0'' @ ''~'' @ ''rc1'') ''2.0'' = Inr (-1)"
  by (rule tilde_sorts_before) simp_all

lemma strip_chars_id:
  assumes "s \<noteq> []" and "hd s \<notin> set cs" and "last s \<notin> set cs"
  shows "strip_chars cs s = s"
proof -
  have d: "u \<noteq> [] \<Longrightarrow> hd u \<notin> set cs \<Longrightarrow> dropWhile (\<lambda>c. c \<in> set cs) u = u" for u
    by (cases u) auto
  show ?thesis using assms d [of s] d [of "rev s"] by (simp add: strip_chars_def hd_rev)
qed

lemma py_int_digits:
  assumes "s \<noteq> []" and "list_all is_digit s"
  shows "py_int s = Inr (digits_val s)"
proof -
  have sp: "\<not> is_space c" "c \<noteq> CHR ''-''" "c \<noteq> CHR ''+''" "c \<noteq> CHR ''_''" if "is_digit c" for c
    using that by (auto simp: is_digit_def is_space_def Let_def)
  have d: "u \<noteq> [] \<Longrightarrow> list_all is_digit u \<Longrightarrow> dropWhile is_space u = u" for u
    using sp by (cases u) auto
  have "strip s = s" using assms d [of s] d [of "rev s"] by (simp add: strip_def list_all_iff)
  moreover have "split_on (CHR ''_'') s = [s]"
    using assms sp(4) by (intro split_on_free) (auto simp: list_all_iff)
  moreover obtain c t where "s = c # t" using assms(1) by (cases s) auto
  ultimately show ?thesis using assms sp(2,3) [of c]
    by (simp add: py_int_def Let_def int_body_def)
qed

text \<open>\<open>split_version\<close> reads back the \<open>PE:PV-PR\<close> form it documents: epoch, version (which may
  itself contain dashes) and revision come out as they went in.\<close>

theorem split_version_roundtrip:
  assumes "pe \<noteq> []" and "list_all is_digit pe" and "CHR '':'' \<notin> set pv"
    and "pr \<noteq> []" and "CHR '':'' \<notin> set pr" and "CHR ''-'' \<notin> set pr" and "last pr \<notin> set '' <>=''"
  shows "split_version (pe @ '':'' @ pv @ ''-'' @ pr) = Inr (EInt (digits_val pe), pv, pr)"
proof -
  let ?s = "pe @ '':'' @ pv @ ''-'' @ pr"
  have "hd pe \<notin> set '' <>=''"
    using assms(1,2) by (cases pe) (auto simp: is_digit_def Let_def)
  then have "strip_chars '' <>='' ?s = ?s"
    using assms by (intro strip_chars_id) auto
  moreover have "CHR '':'' \<notin> set pe"
    using assms(2) by (auto simp: list_all_iff is_digit_def Let_def)
  then have "split_on (CHR '':'') ?s = [pe, pv @ ''-'' @ pr]"
    using assms by (simp add: split_on_append split_on_free)
  ultimately show ?thesis
    using assms rsplit1_append [of "CHR ''-''" pr pv] py_int_digits [OF assms(1,2)]
    by (simp add: split_version_def Let_def count_char_def)
qed

lemma split_version_roundtrip_witness:
  "split_version (''2'' @ '':'' @ ''1.0-beta'' @ ''-'' @ ''r3'') =
     Inr (EInt (digits_val ''2''), ''1.0-beta'', ''r3'')"
  by (rule split_version_roundtrip) (simp_all add: is_digit_def)

end
