(* ===== verification/DepStrings.thy ===== *)
theory DepStrings
  imports PyString
begin

text \<open>
  Dependency strings, from \<open>bb/utils.py\<close>: \<open>explode_deps\<close> drops version constraints,
  \<open>explode_dep_versions2\<close> collects them per dependency, \<open>explode_dep_versions\<close> keeps one each, and
  \<open>join_deps\<close> prints a dictionary back. Reading back what \<open>join_deps\<close> printed gives the
  dictionary again.
\<close>

section \<open>Dropping versions\<close>

definition explode_deps_step :: "string \<Rightarrow> string list \<times> bool \<Rightarrow> string list \<times> bool" where
  "explode_deps_step i st =
     (case st of (r, flag) \<Rightarrow>
      let flag = (flag \<or> hd i = CHR ''('');
          r = (if \<not> flag then r @ [i] else r)
      in (r, if flag \<and> suffix '')'' i then False else flag))"

definition explode_deps :: "string \<Rightarrow> string list" where
  "explode_deps s = fst (fold explode_deps_step (words s) ([], False))"

section \<open>Collecting versions\<close>

record dvstate =
  dv_r :: "(string option, string list) dict"
  dv_lastdep :: "string option"
  dv_lastcmp :: string
  dv_lastver :: string
  dv_incmp :: bool
  dv_inversion :: bool

definition cmp2 :: "string list" where
  "cmp2 = [''<='', ''=<'', ''<<'', ''=='', ''!='', ''>='', ''=>'', ''>>'']"

definition cmp1 :: "string list" where
  "cmp1 = [''<'', ''>'', ''='']"

definition dv_version :: "string \<Rightarrow> dvstate \<Rightarrow> dvstate" where
  "dv_version i0 st =
     (let closed = suffix '')'' i0;
          i = (if closed then butlast i0 else i0);
          st = (if closed
                then st\<lparr>dv_inversion := False,
                        dv_lastver := (if dv_lastver st \<noteq> [] \<and> i \<noteq> [] then dv_lastver st @ '' ''
                                       else dv_lastver st)\<rparr>
                else st)
      in if i \<noteq> [] then
           let lastver = dv_lastver st @ i;
               old = dget (dv_r st) (dv_lastdep st) []
           in st\<lparr>dv_lastver := lastver,
                 dv_r := AList.update (dv_lastdep st) (old @ [dv_lastcmp st @ '' '' @ lastver])
                           (dv_r st)\<rparr>
         else st)"

definition dv_name :: "string \<Rightarrow> dvstate \<Rightarrow> dvstate" where
  "dv_name i st =
     (let st = st\<lparr>dv_lastdep := Some i, dv_lastver := [], dv_lastcmp := []\<rparr>
      in if has_key (dv_r st) (Some i) \<and> dget (dv_r st) (Some i) [] \<noteq> [] then st
         else st\<lparr>dv_r := AList.update (Some i) [] (dv_r st)\<rparr>)"

definition dv_compare :: "string \<Rightarrow> dvstate \<Rightarrow> dvstate res" where
  "dv_compare i st =
     (let st = st\<lparr>dv_incmp := False, dv_inversion := True\<rparr> in
      if \<exists>p \<in> set cmp2. prefix p i then
        let st = st\<lparr>dv_lastcmp := take 2 i\<rparr>; i = drop 2 i
        in if i = [] then Inr st else Inr (dv_version i st)
      else if \<exists>p \<in> set cmp1. prefix p i then
        let st = st\<lparr>dv_lastcmp := take 1 i\<rparr>; i = drop 1 i
        in if i = [] then Inr st else Inr (dv_version i st)
      else Inl (VersionStringException (''Invalid version specification in ('' @ i)))"

definition dv_step :: "string \<Rightarrow> dvstate \<Rightarrow> dvstate res" where
  "dv_step i0 st =
     (let open = (hd i0 = CHR ''('');
          i = (if open then strip (tl i0) else i0);
          st = (if open then st\<lparr>dv_incmp := True\<rparr> else st)
      in if open \<and> i = [] then Inr st
         else if dv_incmp st then dv_compare i st
         else if dv_inversion st then Inr (dv_version i st)
         else Inr (dv_name i st))"

definition dv_init :: dvstate where
  "dv_init = \<lparr>dv_r = [], dv_lastdep = None, dv_lastcmp = [], dv_lastver = [],
              dv_incmp = False, dv_inversion = False\<rparr>"

text \<open>
  The keys are sorted at the end; a version with no dependency before it is stored under \<open>None\<close>,
  and sorting \<open>None\<close> against a name raises \<open>TypeError\<close>.
\<close>

definition dv_sorted :: "(string option, string list) dict \<Rightarrow> (string option, string list) dict res"
  where
  "dv_sorted r =
     (if None \<in> set (dkeys r) \<and> length r \<ge> 2 then Inl TypeError
      else Inr (sort_key (\<lambda>x. case fst x of None \<Rightarrow> [] | Some n \<Rightarrow> n) r))"

definition explode_dep_versions2 :: "string \<Rightarrow> bool \<Rightarrow> (string option, string list) dict res" where
  "explode_dep_versions2 s srt =
     rbind (rfold dv_step (words (replace_all '','' '''' s)) dv_init) (\<lambda>st.
       if srt then dv_sorted (dv_r st) else Inr (dv_r st))"

datatype depval = DNone | DStr string | DList "string list"

definition explode_dep_versions :: "string \<Rightarrow> (string option, depval) dict res" where
  "explode_dep_versions s =
     rbind (explode_dep_versions2 s True) (\<lambda>r.
       Inr (map (\<lambda>(d, vs). (d, case vs of [] \<Rightarrow> DNone | v # _ \<Rightarrow> DStr v)) r))"

section \<open>Printing\<close>

definition join_entry :: "string \<times> depval \<Rightarrow> string list" where
  "join_entry p =
     (case p of (dep, val) \<Rightarrow>
      case val of
        DList vs \<Rightarrow> if vs = [] then [dep] else map (\<lambda>v. dep @ '' ('' @ v @ '')'') vs
      | DStr v \<Rightarrow> if v = [] then [dep] else [dep @ '' ('' @ v @ '')'']
      | DNone \<Rightarrow> [dep])"

definition join_deps :: "(string, depval) dict \<Rightarrow> bool \<Rightarrow> string" where
  "join_deps deps commasep =
     (let result = concat (map join_entry deps)
      in if commasep then join '', '' result else join '' '' result)"

section \<open>Reading back what was printed\<close>

text \<open>A word that may stand for a dependency or a version: no blank, comma or opening bracket.\<close>

definition plain_word :: "string \<Rightarrow> bool" where
  "plain_word w = (w \<noteq> [] \<and> hd w \<noteq> CHR ''('' \<and> list_all (\<lambda>c. \<not> is_space c \<and> c \<noteq> CHR '','') w)"

type_synonym constraint = "string \<times> string"

definition wf_constraint :: "constraint \<Rightarrow> bool" where
  "wf_constraint c = (fst c \<in> set (cmp2 @ cmp1) \<and> plain_word (snd c))"

definition render :: "constraint \<Rightarrow> string" where
  "render c = fst c @ '' '' @ snd c"

definition render_deps :: "(string, constraint list) dict \<Rightarrow> (string, depval) dict" where
  "render_deps d = map (\<lambda>(n, cs). (n, DList (map render cs))) d"

definition wf_deps :: "(string, constraint list) dict \<Rightarrow> bool" where
  "wf_deps d = (distinct (map fst d) \<and> sorted (map fst d) \<and>
     list_all (\<lambda>(n, cs). plain_word n \<and> list_all wf_constraint cs) d)"

text \<open>The tokens a printed constraint, entry and dictionary are read as.\<close>

definition constraint_tokens :: "string \<Rightarrow> constraint \<Rightarrow> string list" where
  "constraint_tokens n c = [n, CHR ''('' # fst c, snd c @ '')'']"

definition entry_tokens :: "string \<times> constraint list \<Rightarrow> string list" where
  "entry_tokens p = (if snd p = [] then [fst p] else concat (map (constraint_tokens (fst p)) (snd p)))"

lemma filter_join: "filter P (join sep ws) = join (filter P sep) (map (filter P) ws)"
  by (induction sep ws rule: join.induct) auto

lemma plain_word_words: "plain_word w \<Longrightarrow> words w = [w]"
  by (intro words_single) (auto simp: plain_word_def list_all_iff)

lemma plain_word_filter: "plain_word w \<Longrightarrow> filter (\<lambda>c. c \<noteq> CHR '','') w = w"
  by (auto simp: plain_word_def list_all_iff filter_id_conv)

lemma cmp_cases:
  "op \<in> set (cmp2 @ cmp1) \<Longrightarrow> op \<in> set cmp2 \<or> op \<in> {''<'', ''>'', ''=''}"
  by (auto simp: cmp1_def)

lemma cmp_chars:
  assumes "op \<in> set (cmp2 @ cmp1)"
  shows "op \<noteq> []" and "\<And>c. c \<in> set op \<Longrightarrow> \<not> is_space c \<and> c \<noteq> CHR '','' \<and> c \<noteq> CHR '')''"
proof -
  have "list_all (\<lambda>op. op \<noteq> [] \<and> list_all (\<lambda>c. \<not> is_space c \<and> c \<noteq> CHR '','' \<and> c \<noteq> CHR '')'') op)
      (cmp2 @ cmp1)"
    by code_simp
  then show "op \<noteq> []" and "\<And>c. c \<in> set op \<Longrightarrow> \<not> is_space c \<and> c \<noteq> CHR '','' \<and> c \<noteq> CHR '')''"
    using assms by (auto simp: list_all_iff)
qed

lemma words_spec:
  assumes "op \<in> set (cmp2 @ cmp1)" and "plain_word n" and "plain_word ver"
  shows "words (n @ '' ('' @ (op @ '' '' @ ver) @ '')'') = [n, CHR ''('' # op, ver @ '')'']"
proof -
  have op: "words (CHR ''('' # op) = [CHR ''('' # op]"
  proof (rule words_single)
    show "\<not> is_space x" if "x \<in> set (CHR ''('' # op)" for x
      using that cmp_chars(2) [OF assms(1), of x] by (cases "x = CHR ''(''") simp_all
  qed simp
  have ver: "words (ver @ '')'') = [ver @ '')'']"
  proof (rule words_single)
    show "\<not> is_space x" if "x \<in> set (ver @ '')'')" for x
    proof (cases "x \<in> set ver")
      case True
      with assms(3) show ?thesis by (simp add: plain_word_def list_all_iff)
    next
      case False
      with that show ?thesis by simp
    qed
  qed simp
  have "words (n @ CHR '' '' # (CHR ''('' # op) @ CHR '' '' # ver @ '')'') =
      words n @ words (CHR ''('' # op) @ words (ver @ '')'')"
    by (simp only: words_append is_space_blank)
  then show ?thesis using assms(2) op ver by (simp add: plain_word_words)
qed

lemma filter_spec:
  assumes "op \<in> set (cmp2 @ cmp1)" and "plain_word n" and "plain_word ver"
  shows "filter (\<lambda>c. c \<noteq> CHR '','') (n @ '' ('' @ (op @ '' '' @ ver) @ '')'') =
    n @ '' ('' @ (op @ '' '' @ ver) @ '')''"
proof -
  have "filter (\<lambda>c. c \<noteq> CHR '','') op = op"
    by (auto simp: filter_id_conv dest: cmp_chars(2) [OF assms(1)])
  then show ?thesis using assms(2,3) by (simp add: plain_word_filter)
qed

lemma printed_entry:
  assumes "plain_word n" and "list_all wf_constraint cs"
  shows "map (filter (\<lambda>c. c \<noteq> CHR '','')) (join_entry (n, DList (map render cs))) =
      join_entry (n, DList (map render cs))"
    and "concat (map words (join_entry (n, DList (map render cs)))) = entry_tokens (n, cs)"
proof -
  have "filter (\<lambda>x. x \<noteq> CHR '','') (n @ '' ('' @ render c @ '')'') = n @ '' ('' @ render c @ '')''"
    and "words (n @ '' ('' @ render c @ '')'') = constraint_tokens n c" if "c \<in> set cs" for c
    using that assms filter_spec [of "fst c" n "snd c"] words_spec [of "fst c" n "snd c"]
    by (simp_all add: list_all_iff wf_constraint_def render_def constraint_tokens_def)
  then show "map (filter (\<lambda>c. c \<noteq> CHR '','')) (join_entry (n, DList (map render cs))) =
      join_entry (n, DList (map render cs))"
    and "concat (map words (join_entry (n, DList (map render cs)))) = entry_tokens (n, cs)"
    using assms(1)
    by (simp_all add: join_entry_def entry_tokens_def plain_word_filter plain_word_words comp_def
        cong: map_cong)
qed

lemma printed_items:
  assumes "wf_deps d"
  shows "map (filter (\<lambda>c. c \<noteq> CHR '','')) (concat (map join_entry (render_deps d))) =
      concat (map join_entry (render_deps d))"
    and "concat (map words (concat (map join_entry (render_deps d)))) = concat (map entry_tokens d)"
proof -
  have "\<forall>(n, cs) \<in> set d. plain_word n \<and> list_all wf_constraint cs"
    using assms by (simp add: wf_deps_def list_all_iff)
  then show "map (filter (\<lambda>c. c \<noteq> CHR '','')) (concat (map join_entry (render_deps d))) =
      concat (map join_entry (render_deps d))"
    and "concat (map words (concat (map join_entry (render_deps d)))) = concat (map entry_tokens d)"
    by (induction d) (auto simp: render_deps_def printed_entry)
qed

lemma items_comma_free:
  "wf_deps d \<Longrightarrow>
    filter (\<lambda>c. c \<noteq> CHR '','') (join_deps (render_deps d) commasep) = join_deps (render_deps d) False"
  by (cases commasep) (simp_all add: join_deps_def Let_def filter_join printed_items)

lemma words_printed:
  assumes "wf_deps d"
  shows "words (join_deps (render_deps d) False) = concat (map entry_tokens d)"
  using assms by (simp add: join_deps_def words_join_concat printed_items)

lemma words_printed_commas:
  assumes "wf_deps d"
  shows "words (replace_all '','' '''' (join_deps (render_deps d) commasep)) =
    concat (map entry_tokens d)"
  using assms by (simp add: replace_all_delete items_comma_free words_printed)

lemma dv_constraint:
  assumes "plain_word n" and "wf_constraint c" and "\<not> dv_incmp st" and "\<not> dv_inversion st"
  shows "\<exists>st'. rfold dv_step (constraint_tokens n c) st = Inr st' \<and>
    \<not> dv_incmp st' \<and> \<not> dv_inversion st' \<and>
    dv_r st' = AList.update (Some n) (dget (dv_r st) (Some n) [] @ [render c]) (dv_r st)"
proof -
  obtain op ver where c: "c = (op, ver)" by (cases c)
  have op: "op \<in> set (cmp2 @ cmp1)" and ver: "plain_word ver"
    using assms(2) c by (auto simp: wf_constraint_def)
  have "hd n \<noteq> CHR ''(''" "n \<noteq> []" using assms(1) by (auto simp: plain_word_def)
  then have s1: "dv_step n st = Inr (dv_name n st)"
    using assms by (simp add: dv_step_def)
  have inc: "\<not> dv_incmp (dv_name n st)" "\<not> dv_inversion (dv_name n st)"
      "dv_lastdep (dv_name n st) = Some n"
    using assms by (auto simp: dv_name_def Let_def)
  have strip: "strip op = op" by (rule strip_spaceless) (auto dest: cmp_chars(2) [OF op])
  have s2: "dv_step (CHR ''('' # op) (dv_name n st) =
      Inr ((dv_name n st)\<lparr>dv_incmp := False, dv_inversion := True, dv_lastcmp := op\<rparr>)"
  proof (cases "op \<in> set cmp2")
    case True
    then have "take 2 op = op" "drop 2 op = []" by (auto simp: cmp2_def)
    then show ?thesis using True strip cmp_chars(1) [OF op]
      by (auto simp: dv_step_def dv_compare_def Let_def)
  next
    case False
    then have o: "op \<in> {''<'', ''>'', ''=''}" using cmp_cases [OF op] by blast
    then have "\<not> (\<exists>p \<in> set cmp2. prefix p op)" by (auto simp: cmp2_def)
    moreover have "\<exists>p \<in> set cmp1. prefix p op" "take 1 op = op" "drop 1 op = []"
      using o by (auto simp: cmp1_def)
    ultimately show ?thesis using strip cmp_chars(1) [OF op]
      by (auto simp: dv_step_def dv_compare_def Let_def)
  qed
  let ?t = "(dv_name n st)\<lparr>dv_incmp := False, dv_inversion := True, dv_lastcmp := op\<rparr>"
  have "hd (ver @ '')'') \<noteq> CHR ''(''" using ver by (cases ver) (auto simp: plain_word_def)
  then have s3: "dv_step (ver @ '')'') ?t = Inr (dv_version (ver @ '')'') ?t)"
    by (simp add: dv_step_def)
  have ne: "ver \<noteq> []" using ver by (simp add: plain_word_def)
  have last: "dv_lastver (dv_name n st) = []" by (simp add: dv_name_def Let_def)
  have old: "dget (dv_r (dv_name n st)) (Some n) [] = dget (dv_r st) (Some n) []"
    by (auto simp: dv_name_def Let_def dget_def has_key_def update_conv split: option.split)
  have upd: "AList.update (Some n) x (dv_r (dv_name n st)) = AList.update (Some n) x (dv_r st)" for x
    by (simp add: dv_name_def Let_def)
  show ?thesis
    using s1 s2 s3 ne last
    by (simp add: c constraint_tokens_def dv_version_def Let_def inc old upd render_def)
qed

lemma dv_constraints:
  assumes "plain_word n" and "list_all wf_constraint cs" and "cs \<noteq> []"
    and "\<not> dv_incmp st" and "\<not> dv_inversion st"
  shows "\<exists>st'. rfold dv_step (concat (map (constraint_tokens n) cs)) st = Inr st' \<and>
    \<not> dv_incmp st' \<and> \<not> dv_inversion st' \<and>
    dv_r st' = AList.update (Some n) (dget (dv_r st) (Some n) [] @ map render cs) (dv_r st)"
  using assms(2-)
proof (induction cs arbitrary: st)
  case Nil
  then show ?case by simp
next
  case (Cons c cs)
  obtain st1 where st1: "rfold dv_step (constraint_tokens n c) st = Inr st1"
      "\<not> dv_incmp st1" "\<not> dv_inversion st1"
      "dv_r st1 = AList.update (Some n) (dget (dv_r st) (Some n) [] @ [render c]) (dv_r st)"
    using dv_constraint [of n c st] assms(1) Cons.prems by auto
  show ?case
  proof (cases "cs = []")
    case True
    then show ?thesis using st1 by simp
  next
    case False
    then obtain st2 where "rfold dv_step (concat (map (constraint_tokens n) cs)) st1 = Inr st2"
        "\<not> dv_incmp st2" "\<not> dv_inversion st2"
        "dv_r st2 = AList.update (Some n) (dget (dv_r st1) (Some n) [] @ map render cs) (dv_r st1)"
      using Cons.IH [of st1] Cons.prems st1 by auto
    then show ?thesis using st1 by (simp add: rfold_append)
  qed
qed

lemma update_fresh: "\<not> has_key d k \<Longrightarrow> AList.update k v d = d @ [(k, v)]"
  by (induction d) (auto simp: has_key_def split: if_splits)

lemma dv_entry:
  assumes "plain_word n" and "list_all wf_constraint cs"
    and "\<not> dv_incmp st" and "\<not> dv_inversion st" and "\<not> has_key (dv_r st) (Some n)"
  shows "\<exists>st'. rfold dv_step (entry_tokens (n, cs)) st = Inr st' \<and>
    \<not> dv_incmp st' \<and> \<not> dv_inversion st' \<and>
    dv_r st' = dv_r st @ [(Some n, map render cs)]"
proof (cases "cs = []")
  case True
  have "hd n \<noteq> CHR ''(''" using assms(1) by (auto simp: plain_word_def)
  then show ?thesis using True assms
    by (auto simp: entry_tokens_def dv_step_def dv_name_def Let_def update_fresh)
next
  case False
  have "dget (dv_r st) (Some n) [] = []"
    using assms(5) by (simp add: dget_def has_key_def)
  then show ?thesis
    using dv_constraints [OF assms(1,2) False assms(3,4)] False assms(5)
    by (auto simp: entry_tokens_def update_fresh)
qed

lemma dv_entries:
  assumes "list_all (\<lambda>(n, cs). plain_word n \<and> list_all wf_constraint cs) d"
    and "distinct (map fst d)" and "\<not> dv_incmp st" and "\<not> dv_inversion st"
    and "\<And>n. n \<in> fst ` set d \<Longrightarrow> \<not> has_key (dv_r st) (Some n)"
  shows "\<exists>st'. rfold dv_step (concat (map entry_tokens d)) st = Inr st' \<and>
    dv_r st' = dv_r st @ map (\<lambda>(n, cs). (Some n, map render cs)) d"
  using assms
proof (induction d arbitrary: st)
  case Nil
  then show ?case by simp
next
  case (Cons p d)
  obtain n cs where p: "p = (n, cs)" by (cases p)
  obtain st1 where st1: "rfold dv_step (entry_tokens (n, cs)) st = Inr st1"
      "\<not> dv_incmp st1" "\<not> dv_inversion st1" "dv_r st1 = dv_r st @ [(Some n, map render cs)]"
    using dv_entry [of n cs st] Cons.prems p by auto
  have fresh: "\<not> has_key (dv_r st1) (Some m)" if "m \<in> fst ` set d" for m
  proof -
    have "m \<noteq> n" using that Cons.prems(2) p by auto
    moreover have "\<not> has_key (dv_r st) (Some m)" using that Cons.prems(5) by simp
    ultimately show ?thesis by (simp add: st1(4) has_key_def map_of_eq_None_iff)
  qed
  obtain st2 where "rfold dv_step (concat (map entry_tokens d)) st1 = Inr st2"
      "dv_r st2 = dv_r st1 @ map (\<lambda>(n, cs). (Some n, map render cs)) d"
    using Cons.IH [OF _ _ st1(2,3) fresh] Cons.prems(1,2) by auto
  then show ?case using st1 p by (simp add: rfold_append)
qed

section \<open>Properties\<close>

text \<open>\<open>explode_dep_versions2\<close> reads back exactly what \<open>join_deps\<close> printed: for a dictionary
  of plain names in order, each with a list of constraints in any supported operator, printing it
  (comma separated or not) and exploding the text gives the dictionary again, sorted or unsorted.\<close>

theorem explode_join_roundtrip:
  assumes "wf_deps d"
  shows "explode_dep_versions2 (join_deps (render_deps d) commasep) srt =
    Inr (map (\<lambda>(n, cs). (Some n, map render cs)) d)"
proof -
  let ?r = "map (\<lambda>(n, cs). (Some n, map render cs)) d"
  obtain st where "rfold dv_step (concat (map entry_tokens d)) dv_init = Inr st" "dv_r st = ?r"
    using dv_entries [of d dv_init] assms by (auto simp: wf_deps_def dv_init_def has_key_def)
  then have loop: "explode_dep_versions2 (join_deps (render_deps d) commasep) srt =
      (if srt then dv_sorted ?r else Inr ?r)"
    using words_printed_commas [OF assms] by (simp add: explode_dep_versions2_def)
  have "map (\<lambda>x. case fst x of None \<Rightarrow> [] | Some n \<Rightarrow> n) ?r = map fst d"
    by (auto simp: case_prod_beta)
  then have "sort_key (\<lambda>x. case fst x of None \<Rightarrow> [] | Some n \<Rightarrow> n) ?r = ?r"
    using assms by (metis (no_types, lifting) sorted_sort_id sort_key_id_if_sorted wf_deps_def)
  moreover have "None \<notin> set (dkeys ?r)" by (auto simp: dkeys_def)
  ultimately show ?thesis using loop by (simp add: dv_sorted_def)
qed

definition sample_deps :: "(string, constraint list) dict" where
  "sample_deps = [(''bash'', []), (''glibc'', [(''>='', ''2.35''), (''<'', ''3'')])]"

lemma explode_join_roundtrip_witness:
  "explode_dep_versions2 (join_deps (render_deps sample_deps) True) True =
    Inr (map (\<lambda>(n, cs). (Some n, map render cs)) sample_deps)"
proof (rule explode_join_roundtrip)
  show "wf_deps sample_deps" by code_simp
qed

lemma explode_deps_constraint:
  assumes "plain_word n" and "wf_constraint c"
  shows "fold explode_deps_step (constraint_tokens n c) (r, False) = (r @ [n], False)"
proof -
  have op: "fst c \<in> set (cmp2 @ cmp1)" and n: "hd n \<noteq> CHR ''(''"
    using assms by (auto simp: wf_constraint_def plain_word_def)
  have "\<not> suffix '')'' (CHR ''('' # fst c)"
  proof
    assume "suffix '')'' (CHR ''('' # fst c)"
    then have "CHR '')'' \<in> set (fst c)" by (auto simp: suffix_def Cons_eq_append_conv)
    then show False using cmp_chars(2) [OF op] by blast
  qed
  then show ?thesis using n by (simp add: constraint_tokens_def explode_deps_step_def)
qed

lemma explode_deps_constraints:
  assumes "plain_word n" and "list_all wf_constraint cs"
  shows "fold explode_deps_step (concat (map (constraint_tokens n) cs)) (r, False) =
    (r @ replicate (length cs) n, False)"
  using assms(2)
  by (induction cs arbitrary: r)
    (simp_all add: explode_deps_constraint [OF assms(1)] del: fold_simps(2))

text \<open>\<open>explode_deps\<close> on a printed (blank separated) dictionary returns the names alone, once
  per constraint: no version text leaks into the dependency list.\<close>

theorem explode_deps_names:
  assumes "wf_deps d"
  shows "explode_deps (join_deps (render_deps d) False) =
    concat (map (\<lambda>(n, cs). if cs = [] then [n] else replicate (length cs) n) d)"
proof -
  have wf: "list_all (\<lambda>(n, cs). plain_word n \<and> list_all wf_constraint cs) d"
    using assms by (simp add: wf_deps_def)
  have "fold explode_deps_step (concat (map entry_tokens d)) (r, False) =
      (r @ concat (map (\<lambda>(n, cs). if cs = [] then [n] else replicate (length cs) n) d), False)" for r
    using wf
  proof (induction d arbitrary: r)
    case Nil
    then show ?case by simp
  next
    case (Cons p d)
    obtain n cs where p: "p = (n, cs)" by (cases p)
    with Cons.prems have n: "plain_word n" "hd n \<noteq> CHR ''(''" "list_all wf_constraint cs"
      by (auto simp: plain_word_def)
    have "fold explode_deps_step (entry_tokens (n, cs)) (r, False) =
        (r @ (if cs = [] then [n] else replicate (length cs) n), False)"
      using explode_deps_constraints [OF n(1,3)] n(2)
      by (simp add: entry_tokens_def explode_deps_step_def)
    then show ?case using Cons p by simp
  qed
  then show ?thesis by (simp add: explode_deps_def words_printed [OF assms])
qed


lemma explode_deps_names_witness:
  "explode_deps (join_deps (render_deps sample_deps) False) =
    concat (map (\<lambda>(n, cs). if cs = [] then [n] else replicate (length cs) n) sample_deps)"
proof (rule explode_deps_names)
  show "wf_deps sample_deps" by code_simp
qed

end
