(* ===== verification/DataCache.thy ===== *)
theory DataCache
  imports DepStrings
begin

text \<open>
  The recipe cache, from \<open>bb/cache.py\<close>: what a parsed recipe contributes (\<open>CoreRecipeInfo\<close>) and the
  tables built from every recipe (\<open>CacheData\<close>), which the provider resolution and the task queues
  read. The datastore a recipe was parsed into is the parameter \<open>getVar\<close>.

  The tables are dictionaries in insertion order. The tables that collect several files per key are
  \<open>defaultdict(list)\<close> in the code and are read with the empty list as default; the tables that
  hold one entry per recipe file are filled together, so a file that some table lists has an entry
  in all of them (\<open>cache_wf\<close>, kept by \<open>add_cacheData\<close>), and reading them never raises \<open>KeyError\<close>
  for such a file.
\<close>

section \<open>Task dependency tables of a recipe\<close>

record taskdeps =
  td_tasks :: "string list"
  td_parents :: "(string, string list) dict"
  td_flags :: "(string, (string, string) dict) dict"

text \<open>\<open>name in task_deps and task in task_deps[name]\<close>, and the value when both hold.\<close>

definition task_flag :: "taskdeps \<Rightarrow> string \<Rightarrow> string \<Rightarrow> string option" where
  "task_flag td name task =
     (case map_of (td_flags td) name of None \<Rightarrow> None | Some m \<Rightarrow> map_of m task)"

definition empty_taskdeps :: taskdeps where
  "empty_taskdeps = \<lparr>td_tasks = [], td_parents = [], td_flags = []\<rparr>"

section \<open>Recipe information\<close>

type_synonym getvar_fun = "string \<Rightarrow> string option"

text \<open>\<open>metadata.getVar(var) or ''\<close>, and the list, integer and dependency readings of it.\<close>

definition getvar :: "getvar_fun \<Rightarrow> string \<Rightarrow> string" where
  "getvar getVar var = (case getVar var of None \<Rightarrow> [] | Some s \<Rightarrow> s)"

definition listvar :: "getvar_fun \<Rightarrow> string \<Rightarrow> string list" where
  "listvar getVar var = words (getvar getVar var)"

definition intvar :: "getvar_fun \<Rightarrow> string \<Rightarrow> int res" where
  "intvar getVar var = (let s = getvar getVar var in if s = [] then Inr 0 else py_int s)"

definition depvar :: "getvar_fun \<Rightarrow> string \<Rightarrow> string list" where
  "depvar getVar var = explode_deps (getvar getVar var)"

definition pkgvar :: "getvar_fun \<Rightarrow> string \<Rightarrow> string list \<Rightarrow> (string, string list) dict" where
  "pkgvar getVar var packages =
     fold (\<lambda>pkg d. AList.update pkg (depvar getVar (var @ '':'' @ pkg)) d) packages []"

text \<open>\<open>flaglist\<close>: the flag of each task, without the unset and empty ones when squashed.\<close>

definition flaglist ::
  "(string \<Rightarrow> string \<Rightarrow> string option) \<Rightarrow> string \<Rightarrow> string list \<Rightarrow> bool \<Rightarrow> (string, string option) dict" where
  "flaglist getVarFlag flag varlist squash =
     (let out_dict = fold (\<lambda>var. AList.update var (getVarFlag var flag)) varlist []
      in if squash then filter (\<lambda>(k, v). v \<noteq> None \<and> v \<noteq> Some []) out_dict else out_dict)"

record recipe_info =
  ri_provides :: "string list"
  ri_rprovides :: "string list"
  ri_pn :: string
  ri_packages :: "string list"
  ri_packages_dynamic :: "string list"
  ri_rprovides_pkg :: "(string, string list) dict"
  ri_task_deps :: taskdeps
  ri_pe :: string
  ri_pv :: string
  ri_pr :: string
  ri_defaultpref :: int
  ri_not_world :: string
  ri_depends :: "string list"
  ri_rdepends :: "string list"
  ri_rrecommends :: "string list"
  ri_rdepends_pkg :: "(string, string list) dict"
  ri_rrecommends_pkg :: "(string, string list) dict"
  ri_hashfilename :: string
  ri_basetaskhashes :: "(string, string) dict"
  ri_stamp :: string
  ri_stampclean :: string
  ri_stamp_extrainfo :: "(string, string option) dict"
  ri_file_checksums :: "(string, string option) dict"
  ri_inherits :: "string list"
  ri_fakerootenv :: string
  ri_fakerootdirs :: string
  ri_fakerootlogs :: string
  ri_fakerootnoenv :: string
  ri_extradepsfunc :: string

text \<open>
  \<open>default_pn\<close> is the name \<open>vars_from_file\<close> derives from the file name, used when \<open>PN\<close> is unset;
  \<open>tasks\<close>, \<open>task_deps\<close>, \<open>basetaskhashes\<close> and \<open>inherited\<close> are the unexpanded variables
  \<open>__BBTASKS\<close>, \<open>_task_deps\<close>, \<open>__siggen_basehashes\<close> and \<open>__inherit_cache\<close> (with the defaults the
  code gives them when unset). A recipe whose \<open>__SKIPPED\<close> is set stops after the fields read
  before it (\<open>Inr None\<close>). The fields that only the parser's own bookkeeping reads (timestamp,
  file_depends, variants, appends, nocache, skipreason) are left out.
\<close>

definition core_recipe_info ::
  "getvar_fun \<Rightarrow> (string \<Rightarrow> string \<Rightarrow> string option) \<Rightarrow> string \<Rightarrow> string list \<Rightarrow>
    taskdeps \<Rightarrow> (string, string) dict \<Rightarrow> string list \<Rightarrow> recipe_info option res" where
  "core_recipe_info getVar getVarFlag default_pn tasks task_deps basetaskhashes inherited =
     (let pn = (if getvar getVar ''PN'' = [] then default_pn else getvar getVar ''PN'');
          packages0 = listvar getVar ''PACKAGES'';
          packages = (if packages0 = [] then [pn] else packages0)
      in if getvar getVar ''__SKIPPED'' \<noteq> [] then Inr None
         else rbind (intvar getVar ''DEFAULT_PREFERENCE'') (\<lambda>pref. Inr (Some
           \<lparr>ri_provides = depvar getVar ''PROVIDES'',
            ri_rprovides = depvar getVar ''RPROVIDES'',
            ri_pn = pn,
            ri_packages = packages,
            ri_packages_dynamic = listvar getVar ''PACKAGES_DYNAMIC'',
            ri_rprovides_pkg = pkgvar getVar ''RPROVIDES'' packages,
            ri_task_deps = task_deps,
            ri_pe = getvar getVar ''PE'',
            ri_pv = getvar getVar ''PV'',
            ri_pr = getvar getVar ''PR'',
            ri_defaultpref = pref,
            ri_not_world = getvar getVar ''EXCLUDE_FROM_WORLD'',
            ri_depends = depvar getVar ''DEPENDS'',
            ri_rdepends = depvar getVar ''RDEPENDS'',
            ri_rrecommends = depvar getVar ''RRECOMMENDS'',
            ri_rdepends_pkg = pkgvar getVar ''RDEPENDS'' packages,
            ri_rrecommends_pkg = pkgvar getVar ''RRECOMMENDS'' packages,
            ri_hashfilename = getvar getVar ''BB_HASHFILENAME'',
            ri_basetaskhashes = basetaskhashes,
            ri_stamp = getvar getVar ''STAMP'',
            ri_stampclean = getvar getVar ''STAMPCLEAN'',
            ri_stamp_extrainfo = flaglist getVarFlag ''stamp-extra-info'' tasks False,
            ri_file_checksums = flaglist getVarFlag ''file-checksums'' tasks True,
            ri_inherits = inherited,
            ri_fakerootenv = getvar getVar ''FAKEROOTENV'',
            ri_fakerootdirs = getvar getVar ''FAKEROOTDIRS'',
            ri_fakerootlogs = getvar getVar ''FAKEROOTLOGS'',
            ri_fakerootnoenv = getvar getVar ''FAKEROOTNOENV'',
            ri_extradepsfunc = getvar getVar ''calculate_extra_depends''\<rparr>)))"

text \<open>\<open>to_boolean(string, default)\<close> on strings: \<open>None\<close> is the default of an empty string.\<close>

definition lower :: "char \<Rightarrow> char" where
  "lower c = (let n = (of_char c :: nat) in
     if 65 \<le> n \<and> n \<le> 90 \<or> 192 \<le> n \<and> n \<le> 222 \<and> n \<noteq> 215 then char_of (n + 32) else c)"

definition to_boolean :: "string \<Rightarrow> bool option \<Rightarrow> bool option res" where
  "to_boolean s dflt =
     (if s = [] then Inr dflt
      else let normalized = map lower s in
        if normalized \<in> {''y'', ''yes'', ''1'', ''true''} then Inr (Some True)
        else if normalized \<in> {''n'', ''no'', ''0'', ''false''} then Inr (Some False)
        else Inl (ValueError (''Invalid value for to_boolean: '' @ s)))"

section \<open>The tables\<close>

record dcache =
  task_deps :: "(string, taskdeps) dict"
  pkg_fn :: "(string, string) dict"
  pkg_pn :: "(string, string list) dict"
  pkg_pepvpr :: "(string, string \<times> string \<times> string) dict"
  pkg_dp :: "(string, int) dict"
  fn_provides :: "(string, string list) dict"
  pn_provides :: "(string, string list) dict"
  all_depends :: "string list"
  deps :: "(string, string list) dict"
  packages :: "(string, string list) dict"
  providers :: "(string, string list) dict"
  rproviders :: "(string, string list) dict"
  packages_dynamic :: "(string, string list) dict"
  rundeps :: "(string, (string, string list) dict) dict"
  runrecs :: "(string, (string, string list) dict) dict"
  possible_world :: "string list"
  universe_target :: "string list"
  hashfn :: "(string, string) dict"
  basetaskhash :: "(string, string) dict"
  stamp :: "(string, string) dict"
  stampclean :: "(string, string) dict"
  stamp_extrainfo :: "(string, (string, string option) dict) dict"
  file_checksums :: "(string, (string, string option) dict) dict"
  inherits :: "(string, string list) dict"
  fakerootenv :: "(string, string) dict"
  fakerootdirs :: "(string, string) dict"
  fakerootlogs :: "(string, string) dict"
  fakerootnoenv :: "(string, string) dict"
  extradepsfunc :: "(string, string) dict"
  preferred :: "(string, string) dict"
  ignored_dependencies :: "string list"
  world_target :: "string list"
  bbfile_priority :: "(string, int) dict"

definition init_cacheData :: dcache where
  "init_cacheData =
     \<lparr>task_deps = [], pkg_fn = [], pkg_pn = [], pkg_pepvpr = [], pkg_dp = [], fn_provides = [],
      pn_provides = [], all_depends = [], deps = [], packages = [], providers = [],
      rproviders = [], packages_dynamic = [], rundeps = [], runrecs = [], possible_world = [],
      universe_target = [], hashfn = [], basetaskhash = [],
      stamp = [], stampclean = [], stamp_extrainfo = [], file_checksums = [], inherits = [],
      fakerootenv = [], fakerootdirs = [], fakerootlogs = [], fakerootnoenv = [],
      extradepsfunc = [], preferred = [],
      ignored_dependencies = [], world_target = [], bbfile_priority = []\<rparr>"

text \<open>\<open>d[k].append(x)\<close> and "append unless present" on a \<open>defaultdict(list)\<close>.\<close>

definition dappend :: "'k \<Rightarrow> 'a \<Rightarrow> ('k, 'a list) dict \<Rightarrow> ('k, 'a list) dict" where
  "dappend k x d = AList.update k (dget d k [] @ [x]) d"

definition dappend_new :: "'k \<Rightarrow> 'a \<Rightarrow> ('k, 'a list) dict \<Rightarrow> ('k, 'a list) dict" where
  "dappend_new k x d = AList.update k (sadd x (dget d k [])) d"

definition info_provides :: "recipe_info \<Rightarrow> string list" where
  "info_provides info = fold sadd (ri_provides info) [ri_pn info]"

definition info_rprovides :: "recipe_info \<Rightarrow> string list" where
  "info_rprovides info =
     fold (\<lambda>package r. r @ dget (ri_rprovides_pkg info) package []) (ri_packages info)
       (ri_rprovides info)"

definition add_cacheData :: "recipe_info \<Rightarrow> string \<Rightarrow> dcache \<Rightarrow> dcache res" where
  "add_cacheData info fn dc =
     (let provides = info_provides info;
          rundep = (\<lambda>all pkgs package. AList.update package (all @ dget pkgs package []));
          dc = dc\<lparr>task_deps := AList.update fn (ri_task_deps info) (task_deps dc),
                  pkg_fn := AList.update fn (ri_pn info) (pkg_fn dc),
                  pkg_pn := dappend (ri_pn info) fn (pkg_pn dc),
                  pkg_pepvpr := AList.update fn (ri_pe info, ri_pv info, ri_pr info) (pkg_pepvpr dc),
                  pkg_dp := AList.update fn (ri_defaultpref info) (pkg_dp dc),
                  stamp := AList.update fn (ri_stamp info) (stamp dc),
                  stampclean := AList.update fn (ri_stampclean info) (stampclean dc),
                  stamp_extrainfo := AList.update fn (ri_stamp_extrainfo info) (stamp_extrainfo dc),
                  file_checksums := AList.update fn (ri_file_checksums info) (file_checksums dc),
                  fn_provides := AList.update fn provides (fn_provides dc),
                  providers := fold (\<lambda>p. dappend p fn) provides (providers dc),
                  pn_provides := fold (dappend_new (ri_pn info)) provides (pn_provides dc),
                  deps := fold (dappend_new fn) (ri_depends info) (deps dc),
                  all_depends := fold sadd (ri_depends info) (all_depends dc),
                  packages := fold (\<lambda>p. dappend p fn) (ri_packages info) (packages dc),
                  rproviders := fold (\<lambda>p. dappend_new p fn) (info_rprovides info) (rproviders dc),
                  packages_dynamic :=
                    fold (\<lambda>p. dappend p fn) (ri_packages_dynamic info) (packages_dynamic dc),
                  rundeps := AList.update fn
                    (fold (rundep (ri_rdepends info) (ri_rdepends_pkg info)) (ri_packages info)
                      (dget (rundeps dc) fn [])) (rundeps dc),
                  runrecs := AList.update fn
                    (fold (rundep (ri_rrecommends info) (ri_rrecommends_pkg info)) (ri_packages info)
                      (dget (runrecs dc) fn [])) (runrecs dc)\<rparr>
      in rbind (to_boolean (ri_not_world info) None) (\<lambda>nw. Inr
           (dc\<lparr>possible_world := (if nw = Some True then possible_world dc
                                  else possible_world dc @ [fn]),
               universe_target := universe_target dc @ [ri_pn info],
               hashfn := AList.update fn (ri_hashfilename info) (hashfn dc),
               basetaskhash :=
                 fold (\<lambda>(task, taskhash). AList.update (fn @ '':'' @ task) taskhash)
                   (ri_basetaskhashes info) (basetaskhash dc),
               inherits := AList.update fn (ri_inherits info) (inherits dc),
               fakerootenv := AList.update fn (ri_fakerootenv info) (fakerootenv dc),
               fakerootnoenv := AList.update fn (ri_fakerootnoenv info) (fakerootnoenv dc),
               fakerootdirs := AList.update fn (ri_fakerootdirs info) (fakerootdirs dc),
               fakerootlogs := AList.update fn (ri_fakerootlogs info) (fakerootlogs dc),
               extradepsfunc := AList.update fn (ri_extradepsfunc info) (extradepsfunc dc)\<rparr>)))"

definition add_recipes :: "(recipe_info \<times> string) list \<Rightarrow> dcache \<Rightarrow> dcache res" where
  "add_recipes rs = rfold (\<lambda>(info, fn). add_cacheData info fn) rs"

section \<open>Well-formed caches\<close>

definition lists_within :: "('k, string list) dict \<Rightarrow> string list \<Rightarrow> bool" where
  "lists_within d fns = (\<forall>k. set (dget d k []) \<subseteq> set fns)"

definition cache_wf :: "dcache \<Rightarrow> bool" where
  "cache_wf dc =
     (let fns = dkeys (pkg_fn dc) in
      lists_within (providers dc) fns \<and> lists_within (rproviders dc) fns \<and>
      lists_within (packages dc) fns \<and> lists_within (packages_dynamic dc) fns \<and>
      lists_within (pkg_pn dc) fns \<and> set (possible_world dc) \<subseteq> set fns \<and>
      set (dkeys (pkg_pepvpr dc)) = set fns \<and> set (dkeys (pkg_dp dc)) = set fns \<and>
      set (dkeys (task_deps dc)) = set fns \<and> set (dkeys (fn_provides dc)) = set fns \<and>
      set (dkeys (hashfn dc)) = set fns)"

lemma dget_dappend [simp]: "dget (dappend k x d) k' [] = (if k' = k then dget d k [] @ [x] else dget d k' [])"
  by (simp add: dappend_def)

lemma set_dget_dappend_new [simp]:
  "set (dget (dappend_new k x d) k' []) =
     (if k' = k then insert x (set (dget d k [])) else set (dget d k' []))"
  by (simp add: dappend_new_def)

lemma set_fold_dappend:
  "set (dget (fold (\<lambda>p. dappend p x) ks d) k []) =
     set (dget d k []) \<union> (if k \<in> set ks then {x} else {})"
  by (induction ks arbitrary: d) auto

lemma set_fold_dappend_new:
  "set (dget (fold (\<lambda>p. dappend_new p x) ks d) k []) =
     set (dget d k []) \<union> (if k \<in> set ks then {x} else {})"
  by (induction ks arbitrary: d) auto

lemma lists_within_mono: "lists_within d fns \<Longrightarrow> set fns \<subseteq> set gns \<Longrightarrow> lists_within d gns"
  by (auto simp: lists_within_def)

lemma lists_within_dappend:
  "lists_within d fns \<Longrightarrow> x \<in> set fns \<Longrightarrow> lists_within (dappend k x d) fns"
  by (auto simp: lists_within_def)

lemma lists_within_fold:
  "lists_within d fns \<Longrightarrow> x \<in> set fns \<Longrightarrow> lists_within (fold (\<lambda>p. dappend p x) ks d) fns"
  "lists_within d fns \<Longrightarrow> x \<in> set fns \<Longrightarrow> lists_within (fold (\<lambda>p. dappend_new p x) ks d) fns"
  by (auto simp: lists_within_def set_fold_dappend set_fold_dappend_new)

lemma cache_wf_init: "cache_wf init_cacheData"
  by (simp add: cache_wf_def init_cacheData_def lists_within_def dget_def dkeys_def)

lemma add_cacheData_tables:
  assumes "add_cacheData info fn dc = Inr dc'"
  shows "pkg_fn dc' = AList.update fn (ri_pn info) (pkg_fn dc)"
    and "providers dc' = fold (\<lambda>p. dappend p fn) (info_provides info) (providers dc)"
    and "rproviders dc' = fold (\<lambda>p. dappend_new p fn) (info_rprovides info) (rproviders dc)"
    and "packages dc' = fold (\<lambda>p. dappend p fn) (ri_packages info) (packages dc)"
    and "packages_dynamic dc' =
      fold (\<lambda>p. dappend p fn) (ri_packages_dynamic info) (packages_dynamic dc)"
    and "pkg_pn dc' = dappend (ri_pn info) fn (pkg_pn dc)"
    and "set (possible_world dc') \<subseteq> insert fn (set (possible_world dc))"
    and "dkeys (pkg_pepvpr dc') = dkeys (AList.update fn (ri_pe info, ri_pv info, ri_pr info) (pkg_pepvpr dc))"
    and "dkeys (pkg_dp dc') = dkeys (AList.update fn (ri_defaultpref info) (pkg_dp dc))"
    and "dkeys (task_deps dc') = dkeys (AList.update fn (ri_task_deps info) (task_deps dc))"
    and "dkeys (fn_provides dc') = dkeys (AList.update fn (info_provides info) (fn_provides dc))"
    and "dkeys (hashfn dc') = dkeys (AList.update fn (ri_hashfilename info) (hashfn dc))"
  using assms by (auto simp add: add_cacheData_def Let_def rbind_eq_Inr split: if_splits)

lemma add_cacheData_wf:
  assumes "cache_wf dc" and "add_cacheData info fn dc = Inr dc'"
  shows "cache_wf dc'"
proof -
  let ?fns' = "dkeys (AList.update fn (ri_pn info) (pkg_fn dc))"
  note wf = assms(1) [unfolded cache_wf_def Let_def]
  have mono: "lists_within d (dkeys (pkg_fn dc)) \<Longrightarrow> lists_within d ?fns'"
    for d :: "(string, string list) dict"
    by (rule lists_within_mono) auto
  have fn: "fn \<in> set ?fns'" by simp
  note t = add_cacheData_tables [OF assms(2)]
  have "lists_within (providers dc') ?fns'" "lists_within (packages dc') ?fns'"
      "lists_within (packages_dynamic dc') ?fns'" "lists_within (rproviders dc') ?fns'"
      "lists_within (pkg_pn dc') ?fns'"
    using wf by (simp_all only: t) (blast intro: lists_within_fold lists_within_dappend mono fn)+
  moreover have "set (possible_world dc') \<subseteq> set ?fns'"
    using t(7) wf by auto
  ultimately show ?thesis
    using wf by (simp only: cache_wf_def Let_def t set_dkeys_update simp_thms)
qed

text \<open>Every table of the recipe cache only ever names recipe files that have an entry in each
  per-file table, whatever recipes were added in whatever order: the look-ups the provider and task
  code makes with such a file cannot raise \<open>KeyError\<close>.\<close>

theorem add_recipes_cache_wf:
  assumes "add_recipes rs init_cacheData = Inr dc"
  shows "cache_wf dc"
  using assms unfolding add_recipes_def
  by (rule rfold_invariant) (auto simp: cache_wf_init intro: add_cacheData_wf)

text \<open>After a recipe is added, its file is a provider of an item exactly when the item is its
  name or in its \<open>PROVIDES\<close>, or it already was; other files' entries are untouched.\<close>

theorem add_cacheData_providers:
  assumes "add_cacheData info fn dc = Inr dc'"
  shows "set (dget (providers dc') item []) =
    set (dget (providers dc) item []) \<union>
      (if item = ri_pn info \<or> item \<in> set (ri_provides info) then {fn} else {})"
proof -
  have "set (fold sadd xs ys) = set xs \<union> set ys" for xs ys :: "string list"
    by (induction xs arbitrary: ys) auto
  then show ?thesis using assms
    by (auto simp: add_cacheData_def Let_def rbind_eq_Inr set_fold_dappend info_provides_def)
qed

definition sample_info :: "string \<Rightarrow> string \<Rightarrow> recipe_info" where
  "sample_info pn pv =
     \<lparr>ri_provides = [''virtual/'' @ pn], ri_rprovides = [], ri_pn = pn, ri_packages = [pn],
      ri_packages_dynamic = [], ri_rprovides_pkg = [], ri_task_deps = empty_taskdeps,
      ri_pe = [], ri_pv = pv, ri_pr = ''r0'', ri_defaultpref = 0, ri_not_world = [],
      ri_depends = [''libc''], ri_rdepends = [], ri_rrecommends = [], ri_rdepends_pkg = [],
      ri_rrecommends_pkg = [], ri_hashfilename = [], ri_basetaskhashes = [],
      ri_stamp = [], ri_stampclean = [], ri_stamp_extrainfo = [], ri_file_checksums = [],
      ri_inherits = [], ri_fakerootenv = [], ri_fakerootdirs = [], ri_fakerootlogs = [],
      ri_fakerootnoenv = [], ri_extradepsfunc = []\<rparr>"

lemma sample_added: "\<exists>dc. add_cacheData (sample_info pn pv) fn d = Inr dc"
  by (simp add: add_cacheData_def Let_def sample_info_def to_boolean_def)

lemma add_recipes_cache_wf_witness:
  "\<exists>dc. add_recipes [(sample_info ''m4'' ''1.4'', ''m4.bb'')] init_cacheData = Inr dc \<and> cache_wf dc"
proof -
  obtain dc where "add_recipes [(sample_info ''m4'' ''1.4'', ''m4.bb'')] init_cacheData = Inr dc"
    using sample_added [of "''m4''" "''1.4''" "''m4.bb''" init_cacheData] by (auto simp: add_recipes_def)
  then show ?thesis using add_recipes_cache_wf by blast
qed

lemma add_cacheData_providers_witness:
  "\<exists>dc. add_cacheData (sample_info ''m4'' ''1.4'') ''m4.bb'' init_cacheData = Inr dc \<and>
    set (dget (providers dc) ''virtual/m4'' []) = {''m4.bb''}"
proof -
  obtain dc where dc: "add_cacheData (sample_info ''m4'' ''1.4'') ''m4.bb'' init_cacheData = Inr dc"
    using sample_added by blast
  show ?thesis using add_cacheData_providers [OF dc, of "''virtual/m4''"] dc
    by (simp add: sample_info_def init_cacheData_def dget_def)
qed

end
