(* ===== verification/Providers.thy ===== *)
theory Providers
  imports Versions DataCache "HOL-Library.Multiset"
begin

text \<open>
  Choosing among the recipes that provide an item, from \<open>bb/providers.py\<close>: files are grouped by
  layer priority and ordered by default preference, a required or preferred version is looked for
  first, otherwise the latest version of the highest-priority group is taken, and the resulting
  candidates are reordered by the \<open>PREFERRED_PROVIDER\<close> settings.

  The datastore is the parameter \<open>getVar\<close>; regular expressions from metadata
  (\<open>PACKAGES_DYNAMIC\<close>) are compiled by the parameter \<open>rx\<close>, which returns \<open>None\<close> for a pattern that
  \<open>re.compile\<close> rejects. Log messages are left out.
\<close>

definition truthy :: "string option \<Rightarrow> bool" where
  "truthy v = (case v of None \<Rightarrow> False | Some s \<Rightarrow> s \<noteq> [])"

definition fn_pn :: "dcache \<Rightarrow> string \<Rightarrow> string" where
  "fn_pn dc fn = dget (pkg_fn dc) fn []"

definition fn_pepvpr :: "dcache \<Rightarrow> string \<Rightarrow> string \<times> string \<times> string" where
  "fn_pepvpr dc fn = dget (pkg_pepvpr dc) fn ([], [], [])"

definition fn_dp :: "dcache \<Rightarrow> string \<Rightarrow> int" where
  "fn_dp dc fn = dget (pkg_dp dc) fn 0"

definition fn_priority :: "dcache \<Rightarrow> string \<Rightarrow> int" where
  "fn_priority dc fn = dget (bbfile_priority dc) fn 0"

section \<open>Priorities\<close>

definition allProviders :: "dcache \<Rightarrow> (string, ((string \<times> string \<times> string) \<times> string) list) dict" where
  "allProviders dc = fold (\<lambda>(fn, pn). dappend pn (fn_pepvpr dc fn, fn)) (pkg_fn dc) []"

type_synonym prio_dict = "(int, (int, string list) dict) dict"

definition add_priority :: "dcache \<Rightarrow> string \<Rightarrow> prio_dict \<Rightarrow> prio_dict" where
  "add_priority dc f priorities =
     (let priority = fn_priority dc f; preference = fn_dp dc f;
          priorities = (if has_key priorities priority then priorities
                        else AList.update priority [] priorities);
          inner = dget priorities priority [];
          inner = (if has_key inner preference then inner else AList.update preference [] inner)
      in AList.update priority (dappend preference f inner) priorities)"

definition sort_files :: "dcache \<Rightarrow> string list \<Rightarrow> string list list" where
  "sort_files dc files =
     (let priorities = fold (add_priority dc) files []
      in fold (\<lambda>pri tmp_pn.
            concat (map (\<lambda>pref. dget (dget priorities pri []) pref [])
                      (sort (dkeys (dget priorities pri [])))) # tmp_pn)
          (sort (dkeys priorities)) [])"

definition sortPriorities :: "string \<Rightarrow> dcache \<Rightarrow> (string, string list) dict \<Rightarrow> string list list res" where
  "sortPriorities pn dc pkg_pn0 =
     (let d = (if pkg_pn0 = [] then pkg_pn dc else pkg_pn0)
      in case map_of d pn of
           None \<Rightarrow> if pkg_pn0 = [] then Inr (sort_files dc []) else Inl (KeyError pn)
         | Some files \<Rightarrow> Inr (sort_files dc files))"

section \<open>Preferred and required versions\<close>

definition versionVariableMatch :: "getvar_fun \<Rightarrow> string \<Rightarrow> string \<Rightarrow> string option" where
  "versionVariableMatch getVar keyword pn =
     (let ver = getVar (keyword @ ''_VERSION:pn-'' @ pn);
          ver = (if truthy ver then ver else getVar (keyword @ ''_VERSION_'' @ pn))
      in if truthy ver then ver else getVar (keyword @ ''_VERSION''))"

definition preferredVersionMatch ::
  "string \<Rightarrow> string \<Rightarrow> string \<Rightarrow> string option \<Rightarrow> string option \<Rightarrow> string option \<Rightarrow> bool" where
  "preferredVersionMatch pe pv pr preferred_e preferred_v preferred_r =
     (if Some pr = preferred_r \<or> preferred_r = None then
        if Some pe = preferred_e \<or> preferred_e = None then
          if preferred_v = Some pv then True
          else (case preferred_v of
                  None \<Rightarrow> False
                | Some v \<Rightarrow> suffix ''%'' v \<and> prefix (butlast v) pv)
        else False
      else False)"

text \<open>
  The match of \<open>(\d+:)*(.*)(_.*)*\<close>: the first group repeats greedily over \<open>digits:\<close> prefixes and
  keeps the last one; the second takes everything up to a line break; what the third could match
  begins with an underscore, but the next character is a line break or the end, so it never
  matches and its group is \<open>None\<close>.
\<close>

function epoch_groups :: "string \<Rightarrow> string option \<Rightarrow> string option \<times> string" where
  "epoch_groups s g =
     (let ds = takeWhile is_digit s; rest = dropWhile is_digit s
      in if ds \<noteq> [] \<and> rest \<noteq> [] \<and> hd rest = CHR '':'' then epoch_groups (tl rest) (Some (ds @ '':''))
         else (g, s))"
  by pat_completeness auto
termination
proof (relation "measure (\<lambda>(s, g). length s)", goal_cases)
  case (2 s g ds rest)
  then have "length (tl rest) < length rest" by (cases rest) auto
  also have "length rest \<le> length s" using 2 by (simp add: length_dropWhile_le)
  finally show ?case by simp
qed simp

declare epoch_groups.simps [simp del]

definition match_preferred :: "string \<Rightarrow> string option \<times> string \<times> string option" where
  "match_preferred v =
     (case epoch_groups v None of (g1, rest) \<Rightarrow>
        (map_option butlast g1, takeWhile (\<lambda>c. c \<noteq> CHR 0x0A) rest, None))"

type_synonym ver3 = "string \<times> string \<times> string"

definition findPreferredProvider ::
  "string \<Rightarrow> getvar_fun \<Rightarrow> dcache \<Rightarrow> string list list \<Rightarrow> ver3 option \<times> string option \<times> bool" where
  "findPreferredProvider pn getVar dc pkg_pn0 =
     (let required_v = versionVariableMatch getVar ''REQUIRED'' pn;
          preferred_v0 = versionVariableMatch getVar ''PREFERRED'' pn;
          required = (required_v \<noteq> None);
          preferred_v = (if required then required_v else preferred_v0)
      in if truthy preferred_v then
           (case match_preferred (the preferred_v) of (preferred_e, v, preferred_r) \<Rightarrow>
            (case find (\<lambda>f. case fn_pepvpr dc f of (pe, pv, pr) \<Rightarrow>
                          preferredVersionMatch pe pv pr preferred_e (Some v) preferred_r)
                    (concat pkg_pn0) of
               None \<Rightarrow> (None, None, required)
             | Some f \<Rightarrow> (Some (fn_pepvpr dc f), Some f, required)))
         else (None, None, required))"

section \<open>The latest version\<close>

definition ver_of :: "ver3 \<Rightarrow> version" where
  "ver_of v = (case v of (pe, pv, pr) \<Rightarrow> (EStr pe, pv, pr))"

type_synonym latest_state = "ver3 option \<times> int \<times> string option"

definition latest_step :: "dcache \<Rightarrow> string \<Rightarrow> latest_state \<Rightarrow> latest_state res" where
  "latest_step dc f st =
     (case st of (latest, latest_p, latest_f) \<Rightarrow>
      let v = fn_pepvpr dc f; dp = fn_dp dc f; new = (Some v, dp, Some f) in
      case latest of
        None \<Rightarrow> Inr new
      | Some l \<Rightarrow>
          if latest_p = dp then
            rbind (vercmp (ver_of l) (ver_of v)) (\<lambda>r. Inr (if r < 0 then new else st))
          else Inr (if dp > latest_p then new else st))"

definition findLatestProvider :: "dcache \<Rightarrow> string list \<Rightarrow> (ver3 option \<times> string option) res" where
  "findLatestProvider dc file_set =
     rbind (rfold (latest_step dc) file_set (None, 0, None))
       (\<lambda>(latest, latest_p, latest_f). Inr (latest, latest_f))"

definition findBestProvider ::
  "string \<Rightarrow> getvar_fun \<Rightarrow> dcache \<Rightarrow> (string, string list) dict \<Rightarrow>
    (ver3 option \<times> string option \<times> ver3 option \<times> string option \<times> bool) res" where
  "findBestProvider pn getVar dc pkg_pn0 =
     rbind (sortPriorities pn dc pkg_pn0) (\<lambda>sortpkg_pn.
       case findPreferredProvider pn getVar dc sortpkg_pn of
         (preferred_ver, preferred_file, required) \<Rightarrow>
       if sortpkg_pn = [] then Inl IndexError
       else rbind (findLatestProvider dc (hd sortpkg_pn)) (\<lambda>(latest, latest_f).
         if \<not> required \<and> preferred_file = None
         then Inr (latest, latest_f, latest, latest_f, required)
         else Inr (latest, latest_f, preferred_ver, preferred_file, required)))"

definition findProviders ::
  "getvar_fun \<Rightarrow> dcache \<Rightarrow> (string, string list) dict \<Rightarrow>
    ((string, ver3 option \<times> string option) dict \<times> (string, ver3 option \<times> string option) dict \<times>
     (string, bool) dict) res" where
  "findProviders getVar dc pkg_pn0 =
     (let d = (if pkg_pn0 = [] then pkg_pn dc else pkg_pn0) in
      rfold (\<lambda>pn (latest_versions, preferred_versions, required).
          rbind (findBestProvider pn getVar dc d)
            (\<lambda>(last_ver, last_file, pref_ver, pref_file, req).
              Inr (AList.update pn (last_ver, last_file) latest_versions,
                   AList.update pn (pref_ver, pref_file) preferred_versions,
                   AList.update pn req required)))
        (dkeys d) ([], [], []))"

section \<open>Filtering the providers of an item\<close>

definition collate_by_pn :: "dcache \<Rightarrow> string list \<Rightarrow> (string, string list) dict" where
  "collate_by_pn dc fns = fold (\<lambda>p. dappend (fn_pn dc p) p) fns []"

type_synonym pref_dict = "(string, ver3 option \<times> string option) dict"

text \<open>
  The first pass stops with the candidates found so far when a required version has no file
  (\<open>stop\<close>).
\<close>

record filter_state =
  fs_eligible :: "string list"
  fs_preferred :: pref_dict
  fs_sorted :: "(string, string list list) dict"
  fs_stop :: bool

definition filter_required ::
  "getvar_fun \<Rightarrow> dcache \<Rightarrow> (string, string list) dict \<Rightarrow> string \<Rightarrow> filter_state \<Rightarrow> filter_state res" where
  "filter_required getVar dc pkg_pn0 pn st =
     (if fs_stop st then Inr st
      else rbind (sortPriorities pn dc pkg_pn0) (\<lambda>sorted_pn.
        let st = st\<lparr>fs_sorted := AList.update pn sorted_pn (fs_sorted st)\<rparr> in
        case findPreferredProvider pn getVar dc sorted_pn of
          (preferred_ver, preferred_file, required) \<Rightarrow>
        if required \<and> preferred_file = None then Inr (st\<lparr>fs_stop := True\<rparr>)
        else Inr (st\<lparr>fs_preferred := AList.update pn (preferred_ver, preferred_file) (fs_preferred st),
                    fs_eligible := (case preferred_file of
                        None \<Rightarrow> fs_eligible st
                      | Some f \<Rightarrow> fs_eligible st @ [f])\<rparr>)))"

definition filter_latest :: "dcache \<Rightarrow> string \<Rightarrow> filter_state \<Rightarrow> filter_state res" where
  "filter_latest dc pn st =
     (case map_of (fs_preferred st) pn of
        Some (_, Some _) \<Rightarrow> Inr st
      | _ \<Rightarrow>
        (case dget (fs_sorted st) pn [] of
           [] \<Rightarrow> Inl IndexError
         | file_set # _ \<Rightarrow>
           rbind (findLatestProvider dc file_set) (\<lambda>(v, f).
             Inr (st\<lparr>fs_preferred := AList.update pn (v, f) (fs_preferred st),
                     fs_eligible := (case f of None \<Rightarrow> fs_eligible st
                                     | Some f \<Rightarrow> fs_eligible st @ [f])\<rparr>))))"

text \<open>\<open>If pn == item, give it a slight default preference\<close>: its file moves to the front.\<close>

definition prefer_named :: "dcache \<Rightarrow> string \<Rightarrow> pref_dict \<Rightarrow> string \<Rightarrow> string list \<Rightarrow> string list" where
  "prefer_named dc item preferred_versions p eligible =
     (let pn = fn_pn dc p in
      if pn \<noteq> item then eligible
      else case dget preferred_versions pn (None, None) of
             (_, Some fn) \<Rightarrow> if fn \<in> set eligible then fn # remove1 fn eligible else eligible
           | (_, None) \<Rightarrow> eligible)"

definition filter_providers_common ::
  "string list \<Rightarrow> string \<Rightarrow> getvar_fun \<Rightarrow> dcache \<Rightarrow> string list res" where
  "filter_providers_common provs0 item getVar dc =
     (let provs = sort provs0; pkg_pn0 = collate_by_pn dc provs;
          init = \<lparr>fs_eligible = [], fs_preferred = [], fs_sorted = [], fs_stop = False\<rparr>
      in rbind (rfold (filter_required getVar dc pkg_pn0) (sort (dkeys pkg_pn0)) init) (\<lambda>st.
           if fs_stop st then Inr (fs_eligible st)
           else rbind (rfold (filter_latest dc) (sort (dkeys (fs_sorted st))) st) (\<lambda>st.
             Inr (fold (prefer_named dc item (fs_preferred st)) provs (fs_eligible st)))))"

definition move_first :: "'a \<Rightarrow> 'a list \<Rightarrow> 'a list" where
  "move_first p xs = p # remove1 p xs"

text \<open>
  \<open>filterProviders\<close> records a \<open>PREFERRED_PROVIDER\<close> setting in the cache before it uses the
  recorded one, so the cache is part of the result. The caller's list is sorted in place by
  \<open>providers.sort()\<close>; the sorted list is written back by the caller's model.
\<close>

definition record_preferred :: "getvar_fun \<Rightarrow> string \<Rightarrow> dcache \<Rightarrow> dcache" where
  "record_preferred getVar item dc =
     (let v = getVar (''PREFERRED_PROVIDER_'' @ item) in
      if truthy v then dc\<lparr>preferred := AList.update item (the v) (preferred dc)\<rparr> else dc)"

definition filterProviders ::
  "string list \<Rightarrow> string \<Rightarrow> getvar_fun \<Rightarrow> dcache \<Rightarrow> ((string list \<times> bool) \<times> dcache) res" where
  "filterProviders provs item getVar dc =
     rbind (filter_providers_common provs item getVar dc) (\<lambda>eligible.
       let dc' = record_preferred getVar item dc in
       case map_of (preferred dc') item of
         None \<Rightarrow> Inr ((eligible, False), dc')
       | Some pref \<Rightarrow>
           (case find (\<lambda>p. fn_pn dc p = pref) eligible of
              None \<Rightarrow> Inr ((eligible, False), dc')
            | Some p \<Rightarrow> Inr ((move_first p eligible, True), dc')))"

text \<open>
  The second half of \<open>filterProvidersRunTime\<close> walks \<open>eligible\<close> while it moves preferred files to
  the front. The first move removes the file from the very list the loop is walking
  (\<open>rt_shared\<close>) before rebinding the name, so that walk loses an element; later moves only touch
  the new list. \<open>rt_walked\<close> is the list object being walked, \<open>rt_i\<close> the iterator's index.
\<close>

record rt_state =
  rt_walked :: "string list"
  rt_shared :: bool
  rt_eligible :: "string list"
  rt_preferred :: "string list"

definition rt_match ::
  "getvar_fun \<Rightarrow> (string, string) dict \<Rightarrow> string list \<Rightarrow> string \<Rightarrow> string option" where
  "rt_match getVar pns pref provide =
     (case getVar (''PREFERRED_PROVIDER_'' @ provide) of
        None \<Rightarrow> None
      | Some v \<Rightarrow> (case map_of pns v of
            None \<Rightarrow> None
          | Some p \<Rightarrow> if p \<in> set pref then None else Some p))"

definition rt_visit :: "getvar_fun \<Rightarrow> dcache \<Rightarrow> (string, string) dict \<Rightarrow> string \<Rightarrow> rt_state \<Rightarrow> rt_state" where
  "rt_visit getVar dc pns p st =
     (case find (\<lambda>v. rt_match getVar pns (rt_preferred st) v \<noteq> None)
             (dget (pn_provides dc) (fn_pn dc p) []) of
        None \<Rightarrow> st
      | Some provide \<Rightarrow>
          let pref = the (rt_match getVar pns (rt_preferred st) provide) in
          \<lparr>rt_walked = (if rt_shared st then remove1 pref (rt_walked st) else rt_walked st),
           rt_shared = False,
           rt_eligible = move_first pref (rt_eligible st),
           rt_preferred = rt_preferred st @ [pref]\<rparr>)"

function rt_loop ::
  "getvar_fun \<Rightarrow> dcache \<Rightarrow> (string, string) dict \<Rightarrow> nat \<Rightarrow> rt_state \<Rightarrow> rt_state" where
  "rt_loop getVar dc pns i st =
     (if i < length (rt_walked st)
      then rt_loop getVar dc pns (Suc i) (rt_visit getVar dc pns (rt_walked st ! i) st)
      else st)"
  by pat_completeness auto

lemma rt_visit_walked: "length (rt_walked (rt_visit getVar dc pns p st)) \<le> length (rt_walked st)"
  by (auto simp: rt_visit_def Let_def length_remove1 split: option.split)

termination rt_loop
proof (relation "measure (\<lambda>(getVar, dc, pns, i, st). length (rt_walked st) - i)", goal_cases)
  case (2 getVar dc pns i st)
  then show ?case using rt_visit_walked [of getVar dc pns "rt_walked st ! i" st] by auto
qed simp

declare rt_loop.simps [simp del]

definition filterProvidersRunTime ::
  "string list \<Rightarrow> string \<Rightarrow> getvar_fun \<Rightarrow> dcache \<Rightarrow> (string list \<times> nat) res" where
  "filterProvidersRunTime provs item getVar dc =
     rbind (filter_providers_common provs item getVar dc) (\<lambda>eligible.
       let prefervar = getVar (''PREFERRED_RPROVIDER_'' @ item);
           unique = (if truthy prefervar then find (\<lambda>p. fn_pn dc p = the prefervar) eligible else None)
       in case unique of
            Some p \<Rightarrow> Inr (move_first p eligible, 1)
          | None \<Rightarrow>
              let pns = fold (\<lambda>p. AList.update (fn_pn dc p) p) eligible [];
                  st = rt_loop getVar dc pns 0
                    \<lparr>rt_walked = eligible, rt_shared = True, rt_eligible = eligible,
                     rt_preferred = []\<rparr>
              in Inr (rt_eligible st, length (rt_preferred st)))"

section \<open>Run-time providers and the world target\<close>

type_synonym regex = "string \<Rightarrow> (string \<Rightarrow> bool) option"

definition dynamic_step :: "regex \<Rightarrow> string \<Rightarrow> string \<times> string list \<Rightarrow> string list \<Rightarrow> string list res" where
  "dynamic_step rx rdepend kv rprovs =
     (case kv of (pat_key, fns) \<Rightarrow>
      let pattern = replace_all ''+'' [CHR 0x5C, CHR ''+''] pat_key in
      case rx pattern of
        None \<Rightarrow> Inl (ValueError pattern)
      | Some matches \<Rightarrow> Inr (if matches rdepend then rprovs @ fns else rprovs))"

definition getRuntimeProviders :: "regex \<Rightarrow> dcache \<Rightarrow> string \<Rightarrow> string list res" where
  "getRuntimeProviders rx dc rdepend =
     (let rprovs = dget (rproviders dc) rdepend [] @ dget (packages dc) rdepend []
      in if rprovs \<noteq> [] then Inr rprovs
         else rfold (dynamic_step rx rdepend) (packages_dynamic dc) [])"

text \<open>
  Whether \<open>f\<close> belongs to the world: the task exists, no provide is virtual, and no other recipe
  provides the same item. The flag is only ever cleared, so the loops' early exits do not matter.
\<close>

definition world_terminal :: "dcache \<Rightarrow> string option \<Rightarrow> string \<Rightarrow> bool" where
  "world_terminal dc task f =
     (let pn = fn_pn dc f;
          tasks = td_tasks (dget (task_deps dc) f empty_taskdeps)
      in \<not> (truthy task \<and> the task \<notin> set tasks) \<and>
         list_all (\<lambda>p. \<not> prefix ''virtual/'' p \<and>
             list_all (\<lambda>pf. fn_pn dc pf = pn) (dget (providers dc) p []))
           (dget (pn_provides dc) pn []))"

definition buildWorldTargetList :: "dcache \<Rightarrow> string option \<Rightarrow> dcache" where
  "buildWorldTargetList dc task =
     (if world_target dc \<noteq> [] then dc
      else dc\<lparr>world_target :=
        fold (\<lambda>f w. if world_terminal dc task f then sadd (fn_pn dc f) w else w)
          (possible_world dc) []\<rparr>)"

section \<open>Priorities: the specification\<close>

text \<open>Filling buckets and emptying them in key order is a stable sort.\<close>

lemma mset_buckets:
  "distinct ks \<Longrightarrow> f ` set xs \<subseteq> set ks \<Longrightarrow>
    mset (concat (map (\<lambda>k. filter (\<lambda>x. f x = k) xs) ks)) = mset xs"
proof (induction ks arbitrary: xs)
  case Nil
  then show ?case by simp
next
  case (Cons k ks)
  let ?ys = "filter (\<lambda>x. f x \<noteq> k) xs"
  have "filter (\<lambda>x. f x = k') ?ys = filter (\<lambda>x. f x = k') xs" if "k' \<in> set ks" for k'
    using that Cons.prems(1) by (auto intro: filter_cong)
  then have eq: "map (\<lambda>k. filter (\<lambda>x. f x = k) xs) ks = map (\<lambda>k. filter (\<lambda>x. f x = k) ?ys) ks"
    by (metis (mono_tags, lifting) map_eq_conv)
  have "mset (concat (map (\<lambda>k. filter (\<lambda>x. f x = k) ?ys) ks)) = mset ?ys"
    using Cons.prems by (intro Cons.IH) auto
  then have "mset (concat (map (\<lambda>k. filter (\<lambda>x. f x = k) xs) (k # ks))) =
      mset (filter (\<lambda>x. f x = k) xs) + mset ?ys"
    by (simp only: eq list.map concat.simps mset_append)
  also have "\<dots> = mset xs"
    by (simp only: mset_filter multiset_partition [of "mset xs" "\<lambda>x. f x = k", symmetric])
  finally show ?case .
qed

lemma filter_buckets:
  "distinct ks \<Longrightarrow>
    filter (\<lambda>x. f x = k) (concat (map (\<lambda>k. filter (\<lambda>x. f x = k) xs) ks)) =
      (if k \<in> set ks then filter (\<lambda>x. f x = k) xs else [])"
proof (induction ks)
  case Nil
  then show ?case by simp
next
  case (Cons j ks)
  have "filter (\<lambda>x. f x = k \<and> f x = j) xs = (if j = k then filter (\<lambda>x. f x = k) xs else [])"
    by (auto simp: filter_empty_conv intro: filter_cong)
  then show ?case using Cons by (auto simp: conj_commute)
qed

lemma map_filter_const: "map f (filter (\<lambda>x. f x = k) xs) = replicate (length (filter (\<lambda>x. f x = k) xs)) k"
  by (induction xs) auto

lemma sorted_buckets:
  "sorted ks \<Longrightarrow> sorted (map f (concat (map (\<lambda>k. filter (\<lambda>x. f x = k) xs) ks)))"
  by (induction ks) (auto simp: sorted_append map_filter_const)

lemma sort_key_buckets:
  assumes "sorted ks" and "distinct ks" and "f ` set xs \<subseteq> set ks"
  shows "concat (map (\<lambda>k. filter (\<lambda>x. f x = k) xs) ks) = sort_key f xs"
proof (rule properties_for_sort_key [symmetric])
  let ?b = "concat (map (\<lambda>k. filter (\<lambda>x. f x = k) xs) ks)"
  show "mset ?b = mset xs" using assms by (intro mset_buckets)
  show "sorted (map f ?b)" using assms by (intro sorted_buckets)
  show "filter (\<lambda>x. f x0 = f x) ?b = filter (\<lambda>x. f x0 = f x) xs" if "x0 \<in> set ?b" for x0
    using that filter_buckets [OF assms(2), of f "f x0" xs] by (auto simp: eq_commute [of "f x0"])
qed

definition prio_files :: "dcache \<Rightarrow> string list \<Rightarrow> int \<Rightarrow> string list" where
  "prio_files dc files pri = filter (\<lambda>f. fn_priority dc f = pri) files"

lemma add_priority_keys:
  "set (dkeys (add_priority dc f ps)) = insert (fn_priority dc f) (set (dkeys ps))"
  "distinct (dkeys ps) \<Longrightarrow> distinct (dkeys (add_priority dc f ps))"
  by (simp_all add: add_priority_def Let_def insert_absorb)

lemma add_priority_inner:
  fixes dc f ps pri
  defines "new \<equiv> dget (add_priority dc f ps) pri []" and "old \<equiv> dget ps pri []"
  shows "pri \<noteq> fn_priority dc f \<Longrightarrow> new = old"
    and "pri = fn_priority dc f \<Longrightarrow> set (dkeys new) = insert (fn_dp dc f) (set (dkeys old))"
    and "pri = fn_priority dc f \<Longrightarrow> distinct (dkeys old) \<Longrightarrow> distinct (dkeys new)"
    and "pri = fn_priority dc f \<Longrightarrow>
      dget new pref [] = dget old pref [] @ (if fn_dp dc f = pref then [f] else [])"
proof -
  have missing: "\<not> has_key d k \<Longrightarrow> dget d k v = v" for d :: "('x, 'y) dict" and k v
    by (simp add: has_key_def dget_def)
  show "pri \<noteq> fn_priority dc f \<Longrightarrow> new = old"
    by (simp add: add_priority_def Let_def new_def old_def)
  show "pri = fn_priority dc f \<Longrightarrow> set (dkeys new) = insert (fn_dp dc f) (set (dkeys old))"
    by (simp add: add_priority_def Let_def new_def old_def missing dappend_def insert_absorb)
  show "pri = fn_priority dc f \<Longrightarrow> distinct (dkeys old) \<Longrightarrow> distinct (dkeys new)"
    by (simp add: add_priority_def Let_def new_def old_def missing dappend_def
        dkeys_def [of "[]"] dkeys_def [of "[_]"])
  show "pri = fn_priority dc f \<Longrightarrow>
      dget new pref [] = dget old pref [] @ (if fn_dp dc f = pref then [f] else [])"
    by (simp add: add_priority_def Let_def new_def old_def missing)
qed

lemma add_priority_dict:
  fixes dc files
  defines "ps \<equiv> fold (add_priority dc) files []"
  shows "distinct (dkeys ps) \<and> set (dkeys ps) = fn_priority dc ` set files"
    and "distinct (dkeys (dget ps pri [])) \<and>
      set (dkeys (dget ps pri [])) = fn_dp dc ` set (prio_files dc files pri) \<and>
      dget (dget ps pri []) pref [] =
        filter (\<lambda>f. fn_dp dc f = pref) (prio_files dc files pri)"
proof -
  show "distinct (dkeys ps) \<and> set (dkeys ps) = fn_priority dc ` set files"
    unfolding ps_def
    by (induction files rule: rev_induct) (simp_all add: add_priority_keys dkeys_def [of "[]"])
  show "distinct (dkeys (dget ps pri [])) \<and>
      set (dkeys (dget ps pri [])) = fn_dp dc ` set (prio_files dc files pri) \<and>
      dget (dget ps pri []) pref [] =
        filter (\<lambda>f. fn_dp dc f = pref) (prio_files dc files pri)"
    unfolding ps_def
  proof (induction files rule: rev_induct)
    case Nil
    then show ?case by (simp add: dkeys_def dget_def prio_files_def)
  next
    case (snoc f files)
    then show ?case
      by (cases "pri = fn_priority dc f") (simp_all add: add_priority_inner prio_files_def)
  qed
qed

lemma fold_Cons_rev_map: "fold (\<lambda>x acc. g x # acc) xs ys = rev (map g xs) @ ys"
  by (induction xs arbitrary: ys) auto

text \<open>\<open>sortPriorities\<close> groups the files by layer priority, highest first, and orders each group
  by ascending default preference, files of the same preference staying in their given order.\<close>

theorem sort_files_spec:
  "sort_files dc files =
     map (\<lambda>pri. sort_key (fn_dp dc) (prio_files dc files pri))
       (rev (sorted_list_of_set (fn_priority dc ` set files)))"
proof -
  define ps where "ps = fold (add_priority dc) files []"
  have "sorted_list_of_set (fn_priority dc ` set files) = sort (dkeys ps)"
    using add_priority_dict(1) [of dc files] unfolding ps_def [symmetric]
    by (metis sorted_list_of_set_sort_remdups distinct_remdups_id)
  moreover have "concat (map (\<lambda>pref. dget (dget ps pri []) pref []) (sort (dkeys (dget ps pri [])))) =
      sort_key (fn_dp dc) (prio_files dc files pri)" for pri
    unfolding add_priority_dict(2) [of dc files pri, folded ps_def, THEN conjunct2, THEN conjunct2]
    using add_priority_dict(2) [of dc files pri, folded ps_def]
    by (intro sort_key_buckets) auto
  ultimately show ?thesis
    by (simp add: sort_files_def Let_def ps_def [symmetric] fold_Cons_rev_map rev_map)
qed

text \<open>No file is lost or duplicated by the grouping.\<close>

lemma sort_files_mset: "mset (concat (sort_files dc files)) = mset files"
proof -
  have "mset (concat (map (\<lambda>k. filter (\<lambda>f. fn_priority dc f = k) files)
      (rev (sorted_list_of_set (fn_priority dc ` set files))))) = mset files"
    by (rule mset_buckets) auto
  moreover have "mset (concat (map (\<lambda>k. sort_key (fn_dp dc) (g k)) ks)) = mset (concat (map g ks))"
    for g :: "int \<Rightarrow> string list" and ks
    by (induction ks) auto
  ultimately show ?thesis by (simp only: sort_files_spec prio_files_def)
qed


section \<open>The latest version: the specification\<close>

text \<open>Files are ordered by preference first and by version within one preference.\<close>

type_synonym file_key = "int \<times> vparsed"

definition file_cmp :: "file_key \<Rightarrow> file_key \<Rightarrow> int" where
  "file_cmp x y = (if fst x \<noteq> fst y then fst x - fst y else vercmp_parsed (snd x) (snd y))"

interpretation fc: comparator file_cmp
proof unfold_locales
  fix x y z :: file_key
  show "sgn (file_cmp y x) = - sgn (file_cmp x y)"
    using vc.cmp_sym [of "snd y" "snd x"]
    by (cases "fst x = fst y") (simp add: file_cmp_def, simp add: file_cmp_def sgn_if)
  show "file_cmp x z \<le> 0" if "file_cmp x y \<le> 0" and "file_cmp y z \<le> 0"
    using that vc.cmp_trans [of "snd x" "snd y" "snd z"] by (auto simp: file_cmp_def split: if_splits)
qed

definition file_key :: "dcache \<Rightarrow> string \<Rightarrow> file_key" where
  "file_key dc f = (fn_dp dc f,
     case vparse (ver_of (fn_pepvpr dc f)) of Inr x \<Rightarrow> x | Inl _ \<Rightarrow> (0, [], []))"

definition parsable :: "dcache \<Rightarrow> string \<Rightarrow> bool" where
  "parsable dc f = (case vparse (ver_of (fn_pepvpr dc f)) of Inr _ \<Rightarrow> True | Inl _ \<Rightarrow> False)"

lemma latest_step_known:
  assumes "parsable dc f" and "parsable dc g"
  shows "latest_step dc g (Some (fn_pepvpr dc f), fn_dp dc f, Some f) =
    (let h = (if file_cmp (file_key dc f) (file_key dc g) < 0 then g else f)
     in Inr (Some (fn_pepvpr dc h), fn_dp dc h, Some h))"
proof -
  obtain x y where x: "vparse (ver_of (fn_pepvpr dc f)) = Inr x"
    and y: "vparse (ver_of (fn_pepvpr dc g)) = Inr y"
    using assms by (auto simp: parsable_def split: sum.splits)
  show ?thesis
    by (simp add: latest_step_def Let_def vercmp_vparse [OF x y] file_key_def x y file_cmp_def)
qed

lemma latest_loop:
  assumes "parsable dc f" and "list_all (parsable dc) fs"
  shows "rfold (latest_step dc) fs (Some (fn_pepvpr dc f), fn_dp dc f, Some f) =
    (let h = fold (\<lambda>g b. if file_cmp (file_key dc b) (file_key dc g) < 0 then g else b) fs f
     in Inr (Some (fn_pepvpr dc h), fn_dp dc h, Some h))"
  using assms by (induction fs arbitrary: f) (simp_all add: latest_step_known Let_def)

text \<open>\<open>findLatestProvider\<close> on a non-empty group whose versions parse returns the first of the
  files that are greatest by default preference and then by version.\<close>

theorem findLatestProvider_greatest:
  assumes "fs \<noteq> []" and "list_all (parsable dc) fs"
  shows "\<exists>ys f zs. fs = ys @ f # zs \<and>
    findLatestProvider dc fs = Inr (Some (fn_pepvpr dc f), Some f) \<and>
    (\<forall>g\<in>set ys. file_cmp (file_key dc g) (file_key dc f) < 0) \<and>
    (\<forall>g\<in>set zs. file_cmp (file_key dc g) (file_key dc f) \<le> 0)"
proof -
  from assms obtain g gs where fs: "fs = g # gs" "parsable dc g" "list_all (parsable dc) gs"
    by (cases fs) auto
  let ?h = "fold (\<lambda>g b. if file_cmp (file_key dc b) (file_key dc g) < 0 then g else b) gs g"
  have "findLatestProvider dc fs = Inr (Some (fn_pepvpr dc ?h), Some ?h)"
    using fs latest_loop [of dc g gs]
    by (simp add: findLatestProvider_def latest_step_def [of dc g "(None, 0, None)"] Let_def)
  then show ?thesis unfolding fs(1) using fc.keep_greatest [of g gs "file_key dc"] by blast
qed

definition sample_cache :: dcache where
  "sample_cache = init_cacheData
     \<lparr>pkg_fn := [(''a_1.bb'', ''a''), (''a_2.bb'', ''a''), (''b_1.bb'', ''b'')],
      pkg_pepvpr := [(''a_1.bb'', ([], ''1'', ''r0'')), (''a_2.bb'', ([], ''2'', ''r0'')),
        (''b_1.bb'', ([], ''1'', ''r0''))],
      pkg_dp := [(''a_1.bb'', 0), (''a_2.bb'', 0), (''b_1.bb'', 0)],
      pkg_pn := [(''a'', [''a_1.bb'', ''a_2.bb'']), (''b'', [''b_1.bb''])],
      pn_provides := [(''a'', [''a'', ''v'']), (''b'', [''b'', ''v''])],
      providers := [(''v'', [''a_1.bb'', ''a_2.bb'', ''b_1.bb''])]\<rparr>"

lemma findLatestProvider_greatest_witness:
  "findLatestProvider sample_cache [''a_1.bb'', ''a_2.bb''] =
      Inr (Some (fn_pepvpr sample_cache ''a_2.bb''), Some ''a_2.bb'') \<and>
    file_cmp (file_key sample_cache ''a_1.bb'') (file_key sample_cache ''a_2.bb'') < 0"
proof -
  have p: "list_all (parsable sample_cache) [''a_1.bb'', ''a_2.bb'']" by code_simp
  have n: "file_cmp (file_key sample_cache ''a_1.bb'') (file_key sample_cache ''a_2.bb'') < 0"
    by code_simp
  obtain ys f zs where f: "[''a_1.bb'', ''a_2.bb''] = ys @ f # zs"
    "findLatestProvider sample_cache [''a_1.bb'', ''a_2.bb''] = Inr (Some (fn_pepvpr sample_cache f), Some f)"
    "\<forall>g\<in>set zs. file_cmp (file_key sample_cache g) (file_key sample_cache f) \<le> 0"
    using findLatestProvider_greatest [OF _ p] by blast
  have "f = ''a_2.bb''"
  proof (rule ccontr)
    assume "f \<noteq> ''a_2.bb''"
    then have "f = ''a_1.bb''" "zs = [''a_2.bb'']" using f(1) by (auto simp: Cons_eq_append_conv)
    then show False using f(3) n fc.cmp_le_iff linorder_not_less by fastforce
  qed
  with f n show ?thesis by simp
qed


section \<open>Filtering: the specification\<close>

definition within :: "dcache \<Rightarrow> string list \<Rightarrow> string \<Rightarrow> string list \<Rightarrow> bool" where
  "within dc provs pn fs = (\<forall>f\<in>set fs. f \<in> set provs \<and> fn_pn dc f = pn)"

lemma dget_collate: "dget (collate_by_pn dc fns) pn [] = filter (\<lambda>f. fn_pn dc f = pn) fns"
  unfolding collate_by_pn_def by (induction fns rule: rev_induct) (auto simp: dget_def [of "[]"])

lemma dkeys_collate:
  "set (dkeys (collate_by_pn dc fns)) = fn_pn dc ` set fns" "distinct (dkeys (collate_by_pn dc fns))"
  unfolding collate_by_pn_def
  by (induction fns rule: rev_induct) (simp_all add: dappend_def dkeys_def [of "[]"])

lemma sortPriorities_collate:
  assumes "pn \<in> fn_pn dc ` set fns"
  shows "sortPriorities pn dc (collate_by_pn dc fns) =
    Inr (sort_files dc (filter (\<lambda>f. fn_pn dc f = pn) fns))"
proof -
  obtain fs where fs: "map_of (collate_by_pn dc fns) pn = Some fs"
    using assms dkeys_collate(1) [of dc fns] has_key_iff [of "collate_by_pn dc fns" pn]
    by (auto simp: has_key_def)
  then have "fs = filter (\<lambda>f. fn_pn dc f = pn) fns"
    using dget_collate [of dc fns pn] by (simp add: dget_def)
  with fs show ?thesis by (auto simp: sortPriorities_def Let_def)
qed

lemma set_sort_files: "set (concat (sort_files dc fs)) = set fs"
  using sort_files_mset [of dc fs] by (metis set_mset_mset)

lemma sort_files_groups:
  "fs \<noteq> [] \<Longrightarrow> sort_files dc fs \<noteq> []" "g \<in> set (sort_files dc fs) \<Longrightarrow> g \<noteq> []"
proof -
  have "sort_key f xs = [] \<longleftrightarrow> xs = []" for f :: "string \<Rightarrow> int" and xs
    by (metis length_0_conv length_sort)
  then show "fs \<noteq> [] \<Longrightarrow> sort_files dc fs \<noteq> []" "g \<in> set (sort_files dc fs) \<Longrightarrow> g \<noteq> []"
    by (auto simp: sort_files_spec prio_files_def filter_empty_conv)
qed

lemma find_in_set: "find P xs = Some x \<Longrightarrow> x \<in> set xs \<and> P x"
  by (auto simp: find_Some_iff)

lemma findPreferredProvider_file:
  assumes "findPreferredProvider pn getVar dc groups = (v, Some f, required)"
  shows "f \<in> set (concat groups)"
  using assms
  by (auto simp: findPreferredProvider_def Let_def dest: find_in_set
      split: if_splits prod.splits option.splits)

lemma latest_step_file:
  assumes "latest_step dc f (l, p, x) = Inr (l', p', x')"
  shows "x' = x \<or> x' = Some f"
  using assms by (auto simp: latest_step_def Let_def rbind_eq_Inr split: option.splits if_splits)

lemma findLatestProvider_file:
  assumes "findLatestProvider dc fs = Inr (v, Some f)"
  shows "f \<in> set fs"
proof -
  from assms obtain p where "rfold (latest_step dc) fs (None, 0, None) = Inr (v, p, Some f)"
    by (auto simp: findLatestProvider_def rbind_eq_Inr)
  then have "case (v, p, Some f) of (_, _, x) \<Rightarrow> x = None \<or> x \<in> Some ` set fs"
    by (rule rfold_invariant) (auto dest: latest_step_file)
  then show ?thesis by auto
qed

text \<open>
  The invariant of the two passes, over the names done: every candidate is recorded as the choice
  of its own recipe name, so there is at most one per name.
\<close>

definition filter_inv :: "dcache \<Rightarrow> string list \<Rightarrow> filter_state \<Rightarrow> bool" where
  "filter_inv dc provs st \<longleftrightarrow>
     (\<forall>f\<in>set (fs_eligible st). f \<in> set provs \<and>
        map_option snd (map_of (fs_preferred st) (fn_pn dc f)) = Some (Some f)) \<and>
     distinct (map (fn_pn dc) (fs_eligible st)) \<and>
     (\<forall>pn g. g \<in> set (dget (fs_sorted st) pn []) \<longrightarrow> within dc provs pn g)"

lemma filter_inv_choose:
  assumes "filter_inv dc provs st" and "f \<in> set provs" and "fn_pn dc f = pn"
    and "\<And>w g. map_of (fs_preferred st) pn \<noteq> Some (w, Some g)"
  shows "filter_inv dc provs (st\<lparr>fs_preferred := AList.update pn (v, Some f) (fs_preferred st),
    fs_eligible := fs_eligible st @ [f]\<rparr>)"
proof -
  have "pn \<notin> fn_pn dc ` set (fs_eligible st)"
    using assms(1,4) by (fastforce simp: filter_inv_def)
  then show ?thesis using assms(1-3) by (auto simp: filter_inv_def update_conv image_iff)
qed

lemma filter_inv_none:
  assumes "filter_inv dc provs st" and "\<And>w g. map_of (fs_preferred st) pn \<noteq> Some (w, Some g)"
  shows "filter_inv dc provs (st\<lparr>fs_preferred := AList.update pn (v, None) (fs_preferred st)\<rparr>)"
  using assms by (fastforce simp: filter_inv_def update_conv)


lemma filter_required_inv:
  assumes "filter_required getVar dc (collate_by_pn dc provs) pn st = Inr st'"
    and "filter_inv dc provs st" and "set (dkeys (fs_preferred st)) \<subseteq> E" and "pn \<notin> E"
    and "pn \<in> fn_pn dc ` set provs"
  shows "filter_inv dc provs st' \<and> set (dkeys (fs_preferred st')) \<subseteq> insert pn E"
proof (cases "fs_stop st")
  case True
  then show ?thesis using assms by (auto simp: filter_required_def)
next
  case False
  let ?g = "sort_files dc (filter (\<lambda>f. fn_pn dc f = pn) provs)"
  let ?st = "st\<lparr>fs_sorted := AList.update pn ?g (fs_sorted st)\<rparr>"
  have g: "within dc provs pn g" if "g \<in> set ?g" for g
    using that set_sort_files [of dc "filter (\<lambda>f. fn_pn dc f = pn) provs"]
    by (fastforce simp: within_def)
  have inv: "filter_inv dc provs ?st" using assms(2) g by (auto simp: filter_inv_def)
  have none: "map_of (fs_preferred ?st) pn \<noteq> Some (w, Some h)" for w h
    using assms(3,4) by (force simp: dkeys_def dest!: map_of_SomeD)
  obtain v f r where p: "findPreferredProvider pn getVar dc ?g = (v, f, r)"
    by (cases "findPreferredProvider pn getVar dc ?g") auto
  have st': "st' = (if r \<and> f = None then ?st\<lparr>fs_stop := True\<rparr>
      else ?st\<lparr>fs_preferred := AList.update pn (v, f) (fs_preferred ?st),
        fs_eligible := (case f of None \<Rightarrow> fs_eligible ?st | Some f \<Rightarrow> fs_eligible ?st @ [f])\<rparr>)"
    using assms(1) False p
    by (cases r; cases f)
      (simp_all add: filter_required_def sortPriorities_collate [OF assms(5)] Let_def)
  show ?thesis
  proof (cases f)
    case None
    then show ?thesis
      using inv filter_inv_none [OF inv none, of v] assms(3) st' by (auto simp: filter_inv_def)
  next
    case (Some h)
    then have "h \<in> set (concat ?g)" using findPreferredProvider_file p by blast
    then obtain x where "x \<in> set ?g" "h \<in> set x" by auto
    then have "within dc provs pn [h]" using g [of x] by (simp add: within_def)
    then have "filter_inv dc provs st'"
      using filter_inv_choose [OF inv _ _ none, of h v] Some st' by (simp add: within_def)
    then show ?thesis using assms(3) st' Some by auto
  qed
qed

lemma filter_latest_inv:
  assumes "filter_latest dc pn st = Inr st'" and "filter_inv dc provs st"
  shows "filter_inv dc provs st'"
proof (cases "\<exists>w h. map_of (fs_preferred st) pn = Some (w, Some h)")
  case True
  then show ?thesis using assms by (auto simp: filter_latest_def)
next
  case False
  then have none: "map_of (fs_preferred st) pn \<noteq> Some (w, Some h)" for w h by blast
  have "filter_latest dc pn st = (case dget (fs_sorted st) pn [] of
      [] \<Rightarrow> Inl IndexError
    | file_set # _ \<Rightarrow> rbind (findLatestProvider dc file_set) (\<lambda>(v, f).
        Inr (st\<lparr>fs_preferred := AList.update pn (v, f) (fs_preferred st),
                fs_eligible := (case f of None \<Rightarrow> fs_eligible st
                                | Some f \<Rightarrow> fs_eligible st @ [f])\<rparr>)))"
    using none by (auto simp: filter_latest_def split: option.splits prod.splits)
  from assms(1) [unfolded this] obtain g gs v f where g: "dget (fs_sorted st) pn [] = g # gs"
    and l: "findLatestProvider dc g = Inr (v, f)"
    and st': "st' = st\<lparr>fs_preferred := AList.update pn (v, f) (fs_preferred st),
      fs_eligible := (case f of None \<Rightarrow> fs_eligible st | Some f \<Rightarrow> fs_eligible st @ [f])\<rparr>"
    by (auto simp: rbind_eq_Inr split: list.splits prod.splits)
  show ?thesis
  proof (cases f)
    case None
    then show ?thesis using filter_inv_none [OF assms(2) none] st' by simp
  next
    case (Some h)
    then have "h \<in> set g" using findLatestProvider_file l by blast
    moreover have "g \<in> set (dget (fs_sorted st) pn [])" using g by simp
    then have "within dc provs pn g" using assms(2) unfolding filter_inv_def by blast
    ultimately have "within dc provs pn [h]" by (simp add: within_def)
    then show ?thesis using filter_inv_choose [OF assms(2) _ _ none] Some st' by (simp add: within_def)
  qed
qed

lemma mset_prefer_named: "mset (prefer_named dc item pref p xs) = mset xs"
  by (auto simp: prefer_named_def Let_def split: option.splits prod.splits)

lemma mset_prefer_fold: "mset (fold (prefer_named dc item pref) ps xs) = mset xs"
  by (induction ps arbitrary: xs) (simp_all add: mset_prefer_named)

lemma mset_distinct_map: "mset xs = mset ys \<Longrightarrow> distinct (map f xs) = distinct (map f ys)"
  by (metis mset_map mset_eq_imp_distinct_iff)

text \<open>C38: whatever the configuration, the candidates for an item are among its providers, and no
  two of them are files of the same recipe name: of each recipe one version is chosen.\<close>

theorem filter_providers_common_sound:
  assumes "filter_providers_common provs item getVar dc = Inr el"
  shows "set el \<subseteq> set provs \<and> distinct (map (fn_pn dc) el)"
proof -
  let ?init = "\<lparr>fs_eligible = [], fs_preferred = [], fs_sorted = [], fs_stop = False\<rparr>"
  let ?ks = "sort (dkeys (collate_by_pn dc (sort provs)))"
  from assms obtain st where st:
      "rfold (filter_required getVar dc (collate_by_pn dc (sort provs))) ?ks ?init = Inr st"
    and rest: "fs_stop st \<and> el = fs_eligible st \<or>
      (\<exists>st2. rfold (filter_latest dc) (sort (dkeys (fs_sorted st))) st = Inr st2 \<and>
         el = fold (prefer_named dc item (fs_preferred st2)) (sort provs) (fs_eligible st2))"
    by (auto simp: filter_providers_common_def Let_def rbind_eq_Inr split: if_splits)
  let ?P = "\<lambda>E st. filter_inv dc (sort provs) st \<and> set (dkeys (fs_preferred st)) \<subseteq> E"
  have "?P ({} \<union> set ?ks) st"
  proof (rule rfold_progress [OF st])
    show "?P {} ?init" by (simp add: filter_inv_def dget_def dkeys_def)
    show "?P (insert pn E) v" if "pn \<in> set ?ks" and "pn \<notin> E" and "?P E u"
      and "filter_required getVar dc (collate_by_pn dc (sort provs)) pn u = Inr v" for pn u v E
      using filter_required_inv [OF that(4), of E] that(1-3) by (simp add: dkeys_collate)
  qed (simp_all add: dkeys_collate)
  then have inv: "filter_inv dc (sort provs) st" by blast
  from rest obtain st2 where inv2: "filter_inv dc (sort provs) st2"
    and el: "mset el = mset (fs_eligible st2)"
  proof -
    consider "el = fs_eligible st" | st2 where
      "rfold (filter_latest dc) (sort (dkeys (fs_sorted st))) st = Inr st2"
      "el = fold (prefer_named dc item (fs_preferred st2)) (sort provs) (fs_eligible st2)"
      using rest by blast
    then show thesis
    proof cases
      case 1
      then show ?thesis using that inv by blast
    next
      case 2
      have "filter_inv dc (sort provs) st2"
        using rfold_invariant [where P = "filter_inv dc (sort provs)", OF 2(1) inv]
          filter_latest_inv by blast
      then show ?thesis using that 2(2) by (simp add: mset_prefer_fold)
    qed
  qed
  from inv2 have "set (fs_eligible st2) \<subseteq> set provs \<and> distinct (map (fn_pn dc) (fs_eligible st2))"
    by (auto simp: filter_inv_def)
  then show ?thesis using mset_distinct_map [OF el, of "fn_pn dc"] mset_eq_setD [OF el] by simp
qed


lemma filter_providers_common_sound_witness:
  "\<exists>el. filter_providers_common [''b_1.bb'', ''a_1.bb'', ''a_2.bb''] ''v'' (\<lambda>_. None) sample_cache = Inr el \<and>
    set el \<subseteq> {''b_1.bb'', ''a_1.bb'', ''a_2.bb''} \<and> distinct (map (fn_pn sample_cache) el)"
proof -
  have e: "filter_providers_common [''b_1.bb'', ''a_1.bb'', ''a_2.bb''] ''v'' (\<lambda>_. None) sample_cache =
      Inr [''a_2.bb'', ''b_1.bb'']" by code_simp
  show ?thesis using filter_providers_common_sound [OF e] e by simp
qed

text \<open>\<open>filterProviders\<close> only reorders the candidates, and when it reports a preferred provider,
  the one in front is a file of the recipe that \<open>PREFERRED_PROVIDER_<item>\<close> (or an earlier recorded
  setting) names.\<close>

theorem filterProviders_front:
  assumes "filterProviders provs item getVar dc = Inr ((el, found), dc')"
  shows "\<exists>common. filter_providers_common provs item getVar dc = Inr common \<and>
    mset el = mset common \<and> dc' = record_preferred getVar item dc \<and>
    (if found then el \<noteq> [] \<and> map_of (preferred dc') item = Some (fn_pn dc (hd el))
     else el = common \<and>
       (\<forall>f\<in>set common. map_of (preferred dc') item \<noteq> Some (fn_pn dc f)))"
proof -
  obtain common where c: "filter_providers_common provs item getVar dc = Inr common"
    using assms by (auto simp: filterProviders_def rbind_eq_Inr)
  show ?thesis
  proof (cases "map_of (preferred (record_preferred getVar item dc)) item")
    case None
    then show ?thesis using assms c by (auto simp: filterProviders_def Let_def)
  next
    case (Some pref)
    show ?thesis
    proof (cases "find (\<lambda>p. fn_pn dc p = pref) common")
      case None
      moreover from None have "\<forall>f\<in>set common. fn_pn dc f \<noteq> pref" by (simp add: find_None_iff)
      ultimately show ?thesis using assms c Some by (auto simp: filterProviders_def Let_def)
    next
      case (Some p)
      then show ?thesis using assms c \<open>map_of _ item = Some pref\<close> find_in_set [OF Some]
        by (auto simp: filterProviders_def Let_def move_first_def)
    qed
  qed
qed

lemma filterProviders_front_witness:
  "\<exists>el dc'. filterProviders [''b_1.bb'', ''a_2.bb''] ''v''
      (\<lambda>v. if v = ''PREFERRED_PROVIDER_v'' then Some ''b'' else None) sample_cache = Inr ((el, True), dc') \<and>
    el \<noteq> [] \<and> map_of (preferred dc') ''v'' = Some (fn_pn sample_cache (hd el))"
proof -
  let ?g = "\<lambda>v. if v = ''PREFERRED_PROVIDER_v'' then Some ''b'' else None"
  have "map_option (\<lambda>x. snd (fst x)) (case filterProviders [''b_1.bb'', ''a_2.bb''] ''v'' ?g sample_cache of
      Inr x \<Rightarrow> Some x | Inl _ \<Rightarrow> None) = Some True" by code_simp
  then obtain el dc' where e: "filterProviders [''b_1.bb'', ''a_2.bb''] ''v'' ?g sample_cache =
      Inr ((el, True), dc')"
    by (auto split: sum.splits)
  show ?thesis using filterProviders_front [OF e] e by auto
qed

lemma findPreferredProvider_choice:
  "snd (findPreferredProvider pn getVar dc groups) =
    (let req = versionVariableMatch getVar ''REQUIRED'' pn;
         v = (if req \<noteq> None then req else versionVariableMatch getVar ''PREFERRED'' pn)
     in (if truthy v
         then find (\<lambda>f. preferredVersionMatch (fst (fn_pepvpr dc f)) (fst (snd (fn_pepvpr dc f))) []
             (fst (match_preferred (the v))) (Some (fst (snd (match_preferred (the v))))) None)
           (concat groups)
         else None, req \<noteq> None))"
proof -
  define m where "m = (\<lambda>pe pv e v. preferredVersionMatch pe pv [] e v None)"
  have "preferredVersionMatch pe pv pr e v None = m pe pv e v" for pe pv pr e v
    by (simp add: preferredVersionMatch_def m_def)
  then show ?thesis
    by (simp add: findPreferredProvider_def Let_def match_preferred_def case_prod_beta split: option.split)
qed

text \<open>The revision part of a version setting is never looked at: the chosen file depends only on
  the epochs and versions of the candidates, although the documentation of the function describes
  \<open>PREFERRED_VERSION\<close> as epoch, version and revision.\<close>

theorem findPreferredProvider_ignores_revision:
  assumes "\<forall>f\<in>set (concat groups). fst (fn_pepvpr dc f) = fst (fn_pepvpr dc' f) \<and>
      fst (snd (fn_pepvpr dc f)) = fst (snd (fn_pepvpr dc' f))"
  shows "snd (findPreferredProvider pn getVar dc groups) = snd (findPreferredProvider pn getVar dc' groups)"
proof -
  let ?m = "\<lambda>dc e v f.
    preferredVersionMatch (fst (fn_pepvpr dc f)) (fst (snd (fn_pepvpr dc f))) [] e v None"
  have "find (?m dc e v) (concat groups) = find (?m dc' e v) (concat groups)" for e v
    by (intro find_cong refl) (drule assms [rule_format], simp)
  then show ?thesis by (simp only: findPreferredProvider_choice Let_def)
qed

lemma findPreferredProvider_ignores_revision_witness:
  "snd (findPreferredProvider ''a'' (\<lambda>v. Some ''1'') sample_cache [[''a_1.bb'']]) =
    snd (findPreferredProvider ''a'' (\<lambda>v. Some ''1'')
      (sample_cache\<lparr>pkg_pepvpr := [(''a_1.bb'', ([], ''1'', ''r7''))]\<rparr>) [[''a_1.bb'']])"
  by (rule findPreferredProvider_ignores_revision) (simp add: sample_cache_def fn_pepvpr_def dget_def)

text \<open>\<open>filterProvidersRunTime\<close> counts too few preferred providers: with two candidates whose
  items are each claimed by a \<open>PREFERRED_PROVIDER\<close> setting, moving the first one to the front
  removes it from the list being walked, the walk ends before the second, and the caller is told
  of one preference instead of two conflicting ones.\<close>

theorem filterProvidersRunTime_skips:
  "filterProvidersRunTime [''a_1.bb'', ''b_1.bb''] ''r''
      (\<lambda>v. if v = ''PREFERRED_PROVIDER_a'' then Some ''a''
           else if v = ''PREFERRED_PROVIDER_b'' then Some ''b'' else None) sample_cache =
    Inr ([''a_1.bb'', ''b_1.bb''], 1)"
  by code_simp

end
