(* ===== verification/TaskData.thy ===== *)
theory TaskData
  imports Providers
begin

text \<open>
  The task data of one configuration, from \<open>bb/taskdata.py\<close>: which recipe files and tasks the
  requested items need. Items are resolved to providers, the providers' tasks and dependencies are
  added, the dependencies become new items to resolve, and what cannot be built is removed together
  with everything that depends on it.

  Every method runs in the state \<open>taskdata\<close>, which also holds the recipe cache the methods are
  given (provider selection records preferences in it and sorts its provider lists) and the events
  fired. Exceptions keep the state, because callers catch \<open>NoProvider\<close> and go on. Log messages and
  the spelling suggestions in events are left out.
\<close>

section \<open>State\<close>

record task_entry =
  tdepends :: "string list"
  idepends :: "(string \<times> string) list"
  irdepends :: "(string \<times> string) list"

definition empty_entry :: task_entry where
  "empty_entry = \<lparr>tdepends = [], idepends = [], irdepends = []\<rparr>"

record skip_item =
  skip_pn :: string
  skip_provides :: "string list"
  skip_rprovides :: "string list"
  skip_reason :: string

datatype td_event =
    NoProviderEvent string bool "string list" "string list"
  | MultipleProvidersEvent string "string list" bool

record taskdata =
  build_targets :: "(string, string list) dict"
  run_targets :: "(string, string list) dict"
  external_targets :: "string list"
  seenfns :: "string list"
  taskentries :: "(string, task_entry) dict"
  depids :: "(string, string list) dict"
  rdepids :: "(string, string list) dict"
  consider_msgs_cache :: "string list"
  failed_deps :: "string list"
  failed_rdeps :: "string list"
  failed_fns :: "string list"
  halt :: bool
  allowincomplete :: bool
  skiplist :: "(string, skip_item) dict"
  mcdepends :: "string list"
  td_cache :: dcache
  td_fired :: "td_event list"

definition init_taskdata :: "bool \<Rightarrow> (string, skip_item) dict \<Rightarrow> bool \<Rightarrow> dcache \<Rightarrow> taskdata" where
  "init_taskdata halting skips incomplete dc =
     \<lparr>build_targets = [], run_targets = [], external_targets = [], seenfns = [], taskentries = [],
      depids = [], rdepids = [], consider_msgs_cache = [], failed_deps = [], failed_rdeps = [],
      failed_fns = [], halt = halting, allowincomplete = incomplete, skiplist = skips,
      mcdepends = [], td_cache = dc, td_fired = []\<rparr>"

text \<open>
  What the methods use from outside: the datastore, \<open>re.match\<close> and \<open>re.compile\<close>, the order in which
  a set of names is listed, and the metadata function \<open>calculate_extra_depends\<close> of a recipe, which
  is given the recipe's dependencies, the world target, the table of recipe names and the recipe's
  own name and may change the first three (\<open>None\<close>: it raised, which ends the build).
\<close>

record td_env =
  env_getVar :: getvar_fun
  env_match :: "string \<Rightarrow> string \<Rightarrow> bool"
  env_compile :: regex
  env_order :: "string list \<Rightarrow> string list"
  env_exec :: "string \<Rightarrow> string list \<Rightarrow> string list \<Rightarrow> (string, string list) dict \<Rightarrow> string \<Rightarrow>
    (string list \<times> string list \<times> (string, string list) dict) option"

type_synonym 'a tdm = "(taskdata, 'a) meth"

section \<open>Targets\<close>

definition re_match_strings :: "td_env \<Rightarrow> string \<Rightarrow> string list \<Rightarrow> bool" where
  "re_match_strings env target strings =
     list_ex (\<lambda>name. if prefix ''^'' name \<or> suffix ''$'' name then env_match env name target
                     else name = target) strings"

definition have_build_target :: "taskdata \<Rightarrow> string \<Rightarrow> bool" where
  "have_build_target s target = (dget (build_targets s) target [] \<noteq> [])"

definition have_runtime_target :: "taskdata \<Rightarrow> string \<Rightarrow> bool" where
  "have_runtime_target s target = (dget (run_targets s) target [] \<noteq> [])"

definition seen_target :: "string \<Rightarrow> (string, string list) dict \<Rightarrow> (string, string list) dict" where
  "seen_target name targets = (if has_key targets name then targets else AList.update name [] targets)"

definition add_target :: "string \<Rightarrow> string \<Rightarrow> (string, string list) dict \<Rightarrow> (string, string list) dict" where
  "add_target fn item targets =
     (if has_key targets item then
        if fn \<in> set (dget targets item []) then targets
        else AList.update item (dget targets item [] @ [fn]) targets
      else AList.update item [fn] targets)"

definition seen_build_target :: "string \<Rightarrow> taskdata \<Rightarrow> taskdata" where
  "seen_build_target name s = s\<lparr>build_targets := seen_target name (build_targets s)\<rparr>"

definition add_build_target :: "string \<Rightarrow> string \<Rightarrow> taskdata \<Rightarrow> taskdata" where
  "add_build_target fn item s = s\<lparr>build_targets := add_target fn item (build_targets s)\<rparr>"

definition seen_run_target :: "string \<Rightarrow> taskdata \<Rightarrow> taskdata" where
  "seen_run_target name s = s\<lparr>run_targets := seen_target name (run_targets s)\<rparr>"

definition add_runtime_target :: "string \<Rightarrow> string \<Rightarrow> taskdata \<Rightarrow> taskdata" where
  "add_runtime_target fn item s = s\<lparr>run_targets := add_target fn item (run_targets s)\<rparr>"

definition mark_external_target :: "string \<Rightarrow> taskdata \<Rightarrow> taskdata" where
  "mark_external_target target s = s\<lparr>external_targets := sadd target (external_targets s)\<rparr>"

definition get_unresolved_build_targets :: "td_env \<Rightarrow> taskdata \<Rightarrow> string list" where
  "get_unresolved_build_targets env s =
     filter (\<lambda>t. \<not> re_match_strings env t (ignored_dependencies (td_cache s)) \<and>
         t \<notin> set (failed_deps s) \<and> dget (build_targets s) t [] = []) (dkeys (build_targets s))"

definition get_unresolved_run_targets :: "td_env \<Rightarrow> taskdata \<Rightarrow> string list" where
  "get_unresolved_run_targets env s =
     filter (\<lambda>t. \<not> re_match_strings env t (ignored_dependencies (td_cache s)) \<and>
         t \<notin> set (failed_rdeps s) \<and> dget (run_targets s) t [] = []) (dkeys (run_targets s))"

definition get_provider :: "taskdata \<Rightarrow> string \<Rightarrow> string list res" where
  "get_provider s item =
     (case map_of (build_targets s) item of None \<Rightarrow> Inl (KeyError item) | Some fns \<Rightarrow> Inr fns)"

definition get_dependees :: "taskdata \<Rightarrow> string \<Rightarrow> string list" where
  "get_dependees s item = filter (\<lambda>fn. item \<in> set (dget (depids s) fn [])) (dkeys (depids s))"

definition get_rdependees :: "taskdata \<Rightarrow> string \<Rightarrow> string list" where
  "get_rdependees s item = filter (\<lambda>fn. item \<in> set (dget (rdepids s) fn [])) (dkeys (rdepids s))"

definition reason_of :: "string \<Rightarrow> bool \<Rightarrow> skip_item \<Rightarrow> string list" where
  "reason_of item runtime i =
     (if skip_pn i = item then [skip_pn i @ '' was skipped: '' @ skip_reason i]
      else if runtime \<and> item \<in> set (skip_rprovides i)
      then [skip_pn i @ '' RPROVIDES '' @ item @ '' but was skipped: '' @ skip_reason i]
      else if \<not> runtime \<and> item \<in> set (skip_provides i)
      then [skip_pn i @ '' PROVIDES '' @ item @ '' but was skipped: '' @ skip_reason i]
      else [])"

definition get_reasons :: "taskdata \<Rightarrow> string \<Rightarrow> bool \<Rightarrow> string list" where
  "get_reasons s item runtime = concat (map (\<lambda>(fn, i). reason_of item runtime i) (skiplist s))"


section \<open>Failing files and targets\<close>

text \<open>
  A file fails, which empties targets, which fail in turn and with them the files that depend on
  them. The recursion goes through the state; \<open>fail_fn_n n\<close> allows \<open>n\<close> nested calls and
  \<open>fail_fuel\<close> is more than the number of files that can fail (\<open>fail_fn_fuel\<close> below).
\<close>

definition tid_fn :: "string \<Rightarrow> string" where
  "tid_fn tid = (case rsplit1 CHR '':'' tid of None \<Rightarrow> tid | Some (fn, task) \<Rightarrow> fn)"

definition entry_of :: "taskdata \<Rightarrow> string \<Rightarrow> task_entry" where
  "entry_of s tid = dget (taskentries s) tid empty_entry"

definition fail_tasks :: "(string \<Rightarrow> unit tdm) \<Rightarrow> (task_entry \<Rightarrow> (string \<times> string) list) \<Rightarrow> string \<Rightarrow> unit tdm" where
  "fail_tasks fail sel target =
     mread (\<lambda>s. mfor (\<lambda>tid. mread (\<lambda>s. mfor (\<lambda>(idepend, idependtask).
         if idepend = target then fail (tid_fn tid) else mreturn ())
       (sel (entry_of s tid)))) (dkeys (taskentries s)))"

definition remove_buildtarget_with :: "(string \<Rightarrow> unit tdm) \<Rightarrow> string \<Rightarrow> unit tdm" where
  "remove_buildtarget_with fail target =
     mthen (mupd (\<lambda>s. s\<lparr>failed_deps := failed_deps s @ [target]\<rparr>))
    (mthen (mread (\<lambda>s. mfor fail (get_dependees s target)))
    (mthen (fail_tasks fail idepends target)
    (mread (\<lambda>s. if halt s \<and> target \<in> set (external_targets s) then mraise (NoProvider target)
                 else mreturn ()))))"

definition remove_runtarget_with :: "(string \<Rightarrow> unit tdm) \<Rightarrow> string \<Rightarrow> unit tdm" where
  "remove_runtarget_with fail target =
     mthen (mupd (\<lambda>s. s\<lparr>failed_rdeps := failed_rdeps s @ [target]\<rparr>))
    (mthen (mread (\<lambda>s. mfor fail (get_rdependees s target)))
    (fail_tasks fail irdepends target))"

definition fail_build_target :: "(string \<Rightarrow> unit tdm) \<Rightarrow> string \<Rightarrow> string \<Rightarrow> unit tdm" where
  "fail_build_target fail fn target =
     mread (\<lambda>s. if fn \<in> set (dget (build_targets s) target []) then
         mthen (mupd (\<lambda>s. s\<lparr>build_targets :=
             AList.update target (remove1 fn (dget (build_targets s) target [])) (build_targets s)\<rparr>))
           (mread (\<lambda>s. if dget (build_targets s) target [] = []
                        then remove_buildtarget_with fail target else mreturn ()))
       else mreturn ())"

definition fail_run_target :: "(string \<Rightarrow> unit tdm) \<Rightarrow> string \<Rightarrow> string \<Rightarrow> unit tdm" where
  "fail_run_target fail fn target =
     mread (\<lambda>s. if fn \<in> set (dget (run_targets s) target []) then
         mthen (mupd (\<lambda>s. s\<lparr>run_targets :=
             AList.update target (remove1 fn (dget (run_targets s) target [])) (run_targets s)\<rparr>))
           (mread (\<lambda>s. if dget (run_targets s) target [] = []
                        then remove_runtarget_with fail target else mreturn ()))
       else mreturn ())"

definition fail_fn_with :: "(string \<Rightarrow> unit tdm) \<Rightarrow> string \<Rightarrow> unit tdm" where
  "fail_fn_with fail fn =
     mread (\<lambda>s. if fn \<in> set (failed_fns s) then mreturn ()
       else mthen (mupd (\<lambda>s. s\<lparr>failed_fns := failed_fns s @ [fn]\<rparr>))
           (mthen (mread (\<lambda>s. mfor (fail_build_target fail fn) (dkeys (build_targets s))))
                  (mread (\<lambda>s. mfor (fail_run_target fail fn) (dkeys (run_targets s))))))"

primrec fail_fn_n :: "nat \<Rightarrow> string \<Rightarrow> unit tdm" where
  "fail_fn_n 0 fn = mraise OutOfFuel"
| "fail_fn_n (Suc n) fn = fail_fn_with (fail_fn_n n) fn"

definition fail_fuel :: "taskdata \<Rightarrow> nat" where
  "fail_fuel s =
     length (dkeys (depids s)) + length (dkeys (rdepids s)) + length (dkeys (taskentries s)) + 2"

definition fail_fn :: "string \<Rightarrow> unit tdm" where
  "fail_fn fn = mread (\<lambda>s. fail_fn_n (fail_fuel s) fn)"

definition remove_buildtarget :: "string \<Rightarrow> unit tdm" where
  "remove_buildtarget target = mread (\<lambda>s. remove_buildtarget_with (fail_fn_n (fail_fuel s)) target)"

definition remove_runtarget :: "string \<Rightarrow> unit tdm" where
  "remove_runtarget target = mread (\<lambda>s. remove_runtarget_with (fail_fn_n (fail_fuel s)) target)"

section \<open>Adding a file's tasks\<close>

text \<open>\<open>mcdepends\<close> are \<open>mc:from:to:package:task\<close>; anything else stops the build.\<close>

fun add_mcdepends :: "string \<Rightarrow> string \<Rightarrow> string list \<Rightarrow> unit tdm" where
  "add_mcdepends fn task [] = mreturn ()"
| "add_mcdepends fn task (dep # ds) =
     (if length (split_on CHR '':'' dep) \<noteq> 5
      then mraise (Fatal (''Error for '' @ fn @ '':'' @ task @ ''[mcdepends]''))
      else mthen (mupd (\<lambda>s. s\<lparr>mcdepends := sadd dep (mcdepends s)\<rparr>)) (add_mcdepends fn task ds))"

fun dep_ids ::
  "string \<Rightarrow> string \<Rightarrow> string \<Rightarrow> (string \<Rightarrow> taskdata \<Rightarrow> taskdata) \<Rightarrow> string list \<Rightarrow> (string \<times> string) list tdm" where
  "dep_ids fn task dep_name seen [] = mreturn []"
| "dep_ids fn task dep_name seen (dep # ds) =
     (let parts = split_on CHR '':'' dep in
      if length parts \<noteq> 2
      then mraise (Fatal (''Error for '' @ fn @ '':'' @ task @ ''['' @ dep_name @ '']''))
      else mthen (mupd (seen (parts ! 0)))
             (mbind (dep_ids fn task dep_name seen ds)
               (\<lambda>ids. mreturn ((parts ! 0, parts ! 1) # ids))))"

definition handle_deps ::
  "string \<Rightarrow> taskdeps \<Rightarrow> string \<Rightarrow> string \<Rightarrow> (string \<Rightarrow> taskdata \<Rightarrow> taskdata) \<Rightarrow>
    ((string \<times> string) list \<Rightarrow> task_entry \<Rightarrow> task_entry) \<Rightarrow> unit tdm" where
  "handle_deps fn td task dep_name seen ext =
     (case task_flag td dep_name task of
        None \<Rightarrow> mreturn ()
      | Some value \<Rightarrow>
          mbind (dep_ids fn task dep_name seen (words value)) (\<lambda>ids.
            mupd (\<lambda>s. let tid = fn @ '':'' @ task in
              s\<lparr>taskentries := AList.update tid (ext ids (entry_of s tid)) (taskentries s)\<rparr>)))"

definition add_task :: "string \<Rightarrow> taskdeps \<Rightarrow> string \<Rightarrow> unit tdm" where
  "add_task fn td task =
     (let tid = fn @ '':'' @ task in
      mthen (mupd (\<lambda>s. s\<lparr>taskentries := AList.update tid empty_entry (taskentries s)\<rparr>))
      (case map_of (td_parents td) task of
         None \<Rightarrow> mraise (KeyError task)
       | Some parents \<Rightarrow>
           let parentids = map (\<lambda>dep. fn @ '':'' @ dep) (filter (\<lambda>dep. dep \<in> set (td_tasks td)) parents)
           in mthen (mupd (\<lambda>s. s\<lparr>taskentries := AList.update tid
                  ((entry_of s tid)\<lparr>tdepends := tdepends (entry_of s tid) @ parentids\<rparr>) (taskentries s)\<rparr>))
             (mthen (handle_deps fn td task ''depends'' seen_build_target
                  (\<lambda>ids e. e\<lparr>idepends := idepends e @ ids\<rparr>))
             (mthen (handle_deps fn td task ''rdepends'' seen_run_target
                  (\<lambda>ids e. e\<lparr>irdepends := irdepends e @ ids\<rparr>))
             (case task_flag td ''mcdepends'' task of
                None \<Rightarrow> mreturn ()
              | Some value \<Rightarrow> add_mcdepends fn task (words value))))))"


text \<open>\<open>add_extra_deps\<close> runs the recipe's \<open>calculate_extra_depends\<close>, when it has one.\<close>

definition add_extra_deps :: "td_env \<Rightarrow> string \<Rightarrow> unit tdm" where
  "add_extra_deps env fn =
     mread (\<lambda>s. let func = dget (extradepsfunc (td_cache s)) fn [] in
       if func = [] then mreturn ()
       else mthen (mupd (\<lambda>s. s\<lparr>td_cache := buildWorldTargetList (td_cache s) None\<rparr>))
         (mread (\<lambda>s. let dc = td_cache s in
           case env_exec env func (dget (deps dc) fn []) (world_target dc) (pkg_pn dc) (fn_pn dc fn) of
             None \<Rightarrow> mraise (Fatal func)
           | Some (ds, w, p) \<Rightarrow> mupd (\<lambda>s. s\<lparr>td_cache :=
                (td_cache s)\<lparr>deps := AList.update fn ds (deps (td_cache s)), world_target := w, pkg_pn := p\<rparr>\<rparr>))))"

definition add_depids :: "td_env \<Rightarrow> string \<Rightarrow> taskdata \<Rightarrow> taskdata" where
  "add_depids env fn s =
     (if has_key (depids s) fn then s
      else s\<lparr>depids := AList.update fn
               (env_order env (remdups (dget (deps (td_cache s)) fn []))) (depids s)\<rparr>)"

definition add_rdepids :: "td_env \<Rightarrow> string \<Rightarrow> taskdata \<Rightarrow> taskdata" where
  "add_rdepids env fn s =
     (if has_key (rdepids s) fn then s
      else let rdependlist = concat (map snd (dget (rundeps (td_cache s)) fn []));
               rreclist = concat (map snd (dget (runrecs (td_cache s)) fn []))
           in s\<lparr>rdepids := AList.update fn
                  (env_order env (remdups (rdependlist @ rreclist))) (rdepids s)\<rparr>)"

text \<open>
  The last two loops of \<open>add_tasks\<close>: the first dependency already known to have failed fails the
  file, and the method returns (\<open>True\<close>).
\<close>

fun scan_deps ::
  "(string \<Rightarrow> taskdata \<Rightarrow> taskdata) \<Rightarrow> (taskdata \<Rightarrow> string list) \<Rightarrow> string \<Rightarrow> string list \<Rightarrow> bool tdm" where
  "scan_deps seen failed fn [] = mreturn False"
| "scan_deps seen failed fn (dep # ds) =
     mthen (mupd (seen dep))
       (mread (\<lambda>s. if dep \<in> set (failed s) then mthen (fail_fn fn) (mreturn True)
                    else scan_deps seen failed fn ds))"

definition add_tasks :: "td_env \<Rightarrow> string \<Rightarrow> unit tdm" where
  "add_tasks env fn =
     mread (\<lambda>s. case map_of (task_deps (td_cache s)) fn of
         None \<Rightarrow> mraise (KeyError fn)
       | Some td \<Rightarrow>
         if fn \<in> set (failed_fns s) then mraise (Fatal ''Trying to re-add a failed file?'')
         else if fn \<in> set (seenfns s) then mreturn ()
         else
           mthen (mupd (\<lambda>s. s\<lparr>seenfns := seenfns s @ [fn]\<rparr>))
          (mthen (add_extra_deps env fn)
          (mthen (mfor (add_task fn td) (td_tasks td))
          (mthen (mupd (add_depids env fn))
          (mthen (mupd (add_rdepids env fn))
          (mread (\<lambda>s. mbind (scan_deps seen_build_target failed_deps fn (dget (depids s) fn []))
             (\<lambda>returned. if returned then mreturn ()
               else mread (\<lambda>s. mbind (scan_deps seen_run_target failed_rdeps fn (dget (rdepids s) fn []))
                      (\<lambda>_. mreturn ()))))))))))"

section \<open>Adding providers\<close>

definition fire :: "td_event \<Rightarrow> unit tdm" where
  "fire ev = mupd (\<lambda>s. s\<lparr>td_fired := td_fired s @ [ev]\<rparr>)"

text \<open>The in-place sort and the recorded preference of \<open>filterProviders\<close> reach the cache.\<close>

definition filter_providers :: "td_env \<Rightarrow> string \<Rightarrow> (string list \<times> bool) tdm" where
  "filter_providers env item =
     mread (\<lambda>s. let all_p = dget (providers (td_cache s)) item [] in
       mthen (mupd (\<lambda>s. s\<lparr>td_cache := (td_cache s)
           \<lparr>providers := AList.update item (sort all_p) (providers (td_cache s))\<rparr>\<rparr>))
        (mread (\<lambda>s.
          mbind (mlift (filterProviders (sort all_p) item (env_getVar env) (td_cache s)))
            (\<lambda>(r, dc). mthen (mupd (\<lambda>s. s\<lparr>td_cache := dc\<rparr>)) (mreturn r)))))"

definition consider_message :: "string \<Rightarrow> string list \<Rightarrow> bool \<Rightarrow> unit tdm" where
  "consider_message item eligible runtime =
     mread (\<lambda>s.
       mthen (if item \<in> set (consider_msgs_cache s) then mreturn ()
              else fire (MultipleProvidersEvent item (map (fn_pn (td_cache s)) eligible) runtime))
         (mupd (\<lambda>s. s\<lparr>consider_msgs_cache := consider_msgs_cache s @ [item]\<rparr>)))"

definition add_eligible :: "td_env \<Rightarrow> (string \<Rightarrow> taskdata \<Rightarrow> taskdata) \<Rightarrow> string list \<Rightarrow> unit tdm" where
  "add_eligible env add eligible =
     mfor (\<lambda>fn. mread (\<lambda>s. if fn \<in> set (failed_fns s) then mreturn ()
         else mthen (mupd (add fn)) (add_tasks env fn))) eligible"

definition add_provider_internal :: "td_env \<Rightarrow> string \<Rightarrow> unit tdm" where
  "add_provider_internal env item =
     mread (\<lambda>s.
       if re_match_strings env item (ignored_dependencies (td_cache s)) then mreturn ()
       else if \<not> has_key (providers (td_cache s)) item then
         mbind (mlift (getRuntimeProviders (env_compile env) (td_cache s) item)) (\<lambda>_.
         mthen (fire (NoProviderEvent item False (get_dependees s item) (get_reasons s item False)))
           (mraise (NoProvider item)))
       else if have_build_target s item then mreturn ()
       else mbind (filter_providers env item) (\<lambda>(eligible, foundUnique). mread (\<lambda>s.
         let eligible = filter (\<lambda>p. p \<notin> set (failed_fns s)) eligible in
         if eligible = [] then
           mthen (fire (NoProviderEvent item False (get_dependees s item)
               [''No eligible PROVIDERs exist for '' @ item]))
             (mraise (NoProvider item))
         else mthen (if length eligible > 1 \<and> \<not> foundUnique
                     then consider_message item eligible False else mreturn ())
           (add_eligible env (\<lambda>fn. add_build_target fn item) eligible))))"

definition add_provider :: "td_env \<Rightarrow> string \<Rightarrow> unit tdm" where
  "add_provider env item =
     mthen (mcatch (add_provider_internal env item)
             (\<lambda>e. case e of
                NoProvider i \<Rightarrow> mread (\<lambda>s. if halt s then mraise e else remove_buildtarget item)
              | _ \<Rightarrow> mraise e))
       (mupd (mark_external_target item))"

definition add_rprovider :: "td_env \<Rightarrow> string \<Rightarrow> unit tdm" where
  "add_rprovider env item =
     mread (\<lambda>s.
       if re_match_strings env item (ignored_dependencies (td_cache s)) then mreturn ()
       else if have_runtime_target s item then mreturn ()
       else mbind (mlift (getRuntimeProviders (env_compile env) (td_cache s) item)) (\<lambda>all_p.
         if all_p = [] then
           mthen (fire (NoProviderEvent item True (get_rdependees s item) (get_reasons s item True)))
             (mraise (NoRProvider item))
         else mbind (mlift (filterProvidersRunTime all_p item (env_getVar env) (td_cache s)))
           (\<lambda>(eligible, numberPreferred).
             let eligible = filter (\<lambda>p. p \<notin> set (failed_fns s)) eligible in
             if eligible = [] then
               mthen (fire (NoProviderEvent item True (get_rdependees s item)
                   [''No eligible RPROVIDERs exist for '' @ item]))
                 (mraise (NoRProvider item))
             else mthen (if length eligible > 1 \<and> numberPreferred = 0
                         then consider_message item eligible True else mreturn ())
              (if numberPreferred > 1
               then mthen (consider_message item eligible True) (mraise (MultipleRProvider item))
               else add_eligible env (\<lambda>fn. add_runtime_target fn item) eligible))))"

section \<open>Resolving what is left\<close>

definition resolve_build :: "td_env \<Rightarrow> string \<Rightarrow> nat tdm" where
  "resolve_build env target =
     mcatch (mthen (add_provider_internal env target) (mreturn 1))
       (\<lambda>e. case e of
          NoProvider i \<Rightarrow> mread (\<lambda>s.
            if halt s \<and> target \<in> set (external_targets s) \<and> \<not> allowincomplete s then mraise e
            else if \<not> allowincomplete s then mthen (remove_buildtarget target) (mreturn 0)
            else mreturn 0)
        | _ \<Rightarrow> mraise e)"

definition resolve_run :: "td_env \<Rightarrow> string \<Rightarrow> nat tdm" where
  "resolve_run env target =
     mcatch (mthen (add_rprovider env target) (mreturn 1))
       (\<lambda>e. case e of
          NoRProvider i \<Rightarrow> mthen (remove_runtarget target) (mreturn 0)
        | MultipleRProvider i \<Rightarrow> mthen (remove_runtarget target) (mreturn 0)
        | _ \<Rightarrow> mraise e)"

fun msum :: "('x \<Rightarrow> nat tdm) \<Rightarrow> 'x list \<Rightarrow> nat tdm" where
  "msum f [] = mreturn 0"
| "msum f (x # xs) = mbind (f x) (\<lambda>n. mbind (msum f xs) (\<lambda>k. mreturn (n + k)))"

definition resolve_sweep :: "td_env \<Rightarrow> nat tdm" where
  "resolve_sweep env =
     mbind (mread (\<lambda>s. msum (resolve_build env) (get_unresolved_build_targets env s))) (\<lambda>n.
     mbind (mread (\<lambda>s. msum (resolve_run env) (get_unresolved_run_targets env s))) (\<lambda>k.
     mreturn (n + k)))"

primrec add_unresolved :: "nat \<Rightarrow> td_env \<Rightarrow> unit tdm" where
  "add_unresolved 0 env = mraise OutOfFuel"
| "add_unresolved (Suc n) env =
     mbind (resolve_sweep env) (\<lambda>added. if added = 0 then mreturn () else add_unresolved n env)"

definition get_providermap :: "taskdata \<Rightarrow> string \<Rightarrow> (string, string) dict" where
  "get_providermap s pre =
     fold (\<lambda>name m. if pre \<noteq> [] \<and> \<not> prefix pre name then m
                    else case dget (build_targets s) name [] of
                           [] \<Rightarrow> m
                         | p # _ \<Rightarrow> AList.update name p m)
       (dkeys (build_targets s)) []"

definition get_mcdepends :: "taskdata \<Rightarrow> string list" where
  "get_mcdepends s = mcdepends s"

end
