(* ===== verification/TaskFailure.thy ===== *)
theory TaskFailure
  imports TaskData
begin

text \<open>
  What failing a file does to the task data: the mutual recursion of \<open>fail_fn\<close>,
  \<open>remove_buildtarget\<close> and \<open>remove_runtarget\<close> always ends, and when it returns the failure has
  reached everything that depends on it.
\<close>

section \<open>The recursion ends\<close>

definition fns_universe :: "taskdata \<Rightarrow> string list" where
  "fns_universe s = dkeys (depids s) @ dkeys (rdepids s) @ map tid_fn (dkeys (taskentries s))"

definition failing_in :: "string set \<Rightarrow> string set \<Rightarrow> taskdata \<Rightarrow> bool" where
  "failing_in U F s \<longleftrightarrow> set (fns_universe s) = U \<and> F \<subseteq> set (failed_fns s)"

definition no_fuel_error :: "string set \<Rightarrow> string set \<Rightarrow> 'a tdm \<Rightarrow> bool" where
  "no_fuel_error U F = stable (failing_in U F) (\<lambda>e s. e \<noteq> OutOfFuel \<and> failing_in U F s)"

lemma fail_tasks_ends:
  assumes "\<And>f. f \<in> U \<Longrightarrow> no_fuel_error U F (fail f)"
  shows "no_fuel_error U F (fail_tasks fail sel target)"
proof -
  have "tid_fn tid \<in> U" if "failing_in U F t" and "tid \<in> set (dkeys (taskentries t))" for t tid
    using that by (auto simp: failing_in_def fns_universe_def)
  then show ?thesis
    using assms unfolding fail_tasks_def no_fuel_error_def case_prod_beta
    by (intro stable_rules) auto
qed

lemma remove_target_ends:
  assumes "\<And>f. f \<in> U \<Longrightarrow> no_fuel_error U F (fail f)"
  shows "no_fuel_error U F (remove_buildtarget_with fail target)"
    and "no_fuel_error U F (remove_runtarget_with fail target)"
proof -
  note t = fail_tasks_ends [OF assms, unfolded no_fuel_error_def]
  have "f \<in> U" if "failing_in U F s" and
    "f \<in> set (get_dependees s target) \<or> f \<in> set (get_rdependees s target)" for s f
    using that by (auto simp: failing_in_def fns_universe_def get_dependees_def get_rdependees_def)
  then show "no_fuel_error U F (remove_buildtarget_with fail target)"
      and "no_fuel_error U F (remove_runtarget_with fail target)"
    using assms unfolding remove_buildtarget_with_def remove_runtarget_with_def no_fuel_error_def
    by (intro stable_rules t; auto simp: failing_in_def fns_universe_def)+
qed

lemma fail_target_ends:
  assumes "\<And>f. f \<in> U \<Longrightarrow> no_fuel_error U F (fail f)"
  shows "no_fuel_error U F (fail_build_target fail fn target)"
    and "no_fuel_error U F (fail_run_target fail fn target)"
  unfolding fail_build_target_def fail_run_target_def no_fuel_error_def
  by (intro stable_rules remove_target_ends [OF assms, unfolded no_fuel_error_def];
      simp add: failing_in_def fns_universe_def)+

lemma fail_fn_n_ends:
  assumes "finite U" and "card (insert fn U - F) < n"
  shows "no_fuel_error U F (fail_fn_n n fn)"
  using assms(2)
proof (induction n arbitrary: fn F)
  case 0
  then show ?case by simp
next
  case (Suc n)
  let ?F = "insert fn F"
  have body: "no_fuel_error U ?F (mthen
      (mread (\<lambda>s. mfor (fail_build_target (fail_fn_n n) fn) (dkeys (build_targets s))))
      (mread (\<lambda>s. mfor (fail_run_target (fail_fn_n n) fn) (dkeys (run_targets s)))))"
    if "fn \<notin> F"
  proof -
    have "no_fuel_error U ?F (fail_fn_n n f)" if "f \<in> U" for f
    proof (rule Suc.IH)
      have "insert f U - ?F \<subset> insert fn U - F" using \<open>fn \<notin> F\<close> that by auto
      then have "card (insert f U - ?F) < card (insert fn U - F)"
        using assms(1) by (intro psubset_card_mono) auto
      then show "card (insert f U - ?F) < n" using Suc.prems by simp
    qed
    then show ?thesis
      unfolding no_fuel_error_def
      by (intro stable_rules fail_target_ends [unfolded no_fuel_error_def])
  qed
  have "triple (\<lambda>s. s = t) (if fn \<in> set (failed_fns t) then mreturn ()
      else mthen (mupd (\<lambda>s. s\<lparr>failed_fns := failed_fns s @ [fn]\<rparr>))
        (mthen (mread (\<lambda>s. mfor (fail_build_target (fail_fn_n n) fn) (dkeys (build_targets s))))
               (mread (\<lambda>s. mfor (fail_run_target (fail_fn_n n) fn) (dkeys (run_targets s))))))
      (\<lambda>_. failing_in U F) (\<lambda>e s. e \<noteq> OutOfFuel \<and> failing_in U F s)"
    if t: "failing_in U F t" for t
  proof (cases "fn \<in> set (failed_fns t)")
    case True
    then show ?thesis using t by (auto intro: triple_return)
  next
    case False
    then have "fn \<notin> F" using t by (auto simp: failing_in_def)
    note b = body [OF this, unfolded no_fuel_error_def stable_def]
    have "triple (\<lambda>s. s = t) (mupd (\<lambda>s. s\<lparr>failed_fns := failed_fns s @ [fn]\<rparr>))
        (\<lambda>_. failing_in U ?F) (\<lambda>e s. e \<noteq> OutOfFuel \<and> failing_in U F s)"
      using t by (intro triple_upd) (auto simp: failing_in_def fns_universe_def)
    moreover have "triple (failing_in U ?F) (mthen
        (mread (\<lambda>s. mfor (fail_build_target (fail_fn_n n) fn) (dkeys (build_targets s))))
        (mread (\<lambda>s. mfor (fail_run_target (fail_fn_n n) fn) (dkeys (run_targets s)))))
      (\<lambda>_. failing_in U F) (\<lambda>e s. e \<noteq> OutOfFuel \<and> failing_in U F s)"
      by (rule triple_weaken [OF b]) (auto simp: failing_in_def)
    ultimately show ?thesis using False by (auto intro: triple_then)
  qed
  then show ?case
    unfolding fail_fn_n.simps fail_fn_with_def no_fuel_error_def stable_def
    by (intro triple_read) auto
qed


lemma fail_fuel_enough:
  assumes "set (fns_universe s) = U"
  shows "no_fuel_error U {} (fail_fn_n (fail_fuel s) fn)"
proof (rule fail_fn_n_ends)
  show "finite U" using assms by auto
  have "card (insert fn U) \<le> Suc (length (fns_universe s))"
    using card_length [of "fn # fns_universe s"] assms by simp
  then show "card (insert fn U - {}) < fail_fuel s"
    by (simp add: fail_fuel_def fns_universe_def)
qed

lemma no_fuel_error_result:
  assumes "no_fuel_error U F m" and "failing_in U F s"
  shows "fst (m s) \<noteq> Inl OutOfFuel"
  using tripleD(2) [OF assms(1) [unfolded no_fuel_error_def stable_def] assms(2)]
  by (cases "m s") auto

text \<open>Failing a file, a build target or a run-time target always ends: the mutual recursion of
  \<open>fail_fn\<close>, \<open>remove_buildtarget\<close> and \<open>remove_runtarget\<close> is never deeper than the number of files
  that can fail, whatever cycles the dependencies have.\<close>

theorem failing_terminates:
  "fst (fail_fn fn s) \<noteq> Inl OutOfFuel \<and> fst (remove_buildtarget target s) \<noteq> Inl OutOfFuel \<and>
   fst (remove_runtarget target s) \<noteq> Inl OutOfFuel"
proof -
  let ?U = "set (fns_universe s)"
  have s: "failing_in ?U {} s" by (simp add: failing_in_def)
  note f = fail_fuel_enough [of s, OF refl]
  show ?thesis
    using no_fuel_error_result [OF f s] no_fuel_error_result [OF remove_target_ends(1) [OF f] s]
      no_fuel_error_result [OF remove_target_ends(2) [OF f] s]
    by (simp add: fail_fn_def remove_buildtarget_def remove_runtarget_def mread_def)
qed

section \<open>The failure reaches every dependent\<close>

abbreviation bt :: "taskdata \<Rightarrow> string \<Rightarrow> string set" where
  "bt s t \<equiv> set (dget (build_targets s) t [])"

abbreviation rt :: "taskdata \<Rightarrow> string \<Rightarrow> string set" where
  "rt s t \<equiv> set (dget (run_targets s) t [])"

text \<open>
  What holds in the middle of the recursion. \<open>W\<close>: files being removed, which may still be listed
  as providers; \<open>X\<close>, \<open>Y\<close>: targets being failed, whose dependents need not have failed yet; \<open>Z\<close>:
  files being added, whose dependencies are not checked yet. \<open>N\<close>, \<open>M\<close>: pairs of a file and a target
  it has been removed from; \<open>F\<close>: files that have failed; \<open>K\<close>, \<open>L\<close>: targets that are settled, that
  is, have a provider or have failed.
\<close>

record progress =
  pW :: "string set"
  pX :: "string set"
  pY :: "string set"
  pZ :: "string set"
  pN :: "(string \<times> string) set"
  pM :: "(string \<times> string) set"
  pF :: "string set"
  pK :: "string set"
  pL :: "string set"

definition providers_unfailed :: "progress \<Rightarrow> taskdata \<Rightarrow> bool" where
  "providers_unfailed p s \<longleftrightarrow>
     (\<forall>t. distinct (dget (build_targets s) t []) \<and> distinct (dget (run_targets s) t [])) \<and>
     (\<forall>t f. f \<in> bt s t \<union> rt s t \<longrightarrow> f \<in> set (failed_fns s) \<longrightarrow> f \<in> pW p) \<and>
     (\<forall>f t. (f, t) \<in> pN p \<longrightarrow> f \<notin> bt s t) \<and> (\<forall>f t. (f, t) \<in> pM p \<longrightarrow> f \<notin> rt s t)"

definition failure_closed :: "progress \<Rightarrow> taskdata \<Rightarrow> bool" where
  "failure_closed p s \<longleftrightarrow>
     (\<forall>t f. t \<in> set (failed_deps s) \<longrightarrow> t \<in> set (dget (depids s) f []) \<longrightarrow>
        t \<in> pX p \<or> f \<in> set (failed_fns s) \<union> pZ p) \<and>
     (\<forall>t f. t \<in> set (failed_rdeps s) \<longrightarrow> t \<in> set (dget (rdepids s) f []) \<longrightarrow>
        t \<in> pY p \<or> f \<in> set (failed_fns s) \<union> pZ p) \<and>
     pF p \<subseteq> set (failed_fns s)"

definition settled :: "progress \<Rightarrow> taskdata \<Rightarrow> bool" where
  "settled p s \<longleftrightarrow>
     (\<forall>t\<in>pK p. bt s t \<noteq> {} \<or> t \<in> set (failed_deps s)) \<and>
     (\<forall>t\<in>pL p. rt s t \<noteq> {} \<or> t \<in> set (failed_rdeps s))"

text \<open>What the recursion never changes.\<close>

definition frame_of :: "taskdata \<Rightarrow> (string, string list) dict \<times> (string, string list) dict \<times> bool \<times> bool \<times>
    string list \<times> string set \<times> string set \<times> string list" where
  "frame_of s = (depids s, rdepids s, halt s, allowincomplete s, seenfns s,
     set (dkeys (build_targets s)), set (dkeys (run_targets s)), ignored_dependencies (td_cache s))"

definition during where
  "during fr p s \<longleftrightarrow> frame_of s = fr \<and> \<not> halt s \<and> providers_unfailed p s \<and> failure_closed p s \<and> settled p s"


lemma during_weaken:
  assumes "during fr p s" and "pW p \<subseteq> pW q" and "pX p \<subseteq> pX q" and "pY p \<subseteq> pY q" and "pZ p \<subseteq> pZ q"
    and "pN q \<subseteq> pN p" and "pM q \<subseteq> pM p" and "pF q \<subseteq> pF p" and "pK q \<subseteq> pK p" and "pL q \<subseteq> pL p"
  shows "during fr q s"
proof -
  from assms(1) have "providers_unfailed p s" "failure_closed p s" "settled p s"
    by (simp_all add: during_def)
  then have "providers_unfailed q s" "failure_closed q s" "settled q s"
    using assms(2,6,7) assms(3,4,5,8) assms(9,10)
    unfolding providers_unfailed_def failure_closed_def settled_def by (meson subsetD UnE UnI1 UnI2 subset_trans)+
  then show ?thesis using assms(1) by (simp add: during_def)
qed

definition only_fuel :: "exn \<Rightarrow> taskdata \<Rightarrow> bool" where
  "only_fuel e s \<longleftrightarrow> e = OutOfFuel"

definition fails_through :: "_ \<Rightarrow> (string \<Rightarrow> unit tdm) \<Rightarrow> bool" where
  "fails_through fr fail \<longleftrightarrow>
     (\<forall>p f. triple (during fr p) (fail f) (\<lambda>_. during fr (p\<lparr>pF := insert f (pF p)\<rparr>)) only_fuel)"

lemma fails_through_stable:
  assumes "fails_through fr fail"
  shows "stable (during fr p) only_fuel (fail f)"
  unfolding stable_def
  by (rule triple_weaken [OF assms [unfolded fails_through_def, rule_format]]) (auto elim: during_weaken)

lemma fail_tasks_during:
  assumes "fails_through fr fail"
  shows "stable (during fr p) only_fuel (fail_tasks fail sel target)"
  unfolding fail_tasks_def case_prod_beta
  by (intro stable_rules fails_through_stable [OF assms])

lemma fail_each_during:
  assumes "fails_through fr fail"
  shows "triple (during fr p) (mfor fail fs) (\<lambda>_. during fr (p\<lparr>pF := pF p \<union> set fs\<rparr>)) only_fuel"
proof -
  have "triple (during fr (p\<lparr>pF := pF p \<union> D\<rparr>)) (fail f)
      (\<lambda>_. during fr (p\<lparr>pF := pF p \<union> insert f D\<rparr>)) only_fuel" for f D
    using assms [unfolded fails_through_def, rule_format, of "p\<lparr>pF := pF p \<union> D\<rparr>" f] by simp
  then have "triple (during fr (p\<lparr>pF := pF p \<union> {}\<rparr>)) (mfor fail fs)
      (\<lambda>_. during fr (p\<lparr>pF := pF p \<union> ({} \<union> set fs)\<rparr>)) only_fuel"
    by (intro triple_for_progress)
  then show ?thesis by simp
qed

lemma remove_buildtarget_during:
  assumes "fails_through fr fail"
  shows "triple (during fr p) (remove_buildtarget_with fail target)
    (\<lambda>_. during fr (p\<lparr>pK := insert target (pK p)\<rparr>)) only_fuel"
proof -
  let ?p1 = "p\<lparr>pX := insert target (pX p), pK := insert target (pK p)\<rparr>"
  let ?p2 = "p\<lparr>pK := insert target (pK p)\<rparr>"
  have deps: "target \<in> set (dget (depids s) f []) \<longleftrightarrow> f \<in> set (get_dependees s target)" for s f
    by (auto simp: get_dependees_def dget_def dkeys_def image_iff dest!: map_of_SomeD split: option.splits)
      (metis map_of_SomeD fst_conv)
  have "triple (during fr ?p1) (mread (\<lambda>s. mfor fail (get_dependees s target))) (\<lambda>_. during fr ?p2) only_fuel"
  proof (rule triple_read)
    fix t assume t: "during fr ?p1 t"
    have "triple (during fr ?p1) (mfor fail (get_dependees t target)) (\<lambda>_. during fr ?p2) only_fuel"
    proof (rule triple_weaken [OF fail_each_during [OF assms]])
      fix s assume s: "during fr (?p1\<lparr>pF := pF ?p1 \<union> set (get_dependees t target)\<rparr>) s"
      then have "depids s = depids t" using t by (auto simp: during_def frame_of_def)
      then have "get_dependees s target = get_dependees t target" by (simp add: get_dependees_def)
      then have "set (get_dependees s target) \<subseteq> set (failed_fns s)"
        using s by (simp add: during_def failure_closed_def)
      then have "failure_closed ?p2 s" using s deps [of s]
        unfolding during_def failure_closed_def by (simp add: subset_iff) blast
      then show "during fr ?p2 s" using s
        by (auto simp: during_def providers_unfailed_def settled_def)
    qed auto
    then show "triple (\<lambda>s. s = t) (mfor fail (get_dependees t target)) (\<lambda>_. during fr ?p2) only_fuel"
      by (rule triple_pre) (simp add: t)
  qed
  moreover have "triple (during fr p) (mupd (\<lambda>s. s\<lparr>failed_deps := failed_deps s @ [target]\<rparr>))
      (\<lambda>_. during fr ?p1) only_fuel"
    by (rule triple_upd)
      (auto simp: during_def frame_of_def providers_unfailed_def failure_closed_def settled_def)
  moreover have "triple (during fr ?p2) (mread (\<lambda>s. if halt s \<and> target \<in> set (external_targets s)
      then mraise (NoProvider target) else mreturn ())) (\<lambda>_. during fr ?p2) only_fuel"
    by (intro triple_read) (auto simp: during_def intro: triple_return)
  ultimately show ?thesis
    unfolding remove_buildtarget_with_def
    using fail_tasks_during [OF assms, of ?p2 idepends target, unfolded stable_def]
    by (blast intro: triple_then)
qed


lemma remove_runtarget_during:
  assumes "fails_through fr fail"
  shows "triple (during fr p) (remove_runtarget_with fail target)
    (\<lambda>_. during fr (p\<lparr>pL := insert target (pL p)\<rparr>)) only_fuel"
proof -
  let ?p1 = "p\<lparr>pY := insert target (pY p), pL := insert target (pL p)\<rparr>"
  let ?p2 = "p\<lparr>pL := insert target (pL p)\<rparr>"
  have deps: "target \<in> set (dget (rdepids s) f []) \<longleftrightarrow> f \<in> set (get_rdependees s target)" for s f
    by (auto simp: get_rdependees_def dget_def dkeys_def image_iff dest!: map_of_SomeD split: option.splits)
      (metis map_of_SomeD fst_conv)
  have "triple (during fr ?p1) (mread (\<lambda>s. mfor fail (get_rdependees s target))) (\<lambda>_. during fr ?p2) only_fuel"
  proof (rule triple_read)
    fix t assume t: "during fr ?p1 t"
    have "triple (during fr ?p1) (mfor fail (get_rdependees t target)) (\<lambda>_. during fr ?p2) only_fuel"
    proof (rule triple_weaken [OF fail_each_during [OF assms]])
      fix s assume s: "during fr (?p1\<lparr>pF := pF ?p1 \<union> set (get_rdependees t target)\<rparr>) s"
      then have "rdepids s = rdepids t" using t by (auto simp: during_def frame_of_def)
      then have "get_rdependees s target = get_rdependees t target" by (simp add: get_rdependees_def)
      then have "set (get_rdependees s target) \<subseteq> set (failed_fns s)"
        using s by (simp add: during_def failure_closed_def)
      then have "failure_closed ?p2 s" using s deps [of s]
        unfolding during_def failure_closed_def by (simp add: subset_iff) blast
      then show "during fr ?p2 s" using s
        by (auto simp: during_def providers_unfailed_def settled_def)
    qed auto
    then show "triple (\<lambda>s. s = t) (mfor fail (get_rdependees t target)) (\<lambda>_. during fr ?p2) only_fuel"
      by (rule triple_pre) (simp add: t)
  qed
  moreover have "triple (during fr p) (mupd (\<lambda>s. s\<lparr>failed_rdeps := failed_rdeps s @ [target]\<rparr>))
      (\<lambda>_. during fr ?p1) only_fuel"
    by (rule triple_upd)
      (auto simp: during_def frame_of_def providers_unfailed_def failure_closed_def settled_def)
  ultimately show ?thesis
    unfolding remove_runtarget_with_def
    using fail_tasks_during [OF assms, of ?p2 irdepends target, unfolded stable_def]
    by (blast intro: triple_then)
qed

lemma remove_listed:
  assumes "during fr p s" and "fn \<in> bt s target" and "fn \<in> pW p"
    and "s' = s\<lparr>build_targets :=
      AList.update target (remove1 fn (dget (build_targets s) target [])) (build_targets s)\<rparr>"
  shows "during fr (p\<lparr>pN := insert (fn, target) (pN p), pK := pK p - {target}\<rparr>) s'"
proof -
  have "dget (build_targets s) target [] \<noteq> []" using assms(2) by auto
  then have "frame_of s' = frame_of s" by (simp add: frame_of_def assms(4) insert_absorb dget_key)
  moreover have "providers_unfailed (p\<lparr>pN := insert (fn, target) (pN p), pK := pK p - {target}\<rparr>) s'"
    using assms(1) by (auto simp: during_def providers_unfailed_def assms(4) split: if_splits
        dest: notin_set_remove1 in_set_remove1 [THEN iffD1, rotated])
  ultimately show ?thesis
    using assms(1) by (auto simp: during_def failure_closed_def settled_def assms(4))
qed

lemma remove_listed_run:
  assumes "during fr p s" and "fn \<in> rt s target" and "fn \<in> pW p"
    and "s' = s\<lparr>run_targets :=
      AList.update target (remove1 fn (dget (run_targets s) target [])) (run_targets s)\<rparr>"
  shows "during fr (p\<lparr>pM := insert (fn, target) (pM p), pL := pL p - {target}\<rparr>) s'"
proof -
  have "dget (run_targets s) target [] \<noteq> []" using assms(2) by auto
  then have "frame_of s' = frame_of s" by (simp add: frame_of_def assms(4) insert_absorb dget_key)
  moreover have "providers_unfailed (p\<lparr>pM := insert (fn, target) (pM p), pL := pL p - {target}\<rparr>) s'"
    using assms(1) by (auto simp: during_def providers_unfailed_def assms(4) split: if_splits
        dest: notin_set_remove1 in_set_remove1 [THEN iffD1, rotated])
  ultimately show ?thesis
    using assms(1) by (auto simp: during_def failure_closed_def settled_def assms(4))
qed


lemma fail_build_target_during:
  assumes "fails_through fr fail" and "fn \<in> pW p"
  shows "triple (during fr p) (fail_build_target fail fn target)
    (\<lambda>_. during fr (p\<lparr>pN := insert (fn, target) (pN p)\<rparr>)) only_fuel"
  unfolding fail_build_target_def
proof (rule triple_read)
  fix t assume t: "during fr p t"
  let ?q = "p\<lparr>pN := insert (fn, target) (pN p)\<rparr>" and ?q' = "p\<lparr>pN := insert (fn, target) (pN p), pK := pK p - {target}\<rparr>"
  have rest: "triple (during fr ?q') (mread (\<lambda>s. if dget (build_targets s) target [] = []
      then remove_buildtarget_with fail target else mreturn ())) (\<lambda>_. during fr ?q) only_fuel"
  proof (rule triple_read)
    fix u assume u: "during fr ?q' u"
    show "triple (\<lambda>s. s = u) (if dget (build_targets u) target [] = []
        then remove_buildtarget_with fail target else mreturn ()) (\<lambda>_. during fr ?q) only_fuel"
    proof (rule triple_if)
      show "triple (\<lambda>s. s = u) (remove_buildtarget_with fail target) (\<lambda>_. during fr ?q) only_fuel"
        by (rule triple_weaken [OF remove_buildtarget_during [OF assms(1), of ?q']])
          (auto simp: u elim!: during_weaken)
      show "triple (\<lambda>s. s = u) (mreturn ()) (\<lambda>_. during fr ?q) only_fuel"
        if "dget (build_targets u) target [] \<noteq> []"
        using u that by (intro triple_return) (auto simp: during_def providers_unfailed_def failure_closed_def settled_def)
    qed
  qed
  show "triple (\<lambda>s. s = t) (if fn \<in> bt t target then
       mthen (mupd (\<lambda>s. s\<lparr>build_targets :=
           AList.update target (remove1 fn (dget (build_targets s) target [])) (build_targets s)\<rparr>))
         (mread (\<lambda>s. if dget (build_targets s) target [] = []
                      then remove_buildtarget_with fail target else mreturn ()))
     else mreturn ()) (\<lambda>_. during fr ?q) only_fuel"
  proof (rule triple_if)
    assume "fn \<in> bt t target"
    then show "triple (\<lambda>s. s = t) (mthen (mupd (\<lambda>s. s\<lparr>build_targets :=
           AList.update target (remove1 fn (dget (build_targets s) target [])) (build_targets s)\<rparr>))
         (mread (\<lambda>s. if dget (build_targets s) target [] = []
                      then remove_buildtarget_with fail target else mreturn ())))
        (\<lambda>_. during fr ?q) only_fuel"
      by (intro triple_then [OF triple_upd rest]) (auto intro: remove_listed [OF t _ assms(2)])
  next
    assume "fn \<notin> bt t target"
    then show "triple (\<lambda>s. s = t) (mreturn ()) (\<lambda>_. during fr ?q) only_fuel"
      using t by (intro triple_return) (auto simp: during_def providers_unfailed_def failure_closed_def settled_def)
  qed
qed

lemma fail_run_target_during:
  assumes "fails_through fr fail" and "fn \<in> pW p"
  shows "triple (during fr p) (fail_run_target fail fn target)
    (\<lambda>_. during fr (p\<lparr>pM := insert (fn, target) (pM p)\<rparr>)) only_fuel"
  unfolding fail_run_target_def
proof (rule triple_read)
  fix t assume t: "during fr p t"
  let ?q = "p\<lparr>pM := insert (fn, target) (pM p)\<rparr>" and ?q' = "p\<lparr>pM := insert (fn, target) (pM p), pL := pL p - {target}\<rparr>"
  have rest: "triple (during fr ?q') (mread (\<lambda>s. if dget (run_targets s) target [] = []
      then remove_runtarget_with fail target else mreturn ())) (\<lambda>_. during fr ?q) only_fuel"
  proof (rule triple_read)
    fix u assume u: "during fr ?q' u"
    show "triple (\<lambda>s. s = u) (if dget (run_targets u) target [] = []
        then remove_runtarget_with fail target else mreturn ()) (\<lambda>_. during fr ?q) only_fuel"
    proof (rule triple_if)
      show "triple (\<lambda>s. s = u) (remove_runtarget_with fail target) (\<lambda>_. during fr ?q) only_fuel"
        by (rule triple_weaken [OF remove_runtarget_during [OF assms(1), of ?q']])
          (auto simp: u elim!: during_weaken)
      show "triple (\<lambda>s. s = u) (mreturn ()) (\<lambda>_. during fr ?q) only_fuel"
        if "dget (run_targets u) target [] \<noteq> []"
        using u that by (intro triple_return) (auto simp: during_def providers_unfailed_def failure_closed_def settled_def)
    qed
  qed
  show "triple (\<lambda>s. s = t) (if fn \<in> rt t target then
       mthen (mupd (\<lambda>s. s\<lparr>run_targets :=
           AList.update target (remove1 fn (dget (run_targets s) target [])) (run_targets s)\<rparr>))
         (mread (\<lambda>s. if dget (run_targets s) target [] = []
                      then remove_runtarget_with fail target else mreturn ()))
     else mreturn ()) (\<lambda>_. during fr ?q) only_fuel"
  proof (rule triple_if)
    assume "fn \<in> rt t target"
    then show "triple (\<lambda>s. s = t) (mthen (mupd (\<lambda>s. s\<lparr>run_targets :=
           AList.update target (remove1 fn (dget (run_targets s) target [])) (run_targets s)\<rparr>))
         (mread (\<lambda>s. if dget (run_targets s) target [] = []
                      then remove_runtarget_with fail target else mreturn ())))
        (\<lambda>_. during fr ?q) only_fuel"
      by (intro triple_then [OF triple_upd rest]) (auto intro: remove_listed_run [OF t _ assms(2)])
  next
    assume "fn \<notin> rt t target"
    then show "triple (\<lambda>s. s = t) (mreturn ()) (\<lambda>_. during fr ?q) only_fuel"
      using t by (intro triple_return) (auto simp: during_def providers_unfailed_def failure_closed_def settled_def)
  qed
qed


text \<open>All targets are visited: a target outside the table has no provider to remove.\<close>

lemma fail_fn_with_during:
  assumes "fails_through fr fail"
  shows "triple (during fr p) (fail_fn_with fail fn) (\<lambda>_. during fr (p\<lparr>pF := insert fn (pF p)\<rparr>)) only_fuel"
  unfolding fail_fn_with_def
proof (rule triple_read)
  fix t assume t: "during fr p t"
  let ?q = "p\<lparr>pF := insert fn (pF p)\<rparr>"
  let ?w = "p\<lparr>pF := insert fn (pF p), pW := insert fn (pW p)\<rparr>"
  let ?N = "\<lambda>ts. ?w\<lparr>pN := pN p \<union> {fn} \<times> (- set ts)\<rparr>"
  let ?w2 = "?w\<lparr>pN := pN p \<union> {fn} \<times> UNIV\<rparr>"
  have builds: "triple (during fr ?w) (mread (\<lambda>s. mfor (fail_build_target fail fn) (dkeys (build_targets s))))
      (\<lambda>_. during fr ?w2) only_fuel"
  proof (rule triple_read)
    fix u assume u: "during fr ?w u"
    let ?ks = "dkeys (build_targets u)"
    let ?P = "\<lambda>D. during fr (?w\<lparr>pN := pN p \<union> {fn} \<times> (- set ?ks \<union> D)\<rparr>)"
    have "triple (?P D) (fail_build_target fail fn k) (\<lambda>_. ?P (insert k D)) only_fuel" for k D
      by (rule triple_weaken [OF fail_build_target_during [OF assms, of fn "?w\<lparr>pN := pN p \<union> {fn} \<times> (- set ?ks \<union> D)\<rparr>" k]])
        (auto elim!: during_weaken)
    then have "triple (?P {}) (mfor (fail_build_target fail fn) ?ks) (\<lambda>_. ?P ({} \<union> set ?ks)) only_fuel"
      by (intro triple_for_progress)
    moreover have "fn \<notin> bt u k" if "k \<notin> set ?ks" for k
      using dget_key [of "build_targets u" k "[]"] that by force
    then have "?P {} u"
      using u by (auto simp: during_def providers_unfailed_def failure_closed_def settled_def)
    ultimately show "triple (\<lambda>s. s = u) (mfor (fail_build_target fail fn) ?ks) (\<lambda>_. during fr ?w2) only_fuel"
      by (elim triple_weaken) (auto elim!: during_weaken)
  qed
  have runs: "triple (during fr ?w2) (mread (\<lambda>s. mfor (fail_run_target fail fn) (dkeys (run_targets s))))
      (\<lambda>_. during fr ?q) only_fuel"
  proof (rule triple_read)
    fix u assume u: "during fr ?w2 u"
    let ?ks = "dkeys (run_targets u)"
    let ?P = "\<lambda>D. during fr (?w2\<lparr>pM := pM p \<union> {fn} \<times> (- set ?ks \<union> D)\<rparr>)"
    have "triple (?P D) (fail_run_target fail fn k) (\<lambda>_. ?P (insert k D)) only_fuel" for k D
      by (rule triple_weaken [OF fail_run_target_during [OF assms, of fn "?w2\<lparr>pM := pM p \<union> {fn} \<times> (- set ?ks \<union> D)\<rparr>" k]])
        (auto elim!: during_weaken)
    then have loop: "triple (?P {}) (mfor (fail_run_target fail fn) ?ks) (\<lambda>_. ?P ({} \<union> set ?ks)) only_fuel"
      by (intro triple_for_progress)
    have "fn \<notin> rt u k" if "k \<notin> set ?ks" for k
      using dget_key [of "run_targets u" k "[]"] that by force
    then have "?P {} u"
      using u by (auto simp: during_def providers_unfailed_def failure_closed_def settled_def)
    moreover have "during fr ?q s" if "?P ({} \<union> set ?ks) s" for s
      using that by (auto simp: during_def providers_unfailed_def failure_closed_def settled_def) metis+
    ultimately show "triple (\<lambda>s. s = u) (mfor (fail_run_target fail fn) ?ks) (\<lambda>_. during fr ?q) only_fuel"
      using loop by (elim triple_weaken) auto
  qed
  show "triple (\<lambda>s. s = t) (if fn \<in> set (failed_fns t) then mreturn ()
      else mthen (mupd (\<lambda>s. s\<lparr>failed_fns := failed_fns s @ [fn]\<rparr>))
        (mthen (mread (\<lambda>s. mfor (fail_build_target fail fn) (dkeys (build_targets s))))
               (mread (\<lambda>s. mfor (fail_run_target fail fn) (dkeys (run_targets s))))))
      (\<lambda>_. during fr ?q) only_fuel"
  proof (rule triple_if)
    assume "fn \<in> set (failed_fns t)"
    then show "triple (\<lambda>s. s = t) (mreturn ()) (\<lambda>_. during fr ?q) only_fuel"
      using t by (intro triple_return) (auto simp: during_def providers_unfailed_def failure_closed_def settled_def)
  next
    have "during fr ?w (t\<lparr>failed_fns := failed_fns t @ [fn]\<rparr>)"
      using t by (auto simp: during_def frame_of_def providers_unfailed_def failure_closed_def settled_def)
    then show "triple (\<lambda>s. s = t) (mthen (mupd (\<lambda>s. s\<lparr>failed_fns := failed_fns s @ [fn]\<rparr>))
        (mthen (mread (\<lambda>s. mfor (fail_build_target fail fn) (dkeys (build_targets s))))
               (mread (\<lambda>s. mfor (fail_run_target fail fn) (dkeys (run_targets s))))))
        (\<lambda>_. during fr ?q) only_fuel"
      by (intro triple_then [OF triple_upd triple_then [OF builds runs]]) simp
  qed
qed

lemma fails_through_n: "fails_through fr (fail_fn_n n)"
proof (induction n)
  case 0
  show ?case by (auto simp: fails_through_def only_fuel_def intro: triple_raise)
next
  case (Suc n)
  then show ?case using fail_fn_with_during by (auto simp: fails_through_def)
qed


section \<open>Failing from a consistent state\<close>

text \<open>
  The task data is consistent: provider lists have no duplicates and no failed files, and every
  file that needs a failed item has itself failed.
\<close>

definition td_ok :: "taskdata \<Rightarrow> bool" where
  "td_ok s \<longleftrightarrow>
     (\<forall>t. distinct (dget (build_targets s) t []) \<and> distinct (dget (run_targets s) t [])) \<and>
     (\<forall>t f. f \<in> bt s t \<union> rt s t \<longrightarrow> f \<notin> set (failed_fns s)) \<and>
     (\<forall>t f. t \<in> set (failed_deps s) \<longrightarrow> t \<in> set (dget (depids s) f []) \<longrightarrow> f \<in> set (failed_fns s)) \<and>
     (\<forall>t f. t \<in> set (failed_rdeps s) \<longrightarrow> t \<in> set (dget (rdepids s) f []) \<longrightarrow> f \<in> set (failed_fns s))"

definition base :: "string set \<Rightarrow> string set \<Rightarrow> string set \<Rightarrow> progress" where
  "base Z K L = \<lparr>pW = {}, pX = {}, pY = {}, pZ = Z, pN = {}, pM = {}, pF = {}, pK = K, pL = L\<rparr>"

text \<open>Consistent but for the files \<open>Z\<close> being added, with the targets \<open>K\<close> and \<open>L\<close> settled.\<close>

definition ok :: "string set \<Rightarrow> string set \<Rightarrow> string set \<Rightarrow> taskdata \<Rightarrow> bool" where
  "ok Z K L s \<longleftrightarrow> during (frame_of s) (base Z K L) s"

lemma td_ok_iff: "ok {} {} {} s \<longleftrightarrow> \<not> halt s \<and> td_ok s"
  unfolding ok_def during_def providers_unfailed_def failure_closed_def settled_def td_ok_def base_def
  by auto

lemma ok_mono: "ok Z K L s \<Longrightarrow> Z \<subseteq> Z' \<Longrightarrow> K' \<subseteq> K \<Longrightarrow> L' \<subseteq> L \<Longrightarrow> ok Z' K' L' s"
  unfolding ok_def by (erule during_weaken) (auto simp: base_def)

lemma during_ok: "during fr (base Z K L) s \<Longrightarrow> ok Z K L s"
  by (simp add: ok_def during_def)

text \<open>The top-level calls raise nothing: not the fuel exception, and not \<open>NoProvider\<close>.\<close>

lemma only_fuel_never:
  assumes "triple P m Q only_fuel" and "\<And>s. fst (m s) \<noteq> Inl OutOfFuel"
  shows "triple P m Q (\<lambda>_ _. False)"
  unfolding triple_def
proof (intro allI impI)
  fix s assume "P s"
  then show "case m s of (Inr x, t) \<Rightarrow> Q x t | (Inl e, t) \<Rightarrow> False"
    using tripleD [OF assms(1)] assms(2) [of s]
    by (fastforce simp: only_fuel_def split: prod.split sum.split)
qed

lemma fail_fn_during:
  "triple (during fr p) (fail_fn fn) (\<lambda>_. during fr (p\<lparr>pF := insert fn (pF p)\<rparr>)) (\<lambda>_ _. False)"
proof (rule only_fuel_never)
  show "triple (during fr p) (fail_fn fn) (\<lambda>_. during fr (p\<lparr>pF := insert fn (pF p)\<rparr>)) only_fuel"
    unfolding fail_fn_def
    by (intro triple_read triple_pre [OF fails_through_n [unfolded fails_through_def, rule_format]]) simp
qed (simp add: failing_terminates)

lemma remove_buildtarget_top:
  "triple (during fr p) (remove_buildtarget t) (\<lambda>_. during fr (p\<lparr>pK := insert t (pK p)\<rparr>)) (\<lambda>_ _. False)"
proof (rule only_fuel_never)
  show "triple (during fr p) (remove_buildtarget t) (\<lambda>_. during fr (p\<lparr>pK := insert t (pK p)\<rparr>)) only_fuel"
    unfolding remove_buildtarget_def
    by (intro triple_read triple_pre [OF remove_buildtarget_during [OF fails_through_n]]) auto
qed (simp add: failing_terminates)

lemma remove_runtarget_top:
  "triple (during fr p) (remove_runtarget t) (\<lambda>_. during fr (p\<lparr>pL := insert t (pL p)\<rparr>)) (\<lambda>_ _. False)"
proof (rule only_fuel_never)
  show "triple (during fr p) (remove_runtarget t) (\<lambda>_. during fr (p\<lparr>pL := insert t (pL p)\<rparr>)) only_fuel"
    unfolding remove_runtarget_def
    by (intro triple_read triple_pre [OF remove_runtarget_during [OF fails_through_n]]) auto
qed (simp add: failing_terminates)

text \<open>When \<open>fail_fn\<close> is called on consistent task data and halting is off, it returns, the file has
  failed, the task data is consistent again (so every file that needs something unbuildable has
  failed too and no failed file is offered as a provider), and no target is left without a
  provider unless it is marked as failed.\<close>

theorem fail_fn_propagates:
  assumes "\<not> halt s" and "td_ok s"
  shows "\<exists>s'. fail_fn fn s = (Inr (), s') \<and> td_ok s' \<and> fn \<in> set (failed_fns s') \<and>
    (\<forall>t. bt s t \<noteq> {} \<longrightarrow> bt s' t \<noteq> {} \<or> t \<in> set (failed_deps s')) \<and>
    (\<forall>t. rt s t \<noteq> {} \<longrightarrow> rt s' t \<noteq> {} \<or> t \<in> set (failed_rdeps s'))"
proof -
  let ?K = "{t. bt s t \<noteq> {}}" and ?L = "{t. rt s t \<noteq> {}}"
  have "during (frame_of s) (base {} ?K ?L) s"
    using assms by (auto simp: td_ok_def during_def providers_unfailed_def
        failure_closed_def settled_def base_def)
  moreover obtain r s' where r: "fail_fn fn s = (r, s')" by (cases "fail_fn fn s")
  ultimately have "r = Inr () \<and> during (frame_of s) ((base {} ?K ?L)\<lparr>pF := {fn}\<rparr>) s'"
    using tripleD [OF fail_fn_during, of "frame_of s" "base {} ?K ?L" s fn]
    by (cases r) (auto simp: base_def)
  with r show ?thesis
    by (auto simp: during_def base_def providers_unfailed_def failure_closed_def settled_def td_ok_def)
qed


definition sample_td :: taskdata where
  "sample_td = (init_taskdata False [] False sample_cache)
     \<lparr>build_targets := [(''v'', [''b_1.bb'']), (''a'', [''a_2.bb''])],
      depids := [(''a_2.bb'', [''v'']), (''b_1.bb'', [])]\<rparr>"

lemma sample_td_ok: "\<not> halt sample_td \<and> td_ok sample_td"
  by (auto simp: sample_td_def init_taskdata_def td_ok_def dget_def)

lemma fail_fn_propagates_witness:
  "\<exists>s'. fail_fn ''b_1.bb'' sample_td = (Inr (), s') \<and> td_ok s' \<and>
    failed_fns s' = [''b_1.bb'', ''a_2.bb''] \<and> failed_deps s' = [''v'', ''a'']"
proof -
  obtain s' where s': "fail_fn ''b_1.bb'' sample_td = (Inr (), s')" "td_ok s'"
    using fail_fn_propagates [of sample_td "''b_1.bb''"] sample_td_ok by blast
  have "failed_fns (snd (fail_fn ''b_1.bb'' sample_td)) = [''b_1.bb'', ''a_2.bb''] \<and>
      failed_deps (snd (fail_fn ''b_1.bb'' sample_td)) = [''v'', ''a'']"
    by code_simp
  with s' show ?thesis by simp
qed

end
