(* ===== verification/TaskResolve.thy ===== *)
theory TaskResolve
  imports TaskFailure
begin

text \<open>
  Resolution on consistent task data: adding providers and their tasks keeps the task data
  consistent, and the resolution of \<open>add_unresolved\<close> is complete when it returns.
\<close>

section \<open>Adding tasks\<close>

definition same_core :: "taskdata \<Rightarrow> taskdata \<Rightarrow> bool" where
  "same_core s s' \<longleftrightarrow> build_targets s' = build_targets s \<and> run_targets s' = run_targets s \<and>
     depids s' = depids s \<and> rdepids s' = rdepids s \<and> failed_deps s' = failed_deps s \<and>
     failed_rdeps s' = failed_rdeps s \<and> failed_fns s' = failed_fns s \<and> halt s' = halt s"

text \<open>The exceptions that resolution catches, and the ones that end the build.\<close>

definition caught :: "exn \<Rightarrow> bool" where
  "caught e = (case e of NoProvider i \<Rightarrow> True | NoRProvider i \<Rightarrow> True | MultipleRProvider i \<Rightarrow> True | _ \<Rightarrow> False)"

definition crash :: "string set \<Rightarrow> string set \<Rightarrow> string set \<Rightarrow> exn \<Rightarrow> taskdata \<Rightarrow> bool" where
  "crash Z K L e s \<longleftrightarrow> ok Z K L s \<and> \<not> caught e"

lemma ok_core: "ok Z K L s \<Longrightarrow> same_core s s' \<Longrightarrow> ok Z K L s'"
  by (auto simp: same_core_def ok_def during_def providers_unfailed_def failure_closed_def settled_def)

lemma ok_core_upd: "(\<And>s. same_core s (f s)) \<Longrightarrow> stable (ok Z K L) R (mupd f)"
  by (intro stable_upd) (auto intro: ok_core)

lemma dget_seen_target [simp]: "dget (seen_target n ts) t [] = dget ts t []"
  by (auto simp: seen_target_def dget_def has_key_def update_conv)

lemma set_dget_add_target [simp]:
  "set (dget (add_target fn item ts) t []) = (if t = item then insert fn (set (dget ts t [])) else set (dget ts t []))"
  by (auto simp: add_target_def dget_def has_key_def update_conv)

lemma distinct_add_target [simp]:
  "distinct (dget ts t []) \<Longrightarrow> distinct (dget (add_target fn item ts) t [])"
  by (auto simp: add_target_def dget_def has_key_def update_conv)

lemma ok_seen:
  "ok Z K L s \<Longrightarrow> ok Z K L (seen_build_target n s)"
  "ok Z K L s \<Longrightarrow> ok Z K L (seen_run_target n s)"
  by (simp_all add: ok_def during_def providers_unfailed_def failure_closed_def settled_def
      seen_build_target_def seen_run_target_def)

lemma ok_add:
  assumes "ok Z K L s" and "fn \<notin> set (failed_fns s)"
  shows "ok Z K L (add_build_target fn item s)" and "ok Z K L (add_runtime_target fn item s)"
  using assms by (auto simp: ok_def during_def providers_unfailed_def failure_closed_def settled_def
      add_build_target_def add_runtime_target_def base_def)

lemma add_mcdepends_ok: "stable (ok Z K L) (crash Z K L) (add_mcdepends fn task ds)"
  by (induction ds) (auto intro!: stable_rules ok_core_upd simp: same_core_def crash_def caught_def)

lemma dep_ids_ok:
  assumes "\<And>n s. ok Z K L s \<Longrightarrow> ok Z K L (seen n s)"
  shows "stable (ok Z K L) (crash Z K L) (dep_ids fn task dep_name seen ds)"
  using assms by (induction ds) (auto simp: Let_def crash_def caught_def intro!: stable_rules)

lemma handle_deps_ok:
  assumes "\<And>n s. ok Z K L s \<Longrightarrow> ok Z K L (seen n s)"
  shows "stable (ok Z K L) (crash Z K L) (handle_deps fn td task dep_name seen ext)"
  unfolding handle_deps_def
  using dep_ids_ok [where seen = seen, OF assms]
  by (auto split: option.split simp: same_core_def crash_def caught_def Let_def intro!: stable_rules ok_core_upd)

lemma add_task_ok: "stable (ok Z K L) (crash Z K L) (add_task fn td task)"
  unfolding add_task_def Let_def
  by (auto split: option.split simp: same_core_def crash_def caught_def
      intro!: stable_rules ok_core_upd handle_deps_ok add_mcdepends_ok ok_seen)

lemma add_extra_deps_ok: "stable (ok Z K L) (crash Z K L) (add_extra_deps env fn)"
  unfolding add_extra_deps_def Let_def
  by (auto split: option.split simp: same_core_def crash_def caught_def intro!: stable_rules ok_core_upd)

text \<open>Scanning the dependencies of the file being added.\<close>

definition deps_checked :: "string \<Rightarrow> string set \<Rightarrow> string set \<Rightarrow> string list \<Rightarrow> string list \<Rightarrow> taskdata \<Rightarrow> bool" where
  "deps_checked fn D E ds rds s \<longleftrightarrow> dget (depids s) fn [] = ds \<and> dget (rdepids s) fn [] = rds \<and>
     (\<forall>t\<in>D. t \<notin> set (failed_deps s)) \<and> (\<forall>t\<in>E. t \<notin> set (failed_rdeps s))"

lemma fail_fn_added: "triple (ok {fn} K L) (fail_fn fn) (\<lambda>_. ok {} K L) R"
  unfolding triple_def
proof (intro allI impI)
  fix s assume "ok {fn} K L s"
  then have "during (frame_of s) (base {fn} K L) s" by (simp add: ok_def)
  moreover have "ok {} K L s'" if "during fr ((base {fn} K L)\<lparr>pF := {fn}\<rparr>) s'" for s' fr
    using that by (auto simp: ok_def during_def providers_unfailed_def failure_closed_def settled_def base_def)
  ultimately show "case fail_fn fn s of (Inr x, s') \<Rightarrow> ok {} K L s' | (Inl e, s') \<Rightarrow> R e s'"
    using tripleD [OF fail_fn_during, of "frame_of s" "base {fn} K L" s fn]
    by (fastforce simp: base_def split: prod.split sum.split)
qed

lemma scan_build_deps:
  "triple (\<lambda>s. ok {fn} K L s \<and> deps_checked fn D {} xs rds s) (scan_deps seen_build_target failed_deps fn ds)
    (\<lambda>r s. if r then ok {} K L s else ok {fn} K L s \<and> deps_checked fn (D \<union> set ds) {} xs rds s) (crash {} K L)"
proof (induction ds arbitrary: D)
  case Nil
  then show ?case by (auto intro: triple_return)
next
  case (Cons d ds)
  let ?P = "\<lambda>D s. ok {fn} K L s \<and> deps_checked fn D {} xs rds s"
  let ?Q = "\<lambda>D r s. if r then ok {} K L s else ok {fn} K L s \<and> deps_checked fn D {} xs rds s"
  have "triple (?P D) (mupd (seen_build_target d)) (\<lambda>_. ?P D) (crash {} K L)"
    by (rule triple_upd) (auto intro: ok_seen(1) [unfolded seen_build_target_def] simp: deps_checked_def seen_build_target_def)
  moreover have "triple (\<lambda>s. s = t) (if d \<in> set (failed_deps t) then mthen (fail_fn fn) (mreturn True)
      else scan_deps seen_build_target failed_deps fn ds) (?Q (D \<union> set (d # ds))) (crash {} K L)"
    if t: "?P D t" for t
  proof (rule triple_if)
    show "triple (\<lambda>s. s = t) (mthen (fail_fn fn) (mreturn True)) (?Q (D \<union> set (d # ds))) (crash {} K L)"
      using t by (intro triple_then [OF triple_pre [OF fail_fn_added] triple_return]) auto
  next
    assume "d \<notin> set (failed_deps t)"
    with t have "?P (insert d D) t" by (auto simp: deps_checked_def)
    then show "triple (\<lambda>s. s = t) (scan_deps seen_build_target failed_deps fn ds)
        (?Q (D \<union> set (d # ds))) (crash {} K L)"
      by (intro triple_weaken [OF Cons.IH [of "insert d D"]]) (auto split: if_splits)
  qed
  ultimately show ?case
    unfolding scan_deps.simps by (intro triple_then [OF _ triple_read])
qed

lemma scan_run_deps:
  "triple (\<lambda>s. ok {fn} K L s \<and> deps_checked fn D E xs rds s) (scan_deps seen_run_target failed_rdeps fn ds)
    (\<lambda>r s. if r then ok {} K L s else ok {fn} K L s \<and> deps_checked fn D (E \<union> set ds) xs rds s) (crash {} K L)"
proof (induction ds arbitrary: E)
  case Nil
  then show ?case by (auto intro: triple_return)
next
  case (Cons d ds)
  let ?P = "\<lambda>E s. ok {fn} K L s \<and> deps_checked fn D E xs rds s"
  let ?Q = "\<lambda>E r s. if r then ok {} K L s else ok {fn} K L s \<and> deps_checked fn D E xs rds s"
  have "triple (?P E) (mupd (seen_run_target d)) (\<lambda>_. ?P E) (crash {} K L)"
    by (rule triple_upd) (auto intro: ok_seen(2) [unfolded seen_run_target_def] simp: deps_checked_def seen_run_target_def)
  moreover have "triple (\<lambda>s. s = t) (if d \<in> set (failed_rdeps t) then mthen (fail_fn fn) (mreturn True)
      else scan_deps seen_run_target failed_rdeps fn ds) (?Q (E \<union> set (d # ds))) (crash {} K L)"
    if t: "?P E t" for t
  proof (rule triple_if)
    show "triple (\<lambda>s. s = t) (mthen (fail_fn fn) (mreturn True)) (?Q (E \<union> set (d # ds))) (crash {} K L)"
      using t by (intro triple_then [OF triple_pre [OF fail_fn_added] triple_return]) auto
  next
    assume "d \<notin> set (failed_rdeps t)"
    with t have "?P (insert d E) t" by (auto simp: deps_checked_def)
    then show "triple (\<lambda>s. s = t) (scan_deps seen_run_target failed_rdeps fn ds)
        (?Q (E \<union> set (d # ds))) (crash {} K L)"
      by (intro triple_weaken [OF Cons.IH [of "insert d E"]]) (auto split: if_splits)
  qed
  ultimately show ?case
    unfolding scan_deps.simps by (intro triple_then [OF _ triple_read])
qed


lemma deps_checked_ok:
  assumes "ok {fn} K L s" and "deps_checked fn (set ds) (set rds) ds rds s"
  shows "ok {} K L s"
  using assms unfolding ok_def during_def providers_unfailed_def failure_closed_def settled_def base_def
    deps_checked_def by auto metis+

lemma ok_add_depids:
  assumes "ok {} K L s"
  shows "ok {fn} K L (add_rdepids env fn (add_depids env fn s))"
  using assms by (auto simp: ok_def during_def providers_unfailed_def failure_closed_def settled_def
      base_def add_depids_def add_rdepids_def Let_def)

lemma scan_all_ok:
  "triple (ok {fn} K L)
     (mread (\<lambda>s. mbind (scan_deps seen_build_target failed_deps fn (dget (depids s) fn []))
             (\<lambda>returned. if returned then mreturn ()
               else mread (\<lambda>s. mbind (scan_deps seen_run_target failed_rdeps fn (dget (rdepids s) fn []))
                      (\<lambda>_. mreturn ())))))
     (\<lambda>_. ok {} K L) (crash {} K L)"
proof (rule triple_read)
  fix t assume t: "ok {fn} K L t"
  define xs where "xs = dget (depids t) fn []"
  define rds where "rds = dget (rdepids t) fn []"
  let ?P = "\<lambda>s. ok {fn} K L s \<and> deps_checked fn (set xs) {} xs rds s"
  have second: "triple ?P (mread (\<lambda>s. mbind (scan_deps seen_run_target failed_rdeps fn (dget (rdepids s) fn []))
      (\<lambda>_. mreturn ()))) (\<lambda>_. ok {} K L) (crash {} K L)"
  proof (rule triple_read)
    fix u assume u: "?P u"
    then have "dget (rdepids u) fn [] = rds" by (simp add: deps_checked_def)
    moreover have "triple (\<lambda>s. s = u) (mbind (scan_deps seen_run_target failed_rdeps fn rds) (\<lambda>_. mreturn ()))
        (\<lambda>_. ok {} K L) (crash {} K L)"
    proof (rule triple_bind)
      show "triple (\<lambda>s. s = u) (scan_deps seen_run_target failed_rdeps fn rds)
          (\<lambda>_. ok {} K L) (crash {} K L)"
        by (rule triple_weaken [OF scan_run_deps [of fn K L "set xs" "{}" xs rds rds]])
          (auto simp: u intro: deps_checked_ok split: if_splits)
    qed (auto intro: triple_return)
    ultimately show "triple (\<lambda>s. s = u) (mbind (scan_deps seen_run_target failed_rdeps fn
        (dget (rdepids u) fn [])) (\<lambda>_. mreturn ())) (\<lambda>_. ok {} K L) (crash {} K L)"
      by simp
  qed
  have "triple (\<lambda>s. s = t) (mbind (scan_deps seen_build_target failed_deps fn xs)
      (\<lambda>returned. if returned then mreturn ()
        else mread (\<lambda>s. mbind (scan_deps seen_run_target failed_rdeps fn (dget (rdepids s) fn []))
               (\<lambda>_. mreturn ())))) (\<lambda>_. ok {} K L) (crash {} K L)"
  proof (rule triple_bind)
    show "triple (\<lambda>s. s = t) (scan_deps seen_build_target failed_deps fn xs)
        (\<lambda>r s. if r then ok {} K L s else ?P s) (crash {} K L)"
      by (rule triple_weaken [OF scan_build_deps [of fn K L "{}" xs rds xs]])
        (use t in \<open>auto simp: deps_checked_def xs_def rds_def split: if_splits\<close>)
    show "triple (\<lambda>s. if r then ok {} K L s else ?P s) (if r then mreturn ()
        else mread (\<lambda>s. mbind (scan_deps seen_run_target failed_rdeps fn (dget (rdepids s) fn []))
               (\<lambda>_. mreturn ()))) (\<lambda>_. ok {} K L) (crash {} K L)" for r
      using second by (cases r) (auto intro: triple_return)
  qed
  then show "triple (\<lambda>s. s = t) (mbind (scan_deps seen_build_target failed_deps fn (dget (depids t) fn []))
      (\<lambda>returned. if returned then mreturn ()
        else mread (\<lambda>s. mbind (scan_deps seen_run_target failed_rdeps fn (dget (rdepids s) fn []))
               (\<lambda>_. mreturn ())))) (\<lambda>_. ok {} K L) (crash {} K L)"
    by (simp add: xs_def)
qed

lemma add_tasks_ok: "stable (ok {} K L) (crash {} K L) (add_tasks env fn)"
proof -
  have depids: "triple (ok {} K L) (mthen (mupd (add_depids env fn)) (mthen (mupd (add_rdepids env fn)) m))
      (\<lambda>_. ok {} K L) (crash {} K L)"
    if "triple (ok {fn} K L) m (\<lambda>_. ok {} K L) (crash {} K L)" for m :: "unit tdm"
    using triple_then [OF triple_upd that, of "\<lambda>s. ok {} K L s" "\<lambda>s. add_rdepids env fn (add_depids env fn s)"]
      ok_add_depids
    by (simp add: triple_def mthen_def mbind_def mupd_def)
  have "stable (ok {} K L) (crash {} K L) (mupd (\<lambda>s. s\<lparr>seenfns := seenfns s @ [fn]\<rparr>))"
    by (rule ok_core_upd) (simp add: same_core_def)
  then show ?thesis
    unfolding add_tasks_def
    by (auto split: option.split simp: crash_def caught_def intro!: stable_rules add_extra_deps_ok add_task_ok
        depids [OF scan_all_ok, folded stable_def])
qed


section \<open>Adding providers\<close>

lemma during_other [simp]:
  "ignored_dependencies c = ignored_dependencies (td_cache s) \<Longrightarrow>
    during fr p (s\<lparr>td_cache := c\<rparr>) = during fr p s"
  "during fr p (s\<lparr>td_fired := ev\<rparr>) = during fr p s"
  "during fr p (s\<lparr>consider_msgs_cache := ms\<rparr>) = during fr p s"
  by (simp_all add: during_def frame_of_def providers_unfailed_def failure_closed_def settled_def)

lemma fire_during: "stable (during fr p) R (fire ev)"
  unfolding fire_def by (rule stable_upd) simp

lemma consider_message_during: "stable (during fr p) R (consider_message item el r)"
  unfolding consider_message_def by (intro stable_rules fire_during) simp

lemma filterProviders_ignored:
  assumes "filterProviders provs item getVar dc = Inr (r, dc')"
  shows "ignored_dependencies dc' = ignored_dependencies dc"
proof -
  have "dc' = record_preferred getVar item dc"
    using assms by (auto simp: filterProviders_def rbind_eq_Inr Let_def split: option.splits)
  then show ?thesis by (simp add: record_preferred_def Let_def)
qed

lemma filter_providers_during: "stable (during fr p) (\<lambda>_. during fr p) (filter_providers env item)"
  unfolding filter_providers_def Let_def stable_def
proof (rule triple_read)
  fix t assume t: "during fr p t"
  let ?xs = "sort (dget (providers (td_cache t)) item [])"
  let ?D = "\<lambda>s. during fr p s \<and> ignored_dependencies (td_cache s) = ignored_dependencies (td_cache t)"
  have "triple (\<lambda>s. s = t) (mupd (\<lambda>s. s\<lparr>td_cache := (td_cache s)
      \<lparr>providers := AList.update item ?xs (providers (td_cache s))\<rparr>\<rparr>)) (\<lambda>_. ?D) (\<lambda>_. during fr p)"
    using t by (intro triple_upd) simp
  moreover have "triple ?D (mread (\<lambda>s. mbind (mlift (filterProviders ?xs item (env_getVar env) (td_cache s)))
      (\<lambda>(r, dc). mthen (mupd (\<lambda>s. s\<lparr>td_cache := dc\<rparr>)) (mreturn r)))) (\<lambda>_. during fr p) (\<lambda>_. during fr p)"
  proof (rule triple_read)
    fix u assume u: "?D u"
    show "triple (\<lambda>s. s = u) (mbind (mlift (filterProviders ?xs item (env_getVar env) (td_cache u)))
        (\<lambda>(r, dc). mthen (mupd (\<lambda>s. s\<lparr>td_cache := dc\<rparr>)) (mreturn r))) (\<lambda>_. during fr p) (\<lambda>_. during fr p)"
    proof (cases "filterProviders ?xs item (env_getVar env) (td_cache u)")
      case (Inl e)
      then show ?thesis using u by (simp add: triple_def mbind_def mlift_def)
    next
      case (Inr x)
      then show ?thesis using u filterProviders_ignored [of ?xs item "env_getVar env" "td_cache u"]
        by (cases x) (simp add: triple_def mbind_def mlift_def mthen_def mupd_def mreturn_def)
    qed
  qed
  ultimately show "triple (\<lambda>s. s = t) (mthen (mupd (\<lambda>s. s\<lparr>td_cache := (td_cache s)
      \<lparr>providers := AList.update item ?xs (providers (td_cache s))\<rparr>\<rparr>))
    (mread (\<lambda>s. mbind (mlift (filterProviders ?xs item (env_getVar env) (td_cache s)))
      (\<lambda>(r, dc). mthen (mupd (\<lambda>s. s\<lparr>td_cache := dc\<rparr>)) (mreturn r))))) (\<lambda>_. during fr p) (\<lambda>_. during fr p)"
    by (rule triple_then)
qed

lemma add_eligible_ok:
  assumes "\<And>fn s. ok {} K L s \<Longrightarrow> fn \<notin> set (failed_fns s) \<Longrightarrow> ok {} K L (add fn s)"
  shows "stable (ok {} K L) (crash {} K L) (add_eligible env add el)"
  unfolding add_eligible_def
proof (rule stable_for)
  fix fn
  show "stable (ok {} K L) (crash {} K L) (mread (\<lambda>s. if fn \<in> set (failed_fns s) then mreturn ()
      else mthen (mupd (add fn)) (add_tasks env fn)))"
    unfolding stable_def
  proof (rule triple_read)
    fix t assume t: "ok {} K L t"
    show "triple (\<lambda>s. s = t) (if fn \<in> set (failed_fns t) then mreturn ()
        else mthen (mupd (add fn)) (add_tasks env fn)) (\<lambda>_. ok {} K L) (crash {} K L)"
      using t assms
      by (intro triple_if triple_return triple_then [OF triple_upd add_tasks_ok [unfolded stable_def]]) auto
  qed
qed

text \<open>\<open>unresolved fr K L\<close>: a caught exception leaves the targets as they were.\<close>

definition unresolved where
  "unresolved fr K L e s \<longleftrightarrow> ok {} K L s \<and> (caught e \<longrightarrow> during fr (base {} K L) s)"

lemma after_messages:
  assumes "stable (ok {} K L) (crash {} K L) n" and "\<And>R. stable (during fr (base {} K L)) R m"
  shows "triple (during fr (base {} K L)) (mthen m n) (\<lambda>_. ok {} K L) (unresolved fr K L)"
proof (rule triple_then)
  show "triple (during fr (base {} K L)) m (\<lambda>_. ok {} K L) (unresolved fr K L)"
    using assms(2) [unfolded stable_def] by (rule triple_weaken) (auto intro: during_ok)
  show "triple (ok {} K L) n (\<lambda>_. ok {} K L) (unresolved fr K L)"
    using assms(1) [unfolded stable_def]
    by (rule triple_weaken) (auto simp: crash_def unresolved_def)
qed

lemma add_provider_internal_ok:
  "triple (during fr (base {} K L)) (add_provider_internal env item) (\<lambda>_. ok {} K L) (unresolved fr K L)"
  (is "triple ?D _ _ _")
proof -
  have missing: "triple ?D (mthen (fire ev) (mraise e)) Q (unresolved fr K L)" for ev e and Q :: "unit \<Rightarrow> taskdata \<Rightarrow> bool"
    by (rule triple_then [OF fire_during [unfolded stable_def] triple_raise])
      (auto simp: unresolved_def intro: during_ok)
  have add: "triple ?D (mthen (if b then consider_message item el False else mreturn ())
      (add_eligible env (\<lambda>fn. add_build_target fn item) el)) (\<lambda>_. ok {} K L) (unresolved fr K L)" for b el
    by (rule after_messages [OF add_eligible_ok])
      (auto intro: ok_add consider_message_during stable_rules)
  have filt: "triple ?D (mbind (filter_providers env item) f) (\<lambda>_. ok {} K L) (unresolved fr K L)"
    if "\<And>x. triple ?D (f x) (\<lambda>_. ok {} K L) (unresolved fr K L)" for f :: "_ \<Rightarrow> unit tdm"
    by (rule triple_bind [OF _ that], rule triple_weaken [OF filter_providers_during [unfolded stable_def]])
      (auto simp: unresolved_def intro: during_ok)
  have lift: "triple ?D (mbind (mlift r) (\<lambda>_. m)) (\<lambda>_. ok {} K L) (unresolved fr K L)"
    if "triple ?D m (\<lambda>_. ok {} K L) (unresolved fr K L)" for r :: "string list res" and m :: "unit tdm"
    by (rule triple_bind [OF triple_lift that]) (auto simp: unresolved_def intro: during_ok)
  have ret: "triple ?D (mreturn ()) (\<lambda>_. ok {} K L) (unresolved fr K L)"
    by (rule triple_return) (rule during_ok)
  show ?thesis
    unfolding add_provider_internal_def Let_def case_prod_beta
    by (intro triple_read_inv triple_if ret lift missing filt add)
qed

lemma add_rprovider_ok:
  "triple (during fr (base {} K L)) (add_rprovider env item) (\<lambda>_. ok {} K L) (unresolved fr K L)"
  (is "triple ?D _ _ _")
proof -
  have missing: "triple ?D (mthen (fire ev) (mraise e)) Q (unresolved fr K L)" for ev e and Q :: "unit \<Rightarrow> taskdata \<Rightarrow> bool"
    by (rule triple_then [OF fire_during [unfolded stable_def] triple_raise])
      (auto simp: unresolved_def intro: during_ok)
  have many: "triple ?D (mthen (consider_message item el True) (mraise e)) Q (unresolved fr K L)"
    for el e and Q :: "unit \<Rightarrow> taskdata \<Rightarrow> bool"
    by (rule triple_then [OF consider_message_during [unfolded stable_def] triple_raise])
      (auto simp: unresolved_def intro: during_ok)
  have add: "triple ?D (add_eligible env (\<lambda>fn. add_runtime_target fn item) el)
      (\<lambda>_. ok {} K L) (unresolved fr K L)" for el
    by (rule triple_weaken [OF add_eligible_ok [unfolded stable_def]])
      (auto simp: crash_def unresolved_def intro: ok_add during_ok)
  have msg: "triple ?D (mthen (if b then consider_message item el True else mreturn ()) m)
      (\<lambda>_. ok {} K L) (unresolved fr K L)"
    if "triple ?D m (\<lambda>_. ok {} K L) (unresolved fr K L)" for b el and m :: "unit tdm"
  proof (rule triple_then [OF _ that])
    have "stable ?D (unresolved fr K L) (if b then consider_message item el True else mreturn ())"
      by (intro stable_rules consider_message_during)
    then show "triple ?D (if b then consider_message item el True else mreturn ()) (\<lambda>_. ?D) (unresolved fr K L)"
      unfolding stable_def .
  qed
  have lift: "triple ?D (mbind (mlift r) f) (\<lambda>_. ok {} K L) (unresolved fr K L)"
    if "\<And>x. triple ?D (f x) (\<lambda>_. ok {} K L) (unresolved fr K L)" for r :: "'x res" and f :: "'x \<Rightarrow> unit tdm"
    by (rule triple_bind [OF triple_lift that]) (auto simp: unresolved_def intro: during_ok)
  have ret: "triple ?D (mreturn ()) (\<lambda>_. ok {} K L) (unresolved fr K L)"
    by (rule triple_return) (rule during_ok)
  show ?thesis
    unfolding add_rprovider_def Let_def case_prod_beta
    by (intro triple_read_inv triple_if ret lift missing many msg add)
qed


section \<open>Resolving\<close>

lemma caught_simps [simp]:
  "caught (NoProvider i)" "caught (NoRProvider i)" "caught (MultipleRProvider i)"
  "\<not> caught (Fatal m)" "\<not> caught (KeyError k)" "\<not> caught OutOfFuel"
  by (simp_all add: caught_def)

text \<open>
  One resolution attempt: when it counts as an addition nothing more is known; when it does not,
  the tables are as before except that the target is settled.
\<close>

definition attempt where
  "attempt fr K L K' L' n s \<longleftrightarrow> ok {} K L s \<and> (n = (0::nat) \<longrightarrow> during fr (base {} K' L') s)"

lemma base_insert: "(base Z K L)\<lparr>pK := insert t K\<rparr> = base Z (insert t K) L" "(base Z K L)\<lparr>pL := insert t L\<rparr> = base Z K (insert t L)"
  by (simp_all add: base_def)

lemma base_sel [simp]: "pK (base Z K L) = K" "pL (base Z K L) = L"
  by (simp_all add: base_def)

lemma attempt_removed:
  assumes "triple (during fr (base {} K L)) m (\<lambda>_. during fr (base {} K' L')) (\<lambda>_ _. False)"
    and "K \<subseteq> K'" and "L \<subseteq> L'"
  shows "triple (unresolved fr K L e) (if caught e then mthen m (mreturn 0) else mraise e)
    (attempt fr K L K' L') (\<lambda>_. ok {} K L)"
proof (rule triple_if)
  assume "caught e"
  have "attempt fr K L K' L' 0 s" if "during fr (base {} K' L') s" for s
    using that during_ok [OF that] ok_mono [of "{}" K' L' s "{}" K L] assms(2,3) by (auto simp: attempt_def)
  moreover have "triple (unresolved fr K L e) m (\<lambda>_. during fr (base {} K' L')) (\<lambda>_. ok {} K L)"
    by (rule triple_weaken [OF assms(1)]) (use \<open>caught e\<close> in \<open>auto simp: unresolved_def\<close>)
  ultimately show "triple (unresolved fr K L e) (mthen m (mreturn 0)) (attempt fr K L K' L') (\<lambda>_. ok {} K L)"
    by (intro triple_then triple_return)
qed (auto simp: unresolved_def intro!: triple_raise)

lemma attempt_added:
  assumes "triple (during fr (base {} K L)) m (\<lambda>_. ok {} K L) S"
  shows "triple (during fr (base {} K L)) (mthen m (mreturn 1)) (attempt fr K L K' L') S"
  by (rule triple_then [OF assms triple_return]) (simp add: attempt_def)

lemma resolve_build_ok:
  assumes "fr = (dp, rdp, False, ai, rest)"
  shows "triple (during fr (base {} K L)) (resolve_build env t)
    (attempt fr K L (if ai then K else insert t K) L) (\<lambda>_. ok {} K L)"
  unfolding resolve_build_def
proof (rule triple_catch [OF attempt_added [OF add_provider_internal_ok]])
  fix e
  let ?Q = "attempt fr K L (if ai then K else insert t K) L"
  note rem = attempt_removed [OF remove_buildtarget_top [of fr "base {} K L" t, unfolded base_insert base_sel]]
  show "triple (unresolved fr K L e) (case e of
      NoProvider i \<Rightarrow> mread (\<lambda>s. if halt s \<and> t \<in> set (external_targets s) \<and> \<not> allowincomplete s then mraise e
        else if \<not> allowincomplete s then mthen (remove_buildtarget t) (mreturn 0) else mreturn 0)
    | _ \<Rightarrow> mraise e) ?Q (\<lambda>_. ok {} K L)"
  proof (cases "\<exists>i. e = NoProvider i")
    case True
    then obtain i where e: "e = NoProvider i" by blast
    show ?thesis unfolding e exn.case
    proof (rule triple_read)
      fix u assume u: "unresolved fr K L (NoProvider i) u"
      then have h: "\<not> halt u" "allowincomplete u = ai"
        using assms by (auto simp: unresolved_def during_def frame_of_def)
      have "triple (\<lambda>s. s = u) (if ai then mreturn 0 else mthen (remove_buildtarget t) (mreturn 0))
          ?Q (\<lambda>_. ok {} K L)"
        using u triple_pre [OF rem [of e], of "\<lambda>s. s = u"]
        by (cases ai) (auto simp: e attempt_def unresolved_def subset_insertI intro!: triple_return)
      with h show "triple (\<lambda>s. s = u) (if halt u \<and> t \<in> set (external_targets u) \<and> \<not> allowincomplete u
          then mraise (NoProvider i)
          else if \<not> allowincomplete u then mthen (remove_buildtarget t) (mreturn 0) else mreturn 0)
        ?Q (\<lambda>_. ok {} K L)"
        by (cases ai) simp_all
    qed
  next
    case False
    then show ?thesis by (cases e) (auto simp: unresolved_def intro!: triple_raise)
  qed
qed

lemma resolve_run_ok:
  "triple (during fr (base {} K L)) (resolve_run env t) (attempt fr K L K (insert t L)) (\<lambda>_. ok {} K L)"
  unfolding resolve_run_def
proof (rule triple_catch [OF attempt_added [OF add_rprovider_ok]])
  fix e
  note rem = attempt_removed [OF remove_runtarget_top [of fr "base {} K L" t, unfolded base_insert base_sel], of e]
  have no: "triple (unresolved fr K L e) (mraise e) (attempt fr K L K (insert t L)) (\<lambda>_. ok {} K L)"
    by (rule triple_raise) (simp add: unresolved_def)
  show "triple (unresolved fr K L e) (case e of
      NoRProvider i \<Rightarrow> mthen (remove_runtarget t) (mreturn 0)
    | MultipleRProvider i \<Rightarrow> mthen (remove_runtarget t) (mreturn 0)
    | _ \<Rightarrow> mraise e) (attempt fr K L K (insert t L)) (\<lambda>_. ok {} K L)"
    using rem no by (cases e) (simp_all add: subset_insertI)
qed


lemma triple_ok:
  assumes "\<And>s. ok {} K L s \<Longrightarrow> triple (during (frame_of s) (base {} K L)) m (\<lambda>_. ok {} K L) (\<lambda>_. ok {} K L)"
  shows "triple (ok {} K L) m (\<lambda>_. ok {} K L) (\<lambda>_. ok {} K L)"
  unfolding triple_def
proof (intro allI impI)
  fix s assume s: "ok {} K L s"
  then have "during (frame_of s) (base {} K L) s" by (simp add: ok_def)
  then show "case m s of (Inr x, t) \<Rightarrow> ok {} K L t | (Inl e, t) \<Rightarrow> ok {} K L t"
    by (rule assms [OF s, unfolded triple_def, rule_format])
qed

lemma resolve_stable:
  "stable (ok {} K L) (\<lambda>_. ok {} K L) (resolve_build env t)"
  "stable (ok {} K L) (\<lambda>_. ok {} K L) (resolve_run env t)"
proof -
  have "triple (during (frame_of s) (base {} K L)) (resolve_build env t) (\<lambda>_. ok {} K L) (\<lambda>_. ok {} K L)"
    if "ok {} K L s" for s
  proof -
    from that have "\<not> halt s" by (simp add: ok_def during_def)
    then have "frame_of s = (depids s, rdepids s, False, allowincomplete s, snd (snd (snd (snd (frame_of s)))))"
      by (simp add: frame_of_def)
    from resolve_build_ok [OF this, of K L env t] show ?thesis
      by (rule triple_weaken) (auto simp: attempt_def)
  qed
  then show "stable (ok {} K L) (\<lambda>_. ok {} K L) (resolve_build env t)"
    unfolding stable_def by (rule triple_ok)
  have "triple (during fr (base {} K L)) (resolve_run env t) (\<lambda>_. ok {} K L) (\<lambda>_. ok {} K L)" for fr
    by (rule triple_weaken [OF resolve_run_ok]) (auto simp: attempt_def)
  then show "stable (ok {} K L) (\<lambda>_. ok {} K L) (resolve_run env t)"
    unfolding stable_def by (rule triple_ok)
qed

lemma msum_stable: "(\<And>x. stable P R (f x)) \<Longrightarrow> stable P R (msum f xs)"
  by (induction xs) (auto intro!: stable_rules)

text \<open>A round of attempts none of which counts settles every target it tries.\<close>

lemma msum_attempts:
  assumes step: "\<And>x K L. triple (during fr (base {} K L)) (f x) (attempt fr K L (g x K) (h x L)) (\<lambda>_. ok {} K L)"
    and keep: "\<And>x K L. stable (ok {} K L) (\<lambda>_. ok {} K L) (f x)"
    and mono: "\<And>x K. K \<subseteq> g x K" "\<And>x L. L \<subseteq> h x L"
  shows "triple (during fr (base {} K L)) (msum f xs) (attempt fr K L (fold g xs K) (fold h xs L)) (\<lambda>_. ok {} K L)"
proof (induction xs arbitrary: K L)
  case Nil
  show ?case by (auto simp: attempt_def intro: triple_return during_ok)
next
  case (Cons x xs)
  let ?Q = "attempt fr K L (fold g (x # xs) K) (fold h (x # xs) L)"
  have "triple (attempt fr K L (g x K) (h x L) n) (mbind (msum f xs) (\<lambda>k. mreturn (n + k))) ?Q (\<lambda>_. ok {} K L)" for n
  proof (cases "n = 0")
    case True
    have "ok {} K L s" if "ok {} (g x K) (h x L) s" for s
      using that mono by (rule ok_mono [OF _ subset_refl])
    then have "triple (attempt fr K L (g x K) (h x L) n) (msum f xs) ?Q (\<lambda>_. ok {} K L)"
      by (intro triple_weaken [OF Cons.IH [of "g x K" "h x L"]]) (auto simp: attempt_def True)
    then show ?thesis by (rule triple_bind) (auto simp: True intro: triple_return)
  next
    case False
    have "triple (attempt fr K L (g x K) (h x L) n) (msum f xs) (\<lambda>_. ok {} K L) (\<lambda>_. ok {} K L)"
      using msum_stable [OF keep, unfolded stable_def] by (rule triple_pre) (simp add: attempt_def)
    then show ?thesis by (rule triple_bind) (auto simp: attempt_def False intro: triple_return)
  qed
  then show ?case unfolding msum.simps by (rule triple_bind [OF step])
qed

lemma complete_from_settled:
  assumes "during fr (base {} K L) s"
  shows "set (dkeys (build_targets s)) \<subseteq> {t. re_match_strings env t (ignored_dependencies (td_cache s))} \<union> K \<Longrightarrow>
      get_unresolved_build_targets env s = []"
    and "set (dkeys (run_targets s)) \<subseteq> {t. re_match_strings env t (ignored_dependencies (td_cache s))} \<union> L \<Longrightarrow>
      get_unresolved_run_targets env s = []"
  using assms unfolding get_unresolved_build_targets_def get_unresolved_run_targets_def
  by (fastforce simp: filter_empty_conv during_def settled_def)+

definition sweep_done :: "td_env \<Rightarrow> nat \<Rightarrow> taskdata \<Rightarrow> bool" where
  "sweep_done env n s \<longleftrightarrow> ok {} {} {} s \<and>
     (n = 0 \<longrightarrow> \<not> allowincomplete s \<longrightarrow>
        get_unresolved_build_targets env s = [] \<and> get_unresolved_run_targets env s = [])"

lemma fold_insert_set: "fold insert xs A = set xs \<union> A"
  by (induction xs arbitrary: A) auto

lemma settled_now:
  assumes "during fr (base {} K L) s" and "\<forall>t\<in>K'. bt s t \<noteq> {} \<or> t \<in> set (failed_deps s)"
    and "\<forall>t\<in>L'. rt s t \<noteq> {} \<or> t \<in> set (failed_rdeps s)"
  shows "during fr (base {} (K \<union> K') (L \<union> L')) s"
  using assms by (auto simp: during_def providers_unfailed_def failure_closed_def settled_def base_def)

lemma resolve_builds_sweep:
  assumes "ok {} {} {} t"
  shows "triple (\<lambda>s. s = t) (msum (resolve_build env) (get_unresolved_build_targets env t))
    (\<lambda>n s. ok {} {} {} s \<and> (n = 0 \<longrightarrow> frame_of s = frame_of t \<and>
       (\<not> allowincomplete t \<longrightarrow> (\<exists>K. during (frame_of t) (base {} K {}) s \<and>
       set (dkeys (build_targets s)) \<subseteq> {t. re_match_strings env t (ignored_dependencies (td_cache s))} \<union> K))))
    (\<lambda>_. ok {} {} {})"
proof -
  let ?us = "get_unresolved_build_targets env t" and ?ai = "allowincomplete t"
  let ?K = "{u. bt t u \<noteq> {} \<or> u \<in> set (failed_deps t)}"
  let ?K' = "if ?ai then ?K else set ?us \<union> ?K"
  have fr: "frame_of t = (depids t, rdepids t, False, ?ai, snd (snd (snd (snd (frame_of t)))))"
    using assms by (simp add: ok_def during_def frame_of_def)
  have t: "during (frame_of t) (base {} ?K {}) t"
    using assms(1) settled_now [of "frame_of t" "{}" "{}" t ?K "{}"] by (simp add: ok_def)
  have folds: "fold (\<lambda>_ L. L) us {} = ({} :: string set)"
      "fold (\<lambda>x K. if ?ai then K else insert x K) us K = (if ?ai then K else set us \<union> K)"
    for us :: "string list" and K
    by (induction us arbitrary: K) auto
  have "triple (during (frame_of t) (base {} ?K {})) (msum (resolve_build env) ?us)
      (attempt (frame_of t) ?K {} (fold (\<lambda>x K. if ?ai then K else insert x K) ?us ?K) (fold (\<lambda>_ L. L) ?us {}))
      (\<lambda>_. ok {} ?K {})"
  proof (rule msum_attempts)
    show "triple (during (frame_of t) (base {} K L)) (resolve_build env x)
        (attempt (frame_of t) K L (if ?ai then K else insert x K) L) (\<lambda>_. ok {} K L)" for x K L
      by (rule resolve_build_ok [OF fr])
    show "stable (ok {} K L) (\<lambda>_. ok {} K L) (resolve_build env x)" for x K L
      by (rule resolve_stable)
  qed auto
  then have loop: "triple (during (frame_of t) (base {} ?K {})) (msum (resolve_build env) ?us)
      (attempt (frame_of t) ?K {} ?K' {}) (\<lambda>_. ok {} ?K {})"
    by (simp only: folds)
  show ?thesis
  proof (rule triple_weaken [OF loop])
    fix n s assume a: "attempt (frame_of t) ?K {} ?K' {} n s"
    show "ok {} {} {} s \<and> (n = 0 \<longrightarrow> frame_of s = frame_of t \<and>
       (\<not> ?ai \<longrightarrow> (\<exists>K. during (frame_of t) (base {} K {}) s \<and>
       set (dkeys (build_targets s)) \<subseteq> {t. re_match_strings env t (ignored_dependencies (td_cache s))} \<union> K)))"
    proof (intro conjI impI)
      show "ok {} {} {} s" using a by (auto simp: attempt_def elim: ok_mono)
    next
      assume "n = 0"
      then have d: "during (frame_of t) (base {} ?K' {}) s" using a by (simp add: attempt_def)
      then show f: "frame_of s = frame_of t" by (simp add: during_def)
      assume "\<not> ?ai"
      then have "set (dkeys (build_targets s)) \<subseteq>
          {t. re_match_strings env t (ignored_dependencies (td_cache s))} \<union> ?K'"
        using f by (auto simp: get_unresolved_build_targets_def frame_of_def)
      with d show "\<exists>K. during (frame_of t) (base {} K {}) s \<and>
         set (dkeys (build_targets s)) \<subseteq> {t. re_match_strings env t (ignored_dependencies (td_cache s))} \<union> K"
        by blast
    qed
  next
    fix s assume "s = t" then show "during (frame_of t) (base {} ?K {}) s" using t by simp
  next
    fix e s assume "ok {} ?K {} s" then show "ok {} {} {} s" by (rule ok_mono) auto
  qed
qed

lemma resolve_runs_sweep:
  assumes "ok {} {} {} t"
  shows "triple (\<lambda>s. s = t) (msum (resolve_run env) (get_unresolved_run_targets env t))
    (\<lambda>n s. ok {} {} {} s \<and> (n = 0 \<longrightarrow> (\<exists>L. frame_of s = frame_of t \<and>
       (\<forall>K. during (frame_of t) (base {} K {}) t \<longrightarrow> during (frame_of t) (base {} K L) s) \<and>
       set (dkeys (run_targets s)) \<subseteq> {t. re_match_strings env t (ignored_dependencies (td_cache s))} \<union> L)))
    (\<lambda>_. ok {} {} {})"
proof -
  let ?us = "get_unresolved_run_targets env t"
  let ?L = "{u. rt t u \<noteq> {} \<or> u \<in> set (failed_rdeps t)}"
  have run: "triple (during (frame_of t) (base {} K ?L)) (msum (resolve_run env) ?us)
      (attempt (frame_of t) K ?L (fold (\<lambda>_ K. K) ?us K) (fold insert ?us ?L)) (\<lambda>_. ok {} K ?L)" for K
  proof (rule msum_attempts)
    show "triple (during (frame_of t) (base {} K L)) (resolve_run env x)
        (attempt (frame_of t) K L K (insert x L)) (\<lambda>_. ok {} K L)" for x K L
      by (rule resolve_run_ok)
    show "stable (ok {} K L) (\<lambda>_. ok {} K L) (resolve_run env x)" for x K L
      by (rule resolve_stable)
  qed auto
  have fold: "fold (\<lambda>_ K. K) us K = K" for us :: "string list" and K :: "string set"
    by (induction us) auto
  have t: "during (frame_of t) (base {} K ?L) t" if "during (frame_of t) (base {} K {}) t" for K
    using settled_now [OF that, of "{}" ?L] by simp
  have one: "case msum (resolve_run env) ?us t of
      (Inr n, s) \<Rightarrow> attempt (frame_of t) K ?L K (set ?us \<union> ?L) n s | (Inl e, s) \<Rightarrow> ok {} K ?L s"
    if "during (frame_of t) (base {} K {}) t" for K
    using run [of K, unfolded fold fold_insert_set triple_def, rule_format, OF t [OF that]] .
  have t0: "during (frame_of t) (base {} {} {}) t" using assms by (simp add: ok_def)
  show ?thesis
    unfolding triple_def
  proof (intro allI impI)
    fix t' assume [simp]: "t' = t"
    obtain r s where r: "msum (resolve_run env) ?us t = (r, s)" by (cases "msum (resolve_run env) ?us t")
    show "case msum (resolve_run env) ?us t' of
      (Inr n, s) \<Rightarrow> ok {} {} {} s \<and> (n = 0 \<longrightarrow> (\<exists>L. frame_of s = frame_of t \<and>
       (\<forall>K. during (frame_of t) (base {} K {}) t \<longrightarrow> during (frame_of t) (base {} K L) s) \<and>
       set (dkeys (run_targets s)) \<subseteq> {t. re_match_strings env t (ignored_dependencies (td_cache s))} \<union> L))
      | (Inl e, s) \<Rightarrow> ok {} {} {} s"
    proof (cases r)
      case (Inl e)
      then show ?thesis using one [OF t0] r by (auto elim: ok_mono)
    next
      case (Inr n)
      have o: "ok {} {} {} s" using one [OF t0] r Inr by (auto simp: attempt_def elim: ok_mono)
      have all: "\<forall>K. during (frame_of t) (base {} K {}) t \<longrightarrow> during (frame_of t) (base {} K (set ?us \<union> ?L)) s"
        if "n = 0"
        using one r Inr that by (simp add: attempt_def)
      moreover have "frame_of s = frame_of t" if "n = 0"
        using all [OF that] t0 by (auto simp: during_def)
      then have "set (dkeys (run_targets s)) \<subseteq>
          {t. re_match_strings env t (ignored_dependencies (td_cache s))} \<union> (set ?us \<union> ?L)" if "n = 0"
        using that by (auto simp: frame_of_def get_unresolved_run_targets_def)
      ultimately show ?thesis using o r Inr \<open>n = 0 \<Longrightarrow> frame_of s = frame_of t\<close> by auto
    qed
  qed
qed

lemma resolve_sweep_ok:
  "triple (ok {} {} {}) (resolve_sweep env) (sweep_done env) (\<lambda>_. ok {} {} {})"
  unfolding triple_def
proof (intro allI impI)
  fix t assume t: "ok {} {} {} t"
  let ?b = "msum (resolve_build env) (get_unresolved_build_targets env t)"
  obtain r s where b: "?b t = (r, s)" by (cases "?b t")
  have st: "case ?b t of (Inr n, s) \<Rightarrow> ok {} {} {} s | (Inl e, s) \<Rightarrow> ok {} {} {} s"
    by (rule msum_stable [OF resolve_stable(1), unfolded stable_def triple_def, rule_format, OF t])
  show "case resolve_sweep env t of (Inr n, s) \<Rightarrow> sweep_done env n s | (Inl e, s) \<Rightarrow> ok {} {} {} s"
  proof (cases r)
    case (Inl e)
    then show ?thesis using st b by (simp add: resolve_sweep_def mbind_def mread_def)
  next
    case (Inr n)
    then have s: "ok {} {} {} s" using st b by simp
    let ?r = "msum (resolve_run env) (get_unresolved_run_targets env s)"
    obtain q u where q: "?r s = (q, u)" by (cases "?r s")
    note runs = tripleD [OF resolve_runs_sweep [OF s, of env] refl]
    have sweep: "resolve_sweep env t = (case q of Inl e \<Rightarrow> (Inl e, u) | Inr k \<Rightarrow> (Inr (n + k), u))"
      using b Inr q by (simp add: resolve_sweep_def mbind_def mread_def mreturn_def split: sum.split)
    show ?thesis
    proof (cases q)
      case (Inl e)
      then show ?thesis using sweep runs(2) q by simp
    next
      case (Inr k)
      have "sweep_done env (n + k) u"
        unfolding sweep_done_def
      proof (intro conjI impI)
        show "ok {} {} {} u" using runs(1) q Inr by simp
        assume "n + k = 0" and ai: "\<not> allowincomplete u"
        then have "n = 0" "k = 0" by auto
        obtain L where L: "frame_of u = frame_of s"
          "\<And>K. during (frame_of s) (base {} K {}) s \<Longrightarrow> during (frame_of s) (base {} K L) u"
          "set (dkeys (run_targets u)) \<subseteq> {t. re_match_strings env t (ignored_dependencies (td_cache u))} \<union> L"
          using runs(1) [of k u] q Inr \<open>k = 0\<close> by auto
        note builds = tripleD(1) [OF resolve_builds_sweep [OF t, of env] refl, of n s]
        have f: "frame_of s = frame_of t" using builds b \<open>r = Inr n\<close> \<open>n = 0\<close> by simp
        with L(1) ai have "\<not> allowincomplete t" by (simp add: frame_of_def)
        then obtain K where K: "during (frame_of t) (base {} K {}) s"
          "set (dkeys (build_targets s)) \<subseteq> {t. re_match_strings env t (ignored_dependencies (td_cache s))} \<union> K"
          using builds b \<open>r = Inr n\<close> \<open>n = 0\<close> by auto
        have d: "during (frame_of t) (base {} K L) u" using L(2) K(1) f by simp
        have "set (dkeys (build_targets u)) \<subseteq> {t. re_match_strings env t (ignored_dependencies (td_cache u))} \<union> K"
          using K(2) L(1) by (simp add: frame_of_def)
        with d show "get_unresolved_build_targets env u = []" by (rule complete_from_settled)
        show "get_unresolved_run_targets env u = []" using d L(3) by (rule complete_from_settled)
      qed
      then show ?thesis using sweep Inr by simp
    qed
  qed
qed


section \<open>Properties\<close>

lemma add_unresolved_ok:
  "triple (ok {} {} {}) (add_unresolved n env) (\<lambda>_. sweep_done env 0) (\<lambda>_. ok {} {} {})"
proof (induction n)
  case 0
  show ?case unfolding add_unresolved.simps by (rule triple_raise)
next
  case (Suc n)
  show ?case unfolding add_unresolved.simps
  proof (rule triple_bind [OF resolve_sweep_ok], rule triple_if)
    fix added :: nat
    show "triple (sweep_done env added) (mreturn ()) (\<lambda>_. sweep_done env 0) (\<lambda>_. ok {} {} {})" if "added = 0"
      using that by (intro triple_return) simp
    show "triple (sweep_done env added) (add_unresolved n env) (\<lambda>_. sweep_done env 0) (\<lambda>_. ok {} {} {})"
      by (rule triple_pre [OF Suc.IH]) (simp add: sweep_done_def)
  qed
qed

text \<open>Asking for an item, at build time or at run time, keeps the task data consistent whether the
  request succeeds, raises, or (in \<open>add_provider\<close>, keep-going) removes the item.\<close>

theorem add_provider_consistent:
  assumes "\<not> halt s" and "td_ok s"
  shows "td_ok (snd (add_provider env item s)) \<and> td_ok (snd (add_rprovider env item s))"
proof -
  have "ok {} {} {} s" using assms by (simp add: td_ok_iff)
  then have s: "ok {} {} {} s" "during (frame_of s) (base {} {} {}) s" by (simp_all add: ok_def)
  have "case add_rprovider env item s of (Inr x, t) \<Rightarrow> ok {} {} {} t
      | (Inl e, t) \<Rightarrow> unresolved (frame_of s) {} {} e t"
    by (rule add_rprovider_ok [unfolded triple_def, rule_format, OF s(2)])
  then have r: "ok {} {} {} (snd (add_rprovider env item s))"
    by (auto simp: unresolved_def split: prod.splits sum.splits)
  have tr: "triple (during (frame_of s) (base {} {} {})) (add_provider env item) (\<lambda>_. ok {} {} {}) (\<lambda>_. ok {} {} {})"
    unfolding add_provider_def
  proof (rule triple_then [OF triple_catch [OF add_provider_internal_ok]])
    fix e
    note rem = remove_buildtarget_top [of "frame_of s" "base {} {} {}" item, unfolded base_insert base_sel]
    show "triple (unresolved (frame_of s) {} {} e) (case e of
        NoProvider i \<Rightarrow> mread (\<lambda>s. if halt s then mraise e else remove_buildtarget item) | _ \<Rightarrow> mraise e)
      (\<lambda>_. ok {} {} {}) (\<lambda>_. ok {} {} {})"
    proof (cases "\<exists>i. e = NoProvider i")
      case True
      then obtain i where e: "e = NoProvider i" by blast
      have "triple (unresolved (frame_of s) {} {} e) (remove_buildtarget item) (\<lambda>_. ok {} {} {}) (\<lambda>_. ok {} {} {})"
        by (rule triple_weaken [OF rem]) (auto simp: unresolved_def e intro: ok_mono [OF during_ok])
      then show ?thesis unfolding e exn.case
        by (intro triple_read_inv triple_if triple_raise) (auto simp: unresolved_def)
    qed (cases e; auto simp: unresolved_def intro!: triple_raise)
  next
    show "triple (ok {} {} {}) (mupd (mark_external_target item)) (\<lambda>_. ok {} {} {}) (\<lambda>_. ok {} {} {})"
      by (rule ok_core_upd [unfolded stable_def]) (simp add: same_core_def mark_external_target_def)
  qed
  have "case add_provider env item s of (Inr x, t) \<Rightarrow> ok {} {} {} t | (Inl e, t) \<Rightarrow> ok {} {} {} t"
    by (rule tr [unfolded triple_def, rule_format, OF s(2)])
  then have "ok {} {} {} (snd (add_provider env item s))" by (auto split: prod.splits sum.splits)
  with r show ?thesis by (simp add: td_ok_iff)
qed

definition sample_env :: td_env where
  "sample_env = \<lparr>env_getVar = (\<lambda>_. None), env_match = (\<lambda>_ _. False), env_compile = (\<lambda>_. Some (\<lambda>_. False)),
     env_order = (\<lambda>xs. xs), env_exec = (\<lambda>_ _ _ _ _. None)\<rparr>"

definition sample_unresolved :: taskdata where
  "sample_unresolved = sample_td\<lparr>build_targets := [(''v'', [''b_1.bb'']), (''a'', [''a_2.bb'']), (''z'', [])],
      depids := [(''a_2.bb'', [''v'', ''z'']), (''b_1.bb'', [])]\<rparr>"

lemma sample_unresolved_ok: "\<not> halt sample_unresolved \<and> td_ok sample_unresolved"
  by (auto simp: sample_unresolved_def sample_td_def init_taskdata_def td_ok_def dget_def)

lemma add_provider_consistent_witness:
  "\<not> halt sample_unresolved \<and> td_ok (snd (add_provider sample_env ''z'' sample_unresolved)) \<and>
    failed_fns (snd (add_provider sample_env ''z'' sample_unresolved)) = [''a_2.bb'']"
proof -
  have "failed_fns (snd (add_provider sample_env ''z'' sample_unresolved)) = [''a_2.bb'']" by code_simp
  then show ?thesis using add_provider_consistent [of sample_unresolved] sample_unresolved_ok by simp
qed

text \<open>A failed item is not noticed when a task asks for it with a \<open>[depends]\<close> flag: \<open>add_tasks\<close> checks
  only the recipe's \<open>DEPENDS\<close> and \<open>RDEPENDS\<close> against the failed items. Here \<open>z\<close> has failed, the task
  of \<open>a_2.bb\<close> needs it, and the file is added as if it could be built.\<close>

theorem add_tasks_misses_failed_idepends:
  "let td = \<lparr>td_tasks = [''do_t''], td_parents = [(''do_t'', [])],
               td_flags = [(''depends'', [(''do_t'', ''z:do_u'')])]\<rparr>;
       s0 = init_taskdata False [] False (sample_cache\<lparr>task_deps := [(''a_2.bb'', td)]\<rparr>);
       r = add_tasks sample_env ''a_2.bb'' (s0\<lparr>build_targets := [(''z'', [])], failed_deps := [''z'']\<rparr>)
   in fst r = Inr () \<and> failed_fns (snd r) = [] \<and>
      idepends (entry_of (snd r) ''a_2.bb:do_t'') = [(''z'', ''do_u'')]"
  by code_simp

end
