(* ===== verification/ResolveEnds.thy ===== *)
theory ResolveEnds
  imports TaskResolve
begin

text \<open>
  The rounds of \<open>add_unresolved\<close> in \<open>bb/taskdata.py\<close> come to an end: a round settles every item that was
  open when it started, so that another one is needed only when a recipe file was added, and a file is
  added once. No step runs out of the fuel it is given, and what a round leaves open is what its new
  files asked for.
\<close>

section \<open>The resolution ends\<close>

text \<open>What failing leaves alone, as the recursion goes.\<close>

definition outline :: "taskdata \<Rightarrow> bool \<times> string list \<times> string set \<times> string set \<times> dcache" where
  "outline s = (allowincomplete s, seenfns s, set (dkeys (build_targets s)), set (dkeys (run_targets s)), td_cache s)"

definition keeps_outline :: "'a tdm \<Rightarrow> bool" where
  "keeps_outline m \<longleftrightarrow> (\<forall>o'. stable (\<lambda>s. outline s = o') (\<lambda>_ s. outline s = o') m)"

lemma known_key: "x \<in> set (dget d k []) \<Longrightarrow> k \<in> set (dkeys d)"
  by (cases "map_of d k") (auto simp: dget_def dkeys_def dest!: map_of_SomeD intro: rev_image_eqI)

lemma fail_tasks_outline: "(\<And>f. keeps_outline (fail f)) \<Longrightarrow> keeps_outline (fail_tasks fail sel target)"
  unfolding fail_tasks_def keeps_outline_def case_prod_beta by (intro allI stable_rules) auto

lemma remove_with_outline:
  assumes "\<And>f. keeps_outline (fail f)"
  shows "keeps_outline (remove_buildtarget_with fail target)" "keeps_outline (remove_runtarget_with fail target)"
  using assms fail_tasks_outline [OF assms]
  unfolding remove_buildtarget_with_def remove_runtarget_with_def keeps_outline_def
  by (intro allI stable_rules; auto simp: outline_def)+

lemma fail_target_outline:
  assumes "\<And>f. keeps_outline (fail f)"
  shows "keeps_outline (fail_build_target fail fn target)" "keeps_outline (fail_run_target fail fn target)"
proof -
  have upd: "stable (\<lambda>s. outline s = o') (\<lambda>_ s. outline s = o')
      (mread (\<lambda>s. if fn \<in> set (dget (build_targets s) target []) then
         mthen (mupd (\<lambda>s. s\<lparr>build_targets := AList.update target (remove1 fn (dget (build_targets s) target [])) (build_targets s)\<rparr>)) m
       else mreturn ()))" if "stable (\<lambda>s. outline s = o') (\<lambda>_ s. outline s = o') m" for o' and m :: "unit tdm"
    using that unfolding stable_def
    by (intro triple_read triple_if triple_return triple_then [OF triple_upd]) (auto simp: outline_def dest: known_key)
  have upd': "stable (\<lambda>s. outline s = o') (\<lambda>_ s. outline s = o')
      (mread (\<lambda>s. if fn \<in> set (dget (run_targets s) target []) then
         mthen (mupd (\<lambda>s. s\<lparr>run_targets := AList.update target (remove1 fn (dget (run_targets s) target [])) (run_targets s)\<rparr>)) m
       else mreturn ()))" if "stable (\<lambda>s. outline s = o') (\<lambda>_ s. outline s = o') m" for o' and m :: "unit tdm"
    using that unfolding stable_def
    by (intro triple_read triple_if triple_return triple_then [OF triple_upd]) (auto simp: outline_def dest: known_key)
  note rem = remove_with_outline [OF assms, unfolded keeps_outline_def, rule_format]
  show "keeps_outline (fail_build_target fail fn target)" "keeps_outline (fail_run_target fail fn target)"
    unfolding fail_build_target_def fail_run_target_def keeps_outline_def
    by (intro allI upd upd' stable_rules rem)+
qed

lemma fail_fn_n_outline: "keeps_outline (fail_fn_n n f)"
proof (induction n arbitrary: f)
  case 0
  show ?case unfolding keeps_outline_def fail_fn_n.simps by (intro allI stable_rules)
next
  case (Suc n)
  note target = fail_target_outline [OF Suc.IH, unfolded keeps_outline_def, rule_format]
  show ?case
    unfolding keeps_outline_def fail_fn_n.simps fail_fn_with_def
    by (intro allI stable_rules target) (simp_all add: outline_def)
qed

text \<open>A predicate of the outline, with an exception that is not the one of the fuel.\<close>

definition raises_ok :: "(taskdata \<Rightarrow> bool) \<Rightarrow> exn \<Rightarrow> taskdata \<Rightarrow> bool" where
  "raises_ok P e s \<longleftrightarrow> e \<noteq> OutOfFuel \<and> P s"

definition of_outline :: "(taskdata \<Rightarrow> bool) \<Rightarrow> bool" where
  "of_outline P \<longleftrightarrow> (\<forall>s t. outline s = outline t \<longrightarrow> P s \<longrightarrow> P t)"

lemma stable_outline:
  assumes "keeps_outline m" and "\<And>s. fst (m s) \<noteq> Inl OutOfFuel" and "of_outline P"
  shows "stable P (raises_ok P) m"
  unfolding stable_def triple_def
proof (intro allI impI)
  fix s assume "P s"
  have "case m s of (Inr x, t) \<Rightarrow> outline t = outline s | (Inl e, t) \<Rightarrow> outline t = outline s"
    by (rule assms(1) [unfolded keeps_outline_def stable_def triple_def, rule_format]) (rule refl)
  then show "case m s of (Inr x, t) \<Rightarrow> P t | (Inl e, t) \<Rightarrow> raises_ok P e t"
    using assms(2) [of s] assms(3) [unfolded of_outline_def, rule_format, OF _ \<open>P s\<close>]
    by (cases "m s"; cases "fst (m s)") (simp_all add: raises_ok_def)
qed

lemma failing_stable:
  assumes "of_outline P"
  shows "stable P (raises_ok P) (fail_fn f)" "stable P (raises_ok P) (remove_buildtarget t)"
    "stable P (raises_ok P) (remove_runtarget t)"
proof -
  have keeps: "keeps_outline (fail_fn f)" "keeps_outline (remove_buildtarget t)" "keeps_outline (remove_runtarget t)"
    unfolding fail_fn_def remove_buildtarget_def remove_runtarget_def keeps_outline_def
    by (intro allI stable_rules fail_fn_n_outline [unfolded keeps_outline_def, rule_format]
        remove_with_outline [OF fail_fn_n_outline, unfolded keeps_outline_def, rule_format])+
  show "stable P (raises_ok P) (fail_fn f)"
    by (rule stable_outline [OF keeps(1) _ assms]) (simp add: failing_terminates)
  show "stable P (raises_ok P) (remove_buildtarget t)"
    by (rule stable_outline [OF keeps(2) _ assms]) (simp add: failing_terminates)
  show "stable P (raises_ok P) (remove_runtarget t)"
    by (rule stable_outline [OF keeps(3) _ assms]) (simp add: failing_terminates)
qed

text \<open>No computation on the cache runs out of fuel.\<close>

abbreviation ends :: "'x res \<Rightarrow> bool" where
  "ends r \<equiv> yields (\<lambda>_. True) r"

lemma explode_version_ends: "ends (explode_version s)"
proof (induction s rule: explode_version.induct)
  case (1 s)
  show ?case
    by (subst explode_version.simps) (auto split: option.split intro!: yields_bind [where Q = "\<lambda>_. True"] simp: 1)
qed

lemma vercmp_ends: "ends (vercmp a b)"
  unfolding vercmp_def epoch_int_def vercmp_part_def Let_def
  by (auto intro!: yields_bind [where Q = "\<lambda>_. True"] yields_if py_int_yields explode_version_ends
      split: prod.split epoch.split)

lemma sortPriorities_ends: "ends (sortPriorities pn dc d)"
  by (simp add: sortPriorities_def Let_def split: option.split)

lemma findLatestProvider_ends: "ends (findLatestProvider dc fs)"
  unfolding findLatestProvider_def latest_step_def Let_def
  by (auto intro!: yields_bind [where Q = "\<lambda>_. True"] yields_fold yields_if vercmp_ends split: prod.split option.split)

lemma filter_providers_common_ends: "ends (filter_providers_common provs item getVar dc)"
proof -
  have "ends (filter_required getVar dc d pn st)" for d pn st
    unfolding filter_required_def Let_def
    by (auto intro!: yields_bind [OF sortPriorities_ends] split: prod.split)
  moreover have "ends (filter_latest dc pn st)" for pn st
    unfolding filter_latest_def
    by (auto intro!: yields_bind [OF findLatestProvider_ends] split: option.split prod.split list.split)
  ultimately show ?thesis
    unfolding filter_providers_common_def Let_def
    by (intro yields_bind [where Q = "\<lambda>_. True"] yields_if yields_fold) simp_all
qed

lemma choosing_ends: "ends (filterProviders provs item getVar dc)" "ends (filterProvidersRunTime provs item getVar dc)"
  unfolding filterProviders_def filterProvidersRunTime_def Let_def
  by (auto intro!: yields_bind [OF filter_providers_common_ends] split: option.split)

lemma getRuntimeProviders_ends: "ends (getRuntimeProviders rx dc item)"
  unfolding getRuntimeProviders_def dynamic_step_def Let_def
  by (auto intro!: yields_fold split: prod.split option.split)

text \<open>Compared with an earlier state: nothing was unset, and either a recipe file with tasks was added since, or
  no target was.\<close>

definition since :: "taskdata \<Rightarrow> taskdata \<Rightarrow> bool" where
  "since s0 s \<longleftrightarrow> allowincomplete s = allowincomplete s0 \<and> set (seenfns s0) \<subseteq> set (seenfns s) \<and>
     task_deps (td_cache s) = task_deps (td_cache s0) \<and> ignored_dependencies (td_cache s) = ignored_dependencies (td_cache s0)"

definition grown :: "taskdata \<Rightarrow> taskdata \<Rightarrow> bool" where
  "grown s0 s \<longleftrightarrow> since s0 s \<and>
     (\<exists>fn\<in>set (dkeys (task_deps (td_cache s0))). fn \<notin> set (seenfns s0) \<and> fn \<in> set (seenfns s))"

definition bounded :: "taskdata \<Rightarrow> taskdata \<Rightarrow> bool" where
  "bounded s0 s \<longleftrightarrow> since s0 s \<and>
     (grown s0 s \<or> set (dkeys (build_targets s)) \<subseteq> set (dkeys (build_targets s0)) \<and>
        set (dkeys (run_targets s)) \<subseteq> set (dkeys (run_targets s0)))"

lemma bounded_refl [simp]: "bounded s s"
  by (simp add: bounded_def since_def)

lemma since_trans: "since s t \<Longrightarrow> since t u \<Longrightarrow> since s u"
  by (auto simp: since_def)

lemma grown_trans: "grown s t \<Longrightarrow> since t u \<Longrightarrow> grown s u" "since s t \<Longrightarrow> grown t u \<Longrightarrow> grown s u"
  by (auto simp: grown_def since_def)

lemma bounded_trans: "bounded s t \<Longrightarrow> bounded t u \<Longrightarrow> bounded s u"
  using since_trans [of s t u] grown_trans [of s t u] by (auto simp: bounded_def)

lemma since_blind:
  assumes "allowincomplete t = allowincomplete s" "seenfns t = seenfns s"
    "task_deps (td_cache t) = task_deps (td_cache s)" "ignored_dependencies (td_cache t) = ignored_dependencies (td_cache s)"
  shows "since s0 t = since s0 s" "grown s0 t = grown s0 s"
  using assms by (simp_all add: since_def grown_def)

lemma grown_outline: "of_outline (grown s0)" "of_outline (bounded s0)"
  by (simp add: of_outline_def grown_def since_def outline_def)
    (auto simp: of_outline_def bounded_def grown_def since_def outline_def)

text \<open>Adding a file that was not seen.\<close>

lemma grown_upd:
  assumes "\<And>s. allowincomplete (f s) = allowincomplete s \<and> seenfns (f s) = seenfns s \<and>
    task_deps (td_cache (f s)) = task_deps (td_cache s) \<and> ignored_dependencies (td_cache (f s)) = ignored_dependencies (td_cache s)"
  shows "stable (grown s0) R (mupd f)"
  using assms since_blind(2) by (intro stable_upd) blast

lemma grown_raise: "e \<noteq> OutOfFuel \<Longrightarrow> stable (grown s0) (raises_ok (grown s0)) (mraise e)"
  by (intro stable_raise) (simp add: raises_ok_def)

lemma add_mcdepends_grown: "stable (grown s0) (raises_ok (grown s0)) (add_mcdepends fn task ds)"
  by (induction ds) (auto intro!: stable_rules(1,5-) grown_upd grown_raise)

lemma dep_ids_grown:
  assumes "\<And>n. stable (grown s0) (raises_ok (grown s0)) (mupd (seen n))"
  shows "stable (grown s0) (raises_ok (grown s0)) (dep_ids fn task dep_name seen ds)"
  using assms by (induction ds) (auto simp: Let_def intro!: stable_return stable_bind stable_then stable_if grown_raise)

lemma handle_deps_grown:
  assumes "\<And>n. stable (grown s0) (raises_ok (grown s0)) (mupd (seen n))"
  shows "stable (grown s0) (raises_ok (grown s0)) (handle_deps fn td task dep_name seen ext)"
  unfolding handle_deps_def
  by (auto split: option.split simp: Let_def intro!: stable_return stable_bind dep_ids_grown assms grown_upd)

lemma seen_grown:
  "stable (grown s0) R (mupd (seen_build_target n))" "stable (grown s0) R (mupd (seen_run_target n))"
  by (intro grown_upd; simp add: seen_build_target_def seen_run_target_def)+

lemma add_task_grown: "stable (grown s0) (raises_ok (grown s0)) (add_task fn td task)"
  unfolding add_task_def Let_def
  by (auto split: option.split intro!: stable_return stable_then grown_raise grown_upd handle_deps_grown seen_grown
      add_mcdepends_grown)

lemma add_extra_deps_grown: "stable (grown s0) (raises_ok (grown s0)) (add_extra_deps env fn)"
  unfolding add_extra_deps_def Let_def
  by (auto split: option.split simp: buildWorldTargetList_def
      intro!: stable_return stable_then stable_if stable_read grown_raise grown_upd)

lemma scan_deps_grown:
  assumes "\<And>n. stable (grown s0) (raises_ok (grown s0)) (mupd (seen n))"
  shows "stable (grown s0) (raises_ok (grown s0)) (scan_deps seen failed fn ds)"
  using failing_stable(1) [OF grown_outline(1)] assms
  by (induction ds) (auto intro!: stable_return stable_then stable_if stable_read)

lemma bounded_grown: "grown s0 s \<Longrightarrow> bounded s0 s"
  by (simp add: bounded_def grown_def)

lemma add_tasks_bounded: "stable (bounded s0) (raises_ok (bounded s0)) (add_tasks env fn)"
proof -
  have grown: "triple (grown s0) m (\<lambda>_. bounded s0) (raises_ok (bounded s0))"
    if "stable (grown s0) (raises_ok (grown s0)) m" for m :: "unit tdm"
    by (rule triple_weaken [OF that [unfolded stable_def]]) (auto simp: raises_ok_def bounded_grown)
  have rest: "stable (grown s0) (raises_ok (grown s0)) (mthen (add_extra_deps env fn)
          (mthen (mfor (add_task fn td) (td_tasks td))
          (mthen (mupd (add_depids env fn))
          (mthen (mupd (add_rdepids env fn))
          (mread (\<lambda>s. mbind (scan_deps seen_build_target failed_deps fn (dget (depids s) fn []))
             (\<lambda>returned. if returned then mreturn ()
               else mread (\<lambda>s. mbind (scan_deps seen_run_target failed_rdeps fn (dget (rdepids s) fn []))
                      (\<lambda>_. mreturn ())))))))))" for td
    by (intro stable_then stable_bind stable_read stable_if stable_return stable_for add_extra_deps_grown add_task_grown
        scan_deps_grown seen_grown grown_upd) (simp_all add: add_depids_def add_rdepids_def Let_def)
  show ?thesis
    unfolding add_tasks_def stable_def
  proof (rule triple_read)
    fix t assume t: "bounded s0 t"
    show "triple (\<lambda>s. s = t) (case map_of (task_deps (td_cache t)) fn of
         None \<Rightarrow> mraise (KeyError fn)
       | Some td \<Rightarrow>
         if fn \<in> set (failed_fns t) then mraise (Fatal ''Trying to re-add a failed file?'')
         else if fn \<in> set (seenfns t) then mreturn ()
         else
           mthen (mupd (\<lambda>s. s\<lparr>seenfns := seenfns s @ [fn]\<rparr>))
          (mthen (add_extra_deps env fn)
          (mthen (mfor (add_task fn td) (td_tasks td))
          (mthen (mupd (add_depids env fn))
          (mthen (mupd (add_rdepids env fn))
          (mread (\<lambda>s. mbind (scan_deps seen_build_target failed_deps fn (dget (depids s) fn []))
             (\<lambda>returned. if returned then mreturn ()
               else mread (\<lambda>s. mbind (scan_deps seen_run_target failed_rdeps fn (dget (rdepids s) fn []))
                      (\<lambda>_. mreturn ()))))))))))
      (\<lambda>_. bounded s0) (raises_ok (bounded s0))"
    proof (cases "map_of (task_deps (td_cache t)) fn")
      case None
      then show ?thesis using t by (auto intro!: triple_raise simp: raises_ok_def)
    next
      case (Some td)
      then have key: "fn \<in> set (dkeys (task_deps (td_cache s0)))"
        using t by (auto simp: bounded_def since_def dkeys_def dest!: map_of_SomeD intro: rev_image_eqI)
      have "grown s0 (t\<lparr>seenfns := seenfns t @ [fn]\<rparr>)" if "fn \<notin> set (seenfns t)"
        using t key that by (auto simp: bounded_def grown_def since_def)
      then show ?thesis
        using t unfolding Some option.case
        by (intro triple_if triple_return triple_raise triple_then [OF triple_upd grown [OF rest]]) (auto simp: raises_ok_def)
    qed
  qed
qed

text \<open>Resolving a known target.\<close>

definition knows_build :: "taskdata \<Rightarrow> string \<Rightarrow> bool" where
  "knows_build s0 item \<longleftrightarrow> item \<in> set (dkeys (build_targets s0))"

lemma bounded_upd:
  assumes "\<And>s. allowincomplete (f s) = allowincomplete s \<and> seenfns (f s) = seenfns s \<and>
    task_deps (td_cache (f s)) = task_deps (td_cache s) \<and> ignored_dependencies (td_cache (f s)) = ignored_dependencies (td_cache s) \<and>
    set (dkeys (build_targets (f s))) \<subseteq> set (dkeys (build_targets s)) \<union> B \<and>
    set (dkeys (run_targets (f s))) \<subseteq> set (dkeys (run_targets s)) \<union> C"
    and "B \<subseteq> set (dkeys (build_targets s0))" and "C \<subseteq> set (dkeys (run_targets s0))"
  shows "stable (bounded s0) R (mupd f)"
proof (rule stable_upd)
  fix s assume s: "bounded s0 s"
  note f = assms(1) [of s]
  have "since s0 (f s) = since s0 s" "grown s0 (f s) = grown s0 s" using f since_blind [of "f s" s s0] by blast+
  then show "bounded s0 (f s)" using s f assms(2,3) unfolding bounded_def by blast
qed

lemma add_target_keys: "set (dkeys (add_target fn item ts)) \<subseteq> set (dkeys ts) \<union> {item}"
  by (auto simp: add_target_def)

lemma add_eligible_bounded:
  assumes "\<And>fn. stable (bounded s0) (raises_ok (bounded s0)) (mupd (add fn))"
  shows "stable (bounded s0) (raises_ok (bounded s0)) (add_eligible env add el)"
  unfolding add_eligible_def
  by (intro stable_for stable_read stable_if stable_return stable_then assms add_tasks_bounded)

lemma bounded_lift: "ends r \<Longrightarrow> stable (bounded s0) (raises_ok (bounded s0)) (mlift r)"
  by (intro stable_lift) (auto simp: raises_ok_def)

lemma bounded_raise: "e \<noteq> OutOfFuel \<Longrightarrow> stable (bounded s0) (raises_ok (bounded s0)) (mraise e)"
  by (intro stable_raise) (simp add: raises_ok_def)

lemma fire_bounded: "stable (bounded s0) R (fire ev)"
  unfolding fire_def by (rule bounded_upd [where B = "{}" and C = "{}"]) simp_all

lemma consider_message_bounded: "stable (bounded s0) R (consider_message item el r)"
  unfolding consider_message_def
  by (intro stable_read stable_then stable_if stable_return fire_bounded bounded_upd [where B = "{}" and C = "{}"]) simp_all

lemma filterProviders_cache:
  assumes "filterProviders provs item getVar dc = Inr (r, dc')"
  shows "task_deps dc' = task_deps dc \<and> ignored_dependencies dc' = ignored_dependencies dc"
proof -
  have "dc' = record_preferred getVar item dc"
    using assms by (auto simp: filterProviders_def rbind_eq_Inr Let_def split: option.splits)
  then show ?thesis by (simp add: record_preferred_def Let_def)
qed

lemma bounded_cache:
  "task_deps dc = task_deps (td_cache s) \<Longrightarrow> ignored_dependencies dc = ignored_dependencies (td_cache s) \<Longrightarrow>
     bounded s0 s \<Longrightarrow> bounded s0 (s\<lparr>td_cache := dc\<rparr>)"
  by (auto simp: bounded_def since_def grown_def)

lemma filter_providers_bounded: "stable (bounded s0) (raises_ok (bounded s0)) (filter_providers env item)"
  unfolding filter_providers_def Let_def
proof (rule stable_read, rule stable_then)
  fix t
  show "stable (bounded s0) (raises_ok (bounded s0)) (mupd (\<lambda>s. s\<lparr>td_cache := (td_cache s)
           \<lparr>providers := AList.update item (sort (dget (providers (td_cache t)) item [])) (providers (td_cache s))\<rparr>\<rparr>))"
    by (rule stable_upd) (simp add: bounded_cache)
  show "stable (bounded s0) (raises_ok (bounded s0)) (mread (\<lambda>s.
          mbind (mlift (filterProviders (sort (dget (providers (td_cache t)) item [])) item (env_getVar env) (td_cache s)))
            (\<lambda>(r, dc). mthen (mupd (\<lambda>s. s\<lparr>td_cache := dc\<rparr>)) (mreturn r))))"
    unfolding stable_def
  proof (rule triple_read)
    fix u assume u: "bounded s0 u"
    let ?r = "filterProviders (sort (dget (providers (td_cache t)) item [])) item (env_getVar env) (td_cache u)"
    have e: "ends ?r" by (rule choosing_ends)
    show "triple (\<lambda>s. s = u) (mbind (mlift ?r) (\<lambda>(r, dc). mthen (mupd (\<lambda>s. s\<lparr>td_cache := dc\<rparr>)) (mreturn r)))
        (\<lambda>_. bounded s0) (raises_ok (bounded s0))"
    proof (cases ?r)
      case (Inl x)
      then show ?thesis using u e by (simp add: triple_def mbind_def mlift_def raises_ok_def)
    next
      case (Inr x)
      then obtain a dc where r: "?r = Inr (a, dc)" by (cases x) simp
      show ?thesis
        using u filterProviders_cache [OF r] unfolding r
        by (simp add: triple_def mbind_def mlift_def mthen_def mupd_def mreturn_def bounded_cache)
    qed
  qed
qed

lemma add_build_bounded:
  "item \<in> set (dkeys (build_targets s0)) \<Longrightarrow> stable (bounded s0) R (mupd (add_build_target fn item))"
  using add_target_keys [of fn item]
  by (intro bounded_upd [where B = "{item}" and C = "{}"]) (simp_all add: add_build_target_def)

lemma add_run_bounded:
  "item \<in> set (dkeys (run_targets s0)) \<Longrightarrow> stable (bounded s0) R (mupd (add_runtime_target fn item))"
  using add_target_keys [of fn item]
  by (intro bounded_upd [where B = "{}" and C = "{item}"]) (simp_all add: add_runtime_target_def)

lemma add_provider_internal_bounded:
  assumes "item \<in> set (dkeys (build_targets s0))"
  shows "stable (bounded s0) (raises_ok (bounded s0)) (add_provider_internal env item)"
  unfolding add_provider_internal_def Let_def case_prod_beta
  by (intro stable_read stable_if stable_return stable_bind stable_then bounded_lift bounded_raise fire_bounded
      getRuntimeProviders_ends consider_message_bounded filter_providers_bounded add_eligible_bounded
      add_build_bounded assms) simp_all

lemma add_rprovider_bounded:
  assumes "item \<in> set (dkeys (run_targets s0))"
  shows "stable (bounded s0) (raises_ok (bounded s0)) (add_rprovider env item)"
  unfolding add_rprovider_def Let_def case_prod_beta
  by (intro stable_read stable_if stable_return stable_bind stable_then bounded_lift bounded_raise fire_bounded
      getRuntimeProviders_ends choosing_ends consider_message_bounded add_eligible_bounded
      add_run_bounded assms) simp_all

lemma resolve_bounded:
  "item \<in> set (dkeys (build_targets s0)) \<Longrightarrow> stable (bounded s0) (raises_ok (bounded s0)) (resolve_build env item)"
  "item \<in> set (dkeys (run_targets s0)) \<Longrightarrow> stable (bounded s0) (raises_ok (bounded s0)) (resolve_run env item)"
proof -
  note failing = failing_stable [OF grown_outline(2), unfolded stable_def]
  have raise: "triple (raises_ok (bounded s0) e) (mraise e) (\<lambda>_. bounded s0) (raises_ok (bounded s0))" for e
    by (rule triple_raise)
  have removed: "triple (raises_ok (bounded s0) e) (mthen m (mreturn 0)) (\<lambda>_. bounded s0) (raises_ok (bounded s0))"
    if "triple (bounded s0) m (\<lambda>_. bounded s0) (raises_ok (bounded s0))" for e and m :: "unit tdm"
    by (rule triple_then [OF triple_pre [OF that] triple_return]) (simp_all add: raises_ok_def)
  have zero: "triple (raises_ok (bounded s0) e) (mreturn 0) (\<lambda>_. bounded s0) (raises_ok (bounded s0))" for e
    by (rule triple_return) (simp add: raises_ok_def)
  show "stable (bounded s0) (raises_ok (bounded s0)) (resolve_build env item)" if "item \<in> set (dkeys (build_targets s0))"
    unfolding resolve_build_def stable_def
  proof (rule triple_catch)
    show "triple (bounded s0) (mthen (add_provider_internal env item) (mreturn 1)) (\<lambda>_. bounded s0) (raises_ok (bounded s0))"
      by (fold stable_def, intro stable_then stable_return add_provider_internal_bounded that)
    show "triple (raises_ok (bounded s0) e) (case e of
          NoProvider i \<Rightarrow> mread (\<lambda>s.
            if halt s \<and> item \<in> set (external_targets s) \<and> \<not> allowincomplete s then mraise e
            else if \<not> allowincomplete s then mthen (remove_buildtarget item) (mreturn 0)
            else mreturn 0)
        | _ \<Rightarrow> mraise e) (\<lambda>_. bounded s0) (raises_ok (bounded s0))" for e
      by (cases e) (auto intro!: triple_read_inv triple_if raise removed failing zero)
  qed
  show "stable (bounded s0) (raises_ok (bounded s0)) (resolve_run env item)" if "item \<in> set (dkeys (run_targets s0))"
    unfolding resolve_run_def stable_def
  proof (rule triple_catch)
    show "triple (bounded s0) (mthen (add_rprovider env item) (mreturn 1)) (\<lambda>_. bounded s0) (raises_ok (bounded s0))"
      by (fold stable_def, intro stable_then stable_return add_rprovider_bounded that)
    show "triple (raises_ok (bounded s0) e) (case e of
          NoRProvider i \<Rightarrow> mthen (remove_runtarget item) (mreturn 0)
        | MultipleRProvider i \<Rightarrow> mthen (remove_runtarget item) (mreturn 0)
        | _ \<Rightarrow> mraise e) (\<lambda>_. bounded s0) (raises_ok (bounded s0))" for e
      by (cases e) (auto intro!: raise removed failing)
  qed
qed

text \<open>A resolved target is settled: it has a provider or has failed.\<close>

lemma add_eligible_settles:
  assumes first: "\<And>fn s. ok {} K L s \<Longrightarrow> fn \<notin> set (failed_fns s) \<Longrightarrow> ok {} K' L' (add fn s)"
    and next': "\<And>fn s. ok {} K' L' s \<Longrightarrow> fn \<notin> set (failed_fns s) \<Longrightarrow> ok {} K' L' (add fn s)"
    and sub: "K \<subseteq> K'" "L \<subseteq> L'" and el: "el \<noteq> []" "hd el \<notin> F"
  shows "triple (\<lambda>s. ok {} K L s \<and> set (failed_fns s) = F) (add_eligible env add el) (\<lambda>_. ok {} K' L') (crash {} K L)"
proof -
  obtain f fs where fs: "el = f # fs" using el(1) by (cases el) auto
  have down: "triple P m (\<lambda>_. ok {} K' L') (crash {} K L)" if "triple P m (\<lambda>_. ok {} K' L') (crash {} K' L')" for P and m :: "unit tdm"
    by (rule triple_weaken [OF that]) (use sub in \<open>auto simp: crash_def elim: ok_mono\<close>)
  have "triple (\<lambda>s. ok {} K L s \<and> set (failed_fns s) = F) (mread (\<lambda>s. if f \<in> set (failed_fns s) then mreturn ()
         else mthen (mupd (add f)) (add_tasks env f))) (\<lambda>_. ok {} K' L') (crash {} K L)"
  proof (rule triple_read)
    fix t assume t: "ok {} K L t \<and> set (failed_fns t) = F"
    then have "f \<notin> set (failed_fns t)" using el(2) by (simp add: fs)
    then show "triple (\<lambda>s. s = t) (if f \<in> set (failed_fns t) then mreturn () else mthen (mupd (add f)) (add_tasks env f))
        (\<lambda>_. ok {} K' L') (crash {} K L)"
      using t first by (auto intro!: triple_then [OF triple_upd down [OF add_tasks_ok [unfolded stable_def]]])
  qed
  then show ?thesis
    using down [OF add_eligible_ok [where add = add and el = fs, OF next', unfolded stable_def]]
    unfolding add_eligible_def fs mfor.simps by (rule triple_then)
qed

lemma ok_add_settles:
  assumes "ok {} K L s" and "fn \<notin> set (failed_fns s)"
  shows "ok {} (insert item K) L (add_build_target fn item s)" and "ok {} K (insert item L) (add_runtime_target fn item s)"
  using assms by (auto simp: ok_def during_def providers_unfailed_def failure_closed_def settled_def
      add_build_target_def add_runtime_target_def base_def)

lemma consider_message_failed: "stable (\<lambda>s. set (failed_fns s) = F) R (consider_message item el r)"
  unfolding consider_message_def fire_def by (intro stable_read stable_then stable_if stable_return stable_upd) simp_all

lemma triple_both:
  "triple P m Q R \<Longrightarrow> triple P' m Q' R' \<Longrightarrow> triple (\<lambda>s. P s \<and> P' s) m (\<lambda>x s. Q x s \<and> Q' x s) (\<lambda>e s. R e s \<and> R' e s)"
  unfolding triple_def by (fastforce split: prod.splits sum.splits)

lemma messages_then_settled:
  assumes "triple (\<lambda>s. ok {} K L s \<and> set (failed_fns s) = set (failed_fns u)) n (\<lambda>_. ok {} K' L') (crash {} K L)"
    and u: "during fr (base {} K L) u"
  shows "triple (\<lambda>s. s = u) (mthen (if b then consider_message item el r else mreturn ()) n)
    (\<lambda>_. ok {} K' L') (unresolved fr K L)"
proof (rule triple_then)
  let ?F = "\<lambda>s. set (failed_fns s) = set (failed_fns u)"
  have "stable (\<lambda>s. during fr (base {} K L) s \<and> ?F s) (unresolved fr K L) (consider_message item el r)"
    unfolding stable_def
    by (rule triple_weaken [OF triple_both [where R = "\<lambda>_ _. False" and R' = "\<lambda>_ _. False",
          OF consider_message_during [unfolded stable_def] consider_message_failed [unfolded stable_def]]]) auto
  then have "stable (\<lambda>s. during fr (base {} K L) s \<and> ?F s) (unresolved fr K L) (if b then consider_message item el r else mreturn ())"
    by (intro stable_if stable_return)
  then show "triple (\<lambda>s. s = u) (if b then consider_message item el r else mreturn ()) (\<lambda>_ s. during fr (base {} K L) s \<and> ?F s)
      (unresolved fr K L)"
    unfolding stable_def by (rule triple_pre) (use u in simp)
  show "triple (\<lambda>s. during fr (base {} K L) s \<and> ?F s) n (\<lambda>_. ok {} K' L') (unresolved fr K L)"
    by (rule triple_weaken [OF assms(1)]) (auto simp: crash_def unresolved_def during_ok)
qed

lemma add_provider_internal_settles:
  assumes "\<And>s. frame_of s = fr \<Longrightarrow> \<not> re_match_strings env item (ignored_dependencies (td_cache s))"
  shows "triple (during fr (base {} K L)) (add_provider_internal env item) (\<lambda>_. ok {} (insert item K) L) (unresolved fr K L)"
  (is "triple ?D _ ?Q _")
proof -
  have missing: "triple (\<lambda>s. s = u) (mthen (fire ev) (mraise e)) ?Q (unresolved fr K L)" if "?D u" for ev e u
    by (rule triple_pre [where P' = ?D], rule triple_then [OF fire_during [unfolded stable_def] triple_raise])
      (use that in \<open>auto simp: unresolved_def intro: during_ok\<close>)
  have add: "triple (\<lambda>s. s = u) (let eligible = filter (\<lambda>p. p \<notin> set (failed_fns u)) el in
         if eligible = [] then mthen (fire (ev u)) (mraise (NoProvider item))
         else mthen (if length eligible > 1 \<and> \<not> unique then consider_message item eligible False else mreturn ())
           (add_eligible env (\<lambda>fn. add_build_target fn item) eligible)) ?Q (unresolved fr K L)" if u: "?D u" for u el unique ev
    unfolding Let_def
  proof (rule triple_if)
    show "triple (\<lambda>s. s = u) (mthen (fire (ev u)) (mraise (NoProvider item))) ?Q (unresolved fr K L)" by (rule missing [OF u])
    let ?el = "filter (\<lambda>p. p \<notin> set (failed_fns u)) el"
    assume ne: "?el \<noteq> []"
    then have "hd ?el \<notin> set (failed_fns u)" using hd_in_set [OF ne] by simp
    then show "triple (\<lambda>s. s = u) (mthen (if length ?el > 1 \<and> \<not> unique then consider_message item ?el False else mreturn ())
           (add_eligible env (\<lambda>fn. add_build_target fn item) ?el)) ?Q (unresolved fr K L)"
      using ne u by (intro messages_then_settled add_eligible_settles)
        (auto intro: ok_add_settles ok_add)
  qed
  show ?thesis
    unfolding add_provider_internal_def
  proof (rule triple_read)
    fix t assume t: "?D t"
    then have ni: "\<not> re_match_strings env item (ignored_dependencies (td_cache t))"
      using assms [of t] by (simp add: during_def)
    have filt: "triple ?D (mbind (filter_providers env item) (\<lambda>(eligible, foundUnique). mread (\<lambda>s.
         let eligible = filter (\<lambda>p. p \<notin> set (failed_fns s)) eligible in
         if eligible = [] then
           mthen (fire (NoProviderEvent item False (get_dependees s item)
               [''No eligible PROVIDERs exist for '' @ item]))
             (mraise (NoProvider item))
         else mthen (if length eligible > 1 \<and> \<not> foundUnique
                     then consider_message item eligible False else mreturn ())
           (add_eligible env (\<lambda>fn. add_build_target fn item) eligible)))) ?Q (unresolved fr K L)"
    proof (rule triple_bind [where S = "\<lambda>_. ?D"])
      show "triple ?D (filter_providers env item) (\<lambda>_. ?D) (unresolved fr K L)"
        by (rule triple_weaken [OF filter_providers_during [unfolded stable_def]]) (auto simp: unresolved_def during_ok)
    qed (auto intro!: triple_read add [where ev = "\<lambda>s. NoProviderEvent item False (get_dependees s item)
               [''No eligible PROVIDERs exist for '' @ item]"])
    have lift: "triple (\<lambda>s. s = t) (mbind (mlift r) (\<lambda>_. mthen (fire ev) (mraise e))) ?Q (unresolved fr K L)"
      for r :: "string list res" and ev e
      by (rule triple_bind [OF triple_lift [where Q = "\<lambda>_ s. s = t"] missing [OF t]])
        (use t in \<open>auto simp: unresolved_def intro: during_ok\<close>)
    have here: "ok {} (insert item K) L t" if "have_build_target t item"
      using settled_now [OF t, of "{item}" "{}"] that during_ok by (auto simp: have_build_target_def)
    show "triple (\<lambda>s. s = t) (if re_match_strings env item (ignored_dependencies (td_cache t)) then mreturn ()
       else if \<not> has_key (providers (td_cache t)) item then
         mbind (mlift (getRuntimeProviders (env_compile env) (td_cache t) item)) (\<lambda>_.
         mthen (fire (NoProviderEvent item False (get_dependees t item) (get_reasons t item False)))
           (mraise (NoProvider item)))
       else if have_build_target t item then mreturn ()
       else mbind (filter_providers env item) (\<lambda>(eligible, foundUnique). mread (\<lambda>s.
         let eligible = filter (\<lambda>p. p \<notin> set (failed_fns s)) eligible in
         if eligible = [] then
           mthen (fire (NoProviderEvent item False (get_dependees s item)
               [''No eligible PROVIDERs exist for '' @ item]))
             (mraise (NoProvider item))
         else mthen (if length eligible > 1 \<and> \<not> foundUnique
                     then consider_message item eligible False else mreturn ())
           (add_eligible env (\<lambda>fn. add_build_target fn item) eligible)))) ?Q (unresolved fr K L)"
      using ni t here by (intro triple_if triple_return lift triple_pre [OF filt]) auto
  qed
qed

lemma add_rprovider_settles:
  assumes "\<And>s. frame_of s = fr \<Longrightarrow> \<not> re_match_strings env item (ignored_dependencies (td_cache s))"
  shows "triple (during fr (base {} K L)) (add_rprovider env item) (\<lambda>_. ok {} K (insert item L)) (unresolved fr K L)"
  (is "triple ?D _ ?Q _")
  unfolding add_rprovider_def
proof (rule triple_read)
  fix t assume t: "?D t"
  then have ni: "\<not> re_match_strings env item (ignored_dependencies (td_cache t))"
    using assms [of t] by (simp add: during_def)
  have here: "ok {} K (insert item L) t" if "have_runtime_target t item"
    using settled_now [OF t, of "{}" "{item}"] that during_ok by (auto simp: have_runtime_target_def)
  have missing: "triple (\<lambda>s. s = t) (mthen (fire ev) (mraise e)) ?Q (unresolved fr K L)" for ev e
    by (rule triple_pre [where P' = ?D], rule triple_then [OF fire_during [unfolded stable_def] triple_raise])
      (use t in \<open>auto simp: unresolved_def intro: during_ok\<close>)
  have many: "triple (\<lambda>s. s = t) (mthen (consider_message item el True) (mraise e)) ?Q (unresolved fr K L)" for el e
    by (rule triple_pre [where P' = ?D], rule triple_then [OF consider_message_during [unfolded stable_def] triple_raise])
      (use t in \<open>auto simp: unresolved_def intro: during_ok\<close>)
  have twice: "triple (\<lambda>s. s = t) (mthen (if b then consider_message item el True else mreturn ())
      (mthen (consider_message item el True) (mraise e))) ?Q (unresolved fr K L)" for b el e
  proof (rule triple_pre [where P' = ?D], rule triple_then [where S = ?D])
    show "triple ?D (if b then consider_message item el True else mreturn ()) (\<lambda>_. ?D) (unresolved fr K L)"
      by (fold stable_def, intro stable_if stable_return consider_message_during)
    show "triple ?D (mthen (consider_message item el True) (mraise e)) ?Q (unresolved fr K L)"
      by (rule triple_then [OF consider_message_during [unfolded stable_def] triple_raise])
        (auto simp: unresolved_def intro: during_ok)
  qed (simp add: t)
  have add: "triple (\<lambda>s. s = t) (mthen (if b then consider_message item el True else mreturn ())
           (add_eligible env (\<lambda>fn. add_runtime_target fn item) el)) ?Q (unresolved fr K L)"
    if "el \<noteq> []" and "set el \<inter> set (failed_fns t) = {}" for b el
  proof -
    have "hd el \<notin> set (failed_fns t)" using hd_in_set [OF that(1)] that(2) by auto
    then show ?thesis
      using that t by (intro messages_then_settled add_eligible_settles) (auto intro: ok_add_settles ok_add)
  qed
  have branch: "triple P (mthen m (if c then n else n')) Q R" if "c \<Longrightarrow> triple P (mthen m n) Q R" "\<not> c \<Longrightarrow> triple P (mthen m n') Q R"
    for c P Q R and m n n' :: "unit tdm"
    using that by simp
  have lift: "triple (\<lambda>s. s = t) (mbind (mlift r) f) ?Q (unresolved fr K L)"
    if "\<And>x. triple (\<lambda>s. s = t) (f x) ?Q (unresolved fr K L)" for r :: "'x res" and f :: "'x \<Rightarrow> unit tdm"
    by (rule triple_bind [OF triple_lift [where Q = "\<lambda>_ s. s = t"] that])
      (use t in \<open>auto simp: unresolved_def intro: during_ok\<close>)
  show "triple (\<lambda>s. s = t) (if re_match_strings env item (ignored_dependencies (td_cache t)) then mreturn ()
       else if have_runtime_target t item then mreturn ()
       else mbind (mlift (getRuntimeProviders (env_compile env) (td_cache t) item)) (\<lambda>all_p.
         if all_p = [] then
           mthen (fire (NoProviderEvent item True (get_rdependees t item) (get_reasons t item True)))
             (mraise (NoRProvider item))
         else mbind (mlift (filterProvidersRunTime all_p item (env_getVar env) (td_cache t)))
           (\<lambda>(eligible, numberPreferred).
             let eligible = filter (\<lambda>p. p \<notin> set (failed_fns t)) eligible in
             if eligible = [] then
               mthen (fire (NoProviderEvent item True (get_rdependees t item)
                   [''No eligible RPROVIDERs exist for '' @ item]))
                 (mraise (NoRProvider item))
             else mthen (if length eligible > 1 \<and> numberPreferred = 0
                         then consider_message item eligible True else mreturn ())
              (if numberPreferred > 1
               then mthen (consider_message item eligible True) (mraise (MultipleRProvider item))
               else add_eligible env (\<lambda>fn. add_runtime_target fn item) eligible)))) ?Q (unresolved fr K L)"
    unfolding Let_def case_prod_beta
    by (intro triple_if lift missing branch twice add triple_return) (use ni here in auto)
qed

lemma resolve_build_settles:
  assumes "fr = (dp, rdp, False, False, rest)"
    and "\<And>s. frame_of s = fr \<Longrightarrow> \<not> re_match_strings env t (ignored_dependencies (td_cache s))"
  shows "triple (during fr (base {} K L)) (resolve_build env t) (\<lambda>_. ok {} (insert t K) L) (\<lambda>_. ok {} K L)"
  unfolding resolve_build_def
proof (rule triple_catch)
  show "triple (during fr (base {} K L)) (mthen (add_provider_internal env t) (mreturn 1)) (\<lambda>_. ok {} (insert t K) L) (unresolved fr K L)"
    by (rule triple_then [OF add_provider_internal_settles [OF assms(2)] triple_return])
  fix e
  note rem = remove_buildtarget_top [of fr "base {} K L" t, unfolded base_insert base_sel]
  have "triple (unresolved fr K L (NoProvider i)) (mthen (remove_buildtarget t) (mreturn 0)) (\<lambda>_. ok {} (insert t K) L) (\<lambda>_. ok {} K L)" for i
    by (rule triple_then [OF triple_weaken [OF rem] triple_return]) (auto simp: unresolved_def during_ok)
  then have "triple (unresolved fr K L (NoProvider i)) (mread (\<lambda>s.
            if halt s \<and> t \<in> set (external_targets s) \<and> \<not> allowincomplete s then mraise (NoProvider i)
            else if \<not> allowincomplete s then mthen (remove_buildtarget t) (mreturn 0) else mreturn 0))
      (\<lambda>_. ok {} (insert t K) L) (\<lambda>_. ok {} K L)" for i
    using assms(1) by (intro triple_read_inv triple_if) (auto simp: unresolved_def during_def frame_of_def)
  then show "triple (unresolved fr K L e) (case e of
          NoProvider i \<Rightarrow> mread (\<lambda>s.
            if halt s \<and> t \<in> set (external_targets s) \<and> \<not> allowincomplete s then mraise e
            else if \<not> allowincomplete s then mthen (remove_buildtarget t) (mreturn 0)
            else mreturn 0)
        | _ \<Rightarrow> mraise e) (\<lambda>_. ok {} (insert t K) L) (\<lambda>_. ok {} K L)"
    by (cases e) (auto simp: unresolved_def intro!: triple_raise)
qed

lemma resolve_run_settles:
  assumes "\<And>s. frame_of s = fr \<Longrightarrow> \<not> re_match_strings env t (ignored_dependencies (td_cache s))"
  shows "triple (during fr (base {} K L)) (resolve_run env t) (\<lambda>_. ok {} K (insert t L)) (\<lambda>_. ok {} K L)"
  unfolding resolve_run_def
proof (rule triple_catch)
  show "triple (during fr (base {} K L)) (mthen (add_rprovider env t) (mreturn 1)) (\<lambda>_. ok {} K (insert t L)) (unresolved fr K L)"
    by (rule triple_then [OF add_rprovider_settles [OF assms] triple_return])
  fix e
  note rem = remove_runtarget_top [of fr "base {} K L" t, unfolded base_insert base_sel]
  have "triple (unresolved fr K L e) (mthen (remove_runtarget t) (mreturn 0)) (\<lambda>_. ok {} K (insert t L)) (\<lambda>_. ok {} K L)"
    if "caught e"
    by (rule triple_then [OF triple_weaken [OF rem] triple_return]) (use that in \<open>auto simp: unresolved_def during_ok\<close>)
  moreover have "triple (unresolved fr K L e) (mraise e) (\<lambda>_. ok {} K (insert t L)) (\<lambda>_. ok {} K L)"
    by (rule triple_raise) (simp add: unresolved_def)
  ultimately show "triple (unresolved fr K L e) (case e of
          NoRProvider i \<Rightarrow> mthen (remove_runtarget t) (mreturn 0)
        | MultipleRProvider i \<Rightarrow> mthen (remove_runtarget t) (mreturn 0)
        | _ \<Rightarrow> mraise e) (\<lambda>_. ok {} K (insert t L)) (\<lambda>_. ok {} K L)"
    by (cases e) simp_all
qed

lemma ok_frame:
  assumes "ok {} K L s"
  shows "during (frame_of s) (base {} K L) s"
    "frame_of s = (depids s, rdepids s, False, allowincomplete s, snd (snd (snd (snd (frame_of s)))))"
    "frame_of u = frame_of s \<Longrightarrow> ignored_dependencies (td_cache u) = ignored_dependencies (td_cache s)"
  using assms by (auto simp: ok_def during_def frame_of_def)

lemma resolve_build_each:
  assumes "\<not> allowincomplete s0" and "x \<in> set (dkeys (build_targets s0))"
    and ni: "\<not> re_match_strings env x (ignored_dependencies (td_cache s0))"
  shows "triple (\<lambda>s. ok {} K L s \<and> bounded s0 s) (resolve_build env x)
    (\<lambda>_ s. ok {} (insert x K) L s \<and> bounded s0 s) (\<lambda>e _. e \<noteq> OutOfFuel)"
  unfolding triple_def
proof (intro allI impI)
  fix s assume s: "ok {} K L s \<and> bounded s0 s"
  then have ig: "ignored_dependencies (td_cache s) = ignored_dependencies (td_cache s0)" and ai: "allowincomplete s = False"
    using assms(1) by (auto simp: bounded_def since_def)
  have "frame_of s = (depids s, rdepids s, False, False, snd (snd (snd (snd (frame_of s)))))"
    using ok_frame(2) [OF conjunct1 [OF s]] unfolding ai .
  moreover have "\<not> re_match_strings env x (ignored_dependencies (td_cache u))" if "frame_of u = frame_of s" for u
    using ok_frame(3) [OF conjunct1 [OF s] that] ni ig by simp
  ultimately have tr: "triple (during (frame_of s) (base {} K L)) (resolve_build env x) (\<lambda>_. ok {} (insert x K) L) (\<lambda>_. ok {} K L)"
    by (rule resolve_build_settles)
  show "case resolve_build env x s of (Inr n, t) \<Rightarrow> ok {} (insert x K) L t \<and> bounded s0 t | (Inl e, t) \<Rightarrow> e \<noteq> OutOfFuel"
    using tripleD [OF tr, OF ok_frame(1) [OF conjunct1 [OF s]]]
      tripleD [OF resolve_bounded(1) [OF assms(2), unfolded stable_def], OF conjunct2 [OF s]]
    by (cases "resolve_build env x s"; cases "fst (resolve_build env x s)") (auto simp: raises_ok_def)
qed

lemma resolve_run_each:
  assumes "x \<in> set (dkeys (run_targets s0))"
    and ni: "\<not> re_match_strings env x (ignored_dependencies (td_cache s0))"
  shows "triple (\<lambda>s. ok {} K L s \<and> bounded s0 s) (resolve_run env x)
    (\<lambda>_ s. ok {} K (insert x L) s \<and> bounded s0 s) (\<lambda>e _. e \<noteq> OutOfFuel)"
  unfolding triple_def
proof (intro allI impI)
  fix s assume s: "ok {} K L s \<and> bounded s0 s"
  then have ig: "ignored_dependencies (td_cache s) = ignored_dependencies (td_cache s0)"
    by (auto simp: bounded_def since_def)
  have "\<not> re_match_strings env x (ignored_dependencies (td_cache u))" if "frame_of u = frame_of s" for u
    using ok_frame(3) [OF conjunct1 [OF s] that] ni ig by simp
  then have tr: "triple (during (frame_of s) (base {} K L)) (resolve_run env x) (\<lambda>_. ok {} K (insert x L)) (\<lambda>_. ok {} K L)"
    by (rule resolve_run_settles)
  show "case resolve_run env x s of (Inr n, t) \<Rightarrow> ok {} K (insert x L) t \<and> bounded s0 t | (Inl e, t) \<Rightarrow> e \<noteq> OutOfFuel"
    using tripleD [OF tr, OF ok_frame(1) [OF conjunct1 [OF s]]]
      tripleD [OF resolve_bounded(2) [OF assms(1), unfolded stable_def], OF conjunct2 [OF s]]
    by (cases "resolve_run env x s"; cases "fst (resolve_run env x s)") (auto simp: raises_ok_def)
qed

lemma msum_each:
  assumes "\<And>x A. x \<in> set xs \<Longrightarrow> triple (P A) (f x) (\<lambda>_. P (insert x A)) R"
  shows "triple (P A) (msum f xs) (\<lambda>_. P (set xs \<union> A)) R"
  using assms
proof (induction xs arbitrary: A)
  case Nil
  then show ?case by (simp add: triple_return)
next
  case (Cons x xs)
  have "triple (P (insert x A)) (msum f xs) (\<lambda>_. P (set (x # xs) \<union> A)) R"
    using Cons.IH [of "insert x A"] Cons.prems by simp
  then show ?case
    unfolding msum.simps by (intro triple_bind [OF Cons.prems] triple_bind [where S = "\<lambda>_. P (set (x # xs) \<union> A)"] triple_return) auto
qed

text \<open>A round of resolution settles every target that was open, so that only a newly added file opens others.\<close>

lemma settled_ok:
  assumes "ok {} K L s"
  shows "ok {} (K \<union> {u. bt s u \<noteq> {} \<or> u \<in> set (failed_deps s)}) (L \<union> {u. rt s u \<noteq> {} \<or> u \<in> set (failed_rdeps s)}) s"
  by (rule during_ok [OF settled_now [OF ok_frame(1) [OF assms]]]) auto

lemma open_builds:
  assumes "ok {} K L s" and "set (dkeys (build_targets s)) \<subseteq> {t. re_match_strings env t (ignored_dependencies (td_cache s))} \<union> K"
  shows "get_unresolved_build_targets env s = []"
  by (rule complete_from_settled(1) [OF ok_frame(1) [OF assms(1)] assms(2)])

lemma open_runs:
  assumes "ok {} K L s" and "set (dkeys (run_targets s)) \<subseteq> {t. re_match_strings env t (ignored_dependencies (td_cache s))} \<union> L"
  shows "get_unresolved_run_targets env s = []"
  by (rule complete_from_settled(2) [OF ok_frame(1) [OF assms(1)] assms(2)])

lemma open_covered:
  "set (dkeys (build_targets s)) \<subseteq> {t. re_match_strings env t (ignored_dependencies (td_cache s))} \<union>
     (set (get_unresolved_build_targets env s) \<union> {u. bt s u \<noteq> {} \<or> u \<in> set (failed_deps s)})"
  "set (dkeys (run_targets s)) \<subseteq> {t. re_match_strings env t (ignored_dependencies (td_cache s))} \<union>
     (set (get_unresolved_run_targets env s) \<union> {u. rt s u \<noteq> {} \<or> u \<in> set (failed_rdeps s)})"
  by (auto simp: get_unresolved_build_targets_def get_unresolved_run_targets_def)

lemma resolve_sweep_settles:
  assumes s: "ok {} {} {} s" "\<not> allowincomplete s" and sweep: "resolve_sweep env s = (r, s')"
  shows "r \<noteq> Inl OutOfFuel \<and> (\<forall>n. r = Inr n \<longrightarrow> since s s' \<and>
     (grown s s' \<or> get_unresolved_build_targets env s' = [] \<and> get_unresolved_run_targets env s' = []))"
proof -
  let ?us = "get_unresolved_build_targets env s" and ?K = "{u. bt s u \<noteq> {} \<or> u \<in> set (failed_deps s)}"
  obtain q t where b: "msum (resolve_build env) ?us s = (q, t)" by fastforce
  have ok_s: "ok {} ?K {} s" using settled_ok [OF s(1)] by (rule ok_mono) auto
  have tr: "triple (\<lambda>s'. ok {} ?K {} s' \<and> bounded s s') (msum (resolve_build env) ?us)
      (\<lambda>_ s'. ok {} (set ?us \<union> ?K) {} s' \<and> bounded s s') (\<lambda>e _. e \<noteq> OutOfFuel)"
    by (rule msum_each [where P = "\<lambda>K s'. ok {} K {} s' \<and> bounded s s'"], rule resolve_build_each [OF s(2)])
      (simp_all add: get_unresolved_build_targets_def)
  have t: "q \<noteq> Inl OutOfFuel" "q = Inr n \<Longrightarrow> ok {} (set ?us \<union> ?K) {} t \<and> bounded s t" for n
    using tripleD [OF tr, OF conjI [OF ok_s bounded_refl]] b by blast+
  show ?thesis
  proof (cases q)
    case (Inl e)
    then show ?thesis using t(1) sweep b by (auto simp: resolve_sweep_def mbind_def mread_def)
  next
    case (Inr n)
    then have ok_t: "ok {} (set ?us \<union> ?K) {} t" and st: "bounded s t" using t(2) by auto
    let ?vs = "get_unresolved_run_targets env t" and ?L = "{u. rt t u \<noteq> {} \<or> u \<in> set (failed_rdeps t)}"
    obtain p u where c: "msum (resolve_run env) ?vs t = (p, u)" by fastforce
    have ok_t': "ok {} (set ?us \<union> ?K) ?L t" using settled_ok [OF ok_t] by (rule ok_mono) auto
    have tr': "triple (\<lambda>s'. ok {} (set ?us \<union> ?K) ?L s' \<and> bounded t s') (msum (resolve_run env) ?vs)
        (\<lambda>_ s'. ok {} (set ?us \<union> ?K) (set ?vs \<union> ?L) s' \<and> bounded t s') (\<lambda>e _. e \<noteq> OutOfFuel)"
      by (rule msum_each [where P = "\<lambda>L s'. ok {} (set ?us \<union> ?K) L s' \<and> bounded t s'"], rule resolve_run_each)
        (simp_all add: get_unresolved_run_targets_def)
    have u: "p \<noteq> Inl OutOfFuel" "p = Inr m \<Longrightarrow> ok {} (set ?us \<union> ?K) (set ?vs \<union> ?L) u \<and> bounded t u" for m
      using tripleD [OF tr', OF conjI [OF ok_t' bounded_refl]] c by blast+
    show ?thesis
    proof (cases p)
      case (Inl e)
      then show ?thesis using u(1) sweep b c Inr by (auto simp: resolve_sweep_def mbind_def mread_def)
    next
      case p: (Inr m)
      then have ok_u: "ok {} (set ?us \<union> ?K) (set ?vs \<union> ?L) u" and tu: "bounded t u" using u(2) by auto
      have su: "bounded s u" by (rule bounded_trans [OF st tu])
      have r: "r = Inr (n + m)" "s' = u" using sweep b c Inr p by (auto simp: resolve_sweep_def mbind_def mread_def mreturn_def)
      have "get_unresolved_build_targets env u = [] \<and> get_unresolved_run_targets env u = []" if "\<not> grown s u"
      proof -
        have ng: "\<not> grown t u" using that st grown_trans(2) by (auto simp: bounded_def)
        have ig: "ignored_dependencies (td_cache u) = ignored_dependencies (td_cache s)"
          "ignored_dependencies (td_cache u) = ignored_dependencies (td_cache t)"
          using su tu by (auto simp: bounded_def since_def)
        have keys: "set (dkeys (build_targets u)) \<subseteq> set (dkeys (build_targets s))" "set (dkeys (run_targets u)) \<subseteq> set (dkeys (run_targets t))"
          using that ng su tu by (simp_all add: bounded_def)
        show ?thesis
        proof
          show "get_unresolved_build_targets env u = []"
            using order_trans [OF keys(1) open_covered(1) [of s env]] unfolding ig(1) [symmetric] by (rule open_builds [OF ok_u])
          show "get_unresolved_run_targets env u = []"
            using order_trans [OF keys(2) open_covered(2) [of t env]] unfolding ig(2) [symmetric] by (rule open_runs [OF ok_u])
        qed
      qed
      then show ?thesis using su by (auto simp: r bounded_def)
    qed
  qed
qed

definition unseen_files :: "taskdata \<Rightarrow> nat" where
  "unseen_files s = card (set (dkeys (task_deps (td_cache s))) - set (seenfns s))"

lemma grown_unseen: "grown s s' \<Longrightarrow> unseen_files s' < unseen_files s"
  unfolding unseen_files_def by (rule psubset_card_mono) (auto simp: grown_def since_def)

lemma add_unresolved_done:
  assumes "get_unresolved_build_targets env s = []" and "get_unresolved_run_targets env s = []"
  shows "add_unresolved (Suc n) env s = (Inr (), s)"
  using assms by (simp add: resolve_sweep_def mbind_def mread_def mreturn_def)

lemma add_unresolved_ends:
  assumes "ok {} {} {} s" and "\<not> allowincomplete s" and "unseen_files s + 2 \<le> n" and "add_unresolved n env s = (r, s')"
  shows "r \<noteq> Inl OutOfFuel \<and> (r = Inr () \<longrightarrow> \<not> allowincomplete s')"
  using assms
proof (induction n arbitrary: s)
  case 0
  then show ?case by simp
next
  case (Suc n)
  obtain q t where q: "resolve_sweep env s = (q, t)" by fastforce
  note sw = resolve_sweep_settles [OF Suc.prems(1,2) q]
  show ?case
  proof (cases q)
    case (Inl e)
    then show ?thesis using sw q Suc.prems(4) by (auto simp: mbind_def)
  next
    case (Inr added)
    have t: "ok {} {} {} t" "\<not> allowincomplete t"
      using tripleD(1) [OF resolve_sweep_ok, OF Suc.prems(1)] q sw Suc.prems(2) Inr by (auto simp: sweep_done_def since_def)
    show ?thesis
    proof (cases "added = 0")
      case True
      then show ?thesis using q Inr Suc.prems(4) t(2) by (auto simp: mbind_def mreturn_def)
    next
      case False
      then have rest: "add_unresolved n env t = (r, s')" using q Inr Suc.prems(4) by (simp add: mbind_def)
      show ?thesis
      proof (cases "grown s t")
        case True
        then show ?thesis using grown_unseen [OF True] Suc.prems(3) Suc.IH [OF t _ rest] by simp
      next
        case False
        then have "get_unresolved_build_targets env t = []" "get_unresolved_run_targets env t = []" using sw Inr by auto
        moreover obtain k where "n = Suc k" using Suc.prems(3) by (cases n) auto
        ultimately show ?thesis using rest add_unresolved_done [of env t k] t(2) by simp
      qed
    qed
  qed
qed

text \<open>C40: resolution that goes on after failures (halting is off, as with \<open>--continue\<close>) and must be complete
  (incomplete resolution is not allowed) ends: from consistent task data, after at most two rounds more
  than there are recipe files with tasks, \<open>add_unresolved\<close> returns or raises an error of the metadata. The
  task data is then consistent whatever happened; and when it returned, every build and run-time item
  that was ever asked for has a provider, has failed, or is ignored by configuration.\<close>

theorem add_unresolved_complete:
  assumes "\<not> halt s" and "td_ok s" and "\<not> allowincomplete s"
    and "length (task_deps (td_cache s)) + 2 \<le> n" and "add_unresolved n env s = (r, s')"
  shows "r \<noteq> Inl OutOfFuel \<and> td_ok s' \<and> \<not> halt s' \<and>
    (r = Inr () \<longrightarrow> get_unresolved_build_targets env s' = [] \<and> get_unresolved_run_targets env s' = [])"
proof -
  have s: "ok {} {} {} s" using assms(1,2) by (simp add: td_ok_iff)
  have "unseen_files s \<le> card (set (dkeys (task_deps (td_cache s))))"
    unfolding unseen_files_def by (rule card_mono) auto
  then have "unseen_files s + 2 \<le> n" using card_length [of "dkeys (task_deps (td_cache s))"] assms(4) by (simp add: dkeys_def)
  note ends = add_unresolved_ends [OF s assms(3) this assms(5)]
  have "ok {} {} {} s' \<and> (r = Inr () \<longrightarrow> sweep_done env 0 s')"
    using tripleD [OF add_unresolved_ok s, of n env] assms(5)
    by (cases r) (auto simp: sweep_done_def)
  then show ?thesis using ends by (auto simp: td_ok_iff sweep_done_def)
qed

lemma add_unresolved_complete_witness:
  "\<exists>s'. add_unresolved 9 sample_env sample_unresolved = (Inr (), s') \<and> td_ok s' \<and>
    get_unresolved_build_targets sample_env s' = [] \<and> failed_deps s' = [''z'', ''a'']"
proof -
  obtain r s' where s': "add_unresolved 9 sample_env sample_unresolved = (r, s')"
    by (cases "add_unresolved 9 sample_env sample_unresolved")
  have "fst (add_unresolved 9 sample_env sample_unresolved) = Inr () \<and>
      failed_deps (snd (add_unresolved 9 sample_env sample_unresolved)) = [''z'', ''a'']"
    by code_simp
  moreover have "\<not> allowincomplete sample_unresolved \<and> length (task_deps (td_cache sample_unresolved)) + 2 \<le> 9"
    by code_simp
  ultimately show ?thesis
    using s' add_unresolved_complete [OF _ _ _ _ s'] sample_unresolved_ok by simp
qed

end
