(* ===== verification/Tid.thy ===== *)
theory Tid
  imports PyString
begin

text \<open>
  Task identifiers, from the head of \<open>bb/runqueue.py\<close>: \<open>file:task\<close>, or \<open>mc:config:file:task\<close> for a
  task of a named configuration. The file part may itself contain colons.
\<close>

definition fn_from_tid :: "string \<Rightarrow> string" where
  "fn_from_tid tid = (case rsplit1 CHR '':'' tid of None \<Rightarrow> tid | Some (fn, task) \<Rightarrow> fn)"

definition taskname_from_tid :: "string \<Rightarrow> string res" where
  "taskname_from_tid tid = (case rsplit1 CHR '':'' tid of None \<Rightarrow> Inl IndexError | Some (fn, task) \<Rightarrow> Inr task)"

text \<open>\<open>tid.startswith('mc:') and tid.count(':') >= 2\<close>\<close>

definition is_mc :: "string \<Rightarrow> bool" where
  "is_mc tid \<longleftrightarrow> prefix ''mc:'' tid \<and> count_char CHR '':'' tid \<ge> 2"

definition mc_from_tid :: "string \<Rightarrow> string" where
  "mc_from_tid tid = (if is_mc tid then split_on CHR '':'' tid ! 1 else [])"

text \<open>\<open>n.split(":", 2)\<close> splits at the first two colons only.\<close>

definition split_mc :: "string \<Rightarrow> string \<times> string" where
  "split_mc n =
     (if is_mc n then (split_on CHR '':'' n ! 1, join '':'' (drop 2 (split_on CHR '':'' n))) else ([], n))"

definition split_tid_mcfn :: "string \<Rightarrow> (string \<times> string \<times> string \<times> string) res" where
  "split_tid_mcfn tid =
     (if is_mc tid then
        let elems = split_on CHR '':'' tid;
            mc = elems ! 1;
            fn = join '':'' (butlast (drop 2 elems));
            taskname = last elems
        in Inr (mc, fn, taskname, ''mc:'' @ mc @ '':'' @ fn)
      else case rsplit1 CHR '':'' tid of
             None \<Rightarrow> Inl IndexError
           | Some (fn, taskname) \<Rightarrow> Inr ([], fn, taskname, fn))"

definition split_tid :: "string \<Rightarrow> (string \<times> string \<times> string) res" where
  "split_tid tid = rbind (split_tid_mcfn tid) (\<lambda>(mc, fn, taskname, mcfn). Inr (mc, fn, taskname))"

definition build_tid :: "string \<Rightarrow> string \<Rightarrow> string \<Rightarrow> string" where
  "build_tid mc fn taskname =
     (if mc \<noteq> [] then ''mc:'' @ mc @ '':'' @ fn @ '':'' @ taskname else fn @ '':'' @ taskname)"

section \<open>Round trips\<close>

text \<open>The name a recipe file has in the tables: with its configuration in front, if it has one.\<close>

definition mc_fn :: "string \<Rightarrow> string \<Rightarrow> string" where
  "mc_fn mc fn = (if mc = [] then fn else ''mc:'' @ mc @ '':'' @ fn)"

lemma count_colon_append [simp]: "count_char c (s @ t) = count_char c s + count_char c t"
  by (simp add: count_char_def)

lemma count_colon_Cons [simp]: "count_char c (x # s) = (if x = c then 1 else 0) + count_char c s"
  by (simp add: count_char_def)

lemma split_mc_prefix:
  assumes "CHR '':'' \<notin> set mc"
  shows "split_on CHR '':'' (''mc:'' @ mc @ '':'' @ s) = ''mc'' # mc # split_on CHR '':'' s"
  using assms split_on_append [of "CHR '':''" mc s] by (simp add: split_on_free)

lemma is_mc_prefix [simp]: "is_mc (''mc:'' @ mc @ '':'' @ s)"
  by (simp add: is_mc_def)

lemma split_on_last:
  assumes "CHR '':'' \<notin> set task"
  shows "split_on CHR '':'' (fn @ '':'' @ task) = split_on CHR '':'' fn @ [task]"
  using assms split_on_append [of "CHR '':''" fn task] by (simp add: split_on_free)

lemma mc_tid_eq: "''mc:'' @ mc @ '':'' @ fn @ '':'' @ task = (''mc:'' @ mc @ '':'' @ fn) @ '':'' @ task"
  by simp

text \<open>Splitting a task identifier gives back the configuration, file and task it was built from,
  also when the file name itself contains colons (as virtual recipe files do).\<close>

theorem split_build_tid:
  assumes "CHR '':'' \<notin> set taskname" and "CHR '':'' \<notin> set mc"
    and "mc = [] \<Longrightarrow> \<not> is_mc (fn @ '':'' @ taskname)"
  shows "split_tid_mcfn (build_tid mc fn taskname) = Inr (mc, fn, taskname, mc_fn mc fn)
    \<and> mc_from_tid (build_tid mc fn taskname) = mc
    \<and> fn_from_tid (build_tid mc fn taskname) = mc_fn mc fn
    \<and> taskname_from_tid (build_tid mc fn taskname) = Inr taskname"
proof (cases "mc = []")
  case True
  have r: "rsplit1 CHR '':'' (fn @ '':'' @ taskname) = Some (fn, taskname)"
    using rsplit1_append [OF assms(1), of fn] by simp
  show ?thesis using True r assms(3)
    by (simp add: build_tid_def split_tid_mcfn_def mc_from_tid_def fn_from_tid_def
        taskname_from_tid_def mc_fn_def del: append_Cons)
next
  case False
  have r: "rsplit1 CHR '':'' (''mc:'' @ mc @ '':'' @ fn @ '':'' @ taskname) =
      Some (''mc:'' @ mc @ '':'' @ fn, taskname)"
    using rsplit1_append [OF assms(1), of "''mc:'' @ mc @ '':'' @ fn"] by simp
  have "split_on CHR '':'' (''mc:'' @ mc @ '':'' @ fn @ '':'' @ taskname) =
      ''mc'' # mc # (split_on CHR '':'' fn @ [taskname])"
    using split_mc_prefix [OF assms(2), of "fn @ '':'' @ taskname"] split_on_last [OF assms(1)] by simp
  then show ?thesis using False r is_mc_prefix [of mc "fn @ '':'' @ taskname"]
    by (simp add: build_tid_def split_tid_mcfn_def mc_from_tid_def fn_from_tid_def Let_def
        taskname_from_tid_def mc_fn_def join_split_on del: is_mc_prefix)
qed

lemma split_build_tid_witness:
  "split_tid_mcfn (build_tid ''arm'' ''virtual:native:/r/m4.bb'' ''do_build'') =
    Inr (''arm'', ''virtual:native:/r/m4.bb'', ''do_build'', ''mc:arm:virtual:native:/r/m4.bb'')"
  using split_build_tid [of "''do_build''" "''arm''" "''virtual:native:/r/m4.bb''"]
  by (simp add: mc_fn_def)

text \<open>Conversely an identifier with a task name (and, in a named configuration, a file) is rebuilt
  from its parts.\<close>

theorem build_split_tid:
  assumes "split_tid_mcfn tid = Inr (mc, fn, taskname, mcfn)"
    and "is_mc tid \<Longrightarrow> count_char CHR '':'' tid \<ge> 3 \<and> mc \<noteq> []"
  shows "build_tid mc fn taskname = tid \<and> mcfn = mc_fn mc fn \<and> split_mc mcfn = (mc, fn)"
proof (cases "is_mc tid")
  case True
  let ?es = "split_on CHR '':'' tid"
  have len: "length ?es \<ge> 4" using assms(2) True by (simp add: length_split_on)
  from True obtain t where t: "tid = ''mc:'' @ t" by (auto simp: is_mc_def prefix_def)
  then have "hd ?es = ''mc''" using split_on_append [of "CHR '':''" "''mc''" t] by (simp add: split_on_free)
  with len have es: "?es = ''mc'' # (?es ! 1) # drop 2 ?es"
    by (cases ?es; cases "tl ?es") (auto simp: Suc_le_eq)
  have parts: "mc = ?es ! 1" "fn = join '':'' (butlast (drop 2 ?es))" "taskname = last ?es"
      "mcfn = ''mc:'' @ mc @ '':'' @ fn"
    using assms(1) True by (auto simp: split_tid_mcfn_def Let_def)
  have ne: "drop 2 ?es \<noteq> []" "butlast (drop 2 ?es) \<noteq> []"
    using len by (auto simp: butlast_conv_take)
  have last: "last ?es = last (drop 2 ?es)" using len by (simp add: last_drop)
  have "tid = join '':'' (''mc'' # mc # butlast (drop 2 ?es) @ [taskname])"
    using join_split_on [of "CHR '':''" tid] es ne(1) last parts(1,3)
    by (metis append_butlast_last_id)
  also have "\<dots> = ''mc:'' @ mc @ '':'' @ fn @ '':'' @ taskname"
    using ne(2) by (simp add: join_Cons join_append parts(2))
  finally have tid: "tid = ''mc:'' @ mc @ '':'' @ fn @ '':'' @ taskname" .
  have "?es ! 1 \<in> set ?es" using len by (intro nth_mem) simp
  then have "CHR '':'' \<notin> set mc" using split_on_parts parts(1) by blast
  then have "split_mc mcfn = (mc, fn)"
    using split_mc_prefix [of mc fn] is_mc_prefix [of mc fn]
    by (simp add: parts(4) split_mc_def join_split_on del: is_mc_prefix append_Cons)
  then show ?thesis using tid parts(4) assms(2) True by (simp add: build_tid_def mc_fn_def)
next
  case False
  then have r: "rsplit1 CHR '':'' tid = Some (fn, taskname)" "mc = []" "mcfn = fn"
    using assms(1) by (auto simp: split_tid_mcfn_def split: option.splits)
  have tid: "tid = fn @ '':'' @ taskname" using rsplit1_Some [OF r(1)] by simp
  have "\<not> is_mc fn" using False tid by (auto simp: is_mc_def prefix_def)
  then show ?thesis using tid r by (simp add: build_tid_def mc_fn_def split_mc_def)
qed

lemma build_split_tid_witness:
  "build_tid ''arm'' ''a:b.bb'' ''do_x'' = ''mc:arm:a:b.bb:do_x'' \<and> split_mc ''mc:arm:a:b.bb'' = (''arm'', ''a:b.bb'')"
proof -
  have "split_tid_mcfn ''mc:arm:a:b.bb:do_x'' = Inr (''arm'', ''a:b.bb'', ''do_x'', ''mc:arm:a:b.bb'')"
    by code_simp
  then show ?thesis using build_split_tid by (force simp: count_char_def)
qed

end
