(* ===== verification/TaskGraph.thy ===== *)
theory TaskGraph
  imports Tid
begin

text \<open>
  The task graph of \<open>bb/runqueue.py\<close> and its analysis: \<open>calculate_task_weights\<close>, which weighs each
  task by everything that waits for it and finds the tasks that can never run, and
  \<open>circular_depchains_handler\<close>, which explains them by listing dependency loops.

  Dependency sets are lists (one iteration order); a task's \<open>revdeps\<close> are the tasks that depend on
  it.
\<close>

section \<open>The graph\<close>

record run_task =
  rte_depends :: "string list"
  rte_revdeps :: "string list"
  rte_hash :: "string option"
  rte_unihash :: "string option"
  rte_weight :: int

definition new_task :: run_task where
  "new_task = \<lparr>rte_depends = [], rte_revdeps = [], rte_hash = None, rte_unihash = None, rte_weight = 1\<rparr>"

type_synonym run_tasks = "(string, run_task) dict"

definition depends_of :: "run_tasks \<Rightarrow> string \<Rightarrow> string list" where
  "depends_of rts tid = rte_depends (dget rts tid new_task)"

definition revdeps_of :: "run_tasks \<Rightarrow> string \<Rightarrow> string list" where
  "revdeps_of rts tid = rte_revdeps (dget rts tid new_task)"

section \<open>Dependency loops\<close>

record chain_state =
  valid_chains :: "string list list"
  explored_deps :: "(string, string list) dict"
  chain_msgs :: "string list"

definition chain_reorder :: "string list \<Rightarrow> string list" where
  "chain_reorder chain =
     (let lowest = fold (\<lambda>entry lowest. if chain ! entry < chain ! lowest then entry else lowest)
            [0..<length chain] 0
      in drop lowest chain @ take lowest chain)"

function cut_versions :: "string \<Rightarrow> string" where
  "cut_versions [] = []"
| "cut_versions (c # cs) =
     (if c = CHR ''_'' \<and> CHR '','' \<in> set cs then CHR '','' # cut_versions (tl (dropWhile (\<lambda>x. x \<noteq> CHR '','') cs))
      else c # cut_versions cs)"
  by pat_completeness auto
termination
proof (relation "measure length", goal_cases)
  case (2 c cs)
  have "length (tl (dropWhile (\<lambda>x. x \<noteq> CHR '','') cs)) \<le> length cs"
    using length_dropWhile_le [of "\<lambda>x. x \<noteq> CHR '',''" cs] by simp
  then show ?case by simp
qed simp_all

text \<open>\<open>os.path.basename\<close>, then every \<open>_...,\<close> cut back to its comma.\<close>

definition runq_depends_names :: "string list \<Rightarrow> string list" where
  "runq_depends_names ids = map (\<lambda>i. cut_versions (last (split_on CHR ''/'' i))) ids"

text \<open>A list of strings as \<open>%s\<close> prints it (for names without quotes).\<close>

definition show_list :: "string list \<Rightarrow> string" where
  "show_list xs = ''['' @ join '', '' (map (\<lambda>x. [CHR 0x27] @ x @ [CHR 0x27]) xs) @ '']''"

definition chain_text :: "run_tasks \<Rightarrow> nat \<Rightarrow> string list \<Rightarrow> string list" where
  "chain_text rts n chain =
     [''Dependency loop #'' @ show_nat n @ '' found:'' @ [CHR 0x0A]] @
     map (\<lambda>dep. ''  Task '' @ dep @ '' (dependent Tasks '' @
         show_list (runq_depends_names (depends_of rts dep)) @ '')'' @ [CHR 0x0A]) chain @ [[CHR 0x0A]]"

definition record_chain :: "run_tasks \<Rightarrow> string list \<Rightarrow> (chain_state, unit) meth" where
  "record_chain rts new_chain =
     mthen (mupd (\<lambda>s. if new_chain \<in> set (valid_chains s) then s
                      else s\<lparr>valid_chains := valid_chains s @ [new_chain],
                             chain_msgs := chain_msgs s @
                               chain_text rts (Suc (length (valid_chains s))) new_chain\<rparr>))
      (mread (\<lambda>s. if length (valid_chains s) > 10
         then mthen (mupd (\<lambda>s. s\<lparr>chain_msgs := chain_msgs s @
                        [''Halted dependency loops search after 10 matches.'' @ [CHR 0x0A]]\<rparr>))
                (mraise TooManyLoops)
         else mreturn ()))"

definition needs_scan :: "string list \<Rightarrow> string \<Rightarrow> chain_state \<Rightarrow> bool" where
  "needs_scan prev_chain revdep s =
     (case map_of (explored_deps s) revdep of
        None \<Rightarrow> True
      | Some ex \<Rightarrow> revdep \<in> set ex \<or> list_ex (\<lambda>dep. dep \<in> set ex) prev_chain)"

fun visit_revdeps ::
  "(string \<Rightarrow> string list \<Rightarrow> (chain_state, unit) meth) \<Rightarrow> run_tasks \<Rightarrow> string list \<Rightarrow> string list \<Rightarrow>
    string list \<Rightarrow> (chain_state, string list) meth" where
  "visit_revdeps go rts prev_chain total_deps [] = mreturn total_deps"
| "visit_revdeps go rts prev_chain total_deps (revdep # revs) =
     (if revdep \<in> set prev_chain then
        mthen (record_chain rts (chain_reorder (dropWhile (\<lambda>x. x \<noteq> revdep) prev_chain)))
          (visit_revdeps go rts prev_chain total_deps revs)
      else
        mthen (mread (\<lambda>s. if needs_scan prev_chain revdep s then go revdep prev_chain else mreturn ()))
          (mread (\<lambda>s. visit_revdeps go rts prev_chain
              (sunion total_deps (dget (explored_deps s) revdep [])) revs)))"

text \<open>A chain never repeats a task, so the nesting is at most the number of tasks.\<close>

primrec find_chains :: "nat \<Rightarrow> run_tasks \<Rightarrow> string \<Rightarrow> string list \<Rightarrow> (chain_state, unit) meth" where
  "find_chains 0 rts tid prev_chain = mraise OutOfFuel"
| "find_chains (Suc n) rts tid prev_chain =
     mbind (visit_revdeps (find_chains n rts) rts (prev_chain @ [tid]) (revdeps_of rts tid)
              (revdeps_of rts tid))
       (\<lambda>total_deps. mupd (\<lambda>s. s\<lparr>explored_deps := AList.update tid total_deps (explored_deps s)\<rparr>))"

definition circular_search :: "run_tasks \<Rightarrow> string list \<Rightarrow> unit res \<times> chain_state" where
  "circular_search rts tasks =
     mcatch (mfor (\<lambda>task. find_chains (length rts) rts task []) tasks)
       (\<lambda>e. if e = TooManyLoops then mreturn () else mraise e)
       \<lparr>valid_chains = [], explored_deps = [], chain_msgs = []\<rparr>"

definition circular_depchains_handler :: "run_tasks \<Rightarrow> string list \<Rightarrow> string list res" where
  "circular_depchains_handler rts tasks =
     (case circular_search rts tasks of (r, s) \<Rightarrow> rbind r (\<lambda>_. Inr (chain_msgs s)))"

section \<open>Weights\<close>

record weighing =
  wg_weight :: "string \<Rightarrow> int"
  wg_left :: "string \<Rightarrow> int"
  wg_done :: "string \<Rightarrow> bool"

definition weigh_init :: "run_tasks \<Rightarrow> string list \<Rightarrow> weighing" where
  "weigh_init rts endpoints =
     \<lparr>wg_weight = (\<lambda>tid. if tid \<in> set endpoints then 10 else 1),
      wg_left = (\<lambda>tid. int (length (revdeps_of rts tid))),
      wg_done = (\<lambda>tid. tid \<in> set endpoints)\<rparr>"

definition weigh_edge :: "run_tasks \<Rightarrow> string \<Rightarrow> string \<Rightarrow> weighing \<times> string list \<Rightarrow> (weighing \<times> string list) res" where
  "weigh_edge rts tid revdep st =
     (case st of (w, next_points) \<Rightarrow>
      if \<not> has_key rts revdep then Inl (KeyError revdep)
      else
        let weight = wg_weight w revdep + wg_weight w tid; left = wg_left w revdep - 1;
            w = w\<lparr>wg_weight := (wg_weight w)(revdep := weight), wg_left := (wg_left w)(revdep := left)\<rparr>
        in if left = 0 then Inr (w\<lparr>wg_done := (wg_done w)(revdep := True)\<rparr>, next_points @ [revdep])
           else Inr (w, next_points))"

definition weigh_task :: "run_tasks \<Rightarrow> string \<Rightarrow> weighing \<times> string list \<Rightarrow> (weighing \<times> string list) res" where
  "weigh_task rts tid st =
     (if \<not> has_key rts tid then Inl (KeyError tid) else rfold (weigh_edge rts tid) (depends_of rts tid) st)"

primrec weigh_loop :: "nat \<Rightarrow> run_tasks \<Rightarrow> string list \<Rightarrow> weighing \<Rightarrow> weighing res" where
  "weigh_loop 0 rts endpoints w = Inl OutOfFuel"
| "weigh_loop (Suc n) rts endpoints w =
     rbind (rfold (weigh_task rts) endpoints (w, []))
       (\<lambda>(w, next_points). if next_points = [] then Inr w else weigh_loop n rts next_points w)"

definition problem_tasks :: "run_tasks \<Rightarrow> weighing \<Rightarrow> string list" where
  "problem_tasks rts w = filter (\<lambda>tid. \<not> wg_done w tid \<or> wg_left w tid \<noteq> 0) (dkeys rts)"

definition calculate_task_weights :: "run_tasks \<Rightarrow> string list \<Rightarrow> run_tasks res" where
  "calculate_task_weights rts endpoints =
     rbind (weigh_loop (Suc (length rts)) rts endpoints (weigh_init rts endpoints)) (\<lambda>w.
       if problem_tasks rts w \<noteq> [] then
         rbind (circular_depchains_handler rts (problem_tasks rts w)) (\<lambda>msgs. Inl (Fatal ([CHR 0x0A] @ concat msgs)))
       else Inr (map (\<lambda>(tid, t). (tid, t\<lparr>rte_weight := wg_weight w tid\<rparr>)) rts))"


section \<open>Weights: the specification\<close>

definition graph_wf :: "run_tasks \<Rightarrow> bool" where
  "graph_wf rts \<longleftrightarrow> distinct (dkeys rts) \<and>
     (\<forall>t\<in>set (dkeys rts). distinct (depends_of rts t) \<and> distinct (revdeps_of rts t) \<and>
        set (depends_of rts t) \<subseteq> set (dkeys rts) \<and> set (revdeps_of rts t) \<subseteq> set (dkeys rts) \<and>
        (\<forall>r\<in>set (dkeys rts). t \<in> set (depends_of rts r) \<longleftrightarrow> r \<in> set (revdeps_of rts t)))"

text \<open>An edge goes from a task to one it depends on.\<close>

definition edges :: "run_tasks \<Rightarrow> (string \<times> string) set" where
  "edges rts = {(r, t). r \<in> set (dkeys rts) \<and> t \<in> set (depends_of rts r)}"

definition end_tasks :: "run_tasks \<Rightarrow> string list" where
  "end_tasks rts = filter (\<lambda>tid. revdeps_of rts tid = []) (dkeys rts)"

definition base_weight :: "run_tasks \<Rightarrow> string \<Rightarrow> int" where
  "base_weight rts t = (if revdeps_of rts t = [] then 10 else 1)"

text \<open>The counters after the edges \<open>X\<close> have been walked.\<close>

definition weigh_inv :: "run_tasks \<Rightarrow> (string \<times> string) set \<Rightarrow> weighing \<Rightarrow> bool" where
  "weigh_inv rts X w \<longleftrightarrow> X \<subseteq> edges rts \<and>
     (\<forall>t\<in>set (dkeys rts).
        wg_left w t = int (length (revdeps_of rts t)) - int (card {r. (r, t) \<in> X}) \<and>
        wg_weight w t = base_weight rts t + (\<Sum>r\<in>{r. (r, t) \<in> X}. wg_weight w r) \<and>
        1 \<le> wg_weight w t \<and>
        (wg_done w t \<longleftrightarrow> {r. (r, t) \<in> X} = {r. (r, t) \<in> edges rts})) \<and>
     (\<forall>r t. (r, t) \<in> X \<longrightarrow> wg_done w r)"

lemma edges_in:
  assumes "graph_wf rts" and "t \<in> set (dkeys rts)"
  shows "{r. (r, t) \<in> edges rts} = set (revdeps_of rts t)"
    and "card {r. (r, t) \<in> edges rts} = length (revdeps_of rts t)"
proof -
  show "{r. (r, t) \<in> edges rts} = set (revdeps_of rts t)"
    using assms by (auto simp: graph_wf_def edges_def)
  then show "card {r. (r, t) \<in> edges rts} = length (revdeps_of rts t)"
    using assms by (simp add: graph_wf_def distinct_card)
qed

lemma edges_finite: "finite (edges rts)"
proof -
  have "edges rts = (\<Union>r\<in>set (dkeys rts). {r} \<times> set (depends_of rts r))" by (auto simp: edges_def)
  then show ?thesis by simp
qed

lemma weigh_edge_inv:
  assumes wf: "graph_wf rts" and inv: "weigh_inv rts X w" and "wg_done w tid"
    and e: "(tid, t) \<in> edges rts" and new: "(tid, t) \<notin> X"
  shows "\<exists>w'. weigh_edge rts tid t (w, np) = Inr (w', np @ (if wg_done w' t then [t] else [])) \<and>
    weigh_inv rts (insert (tid, t) X) w' \<and> \<not> wg_done w t \<and> (\<forall>u. u \<noteq> t \<longrightarrow> wg_done w' u = wg_done w u)"
proof -
  let ?w1 = "w\<lparr>wg_weight := (wg_weight w)(t := wg_weight w t + wg_weight w tid),
    wg_left := (wg_left w)(t := wg_left w t - 1)\<rparr>"
  define w' where "w' = (if wg_left w t = 1 then ?w1\<lparr>wg_done := (wg_done w)(t := True)\<rparr> else ?w1)"
  have w': "wg_weight w' = (wg_weight w)(t := wg_weight w t + wg_weight w tid)"
    "wg_left w' = (wg_left w)(t := wg_left w t - 1)"
    "wg_done w' u = (if u = t \<and> wg_left w t = 1 then True else wg_done w u)" for u
    by (simp_all add: w'_def)
  have t: "t \<in> set (dkeys rts)" using wf e by (auto simp: graph_wf_def edges_def)
  have tid: "tid \<in> set (dkeys rts)" using e by (auto simp: edges_def)
  have X: "X \<subseteq> edges rts" using inv by (simp add: weigh_inv_def)
  have ndone: "\<not> wg_done w t"
    using inv t e new by (auto simp: weigh_inv_def)
  then have "tid \<noteq> t" using assms(3) by auto
  have tX: "(t, u) \<notin> X" for u using inv ndone by (auto simp: weigh_inv_def)
  have fin: "finite {r. (r, u) \<in> X}" for u
    using finite_subset [OF X edges_finite] finite_imageI [of X fst]
    by (rule_tac finite_subset [of _ "fst ` X"]) force+
  have in_new: "{r. (r, u) \<in> insert (tid, t) X} = (if u = t then insert tid {r. (r, u) \<in> X} else {r. (r, u) \<in> X})" for u
    by auto
  have sum: "(\<Sum>r\<in>{r. (r, u) \<in> X}. wg_weight w' r) = (\<Sum>r\<in>{r. (r, u) \<in> X}. wg_weight w r)" for u
    using tX by (intro sum.cong) (auto simp: w')
  have card_t: "card {r. (r, t) \<in> insert (tid, t) X} = Suc (card {r. (r, t) \<in> X})"
    unfolding in_new using new fin [of t] by simp
  have left: "wg_left w t = int (length (revdeps_of rts t)) - int (card {r. (r, t) \<in> X})"
    using inv t by (simp add: weigh_inv_def)
  have sub: "{r. (r, t) \<in> insert (tid, t) X} \<subseteq> {r. (r, t) \<in> edges rts}" using X e by auto
  have fine: "finite {r. (r, t) \<in> edges rts}" using edges_in(1) [OF wf t] by simp
  have full: "wg_left w t = 1 \<longleftrightarrow> {r. (r, t) \<in> insert (tid, t) X} = {r. (r, t) \<in> edges rts}"
  proof
    assume "wg_left w t = 1"
    then have "card {r. (r, t) \<in> insert (tid, t) X} = card {r. (r, t) \<in> edges rts}"
      using left card_t edges_in(2) [OF wf t] by linarith
    then show "{r. (r, t) \<in> insert (tid, t) X} = {r. (r, t) \<in> edges rts}"
      using sub fine card_subset_eq by blast
  next
    assume "{r. (r, t) \<in> insert (tid, t) X} = {r. (r, t) \<in> edges rts}"
    then show "wg_left w t = 1" using left card_t edges_in(2) [OF wf t] by simp
  qed
  have inv': "weigh_inv rts (insert (tid, t) X) w'"
    unfolding weigh_inv_def
  proof (intro conjI ballI allI impI)
    show "insert (tid, t) X \<subseteq> edges rts" using X e by simp
    fix u assume u: "u \<in> set (dkeys rts)"
    note iu = inv [unfolded weigh_inv_def, THEN conjunct2, THEN conjunct1, THEN bspec, OF u]
    show "wg_left w' u = int (length (revdeps_of rts u)) - int (card {r. (r, u) \<in> insert (tid, t) X})"
      using iu card_t by (cases "u = t") (simp_all add: in_new w')
    show "wg_weight w' u = base_weight rts u + (\<Sum>r\<in>{r. (r, u) \<in> insert (tid, t) X}. wg_weight w' r)"
    proof (cases "u = t")
      case True
      have "(\<Sum>r\<in>insert tid {r. (r, t) \<in> X}. wg_weight w' r) = wg_weight w tid + (\<Sum>r\<in>{r. (r, t) \<in> X}. wg_weight w r)"
        using new fin [of t] sum [of t] \<open>tid \<noteq> t\<close> by (simp add: w'(1))
      moreover have "wg_weight w' t = wg_weight w t + wg_weight w tid" by (simp add: w'(1))
      moreover have "{r. (r, t) \<in> insert (tid, t) X} = insert tid {r. (r, t) \<in> X}" by auto
      ultimately show ?thesis using iu unfolding True by simp
    next
      case False
      then show ?thesis using iu sum [of u] by (simp add: in_new w'(1))
    qed
    show "1 \<le> wg_weight w' u"
      using iu inv [unfolded weigh_inv_def, THEN conjunct2, THEN conjunct1, THEN bspec, OF tid]
      by (cases "u = t") (simp_all add: w'(1))
    show "wg_done w' u \<longleftrightarrow> {r. (r, u) \<in> insert (tid, t) X} = {r. (r, u) \<in> edges rts}"
      using iu full ndone by (cases "u = t") (simp_all add: in_new w'(3))
  next
    fix r u assume "(r, u) \<in> insert (tid, t) X"
    then show "wg_done w' r" using inv assms(3) by (auto simp: weigh_inv_def w'(3))
  qed
  have "weigh_edge rts tid t (w, np) = Inr (w', np @ (if wg_done w' t then [t] else []))"
    using t ndone by (auto simp: weigh_edge_def Let_def has_key_iff w'_def)
  then show ?thesis using inv' ndone w'(3) by (intro exI [of _ w']) auto
qed


text \<open>Within a round, \<open>D0\<close> are the tasks done when it began.\<close>

definition round_inv :: "run_tasks \<Rightarrow> string set \<Rightarrow> (string \<times> string) set \<Rightarrow> weighing \<times> string list \<Rightarrow> bool" where
  "round_inv rts D0 X st \<longleftrightarrow> (case st of (w, np) \<Rightarrow> weigh_inv rts X w \<and> distinct np \<and>
     (\<forall>t\<in>set (dkeys rts). wg_done w t \<longleftrightarrow> t \<in> D0 \<or> t \<in> set np) \<and>
     set np \<subseteq> set (dkeys rts) \<and> set np \<inter> D0 = {})"

lemma weigh_task_inv:
  assumes wf: "graph_wf rts" and inv: "round_inv rts D0 X st" and "tid \<in> set (dkeys rts)" and "tid \<in> D0"
    and new: "\<And>t. (tid, t) \<notin> X"
  shows "\<exists>st'. weigh_task rts tid st = Inr st' \<and>
    round_inv rts D0 (X \<union> {(tid, t) |t. (tid, t) \<in> edges rts}) st'"
proof -
  let ?P = "\<lambda>D. round_inv rts D0 (X \<union> {tid} \<times> D)"
  have deps: "set (depends_of rts tid) = {t. (tid, t) \<in> edges rts}"
    using assms(3) by (auto simp: edges_def)
  have "\<exists>st'. rfold (weigh_edge rts tid) (depends_of rts tid) st = Inr st' \<and> ?P ({} \<union> set (depends_of rts tid)) st'"
  proof (rule rfold_progress_total)
    show "distinct (depends_of rts tid)" using wf assms(3) by (simp add: graph_wf_def)
    show "?P {} st" using inv by simp
    fix t u E
    assume t: "t \<in> set (depends_of rts tid)" and "t \<notin> E" and u: "?P E u"
    obtain w np where st: "u = (w, np)" by (cases u)
    have d: "wg_done w tid" using u assms(3,4) by (simp add: round_inv_def st)
    have e: "(tid, t) \<in> edges rts" using t deps by simp
    have n: "(tid, t) \<notin> X \<union> {tid} \<times> E" using new \<open>t \<notin> E\<close> by simp
    have tk: "t \<in> set (dkeys rts)" using wf e by (auto simp: graph_wf_def edges_def)
    have i: "weigh_inv rts (X \<union> {tid} \<times> E) w" using u by (simp add: round_inv_def st)
    obtain w' where w': "weigh_edge rts tid t (w, np) = Inr (w', np @ (if wg_done w' t then [t] else []))"
      "weigh_inv rts (insert (tid, t) (X \<union> {tid} \<times> E)) w'" "\<not> wg_done w t"
      "\<forall>u. u \<noteq> t \<longrightarrow> wg_done w' u = wg_done w u"
      using weigh_edge_inv [OF wf i d e n] by blast
    have "t \<notin> D0 \<and> t \<notin> set np" using u w'(3) tk by (auto simp: round_inv_def st)
    moreover have "insert (tid, t) (X \<union> {tid} \<times> E) = X \<union> {tid} \<times> insert t E" by auto
    ultimately have "?P (insert t E) (w', np @ (if wg_done w' t then [t] else []))"
      using u w'(2,4) tk by (auto simp: round_inv_def st)
    with w'(1) st show "\<exists>v. weigh_edge rts tid t u = Inr v \<and> ?P (insert t E) v" by blast
  qed simp
  moreover have "{tid} \<times> set (depends_of rts tid) = {(tid, t) |t. (tid, t) \<in> edges rts}" using deps by auto
  ultimately show ?thesis using assms(3) by (auto simp: weigh_task_def has_key_iff)
qed

definition edges_from :: "run_tasks \<Rightarrow> string set \<Rightarrow> (string \<times> string) set" where
  "edges_from rts P = {(r, t). (r, t) \<in> edges rts \<and> r \<in> P}"

lemma weigh_round_inv:
  assumes wf: "graph_wf rts" and inv: "weigh_inv rts (edges_from rts P) w"
    and fr: "distinct F" "set F \<subseteq> set (dkeys rts)" "set F \<inter> P = {}"
    and dn: "\<forall>t\<in>set (dkeys rts). wg_done w t \<longleftrightarrow> t \<in> P \<union> set F"
  shows "\<exists>w' F'. rfold (weigh_task rts) F (w, []) = Inr (w', F') \<and>
    weigh_inv rts (edges_from rts (P \<union> set F)) w' \<and> distinct F' \<and> set F' \<subseteq> set (dkeys rts) \<and>
    set F' \<inter> (P \<union> set F) = {} \<and> (\<forall>t\<in>set (dkeys rts). wg_done w' t \<longleftrightarrow> t \<in> P \<union> set F \<union> set F')"
proof -
  let ?P = "\<lambda>D. round_inv rts (P \<union> set F) (edges_from rts (P \<union> D))"
  have "\<exists>st'. rfold (weigh_task rts) F (w, []) = Inr st' \<and> ?P ({} \<union> set F) st'"
  proof (rule rfold_progress_total)
    show "?P {} (w, [])" using inv dn by (simp add: round_inv_def)
    fix tid u E assume tid: "tid \<in> set F" "tid \<notin> E" and u: "?P E u"
    have n: "(tid, t) \<notin> edges_from rts (P \<union> E)" for t
      using tid fr(3) by (auto simp: edges_from_def)
    have "\<exists>v. weigh_task rts tid u = Inr v \<and>
        round_inv rts (P \<union> set F) (edges_from rts (P \<union> E) \<union> {(tid, t) |t. (tid, t) \<in> edges rts}) v"
      by (rule weigh_task_inv [OF wf u _ _ n]) (use tid fr(2) in auto)
    moreover have "edges_from rts (P \<union> E) \<union> {(tid, t) |t. (tid, t) \<in> edges rts} = edges_from rts (P \<union> insert tid E)"
      by (auto simp: edges_from_def)
    ultimately show "\<exists>v. weigh_task rts tid u = Inr v \<and> ?P (insert tid E) v" by simp
  qed (use fr in auto)
  then show ?thesis by (auto simp: round_inv_def)
qed

lemma weigh_loop_inv:
  assumes wf: "graph_wf rts" and inv: "weigh_inv rts (edges_from rts P) w"
    and fr: "distinct F" "set F \<subseteq> set (dkeys rts)" "set F \<inter> P = {}"
    and dn: "\<forall>t\<in>set (dkeys rts). wg_done w t \<longleftrightarrow> t \<in> P \<union> set F"
    and fuel: "card (set (dkeys rts) - (P \<union> set F)) < n"
  shows "\<exists>w'. weigh_loop n rts F w = Inr w' \<and> (\<exists>D. weigh_inv rts (edges_from rts D) w' \<and>
    (\<forall>t\<in>set (dkeys rts). wg_done w' t \<longleftrightarrow> t \<in> D))"
  using inv fr dn fuel
proof (induction n arbitrary: P F w)
  case 0
  then show ?case by simp
next
  case (Suc n)
  obtain w' F' where r: "rfold (weigh_task rts) F (w, []) = Inr (w', F')"
    "weigh_inv rts (edges_from rts (P \<union> set F)) w'" "distinct F'" "set F' \<subseteq> set (dkeys rts)"
    "set F' \<inter> (P \<union> set F) = {}" "\<forall>t\<in>set (dkeys rts). wg_done w' t \<longleftrightarrow> t \<in> P \<union> set F \<union> set F'"
    using weigh_round_inv [OF wf Suc.prems(1-5)] by blast
  show ?case
  proof (cases "F' = []")
    case True
    then show ?thesis using r by (auto intro!: exI [of _ "P \<union> set F"])
  next
    case False
    then obtain x where "x \<in> set F'" by (cases F') auto
    then have "x \<in> set (dkeys rts) - (P \<union> set F)" "x \<notin> set (dkeys rts) - (P \<union> set F \<union> set F')"
      using r(4,5) by auto
    then have "set (dkeys rts) - (P \<union> set F \<union> set F') \<subset> set (dkeys rts) - (P \<union> set F)" by blast
    then have "card (set (dkeys rts) - (P \<union> set F \<union> set F')) < card (set (dkeys rts) - (P \<union> set F))"
      by (intro psubset_card_mono) auto
    then have "\<exists>w''. weigh_loop n rts F' w' = Inr w'' \<and> (\<exists>D. weigh_inv rts (edges_from rts D) w'' \<and>
        (\<forall>t\<in>set (dkeys rts). wg_done w'' t \<longleftrightarrow> t \<in> D))"
      using Suc.prems(6) r by (intro Suc.IH [where P = "P \<union> set F"]) auto
    then show ?thesis using r(1) False by simp
  qed
qed


section \<open>Dependency loops: the specification\<close>

text \<open>Each task of a loop is waited for by the next, and the last by the first.\<close>

definition is_loop :: "run_tasks \<Rightarrow> string list \<Rightarrow> bool" where
  "is_loop rts c \<longleftrightarrow> c \<noteq> [] \<and>
     (\<forall>i<length c. c ! (Suc i mod length c) \<in> set (revdeps_of rts (c ! i)))"

lemma is_loop_rotate:
  assumes "is_loop rts c"
  shows "is_loop rts (rotate k c)"
proof -
  have "c \<noteq> []" using assms by (simp add: is_loop_def)
  then have n: "0 < length c" by simp
  have "rotate k c ! (Suc i mod length c) \<in> set (revdeps_of rts (rotate k c ! i))" if i: "i < length c" for i
  proof -
    let ?j = "(k + i) mod length c"
    have "Suc ?j mod length c = (k + Suc i mod length c) mod length c"
      by (simp add: mod_simps)
    moreover have "?j < length c" using n by simp
    then have "c ! (Suc ?j mod length c) \<in> set (revdeps_of rts (c ! ?j))"
      using assms by (simp add: is_loop_def)
    moreover have "Suc i mod length c < length c" using n by simp
    ultimately show ?thesis using i nth_rotate [of i c k] nth_rotate [of "Suc i mod length c" c k] by simp
  qed
  with \<open>c \<noteq> []\<close> show ?thesis by (simp add: is_loop_def)
qed

lemma chain_reorder_rotate: "c \<noteq> [] \<Longrightarrow> \<exists>k. chain_reorder c = rotate k c"
proof -
  assume "c \<noteq> []"
  let ?low = "\<lambda>es. fold (\<lambda>entry lowest. if c ! entry < c ! lowest then entry else lowest) es 0"
  have "?low es < length c" if "set es \<subseteq> {..<length c}" for es
    using that \<open>c \<noteq> []\<close> by (induction es rule: rev_induct) auto
  then have "?low [0..<length c] < length c" by (simp add: atLeast0LessThan)
  then have "chain_reorder c = rotate (?low [0..<length c]) c"
    by (simp add: chain_reorder_def Let_def rotate_drop_take)
  then show ?thesis by (rule exI)
qed

text \<open>The tasks of the current chain, each waited for by the next.\<close>

definition is_path :: "run_tasks \<Rightarrow> string list \<Rightarrow> bool" where
  "is_path rts p \<longleftrightarrow> (\<forall>i. Suc i < length p \<longrightarrow> p ! Suc i \<in> set (revdeps_of rts (p ! i)))"

lemma is_path_snoc:
  assumes "is_path rts p" and "p = [] \<or> t \<in> set (revdeps_of rts (last p))"
  shows "is_path rts (p @ [t])"
  unfolding is_path_def
proof (intro allI impI)
  fix i assume i: "Suc i < length (p @ [t])"
  show "(p @ [t]) ! Suc i \<in> set (revdeps_of rts ((p @ [t]) ! i))"
  proof (cases "Suc i < length p")
    case True
    then show ?thesis using assms(1) by (simp add: is_path_def nth_append)
  next
    case False
    then have "Suc i = length p" using i by simp
    then have "p \<noteq> []" and "i < length p" by (cases p; simp)+
    moreover from this(1) have "p ! i = last p"
      using last_conv_nth [of p] \<open>Suc i = length p\<close> by (metis diff_Suc_1)
    ultimately show ?thesis using assms(2) \<open>Suc i = length p\<close> by (simp add: nth_append)
  qed
qed

lemma path_closes:
  assumes "is_path rts p" and "r \<in> set p" and "r \<in> set (revdeps_of rts (last p))"
  shows "is_loop rts (dropWhile (\<lambda>x. x \<noteq> r) p)"
proof -
  obtain q where q: "p = q @ dropWhile (\<lambda>x. x \<noteq> r) p"
    using takeWhile_dropWhile_id [of "\<lambda>x. x \<noteq> r" p] by metis
  let ?d = "dropWhile (\<lambda>x. x \<noteq> r) p"
  have ne: "?d \<noteq> []" using assms(2) by (auto simp: dropWhile_eq_Nil_conv)
  then have hd: "?d ! 0 = r" using hd_dropWhile [OF ne] by (simp add: hd_conv_nth)
  have last: "last p = last ?d" using q ne by (metis last_appendR)
  show ?thesis unfolding is_loop_def
  proof (intro conjI allI impI)
    show "?d \<noteq> []" by (fact ne)
    fix i assume i: "i < length ?d"
    show "?d ! (Suc i mod length ?d) \<in> set (revdeps_of rts (?d ! i))"
    proof (cases "Suc i < length ?d")
      case True
      have "p ! (length q + j) = ?d ! j" for j using q by (metis nth_append_length_plus)
      moreover have "Suc (length q + i) < length p" using True q by (metis add_Suc_right length_append nat_add_left_cancel_less)
      ultimately show ?thesis using assms(1) True unfolding is_path_def
        by (metis add_Suc_right mod_less)
    next
      case False
      then have "Suc i = length ?d" using i by simp
      then have "?d ! i = last ?d" using ne by (simp add: last_conv_nth flip: \<open>Suc i = length ?d\<close>)
      then show ?thesis using assms(3) last hd \<open>Suc i = length ?d\<close> by simp
    qed
  qed
qed


definition loops_ok :: "run_tasks \<Rightarrow> chain_state \<Rightarrow> bool" where
  "loops_ok rts s \<longleftrightarrow> (\<forall>c\<in>set (valid_chains s). is_loop rts c) \<and> distinct (valid_chains s)"

definition search_end :: "run_tasks \<Rightarrow> exn \<Rightarrow> chain_state \<Rightarrow> bool" where
  "search_end rts e s \<longleftrightarrow> loops_ok rts s \<and> e = TooManyLoops"

lemma record_chain_ok:
  assumes "is_loop rts c"
  shows "stable (loops_ok rts) (search_end rts) (record_chain rts c)"
  unfolding record_chain_def
  using assms by (intro stable_rules) (auto simp: loops_ok_def search_end_def)

definition finds :: "run_tasks \<Rightarrow> string list \<Rightarrow> (string \<Rightarrow> string list \<Rightarrow> (chain_state, unit) meth) \<Rightarrow> bool" where
  "finds rts p go \<longleftrightarrow> (\<forall>t. t \<in> set (revdeps_of rts (last p)) \<longrightarrow> t \<notin> set p \<longrightarrow>
     stable (loops_ok rts) (search_end rts) (go t p))"

lemma visit_revdeps_ok:
  assumes "finds rts p go" and "is_path rts p" and "set revs \<subseteq> set (revdeps_of rts (last p))"
  shows "stable (loops_ok rts) (search_end rts) (visit_revdeps go rts p acc revs)"
  using assms(3)
proof (induction revs arbitrary: acc)
  case Nil
  show ?case by (auto intro: stable_rules)
next
  case (Cons r revs)
  show ?case
  proof (cases "r \<in> set p")
    case True
    have "is_loop rts (dropWhile (\<lambda>x. x \<noteq> r) p)"
      using path_closes [OF assms(2) True] Cons.prems by simp
    moreover from this have "\<exists>k. chain_reorder (dropWhile (\<lambda>x. x \<noteq> r) p) = rotate k (dropWhile (\<lambda>x. x \<noteq> r) p)"
      by (intro chain_reorder_rotate) (simp add: is_loop_def)
    ultimately have "is_loop rts (chain_reorder (dropWhile (\<lambda>x. x \<noteq> r) p))"
      using is_loop_rotate by metis
    then show ?thesis using True Cons by (auto intro!: stable_rules record_chain_ok)
  next
    case False
    then have "stable (loops_ok rts) (search_end rts) (go r p)"
      using assms(1) Cons.prems by (simp add: finds_def)
    then show ?thesis using False Cons by (auto intro!: stable_rules)
  qed
qed

lemma find_chains_ok:
  assumes closed: "\<And>t. set (revdeps_of rts t) \<subseteq> K" and "finite K"
    and "distinct p" and "set p \<subseteq> K" and "t \<in> K" and "t \<notin> set p" and "is_path rts p"
    and "p = [] \<or> t \<in> set (revdeps_of rts (last p))" and "card K \<le> length p + n"
  shows "stable (loops_ok rts) (search_end rts) (find_chains n rts t p)"
  using assms(3-)
proof (induction n arbitrary: t p)
  case 0
  have "card (insert t (set p)) \<le> card K" using 0 assms(2) by (intro card_mono) auto
  moreover have "card (insert t (set p)) = Suc (length p)"
    using 0 by (simp add: distinct_card)
  ultimately show ?case using 0 by simp
next
  case (Suc n)
  have path: "is_path rts (p @ [t])" using Suc.prems by (intro is_path_snoc)
  have "finds rts (p @ [t]) (find_chains n rts)"
    unfolding finds_def
  proof (intro allI impI)
    fix r assume r: "r \<in> set (revdeps_of rts (last (p @ [t])))" "r \<notin> set (p @ [t])"
    show "stable (loops_ok rts) (search_end rts) (find_chains n rts r (p @ [t]))"
      by (rule Suc.IH) (use r Suc.prems path closed [of t] in auto)
  qed
  then have "stable (loops_ok rts) (search_end rts)
      (visit_revdeps (find_chains n rts) rts (p @ [t]) (revdeps_of rts t) (revdeps_of rts t))"
    using path by (intro visit_revdeps_ok) simp_all
  then show ?case unfolding find_chains.simps
    by (rule stable_bind) (rule stable_upd, simp add: loops_ok_def)
qed

lemma revdeps_closed:
  assumes "graph_wf rts"
  shows "set (revdeps_of rts t) \<subseteq> set (dkeys rts)"
proof (cases "t \<in> set (dkeys rts)")
  case True
  then show ?thesis using assms by (simp add: graph_wf_def)
next
  case False
  then have "dget rts t new_task = new_task" using dget_key [of rts t new_task] by blast
  then show ?thesis by (simp add: revdeps_of_def new_task_def)
qed

lemma circular_search_ok:
  assumes wf: "graph_wf rts" and "set tasks \<subseteq> set (dkeys rts)"
  shows "\<exists>s. circular_search rts tasks = (Inr (), s) \<and> loops_ok rts s"
proof -
  let ?s0 = "\<lparr>valid_chains = [], explored_deps = [], chain_msgs = []\<rparr>"
  have "card (set (dkeys rts)) \<le> length ([] :: string list) + length rts"
    using card_length [of "dkeys rts"] by (simp add: dkeys_def)
  then have find: "stable (loops_ok rts) (search_end rts) (mfor (\<lambda>task. find_chains (length rts) rts task []) tasks)"
    using assms(2) revdeps_closed [OF wf]
    by (intro stable_for find_chains_ok [of rts "set (dkeys rts)"]) (auto simp: is_path_def)
  have "stable (loops_ok rts) (\<lambda>_ _. False)
      (mcatch (mfor (\<lambda>task. find_chains (length rts) rts task []) tasks)
         (\<lambda>e. if e = TooManyLoops then mreturn () else mraise e))"
    by (rule stable_catch [OF find]) (auto simp: search_end_def intro!: triple_return triple_raise)
  then have "case circular_search rts tasks of (Inr x, s) \<Rightarrow> loops_ok rts s | (Inl e, s) \<Rightarrow> False"
    unfolding stable_def triple_def circular_search_def
    by (rule allE [of _ ?s0]) (simp add: loops_ok_def)
  then show ?thesis by (auto split: prod.splits sum.splits)
qed

text \<open>The search for dependency loops ends, and every loop it reports is a real one (each task
  waits for the next, the last for the first), reported once.\<close>

theorem circular_search_sound:
  assumes "graph_wf rts" and "set tasks \<subseteq> set (dkeys rts)"
  shows "\<exists>s. circular_search rts tasks = (Inr (), s) \<and> distinct (valid_chains s) \<and>
    (\<forall>c\<in>set (valid_chains s). is_loop rts c) \<and>
    circular_depchains_handler rts tasks = Inr (chain_msgs s)"
  using circular_search_ok [OF assms]
  by (auto simp: loops_ok_def circular_depchains_handler_def)


section \<open>Weights: the result\<close>

lemma weigh_init_inv:
  assumes "graph_wf rts"
  shows "weigh_inv rts {} (weigh_init rts (end_tasks rts))"
  using edges_in [OF assms]
  by (auto simp: weigh_inv_def weigh_init_def base_weight_def end_tasks_def)

lemma weigh_result:
  assumes wf: "graph_wf rts"
  shows "\<exists>w D. weigh_loop (Suc (length rts)) rts (end_tasks rts) (weigh_init rts (end_tasks rts)) = Inr w \<and>
    weigh_inv rts (edges_from rts D) w \<and> (\<forall>t\<in>set (dkeys rts). wg_done w t \<longleftrightarrow> t \<in> D)"
proof -
  have "card (set (dkeys rts) - ({} \<union> set (end_tasks rts))) \<le> card (set (dkeys rts))"
    by (intro card_mono) auto
  then have "card (set (dkeys rts) - ({} \<union> set (end_tasks rts))) < Suc (length rts)"
    using card_length [of "dkeys rts"] by (simp add: dkeys_def)
  moreover have "weigh_inv rts (edges_from rts {}) (weigh_init rts (end_tasks rts))"
    using weigh_init_inv [OF wf] by (simp add: edges_from_def)
  moreover have "distinct (end_tasks rts)" "set (end_tasks rts) \<subseteq> set (dkeys rts)"
    using wf by (auto simp: end_tasks_def graph_wf_def)
  ultimately show ?thesis
    using weigh_loop_inv [OF wf, of "{}" "weigh_init rts (end_tasks rts)" "end_tasks rts" "Suc (length rts)"]
    by (auto simp: weigh_init_def)
qed

lemma all_done_acyclic:
  assumes wf: "graph_wf rts" and inv: "weigh_inv rts (edges_from rts D) w"
    and dn: "\<forall>t\<in>set (dkeys rts). wg_done w t \<longleftrightarrow> t \<in> D"
  shows "set (dkeys rts) \<subseteq> D \<longleftrightarrow> acyclic (edges rts)"
proof
  assume all: "set (dkeys rts) \<subseteq> D"
  then have X: "edges_from rts D = edges rts" by (auto simp: edges_from_def edges_def)
  have less: "wg_weight w r < wg_weight w t" if "(r, t) \<in> edges rts" for r t
  proof -
    have t: "t \<in> set (dkeys rts)" and r: "r \<in> set (dkeys rts)"
      using wf that by (auto simp: graph_wf_def edges_def)
    have fin: "finite {r. (r, t) \<in> edges rts}" using edges_in(1) [OF wf t] by simp
    have pos: "1 \<le> wg_weight w q" if "q \<in> set (dkeys rts)" for q
      using inv that unfolding weigh_inv_def by blast
    have "wg_weight w r \<le> (\<Sum>q\<in>{r. (r, t) \<in> edges rts}. wg_weight w q)"
    proof (rule member_le_sum)
      show "0 \<le> wg_weight w q" if "q \<in> {r. (r, t) \<in> edges rts} - {r}" for q
        using that pos [of q] by (auto simp: edges_def)
    qed (use fin that in auto)
    moreover have "wg_weight w t = base_weight rts t + (\<Sum>q\<in>{r. (r, t) \<in> edges rts}. wg_weight w q)"
      using inv t X by (simp add: weigh_inv_def)
    ultimately show ?thesis by (simp add: base_weight_def split: if_splits)
  qed
  have "edges rts \<subseteq> inv_image less_than (\<lambda>t. nat (wg_weight w t))"
  proof (rule subrelI)
    fix r t assume e: "(r, t) \<in> edges rts"
    then have "1 \<le> wg_weight w r" using inv by (auto simp: weigh_inv_def edges_def)
    with less [OF e] show "(r, t) \<in> inv_image less_than (\<lambda>t. nat (wg_weight w t))" by simp
  qed
  then have "wf (edges rts)" by (rule wf_subset [OF wf_inv_image [OF wf_less_than]])
  then show "acyclic (edges rts)" by (rule wf_acyclic)
next
  assume "acyclic (edges rts)"
  then have wfe: "wf (edges rts)" using edges_finite by (simp add: finite_acyclic_wf)
  show "set (dkeys rts) \<subseteq> D"
  proof
    fix t assume "t \<in> set (dkeys rts)"
    then show "t \<in> D"
    proof (induction t rule: wf_induct_rule [OF wfe])
      case (1 t)
      have "{r. (r, t) \<in> edges_from rts D} = {r. (r, t) \<in> edges rts}"
        using 1 by (auto simp: edges_from_def edges_def)
      then have "wg_done w t" using inv 1(2) by (simp add: weigh_inv_def)
      then show ?case using dn 1(2) by simp
    qed
  qed
qed

lemma no_problem_tasks:
  assumes wf: "graph_wf rts" and inv: "weigh_inv rts X w"
  shows "problem_tasks rts w = [] \<longleftrightarrow> (\<forall>t\<in>set (dkeys rts). wg_done w t)"
proof -
  have "wg_left w t = 0" if "t \<in> set (dkeys rts)" and "wg_done w t" for t
    using inv that edges_in(2) [OF wf that(1)] by (simp add: weigh_inv_def)
  then show ?thesis by (auto simp: problem_tasks_def filter_empty_conv)
qed

definition weight_of :: "run_tasks \<Rightarrow> string \<Rightarrow> int" where
  "weight_of rts t = rte_weight (dget rts t new_task)"

lemma calculate_task_weights_result:
  assumes wf: "graph_wf rts"
  shows "if acyclic (edges rts)
    then \<exists>rts'. calculate_task_weights rts (end_tasks rts) = Inr rts' \<and> dkeys rts' = dkeys rts \<and>
      (\<forall>t\<in>set (dkeys rts). depends_of rts' t = depends_of rts t \<and> revdeps_of rts' t = revdeps_of rts t \<and>
         weight_of rts' t = base_weight rts t + (\<Sum>r\<in>set (revdeps_of rts t). weight_of rts' r))
    else \<exists>msg. calculate_task_weights rts (end_tasks rts) = Inl (Fatal msg)"
proof -
  obtain w D where w: "weigh_loop (Suc (length rts)) rts (end_tasks rts) (weigh_init rts (end_tasks rts)) = Inr w"
    and inv: "weigh_inv rts (edges_from rts D) w" and dn: "\<forall>t\<in>set (dkeys rts). wg_done w t \<longleftrightarrow> t \<in> D"
    using weigh_result [OF wf] by blast
  note acyc = all_done_acyclic [OF wf inv dn]
  let ?f = "\<lambda>(tid, t). (tid, t\<lparr>rte_weight := wg_weight w tid\<rparr>)"
  have ac: "problem_tasks rts w = [] \<longleftrightarrow> acyclic (edges rts)"
    using no_problem_tasks [OF wf inv] acyc dn by auto
  have look: "map_of (map ?f rts) t = map_option (\<lambda>v. v\<lparr>rte_weight := wg_weight w t\<rparr>) (map_of rts t)" for t
    by (induction rts) auto
  have key: "map_of rts t \<noteq> None" if "t \<in> set (dkeys rts)" for t
    using that has_key_iff [of rts t] by (simp add: has_key_def)
  show ?thesis
  proof (cases "acyclic (edges rts)")
    case True
    then have X: "edges_from rts D = edges rts" using acyc by (auto simp: edges_from_def edges_def)
    have wt: "weight_of (map ?f rts) t = wg_weight w t" if "t \<in> set (dkeys rts)" for t
      using key [OF that] by (auto simp: weight_of_def dget_def look)
    have "weight_of (map ?f rts) t = base_weight rts t + (\<Sum>r\<in>set (revdeps_of rts t). weight_of (map ?f rts) r)"
      if t: "t \<in> set (dkeys rts)" for t
    proof -
      have "wg_weight w t = base_weight rts t + (\<Sum>r\<in>set (revdeps_of rts t). wg_weight w r)"
        using inv t X edges_in(1) [OF wf t] by (simp add: weigh_inv_def)
      moreover have "(\<Sum>r\<in>set (revdeps_of rts t). weight_of (map ?f rts) r) = (\<Sum>r\<in>set (revdeps_of rts t). wg_weight w r)"
        using wf t wt by (intro sum.cong) (auto simp: graph_wf_def)
      ultimately show ?thesis using wt [OF t] by simp
    qed
    moreover have "dkeys (map ?f rts) = dkeys rts" by (auto simp: dkeys_def)
    moreover have "depends_of (map ?f rts) t = depends_of rts t \<and> revdeps_of (map ?f rts) t = revdeps_of rts t" for t
      by (auto simp: depends_of_def revdeps_of_def dget_def look split: option.splits)
    ultimately show ?thesis using True w ac by (auto simp: calculate_task_weights_def)
  next
    case False
    have "set (problem_tasks rts w) \<subseteq> set (dkeys rts)" by (auto simp: problem_tasks_def)
    then obtain s where "circular_search rts (problem_tasks rts w) = (Inr (), s)"
      using circular_search_ok [OF wf] by blast
    then have "circular_depchains_handler rts (problem_tasks rts w) = Inr (chain_msgs s)"
      by (simp add: circular_depchains_handler_def)
    then show ?thesis using False w ac by (auto simp: calculate_task_weights_def)
  qed
qed

text \<open>C2: on a consistent task graph the weight computation always ends. When the dependencies have no
  cycle it returns, and every task weighs 10 (if nothing waits for it) or 1, plus the weights of
  all tasks that wait for it; when they have a cycle the build is refused.\<close>

theorem calculate_task_weights_spec:
  assumes wf: "graph_wf rts"
  shows "if acyclic (edges rts)
    then \<exists>rts'. calculate_task_weights rts (end_tasks rts) = Inr rts' \<and> dkeys rts' = dkeys rts \<and>
      (\<forall>t\<in>set (dkeys rts). depends_of rts' t = depends_of rts t \<and> revdeps_of rts' t = revdeps_of rts t \<and>
         weight_of rts' t = base_weight rts t + (\<Sum>r\<in>set (revdeps_of rts t). weight_of rts' r))
    else \<exists>msg. calculate_task_weights rts (end_tasks rts) = Inl (Fatal msg)"
  using assms by (rule calculate_task_weights_result)

definition sample_tasks :: "bool \<Rightarrow> run_tasks" where
  "sample_tasks cyclic =
     [(''a'', new_task\<lparr>rte_depends := [''b'', ''c''], rte_revdeps := (if cyclic then [''d''] else [])\<rparr>),
      (''b'', new_task\<lparr>rte_depends := [''d''], rte_revdeps := [''a'']\<rparr>),
      (''c'', new_task\<lparr>rte_depends := [''d''], rte_revdeps := [''a'']\<rparr>),
      (''d'', new_task\<lparr>rte_depends := (if cyclic then [''a''] else []), rte_revdeps := [''b'', ''c'']\<rparr>)]"

lemma sample_tasks_wf: "graph_wf (sample_tasks b)"
proof -
  have "graph_wf (sample_tasks True)" by code_simp
  moreover have "graph_wf (sample_tasks False)" by code_simp
  ultimately show ?thesis by (cases b) simp_all
qed

lemma calculate_task_weights_spec_witness:
  "\<exists>rts'. calculate_task_weights (sample_tasks False) [''a''] = Inr rts' \<and> weight_of rts' ''d'' = 1 + (11 + 11)"
proof -
  have e: "end_tasks (sample_tasks False) = [''a'']" by code_simp
  obtain rts' where r: "calculate_task_weights (sample_tasks False) [''a''] = Inr rts'" "weight_of rts' ''d'' = 23"
  proof -
    have "map_option (\<lambda>r. weight_of r ''d'')
        (case calculate_task_weights (sample_tasks False) [''a''] of Inr r \<Rightarrow> Some r | Inl _ \<Rightarrow> None) = Some 23"
      by code_simp
    then show thesis using that by (auto split: sum.splits)
  qed
  have "acyclic (edges (sample_tasks False))"
    using calculate_task_weights_spec [OF sample_tasks_wf, of False] e r(1) by (auto split: if_splits)
  with r show ?thesis by simp
qed

lemma circular_search_sound_witness:
  "\<exists>s. circular_search (sample_tasks True) [''a'', ''b'', ''c'', ''d''] = (Inr (), s) \<and>
    valid_chains s = [[''a'', ''d'', ''b''], [''a'', ''d'', ''c'']] \<and> is_loop (sample_tasks True) [''a'', ''d'', ''b'']"
proof -
  obtain s where s: "circular_search (sample_tasks True) [''a'', ''b'', ''c'', ''d''] = (Inr (), s)"
    "\<forall>c\<in>set (valid_chains s). is_loop (sample_tasks True) c"
    using circular_search_sound [OF sample_tasks_wf, of "[''a'', ''b'', ''c'', ''d'']" True]
    by (auto simp: sample_tasks_def dkeys_def)
  moreover have "valid_chains (snd (circular_search (sample_tasks True) [''a'', ''b'', ''c'', ''d''])) =
      [[''a'', ''d'', ''b''], [''a'', ''d'', ''c'']]"
    by code_simp
  ultimately show ?thesis by simp
qed

end
