(* ===== verification/RunQueueData.thy ===== *)
theory RunQueueData
  imports TaskData TaskGraph
begin

text \<open>
  Turning task data into a run queue: the steps of \<open>RunQueueData.prepare\<close> in \<open>bb/runqueue.py\<close>. Each
  task's dependency flags are resolved into task identifiers, recursive dependencies are completed,
  the tasks reachable from the requested ones are kept, and the graph is checked and weighed.

  There is one task data and one recipe cache per configuration. Progress events, log messages and
  the close-match suggestions are left out.
\<close>

section \<open>Resolving the dependencies of one task\<close>

type_synonym taskdatas = "(string, taskdata) dict"
type_synonym dcaches = "(string, dcache) dict"

definition dlookup :: "(string, 'v) dict \<Rightarrow> string \<Rightarrow> 'v res" where
  "dlookup d k = (case map_of d k of None \<Rightarrow> Inl (KeyError k) | Some v \<Rightarrow> Inr v)"

text \<open>The tasks \<open>tasknames\<close> of the chosen provider of each item, where they exist.\<close>

definition target_dependencies ::
  "(string, string list) dict \<Rightarrow> taskdata \<Rightarrow> string list \<Rightarrow> string list \<Rightarrow> string list \<Rightarrow> string list" where
  "target_dependencies targets td ids tasknames depends =
     fold (\<lambda>depname depends.
         case dget targets depname [] of
           [] \<Rightarrow> depends
         | depdata # _ \<Rightarrow>
             fold (\<lambda>taskname depends. let t = depdata @ '':'' @ taskname in
                 if has_key (taskentries td) t then sadd t depends else depends) tasknames depends)
       ids depends"

definition add_build_dependencies :: "taskdata \<Rightarrow> string list \<Rightarrow> string list \<Rightarrow> string list \<Rightarrow> string list" where
  "add_build_dependencies td ids tasknames depends =
     target_dependencies (build_targets td) td ids tasknames depends"

definition add_runtime_dependencies :: "taskdata \<Rightarrow> string list \<Rightarrow> string list \<Rightarrow> string list \<Rightarrow> string list" where
  "add_runtime_dependencies td ids tasknames depends =
     target_dependencies (run_targets td) td ids tasknames depends"

text \<open>
  \<open>add_mc_dependencies\<close>: every multiconfig dependency recorded for the configuration, whichever task
  asked for it, is added to the task's own list.
\<close>

definition add_mc_dependency ::
  "taskdatas \<Rightarrow> string \<Rightarrow> string \<Rightarrow> string list \<Rightarrow> string list res" where
  "add_mc_dependency tds mc dep added =
     (let parts = split_on CHR '':'' dep in
      if length parts < 5 then Inl IndexError
      else case map_of tds (parts ! 2) of
             None \<Rightarrow> Inl (Fatal (''Multiconfig is referenced but not enabled: '' @ dep))
           | Some td \<Rightarrow>
               if mc \<noteq> parts ! 1 then Inr added
               else rbind (dlookup (build_targets td) (parts ! 3)) (\<lambda>fns.
                 case fns of
                   [] \<Rightarrow> Inl IndexError
                 | fn # _ \<Rightarrow>
                     let newdep = fn @ '':'' @ parts ! 4 in
                     if \<not> has_key (taskentries td) newdep
                     then Inl (Fatal (''Task mcdepends on non-existent task '' @ newdep))
                     else Inr (added @ [newdep])))"

definition add_mc_dependencies :: "taskdatas \<Rightarrow> string \<Rightarrow> string \<Rightarrow> taskdatas res" where
  "add_mc_dependencies tds mc tid =
     rbind (dlookup tds mc) (\<lambda>td.
     rbind (rfold (add_mc_dependency tds mc) (mcdepends td) []) (\<lambda>added.
       let e = entry_of td tid
       in Inr (AList.update mc (td\<lparr>taskentries :=
            AList.update tid (e\<lparr>tdepends := tdepends e @ added\<rparr>) (taskentries td)\<rparr>) tds)))"

text \<open>The identifiers in \<open>tdepends\<close> are taken apart and rebuilt.\<close>

definition add_tdepend :: "string \<Rightarrow> string list \<Rightarrow> string list res" where
  "add_tdepend t depends =
     rbind (split_tid_mcfn t) (\<lambda>(depmc, depfn, deptaskname, _).
       Inr (sadd (build_tid depmc depfn deptaskname) depends))"

definition add_idepend :: "taskdata \<Rightarrow> string \<times> string \<Rightarrow> string list \<Rightarrow> string list res" where
  "add_idepend td d depends =
     (case d of (depname, idependtask) \<Rightarrow>
      case dget (build_targets td) depname [] of
        [] \<Rightarrow> Inr depends
      | depdata # _ \<Rightarrow>
          if depname \<in> set (failed_deps td) then Inr depends
          else let t = depdata @ '':'' @ idependtask in
            if has_key (taskentries td) t then Inr (sadd t depends)
            else Inl (Fatal (''depends upon non-existent task '' @ t)))"

definition add_irdepend :: "taskdata \<Rightarrow> string \<times> string \<Rightarrow> string list \<Rightarrow> string list res" where
  "add_irdepend td d depends =
     (case d of (depname, idependtask) \<Rightarrow>
      case dget (run_targets td) depname [] of
        [] \<Rightarrow> Inr depends
      | depdata # _ \<Rightarrow>
          let t = depdata @ '':'' @ idependtask in
          if has_key (taskentries td) t then Inr (sadd t depends)
          else Inl (Fatal (''rdepends upon non-existent task '' @ t)))"

record prep_state =
  pr_tasks :: run_tasks
  pr_tds :: taskdatas
  pr_recursive :: "(string, string list) dict"
  pr_recidep :: "(string, string list) dict"
  pr_selfref :: "string list"

definition flag_words :: "taskdeps \<Rightarrow> string \<Rightarrow> string \<Rightarrow> string list option" where
  "flag_words td name task = map_option words (task_flag td name task)"

text \<open>
  The dependencies a task states, before the recursive ones. The four kinds are added in the code's
  order, which only matters for which error is reported first.
\<close>

definition stated_depends ::
  "taskdeps \<Rightarrow> taskdata \<Rightarrow> string \<Rightarrow> string \<Rightarrow> string \<Rightarrow> string list res" where
  "stated_depends flags td tid taskname taskfn =
     rbind (rfold add_tdepend (tdepends (entry_of td tid)) []) (\<lambda>depends.
     rbind (case flag_words flags ''deptask'' taskname of
              None \<Rightarrow> Inr depends
            | Some tasknames \<Rightarrow> rbind (dlookup (depids td) taskfn) (\<lambda>ids.
                Inr (add_build_dependencies td ids tasknames depends))) (\<lambda>depends.
     rbind (case flag_words flags ''rdeptask'' taskname of
              None \<Rightarrow> Inr depends
            | Some tasknames \<Rightarrow> rbind (dlookup (rdepids td) taskfn) (\<lambda>ids.
                Inr (add_runtime_dependencies td ids tasknames depends))) (\<lambda>depends.
     rbind (rfold (add_idepend td) (idepends (entry_of td tid)) depends) (\<lambda>depends.
     rbind (rfold (add_irdepend td) (irdepends (entry_of td tid)) depends) (\<lambda>depends.
     case flag_words flags ''recrdeptask'' taskname of
       None \<Rightarrow> Inr depends
     | Some tasknames \<Rightarrow>
         rbind (dlookup (depids td) taskfn) (\<lambda>ids.
         rbind (dlookup (rdepids td) taskfn) (\<lambda>rids.
         Inr (add_runtime_dependencies td rids tasknames
                (add_build_dependencies td ids tasknames depends)))))))))"

definition note_recursive :: "taskdeps \<Rightarrow> string \<Rightarrow> string \<Rightarrow> string \<Rightarrow> string \<Rightarrow> prep_state \<Rightarrow> prep_state" where
  "note_recursive flags tid mc fn taskname p =
     (case flag_words flags ''recrdeptask'' taskname of
        None \<Rightarrow> p
      | Some tasknames \<Rightarrow>
          let p = p\<lparr>pr_recursive := AList.update tid tasknames (pr_recursive p),
                    pr_selfref := (if taskname \<in> set tasknames then sadd tid (pr_selfref p) else pr_selfref p)\<rparr>
          in case flag_words flags ''recideptask'' taskname of
               None \<Rightarrow> p
             | Some ts \<Rightarrow> p\<lparr>pr_recidep := AList.update tid (map (build_tid mc fn) ts) (pr_recidep p)\<rparr>)"

definition prepare_task :: "dcaches \<Rightarrow> string \<Rightarrow> prep_state \<Rightarrow> prep_state res" where
  "prepare_task dcs tid p =
     rbind (split_tid_mcfn tid) (\<lambda>(mc, fn, taskname, taskfn).
     rbind (dlookup dcs mc) (\<lambda>dc.
     rbind (dlookup (task_deps dc) taskfn) (\<lambda>flags.
     rbind (dlookup (pr_tds p) mc) (\<lambda>td.
       let p = p\<lparr>pr_tasks := AList.update tid new_task (pr_tasks p)\<rparr> in
       if fn \<in> set (failed_fns td) then Inr p
       else
         rbind (case task_flag flags ''mcdepends'' taskname of
                  None \<Rightarrow> Inr (pr_tds p)
                | Some _ \<Rightarrow> add_mc_dependencies (pr_tds p) mc tid) (\<lambda>tds.
         rbind (dlookup tds mc) (\<lambda>td.
         rbind (stated_depends flags td tid taskname taskfn) (\<lambda>depends.
           let p = note_recursive flags tid mc fn taskname (p\<lparr>pr_tds := tds\<rparr>)
           in Inr (p\<lparr>pr_tasks := AList.update tid
                  (new_task\<lparr>rte_depends := filter (\<lambda>d. d \<noteq> tid) depends\<rparr>) (pr_tasks p)\<rparr>))))))))"

definition prepare_tasks :: "dcaches \<Rightarrow> taskdatas \<Rightarrow> prep_state res" where
  "prepare_tasks dcs tds =
     rfold (\<lambda>(mc, td) p. rfold (prepare_task dcs) (dkeys (taskentries td)) p) tds
       \<lparr>pr_tasks = [], pr_tds = tds, pr_recursive = [], pr_recidep = [], pr_selfref = []\<rparr>"

end
