(* ===== verification/RecursiveDeps.thy ===== *)
theory RecursiveDeps
  imports RunQueueData
begin

text \<open>
  Part B of the dependency resolution of \<open>RunQueueData.prepare\<close>: the files each task depends on,
  directly or not (\<open>cumulativedeps\<close>), and the tasks that \<open>recrdeptask\<close> adds from them, repeated until
  nothing more is added.

  The two loops run on fuel; the theorems show that the fuel given is always enough.
\<close>

section \<open>Cumulative dependencies\<close>

text \<open>A dependency that is not a task of the queue raises \<open>KeyError\<close> here.\<close>

definition note_revdep :: "run_tasks \<Rightarrow> string \<Rightarrow> string \<Rightarrow> (string \<Rightarrow> string list) \<Rightarrow> (string \<Rightarrow> string list) res" where
  "note_revdep rts tid dep r =
     (if has_key rts dep then Inr (r(dep := sadd tid (r dep))) else Inl (KeyError dep))"

definition collect_revdeps :: "run_tasks \<Rightarrow> (string \<Rightarrow> string list) res" where
  "collect_revdeps rts =
     rfold (\<lambda>tid r. rfold (note_revdep rts tid) (depends_of rts tid) r) (dkeys rts) (\<lambda>_. [])"

record cumulation =
  cu_left :: "string \<Rightarrow> string list"
  cu_names :: "string \<Rightarrow> string list"

definition cumul_edge :: "string \<Rightarrow> string \<Rightarrow> cumulation \<times> string list \<Rightarrow> cumulation \<times> string list" where
  "cumul_edge tid dep st =
     (case st of (c, found) \<Rightarrow>
      let names = sunion (sadd (fn_from_tid tid) (cu_names c dep)) (cu_names c tid);
          left = filter (\<lambda>d. d \<noteq> tid) (cu_left c dep)
      in (c\<lparr>cu_left := (cu_left c)(dep := left), cu_names := (cu_names c)(dep := names)\<rparr>,
          if left = [] then sadd dep found else found))"

definition cumul_task :: "(string \<Rightarrow> string list) \<Rightarrow> string \<Rightarrow> cumulation \<times> string list \<Rightarrow> cumulation \<times> string list" where
  "cumul_task rd tid st = fold (cumul_edge tid) (rd tid) st"

primrec cumul_loop :: "nat \<Rightarrow> (string \<Rightarrow> string list) \<Rightarrow> string list \<Rightarrow> cumulation \<Rightarrow> cumulation res" where
  "cumul_loop 0 rd endpoints c = Inl OutOfFuel"
| "cumul_loop (Suc n) rd endpoints c =
     (if endpoints = [] then Inr c
      else case fold (cumul_task rd) endpoints (c, []) of (c, found) \<Rightarrow> cumul_loop n rd found c)"

definition cumulative_deps :: "run_tasks \<Rightarrow> cumulation res" where
  "cumulative_deps rts =
     rbind (collect_revdeps rts) (\<lambda>rd.
       cumul_loop (Suc (length rts)) rd (filter (\<lambda>tid. depends_of rts tid = []) (dkeys rts))
         \<lparr>cu_left = depends_of rts, cu_names = (\<lambda>_. [])\<rparr>)"

section \<open>Recursive dependencies\<close>

definition add_depend :: "string \<Rightarrow> string \<Rightarrow> run_tasks \<Rightarrow> run_tasks" where
  "add_depend tid newtid rts =
     AList.update tid ((dget rts tid new_task)\<lparr>rte_depends := sadd newtid (depends_of rts tid)\<rparr>) rts"

definition total_deps :: "(string, string list) dict \<Rightarrow> run_tasks \<Rightarrow> string \<Rightarrow> string list" where
  "total_deps recidep rts tid =
     (case map_of recidep tid of
        None \<Rightarrow> depends_of rts tid
      | Some ideps \<Rightarrow>
          fold (\<lambda>dep acc. if has_key rts dep then sunion acc (depends_of rts dep) else acc) ideps
            (sunion (depends_of rts tid) ideps))"

definition recipe_names :: "cumulation \<Rightarrow> run_tasks \<Rightarrow> string list \<Rightarrow> string list" where
  "recipe_names c rts ds =
     fold (\<lambda>dep acc. if has_key rts dep then sunion acc (cu_names c dep) else acc) ds []"

text \<open>The state of the loop is the tasks and the number of dependencies added in this round.\<close>

definition add_recipe_task ::
  "string \<Rightarrow> string \<times> string \<Rightarrow> run_tasks \<times> nat \<Rightarrow> run_tasks \<times> nat" where
  "add_recipe_task tid nt st =
     (case nt of (name, taskname) \<Rightarrow> case st of (rts, extradeps) \<Rightarrow>
      let newtid = name @ '':'' @ taskname in
      if newtid \<noteq> tid \<and> has_key rts newtid \<and> newtid \<notin> set (depends_of rts tid)
      then (add_depend tid newtid rts, Suc extradeps) else (rts, extradeps))"

definition other_deps :: "(string, string list) dict \<Rightarrow> run_tasks \<Rightarrow> string \<Rightarrow> string list" where
  "other_deps rectasks rts tid =
     fold (\<lambda>dep acc. sunion acc (filter (\<lambda>d. d \<notin> set (depends_of rts tid)) (depends_of rts dep)))
       (filter (has_key rectasks) (depends_of rts tid)) []"

definition add_other_task ::
  "string \<Rightarrow> string \<times> string \<Rightarrow> run_tasks \<times> nat \<Rightarrow> run_tasks \<times> nat" where
  "add_other_task tid nt st =
     (case nt of (newtid, taskname) \<Rightarrow> case st of (rts, extradeps) \<Rightarrow>
      if suffix ('':'' @ taskname) newtid \<and> has_key rts newtid
      then (add_depend tid newtid rts, Suc extradeps) else (rts, extradeps))"

definition extend_task ::
  "cumulation \<Rightarrow> (string, string list) dict \<Rightarrow> (string, string list) dict \<Rightarrow> string \<times> string list \<Rightarrow>
    run_tasks \<times> nat \<Rightarrow> run_tasks \<times> nat" where
  "extend_task c rectasks recidep rt st =
     (case rt of (tid, tasknames) \<Rightarrow>
      let st = fold (add_recipe_task tid)
                 (List.product (recipe_names c (fst st) (total_deps recidep (fst st) tid)) tasknames) st
      in fold (add_other_task tid) (List.product (other_deps rectasks (fst st) tid) tasknames) st)"

primrec recursive_loop ::
  "nat \<Rightarrow> cumulation \<Rightarrow> (string, string list) dict \<Rightarrow> (string, string list) dict \<Rightarrow> run_tasks \<Rightarrow> run_tasks res" where
  "recursive_loop 0 c rectasks recidep rts = Inl OutOfFuel"
| "recursive_loop (Suc n) c rectasks recidep rts =
     (case fold (extend_task c rectasks recidep) rectasks (rts, 0) of (rts, extradeps) \<Rightarrow>
        if extradeps = 0 then Inr rts else recursive_loop n c rectasks recidep rts)"

definition drop_selfref :: "string list \<Rightarrow> run_tasks \<Rightarrow> run_tasks" where
  "drop_selfref selfref rts =
     fold (\<lambda>tid rts. AList.update tid ((dget rts tid new_task)
         \<lparr>rte_depends := filter (\<lambda>d. d \<notin> set selfref) (depends_of rts tid)\<rparr>) rts) selfref rts"

text \<open>Part B as a whole.\<close>

definition recursive_deps ::
  "(string, string list) dict \<Rightarrow> (string, string list) dict \<Rightarrow> string list \<Rightarrow> run_tasks \<Rightarrow> run_tasks res" where
  "recursive_deps rectasks recidep selfref rts =
     rbind (cumulative_deps rts) (\<lambda>c.
     rbind (recursive_loop (Suc (length rectasks * length rts)) c rectasks recidep rts) (\<lambda>rts.
       Inr (drop_selfref selfref rts)))"


section \<open>Reverse dependencies: the specification\<close>

definition closed_deps :: "run_tasks \<Rightarrow> bool" where
  "closed_deps rts \<longleftrightarrow> (\<forall>t\<in>set (dkeys rts). set (depends_of rts t) \<subseteq> set (dkeys rts))"

lemma sadd_idem [simp]: "sadd x (sadd x xs) = sadd x xs"
  by (simp add: sadd_def)

lemma note_revdep_in: "d \<in> set (dkeys rts) \<Longrightarrow> note_revdep rts tid d r = Inr (r(d := sadd tid (r d)))"
  by (simp add: note_revdep_def has_key_iff)

lemma note_revdeps:
  assumes "set ds \<subseteq> set (dkeys rts)"
  shows "rfold (note_revdep rts tid) ds r = Inr (\<lambda>d. if d \<in> set ds then sadd tid (r d) else r d)"
  using assms
proof (induction ds arbitrary: r)
  case Nil
  then show ?case by simp
next
  case (Cons d ds)
  then have "rfold (note_revdep rts tid) (d # ds) r =
      Inr (\<lambda>d'. if d' \<in> set ds then sadd tid ((r(d := sadd tid (r d))) d') else (r(d := sadd tid (r d))) d')"
    using Cons.IH [of "r(d := sadd tid (r d))"] Cons.prems note_revdep_in [of d rts tid r] by simp
  also have "\<dots> = Inr (\<lambda>d'. if d' \<in> set (d # ds) then sadd tid (r d') else r d')"
    by (intro arg_cong [where f = Inr] ext) auto
  finally show ?case .
qed

lemma note_revdeps_missing:
  assumes "\<not> set ds \<subseteq> set (dkeys rts)"
  shows "\<exists>k. rfold (note_revdep rts tid) ds r = Inl (KeyError k) \<and> k \<in> set ds - set (dkeys rts)"
  using assms
proof (induction ds arbitrary: r)
  case Nil
  then show ?case by simp
next
  case (Cons d ds)
  show ?case
  proof (cases "d \<in> set (dkeys rts)")
    case True
    then have "\<not> set ds \<subseteq> set (dkeys rts)" using Cons.prems by simp
    then obtain k where "rfold (note_revdep rts tid) ds (r(d := sadd tid (r d))) = Inl (KeyError k)"
      "k \<in> set ds - set (dkeys rts)" using Cons.IH by blast
    then show ?thesis unfolding rfold.simps note_revdep_in [OF True] rbind_Inr by auto
  next
    case False
    then show ?thesis by (simp add: note_revdep_def has_key_iff)
  qed
qed

definition revdeps_over :: "run_tasks \<Rightarrow> string set \<Rightarrow> (string \<Rightarrow> string list) \<Rightarrow> bool" where
  "revdeps_over rts D r \<longleftrightarrow>
     (\<forall>d. distinct (r d) \<and> set (r d) = {t \<in> D. d \<in> set (depends_of rts t)})"

lemma note_task_revdeps:
  assumes "revdeps_over rts D r"
  shows "revdeps_over rts (insert t D) (\<lambda>d. if d \<in> set (depends_of rts t) then sadd t (r d) else r d)"
  using assms by (auto simp: revdeps_over_def)

lemma collect_revdeps_total:
  assumes "closed_deps rts" and "distinct (dkeys rts)"
  shows "\<exists>r. collect_revdeps rts = Inr r \<and> revdeps_over rts (set (dkeys rts)) r"
proof -
  have "\<exists>r. collect_revdeps rts = Inr r \<and> revdeps_over rts ({} \<union> set (dkeys rts)) r"
    unfolding collect_revdeps_def
  proof (rule rfold_progress_total [OF assms(2)])
    show "revdeps_over rts {} (\<lambda>_. [])" by (simp add: revdeps_over_def)
    fix t r D assume "t \<in> set (dkeys rts)" "revdeps_over rts D r"
    then show "\<exists>v. rfold (note_revdep rts t) (depends_of rts t) r = Inr v \<and> revdeps_over rts (insert t D) v"
      using assms(1) by (simp add: closed_deps_def note_revdeps note_task_revdeps)
  qed simp
  then show ?thesis by simp
qed

lemma rfold_error:
  assumes "x \<in> set xs" and "\<And>u. \<exists>e. f x u = Inl e \<and> Q e"
    and "\<And>y u. y \<in> set xs \<Longrightarrow> (\<exists>v. f y u = Inr v) \<or> (\<exists>e. f y u = Inl e \<and> Q e)"
  shows "\<exists>e. rfold f xs s = Inl e \<and> Q e"
  using assms
proof (induction xs arbitrary: s)
  case Nil
  then show ?case by simp
next
  case (Cons y ys)
  show ?case
  proof (cases "f y s")
    case (Inl e)
    then have "Q e" using Cons.prems(3) [of y s] by auto
    then show ?thesis using Inl by simp
  next
    case (Inr v)
    then have "x \<in> set ys" using Cons.prems(1,2) by (metis Inl_Inr_False set_ConsD)
    then have "\<exists>e. rfold f ys v = Inl e \<and> Q e"
      using Cons.prems(2,3) by (intro Cons.IH) auto
    then show ?thesis using Inr by simp
  qed
qed

lemma collect_revdeps_missing:
  assumes "\<not> closed_deps rts"
  shows "\<exists>k. collect_revdeps rts = Inl (KeyError k) \<and> k \<notin> set (dkeys rts)"
proof -
  let ?f = "\<lambda>tid r. rfold (note_revdep rts tid) (depends_of rts tid) r"
  let ?Q = "\<lambda>e. \<exists>k. e = KeyError k \<and> k \<notin> set (dkeys rts)"
  obtain t where t: "t \<in> set (dkeys rts)" "\<not> set (depends_of rts t) \<subseteq> set (dkeys rts)"
    using assms by (auto simp: closed_deps_def)
  have "\<exists>e. rfold ?f (dkeys rts) (\<lambda>_. []) = Inl e \<and> ?Q e"
  proof (rule rfold_error [OF t(1)])
    fix u show "\<exists>e. ?f t u = Inl e \<and> ?Q e"
      using note_revdeps_missing [OF t(2), of t u] by auto
  next
    fix y u
    show "(\<exists>v. ?f y u = Inr v) \<or> (\<exists>e. ?f y u = Inl e \<and> ?Q e)"
      using note_revdeps [of "depends_of rts y" rts y u] note_revdeps_missing [of "depends_of rts y" rts y u]
      by auto
  qed
  then show ?thesis by (auto simp: collect_revdeps_def)
qed


section \<open>Cumulative dependencies: the specification\<close>

text \<open>\<open>X\<close> are the dependencies that have been walked, as pairs of a task and what it depends on.\<close>

definition cumul_inv :: "run_tasks \<Rightarrow> (string \<times> string) set \<Rightarrow> cumulation \<Rightarrow> bool" where
  "cumul_inv rts X c \<longleftrightarrow> X \<subseteq> edges rts \<and>
     (\<forall>t\<in>set (dkeys rts). set (cu_left c t) = {d. (t, d) \<in> edges rts - X} \<and>
        set (cu_names c t) = (\<Union>d\<in>{d. (t, d) \<in> X}. insert (fn_from_tid d) (set (cu_names c d))) \<and>
        set (cu_names c t) \<subseteq> fn_from_tid ` ((edges rts)\<^sup>+ `` {t})) \<and>
     (\<forall>t d. (t, d) \<in> X \<longrightarrow> cu_left c d = [])"

lemma cumul_edge_inv:
  assumes inv: "cumul_inv rts X c" and d: "cu_left c d = []" "d \<in> set (dkeys rts)"
    and e: "(t, d) \<in> edges rts" and new: "(t, d) \<notin> X"
  shows "\<exists>c'. cumul_edge d t (c, found) = (c', if cu_left c' t = [] then sadd t found else found) \<and>
    cumul_inv rts (insert (t, d) X) c' \<and> cu_left c t \<noteq> [] \<and> (\<forall>u. u \<noteq> t \<longrightarrow> cu_left c' u = cu_left c u)"
proof -
  define c' where "c' = c\<lparr>cu_left := (cu_left c)(t := filter (\<lambda>x. x \<noteq> d) (cu_left c t)),
    cu_names := (cu_names c)(t := sunion (sadd (fn_from_tid d) (cu_names c t)) (cu_names c d))\<rparr>"
  have c': "cu_left c' = (cu_left c)(t := filter (\<lambda>x. x \<noteq> d) (cu_left c t))"
    "cu_names c' = (cu_names c)(t := sunion (sadd (fn_from_tid d) (cu_names c t)) (cu_names c d))"
    by (simp_all add: c'_def)
  have t: "t \<in> set (dkeys rts)" using e by (simp add: edges_def)
  note inv_at = inv [unfolded cumul_inv_def, THEN conjunct2, THEN conjunct1, THEN bspec]
  have left: "d \<in> set (cu_left c t)" using inv_at [OF t] e new by auto
  then have "t \<noteq> d" using d(1) by auto
  have used: "(u, t) \<notin> X" for u
    using inv left unfolding cumul_inv_def by auto
  have names_u: "set (cu_names c' u) = (\<Union>x\<in>{x. (u, x) \<in> insert (t, d) X}. insert (fn_from_tid x) (set (cu_names c' x)))"
    if u: "u \<in> set (dkeys rts)" for u
  proof -
    have "(\<Union>x\<in>{x. (u, x) \<in> X}. insert (fn_from_tid x) (set (cu_names c' x))) =
        (\<Union>x\<in>{x. (u, x) \<in> X}. insert (fn_from_tid x) (set (cu_names c x)))"
      using used [of u] by (intro SUP_cong) (auto simp: c'(2))
    also have "\<dots> = set (cu_names c u)" using inv_at [OF u] by simp
    finally have old: "(\<Union>x\<in>{x. (u, x) \<in> X}. insert (fn_from_tid x) (set (cu_names c' x))) = set (cu_names c u)" .
    show ?thesis
    proof (cases "u = t")
      case True
      have "{x. (t, x) \<in> insert (t, d) X} = insert d {x. (t, x) \<in> X}" by auto
      then show ?thesis using old True \<open>t \<noteq> d\<close> by (simp add: c'(2)) blast
    next
      case False
      then have "{x. (u, x) \<in> insert (t, d) X} = {x. (u, x) \<in> X}" by auto
      then show ?thesis using old False by (simp add: c'(2))
    qed
  qed
  have "(t, d) \<in> (edges rts)\<^sup>+" using e by blast
  then have below: "(edges rts)\<^sup>+ `` {d} \<subseteq> (edges rts)\<^sup>+ `` {t}" by auto
  have "cumul_inv rts (insert (t, d) X) c'"
    unfolding cumul_inv_def
  proof (intro conjI ballI allI impI)
    show "insert (t, d) X \<subseteq> edges rts" using inv e by (simp add: cumul_inv_def)
    fix u assume u: "u \<in> set (dkeys rts)"
    show "set (cu_left c' u) = {x. (u, x) \<in> edges rts - insert (t, d) X}"
      using inv_at [OF u] by (auto simp: c'(1))
    show "set (cu_names c' u) = (\<Union>x\<in>{x. (u, x) \<in> insert (t, d) X}. insert (fn_from_tid x) (set (cu_names c' x)))"
      by (rule names_u [OF u])
    show "set (cu_names c' u) \<subseteq> fn_from_tid ` ((edges rts)\<^sup>+ `` {u})"
    proof (cases "u = t")
      case True
      have "set (cu_names c' t) = insert (fn_from_tid d) (set (cu_names c t) \<union> set (cu_names c d))"
        by (simp add: c'(2))
      moreover have "fn_from_tid d \<in> fn_from_tid ` ((edges rts)\<^sup>+ `` {t})"
        using \<open>(t, d) \<in> (edges rts)\<^sup>+\<close> by blast
      moreover have "set (cu_names c d) \<subseteq> fn_from_tid ` ((edges rts)\<^sup>+ `` {t})"
        using inv_at [OF d(2), THEN conjunct2, THEN conjunct2] image_mono [OF below] by (rule subset_trans)
      moreover note inv_at [OF t, THEN conjunct2, THEN conjunct2]
      ultimately show ?thesis unfolding True by (simp only: insert_subset Un_subset_iff simp_thms)
    next
      case False
      then show ?thesis using inv_at [OF u, THEN conjunct2, THEN conjunct2] by (simp add: c'(2))
    qed
  next
    fix u x assume "(u, x) \<in> insert (t, d) X"
    then show "cu_left c' x = []"
      using inv d(1) \<open>t \<noteq> d\<close> used [of u] by (auto simp: cumul_inv_def c'(1))
  qed
  moreover have "cumul_edge d t (c, found) = (c', if cu_left c' t = [] then sadd t found else found)"
    by (simp add: cumul_edge_def Let_def c'_def)
  ultimately show ?thesis using left by (intro exI [of _ c']) (auto simp: c'(1))
qed


text \<open>One round: the tasks of \<open>P\<close> have been dealt with, those of \<open>F\<close> are the endpoints.\<close>

definition depends_into :: "run_tasks \<Rightarrow> string set \<Rightarrow> (string \<times> string) set" where
  "depends_into rts P = {(t, d). (t, d) \<in> edges rts \<and> d \<in> P}"

definition frontier :: "run_tasks \<Rightarrow> string set \<Rightarrow> (string \<times> string) set \<Rightarrow> cumulation \<times> string list \<Rightarrow> bool" where
  "frontier rts D X st \<longleftrightarrow> (case st of (c, found) \<Rightarrow> cumul_inv rts X c \<and> distinct found \<and>
     set found \<subseteq> set (dkeys rts) - D \<and> (\<forall>t\<in>set (dkeys rts). cu_left c t = [] \<longleftrightarrow> t \<in> D \<union> set found))"

lemma fold_progress:
  assumes "distinct xs" and "D \<inter> set xs = {}" and "P D s"
    and "\<And>x u E. x \<in> set xs \<Longrightarrow> x \<notin> E \<Longrightarrow> P E u \<Longrightarrow> P (insert x E) (f x u)"
  shows "P (D \<union> set xs) (fold f xs s)"
  using assms
proof (induction xs arbitrary: s D)
  case Nil
  then show ?case by simp
next
  case (Cons x xs)
  have "P (insert x D) (f x s)" using Cons.prems by (intro Cons.prems(4)) auto
  then have "P (insert x D \<union> set xs) (fold f xs (f x s))"
    using Cons.prems by (intro Cons.IH) auto
  then show ?case by simp
qed

lemma cumul_task_frontier:
  assumes rd: "revdeps_over rts (set (dkeys rts)) rd" and st: "frontier rts D X st"
    and d: "d \<in> set (dkeys rts)" "d \<in> D" and new: "\<And>t. (t, d) \<notin> X"
  shows "frontier rts D (X \<union> {(t, d) |t. (t, d) \<in> edges rts}) (cumul_task rd d st)"
proof -
  let ?P = "\<lambda>E. frontier rts D (X \<union> E \<times> {d})"
  have rd_d: "set (rd d) = {t. (t, d) \<in> edges rts}" "distinct (rd d)"
    using rd by (auto simp: revdeps_over_def edges_def)
  have "?P ({} \<union> set (rd d)) (fold (cumul_edge d) (rd d) st)"
  proof (rule fold_progress)
    show "?P {} st" using st by simp
    fix t u E assume t: "t \<in> set (rd d)" "t \<notin> E" and u: "?P E u"
    obtain c found where u_eq: "u = (c, found)" by (cases u)
    have inv: "cumul_inv rts (X \<union> E \<times> {d}) c" and left: "cu_left c d = []"
      using u d by (auto simp: frontier_def u_eq)
    have e: "(t, d) \<in> edges rts" and n: "(t, d) \<notin> X \<union> E \<times> {d}" using t rd_d new by auto
    obtain c' where c': "cumul_edge d t (c, found) = (c', if cu_left c' t = [] then sadd t found else found)"
      "cumul_inv rts (insert (t, d) (X \<union> E \<times> {d})) c'" "cu_left c t \<noteq> []"
      "\<forall>u. u \<noteq> t \<longrightarrow> cu_left c' u = cu_left c u"
      using cumul_edge_inv [OF inv left d(1) e n] by blast
    have tk: "t \<in> set (dkeys rts)" using e by (simp add: edges_def)
    have "insert (t, d) (X \<union> E \<times> {d}) = X \<union> insert t E \<times> {d}" by auto
    moreover have "t \<notin> D \<union> set found" using u c'(3) tk by (auto simp: frontier_def u_eq)
    ultimately show "?P (insert t E) (cumul_edge d t u)"
      using u c'(1,2,4) tk by (auto simp: frontier_def u_eq)
  qed (use rd_d in auto)
  moreover have "set (rd d) \<times> {d} = {(t, d) |t. (t, d) \<in> edges rts}" using rd_d by auto
  ultimately show ?thesis by (simp add: cumul_task_def)
qed

lemma cumul_round:
  assumes rd: "revdeps_over rts (set (dkeys rts)) rd"
    and inv: "frontier rts P (depends_into rts P) (c, F)"
  shows "frontier rts (P \<union> set F) (depends_into rts (P \<union> set F)) (fold (cumul_task rd) F (c, []))"
proof -
  let ?P = "\<lambda>E. frontier rts (P \<union> set F) (depends_into rts (P \<union> E))"
  have "?P ({} \<union> set F) (fold (cumul_task rd) F (c, []))"
  proof (rule fold_progress)
    show "distinct F" "?P {} (c, [])" using inv by (auto simp: frontier_def)
    fix d u E assume d: "d \<in> set F" "d \<notin> E" and u: "?P E u"
    have "d \<notin> P" using d inv by (auto simp: frontier_def)
    then have n: "(t, d) \<notin> depends_into rts (P \<union> E)" for t using d by (simp add: depends_into_def)
    have "depends_into rts (P \<union> E) \<union> {(t, d) |t. (t, d) \<in> edges rts} = depends_into rts (P \<union> insert d E)"
      by (auto simp: depends_into_def)
    moreover have "d \<in> set (dkeys rts)" "d \<in> P \<union> set F" using d inv by (auto simp: frontier_def)
    ultimately show "?P (insert d E) (cumul_task rd d u)" using cumul_task_frontier [OF rd u _ _ n] by metis
  qed simp
  then show ?thesis by simp
qed

lemma cumul_loop_total:
  assumes rd: "revdeps_over rts (set (dkeys rts)) rd"
    and "frontier rts P (depends_into rts P) (c, F)" and "card (set (dkeys rts) - P) < n"
  shows "\<exists>c' P'. cumul_loop n rd F c = Inr c' \<and> frontier rts P' (depends_into rts P') (c', [])"
  using assms(2-)
proof (induction n arbitrary: P F c)
  case 0
  then show ?case by simp
next
  case (Suc n)
  show ?case
  proof (cases "F = []")
    case True
    then show ?thesis using Suc.prems by auto
  next
    case False
    obtain c1 F1 where r: "fold (cumul_task rd) F (c, []) = (c1, F1)" by (meson surj_pair)
    have fr: "frontier rts (P \<union> set F) (depends_into rts (P \<union> set F)) (c1, F1)"
      using cumul_round [OF rd Suc.prems(1)] by (simp add: r)
    have "set (dkeys rts) - (P \<union> set F) \<subset> set (dkeys rts) - P"
      using False Suc.prems(1) by (cases F) (auto simp: frontier_def)
    then have "card (set (dkeys rts) - (P \<union> set F)) < card (set (dkeys rts) - P)"
      by (intro psubset_card_mono) auto
    then show ?thesis using Suc.IH [OF fr] Suc.prems(2) False by (simp add: r)
  qed
qed


lemma cumulative_deps_total:
  assumes "closed_deps rts" and "distinct (dkeys rts)"
  shows "\<exists>c P. cumulative_deps rts = Inr c \<and> frontier rts P (depends_into rts P) (c, [])"
proof -
  let ?c0 = "\<lparr>cu_left = depends_of rts, cu_names = (\<lambda>_. [])\<rparr>"
  let ?F = "filter (\<lambda>tid. depends_of rts tid = []) (dkeys rts)"
  obtain rd where rd: "collect_revdeps rts = Inr rd" "revdeps_over rts (set (dkeys rts)) rd"
    using collect_revdeps_total [OF assms] by blast
  have "cumul_inv rts {} ?c0" by (auto simp: cumul_inv_def edges_def)
  then have "frontier rts {} (depends_into rts {}) (?c0, ?F)"
    using assms(2) by (auto simp: frontier_def depends_into_def)
  moreover have "card (set (dkeys rts) - {}) < Suc (length rts)"
    using card_length [of "dkeys rts"] by (simp add: dkeys_def)
  ultimately have "\<exists>c P. cumul_loop (Suc (length rts)) rd ?F ?c0 = Inr c \<and> frontier rts P (depends_into rts P) (c, [])"
    using cumul_loop_total [OF rd(2)] by blast
  then show ?thesis by (simp add: cumulative_deps_def rd(1))
qed

lemma cumul_inv_names:
  assumes "cumul_inv rts X c" and "t \<in> set (dkeys rts)"
  shows "set (cu_names c t) \<subseteq> fn_from_tid ` ((edges rts)\<^sup>+ `` {t})"
    and "\<And>d. (t, d) \<in> X \<Longrightarrow> insert (fn_from_tid d) (set (cu_names c d)) \<subseteq> set (cu_names c t)"
    and "cu_left c t = [] \<Longrightarrow> (t, d) \<in> edges rts \<Longrightarrow> (t, d) \<in> X"
  using assms unfolding cumul_inv_def by (blast, fast, fastforce)

lemma frontier_complete:
  assumes cl: "closed_deps rts" and fr: "frontier rts P (depends_into rts P) (c, [])"
    and t: "t \<in> set (dkeys rts)"
    and loop_free: "\<And>u. (t, u) \<in> (edges rts)\<^sup>* \<Longrightarrow> (u, u) \<notin> (edges rts)\<^sup>+"
  shows "t \<in> P \<and> fn_from_tid ` ((edges rts)\<^sup>+ `` {t}) \<subseteq> set (cu_names c t)"
proof -
  let ?r = "edges rts"
  let ?s = "{(u, v). (u, v) \<in> ?r \<and> (t, u) \<in> ?r\<^sup>*}"
  have fin: "finite ?r"
    by (rule finite_subset [of _ "Sigma (set (dkeys rts)) (\<lambda>t. set (depends_of rts t))"]) (auto simp: edges_def)
  have sub: "?s\<^sup>+ \<subseteq> ?r\<^sup>+" by (intro trancl_mono_subset) auto
  have "acyclic ?s"
  proof (rule acyclicI, intro allI notI)
    fix u assume u: "(u, u) \<in> ?s\<^sup>+"
    then have "(t, u) \<in> ?r\<^sup>*" by (auto elim: converse_tranclE)
    with u sub loop_free show False by blast
  qed
  moreover have "finite ?s" by (rule finite_subset [OF _ fin]) auto
  ultimately have wfs: "wf (?s\<inverse>)" by (simp add: finite_acyclic_wf_converse)
  have inv: "cumul_inv rts (depends_into rts P) c"
    and left: "\<And>u. u \<in> set (dkeys rts) \<Longrightarrow> cu_left c u = [] \<longleftrightarrow> u \<in> P" using fr by (auto simp: frontier_def)
  have "(t, u) \<in> ?r\<^sup>* \<longrightarrow> u \<in> set (dkeys rts) \<longrightarrow> u \<in> P \<and> fn_from_tid ` (?r\<^sup>+ `` {u}) \<subseteq> set (cu_names c u)" for u
  proof (induction u rule: wf_induct_rule [OF wfs])
    case (1 u)
    show ?case
    proof (intro impI)
      assume u: "(t, u) \<in> ?r\<^sup>*" "u \<in> set (dkeys rts)"
      have below: "v \<in> P \<and> fn_from_tid ` (?r\<^sup>+ `` {v}) \<subseteq> set (cu_names c v)" if v: "(u, v) \<in> ?r" for v
      proof -
        have "v \<in> set (dkeys rts)" using v u(2) cl by (auto simp: edges_def closed_deps_def)
        moreover have "(t, v) \<in> ?r\<^sup>*" using u(1) v by (rule rtrancl_into_rtrancl)
        ultimately show ?thesis using 1 [of v] u v by auto
      qed
      then have "{v. (u, v) \<in> ?r - depends_into rts P} = {}" by (auto simp: depends_into_def)
      moreover have "set (cu_left c u) = {v. (u, v) \<in> ?r - depends_into rts P}"
        using inv u(2) unfolding cumul_inv_def by blast
      ultimately have "set (cu_left c u) = {}" by (simp only:)
      then have "cu_left c u = []" by simp
      then have "u \<in> P" using left [OF u(2)] by simp
      moreover have "fn_from_tid w \<in> set (cu_names c u)" if uw: "(u, w) \<in> ?r\<^sup>+" for w
      proof -
        consider "(u, w) \<in> ?r" | v where "(u, v) \<in> ?r" "(v, w) \<in> ?r\<^sup>+"
          using uw by (auto elim: converse_tranclE)
        then show ?thesis
        proof cases
          case 1
          then have "(u, w) \<in> depends_into rts P" using below by (simp add: depends_into_def)
          then show ?thesis using cumul_inv_names(2) [OF inv u(2)] by blast
        next
          case (2 v)
          then have "(u, v) \<in> depends_into rts P" using below by (simp add: depends_into_def)
          then have "set (cu_names c v) \<subseteq> set (cu_names c u)" using cumul_inv_names(2) [OF inv u(2)] by blast
          moreover have "fn_from_tid w \<in> set (cu_names c v)" using below [OF 2(1)] 2(2) by blast
          ultimately show ?thesis by blast
        qed
      qed
      ultimately show "u \<in> P \<and> fn_from_tid ` (?r\<^sup>+ `` {u}) \<subseteq> set (cu_names c u)" by blast
    qed
  qed
  then show ?thesis using t by blast
qed

text \<open>When every dependency names a task, collecting the cumulative dependencies always ends, even on
  a graph with loops; the recipe files collected for a task are only files of tasks it depends on,
  directly or not, and all of them when no dependency loop can be reached from the task. When a
  dependency names no task, a \<open>KeyError\<close> is raised.\<close>

theorem cumulative_deps_spec:
  assumes "distinct (dkeys rts)"
  shows "if closed_deps rts
    then \<exists>c. cumulative_deps rts = Inr c \<and>
      (\<forall>t\<in>set (dkeys rts). set (cu_names c t) \<subseteq> fn_from_tid ` ((edges rts)\<^sup>+ `` {t}) \<and>
        ((\<forall>u. (t, u) \<in> (edges rts)\<^sup>* \<longrightarrow> (u, u) \<notin> (edges rts)\<^sup>+) \<longrightarrow>
           set (cu_names c t) = fn_from_tid ` ((edges rts)\<^sup>+ `` {t})))
    else \<exists>k. cumulative_deps rts = Inl (KeyError k) \<and> k \<notin> set (dkeys rts)"
proof (cases "closed_deps rts")
  case True
  obtain c P where c: "cumulative_deps rts = Inr c" and fr: "frontier rts P (depends_into rts P) (c, [])"
    using cumulative_deps_total [OF True assms] by blast
  have inv: "cumul_inv rts (depends_into rts P) c" using fr by (simp add: frontier_def)
  show ?thesis unfolding if_P [OF True]
    by (intro exI [of _ c] conjI ballI impI c subset_antisym cumul_inv_names(1) [OF inv]
        frontier_complete [OF True fr, THEN conjunct2]) auto
next
  case False
  then show ?thesis using collect_revdeps_missing [OF False] by (auto simp: cumulative_deps_def)
qed

definition sample_run :: run_tasks where
  "sample_run =
     [(''a:do_build'', new_task\<lparr>rte_depends := [''b:do_build'']\<rparr>),
      (''b:do_build'', new_task\<lparr>rte_depends := [''c:do_build'']\<rparr>),
      (''c:do_build'', new_task), (''c:do_pack'', new_task),
      (''a:do_image'', new_task\<lparr>rte_depends := [''a:do_build'']\<rparr>)]"

lemma cumulative_deps_spec_witness:
  "\<exists>c. cumulative_deps sample_run = Inr c \<and> cu_names c ''a:do_image'' = [''a'', ''b'', ''c''] \<and>
    set (cu_names c ''a:do_image'') \<subseteq> fn_from_tid ` ((edges sample_run)\<^sup>+ `` {''a:do_image''})"
proof -
  have wf: "distinct (dkeys sample_run)" "closed_deps sample_run" "''a:do_image'' \<in> set (dkeys sample_run)" by code_simp+
  have "map_option (\<lambda>c. cu_names c ''a:do_image'') (case cumulative_deps sample_run of Inl _ \<Rightarrow> None | Inr c \<Rightarrow> Some c) =
    Some [''a'', ''b'', ''c'']" by code_simp
  then show ?thesis using cumulative_deps_spec [OF wf(1)] wf(2,3) by (auto split: sum.splits)
qed


section \<open>Recursive dependencies: the specification\<close>

lemma depends_of_add [simp]:
  "depends_of (add_depend tid d rts) t = (if t = tid then sadd d (depends_of rts tid) else depends_of rts t)"
  by (simp add: add_depend_def depends_of_def)

lemma add_depend_keys: "has_key rts tid \<Longrightarrow> dkeys (add_depend tid d rts) = dkeys rts"
  by (simp add: add_depend_def dkeys_update)

text \<open>What a step may do for \<open>tid\<close>: it only adds dependencies on existing tasks with the names asked for,
  and it counts when it adds something.\<close>

definition extends_by :: "(string \<Rightarrow> string list) \<Rightarrow> run_tasks \<times> nat \<Rightarrow> run_tasks \<times> nat \<Rightarrow> bool" where
  "extends_by names st st' \<longleftrightarrow>
     dkeys (fst st') = dkeys (fst st) \<and> snd st \<le> snd st' \<and>
     (snd st' = snd st \<longrightarrow> (\<forall>t. depends_of (fst st') t = depends_of (fst st) t)) \<and>
     (\<forall>t. set (depends_of (fst st) t) \<subseteq> set (depends_of (fst st') t)) \<and>
     (\<forall>t. set (depends_of (fst st') t) - set (depends_of (fst st) t) \<subseteq>
        {d \<in> set (dkeys (fst st)). \<exists>n\<in>set (names t). suffix ('':'' @ n) d}) \<and>
     (snd st < snd st' \<longrightarrow> (\<exists>t. set (depends_of (fst st) t) \<subset> set (depends_of (fst st') t)))"

lemma extends_by_refl [simp]: "extends_by names st st"
  by (simp add: extends_by_def)

lemma extends_byD:
  assumes "extends_by names st st'"
  shows "dkeys (fst st') = dkeys (fst st)" and "snd st \<le> snd st'"
    and "snd st' = snd st \<Longrightarrow> depends_of (fst st') t = depends_of (fst st) t"
    and "set (depends_of (fst st) t) \<subseteq> set (depends_of (fst st') t)"
    and "set (depends_of (fst st') t) - set (depends_of (fst st) t) \<subseteq>
        {d \<in> set (dkeys (fst st)). \<exists>n\<in>set (names t). suffix ('':'' @ n) d}"
    and "snd st < snd st' \<Longrightarrow> \<exists>t. set (depends_of (fst st) t) \<subset> set (depends_of (fst st') t)"
  using assms unfolding extends_by_def by simp_all

lemma extends_by_trans:
  assumes a: "extends_by names st st1" and b: "extends_by names st1 st2"
  shows "extends_by names st st2"
proof -
  note a = extends_byD [OF a] and b = extends_byD [OF b]
  have "\<exists>t. set (depends_of (fst st) t) \<subset> set (depends_of (fst st2) t)" if "snd st < snd st2"
  proof (cases "snd st < snd st1")
    case True
    then show ?thesis using a(6) b(4) by (meson psubset_subset_trans)
  next
    case False
    then have "snd st1 < snd st2" using a(2) that by linarith
    then show ?thesis using b(6) a(4) by (meson subset_psubset_trans)
  qed
  moreover have "depends_of (fst st2) t = depends_of (fst st) t" if "snd st2 = snd st" for t
    using a(2,3) b(2,3) that by simp
  moreover have "set (depends_of (fst st2) t) - set (depends_of (fst st) t) \<subseteq>
      {d \<in> set (dkeys (fst st)). \<exists>n\<in>set (names t). suffix ('':'' @ n) d}" for t
    using a(5) [of t] b(5) [of t] unfolding a(1) by blast
  moreover have "set (depends_of (fst st) t) \<subseteq> set (depends_of (fst st2) t)" for t
    using a(4) b(4) by (rule subset_trans)
  moreover have "dkeys (fst st2) = dkeys (fst st)" "snd st \<le> snd st2" using a(1,2) b(1,2) by simp_all
  ultimately show ?thesis unfolding extends_by_def by blast
qed

lemma extends_by_fold:
  assumes "\<And>x s. x \<in> set xs \<Longrightarrow> dkeys (fst s) = K \<Longrightarrow> extends_by names s (f x s)" and "dkeys (fst st) = K"
  shows "extends_by names st (fold f xs st)"
  using assms
proof (induction xs arbitrary: st)
  case Nil
  then show ?case by simp
next
  case (Cons x xs)
  have a: "extends_by names st (f x st)" using Cons.prems by simp
  then have "dkeys (fst (f x st)) = K" using Cons.prems(2) by (simp add: extends_by_def)
  then have "extends_by names (f x st) (fold f xs (f x st))" using Cons by simp
  with a show ?case using extends_by_trans by simp
qed

lemma extends_by_add:
  assumes "has_key rts tid" and "d \<in> set (dkeys rts)" and "n \<in> set (names tid)" and "suffix ('':'' @ n) d"
    and "d \<notin> set (depends_of rts tid)"
  shows "extends_by names (rts, k) (add_depend tid d rts, Suc k)"
  using assms by (auto simp: extends_by_def add_depend_keys intro!: exI [of _ tid])

lemma extends_by_add_more:
  assumes a: "extends_by names st (rts, k)" and "has_key rts tid" and "d \<in> set (dkeys rts)"
    and "n \<in> set (names tid)" and "suffix ('':'' @ n) d" and "d \<notin> set (depends_of (fst st) tid)"
  shows "extends_by names st (add_depend tid d rts, Suc k)"
proof -
  note a = extends_byD [OF a, simplified]
  have "set (depends_of (fst st) tid) \<subset> set (depends_of (add_depend tid d rts) tid)"
    using assms(6) a(4) [of tid] by auto
  moreover have "set (depends_of (add_depend tid d rts) t) - set (depends_of (fst st) t) \<subseteq>
      {d \<in> set (dkeys (fst st)). \<exists>n\<in>set (names t). suffix ('':'' @ n) d}" for t
    using a(5) [of t] a(1) assms(3,4,5) by auto
  moreover have "set (depends_of (fst st) t) \<subseteq> set (depends_of (add_depend tid d rts) t)" for t
    using a(4) [of t] by auto
  ultimately show ?thesis using a(1,2) assms(2) by (auto simp: extends_by_def add_depend_keys)
qed


lemma set_recipe_names: "set (recipe_names c rts ds) = (\<Union>d\<in>{d \<in> set ds. has_key rts d}. set (cu_names c d))"
proof -
  have "set (fold (\<lambda>dep acc. if has_key rts dep then sunion acc (cu_names c dep) else acc) ds acc) =
      set acc \<union> (\<Union>d\<in>{d \<in> set ds. has_key rts d}. set (cu_names c d))" for acc
    by (induction ds arbitrary: acc) auto
  then show ?thesis by (simp add: recipe_names_def)
qed

lemma set_other_deps:
  "set (other_deps rectasks rts tid) =
     (\<Union>dep\<in>set (depends_of rts tid) \<inter> set (dkeys rectasks). set (depends_of rts dep)) - set (depends_of rts tid)"
proof -
  have "set (fold (\<lambda>dep acc. sunion acc (filter (\<lambda>d. d \<notin> D) (depends_of rts dep))) xs acc) =
      set acc \<union> ((\<Union>dep\<in>set xs. set (depends_of rts dep)) - D)" for D xs acc
    by (induction xs arbitrary: acc) auto
  then show ?thesis by (auto simp: other_deps_def has_key_iff)
qed

lemma extend_task_by:
  assumes key: "has_key (fst st) tid" and names: "names tid = tasknames"
  shows "extends_by names st (extend_task c rectasks recidep (tid, tasknames) st)"
proof -
  let ?K = "dkeys (fst st)"
  define st1 where "st1 = fold (add_recipe_task tid)
    (List.product (recipe_names c (fst st) (total_deps recidep (fst st) tid)) tasknames) st"
  have a: "extends_by names st st1"
    unfolding st1_def
  proof (rule extends_by_fold)
    fix x and s :: "run_tasks \<times> nat"
    assume "x \<in> set (List.product (recipe_names c (fst st) (total_deps recidep (fst st) tid)) tasknames)"
      and "dkeys (fst s) = ?K"
    moreover obtain name n rts k where eq: "x = (name, n)" "s = (rts, k)" by (metis surj_pair)
    ultimately have "n \<in> set (names tid)" and "has_key rts tid"
      using key names by (auto simp: has_key_iff)
    then show "extends_by names s (add_recipe_task tid x s)"
      by (auto simp: add_recipe_task_def eq Let_def has_key_iff suffix_def intro!: extends_by_add)
  qed simp
  have keys: "dkeys (fst st1) = ?K" using extends_byD(1) [OF a] .
  have "extends_by names st1 (fold (add_other_task tid) xs s)"
    if "set xs \<subseteq> set (List.product (other_deps rectasks (fst st1) tid) tasknames)" "extends_by names st1 s" for xs and s :: "run_tasks \<times> nat"
    using that
  proof (induction xs arbitrary: s)
    case Nil
    then show ?case by simp
  next
    case (Cons x xs)
    obtain d n rts k where x: "x = (d, n)" "s = (rts, k)" by (cases x; cases s) auto
    have "d \<notin> set (depends_of (fst st1) tid)" "n \<in> set (names tid)"
      using Cons.prems(1) x names by (auto simp: set_other_deps)
    moreover have "dkeys rts = ?K" using extends_byD(1) [OF Cons.prems(2)] keys by (simp add: x)
    ultimately have "extends_by names st1 (add_other_task tid x s)"
      using Cons.prems(2) key by (auto simp: add_other_task_def x has_key_iff intro: extends_by_add_more)
    then show ?case using Cons by simp
  qed
  from this [OF subset_refl extends_by_refl] a show ?thesis
    by (auto simp: extend_task_def Let_def st1_def [symmetric] intro: extends_by_trans)
qed

text \<open>A step that counts nothing changes nothing.\<close>

lemma fold_counts:
  fixes f :: "'b \<Rightarrow> 'a \<times> nat \<Rightarrow> 'a \<times> nat"
  assumes "\<And>x s. f x s = s \<or> snd s < snd (f x s)"
  shows "fold f xs s = s \<or> snd s < snd (fold f xs s)"
    and "snd (fold f xs s) = snd s \<Longrightarrow> x \<in> set xs \<Longrightarrow> f x s = s"
proof -
  show a: "fold f xs s = s \<or> snd s < snd (fold f xs s)" for xs s
  proof (induction xs arbitrary: s)
    case (Cons x xs)
    show ?case using Cons.IH [of "f x s"] assms [of x s] by (auto dest: less_trans)
  qed simp
  show "snd (fold f xs s) = snd s \<Longrightarrow> x \<in> set xs \<Longrightarrow> f x s = s"
  proof (induction xs arbitrary: s)
    case (Cons y ys)
    have "f y s = s" using a [of ys "f y s"] assms [of y s] Cons.prems(1) by auto
    then show ?case using Cons.IH [of s] Cons.prems by auto
  qed simp
qed

lemma add_recipe_counts: "add_recipe_task tid x s = s \<or> snd s < snd (add_recipe_task tid x s)"
  by (simp add: add_recipe_task_def Let_def split: prod.splits)

lemma add_other_counts: "add_other_task tid x s = s \<or> snd s < snd (add_other_task tid x s)"
  by (simp add: add_other_task_def split: prod.splits)

lemmas fold_recipe_counts = fold_counts [where f = "add_recipe_task tid" for tid, OF add_recipe_counts]
lemmas fold_other_counts = fold_counts [where f = "add_other_task tid" for tid, OF add_other_counts]

lemma extend_counts: "extend_task c rectasks recidep x s = s \<or> snd s < snd (extend_task c rectasks recidep x s)"
proof -
  obtain tid tasknames where x: "x = (tid, tasknames)" by (cases x)
  define s1 where "s1 = fold (add_recipe_task tid)
    (List.product (recipe_names c (fst s) (total_deps recidep (fst s) tid)) tasknames) s"
  define s2 where "s2 = fold (add_other_task tid) (List.product (other_deps rectasks (fst s1) tid) tasknames) s1"
  have "s1 = s \<or> snd s < snd s1" unfolding s1_def by (rule fold_recipe_counts(1))
  moreover have "s2 = s1 \<or> snd s1 < snd s2" unfolding s2_def by (rule fold_other_counts(1))
  moreover have "extend_task c rectasks recidep x s = s2"
    by (simp add: extend_task_def x Let_def s1_def s2_def)
  ultimately show ?thesis by (auto dest: less_trans)
qed

lemma extend_task_idle:
  assumes "extend_task c rectasks recidep (tid, tasknames) (rts, k) = (rts, k)" and "taskname \<in> set tasknames"
  shows "\<And>dep name. dep \<in> set (total_deps recidep rts tid) \<Longrightarrow> has_key rts dep \<Longrightarrow> name \<in> set (cu_names c dep) \<Longrightarrow>
      has_key rts (name @ '':'' @ taskname) \<Longrightarrow> name @ '':'' @ taskname \<noteq> tid \<Longrightarrow>
      name @ '':'' @ taskname \<in> set (depends_of rts tid)"
    and "\<And>dep d. dep \<in> set (depends_of rts tid) \<Longrightarrow> dep \<in> set (dkeys rectasks) \<Longrightarrow> d \<in> set (depends_of rts dep) \<Longrightarrow>
      suffix ('':'' @ taskname) d \<Longrightarrow> has_key rts d \<Longrightarrow> d \<in> set (depends_of rts tid)"
proof -
  let ?xs = "List.product (recipe_names c rts (total_deps recidep rts tid)) tasknames"
  let ?s1 = "fold (add_recipe_task tid) ?xs (rts, k)"
  have "?s1 = (rts, k) \<or> k < snd ?s1" using fold_recipe_counts(1) [of tid ?xs "(rts, k)"] by simp
  moreover have "snd ?s1 \<le> snd (fold (add_other_task tid) ys ?s1)" for ys
    using fold_other_counts(1) [of tid ys ?s1] by auto
  then have "snd ?s1 \<le> k" using assms(1) by (simp add: extend_task_def Let_def) (metis snd_conv)
  ultimately have idle1: "?s1 = (rts, k)" by linarith
  let ?ys = "List.product (other_deps rectasks rts tid) tasknames"
  have idle2: "fold (add_other_task tid) ?ys (rts, k) = (rts, k)"
    using assms(1) idle1 by (simp add: extend_task_def Let_def)
  show "name @ '':'' @ taskname \<in> set (depends_of rts tid)"
    if "dep \<in> set (total_deps recidep rts tid)" "has_key rts dep" "name \<in> set (cu_names c dep)"
      "has_key rts (name @ '':'' @ taskname)" "name @ '':'' @ taskname \<noteq> tid" for dep name
  proof -
    have "(name, taskname) \<in> set ?xs" using that assms(2) by (auto simp: set_recipe_names)
    then have "add_recipe_task tid (name, taskname) (rts, k) = (rts, k)"
      using fold_recipe_counts(2) [of tid ?xs "(rts, k)"] idle1 by simp
    then show ?thesis using that by (auto simp: add_recipe_task_def Let_def split: if_splits)
  qed
  show "d \<in> set (depends_of rts tid)"
    if "dep \<in> set (depends_of rts tid)" "dep \<in> set (dkeys rectasks)" "d \<in> set (depends_of rts dep)"
      "suffix ('':'' @ taskname) d" "has_key rts d" for dep d
  proof (rule ccontr)
    assume n: "d \<notin> set (depends_of rts tid)"
    then have "(d, taskname) \<in> set ?ys" using that assms(2) by (auto simp: set_other_deps)
    then have "add_other_task tid (d, taskname) (rts, k) = (rts, k)"
      using fold_other_counts(2) [of tid ?ys "(rts, k)"] idle2 by simp
    then show False using that by (auto simp: add_other_task_def split: if_splits)
  qed
qed


definition room :: "(string, string list) dict \<Rightarrow> run_tasks \<Rightarrow> nat" where
  "room rectasks rts = (\<Sum>t\<in>set (dkeys rectasks). card (set (dkeys rts) - set (depends_of rts t)))"

lemma room_le: "room rectasks rts \<le> length rectasks * length rts"
proof -
  have "room rectasks rts \<le> (\<Sum>t\<in>set (dkeys rectasks). length rts)"
    unfolding room_def
  proof (rule sum_mono)
    fix t
    have "card (set (dkeys rts) - set (depends_of rts t)) \<le> card (set (dkeys rts))" by (intro card_mono) auto
    also have "\<dots> \<le> length rts" using card_length [of "dkeys rts"] by (simp add: dkeys_def)
    finally show "card (set (dkeys rts) - set (depends_of rts t)) \<le> length rts" .
  qed
  also have "\<dots> \<le> length rectasks * length rts"
    using card_length [of "dkeys rectasks"] by (simp add: dkeys_def)
  finally show ?thesis .
qed

lemma room_less:
  assumes "extends_by (\<lambda>t. dget rectasks t []) (rts, 0) (rts', k)" and "k \<noteq> 0"
  shows "room rectasks rts' < room rectasks rts"
proof -
  note e = extends_byD [OF assms(1), simplified]
  obtain t where t: "set (depends_of rts t) \<subset> set (depends_of rts' t)" using e(6) assms(2) by blast
  then obtain d where d: "d \<in> set (depends_of rts' t) - set (depends_of rts t)" by blast
  then have "d \<in> set (dkeys rts)" and "dget rectasks t [] \<noteq> []" using e(5) [of t] by auto
  then have tk: "t \<in> set (dkeys rectasks)" using dget_key [of rectasks t "[]"] by simp
  show ?thesis
    unfolding room_def e(1)
  proof (rule sum_strict_mono_ex1)
    show "\<forall>u\<in>set (dkeys rectasks). card (set (dkeys rts) - set (depends_of rts' u)) \<le>
        card (set (dkeys rts) - set (depends_of rts u))"
      using e(4) by (intro ballI card_mono) auto
    have "card (set (dkeys rts) - set (depends_of rts' t)) < card (set (dkeys rts) - set (depends_of rts t))"
      using d \<open>d \<in> set (dkeys rts)\<close> e(4) [of t] by (intro psubset_card_mono) auto
    then show "\<exists>u\<in>set (dkeys rectasks). card (set (dkeys rts) - set (depends_of rts' u)) <
        card (set (dkeys rts) - set (depends_of rts u))" using tk by blast
  qed simp
qed

lemma extend_round:
  assumes "distinct (dkeys rectasks)" and "\<forall>t\<in>set (dkeys rectasks). has_key rts t"
  shows "extends_by (\<lambda>t. dget rectasks t []) (rts, k) (fold (extend_task c rectasks recidep) rectasks (rts, k))"
proof (rule extends_by_fold)
  fix x and s :: "run_tasks \<times> nat"
  assume x: "x \<in> set rectasks" and keys: "dkeys (fst s) = dkeys rts"
  obtain tid tasknames where eq: "x = (tid, tasknames)" by (cases x)
  have "tid \<in> set (dkeys rectasks)" using x eq by (auto simp: dkeys_def image_iff intro!: bexI)
  then have "has_key (fst s) tid" using assms(2) keys by (simp add: has_key_iff)
  moreover have "dget rectasks tid [] = tasknames"
    using x eq assms(1) by (simp add: dget_def dkeys_def)
  ultimately show "extends_by (\<lambda>t. dget rectasks t []) s (extend_task c rectasks recidep x s)"
    unfolding eq by (rule extend_task_by)
qed simp

text \<open>Nothing is missing any more: the tasks named for \<open>tid\<close>, of every recipe below it and of the recursive
  tasks it depends on, are among its dependencies.\<close>

definition recursively_closed ::
  "cumulation \<Rightarrow> (string, string list) dict \<Rightarrow> (string, string list) dict \<Rightarrow> run_tasks \<Rightarrow> bool" where
  "recursively_closed c rectasks recidep rts \<longleftrightarrow>
     (\<forall>(tid, tasknames)\<in>set rectasks. \<forall>taskname\<in>set tasknames.
        (\<forall>dep\<in>set (total_deps recidep rts tid). has_key rts dep \<longrightarrow>
           (\<forall>name\<in>set (cu_names c dep). let newtid = name @ '':'' @ taskname in
              has_key rts newtid \<longrightarrow> newtid \<noteq> tid \<longrightarrow> newtid \<in> set (depends_of rts tid))) \<and>
        (\<forall>dep\<in>set (depends_of rts tid) \<inter> set (dkeys rectasks). \<forall>newtid\<in>set (depends_of rts dep).
           suffix ('':'' @ taskname) newtid \<longrightarrow> has_key rts newtid \<longrightarrow> newtid \<in> set (depends_of rts tid)))"

lemma idle_closed:
  assumes "\<And>x. x \<in> set rectasks \<Longrightarrow> extend_task c rectasks recidep x (rts, 0) = (rts, 0)"
  shows "recursively_closed c rectasks recidep rts"
  unfolding recursively_closed_def
proof (intro ballI, clarify)
  fix tid tasknames taskname assume "(tid, tasknames) \<in> set rectasks" "taskname \<in> set tasknames"
  then show "(\<forall>dep\<in>set (total_deps recidep rts tid). has_key rts dep \<longrightarrow>
           (\<forall>name\<in>set (cu_names c dep). let newtid = name @ '':'' @ taskname in
              has_key rts newtid \<longrightarrow> newtid \<noteq> tid \<longrightarrow> newtid \<in> set (depends_of rts tid))) \<and>
        (\<forall>dep\<in>set (depends_of rts tid) \<inter> set (dkeys rectasks). \<forall>newtid\<in>set (depends_of rts dep).
           suffix ('':'' @ taskname) newtid \<longrightarrow> has_key rts newtid \<longrightarrow> newtid \<in> set (depends_of rts tid))"
    using extend_task_idle [OF assms] by (auto simp: Let_def)
qed

lemma recursive_loop_total:
  assumes "distinct (dkeys rectasks)" and "\<forall>t\<in>set (dkeys rectasks). has_key rts t" and "room rectasks rts < n"
  shows "\<exists>rts' k. recursive_loop n c rectasks recidep rts = Inr rts' \<and>
    extends_by (\<lambda>t. dget rectasks t []) (rts, 0) (rts', k) \<and> recursively_closed c rectasks recidep rts'"
  using assms(2,3)
proof (induction n arbitrary: rts)
  case 0
  then show ?case by simp
next
  case (Suc n)
  obtain rts1 k where r: "fold (extend_task c rectasks recidep) rectasks (rts, 0) = (rts1, k)"
    by (meson surj_pair)
  have e: "extends_by (\<lambda>t. dget rectasks t []) (rts, 0) (rts1, k)"
    using extend_round [OF assms(1) Suc.prems(1), of 0 c recidep] by (simp add: r)
  note counts = fold_counts [where f = "extend_task c rectasks recidep", OF extend_counts, of rectasks "(rts, 0)"]
  show ?case
  proof (cases "k = 0")
    case True
    then have "rts1 = rts" using counts(1) r by simp
    then have "recursively_closed c rectasks recidep rts"
      using counts(2) r True by (intro idle_closed) simp
    then show ?thesis using r True \<open>rts1 = rts\<close> by (auto intro: extends_by_refl)
  next
    case False
    have "room rectasks rts1 < n" using room_less [OF e False] Suc.prems(2) by simp
    moreover have "\<forall>t\<in>set (dkeys rectasks). has_key rts1 t"
      using extends_byD(1) [OF e] Suc.prems(1) by (simp add: has_key_iff)
    ultimately obtain rts' k' where "recursive_loop n c rectasks recidep rts1 = Inr rts'"
      and e': "extends_by (\<lambda>t. dget rectasks t []) (rts1, 0) (rts', k')" "recursively_closed c rectasks recidep rts'"
      using Suc.IH by blast
    moreover have "extends_by (\<lambda>t. dget rectasks t []) (rts, 0) (rts', k + k')"
    proof (rule extends_by_trans [OF e])
      show "extends_by (\<lambda>t. dget rectasks t []) (rts1, k) (rts', k + k')"
        using e'(1) by (simp add: extends_by_def)
    qed
    ultimately show ?thesis using r False by auto
  qed
qed


lemma depends_of_drop: "depends_of (drop_selfref selfref rts) t =
    (if t \<in> set selfref then filter (\<lambda>d. d \<notin> set selfref) (depends_of rts t) else depends_of rts t)"
proof -
  have "depends_of (fold (\<lambda>tid rts. AList.update tid ((dget rts tid new_task)
      \<lparr>rte_depends := filter (\<lambda>d. d \<notin> S) (depends_of rts tid)\<rparr>) rts) xs rts) t =
      (if t \<in> set xs then filter (\<lambda>d. d \<notin> S) (depends_of rts t) else depends_of rts t)" for S xs
  proof (induction xs arbitrary: rts)
    case (Cons x xs)
    have "depends_of (AList.update x ((dget rts x new_task)
        \<lparr>rte_depends := filter (\<lambda>d. d \<notin> S) (depends_of rts x)\<rparr>) rts) t =
        (if t = x then filter (\<lambda>d. d \<notin> S) (depends_of rts x) else depends_of rts t)" for rts t
      by (simp add: depends_of_def)
    then show ?case using Cons by simp
  qed simp
  then show ?thesis by (simp add: drop_selfref_def)
qed

text \<open>C4: the repetition that completes recursive dependencies always ends. It adds only dependencies of
  recursive tasks on existing tasks with the names they ask for, and stops when none is missing:
  each recursive task depends on the named tasks of every recipe below it and, of the recursive
  tasks it depends on, on every dependency with such a name.\<close>

theorem recursive_loop_spec:
  assumes "distinct (dkeys rectasks)" and "\<forall>t\<in>set (dkeys rectasks). has_key rts t"
  shows "\<exists>rts'. recursive_loop (Suc (length rectasks * length rts)) c rectasks recidep rts = Inr rts' \<and>
    dkeys rts' = dkeys rts \<and> recursively_closed c rectasks recidep rts' \<and>
    (\<forall>t. set (depends_of rts t) \<subseteq> set (depends_of rts' t) \<and>
      set (depends_of rts' t) \<subseteq> set (depends_of rts t) \<union>
        {d \<in> set (dkeys rts). \<exists>n\<in>set (dget rectasks t []). suffix ('':'' @ n) d})"
proof -
  have "room rectasks rts < Suc (length rectasks * length rts)" using room_le [of rectasks rts] by simp
  then obtain rts' k where r: "recursive_loop (Suc (length rectasks * length rts)) c rectasks recidep rts = Inr rts'"
    "recursively_closed c rectasks recidep rts'" and e: "extends_by (\<lambda>t. dget rectasks t []) (rts, 0) (rts', k)"
    using recursive_loop_total [OF assms] by blast
  note e = extends_byD [OF e, unfolded fst_conv snd_conv]
  have "set (depends_of rts' t) \<subseteq> set (depends_of rts t) \<union>
      {d \<in> set (dkeys rts). \<exists>n\<in>set (dget rectasks t []). suffix ('':'' @ n) d}" for t
    using e(5) [of t] by blast
  then show ?thesis using r e(1,4) by blast
qed

text \<open>Every recipe is built after its own dependencies' \<open>do_build\<close>, an image after all of them.\<close>

lemma recursive_loop_spec_witness:
  "\<exists>rts'. recursive_loop 6 \<lparr>cu_left = (\<lambda>_. []), cu_names = (\<lambda>t. if t = ''a:do_build'' then [''b'', ''c''] else [])\<rparr>
      [(''a:do_image'', [''do_build'', ''do_pack''])] [] sample_run = Inr rts' \<and>
    depends_of rts' ''a:do_image'' = [''a:do_build'', ''b:do_build'', ''c:do_build'', ''c:do_pack''] \<and>
    dkeys rts' = dkeys sample_run"
proof -
  let ?c = "\<lparr>cu_left = (\<lambda>_. []), cu_names = (\<lambda>t. if t = ''a:do_build'' then [''b'', ''c''] else [])\<rparr>"
  let ?rec = "[(''a:do_image'', [''do_build'', ''do_pack''])]"
  have "distinct (dkeys ?rec)" "\<forall>t\<in>set (dkeys ?rec). has_key sample_run t" by code_simp+
  from recursive_loop_spec [OF this, of ?c "[]"]
  obtain rts' where r: "recursive_loop 6 ?c ?rec [] sample_run = Inr rts'" "dkeys rts' = dkeys sample_run"
    by (auto simp: sample_run_def eval_nat_numeral)
  have "map_option (\<lambda>r. depends_of r ''a:do_image'') (case recursive_loop 6 ?c ?rec [] sample_run of Inl _ \<Rightarrow> None | Inr r \<Rightarrow> Some r)
    = Some [''a:do_build'', ''b:do_build'', ''c:do_build'', ''c:do_pack'']" by code_simp
  with r show ?thesis by simp
qed

end
