(* ===== verification/ActiveTasks.thy ===== *)
theory ActiveTasks
  imports RecursiveDeps
begin

text \<open>
  Steps B and C of \<open>RunQueueData.prepare\<close>: the tasks reachable from the requested targets are marked,
  \<open>--runall\<close> and \<open>--runonly\<close> choose again among them, and everything else is pruned.

  \<open>mark_active\<close> recurses once per task on a path, so as many levels as there are tasks are enough.
  Python's own limit on the recursion depth is not modelled. Calls of \<open>siggen.invalidate_task\<close> are
  recorded as pairs of a task name and a file.
\<close>

section \<open>Marking\<close>

primrec mark_active :: "nat \<Rightarrow> run_tasks \<Rightarrow> string \<Rightarrow> string list \<Rightarrow> string list res" where
  "mark_active 0 rts tid build = Inl OutOfFuel"
| "mark_active (Suc n) rts tid build =
     (if tid \<in> set build then Inr build
      else if \<not> has_key rts tid then Inl (KeyError tid)
      else rfold (mark_active n rts) (depends_of rts tid) (build @ [tid]))"

definition mark :: "run_tasks \<Rightarrow> string \<Rightarrow> string list \<Rightarrow> string list res" where
  "mark rts = mark_active (Suc (length rts)) rts"

section \<open>Invalidation\<close>

definition invalidate_task ::
  "dcaches \<Rightarrow> taskdatas \<Rightarrow> string \<Rightarrow> bool \<Rightarrow> (string \<times> string) list \<Rightarrow> (string \<times> string) list res" where
  "invalidate_task dcs tds tid error_nostamp invalid =
     rbind (split_tid_mcfn tid) (\<lambda>(mc, fn, taskname, taskfn).
     rbind (dlookup dcs mc) (\<lambda>dc.
     rbind (dlookup (task_deps dc) taskfn) (\<lambda>flags.
     rbind (dlookup tds mc) (\<lambda>_.
       if task_flag flags ''nostamp'' taskname \<noteq> None then
         if error_nostamp
         then Inl (Fatal (''Task '' @ taskname @ '' is marked nostamp, cannot invalidate this task''))
         else Inr invalid
       else Inr (invalid @ [(taskname, taskfn)])))))"

section \<open>The requested targets\<close>

record active_state =
  as_build :: "string list"
  as_target_tids :: "string list"
  as_invalid :: "(string \<times> string) list"

text \<open>A target is its configuration, its name, the task, and the file that was chosen for it.\<close>

type_synonym target = "string \<times> string \<times> string \<times> string"

definition mark_target :: "taskdatas \<Rightarrow> run_tasks \<Rightarrow> target \<Rightarrow> active_state \<Rightarrow> active_state res" where
  "mark_target tds rts t a =
     (case t of (mc, target, task, fn) \<Rightarrow>
      rbind (dlookup tds mc) (\<lambda>td.
      if dget (build_targets td) target [] = [] \<or> target \<in> set (failed_deps td) then Inr a
      else
        let parents = suffix ''-'' task; task = (if parents then butlast task else task) in
        if fn \<in> set (failed_fns td) then Inr a
        else
          let tid = fn @ '':'' @ task; a = a\<lparr>as_target_tids := as_target_tids a @ [tid]\<rparr> in
          if \<not> has_key (taskentries td) tid
          then Inl (Fatal (''Task '' @ task @ '' does not exist for target '' @ target))
          else if parents \<and> \<not> has_key rts tid then Inl (KeyError tid)
          else rbind (rfold (mark rts) (if parents then depends_of rts tid else [tid]) (as_build a))
                 (\<lambda>build. Inr (a\<lparr>as_build := build\<rparr>))))"

definition prune :: "run_tasks \<Rightarrow> string list \<Rightarrow> run_tasks" where
  "prune rts build = filter (\<lambda>(tid, _). tid \<in> set build) rts"

section \<open>The options --runall and --runonly\<close>

definition do_name :: "string \<Rightarrow> string" where
  "do_name task = (if prefix ''do_'' task then task else ''do_'' @ task)"

definition wanted_tids :: "run_tasks \<Rightarrow> string list \<Rightarrow> string \<Rightarrow> string list \<Rightarrow> string list" where
  "wanted_tids rts reduced task tids =
     fold (\<lambda>tid tids. let wanttid = fn_from_tid tid @ '':'' @ task in
         if has_key rts wanttid then sadd wanttid tids else tids) reduced tids"

definition mark_wanted ::
  "dcaches \<Rightarrow> taskdatas \<Rightarrow> run_tasks \<Rightarrow> bool \<Rightarrow> bool \<Rightarrow> string \<Rightarrow> active_state \<Rightarrow> active_state res" where
  "mark_wanted dcs tds rts force is_target tid a =
     rbind (mark rts tid (as_build a)) (\<lambda>build.
       let a = a\<lparr>as_build := build,
                 as_target_tids := (if is_target then as_target_tids a @ [tid] else as_target_tids a)\<rparr> in
       if force then rbind (invalidate_task dcs tds tid False (as_invalid a)) (\<lambda>i. Inr (a\<lparr>as_invalid := i\<rparr>))
       else Inr a)"

definition runall_task ::
  "dcaches \<Rightarrow> taskdatas \<Rightarrow> run_tasks \<Rightarrow> bool \<Rightarrow> string list \<Rightarrow> string \<Rightarrow> active_state \<times> string list \<Rightarrow>
    (active_state \<times> string list) res" where
  "runall_task dcs tds rts force reduced task st =
     (case st of (a, tids) \<Rightarrow>
      let tids = wanted_tids rts reduced (do_name task) tids in
      rbind (rfold (mark_wanted dcs tds rts force True) tids a) (\<lambda>a. Inr (a, tids)))"

primrec runall_loop ::
  "nat \<Rightarrow> dcaches \<Rightarrow> taskdatas \<Rightarrow> run_tasks \<Rightarrow> bool \<Rightarrow> string list \<Rightarrow> active_state \<Rightarrow> string list \<Rightarrow> active_state res" where
  "runall_loop 0 dcs tds rts force runall a orig = Inl OutOfFuel"
| "runall_loop (Suc n) dcs tds rts force runall a orig =
     (let reduced = filter (\<lambda>tid. tid \<in> set (as_build a)) (dkeys rts) in
      rbind (rfold (runall_task dcs tds rts force reduced) runall (a\<lparr>as_build := []\<rparr>, [])) (\<lambda>(a, tids).
        if set tids \<subseteq> set orig then Inr a else runall_loop n dcs tds rts force runall a tids))"

definition runonly_task ::
  "dcaches \<Rightarrow> taskdatas \<Rightarrow> run_tasks \<Rightarrow> bool \<Rightarrow> string \<Rightarrow> active_state \<Rightarrow> active_state res" where
  "runonly_task dcs tds rts force task a =
     rbind (rmap taskname_from_tid (dkeys rts)) (\<lambda>_.
       rfold (mark_wanted dcs tds rts force False)
         (filter (\<lambda>k. taskname_from_tid k = Inr (do_name task)) (dkeys rts)) a)"

section \<open>Steps B and C\<close>

definition prune_runall ::
  "dcaches \<Rightarrow> taskdatas \<Rightarrow> bool \<Rightarrow> string list \<Rightarrow> run_tasks \<Rightarrow> active_state \<Rightarrow> (run_tasks \<times> active_state) res" where
  "prune_runall dcs tds force runall rts a =
     rbind (if runall = [] then Inr a
            else runall_loop (Suc (Suc (length rts))) dcs tds rts force runall a []) (\<lambda>a.
       let rts = prune rts (as_build a) in
       if runall \<noteq> [] \<and> rts = [] then Inl (Fatal ''Could not find any tasks with the tasknames to run'')
       else Inr (rts, a))"

definition prune_runonly ::
  "dcaches \<Rightarrow> taskdatas \<Rightarrow> bool \<Rightarrow> string list \<Rightarrow> run_tasks \<times> active_state \<Rightarrow> (run_tasks \<times> active_state) res" where
  "prune_runonly dcs tds force runonly st =
     (case st of (rts, a) \<Rightarrow>
      if runonly = [] then Inr (rts, a)
      else rbind (rfold (runonly_task dcs tds rts force) runonly (a\<lparr>as_build := []\<rparr>)) (\<lambda>a.
        let rts = prune rts (as_build a) in
        if rts = [] then Inl (Fatal ''Could not find any tasks with the tasknames to run'')
        else Inr (rts, a)))"

definition check_left :: "taskdatas \<Rightarrow> run_tasks \<times> active_state \<Rightarrow> (run_tasks \<times> active_state) res" where
  "check_left tds st =
     (if fst st = [] then
        rbind (dlookup tds []) (\<lambda>td.
          Inl (Fatal (if halt td then ''No active tasks and not in --continue mode?! Please report this bug.''
            else ''All buildable tasks have been run but the build is incomplete (--continue mode).'')))
      else Inr st)"

definition active_tasks ::
  "dcaches \<Rightarrow> taskdatas \<Rightarrow> target list \<Rightarrow> bool \<Rightarrow> string list \<Rightarrow> string list \<Rightarrow> run_tasks \<Rightarrow>
    (run_tasks \<times> active_state) res" where
  "active_tasks dcs tds targets force runall runonly rts =
     rbind (rfold (mark_target tds rts) targets \<lparr>as_build = [], as_target_tids = [], as_invalid = []\<rparr>) (\<lambda>a.
     rbind (prune_runall dcs tds force runall rts a) (\<lambda>st.
     rbind (prune_runonly dcs tds force runonly st) (check_left tds)))"

section \<open>Marking: the specification\<close>

definition reach :: "run_tasks \<Rightarrow> string \<Rightarrow> string set" where
  "reach rts t = (edges rts)\<^sup>* `` {t}"

text \<open>\<open>marked\<close> relates the marks before and after a call: the new marks are tasks below \<open>T\<close>, and all their
  dependencies are marked.\<close>

definition marked :: "run_tasks \<Rightarrow> string set \<Rightarrow> string list \<Rightarrow> string list \<Rightarrow> bool" where
  "marked rts T build build' \<longleftrightarrow>
     set build \<subseteq> set build' \<and> set build' \<subseteq> set build \<union> (\<Union>t\<in>T. reach rts t) \<and>
     (\<forall>u\<in>set build' - set build. set (depends_of rts u) \<subseteq> set build') \<and>
     (distinct build \<longrightarrow> distinct build')"

lemma marked_refl [simp]: "marked rts T b b"
  by (simp add: marked_def)

lemma marked_trans: "marked rts T b b1 \<Longrightarrow> marked rts U b1 b2 \<Longrightarrow> marked rts (T \<union> U) b b2"
  unfolding marked_def by (intro conjI) blast+

lemma reach_keys:
  assumes "closed_deps rts" and "t \<in> set (dkeys rts)"
  shows "reach rts t \<subseteq> set (dkeys rts)"
proof
  fix u assume "u \<in> reach rts t"
  then have "(t, u) \<in> (edges rts)\<^sup>*" by (simp add: reach_def)
  then show "u \<in> set (dkeys rts)"
    by (induction rule: rtrancl_induct) (use assms in \<open>auto simp: edges_def closed_deps_def\<close>)
qed

lemma rfold_marked:
  assumes "\<And>t b. t \<in> set ts \<Longrightarrow> set build \<subseteq> set b \<Longrightarrow> \<exists>b'. f t b = Inr b' \<and> marked rts {t} b b' \<and> t \<in> set b'"
    and "set build \<subseteq> set b"
  shows "\<exists>b'. rfold f ts b = Inr b' \<and> marked rts (set ts) b b' \<and> set ts \<subseteq> set b'"
  using assms
proof (induction ts arbitrary: b)
  case Nil
  then show ?case by simp
next
  case (Cons t ts)
  obtain b1 where b1: "f t b = Inr b1" "marked rts {t} b b1" "t \<in> set b1"
    using Cons.prems by (meson list.set_intros(1))
  have "set build \<subseteq> set b1" using b1(2) Cons.prems(2) by (auto simp: marked_def)
  then obtain b2 where b2: "rfold f ts b1 = Inr b2" "marked rts (set ts) b1 b2" "set ts \<subseteq> set b2"
    using Cons.IH Cons.prems(1) by (meson list.set_intros(2))
  have "t \<in> set b2" using b1(3) b2(2) by (auto simp: marked_def)
  then show ?case using b1(1) b2 marked_trans [OF b1(2) b2(2)] by simp
qed

lemma mark_active_total:
  assumes cl: "closed_deps rts" and "t \<in> set (dkeys rts)" and "card (set (dkeys rts) - set build) < n"
  shows "\<exists>b. mark_active n rts t build = Inr b \<and> marked rts {t} build b \<and> t \<in> set b"
  using assms(2,3)
proof (induction n arbitrary: t build)
  case 0
  then show ?case by simp
next
  case (Suc n)
  show ?case
  proof (cases "t \<in> set build")
    case True
    then show ?thesis by simp
  next
    case False
    have step: "\<exists>b'. mark_active n rts u b = Inr b' \<and> marked rts {u} b b' \<and> u \<in> set b'"
      if u: "u \<in> set (depends_of rts t)" and b: "set (build @ [t]) \<subseteq> set b" for u b
    proof (rule Suc.IH)
      show "u \<in> set (dkeys rts)" using cl u Suc.prems(1) by (auto simp: closed_deps_def)
      have "card (set (dkeys rts) - set b) < card (set (dkeys rts) - set build)"
        using False b Suc.prems(1) by (intro psubset_card_mono) auto
      then show "card (set (dkeys rts) - set b) < n" using Suc.prems(2) by simp
    qed
    obtain b where b: "rfold (mark_active n rts) (depends_of rts t) (build @ [t]) = Inr b"
      "marked rts (set (depends_of rts t)) (build @ [t]) b" "set (depends_of rts t) \<subseteq> set b"
      using rfold_marked [OF step subset_refl] by blast
    have "reach rts u \<subseteq> reach rts t" if "u \<in> set (depends_of rts t)" for u
      using that Suc.prems(1) by (auto simp: reach_def edges_def intro: converse_rtrancl_into_rtrancl)
    moreover have "t \<in> reach rts t" by (simp add: reach_def)
    ultimately have "insert t (set build) \<union> (\<Union>u\<in>set (depends_of rts t). reach rts u) \<subseteq> set build \<union> reach rts t"
      by blast
    moreover have "set b \<subseteq> insert t (set build) \<union> (\<Union>u\<in>set (depends_of rts t). reach rts u)"
      using b(2) by (simp add: marked_def)
    ultimately have "set b \<subseteq> set build \<union> reach rts t" by (rule subset_trans [rotated])
    then have "marked rts {t} build b"
      using b(2,3) False unfolding marked_def by auto
    moreover have "t \<in> set b" using b(2) by (auto simp: marked_def)
    ultimately show ?thesis using False Suc.prems(1) b(1) by (simp add: has_key_iff)
  qed
qed

definition depend_closed :: "run_tasks \<Rightarrow> string set \<Rightarrow> bool" where
  "depend_closed rts B \<longleftrightarrow> B \<subseteq> set (dkeys rts) \<and> (\<forall>u\<in>B. set (depends_of rts u) \<subseteq> B)"

lemma depend_closed_reach: "depend_closed rts B \<Longrightarrow> t \<in> B \<Longrightarrow> reach rts t \<subseteq> B"
proof
  fix u assume B: "depend_closed rts B" "t \<in> B" and "u \<in> reach rts t"
  then have "(t, u) \<in> (edges rts)\<^sup>*" by (simp add: reach_def)
  then show "u \<in> B" by (induction rule: rtrancl_induct) (use B in \<open>auto simp: depend_closed_def edges_def\<close>)
qed

lemma rfold_mark:
  assumes cl: "closed_deps rts" and "set ts \<subseteq> set (dkeys rts)" and B: "depend_closed rts (set build)"
  shows "\<exists>b. rfold (mark rts) ts build = Inr b \<and> set b = set build \<union> (\<Union>t\<in>set ts. reach rts t) \<and>
    depend_closed rts (set b)"
proof -
  have "\<exists>b'. mark rts t b = Inr b' \<and> marked rts {t} b b' \<and> t \<in> set b'" if "t \<in> set ts" for t b
    unfolding mark_def
  proof (rule mark_active_total [OF cl])
    have "card (set (dkeys rts) - set b) \<le> card (set (dkeys rts))" by (intro card_mono) auto
    then show "card (set (dkeys rts) - set b) < Suc (length rts)"
      using card_length [of "dkeys rts"] by (simp add: dkeys_def)
  qed (use that assms(2) in auto)
  then obtain b where b: "rfold (mark rts) ts build = Inr b" "marked rts (set ts) build b" "set ts \<subseteq> set b"
    using rfold_marked [where f = "mark rts" and build = build and b = build] by blast
  have "(\<Union>t\<in>set ts. reach rts t) \<subseteq> set (dkeys rts)" using reach_keys [OF cl] assms(2) by blast
  then have closed: "depend_closed rts (set b)"
    using b(2) B unfolding marked_def depend_closed_def by (intro conjI; blast)
  then have "(\<Union>t\<in>set ts. reach rts t) \<subseteq> set b" using depend_closed_reach b(3) by blast
  then have "set b = set build \<union> (\<Union>t\<in>set ts. reach rts t)" using b(2) unfolding marked_def by blast
  with b(1) closed show ?thesis by blast
qed


section \<open>What is left\<close>

lemma yields_lookup [yields_rules]: "yields (\<lambda>_. True) (dlookup d k)"
  by (simp add: dlookup_def split: option.split)

lemma yields_split_tid [yields_rules]: "yields (\<lambda>_. True) (split_tid_mcfn tid)"
  by (simp add: split_tid_mcfn_def Let_def split: option.split)

lemma yields_invalidate [yields_rules]: "yields (\<lambda>_. True) (invalidate_task dcs tds tid e i)"
  unfolding invalidate_task_def by (intro yields_bind [where Q = "\<lambda>_. True"] yields_rules) (auto intro!: yields_rules)

lemma closed_empty [simp]: "depend_closed rts {}"
  by (simp add: depend_closed_def)

lemma mark_yields:
  assumes "closed_deps rts" and "depend_closed rts (set build)" and "set ts \<subseteq> set (dkeys rts)"
  shows "yields (\<lambda>b. set b = set build \<union> (\<Union>t\<in>set ts. reach rts t) \<and> depend_closed rts (set b))
    (rfold (mark rts) ts build)"
  using rfold_mark [OF assms(1,3,2)] by auto

text \<open>The tasks a target asks for.\<close>

definition target_roots :: "taskdatas \<Rightarrow> run_tasks \<Rightarrow> target \<Rightarrow> string list" where
  "target_roots tds rts t =
     (case t of (mc, target, task, fn) \<Rightarrow>
      let td = the (map_of tds mc) in
      if dget (build_targets td) target [] = [] \<or> target \<in> set (failed_deps td) \<or> fn \<in> set (failed_fns td) then []
      else if suffix ''-'' task then depends_of rts (fn @ '':'' @ butlast task)
      else [fn @ '':'' @ task])"

definition tasks_prepared :: "taskdatas \<Rightarrow> run_tasks \<Rightarrow> bool" where
  "tasks_prepared tds rts \<longleftrightarrow>
     distinct (dkeys rts) \<and> closed_deps rts \<and> (\<forall>td\<in>snd ` set tds. set (dkeys (taskentries td)) \<subseteq> set (dkeys rts))"

lemma dlookup_Inr: "dlookup d k = Inr v \<longleftrightarrow> map_of d k = Some v"
  by (simp add: dlookup_def split: option.split)

lemma mark_target_yields:
  assumes prep: "tasks_prepared tds rts" and B: "depend_closed rts (set (as_build a))"
  shows "yields (\<lambda>a'. set (as_build a') = set (as_build a) \<union> (\<Union>r\<in>set (target_roots tds rts t). reach rts r) \<and>
      depend_closed rts (set (as_build a')) \<and> as_invalid a' = as_invalid a)
    (mark_target tds rts t a)"
proof -
  obtain mc target task fn where t: "t = (mc, target, task, fn)" by (metis surj_pair)
  let ?p = "suffix ''-'' task"
  define task' where "task' = (if ?p then butlast task else task)"
  let ?tid = "fn @ '':'' @ task'"
  show ?thesis
  proof (cases "dlookup tds mc")
    case (Inl e)
    then show ?thesis using yields_lookup [of tds mc] by (simp add: mark_target_def t)
  next
    case (Inr td)
    then have td: "the (map_of tds mc) = td" "td \<in> snd ` set tds" by (auto simp: dlookup_Inr intro: map_of_SomeD rev_image_eqI)
    let ?skip = "dget (build_targets td) target [] = [] \<or> target \<in> set (failed_deps td) \<or> fn \<in> set (failed_fns td)"
    show ?thesis
    proof (cases "?skip \<or> \<not> has_key (taskentries td) ?tid \<or> ?p \<and> \<not> has_key rts ?tid")
      case True
      then show ?thesis using Inr B td
        by (auto simp: mark_target_def t target_roots_def Let_def task'_def split: if_splits)
    next
      case False
      then have tid: "?tid \<in> set (dkeys rts)"
        using prep td(2) by (auto simp: tasks_prepared_def has_key_iff)
      let ?roots = "if ?p then depends_of rts ?tid else [?tid]"
      have roots: "target_roots tds rts t = ?roots"
        using False td by (auto simp: target_roots_def t Let_def task'_def)
      have "set ?roots \<subseteq> set (dkeys rts)" using tid prep by (auto simp: tasks_prepared_def closed_deps_def)
      then have "yields (\<lambda>b. set b = set (as_build a) \<union> (\<Union>r\<in>set ?roots. reach rts r) \<and> depend_closed rts (set b))
          (rfold (mark rts) ?roots (as_build a))"
        using prep B by (intro mark_yields) (auto simp: tasks_prepared_def)
      moreover have "mark_target tds rts t a = rbind (rfold (mark rts) ?roots (as_build a))
          (\<lambda>build. Inr (a\<lparr>as_target_tids := as_target_tids a @ [?tid], as_build := build\<rparr>))"
        using False Inr by (auto simp: mark_target_def t Let_def task'_def)
      ultimately show ?thesis unfolding roots by (auto intro: yields_bind)
    qed
  qed
qed

lemma mark_targets_yields:
  assumes prep: "tasks_prepared tds rts" and B: "depend_closed rts (set (as_build a))"
  shows "yields (\<lambda>a'. set (as_build a') = set (as_build a) \<union> (\<Union>t\<in>set targets. \<Union>r\<in>set (target_roots tds rts t). reach rts r) \<and>
      depend_closed rts (set (as_build a')) \<and> as_invalid a' = as_invalid a)
    (rfold (mark_target tds rts) targets a)"
  using B
proof (induction targets arbitrary: a)
  case Nil
  then show ?case by simp
next
  case (Cons t targets)
  show ?case
    unfolding rfold.simps
    by (rule yields_bind [OF mark_target_yields [OF prep Cons.prems]], rule yields_weaken [OF Cons.IH]) auto
qed


lemma fn_from_tid_append: "CHR '':'' \<notin> set task \<Longrightarrow> fn_from_tid (fn @ '':'' @ task) = fn"
  by (simp add: fn_from_tid_def rsplit1_append)

definition wanted :: "run_tasks \<Rightarrow> string list \<Rightarrow> string set \<Rightarrow> string set" where
  "wanted rts runall B = {w \<in> set (dkeys rts). \<exists>tid\<in>B. \<exists>task\<in>set runall. w = fn_from_tid tid @ '':'' @ do_name task}"

lemma wanted_tids_set:
  "set (wanted_tids rts reduced task tids) =
     set tids \<union> {w \<in> set (dkeys rts). \<exists>tid\<in>set reduced. w = fn_from_tid tid @ '':'' @ task}"
  unfolding wanted_tids_def by (induction reduced arbitrary: tids) (auto simp: Let_def has_key_iff)

lemma wanted_mono:
  assumes "B \<subseteq> B'"
  shows "wanted rts runall B \<subseteq> wanted rts runall B'"
  using assms by (auto simp: wanted_def)

lemma wanted_idem:
  assumes "\<forall>task\<in>set runall. CHR '':'' \<notin> set task"
  shows "wanted rts runall B \<subseteq> wanted rts runall (wanted rts runall B)"
proof
  fix w assume w: "w \<in> wanted rts runall B"
  then obtain tid task where t: "task \<in> set runall" "w = fn_from_tid tid @ '':'' @ do_name task"
    by (auto simp: wanted_def)
  have "CHR '':'' \<notin> set (do_name task)" using assms t(1) by (auto simp: do_name_def)
  then have "w = fn_from_tid w @ '':'' @ do_name task" unfolding t(2) using fn_from_tid_append by presburger
  with w t(1) show "w \<in> wanted rts runall (wanted rts runall B)" unfolding wanted_def by blast
qed

lemma mark_wanted_yields:
  assumes "closed_deps rts" and "tid \<in> set (dkeys rts)" and "depend_closed rts (set (as_build a))"
  shows "yields (\<lambda>a'. set (as_build a') = set (as_build a) \<union> reach rts tid \<and> depend_closed rts (set (as_build a')))
    (mark_wanted dcs tds rts force is_target tid a)"
proof -
  have "rfold (mark rts) [tid] (as_build a) = mark rts tid (as_build a)"
    by (cases "mark rts tid (as_build a)") simp_all
  then have m: "yields (\<lambda>b. set b = set (as_build a) \<union> reach rts tid \<and> depend_closed rts (set b))
      (mark rts tid (as_build a))"
    using mark_yields [OF assms(1,3), of "[tid]"] assms(2) by simp
  show ?thesis
    unfolding mark_wanted_def
    by (rule yields_bind [OF m])
      (auto simp: Let_def intro!: yields_if yields_bind [where Q = "\<lambda>_. True"] yields_invalidate)
qed

lemma mark_all_wanted_yields:
  assumes "closed_deps rts" and "set tids \<subseteq> set (dkeys rts)" and "depend_closed rts (set (as_build a))"
  shows "yields (\<lambda>a'. set (as_build a') = set (as_build a) \<union> (\<Union>t\<in>set tids. reach rts t) \<and>
      depend_closed rts (set (as_build a')))
    (rfold (mark_wanted dcs tds rts force is_target) tids a)"
  using assms(2,3)
proof (induction tids arbitrary: a)
  case Nil
  then show ?case by simp
next
  case (Cons t tids)
  have "yields (\<lambda>a'. set (as_build a') = set (as_build a) \<union> reach rts t \<and> depend_closed rts (set (as_build a')))
      (mark_wanted dcs tds rts force is_target t a)"
    using Cons.prems by (intro mark_wanted_yields [OF assms(1)]) auto
  then show ?case
    unfolding rfold.simps
  proof (rule yields_bind)
    fix a1 :: active_state assume a1: "set (as_build a1) = set (as_build a) \<union> reach rts t \<and> depend_closed rts (set (as_build a1))"
    show "yields (\<lambda>a'. set (as_build a') = set (as_build a) \<union> (\<Union>u\<in>set (t # tids). reach rts u) \<and>
        depend_closed rts (set (as_build a'))) (rfold (mark_wanted dcs tds rts force is_target) tids a1)"
      using Cons.prems(1) a1 by (intro yields_weaken [OF Cons.IH]) auto
  qed
qed

lemma runall_tasks_yields:
  assumes "closed_deps rts" and "set tids \<subseteq> set (dkeys rts)" and "depend_closed rts (set (as_build a))"
    and "set (as_build a) = (\<Union>t\<in>set tids. reach rts t)"
  shows "yields (\<lambda>(a', tids'). set tids' = set tids \<union> wanted rts runall (set reduced) \<and>
      set (as_build a') = (\<Union>t\<in>set tids'. reach rts t) \<and> depend_closed rts (set (as_build a')))
    (rfold (runall_task dcs tds rts force reduced) runall (a, tids))"
  using assms(2-)
proof (induction runall arbitrary: a tids)
  case Nil
  then show ?case by (simp add: wanted_def)
next
  case (Cons task runall)
  let ?tids = "wanted_tids rts reduced (do_name task) tids"
  have sub: "set ?tids \<subseteq> set (dkeys rts)" using Cons.prems(1) by (auto simp: wanted_tids_set)
  have "set tids \<subseteq> set ?tids" by (simp add: wanted_tids_set)
  then have "(\<Union>t\<in>set tids. reach rts t) \<union> (\<Union>t\<in>set ?tids. reach rts t) = (\<Union>t\<in>set ?tids. reach rts t)" by blast
  then have "yields (\<lambda>(a', tids'). tids' = ?tids \<and> set (as_build a') = (\<Union>t\<in>set ?tids. reach rts t) \<and>
      depend_closed rts (set (as_build a'))) (runall_task dcs tds rts force reduced task (a, tids))"
    using Cons.prems(3) by (auto simp: runall_task_def Let_def
        intro!: yields_bind [OF mark_all_wanted_yields [OF assms(1) sub Cons.prems(2)]])
  then show ?case
    unfolding rfold.simps
  proof (rule yields_bind, clarify)
    fix a1 :: active_state assume a1: "set (as_build a1) = (\<Union>t\<in>set ?tids. reach rts t)" "depend_closed rts (set (as_build a1))"
    have "set tids \<union> wanted rts (task # runall) (set reduced) = set ?tids \<union> wanted rts runall (set reduced)"
      by (auto simp: wanted_tids_set wanted_def)
    then show "yields (\<lambda>(a', tids'). set tids' = set tids \<union> wanted rts (task # runall) (set reduced) \<and>
        set (as_build a') = (\<Union>t\<in>set tids'. reach rts t) \<and> depend_closed rts (set (as_build a')))
        (rfold (runall_task dcs tds rts force reduced) runall (a1, ?tids))"
      using Cons.IH [OF sub a1(2,1)] by simp
  qed
qed


text \<open>The set that \<open>--runall\<close> ends with is a fixed point: exactly the tasks below the wanted tasks of its
  own recipes.\<close>

definition runall_closed :: "run_tasks \<Rightarrow> string list \<Rightarrow> string set \<Rightarrow> bool" where
  "runall_closed rts runall B \<longleftrightarrow> B = (\<Union>t\<in>wanted rts runall B. reach rts t)"

lemma runall_loop_yields:
  assumes cl: "closed_deps rts" and names: "\<forall>task\<in>set runall. CHR '':'' \<notin> set task"
    and B: "depend_closed rts (set (as_build a))"
    and orig: "set orig \<subseteq> wanted rts runall (set (as_build a))"
    and start: "orig = [] \<or> set (as_build a) = (\<Union>t\<in>set orig. reach rts t)"
    and fuel: "card (set (dkeys rts) - set orig) < n"
  shows "yields (\<lambda>a'. runall_closed rts runall (set (as_build a')) \<and> depend_closed rts (set (as_build a')) \<and>
      wanted rts runall (set (as_build a)) \<subseteq> set (as_build a'))
    (runall_loop n dcs tds rts force runall a orig)"
  using B orig start fuel
proof (induction n arbitrary: a orig)
  case 0
  then show ?case by simp
next
  case (Suc n)
  let ?reduced = "filter (\<lambda>tid. tid \<in> set (as_build a)) (dkeys rts)"
  have red: "set ?reduced = set (as_build a)" using Suc.prems(1) by (auto simp: depend_closed_def)
  have "yields (\<lambda>(a', tids'). set tids' = set [] \<union> wanted rts runall (set ?reduced) \<and>
      set (as_build a') = (\<Union>t\<in>set tids'. reach rts t) \<and> depend_closed rts (set (as_build a')))
      (rfold (runall_task dcs tds rts force ?reduced) runall (a\<lparr>as_build := []\<rparr>, []))"
    by (rule runall_tasks_yields [OF cl]) simp_all
  then show ?case
    unfolding runall_loop.simps Let_def
  proof (rule yields_bind, clarify)
    fix a1 :: active_state and tids
    assume tids: "set tids = set [] \<union> wanted rts runall (set ?reduced)"
      and a1: "set (as_build a1) = (\<Union>t\<in>set tids. reach rts t)" "depend_closed rts (set (as_build a1))"
    have w: "set tids = wanted rts runall (set (as_build a))" using tids red by simp
    have "set tids \<subseteq> set (as_build a1)" using a1(1) by (auto simp: reach_def)
    then have up: "set tids \<subseteq> wanted rts runall (set (as_build a1))"
      using wanted_idem [OF names, of rts "set (as_build a)"] wanted_mono [of "set tids" "set (as_build a1)" rts runall]
      unfolding w [symmetric] by blast
    show "yields (\<lambda>a'. runall_closed rts runall (set (as_build a')) \<and> depend_closed rts (set (as_build a')) \<and>
        wanted rts runall (set (as_build a)) \<subseteq> set (as_build a'))
      (if set tids \<subseteq> set orig then Inr a1 else runall_loop n dcs tds rts force runall a1 tids)"
    proof (cases "set tids \<subseteq> set orig")
      case True
      then have eq: "set tids = set orig" using Suc.prems(2) w by blast
      have "set (as_build a1) = set (as_build a) \<or> set tids = {}" using Suc.prems(3) a1(1) eq by auto
      then have "wanted rts runall (set (as_build a1)) = set tids"
      proof
        assume "set tids = {}"
        then show ?thesis using a1(1) by (simp add: wanted_def)
      qed (simp add: w)
      then have "runall_closed rts runall (set (as_build a1))" using a1(1) by (simp add: runall_closed_def)
      then show ?thesis using True a1(2) w \<open>set tids \<subseteq> set (as_build a1)\<close> by simp
    next
      case False
      have "set tids \<subseteq> set (dkeys rts)" by (simp add: w) (auto simp: wanted_def)
      then have "set (dkeys rts) - set tids \<subset> set (dkeys rts) - set orig"
        using False Suc.prems(2) w by auto
      then have "card (set (dkeys rts) - set tids) < card (set (dkeys rts) - set orig)"
        by (intro psubset_card_mono) auto
      then have less: "card (set (dkeys rts) - set tids) < n" using Suc.prems(4) by simp
      have "yields (\<lambda>a'. runall_closed rts runall (set (as_build a')) \<and> depend_closed rts (set (as_build a')) \<and>
          wanted rts runall (set (as_build a1)) \<subseteq> set (as_build a')) (runall_loop n dcs tds rts force runall a1 tids)"
        using a1 up less by (intro Suc.IH) auto
      then show ?thesis using False w up by (auto elim!: yields_weaken)
    qed
  qed
qed

definition part_of :: "run_tasks \<Rightarrow> run_tasks \<Rightarrow> bool" where
  "part_of rts rts' \<longleftrightarrow> (\<exists>B. rts' = prune rts B \<and> depend_closed rts (set B))"

lemma prune_keys: "dkeys (prune rts B) = filter (\<lambda>t. t \<in> set B) (dkeys rts)"
  by (induction rts) (auto simp: prune_def dkeys_def)

lemma prune_look: "t \<in> set B \<Longrightarrow> map_of (prune rts B) t = map_of rts t"
  by (induction rts) (auto simp: prune_def)

lemma prune_depends: "t \<in> set B \<Longrightarrow> depends_of (prune rts B) t = depends_of rts t"
  by (simp add: depends_of_def dget_def prune_look)

lemma prune_closed:
  assumes "depend_closed rts (set B)"
  shows "closed_deps (prune rts B)"
  using assms by (auto simp: closed_deps_def prune_keys prune_depends depend_closed_def)

lemma prune_all: "set (dkeys rts) \<subseteq> set B \<Longrightarrow> prune rts B = rts"
  by (auto simp: prune_def dkeys_def intro!: filter_True)

lemma prune_prune: "prune (prune rts B) C = prune rts (filter (\<lambda>t. t \<in> set C) B)"
  by (auto simp: prune_def intro!: filter_cong)

lemma part_of_prune:
  assumes "part_of rts rts'" and "depend_closed rts' (set C)"
  shows "part_of rts (prune rts' C)"
proof -
  obtain B where B: "rts' = prune rts B" "depend_closed rts (set B)" using assms(1) by (auto simp: part_of_def)
  have "depend_closed rts (set (filter (\<lambda>t. t \<in> set C) B))"
  proof -
    have sub: "set C \<subseteq> set B" "set (filter (\<lambda>t. t \<in> set C) B) = set C"
      using assms(2) B(1) by (auto simp: depend_closed_def prune_keys)
    then have "depends_of rts' u = depends_of rts u" if "u \<in> set C" for u
      using that prune_depends B(1) by blast
    then show ?thesis using assms(2) B(2) sub by (auto simp: depend_closed_def)
  qed
  then show ?thesis unfolding part_of_def B(1) prune_prune by blast
qed

lemma part_of_closed: "closed_deps rts \<Longrightarrow> part_of rts rts' \<Longrightarrow> closed_deps rts'"
  by (auto simp: part_of_def prune_closed)

lemma prune_runonly_yields:
  assumes cl: "closed_deps rts" and "part_of rts rts1"
  shows "yields (\<lambda>(rts', a'). part_of rts rts' \<and> (runonly = [] \<longrightarrow> rts' = rts1))
    (prune_runonly dcs tds force runonly (rts1, a))"
proof -
  have cl1: "closed_deps rts1" using assms part_of_closed by blast
  have "yields (\<lambda>a'. depend_closed rts1 (set (as_build a')))
      (rfold (runonly_task dcs tds rts1 force) runonly (a\<lparr>as_build := []\<rparr>))"
  proof (rule yields_fold)
    fix task and u :: active_state assume u: "depend_closed rts1 (set (as_build u))"
    have m: "yields (\<lambda>_. True) (rmap taskname_from_tid (dkeys rts1))"
      by (rule yields_map) (simp add: taskname_from_tid_def split: option.split)
    show "yields (\<lambda>a'. depend_closed rts1 (set (as_build a'))) (runonly_task dcs tds rts1 force task u)"
      unfolding runonly_task_def
      by (rule yields_bind [OF m], rule yields_weaken [OF mark_all_wanted_yields [OF cl1 _ u]]) auto
  qed simp
  then show ?thesis
    using assms(2) unfolding prune_runonly_def
    by (auto simp: Let_def intro!: yields_bind part_of_prune)
qed


lemma prune_runall_yields:
  assumes cl: "closed_deps rts" and B: "depend_closed rts (set (as_build a))"
    and names: "\<forall>task\<in>set runall. CHR '':'' \<notin> set task"
  shows "yields (\<lambda>(rts', a'). rts' = prune rts (as_build a') \<and> depend_closed rts (set (as_build a')) \<and>
      (runall = [] \<longrightarrow> a' = a) \<and>
      (runall \<noteq> [] \<longrightarrow> runall_closed rts runall (set (as_build a')) \<and>
         wanted rts runall (set (as_build a)) \<subseteq> set (as_build a')))
    (prune_runall dcs tds force runall rts a)"
proof -
  have "card (set (dkeys rts) - set []) < Suc (Suc (length rts))"
    using card_length [of "dkeys rts"] by (simp add: dkeys_def)
  then have "yields (\<lambda>a'. runall_closed rts runall (set (as_build a')) \<and> depend_closed rts (set (as_build a')) \<and>
      wanted rts runall (set (as_build a)) \<subseteq> set (as_build a'))
      (runall_loop (Suc (Suc (length rts))) dcs tds rts force runall a [])"
    using B by (intro runall_loop_yields [OF cl names]) auto
  then have "yields (\<lambda>a'. depend_closed rts (set (as_build a')) \<and> (runall = [] \<longrightarrow> a' = a) \<and>
      (runall \<noteq> [] \<longrightarrow> runall_closed rts runall (set (as_build a')) \<and>
         wanted rts runall (set (as_build a)) \<subseteq> set (as_build a')))
      (if runall = [] then Inr a else runall_loop (Suc (Suc (length rts))) dcs tds rts force runall a [])"
    using B by (auto intro: yields_weaken)
  then show ?thesis
    unfolding prune_runall_def by (rule yields_bind) (auto simp: Let_def)
qed

lemma active_tasks_yields:
  assumes prep: "tasks_prepared tds rts" and names: "\<forall>task\<in>set runall. CHR '':'' \<notin> set task"
  shows "yields (\<lambda>(rts', a). rts' \<noteq> [] \<and> part_of rts rts' \<and>
      (runall = [] \<and> runonly = [] \<longrightarrow>
         set (dkeys rts') = (\<Union>t\<in>set targets. \<Union>r\<in>set (target_roots tds rts t). reach rts r)) \<and>
      (runall \<noteq> [] \<and> runonly = [] \<longrightarrow> runall_closed rts runall (set (dkeys rts')) \<and>
         wanted rts runall (\<Union>t\<in>set targets. \<Union>r\<in>set (target_roots tds rts t). reach rts r) \<subseteq> set (dkeys rts')))
    (active_tasks dcs tds targets force runall runonly rts)"
proof -
  let ?R = "\<Union>t\<in>set targets. \<Union>r\<in>set (target_roots tds rts t). reach rts r"
  let ?a0 = "\<lparr>as_build = [], as_target_tids = [], as_invalid = []\<rparr>"
  have cl: "closed_deps rts" using prep by (simp add: tasks_prepared_def)
  have keys: "set (dkeys (prune rts B)) = set B" if "depend_closed rts (set B)" for B
    using that by (auto simp: prune_keys depend_closed_def)
  have m: "yields (\<lambda>a'. set (as_build a') = set (as_build ?a0) \<union> ?R \<and> depend_closed rts (set (as_build a')) \<and>
      as_invalid a' = as_invalid ?a0) (rfold (mark_target tds rts) targets ?a0)"
    by (rule mark_targets_yields [OF prep]) simp
  show ?thesis
    unfolding active_tasks_def
  proof (rule yields_bind [OF m], elim conjE)
    fix a :: active_state
    assume a: "set (as_build a) = set (as_build ?a0) \<union> ?R" "depend_closed rts (set (as_build a))"
    let ?P = "\<lambda>rts'. part_of rts rts' \<and> (runall = [] \<and> runonly = [] \<longrightarrow> set (dkeys rts') = ?R) \<and>
      (runall \<noteq> [] \<and> runonly = [] \<longrightarrow> runall_closed rts runall (set (dkeys rts')) \<and>
         wanted rts runall ?R \<subseteq> set (dkeys rts'))"
    show "yields (\<lambda>(rts', a). rts' \<noteq> [] \<and> ?P rts')
       (rbind (prune_runall dcs tds force runall rts a) (\<lambda>st. rbind (prune_runonly dcs tds force runonly st) (check_left tds)))"
    proof (rule yields_bind [OF prune_runall_yields [OF cl a(2) names]], clarify)
      fix a1 :: active_state
      assume a1: "depend_closed rts (set (as_build a1))" "runall = [] \<longrightarrow> a1 = a"
        "runall \<noteq> [] \<longrightarrow> runall_closed rts runall (set (as_build a1)) \<and> wanted rts runall (set (as_build a)) \<subseteq> set (as_build a1)"
      have part: "part_of rts (prune rts (as_build a1))" using a1(1) by (auto simp: part_of_def)
      show "yields (\<lambda>(rts', a). rts' \<noteq> [] \<and> ?P rts')
          (rbind (prune_runonly dcs tds force runonly (prune rts (as_build a1), a1)) (check_left tds))"
      proof (rule yields_bind [OF prune_runonly_yields [OF cl part]], clarify)
        fix rts' :: run_tasks and a' :: active_state
        assume r: "part_of rts rts'" "runonly = [] \<longrightarrow> rts' = prune rts (as_build a1)"
        have "?P rts'" using r a a1 keys [OF a1(1)] by auto
        then show "yields (\<lambda>(rts', a). rts' \<noteq> [] \<and> ?P rts') (check_left tds (rts', a'))"
          by (auto simp: check_left_def intro!: yields_bind [OF yields_lookup])
      qed
    qed
  qed
qed


text \<open>C3: without \<open>--runall\<close> and \<open>--runonly\<close>, the tasks left after pruning are exactly those reachable along
  dependencies from what the targets ask for (the task itself, or for a task name ending in a dash
  its dependencies), each with its dependencies unchanged and left in the queue too; otherwise the
  build stops with an error, and marking always ends, also on a graph with loops.\<close>

theorem active_tasks_reachable:
  assumes "tasks_prepared tds rts"
  shows "yields (\<lambda>(rts', a). rts' \<noteq> [] \<and> closed_deps rts' \<and>
      set (dkeys rts') = (\<Union>t\<in>set targets. \<Union>r\<in>set (target_roots tds rts t). reach rts r) \<and>
      (\<forall>t\<in>set (dkeys rts'). map_of rts' t = map_of rts t))
    (active_tasks dcs tds targets force [] [] rts)"
proof (rule yields_weaken [OF active_tasks_yields [OF assms]])
  fix st :: "run_tasks \<times> active_state"
  let ?R = "\<Union>t\<in>set targets. \<Union>r\<in>set (target_roots tds rts t). reach rts r"
  assume a: "case st of (rts', a) \<Rightarrow> rts' \<noteq> [] \<and> part_of rts rts' \<and>
      ([] = [] \<and> [] = [] \<longrightarrow> set (dkeys rts') = ?R) \<and>
      ([] \<noteq> [] \<and> [] = [] \<longrightarrow> runall_closed rts [] (set (dkeys rts')) \<and> wanted rts [] ?R \<subseteq> set (dkeys rts'))"
  obtain rts' a' where st: "st = (rts', a')" by (cases st)
  obtain B where B: "rts' = prune rts B" "depend_closed rts (set B)" using a st by (auto simp: part_of_def)
  then have "map_of rts' t = map_of rts t" if "t \<in> set (dkeys rts')" for t
    using that by (simp add: prune_keys prune_look)
  then show "case st of (rts', a) \<Rightarrow> rts' \<noteq> [] \<and> closed_deps rts' \<and> set (dkeys rts') = ?R \<and>
      (\<forall>t\<in>set (dkeys rts'). map_of rts' t = map_of rts t)"
    using a st prune_closed [OF B(2)] B(1) by simp
qed simp

text \<open>\<open>--runall\<close> always ends, although it repeats until nothing is added: the tasks left are exactly
  those below the wanted tasks of the recipes that are left, and the wanted tasks of every recipe
  of the original task graph are among them.\<close>

theorem runall_fixpoint:
  assumes "tasks_prepared tds rts" and "\<forall>task\<in>set runall. CHR '':'' \<notin> set task" and "runall \<noteq> []"
  shows "yields (\<lambda>(rts', a).
      set (dkeys rts') = (\<Union>t\<in>wanted rts runall (set (dkeys rts')). reach rts t) \<and>
      wanted rts runall (\<Union>t\<in>set targets. \<Union>r\<in>set (target_roots tds rts t). reach rts r) \<subseteq> set (dkeys rts'))
    (active_tasks dcs tds targets force runall [] rts)"
  by (rule yields_weaken [OF active_tasks_yields [OF assms(1,2)]])
    (use assms(3) in \<open>auto simp: runall_closed_def\<close>)

definition sample_td :: taskdata where
  "sample_td = (init_taskdata True [] False init_cacheData)\<lparr>build_targets := [(''img'', [''a''])],
     taskentries := map (\<lambda>t. (t, empty_entry)) (dkeys sample_run)\<rparr>"

lemma sample_prepared: "tasks_prepared [([], sample_td)] sample_run"
  by code_simp


lemma active_tasks_reachable_witness:
  "\<exists>rts' a. active_tasks [] [([], sample_td)] [([], ''img'', ''do_build'', ''a'')] False [] [] sample_run = Inr (rts', a) \<and>
    dkeys rts' = [''a:do_build'', ''b:do_build'', ''c:do_build''] \<and> closed_deps rts'"
proof -
  let ?run = "active_tasks [] [([], sample_td)] [([], ''img'', ''do_build'', ''a'')] False [] [] sample_run"
  have "map_option (\<lambda>(r, _). dkeys r) (case ?run of Inl _ \<Rightarrow> None | Inr r \<Rightarrow> Some r) =
    Some [''a:do_build'', ''b:do_build'', ''c:do_build'']" by code_simp
  moreover from this obtain rts' a where "?run = Inr (rts', a)" by (auto split: sum.splits)
  ultimately show ?thesis
    using active_tasks_reachable [OF sample_prepared, of "[([], ''img'', ''do_build'', ''a'')]" "[]" False] by simp
qed

lemma runall_fixpoint_witness:
  "\<exists>rts' a. active_tasks [] [([], sample_td)] [([], ''img'', ''do_build'', ''a'')] False [''pack''] [] sample_run = Inr (rts', a) \<and>
    dkeys rts' = [''c:do_pack''] \<and> set (dkeys rts') = (\<Union>t\<in>wanted sample_run [''pack''] {''c:do_pack''}. reach sample_run t)"
proof -
  let ?run = "active_tasks [] [([], sample_td)] [([], ''img'', ''do_build'', ''a'')] False [''pack''] [] sample_run"
  have "map_option (\<lambda>(r, _). dkeys r) (case ?run of Inl _ \<Rightarrow> None | Inr r \<Rightarrow> Some r) = Some [''c:do_pack'']" by code_simp
  moreover from this obtain rts' a where "?run = Inr (rts', a)" by (auto split: sum.splits)
  moreover have "\<forall>task\<in>set [''pack'']. CHR '':'' \<notin> set task" "[''pack''] \<noteq> []" by simp_all
  ultimately show ?thesis
    using runall_fixpoint [OF sample_prepared, of "[''pack'']" "[([], ''img'', ''do_build'', ''a'')]" "[]" False] by simp
qed

end
