(* ===== verification/RunQueuePrepare.thy ===== *)
theory RunQueuePrepare
  imports ActiveTasks
begin

text \<open>
  Step D of \<open>RunQueueData.prepare\<close>, the signatures, and \<open>prepare\<close> as a whole: reverse dependencies and
  endpoints, the checks for dependency loops and for two versions of one recipe, the tasks with a
  setscene variant, forced invalidation, and the loop that asks the signature generator for the
  hash of each task once its dependencies have theirs.

  The signature generator is a record of functions over its own state. Messages that only explain a
  warning are left out; which items are provided twice is kept.
\<close>

section \<open>Reverse dependencies and endpoints\<close>

definition gen_revdeps :: "run_tasks \<Rightarrow> run_tasks res" where
  "gen_revdeps rts =
     rbind (collect_revdeps rts) (\<lambda>r. Inr (map (\<lambda>(tid, e). (tid, e\<lparr>rte_revdeps := r tid\<rparr>)) rts))"

definition endpoint :: "run_tasks \<Rightarrow> string \<Rightarrow> string list \<Rightarrow> string list res" where
  "endpoint rts tid endpoints =
     (if list_ex (\<lambda>dep. dep \<in> set (depends_of rts tid)) (revdeps_of rts tid)
      then Inl (Fatal (''Task '' @ tid @ '' has circular dependency''))
      else Inr (if revdeps_of rts tid = [] then endpoints @ [tid] else endpoints))"

definition weigh_graph :: "run_tasks \<Rightarrow> run_tasks res" where
  "weigh_graph rts =
     rbind (gen_revdeps rts) (\<lambda>rts.
     rbind (rfold (endpoint rts) (dkeys rts) []) (\<lambda>endpoints. calculate_task_weights rts endpoints))"

section \<open>Several recipes for one item\<close>

definition add_file :: "string \<Rightarrow> string \<Rightarrow> (string, string list) dict \<Rightarrow> (string, string list) dict" where
  "add_file taskfn prov l = AList.update prov (sadd taskfn (dget l prov [])) l"

definition note_provider ::
  "string \<Rightarrow> dcache \<Rightarrow> string \<Rightarrow> (string, string list) dict \<times> string list \<Rightarrow>
    ((string, string list) dict \<times> string list) res" where
  "note_provider mc dc tid st =
     (case st of (prov_list, seen_fn) \<Rightarrow>
      rbind (split_tid_mcfn tid) (\<lambda>(tidmc, fn, taskname, taskfn).
        if taskfn \<in> set seen_fn \<or> mc \<noteq> tidmc then Inr (prov_list, seen_fn)
        else rbind (dlookup (fn_provides dc) taskfn) (\<lambda>provs.
          Inr (fold (add_file taskfn) provs prov_list,
               seen_fn @ [taskfn]))))"

definition same_recipe :: "dcache \<Rightarrow> string \<Rightarrow> string list \<Rightarrow> string list res" where
  "same_recipe dc fn seen_pn =
     rbind (dlookup (pkg_fn dc) fn) (\<lambda>pn.
       if pn \<in> set seen_pn then Inl (Fatal (''Multiple versions of '' @ pn @ '' are due to be built''))
       else Inr (seen_pn @ [pn]))"

text \<open>The result lists the items for which a message is logged.\<close>

definition check_provided ::
  "dcache \<Rightarrow> string list \<Rightarrow> string \<times> string list \<Rightarrow> string list \<Rightarrow> string list res" where
  "check_provided dc allowed pf reported =
     (case pf of (prov, fns) \<Rightarrow>
      if length fns < 2 \<or> prov \<in> set allowed then Inr reported
      else rbind (rfold (same_recipe dc) fns []) (\<lambda>_. Inr (reported @ [prov])))"

definition check_multiple :: "string list \<Rightarrow> run_tasks \<Rightarrow> string \<times> dcache \<Rightarrow> string list \<Rightarrow> string list res" where
  "check_multiple allowed rts m reported =
     (case m of (mc, dc) \<Rightarrow>
      rbind (rfold (note_provider mc dc) (dkeys rts) ([], [])) (\<lambda>(prov_list, _).
        rfold (check_provided dc allowed) prov_list reported))"

section \<open>Setscene tasks and invalidation\<close>

definition setscene_task :: "taskdatas \<Rightarrow> string \<Rightarrow> string list \<Rightarrow> string list res" where
  "setscene_task tds tid tids =
     rbind (split_tid_mcfn tid) (\<lambda>(mc, _).
     rbind (dlookup tds mc) (\<lambda>td.
       Inr (if has_key (taskentries td) (tid @ ''_setscene'') then sadd tid tids else tids)))"

definition invalidate_stamps ::
  "dcaches \<Rightarrow> taskdatas \<Rightarrow> string \<Rightarrow> string \<Rightarrow> (string \<times> string) list \<Rightarrow> (string \<times> string) list res" where
  "invalidate_stamps dcs tds stamps tid invalid =
     rfold (\<lambda>st. invalidate_task dcs tds (fn_from_tid tid @ '':'' @ do_name st) True)
       (split_on CHR '','' stamps) invalid"

definition virtual_names :: "dcaches \<Rightarrow> string \<times> taskdata \<Rightarrow> (string, string) dict res" where
  "virtual_names dcs mtd =
     (case mtd of (mc, td) \<Rightarrow>
      rfold (\<lambda>(v, fn) m. rbind (dlookup dcs mc) (\<lambda>dc. rbind (dlookup (pkg_fn dc) fn) (\<lambda>pn.
          Inr (AList.update v pn m))))
        (get_providermap td ''virtual/'') [])"

section \<open>Signatures\<close>

record 's siggen =
  sg_prep_taskhash :: "string \<Rightarrow> string list \<Rightarrow> 's \<Rightarrow> 's"
  sg_get_taskhash :: "string \<Rightarrow> string list \<Rightarrow> 's \<Rightarrow> string \<times> 's"
  sg_get_unihashes :: "string list \<Rightarrow> 's \<Rightarrow> (string, string) dict \<times> 's"

record 's hashing =
  hs_tasks :: run_tasks
  hs_todeal :: "string list"
  hs_dealtwith :: "string list"
  hs_siggen :: 's

definition hash_task ::
  "('s, 'z) siggen_scheme \<Rightarrow> string list \<Rightarrow> string \<Rightarrow> run_tasks \<times> string list \<times> 's \<Rightarrow>
    run_tasks \<times> string list \<times> 's" where
  "hash_task sg dealtwith tid st =
     (case st of (rts, ready, s) \<Rightarrow>
      let deps = depends_of rts tid in
      if set deps \<subseteq> set dealtwith then
        (case sg_get_taskhash sg tid deps (sg_prep_taskhash sg tid deps s) of (h, s) \<Rightarrow>
          (AList.update tid ((dget rts tid new_task)\<lparr>rte_hash := Some h\<rparr>) rts, ready @ [tid], s))
      else (rts, ready, s))"

definition settle_task ::
  "(string, string) dict \<Rightarrow> string \<Rightarrow> ('s, 'z) hashing_scheme \<Rightarrow> ('s, 'z) hashing_scheme res" where
  "settle_task unihashes tid h =
     rbind (dlookup unihashes tid) (\<lambda>u. Inr (h\<lparr>
       hs_dealtwith := hs_dealtwith h @ [tid],
       hs_todeal := remove1 tid (hs_todeal h),
       hs_tasks := AList.update tid ((dget (hs_tasks h) tid new_task)\<lparr>rte_unihash := Some u\<rparr>) (hs_tasks h)\<rparr>))"

definition hash_round :: "('s, 'z) siggen_scheme \<Rightarrow> ('s, 'w) hashing_scheme \<Rightarrow> ('s, 'w) hashing_scheme res" where
  "hash_round sg h =
     (case fold (hash_task sg (hs_dealtwith h)) (hs_todeal h) (hs_tasks h, [], hs_siggen h) of (rts, ready, s) \<Rightarrow>
      case sg_get_unihashes sg ready s of (unihashes, s) \<Rightarrow>
        rfold (settle_task unihashes) ready (h\<lparr>hs_tasks := rts, hs_siggen := s\<rparr>))"

text \<open>The loop would not end on a dependency loop; the weights rule that out before.\<close>

primrec hash_loop :: "nat \<Rightarrow> ('s, 'z) siggen_scheme \<Rightarrow> ('s, 'w) hashing_scheme \<Rightarrow> ('s, 'w) hashing_scheme res" where
  "hash_loop 0 sg h = Inl OutOfFuel"
| "hash_loop (Suc n) sg h =
     (if hs_todeal h = [] then Inr h else rbind (hash_round sg h) (hash_loop n sg))"

section \<open>The whole of prepare\<close>

record rq_options =
  opt_force :: bool
  opt_nosetscene :: bool
  opt_runall :: "string list"
  opt_runonly :: "string list"
  opt_invalidate_stamp :: string
  opt_multi_provider_allowed :: "string list"

record 's rqdata =
  rq_tasks :: run_tasks
  rq_taskdata :: taskdatas
  rq_target_tids :: "string list"
  rq_setscene_tids :: "string list"
  rq_invalidated :: "(string \<times> string) list"
  rq_reported :: "string list"
  rq_siggen :: 's

definition invalidations ::
  "rq_options \<Rightarrow> dcaches \<Rightarrow> taskdatas \<Rightarrow> active_state \<Rightarrow> (string \<times> string) list res" where
  "invalidations opts dcs tds a =
     rbind (if opt_force opts
            then rfold (\<lambda>tid. invalidate_task dcs tds tid False) (as_target_tids a) (as_invalid a)
            else Inr (as_invalid a)) (\<lambda>invalid.
       if opt_invalidate_stamp opts = [] then Inr invalid
       else rfold (invalidate_stamps dcs tds (opt_invalidate_stamp opts)) (as_target_tids a) invalid)"

definition prepare_graph ::
  "rq_options \<Rightarrow> dcaches \<Rightarrow> taskdatas \<Rightarrow> target list \<Rightarrow> (run_tasks \<times> taskdatas \<times> active_state) res" where
  "prepare_graph opts dcs tds targets =
     rbind (prepare_tasks dcs tds) (\<lambda>p.
     rbind (recursive_deps (pr_recursive p) (pr_recidep p) (pr_selfref p) (pr_tasks p)) (\<lambda>rts.
     rbind (active_tasks dcs (pr_tds p) targets (opt_force opts) (opt_runall opts) (opt_runonly opts) rts) (\<lambda>(rts, a).
     rbind (weigh_graph rts) (\<lambda>rts. Inr (rts, pr_tds p, a)))))"

definition prepare ::
  "('s, 'z) siggen_scheme \<Rightarrow> 's \<Rightarrow> rq_options \<Rightarrow> dcaches \<Rightarrow> taskdatas \<Rightarrow> target list \<Rightarrow> 's rqdata option res" where
  "prepare sg s opts dcs tds targets =
     (if list_all (\<lambda>(_, td). taskentries td = []) tds then Inr None
      else
        rbind (prepare_graph opts dcs tds targets) (\<lambda>(rts, tds, a).
        rbind (rfold (check_multiple (opt_multi_provider_allowed opts) rts) dcs []) (\<lambda>reported.
        rbind (if opt_nosetscene opts then Inr [] else rfold (setscene_task tds) (dkeys rts) []) (\<lambda>scene.
        rbind (invalidations opts dcs tds a) (\<lambda>invalid.
        rbind (rmap (virtual_names dcs) tds) (\<lambda>_.
        rbind (hash_loop (Suc (length rts)) sg
                 \<lparr>hs_tasks = rts, hs_todeal = dkeys rts, hs_dealtwith = [], hs_siggen = s\<rparr>) (\<lambda>h.
          Inr (Some \<lparr>rq_tasks = hs_tasks h, rq_taskdata = tds, rq_target_tids = as_target_tids a,
            rq_setscene_tids = scene, rq_invalidated = invalid, rq_reported = reported,
            rq_siggen = hs_siggen h\<rparr>))))))))"

definition rq_count :: "'s rqdata option \<Rightarrow> nat" where
  "rq_count r = (case r of None \<Rightarrow> 0 | Some d \<Rightarrow> length (rq_tasks d))"

section \<open>Hashes and users' names of tasks\<close>

definition get_task_hash :: "run_tasks \<Rightarrow> string \<Rightarrow> string option res" where
  "get_task_hash rts tid = rbind (dlookup rts tid) (\<lambda>e. Inr (rte_hash e))"

definition get_task_unihash :: "run_tasks \<Rightarrow> string \<Rightarrow> string option res" where
  "get_task_unihash rts tid = rbind (dlookup rts tid) (\<lambda>e. Inr (rte_unihash e))"

definition get_user_idstring :: "string \<Rightarrow> string \<Rightarrow> string" where
  "get_user_idstring tid task_name_suffix = tid @ task_name_suffix"

definition get_short_user_idstring :: "dcaches \<Rightarrow> string \<Rightarrow> string \<Rightarrow> string res" where
  "get_short_user_idstring dcs task task_name_suffix =
     rbind (split_tid_mcfn task) (\<lambda>(mc, fn, taskname, taskfn).
     rbind (dlookup dcs mc) (\<lambda>dc.
     rbind (dlookup (pkg_fn dc) taskfn) (\<lambda>pn.
     rbind (taskname_from_tid task) (\<lambda>taskname. Inr (pn @ '':'' @ taskname @ task_name_suffix)))))"

text \<open>The literal \<open>"taskname"\<close> is in the code: the task's own name does not enter the index.\<close>

definition pending_hash_index :: "dcaches \<Rightarrow> run_tasks \<Rightarrow> string \<Rightarrow> string res" where
  "pending_hash_index dcs rts tid =
     rbind (split_tid_mcfn tid) (\<lambda>(mc, fn, taskname, taskfn).
     rbind (dlookup dcs mc) (\<lambda>dc.
     rbind (dlookup (pkg_fn dc) taskfn) (\<lambda>pn.
     rbind (dlookup rts tid) (\<lambda>e.
       case rte_unihash e of None \<Rightarrow> Inl TypeError | Some h \<Rightarrow> Inr (pn @ '':'' @ ''taskname'' @ h)))))"


section \<open>The weighed graph\<close>

definition distinct_deps :: "run_tasks \<Rightarrow> bool" where
  "distinct_deps rts \<longleftrightarrow> distinct (dkeys rts) \<and> (\<forall>t\<in>set (dkeys rts). distinct (depends_of rts t))"

lemma map_tasks:
  assumes "\<And>t e. rte_depends (f t e) = rte_depends e"
  shows "dkeys (map (\<lambda>(tid, e). (tid, f tid e)) rts) = dkeys rts"
    and "depends_of (map (\<lambda>(tid, e). (tid, f tid e)) rts) = depends_of rts"
    and "map_of (map (\<lambda>(tid, e). (tid, f tid e)) rts) t = map_option (f t) (map_of rts t)"
proof -
  show look: "map_of (map (\<lambda>(tid, e). (tid, f tid e)) rts) t = map_option (f t) (map_of rts t)" for t
    by (induction rts) auto
  show "dkeys (map (\<lambda>(tid, e). (tid, f tid e)) rts) = dkeys rts" by (auto simp: dkeys_def)
  show "depends_of (map (\<lambda>(tid, e). (tid, f tid e)) rts) = depends_of rts"
    by (rule ext) (simp add: depends_of_def dget_def look assms split: option.split)
qed

lemma gen_revdeps_total:
  assumes "closed_deps rts" and "distinct_deps rts"
  shows "\<exists>rts1. gen_revdeps rts = Inr rts1 \<and> graph_wf rts1 \<and> dkeys rts1 = dkeys rts \<and>
    depends_of rts1 = depends_of rts"
proof -
  obtain r where r: "collect_revdeps rts = Inr r" "revdeps_over rts (set (dkeys rts)) r"
    using collect_revdeps_total assms by (auto simp: distinct_deps_def)
  define rts1 where "rts1 = map (\<lambda>(tid, e). (tid, e\<lparr>rte_revdeps := r tid\<rparr>)) rts"
  note m = map_tasks [of "\<lambda>tid e. e\<lparr>rte_revdeps := r tid\<rparr>" rts, folded rts1_def, simplified]
  have rev: "revdeps_of rts1 t = r t" if "t \<in> set (dkeys rts)" for t
    using that m(3) has_key_iff [of rts t] by (auto simp: revdeps_of_def dget_def has_key_def)
  have "graph_wf rts1"
    using assms r(2) m(1,2) rev
    by (auto simp: graph_wf_def distinct_deps_def closed_deps_def revdeps_over_def)
  then show ?thesis using r(1) m(1,2) by (simp add: gen_revdeps_def rts1_def)
qed

lemma endpoints_of:
  assumes "\<forall>tid\<in>set tids. \<not> list_ex (\<lambda>dep. dep \<in> set (depends_of rts tid)) (revdeps_of rts tid)"
  shows "rfold (endpoint rts) tids eps = Inr (eps @ filter (\<lambda>tid. revdeps_of rts tid = []) tids)"
  using assms by (induction tids arbitrary: eps) (auto simp: endpoint_def)

lemma endpoints_loop:
  assumes "tid \<in> set tids" and "list_ex (\<lambda>dep. dep \<in> set (depends_of rts tid)) (revdeps_of rts tid)"
  shows "\<exists>e. rfold (endpoint rts) tids eps = Inl e \<and> (\<exists>msg. e = Fatal msg)"
  using assms(1) by (rule rfold_error) (use assms(2) in \<open>auto simp: endpoint_def\<close>)

lemma edges_cong: "dkeys rts = dkeys rts' \<Longrightarrow> depends_of rts = depends_of rts' \<Longrightarrow> edges rts = edges rts'"
  by (simp add: edges_def)

lemma weights_graph_wf:
  assumes wf: "graph_wf rts" and keys: "dkeys rts' = dkeys rts"
    and same: "\<forall>t\<in>set (dkeys rts). depends_of rts' t = depends_of rts t \<and> revdeps_of rts' t = revdeps_of rts t"
  shows "graph_wf rts'"
  using wf same unfolding graph_wf_def keys by simp

lemma weigh_graph_result:
  assumes "closed_deps rts" and "distinct_deps rts"
  shows "if acyclic (edges rts)
    then \<exists>rts'. weigh_graph rts = Inr rts' \<and> graph_wf rts' \<and> dkeys rts' = dkeys rts \<and>
      (\<forall>t\<in>set (dkeys rts). depends_of rts' t = depends_of rts t \<and>
         weight_of rts' t = base_weight rts' t + (\<Sum>r\<in>set (revdeps_of rts' t). weight_of rts' r))
    else \<exists>msg. weigh_graph rts = Inl (Fatal msg)"
proof -
  obtain rts1 where r: "gen_revdeps rts = Inr rts1" "graph_wf rts1" "dkeys rts1 = dkeys rts"
    "depends_of rts1 = depends_of rts"
    using gen_revdeps_total [OF assms] by blast
  have edges: "edges rts1 = edges rts" using r(3,4) by (rule edges_cong)
  show ?thesis
  proof (cases "\<exists>tid\<in>set (dkeys rts1). list_ex (\<lambda>dep. dep \<in> set (depends_of rts1 tid)) (revdeps_of rts1 tid)")
    case True
    then obtain t d where t: "t \<in> set (dkeys rts1)" "d \<in> set (revdeps_of rts1 t)" "d \<in> set (depends_of rts1 t)"
      by (auto simp: list_ex_iff)
    then have "(t, d) \<in> edges rts1" "(d, t) \<in> edges rts1" using r(2) by (auto simp: edges_def graph_wf_def)
    then have "\<not> acyclic (edges rts)" unfolding edges acyclic_def by (meson r_into_trancl trancl_trans)
    moreover have "list_ex (\<lambda>dep. dep \<in> set (depends_of rts1 t)) (revdeps_of rts1 t)"
      using t by (auto simp: list_ex_iff)
    then have "\<exists>msg. weigh_graph rts = Inl (Fatal msg)"
      using endpoints_loop [OF t(1), of rts1 "[]"] r(1) by (auto simp: weigh_graph_def)
    ultimately show ?thesis by simp
  next
    case False
    then have "weigh_graph rts = calculate_task_weights rts1 (end_tasks rts1)"
      using endpoints_of [of "dkeys rts1" rts1 "[]"] r(1) by (simp add: weigh_graph_def end_tasks_def)
    note res = this calculate_task_weights_result [OF r(2), unfolded edges]
    show ?thesis
    proof (cases "acyclic (edges rts)")
      case True
      obtain rts' where rts': "calculate_task_weights rts1 (end_tasks rts1) = Inr rts'" "dkeys rts' = dkeys rts1"
        and w: "\<forall>t\<in>set (dkeys rts1). depends_of rts' t = depends_of rts1 t \<and> revdeps_of rts' t = revdeps_of rts1 t \<and>
          weight_of rts' t = base_weight rts1 t + (\<Sum>r\<in>set (revdeps_of rts1 t). weight_of rts' r)"
        using res(2) True by (auto simp only: if_True)
      have "graph_wf rts'" using weights_graph_wf [OF r(2) rts'(2)] w by blast
      then show ?thesis using True res(1) rts' w r(3,4) by (simp add: base_weight_def)
    next
      case False
      then show ?thesis using res by (simp only: if_False)
    qed
  qed
qed

text \<open>From resolved dependencies, the reverse dependencies, endpoints and weights are computed, and
  the graph that results is consistent, exactly when the dependencies have no loop; otherwise, a
  loop of two tasks included, the build stops with a fatal error.\<close>

theorem weigh_graph_spec:
  assumes "closed_deps rts" and "distinct_deps rts"
  shows "if acyclic (edges rts)
    then \<exists>rts'. weigh_graph rts = Inr rts' \<and> graph_wf rts' \<and> dkeys rts' = dkeys rts \<and>
      (\<forall>t\<in>set (dkeys rts). depends_of rts' t = depends_of rts t \<and>
         weight_of rts' t = base_weight rts' t + (\<Sum>r\<in>set (revdeps_of rts' t). weight_of rts' r))
    else \<exists>msg. weigh_graph rts = Inl (Fatal msg)"
  by (rule weigh_graph_result [OF assms])

lemma weigh_graph_spec_witness:
  "\<exists>rts'. weigh_graph sample_run = Inr rts' \<and> weight_of rts' ''c:do_build'' = 13 \<and> graph_wf rts'"
proof -
  have wf: "closed_deps sample_run" "distinct_deps sample_run" by code_simp+
  have w: "map_option (\<lambda>r. weight_of r ''c:do_build'') (case weigh_graph sample_run of Inl _ \<Rightarrow> None | Inr r \<Rightarrow> Some r) = Some 13"
    by code_simp
  then show ?thesis using weigh_graph_spec [OF wf] by (auto split: sum.splits if_splits)
qed


section \<open>The order of the hashes\<close>

definition in_order :: "run_tasks \<Rightarrow> string list \<Rightarrow> bool" where
  "in_order rts ds \<longleftrightarrow> (\<forall>i<length ds. set (depends_of rts (ds ! i)) \<subseteq> set (take i ds))"

lemma in_order_snoc: "in_order rts ds \<Longrightarrow> set (depends_of rts t) \<subseteq> set ds \<Longrightarrow> in_order rts (ds @ [t])"
  by (auto simp: in_order_def nth_append less_Suc_eq)

definition hash_of :: "run_tasks \<Rightarrow> string \<Rightarrow> string option" where
  "hash_of rts t = rte_hash (dget rts t new_task)"

definition unihash_of :: "run_tasks \<Rightarrow> string \<Rightarrow> string option" where
  "unihash_of rts t = rte_unihash (dget rts t new_task)"

text \<open>\<open>same_graph\<close>: only hashes have changed.\<close>

definition same_graph :: "run_tasks \<Rightarrow> run_tasks \<Rightarrow> bool" where
  "same_graph rts rts' \<longleftrightarrow> dkeys rts' = dkeys rts \<and> depends_of rts' = depends_of rts \<and>
     revdeps_of rts' = revdeps_of rts \<and> weight_of rts' = weight_of rts"

lemma same_graph_trans: "same_graph a b \<Longrightarrow> same_graph b c \<Longrightarrow> same_graph a c"
  by (simp add: same_graph_def)

lemma same_graph_update:
  assumes "t \<in> set (dkeys rts)" and "rte_depends e = depends_of rts t" and "rte_revdeps e = revdeps_of rts t"
    and "rte_weight e = weight_of rts t"
  shows "same_graph rts (AList.update t e rts)"
  using assms by (auto simp: same_graph_def dkeys_update has_key_iff depends_of_def revdeps_of_def weight_of_def fun_eq_iff)

definition hash_inv :: "run_tasks \<Rightarrow> 's hashing \<Rightarrow> bool" where
  "hash_inv rts h \<longleftrightarrow> same_graph rts (hs_tasks h) \<and> distinct (hs_todeal h) \<and>
     set (hs_todeal h) \<union> set (hs_dealtwith h) = set (dkeys rts) \<and>
     set (hs_todeal h) \<inter> set (hs_dealtwith h) = {} \<and> in_order rts (hs_dealtwith h) \<and>
     (\<forall>t\<in>set (hs_dealtwith h). hash_of (hs_tasks h) t \<noteq> None \<and> unihash_of (hs_tasks h) t \<noteq> None)"

definition hashed_more :: "string list \<Rightarrow> run_tasks \<Rightarrow> run_tasks \<Rightarrow> bool" where
  "hashed_more ready rts rts' \<longleftrightarrow> same_graph rts rts' \<and>
     (\<forall>t. t \<in> set ready \<longrightarrow> hash_of rts' t \<noteq> None) \<and>
     (\<forall>t. hash_of rts t \<noteq> None \<longrightarrow> hash_of rts' t \<noteq> None) \<and> (\<forall>t. unihash_of rts' t = unihash_of rts t)"

lemma hash_tasks_result:
  assumes "set ts \<subseteq> set (dkeys rts)"
  shows "\<exists>rts' s'. fold (hash_task sg dealt) ts (rts, ready, s) =
      (rts', ready @ filter (\<lambda>t. set (depends_of rts t) \<subseteq> set dealt) ts, s') \<and>
    hashed_more (filter (\<lambda>t. set (depends_of rts t) \<subseteq> set dealt) ts) rts rts'"
  using assms
proof (induction ts arbitrary: rts ready s)
  case Nil
  then show ?case by (simp add: hashed_more_def same_graph_def)
next
  case (Cons t ts)
  show ?case
  proof (cases "set (depends_of rts t) \<subseteq> set dealt")
    case False
    then show ?thesis using Cons by (simp add: hash_task_def Let_def)
  next
    case True
    obtain hv s1 where h: "sg_get_taskhash sg t (depends_of rts t) (sg_prep_taskhash sg t (depends_of rts t) s) = (hv, s1)"
      by (meson surj_pair)
    define rts1 where "rts1 = AList.update t ((dget rts t new_task)\<lparr>rte_hash := Some hv\<rparr>) rts"
    have g: "same_graph rts rts1"
      unfolding rts1_def by (rule same_graph_update)
        (use Cons.prems in \<open>auto simp: depends_of_def revdeps_of_def weight_of_def\<close>)
    have hs: "hash_of rts1 u = (if u = t then Some hv else hash_of rts u)" "unihash_of rts1 u = unihash_of rts u" for u
      by (auto simp: rts1_def hash_of_def unihash_of_def)
    have d: "depends_of rts1 = depends_of rts" "dkeys rts1 = dkeys rts" using g by (simp_all add: same_graph_def)
    have "set ts \<subseteq> set (dkeys rts1)" using Cons.prems d by simp
    then obtain rts' s' where r: "fold (hash_task sg dealt) ts (rts1, ready @ [t], s1) =
        (rts', (ready @ [t]) @ filter (\<lambda>t. set (depends_of rts1 t) \<subseteq> set dealt) ts, s')"
      "hashed_more (filter (\<lambda>t. set (depends_of rts1 t) \<subseteq> set dealt) ts) rts1 rts'"
      using Cons.IH [of rts1 "ready @ [t]" s1] by blast
    have "hashed_more (t # filter (\<lambda>t. set (depends_of rts t) \<subseteq> set dealt) ts) rts rts'"
      using r(2) g hs unfolding hashed_more_def d(1)
      by (auto intro: same_graph_trans)
    moreover have "hash_task sg dealt t (rts, ready, s) = (rts1, ready @ [t], s1)"
      using True h by (simp add: hash_task_def Let_def rts1_def)
    ultimately show ?thesis using True r(1) d(1) by auto
  qed
qed

lemma settle_task_inv:
  assumes inv: "hash_inv rts h" and t: "t \<in> set (hs_todeal h)" and deps: "set (depends_of rts t) \<subseteq> set (hs_dealtwith h)"
    and hash: "hash_of (hs_tasks h) t \<noteq> None"
  shows "yields (\<lambda>h'. hash_inv rts h' \<and> hs_dealtwith h' = hs_dealtwith h @ [t] \<and>
      hs_todeal h' = remove1 t (hs_todeal h) \<and> hash_of (hs_tasks h') = hash_of (hs_tasks h))
    (settle_task unihashes t h)"
  unfolding settle_task_def
proof (rule yields_bind [OF yields_lookup])
  fix u
  define h' where "h' = h\<lparr>hs_dealtwith := hs_dealtwith h @ [t], hs_todeal := remove1 t (hs_todeal h),
    hs_tasks := AList.update t ((dget (hs_tasks h) t new_task)\<lparr>rte_unihash := Some u\<rparr>) (hs_tasks h)\<rparr>"
  have h': "hs_dealtwith h' = hs_dealtwith h @ [t]" "hs_todeal h' = remove1 t (hs_todeal h)"
    "hash_of (hs_tasks h') = hash_of (hs_tasks h)"
    "unihash_of (hs_tasks h') v = (if v = t then Some u else unihash_of (hs_tasks h) v)" for v
    by (auto simp: h'_def hash_of_def unihash_of_def fun_eq_iff)
  note inv = inv [unfolded hash_inv_def]
  have tk: "t \<in> set (dkeys (hs_tasks h))" using inv t by (auto simp: same_graph_def)
  have "same_graph (hs_tasks h) (hs_tasks h')"
    unfolding h'_def by (simp, rule same_graph_update [OF tk])
      (auto simp: depends_of_def revdeps_of_def weight_of_def)
  then have "same_graph rts (hs_tasks h')" using inv same_graph_trans by blast
  moreover have "in_order rts (hs_dealtwith h @ [t])" using inv deps by (intro in_order_snoc) auto
  moreover have "set (remove1 t (hs_todeal h)) = set (hs_todeal h) - {t}" using inv by simp
  ultimately have "hash_inv rts h'"
    using inv t hash unfolding hash_inv_def h' by auto
  then show "yields (\<lambda>h'. hash_inv rts h' \<and> hs_dealtwith h' = hs_dealtwith h @ [t] \<and>
      hs_todeal h' = remove1 t (hs_todeal h) \<and> hash_of (hs_tasks h') = hash_of (hs_tasks h))
    (Inr (h\<lparr>hs_dealtwith := hs_dealtwith h @ [t], hs_todeal := remove1 t (hs_todeal h),
      hs_tasks := AList.update t ((dget (hs_tasks h) t new_task)\<lparr>rte_unihash := Some u\<rparr>) (hs_tasks h)\<rparr>))"
    using h' by (simp add: h'_def)
qed


lemma settle_tasks_inv:
  assumes "hash_inv rts h" and "distinct ready" and "set ready \<subseteq> set (hs_todeal h)"
    and "\<And>t. t \<in> set ready \<Longrightarrow> set (depends_of rts t) \<subseteq> set (hs_dealtwith h)"
    and "\<And>t. t \<in> set ready \<Longrightarrow> hash_of (hs_tasks h) t \<noteq> None"
  shows "yields (\<lambda>h'. hash_inv rts h' \<and> length (hs_todeal h') + length ready = length (hs_todeal h))
    (rfold (settle_task unihashes) ready h)"
  using assms
proof (induction ready arbitrary: h)
  case Nil
  then show ?case by simp
next
  case (Cons t ts)
  have t: "t \<in> set (hs_todeal h)" using Cons.prems(3) by simp
  have s: "yields (\<lambda>h'. hash_inv rts h' \<and> hs_dealtwith h' = hs_dealtwith h @ [t] \<and>
      hs_todeal h' = remove1 t (hs_todeal h) \<and> hash_of (hs_tasks h') = hash_of (hs_tasks h))
      (settle_task unihashes t h)"
    using Cons.prems(4,5) by (intro settle_task_inv [OF Cons.prems(1) t]) auto
  show ?case
    unfolding rfold.simps
  proof (rule yields_bind [OF s], elim conjE)
    fix h1 :: "'a hashing"
    assume h1: "hash_inv rts h1" "hs_dealtwith h1 = hs_dealtwith h @ [t]"
      "hs_todeal h1 = remove1 t (hs_todeal h)" "hash_of (hs_tasks h1) = hash_of (hs_tasks h)"
    have "distinct (hs_todeal h)" using Cons.prems(1) by (simp add: hash_inv_def)
    then have sub: "set ts \<subseteq> set (hs_todeal h1)" using Cons.prems(2,3) h1(3) by auto
    have "0 < length (hs_todeal h)" using t by (cases "hs_todeal h") auto
    then have "length (hs_todeal h) = Suc (length (hs_todeal h1))" using t h1(3) by (simp add: length_remove1)
    moreover have "yields (\<lambda>h'. hash_inv rts h' \<and> length (hs_todeal h') + length ts = length (hs_todeal h1))
        (rfold (settle_task unihashes) ts h1)"
      by (rule Cons.IH [OF h1(1) _ sub]) (use Cons.prems(2,4,5) h1(2,4) in auto)
    ultimately show "yields (\<lambda>h'. hash_inv rts h' \<and> length (hs_todeal h') + length (t # ts) = length (hs_todeal h))
        (rfold (settle_task unihashes) ts h1)"
      by (auto elim: yields_weaken)
  qed
qed

lemma some_ready:
  assumes "closed_deps rts" and "acyclic (edges rts)" and inv: "hash_inv rts h" and "hs_todeal h \<noteq> []"
  shows "\<exists>t\<in>set (hs_todeal h). set (depends_of rts t) \<subseteq> set (hs_dealtwith h)"
proof -
  note inv = inv [unfolded hash_inv_def]
  have "wf ((edges rts)\<inverse>)" using assms(2) edges_finite by (rule finite_acyclic_wf_converse [rotated])
  moreover have "hd (hs_todeal h) \<in> set (hs_todeal h)" using assms(4) by simp
  ultimately obtain t where t: "t \<in> set (hs_todeal h)"
    and min: "\<And>d. (d, t) \<in> (edges rts)\<inverse> \<Longrightarrow> d \<notin> set (hs_todeal h)"
    by (rule wfE_min) blast
  have tk: "t \<in> set (dkeys rts)" using t inv by auto
  have "d \<in> set (hs_dealtwith h)" if "d \<in> set (depends_of rts t)" for d
  proof -
    have "d \<in> set (dkeys rts)" using assms(1) tk that by (auto simp: closed_deps_def)
    moreover have "d \<notin> set (hs_todeal h)" using min [of d] tk that by (simp add: edges_def)
    ultimately show ?thesis using inv by auto
  qed
  with t show ?thesis by blast
qed

lemma hash_round_inv:
  assumes "closed_deps rts" and "acyclic (edges rts)" and inv: "hash_inv rts h" and "hs_todeal h \<noteq> []"
  shows "yields (\<lambda>h'. hash_inv rts h' \<and> length (hs_todeal h') < length (hs_todeal h)) (hash_round sg h)"
proof -
  note i = inv [unfolded hash_inv_def]
  have keys: "dkeys (hs_tasks h) = dkeys rts" and deps: "depends_of (hs_tasks h) = depends_of rts"
    using i by (simp_all add: same_graph_def)
  let ?ready = "filter (\<lambda>t. set (depends_of rts t) \<subseteq> set (hs_dealtwith h)) (hs_todeal h)"
  have "set (hs_todeal h) \<subseteq> set (dkeys (hs_tasks h))" using i keys by auto
  then obtain rts1 s1 where f: "fold (hash_task sg (hs_dealtwith h)) (hs_todeal h) (hs_tasks h, [], hs_siggen h) =
      (rts1, ?ready, s1)" and more: "hashed_more ?ready (hs_tasks h) rts1"
    using hash_tasks_result [of "hs_todeal h" "hs_tasks h" sg "hs_dealtwith h" "[]" "hs_siggen h"] deps by auto
  obtain u s2 where g: "sg_get_unihashes sg ?ready s1 = (u, s2)" by (meson surj_pair)
  define h1 where "h1 = h\<lparr>hs_tasks := rts1, hs_siggen := s2\<rparr>"
  have h1: "hs_tasks h1 = rts1" "hs_todeal h1 = hs_todeal h" "hs_dealtwith h1 = hs_dealtwith h"
    by (simp_all add: h1_def)
  have m: "same_graph (hs_tasks h) rts1" "\<And>t. t \<in> set ?ready \<Longrightarrow> hash_of rts1 t \<noteq> None"
    "\<And>t. hash_of (hs_tasks h) t \<noteq> None \<Longrightarrow> hash_of rts1 t \<noteq> None"
    "\<And>t. unihash_of rts1 t = unihash_of (hs_tasks h) t"
    using more unfolding hashed_more_def by blast+
  have "same_graph rts rts1" using i m(1) same_graph_trans by blast
  then have inv1: "hash_inv rts h1" using i m(3,4) unfolding hash_inv_def h1 by metis
  have rdy: "0 < length ?ready" using some_ready [OF assms] by (simp add: length_greater_0_conv filter_empty_conv)
  have st: "yields (\<lambda>h'. hash_inv rts h' \<and> length (hs_todeal h') + length ?ready = length (hs_todeal h1))
      (rfold (settle_task u) ?ready h1)"
    by (rule settle_tasks_inv [OF inv1]) (use i m(2) h1 in auto)
  have "yields (\<lambda>h'. hash_inv rts h' \<and> length (hs_todeal h') < length (hs_todeal h))
      (rfold (settle_task u) ?ready h1)"
    by (rule yields_weaken [OF st]) (use rdy h1(2) in \<open>auto simp del: length_greater_0_conv\<close>)
  then show ?thesis by (simp add: hash_round_def f g h1_def)
qed

lemma hash_loop_inv:
  assumes cl: "closed_deps rts" and ac: "acyclic (edges rts)" and "hash_inv rts h" and "length (hs_todeal h) < n"
  shows "yields (\<lambda>h'. hash_inv rts h' \<and> hs_todeal h' = []) (hash_loop n sg h)"
  using assms(3,4)
proof (induction n arbitrary: h)
  case 0
  then show ?case by simp
next
  case (Suc n)
  show ?case
  proof (cases "hs_todeal h = []")
    case True
    then show ?thesis using Suc.prems(1) by simp
  next
    case False
    then show ?thesis using Suc
      by (auto intro!: yields_bind [OF hash_round_inv [OF cl ac Suc.prems(1) False]] Suc.IH)
  qed
qed

lemma hash_loop_result:
  assumes "closed_deps rts" and "acyclic (edges rts)" and "distinct (dkeys rts)"
  shows "yields (\<lambda>h. same_graph rts (hs_tasks h) \<and> set (hs_dealtwith h) = set (dkeys rts) \<and>
      in_order rts (hs_dealtwith h) \<and>
      (\<forall>t\<in>set (dkeys rts). hash_of (hs_tasks h) t \<noteq> None \<and> unihash_of (hs_tasks h) t \<noteq> None))
    (hash_loop (Suc (length rts)) sg \<lparr>hs_tasks = rts, hs_todeal = dkeys rts, hs_dealtwith = [], hs_siggen = s\<rparr>)"
proof -
  let ?h = "\<lparr>hs_tasks = rts, hs_todeal = dkeys rts, hs_dealtwith = [], hs_siggen = s\<rparr>"
  have "hash_inv rts ?h"
    using assms(3) by (simp add: hash_inv_def same_graph_def in_order_def)
  moreover have "length (hs_todeal ?h) < Suc (length rts)" by (simp add: dkeys_def)
  ultimately have "yields (\<lambda>h'. hash_inv rts h' \<and> hs_todeal h' = []) (hash_loop (Suc (length rts)) sg ?h)"
    by (rule hash_loop_inv [OF assms(1,2)])
  then show ?thesis by (rule yields_weaken) (auto simp: hash_inv_def)
qed

text \<open>A generator that gives a unihash for each task it is asked about, as \<open>get_unihashes\<close> does: then no round
  raises.\<close>

definition answers_all :: "('s, 'z) siggen_scheme \<Rightarrow> bool" where
  "answers_all sg \<longleftrightarrow> (\<forall>ts s. set ts \<subseteq> set (dkeys (fst (sg_get_unihashes sg ts s))))"

lemma settle_tasks_returns:
  "set ready \<subseteq> set (dkeys unihashes) \<Longrightarrow> \<exists>h'. rfold (settle_task unihashes) ready h = Inr h'"
proof (induction ready arbitrary: h)
  case Nil
  then show ?case by simp
next
  case (Cons t ts)
  then have "t \<in> fst ` set unihashes" by (simp add: dkeys_def)
  then have "map_of unihashes t \<noteq> None" by (simp add: map_of_eq_None_iff)
  then obtain u where "dlookup unihashes t = Inr u" by (auto simp: dlookup_def)
  then show ?case using Cons by (simp add: settle_task_def)
qed

lemma hash_round_returns: "answers_all sg \<Longrightarrow> \<exists>h'. hash_round sg h = Inr h'"
  by (auto simp: hash_round_def answers_all_def split: prod.split intro!: settle_tasks_returns)
    (metis fst_conv subsetD)

lemma hash_loop_returns: "answers_all sg \<Longrightarrow> hash_loop n sg h = Inl e \<Longrightarrow> e = OutOfFuel"
proof (induction n arbitrary: h)
  case 0
  then show ?case by simp
next
  case (Suc n)
  obtain h' where "hash_round sg h = Inr h'" using hash_round_returns [OF Suc.prems(1)] by blast
  then show ?case using Suc by (auto split: if_splits)
qed

text \<open>C5: on a graph without dependency loops, with a generator that gives a unihash for each task it is asked
  about, the hash loop returns, after at most as many rounds as there are tasks: every task has a hash
  and a unihash, and the tasks were dealt with in an order in which each comes after all tasks it
  depends on.\<close>

theorem hash_loop_complete:
  assumes "closed_deps rts" and "acyclic (edges rts)" and "distinct (dkeys rts)" and "answers_all sg"
  shows "\<exists>h. hash_loop (Suc (length rts)) sg \<lparr>hs_tasks = rts, hs_todeal = dkeys rts, hs_dealtwith = [], hs_siggen = s\<rparr> = Inr h \<and>
      same_graph rts (hs_tasks h) \<and> set (hs_dealtwith h) = set (dkeys rts) \<and> in_order rts (hs_dealtwith h) \<and>
      (\<forall>t\<in>set (dkeys rts). hash_of (hs_tasks h) t \<noteq> None \<and> unihash_of (hs_tasks h) t \<noteq> None)"
proof -
  let ?r = "hash_loop (Suc (length rts)) sg \<lparr>hs_tasks = rts, hs_todeal = dkeys rts, hs_dealtwith = [], hs_siggen = s\<rparr>"
  show ?thesis
    using hash_loop_result [OF assms(1-3), of sg s] hash_loop_returns [OF assms(4), of "Suc (length rts)"]
    by (cases ?r) (auto simp del: hash_loop.simps)
qed

text \<open>A generator that numbers the tasks in the order it is asked.\<close>

definition sample_siggen :: "nat siggen" where
  "sample_siggen = \<lparr>sg_prep_taskhash = (\<lambda>_ _ n. Suc n), sg_get_taskhash = (\<lambda>_ _ n. (show_nat n, n)),
     sg_get_unihashes = (\<lambda>ts n. (map (\<lambda>t. (t, ''u'' @ t)) ts, n))\<rparr>"

lemma sample_answers: "answers_all sample_siggen"
  by (simp add: answers_all_def sample_siggen_def dkeys_def)

lemma hash_loop_complete_witness:
  "\<exists>h. hash_loop 6 sample_siggen \<lparr>hs_tasks = sample_run, hs_todeal = dkeys sample_run, hs_dealtwith = [], hs_siggen = 0\<rparr> = Inr h \<and>
    hs_dealtwith h = [''c:do_build'', ''c:do_pack'', ''b:do_build'', ''a:do_build'', ''a:do_image''] \<and>
    in_order sample_run (hs_dealtwith h) \<and> hash_of (hs_tasks h) ''b:do_build'' = Some ''3''"
proof -
  let ?h = "hash_loop 6 sample_siggen \<lparr>hs_tasks = sample_run, hs_todeal = dkeys sample_run, hs_dealtwith = [], hs_siggen = 0\<rparr>"
  have wf: "closed_deps sample_run" "distinct_deps sample_run" "distinct (dkeys sample_run)" by code_simp+
  have w: "(case weigh_graph sample_run of Inl _ \<Rightarrow> False | Inr r \<Rightarrow> True)" by code_simp
  have ac: "acyclic (edges sample_run)"
    using weigh_graph_result [OF wf(1,2)] w by (cases "acyclic (edges sample_run)") auto
  have v: "map_option (\<lambda>h. (hs_dealtwith h, hash_of (hs_tasks h) ''b:do_build'')) (case ?h of Inl _ \<Rightarrow> None | Inr r \<Rightarrow> Some r) =
    Some ([''c:do_build'', ''c:do_pack'', ''b:do_build'', ''a:do_build'', ''a:do_image''], Some ''3'')" by code_simp
  obtain h where h: "?h = Inr h" using v by (auto split: sum.splits)
  have n: "Suc (length sample_run) = 6" by code_simp
  have "in_order sample_run (hs_dealtwith h)"
    using hash_loop_complete [OF wf(1) ac wf(3) sample_answers, of 0] unfolding n h by auto
  with v h show ?thesis by simp
qed


section \<open>What the steps hand on\<close>

lemma distinct_target_dependencies:
  assumes "distinct depends"
  shows "distinct (target_dependencies targets td ids tasknames depends)"
  unfolding target_dependencies_def
  by (rule fold_invariant [where Q = "\<lambda>_. True" and P = distinct])
    (auto simp: Let_def assms split: list.split intro!: fold_invariant [where Q = "\<lambda>_. True" and P = distinct])

lemma yields_distinct_deps:
  "distinct d \<Longrightarrow> yields distinct (add_tdepend t d)"
  "distinct d \<Longrightarrow> yields distinct (add_idepend td x d)"
  "distinct d \<Longrightarrow> yields distinct (add_irdepend td x d)"
  by (auto simp: add_tdepend_def add_idepend_def add_irdepend_def Let_def
      intro!: yields_bind [OF yields_split_tid] split: prod.split list.split)

lemma stated_depends_yields: "yields distinct (stated_depends flags td tid taskname taskfn)"
proof -
  have opt: "yields distinct (case w of None \<Rightarrow> Inr d | Some ts \<Rightarrow> f ts)"
    if "distinct d" "\<And>ts. yields distinct (f ts)" for w d and f :: "string list \<Rightarrow> string list res"
    using that by (simp split: option.split)
  show ?thesis
    unfolding stated_depends_def add_build_dependencies_def add_runtime_dependencies_def
    by (intro yields_bind [where Q = distinct] yields_fold opt yields_bind [OF yields_lookup] yields_distinct_deps)
      (auto intro: distinct_target_dependencies)
qed

definition tds_within :: "string set \<Rightarrow> taskdatas \<Rightarrow> bool" where
  "tds_within A tds \<longleftrightarrow> (\<forall>td\<in>snd ` set tds. set (dkeys (taskentries td)) \<subseteq> A)"

lemma tds_within_lookup: "tds_within A tds \<Longrightarrow> dlookup tds mc = Inr td \<Longrightarrow> set (dkeys (taskentries td)) \<subseteq> A"
  unfolding dlookup_Inr tds_within_def using map_of_SomeD by fastforce

lemma set_update_subset: "set (AList.update k v d) \<subseteq> insert (k, v) (set d)"
  by (induction d) auto

lemma add_mc_yields:
  assumes "tds_within A tds" and "tid \<in> A"
  shows "yields (tds_within A) (add_mc_dependencies tds mc tid)"
proof -
  have "yields (\<lambda>_. True) (add_mc_dependency tds mc dep added)" for dep added
    by (auto simp: add_mc_dependency_def Let_def intro!: yields_bind [OF yields_lookup] split: option.split list.split)
  then have m: "yields (\<lambda>_. True) (rfold (add_mc_dependency tds mc) ds [])" for ds
    by (intro yields_fold) auto
  show ?thesis
  proof (cases "dlookup tds mc")
    case (Inl e)
    then show ?thesis using yields_lookup [of tds mc] by (simp add: add_mc_dependencies_def)
  next
    case (Inr td)
    have "tds_within A (AList.update mc (td\<lparr>taskentries := AList.update tid e (taskentries td)\<rparr>) tds)" for e
      using assms tds_within_lookup [OF assms(1) Inr] set_update_subset
      unfolding tds_within_def by (fastforce simp: image_iff)
    then show ?thesis using Inr by (auto simp: add_mc_dependencies_def Let_def intro!: yields_bind [OF m])
  qed
qed

definition prep_inv :: "string set \<Rightarrow> string set \<Rightarrow> prep_state \<Rightarrow> bool" where
  "prep_inv A D p \<longleftrightarrow> distinct_deps (pr_tasks p) \<and> D \<subseteq> set (dkeys (pr_tasks p)) \<and> tds_within A (pr_tds p) \<and>
     distinct (dkeys (pr_recursive p)) \<and> set (dkeys (pr_recursive p)) \<subseteq> set (dkeys (pr_tasks p)) \<and>
     set (pr_selfref p) \<subseteq> set (dkeys (pr_tasks p))"

lemma distinct_deps_update:
  assumes "distinct_deps rts" and "distinct (rte_depends e)"
  shows "distinct_deps (AList.update t e rts)"
  using assms by (auto simp: distinct_deps_def depends_of_def)

lemma prep_inv_update:
  assumes "prep_inv A D p" and "distinct (rte_depends e)" and "tds_within A tds"
  shows "prep_inv A (insert tid D) (p\<lparr>pr_tasks := AList.update tid e (pr_tasks p), pr_tds := tds\<rparr>)"
  using assms by (auto simp: prep_inv_def distinct_deps_update)

lemma note_recursive_fields:
  "pr_tasks (note_recursive flags tid mc fn taskname p) = pr_tasks p"
  "pr_tds (note_recursive flags tid mc fn taskname p) = pr_tds p"
  "pr_recursive (note_recursive flags tid mc fn taskname p) =
     (case flag_words flags ''recrdeptask'' taskname of None \<Rightarrow> pr_recursive p
      | Some ts \<Rightarrow> AList.update tid ts (pr_recursive p))"
  "set (pr_selfref (note_recursive flags tid mc fn taskname p)) \<subseteq> insert tid (set (pr_selfref p))"
  by (simp_all add: note_recursive_def Let_def split: option.split) auto

lemma prepare_task_yields:
  assumes inv: "prep_inv A D p" and tid: "tid \<in> A"
  shows "yields (prep_inv A (insert tid D)) (prepare_task dcs tid p)"
proof -
  define p1 where "p1 = p\<lparr>pr_tasks := AList.update tid new_task (pr_tasks p)\<rparr>"
  have "prep_inv A (insert tid D) (p\<lparr>pr_tasks := AList.update tid new_task (pr_tasks p), pr_tds := pr_tds p\<rparr>)"
    using inv by (intro prep_inv_update) (auto simp: prep_inv_def new_task_def)
  then have p1: "prep_inv A (insert tid D) p1" by (simp add: p1_def)
  have key: "tid \<in> set (dkeys (pr_tasks p1))" by (simp add: p1_def)
  have last: "prep_inv A (insert tid D) ((note_recursive flags tid mc fn taskname (p1\<lparr>pr_tds := tds\<rparr>))
      \<lparr>pr_tasks := AList.update tid (new_task\<lparr>rte_depends := filter (\<lambda>d. d \<noteq> tid) depends\<rparr>)
         (pr_tasks (note_recursive flags tid mc fn taskname (p1\<lparr>pr_tds := tds\<rparr>)))\<rparr>)"
    if "tds_within A tds" "distinct depends" for flags mc fn taskname tds depends
    using p1 that key note_recursive_fields(4) [of flags tid mc fn taskname "p1\<lparr>pr_tds := tds\<rparr>"]
    by (auto simp: prep_inv_def note_recursive_fields(1-3) distinct_deps_update dkeys_update has_key_iff split: option.split)
  have mcs: "yields (tds_within A) (case f of None \<Rightarrow> Inr (pr_tds p1) | Some _ \<Rightarrow> add_mc_dependencies (pr_tds p1) mc tid)"
    for f :: "string option" and mc
    using p1 tid by (auto simp: prep_inv_def intro: add_mc_yields split: option.split)
  show ?thesis
    unfolding prepare_task_def p1_def [symmetric] Let_def
    by (auto intro!: yields_bind [OF yields_split_tid] yields_bind [OF yields_lookup] yields_if p1
        yields_bind [OF mcs] yields_bind [OF stated_depends_yields] last split: prod.split)
qed


lemma prepare_tasks_yields:
  "yields (prep_inv (\<Union>td\<in>snd ` set tds. set (dkeys (taskentries td))) (\<Union>td\<in>snd ` set tds. set (dkeys (taskentries td))))
     (prepare_tasks dcs tds)"
proof -
  let ?A = "\<Union>td\<in>snd ` set tds. set (dkeys (taskentries td))"
  let ?p0 = "\<lparr>pr_tasks = [], pr_tds = tds, pr_recursive = [], pr_recidep = [], pr_selfref = []\<rparr>"
  have one: "yields (prep_inv ?A (D \<union> set tids)) (rfold (prepare_task dcs) tids p)"
    if "prep_inv ?A D p" "set tids \<subseteq> ?A" for D tids p
    using that
  proof (induction tids arbitrary: D p)
    case Nil
    then show ?case by simp
  next
    case (Cons t ts)
    show ?case unfolding rfold.simps
      by (rule yields_bind [OF prepare_task_yields [OF Cons.prems(1), of t]])
        (use Cons.IH [of "insert t D"] Cons.prems(2) in auto)
  qed
  have all: "yields (prep_inv ?A (D \<union> (\<Union>td\<in>snd ` set ts. set (dkeys (taskentries td)))))
      (rfold (\<lambda>(mc, td) p. rfold (prepare_task dcs) (dkeys (taskentries td)) p) ts p)"
    if "prep_inv ?A D p" "set ts \<subseteq> set tds" for D ts p
    using that
  proof (induction ts arbitrary: D p)
    case Nil
    then show ?case by simp
  next
    case (Cons m ts)
    obtain mc td where m: "m = (mc, td)" by (cases m)
    have "set (dkeys (taskentries td)) \<subseteq> ?A" using Cons.prems(2) m by force
    then have "yields (prep_inv ?A (D \<union> set (dkeys (taskentries td))))
        (rfold (prepare_task dcs) (dkeys (taskentries td)) p)" using one Cons.prems(1) by blast
    then have "yields (prep_inv ?A (D \<union> set (dkeys (taskentries td)) \<union> (\<Union>td\<in>snd ` set ts. set (dkeys (taskentries td)))))
        (rbind (rfold (prepare_task dcs) (dkeys (taskentries td)) p)
           (rfold (\<lambda>(mc, td) p. rfold (prepare_task dcs) (dkeys (taskentries td)) p) ts))"
      by (rule yields_bind) (use Cons.IH Cons.prems(2) in auto)
    then show ?case by (simp add: m Un_assoc)
  qed
  have "prep_inv ?A {} ?p0" by (auto simp: prep_inv_def distinct_deps_def dkeys_def tds_within_def)
  from all [OF this subset_refl] show ?thesis by (simp add: prepare_tasks_def)
qed

lemma distinct_deps_add: "has_key rts t \<Longrightarrow> distinct_deps rts \<Longrightarrow> distinct_deps (add_depend t d rts)"
  unfolding add_depend_def by (rule distinct_deps_update) (auto simp: distinct_deps_def has_key_iff)

lemma extend_task_distinct:
  assumes "distinct_deps (fst st)" and "has_key (fst st) (fst rt)"
  shows "distinct_deps (fst (extend_task c rectasks recidep rt st))"
proof -
  obtain tid tasknames where rt: "rt = (tid, tasknames)" by (cases rt)
  let ?P = "\<lambda>s :: run_tasks \<times> nat. distinct_deps (fst s) \<and> has_key (fst s) tid"
  have add: "?P (add_recipe_task tid x s)" "?P (add_other_task tid x s)" if "?P s" for x s
    using that by (auto simp: add_recipe_task_def add_other_task_def Let_def distinct_deps_add
        add_depend_keys has_key_iff split: prod.splits)
  have "?P (fold (add_recipe_task tid) xs s)" "?P (fold (add_other_task tid) xs s)" if "?P s" for xs s
    by (rule fold_invariant [where Q = "\<lambda>_. True" and P = ?P]; use that add in blast)+
  then show ?thesis using assms by (simp add: extend_task_def Let_def rt)
qed

lemma recursive_loop_distinct:
  assumes "distinct (dkeys rectasks)" and "recursive_loop n c rectasks recidep rts = Inr rts'"
    and "distinct_deps rts" and "\<forall>t\<in>set (dkeys rectasks). has_key rts t"
  shows "distinct_deps rts'"
  using assms(2-)
proof (induction n arbitrary: rts)
  case 0
  then show ?case by simp
next
  case (Suc n)
  obtain rts1 k where r: "fold (extend_task c rectasks recidep) rectasks (rts, 0) = (rts1, k)" by (meson surj_pair)
  have keys: "dkeys rts1 = dkeys rts"
    using extends_byD(1) [OF extend_round [OF assms(1) Suc.prems(3), of 0 c recidep]] by (simp add: r)
  let ?P = "\<lambda>s :: run_tasks \<times> nat. distinct_deps (fst s) \<and> dkeys (fst s) = dkeys rts"
  have "?P (fold (extend_task c rectasks recidep) rectasks (rts, 0))"
  proof (rule fold_invariant [where Q = "\<lambda>x. x \<in> set rectasks"])
    fix x s assume x: "x \<in> set rectasks" and s: "?P s"
    obtain tid tasknames where eq: "x = (tid, tasknames)" by (cases x)
    have "tid \<in> set (dkeys rectasks)" using x eq by (auto simp: dkeys_def image_iff intro!: bexI)
    then have k: "has_key (fst s) tid" using Suc.prems(3) s by (simp add: has_key_iff)
    moreover have "dget rectasks tid [] = tasknames" using x eq assms(1) by (simp add: dget_def dkeys_def)
    ultimately have "dkeys (fst (extend_task c rectasks recidep x s)) = dkeys (fst s)"
      using extends_byD(1) [OF extend_task_by [where names = "\<lambda>t. dget rectasks t []"]] by (simp add: eq)
    then show "?P (extend_task c rectasks recidep x s)"
      using s k extend_task_distinct [of s x c rectasks recidep] by (simp add: eq)
  qed (use Suc.prems(2) in auto)
  then have "distinct_deps rts1" by (simp add: r)
  then show ?case
    using Suc.IH [of rts1] Suc.prems r keys by (auto simp: has_key_iff split: if_splits)
qed

lemma drop_selfref_keys:
  assumes "set selfref \<subseteq> set (dkeys rts)"
  shows "dkeys (drop_selfref selfref rts) = dkeys rts"
proof -
  have "dkeys (fold (\<lambda>tid rts. AList.update tid ((dget rts tid new_task)
      \<lparr>rte_depends := filter (\<lambda>d. d \<notin> S) (depends_of rts tid)\<rparr>) rts) xs rts) = dkeys rts"
    if "set xs \<subseteq> set (dkeys rts)" for S xs rts
    using that by (induction xs arbitrary: rts) (simp_all add: dkeys_update has_key_iff)
  then show ?thesis using assms by (simp add: drop_selfref_def)
qed

lemma recursive_deps_yields:
  assumes "prep_inv A D p"
  shows "yields (\<lambda>rts. closed_deps rts \<and> distinct_deps rts \<and> dkeys rts = dkeys (pr_tasks p))
    (recursive_deps (pr_recursive p) (pr_recidep p) (pr_selfref p) (pr_tasks p))"
proof (cases "closed_deps (pr_tasks p)")
  case False
  then show ?thesis
    using collect_revdeps_missing [OF False] by (auto simp: recursive_deps_def cumulative_deps_def)
next
  case True
  note inv = assms [unfolded prep_inv_def]
  have rec: "distinct (dkeys (pr_recursive p))" "\<forall>t\<in>set (dkeys (pr_recursive p)). has_key (pr_tasks p) t"
    using inv by (auto simp: has_key_iff)
  obtain c P where c: "cumulative_deps (pr_tasks p) = Inr c"
    using cumulative_deps_total [OF True] inv by (auto simp: distinct_deps_def)
  have "room (pr_recursive p) (pr_tasks p) < Suc (length (pr_recursive p) * length (pr_tasks p))"
    using room_le [of "pr_recursive p" "pr_tasks p"] by simp
  then obtain rts k where r: "recursive_loop (Suc (length (pr_recursive p) * length (pr_tasks p))) c
      (pr_recursive p) (pr_recidep p) (pr_tasks p) = Inr rts"
    and e: "extends_by (\<lambda>t. dget (pr_recursive p) t []) (pr_tasks p, 0) (rts, k)"
    using recursive_loop_total [OF rec] by blast
  note e = extends_byD [OF e, unfolded fst_conv snd_conv]
  have d: "distinct_deps rts" using recursive_loop_distinct [OF rec(1) r _ rec(2)] inv by blast
  have cl: "closed_deps rts"
    using True e(5) unfolding closed_deps_def e(1) by blast
  have keys: "dkeys (drop_selfref (pr_selfref p) rts) = dkeys rts"
    by (rule drop_selfref_keys) (use inv e(1) in simp)
  have "closed_deps (drop_selfref (pr_selfref p) rts)" "distinct_deps (drop_selfref (pr_selfref p) rts)"
    using cl d unfolding closed_deps_def distinct_deps_def keys depends_of_drop by auto
  then show ?thesis using c r keys e(1) by (simp add: recursive_deps_def)
qed


section \<open>The whole of prepare: the specification\<close>

lemma prepare_graph_yields:
  assumes names: "\<forall>task\<in>set (opt_runall opts). CHR '':'' \<notin> set task"
  shows "yields (\<lambda>(rts, tds', a). rts \<noteq> [] \<and> graph_wf rts \<and> acyclic (edges rts)) (prepare_graph opts dcs tds targets)"
  unfolding prepare_graph_def
proof (rule yields_bind [OF prepare_tasks_yields], rule yields_bind [OF recursive_deps_yields], assumption, elim conjE)
  let ?A = "\<Union>td\<in>snd ` set tds. set (dkeys (taskentries td))"
  fix p and rts :: run_tasks
  assume p: "prep_inv ?A ?A p" and rts: "closed_deps rts" "distinct_deps rts" "dkeys rts = dkeys (pr_tasks p)"
  have "set (dkeys (taskentries td)) \<subseteq> set (dkeys rts)" if "td \<in> snd ` set (pr_tds p)" for td
  proof -
    have "set (dkeys (taskentries td)) \<subseteq> ?A" using p that unfolding prep_inv_def tds_within_def by blast
    also have "?A \<subseteq> set (dkeys rts)" using p rts(3) unfolding prep_inv_def by simp
    finally show ?thesis .
  qed
  then have "tasks_prepared (pr_tds p) rts"
    using rts by (simp add: tasks_prepared_def distinct_deps_def)
  note act = active_tasks_yields [OF this names]
  show "yields (\<lambda>(rts, tds', a). rts \<noteq> [] \<and> graph_wf rts \<and> acyclic (edges rts))
      (rbind (active_tasks dcs (pr_tds p) targets (opt_force opts) (opt_runall opts) (opt_runonly opts) rts)
        (\<lambda>(rts, a). rbind (weigh_graph rts) (\<lambda>rts. Inr (rts, pr_tds p, a))))"
  proof (rule yields_bind [OF act], clarify)
    fix rts1 :: run_tasks and a :: active_state
    assume "rts1 \<noteq> []" and part: "part_of rts rts1"
    have "closed_deps rts1" using part_of_closed [OF rts(1) part] .
    moreover have "distinct_deps rts1"
      using part rts(2) by (auto simp: part_of_def distinct_deps_def prune_keys prune_depends)
    ultimately have w: "if acyclic (edges rts1)
      then \<exists>rts'. weigh_graph rts1 = Inr rts' \<and> graph_wf rts' \<and> dkeys rts' = dkeys rts1 \<and>
        (\<forall>t\<in>set (dkeys rts1). depends_of rts' t = depends_of rts1 t \<and>
           weight_of rts' t = base_weight rts' t + (\<Sum>r\<in>set (revdeps_of rts' t). weight_of rts' r))
      else \<exists>msg. weigh_graph rts1 = Inl (Fatal msg)" by (rule weigh_graph_result)
    show "yields (\<lambda>(rts, tds', a). rts \<noteq> [] \<and> graph_wf rts \<and> acyclic (edges rts))
        (rbind (weigh_graph rts1) (\<lambda>rts. Inr (rts, pr_tds p, a)))"
    proof (cases "acyclic (edges rts1)")
      case True
      then obtain rts' where r: "weigh_graph rts1 = Inr rts'" "graph_wf rts'" "dkeys rts' = dkeys rts1"
        "\<forall>t\<in>set (dkeys rts1). depends_of rts' t = depends_of rts1 t" using w by auto
      have "edges rts' = edges rts1" unfolding edges_def r(3) using r(4) by auto
      moreover have "rts' \<noteq> []" using r(3) \<open>rts1 \<noteq> []\<close> by (auto simp: dkeys_def)
      ultimately show ?thesis using r True by simp
    next
      case False
      then show ?thesis using w by auto
    qed
  qed
qed

lemma true_yields:
  "yields (\<lambda>_. True) (rfold (check_multiple allowed rts) dcs reported)"
  "yields (\<lambda>_. True) (invalidations opts dcs tds a)"
  "yields (\<lambda>_. True) (rmap (virtual_names dcs) tds)"
proof -
  have same: "yields (\<lambda>_. True) (same_recipe dc fn seen)" for dc fn seen
    by (auto simp: same_recipe_def intro!: yields_bind [OF yields_lookup])
  have notep: "yields (\<lambda>_. True) (note_provider mc dc tid st)" for mc dc tid st
    by (auto simp: note_provider_def Let_def intro!: yields_bind [OF yields_split_tid] yields_bind [OF yields_lookup]
        split: prod.split)
  have prov: "yields (\<lambda>_. True) (check_provided dc allowed pf rep)" for dc pf rep
    by (auto simp: check_provided_def intro!: yields_bind [OF yields_fold [where P = "\<lambda>_. True"]] same split: prod.split)
  have "yields (\<lambda>_. True) (check_multiple allowed rts m rep)" for m rep
    by (auto simp: check_multiple_def intro!: yields_bind [OF yields_fold [where P = "\<lambda>_. True"]] notep
        yields_fold [where P = "\<lambda>_. True"] prov split: prod.split)
  then show "yields (\<lambda>_. True) (rfold (check_multiple allowed rts) dcs reported)" by (auto intro: yields_fold)
  have "yields (\<lambda>_. True) (invalidate_stamps dcs tds st tid i)" for st tid and i :: "(string \<times> string) list"
    unfolding invalidate_stamps_def by (auto intro: yields_fold yields_invalidate)
  then show "yields (\<lambda>_. True) (invalidations opts dcs tds a)"
    unfolding invalidations_def
    by (intro yields_bind [where Q = "\<lambda>_. True"] yields_if yields_fold yields_invalidate) auto
  have "yields (\<lambda>_. True) (virtual_names dcs m)" for m
    by (auto simp: virtual_names_def intro!: yields_fold yields_bind [OF yields_lookup] split: prod.split)
  then show "yields (\<lambda>_. True) (rmap (virtual_names dcs) tds)" by (auto intro: yields_map)
qed

lemma setscene_yields:
  assumes "set tids \<subseteq> K" and "set acc \<subseteq> K"
  shows "yields (\<lambda>s. set s \<subseteq> K) (rfold (setscene_task tds) tids acc)"
  by (rule yields_fold [where P = "\<lambda>s. set s \<subseteq> K", OF assms(2)])
    (use assms(1) in \<open>auto simp: setscene_task_def intro!: yields_bind [OF yields_split_tid] yields_bind [OF yields_lookup]\<close>)

lemma same_graph_wf: "graph_wf rts \<Longrightarrow> same_graph rts rts' \<Longrightarrow> graph_wf rts'"
  by (simp add: graph_wf_def same_graph_def)

definition run_queue_ok :: "'s rqdata \<Rightarrow> bool" where
  "run_queue_ok d \<longleftrightarrow> rq_tasks d \<noteq> [] \<and> graph_wf (rq_tasks d) \<and> acyclic (edges (rq_tasks d)) \<and>
     set (rq_setscene_tids d) \<subseteq> set (dkeys (rq_tasks d)) \<and>
     (\<forall>t\<in>set (dkeys (rq_tasks d)). hash_of (rq_tasks d) t \<noteq> None \<and> unihash_of (rq_tasks d) t \<noteq> None)"

lemma prepare_yields:
  assumes names: "\<forall>task\<in>set (opt_runall opts). CHR '':'' \<notin> set task"
  shows "yields (\<lambda>r. case r of None \<Rightarrow> True | Some d \<Rightarrow> run_queue_ok d) (prepare sg s opts dcs tds targets)"
  unfolding prepare_def
proof (rule yields_if, simp, rule yields_bind [OF prepare_graph_yields [OF names]], clarify)
  fix rts :: run_tasks and tds' a
  assume rts: "rts \<noteq> []" "graph_wf rts" "acyclic (edges rts)"
  have cl: "closed_deps rts" "distinct (dkeys rts)" using rts(2) by (auto simp: graph_wf_def closed_deps_def)
  show "yields (\<lambda>r. case r of None \<Rightarrow> True | Some d \<Rightarrow> run_queue_ok d)
    (rbind (rfold (check_multiple (opt_multi_provider_allowed opts) rts) dcs []) (\<lambda>reported.
     rbind (if opt_nosetscene opts then Inr [] else rfold (setscene_task tds') (dkeys rts) []) (\<lambda>scene.
     rbind (invalidations opts dcs tds' a) (\<lambda>invalid.
     rbind (rmap (virtual_names dcs) tds') (\<lambda>_.
     rbind (hash_loop (Suc (length rts)) sg \<lparr>hs_tasks = rts, hs_todeal = dkeys rts, hs_dealtwith = [], hs_siggen = s\<rparr>) (\<lambda>h.
       Inr (Some \<lparr>rq_tasks = hs_tasks h, rq_taskdata = tds', rq_target_tids = as_target_tids a,
         rq_setscene_tids = scene, rq_invalidated = invalid, rq_reported = reported,
         rq_siggen = hs_siggen h\<rparr>)))))))"
  proof (rule yields_bind [OF true_yields(1)])
    fix reported
    have sc: "yields (\<lambda>sc. set sc \<subseteq> set (dkeys rts))
        (if opt_nosetscene opts then Inr [] else rfold (setscene_task tds') (dkeys rts) [])"
      by (auto intro: setscene_yields)
    show "yields (\<lambda>r. case r of None \<Rightarrow> True | Some d \<Rightarrow> run_queue_ok d)
      (rbind (if opt_nosetscene opts then Inr [] else rfold (setscene_task tds') (dkeys rts) []) (\<lambda>scene.
       rbind (invalidations opts dcs tds' a) (\<lambda>invalid.
       rbind (rmap (virtual_names dcs) tds') (\<lambda>_.
       rbind (hash_loop (Suc (length rts)) sg \<lparr>hs_tasks = rts, hs_todeal = dkeys rts, hs_dealtwith = [], hs_siggen = s\<rparr>) (\<lambda>h.
         Inr (Some \<lparr>rq_tasks = hs_tasks h, rq_taskdata = tds', rq_target_tids = as_target_tids a,
           rq_setscene_tids = scene, rq_invalidated = invalid, rq_reported = reported,
           rq_siggen = hs_siggen h\<rparr>))))))"
    proof (intro yields_bind [OF sc] yields_bind [OF true_yields(2)] yields_bind [OF true_yields(3)]
        yields_bind [OF hash_loop_result [OF cl(1) rts(3) cl(2)]], elim conjE)
      fix scene :: "string list" and invalid and u :: "(string, string) dict list" and h :: "'a hashing"
      assume scene: "set scene \<subseteq> set (dkeys rts)" and g: "same_graph rts (hs_tasks h)"
        and hashed: "\<forall>t\<in>set (dkeys rts). hash_of (hs_tasks h) t \<noteq> None \<and> unihash_of (hs_tasks h) t \<noteq> None"
      have k: "dkeys (hs_tasks h) = dkeys rts" "edges (hs_tasks h) = edges rts"
        using g by (auto simp: same_graph_def edges_def)
      have "hs_tasks h \<noteq> []" using k(1) rts(1) by (auto simp: dkeys_def)
      then show "yields (\<lambda>r. case r of None \<Rightarrow> True | Some d \<Rightarrow> run_queue_ok d)
        (Inr (Some \<lparr>rq_tasks = hs_tasks h, rq_taskdata = tds', rq_target_tids = as_target_tids a,
          rq_setscene_tids = scene, rq_invalidated = invalid, rq_reported = reported,
          rq_siggen = hs_siggen h\<rparr>))"
        using same_graph_wf [OF rts(2) g] rts(3) scene hashed k by (simp add: run_queue_ok_def)
    qed
  qed
qed

text \<open>C1: preparing a run queue always ends, whatever the task data, options and signature generator, and
  a queue it returns is usable: it is not empty, dependencies and reverse dependencies agree and
  stay inside it, the dependencies have no loop, only its tasks are setscene tasks, and every task
  has its hash and unihash. In every other case an exception ends the build.\<close>

theorem prepare_sound:
  assumes "\<forall>task\<in>set (opt_runall opts). CHR '':'' \<notin> set task"
  shows "yields (\<lambda>r. case r of None \<Rightarrow> True | Some d \<Rightarrow> run_queue_ok d) (prepare sg s opts dcs tds targets)"
  by (rule prepare_yields [OF assms])


section \<open>Two versions of one recipe\<close>

lemma rfold_each: "rfold f xs s = Inr t \<Longrightarrow> x \<in> set xs \<Longrightarrow> \<exists>u v. f x u = Inr v"
  by (induction xs arbitrary: s) (auto simp: rbind_eq_Inr)

lemma same_recipe_Inr:
  "same_recipe dc fn seen = Inr out \<longleftrightarrow> (\<exists>pn. map_of (pkg_fn dc) fn = Some pn \<and> pn \<notin> set seen \<and> out = seen @ [pn])"
  by (auto simp: same_recipe_def rbind_eq_Inr dlookup_Inr)

lemma same_recipe_distinct:
  assumes "rfold (same_recipe dc) fns seen = Inr out" and "distinct seen"
  shows "distinct out \<and> (\<exists>pns. out = seen @ pns \<and> list_all2 (\<lambda>fn pn. map_of (pkg_fn dc) fn = Some pn) fns pns)"
  using assms
proof (induction fns arbitrary: seen)
  case Nil
  then show ?case by simp
next
  case (Cons fn fns)
  then obtain pn where pn: "map_of (pkg_fn dc) fn = Some pn" "pn \<notin> set seen"
    and r: "rfold (same_recipe dc) fns (seen @ [pn]) = Inr out"
    by (auto simp: rbind_eq_Inr same_recipe_Inr)
  from Cons.IH [OF r] Cons.prems(2) pn(2) obtain pns where "distinct out"
    "out = (seen @ [pn]) @ pns" "list_all2 (\<lambda>fn pn. map_of (pkg_fn dc) fn = Some pn) fns pns" by auto
  then show ?case using pn(1) by (intro conjI exI [of _ "pn # pns"]) auto
qed

definition provided_inv :: "dcache \<Rightarrow> (string, string list) dict \<times> string list \<Rightarrow> bool" where
  "provided_inv dc st \<longleftrightarrow> (case st of (prov_list, seen) \<Rightarrow>
     \<forall>tf\<in>set seen. \<forall>provs. map_of (fn_provides dc) tf = Some provs \<longrightarrow> (\<forall>prov\<in>set provs. tf \<in> set (dget prov_list prov [])))"

lemma add_files:
  "tf \<in> set (dget (fold (add_file x) provs l) prov []) \<longleftrightarrow>
     tf \<in> set (dget l prov []) \<or> tf = x \<and> prov \<in> set provs"
  by (induction provs arbitrary: l) (auto simp: add_file_def)


lemma note_provider_step:
  assumes "note_provider mc dc tid (l, seen) = Inr (l', seen')" and "provided_inv dc (l, seen)"
    and "split_tid_mcfn tid = Inr (mc, fn, task, tf)"
  shows "tf \<in> set seen'"
  using assms by (auto simp: note_provider_def rbind_eq_Inr Let_def split: if_splits)

lemma note_provider_inv:
  assumes r: "note_provider mc dc tid (l, seen) = Inr (l', seen')" and inv: "provided_inv dc (l, seen)"
  shows "provided_inv dc (l', seen') \<and> set seen \<subseteq> set seen'"
proof -
  obtain tidmc fn task tf where t: "split_tid_mcfn tid = Inr (tidmc, fn, task, tf)"
    using r by (auto simp: note_provider_def rbind_eq_Inr)
  show ?thesis
  proof (cases "tf \<in> set seen \<or> mc \<noteq> tidmc")
    case True
    then show ?thesis using r inv t by (simp add: note_provider_def)
  next
    case False
    then obtain provs where p: "map_of (fn_provides dc) tf = Some provs"
      "l' = fold (add_file tf) provs l" "seen' = seen @ [tf]"
      using r t by (auto simp: note_provider_def rbind_eq_Inr dlookup_Inr)
    show ?thesis using inv p(1) unfolding provided_inv_def p(2,3) by (auto simp: add_files)
  qed
qed

lemma note_providers:
  assumes "rfold (note_provider mc dc) tids (l, seen) = Inr (l', seen')" and "provided_inv dc (l, seen)"
  shows "provided_inv dc (l', seen') \<and> set seen \<subseteq> set seen' \<and>
    (\<forall>tid\<in>set tids. \<forall>fn task tf. split_tid_mcfn tid = Inr (mc, fn, task, tf) \<longrightarrow> tf \<in> set seen')"
  using assms
proof (induction tids arbitrary: l seen)
  case Nil
  then show ?case by simp
next
  case (Cons t ts)
  then obtain l1 seen1 where s: "note_provider mc dc t (l, seen) = Inr (l1, seen1)"
    and r: "rfold (note_provider mc dc) ts (l1, seen1) = Inr (l', seen')"
    by (auto simp: rbind_eq_Inr)
  have i: "provided_inv dc (l1, seen1)" "set seen \<subseteq> set seen1"
    using note_provider_inv [OF s Cons.prems(2)] by auto
  then show ?case using Cons.IH [OF r i(1)] note_provider_step [OF s Cons.prems(2)] by auto
qed

text \<open>A run queue that passes the check never builds two files of the same recipe that provide the same
  item, unless the item is listed in \<open>BB_MULTI_PROVIDER_ALLOWED\<close>.\<close>

theorem one_version_per_recipe:
  assumes ok: "rfold (check_multiple allowed rts) dcs [] = Inr reported" and dc: "(mc, dc) \<in> set dcs"
    and t1: "t1 \<in> set (dkeys rts)" "split_tid_mcfn t1 = Inr (mc, fn1, task1, tf1)"
    and t2: "t2 \<in> set (dkeys rts)" "split_tid_mcfn t2 = Inr (mc, fn2, task2, tf2)"
    and p1: "map_of (fn_provides dc) tf1 = Some ps1" "prov \<in> set ps1"
    and p2: "map_of (fn_provides dc) tf2 = Some ps2" "prov \<in> set ps2"
    and "tf1 \<noteq> tf2" and "prov \<notin> set allowed"
  shows "map_of (pkg_fn dc) tf1 \<noteq> map_of (pkg_fn dc) tf2"
proof -
  obtain rep rep' where "check_multiple allowed rts (mc, dc) rep = Inr rep'"
    using rfold_each [OF ok dc] by blast
  then obtain l seen where n: "rfold (note_provider mc dc) (dkeys rts) ([], []) = Inr (l, seen)"
    and c: "rfold (check_provided dc allowed) l rep = Inr rep'"
    by (auto simp: check_multiple_def rbind_eq_Inr)
  have "provided_inv dc ([], [])" by (simp add: provided_inv_def)
  from note_providers [OF n this] have in_l: "tf1 \<in> set (dget l prov [])" "tf2 \<in> set (dget l prov [])"
    using t1 t2 p1 p2 by (auto simp: provided_inv_def)
  define fns where "fns = dget l prov []"
  have "map_of l prov = Some fns" using in_l by (cases "map_of l prov") (auto simp: fns_def dget_def)
  then have "(prov, fns) \<in> set l" by (rule map_of_SomeD)
  then obtain u v where cp: "check_provided dc allowed (prov, fns) u = Inr v" using rfold_each [OF c] by blast
  have two: "\<not> length fns < 2"
  proof
    assume "length fns < 2"
    then have "fns = [] \<or> (\<exists>x. fns = [x])" by (cases fns rule: list.exhaust; cases "tl fns") auto
    then show False using in_l \<open>tf1 \<noteq> tf2\<close> by (auto simp: fns_def [symmetric])
  qed
  then obtain out where "rfold (same_recipe dc) fns [] = Inr out"
    using cp \<open>prov \<notin> set allowed\<close> by (auto simp: check_provided_def rbind_eq_Inr)
  from same_recipe_distinct [OF this] have out: "distinct out"
    "list_all2 (\<lambda>fn pn. map_of (pkg_fn dc) fn = Some pn) fns out" by auto
  obtain i j where ij: "i < length fns" "fns ! i = tf1" "j < length fns" "fns ! j = tf2"
    using in_l by (auto simp: in_set_conv_nth fns_def [symmetric])
  then have "i \<noteq> j" using \<open>tf1 \<noteq> tf2\<close> by auto
  then have "out ! i \<noteq> out ! j" using out ij by (auto simp: nth_eq_iff_index_eq list_all2_lengthD)
  then show ?thesis using list_all2_nthD [OF out(2) ij(1)] list_all2_nthD [OF out(2) ij(3)] ij by auto
qed


text \<open>Two recipes: \<open>a.bb\<close> builds an image from \<open>b.bb\<close>, whose package task has a setscene variant.\<close>

definition sample_dcache :: "string \<Rightarrow> dcache" where
  "sample_dcache pn = init_cacheData\<lparr>
     task_deps := [(''a.bb'', empty_taskdeps), (''b.bb'', empty_taskdeps)],
     pkg_fn := [(''a.bb'', ''a''), (''b.bb'', pn)],
     fn_provides := [(''a.bb'', [''a'', ''c'']), (''b.bb'', [''b'', ''c''])]\<rparr>"

definition sample_targets :: taskdata where
  "sample_targets = (init_taskdata True [] False init_cacheData)\<lparr>
     build_targets := [(''a'', [''a.bb'']), (''b'', [''b.bb''])],
     taskentries :=
       [(''a.bb:do_image'', empty_entry\<lparr>idepends := [(''b'', ''do_pack'')]\<rparr>),
        (''b.bb:do_pack'', empty_entry\<lparr>tdepends := [''b.bb:do_build'']\<rparr>),
        (''b.bb:do_pack_setscene'', empty_entry), (''b.bb:do_build'', empty_entry)]\<rparr>"

definition sample_options :: rq_options where
  "sample_options = \<lparr>opt_force = True, opt_nosetscene = False, opt_runall = [], opt_runonly = [],
     opt_invalidate_stamp = [], opt_multi_provider_allowed = []\<rparr>"

lemma prepare_sound_witness:
  "\<exists>d. prepare sample_siggen 0 sample_options [([], sample_dcache ''b'')] [([], sample_targets)]
      [([], ''a'', ''do_image'', ''a.bb'')] = Inr (Some d) \<and> run_queue_ok d \<and>
    dkeys (rq_tasks d) = [''a.bb:do_image'', ''b.bb:do_pack'', ''b.bb:do_build''] \<and>
    rq_setscene_tids d = [''b.bb:do_pack''] \<and> rq_invalidated d = [(''do_image'', ''a.bb'')] \<and> rq_reported d = [''c'']"
proof -
  let ?p = "prepare sample_siggen 0 sample_options [([], sample_dcache ''b'')] [([], sample_targets)]
      [([], ''a'', ''do_image'', ''a.bb'')]"
  have v: "map_option (map_option (\<lambda>d. (dkeys (rq_tasks d), rq_setscene_tids d, rq_invalidated d, rq_reported d)))
      (case ?p of Inl _ \<Rightarrow> None | Inr r \<Rightarrow> Some r) =
    Some (Some ([''a.bb:do_image'', ''b.bb:do_pack'', ''b.bb:do_build''], [''b.bb:do_pack''], [(''do_image'', ''a.bb'')], [''c'']))"
    by code_simp
  then obtain d where d: "?p = Inr (Some d)" by (auto split: sum.splits)
  have "\<forall>task\<in>set (opt_runall sample_options). CHR '':'' \<notin> set task" by (simp add: sample_options_def)
  from prepare_sound [OF this, of sample_siggen 0 "[([], sample_dcache ''b'')]" "[([], sample_targets)]"
      "[([], ''a'', ''do_image'', ''a.bb'')]"] have "run_queue_ok d" unfolding d by simp
  with v d show ?thesis by simp
qed

lemma one_version_per_recipe_witness:
  "map_of (pkg_fn (sample_dcache ''b'')) ''a.bb'' \<noteq> map_of (pkg_fn (sample_dcache ''b'')) ''b.bb'' \<and>
   (\<exists>msg. rfold (check_multiple [] [(''a.bb:do_image'', new_task), (''b.bb:do_pack'', new_task)]) [([], sample_dcache ''a'')] [] =
     Inl (Fatal msg))"
proof -
  let ?rts = "[(''a.bb:do_image'', new_task), (''b.bb:do_pack'', new_task)]"
  have ok: "rfold (check_multiple [] ?rts) [([], sample_dcache ''b'')] [] = Inr [''c'']" by code_simp
  have "map_of (pkg_fn (sample_dcache ''b'')) ''a.bb'' \<noteq> map_of (pkg_fn (sample_dcache ''b'')) ''b.bb''"
  proof (rule one_version_per_recipe [OF ok])
    show "split_tid_mcfn ''a.bb:do_image'' = Inr ([], ''a.bb'', ''do_image'', ''a.bb'')"
      "split_tid_mcfn ''b.bb:do_pack'' = Inr ([], ''b.bb'', ''do_pack'', ''b.bb'')" by code_simp+
    show "map_of (fn_provides (sample_dcache ''b'')) ''a.bb'' = Some [''a'', ''c'']"
      "map_of (fn_provides (sample_dcache ''b'')) ''b.bb'' = Some [''b'', ''c'']" by code_simp+
    show "''c'' \<in> set [''a'', ''c'']" "''c'' \<in> set [''b'', ''c'']" by simp_all
  qed (simp_all add: dkeys_def)
  moreover have "(case rfold (check_multiple [] ?rts) [([], sample_dcache ''a'')] [] of Inl (Fatal msg) \<Rightarrow> True | _ \<Rightarrow> False)"
    by code_simp
  ultimately show ?thesis by (auto split: sum.splits exn.splits)
qed

text \<open>The index that pairs up tasks of different configurations ignores the task's name.\<close>

lemma pending_hash_index_ignores_task:
  assumes "split_tid_mcfn t1 = Inr (mc, fn, task1, tf)" and "split_tid_mcfn t2 = Inr (mc, fn, task2, tf)"
    and "map_of rts t1 = Some e1" and "map_of rts t2 = Some e2" and "rte_unihash e1 = rte_unihash e2"
  shows "pending_hash_index dcs rts t1 = pending_hash_index dcs rts t2"
  using assms by (simp add: pending_hash_index_def dlookup_def)

end
