(* ===== verification/Scheduler.thy ===== *)
theory Scheduler
  imports RunQueuePrepare
begin

text \<open>
  The task schedulers of \<open>bb/runqueue.py\<close>: statistics, the choice of the next task, and the three
  priority orders (\<open>basic\<close>, \<open>speed\<close>, \<open>completion\<close>).

  A scheduler sees the run queue through a record of the sets it reads. Whether the pressure or load
  limits are exceeded is an input of each step (it is read from the operating system); the flag
  \<open>number_threads\<close> of a task is a function.
\<close>

section \<open>Statistics\<close>

record rq_stats =
  st_completed :: int
  st_skipped :: int
  st_failed :: int
  st_active :: int
  st_setscene_active :: int
  st_setscene_covered :: int
  st_setscene_notcovered :: int
  st_setscene_total :: int
  st_total :: int

definition init_stats :: "int \<Rightarrow> int \<Rightarrow> rq_stats" where
  "init_stats tasks setscene_total =
     \<lparr>st_completed = 0, st_skipped = 0, st_failed = 0, st_active = 0, st_setscene_active = 0,
      st_setscene_covered = 0, st_setscene_notcovered = 0, st_setscene_total = setscene_total,
      st_total = tasks\<rparr>"

definition taskFailed :: "rq_stats \<Rightarrow> rq_stats" where
  "taskFailed s = s\<lparr>st_active := st_active s - 1, st_failed := st_failed s + 1\<rparr>"

definition taskCompleted :: "rq_stats \<Rightarrow> rq_stats" where
  "taskCompleted s = s\<lparr>st_active := st_active s - 1, st_completed := st_completed s + 1\<rparr>"

definition taskSkipped :: "rq_stats \<Rightarrow> rq_stats" where
  "taskSkipped s = s\<lparr>st_active := st_active s + 1, st_skipped := st_skipped s + 1\<rparr>"

definition taskActive :: "rq_stats \<Rightarrow> rq_stats" where
  "taskActive s = s\<lparr>st_active := st_active s + 1\<rparr>"

definition updateCovered :: "int \<Rightarrow> int \<Rightarrow> rq_stats \<Rightarrow> rq_stats" where
  "updateCovered covered notcovered s =
     s\<lparr>st_setscene_covered := covered, st_setscene_notcovered := notcovered\<rparr>"

definition updateActiveSetscene :: "int \<Rightarrow> rq_stats \<Rightarrow> rq_stats" where
  "updateActiveSetscene active s = s\<lparr>st_setscene_active := active\<rparr>"

section \<open>The state of a scheduler\<close>

text \<open>
  The base class puts the view of all tasks into its priority map as its only entry, so no task is
  found there; the two schedulers derived from it replace the map by a list of tasks.
\<close>

datatype prio_entry = AllTasks "string list" | OneTask string

record scheduler =
  sc_prio_map :: "prio_entry list"
  sc_buildable :: "string list"
  sc_skip_maxthread :: "(string, string option) dict"
  sc_stamps :: "(string, string) dict"
  sc_rev_prio_map :: "(string, nat) dict option"

text \<open>What the scheduler reads of the run queue.\<close>

record sched_view =
  sv_running :: "string list"
  sv_complete :: "string list"
  sv_holdoff :: "string list"
  sv_covered :: "string list"
  sv_notcovered :: "string list"
  sv_build_stamps :: "string list"
  sv_active :: int
  sv_live :: int
  sv_number_tasks :: int
  sv_threads :: "string \<Rightarrow> string option"
  sv_pressure :: bool

definition init_scheduler :: "(string \<Rightarrow> string \<Rightarrow> string) \<Rightarrow> run_tasks \<Rightarrow> string list \<Rightarrow> scheduler res" where
  "init_scheduler stampfile rts buildable =
     rbind (rfold (\<lambda>tid (stamps, b). rbind (split_tid_mcfn tid) (\<lambda>(mc, fn, taskname, taskfn).
         Inr (AList.update tid (stampfile taskname taskfn) stamps,
              if tid \<in> set buildable then sadd tid b else b)))
       (dkeys rts) ([], [])) (\<lambda>(stamps, b).
     Inr \<lparr>sc_prio_map = [AllTasks (dkeys rts)], sc_buildable = b, sc_skip_maxthread = [],
          sc_stamps = stamps, sc_rev_prio_map = None\<rparr>)"

definition newbuildable :: "string \<Rightarrow> scheduler \<Rightarrow> scheduler" where
  "newbuildable task s = s\<lparr>sc_buildable := sadd task (sc_buildable s)\<rparr>"

definition removebuildable :: "string \<Rightarrow> scheduler \<Rightarrow> scheduler res" where
  "removebuildable task s =
     (if task \<in> set (sc_buildable s) then Inr (s\<lparr>sc_buildable := removeAll task (sc_buildable s)\<rparr>)
      else Inl (KeyError task))"

section \<open>Thread limits\<close>

text \<open>\<open>skip_buildable\<close>: how many tasks of each limited name are running.\<close>

definition thread_flag :: "(string \<Rightarrow> string option) \<Rightarrow> string \<Rightarrow> (string, string option) dict \<Rightarrow> (string, string option) dict" where
  "thread_flag threads name m = (if has_key m name then m else AList.update name (threads name) m)"

definition count_running ::
  "(string \<Rightarrow> string option) \<Rightarrow> string \<Rightarrow> (string, string option) dict \<times> (string, int) dict \<Rightarrow>
    ((string, string option) dict \<times> (string, int) dict) res" where
  "count_running threads running st =
     (case st of (maxthread, skip) \<Rightarrow>
      rbind (taskname_from_tid running) (\<lambda>name.
        let maxthread = thread_flag threads name maxthread in
        case dget maxthread name None of
          None \<Rightarrow> Inr (maxthread, skip)
        | Some limit \<Rightarrow>
            if limit = [] then Inr (maxthread, skip)
            else Inr (maxthread, AList.update name (dget skip name 0 + 1) skip)))"

definition at_limit :: "(string, string option) dict \<Rightarrow> (string, int) dict \<Rightarrow> string \<Rightarrow> bool res" where
  "at_limit maxthread skip name =
     (case map_of skip name of
        None \<Rightarrow> Inr False
      | Some n \<Rightarrow>
          (case dget maxthread name None of
             None \<Rightarrow> Inl TypeError
           | Some limit \<Rightarrow> rbind (py_int limit) (\<lambda>k. Inr (n \<ge> k))))"

section \<open>The choice of the next task\<close>

fun prio_index :: "prio_entry list \<Rightarrow> string \<Rightarrow> nat res" where
  "prio_index [] tid = Inl (ValueError tid)"
| "prio_index (e # es) tid =
     (if e = OneTask tid then Inr 0 else rbind (prio_index es tid) (\<lambda>n. Inr (Suc n)))"

definition reverse_prio_map :: "run_tasks \<Rightarrow> prio_entry list \<Rightarrow> (string, nat) dict res" where
  "reverse_prio_map rts prio =
     rmap (\<lambda>tid. rbind (prio_index prio tid) (\<lambda>n. Inr (tid, n))) (dkeys rts)"

text \<open>The best task so far, with its priority.\<close>

definition better_task ::
  "scheduler \<Rightarrow> sched_view \<Rightarrow> (string, int) dict \<Rightarrow> (string, nat) dict \<Rightarrow> string \<Rightarrow>
    (string \<times> nat) option \<Rightarrow> (string \<times> nat) option res" where
  "better_task s v skip rev_prio tid best =
     rbind (dlookup rev_prio tid) (\<lambda>prio.
       if (case best of None \<Rightarrow> True | Some (_, bestprio) \<Rightarrow> bestprio > prio) then
         rbind (taskname_from_tid tid) (\<lambda>taskname.
         rbind (at_limit (sc_skip_maxthread s) skip taskname) (\<lambda>full.
         if full then Inr best
         else rbind (dlookup (sc_stamps s) tid) (\<lambda>stamp.
           Inr (if stamp \<in> set (sv_build_stamps v) then best else Some (tid, prio)))))
       else Inr best)"

definition choose_best ::
  "run_tasks \<Rightarrow> sched_view \<Rightarrow> (string, int) dict \<Rightarrow> string list \<Rightarrow> scheduler \<Rightarrow> (string option \<times> scheduler) res" where
  "choose_best rts v skip buildable s =
     rbind (case sc_rev_prio_map s of
              Some m \<Rightarrow> if m = [] then reverse_prio_map rts (sc_prio_map s) else Inr m
            | None \<Rightarrow> reverse_prio_map rts (sc_prio_map s)) (\<lambda>m.
       let s = s\<lparr>sc_rev_prio_map := Some m\<rparr> in
       rbind (rfold (better_task s v skip m) buildable None) (\<lambda>best. Inr (map_option fst best, s)))"

definition ready_tasks :: "sched_view \<Rightarrow> scheduler \<Rightarrow> string list" where
  "ready_tasks v s = filter (\<lambda>t. t \<notin> set (sv_holdoff v) \<and> (t \<in> set (sv_covered v) \<or> t \<in> set (sv_notcovered v)))
     (sc_buildable s)"

definition next_buildable_task ::
  "run_tasks \<Rightarrow> sched_view \<Rightarrow> scheduler \<Rightarrow> (string option \<times> scheduler) res" where
  "next_buildable_task rts v s =
     (let s = s\<lparr>sc_buildable := filter (\<lambda>t. t \<notin> set (sv_running v)) (sc_buildable s)\<rparr>;
          buildable = ready_tasks v s
      in if buildable = [] then Inr (None, s)
         else if sv_active v \<noteq> 0 \<and> sv_pressure v then Inr (None, s)
         else
           rbind (rfold (count_running (sv_threads v))
                    (filter (\<lambda>t. t \<notin> set (sv_complete v)) (sv_running v)) (sc_skip_maxthread s, []))
             (\<lambda>(maxthread, skip).
           let s = s\<lparr>sc_skip_maxthread := maxthread\<rparr> in
           case buildable of
             [tid] \<Rightarrow>
               rbind (taskname_from_tid tid) (\<lambda>taskname.
               rbind (at_limit maxthread skip taskname) (\<lambda>full.
               if full then Inr (None, s)
               else rbind (dlookup (sc_stamps s) tid) (\<lambda>stamp.
                 if stamp \<notin> set (sv_build_stamps v) then Inr (Some tid, s)
                 else choose_best rts v skip [] s)))
           | _ \<Rightarrow> choose_best rts v skip buildable s))"

definition can_start_task :: "sched_view \<Rightarrow> bool" where
  "can_start_task v \<longleftrightarrow> sv_active v + sv_live v < sv_number_tasks v"

definition next_task :: "run_tasks \<Rightarrow> sched_view \<Rightarrow> scheduler \<Rightarrow> (string option \<times> scheduler) res" where
  "next_task rts v s = (if can_start_task v then next_buildable_task rts v s else Inr (None, s))"

section \<open>Speed: heavier tasks first\<close>

definition weight_buckets :: "run_tasks \<Rightarrow> (int, string list) dict" where
  "weight_buckets rts =
     fold (\<lambda>tid b. let weight = weight_of rts tid in AList.update weight (dget b weight [] @ [tid]) b)
       (dkeys rts) []"

definition speed_order :: "run_tasks \<Rightarrow> string list" where
  "speed_order rts =
     (let b = weight_buckets rts in
      rev (fold (\<lambda>weight prio. prio @ dget b weight []) (sort (dkeys b)) []))"

section \<open>Completion: finish one recipe before the next\<close>

definition recipe_tasks :: "string \<Rightarrow> (string, string list) dict \<Rightarrow> (string, string list) dict res" where
  "recipe_tasks taskid task_lists =
     (case rsplit1 CHR '':'' taskid of
        None \<Rightarrow> Inl (ValueError taskid)
      | Some (fn, taskname) \<Rightarrow> Inr (AList.update fn (dget task_lists fn [] @ [taskname]) task_lists))"

definition at_index :: "'a list \<Rightarrow> nat \<Rightarrow> 'a option" where
  "at_index xs i = (if i < length xs then Some (xs ! i) else None)"

fun list_index :: "'a list \<Rightarrow> 'a \<Rightarrow> nat option" where
  "list_index [] y = None"
| "list_index (x # xs) y = (if x = y then Some 0 else map_option Suc (list_index xs y))"

text \<open>The merge keeps the merged list, the index, and the task at it before the last insertion.\<close>

definition merge_task ::
  "string \<Rightarrow> string list \<times> nat \<times> string option \<Rightarrow> string list \<times> nat \<times> string option" where
  "merge_task newt st =
     (case st of (all_tasks, index, old_task) \<Rightarrow>
      if old_task = Some newt then (all_tasks, Suc index, at_index all_tasks (Suc index))
      else case list_index all_tasks newt of
             Some i \<Rightarrow> (all_tasks, Suc i, at_index all_tasks (Suc i))
           | None \<Rightarrow> (take index all_tasks @ newt # drop index all_tasks, Suc index, old_task))"

definition merge_recipe :: "string list \<Rightarrow> string list \<Rightarrow> string list" where
  "merge_recipe new_tasks all_tasks =
     fst (fold merge_task new_tasks (all_tasks, 0, at_index all_tasks 0))"

definition merged_tasks :: "(string, string list) dict \<Rightarrow> string list" where
  "merged_tasks task_lists = fold (\<lambda>(_, new_tasks). merge_recipe new_tasks) task_lists []"

definition move_task :: "string \<Rightarrow> nat \<Rightarrow> string list \<times> nat \<Rightarrow> (string list \<times> nat) res" where
  "move_task task index st =
     (case st of (prio, task_index) \<Rightarrow>
      if index \<ge> length prio then Inl IndexError
      else rbind (taskname_from_tid (prio ! index)) (\<lambda>taskname.
        if taskname = task then
          let rest = take index prio @ drop (Suc index) prio
          in Inr (take task_index rest @ prio ! index # drop task_index rest, Suc task_index)
        else Inr (prio, task_index)))"

definition move_tasks :: "nat \<Rightarrow> string \<Rightarrow> string list \<times> nat \<Rightarrow> (string list \<times> nat) res" where
  "move_tasks numTasks task st = rfold (move_task task) [snd st..<numTasks] st"

definition completion_order :: "run_tasks \<Rightarrow> string list res" where
  "completion_order rts =
     (let prio = speed_order rts in
      rbind (rfold recipe_tasks prio []) (\<lambda>task_lists.
      rbind (rfold (move_tasks (length rts)) (rev (merged_tasks task_lists)) (prio, 0)) (\<lambda>(prio, _).
        Inr prio)))"

section \<open>The three schedulers\<close>

definition init_speed :: "(string \<Rightarrow> string \<Rightarrow> string) \<Rightarrow> run_tasks \<Rightarrow> string list \<Rightarrow> scheduler res" where
  "init_speed stampfile rts buildable =
     rbind (init_scheduler stampfile rts buildable) (\<lambda>s.
       Inr (s\<lparr>sc_prio_map := map OneTask (speed_order rts)\<rparr>))"

definition init_completion :: "(string \<Rightarrow> string \<Rightarrow> string) \<Rightarrow> run_tasks \<Rightarrow> string list \<Rightarrow> scheduler res" where
  "init_completion stampfile rts buildable =
     rbind (init_speed stampfile rts buildable) (\<lambda>s.
     rbind (completion_order rts) (\<lambda>order. Inr (s\<lparr>sc_prio_map := map OneTask order\<rparr>)))"

definition describe_task :: "scheduler \<Rightarrow> string \<Rightarrow> string res" where
  "describe_task s taskid =
     (case sc_rev_prio_map s of
        None \<Rightarrow> Inr (''ID '' @ taskid)
      | Some m \<Rightarrow> if m = [] then Inr (''ID '' @ taskid)
          else rbind (dlookup m taskid) (\<lambda>n. Inr (''ID '' @ taskid @ '' pri '' @ show_nat n)))"


section \<open>The speed order\<close>

lemma weight_buckets_get:
  "dget (fold (\<lambda>tid b. let weight = f tid in AList.update weight (dget b weight [] @ [tid]) b) ts b) w [] =
     dget b w [] @ filter (\<lambda>t. f t = w) ts"
  by (induction ts arbitrary: b) (auto simp: Let_def)

lemma weight_buckets_keys:
  "set (dkeys (fold (\<lambda>tid b. let weight = f tid in AList.update weight (dget b weight [] @ [tid]) b) ts b)) =
     set (dkeys b) \<union> f ` set ts"
  "distinct (dkeys b) \<Longrightarrow>
     distinct (dkeys (fold (\<lambda>tid b. let weight = f tid in AList.update weight (dget b weight [] @ [tid]) b) ts b))"
  by (induction ts arbitrary: b) (auto simp: Let_def)

lemma fold_append_concat: "fold (\<lambda>x acc. acc @ f x) xs acc = acc @ concat (map f xs)"
  by (induction xs arbitrary: acc) auto

lemma speed_order_sort: "speed_order rts = rev (sort_key (weight_of rts) (dkeys rts))"
proof -
  let ?b = "weight_buckets rts"
  have get: "dget ?b w [] = filter (\<lambda>t. weight_of rts t = w) (dkeys rts)" for w
    unfolding weight_buckets_def weight_buckets_get by (simp add: dget_def)
  have keys: "set (dkeys ?b) = weight_of rts ` set (dkeys rts)" "distinct (dkeys ?b)"
    unfolding weight_buckets_def by (subst weight_buckets_keys(1), simp add: dkeys_def) (rule weight_buckets_keys(2), simp add: dkeys_def)
  have "concat (map (\<lambda>w. filter (\<lambda>t. weight_of rts t = w) (dkeys rts)) (sort (dkeys ?b))) =
      sort_key (weight_of rts) (dkeys rts)"
    using keys by (intro sort_key_buckets) simp_all
  then show ?thesis by (simp add: speed_order_def Let_def fold_append_concat get)
qed

text \<open>The speed scheduler's priority map is the tasks sorted by weight, heaviest first, and among tasks
  of equal weight the one created last first; so it holds every task exactly once.\<close>

theorem speed_order_spec:
  "speed_order rts = rev (sort_key (weight_of rts) (dkeys rts)) \<and>
   mset (speed_order rts) = mset (dkeys rts) \<and>
   sorted_wrt (\<lambda>t u. weight_of rts t \<ge> weight_of rts u) (speed_order rts)"
proof -
  have "sorted_wrt (\<lambda>t u. weight_of rts t \<le> weight_of rts u) (sort_key (weight_of rts) (dkeys rts))"
    using sorted_sort_key [of "weight_of rts" "dkeys rts"] by (simp add: sorted_map)
  then show ?thesis by (simp add: speed_order_sort sorted_wrt_rev)
qed

section \<open>The completion order\<close>

lemma list_index_None: "list_index xs y = None \<longleftrightarrow> y \<notin> set xs"
  by (induction xs) auto

lemma list_index_Some: "list_index xs y = Some i \<Longrightarrow> i < length xs \<and> xs ! i = y"
  by (induction xs arbitrary: i) (auto split: if_splits)

definition merge_ok :: "string list \<times> nat \<times> string option \<Rightarrow> bool" where
  "merge_ok st = (case st of (all_tasks, index, old_task) \<Rightarrow>
     distinct all_tasks \<and> index \<le> length all_tasks \<and> old_task = at_index all_tasks index)"

lemma merge_task_ok:
  assumes "merge_ok (a, i, old)"
  shows "merge_ok (merge_task x (a, i, old)) \<and> set (fst (merge_task x (a, i, old))) = insert x (set a)"
proof -
  have ins: "distinct (take i a @ x # drop i a)" "set (take i a @ x # drop i a) = insert x (set a)"
    "at_index (take i a @ x # drop i a) (Suc i) = at_index a i" if "x \<notin> set a" "i \<le> length a"
  proof -
    have "set (take i a) \<inter> set (drop i a) = {}" using assms by (simp add: merge_ok_def set_take_disj_set_drop_if_distinct)
    then show "distinct (take i a @ x # drop i a)"
      using that assms by (auto simp: merge_ok_def dest: in_set_takeD in_set_dropD)
    have "set (take i a) \<union> set (drop i a) = set a" by (metis append_take_drop_id set_append)
    then show "set (take i a @ x # drop i a) = insert x (set a)" by auto
    show "at_index (take i a @ x # drop i a) (Suc i) = at_index a i"
      using that by (auto simp: at_index_def nth_append min_def)
  qed
  have mem: "x \<in> set a" if "old = Some x" using that assms by (auto simp: merge_ok_def at_index_def split: if_splits)
  show ?thesis
  proof (cases "old = Some x")
    case True
    then show ?thesis using assms mem by (auto simp: merge_task_def merge_ok_def at_index_def split: if_splits)
  next
    case False
    show ?thesis
    proof (cases "list_index a x")
      case None
      have "x \<notin> set a" using None by (simp add: list_index_None)
      moreover have "merge_task x (a, i, old) = (take i a @ x # drop i a, Suc i, old)"
        using False None by (simp add: merge_task_def)
      ultimately show ?thesis using assms ins by (simp add: merge_ok_def)
    next
      case (Some j)
      then show ?thesis using False assms list_index_Some [OF Some]
        by (auto simp: merge_task_def merge_ok_def)
    qed
  qed
qed

lemma merge_recipe_ok:
  assumes "distinct a"
  shows "distinct (merge_recipe new_tasks a) \<and> set (merge_recipe new_tasks a) = set a \<union> set new_tasks"
proof -
  have "merge_ok (fold merge_task xs st) \<and> set (fst (fold merge_task xs st)) = set (fst st) \<union> set xs"
    if "merge_ok st" for xs st
    using that
  proof (induction xs arbitrary: st)
    case (Cons x xs)
    obtain a i old where st: "st = (a, i, old)" by (metis surj_pair)
    then show ?case using merge_task_ok [of a i old x] Cons by auto
  qed simp
  moreover have "merge_ok (a, 0, at_index a 0)" using assms by (simp add: merge_ok_def)
  ultimately have "merge_ok (fold merge_task new_tasks (a, 0, at_index a 0)) \<and>
    set (fst (fold merge_task new_tasks (a, 0, at_index a 0))) = set a \<union> set new_tasks" by fastforce
  then show ?thesis by (auto simp: merge_recipe_def merge_ok_def split: prod.splits)
qed

lemma merged_tasks_ok: "distinct (merged_tasks task_lists) \<and> set (merged_tasks task_lists) = (\<Union>ts\<in>snd ` set task_lists. set ts)"
proof -
  have "distinct a \<Longrightarrow> distinct (fold (\<lambda>(_, new_tasks). merge_recipe new_tasks) task_lists a) \<and>
      set (fold (\<lambda>(_, new_tasks). merge_recipe new_tasks) task_lists a) = set a \<union> (\<Union>ts\<in>snd ` set task_lists. set ts)" for a
  proof (induction task_lists arbitrary: a)
    case (Cons l ls)
    obtain fn ts where l: "l = (fn, ts)" by (cases l)
    show ?case using Cons.IH [of "merge_recipe ts a"] merge_recipe_ok [OF Cons.prems, of ts]
      by (auto simp: l)
  qed simp
  then show ?thesis by (simp add: merged_tasks_def)
qed


definition named :: "string \<Rightarrow> string \<Rightarrow> bool" where
  "named task tid \<longleftrightarrow> taskname_from_tid tid = Inr task"

definition with_names :: "string list \<Rightarrow> bool" where
  "with_names tids \<longleftrightarrow> (\<forall>tid\<in>set tids. CHR '':'' \<in> set tid)"

lemma taskname_total: "CHR '':'' \<in> set tid \<Longrightarrow> \<exists>task. taskname_from_tid tid = Inr task"
  using rsplit1_None_iff [of "CHR '':''" tid] by (auto simp: taskname_from_tid_def split: option.splits)

text \<open>Moving the tasks of one name to the front of the part not yet ordered is a stable partition.\<close>

lemma move_task_step:
  assumes "with_names (A @ F @ N @ x # R)" and "k = length A + length F" and "i = k + length N"
  shows "move_task task i (A @ F @ N @ x # R, k) =
    Inr (if named task x then (A @ F @ x # N @ R, Suc k) else (A @ F @ N @ x # R, k))"
proof -
  obtain name where n: "taskname_from_tid x = Inr name"
    using taskname_total [of x] assms(1) by (auto simp: with_names_def)
  have i: "i = length (A @ F @ N)" using assms by simp
  have "(A @ F @ N @ x # R) ! i = x" unfolding i by (metis append.assoc nth_append_length)
  moreover have "take i (A @ F @ N @ x # R) = A @ F @ N" "drop (Suc i) (A @ F @ N @ x # R) = R" by (simp_all add: i)
  moreover have "take k (A @ F @ N @ R) = A @ F" "drop k (A @ F @ N @ R) = N @ R" by (simp_all add: assms(2))
  ultimately show ?thesis using n i by (auto simp: move_task_def named_def Let_def)
qed

lemma move_tasks_partition:
  assumes "with_names (A @ B)"
  shows "move_tasks (length (A @ B)) task (A @ B, length A) =
    Inr (A @ filter (named task) B @ filter (\<lambda>t. \<not> named task t) B, length A + length (filter (named task) B))"
proof -
  have step: "rfold (move_task task) [length A + length F + length N..<length (A @ F @ N @ R)] (A @ F @ N @ R, length A + length F) =
      Inr (A @ (F @ filter (named task) R) @ N @ filter (\<lambda>t. \<not> named task t) R,
           length A + length (F @ filter (named task) R))"
    if "with_names (A @ F @ N @ R)" for F N R
    using that
  proof (induction R arbitrary: F N)
    case Nil
    then show ?case by simp
  next
    case (Cons x R)
    let ?i = "length A + length F + length N"
    have split: "[?i..<length (A @ F @ N @ x # R)] = ?i # [Suc ?i..<length (A @ F @ N @ x # R)]"
      by (rule upt_conv_Cons) simp
    note m = move_task_step [OF Cons.prems refl, of ?i task, simplified]
    show ?case
    proof (cases "named task x")
      case True
      have "with_names (A @ (F @ [x]) @ N @ R)" using Cons.prems by (auto simp: with_names_def)
      from Cons.IH [OF this] show ?thesis unfolding split using m True by simp
    next
      case False
      have "with_names (A @ F @ (N @ [x]) @ R)" using Cons.prems by (auto simp: with_names_def)
      from Cons.IH [OF this] show ?thesis unfolding split using m False by simp
    qed
  qed
  from step [of "[]" "[]" B] assms show ?thesis by (simp add: move_tasks_def)
qed

lemma move_all:
  assumes "with_names (A @ B)" and "distinct tasks"
  shows "\<exists>k. rfold (move_tasks (length (A @ B))) tasks (A @ B, length A) =
    Inr (A @ concat (map (\<lambda>task. filter (named task) B) tasks) @
         filter (\<lambda>t. \<forall>task\<in>set tasks. \<not> named task t) B, k)"
  using assms
proof (induction tasks arbitrary: A B)
  case Nil
  then show ?case by simp
next
  case (Cons task tasks)
  let ?F = "filter (named task) B" and ?N = "filter (\<lambda>t. \<not> named task t) B"
  have len: "length ((A @ ?F) @ ?N) = length (A @ B)"
    using sum_length_filter_compl [of "named task" B] by simp
  have "with_names ((A @ ?F) @ ?N)" using Cons.prems(1) by (auto simp: with_names_def)
  from Cons.IH [OF this] Cons.prems(2) obtain k where
    k: "rfold (move_tasks (length (A @ B))) tasks ((A @ ?F) @ ?N, length (A @ ?F)) =
      Inr ((A @ ?F) @ concat (map (\<lambda>task. filter (named task) ?N) tasks) @
         filter (\<lambda>t. \<forall>task\<in>set tasks. \<not> named task t) ?N, k)"
    unfolding len by auto
  have "filter (named u) ?N = filter (named u) B" if "u \<in> set tasks" for u
    using that Cons.prems(2) by (auto simp: named_def intro!: filter_cong)
  then have c: "map (\<lambda>u. filter (named u) ?N) tasks = map (\<lambda>u. filter (named u) B) tasks"
    by (simp del: filter_filter)
  have e: "filter (\<lambda>t. \<forall>u\<in>set tasks. \<not> named u t) ?N =
      filter (\<lambda>t. \<forall>u\<in>set (task # tasks). \<not> named u t) B"
    by (auto intro!: filter_cong)
  show ?case
    unfolding rfold.simps move_tasks_partition [OF Cons.prems(1)] rbind_Inr
    using k [unfolded c e append_assoc length_append]
    by (intro exI [of _ k]) (simp only: list.map concat.simps append_assoc length_append)
qed

lemma recipe_tasks_names:
  assumes "with_names tids"
  shows "\<exists>task_lists. rfold recipe_tasks tids acc = Inr task_lists \<and>
    (\<forall>fn. set (dget acc fn []) \<subseteq> set (dget task_lists fn [])) \<and>
    (\<forall>t\<in>set tids. \<forall>task. named task t \<longrightarrow> (\<exists>fn. task \<in> set (dget task_lists fn [])))"
  using assms
proof (induction tids arbitrary: acc)
  case Nil
  then show ?case by simp
next
  case (Cons t tids)
  obtain fn task where r: "rsplit1 CHR '':'' t = Some (fn, task)"
    using rsplit1_None_iff [of "CHR '':''" t] Cons.prems by (cases "rsplit1 CHR '':'' t") (auto simp: with_names_def)
  let ?acc = "AList.update fn (dget acc fn [] @ [task]) acc"
  have "with_names tids" using Cons.prems by (simp add: with_names_def)
  then obtain task_lists where l: "rfold recipe_tasks tids ?acc = Inr task_lists"
    "\<forall>fn. set (dget ?acc fn []) \<subseteq> set (dget task_lists fn [])"
    "\<forall>t\<in>set tids. \<forall>task. named task t \<longrightarrow> (\<exists>fn. task \<in> set (dget task_lists fn []))"
    using Cons.IH by blast
  have "task \<in> set (dget task_lists fn [])" using l(2) by (auto dest!: spec [of _ fn])
  moreover have "set (dget acc f []) \<subseteq> set (dget task_lists f [])" for f
    using l(2) by (cases "f = fn") (auto dest!: spec [of _ f])
  moreover have "named u t \<longleftrightarrow> u = task" for u using r by (auto simp: named_def taskname_from_tid_def)
  moreover have "recipe_tasks t acc = Inr ?acc" using r by (simp add: recipe_tasks_def)
  ultimately show ?case using l by auto
qed

definition taskname_of :: "string \<Rightarrow> string" where
  "taskname_of tid = (case taskname_from_tid tid of Inr task \<Rightarrow> task | Inl _ \<Rightarrow> [])"

lemma completion_result:
  assumes names: "with_names (dkeys rts)"
  shows "\<exists>kinds. completion_order rts = Inr (concat (map (\<lambda>task. filter (named task) (speed_order rts)) kinds)) \<and>
    distinct kinds \<and> (\<forall>t\<in>set (dkeys rts). taskname_of t \<in> set kinds)"
proof -
  let ?p = "speed_order rts"
  have p: "set ?p = set (dkeys rts)" "length ?p = length rts"
    by (simp_all add: speed_order_sort dkeys_def)
  then have wn: "with_names ?p" using names by (simp add: with_names_def)
  then obtain task_lists where l: "rfold recipe_tasks ?p [] = Inr task_lists"
    "\<forall>t\<in>set ?p. \<forall>task. named task t \<longrightarrow> (\<exists>fn. task \<in> set (dget task_lists fn []))"
    using recipe_tasks_names [OF wn, of "[]"] by blast
  let ?kinds = "rev (merged_tasks task_lists)"
  have "task \<in> set ?kinds" if "task \<in> set (dget task_lists fn [])" for task fn
  proof (cases "map_of task_lists fn")
    case None
    then show ?thesis using that by (simp add: dget_def)
  next
    case (Some ts)
    then have "(fn, ts) \<in> set task_lists" "task \<in> set ts" using that by (auto simp: dget_def dest: map_of_SomeD)
    then show ?thesis using merged_tasks_ok [of task_lists] by force
  qed
  then have kinds: "task \<in> set ?kinds" if "t \<in> set ?p" "named task t" for t task
    using l(2) that by blast
  have dist: "distinct ?kinds" using merged_tasks_ok [of task_lists] by simp
  obtain k where "rfold (move_tasks (length rts)) ?kinds (?p, 0) =
      Inr (concat (map (\<lambda>task. filter (named task) ?p) ?kinds) @ filter (\<lambda>t. \<forall>task\<in>set ?kinds. \<not> named task t) ?p, k)"
    using move_all [of "[]" ?p ?kinds] wn dist p(2) by auto
  moreover have "filter (\<lambda>t. \<forall>task\<in>set ?kinds. \<not> named task t) ?p = []"
  proof -
    have "\<exists>task\<in>set ?kinds. named task t" if t: "t \<in> set ?p" for t
    proof -
      obtain task where "named task t" using taskname_total [of t] wn t by (auto simp: named_def with_names_def)
      then show ?thesis using kinds t by blast
    qed
    then show ?thesis by (auto simp: filter_empty_conv)
  qed
  ultimately have "completion_order rts = Inr (concat (map (\<lambda>task. filter (named task) ?p) ?kinds))"
    using l(1) by (simp add: completion_order_def Let_def)
  moreover have "taskname_of t \<in> set ?kinds" if t: "t \<in> set (dkeys rts)" for t
  proof -
    obtain task where n: "taskname_from_tid t = Inr task" using taskname_total [of t] names t by (auto simp: with_names_def)
    then show ?thesis using kinds [of t task] t p(1) by (simp add: named_def taskname_of_def)
  qed
  ultimately show ?thesis using dist by blast
qed

lemma named_iff: "CHR '':'' \<in> set t \<Longrightarrow> named task t \<longleftrightarrow> taskname_of t = task"
  using taskname_total [of t] by (auto simp: named_def taskname_of_def)

lemma completion_buckets:
  assumes names: "with_names (dkeys rts)"
    and "completion_order rts = Inr (concat (map (\<lambda>task. filter (named task) (speed_order rts)) kinds))"
    and "distinct kinds" and "\<forall>t\<in>set (dkeys rts). taskname_of t \<in> set kinds"
  shows "mset (concat (map (\<lambda>task. filter (named task) (speed_order rts)) kinds)) = mset (dkeys rts)"
proof -
  have "set (speed_order rts) = set (dkeys rts)" by (simp add: speed_order_sort)
  moreover from this have "filter (named task) (speed_order rts) = filter (\<lambda>t. taskname_of t = task) (speed_order rts)" for task
    using names by (intro filter_cong) (auto simp: with_names_def named_iff)
  ultimately have "mset (concat (map (\<lambda>task. filter (named task) (speed_order rts)) kinds)) = mset (speed_order rts)"
    using mset_buckets [OF assms(3), of taskname_of "speed_order rts"] assms(4) by auto
  then show ?thesis by (simp add: speed_order_sort)
qed

text \<open>C7: the completion scheduler's order is found without an error and is the speed order grouped by task
  name: it holds every task exactly once, each name has one block, and within a block the speed
  order is kept.\<close>

theorem completion_order_spec:
  assumes "with_names (dkeys rts)"
  shows "\<exists>kinds order. completion_order rts = Inr order \<and> mset order = mset (dkeys rts) \<and>
    distinct kinds \<and> order = concat (map (\<lambda>task. filter (named task) (speed_order rts)) kinds)"
  using completion_result [OF assms] completion_buckets [OF assms] by blast


lemma completion_order_spec_witness:
  "\<exists>order. completion_order sample_run = Inr order \<and>
    order = [''c:do_build'', ''b:do_build'', ''a:do_build'', ''a:do_image'', ''c:do_pack''] \<and>
    mset order = mset (dkeys sample_run)"
proof -
  have "with_names (dkeys sample_run)" by code_simp
  moreover have "completion_order sample_run =
      Inr [''c:do_build'', ''b:do_build'', ''a:do_build'', ''a:do_image'', ''c:do_pack'']" by code_simp
  ultimately show ?thesis using completion_order_spec [of sample_run] by auto
qed

section \<open>Which task is chosen\<close>

definition position :: "string list \<Rightarrow> string \<Rightarrow> nat" where
  "position p t = (case list_index p t of Some n \<Rightarrow> n | None \<Rightarrow> length p)"

definition running_count :: "string list \<Rightarrow> string \<Rightarrow> nat" where
  "running_count R name = length (filter (named name) R)"

definition limited :: "(string \<Rightarrow> string option) \<Rightarrow> string \<Rightarrow> bool" where
  "limited threads name \<longleftrightarrow> (case threads name of None \<Rightarrow> False | Some l \<Rightarrow> l \<noteq> [])"

text \<open>As many tasks of this name are running as its \<open>number_threads\<close> allows.\<close>

definition exhausted :: "(string \<Rightarrow> string option) \<Rightarrow> string list \<Rightarrow> string \<Rightarrow> bool" where
  "exhausted threads R name \<longleftrightarrow> limited threads name \<and> running_count R name > 0 \<and>
     (case py_int (the (threads name)) of Inl _ \<Rightarrow> False | Inr k \<Rightarrow> k \<le> int (running_count R name))"

definition unfinished :: "sched_view \<Rightarrow> string list" where
  "unfinished v = filter (\<lambda>t. t \<notin> set (sv_complete v)) (sv_running v)"

definition eligible :: "sched_view \<Rightarrow> (string, string) dict \<Rightarrow> string \<Rightarrow> bool" where
  "eligible v stamps t \<longleftrightarrow> the (map_of stamps t) \<notin> set (sv_build_stamps v) \<and>
     \<not> exhausted (sv_threads v) (unfinished v) (taskname_of t)"

definition sched_inv :: "run_tasks \<Rightarrow> (string \<Rightarrow> string option) \<Rightarrow> string list \<Rightarrow> scheduler \<Rightarrow> bool" where
  "sched_inv rts threads p s \<longleftrightarrow> sc_prio_map s = map OneTask p \<and>
     (\<forall>m. sc_rev_prio_map s = Some m \<longrightarrow> reverse_prio_map rts (map OneTask p) = Inr m) \<and>
     set (sc_buildable s) \<subseteq> set (dkeys rts) \<and> set (dkeys rts) \<subseteq> set (dkeys (sc_stamps s)) \<and>
     (\<forall>n x. map_of (sc_skip_maxthread s) n = Some x \<longrightarrow> x = threads n)"

lemma prio_index_list: "prio_index (map OneTask p) t = (case list_index p t of None \<Rightarrow> Inl (ValueError t) | Some n \<Rightarrow> Inr n)"
  by (induction p) (auto split: option.splits)

lemma reverse_prio_total:
  assumes "set (dkeys rts) \<subseteq> set p"
  shows "reverse_prio_map rts (map OneTask p) = Inr (map (\<lambda>t. (t, position p t)) (dkeys rts))"
proof -
  have "rmap (\<lambda>tid. rbind (prio_index (map OneTask p) tid) (\<lambda>n. Inr (tid, n))) ts = Inr (map (\<lambda>t. (t, position p t)) ts)"
    if "set ts \<subseteq> set p" for ts
    using that
  proof (induction ts)
    case (Cons t ts)
    obtain n where "list_index p t = Some n" using Cons.prems list_index_None [of p t] by (cases "list_index p t") auto
    then show ?case using Cons by (simp add: prio_index_list position_def)
  qed simp
  then show ?thesis using assms by (simp add: reverse_prio_map_def)
qed

definition thread_inv :: "(string \<Rightarrow> string option) \<Rightarrow> string list \<Rightarrow> (string, string option) dict \<times> (string, int) dict \<Rightarrow> bool" where
  "thread_inv threads R st \<longleftrightarrow> (case st of (maxthread, skip) \<Rightarrow>
     (\<forall>n x. map_of maxthread n = Some x \<longrightarrow> x = threads n) \<and>
     (\<forall>n. map_of skip n = (if limited threads n \<and> running_count R n > 0 then Some (int (running_count R n)) else None)) \<and>
     (\<forall>n. map_of skip n \<noteq> None \<longrightarrow> map_of maxthread n = Some (threads n)))"

lemma thread_invD:
  assumes "thread_inv threads R (maxthread, skip)"
  shows "map_of maxthread n = Some x \<Longrightarrow> x = threads n"
    and "map_of skip n = (if limited threads n \<and> running_count R n > 0 then Some (int (running_count R n)) else None)"
    and "map_of skip n \<noteq> None \<Longrightarrow> map_of maxthread n = Some (threads n)"
  using assms unfolding thread_inv_def prod.case by blast+

lemma thread_flag_get:
  assumes "\<And>n x. map_of m n = Some x \<Longrightarrow> x = threads n"
  shows "map_of (thread_flag threads name m) name = Some (threads name)"
    and "map_of (thread_flag threads name m) n = Some x \<Longrightarrow> x = threads n"
    and "map_of m n = Some (threads n) \<Longrightarrow> map_of (thread_flag threads name m) n = Some (threads n)"
proof -
  show "map_of (thread_flag threads name m) name = Some (threads name)"
    using assms [of name] by (cases "map_of m name") (simp_all add: thread_flag_def has_key_def update_conv)
  show "map_of (thread_flag threads name m) n = Some x \<Longrightarrow> x = threads n"
    using assms [of n x] by (cases "n = name") (auto simp: thread_flag_def update_conv split: if_splits)
  show "map_of m n = Some (threads n) \<Longrightarrow> map_of (thread_flag threads name m) n = Some (threads n)"
    by (simp add: thread_flag_def update_conv)
qed

lemma count_running_inv:
  assumes "thread_inv threads R (maxthread, skip)"
  shows "yields (thread_inv threads (R @ [t])) (count_running threads t (maxthread, skip))"
proof (cases "taskname_from_tid t")
  case (Inl e)
  then show ?thesis by (auto simp: count_running_def taskname_from_tid_def split: option.splits)
next
  case (Inr name)
  have count: "running_count (R @ [t]) n = (if n = name then Suc (running_count R n) else running_count R n)" for n
    using Inr by (auto simp: running_count_def named_def)
  define mt where "mt = thread_flag threads name maxthread"
  note mt = thread_flag_get [of maxthread threads, OF thread_invD(1) [OF assms]]
  show ?thesis
  proof (cases "limited threads name")
    case False
    then have "count_running threads t (maxthread, skip) = Inr (mt, skip)"
      using Inr mt(1) by (simp add: count_running_def Let_def mt_def dget_def limited_def split: option.splits)
    moreover have "thread_inv threads (R @ [t]) (mt, skip)"
      unfolding thread_inv_def prod.case
    proof (intro conjI allI impI)
      fix n
      show "x = threads n" if "map_of mt n = Some x" for x using mt(2) that by (simp add: mt_def)
      show "map_of skip n = (if limited threads n \<and> running_count (R @ [t]) n > 0
          then Some (int (running_count (R @ [t]) n)) else None)"
        using thread_invD(2) [OF assms, of n] False by (simp add: count)
      show "map_of mt n = Some (threads n)" if "map_of skip n \<noteq> None"
        unfolding mt_def using thread_flag_get(3) [of maxthread threads] thread_invD(1) [OF assms]
          thread_invD(3) [OF assms that] by blast
    qed
    ultimately show ?thesis by simp
  next
    case True
    then have "count_running threads t (maxthread, skip) = Inr (mt, AList.update name (dget skip name 0 + 1) skip)"
      using Inr mt(1) by (simp add: count_running_def Let_def mt_def dget_def limited_def split: option.splits)
    moreover have "dget skip name 0 = int (running_count R name)"
      using thread_invD(2) [OF assms, of name] True by (simp add: dget_def)
    moreover have "thread_inv threads (R @ [t]) (mt, AList.update name (int (running_count R name) + 1) skip)"
      unfolding thread_inv_def prod.case
    proof (intro conjI allI impI)
      fix n
      show "x = threads n" if "map_of mt n = Some x" for x using mt(2) that by (simp add: mt_def)
      show "map_of (AList.update name (int (running_count R name) + 1) skip) n =
          (if limited threads n \<and> running_count (R @ [t]) n > 0 then Some (int (running_count (R @ [t]) n)) else None)"
        using thread_invD(2) [OF assms, of n] True by (simp add: count update_conv)
      assume "map_of (AList.update name (int (running_count R name) + 1) skip) n \<noteq> None"
      then have "n = name \<or> map_of skip n \<noteq> None" by (simp add: update_conv split: if_splits)
      then show "map_of mt n = Some (threads n)"
        unfolding mt_def using mt(1) mt(3) thread_invD(3) [OF assms] by blast
    qed
    ultimately show ?thesis by simp
  qed
qed

lemma count_all_running:
  assumes "\<forall>n x. map_of maxthread n = Some x \<longrightarrow> x = threads n"
  shows "yields (thread_inv threads R) (rfold (count_running threads) R (maxthread, []))"
proof -
  have "yields (thread_inv threads (R0 @ R)) (rfold (count_running threads) R st)" if "thread_inv threads R0 st" for R0 R st
    using that
  proof (induction R arbitrary: R0 st)
    case Nil
    then show ?case by simp
  next
    case (Cons t R)
    obtain mt skip where st: "st = (mt, skip)" by (cases st)
    have "yields (thread_inv threads (R0 @ [t])) (count_running threads t st)"
      unfolding st by (rule count_running_inv) (use Cons.prems st in simp)
    then show ?case unfolding rfold.simps
      by (rule yields_bind) (use Cons.IH [of "R0 @ [t]"] in simp)
  qed
  from this [of "[]" "(maxthread, [])" R] show ?thesis
    using assms by (simp add: thread_inv_def running_count_def)
qed

lemma at_limit_yields:
  assumes "thread_inv threads R (maxthread, skip)"
  shows "yields (\<lambda>b. b \<longleftrightarrow> exhausted threads R n) (at_limit maxthread skip n)"
proof (cases "limited threads n \<and> running_count R n > 0")
  case False
  then have "map_of skip n = None" using thread_invD(2) [OF assms, of n] by simp
  then show ?thesis using False by (auto simp: at_limit_def exhausted_def)
next
  case True
  then have s: "map_of skip n = Some (int (running_count R n))" and "map_of maxthread n = Some (threads n)"
    using thread_invD(2,3) [OF assms, of n] by auto
  moreover obtain l where "threads n = Some l" using True by (auto simp: limited_def split: option.splits)
  ultimately have "at_limit maxthread skip n = rbind (py_int l) (\<lambda>k. Inr (k \<le> int (running_count R n)))"
    by (simp add: at_limit_def dget_def)
  then show ?thesis using True \<open>threads n = Some l\<close> py_int_yields [of l]
    by (cases "py_int l") (auto simp: exhausted_def)
qed


definition best_so_far :: "sched_view \<Rightarrow> (string, string) dict \<Rightarrow> string list \<Rightarrow> string set \<Rightarrow> (string \<times> nat) option \<Rightarrow> bool" where
  "best_so_far v stamps p D best \<longleftrightarrow> (case best of
     None \<Rightarrow> \<forall>u\<in>D. \<not> eligible v stamps u
   | Some (t, n) \<Rightarrow> t \<in> D \<and> eligible v stamps t \<and> n = position p t \<and>
       (\<forall>u\<in>D. eligible v stamps u \<longrightarrow> n \<le> position p u))"

definition prio_table :: "run_tasks \<Rightarrow> string list \<Rightarrow> (string, nat) dict" where
  "prio_table rts p = map (\<lambda>t. (t, position p t)) (dkeys rts)"

lemma prio_table_get: "t \<in> set (dkeys rts) \<Longrightarrow> dlookup (prio_table rts p) t = Inr (position p t)"
  unfolding prio_table_def dlookup_def by (simp add: map_of_map_restrict)

lemma better_task_inv:
  assumes ti: "thread_inv (sv_threads v) (unfinished v) (sc_skip_maxthread s, skip)"
    and t: "t \<in> set (dkeys rts)" and st: "t \<in> set (dkeys (sc_stamps s))" and best: "best_so_far v (sc_stamps s) p D best"
  shows "yields (best_so_far v (sc_stamps s) p (insert t D)) (better_task s v skip (prio_table rts p) t best)"
proof (cases "case best of None \<Rightarrow> True | Some (_, bestprio) \<Rightarrow> bestprio > position p t")
  case False
  then have "better_task s v skip (prio_table rts p) t best = Inr best"
    using t by (simp add: better_task_def prio_table_get)
  then show ?thesis using False best by (auto simp: best_so_far_def split: option.splits)
next
  case True
  show ?thesis
  proof (cases "taskname_from_tid t")
    case (Inl e)
    then show ?thesis using True t
      by (auto simp: better_task_def prio_table_get taskname_from_tid_def split: option.splits)
  next
    case (Inr name)
    then have name: "taskname_of t = name" by (simp add: taskname_of_def)
    obtain stamp where stamp: "map_of (sc_stamps s) t = Some stamp"
      using st has_key_iff [of "sc_stamps s" t] by (auto simp: has_key_def)
    have "better_task s v skip (prio_table rts p) t best =
        rbind (at_limit (sc_skip_maxthread s) skip name) (\<lambda>full.
          if full then Inr best else Inr (if stamp \<in> set (sv_build_stamps v) then best else Some (t, position p t)))"
      using True t Inr stamp dlookup_Inr [of "sc_stamps s" t stamp]
      by (simp add: better_task_def prio_table_get cong: if_cong)
    moreover have "best_so_far v (sc_stamps s) p (insert t D)
        (if exhausted (sv_threads v) (unfinished v) name \<or> stamp \<in> set (sv_build_stamps v) then best else Some (t, position p t))"
    proof (cases "eligible v (sc_stamps s) t")
      case False
      then have "exhausted (sv_threads v) (unfinished v) name \<or> stamp \<in> set (sv_build_stamps v)"
        using stamp name by (auto simp: eligible_def)
      then show ?thesis using best False by (auto simp: best_so_far_def split: option.splits)
    next
      case el: True
      then have "\<not> (exhausted (sv_threads v) (unfinished v) name \<or> stamp \<in> set (sv_build_stamps v))"
        using stamp name by (auto simp: eligible_def)
      then show ?thesis using best el True by (auto simp: best_so_far_def split: option.splits)
    qed
    ultimately show ?thesis
      by (auto intro!: yields_bind [OF at_limit_yields [OF ti]] split: if_splits)
  qed
qed

lemma best_fold:
  assumes "thread_inv (sv_threads v) (unfinished v) (sc_skip_maxthread s, skip)"
    and "set ts \<subseteq> set (dkeys rts)" and "set ts \<subseteq> set (dkeys (sc_stamps s))" and "best_so_far v (sc_stamps s) p D best"
  shows "yields (best_so_far v (sc_stamps s) p (D \<union> set ts)) (rfold (better_task s v skip (prio_table rts p)) ts best)"
  using assms(2-)
proof (induction ts arbitrary: D best)
  case Nil
  then show ?case by simp
next
  case (Cons t ts)
  have "yields (best_so_far v (sc_stamps s) p (insert t D)) (better_task s v skip (prio_table rts p) t best)"
    using Cons.prems by (intro better_task_inv [OF assms(1)]) auto
  then show ?case unfolding rfold.simps
    by (rule yields_bind) (use Cons.IH [of "insert t D"] Cons.prems in auto)
qed

text \<open>What a choice promises about the task it returns.\<close>

definition chosen :: "sched_view \<Rightarrow> (string, string) dict \<Rightarrow> string list \<Rightarrow> string list \<Rightarrow> string option \<Rightarrow> bool" where
  "chosen v stamps p ready t \<longleftrightarrow> (case t of
     None \<Rightarrow> \<forall>u\<in>set ready. \<not> eligible v stamps u
   | Some t \<Rightarrow> t \<in> set ready \<and> eligible v stamps t \<and>
       (\<forall>u\<in>set ready. eligible v stamps u \<longrightarrow> position p t \<le> position p u))"

lemma choose_best_yields:
  assumes inv: "sched_inv rts (sv_threads v) p s" and p: "set (dkeys rts) \<subseteq> set p"
    and ti: "thread_inv (sv_threads v) (unfinished v) (sc_skip_maxthread s, skip)"
    and ready: "set ready \<subseteq> set (dkeys rts)"
  shows "yields (\<lambda>(t, s'). chosen v (sc_stamps s) p ready t \<and> sched_inv rts (sv_threads v) p s' \<and>
      sc_buildable s' = sc_buildable s \<and> sc_stamps s' = sc_stamps s) (choose_best rts v skip ready s)"
proof -
  have table: "reverse_prio_map rts (map OneTask p) = Inr (prio_table rts p)"
    using reverse_prio_total [OF p] by (simp add: prio_table_def)
  have prio: "sc_prio_map s = map OneTask p" using inv by (simp add: sched_inv_def)
  have m: "(case sc_rev_prio_map s of Some m \<Rightarrow> if m = [] then reverse_prio_map rts (sc_prio_map s) else Inr m
      | None \<Rightarrow> reverse_prio_map rts (sc_prio_map s)) = Inr (prio_table rts p)"
    using inv table prio by (auto simp: sched_inv_def split: option.split)
  define s1 where "s1 = s\<lparr>sc_rev_prio_map := Some (prio_table rts p)\<rparr>"
  have s1: "sched_inv rts (sv_threads v) p s1" "sc_buildable s1 = sc_buildable s" "sc_stamps s1 = sc_stamps s"
    "sc_skip_maxthread s1 = sc_skip_maxthread s"
    using inv table by (simp_all add: sched_inv_def s1_def)
  have "set ready \<subseteq> set (dkeys (sc_stamps s1))" using ready s1(1) by (auto simp: sched_inv_def)
  then have "yields (best_so_far v (sc_stamps s1) p ({} \<union> set ready))
      (rfold (better_task s1 v skip (prio_table rts p)) ready None)"
    using ti ready s1(4) by (intro best_fold) (auto simp: best_so_far_def)
  moreover have "choose_best rts v skip ready s =
      rbind (rfold (better_task s1 v skip (prio_table rts p)) ready None) (\<lambda>best. Inr (map_option fst best, s1))"
    unfolding choose_best_def m by (simp add: Let_def s1_def)
  ultimately show ?thesis
    using s1 by (auto intro!: yields_bind simp: best_so_far_def chosen_def split: option.splits)
qed

lemma next_buildable_yields:
  assumes inv: "sched_inv rts (sv_threads v) p s" and p: "set (dkeys rts) \<subseteq> set p"
  shows "yields (\<lambda>(t, s'). sched_inv rts (sv_threads v) p s' \<and> sc_stamps s' = sc_stamps s \<and>
      sc_buildable s' = filter (\<lambda>t. t \<notin> set (sv_running v)) (sc_buildable s) \<and>
      (if sv_active v \<noteq> 0 \<and> sv_pressure v then t = None
       else chosen v (sc_stamps s) p (ready_tasks v s') t)) (next_buildable_task rts v s)"
proof -
  define s1 where "s1 = s\<lparr>sc_buildable := filter (\<lambda>t. t \<notin> set (sv_running v)) (sc_buildable s)\<rparr>"
  let ?ready = "ready_tasks v s1"
  let ?P = "\<lambda>(t, s'). sched_inv rts (sv_threads v) p s' \<and> sc_stamps s' = sc_stamps s \<and>
      sc_buildable s' = sc_buildable s1 \<and>
      (if sv_active v \<noteq> 0 \<and> sv_pressure v then t = None
       else chosen v (sc_stamps s) p (ready_tasks v s') t)"
  have s1: "sched_inv rts (sv_threads v) p s1" "sc_stamps s1 = sc_stamps s"
    "sc_buildable s1 = filter (\<lambda>t. t \<notin> set (sv_running v)) (sc_buildable s)"
    using inv by (auto simp: sched_inv_def s1_def)
  have ready: "set ?ready \<subseteq> set (dkeys rts)" using s1(1) by (auto simp: ready_tasks_def sched_inv_def)
  have same: "ready_tasks v s' = ?ready" if "sc_buildable s' = sc_buildable s1" for s'
    using that by (simp add: ready_tasks_def)
  have "yields ?P (next_buildable_task rts v s)"
  proof (cases "?ready = [] \<or> sv_active v \<noteq> 0 \<and> sv_pressure v")
    case True
    then have "next_buildable_task rts v s = Inr (None, s1)"
      by (auto simp: next_buildable_task_def Let_def s1_def)
    then show ?thesis using True s1 by (auto simp: chosen_def)
  next
    case False
    have "\<forall>n x. map_of (sc_skip_maxthread s1) n = Some x \<longrightarrow> x = sv_threads v n"
      using s1(1) by (simp add: sched_inv_def)
    note cnt = count_all_running [OF this, of "unfinished v"]
    have eq: "next_buildable_task rts v s =
      rbind (rfold (count_running (sv_threads v)) (unfinished v) (sc_skip_maxthread s1, [])) (\<lambda>(maxthread, skip).
        let s = s1\<lparr>sc_skip_maxthread := maxthread\<rparr> in
        case ?ready of
          [tid] \<Rightarrow> rbind (taskname_from_tid tid) (\<lambda>taskname. rbind (at_limit maxthread skip taskname) (\<lambda>full.
             if full then Inr (None, s)
             else rbind (dlookup (sc_stamps s) tid) (\<lambda>stamp.
               if stamp \<notin> set (sv_build_stamps v) then Inr (Some tid, s) else choose_best rts v skip [] s)))
        | _ \<Rightarrow> choose_best rts v skip ?ready s)"
    proof -
      have n: "(?ready = []) = False" "(sv_active v \<noteq> 0 \<and> sv_pressure v) = False" using False by auto
      have "sc_skip_maxthread s = sc_skip_maxthread s1" by (simp add: s1_def)
      then show ?thesis
        by (simp only: next_buildable_task_def Let_def s1_def [symmetric] n if_False unfinished_def)
    qed
    show ?thesis
      unfolding eq
    proof (rule yields_bind [OF cnt], clarify)
      fix maxthread skip
      assume ti: "thread_inv (sv_threads v) (unfinished v) (maxthread, skip)"
      define s2 where "s2 = s1\<lparr>sc_skip_maxthread := maxthread\<rparr>"
      have s2: "sched_inv rts (sv_threads v) p s2" "sc_stamps s2 = sc_stamps s" "sc_buildable s2 = sc_buildable s1"
        "sc_skip_maxthread s2 = maxthread"
        using s1 ti by (simp_all add: sched_inv_def s2_def thread_inv_def)
      have best: "yields (\<lambda>(t, s'). chosen v (sc_stamps s2) p r t \<and> sched_inv rts (sv_threads v) p s' \<and>
          sc_buildable s' = sc_buildable s2 \<and> sc_stamps s' = sc_stamps s2) (choose_best rts v skip r s2)"
        if "set r \<subseteq> set (dkeys rts)" for r
        by (rule choose_best_yields [OF s2(1) p]) (use ti s2(4) that in simp_all)
      have all: "yields ?P (choose_best rts v skip ?ready s2)"
      proof (rule yields_weaken [OF best [OF ready]])
        fix r assume a: "case r of (t, s') \<Rightarrow> chosen v (sc_stamps s2) p ?ready t \<and> sched_inv rts (sv_threads v) p s' \<and>
          sc_buildable s' = sc_buildable s2 \<and> sc_stamps s' = sc_stamps s2"
        obtain t s' where r: "r = (t, s')" by (cases r)
        show "?P r" using a s2(2,3) same [of s'] False unfolding r by auto
      qed
      have one: "yields ?P (rbind (taskname_from_tid tid) (\<lambda>taskname. rbind (at_limit maxthread skip taskname) (\<lambda>full.
             if full then Inr (None, s2)
             else rbind (dlookup (sc_stamps s2) tid) (\<lambda>stamp.
               if stamp \<notin> set (sv_build_stamps v) then Inr (Some tid, s2) else choose_best rts v skip [] s2))))"
        if r: "?ready = [tid]" for tid
      proof (cases "taskname_from_tid tid")
        case (Inl e)
        then show ?thesis by (auto simp: taskname_from_tid_def split: option.splits)
      next
        case (Inr name)
        then have name: "taskname_of tid = name" by (simp add: taskname_of_def)
        have "tid \<in> set (dkeys (sc_stamps s2))" using ready r s2(1) by (auto simp: sched_inv_def)
        then obtain stamp where stamp: "map_of (sc_stamps s2) tid = Some stamp"
          using has_key_iff [of "sc_stamps s2" tid] by (auto simp: has_key_def)
        have sing: "ready_tasks v s2 = [tid]" using same [OF s2(3)] r by simp
        have none: "yields ?P (choose_best rts v skip [] s2)" if "stamp \<in> set (sv_build_stamps v)"
        proof (rule yields_weaken [OF best [of "[]"]])
          fix q assume a: "case q of (t, s') \<Rightarrow> chosen v (sc_stamps s2) p [] t \<and> sched_inv rts (sv_threads v) p s' \<and>
            sc_buildable s' = sc_buildable s2 \<and> sc_stamps s' = sc_stamps s2"
          obtain t s' where q: "q = (t, s')" by (cases q)
          have "chosen v (sc_stamps s) p [tid] t"
            using a stamp that s2(2) unfolding q by (auto simp: chosen_def eligible_def split: option.splits)
          then show "?P q" using a s2(2,3) same [of s'] r False unfolding q by auto
        qed simp
        have here: "?P (t, s2)" if "chosen v (sc_stamps s) p [tid] t" for t
          using that s2 sing False by auto
        have look: "dlookup (sc_stamps s2) tid = Inr stamp" using stamp by (simp add: dlookup_Inr)
        show ?thesis
          unfolding Inr rbind_Inr
        proof (rule yields_bind [OF at_limit_yields [OF ti]])
          fix full assume full: "full \<longleftrightarrow> exhausted (sv_threads v) (unfinished v) name"
          have el: "eligible v (sc_stamps s) tid \<longleftrightarrow> \<not> full \<and> stamp \<notin> set (sv_build_stamps v)"
            using stamp name s2(2) full by (auto simp: eligible_def)
          then have "chosen v (sc_stamps s) p [tid] None" if "full" using that by (simp add: chosen_def)
          moreover have "chosen v (sc_stamps s) p [tid] (Some tid)" if "\<not> full" "stamp \<notin> set (sv_build_stamps v)"
            using that el by (simp add: chosen_def)
          ultimately show "yields ?P (if full then Inr (None, s2)
             else rbind (dlookup (sc_stamps s2) tid) (\<lambda>stamp.
               if stamp \<notin> set (sv_build_stamps v) then Inr (Some tid, s2) else choose_best rts v skip [] s2))"
            unfolding look rbind_Inr using here [of None] here [of "Some tid"] none
            by (cases full; cases "stamp \<in> set (sv_build_stamps v)") (simp_all only: yields_simps if_True if_False not_True_eq_False not_False_eq_True simp_thms)
        qed
      qed
      show "yields ?P (let s = s1\<lparr>sc_skip_maxthread := maxthread\<rparr> in
        case ?ready of
          [tid] \<Rightarrow> rbind (taskname_from_tid tid) (\<lambda>taskname. rbind (at_limit maxthread skip taskname) (\<lambda>full.
             if full then Inr (None, s)
             else rbind (dlookup (sc_stamps s) tid) (\<lambda>stamp.
               if stamp \<notin> set (sv_build_stamps v) then Inr (Some tid, s) else choose_best rts v skip [] s)))
        | _ \<Rightarrow> choose_best rts v skip ?ready s)"
        unfolding Let_def s2_def [symmetric]
      proof (cases "\<exists>tid. ?ready = [tid]")
        case True
        then obtain tid where r: "?ready = [tid]" by blast
        show "yields ?P (case ?ready of
          [tid] \<Rightarrow> rbind (taskname_from_tid tid) (\<lambda>taskname. rbind (at_limit maxthread skip taskname) (\<lambda>full.
             if full then Inr (None, s2)
             else rbind (dlookup (sc_stamps s2) tid) (\<lambda>stamp.
               if stamp \<notin> set (sv_build_stamps v) then Inr (Some tid, s2) else choose_best rts v skip [] s2)))
          | _ \<Rightarrow> choose_best rts v skip ?ready s2)"
          using one [OF r] by (simp only: r list.case)
      next
        case False
        then obtain x y r where "?ready = [] \<or> ?ready = x # y # r"
          by (cases ?ready; cases "tl ?ready") auto
        then show "yields ?P (case ?ready of
          [tid] \<Rightarrow> rbind (taskname_from_tid tid) (\<lambda>taskname. rbind (at_limit maxthread skip taskname) (\<lambda>full.
             if full then Inr (None, s2)
             else rbind (dlookup (sc_stamps s2) tid) (\<lambda>stamp.
               if stamp \<notin> set (sv_build_stamps v) then Inr (Some tid, s2) else choose_best rts v skip [] s2)))
          | _ \<Rightarrow> choose_best rts v skip ?ready s2)"
          using all by (elim disjE) (simp_all only: list.case)
      qed
    qed
  qed
  then show ?thesis unfolding s1(3) .
qed


section \<open>The contract of a priority order\<close>

text \<open>
  What the base class needs of a derived scheduler: a priority map that holds exactly the tasks.
  \<open>may_run\<close> is what the rest of the run queue relies on.
\<close>

definition may_run :: "sched_view \<Rightarrow> scheduler \<Rightarrow> string \<Rightarrow> bool" where
  "may_run v s t \<longleftrightarrow> t \<in> set (sc_buildable s) \<and> t \<notin> set (sv_running v) \<and> t \<notin> set (sv_holdoff v) \<and>
     (t \<in> set (sv_covered v) \<or> t \<in> set (sv_notcovered v)) \<and> eligible v (sc_stamps s) t"

locale priority_order =
  fixes order :: "run_tasks \<Rightarrow> string list res"
  assumes order_total: "with_names (dkeys rts) \<Longrightarrow> \<exists>p. order rts = Inr p \<and> mset p = mset (dkeys rts)"
begin

lemma order_covers:
  assumes "with_names (dkeys rts)" and "order rts = Inr p"
  shows "set p = set (dkeys rts)"
  using order_total [OF assms(1)] assms(2) mset_eq_setD by auto

lemma next_task_yields:
  assumes names: "with_names (dkeys rts)" and p: "order rts = Inr p" and inv: "sched_inv rts (sv_threads v) p s"
  shows "yields (\<lambda>(t, s'). sched_inv rts (sv_threads v) p s' \<and>
      (case t of
         Some t \<Rightarrow> can_start_task v \<and> may_run v s t \<and> (\<forall>u. may_run v s u \<longrightarrow> position p t \<le> position p u)
       | None \<Rightarrow> \<not> can_start_task v \<or> sv_active v \<noteq> 0 \<and> sv_pressure v \<or> (\<forall>u. \<not> may_run v s u)))
    (next_task rts v s)"
proof (cases "can_start_task v")
  case False
  then show ?thesis using inv by (simp add: next_task_def)
next
  case True
  have sub: "set (dkeys rts) \<subseteq> set p" using order_covers [OF names p] by simp
  have "yields (\<lambda>(t, s'). sched_inv rts (sv_threads v) p s' \<and>
      (case t of
         Some t \<Rightarrow> can_start_task v \<and> may_run v s t \<and> (\<forall>u. may_run v s u \<longrightarrow> position p t \<le> position p u)
       | None \<Rightarrow> \<not> can_start_task v \<or> sv_active v \<noteq> 0 \<and> sv_pressure v \<or> (\<forall>u. \<not> may_run v s u)))
    (next_buildable_task rts v s)"
  proof (rule yields_weaken [OF next_buildable_yields [OF inv sub]])
    fix r assume a: "case r of (t, s') \<Rightarrow> sched_inv rts (sv_threads v) p s' \<and> sc_stamps s' = sc_stamps s \<and>
      sc_buildable s' = filter (\<lambda>t. t \<notin> set (sv_running v)) (sc_buildable s) \<and>
      (if sv_active v \<noteq> 0 \<and> sv_pressure v then t = None else chosen v (sc_stamps s) p (ready_tasks v s') t)"
    obtain t s' where r: "r = (t, s')" by (cases r)
    have may: "may_run v s u \<longleftrightarrow> u \<in> set (ready_tasks v s') \<and> eligible v (sc_stamps s) u" for u
      using a by (auto simp: r may_run_def ready_tasks_def)
    show "case r of (t, s') \<Rightarrow> sched_inv rts (sv_threads v) p s' \<and> (case t of
         Some t \<Rightarrow> can_start_task v \<and> may_run v s t \<and> (\<forall>u. may_run v s u \<longrightarrow> position p t \<le> position p u)
       | None \<Rightarrow> \<not> can_start_task v \<or> sv_active v \<noteq> 0 \<and> sv_pressure v \<or> (\<forall>u. \<not> may_run v s u))"
    proof (cases "sv_active v \<noteq> 0 \<and> sv_pressure v")
      case True
      then show ?thesis using a by (simp add: r)
    next
      case False
      then have "chosen v (sc_stamps s) p (ready_tasks v s') t" "sched_inv rts (sv_threads v) p s'"
        using a by (simp_all add: r split: if_splits)
      then show ?thesis using \<open>can_start_task v\<close> unfolding r may chosen_def by (auto split: option.splits)
    qed
  qed
  then show ?thesis using True by (simp add: next_task_def)
qed

end

interpretation speed: priority_order "\<lambda>rts. Inr (speed_order rts)"
  by unfold_locales (simp add: speed_order_sort)

interpretation completion: priority_order completion_order
proof
  fix rts :: run_tasks assume names: "with_names (dkeys rts)"
  obtain kinds where "completion_order rts = Inr (concat (map (\<lambda>task. filter (named task) (speed_order rts)) kinds))"
    "distinct kinds" "\<forall>t\<in>set (dkeys rts). taskname_of t \<in> set kinds"
    using completion_result [OF names] by blast
  then show "\<exists>p. completion_order rts = Inr p \<and> mset p = mset (dkeys rts)"
    using completion_buckets [OF names] by blast
qed

text \<open>C6: asked for the next task, the speed and completion schedulers return one exactly when a thread is
  free, the machine is not overloaded, and some task may run: it is buildable, not running, not held
  off, settled by the setscene phase, below the thread limit of its name, and its stamp is not being
  built. The task returned is the one of highest priority among those.\<close>

theorem next_task_best:
  assumes "with_names (dkeys rts)" and "p = speed_order rts \<or> completion_order rts = Inr p"
    and "sched_inv rts (sv_threads v) p s"
  shows "yields (\<lambda>(t, s'). sched_inv rts (sv_threads v) p s' \<and>
      (case t of
         Some t \<Rightarrow> can_start_task v \<and> may_run v s t \<and> (\<forall>u. may_run v s u \<longrightarrow> position p t \<le> position p u)
       | None \<Rightarrow> \<not> can_start_task v \<or> sv_active v \<noteq> 0 \<and> sv_pressure v \<or> (\<forall>u. \<not> may_run v s u)))
    (next_task rts v s)"
  using assms(2) speed.next_task_yields [OF assms(1) _ assms(3)] completion.next_task_yields [OF assms(1) _ assms(3)]
  by blast

section \<open>A new scheduler\<close>

lemma init_scheduler_inv:
  assumes "init_scheduler stampfile rts buildable = Inr s"
  shows "sched_inv rts threads p (s\<lparr>sc_prio_map := map OneTask p\<rparr>) \<and>
    set (sc_buildable s) = set buildable \<inter> set (dkeys rts)"
proof -
  let ?f = "\<lambda>tid (stamps, b). rbind (split_tid_mcfn tid) (\<lambda>(mc, fn, taskname, taskfn).
         Inr (AList.update tid (stampfile taskname taskfn) stamps, if tid \<in> set buildable then sadd tid b else b))"
  have fold: "rfold ?f ts (stamps, b) = Inr (stamps', b') \<Longrightarrow>
      set (dkeys stamps') = set (dkeys stamps) \<union> set ts \<and> set b' = set b \<union> (set buildable \<inter> set ts)"
    for ts stamps b stamps' b'
  proof (induction ts arbitrary: stamps b)
    case (Cons t ts)
    then obtain st where "rfold ?f ts (AList.update t st stamps, if t \<in> set buildable then sadd t b else b) = Inr (stamps', b')"
      by (auto simp: rbind_eq_Inr)
    from Cons.IH [OF this] show ?case by auto
  qed simp
  obtain stamps b where r: "rfold ?f (dkeys rts) ([], []) = Inr (stamps, b)"
    and s: "s = \<lparr>sc_prio_map = [AllTasks (dkeys rts)], sc_buildable = b, sc_skip_maxthread = [],
      sc_stamps = stamps, sc_rev_prio_map = None\<rparr>"
    using assms by (auto simp: init_scheduler_def rbind_eq_Inr)
  show ?thesis using fold [OF r] by (auto simp: s sched_inv_def dkeys_def)
qed

lemma init_completion_inv:
  assumes "init_completion stampfile rts buildable = Inr s"
  shows "\<exists>p. completion_order rts = Inr p \<and> sched_inv rts threads p s"
proof -
  obtain s0 p where "init_scheduler stampfile rts buildable = Inr s0" "completion_order rts = Inr p"
    "s = s0\<lparr>sc_prio_map := map OneTask p\<rparr>"
    using assms by (auto simp: init_completion_def init_speed_def rbind_eq_Inr)
  then show ?thesis using init_scheduler_inv by blast
qed

lemma init_speed_inv:
  assumes "init_speed stampfile rts buildable = Inr s"
  shows "sched_inv rts threads (speed_order rts) s"
  using assms init_scheduler_inv by (auto simp: init_speed_def rbind_eq_Inr)

text \<open>With the basic scheduler, as soon as a choice among several tasks is needed, an exception is
  raised: its priority map holds the view of all tasks instead of the tasks.\<close>

theorem basic_scheduler_fails:
  assumes "init_scheduler stampfile rts buildable = Inr s0" and "rts \<noteq> []"
    and "sc_prio_map s = sc_prio_map s0" and "sc_rev_prio_map s = None"
  shows "\<exists>tid. choose_best rts v skip ready s = Inl (ValueError tid)"
proof -
  have prio: "sc_prio_map s = [AllTasks (dkeys rts)]"
    using assms(1,3) by (auto simp: init_scheduler_def rbind_eq_Inr)
  obtain t ts where "dkeys rts = t # ts" using assms(2) by (cases rts) (auto simp: dkeys_def)
  then have "reverse_prio_map rts [AllTasks (dkeys rts)] = Inl (ValueError t)" by (simp add: reverse_prio_map_def)
  then show ?thesis using assms(4) by (simp add: choose_best_def prio)
qed

definition sample_view :: "string list \<Rightarrow> sched_view" where
  "sample_view running = \<lparr>sv_running = running, sv_complete = [], sv_holdoff = [], sv_covered = [],
     sv_notcovered = dkeys sample_run, sv_build_stamps = [], sv_active = int (length running), sv_live = 0,
     sv_number_tasks = 4, sv_threads = (\<lambda>n. if n = ''do_build'' then Some ''1'' else None), sv_pressure = False\<rparr>"

lemma next_task_best_witness:
  "\<exists>s t s'. init_completion (\<lambda>task fn. fn @ ''.'' @ task) sample_run [''c:do_build'', ''c:do_pack''] = Inr s \<and>
    next_task sample_run (sample_view []) s = Inr (t, s') \<and> t = Some ''c:do_build'' \<and>
    may_run (sample_view []) s ''c:do_build'' \<and>
    (\<exists>s''. next_task sample_run (sample_view [''b:do_build'']) s = Inr (Some ''c:do_pack'', s''))"
proof -
  have names: "with_names (dkeys sample_run)" by code_simp
  let ?i = "init_completion (\<lambda>task fn. fn @ ''.'' @ task) sample_run [''c:do_build'', ''c:do_pack'']"
  have v: "(case ?i of Inl _ \<Rightarrow> None | Inr s \<Rightarrow> Some
      (case next_task sample_run (sample_view []) s of Inr (t, _) \<Rightarrow> t | Inl _ \<Rightarrow> None,
       case next_task sample_run (sample_view [''b:do_build'']) s of Inr (t, _) \<Rightarrow> t | Inl _ \<Rightarrow> None)) =
    Some (Some ''c:do_build'', Some ''c:do_pack'')" by code_simp
  then obtain s where s: "?i = Inr s" by (auto split: sum.splits)
  from v s obtain s1 s2 where n: "next_task sample_run (sample_view []) s = Inr (Some ''c:do_build'', s1)"
    "next_task sample_run (sample_view [''b:do_build'']) s = Inr (Some ''c:do_pack'', s2)"
    by (auto split: sum.splits prod.splits)
  obtain p where p: "completion_order sample_run = Inr p" "sched_inv sample_run (sv_threads (sample_view [])) p s"
    using init_completion_inv [OF s] by blast
  from next_task_best [OF names _ p(2)] p(1) n(1) have "may_run (sample_view []) s ''c:do_build''" by auto
  with s n show ?thesis by blast
qed

lemma basic_scheduler_fails_witness:
  "\<exists>s tid. init_scheduler (\<lambda>task fn. fn) sample_run [''c:do_build'', ''c:do_pack''] = Inr s \<and>
    choose_best sample_run (sample_view []) [] [''c:do_build'', ''c:do_pack''] s = Inl (ValueError tid)"
proof -
  have "(case init_scheduler (\<lambda>task fn. fn) sample_run [''c:do_build'', ''c:do_pack''] of
    Inl _ \<Rightarrow> False | Inr s \<Rightarrow> sc_rev_prio_map s = None)" by code_simp
  then obtain s where s: "init_scheduler (\<lambda>task fn. fn) sample_run [''c:do_build'', ''c:do_pack''] = Inr s"
    "sc_rev_prio_map s = None" by (auto split: sum.splits)
  from basic_scheduler_fails [OF s(1) _ refl s(2)] s(1) show ?thesis by (auto simp: sample_run_def)
qed

end
