(* ===== verification/ExecState.thy ===== *)
theory ExecState
  imports Scheduler
begin

text \<open>
  The state of \<open>RunQueueExecute\<close> in \<open>bb/runqueue.py\<close>, what it is configured with, and what it is told
  by its surroundings in each step: the messages of the workers, which stamps are current, which
  hashes can be restored, what the signature generator answers, and whether the machine is
  overloaded. The stamp cache is left out: it only saves asking about a stamp twice.

  Sets are lists without duplicates, in one iteration order; dictionaries are association lists.
\<close>

datatype rq_phase = Running | CleanUp | Failed | Complete

text \<open>The data of the setscene queue (\<open>SQData\<close>).\<close>

record sqdata =
  sq_deps :: "(string, string list) dict"
  sq_revdeps :: "(string, string list) dict"
  sq_harddeps :: "(string, string list) dict"
  sq_harddeps_rev :: "(string, string list) dict"
  sq_stamps :: "(string, string) dict"
  sq_unskippable :: "string list"
  sq_outrightfail :: "string list"
  sq_covered_tasks :: "(string, string list) dict"
  sq_cantskip :: "string list"
  sq_noexec :: "string list"
  sq_stamppresent :: "string list"
  sq_valid :: "string list"
  sq_hashes :: "(string, string) dict"
  sq_multiconfigs :: "string list"

definition empty_sqdata :: sqdata where
  "empty_sqdata = \<lparr>sq_deps = [], sq_revdeps = [], sq_harddeps = [], sq_harddeps_rev = [], sq_stamps = [],
     sq_unskippable = [], sq_outrightfail = [], sq_covered_tasks = [], sq_cantskip = [], sq_noexec = [],
     sq_stamppresent = [], sq_valid = [], sq_hashes = [], sq_multiconfigs = []\<rparr>"

text \<open>What the outside sees, in order: the messages to the worker processes (the task to run, whether its
  setscene variant, and whether under fakeroot) and the events that are fired.\<close>

datatype rq_event =
    RunTask string bool
  | RunSetscene string bool
  | TaskStarted string bool
  | TaskCompleted string
  | TaskFailed string
  | TaskSkipped string
  | SceneStarted string
  | SceneCompleted string
  | SceneFailed string
  | SceneQueueComplete

text \<open>What comes from a worker: a task ended with a status, its unihash has changed, or the worker
  itself is gone.\<close>

datatype worker_msg = TaskExit string int | UniHashUpdate string string | WorkerGone

record rqe =
  ex_tasks :: run_tasks
  ex_sq_buildable :: "string list"
  ex_sq_running :: "string list"
  ex_sq_live :: "string list"
  ex_updated_taskhash_queue :: "(string \<times> string) list"
  ex_pending_migrations :: "string list"
  ex_buildable :: "string list"
  ex_running :: "string list"
  ex_complete :: "string list"
  ex_tasksrun :: "string list"
  ex_build_stamps :: "(string, string) dict"
  ex_build_stamps2 :: "string list"
  ex_failed_tids :: "string list"
  ex_sq_deferred :: "(string, string) dict"
  ex_needed_harddeps :: "string list"
  ex_harddep_deferred :: "string list"
  ex_holdoff_tasks :: "string list"
  ex_holdoff_need_update :: bool
  ex_sqdone :: bool
  ex_stats :: rq_stats
  ex_covered :: "string list"
  ex_tasks_covered :: "string list"
  ex_scenequeue_done :: "string list"
  ex_notcovered :: "string list"
  ex_tasks_notcovered :: "string list"
  ex_notneeded :: "string list"
  ex_sched :: scheduler
  ex_sq :: sqdata
  ex_cycle :: nat
  ex_phase :: rq_phase
  ex_fakeworker :: "string list"
  ex_events :: "rq_event list"

text \<open>\<open>cf_depvalidate\<close> is the metadata function that may say a setscene task is not needed,
  \<open>cf_allowed\<close> the match of a recipe and task against the list of tasks that may run when setscene is
  enforced (\<open>None\<close>: not enforced).\<close>

record exec_config =
  cf_setscene_tids :: "string list"
  cf_target_tids :: "string list"
  cf_dcs :: dcaches
  cf_tds :: taskdatas
  cf_number_tasks :: int
  cf_threads :: "string \<Rightarrow> string option"
  cf_force :: bool
  cf_skipsetscene :: bool
  cf_setsceneonly :: bool
  cf_allowed :: "(string \<Rightarrow> string \<Rightarrow> bool) option"
  cf_dry_run :: bool
  cf_depvalidate :: "(string \<Rightarrow> (string \<times> string \<times> string \<times> string) list \<Rightarrow> string list \<Rightarrow> bool) option"

text \<open>The workers are read at the start of a step, at its end when nothing can be started, and while
  finishing. \<open>in_iteration\<close> is the order in which a set built during the step is iterated over.\<close>

record exec_inputs =
  in_check_stamp :: "string \<Rightarrow> string \<Rightarrow> bool \<Rightarrow> bool"
  in_validate :: "string list \<Rightarrow> string list"
  in_taskhash :: "string \<Rightarrow> string list \<Rightarrow> string"
  in_unihashes :: "string list \<Rightarrow> (string, string) dict"
  in_stampfile :: "string \<Rightarrow> string \<Rightarrow> string"
  in_iteration :: "string list \<Rightarrow> string list"
  in_pressure :: bool
  in_fakeworker_fails :: bool
  in_messages :: "worker_msg list"
  in_late_messages :: "worker_msg list"
  in_final_messages :: "worker_msg list"

type_synonym exec_step = "rqe \<Rightarrow> rqe res"

definition fire :: "rq_event \<Rightarrow> rqe \<Rightarrow> rqe" where
  "fire e s = s\<lparr>ex_events := ex_events s @ [e]\<rparr>"

definition with_stats :: "(rq_stats \<Rightarrow> rq_stats) \<Rightarrow> rqe \<Rightarrow> rqe" where
  "with_stats f s = s\<lparr>ex_stats := f (ex_stats s)\<rparr>"

definition set_unihash :: "string \<Rightarrow> string \<Rightarrow> run_tasks \<Rightarrow> run_tasks" where
  "set_unihash tid u rts = AList.update tid ((dget rts tid new_task)\<lparr>rte_unihash := Some u\<rparr>) rts"

definition set_hashes :: "string \<Rightarrow> string \<Rightarrow> string \<Rightarrow> run_tasks \<Rightarrow> run_tasks" where
  "set_hashes tid h u rts =
     AList.update tid ((dget rts tid new_task)\<lparr>rte_hash := Some h, rte_unihash := Some u\<rparr>) rts"

text \<open>What the scheduler sees of the state.\<close>

definition view_of :: "exec_config \<Rightarrow> exec_inputs \<Rightarrow> rqe \<Rightarrow> sched_view" where
  "view_of cf i s =
     \<lparr>sv_running = ex_running s, sv_complete = ex_complete s, sv_holdoff = ex_holdoff_tasks s,
      sv_covered = ex_tasks_covered s, sv_notcovered = ex_tasks_notcovered s,
      sv_build_stamps = map snd (ex_build_stamps s), sv_active = st_active (ex_stats s),
      sv_live = int (length (ex_sq_live s)), sv_number_tasks = cf_number_tasks cf,
      sv_threads = cf_threads cf, sv_pressure = in_pressure i\<rparr>"

definition setbuildable :: "string \<Rightarrow> rqe \<Rightarrow> rqe" where
  "setbuildable task s = s\<lparr>ex_buildable := sadd task (ex_buildable s),
                           ex_sched := newbuildable task (ex_sched s)\<rparr>"

definition task_flags :: "exec_config \<Rightarrow> string \<Rightarrow> string \<Rightarrow> taskdeps res" where
  "task_flags cf mc taskfn = rbind (dlookup (cf_dcs cf) mc) (\<lambda>dc. dlookup (task_deps dc) taskfn)"

definition recipe_of :: "exec_config \<Rightarrow> string \<Rightarrow> string \<Rightarrow> string res" where
  "recipe_of cf mc taskfn = rbind (dlookup (cf_dcs cf) mc) (\<lambda>dc. dlookup (pkg_fn dc) taskfn)"

end
