(* ===== verification/SceneQueue.thy ===== *)
theory SceneQueue
  imports ExecState
begin

text \<open>
  The setscene queue of \<open>bb/runqueue.py\<close>: which tasks can be replaced by restoring their result, what
  follows when one of them ends, and the data computed for it at the start.

  A setscene task that fails takes the tasks with a hard dependency on it along, which recurses; the
  fuel is more than the number of tasks, and each level marks another one.
\<close>

section \<open>When a setscene task ends\<close>

definition check_setscene_stamps :: "exec_config \<Rightarrow> exec_inputs \<Rightarrow> string \<Rightarrow> (bool \<times> bool) res" where
  "check_setscene_stamps cf i tid =
     rbind (split_tid_mcfn tid) (\<lambda>(mc, fn, taskname, taskfn).
     rbind (task_flags cf mc taskfn) (\<lambda>flags.
       Inr (if task_flag flags ''noexec'' taskname \<noteq> None then (True, False)
            else if in_check_stamp i tid (taskname @ ''_setscene'') False then (False, True)
            else if in_check_stamp i tid taskname True then (False, True)
            else (False, False))))"

definition settled :: "rqe \<Rightarrow> string list" where
  "settled s = sunion (ex_covered s) (ex_notcovered s)"

text \<open>Setscene tasks all of whose reverse dependencies are settled become buildable.\<close>

definition sq_make_buildable :: "string list \<Rightarrow> string \<Rightarrow> exec_step" where
  "sq_make_buildable allcovered dep s =
     rbind (dlookup (sq_revdeps (ex_sq s)) dep) (\<lambda>revdeps.
       Inr (if set revdeps \<subseteq> set allcovered then s\<lparr>ex_sq_buildable := sadd dep (ex_sq_buildable s)\<rparr> else s))"

text \<open>Tasks that only serve tasks already dealt with are dealt with too.\<close>

definition done_through ::
  "string list \<Rightarrow> run_tasks \<Rightarrow> string \<Rightarrow> string list \<times> string list \<Rightarrow> (string list \<times> string list) res" where
  "done_through setscene rts t st =
     (case st of (scene_done, new) \<Rightarrow>
      let scene_done = sadd t scene_done in
      rbind (dlookup rts t) (\<lambda>e.
      rbind (rfold (\<lambda>dep new.
          if dep \<in> set setscene \<or> dep \<in> set scene_done then Inr new
          else rbind (dlookup rts dep) (\<lambda>d.
            Inr (if set (rte_revdeps d) \<subseteq> set scene_done then sadd dep new else new)))
        (rte_depends e) new) (\<lambda>new. Inr (scene_done, new))))"

primrec mark_done :: "nat \<Rightarrow> string list \<Rightarrow> run_tasks \<Rightarrow> string list \<Rightarrow> string list \<Rightarrow> string list res" where
  "mark_done 0 setscene rts todo scene_done = Inl OutOfFuel"
| "mark_done (Suc n) setscene rts todo scene_done =
     (if todo = [] then Inr scene_done
      else rbind (rfold (done_through setscene rts) (sort todo) (scene_done, [])) (\<lambda>(scene_done, new).
        mark_done n setscene rts new scene_done))"

definition release_harddeps :: "string \<Rightarrow> exec_step" where
  "release_harddeps task s =
     (if \<not> has_key (sq_harddeps (ex_sq s)) task then Inr s
      else rfold (\<lambda>dep s. rbind (dlookup (sq_harddeps_rev (ex_sq s)) dep) (\<lambda>rev.
          Inr (if set rev \<subseteq> set (settled s)
               then s\<lparr>ex_harddep_deferred := removeAll dep (ex_harddep_deferred s)\<rparr> else s)))
        (ex_harddep_deferred s) s)"

definition count_covered :: "rqe \<Rightarrow> rqe" where
  "count_covered s = s\<lparr>ex_stats := updateCovered (int (length (ex_covered s))) (int (length (ex_notcovered s))) (ex_stats s),
                       ex_holdoff_need_update := True\<rparr>"

text \<open>\<open>scenequeue_updatecounters\<close> after its first part, which fails the hard dependencies.\<close>

definition updatecounters_rest :: "exec_config \<Rightarrow> string \<Rightarrow> exec_step" where
  "updatecounters_rest cf task s =
     rbind (dlookup (sq_deps (ex_sq s)) task) (\<lambda>deps.
     rbind (rfold (sq_make_buildable (settled s)) (sort deps) s) (\<lambda>s.
     rbind (mark_done (Suc (Suc (length (ex_tasks s)))) (cf_setscene_tids cf) (ex_tasks s) [task] (ex_scenequeue_done s)) (\<lambda>scene_done.
     rbind (release_harddeps task (s\<lparr>ex_scenequeue_done := scene_done\<rparr>)) (\<lambda>s.
       Inr (count_covered s)))))"

definition fail_harddep ::
  "exec_config \<Rightarrow> exec_inputs \<Rightarrow> (string \<Rightarrow> exec_step) \<Rightarrow> string \<Rightarrow> exec_step" where
  "fail_harddep cf i failoutright dep s =
     (if dep \<in> set (ex_covered s) \<or> dep \<in> set (ex_notcovered s) then Inr s
      else rbind (check_setscene_stamps cf i dep) (\<lambda>(noexec, stamppresent).
        if noexec \<or> stamppresent then Inr s else failoutright dep s))"

definition updatecounters_with ::
  "exec_config \<Rightarrow> exec_inputs \<Rightarrow> (string \<Rightarrow> exec_step) \<Rightarrow> string \<Rightarrow> bool \<Rightarrow> exec_step" where
  "updatecounters_with cf i failoutright task fail s =
     rbind (if fail then rfold (fail_harddep cf i failoutright) (sort (dget (sq_harddeps (ex_sq s)) task [])) s
            else Inr s) (updatecounters_rest cf task)"

definition failing_setscene :: "string \<Rightarrow> rqe \<Rightarrow> rqe" where
  "failing_setscene task s =
     s\<lparr>ex_sq_running := sadd task (ex_sq_running s), ex_sq_buildable := sadd task (ex_sq_buildable s),
       ex_notcovered := sadd task (ex_notcovered s)\<rparr>"

primrec failoutright_n :: "nat \<Rightarrow> exec_config \<Rightarrow> exec_inputs \<Rightarrow> string \<Rightarrow> exec_step" where
  "failoutright_n 0 cf i task s = Inl OutOfFuel"
| "failoutright_n (Suc n) cf i task s =
     updatecounters_with cf i (failoutright_n n cf i) task True (failing_setscene task s)"

definition sq_fuel :: "rqe \<Rightarrow> nat" where
  "sq_fuel s = Suc (length (concat (map snd (sq_harddeps (ex_sq s)))))"

definition sq_task_failoutright :: "exec_config \<Rightarrow> exec_inputs \<Rightarrow> string \<Rightarrow> exec_step" where
  "sq_task_failoutright cf i task s = failoutright_n (Suc (sq_fuel s)) cf i task s"

definition scenequeue_updatecounters :: "exec_config \<Rightarrow> exec_inputs \<Rightarrow> string \<Rightarrow> bool \<Rightarrow> exec_step" where
  "scenequeue_updatecounters cf i task fail s =
     updatecounters_with cf i (failoutright_n (sq_fuel s) cf i) task fail s"

definition sq_task_completeoutright :: "exec_config \<Rightarrow> exec_inputs \<Rightarrow> string \<Rightarrow> exec_step" where
  "sq_task_completeoutright cf i task s =
     scenequeue_updatecounters cf i task False (s\<lparr>ex_covered := sadd task (ex_covered s)\<rparr>)"

definition sq_task_complete :: "exec_config \<Rightarrow> exec_inputs \<Rightarrow> string \<Rightarrow> exec_step" where
  "sq_task_complete cf i task s = sq_task_completeoutright cf i task (fire (SceneCompleted task) s)"

text \<open>\<open>task.split('_setscene')[0]\<close>\<close>

fun before_setscene :: "string \<Rightarrow> string" where
  "before_setscene [] = []"
| "before_setscene (c # cs) = (if prefix ''_setscene'' (c # cs) then [] else c # before_setscene cs)"

definition sq_check_taskfail :: "exec_config \<Rightarrow> string \<Rightarrow> exec_step" where
  "sq_check_taskfail cf task s =
     (case cf_allowed cf of
        None \<Rightarrow> Inr s
      | Some allowed \<Rightarrow>
          rbind (split_tid_mcfn (before_setscene task)) (\<lambda>(mc, fn, taskname, taskfn).
          rbind (recipe_of cf mc taskfn) (\<lambda>pn.
            Inr (if allowed pn taskname then s else s\<lparr>ex_phase := CleanUp\<rparr>))))"

definition sq_task_fail :: "exec_config \<Rightarrow> exec_inputs \<Rightarrow> string \<Rightarrow> exec_step" where
  "sq_task_fail cf i task s =
     rbind (scenequeue_updatecounters cf i task True
              ((fire (SceneFailed task) s)\<lparr>ex_notcovered := sadd task (ex_notcovered s)\<rparr>))
       (sq_check_taskfail cf task)"

definition sq_task_skip :: "exec_config \<Rightarrow> exec_inputs \<Rightarrow> string \<Rightarrow> exec_step" where
  "sq_task_skip cf i task s =
     sq_task_completeoutright cf i task
       (s\<lparr>ex_sq_running := sadd task (ex_sq_running s), ex_sq_buildable := sadd task (ex_sq_buildable s)\<rparr>)"

section \<open>Which setscene tasks can be restored\<close>

definition with_sq :: "(sqdata \<Rightarrow> sqdata) \<Rightarrow> rqe \<Rightarrow> rqe" where
  "with_sq f s = s\<lparr>ex_sq := f (ex_sq s)\<rparr>"

definition forget_setscene :: "string \<Rightarrow> sqdata \<Rightarrow> sqdata" where
  "forget_setscene tid q = q\<lparr>sq_stamppresent := removeAll tid (sq_stamppresent q),
     sq_valid := removeAll tid (sq_valid q), sq_outrightfail := removeAll tid (sq_outrightfail q)\<rparr>"

definition update_one ::
  "exec_config \<Rightarrow> exec_inputs \<Rightarrow> string \<Rightarrow> rqe \<times> string list \<Rightarrow> (rqe \<times> string list) res" where
  "update_one cf i tid st =
     (case st of (s, tocheck) \<Rightarrow>
      let s = with_sq (forget_setscene tid) s in
      rbind (check_setscene_stamps cf i tid) (\<lambda>(noexec, stamppresent).
        if noexec then
          rbind (sq_task_skip cf i tid (with_sq (\<lambda>q. q\<lparr>sq_noexec := sadd tid (sq_noexec q)\<rparr>) s)) (\<lambda>s. Inr (s, tocheck))
        else if stamppresent then
          rbind (sq_task_skip cf i tid (with_sq (\<lambda>q. q\<lparr>sq_stamppresent := sadd tid (sq_stamppresent q)\<rparr>) s)) (\<lambda>s. Inr (s, tocheck))
        else Inr (s, sadd tid tocheck)))"

definition note_outrightfail :: "string \<Rightarrow> rqe \<Rightarrow> rqe" where
  "note_outrightfail tid s =
     (let q = ex_sq s in
      if tid \<in> set (sq_stamppresent q) \<or> tid \<in> set (sq_valid q) \<or> tid \<in> set (sq_noexec q) \<or>
         tid \<in> set (ex_covered s) \<or> tid \<in> set (ex_notcovered s) \<or> has_key (ex_sq_deferred s) tid
      then s else with_sq (\<lambda>q. q\<lparr>sq_outrightfail := sadd tid (sq_outrightfail q)\<rparr>) s)"

definition update_scenequeue_data :: "exec_config \<Rightarrow> exec_inputs \<Rightarrow> string list \<Rightarrow> exec_step" where
  "update_scenequeue_data cf i tids s =
     rbind (rfold (update_one cf i) (sort tids) (s, [])) (\<lambda>(s, tocheck).
       let s = with_sq (\<lambda>q. q\<lparr>sq_valid := sunion (sq_valid q) (in_validate i tocheck)\<rparr>) s
       in Inr (fold note_outrightfail tids s))"

end
