(* ===== verification/SceneBuild.thy ===== *)
theory SceneBuild
  imports SceneQueue
begin

text \<open>
  \<open>build_scenequeue_data\<close> of \<open>bb/runqueue.py\<close>: the task graph reduced to its setscene tasks. From each
  task nothing depends on, and from the dependencies of each setscene task, the dependencies are
  followed up to the next setscene tasks; the tasks passed on the way are covered by the setscene task
  the walk started from.

  A round of the walk goes one step along the dependencies, so on a graph without loops as many
  rounds as there are tasks are enough; a round of the search for unskippable tasks adds one.
\<close>

section \<open>The walk between setscene tasks\<close>

record sq_build =
  sb_revdeps :: "(string, string list) dict"
  sb_squash :: "(string, string list) dict"
  sb_covers :: "(string, string list) dict"

definition dadd :: "string \<Rightarrow> string \<Rightarrow> (string, string list) dict \<Rightarrow> (string, string list) dict res" where
  "dadd k x d = rbind (dlookup d k) (\<lambda>s. Inr (AList.update k (sadd x s) d))"

definition first_endpoints :: "string list \<Rightarrow> run_tasks \<Rightarrow> (string, string list) dict" where
  "first_endpoints setscene rts =
     map (\<lambda>(tid, e). (tid, [])) (filter (\<lambda>(tid, e). rte_revdeps e = [] \<and> tid \<notin> set setscene) rts)"

definition second_endpoint ::
  "string \<Rightarrow> string \<Rightarrow> sq_build \<times> (string, string list) dict \<Rightarrow> (sq_build \<times> (string, string list) dict) res" where
  "second_endpoint tid dep st =
     (case st of (b, endpoints) \<Rightarrow>
      rbind (dlookup (sb_revdeps b) dep) (\<lambda>revdeps.
        Inr (b\<lparr>sb_revdeps := AList.update dep (removeAll tid revdeps) (sb_revdeps b)\<rparr>,
             AList.update dep (sadd tid (dget endpoints dep [])) endpoints)))"

definition second_endpoints ::
  "run_tasks \<Rightarrow> string \<Rightarrow> sq_build \<times> (string, string list) dict \<Rightarrow> (sq_build \<times> (string, string list) dict) res" where
  "second_endpoints rts tid st =
     (case st of (b, endpoints) \<Rightarrow>
      rbind (dlookup rts tid) (\<lambda>e.
        rfold (second_endpoint tid) (rte_depends e)
          (b\<lparr>sb_covers := AList.update tid [] (sb_covers b)\<rparr>, endpoints)))"

text \<open>From a point that is not a setscene task the walk goes on to the dependencies all of whose other
  reverse dependencies are done.\<close>

definition walk_dep ::
  "string list \<Rightarrow> string \<Rightarrow> string list \<Rightarrow> string list \<Rightarrow> string \<Rightarrow> sq_build \<times> (string, string list) dict \<Rightarrow>
    (sq_build \<times> (string, string list) dict) res" where
  "walk_dep setscene point task tasks dep st =
     (case st of (b, newendpoints) \<Rightarrow>
      rbind (dlookup (sb_revdeps b) dep) (\<lambda>revdeps.
        let revdeps = removeAll point revdeps;
            b = b\<lparr>sb_revdeps := AList.update dep revdeps (sb_revdeps b)\<rparr>
        in rbind (dlookup (sb_squash b) dep) (\<lambda>squash.
             Inr (b\<lparr>sb_squash := AList.update dep (sunion squash tasks) (sb_squash b)\<rparr>,
                  if revdeps = [] \<and> dep \<notin> set setscene then AList.update dep task newendpoints
                  else newendpoints))))"

definition walk_point ::
  "string list \<Rightarrow> run_tasks \<Rightarrow> string \<times> string list \<Rightarrow> sq_build \<times> (string, string list) dict \<Rightarrow>
    (sq_build \<times> (string, string list) dict) res" where
  "walk_point setscene rts pt st =
     (case pt of (point, task) \<Rightarrow> case st of (b, newendpoints) \<Rightarrow>
      rbind (dlookup (sb_squash b) point) (\<lambda>squash.
        let tasks = sunion task squash in
        if point \<in> set setscene then
          Inr (b\<lparr>sb_squash := AList.update point tasks (sb_squash b)\<rparr>, newendpoints)
        else
          rbind (rfold (\<lambda>t c. dadd t point c) tasks (sb_covers b)) (\<lambda>covers.
          rbind (dlookup rts point) (\<lambda>e.
            rfold (walk_dep setscene point task tasks) (rte_depends e)
              (b\<lparr>sb_covers := covers, sb_squash := AList.update point [] (sb_squash b)\<rparr>, newendpoints)))))"

primrec process_endpoints ::
  "nat \<Rightarrow> string list \<Rightarrow> run_tasks \<Rightarrow> (string, string list) dict \<Rightarrow> sq_build \<Rightarrow> sq_build res" where
  "process_endpoints 0 setscene rts endpoints b = Inl OutOfFuel"
| "process_endpoints (Suc n) setscene rts endpoints b =
     rbind (rfold (walk_point setscene rts) endpoints (b, [])) (\<lambda>(b, newendpoints).
       if newendpoints \<noteq> [] then process_endpoints n setscene rts newendpoints b else Inr b)"

definition squash_graph :: "string list \<Rightarrow> run_tasks \<Rightarrow> sq_build res" where
  "squash_graph setscene rts =
     rbind (rfold (second_endpoints rts) setscene
              (\<lparr>sb_revdeps = map (\<lambda>(tid, e). (tid, rte_revdeps e)) rts, sb_squash = map (\<lambda>(tid, e). (tid, [])) rts,
                sb_covers = []\<rparr>, first_endpoints setscene rts)) (\<lambda>(b, endpoints).
       process_endpoints (Suc (Suc (length rts))) setscene rts endpoints b)"

section \<open>Tasks that cannot be skipped\<close>

definition unskip_task ::
  "string list \<Rightarrow> string list \<Rightarrow> string \<Rightarrow> string list \<times> bool \<times> rqe \<Rightarrow> (string list \<times> bool \<times> rqe) res" where
  "unskip_task setscene orig tid st =
     (case st of (unskippable, new, s) \<Rightarrow>
      if tid \<in> set setscene then Inr (unskippable, new, s)
      else rbind (dlookup (ex_tasks s) tid) (\<lambda>e.
        let s = (if rte_depends e = [] then setbuildable tid s else s);
            unskippable = sunion unskippable (rte_depends e)
        in Inr (unskippable, new \<or> set unskippable \<noteq> set orig, s)))"

primrec unskip_loop :: "nat \<Rightarrow> string list \<Rightarrow> string list \<Rightarrow> rqe \<Rightarrow> (string list \<times> rqe) res" where
  "unskip_loop 0 setscene unskippable s = Inl OutOfFuel"
| "unskip_loop (Suc n) setscene unskippable s =
     rbind (rfold (unskip_task setscene unskippable) (rev (sort unskippable)) (unskippable, False, s)) (\<lambda>(unskippable, new, s).
       if new then unskip_loop n setscene unskippable s else Inr (unskippable, s))"

definition first_unskippable :: "string list \<Rightarrow> run_tasks \<Rightarrow> string list" where
  "first_unskippable cantskip rts =
     sunion (dkeys (filter (\<lambda>(tid, e). rte_revdeps e = []) rts)) cantskip"

section \<open>Dependencies between setscene tasks\<close>

definition harddep ::
  "exec_config \<Rightarrow> run_tasks \<Rightarrow> string \<Rightarrow> taskdata \<Rightarrow> string \<times> string \<Rightarrow> sqdata \<Rightarrow> sqdata res" where
  "harddep cf rts tid td d q =
     (case d of (depname, idependtask) \<Rightarrow>
      (case map_of (build_targets td) depname of
        None \<Rightarrow> Inr q
      | Some [] \<Rightarrow> Inl IndexError
      | Some (depfn # _) \<Rightarrow>
          let deptid = depfn @ '':'' @ replace_all ''_setscene'' '''' idependtask in
          if \<not> has_key rts deptid
          then Inl (Fatal (''Task '' @ tid @ ''_setscene depends upon non-existent task '' @ depfn @ '':'' @ idependtask))
          else Inr (q\<lparr>sq_harddeps := AList.update deptid (sadd tid (dget (sq_harddeps q) deptid [])) (sq_harddeps q),
                      sq_harddeps_rev := AList.update tid (sadd deptid (dget (sq_harddeps_rev q) tid [])) (sq_harddeps_rev q)\<rparr>)))"

definition harddeps_of :: "exec_config \<Rightarrow> exec_inputs \<Rightarrow> run_tasks \<Rightarrow> string \<Rightarrow> sqdata \<Rightarrow> sqdata res" where
  "harddeps_of cf i rts tid q =
     rbind (split_tid_mcfn tid) (\<lambda>(mc, fn, taskname, taskfn).
     rbind (dlookup (cf_tds cf) mc) (\<lambda>td.
     rbind (dlookup (taskentries td) (tid @ ''_setscene'')) (\<lambda>e.
       rfold (harddep cf rts tid td) (idepends e)
         (q\<lparr>sq_stamps := AList.update tid (in_stampfile i taskname taskfn) (sq_stamps q),
            sq_harddeps_rev := AList.update tid [] (sq_harddeps_rev q)\<rparr>))))"

definition squashed_deps :: "(string, string list) dict \<Rightarrow> (string, string list) dict res" where
  "squashed_deps revdeps =
     rfold (\<lambda>(tid, deps) d. rfold (\<lambda>dep. dadd dep tid) deps d) revdeps (map (\<lambda>(tid, deps). (tid, [])) revdeps)"

definition index_hash ::
  "exec_config \<Rightarrow> run_tasks \<Rightarrow> string \<Rightarrow> (string, string) dict \<times> (string, string) dict \<Rightarrow>
    ((string, string) dict \<times> (string, string) dict) res" where
  "index_hash cf rts tid st =
     (case st of (hashes, deferred) \<Rightarrow>
      rbind (pending_hash_index (cf_dcs cf) rts tid) (\<lambda>h.
        Inr (case map_of hashes h of
               None \<Rightarrow> (AList.update h tid hashes, deferred)
             | Some t \<Rightarrow> (hashes, AList.update tid t deferred))))"

text \<open>The setscene tasks, one configuration after the other.\<close>

definition by_multiconfig :: "string list \<Rightarrow> string list \<Rightarrow> string list" where
  "by_multiconfig mcs tids = concat (map (\<lambda>mc. filter (\<lambda>tid. mc_from_tid tid = mc) (sort tids)) (sort mcs))"

section \<open>The data of the setscene queue\<close>

definition cant_skip :: "exec_config \<Rightarrow> run_tasks \<Rightarrow> string list" where
  "cant_skip cf rts = filter (\<lambda>t. t \<notin> set (cf_setscene_tids cf) \<and> has_key rts t) (remdups (cf_target_tids cf))"

definition check_squashed :: "string list \<Rightarrow> string \<times> string list \<Rightarrow> (string, string list) dict \<Rightarrow> (string, string list) dict res" where
  "check_squashed setscene ts d =
     (case ts of (tid, squash) \<Rightarrow>
      if tid \<in> set setscene then Inr (d @ [(tid, squash)])
      else if squash \<noteq> [] then Inl (Fatal ''Something went badly wrong during scenequeue generation'')
      else Inr d)"

definition build_scenequeue_data :: "exec_config \<Rightarrow> exec_inputs \<Rightarrow> exec_step" where
  "build_scenequeue_data cf i s =
     (let setscene = cf_setscene_tids cf; rts = ex_tasks s; cantskip = cant_skip cf rts in
      rbind (squash_graph setscene rts) (\<lambda>b.
      rbind (unskip_loop (Suc (Suc (length rts))) setscene (first_unskippable cantskip rts) s) (\<lambda>(unskippable, s).
      let s = s\<lparr>ex_scenequeue_done := sunion (ex_scenequeue_done s) (filter (\<lambda>t. t \<notin> set setscene) unskippable)\<rparr> in
      rbind (rfold (check_squashed setscene) (sb_squash b) []) (\<lambda>revdeps.
      rbind (rfold (harddeps_of cf i rts) setscene
               ((ex_sq s)\<lparr>sq_cantskip := cantskip, sq_unskippable := unskippable\<rparr>)) (\<lambda>q.
      rbind (squashed_deps revdeps) (\<lambda>deps.
      let mcs = sunion [] (map mc_from_tid (dkeys revdeps)) in
      rbind (rfold (index_hash cf rts) (by_multiconfig mcs (dkeys revdeps)) ([], [])) (\<lambda>(hashes, deferred).
        Inr (s\<lparr>ex_sq := q\<lparr>sq_revdeps := revdeps, sq_covered_tasks := sb_covers b, sq_deps := deps,
                   sq_multiconfigs := mcs, sq_noexec := [], sq_stamppresent := [], sq_valid := [],
                   sq_hashes := hashes\<rparr>,
               ex_sq_buildable := sunion (ex_sq_buildable s)
                  (dkeys (filter (\<lambda>(tid, deps). deps = []) revdeps)),
               ex_sq_deferred := deferred\<rparr>))))))))"

end
