(* ===== verification/ExecTasks.thy ===== *)
theory ExecTasks
  imports SceneBuild
begin

text \<open>
  What \<open>RunQueueExecute\<close> of \<open>bb/runqueue.py\<close> does when a task completes, fails or is skipped, what it does
  with the messages of the workers, and how it finishes.
\<close>

section \<open>Completion, failure, skipping\<close>

definition all_complete :: "rqe \<Rightarrow> string list \<Rightarrow> bool" where
  "all_complete s tids \<longleftrightarrow> set tids \<subseteq> set (ex_complete s)"

definition release_revdep :: "string \<Rightarrow> exec_step" where
  "release_revdep revdep s =
     (if revdep \<in> set (ex_running s) \<or> revdep \<in> set (ex_buildable s) then Inr s
      else rbind (dlookup (ex_tasks s) revdep) (\<lambda>e.
        Inr (if all_complete s (rte_depends e) then setbuildable revdep s else s)))"

text \<open>The first setscene task that waited for the task is released, the others now wait for that one.\<close>

definition release_deferred ::
  "exec_config \<Rightarrow> exec_inputs \<Rightarrow> string \<Rightarrow> string \<Rightarrow> rqe \<times> string option \<Rightarrow> (rqe \<times> string option) res" where
  "release_deferred cf i task t st =
     (case st of (s, found) \<Rightarrow>
      rbind (dlookup (ex_sq_deferred s) t) (\<lambda>blocker.
        if blocker \<noteq> task then Inr (s, found)
        else case found of
          None \<Rightarrow>
            rbind (update_scenequeue_data cf i [t] (s\<lparr>ex_sq_deferred := AList.delete t (ex_sq_deferred s)\<rparr>)) (\<lambda>s.
              Inr (s, Some t))
        | Some f \<Rightarrow> Inr (s\<lparr>ex_sq_deferred := AList.update t f (ex_sq_deferred s)\<rparr>, found)))"

definition task_completeoutright :: "exec_config \<Rightarrow> exec_inputs \<Rightarrow> string \<Rightarrow> exec_step" where
  "task_completeoutright cf i task s =
     (let s = s\<lparr>ex_complete := sadd task (ex_complete s)\<rparr> in
      rbind (dlookup (ex_tasks s) task) (\<lambda>e.
      rbind (rfold release_revdep (rte_revdeps e) s) (\<lambda>s.
      rbind (rfold (release_deferred cf i task) (sort (dkeys (ex_sq_deferred s))) (s, None)) (\<lambda>(s, found).
        Inr s))))"


definition task_complete :: "exec_config \<Rightarrow> exec_inputs \<Rightarrow> string \<Rightarrow> exec_step" where
  "task_complete cf i task s =
     rbind (task_completeoutright cf i task (fire (TaskCompleted task) (with_stats taskCompleted s))) (\<lambda>s.
       Inr (s\<lparr>ex_tasksrun := sadd task (ex_tasksrun s)\<rparr>))"

definition task_fail :: "exec_config \<Rightarrow> string \<Rightarrow> exec_step" where
  "task_fail cf task s =
     (let s = fire (TaskFailed task) ((with_stats taskFailed s)\<lparr>ex_failed_tids := ex_failed_tids s @ [task]\<rparr>) in
      rbind (dlookup (cf_tds cf) []) (\<lambda>td. Inr (if halt td then s\<lparr>ex_phase := CleanUp\<rparr> else s)))"

definition task_skip :: "exec_config \<Rightarrow> exec_inputs \<Rightarrow> string \<Rightarrow> exec_step" where
  "task_skip cf i task s =
     rbind (task_completeoutright cf i task
              (fire (TaskSkipped task) (setbuildable task (s\<lparr>ex_running := sadd task (ex_running s)\<rparr>)))) (\<lambda>s.
       Inr (with_stats (taskCompleted \<circ> taskSkipped) s))"

section \<open>Messages of the workers\<close>

definition forget_stamp :: "string \<Rightarrow> exec_step" where
  "forget_stamp task s =
     (case map_of (ex_build_stamps s) task of
        None \<Rightarrow> Inr s
      | Some f \<Rightarrow>
          if f \<in> set (ex_build_stamps2 s)
          then Inr (s\<lparr>ex_build_stamps2 := remove1 f (ex_build_stamps2 s),
                      ex_build_stamps := AList.delete task (ex_build_stamps s)\<rparr>)
          else Inl (ValueError f))"

definition process_waitpid :: "exec_config \<Rightarrow> exec_inputs \<Rightarrow> string \<Rightarrow> int \<Rightarrow> exec_step" where
  "process_waitpid cf i task status s =
     rbind (forget_stamp task s) (\<lambda>s.
       if task \<in> set (ex_sq_live s) then
         rbind (if status \<noteq> 0 then sq_task_fail cf i task s else sq_task_complete cf i task s) (\<lambda>s.
           let live = removeAll task (ex_sq_live s) in
           Inr (with_stats (updateActiveSetscene (int (length live))) (s\<lparr>ex_sq_live := live\<rparr>)))
       else if status \<noteq> 0 then task_fail cf task s
       else task_complete cf i task s)"

definition finish_now :: "rqe \<Rightarrow> rqe" where
  "finish_now s = s\<lparr>ex_phase := (if ex_failed_tids s \<noteq> [] then Failed else Complete)\<rparr>"

definition read_message :: "exec_config \<Rightarrow> exec_inputs \<Rightarrow> worker_msg \<Rightarrow> exec_step" where
  "read_message cf i m s =
     (case m of
        TaskExit task status \<Rightarrow>
          rbind (split_tid_mcfn task) (\<lambda>_. process_waitpid cf i task status s)
      | UniHashUpdate task unihash \<Rightarrow>
          Inr (s\<lparr>ex_updated_taskhash_queue := ex_updated_taskhash_queue s @ [(task, unihash)]\<rparr>)
      | WorkerGone \<Rightarrow> Inr (finish_now s))"

definition read_workers :: "exec_config \<Rightarrow> exec_inputs \<Rightarrow> worker_msg list \<Rightarrow> exec_step" where
  "read_workers cf i msgs s = rfold (read_message cf i) msgs s"

section \<open>Finishing\<close>

text \<open>A method of the run queue tells its caller to call again at once, or to wait for the workers.\<close>

datatype call_again = Again | Wait

definition finish :: "exec_config \<Rightarrow> exec_inputs \<Rightarrow> rqe \<Rightarrow> (rqe \<times> call_again) res" where
  "finish cf i s =
     (let s = s\<lparr>ex_phase := CleanUp\<rparr> in
      if st_active (ex_stats s) + int (length (ex_sq_live s)) > 0
      then rbind (read_workers cf i (in_final_messages i) s) (\<lambda>s. Inr (s, Wait))
      else if ex_failed_tids s \<noteq> [] then Inr (s\<lparr>ex_phase := Failed\<rparr>, Again)
      else Inr (s\<lparr>ex_phase := Complete\<rparr>, Again))"

section \<open>The check that everything was dealt with\<close>

definition scenequeue_errors :: "exec_config \<Rightarrow> rqe \<Rightarrow> bool" where
  "scenequeue_errors cf s \<longleftrightarrow>
     ex_sq_deferred s \<noteq> [] \<or> ex_updated_taskhash_queue s \<noteq> [] \<or> ex_holdoff_tasks s \<noteq> [] \<or>
     list_ex (\<lambda>tid. (tid \<notin> set (ex_covered s) \<and> tid \<notin> set (ex_notcovered s)) \<or>
                    tid \<notin> set (ex_sq_buildable s) \<or> tid \<notin> set (ex_sq_running s)) (cf_setscene_tids cf) \<or>
     list_ex (\<lambda>(x, e). (x \<notin> set (ex_tasks_covered s) \<and> x \<notin> set (ex_tasks_notcovered s)) \<or>
                    x \<notin> set (ex_scenequeue_done s) \<or> (rte_depends e = [] \<and> x \<notin> set (ex_buildable s)))
       (ex_tasks s)"

definition summarised :: "rqe \<Rightarrow> rqe" where
  "summarised s = (if ex_sqdone s then s else fire SceneQueueComplete s)"

definition unfinished_tasks :: "rqe \<Rightarrow> string list" where
  "unfinished_tasks s =
     filter (\<lambda>t. t \<notin> set (ex_buildable s) \<or> t \<notin> set (ex_running s) \<or> t \<notin> set (ex_complete s)) (dkeys (ex_tasks s))"

end
