(* ===== verification/Migrations.thy ===== *)
theory Migrations
  imports ExecTasks
begin

text \<open>
  \<open>RunQueueExecute.process_possible_migrations\<close> of \<open>bb/runqueue.py\<close>: a task ended with another unihash
  than expected, so the hashes of everything that depends on it are computed again, and the setscene
  tasks whose hash changed get another chance.

  Both loops over the tasks take one task or more off in each round, so as many rounds as there are
  tasks are enough.
\<close>

section \<open>Which tasks are affected\<close>

definition rehash :: "string \<Rightarrow> string \<Rightarrow> rqe \<times> string list \<Rightarrow> (rqe \<times> string list) res" where
  "rehash unihash hashtid st =
     (case st of (s, toprocess) \<Rightarrow>
      rbind (dlookup (ex_tasks s) hashtid) (\<lambda>_.
        Inr (s\<lparr>ex_tasks := set_unihash hashtid unihash (ex_tasks s)\<rparr>, sadd hashtid toprocess)))"

definition take_update :: "string \<times> string \<Rightarrow> rqe \<times> string list \<Rightarrow> (rqe \<times> string list) res" where
  "take_update m st =
     (case m of (tid, unihash) \<Rightarrow> case st of (s, toprocess) \<Rightarrow>
      if tid \<in> set (ex_running s) \<and> tid \<notin> set (ex_complete s) then Inr (s, toprocess)
      else
        let s = s\<lparr>ex_updated_taskhash_queue := remove1 m (ex_updated_taskhash_queue s)\<rparr> in
        rbind (dlookup (ex_tasks s) tid) (\<lambda>e.
          if rte_unihash e = Some unihash then Inr (s, toprocess)
          else rfold (rehash unihash)
                 (tid # dkeys (filter (\<lambda>(deftid, blocker). blocker = tid) (ex_sq_deferred s))) (s, toprocess)))"

definition add_revdeps :: "run_tasks \<Rightarrow> string \<Rightarrow> string list \<Rightarrow> string list res" where
  "add_revdeps rts p xs = rbind (dlookup rts p) (\<lambda>e. Inr (sunion xs (rte_revdeps e)))"

primrec dependents :: "nat \<Rightarrow> run_tasks \<Rightarrow> string list \<Rightarrow> string list \<Rightarrow> string list res" where
  "dependents 0 rts todo all = Inl OutOfFuel"
| "dependents (Suc n) rts todo all =
     (if todo = [] then Inr all
      else let all = sunion all todo in
        rbind (rfold (add_revdeps rts) todo []) (\<lambda>todo.
          dependents n rts (filter (\<lambda>t. t \<notin> set all) todo) all))"

section \<open>New hashes\<close>

record rehashing =
  rh_exe :: rqe
  rh_total :: "string list"
  rh_changed :: "string list"

text \<open>The code tests the dependencies of the task \<open>p\<close> left over from an earlier loop, where it must
  mean \<open>tid\<close>.\<close>

definition ready_to_rehash :: "run_tasks \<Rightarrow> string \<Rightarrow> string list \<Rightarrow> string \<Rightarrow> bool res" where
  "ready_to_rehash rts p remaining tid =
     rbind (dlookup rts p) (\<lambda>ep.
       if rte_depends ep = [] then Inr True
       else rbind (dlookup rts tid) (\<lambda>e. Inr (set (rte_depends e) \<inter> set remaining = {})))"

definition add_ready ::
  "exec_inputs \<Rightarrow> run_tasks \<Rightarrow> string \<Rightarrow> string list \<Rightarrow> string \<Rightarrow> (string, string) dict \<Rightarrow> (string, string) dict res" where
  "add_ready i rts p remaining tid ready =
     rbind (ready_to_rehash rts p remaining tid) (\<lambda>b.
       if \<not> b then Inr ready
       else rbind (dlookup rts tid) (\<lambda>e. Inr (AList.update tid (in_taskhash i tid (rte_depends e)) ready)))"

definition rehash_task ::
  "(string, string) dict \<Rightarrow> string \<times> string \<Rightarrow> rehashing \<times> string list \<Rightarrow> (rehashing \<times> string list) res" where
  "rehash_task unihashes th st =
     (case th of (tid, newhash) \<Rightarrow> case st of (r, todo) \<Rightarrow>
      let s = rh_exe r in
      rbind (dlookup (ex_tasks s) tid) (\<lambda>e.
      rbind (dlookup unihashes tid) (\<lambda>newuni.
        let r = (if rte_unihash e = Some newuni \<or> tid \<in> set (ex_covered s) \<or> tid \<in> set (ex_sq_live s) then r
                 else r\<lparr>rh_exe := s\<lparr>ex_tasks := set_hashes tid newhash newuni (ex_tasks s)\<rparr>,
                        rh_changed := sadd tid (rh_changed r)\<rparr>);
            remaining = removeAll tid (rh_total r)
        in Inr (r\<lparr>rh_total := remaining\<rparr>, filter (\<lambda>t. t \<in> set remaining) (sunion todo (rte_revdeps e))))))"

primrec rehash_loop :: "nat \<Rightarrow> exec_inputs \<Rightarrow> string \<Rightarrow> string list \<Rightarrow> rehashing \<Rightarrow> rehashing res" where
  "rehash_loop 0 i p todo r = Inl OutOfFuel"
| "rehash_loop (Suc n) i p todo r =
     (if todo = [] then Inr r
      else
        rbind (rfold (add_ready i (ex_tasks (rh_exe r)) p (rh_total r)) todo []) (\<lambda>ready.
        rbind (rfold (rehash_task (in_unihashes i (dkeys ready))) ready (r, [])) (\<lambda>(r, todo).
          rehash_loop n i p todo r)))"

definition rehash_start :: "run_tasks \<Rightarrow> string list \<Rightarrow> string list" where
  "rehash_start rts remaining = filter (\<lambda>p. set (depends_of rts p) \<inter> set remaining = {}) remaining"

definition update_hashes :: "exec_inputs \<Rightarrow> rqe \<Rightarrow> (rqe \<times> string list) res" where
  "update_hashes i s =
     rbind (rfold take_update (ex_updated_taskhash_queue s) (s, [])) (\<lambda>(s, toprocess).
     rbind (rfold (add_revdeps (ex_tasks s)) toprocess []) (\<lambda>todo.
     rbind (dependents (Suc (Suc (length (ex_tasks s)))) (ex_tasks s) todo []) (\<lambda>remaining.
       let remaining = in_iteration i remaining in
       rbind (rehash_loop (Suc (Suc (length remaining))) i (if remaining = [] then [] else last remaining)
                (rehash_start (ex_tasks s) remaining) \<lparr>rh_exe = s, rh_total = remaining, rh_changed = []\<rparr>) (\<lambda>r.
         Inr (rh_exe r, rh_changed r)))))"

section \<open>Setscene tasks that are tried again\<close>

definition without :: "string \<Rightarrow> rqe \<Rightarrow> rqe" where
  "without tid s = s\<lparr>
     ex_sq_buildable := removeAll tid (ex_sq_buildable s),
     ex_sq_running := removeAll tid (ex_sq_running s),
     ex_sq := (ex_sq s)\<lparr>sq_outrightfail := removeAll tid (sq_outrightfail (ex_sq s))\<rparr>,
     ex_notcovered := removeAll tid (ex_notcovered s),
     ex_covered := removeAll tid (ex_covered s),
     ex_notneeded := removeAll tid (ex_notneeded s),
     ex_build_stamps := AList.delete tid (ex_build_stamps s)\<rparr>"

datatype migration = Going "string list" | Halted

text \<open>The tasks a setscene task covers lose their mark, up to one that is complete without having run.\<close>

fun unmark_covered :: "string list \<Rightarrow> rqe \<Rightarrow> bool \<times> rqe" where
  "unmark_covered [] s = (True, s)"
| "unmark_covered (dep # rest) s =
     (if dep \<in> set (ex_complete s) \<and> dep \<notin> set (ex_tasksrun s) then (False, s)
      else if dep \<notin> set (ex_complete s) \<and> dep \<in> set (ex_scenequeue_done s) \<and> dep \<notin> set (sq_unskippable (ex_sq s))
      then unmark_covered rest (s\<lparr>ex_scenequeue_done := removeAll dep (ex_scenequeue_done s)\<rparr>)
      else unmark_covered rest s)"

definition migrate :: "exec_inputs \<Rightarrow> string \<Rightarrow> rqe \<times> bool \<times> migration \<Rightarrow> (rqe \<times> bool \<times> migration) res" where
  "migrate i tid st =
     (case st of
        (s, changed, Halted) \<Rightarrow> Inr (s, changed, Halted)
      | (s, changed, Going update_tasks) \<Rightarrow>
          let gone = s\<lparr>ex_pending_migrations := removeAll tid (ex_pending_migrations s)\<rparr> in
          if tid \<in> set (ex_running s) \<or> tid \<in> set (ex_sq_live s) then Inr (gone, changed, Going update_tasks)
          else
            rbind (dlookup (sq_covered_tasks (ex_sq s)) tid) (\<lambda>covers.
              if list_ex (\<lambda>dep. dep \<in> set (ex_running s) \<and> dep \<notin> set (ex_complete s)) covers
              then Inr (s, changed, Going update_tasks)
              else
                case unmark_covered covers (gone\<lparr>ex_scenequeue_done := removeAll tid (ex_scenequeue_done s)\<rparr>) of
                  (False, s) \<Rightarrow>
                    Inr (s\<lparr>ex_failed_tids := ex_failed_tids s @ [tid], ex_phase := CleanUp\<rparr>, True, Halted)
                | (True, s) \<Rightarrow>
                    let s = without tid s in
                    rbind (split_tid_mcfn tid) (\<lambda>(mc, fn, taskname, taskfn).
                      Inr (with_sq (\<lambda>q. q\<lparr>sq_stamps := AList.update tid (in_stampfile i taskname taskfn) (sq_stamps q)\<rparr>) s,
                           True, Going (update_tasks @ [tid])))))"

definition requeue ::
  "string \<Rightarrow> rqe \<times> (string \<times> bool) list \<Rightarrow> (rqe \<times> (string \<times> bool) list) res" where
  "requeue tid st =
     (case st of (s, update_tasks2) \<Rightarrow>
      rbind (dlookup (sq_harddeps_rev (ex_sq s)) tid) (\<lambda>harddeps.
      rbind (dlookup (sq_revdeps (ex_sq s)) tid) (\<lambda>revdeps.
        let harddepfail = list_ex (\<lambda>t. t \<in> set (ex_notcovered s)) harddeps;
            s = (if (\<not> harddepfail \<and> set revdeps \<subseteq> set (settled s)) \<or> revdeps = []
                 then s\<lparr>ex_sq_buildable := sadd tid (ex_sq_buildable s)\<rparr> else s)
        in Inr (s, update_tasks2 @ [(tid, harddepfail)]))))"

definition defer_same_hash :: "exec_config \<Rightarrow> string \<Rightarrow> exec_step" where
  "defer_same_hash cf tid s =
     rbind (pending_hash_index (cf_dcs cf) (ex_tasks s) tid) (\<lambda>h.
       Inr (case map_of (sq_hashes (ex_sq s)) h of
              None \<Rightarrow> s
            | Some t \<Rightarrow> if t = tid then s else s\<lparr>ex_sq_deferred := AList.update tid t (ex_sq_deferred s)\<rparr>))"

definition fail_requeued :: "exec_config \<Rightarrow> exec_inputs \<Rightarrow> string \<times> bool \<Rightarrow> exec_step" where
  "fail_requeued cf i t s = (case t of (tid, harddepfail) \<Rightarrow> if harddepfail then sq_task_failoutright cf i tid s else Inr s)"

definition retry_tasks :: "exec_config \<Rightarrow> exec_inputs \<Rightarrow> string list \<Rightarrow> exec_step" where
  "retry_tasks cf i update_tasks s =
     rbind (rfold requeue update_tasks (s, [])) (\<lambda>(s, update_tasks2).
     rbind (if update_tasks2 = [] then Inr s
            else rbind (rfold (defer_same_hash cf) (by_multiconfig (sq_multiconfigs (ex_sq s)) (map fst update_tasks2))
                          (s\<lparr>ex_sqdone := False\<rparr>))
                   (update_scenequeue_data cf i (map fst update_tasks2))) (\<lambda>s.
       rfold (fail_requeued cf i) update_tasks2 s))"

definition reset_migrated :: "rqe \<Rightarrow> rqe" where
  "reset_migrated s =
     (count_covered s)\<lparr>ex_needed_harddeps := [], ex_harddep_deferred := []\<rparr>"

definition process_possible_migrations :: "exec_config \<Rightarrow> exec_inputs \<Rightarrow> exec_step" where
  "process_possible_migrations cf i s =
     rbind (update_hashes i s) (\<lambda>(s, changed).
     let s = s\<lparr>ex_pending_migrations :=
                 sunion (ex_pending_migrations s) (filter (\<lambda>t. t \<in> set (cf_setscene_tids cf)) changed)\<rparr> in
     rbind (rfold (migrate i) (ex_pending_migrations s) (s, changed \<noteq> [], Going [])) (\<lambda>(s, changed, m).
       case m of
         Halted \<Rightarrow> Inr s
       | Going update_tasks \<Rightarrow>
           rbind (retry_tasks cf i update_tasks s) (\<lambda>s.
             Inr (if changed then reset_migrated s else s))))"

end
