(* ===== verification/Execute.thy ===== *)
theory Execute
  imports Migrations
begin

text \<open>
  One call of \<open>RunQueueExecute.execute\<close> of \<open>bb/runqueue.py\<close>: read the workers, start a setscene task or
  settle one without running it, bring the held-off tasks up to date, then start or settle a task.

  An invocation ends with \<open>Again\<close> or \<open>Wait\<close>; between its parts \<open>None\<close> means that it goes on.
\<close>

type_synonym exec_part = "rqe \<Rightarrow> (rqe \<times> call_again option) res"

definition and_then :: "(rqe \<times> call_again option) res \<Rightarrow> exec_part \<Rightarrow> (rqe \<times> call_again option) res" where
  "and_then m f = rbind m (\<lambda>(s, r). if r = None then f s else Inr (s, r))"

definition leave :: "rqe res \<Rightarrow> (rqe \<times> call_again option) res" where
  "leave m = rbind m (\<lambda>s. Inr (s, Some Again))"

section \<open>The choice of a setscene task\<close>

datatype pick = NotThis | Leave | Start string

definition dep_info :: "exec_config \<Rightarrow> string \<Rightarrow> (string \<times> string \<times> string \<times> string) res" where
  "dep_info cf dep =
     rbind (split_tid_mcfn dep) (\<lambda>(mc, fn, taskname, taskfn).
     rbind (recipe_of cf mc taskfn) (\<lambda>pn. Inr (dep, pn, taskname, fn)))"

definition check_dependencies :: "exec_config \<Rightarrow> rqe \<Rightarrow> string \<Rightarrow> string list \<Rightarrow> bool res" where
  "check_dependencies cf s task taskdeps =
     (case cf_depvalidate cf of
        None \<Rightarrow> Inr False
      | Some f \<Rightarrow> rbind (rmap (dep_info cf) (sadd task taskdeps)) (\<lambda>taskdata. Inr (f task taskdata (ex_notneeded s))))"

definition not_needed :: "exec_config \<Rightarrow> rqe \<Rightarrow> string \<Rightarrow> bool res" where
  "not_needed cf s t =
     (if t \<in> set (sq_unskippable (ex_sq s)) then Inr False
      else rbind (dlookup (sq_revdeps (ex_sq s)) t) (\<lambda>revdeps.
        if revdeps \<noteq> [] \<and> t \<notin> set (ex_needed_harddeps s) \<and> set revdeps \<subseteq> set (ex_covered s)
        then check_dependencies cf s t revdeps else Inr False))"

definition require_harddep :: "string \<Rightarrow> rqe \<times> bool \<Rightarrow> rqe \<times> bool" where
  "require_harddep dep st =
     (case st of (s, updated) \<Rightarrow>
      if dep \<in> set (ex_needed_harddeps s) then (s, updated)
      else (s\<lparr>ex_sq_buildable := sadd dep (ex_sq_buildable s),
              ex_needed_harddeps := sadd dep (ex_needed_harddeps s)\<rparr>, True))"

definition wait_for_harddeps :: "string \<Rightarrow> string list \<Rightarrow> rqe \<Rightarrow> rqe \<times> pick" where
  "wait_for_harddeps t harddeps s =
     (case fold require_harddep harddeps (s, False) of (s, updated) \<Rightarrow>
        (s\<lparr>ex_harddep_deferred := sadd t (ex_harddep_deferred s)\<rparr>, if updated then Leave else NotThis))"

definition settle_setscene :: "exec_config \<Rightarrow> exec_inputs \<Rightarrow> string \<Rightarrow> rqe \<Rightarrow> (rqe \<times> pick) res" where
  "settle_setscene cf i t s =
     rbind (dlookup (sq_covered_tasks (ex_sq s)) t) (\<lambda>_.
       let waited = has_key (ex_sq_deferred s) t;
           s = s\<lparr>ex_sq_deferred := AList.delete t (ex_sq_deferred s)\<rparr>
       in if (waited \<and> in_validate i [t] = []) \<or> t \<in> set (sq_outrightfail (ex_sq s))
          then rbind (sq_task_failoutright cf i t s) (\<lambda>s. Inr (s, Leave))
          else Inr (s, Start t))"

definition skip_unneeded :: "exec_config \<Rightarrow> exec_inputs \<Rightarrow> string \<Rightarrow> exec_step" where
  "skip_unneeded cf i t s =
     rbind (sq_task_skip cf i t s) (\<lambda>s.
       Inr (s\<lparr>ex_notneeded := sadd t (ex_notneeded s), ex_sq_deferred := AList.delete t (ex_sq_deferred s)\<rparr>))"

definition try_setscene :: "exec_config \<Rightarrow> exec_inputs \<Rightarrow> string \<Rightarrow> rqe \<Rightarrow> (rqe \<times> pick) res" where
  "try_setscene cf i t s =
     (if t \<notin> set (ex_sq_buildable s) \<or> t \<in> set (ex_sq_running s) then Inr (s, NotThis)
      else rbind (dlookup (sq_stamps (ex_sq s)) t) (\<lambda>f.
        if f \<in> snd ` set (ex_build_stamps s) \<or> t \<in> set (ex_harddep_deferred s) then Inr (s, NotThis)
        else if (case map_of (ex_sq_deferred s) t of None \<Rightarrow> False | Some b \<Rightarrow> b \<notin> set (ex_complete s))
        then Inr (s, NotThis)
        else rbind (not_needed cf s t) (\<lambda>unneeded.
          if unneeded \<and> t \<notin> set (cf_target_tids cf)
          then rbind (skip_unneeded cf i t s) (\<lambda>s. Inr (s, Leave))
          else case map_of (sq_harddeps_rev (ex_sq s)) t of
                 Some harddeps \<Rightarrow>
                   if set harddeps \<subseteq> set (settled s) then settle_setscene cf i t s
                   else Inr (wait_for_harddeps t harddeps s)
               | None \<Rightarrow> settle_setscene cf i t s)))"

text \<open>The search goes round the setscene tasks from where the last one stopped.\<close>

primrec pick_setscene :: "nat \<Rightarrow> exec_config \<Rightarrow> exec_inputs \<Rightarrow> rqe \<Rightarrow> (rqe \<times> pick) res" where
  "pick_setscene 0 cf i s = Inr (s, NotThis)"
| "pick_setscene (Suc n) cf i s =
     (let tids = cf_setscene_tids cf;
          t = tids ! (ex_cycle s mod length tids)
      in rbind (try_setscene cf i t (s\<lparr>ex_cycle := Suc (ex_cycle s)\<rparr>)) (\<lambda>(s, p).
           if p = NotThis then pick_setscene n cf i s else Inr (s, p)))"

section \<open>Sending a task to a worker\<close>

definition under_fakeroot :: "exec_config \<Rightarrow> taskdeps \<Rightarrow> string \<Rightarrow> bool" where
  "under_fakeroot cf flags taskname \<longleftrightarrow> task_flag flags ''fakeroot'' taskname \<noteq> None \<and> \<not> cf_dry_run cf"

definition note_stamp :: "string \<Rightarrow> string \<Rightarrow> rqe \<Rightarrow> rqe" where
  "note_stamp task f s = s\<lparr>ex_build_stamps := AList.update task f (ex_build_stamps s),
                           ex_build_stamps2 := ex_build_stamps2 s @ [f]\<rparr>"

definition send_setscene :: "exec_inputs \<Rightarrow> string \<Rightarrow> string \<Rightarrow> string \<Rightarrow> string \<Rightarrow> bool \<Rightarrow> rqe \<Rightarrow> rqe" where
  "send_setscene i task mc taskname taskfn fake s =
     (let s = note_stamp task (in_stampfile i taskname taskfn)
                (s\<lparr>ex_fakeworker := (if fake then sadd mc (ex_fakeworker s) else ex_fakeworker s),
                   ex_events := ex_events s @ [RunSetscene task fake],
                   ex_sq_running := sadd task (ex_sq_running s), ex_sq_live := sadd task (ex_sq_live s)\<rparr>)
      in with_stats (updateActiveSetscene (int (length (ex_sq_live s)))) s)"

definition start_setscene :: "exec_config \<Rightarrow> exec_inputs \<Rightarrow> string \<Rightarrow> exec_part" where
  "start_setscene cf i task s =
     rbind (split_tid_mcfn task) (\<lambda>(mc, fn, name, taskfn).
     rbind (taskname_from_tid task) (\<lambda>base.
       let taskname = name @ ''_setscene'' in
       if in_check_stamp i task base True then leave (sq_task_failoutright cf i task s)
       else if cf_force cf \<and> task \<in> set (cf_target_tids cf) then leave (sq_task_failoutright cf i task s)
       else if in_check_stamp i task taskname False then leave (sq_task_skip cf i task s)
       else if cf_skipsetscene cf then leave (sq_task_failoutright cf i task s)
       else
         rbind (task_flags cf mc taskfn) (\<lambda>flags.
           let fake = under_fakeroot cf flags taskname in
           if fake \<and> mc \<notin> set (ex_fakeworker s) \<and> in_fakeworker_fails i then Inl (OSError mc)
           else
             let s = send_setscene i task mc taskname taskfn fake (fire (SceneStarted task) s) in
             Inr (s, if can_start_task (view_of cf i s) then Some Again else None))))"

definition setscene_part :: "exec_config \<Rightarrow> exec_inputs \<Rightarrow> exec_part" where
  "setscene_part cf i s =
     (if ex_sqdone s \<or> \<not> can_start_task (view_of cf i s) then Inr (s, None)
      else rbind (pick_setscene (length (cf_setscene_tids cf)) cf i s) (\<lambda>(s, p).
        case p of NotThis \<Rightarrow> Inr (s, None) | Leave \<Rightarrow> Inr (s, Some Again) | Start t \<Rightarrow> start_setscene cf i t s))"

section \<open>Held-off tasks and the end of the setscene queue\<close>

definition add_covered :: "rqe \<Rightarrow> string \<Rightarrow> string list \<Rightarrow> string list res" where
  "add_covered s tid xs = rbind (dlookup (sq_covered_tasks (ex_sq s)) tid) (\<lambda>covers. Inr (sunion xs covers))"

definition buildable_if_ready :: "string \<Rightarrow> exec_step" where
  "buildable_if_ready tid s =
     rbind (dlookup (ex_tasks s) tid) (\<lambda>e. Inr (if all_complete s (rte_depends e) then setbuildable tid s else s))"

definition hold_off :: "rqe \<Rightarrow> string \<Rightarrow> string list \<Rightarrow> string list res" where
  "hold_off s tid hold =
     rbind (dlookup (sq_covered_tasks (ex_sq s)) tid) (\<lambda>covers.
       Inr (sunion hold (filter (\<lambda>dep. dep \<notin> set (ex_complete s)) covers)))"

definition update_holdofftasks :: "exec_config \<Rightarrow> exec_step" where
  "update_holdofftasks cf s =
     (if \<not> ex_holdoff_need_update s then Inr s
      else
        rbind (rfold (add_covered s) (ex_notcovered s) (sunion (ex_notcovered s) (sq_cantskip (ex_sq s)))) (\<lambda>notcovered.
        let notcovered = filter (\<lambda>t. t \<in> set (ex_scenequeue_done s))
              (sunion notcovered (filter (\<lambda>t. t \<notin> set (cf_setscene_tids cf)) (sq_unskippable (ex_sq s)))) in
        rbind (rfold (add_covered s) (ex_covered s) (ex_covered s)) (\<lambda>covered.
        let covered = filter (\<lambda>t. t \<notin> set notcovered \<and> t \<in> set (ex_scenequeue_done s)) covered in
        rbind (rfold buildable_if_ready (sunion notcovered covered) s) (\<lambda>s.
        let waiting = filter (\<lambda>t. t \<notin> set (ex_covered s) \<and> t \<notin> set (ex_notcovered s)) (cf_setscene_tids cf) in
        rbind (rfold (hold_off s) waiting waiting) (\<lambda>hold.
          Inr (s\<lparr>ex_tasks_covered := covered, ex_tasks_notcovered := notcovered,
                 ex_holdoff_tasks := hold, ex_holdoff_need_update := False\<rparr>))))))"

definition scene_end :: "exec_config \<Rightarrow> exec_part" where
  "scene_end cf s =
     (if ex_sq_live s \<noteq> [] \<or> ex_sqdone s \<or> ex_sq_deferred s \<noteq> [] \<or> ex_updated_taskhash_queue s \<noteq> [] \<or>
         ex_holdoff_tasks s \<noteq> [] then Inr (s, None)
      else if scenequeue_errors cf s then Inr ((summarised s)\<lparr>ex_phase := Failed\<rparr>, Some Again)
      else if cf_setsceneonly cf then Inr ((summarised s)\<lparr>ex_phase := Complete\<rparr>, Some Again)
      else let s = (summarised s)\<lparr>ex_sqdone := True\<rparr>
           in if st_total (ex_stats s) = 0 then Inr (s\<lparr>ex_phase := Complete\<rparr>, Some Again) else Inr (s, None))"

section \<open>Starting a task\<close>

definition check_setscene_ignore_tasks :: "exec_config \<Rightarrow> exec_inputs \<Rightarrow> string \<Rightarrow> rqe \<Rightarrow> bool res" where
  "check_setscene_ignore_tasks cf i tid s =
     rbind (split_tid_mcfn tid) (\<lambda>(mc, fn, taskname, taskfn).
       if tid \<in> set (ex_tasks_covered s) \<or> in_check_stamp i tid taskname False then Inr False
       else rbind (task_flags cf mc taskfn) (\<lambda>flags.
         if task_flag flags ''noexec'' taskname \<noteq> None then Inr False
         else rbind (recipe_of cf mc taskfn) (\<lambda>pn.
           Inr (case cf_allowed cf of None \<Rightarrow> False | Some allowed \<Rightarrow> \<not> allowed pn taskname))))"

definition activate :: "string \<Rightarrow> rqe \<Rightarrow> rqe" where
  "activate task s = with_stats taskActive (s\<lparr>ex_running := sadd task (ex_running s)\<rparr>)"

definition send_task :: "exec_inputs \<Rightarrow> string \<Rightarrow> string \<Rightarrow> string \<Rightarrow> string \<Rightarrow> bool \<Rightarrow> rqe \<Rightarrow> rqe" where
  "send_task i task mc taskname taskfn fake s =
     activate task (note_stamp task (in_stampfile i taskname taskfn)
       (s\<lparr>ex_fakeworker := (if fake then sadd mc (ex_fakeworker s) else ex_fakeworker s),
          ex_events := ex_events s @ [RunTask task fake]\<rparr>))"

definition start_task :: "exec_config \<Rightarrow> exec_inputs \<Rightarrow> string \<Rightarrow> exec_part" where
  "start_task cf i task s =
     rbind (split_tid_mcfn task) (\<lambda>(mc, fn, taskname, taskfn).
     rbind (if cf_allowed cf = None then Inr False else check_setscene_ignore_tasks cf i task s) (\<lambda>rejected.
       if rejected then leave (task_fail cf task s)
       else if task \<in> set (ex_tasks_covered s) then leave (task_skip cf i task s)
       else if in_check_stamp i task taskname False then
         leave (rbind (task_skip cf i task s) (\<lambda>s. Inr (s\<lparr>ex_tasksrun := sadd task (ex_tasksrun s)\<rparr>)))
       else
         rbind (task_flags cf mc taskfn) (\<lambda>flags.
           if task_flag flags ''noexec'' taskname \<noteq> None then leave (task_complete cf i task (activate task (fire (TaskStarted task True) s)))
           else
             let fake = under_fakeroot cf flags taskname \<and> cf_allowed cf = None;
                 s = fire (TaskStarted task False) s in
             if fake \<and> mc \<notin> set (ex_fakeworker s) \<and> in_fakeworker_fails i
             then Inr (with_stats taskFailed (s\<lparr>ex_phase := Failed\<rparr>), Some Again)
             else
               let s = send_task i task mc taskname taskfn fake s in
               Inr (s, if can_start_task (view_of cf i s) then Some Again else None))))"

definition task_part :: "exec_config \<Rightarrow> exec_inputs \<Rightarrow> exec_part" where
  "task_part cf i s =
     (if cf_setsceneonly cf then Inr (s, None)
      else rbind (next_task (ex_tasks s) (view_of cf i s) (ex_sched s)) (\<lambda>(t, sched).
        let s = s\<lparr>ex_sched := sched\<rparr> in
        case t of None \<Rightarrow> Inr (s, None) | Some task \<Rightarrow> start_task cf i task s))"

section \<open>When nothing can be started\<close>

definition wait_part :: "exec_config \<Rightarrow> exec_inputs \<Rightarrow> exec_part" where
  "wait_part cf i s =
     (if st_active (ex_stats s) > 0 \<or> ex_sq_live s \<noteq> []
      then rbind (read_workers cf i (in_late_messages i) s) (\<lambda>s. Inr (s, Some Wait))
      else Inr (s, None))"

definition last_part :: "exec_config \<Rightarrow> exec_part" where
  "last_part cf s =
     (if ex_sq_deferred s \<noteq> [] then Inr (s\<lparr>ex_sq_deferred := tl (ex_sq_deferred s)\<rparr>, Some Again)
      else if ex_failed_tids s \<noteq> [] then Inr (s\<lparr>ex_phase := Failed\<rparr>, Some Again)
      else if scenequeue_errors cf s \<or> unfinished_tasks s \<noteq> [] then Inr ((summarised s)\<lparr>ex_phase := Failed\<rparr>, Some Again)
      else Inr ((summarised s)\<lparr>ex_phase := Complete\<rparr>, Some Again))"

definition execute :: "exec_config \<Rightarrow> exec_inputs \<Rightarrow> exec_part" where
  "execute cf i s =
     rbind (read_workers cf i (in_messages i) s) (\<lambda>s.
     rbind (if ex_updated_taskhash_queue s = [] \<and> ex_pending_migrations s = [] then Inr s
            else process_possible_migrations cf i s) (\<lambda>s.
       and_then (setscene_part cf i s) (\<lambda>s.
       rbind (update_holdofftasks cf s) (\<lambda>s.
       and_then (scene_end cf s) (\<lambda>s.
       and_then (task_part cf i s) (\<lambda>s.
       and_then (wait_part cf i s) (last_part cf)))))))"

end
