(* ===== verification/RunQueue.thy ===== *)
theory RunQueue
  imports Execute
begin

text \<open>
  The run queue of \<open>bb/runqueue.py\<close> from its creation to its end: the constructor of \<open>RunQueueExecute\<close>,
  the start of the execution, and \<open>RunQueue.execute_runqueue\<close>, which the server calls again and again.

  Dumping signatures, starting the worker processes and the limits on pressure and load are outside
  the model; a scheduler from elsewhere cannot be chosen.
\<close>

section \<open>The constructor\<close>

definition choose_scheduler ::
  "string \<Rightarrow> (string \<Rightarrow> string \<Rightarrow> string) \<Rightarrow> run_tasks \<Rightarrow> string list \<Rightarrow> scheduler res" where
  "choose_scheduler name stampfile rts buildable =
     (if name = ''basic'' then init_scheduler stampfile rts buildable
      else if name = ''speed'' then init_speed stampfile rts buildable
      else if name = ''completion'' then init_completion stampfile rts buildable
      else Inl (Fatal (''Invalid scheduler '' @ name)))"

definition empty_exec :: "run_tasks \<Rightarrow> nat \<Rightarrow> scheduler \<Rightarrow> rqe" where
  "empty_exec rts setscene_total sched =
     \<lparr>ex_tasks = rts, ex_sq_buildable = [], ex_sq_running = [], ex_sq_live = [],
      ex_updated_taskhash_queue = [], ex_pending_migrations = [], ex_buildable = [], ex_running = [],
      ex_complete = [], ex_tasksrun = [], ex_build_stamps = [], ex_build_stamps2 = [],
      ex_failed_tids = [], ex_sq_deferred = [], ex_needed_harddeps = [], ex_harddep_deferred = [],
      ex_holdoff_tasks = [], ex_holdoff_need_update = True, ex_sqdone = False,
      ex_stats = init_stats (int (length rts)) (int setscene_total),
      ex_covered = [], ex_tasks_covered = [], ex_scenequeue_done = [], ex_notcovered = [],
      ex_tasks_notcovered = [], ex_notneeded = [], ex_sched = sched, ex_sq = empty_sqdata,
      ex_cycle = 0, ex_phase = Running, ex_fakeworker = [], ex_events = []\<rparr>"

definition new_exec :: "exec_config \<Rightarrow> exec_inputs \<Rightarrow> string \<Rightarrow> run_tasks \<Rightarrow> rqe res" where
  "new_exec cf i scheduler_name rts =
     (if cf_number_tasks cf \<le> 0 then Inl (Fatal ''Invalid BB_NUMBER_THREADS'')
      else
        rbind (choose_scheduler scheduler_name (in_stampfile i) rts []) (\<lambda>sched.
        rbind (build_scenequeue_data cf i (empty_exec rts (length (cf_setscene_tids cf)) sched)) (\<lambda>s.
          update_scenequeue_data cf i (dkeys (sq_revdeps (ex_sq s))) s)))"

text \<open>Without setscene tasks their queue is done before it starts.\<close>

definition no_setscene :: "rqe \<Rightarrow> rqe" where
  "no_setscene s =
     (fold (\<lambda>(tid, e) s.
        let s = (if rte_depends e = [] then setbuildable tid s else s)
        in s\<lparr>ex_tasks_notcovered := sadd tid (ex_tasks_notcovered s)\<rparr>) (ex_tasks s) s)\<lparr>ex_sqdone := True\<rparr>"

definition start_running :: "exec_config \<Rightarrow> rqe \<Rightarrow> rqe" where
  "start_running cf s = (if cf_setscene_tids cf = [] then no_setscene s else s)\<lparr>ex_phase := Running\<rparr>"

section \<open>The phases\<close>

text \<open>What a call returns to the server: call again, wait for the workers, all done, or the failure with the
  tasks that failed.\<close>

datatype outcome = CallAgain call_again | AllDone | TaskFailure "string list"

definition run_phase :: "exec_config \<Rightarrow> exec_inputs \<Rightarrow> rqe \<Rightarrow> (rqe \<times> outcome) res" where
  "run_phase cf i s =
     rbind (if ex_phase s = Running then execute cf i s else Inr (s, None)) (\<lambda>(s, r).
     rbind (if ex_phase s = CleanUp then rbind (finish cf i s) (\<lambda>(s, r). Inr (s, Some r)) else Inr (s, r)) (\<lambda>(s, r).
       Inr (s, case ex_phase s of
                 Failed \<Rightarrow> TaskFailure (ex_failed_tids s)
               | Complete \<Rightarrow> AllDone
               | _ \<Rightarrow> CallAgain (case r of None \<Rightarrow> Again | Some r \<Rightarrow> r))))"

datatype runqueue = Prepare | Executing exec_config rqe | Ended

definition config_for :: "exec_config \<Rightarrow> 's rqdata \<Rightarrow> exec_config" where
  "config_for cf d = cf\<lparr>cf_setscene_tids := rq_setscene_tids d, cf_target_tids := rq_target_tids d,
                        cf_tds := rq_taskdata d\<rparr>"

text \<open>An exception ends the build: the state is complete and the exception goes on to the caller.\<close>

definition execute_runqueue ::
  "('s, 'z) siggen_scheme \<Rightarrow> 's \<Rightarrow> rq_options \<Rightarrow> exec_config \<Rightarrow> string \<Rightarrow> target list \<Rightarrow> exec_inputs \<Rightarrow>
    (runqueue, outcome) meth" where
  "execute_runqueue sg s opts cf scheduler_name targets i rq =
     (case rq of
        Ended \<Rightarrow> (Inr AllDone, Ended)
      | Executing cf exe \<Rightarrow>
          (case run_phase cf i exe of
             Inl e \<Rightarrow> (Inl e, Ended)
           | Inr (exe, r) \<Rightarrow> (Inr r, Executing cf exe))
      | Prepare \<Rightarrow>
          (case prepare sg s opts (cf_dcs cf) (cf_tds cf) targets of
             Inl e \<Rightarrow> (Inl e, Ended)
           | Inr d \<Rightarrow>
               if rq_count d = 0 then (Inr AllDone, Ended)
               else (case d of
                   None \<Rightarrow> (Inr AllDone, Ended)
                 | Some d \<Rightarrow>
                     let cf = config_for cf d in
                     (case rbind (new_exec cf i scheduler_name (rq_tasks d)) (\<lambda>exe. run_phase cf i (start_running cf exe)) of
                        Inl e \<Rightarrow> (Inl e, Ended)
                      | Inr (exe, r) \<Rightarrow> (Inr r, Executing cf exe)))))"

section \<open>Runs\<close>

text \<open>The states between two calls. What comes from outside in a step is arbitrary, up to what \<open>ok\<close> says.\<close>

inductive run_state :: "exec_config \<Rightarrow> string \<Rightarrow> run_tasks \<Rightarrow> (exec_inputs \<Rightarrow> bool) \<Rightarrow> rqe \<Rightarrow> bool" for cf name rts ok where
  started: "new_exec cf i name rts = Inr s \<Longrightarrow> run_state cf name rts ok (start_running cf s)"
| called: "run_state cf name rts ok s \<Longrightarrow> ok i \<Longrightarrow> run_phase cf i s = Inr (t, r) \<Longrightarrow> run_state cf name rts ok t"

end
