(* ===== verification/ExecSample.thy ===== *)
theory ExecSample
  imports RunQueue
begin

text \<open>A recipe with two tasks, the second of which needs the first, and runs of it: the concrete inputs the
  theorems about the run queue are applied to.\<close>

definition sample_compile :: string where
  "sample_compile = ''a:do_c''"

definition sample_build :: string where
  "sample_build = ''a:do_b''"

definition sample_graph :: run_tasks where
  "sample_graph =
     [(sample_compile, \<lparr>rte_depends = [], rte_revdeps = [sample_build], rte_hash = Some ''1'', rte_unihash = Some ''1'', rte_weight = 11\<rparr>),
      (sample_build, \<lparr>rte_depends = [sample_compile], rte_revdeps = [], rte_hash = Some ''2'', rte_unihash = Some ''2'', rte_weight = 10\<rparr>)]"

definition sample_cache :: dcache where
  "sample_cache = init_cacheData\<lparr>task_deps := [(''a'', empty_taskdeps)], pkg_fn := [(''a'', ''a'')]\<rparr>"

definition sample_config :: "string list \<Rightarrow> (string \<Rightarrow> string \<Rightarrow> bool) option \<Rightarrow> exec_config" where
  "sample_config setscene allowed =
     \<lparr>cf_setscene_tids = setscene, cf_target_tids = [sample_build], cf_dcs = [([], sample_cache)],
      cf_tds = [([], (init_taskdata False [] False sample_cache)
                       \<lparr>taskentries := map (\<lambda>t. (t @ ''_setscene'', empty_entry)) setscene\<rparr>)],
      cf_number_tasks = 1, cf_threads = (\<lambda>_. None), cf_force = False, cf_skipsetscene = False,
      cf_setsceneonly = False, cf_allowed = allowed, cf_dry_run = False, cf_depvalidate = None\<rparr>"

definition sample_inputs :: "worker_msg list \<Rightarrow> exec_inputs" where
  "sample_inputs msgs =
     \<lparr>in_check_stamp = (\<lambda>_ _ _. False), in_validate = (\<lambda>tids. tids), in_taskhash = (\<lambda>tid d. ''h''),
      in_unihashes = map (\<lambda>tid. (tid, ''u'')), in_stampfile = (\<lambda>name fn. fn @ '':'' @ name),
      in_iteration = (\<lambda>xs. xs), in_pressure = False, in_fakeworker_fails = False,
      in_messages = msgs, in_late_messages = [], in_final_messages = []\<rparr>"

text \<open>A run, given what the workers report before each call.\<close>

definition sample_start :: "exec_config \<Rightarrow> rqe res" where
  "sample_start cf = rbind (new_exec cf (sample_inputs []) ''speed'' sample_graph) (\<lambda>s. Inr (start_running cf s))"

fun sample_exec :: "exec_config \<Rightarrow> worker_msg list list \<Rightarrow> (rqe \<times> outcome) res" where
  "sample_exec cf [] = rbind (sample_start cf) (\<lambda>s. Inr (s, CallAgain Again))"
| "sample_exec cf (msgs # rest) = rbind (sample_exec cf rest) (\<lambda>(s, _). run_phase cf (sample_inputs msgs) s)"

lemma sample_run_state:
  "sample_exec cf msgs = Inr (s, r) \<Longrightarrow> \<forall>m\<in>set msgs. ok (sample_inputs m) \<Longrightarrow> run_state cf ''speed'' sample_graph ok s"
proof (induction msgs arbitrary: s r)
  case Nil
  then show ?case by (auto simp: sample_start_def rbind_eq_Inr intro: run_state.started)
next
  case (Cons m msgs)
  then obtain u x where u: "sample_exec cf msgs = Inr (u, x)" "run_phase cf (sample_inputs m) u = Inr (s, r)"
    by (auto simp: rbind_eq_Inr)
  then have "run_state cf ''speed'' sample_graph ok u" using Cons by simp
  then show ?case using u(2) Cons.prems(2) by (auto intro: run_state.called)
qed

text \<open>Both tasks are built, without and with a setscene variant of the first.\<close>

definition sample_msgs :: "worker_msg list list" where
  "sample_msgs = [[TaskExit sample_build 0], [TaskExit sample_compile 0], []]"

definition events_of :: "(rqe \<times> outcome) res \<Rightarrow> (rq_event list \<times> rq_phase \<times> string list \<times> outcome) option" where
  "events_of r = (case r of Inl e \<Rightarrow> None | Inr (s, x) \<Rightarrow> Some (ex_events s, ex_phase s, ex_failed_tids s, x))"

lemma events_ofD:
  "events_of r = Some (es, p, fs, x) \<Longrightarrow> \<exists>s. r = Inr (s, x) \<and> ex_events s = es \<and> ex_phase s = p \<and> ex_failed_tids s = fs"
  by (auto simp: events_of_def split: sum.splits prod.splits)

lemma sample_built:
  "events_of (sample_exec (sample_config [] None) sample_msgs) =
     Some ([TaskStarted sample_compile False, RunTask sample_compile False, TaskCompleted sample_compile,
       TaskStarted sample_build False, RunTask sample_build False, TaskCompleted sample_build], Complete, [], AllDone)"
  by code_simp

lemma sample_scene_built:
  "events_of (sample_exec (sample_config [sample_compile] None) [[TaskExit sample_build 0], [], [TaskExit sample_compile 0], []]) =
     Some ([SceneStarted sample_compile, RunSetscene sample_compile False, SceneCompleted sample_compile, SceneQueueComplete,
       TaskSkipped sample_compile, TaskStarted sample_build False, RunTask sample_build False, TaskCompleted sample_build],
      Complete, [], AllDone)"
  by code_simp

text \<open>Setscene is enforced, and the setscene task fails while the run queue waits for it; or there is none, and
  a task is refused.\<close>

definition sample_enforcing :: "string list \<Rightarrow> exec_config" where
  "sample_enforcing setscene = sample_config setscene (Some (\<lambda>_ _. False))"

definition sample_late :: "worker_msg list \<Rightarrow> exec_inputs" where
  "sample_late msgs = (sample_inputs [])\<lparr>in_late_messages := msgs\<rparr>"

lemma sample_enforced:
  "events_of (rbind (sample_start (sample_enforcing [sample_compile]))
      (run_phase (sample_enforcing [sample_compile]) (sample_late [TaskExit sample_compile 1]))) =
     Some ([SceneStarted sample_compile, RunSetscene sample_compile False, SceneFailed sample_compile], Complete, [], AllDone)"
  by code_simp

end
