(* ===== verification/ExecFrames.thy ===== *)
theory ExecFrames
  imports RunQueue
begin

text \<open>
  What the operations of the setscene queue and the migrations leave alone, and the rules by which an
  invariant of the run queue goes through the parts of a step.
\<close>

section \<open>Values a computation returns\<close>

definition returns :: "('a \<Rightarrow> bool) \<Rightarrow> 'a res \<Rightarrow> bool" where
  "returns P r \<longleftrightarrow> (\<forall>x. r = Inr x \<longrightarrow> P x)"

named_theorems returns_rules "structural rules for the values a computation returns"

lemma returns_simps [simp]: "returns P (Inr x) = P x" "returns P (Inl e)"
  by (simp_all add: returns_def)

lemma returnsD: "returns P r \<Longrightarrow> r = Inr x \<Longrightarrow> P x"
  by simp

lemma returns_bind [returns_rules]:
  "returns Q m \<Longrightarrow> (\<And>x. Q x \<Longrightarrow> returns P (f x)) \<Longrightarrow> returns P (rbind m f)"
  by (cases m) auto

lemma returns_bind_any:
  "(\<And>x. m = Inr x \<Longrightarrow> returns P (f x)) \<Longrightarrow> returns P (rbind m f)"
  by (cases m) auto

lemma returns_weaken: "returns Q m \<Longrightarrow> (\<And>x. Q x \<Longrightarrow> P x) \<Longrightarrow> returns P m"
  by (cases m) auto

lemma returns_fold:
  "P s \<Longrightarrow> (\<And>x u. x \<in> set xs \<Longrightarrow> P u \<Longrightarrow> returns P (f x u)) \<Longrightarrow> returns P (rfold f xs s)"
proof (induction xs arbitrary: s)
  case Nil
  then show ?case by simp
next
  case (Cons x xs)
  show ?case using Cons.prems by (auto intro!: returns_bind [where Q = P] Cons.IH)
qed

lemma returns_if [returns_rules]:
  "(b \<Longrightarrow> returns P m) \<Longrightarrow> (\<not> b \<Longrightarrow> returns P n) \<Longrightarrow> returns P (if b then m else n)"
  by simp

section \<open>Operations of the setscene queue\<close>

text \<open>The state without what these operations work on.\<close>

definition sq_core :: "rqe \<Rightarrow> rqe" where
  "sq_core s = s\<lparr>ex_sq_buildable := [], ex_sq_running := [], ex_harddep_deferred := [],
     ex_holdoff_need_update := False, ex_stats := updateCovered 0 0 (ex_stats s), ex_covered := [],
     ex_scenequeue_done := [], ex_notcovered := [], ex_sq := empty_sqdata\<rparr>"

lemma sq_core_update [simp]:
  "sq_core (s\<lparr>ex_sq_buildable := a\<rparr>) = sq_core s" "sq_core (s\<lparr>ex_sq_running := a\<rparr>) = sq_core s"
  "sq_core (s\<lparr>ex_harddep_deferred := a\<rparr>) = sq_core s" "sq_core (s\<lparr>ex_holdoff_need_update := b\<rparr>) = sq_core s"
  "sq_core (s\<lparr>ex_covered := a\<rparr>) = sq_core s" "sq_core (s\<lparr>ex_scenequeue_done := a\<rparr>) = sq_core s"
  "sq_core (s\<lparr>ex_notcovered := a\<rparr>) = sq_core s" "sq_core (s\<lparr>ex_sq := q\<rparr>) = sq_core s"
  "sq_core (with_sq f s) = sq_core s"
  "sq_core (s\<lparr>ex_stats := updateCovered m n (ex_stats s)\<rparr>) = sq_core s"
  by (simp_all add: sq_core_def with_sq_def updateCovered_def)

lemma sq_coreD:
  assumes "sq_core t = sq_core s"
  shows "ex_tasks t = ex_tasks s" "ex_buildable t = ex_buildable s" "ex_running t = ex_running s"
    "ex_complete t = ex_complete s" "ex_tasksrun t = ex_tasksrun s" "ex_failed_tids t = ex_failed_tids s"
    "ex_sched t = ex_sched s" "ex_phase t = ex_phase s" "ex_events t = ex_events s"
    "ex_sq_live t = ex_sq_live s" "ex_tasks_covered t = ex_tasks_covered s"
    "ex_tasks_notcovered t = ex_tasks_notcovered s" "st_active (ex_stats t) = st_active (ex_stats s)"
    "ex_sq_deferred t = ex_sq_deferred s" "ex_sqdone t = ex_sqdone s"
    "ex_build_stamps t = ex_build_stamps s" "st_total (ex_stats t) = st_total (ex_stats s)"
proof -
  have eq: "f (sq_core t) = f (sq_core s)" for f :: "rqe \<Rightarrow> 'x" using assms by simp
  show "ex_tasks t = ex_tasks s" using eq [of ex_tasks] by (simp add: sq_core_def)
  show "ex_buildable t = ex_buildable s" using eq [of ex_buildable] by (simp add: sq_core_def)
  show "ex_running t = ex_running s" using eq [of ex_running] by (simp add: sq_core_def)
  show "ex_complete t = ex_complete s" using eq [of ex_complete] by (simp add: sq_core_def)
  show "ex_tasksrun t = ex_tasksrun s" using eq [of ex_tasksrun] by (simp add: sq_core_def)
  show "ex_failed_tids t = ex_failed_tids s" using eq [of ex_failed_tids] by (simp add: sq_core_def)
  show "ex_sched t = ex_sched s" using eq [of ex_sched] by (simp add: sq_core_def)
  show "ex_phase t = ex_phase s" using eq [of ex_phase] by (simp add: sq_core_def)
  show "ex_events t = ex_events s" using eq [of ex_events] by (simp add: sq_core_def)
  show "ex_sq_live t = ex_sq_live s" using eq [of ex_sq_live] by (simp add: sq_core_def)
  show "ex_tasks_covered t = ex_tasks_covered s" using eq [of ex_tasks_covered] by (simp add: sq_core_def)
  show "ex_tasks_notcovered t = ex_tasks_notcovered s"
    using eq [of ex_tasks_notcovered] by (simp add: sq_core_def)
  show "st_active (ex_stats t) = st_active (ex_stats s)"
    using eq [of "\<lambda>s. st_active (ex_stats s)"] by (simp add: sq_core_def updateCovered_def)
  show "ex_sq_deferred t = ex_sq_deferred s" using eq [of ex_sq_deferred] by (simp add: sq_core_def)
  show "ex_sqdone t = ex_sqdone s" using eq [of ex_sqdone] by (simp add: sq_core_def)
  show "ex_build_stamps t = ex_build_stamps s" using eq [of ex_build_stamps] by (simp add: sq_core_def)
  show "st_total (ex_stats t) = st_total (ex_stats s)"
    using eq [of "\<lambda>s. st_total (ex_stats s)"] by (simp add: sq_core_def updateCovered_def)
qed

lemma sq_core_count [simp]: "sq_core (count_covered s) = sq_core s"
  by (simp add: count_covered_def)

lemma sq_make_buildable_core: "sq_core s = c \<Longrightarrow> returns (\<lambda>t. sq_core t = c) (sq_make_buildable a d s)"
  by (auto simp: sq_make_buildable_def intro: returns_bind_any)

lemma release_harddeps_core: "sq_core s = c \<Longrightarrow> returns (\<lambda>t. sq_core t = c) (release_harddeps task s)"
  by (auto simp: release_harddeps_def intro!: returns_fold returns_bind_any)

lemma updatecounters_rest_core: "sq_core s = c \<Longrightarrow> returns (\<lambda>t. sq_core t = c) (updatecounters_rest cf task s)"
  unfolding updatecounters_rest_def
  by (rule returns_bind_any, rule returns_bind [where Q = "\<lambda>t. sq_core t = c"],
      blast intro: returns_fold sq_make_buildable_core, rule returns_bind_any,
      rule returns_bind [where Q = "\<lambda>t. sq_core t = c"], rule release_harddeps_core, simp, simp)

lemma fail_harddep_core:
  assumes "\<And>d u. sq_core u = c \<Longrightarrow> returns (\<lambda>t. sq_core t = c) (f d u)" and "sq_core s = c"
  shows "returns (\<lambda>t. sq_core t = c) (fail_harddep cf i f d s)"
  unfolding fail_harddep_def
  by (intro returns_if returns_bind_any) (auto simp: assms split: prod.split)

lemma updatecounters_core:
  assumes "\<And>d u. sq_core u = c \<Longrightarrow> returns (\<lambda>t. sq_core t = c) (f d u)" and "sq_core s = c"
  shows "returns (\<lambda>t. sq_core t = c) (updatecounters_with cf i f task fail s)"
  unfolding updatecounters_with_def
  by (intro returns_bind [where Q = "\<lambda>t. sq_core t = c"] returns_if returns_fold fail_harddep_core
      updatecounters_rest_core assms) (simp_all add: assms)

lemma failoutright_core: "sq_core s = c \<Longrightarrow> returns (\<lambda>t. sq_core t = c) (failoutright_n n cf i task s)"
proof (induction n arbitrary: task s)
  case 0
  then show ?case by simp
next
  case (Suc n)
  have "sq_core (failing_setscene task s) = c" using Suc.prems by (simp add: failing_setscene_def)
  then show ?case by (simp add: updatecounters_core Suc.IH)
qed

lemma sq_task_failoutright_core:
  "sq_core s = c \<Longrightarrow> returns (\<lambda>t. sq_core t = c) (sq_task_failoutright cf i task s)"
  unfolding sq_task_failoutright_def by (rule failoutright_core)

lemma scenequeue_updatecounters_core:
  "sq_core s = c \<Longrightarrow> returns (\<lambda>t. sq_core t = c) (scenequeue_updatecounters cf i task fail s)"
  unfolding scenequeue_updatecounters_def by (intro updatecounters_core failoutright_core)

lemma sq_task_completeoutright_core:
  "sq_core s = c \<Longrightarrow> returns (\<lambda>t. sq_core t = c) (sq_task_completeoutright cf i task s)"
  unfolding sq_task_completeoutright_def by (rule scenequeue_updatecounters_core) simp

lemma sq_task_skip_core: "sq_core s = c \<Longrightarrow> returns (\<lambda>t. sq_core t = c) (sq_task_skip cf i task s)"
  unfolding sq_task_skip_def by (rule sq_task_completeoutright_core) simp

lemma update_one_core:
  assumes "sq_core (fst st) = c"
  shows "returns (\<lambda>t. sq_core (fst t) = c) (update_one cf i tid st)"
proof -
  obtain s tocheck where st: "st = (s, tocheck)" by (cases st)
  show ?thesis
    using assms unfolding st update_one_def Let_def prod.case
    by (auto intro!: returns_bind_any dest!: returnsD [OF sq_task_skip_core [where c = c], rotated])
qed

lemma note_outrightfail_core: "sq_core (fold note_outrightfail tids s) = sq_core s"
  by (induction tids arbitrary: s) (simp_all add: note_outrightfail_def Let_def)

lemma update_scenequeue_data_core:
  "sq_core s = c \<Longrightarrow> returns (\<lambda>t. sq_core t = c) (update_scenequeue_data cf i tids s)"
  unfolding update_scenequeue_data_def
  by (rule returns_bind [where Q = "\<lambda>t. sq_core (fst t) = c"])
    (auto simp: note_outrightfail_core intro!: returns_fold update_one_core)

section \<open>Migrations\<close>

definition graph_of :: "run_tasks \<Rightarrow> string list \<times> (string \<Rightarrow> string list) \<times> (string \<Rightarrow> string list)" where
  "graph_of rts = (dkeys rts, depends_of rts, revdeps_of rts)"

definition mig_core :: "rqe \<Rightarrow> rqe" where
  "mig_core s = sq_core (s\<lparr>ex_tasks := [], ex_updated_taskhash_queue := [], ex_pending_migrations := [],
     ex_sq_deferred := [], ex_needed_harddeps := [], ex_notneeded := [], ex_build_stamps := [],
     ex_sqdone := False, ex_failed_tids := [], ex_phase := Running\<rparr>)"

text \<open>A migration may start the cleaning up, with a failed task, but does not end the build by itself.\<close>

definition mig_like :: "rqe \<Rightarrow> rqe \<Rightarrow> bool" where
  "mig_like s t \<longleftrightarrow> mig_core t = mig_core s \<and> graph_of (ex_tasks t) = graph_of (ex_tasks s) \<and>
     (ex_phase t = ex_phase s \<and> ex_failed_tids t = ex_failed_tids s \<or> ex_phase t = CleanUp \<and> ex_failed_tids t \<noteq> [])"

lemma mig_like_refl [simp]: "mig_like s s"
  by (simp add: mig_like_def)

lemma mig_like_trans: "mig_like s t \<Longrightarrow> mig_like t u \<Longrightarrow> mig_like s u"
  by (auto simp: mig_like_def)

lemma mig_core_update [simp]:
  "mig_core (s\<lparr>ex_tasks := rts\<rparr>) = mig_core s" "mig_core (s\<lparr>ex_updated_taskhash_queue := q\<rparr>) = mig_core s"
  "mig_core (s\<lparr>ex_pending_migrations := a\<rparr>) = mig_core s" "mig_core (s\<lparr>ex_sq_deferred := d\<rparr>) = mig_core s"
  "mig_core (s\<lparr>ex_needed_harddeps := a\<rparr>) = mig_core s" "mig_core (s\<lparr>ex_notneeded := a\<rparr>) = mig_core s"
  "mig_core (s\<lparr>ex_build_stamps := f\<rparr>) = mig_core s" "mig_core (s\<lparr>ex_sqdone := b\<rparr>) = mig_core s"
  "mig_core (s\<lparr>ex_failed_tids := a\<rparr>) = mig_core s" "mig_core (s\<lparr>ex_phase := p\<rparr>) = mig_core s"
  "mig_core (s\<lparr>ex_sq_buildable := a\<rparr>) = mig_core s" "mig_core (s\<lparr>ex_sq_running := a\<rparr>) = mig_core s"
  "mig_core (s\<lparr>ex_harddep_deferred := a\<rparr>) = mig_core s" "mig_core (s\<lparr>ex_holdoff_need_update := b\<rparr>) = mig_core s"
  "mig_core (s\<lparr>ex_covered := a\<rparr>) = mig_core s" "mig_core (s\<lparr>ex_scenequeue_done := a\<rparr>) = mig_core s"
  "mig_core (s\<lparr>ex_notcovered := a\<rparr>) = mig_core s" "mig_core (s\<lparr>ex_sq := q'\<rparr>) = mig_core s"
  "mig_core (with_sq g s) = mig_core s" "mig_core (count_covered s) = mig_core s"
  by (simp_all add: mig_core_def sq_core_def with_sq_def count_covered_def updateCovered_def)

lemma mig_like_update [simp]:
  "mig_like s (u\<lparr>ex_updated_taskhash_queue := q\<rparr>) = mig_like s u"
  "mig_like s (u\<lparr>ex_pending_migrations := a\<rparr>) = mig_like s u" "mig_like s (u\<lparr>ex_sq_deferred := d\<rparr>) = mig_like s u"
  "mig_like s (u\<lparr>ex_needed_harddeps := a\<rparr>) = mig_like s u" "mig_like s (u\<lparr>ex_notneeded := a\<rparr>) = mig_like s u"
  "mig_like s (u\<lparr>ex_build_stamps := f\<rparr>) = mig_like s u" "mig_like s (u\<lparr>ex_sqdone := b\<rparr>) = mig_like s u"
  "mig_like s (u\<lparr>ex_sq_buildable := a\<rparr>) = mig_like s u"
  "mig_like s (u\<lparr>ex_sq_running := a\<rparr>) = mig_like s u" "mig_like s (u\<lparr>ex_harddep_deferred := a\<rparr>) = mig_like s u"
  "mig_like s (u\<lparr>ex_covered := a\<rparr>) = mig_like s u" "mig_like s (u\<lparr>ex_scenequeue_done := a\<rparr>) = mig_like s u"
  "mig_like s (u\<lparr>ex_notcovered := a\<rparr>) = mig_like s u" "mig_like s (u\<lparr>ex_sq := q'\<rparr>) = mig_like s u"
  "mig_like s (with_sq g u) = mig_like s u" "mig_like s (count_covered u) = mig_like s u"
  by (simp_all add: mig_like_def) (simp_all add: with_sq_def count_covered_def)

lemma mig_coreD:
  assumes "mig_core t = mig_core s"
  shows "ex_buildable t = ex_buildable s" "ex_running t = ex_running s"
    "ex_complete t = ex_complete s" "ex_tasksrun t = ex_tasksrun s" "ex_sched t = ex_sched s"
    "ex_events t = ex_events s" "ex_sq_live t = ex_sq_live s" "ex_tasks_covered t = ex_tasks_covered s"
    "ex_tasks_notcovered t = ex_tasks_notcovered s" "st_active (ex_stats t) = st_active (ex_stats s)"
    "st_total (ex_stats t) = st_total (ex_stats s)"
  using sq_coreD [OF assms [unfolded mig_core_def]] by simp_all

lemma sq_core_mig:
  assumes "sq_core t = sq_core s"
  shows "mig_like s t"
proof -
  have "mig_core (sq_core t) = mig_core (sq_core s)" using assms by simp
  then have "mig_core t = mig_core s" by (simp add: mig_core_def sq_core_def updateCovered_def)
  then show ?thesis using sq_coreD(1,6,8) [OF assms] by (simp add: mig_like_def)
qed

lemma returns_mig_sq:
  assumes "\<And>u c. sq_core u = c \<Longrightarrow> returns (\<lambda>t. sq_core t = c) (f u)" and "mig_like s u"
  shows "returns (mig_like s) (f u)"
  by (rule returns_weaken [OF assms(1) [OF refl]]) (meson assms(2) mig_like_trans sq_core_mig)

lemma graph_of_update:
  assumes "has_key rts tid" and "\<And>e. rte_depends (f e) = rte_depends e" and "\<And>e. rte_revdeps (f e) = rte_revdeps e"
  shows "graph_of (AList.update tid (f (dget rts tid new_task)) rts) = graph_of rts"
  using assms by (auto simp: graph_of_def dkeys_update depends_of_def revdeps_of_def)

lemma graph_of_hashes:
  "has_key rts tid \<Longrightarrow> graph_of (set_unihash tid u rts) = graph_of rts"
  "has_key rts tid \<Longrightarrow> graph_of (set_hashes tid h u rts) = graph_of rts"
  by (simp_all add: set_unihash_def set_hashes_def graph_of_update [where f = "\<lambda>e. e\<lparr>rte_unihash := Some u\<rparr>"]
      graph_of_update [where f = "\<lambda>e. e\<lparr>rte_hash := Some h, rte_unihash := Some u\<rparr>"])

lemma dlookup_has_key: "dlookup d k = Inr x \<Longrightarrow> has_key d k"
  by (auto simp: dlookup_def has_key_def split: option.splits)

lemma rehash_mig: "mig_like s (fst st) \<Longrightarrow> returns (\<lambda>t. mig_like s (fst t)) (rehash u tid st)"
  by (cases st) (auto simp: rehash_def mig_like_def graph_of_hashes dest!: dlookup_has_key intro!: returns_bind_any)

lemma take_update_mig: "mig_like s (fst st) \<Longrightarrow> returns (\<lambda>t. mig_like s (fst t)) (take_update m st)"
  by (cases st; cases m)
    (auto simp: take_update_def Let_def simp del: rfold.simps intro!: returns_bind_any returns_fold rehash_mig)

lemma rehash_task_mig:
  "mig_like s (rh_exe (fst st)) \<Longrightarrow> returns (\<lambda>t. mig_like s (rh_exe (fst t))) (rehash_task us th st)"
  by (cases st; cases th)
    (auto simp: rehash_task_def Let_def mig_like_def graph_of_hashes dest!: dlookup_has_key intro!: returns_bind_any)

lemma rehash_loop_mig:
  "mig_like s (rh_exe r) \<Longrightarrow> returns (\<lambda>t. mig_like s (rh_exe t)) (rehash_loop n i p todo r)"
proof (induction n arbitrary: todo r)
  case 0
  then show ?case by simp
next
  case (Suc n)
  show ?case
    unfolding rehash_loop.simps
    by (intro returns_if returns_bind_any [of "rfold (add_ready i _ _ _) _ _"]
        returns_bind [where Q = "\<lambda>t. mig_like s (rh_exe (fst t))"] returns_fold rehash_task_mig)
      (auto simp: Suc.prems intro: Suc.IH)
qed

lemma update_hashes_mig: "returns (\<lambda>t. mig_like s (fst t)) (update_hashes i s)"
  unfolding update_hashes_def
proof (rule returns_bind [where Q = "\<lambda>t. mig_like s (fst t)"])
  show "returns (\<lambda>t. mig_like s (fst t)) (rfold take_update (ex_updated_taskhash_queue s) (s, []))"
    by (intro returns_fold take_update_mig) simp_all
next
  fix st :: "rqe \<times> string list"
  obtain s1 todo where st: "st = (s1, todo)" by (cases st)
  assume "mig_like s (fst st)"
  then have "mig_like s s1" by (simp add: st)
  then show "returns (\<lambda>t. mig_like s (fst t)) (case st of (s, toprocess) \<Rightarrow>
     rbind (rfold (add_revdeps (ex_tasks s)) toprocess []) (\<lambda>todo.
     rbind (dependents (Suc (Suc (length (ex_tasks s)))) (ex_tasks s) todo []) (\<lambda>remaining.
       let remaining = in_iteration i remaining in
       rbind (rehash_loop (Suc (Suc (length remaining))) i (if remaining = [] then [] else last remaining)
                (rehash_start (ex_tasks s) remaining) \<lparr>rh_exe = s, rh_total = remaining, rh_changed = []\<rparr>) (\<lambda>r.
         Inr (rh_exe r, rh_changed r)))))"
    unfolding st prod.case Let_def
    by - (rule returns_bind_any, rule returns_bind_any,
        rule returns_bind [where Q = "\<lambda>t. mig_like s (rh_exe t)"], rule rehash_loop_mig, simp_all)
qed

lemma unmark_covered_mig: "mig_like s u \<Longrightarrow> mig_like s (snd (unmark_covered covers u))"
  by (induction covers u rule: unmark_covered.induct) auto

lemma mig_like_without [simp]: "mig_like s (without tid u) = mig_like s u"
  by (simp add: without_def)

lemma mig_like_CleanUp: "mig_like s u \<Longrightarrow> mig_like s (u\<lparr>ex_failed_tids := a @ [t], ex_phase := CleanUp\<rparr>)"
  by (auto simp: mig_like_def)

lemma migrate_mig:
  assumes "mig_like s (fst st)"
  shows "returns (\<lambda>t. mig_like s (fst t)) (migrate i tid st)"
proof -
  obtain u changed m where st: "st = (u, changed, m)" by (cases st)
  show ?thesis
  proof (cases m)
    case Halted
    then show ?thesis using assms by (simp add: st migrate_def)
  next
    case (Going ts)
    define gone where "gone = u\<lparr>ex_pending_migrations := removeAll tid (ex_pending_migrations u)\<rparr>"
    have u: "mig_like s u" "mig_like s gone" using assms by (simp_all add: st gone_def)
    show ?thesis
      unfolding st Going migrate_def prod.case migration.case Let_def gone_def [symmetric]
    proof (intro returns_if returns_bind_any)
      fix covers
      obtain b v where v: "unmark_covered covers (gone\<lparr>ex_scenequeue_done := removeAll tid (ex_scenequeue_done u)\<rparr>) = (b, v)"
        by fastforce
      have "mig_like s v" using unmark_covered_mig [of s "gone\<lparr>ex_scenequeue_done := removeAll tid (ex_scenequeue_done u)\<rparr>" covers] u v
        by simp
      then show "returns (\<lambda>t. mig_like s (fst t))
        (case unmark_covered covers (gone\<lparr>ex_scenequeue_done := removeAll tid (ex_scenequeue_done u)\<rparr>) of
           (True, s) \<Rightarrow> rbind (split_tid_mcfn tid) (\<lambda>(mc, fn, taskname, taskfn).
              Inr (with_sq (\<lambda>q. q\<lparr>sq_stamps := AList.update tid (in_stampfile i taskname taskfn) (sq_stamps q)\<rparr>) (without tid s),
                   True, Going (ts @ [tid])))
         | (False, s) \<Rightarrow> Inr (s\<lparr>ex_failed_tids := ex_failed_tids s @ [tid], ex_phase := CleanUp\<rparr>, True, Halted))"
        unfolding v by (auto intro!: returns_bind_any mig_like_CleanUp split: bool.split)
    qed (simp_all add: u)
  qed
qed

lemma requeue_mig: "mig_like s (fst st) \<Longrightarrow> returns (\<lambda>t. mig_like s (fst t)) (requeue tid st)"
  by (cases st) (auto simp: requeue_def Let_def intro!: returns_bind_any)

lemma defer_same_hash_mig: "mig_like s u \<Longrightarrow> returns (mig_like s) (defer_same_hash cf tid u)"
  by (auto simp: defer_same_hash_def intro!: returns_bind_any split: option.split)

lemma fail_requeued_mig: "mig_like s u \<Longrightarrow> returns (mig_like s) (fail_requeued cf i t u)"
  by (cases t) (auto simp: fail_requeued_def intro: returns_mig_sq [where f = "sq_task_failoutright cf i tid" for tid, OF sq_task_failoutright_core])

lemma retry_tasks_mig:
  assumes "mig_like s u"
  shows "returns (mig_like s) (retry_tasks cf i ts u)"
  unfolding retry_tasks_def
proof (rule returns_bind [where Q = "\<lambda>t. mig_like s (fst t)"])
  show "returns (\<lambda>t. mig_like s (fst t)) (rfold requeue ts (u, []))"
    using assms by (intro returns_fold requeue_mig) simp_all
next
  fix st :: "rqe \<times> (string \<times> bool) list"
  obtain v ts2 where st: "st = (v, ts2)" by (cases st)
  assume "mig_like s (fst st)"
  then have "mig_like s v" by (simp add: st)
  then show "returns (mig_like s) (case st of (s, update_tasks2) \<Rightarrow>
     rbind (if update_tasks2 = [] then Inr s
            else rbind (rfold (defer_same_hash cf) (by_multiconfig (sq_multiconfigs (ex_sq s)) (map fst update_tasks2))
                          (s\<lparr>ex_sqdone := False\<rparr>))
                   (update_scenequeue_data cf i (map fst update_tasks2))) (\<lambda>s.
       rfold (fail_requeued cf i) update_tasks2 s))"
    unfolding st prod.case
    by (intro returns_bind [where Q = "mig_like s"] returns_if returns_fold fail_requeued_mig
        defer_same_hash_mig returns_mig_sq [OF update_scenequeue_data_core]) simp_all
qed

lemma process_possible_migrations_mig: "returns (mig_like s) (process_possible_migrations cf i s)"
  unfolding process_possible_migrations_def
proof (rule returns_bind [OF update_hashes_mig])
  fix st :: "rqe \<times> string list"
  obtain u changed where st: "st = (u, changed)" by (cases st)
  assume "mig_like s (fst st)"
  then have u: "mig_like s u" by (simp add: st)
  show "returns (mig_like s) (case st of (s, changed) \<Rightarrow>
     let s = s\<lparr>ex_pending_migrations :=
                 sunion (ex_pending_migrations s) (filter (\<lambda>t. t \<in> set (cf_setscene_tids cf)) changed)\<rparr> in
     rbind (rfold (migrate i) (ex_pending_migrations s) (s, changed \<noteq> [], Going [])) (\<lambda>(s, changed, m).
       case m of
         Halted \<Rightarrow> Inr s
       | Going update_tasks \<Rightarrow>
           rbind (retry_tasks cf i update_tasks s) (\<lambda>s.
             Inr (if changed then reset_migrated s else s))))"
    unfolding st prod.case Let_def
  proof (rule returns_bind [where Q = "\<lambda>t. mig_like s (fst t)"], intro returns_fold migrate_mig)
    fix st :: "rqe \<times> bool \<times> migration"
    assume st: "mig_like s (fst st)"
    obtain v changed m where v: "st = (v, changed, m)" by (cases st)
    show "returns (mig_like s) (case st of (s, changed, m) \<Rightarrow> (case m of
         Halted \<Rightarrow> Inr s
       | Going update_tasks \<Rightarrow>
           rbind (retry_tasks cf i update_tasks s) (\<lambda>s. Inr (if changed then reset_migrated s else s))))"
      using st unfolding v prod.case
      by (auto simp: reset_migrated_def intro!: returns_bind [OF retry_tasks_mig] split: migration.split)
  qed (simp_all add: u)
qed

end
