(* ===== verification/ExecInvariant.thy ===== *)
theory ExecInvariant
  imports ExecFrames
begin

text \<open>
  How an invariant of the run queue goes through a call: the contract between the operations that
  change the sets the scheduler works with and everything that is composed of them. Whatever keeps the
  locale's assumptions holds in every state of a run.
\<close>

section \<open>What the scheduler hands out\<close>

definition handed_out :: "sched_view \<Rightarrow> scheduler \<Rightarrow> string option \<times> scheduler \<Rightarrow> bool" where
  "handed_out v s r \<longleftrightarrow> set (sc_buildable (snd r)) \<subseteq> set (sc_buildable s) \<and>
     (\<forall>t. fst r = Some t \<longrightarrow> t \<in> set (sc_buildable (snd r)) \<and> t \<notin> set (sv_running v) \<and> can_start_task v \<and>
        t \<notin> set (sv_holdoff v) \<and> (t \<in> set (sv_covered v) \<or> t \<in> set (sv_notcovered v)))"

lemma better_task_from:
  "(\<forall>x. best = Some x \<longrightarrow> fst x \<in> B) \<Longrightarrow> tid \<in> B \<Longrightarrow>
     returns (\<lambda>b. \<forall>x. b = Some x \<longrightarrow> fst x \<in> B) (better_task s v skip m tid best)"
  unfolding better_task_def by (intro returns_bind_any returns_if) auto

lemma choose_best_from:
  "returns (\<lambda>r. sc_buildable (snd r) = sc_buildable s \<and> (\<forall>t. fst r = Some t \<longrightarrow> t \<in> set buildable))
     (choose_best rts v skip buildable s)"
  unfolding choose_best_def Let_def
proof (rule returns_bind_any)
  fix m
  show "returns (\<lambda>r. sc_buildable (snd r) = sc_buildable s \<and> (\<forall>t. fst r = Some t \<longrightarrow> t \<in> set buildable))
     (rbind (rfold (better_task (s\<lparr>sc_rev_prio_map := Some m\<rparr>) v skip m) buildable None) (\<lambda>best.
        Inr (map_option fst best, s\<lparr>sc_rev_prio_map := Some m\<rparr>)))"
    by (rule returns_bind [where Q = "\<lambda>b. \<forall>x. b = Some x \<longrightarrow> fst x \<in> set buildable"],
        intro returns_fold better_task_from) auto
qed

lemma ready_tasks_from:
  "t \<in> set (ready_tasks v s) \<Longrightarrow> t \<in> set (sc_buildable s) \<and> t \<notin> set (sv_holdoff v) \<and>
     (t \<in> set (sv_covered v) \<or> t \<in> set (sv_notcovered v))"
  by (auto simp: ready_tasks_def)

lemma next_task_from: "returns (handed_out v s) (next_task rts v s)"
proof -
  define s1 where "s1 = s\<lparr>sc_buildable := filter (\<lambda>t. t \<notin> set (sv_running v)) (sc_buildable s)\<rparr>"
  have b: "returns (handed_out v s) (choose_best rts v skip xs (s1\<lparr>sc_skip_maxthread := m\<rparr>))"
    if "can_start_task v" and "set xs \<subseteq> set (ready_tasks v s1)" for skip xs m
    by (rule returns_weaken [OF choose_best_from])
      (use that in \<open>auto simp: handed_out_def s1_def ready_tasks_def\<close>)
  have "returns (handed_out v s) (next_buildable_task rts v s)" if can: "can_start_task v"
    unfolding next_buildable_task_def Let_def s1_def [symmetric]
  proof (intro returns_if)
    show "returns (handed_out v s) (rbind (rfold (count_running (sv_threads v))
                    (filter (\<lambda>t. t \<notin> set (sv_complete v)) (sv_running v)) (sc_skip_maxthread s1, []))
             (\<lambda>(maxthread, skip).
           case ready_tasks v s1 of
             [tid] \<Rightarrow>
               rbind (taskname_from_tid tid) (\<lambda>taskname.
               rbind (at_limit maxthread skip taskname) (\<lambda>full.
               if full then Inr (None, s1\<lparr>sc_skip_maxthread := maxthread\<rparr>)
               else rbind (dlookup (sc_stamps (s1\<lparr>sc_skip_maxthread := maxthread\<rparr>)) tid) (\<lambda>stamp.
                 if stamp \<notin> set (sv_build_stamps v) then Inr (Some tid, s1\<lparr>sc_skip_maxthread := maxthread\<rparr>)
                 else choose_best rts v skip [] (s1\<lparr>sc_skip_maxthread := maxthread\<rparr>))))
           | _ \<Rightarrow> choose_best rts v skip (ready_tasks v s1) (s1\<lparr>sc_skip_maxthread := maxthread\<rparr>)))"
    proof (rule returns_bind_any)
      fix st :: "(string, string option) dict \<times> (string, int) dict"
      obtain maxthread skip where st: "st = (maxthread, skip)" by (cases st)
      define r where "r = ready_tasks v s1"
      have one: "returns (handed_out v s) (rbind (taskname_from_tid tid) (\<lambda>taskname.
               rbind (at_limit maxthread skip taskname) (\<lambda>full.
               if full then Inr (None, s1\<lparr>sc_skip_maxthread := maxthread\<rparr>)
               else rbind (dlookup (sc_stamps (s1\<lparr>sc_skip_maxthread := maxthread\<rparr>)) tid) (\<lambda>stamp.
                 if stamp \<notin> set (sv_build_stamps v) then Inr (Some tid, s1\<lparr>sc_skip_maxthread := maxthread\<rparr>)
                 else choose_best rts v skip [] (s1\<lparr>sc_skip_maxthread := maxthread\<rparr>)))))"
        if "tid \<in> set r" for tid
        using that ready_tasks_from [of tid v s1] can
        by (intro returns_bind_any returns_if b) (auto simp: handed_out_def s1_def r_def)
      show "returns (handed_out v s) (case st of (maxthread, skip) \<Rightarrow> (case ready_tasks v s1 of
             [tid] \<Rightarrow>
               rbind (taskname_from_tid tid) (\<lambda>taskname.
               rbind (at_limit maxthread skip taskname) (\<lambda>full.
               if full then Inr (None, s1\<lparr>sc_skip_maxthread := maxthread\<rparr>)
               else rbind (dlookup (sc_stamps (s1\<lparr>sc_skip_maxthread := maxthread\<rparr>)) tid) (\<lambda>stamp.
                 if stamp \<notin> set (sv_build_stamps v) then Inr (Some tid, s1\<lparr>sc_skip_maxthread := maxthread\<rparr>)
                 else choose_best rts v skip [] (s1\<lparr>sc_skip_maxthread := maxthread\<rparr>))))
           | _ \<Rightarrow> choose_best rts v skip (ready_tasks v s1) (s1\<lparr>sc_skip_maxthread := maxthread\<rparr>)))"
        unfolding st prod.case r_def [symmetric]
        using one b [OF can, of r skip maxthread] by (auto simp: r_def split: list.split)
    qed
  qed (auto simp: handed_out_def s1_def)
  then show ?thesis by (auto simp: next_task_def handed_out_def)
qed

section \<open>The order of events\<close>

definition ended :: "string \<Rightarrow> rq_event list \<Rightarrow> bool" where
  "ended t es \<longleftrightarrow> TaskCompleted t \<in> set es \<or> TaskSkipped t \<in> set es"

text \<open>Whenever a task is sent to a worker, all its dependencies have ended before.\<close>

definition deps_first :: "(string \<Rightarrow> string list) \<Rightarrow> rq_event list \<Rightarrow> bool" where
  "deps_first d es \<longleftrightarrow>
     (\<forall>k<length es. \<forall>t f. es ! k = RunTask t f \<longrightarrow> (\<forall>u\<in>set (d t). ended u (take k es)))"

definition sent_tasks :: "rq_event list \<Rightarrow> string list" where
  "sent_tasks es = concat (map (\<lambda>e. case e of RunTask t f \<Rightarrow> [t] | _ \<Rightarrow> []) es)"

lemma ended_append [simp]: "ended t es \<Longrightarrow> ended t (es @ fs)"
  by (auto simp: ended_def)

lemma sent_tasks_snoc [simp]:
  "sent_tasks (es @ [e]) = sent_tasks es @ (case e of RunTask t f \<Rightarrow> [t] | _ \<Rightarrow> [])"
  by (simp add: sent_tasks_def)

lemma deps_first_snoc:
  "deps_first d (es @ [e]) \<longleftrightarrow>
     deps_first d es \<and> (\<forall>t f. e = RunTask t f \<longrightarrow> (\<forall>u\<in>set (d t). ended u es))"
  by (auto simp: deps_first_def All_less_Suc nth_append)

text \<open>What the events say about the workers: the setscene tasks sent to them whose end was not reported, and
  the tasks they were sent, or that have nothing to execute, and those that were reported as ended.\<close>

definition scene_change :: "rq_event \<Rightarrow> string list \<Rightarrow> string list" where
  "scene_change e ts =
     (case e of RunSetscene t f \<Rightarrow> sadd t ts | SceneCompleted t \<Rightarrow> removeAll t ts | SceneFailed t \<Rightarrow> removeAll t ts
      | _ \<Rightarrow> ts)"

definition scenes_at_work :: "rq_event list \<Rightarrow> string list" where
  "scenes_at_work es = fold scene_change es []"

definition begun_tasks :: "rq_event list \<Rightarrow> string list" where
  "begun_tasks es = concat (map (\<lambda>e. case e of RunTask t f \<Rightarrow> [t] | TaskStarted t True \<Rightarrow> [t] | _ \<Rightarrow> []) es)"

definition reported_tasks :: "rq_event list \<Rightarrow> string list" where
  "reported_tasks es = concat (map (\<lambda>e. case e of TaskCompleted t \<Rightarrow> [t] | TaskFailed t \<Rightarrow> [t] | _ \<Rightarrow> []) es)"

definition tasks_at_work :: "rq_event list \<Rightarrow> string list" where
  "tasks_at_work es = filter (\<lambda>t. t \<notin> set (reported_tasks es)) (sent_tasks es)"

lemma scenes_at_work_snoc [simp]: "scenes_at_work (es @ [e]) = scene_change e (scenes_at_work es)"
  by (simp add: scenes_at_work_def)

lemma begun_tasks_snoc [simp]:
  "begun_tasks (es @ [e]) = begun_tasks es @ (case e of RunTask t f \<Rightarrow> [t] | TaskStarted t True \<Rightarrow> [t] | _ \<Rightarrow> [])"
  by (simp add: begun_tasks_def)

lemma reported_tasks_snoc [simp]:
  "reported_tasks (es @ [e]) = reported_tasks es @ (case e of TaskCompleted t \<Rightarrow> [t] | TaskFailed t \<Rightarrow> [t] | _ \<Rightarrow> [])"
  by (simp add: reported_tasks_def)

text \<open>The events that say nothing about the end of a task or what is sent to a worker.\<close>

definition plain_event :: "rq_event \<Rightarrow> bool" where
  "plain_event e \<longleftrightarrow>
     (case e of RunTask t f \<Rightarrow> False | RunSetscene t f \<Rightarrow> False | TaskStarted t noexec \<Rightarrow> \<not> noexec
      | TaskCompleted t \<Rightarrow> False | TaskFailed t \<Rightarrow> False | _ \<Rightarrow> True)"

section \<open>The part of the state that matters for running tasks\<close>

definition buildable_set :: "rqe \<Rightarrow> string set" where
  "buildable_set s = set (ex_buildable s) \<union> set (sc_buildable (ex_sched s))"

lemma setbuildable_tasks [simp]: "ex_tasks (setbuildable t s) = ex_tasks s"
  by (simp add: setbuildable_def)

definition same_view :: "rqe \<Rightarrow> rqe \<Rightarrow> bool" where
  "same_view s t \<longleftrightarrow> graph_of (ex_tasks t) = graph_of (ex_tasks s) \<and> ex_buildable t = ex_buildable s \<and>
     ex_sched t = ex_sched s \<and> ex_running t = ex_running s \<and> ex_complete t = ex_complete s \<and>
     ex_events t = ex_events s \<and> st_active (ex_stats t) = st_active (ex_stats s) \<and> ex_sq_live t = ex_sq_live s \<and>
     st_total (ex_stats t) = st_total (ex_stats s)"

lemma same_view_refl [simp]: "same_view s s"
  by (simp add: same_view_def)

lemma same_view_trans: "same_view s t \<Longrightarrow> same_view t u \<Longrightarrow> same_view s u"
  by (simp add: same_view_def)

lemma same_view_sym: "same_view s t \<Longrightarrow> same_view t s"
  by (simp add: same_view_def)

lemma same_view_update [simp]:
  "same_view s (u\<lparr>ex_phase := p\<rparr>) = same_view s u" "same_view s (u\<lparr>ex_failed_tids := a\<rparr>) = same_view s u"
  "same_view s (u\<lparr>ex_sq_deferred := q\<rparr>) = same_view s u" "same_view s (u\<lparr>ex_tasksrun := a\<rparr>) = same_view s u"
  "same_view s (u\<lparr>ex_updated_taskhash_queue := w\<rparr>) = same_view s u"
  "same_view s (u\<lparr>ex_build_stamps := b\<rparr>) = same_view s u" "same_view s (u\<lparr>ex_build_stamps2 := a\<rparr>) = same_view s u"
  "same_view s (u\<lparr>ex_cycle := n\<rparr>) = same_view s u" "same_view s (u\<lparr>ex_fakeworker := a\<rparr>) = same_view s u"
  "same_view s (u\<lparr>ex_needed_harddeps := a\<rparr>) = same_view s u" "same_view s (u\<lparr>ex_harddep_deferred := a\<rparr>) = same_view s u"
  "same_view s (u\<lparr>ex_notneeded := a\<rparr>) = same_view s u" "same_view s (u\<lparr>ex_tasks_covered := a\<rparr>) = same_view s u"
  "same_view s (u\<lparr>ex_tasks_notcovered := a\<rparr>) = same_view s u" "same_view s (u\<lparr>ex_holdoff_tasks := a\<rparr>) = same_view s u"
  "same_view s (u\<lparr>ex_holdoff_need_update := x\<rparr>) = same_view s u" "same_view s (u\<lparr>ex_sqdone := x\<rparr>) = same_view s u"
  "same_view s (u\<lparr>ex_sq_buildable := a\<rparr>) = same_view s u" "same_view s (u\<lparr>ex_sq_running := a\<rparr>) = same_view s u"
  "same_view s (u\<lparr>ex_notcovered := a\<rparr>) = same_view s u" "same_view s (u\<lparr>ex_covered := a\<rparr>) = same_view s u"
  "same_view s (u\<lparr>ex_scenequeue_done := a\<rparr>) = same_view s u" "same_view s (u\<lparr>ex_sq := y\<rparr>) = same_view s u"
  by (simp_all add: same_view_def)

lemma mig_like_view: "mig_like s t \<Longrightarrow> same_view s t"
  by (auto simp: same_view_def mig_like_def dest: mig_coreD)

definition load :: "rqe \<Rightarrow> int" where
  "load s = st_active (ex_stats s) + int (length (ex_sq_live s))"

lemma can_start_load [simp]: "can_start_task (view_of cf i s) \<longleftrightarrow> load s < cf_number_tasks cf"
  by (simp add: can_start_task_def view_of_def load_def)

lemma same_view_load: "same_view s t \<Longrightarrow> load t = load s"
  by (simp add: same_view_def load_def)

lemma dlookup_depends: "dlookup rts t = Inr e \<Longrightarrow> rte_depends e = depends_of rts t"
  by (auto simp: dlookup_def depends_of_def dget_def split: option.splits)

section \<open>The search for a setscene task leaves that part alone\<close>

definition scene_like :: "rqe \<Rightarrow> rqe \<Rightarrow> bool" where
  "scene_like s t \<longleftrightarrow> mig_core (t\<lparr>ex_cycle := 0\<rparr>) = mig_core (s\<lparr>ex_cycle := 0\<rparr>) \<and> ex_tasks t = ex_tasks s \<and>
     ex_failed_tids t = ex_failed_tids s \<and> ex_phase t = ex_phase s"

lemma scene_like_refl [simp]: "scene_like s s"
  by (simp add: scene_like_def)

lemma scene_like_trans: "scene_like s t \<Longrightarrow> scene_like t u \<Longrightarrow> scene_like s u"
  by (simp add: scene_like_def)

lemma scene_like_update [simp]:
  "scene_like s (u\<lparr>ex_sq_deferred := d\<rparr>) = scene_like s u" "scene_like s (u\<lparr>ex_needed_harddeps := a\<rparr>) = scene_like s u"
  "scene_like s (u\<lparr>ex_notneeded := a\<rparr>) = scene_like s u" "scene_like s (u\<lparr>ex_sq_buildable := a\<rparr>) = scene_like s u"
  "scene_like s (u\<lparr>ex_harddep_deferred := a\<rparr>) = scene_like s u" "scene_like s (u\<lparr>ex_cycle := n\<rparr>) = scene_like s u"
  by (simp_all add: scene_like_def mig_core_def sq_core_def updateCovered_def)

lemma scene_like_view:
  assumes "scene_like s t"
  shows "same_view s t"
proof -
  have "mig_core (t\<lparr>ex_cycle := 0\<rparr>) = mig_core (s\<lparr>ex_cycle := 0\<rparr>)" and "ex_tasks t = ex_tasks s"
    using assms by (simp_all add: scene_like_def)
  then show ?thesis using mig_coreD [of "t\<lparr>ex_cycle := 0\<rparr>" "s\<lparr>ex_cycle := 0\<rparr>"] by (simp add: same_view_def)
qed

lemma sq_core_scene:
  assumes "sq_core t = sq_core s"
  shows "scene_like s t"
proof -
  have "mig_core ((sq_core t)\<lparr>ex_cycle := 0\<rparr>) = mig_core ((sq_core s)\<lparr>ex_cycle := 0\<rparr>)" using assms by simp
  then have "mig_core (t\<lparr>ex_cycle := 0\<rparr>) = mig_core (s\<lparr>ex_cycle := 0\<rparr>)"
    by (simp add: mig_core_def sq_core_def updateCovered_def)
  then show ?thesis using sq_coreD(1,6,8) [OF assms] by (simp add: scene_like_def)
qed

lemma returns_sq_scene:
  assumes "\<And>u c. sq_core u = c \<Longrightarrow> returns (\<lambda>t. sq_core t = c) (f u)" and "scene_like s u"
  shows "returns (scene_like s) (f u)"
  by (rule returns_weaken [OF assms(1) [OF refl]]) (meson assms(2) sq_core_scene scene_like_trans)

lemma sq_task_failoutright_scene: "scene_like s u \<Longrightarrow> returns (scene_like s) (sq_task_failoutright cf i t u)"
  by (rule returns_sq_scene [where f = "sq_task_failoutright cf i t", OF sq_task_failoutright_core])

lemma sq_task_skip_scene: "scene_like s u \<Longrightarrow> returns (scene_like s) (sq_task_skip cf i t u)"
  by (rule returns_sq_scene [where f = "sq_task_skip cf i t", OF sq_task_skip_core])

lemma require_harddep_scene: "scene_like s (fst (fold require_harddep hs (u, b))) = scene_like s u"
  by (induction hs arbitrary: u b) (simp_all add: require_harddep_def)

lemma wait_for_harddeps_scene: "scene_like s u \<Longrightarrow> scene_like s (fst (wait_for_harddeps t hs u))"
  using require_harddep_scene [of s hs u False]
  by (auto simp: wait_for_harddeps_def split: prod.split)

lemma settle_setscene_scene: "scene_like s u \<Longrightarrow> returns (\<lambda>r. scene_like s (fst r)) (settle_setscene cf i t u)"
  unfolding settle_setscene_def Let_def
  by (intro returns_bind_any [of "dlookup _ _"] returns_if returns_bind [where Q = "scene_like s"]
      sq_task_failoutright_scene) simp_all

lemma skip_unneeded_scene: "scene_like s u \<Longrightarrow> returns (scene_like s) (skip_unneeded cf i t u)"
  unfolding skip_unneeded_def by (rule returns_bind [OF sq_task_skip_scene]) simp_all

lemma try_setscene_scene:
  assumes "scene_like s u"
  shows "returns (\<lambda>r. scene_like s (fst r)) (try_setscene cf i t u)"
proof -
  have hard: "returns (\<lambda>r. scene_like s (fst r)) (case map_of (sq_harddeps_rev (ex_sq u)) t of
                 Some harddeps \<Rightarrow>
                   if set harddeps \<subseteq> set (settled u) then settle_setscene cf i t u
                   else Inr (wait_for_harddeps t harddeps u)
               | None \<Rightarrow> settle_setscene cf i t u)"
    using assms by (auto simp: settle_setscene_scene wait_for_harddeps_scene split: option.split)
  have skip: "returns (\<lambda>r. scene_like s (fst r)) (rbind (skip_unneeded cf i t u) (\<lambda>s. Inr (s, Leave)))"
    by (rule returns_bind [OF skip_unneeded_scene]) (simp_all add: assms)
  show ?thesis
    unfolding try_setscene_def by (intro returns_bind_any returns_if hard skip) (simp_all add: assms)
qed

lemma pick_setscene_scene: "scene_like s u \<Longrightarrow> returns (\<lambda>r. scene_like s (fst r)) (pick_setscene n cf i u)"
proof (induction n arbitrary: u)
  case 0
  then show ?case by simp
next
  case (Suc n)
  have "scene_like s (u\<lparr>ex_cycle := Suc (ex_cycle u)\<rparr>)" using Suc.prems by simp
  then show ?case
    unfolding pick_setscene.simps Let_def
    by (rule returns_bind [OF try_setscene_scene]) (auto simp: Suc.IH)
qed

section \<open>A new scheduler\<close>

lemma choose_scheduler_buildable: "returns (\<lambda>s. sc_buildable s = []) (choose_scheduler name f rts [])"
proof -
  have basic: "returns (\<lambda>s. sc_buildable s = []) (init_scheduler f rts [])"
    using init_scheduler_inv [of f rts "[]"] by (auto simp: returns_def)
  have speed: "returns (\<lambda>s. sc_buildable s = []) (init_speed f rts [])"
    unfolding init_speed_def by (rule returns_bind [OF basic]) simp
  have "returns (\<lambda>s. sc_buildable s = []) (init_completion f rts [])"
    unfolding init_completion_def by (rule returns_bind [OF speed], rule returns_bind_any) simp
  then show ?thesis using basic speed by (simp add: choose_scheduler_def)
qed

section \<open>The contract\<close>

text \<open>\<open>like\<close> says that only that part of the state matters; each other assumption belongs to one of the
  places where the code changes it. When the fakeroot worker of a task cannot be started, the task is
  counted as ended without having been counted as active, and the run stops there: \<open>J\<close> is what is left.\<close>

locale exec_invariant =
  fixes cf :: exec_config and rts :: run_tasks and I :: "rqe \<Rightarrow> bool" and J :: "rqe \<Rightarrow> bool"
  assumes like: "I s \<Longrightarrow> same_view s u \<Longrightarrow> I u"
    and initial: "distinct (dkeys rts) \<Longrightarrow> sc_buildable sched = [] \<Longrightarrow> 0 < cf_number_tasks cf \<Longrightarrow> I (empty_exec rts n sched)"
    and ready: "I s \<Longrightarrow> t \<in> buildable_set s \<Longrightarrow> set (depends_of (ex_tasks s) t) \<subseteq> set (ex_complete s)"
    and keys: "I s \<Longrightarrow> distinct (dkeys (ex_tasks s))"
    and fired: "I s \<Longrightarrow> plain_event e \<Longrightarrow> I (fire e s)"
    and buildable: "I s \<Longrightarrow> set (depends_of (ex_tasks s) t) \<subseteq> set (ex_complete s) \<Longrightarrow> I (setbuildable t s)"
    and completed: "I s \<Longrightarrow> ended t (ex_events s) \<Longrightarrow> I (s\<lparr>ex_complete := sadd t (ex_complete s)\<rparr>)"
    and scheduled: "I s \<Longrightarrow> set (sc_buildable sched) \<subseteq> set (sc_buildable (ex_sched s)) \<Longrightarrow> I (s\<lparr>ex_sched := sched\<rparr>)"
    and skipped: "I s \<Longrightarrow> t \<in> buildable_set s \<Longrightarrow> I (s\<lparr>ex_running := sadd t (ex_running s)\<rparr>)"
    and task_completed: "I s \<Longrightarrow> I (fire (TaskCompleted t) (with_stats taskCompleted s))"
    and task_failed: "I s \<Longrightarrow> I (fire (TaskFailed t) (with_stats taskFailed s))"
    and broken: "I s \<Longrightarrow> load s < cf_number_tasks cf \<Longrightarrow>
      J (with_stats taskFailed ((fire (TaskStarted t False) s)\<lparr>ex_phase := Failed\<rparr>))"
    and dead: "I s \<Longrightarrow> t \<notin> set (scenes_at_work (ex_events s)) \<Longrightarrow> I (s\<lparr>ex_sq_live := removeAll t (ex_sq_live s)\<rparr>)"
    and activated: "I s \<Longrightarrow> t \<in> buildable_set s \<Longrightarrow> load s < cf_number_tasks cf \<Longrightarrow>
      I (activate t (fire (TaskStarted t True) s))"
    and sent: "I s \<Longrightarrow> t \<in> buildable_set s \<Longrightarrow> t \<notin> set (ex_running s) \<Longrightarrow> load s < cf_number_tasks cf \<Longrightarrow>
      I (send_task i t mc name fn fake s)"
    and scene_sent: "I s \<Longrightarrow> load s < cf_number_tasks cf \<Longrightarrow> I (send_setscene i t mc name fn fake s)"
begin

lemma like_iff: "same_view s u \<Longrightarrow> I u = I s"
  using like same_view_sym by blast

lemma minor [simp]:
  "I (s\<lparr>ex_phase := p\<rparr>) = I s" "I (s\<lparr>ex_failed_tids := a\<rparr>) = I s" "I (s\<lparr>ex_sq_deferred := q\<rparr>) = I s"
  "I (s\<lparr>ex_tasksrun := a\<rparr>) = I s" "I (s\<lparr>ex_updated_taskhash_queue := w\<rparr>) = I s"
  "I (s\<lparr>ex_build_stamps := b\<rparr>) = I s" "I (s\<lparr>ex_build_stamps2 := a\<rparr>) = I s"
  "I (s\<lparr>ex_tasks_covered := a\<rparr>) = I s" "I (s\<lparr>ex_tasks_notcovered := a\<rparr>) = I s"
  "I (s\<lparr>ex_holdoff_tasks := a\<rparr>) = I s" "I (s\<lparr>ex_holdoff_need_update := x\<rparr>) = I s" "I (s\<lparr>ex_sqdone := x\<rparr>) = I s"
  "I (s\<lparr>ex_sq_buildable := a\<rparr>) = I s" "I (s\<lparr>ex_notcovered := a\<rparr>) = I s" "I (s\<lparr>ex_scenequeue_done := a\<rparr>) = I s"
  "I (s\<lparr>ex_sq := y\<rparr>) = I s"
  by (rule like_iff, simp)+

lemma stats_like [simp]:
  "st_active (f (ex_stats s)) = st_active (ex_stats s) \<Longrightarrow> st_total (f (ex_stats s)) = st_total (ex_stats s) \<Longrightarrow> I (with_stats f s) = I s"
  by (rule like_iff) (simp add: same_view_def with_stats_def)

lemma via_scene: "I s \<Longrightarrow> returns (scene_like s) m \<Longrightarrow> returns I m"
  by (erule returns_weaken) (blast intro: like scene_like_view)

lemma via_sq:
  assumes "\<And>u c. sq_core u = c \<Longrightarrow> returns (\<lambda>t. sq_core t = c) (f u)" and "I s"
  shows "returns I (f s)"
  by (rule via_scene [OF assms(2)], rule returns_sq_scene, rule assms(1), assumption, simp)

lemma depends: "dlookup (ex_tasks s) t = Inr e \<Longrightarrow> set (rte_depends e) \<subseteq> set (ex_complete s) \<Longrightarrow> I s \<Longrightarrow> I (setbuildable t s)"
  using buildable by (simp add: dlookup_depends)

lemma release_revdep_keeps: "I s \<Longrightarrow> returns I (release_revdep t s)"
  by (auto simp: release_revdep_def all_complete_def depends intro!: returns_bind_any)

lemma release_deferred_keeps:
  assumes "I (fst st)"
  shows "returns (\<lambda>r. I (fst r)) (release_deferred cf i task t st)"
proof -
  obtain s found where st: "st = (s, found)" by (cases st)
  have s: "I s" using assms by (simp add: st)
  have upd: "returns (\<lambda>r. I (fst r))
      (rbind (update_scenequeue_data cf i [t] (s\<lparr>ex_sq_deferred := q\<rparr>)) (\<lambda>s. Inr (s, Some t)))" for q
    by (rule returns_bind [OF via_sq [where f = "update_scenequeue_data cf i [t]", OF update_scenequeue_data_core]])
      (simp_all add: s)
  show ?thesis
    unfolding st release_deferred_def prod.case
    by (cases found; intro returns_bind_any returns_if) (simp_all add: s upd)
qed

lemma task_completeoutright_keeps:
  assumes "I s" and "ended task (ex_events s)"
  shows "returns I (task_completeoutright cf i task s)"
  unfolding task_completeoutright_def Let_def
proof (rule returns_bind_any, rule returns_bind [where Q = I])
  fix e
  show "returns I (rfold release_revdep (rte_revdeps e) (s\<lparr>ex_complete := sadd task (ex_complete s)\<rparr>))"
    using assms by (intro returns_fold release_revdep_keeps completed)
next
  fix u assume u: "I u"
  show "returns I
     (rbind (rfold (release_deferred cf i task) (sort (dkeys (ex_sq_deferred u))) (u, None)) (\<lambda>(s, found). Inr s))"
    by (rule returns_bind [where Q = "\<lambda>r. I (fst r)"], intro returns_fold release_deferred_keeps) (auto simp: u)
qed

lemma task_complete_keeps:
  assumes "I s"
  shows "returns I (task_complete cf i task s)"
proof -
  have "returns I (task_completeoutright cf i task (fire (TaskCompleted task) (with_stats taskCompleted s)))"
    by (rule task_completeoutright_keeps [OF task_completed [OF assms]]) (simp add: fire_def ended_def)
  then show ?thesis unfolding task_complete_def by (rule returns_bind) simp
qed

lemma task_fail_keeps:
  assumes "I s"
  shows "returns I (task_fail cf task s)"
proof -
  have "fire e (u\<lparr>ex_failed_tids := a\<rparr>) = (fire e u)\<lparr>ex_failed_tids := a\<rparr>" for e u a by (simp add: fire_def)
  then have "I (fire (TaskFailed task) ((with_stats taskFailed s)\<lparr>ex_failed_tids := a\<rparr>))" for a
    using task_failed [OF assms] by simp
  then show ?thesis unfolding task_fail_def Let_def by (intro returns_bind_any) simp
qed

lemma task_skip_keeps:
  assumes "I s" and "task \<in> buildable_set s"
  shows "returns I (task_skip cf i task s)"
proof -
  define s1 where "s1 = fire (TaskSkipped task) (setbuildable task (s\<lparr>ex_running := sadd task (ex_running s)\<rparr>))"
  have "I s1" unfolding s1_def
    using skipped [OF assms] ready [OF assms] by (intro fired buildable) (simp_all add: plain_event_def)
  then have "returns I (task_completeoutright cf i task s1)"
    by (rule task_completeoutright_keeps) (simp add: s1_def fire_def ended_def)
  then show ?thesis unfolding task_skip_def s1_def [symmetric]
    by (rule returns_bind) (simp add: taskCompleted_def taskSkipped_def)
qed

text \<open>The end of a setscene task is reported before it is taken off the live ones.\<close>

definition off_work :: "string \<Rightarrow> rqe \<Rightarrow> bool" where
  "off_work t s \<longleftrightarrow> I s \<and> t \<notin> set (scenes_at_work (ex_events s))"

lemma off_work_via_sq:
  assumes "\<And>u c. sq_core u = c \<Longrightarrow> returns (\<lambda>t. sq_core t = c) (f u)" and "off_work t s"
  shows "returns (off_work t) (f s)"
proof -
  have "off_work t u" if "scene_like s u" for u
    using like [OF _ scene_like_view [OF that]] scene_like_view [OF that] assms(2) by (simp add: off_work_def same_view_def)
  then show ?thesis by (intro returns_weaken [OF returns_sq_scene [where f = f, OF assms(1) scene_like_refl]]) simp_all
qed

lemma off_work_reported: "I s \<Longrightarrow> off_work t (fire (SceneCompleted t) s)" "I s \<Longrightarrow> off_work t (fire (SceneFailed t) s)"
  using fired [of s "SceneCompleted t"] fired [of s "SceneFailed t"]
  by (simp_all add: off_work_def plain_event_def) (simp_all add: fire_def scene_change_def)

lemma off_work_minor [simp]:
  "off_work t (s\<lparr>ex_phase := p\<rparr>) = off_work t s" "off_work t (s\<lparr>ex_notcovered := a\<rparr>) = off_work t s"
  by (simp_all add: off_work_def)

lemma sq_task_complete_keeps: "I s \<Longrightarrow> returns (off_work task) (sq_task_complete cf i task s)"
  unfolding sq_task_complete_def
  by (rule off_work_via_sq [where f = "sq_task_completeoutright cf i task", OF sq_task_completeoutright_core])
    (simp_all add: off_work_reported)

lemma sq_check_taskfail_keeps: "off_work t s \<Longrightarrow> returns (off_work t) (sq_check_taskfail cf task s)"
  by (auto simp: sq_check_taskfail_def intro!: returns_bind_any split: option.split)

lemma sq_task_fail_keeps: "I s \<Longrightarrow> returns (off_work task) (sq_task_fail cf i task s)"
  unfolding sq_task_fail_def
  by (rule returns_bind [where Q = "off_work task"],
      rule off_work_via_sq [where f = "scenequeue_updatecounters cf i task True", OF scenequeue_updatecounters_core])
    (simp_all add: off_work_reported sq_check_taskfail_keeps)

lemma forget_stamp_keeps: "I s \<Longrightarrow> returns I (forget_stamp task s)"
  by (auto simp: forget_stamp_def split: option.split)

lemma dead_stats: "off_work t s \<Longrightarrow> I (with_stats (updateActiveSetscene n) (s\<lparr>ex_sq_live := removeAll t (ex_sq_live s)\<rparr>))"
  using dead [of s t] by (simp add: updateActiveSetscene_def off_work_def)

lemma process_waitpid_keeps: "I s \<Longrightarrow> returns I (process_waitpid cf i task status s)"
  unfolding process_waitpid_def Let_def
  by (rule returns_bind [OF forget_stamp_keeps], assumption,
      intro returns_if returns_bind [where Q = "off_work task"] sq_task_fail_keeps sq_task_complete_keeps
        task_fail_keeps task_complete_keeps; simp add: dead_stats)

lemma read_message_keeps: "I s \<Longrightarrow> returns I (read_message cf i m s)"
  by (cases m) (auto simp: read_message_def finish_now_def process_waitpid_keeps intro!: returns_bind_any)

lemma read_workers_keeps: "I s \<Longrightarrow> returns I (read_workers cf i ms s)"
  unfolding read_workers_def by (intro returns_fold read_message_keeps)

text \<open>A part of a call that goes on keeps the invariant; one that leaves it may have stopped the run.\<close>

definition stopped :: "rqe \<Rightarrow> bool" where
  "stopped s \<longleftrightarrow> ex_phase s = Failed \<and> J s"

definition kept :: "rqe \<times> call_again option \<Rightarrow> bool" where
  "kept r \<longleftrightarrow> I (fst r) \<or> (snd r \<noteq> None \<and> stopped (fst r))"

lemma kept_weaken: "returns (\<lambda>r. I (fst r)) m \<Longrightarrow> returns kept m"
  by (erule returns_weaken) (simp add: kept_def)

lemma and_then_keeps:
  assumes "returns kept m" and "\<And>s. I s \<Longrightarrow> returns kept (f s)"
  shows "returns kept (and_then m f)"
  unfolding and_then_def by (rule returns_bind [OF assms(1)]) (auto simp: assms(2) kept_def)

lemma leave_keeps: "returns I m \<Longrightarrow> returns (\<lambda>r. I (fst r)) (leave m)"
  unfolding leave_def by (rule returns_bind) simp_all

lemma start_setscene_keeps:
  assumes "I s" and "load s < cf_number_tasks cf"
  shows "returns (\<lambda>r. I (fst r)) (start_setscene cf i t s)"
proof -
  have s: "I (fire (SceneStarted t) s)" "load (fire (SceneStarted t) s) < cf_number_tasks cf"
    using assms by (simp_all add: fired plain_event_def) (simp add: load_def fire_def)
  have out: "returns I (sq_task_failoutright cf i t s)" "returns I (sq_task_skip cf i t s)"
    by (rule via_scene [OF assms(1)], rule sq_task_failoutright_scene sq_task_skip_scene, simp)+
  show ?thesis
    unfolding start_setscene_def Let_def
    by (intro returns_bind_any; clarify; intro returns_bind_any)
      (auto simp: scene_sent s intro!: leave_keeps out returns_bind_any)
qed

lemma setscene_part_keeps:
  assumes "I s"
  shows "returns (\<lambda>r. I (fst r)) (setscene_part cf i s)"
  unfolding setscene_part_def
proof (intro returns_if)
  assume n: "\<not> (ex_sqdone s \<or> \<not> can_start_task (view_of cf i s))"
  show "returns (\<lambda>r. I (fst r)) (rbind (pick_setscene (length (cf_setscene_tids cf)) cf i s) (\<lambda>(s, p).
        case p of NotThis \<Rightarrow> Inr (s, None) | Leave \<Rightarrow> Inr (s, Some Again) | Start t \<Rightarrow> start_setscene cf i t s))"
  proof (rule returns_bind [OF pick_setscene_scene [OF scene_like_refl]])
    fix r :: "rqe \<times> pick"
    assume "scene_like s (fst r)"
    then have "same_view s (fst r)" by (rule scene_like_view)
    then have "I (fst r)" "load (fst r) < cf_number_tasks cf" using assms n like same_view_load by auto
    then show "returns (\<lambda>r. I (fst r)) (case r of (s, p) \<Rightarrow>
        case p of NotThis \<Rightarrow> Inr (s, None) | Leave \<Rightarrow> Inr (s, Some Again) | Start t \<Rightarrow> start_setscene cf i t s)"
      by (cases r) (auto simp: start_setscene_keeps split: pick.split)
  qed
qed (simp add: assms)

lemma buildable_if_ready_keeps: "I s \<Longrightarrow> returns I (buildable_if_ready t s)"
  by (auto simp: buildable_if_ready_def all_complete_def depends intro!: returns_bind_any)

lemma update_holdofftasks_keeps: "I s \<Longrightarrow> returns I (update_holdofftasks cf s)"
  unfolding update_holdofftasks_def Let_def
  by (intro returns_if returns_bind_any [of "rfold (add_covered _) _ _"] returns_bind_any [of "rfold (hold_off _) _ _"]
      returns_bind [where Q = I] returns_fold buildable_if_ready_keeps) simp_all

lemma summarised_keeps: "I s \<Longrightarrow> I (summarised s)"
  by (simp add: summarised_def fired plain_event_def)

lemma scene_end_keeps: "I s \<Longrightarrow> returns (\<lambda>r. I (fst r)) (scene_end cf s)"
  by (simp add: scene_end_def Let_def summarised_keeps)

lemma start_task_keeps:
  assumes "I s" and "task \<in> buildable_set s" and "task \<notin> set (ex_running s)" and "load s < cf_number_tasks cf"
  shows "returns kept (start_task cf i task s)"
proof -
  have s: "I (fire (TaskStarted task False) s)" using assms(1) by (simp add: fired plain_event_def)
  have more: "task \<in> buildable_set (fire e s)" "task \<notin> set (ex_running (fire e s))"
    "load (fire e s) < cf_number_tasks cf" for e
    using assms(2-4) by (simp_all add: fire_def buildable_set_def load_def)
  have failed: "stopped (with_stats taskFailed ((fire (TaskStarted task False) s)\<lparr>ex_phase := Failed\<rparr>))"
    using broken [OF assms(1,4)] by (simp add: stopped_def with_stats_def)
  have skip: "returns I (rbind (task_skip cf i task s) (\<lambda>s. Inr (s\<lparr>ex_tasksrun := sadd task (ex_tasksrun s)\<rparr>)))"
    by (rule returns_bind [OF task_skip_keeps]) (simp_all add: assms)
  show ?thesis
    unfolding start_task_def
  proof (intro returns_bind_any; clarify; intro returns_bind_any returns_if)
    fix mc fn taskname taskfn flags
    show "returns kept (let fake = under_fakeroot cf flags taskname \<and> cf_allowed cf = None;
                 s = fire (TaskStarted task False) s in
             if fake \<and> mc \<notin> set (ex_fakeworker s) \<and> in_fakeworker_fails i
             then Inr (with_stats taskFailed (s\<lparr>ex_phase := Failed\<rparr>), Some Again)
             else
               let s = send_task i task mc taskname taskfn fake s in
               Inr (s, if can_start_task (view_of cf i s) then Some Again else None))"
      using sent [OF s more] failed by (simp add: Let_def kept_def)
  qed (auto simp: assms activated intro!: kept_weaken leave_keeps task_fail_keeps task_skip_keeps skip task_complete_keeps)
qed

lemma task_part_keeps:
  assumes "I s"
  shows "returns kept (task_part cf i s)"
proof -
  have next': "returns kept (case r of (t, sched) \<Rightarrow>
        let s = s\<lparr>ex_sched := sched\<rparr> in case t of None \<Rightarrow> Inr (s, None) | Some task \<Rightarrow> start_task cf i task s)"
    if r: "handed_out (view_of cf i s) (ex_sched s) r" for r
  proof -
    obtain t sched where rt: "r = (t, sched)" by (cases r)
    define s1 where "s1 = s\<lparr>ex_sched := sched\<rparr>"
    have s1: "I s1" unfolding s1_def using assms r by (intro scheduled) (simp_all add: handed_out_def rt)
    have same: "load s1 = load s" "ex_running s1 = ex_running s" by (simp_all add: s1_def load_def)
    show ?thesis
    proof (cases t)
      case None
      then show ?thesis using s1 by (simp add: rt s1_def kept_def)
    next
      case (Some task)
      then have task: "task \<in> set (sc_buildable sched)" "task \<notin> set (ex_running s)" "load s < cf_number_tasks cf"
        using r by (auto simp: handed_out_def rt view_of_def can_start_task_def load_def)
      then have "task \<in> buildable_set s1" by (auto simp: buildable_set_def s1_def)
      then show ?thesis using start_task_keeps [OF s1, of task] task same by (simp add: rt Some s1_def)
    qed
  qed
  show ?thesis
    unfolding task_part_def
    by (intro returns_if returns_bind [OF next_task_from] next') (simp_all add: assms kept_def)
qed

lemma wait_part_keeps: "I s \<Longrightarrow> returns (\<lambda>r. I (fst r)) (wait_part cf i s)"
  unfolding wait_part_def by (intro returns_if returns_bind [OF read_workers_keeps]) simp_all

lemma last_part_keeps: "I s \<Longrightarrow> returns (\<lambda>r. I (fst r)) (last_part cf s)"
  by (simp add: last_part_def summarised_keeps)

lemma execute_keeps:
  assumes "I s"
  shows "returns kept (execute cf i s)"
proof -
  have mig: "returns I (if ex_updated_taskhash_queue s = [] \<and> ex_pending_migrations s = [] then Inr s
            else process_possible_migrations cf i s)" if "I s" for s
    using that like mig_like_view by (auto intro: returns_weaken [OF process_possible_migrations_mig])
  show ?thesis
    unfolding execute_def
    by (intro returns_bind [OF read_workers_keeps [OF assms]] returns_bind [OF mig] and_then_keeps
        kept_weaken [OF setscene_part_keeps] returns_bind [OF update_holdofftasks_keeps] kept_weaken [OF scene_end_keeps]
        task_part_keeps kept_weaken [OF wait_part_keeps] kept_weaken [OF last_part_keeps])
qed

lemma finish_keeps: "I s \<Longrightarrow> returns (\<lambda>r. I (fst r)) (finish cf i s)"
  unfolding finish_def Let_def by (intro returns_if returns_bind [OF read_workers_keeps]) simp_all

lemma run_phase_keeps:
  assumes "I s \<or> stopped s"
  shows "returns (\<lambda>r. I (fst r) \<or> stopped (fst r)) (run_phase cf i s)"
  unfolding run_phase_def
proof (rule returns_bind [where Q = "\<lambda>r. I (fst r) \<or> stopped (fst r)"])
  have "returns (\<lambda>r. I (fst r) \<or> stopped (fst r)) (execute cf i s)" if "I s"
    by (rule returns_weaken [OF execute_keeps [OF that]]) (auto simp: kept_def)
  then show "returns (\<lambda>r. I (fst r) \<or> stopped (fst r)) (if ex_phase s = Running then execute cf i s else Inr (s, None))"
    using assms by (auto simp: stopped_def)
next
  fix r :: "rqe \<times> call_again option"
  assume "I (fst r) \<or> stopped (fst r)"
  then obtain u x where r: "r = (u, x)" "I u \<or> stopped u" by (cases r) simp
  have "returns (\<lambda>r. I (fst r) \<or> stopped (fst r)) (rbind (finish cf i u) (\<lambda>(s, r). Inr (s, Some r)))" if "I u"
    by (rule returns_bind [OF finish_keeps [OF that]]) auto
  then have fin: "returns (\<lambda>r. I (fst r) \<or> stopped (fst r))
      (if ex_phase u = CleanUp then rbind (finish cf i u) (\<lambda>(s, r). Inr (s, Some r)) else Inr (u, x))"
    using r(2) by (auto simp: stopped_def)
  show "returns (\<lambda>r. I (fst r) \<or> stopped (fst r)) (case r of (s, r) \<Rightarrow>
     rbind (if ex_phase s = CleanUp then rbind (finish cf i s) (\<lambda>(s, r). Inr (s, Some r)) else Inr (s, r)) (\<lambda>(s, r).
       Inr (s, case ex_phase s of Failed \<Rightarrow> TaskFailure (ex_failed_tids s) | Complete \<Rightarrow> AllDone
               | _ \<Rightarrow> CallAgain (case r of None \<Rightarrow> Again | Some r \<Rightarrow> r))))"
    unfolding r(1) prod.case by (rule returns_bind [OF fin]) auto
qed

lemma unskip_task_keeps:
  assumes "I (snd (snd st))"
  shows "returns (\<lambda>r. I (snd (snd r))) (unskip_task setscene orig t st)"
proof -
  obtain u new s where st: "st = (u, new, s)" by (cases st)
  then have s: "I s" using assms by simp
  show ?thesis
    unfolding unskip_task_def st prod.case Let_def
    by (intro returns_if returns_bind_any) (auto simp: s depends)
qed

lemma unskip_loop_keeps: "I s \<Longrightarrow> returns (\<lambda>r. I (snd r)) (unskip_loop n setscene u s)"
proof (induction n arbitrary: u s)
  case 0
  then show ?case by simp
next
  case (Suc n)
  show ?case
    unfolding unskip_loop.simps
    by (rule returns_bind [where Q = "\<lambda>r. I (snd (snd r))"], intro returns_fold unskip_task_keeps)
      (auto simp: Suc.prems Suc.IH)
qed

lemma build_scenequeue_data_keeps:
  assumes "I s"
  shows "returns I (build_scenequeue_data cf i s)"
  unfolding build_scenequeue_data_def Let_def
  by (rule returns_bind_any, rule returns_bind [OF unskip_loop_keeps [OF assms]])
    (auto intro!: returns_bind_any)

lemma new_exec_holds: "distinct (dkeys rts) \<Longrightarrow> returns I (new_exec cf i name rts)"
  unfolding new_exec_def
proof (intro returns_if returns_bind [OF choose_scheduler_buildable])
  fix sched :: scheduler
  assume "distinct (dkeys rts)" and "sc_buildable sched = []" and "\<not> cf_number_tasks cf \<le> 0"
  then have "I (empty_exec rts n sched)" for n by (intro initial) simp_all
  then show "returns I
    (rbind (build_scenequeue_data cf i (empty_exec rts (length (cf_setscene_tids cf)) sched)) (\<lambda>s.
       update_scenequeue_data cf i (dkeys (sq_revdeps (ex_sq s))) s))"
    by (intro returns_bind [OF build_scenequeue_data_keeps] via_sq [OF update_scenequeue_data_core])
qed simp

lemma no_setscene_keeps:
  assumes "I s"
  shows "I (no_setscene s)"
proof -
  let ?f = "\<lambda>(tid, e) s.
        let s = (if rte_depends e = [] then setbuildable tid s else s)
        in s\<lparr>ex_tasks_notcovered := sadd tid (ex_tasks_notcovered s)\<rparr>"
  have "I u \<Longrightarrow> (\<forall>(t, e)\<in>set xs. rte_depends e = depends_of (ex_tasks u) t) \<Longrightarrow> I (fold ?f xs u)" for xs u
    by (induction xs arbitrary: u) (auto simp: Let_def buildable)
  moreover have "\<forall>(t, e)\<in>set (ex_tasks s). rte_depends e = depends_of (ex_tasks s) t"
    using keys [OF assms] by (auto simp: depends_of_def dget_def dkeys_def)
  ultimately show ?thesis using assms by (simp add: no_setscene_def)
qed

text \<open>So the invariant holds in every state of a run that was not stopped.\<close>

lemma run_state_holds: "run_state cf name rts ok s \<Longrightarrow> distinct (dkeys rts) \<Longrightarrow> I s \<or> stopped s"
proof (induction rule: run_state.induct)
  case (started i s)
  then show ?case using returnsD [OF new_exec_holds started(1)] by (simp add: start_running_def no_setscene_keeps)
next
  case (called s i t r)
  then show ?case using returnsD [OF run_phase_keeps called(3)] by auto
qed

end

end
