(* ===== verification/ExecSafety.thy ===== *)
theory ExecSafety
  imports ExecInvariant ExecSample
begin

text \<open>
  What holds in every state between two calls of the run queue: a task is only sent to a worker when
  everything it depends on has ended, and only once, and the run queue's own count of active tasks stays
  within the limit.
\<close>

section \<open>Dependencies first, and every task once\<close>

definition run_inv :: "run_tasks \<Rightarrow> rqe \<Rightarrow> bool" where
  "run_inv rts s \<longleftrightarrow> distinct (dkeys rts) \<and> graph_of (ex_tasks s) = graph_of rts \<and>
     st_total (ex_stats s) = int (length rts) \<and>
     (\<forall>t\<in>buildable_set s. set (depends_of rts t) \<subseteq> set (ex_complete s)) \<and>
     (\<forall>t\<in>set (ex_complete s). ended t (ex_events s)) \<and>
     deps_first (depends_of rts) (ex_events s) \<and> distinct (sent_tasks (ex_events s)) \<and>
     set (sent_tasks (ex_events s)) \<subseteq> set (ex_running s)"

lemma run_inv_graph: "run_inv rts s \<Longrightarrow> depends_of (ex_tasks s) = depends_of rts \<and> dkeys (ex_tasks s) = dkeys rts"
  by (simp add: run_inv_def graph_of_def)

lemma run_inv_view: "run_inv rts s \<Longrightarrow> same_view s u \<Longrightarrow> run_inv rts u"
  by (simp add: run_inv_def same_view_def buildable_set_def)

lemma run_inv_fired: "run_inv rts s \<Longrightarrow> (\<And>t f. e \<noteq> RunTask t f) \<Longrightarrow> run_inv rts (fire e s)"
  by (cases e) (auto simp: run_inv_def buildable_set_def fire_def deps_first_snoc)

lemma run_inv_sent:
  assumes "run_inv rts s" and "t \<in> buildable_set s" and "t \<notin> set (ex_running s)"
  shows "run_inv rts (send_task i t mc name fn fake s)"
proof -
  have "\<forall>u\<in>set (depends_of rts t). ended u (ex_events s)" using assms by (auto simp: run_inv_def)
  then show ?thesis using assms
    by (auto simp: send_task_def activate_def note_stamp_def with_stats_def taskActive_def run_inv_def buildable_set_def deps_first_snoc)
qed

lemma run_inv_scene: "run_inv rts s \<Longrightarrow> run_inv rts (send_setscene i t mc name fn fake s)"
  by (auto simp: send_setscene_def Let_def note_stamp_def with_stats_def updateActiveSetscene_def run_inv_def
      buildable_set_def deps_first_snoc)

lemma run_inv_initial:
  "distinct (dkeys rts) \<Longrightarrow> sc_buildable sched = [] \<Longrightarrow> run_inv rts (empty_exec rts n sched)"
  by (simp add: run_inv_def empty_exec_def buildable_set_def deps_first_def sent_tasks_def init_stats_def)

lemma run_inv_ready: "run_inv rts s \<Longrightarrow> t \<in> buildable_set s \<Longrightarrow> set (depends_of (ex_tasks s) t) \<subseteq> set (ex_complete s)"
  using run_inv_graph [of rts s] by (simp add: run_inv_def)

lemma run_inv_buildable:
  "run_inv rts s \<Longrightarrow> set (depends_of (ex_tasks s) t) \<subseteq> set (ex_complete s) \<Longrightarrow> run_inv rts (setbuildable t s)"
  using run_inv_graph [of rts s] by (auto simp: run_inv_def buildable_set_def setbuildable_def newbuildable_def)

lemma run_inv_completed:
  "run_inv rts s \<Longrightarrow> ended t (ex_events s) \<Longrightarrow> run_inv rts (s\<lparr>ex_complete := sadd t (ex_complete s)\<rparr>)"
  by (auto simp: run_inv_def buildable_set_def)

lemma run_inv_scheduled:
  "run_inv rts s \<Longrightarrow> set (sc_buildable sched) \<subseteq> set (sc_buildable (ex_sched s)) \<Longrightarrow> run_inv rts (s\<lparr>ex_sched := sched\<rparr>)"
  by (auto simp: run_inv_def buildable_set_def)

lemma run_inv_running: "run_inv rts s \<Longrightarrow> run_inv rts (s\<lparr>ex_running := sadd t (ex_running s)\<rparr>)"
  by (auto simp: run_inv_def buildable_set_def)

lemma run_inv_stats: "run_inv rts s \<Longrightarrow> st_total (f (ex_stats s)) = st_total (ex_stats s) \<Longrightarrow> run_inv rts (with_stats f s)"
  by (simp add: run_inv_def buildable_set_def with_stats_def)

lemma run_inv_dead: "run_inv rts s \<Longrightarrow> run_inv rts (s\<lparr>ex_sq_live := a\<rparr>)"
  by (simp add: run_inv_def buildable_set_def)

lemma run_inv_ended:
  assumes "run_inv rts s" and "\<And>t f. e \<noteq> RunTask t f"
  shows "run_inv rts (fire e (with_stats taskCompleted s))" "run_inv rts (fire e (with_stats taskFailed s))"
  using run_inv_stats [OF assms(1), of taskCompleted] run_inv_stats [OF assms(1), of taskFailed] assms(2)
  by (simp_all add: run_inv_fired taskCompleted_def taskFailed_def)

lemma run_inv_activated:
  assumes "run_inv rts s"
  shows "run_inv rts (activate t (fire (TaskStarted t True) s))"
  using run_inv_stats [OF run_inv_running [OF run_inv_fired [OF assms]]] by (simp add: activate_def taskActive_def)

lemma run_inv_broken:
  assumes "run_inv rts s"
  shows "run_inv rts (with_stats taskFailed ((fire (TaskStarted t False) s)\<lparr>ex_phase := p\<rparr>))"
proof -
  have "run_inv rts (fire (TaskStarted t False) s)" using assms by (simp add: run_inv_fired)
  then have "run_inv rts ((fire (TaskStarted t False) s)\<lparr>ex_phase := p\<rparr>)" by (rule run_inv_view) simp
  then show ?thesis by (rule run_inv_stats) (simp add: taskFailed_def)
qed

lemma plain_not_sent: "plain_event e \<Longrightarrow> e \<noteq> RunTask t f"
  by (auto simp: plain_event_def)

interpretation order: exec_invariant cf rts "run_inv rts" "run_inv rts" for cf rts
proof
  fix s :: rqe
  assume s: "run_inv rts s"
  show "distinct (dkeys (ex_tasks s))" using s run_inv_graph [OF s] by (simp add: run_inv_def)
  show "run_inv rts (fire e s)" if "plain_event e" for e using run_inv_fired [OF s] plain_not_sent [OF that] by simp
qed (simp_all add: run_inv_initial run_inv_ready run_inv_buildable run_inv_ended run_inv_activated run_inv_broken run_inv_completed run_inv_scheduled
      run_inv_running run_inv_dead run_inv_sent run_inv_scene, rule run_inv_view)

lemma run_state_inv: "run_state cf name rts ok s \<Longrightarrow> distinct (dkeys rts) \<Longrightarrow> run_inv rts s"
  using order.run_state_holds [of cf name rts ok s] by (auto simp: order.stopped_def)

lemma kept_inv: "returns (order.kept rts) m \<Longrightarrow> returns (\<lambda>r. run_inv rts (fst r)) m"
  by (erule returns_weaken) (auto simp: order.kept_def order.stopped_def)

text \<open>C8: whatever the workers, the stamps and the hash server answer, in every state of a run a task has been
  sent to a worker only after each of its dependencies had been completed or skipped, and no task has
  been sent twice.\<close>

theorem tasks_after_dependencies:
  assumes "run_state cf name rts ok s" and "distinct (dkeys rts)"
  shows "deps_first (depends_of rts) (ex_events s) \<and> distinct (sent_tasks (ex_events s))"
  using run_state_inv [OF assms] by (simp add: run_inv_def)

lemma sample_distinct: "distinct (dkeys sample_graph)"
  by code_simp

lemma tasks_after_dependencies_witness:
  "\<exists>s. run_state (sample_config [] None) ''speed'' sample_graph (\<lambda>_. True) s \<and>
     sent_tasks (ex_events s) = [sample_compile, sample_build] \<and>
     deps_first (depends_of sample_graph) (ex_events s)"
proof -
  obtain s where s: "sample_exec (sample_config [] None) sample_msgs = Inr (s, AllDone)"
    "sent_tasks (ex_events s) = [sample_compile, sample_build]"
    using events_ofD [OF sample_built] by (auto simp: sent_tasks_def)
  have r: "run_state (sample_config [] None) ''speed'' sample_graph (\<lambda>_. True) s"
    by (rule sample_run_state [OF s(1)]) simp
  show ?thesis using r s(2) tasks_after_dependencies [OF r sample_distinct] by blast
qed

section \<open>The limit on parallel tasks\<close>

text \<open>The count of active tasks is the number of tasks begun less the number of those reported as ended.\<close>

definition begun_not_reported :: "rqe \<Rightarrow> int" where
  "begun_not_reported s = int (length (begun_tasks (ex_events s))) - int (length (reported_tasks (ex_events s)))"

definition live_covers :: "rqe \<Rightarrow> bool" where
  "live_covers s \<longleftrightarrow> distinct (scenes_at_work (ex_events s)) \<and> set (scenes_at_work (ex_events s)) \<subseteq> set (ex_sq_live s)"

definition load_inv :: "int \<Rightarrow> run_tasks \<Rightarrow> rqe \<Rightarrow> bool" where
  "load_inv n rts s \<longleftrightarrow> run_inv rts s \<and> load s \<le> n \<and> begun_not_reported s = st_active (ex_stats s) \<and> live_covers s"

text \<open>What is left when a worker could not be started.\<close>

definition work_bounded :: "int \<Rightarrow> run_tasks \<Rightarrow> rqe \<Rightarrow> bool" where
  "work_bounded n rts s \<longleftrightarrow> begun_not_reported s + int (length (ex_sq_live s)) \<le> n \<and> live_covers s"

lemma load_inv_bounded: "load_inv n rts s \<Longrightarrow> work_bounded n rts s"
  by (simp add: load_inv_def work_bounded_def load_def)

lemma load_changes:
  "load (fire e s) = load s" "load (setbuildable t s) = load s" "load (s\<lparr>ex_complete := a\<rparr>) = load s"
  "load (s\<lparr>ex_sched := c\<rparr>) = load s" "load (s\<lparr>ex_running := a\<rparr>) = load s"
  "load (activate t s) = load s + 1" "load (send_task i t mc name fn fake s) = load s + 1"
  "load (s\<lparr>ex_sq_live := removeAll t (ex_sq_live s)\<rparr>) \<le> load s"
  "load (send_setscene i t mc name fn fake s) \<le> load s + 1"
  "load (empty_exec rts m sched) = 0"
  "load (with_stats taskCompleted s) = load s - 1" "load (with_stats taskFailed s) = load s - 1"
  by (simp_all add: load_def fire_def setbuildable_def activate_def with_stats_def taskActive_def taskCompleted_def
      taskFailed_def send_task_def note_stamp_def send_setscene_def Let_def updateActiveSetscene_def empty_exec_def
      init_stats_def length_removeAll_less_eq)
    (simp_all add: sadd_def)

text \<open>The events, the count and the live tasks of the states that a call goes through.\<close>

lemma work_changes [simp]:
  "ex_events (fire e s) = ex_events s @ [e]" "ex_sq_live (fire e s) = ex_sq_live s" "ex_stats (fire e s) = ex_stats s"
  "ex_events (with_stats f s) = ex_events s" "ex_sq_live (with_stats f s) = ex_sq_live s"
  "ex_stats (with_stats f s) = f (ex_stats s)"
  "ex_events (activate t s) = ex_events s" "ex_sq_live (activate t s) = ex_sq_live s"
  "ex_stats (activate t s) = taskActive (ex_stats s)"
  "ex_events (setbuildable t s) = ex_events s" "ex_sq_live (setbuildable t s) = ex_sq_live s"
  "ex_stats (setbuildable t s) = ex_stats s"
  "ex_events (send_task i t mc name fn fake s) = ex_events s @ [RunTask t fake]"
  "ex_sq_live (send_task i t mc name fn fake s) = ex_sq_live s"
  "ex_stats (send_task i t mc name fn fake s) = taskActive (ex_stats s)"
  "ex_events (send_setscene i t mc name fn fake s) = ex_events s @ [RunSetscene t fake]"
  "ex_sq_live (send_setscene i t mc name fn fake s) = sadd t (ex_sq_live s)"
  "st_active (ex_stats (send_setscene i t mc name fn fake s)) = st_active (ex_stats s)"
  by (simp_all add: fire_def with_stats_def activate_def setbuildable_def send_task_def note_stamp_def send_setscene_def
      Let_def updateActiveSetscene_def)

lemma active_changes [simp]:
  "st_active (taskActive x) = st_active x + 1" "st_active (taskCompleted x) = st_active x - 1"
  "st_active (taskFailed x) = st_active x - 1"
  by (simp_all add: taskActive_def taskCompleted_def taskFailed_def)

lemma plain_counts: "plain_event e \<Longrightarrow> begun_not_reported (fire e s) = begun_not_reported s"
  by (auto simp: begun_not_reported_def plain_event_def split: rq_event.splits bool.splits)

lemma plain_live: "plain_event e \<Longrightarrow> live_covers s \<Longrightarrow> live_covers (fire e s)"
  by (auto simp: live_covers_def plain_event_def scene_change_def distinct_removeAll split: rq_event.splits)

lemma view_counts: "same_view s u \<Longrightarrow> begun_not_reported u = begun_not_reported s \<and> live_covers u = live_covers s"
  by (simp add: same_view_def begun_not_reported_def live_covers_def)

lemma load_inv_fired: "load_inv n rts s \<Longrightarrow> plain_event e \<Longrightarrow> load_inv n rts (fire e s)"
  by (simp add: load_inv_def load_changes plain_counts plain_live order.fired)

lemma load_inv_view: "load_inv n rts s \<Longrightarrow> same_view s u \<Longrightarrow> load_inv n rts u"
  using view_counts [of s u] run_inv_view same_view_load [of s u] by (auto simp: load_inv_def same_view_def)

lemma load_inv_initial:
  "distinct (dkeys rts) \<Longrightarrow> sc_buildable sched = [] \<Longrightarrow> 0 < n \<Longrightarrow> load_inv n rts (empty_exec rts m sched)"
  by (simp add: load_inv_def load_changes run_inv_initial)
    (simp add: begun_not_reported_def live_covers_def empty_exec_def init_stats_def begun_tasks_def reported_tasks_def
      scenes_at_work_def)

lemma work_events:
  "begun_not_reported (fire (TaskCompleted t) s) = begun_not_reported s - 1"
  "begun_not_reported (fire (TaskFailed t) s) = begun_not_reported s - 1"
  "begun_not_reported (fire (TaskStarted t True) s) = begun_not_reported s + 1"
  "begun_not_reported (send_task i t mc name fn fake s) = begun_not_reported s + 1"
  "begun_not_reported (send_setscene i t mc name fn fake s) = begun_not_reported s"
  "begun_not_reported (with_stats f s) = begun_not_reported s"
  "begun_not_reported (activate t s) = begun_not_reported s"
  by (simp_all add: begun_not_reported_def)

lemma live_events:
  "live_covers (fire (TaskCompleted t) s) = live_covers s" "live_covers (fire (TaskFailed t) s) = live_covers s"
  "live_covers (fire (TaskStarted t b) s) = live_covers s" "live_covers (with_stats f s) = live_covers s"
  "live_covers (activate t s) = live_covers s" "live_covers (send_task i t mc name fn fake s) = live_covers s"
  "live_covers s \<Longrightarrow> live_covers (send_setscene i t mc name fn fake s)"
  by (auto simp: live_covers_def scene_change_def)

lemma load_inv_dead:
  assumes "load_inv n rts s" and "t \<notin> set (scenes_at_work (ex_events s))"
  shows "load_inv n rts (s\<lparr>ex_sq_live := removeAll t (ex_sq_live s)\<rparr>)"
  using assms order_trans [OF load_changes(8)]
  by (auto simp: load_inv_def run_inv_dead begun_not_reported_def live_covers_def)

lemma load_inv_broken:
  assumes "load_inv n rts s" and "load s < n"
  shows "work_bounded n rts (with_stats taskFailed ((fire (TaskStarted t False) s)\<lparr>ex_phase := p\<rparr>))"
  using assms by (auto simp: load_inv_def work_bounded_def load_def begun_not_reported_def live_covers_def scene_change_def)

lemma load_inv_sent:
  assumes "load_inv n rts s" and "t \<in> buildable_set s" and "t \<notin> set (ex_running s)" and "load s < n"
  shows "load_inv n rts (send_task i t mc name fn fake s)"
  using assms run_inv_sent [of rts s t] by (simp add: load_inv_def load_changes work_events live_events)

lemma load_inv_scene:
  assumes "load_inv n rts s" and "load s < n"
  shows "load_inv n rts (send_setscene i t mc name fn fake s)"
  using assms load_changes(9) [of i t mc name fn fake s]
  by (simp add: load_inv_def work_events live_events run_inv_scene)

lemma load_inv_state:
  assumes "load_inv n rts s" and "run_inv rts u" and "ex_events u = ex_events s" and "ex_stats u = ex_stats s"
    and "ex_sq_live u = ex_sq_live s"
  shows "load_inv n rts u"
  using assms by (simp add: load_inv_def begun_not_reported_def live_covers_def load_def)

interpretation limit: exec_invariant cf rts "load_inv (cf_number_tasks cf) rts" "work_bounded (cf_number_tasks cf) rts" for cf rts
proof
  fix s :: rqe
  assume s: "load_inv (cf_number_tasks cf) rts s"
  then have inv: "run_inv rts s" by (simp add: load_inv_def)
  show "distinct (dkeys (ex_tasks s))" by (rule order.keys [OF inv])
  show "set (depends_of (ex_tasks s) t) \<subseteq> set (ex_complete s)" if "t \<in> buildable_set s" for t
    by (rule order.ready [OF inv that])
  show "load_inv (cf_number_tasks cf) rts (setbuildable t s)" if "set (depends_of (ex_tasks s) t) \<subseteq> set (ex_complete s)" for t
    by (rule load_inv_state [OF s order.buildable [OF inv that]]) simp_all
  show "load_inv (cf_number_tasks cf) rts (s\<lparr>ex_complete := sadd t (ex_complete s)\<rparr>)" if "ended t (ex_events s)" for t
    by (rule load_inv_state [OF s order.completed [OF inv that]]) simp_all
  show "load_inv (cf_number_tasks cf) rts (s\<lparr>ex_sched := sched\<rparr>)"
    if "set (sc_buildable sched) \<subseteq> set (sc_buildable (ex_sched s))" for sched
    by (rule load_inv_state [OF s order.scheduled [OF inv that]]) simp_all
  show "load_inv (cf_number_tasks cf) rts (s\<lparr>ex_running := sadd t (ex_running s)\<rparr>)" for t
    by (rule load_inv_state [OF s run_inv_running [OF inv]]) simp_all
  show "load_inv (cf_number_tasks cf) rts (activate t (fire (TaskStarted t True) s))" if "load s < cf_number_tasks cf" for t
    using s that run_inv_activated [OF inv, of t] by (simp add: load_inv_def load_changes work_events live_events)
  show "load_inv (cf_number_tasks cf) rts (fire (TaskCompleted t) (with_stats taskCompleted s))"
    "load_inv (cf_number_tasks cf) rts (fire (TaskFailed t) (with_stats taskFailed s))" for t
    using s run_inv_ended [OF inv, of "TaskCompleted t"] run_inv_ended [OF inv, of "TaskFailed t"]
    by (simp_all add: load_inv_def load_changes work_events live_events)
qed (simp_all add: load_inv_initial load_inv_fired load_inv_broken load_inv_dead load_inv_sent load_inv_scene, rule load_inv_view)

text \<open>The workers report the end of a task once, and only of tasks that were begun.\<close>

definition reports_once :: "rq_event list \<Rightarrow> bool" where
  "reports_once es \<longleftrightarrow> distinct (reported_tasks es) \<and> set (reported_tasks es) \<subseteq> set (begun_tasks es)"

lemma length_removed:
  assumes "distinct ys" and "set ys \<subseteq> set xs"
  shows "length (filter (\<lambda>x. x \<notin> set ys) xs) + length ys \<le> length xs"
proof -
  have "set ys \<subseteq> set (filter (\<lambda>x. x \<in> set ys) xs)" using assms(2) by auto
  then have "card (set ys) \<le> length (filter (\<lambda>x. x \<in> set ys) xs)"
    using card_mono [OF finite_set] card_length order_trans by blast
  then have "length ys \<le> length (filter (\<lambda>x. x \<in> set ys) xs)" using distinct_card [OF assms(1)] by simp
  then show ?thesis using sum_length_filter_compl [of "\<lambda>x. x \<in> set ys" xs] by simp
qed

lemma sent_begun: "length (filter P (sent_tasks es)) \<le> length (filter P (begun_tasks es))"
  by (induction es) (auto simp: sent_tasks_def begun_tasks_def split: rq_event.split bool.split)

lemma at_work_counted:
  assumes "reports_once es"
  shows "int (length (tasks_at_work es)) \<le> int (length (begun_tasks es)) - int (length (reported_tasks es))"
  using length_removed [of "reported_tasks es" "begun_tasks es"] sent_begun [of "\<lambda>t. t \<notin> set (reported_tasks es)" es] assms
  by (simp add: reports_once_def tasks_at_work_def)

lemma live_length: "live_covers s \<Longrightarrow> length (scenes_at_work (ex_events s)) \<le> length (ex_sq_live s)"
  unfolding live_covers_def by (metis card_length card_mono distinct_card finite_set le_trans)

text \<open>C10: in every state of a run in which the workers report the end of each task they were given once, the
  tasks sent to them whose end was not yet reported and the setscene tasks sent to them whose end was
  not yet reported are together never more than \<open>BB_NUMBER_THREADS\<close>. (A task that is refused because
  setscene is enforced is reported as failed without having been sent, so the condition excludes it.)\<close>

theorem parallel_limit:
  assumes "run_state cf name rts ok s" and "distinct (dkeys rts)" and "reports_once (ex_events s)"
  shows "int (length (tasks_at_work (ex_events s)) + length (scenes_at_work (ex_events s))) \<le> cf_number_tasks cf"
proof -
  have "work_bounded (cf_number_tasks cf) rts s"
    using limit.run_state_holds [OF assms(1,2)] load_inv_bounded by (auto simp: limit.stopped_def)
  then show ?thesis
    using at_work_counted [OF assms(3)] live_length [of s] by (simp add: work_bounded_def begun_not_reported_def)
qed

lemma sample_sent:
  "events_of (sample_exec (sample_config [] None) [[]]) =
     Some ([TaskStarted sample_compile False, RunTask sample_compile False], Running, [], CallAgain Wait)"
  by code_simp

lemma parallel_limit_witness:
  "\<exists>s. run_state (sample_config [] None) ''speed'' sample_graph (\<lambda>_. True) s \<and>
     tasks_at_work (ex_events s) = [sample_compile] \<and>
     int (length (tasks_at_work (ex_events s)) + length (scenes_at_work (ex_events s))) \<le> 1"
proof -
  obtain s where s: "sample_exec (sample_config [] None) [[]] = Inr (s, CallAgain Wait)"
    "ex_events s = [TaskStarted sample_compile False, RunTask sample_compile False]"
    using events_ofD [OF sample_sent] by auto
  have r: "run_state (sample_config [] None) ''speed'' sample_graph (\<lambda>_. True) s"
    by (rule sample_run_state [OF s(1)]) simp
  have "tasks_at_work (ex_events s) = [sample_compile]" "reports_once (ex_events s)"
    by (simp_all add: s(2) tasks_at_work_def sent_tasks_def reports_once_def reported_tasks_def)
  then show ?thesis using r parallel_limit [OF r sample_distinct] by (auto simp: sample_config_def)
qed

end
