(* ===== verification/ExecOutcome.thy ===== *)
theory ExecOutcome
  imports ExecSafety
begin

text \<open>
  How a run ends: when the run queue reports that all is done, every task has ended; when it reports a
  failure, there is one. The exceptions to this are stated as well.
\<close>

section \<open>Running, or cleaning up after a failure\<close>

definition calm :: "rqe \<Rightarrow> bool" where
  "calm s \<longleftrightarrow> ex_phase s = Running \<or> ex_phase s = CleanUp \<and> ex_failed_tids s \<noteq> []"

lemma calm_update [simp]:
  "calm (s\<lparr>ex_sq_deferred := q\<rparr>) = calm s" "calm (s\<lparr>ex_sq_live := a\<rparr>) = calm s"
  "calm (s\<lparr>ex_tasksrun := a\<rparr>) = calm s" "calm (s\<lparr>ex_updated_taskhash_queue := w\<rparr>) = calm s"
  "calm (s\<lparr>ex_build_stamps := b\<rparr>) = calm s" "calm (s\<lparr>ex_build_stamps2 := a\<rparr>) = calm s"
  "calm (s\<lparr>ex_tasks_covered := a\<rparr>) = calm s" "calm (s\<lparr>ex_tasks_notcovered := a\<rparr>) = calm s"
  "calm (s\<lparr>ex_holdoff_tasks := a\<rparr>) = calm s" "calm (s\<lparr>ex_holdoff_need_update := x\<rparr>) = calm s"
  "calm (s\<lparr>ex_sqdone := x\<rparr>) = calm s" "calm (s\<lparr>ex_notcovered := a\<rparr>) = calm s"
  "calm (s\<lparr>ex_scenequeue_done := a\<rparr>) = calm s" "calm (s\<lparr>ex_sched := d\<rparr>) = calm s"
  "calm (s\<lparr>ex_running := a\<rparr>) = calm s" "calm (s\<lparr>ex_complete := a\<rparr>) = calm s"
  "calm (s\<lparr>ex_sq := y\<rparr>) = calm s" "calm (s\<lparr>ex_events := v\<rparr>) = calm s" "calm (with_stats f s) = calm s" "calm (fire e s) = calm s"
  "calm (setbuildable t s) = calm s" "calm (activate t s) = calm s" "calm (summarised s) = calm s"
  "calm (send_task i t mc name fn fake s) = calm s" "calm (send_setscene i t mc name fn fake s) = calm s"
  by (simp_all add: calm_def with_stats_def fire_def setbuildable_def activate_def summarised_def
      send_task_def send_setscene_def note_stamp_def Let_def)













section \<open>The end of a call\<close>

definition all_built :: "rqe \<Rightarrow> bool" where
  "all_built s \<longleftrightarrow> ex_failed_tids s = [] \<and> set (dkeys (ex_tasks s)) \<subseteq> set (ex_complete s)"

definition well_ended :: "rqe \<Rightarrow> bool" where
  "well_ended s \<longleftrightarrow> calm s \<or> ex_phase s = Failed \<or> ex_phase s = Complete \<and> (st_total (ex_stats s) = 0 \<or> all_built s)"

definition part_ended :: "rqe \<times> call_again option \<Rightarrow> bool" where
  "part_ended r \<longleftrightarrow> (if snd r = None then calm (fst r) else well_ended (fst r))"

lemma part_ended_simps [simp]: "part_ended (s, None) = calm s" "part_ended (s, Some a) = well_ended s"
  by (simp_all add: part_ended_def)












definition all_alive :: "exec_inputs \<Rightarrow> bool" where
  "all_alive i \<longleftrightarrow> WorkerGone \<notin> set (in_messages i @ in_late_messages i @ in_final_messages i)"





lemma sample_alive: "all_alive (sample_inputs [TaskExit t c])" "all_alive (sample_inputs [])" "all_alive (sample_late [TaskExit t c])"
  by (simp_all add: all_alive_def sample_inputs_def sample_late_def)


section \<open>Enforced setscene\<close>

text \<open>When setscene is enforced and a setscene task that must not fail does, the run queue reports that all
  is done, although no task has ended.\<close>

theorem enforced_failure_all_done:
  "\<exists>s. run_state (sample_enforcing [sample_compile]) ''speed'' sample_graph all_alive s \<and> ex_phase s = Complete \<and>
     ex_failed_tids s = [] \<and> SceneFailed sample_compile \<in> set (ex_events s) \<and> (\<forall>t. \<not> ended t (ex_events s))"
proof -
  obtain s0 s where s0: "sample_start (sample_enforcing [sample_compile]) = Inr s0"
    and s: "run_phase (sample_enforcing [sample_compile]) (sample_late [TaskExit sample_compile 1]) s0 = Inr (s, AllDone)"
    "ex_events s = [SceneStarted sample_compile, RunSetscene sample_compile False, SceneFailed sample_compile]"
    "ex_phase s = Complete" "ex_failed_tids s = []"
    using events_ofD [OF sample_enforced] by (auto simp: rbind_eq_Inr)
  have "run_state (sample_enforcing [sample_compile]) ''speed'' sample_graph all_alive s0"
    using s0 sample_run_state [of "sample_enforcing [sample_compile]" "[]"] by simp
  then have "run_state (sample_enforcing [sample_compile]) ''speed'' sample_graph all_alive s"
    using s(1) sample_alive(3) run_state.called by blast
  then show ?thesis using s by (auto simp: ended_def)
qed

text \<open>Asked again, the scheduler gives the same answer: the caches it keeps (the thread limits and the reverse
  priorities) do not change what it finds, and a lower count of active tasks does not stop it.\<close>

definition flags_kept :: "(string, string option) dict \<Rightarrow> (string, string option) dict \<Rightarrow> bool" where
  "flags_kept m m' \<longleftrightarrow> (\<forall>k. has_key m k \<longrightarrow> map_of m' k = map_of m k)"

lemma flags_kept_refl [simp]: "flags_kept m m"
  by (simp add: flags_kept_def)

lemma thread_flag_kept:
  assumes "flags_kept (thread_flag threads name m) m'"
  shows "flags_kept m m'" "thread_flag threads name m' = m'"
    "dget m' name None = dget (thread_flag threads name m) name None"
  using assms
  by (auto simp: flags_kept_def thread_flag_def has_key_def dget_def update_conv' split: if_splits option.splits)

lemma count_running_kept:
  assumes "count_running threads t (m, k) = Inr (m1, k1)" and "flags_kept m1 m'"
  shows "flags_kept m m'" "count_running threads t (m', k) = Inr (m', k1)"
proof -
  obtain name where n: "taskname_from_tid t = Inr name" and m1: "m1 = thread_flag threads name m"
    using assms(1) by (auto simp: count_running_def Let_def rbind_eq_Inr split: option.splits if_splits)
  note kept = thread_flag_kept [OF assms(2) [unfolded m1]]
  show "flags_kept m m'" by (rule kept(1))
  show "count_running threads t (m', k) = Inr (m', k1)"
    using assms(1) n kept(2,3) by (auto simp: count_running_def Let_def rbind_eq_Inr split: option.splits if_splits)
qed

lemma count_running_again:
  "rfold (count_running threads) ts (m, k) = Inr (m1, k1) \<Longrightarrow> flags_kept m1 m' \<Longrightarrow>
     flags_kept m m' \<and> rfold (count_running threads) ts (m', k) = Inr (m', k1)"
proof (induction ts arbitrary: m k)
  case Nil
  then show ?case by simp
next
  case (Cons t ts)
  then obtain m2 k2 where st: "count_running threads t (m, k) = Inr (m2, k2)"
    "rfold (count_running threads) ts (m2, k2) = Inr (m1, k1)"
    by (auto simp: rbind_eq_Inr)
  note rest = Cons.IH [OF st(2) Cons.prems(2)]
  show ?case using count_running_kept [OF st(1)] rest by simp
qed

lemma better_task_again:
  assumes "sc_skip_maxthread s' = sc_skip_maxthread s" and "sc_stamps s' = sc_stamps s"
    and "sv_build_stamps v' = sv_build_stamps v"
  shows "better_task s' v' = better_task s v"
  by (intro ext) (simp only: better_task_def assms)

lemma choose_best_again:
  assumes "choose_best rts v skip xs s = Inr (t, s')" and "sv_build_stamps v' = sv_build_stamps v"
  shows "choose_best rts v' skip xs s' = Inr (t, s') \<and> (\<exists>m. s' = s\<lparr>sc_rev_prio_map := Some m\<rparr>)"
proof -
  obtain m best where m: "(case sc_rev_prio_map s of
              Some m \<Rightarrow> if m = [] then reverse_prio_map rts (sc_prio_map s) else Inr m
            | None \<Rightarrow> reverse_prio_map rts (sc_prio_map s)) = Inr m"
    and best: "rfold (better_task (s\<lparr>sc_rev_prio_map := Some m\<rparr>) v skip m) xs None = Inr best"
    and r: "t = map_option fst best" "s' = s\<lparr>sc_rev_prio_map := Some m\<rparr>"
    using assms(1) by (auto simp: choose_best_def Let_def rbind_eq_Inr)
  have "m \<noteq> [] \<or> reverse_prio_map rts (sc_prio_map s) = Inr m"
    using m by (auto split: option.splits if_splits)
  moreover have "better_task s' v' = better_task (s\<lparr>sc_rev_prio_map := Some m\<rparr>) v"
    using assms(2) by (intro better_task_again) (simp_all add: r)
  ultimately show ?thesis using best by (auto simp: choose_best_def r)
qed

lemma pick_again:
  assumes "(case xs of
             [tid] \<Rightarrow>
               rbind (taskname_from_tid tid) (\<lambda>taskname.
               rbind (at_limit m skip taskname) (\<lambda>full.
               if full then Inr (None, s)
               else rbind (dlookup (sc_stamps s) tid) (\<lambda>stamp.
                 if stamp \<notin> set (sv_build_stamps v) then Inr (Some tid, s)
                 else choose_best rts v skip [] s)))
           | _ \<Rightarrow> choose_best rts v skip xs s) = Inr (Some t, s')"
    and v': "sv_build_stamps v' = sv_build_stamps v"
  shows "(\<exists>p. s' = s\<lparr>sc_rev_prio_map := p\<rparr>) \<and> (case xs of
             [tid] \<Rightarrow>
               rbind (taskname_from_tid tid) (\<lambda>taskname.
               rbind (at_limit m skip taskname) (\<lambda>full.
               if full then Inr (None, s')
               else rbind (dlookup (sc_stamps s') tid) (\<lambda>stamp.
                 if stamp \<notin> set (sv_build_stamps v') then Inr (Some tid, s')
                 else choose_best rts v' skip [] s')))
           | _ \<Rightarrow> choose_best rts v' skip xs s') = Inr (Some t, s')"
proof -
  have best: "choose_best rts v' skip ys s' = Inr (Some t, s') \<and> (\<exists>m. s' = s\<lparr>sc_rev_prio_map := m\<rparr>)"
    if "choose_best rts v skip ys s = Inr (Some t, s')" for ys
    using choose_best_again [OF that v'] by blast
  show ?thesis
  proof (cases "\<exists>x. xs = [x]")
    case True
    then obtain x name full stamp where x: "xs = [x]" "taskname_from_tid x = Inr name" "at_limit m skip name = Inr False"
      "dlookup (sc_stamps s) x = Inr stamp"
      and r: "(if stamp \<notin> set (sv_build_stamps v) then Inr (Some x, s) else choose_best rts v skip [] s) = Inr (Some t, s')"
      using assms(1) by (auto simp: rbind_eq_Inr split: if_splits)
    show ?thesis
    proof (cases "stamp \<in> set (sv_build_stamps v)")
      case True
      then have b: "choose_best rts v skip [] s = Inr (Some t, s')" using r by simp
      show ?thesis using best [OF b] x True v' by auto
    next
      case False
      then have s': "s' = s" "t = x" using r by auto
      have "\<exists>p. s' = s\<lparr>sc_rev_prio_map := p\<rparr>" by (rule exI [of _ "sc_rev_prio_map s"]) (simp add: s')
      then show ?thesis using x False v' by (intro conjI) (simp_all add: s')
    qed
  next
    case False
    then have "(case xs of
             [tid] \<Rightarrow>
               rbind (taskname_from_tid tid) (\<lambda>taskname.
               rbind (at_limit m skip taskname) (\<lambda>full.
               if full then Inr (None, s)
               else rbind (dlookup (sc_stamps s) tid) (\<lambda>stamp.
                 if stamp \<notin> set (sv_build_stamps v) then Inr (Some tid, s)
                 else choose_best rts v skip [] s)))
           | _ \<Rightarrow> choose_best rts v skip xs s) = choose_best rts v skip xs s"
      "(case xs of
             [tid] \<Rightarrow>
               rbind (taskname_from_tid tid) (\<lambda>taskname.
               rbind (at_limit m skip taskname) (\<lambda>full.
               if full then Inr (None, s')
               else rbind (dlookup (sc_stamps s') tid) (\<lambda>stamp.
                 if stamp \<notin> set (sv_build_stamps v') then Inr (Some tid, s')
                 else choose_best rts v' skip [] s')))
           | _ \<Rightarrow> choose_best rts v' skip xs s') = choose_best rts v' skip xs s'"
      by (auto split: list.split)
    then show ?thesis using best [of xs] assms(1) by metis
  qed
qed

lemma next_task_again:
  assumes "next_task rts v s = Inr (Some t, s')" and "a \<le> sv_active v" and "\<not> sv_pressure v"
  shows "next_task rts (v\<lparr>sv_active := a\<rparr>) s' = Inr (Some t, s')"
proof -
  define v' where "v' = v\<lparr>sv_active := a\<rparr>"
  have v': "sv_running v' = sv_running v" "sv_complete v' = sv_complete v" "sv_holdoff v' = sv_holdoff v"
    "sv_covered v' = sv_covered v" "sv_notcovered v' = sv_notcovered v" "sv_build_stamps v' = sv_build_stamps v"
    "sv_threads v' = sv_threads v" "\<not> sv_pressure v'"
    using assms(3) by (simp_all add: v'_def)
  have can: "can_start_task v" and nb: "next_buildable_task rts v s = Inr (Some t, s')"
    using assms(1) by (auto simp: next_task_def split: if_splits)
  have can': "can_start_task v'" using can assms(2) by (simp add: can_start_task_def v'_def)
  define s1 where "s1 = s\<lparr>sc_buildable := filter (\<lambda>t. t \<notin> set (sv_running v)) (sc_buildable s)\<rparr>"
  define xs where "xs = ready_tasks v s1"
  define ts where "ts = filter (\<lambda>t. t \<notin> set (sv_complete v)) (sv_running v)"
  obtain m skip where run: "rfold (count_running (sv_threads v)) ts (sc_skip_maxthread s1, []) = Inr (m, skip)"
    and xs: "xs \<noteq> []" and choice: "(case xs of
             [tid] \<Rightarrow>
               rbind (taskname_from_tid tid) (\<lambda>taskname.
               rbind (at_limit m skip taskname) (\<lambda>full.
               if full then Inr (None, s1\<lparr>sc_skip_maxthread := m\<rparr>)
               else rbind (dlookup (sc_stamps (s1\<lparr>sc_skip_maxthread := m\<rparr>)) tid) (\<lambda>stamp.
                 if stamp \<notin> set (sv_build_stamps v) then Inr (Some tid, s1\<lparr>sc_skip_maxthread := m\<rparr>)
                 else choose_best rts v skip [] (s1\<lparr>sc_skip_maxthread := m\<rparr>))))
           | _ \<Rightarrow> choose_best rts v skip xs (s1\<lparr>sc_skip_maxthread := m\<rparr>)) = Inr (Some t, s')"
    using nb assms(3) unfolding next_buildable_task_def Let_def s1_def [symmetric] xs_def [symmetric] ts_def [symmetric]
    by (auto simp: rbind_eq_Inr split: if_splits)
  then have "\<exists>p. s' = s1\<lparr>sc_skip_maxthread := m, sc_rev_prio_map := p\<rparr>" and again: "(case xs of
             [tid] \<Rightarrow>
               rbind (taskname_from_tid tid) (\<lambda>taskname.
               rbind (at_limit m skip taskname) (\<lambda>full.
               if full then Inr (None, s')
               else rbind (dlookup (sc_stamps s') tid) (\<lambda>stamp.
                 if stamp \<notin> set (sv_build_stamps v') then Inr (Some tid, s')
                 else choose_best rts v' skip [] s')))
           | _ \<Rightarrow> choose_best rts v' skip xs s') = Inr (Some t, s')"
    using pick_again [OF choice v'(6)] by simp_all
  then obtain p where s': "s' = s1\<lparr>sc_skip_maxthread := m, sc_rev_prio_map := p\<rparr>" by blast
  have filtered: "s'\<lparr>sc_buildable := filter (\<lambda>t. t \<notin> set (sv_running v')) (sc_buildable s')\<rparr> = s'"
    by (simp add: s' s1_def v')
  have ready: "ready_tasks v' s' = xs" by (simp add: s' xs_def ready_tasks_def v')
  have counted: "rfold (count_running (sv_threads v')) ts (sc_skip_maxthread s', []) = Inr (m, skip)"
    using count_running_again [OF run flags_kept_refl] by (simp add: s' v')
  have same: "s'\<lparr>sc_skip_maxthread := m\<rparr> = s'" by (simp add: s')
  have "filter (\<lambda>t. t \<notin> set (sv_complete v')) (sv_running v') = ts" by (simp add: ts_def v')
  then have "next_buildable_task rts v' s' = Inr (Some t, s')"
    using again xs v'(8)
    by (simp only: next_buildable_task_def Let_def filtered ready counted rbind_Inr prod.case same simp_thms if_False)
  then show ?thesis using can' by (simp add: next_task_def v'_def [symmetric])
qed

text \<open>The situation in which the scheduler hands out a task that the enforced setscene refuses: the setscene queue
  is done, nothing comes from the workers, and the build goes on after failures.\<close>

definition refusing :: "exec_config \<Rightarrow> exec_inputs \<Rightarrow> string \<Rightarrow> rqe \<Rightarrow> bool" where
  "refusing cf i task s \<longleftrightarrow> cf_allowed cf \<noteq> None \<and> \<not> cf_setsceneonly cf \<and>
     (\<exists>td. dlookup (cf_tds cf) [] = Inr td \<and> \<not> halt td) \<and> in_messages i = [] \<and> \<not> in_pressure i \<and>
     ex_phase s = Running \<and> ex_updated_taskhash_queue s = [] \<and> ex_pending_migrations s = [] \<and> ex_sqdone s \<and>
     \<not> ex_holdoff_need_update s \<and> (\<exists>sched. next_task (ex_tasks s) (view_of cf i s) (ex_sched s) = Inr (Some task, sched)) \<and>
     check_setscene_ignore_tasks cf i task s = Inr True"

lemma refusing_step:
  assumes "refusing cf i task s"
  shows "\<exists>t. run_phase cf i s = Inr (t, CallAgain Again) \<and> refusing cf i task t \<and>
    st_active (ex_stats t) = st_active (ex_stats s) - 1 \<and> ex_failed_tids t = ex_failed_tids s @ [task] \<and>
    ex_events t = ex_events s @ [TaskFailed task] \<and> ex_running t = ex_running s"
proof -
  obtain td sched where td: "dlookup (cf_tds cf) [] = Inr td" "\<not> halt td"
    and sched: "next_task (ex_tasks s) (view_of cf i s) (ex_sched s) = Inr (Some task, sched)"
    using assms by (auto simp: refusing_def)
  obtain x where x: "split_tid_mcfn task = Inr x" and ign: "check_setscene_ignore_tasks cf i task s = Inr True"
    using assms by (auto simp: refusing_def check_setscene_ignore_tasks_def rbind_eq_Inr)
  define s1 where "s1 = s\<lparr>ex_sched := sched\<rparr>"
  let ?t = "fire (TaskFailed task) ((with_stats taskFailed s1)\<lparr>ex_failed_tids := ex_failed_tids s1 @ [task]\<rparr>)"
  have ign1: "check_setscene_ignore_tasks cf i task s1 = Inr True" "check_setscene_ignore_tasks cf i task ?t = Inr True"
    using ign by (simp_all add: check_setscene_ignore_tasks_def s1_def fire_def with_stats_def)
  obtain allowed where "cf_allowed cf = Some allowed" using assms by (auto simp: refusing_def)
  then have "start_task cf i task s1 = Inr (?t, Some Again)"
    using assms x ign1 td by (cases x) (simp add: start_task_def refusing_def leave_def task_fail_def Let_def)
  then have "task_part cf i s = Inr (?t, Some Again)"
    using assms sched by (simp add: task_part_def refusing_def s1_def)
  then have "execute cf i s = Inr (?t, Some Again)"
    using assms by (simp add: execute_def and_then_def refusing_def setscene_part_def update_holdofftasks_def
        scene_end_def read_workers_def)
  then have "run_phase cf i s = Inr (?t, CallAgain Again)"
    using assms by (simp add: run_phase_def refusing_def fire_def with_stats_def s1_def)
  moreover have "view_of cf i ?t = (view_of cf i s)\<lparr>sv_active := st_active (ex_stats s) - 1\<rparr>"
    by (simp add: view_of_def fire_def with_stats_def taskFailed_def s1_def)
  then have "next_task (ex_tasks ?t) (view_of cf i ?t) (ex_sched ?t) = Inr (Some task, sched)"
    using next_task_again [OF sched, of "st_active (ex_stats s) - 1"] assms
    by (simp add: view_of_def refusing_def fire_def with_stats_def s1_def)
  then have "refusing cf i task ?t"
    using assms ign1(2) by (auto simp: refusing_def) (simp_all add: fire_def with_stats_def s1_def)
  ultimately show ?thesis by (simp add: fire_def with_stats_def taskFailed_def s1_def)
qed

text \<open>The same call again and again.\<close>

definition call_times :: "nat \<Rightarrow> exec_config \<Rightarrow> exec_inputs \<Rightarrow> exec_step" where
  "call_times n cf i s = rfold (\<lambda>i s. rbind (run_phase cf i s) (\<lambda>(s, r). Inr s)) (replicate n i) s"

text \<open>C12: when setscene is enforced, the build goes on after failures, the setscene queue is done and the workers
  are quiet, a task that is refused is refused again in every call: each call reports it as failed once
  more and starts nothing, the run queue does not end, and its count of active tasks, by which it limits
  how many tasks run in parallel, falls below every bound.\<close>

theorem refused_forever:
  assumes "refusing cf i task s"
  shows "\<exists>t. call_times n cf i s = Inr t \<and> ex_phase t = Running \<and> st_active (ex_stats t) = st_active (ex_stats s) - int n \<and>
     ex_failed_tids t = ex_failed_tids s @ replicate n task \<and> ex_events t = ex_events s @ replicate n (TaskFailed task) \<and>
     ex_running t = ex_running s"
proof -
  have "\<exists>t. call_times n cf i s = Inr t \<and> refusing cf i task t \<and> st_active (ex_stats t) = st_active (ex_stats s) - int n \<and>
     ex_failed_tids t = ex_failed_tids s @ replicate n task \<and> ex_events t = ex_events s @ replicate n (TaskFailed task) \<and>
     ex_running t = ex_running s"
    using assms
  proof (induction n arbitrary: s)
    case 0
    then show ?case by (simp add: call_times_def)
  next
    case (Suc n)
    obtain u where u: "run_phase cf i s = Inr (u, CallAgain Again)" "refusing cf i task u"
      "st_active (ex_stats u) = st_active (ex_stats s) - 1" "ex_failed_tids u = ex_failed_tids s @ [task]"
      "ex_events u = ex_events s @ [TaskFailed task]" "ex_running u = ex_running s"
      using refusing_step [OF Suc.prems] by blast
    show ?case using Suc.IH [OF u(2)] u(1,3-6) by (auto simp: call_times_def)
  qed
  then show ?thesis by (auto simp: refusing_def)
qed

lemma refusing_start:
  "case sample_exec (sample_enforcing []) [[]] of Inl e \<Rightarrow> False
   | Inr (s, r) \<Rightarrow> ex_phase s = Running \<and> ex_updated_taskhash_queue s = [] \<and> ex_pending_migrations s = [] \<and> ex_sqdone s \<and>
     \<not> ex_holdoff_need_update s \<and>
     map_sum id fst (next_task (ex_tasks s) (view_of (sample_enforcing []) (sample_inputs []) s) (ex_sched s)) = Inr (Some sample_compile) \<and>
     check_setscene_ignore_tasks (sample_enforcing []) (sample_inputs []) sample_compile s = Inr True \<and>
     st_active (ex_stats s) = - 1 \<and> ex_events s = [TaskFailed sample_compile]"
  by code_simp

lemma sample_continues:
  "cf_allowed (sample_enforcing []) \<noteq> None" "\<not> cf_setsceneonly (sample_enforcing [])"
  "\<exists>td. dlookup (cf_tds (sample_enforcing [])) [] = Inr td \<and> \<not> halt td"
  by (simp_all add: sample_enforcing_def sample_config_def dlookup_def init_taskdata_def)

lemma refused_forever_witness:
  "\<exists>s t. run_state (sample_enforcing []) ''speed'' sample_graph all_alive s \<and>
     call_times 3 (sample_enforcing []) (sample_inputs []) s = Inr t \<and> st_active (ex_stats t) = - 4 \<and>
     ex_events t = replicate 4 (TaskFailed sample_compile)"
proof -
  obtain s r where s: "sample_exec (sample_enforcing []) [[]] = Inr (s, r)" "st_active (ex_stats s) = - 1"
    "ex_events s = [TaskFailed sample_compile]" "refusing (sample_enforcing []) (sample_inputs []) sample_compile s"
    using refusing_start sample_continues
    by (auto simp: refusing_def sample_inputs_def map_sum_def simp del: sample_exec.simps split: sum.splits prod.splits)
  have "run_state (sample_enforcing []) ''speed'' sample_graph all_alive s"
    by (rule sample_run_state [OF s(1)]) (simp add: sample_alive)
  then show ?thesis using refused_forever [OF s(4), of 3] s(2,3) by (auto simp: eval_nat_numeral)
qed

end
