(* ===== verification/ExecTermination.thy ===== *)
theory ExecTermination
  imports ExecSafety
begin

text \<open>
  No loop and no recursion of the run queue is cut short by the bound it is modelled with: on a graph
  without dependency loops every call returns or raises an exception of the code.
\<close>

section \<open>Computations that are not cut short\<close>

definition runs :: "'a res \<Rightarrow> bool" where
  "runs m \<longleftrightarrow> m \<noteq> Inl OutOfFuel"

named_theorems runs_rules "computations that are not cut short"

lemma runs_simps [simp]: "runs (Inr x)" "runs (Inl e) \<longleftrightarrow> e \<noteq> OutOfFuel"
  by (simp_all add: runs_def)

lemma runs_bind: "runs m \<Longrightarrow> (\<And>x. m = Inr x \<Longrightarrow> runs (f x)) \<Longrightarrow> runs (rbind m f)"
  by (cases m) (auto simp: runs_def)

lemma runs_bind_returns: "runs m \<Longrightarrow> returns P m \<Longrightarrow> (\<And>x. P x \<Longrightarrow> runs (f x)) \<Longrightarrow> runs (rbind m f)"
  by (cases m) (auto simp: runs_def)

lemma runs_if: "(b \<Longrightarrow> runs m) \<Longrightarrow> (\<not> b \<Longrightarrow> runs n) \<Longrightarrow> runs (if b then m else n)"
  by simp

lemma runs_fold:
  assumes "P s" and "\<And>x u. x \<in> set xs \<Longrightarrow> P u \<Longrightarrow> runs (f x u) \<and> returns P (f x u)"
  shows "runs (rfold f xs s)"
  using assms
proof (induction xs arbitrary: s)
  case Nil
  then show ?case by simp
next
  case (Cons x xs)
  then show ?case by (auto intro!: runs_bind_returns [where P = P])
qed

lemma runs_fold_any: "(\<And>x u. x \<in> set xs \<Longrightarrow> runs (f x u)) \<Longrightarrow> runs (rfold f xs s)"
  by (rule runs_fold [where P = "\<lambda>_. True"]) (simp_all add: returns_def)

lemma runs_map: "(\<And>x. x \<in> set xs \<Longrightarrow> runs (f x)) \<Longrightarrow> runs (rmap f xs)"
  by (induction xs) (auto intro!: runs_bind)

lemma runs_yields: "yields P m \<Longrightarrow> runs m"
  by (cases m) auto

lemma runs_dlookup [simp]: "runs (dlookup d k)"
  by (rule runs_yields [OF yields_lookup])

lemma runs_split [simp]: "runs (split_tid_mcfn tid)"
  by (rule runs_yields [OF yields_split_tid])

lemma runs_taskname [simp]: "runs (taskname_from_tid tid)"
  by (simp add: taskname_from_tid_def split: option.split)

lemma runs_flags [simp]: "runs (task_flags cf mc fn)" "runs (recipe_of cf mc fn)"
  by (auto simp: task_flags_def recipe_of_def intro!: runs_bind)

lemma runs_stamps [simp]: "runs (check_setscene_stamps cf i tid)"
  by (auto simp: check_setscene_stamps_def intro!: runs_bind)

section \<open>The height of a task\<close>

definition sound_graph :: "run_tasks \<Rightarrow> bool" where
  "sound_graph rts \<longleftrightarrow> graph_wf rts \<and> acyclic (edges rts)"

definition height :: "run_tasks \<Rightarrow> string \<Rightarrow> nat" where
  "height rts t = card {u. (t, u) \<in> (edges rts)\<^sup>+}"

lemma edges_within: "sound_graph rts \<Longrightarrow> edges rts \<subseteq> set (dkeys rts) \<times> set (dkeys rts)"
  by (auto simp: sound_graph_def graph_wf_def edges_def)

lemma below_finite:
  assumes "sound_graph rts"
  shows "{u. (t, u) \<in> (edges rts)\<^sup>+} \<subseteq> set (dkeys rts)"
  using trancl_subset_Sigma [OF edges_within [OF assms]] by blast

lemma height_le: "sound_graph rts \<Longrightarrow> height rts t \<le> length rts"
proof -
  assume "sound_graph rts"
  then have "height rts t \<le> card (set (dkeys rts))"
    unfolding height_def by (intro card_mono below_finite) simp
  also have "\<dots> \<le> length rts" using card_length [of "dkeys rts"] by (simp add: dkeys_def)
  finally show ?thesis .
qed

lemma height_less:
  assumes "sound_graph rts" and "(t, u) \<in> edges rts"
  shows "height rts u < height rts t"
  unfolding height_def
proof (rule psubset_card_mono)
  show "finite {v. (t, v) \<in> (edges rts)\<^sup>+}" using below_finite [OF assms(1)] finite_subset by blast
  have "u \<notin> {v. (u, v) \<in> (edges rts)\<^sup>+}" using assms(1) by (auto simp: sound_graph_def acyclic_def)
  moreover have "u \<in> {v. (t, v) \<in> (edges rts)\<^sup>+}" using assms(2) by blast
  moreover have "{v. (u, v) \<in> (edges rts)\<^sup>+} \<subseteq> {v. (t, v) \<in> (edges rts)\<^sup>+}"
    using assms(2) by (auto intro: trancl_into_trancl2)
  ultimately show "{v. (u, v) \<in> (edges rts)\<^sup>+} \<subset> {v. (t, v) \<in> (edges rts)\<^sup>+}" by blast
qed

lemma lookup_edge: "dlookup rts t = Inr e \<Longrightarrow> u \<in> set (rte_depends e) \<Longrightarrow> (t, u) \<in> edges rts"
  by (auto simp: dlookup_Inr edges_def depends_of_def dget_def has_key_iff [symmetric] has_key_def)

lemma sound_graph_of: "graph_of rts = graph_of rts' \<Longrightarrow> sound_graph rts = sound_graph rts'"
  by (simp add: sound_graph_def graph_of_def graph_wf_def edges_def)

section \<open>When a setscene task ends\<close>

lemma done_through_new:
  "returns (\<lambda>r. set (snd r) \<subseteq> set (snd st) \<union> {u. (t, u) \<in> edges rts}) (done_through setscene rts t st)"
proof -
  obtain sd new where st: "st = (sd, new)" by (cases st)
  show ?thesis
    unfolding done_through_def st prod.case Let_def
  proof (rule returns_bind_any)
    fix e assume e: "dlookup rts t = Inr e"
    have "returns (\<lambda>new'. set new' \<subseteq> set new \<union> {u. (t, u) \<in> edges rts})
       (rfold (\<lambda>dep new. if dep \<in> set setscene \<or> dep \<in> set (sadd t sd) then Inr new
          else rbind (dlookup rts dep) (\<lambda>d. Inr (if set (rte_revdeps d) \<subseteq> set (sadd t sd) then sadd dep new else new)))
        (rte_depends e) new)"
      by (rule returns_fold) (auto intro!: returns_if returns_bind_any simp: lookup_edge [OF e])
    then show "returns (\<lambda>r. set (snd r) \<subseteq> set (snd (sd, new)) \<union> {u. (t, u) \<in> edges rts})
       (rbind (rfold (\<lambda>dep new. if dep \<in> set setscene \<or> dep \<in> set (sadd t sd) then Inr new
          else rbind (dlookup rts dep) (\<lambda>d. Inr (if set (rte_revdeps d) \<subseteq> set (sadd t sd) then sadd dep new else new)))
        (rte_depends e) new) (\<lambda>new. Inr (sadd t sd, new)))"
      by (rule returns_bind) simp
  qed
qed

lemma done_through_runs: "runs (done_through setscene rts t st)"
  by (cases st) (auto simp: done_through_def Let_def intro!: runs_bind runs_fold_any)

lemma mark_done_runs:
  assumes "sound_graph rts" and "\<forall>t\<in>set todo. height rts t < n"
  shows "runs (mark_done (Suc n) setscene rts todo sd)"
  using assms(2)
proof (induction n arbitrary: todo sd)
  case 0
  then show ?case by simp
next
  case (Suc n)
  have new: "returns (\<lambda>r. \<forall>u\<in>set (snd r). height rts u < n) (rfold (done_through setscene rts) (sort todo) (sd, []))"
  proof (rule returns_fold)
    fix t and st :: "string list \<times> string list"
    assume t: "t \<in> set (sort todo)" and st: "\<forall>u\<in>set (snd st). height rts u < n"
    have "\<forall>u. (t, u) \<in> edges rts \<longrightarrow> height rts u < n"
      using height_less [OF assms(1)] Suc.prems t by fastforce
    then show "returns (\<lambda>r. \<forall>u\<in>set (snd r). height rts u < n) (done_through setscene rts t st)"
      using st by (intro returns_weaken [OF done_through_new]) blast
  qed simp
  show ?case
    unfolding mark_done.simps(2) [of "Suc n"]
    by (intro runs_if runs_bind_returns [OF _ new] runs_fold_any done_through_runs)
      (auto intro: Suc.IH simp del: mark_done.simps)
qed

lemma release_harddeps_runs: "runs (release_harddeps task s)"
  by (auto simp: release_harddeps_def intro!: runs_fold_any runs_bind)

lemma sq_make_buildable_runs: "runs (sq_make_buildable a d s)"
  by (auto simp: sq_make_buildable_def intro!: runs_bind)

lemma updatecounters_rest_runs:
  assumes "sound_graph (ex_tasks s)"
  shows "runs (updatecounters_rest cf task s)"
  unfolding updatecounters_rest_def
proof (intro runs_bind)
  show "runs (rfold (sq_make_buildable (settled s)) (sort d) s)" for d
    by (intro runs_fold_any sq_make_buildable_runs)
  fix d u
  assume "rfold (sq_make_buildable (settled s)) (sort d) s = Inr u"
  then have "sq_core u = sq_core s"
    using returnsD [OF returns_fold [where P = "\<lambda>t. sq_core t = sq_core s"]] sq_make_buildable_core by metis
  then have "ex_tasks u = ex_tasks s" by (rule sq_coreD)
  then show "runs (mark_done (Suc (Suc (length (ex_tasks u)))) (cf_setscene_tids cf) (ex_tasks u) [task] (ex_scenequeue_done u))"
    using assms height_le [OF assms, of task] by (intro mark_done_runs) simp_all
qed (simp_all add: release_harddeps_runs)

text \<open>What \<open>scenequeue_updatecounters\<close> may change of the tasks that are not covered.\<close>

definition grows :: "rqe \<Rightarrow> rqe \<Rightarrow> bool" where
  "grows s t \<longleftrightarrow> ex_tasks t = ex_tasks s \<and> sq_harddeps (ex_sq t) = sq_harddeps (ex_sq s) \<and>
     set (ex_notcovered s) \<subseteq> set (ex_notcovered t)"

lemma grows_refl [simp]: "grows s s"
  by (simp add: grows_def)

lemma grows_trans: "grows s t \<Longrightarrow> grows t u \<Longrightarrow> grows s u"
  by (auto simp: grows_def)

lemma grows_update [simp]:
  "grows s (u\<lparr>ex_sq_buildable := a\<rparr>) = grows s u" "grows s (u\<lparr>ex_scenequeue_done := a\<rparr>) = grows s u"
  "grows s (u\<lparr>ex_harddep_deferred := a\<rparr>) = grows s u" "grows s (count_covered u) = grows s u"
  by (simp_all add: grows_def count_covered_def)

lemma updatecounters_rest_grows: "grows s u \<Longrightarrow> returns (grows s) (updatecounters_rest cf task u)"
  unfolding updatecounters_rest_def release_harddeps_def sq_make_buildable_def
  by (rule returns_bind_any, rule returns_bind [where Q = "grows s"],
      (intro returns_fold returns_bind_any; simp), rule returns_bind_any, rule returns_bind [where Q = "grows s"],
      (intro returns_if returns_fold returns_bind_any; simp), simp)

definition unfailed :: "rqe \<Rightarrow> nat" where
  "unfailed s = card (set (concat (map snd (sq_harddeps (ex_sq s)))) - set (ex_notcovered s))"

lemma unfailed_grows: "grows s t \<Longrightarrow> unfailed t \<le> unfailed s"
  unfolding unfailed_def grows_def by (intro card_mono) auto

lemma failing_grows: "grows s (failing_setscene d s)"
  by (auto simp: grows_def failing_setscene_def)

lemma unfailed_failing:
  assumes "d \<in> set (concat (map snd (sq_harddeps (ex_sq s))))" and "d \<notin> set (ex_notcovered s)"
  shows "unfailed (failing_setscene d s) < unfailed s"
  unfolding unfailed_def using assms
  by (intro psubset_card_mono) (auto simp: failing_setscene_def)

lemma dget_concat: "d \<in> set (dget m k []) \<Longrightarrow> d \<in> set (concat (map snd m))"
  by (cases "map_of m k") (auto simp: dget_def dest!: map_of_SomeD intro!: bexI)

lemma grows_weaken: "returns (grows u) m \<Longrightarrow> grows s u \<Longrightarrow> returns (grows s) m"
  by (erule returns_weaken) (rule grows_trans)

lemma updatecounters_runs:
  assumes "sound_graph (ex_tasks s)"
    and rec: "\<And>d u. grows s u \<Longrightarrow> d \<in> set (concat (map snd (sq_harddeps (ex_sq s)))) \<Longrightarrow> d \<notin> set (ex_notcovered u) \<Longrightarrow>
      runs (f d u) \<and> returns (grows s) (f d u)"
  shows "runs (updatecounters_with cf i f task fail s) \<and> returns (grows s) (updatecounters_with cf i f task fail s)"
proof -
  have one: "runs (fail_harddep cf i f d u) \<and> returns (grows s) (fail_harddep cf i f d u)"
    if "d \<in> set (dget (sq_harddeps (ex_sq s)) task [])" and "grows s u" for d u
    using that rec [of u d] dget_concat [OF that(1)]
    by (auto simp: fail_harddep_def intro!: runs_bind returns_bind_any)
  have hard: "runs (rfold (fail_harddep cf i f) (sort (dget (sq_harddeps (ex_sq s)) task [])) s)"
    "returns (grows s) (rfold (fail_harddep cf i f) (sort (dget (sq_harddeps (ex_sq s)) task [])) s)"
    by (rule runs_fold [where P = "grows s"] returns_fold; simp add: one)+
  have rest: "runs (updatecounters_rest cf task u)" if "grows s u" for u
    using that assms(1) by (intro updatecounters_rest_runs) (simp add: grows_def)
  show ?thesis
    unfolding updatecounters_with_def
    using hard rest updatecounters_rest_grows
    by (auto intro!: runs_bind_returns [where P = "grows s"] returns_bind [where Q = "grows s"])
qed

lemma failoutright_runs:
  assumes "sound_graph (ex_tasks s)" and "unfailed (failing_setscene task s) < n"
  shows "runs (failoutright_n n cf i task s) \<and> returns (grows s) (failoutright_n n cf i task s)"
  using assms
proof (induction n arbitrary: task s)
  case 0
  then show ?case by simp
next
  case (Suc n)
  let ?s = "failing_setscene task s"
  have "runs (updatecounters_with cf i (failoutright_n n cf i) task True ?s) \<and>
    returns (grows ?s) (updatecounters_with cf i (failoutright_n n cf i) task True ?s)"
  proof (rule updatecounters_runs)
    show "sound_graph (ex_tasks ?s)" using Suc.prems(1) by (simp add: failing_setscene_def)
    fix d u
    assume u: "grows ?s u" and d: "d \<in> set (concat (map snd (sq_harddeps (ex_sq ?s))))" "d \<notin> set (ex_notcovered u)"
    have "unfailed (failing_setscene d u) < unfailed u"
      using u d by (intro unfailed_failing) (simp_all add: grows_def)
    also have "unfailed u \<le> unfailed ?s" by (rule unfailed_grows [OF u])
    finally have "unfailed (failing_setscene d u) < n" using Suc.prems(2) by simp
    moreover have "sound_graph (ex_tasks u)" using u Suc.prems(1) by (simp add: grows_def failing_setscene_def)
    ultimately show "runs (failoutright_n n cf i d u) \<and> returns (grows ?s) (failoutright_n n cf i d u)"
      using Suc.IH [of u d] grows_weaken [OF _ u] by blast
  qed
  then show ?case using grows_weaken [OF _ failing_grows] by auto
qed

lemma unfailed_fuel: "unfailed s < sq_fuel s"
proof -
  have "unfailed s \<le> card (set (concat (map snd (sq_harddeps (ex_sq s)))))"
    unfolding unfailed_def by (intro card_mono) auto
  also have "\<dots> \<le> length (concat (map snd (sq_harddeps (ex_sq s))))" by (rule card_length)
  finally show ?thesis by (simp add: sq_fuel_def)
qed

lemma sq_task_failoutright_runs:
  assumes "sound_graph (ex_tasks s)"
  shows "runs (sq_task_failoutright cf i task s)"
proof -
  have "unfailed (failing_setscene task s) < Suc (sq_fuel s)"
    using unfailed_grows [OF failing_grows, of task s] unfailed_fuel [of s] by simp
  then show ?thesis unfolding sq_task_failoutright_def using failoutright_runs [OF assms] by blast
qed

lemma scenequeue_updatecounters_runs:
  assumes "sound_graph (ex_tasks s)"
  shows "runs (scenequeue_updatecounters cf i task fail s)"
  unfolding scenequeue_updatecounters_def
proof (rule conjunct1 [OF updatecounters_runs [OF assms]])
  fix d u
  assume u: "grows s u" and d: "d \<in> set (concat (map snd (sq_harddeps (ex_sq s))))" "d \<notin> set (ex_notcovered u)"
  have "unfailed (failing_setscene d u) < unfailed u"
    using u d by (intro unfailed_failing) (simp_all add: grows_def)
  also have "unfailed u \<le> unfailed s" by (rule unfailed_grows [OF u])
  also have "\<dots> < sq_fuel s" by (rule unfailed_fuel)
  finally have "unfailed (failing_setscene d u) < sq_fuel s" .
  moreover have "sound_graph (ex_tasks u)" using u assms by (simp add: grows_def)
  ultimately show "runs (failoutright_n (sq_fuel s) cf i d u) \<and> returns (grows s) (failoutright_n (sq_fuel s) cf i d u)"
    using failoutright_runs [of u d] grows_weaken [OF _ u] by blast
qed

lemma sq_task_completeoutright_runs: "sound_graph (ex_tasks s) \<Longrightarrow> runs (sq_task_completeoutright cf i task s)"
  unfolding sq_task_completeoutright_def by (rule scenequeue_updatecounters_runs) simp

lemma sq_task_skip_runs: "sound_graph (ex_tasks s) \<Longrightarrow> runs (sq_task_skip cf i task s)"
  unfolding sq_task_skip_def by (rule sq_task_completeoutright_runs) simp

lemma update_scenequeue_data_runs:
  assumes "sound_graph (ex_tasks s)"
  shows "runs (update_scenequeue_data cf i tids s)"
  unfolding update_scenequeue_data_def
proof (intro runs_bind)
  show "runs (rfold (update_one cf i) (sort tids) (s, []))"
  proof (rule runs_fold [where P = "\<lambda>st. sq_core (fst st) = sq_core s"])
    fix tid and st :: "rqe \<times> string list"
    assume st: "sq_core (fst st) = sq_core s"
    obtain u tocheck where u: "st = (u, tocheck)" by (cases st)
    have "ex_tasks u = ex_tasks s" using st sq_coreD(1) [of u s] by (simp add: u)
    then have "runs (update_one cf i tid st)"
      using assms by (auto simp: u update_one_def Let_def with_sq_def intro!: runs_bind sq_task_skip_runs)
    then show "runs (update_one cf i tid st) \<and> returns (\<lambda>st. sq_core (fst st) = sq_core s) (update_one cf i tid st)"
      using update_one_core [OF st] by blast
  qed simp
qed (auto simp: Let_def)

section \<open>Tasks and messages\<close>

lemma inv_graph: "run_inv rts s \<Longrightarrow> sound_graph rts \<Longrightarrow> sound_graph (ex_tasks s)"
  using sound_graph_of [of "ex_tasks s" rts] by (simp add: run_inv_def)

lemma release_revdep_runs: "runs (release_revdep t s)"
  by (auto simp: release_revdep_def intro!: runs_bind)

lemma release_deferred_runs:
  assumes "sound_graph (ex_tasks (fst st))"
  shows "runs (release_deferred cf i task t st)"
  using assms
  by (cases st; cases "snd st") (auto simp: release_deferred_def intro!: runs_bind update_scenequeue_data_runs)

lemma task_completeoutright_runs:
  assumes "run_inv rts s" and "sound_graph rts" and "ended task (ex_events s)"
  shows "runs (task_completeoutright cf i task s)"
  unfolding task_completeoutright_def Let_def
proof (intro runs_bind runs_dlookup)
  fix e
  let ?s = "s\<lparr>ex_complete := sadd task (ex_complete s)\<rparr>"
  show "runs (rfold release_revdep (rte_revdeps e) ?s)" by (intro runs_fold_any release_revdep_runs)
  fix u assume "rfold release_revdep (rte_revdeps e) ?s = Inr u"
  then have u: "run_inv rts u"
    using returnsD [OF returns_fold [where P = "run_inv rts"]] order.release_revdep_keeps order.completed [OF assms(1,3)]
    by metis
  show "runs (rfold (release_deferred cf i task) (sort (dkeys (ex_sq_deferred u))) (u, None))"
    using order.release_deferred_keeps inv_graph [OF _ assms(2)]
    by (intro runs_fold [where P = "\<lambda>st. run_inv rts (fst st)"]) (auto simp: u intro: release_deferred_runs)
qed auto

lemma task_complete_runs:
  assumes "run_inv rts s" and "sound_graph rts"
  shows "runs (task_complete cf i task s)"
proof -
  have "runs (task_completeoutright cf i task (fire (TaskCompleted task) (with_stats taskCompleted s)))"
    by (rule task_completeoutright_runs [OF order.task_completed [OF assms(1)] assms(2)]) (simp add: ended_def)
  then show ?thesis unfolding task_complete_def by (intro runs_bind) simp_all
qed

lemma task_fail_runs: "runs (task_fail cf task s)"
  by (auto simp: task_fail_def Let_def intro!: runs_bind)

lemma task_skip_runs:
  assumes "run_inv rts s" and "sound_graph rts" and "task \<in> buildable_set s"
  shows "runs (task_skip cf i task s)"
proof -
  define s1 where "s1 = fire (TaskSkipped task) (setbuildable task (s\<lparr>ex_running := sadd task (ex_running s)\<rparr>))"
  have "run_inv rts s1" unfolding s1_def
    using order.skipped [OF assms(1,3)] order.ready [OF assms(1,3)] by (intro order.fired order.buildable) (simp_all add: plain_event_def)
  then have "runs (task_completeoutright cf i task s1)"
    by (rule task_completeoutright_runs [OF _ assms(2)]) (simp add: s1_def fire_def ended_def)
  then show ?thesis unfolding task_skip_def s1_def [symmetric] by (intro runs_bind) simp_all
qed

lemma sq_check_taskfail_runs: "runs (sq_check_taskfail cf task s)"
  by (auto simp: sq_check_taskfail_def intro!: runs_bind split: option.split)

lemma process_waitpid_runs:
  assumes "run_inv rts s" and "sound_graph rts"
  shows "runs (process_waitpid cf i task status s)"
  unfolding process_waitpid_def Let_def
proof (rule runs_bind_returns [where P = "run_inv rts"])
  show "runs (forget_stamp task s)" by (simp add: forget_stamp_def split: option.split)
  show "returns (run_inv rts) (forget_stamp task s)" by (rule order.forget_stamp_keeps [OF assms(1)])
  fix u assume u: "run_inv rts u"
  have "sound_graph (ex_tasks u)" using inv_graph u assms(2) by blast
  then have "runs (sq_task_fail cf i task u)" "runs (sq_task_complete cf i task u)"
    by (auto simp: sq_task_fail_def sq_task_complete_def fire_def
        intro!: runs_bind scenequeue_updatecounters_runs sq_task_completeoutright_runs sq_check_taskfail_runs)
  then show "runs (if task \<in> set (ex_sq_live u) then
         rbind (if status \<noteq> 0 then sq_task_fail cf i task u else sq_task_complete cf i task u) (\<lambda>s.
           Inr (with_stats (updateActiveSetscene (int (length (removeAll task (ex_sq_live s)))))
              (s\<lparr>ex_sq_live := removeAll task (ex_sq_live s)\<rparr>)))
       else if status \<noteq> 0 then task_fail cf task u
       else task_complete cf i task u)"
    by (intro runs_if runs_bind task_fail_runs task_complete_runs [OF u assms(2)]) simp_all
qed

lemma read_workers_runs:
  assumes "run_inv rts s" and "sound_graph rts"
  shows "runs (read_workers cf i ms s)"
  unfolding read_workers_def
proof (rule runs_fold [where P = "run_inv rts"])
  fix m u assume u: "run_inv rts u"
  have "runs (read_message cf i m u)"
    by (auto simp: read_message_def intro!: runs_bind process_waitpid_runs [OF u assms(2)] split: worker_msg.split)
  then show "runs (read_message cf i m u) \<and> returns (run_inv rts) (read_message cf i m u)"
    using order.read_message_keeps [OF u] by blast
qed (rule assms)

section \<open>Migrations\<close>

lemma rehash_runs: "runs (rehash u t st)"
  by (cases st) (auto simp: rehash_def intro!: runs_bind)

lemma take_update_runs: "runs (take_update m st)"
  by (cases m; cases st) (auto simp: take_update_def Let_def simp del: rfold.simps intro!: runs_bind runs_fold_any rehash_runs)

lemma add_revdeps_runs: "runs (rfold (add_revdeps rts) xs ys)"
  by (intro runs_fold_any) (auto simp: add_revdeps_def intro!: runs_bind)

lemma add_revdeps_keys:
  assumes "sound_graph rts"
  shows "set ys \<subseteq> set (dkeys rts) \<Longrightarrow> returns (\<lambda>r. set r \<subseteq> set (dkeys rts)) (rfold (add_revdeps rts) xs ys)"
proof (rule returns_fold)
  fix p ys assume ys: "set ys \<subseteq> set (dkeys rts)"
  show "returns (\<lambda>r. set r \<subseteq> set (dkeys rts)) (add_revdeps rts p ys)"
    unfolding add_revdeps_def
  proof (rule returns_bind_any)
    fix e assume "dlookup rts p = Inr e"
    then have "set (rte_revdeps e) \<subseteq> set (dkeys rts)"
      using revdeps_closed [of rts p] assms by (auto simp: sound_graph_def dlookup_Inr revdeps_of_def dget_def)
    then show "returns (\<lambda>r. set r \<subseteq> set (dkeys rts)) (Inr (sunion ys (rte_revdeps e)))" using ys by simp
  qed
qed

lemma dependents_runs:
  assumes "sound_graph rts"
  shows "set todo \<subseteq> set (dkeys rts) - set all \<Longrightarrow> card (set (dkeys rts) - set all) < n \<Longrightarrow> runs (dependents n rts todo all)"
proof (induction n arbitrary: todo all)
  case 0
  then show ?case by simp
next
  case (Suc n)
  let ?all = "sunion all todo"
  show ?case
  proof (cases "todo = []")
    case True
    then show ?thesis by simp
  next
    case False
    then have "hd todo \<in> set todo" by simp
    then have "set (dkeys rts) - set ?all \<subset> set (dkeys rts) - set all" using Suc.prems(1) by auto
    then have "card (set (dkeys rts) - set ?all) < card (set (dkeys rts) - set all)" by (intro psubset_card_mono) simp_all
    then have less: "card (set (dkeys rts) - set ?all) < n" using Suc.prems(2) by linarith
    have "runs (rbind (rfold (add_revdeps rts) todo []) (\<lambda>todo. dependents n rts (filter (\<lambda>t. t \<notin> set ?all) todo) ?all))"
      by (rule runs_bind_returns [OF add_revdeps_runs add_revdeps_keys [OF assms]]) (auto intro!: Suc.IH less)
    then show ?thesis using False by simp
  qed
qed

lemma add_ready_runs: "runs (add_ready i rts p r t ready)"
  by (auto simp: add_ready_def ready_to_rehash_def intro!: runs_bind)

lemma add_ready_keys: "returns (\<lambda>ready'. set (dkeys ready') \<subseteq> insert t (set (dkeys ready))) (add_ready i rts p r t ready)"
  unfolding add_ready_def by (intro returns_bind_any returns_if) auto

lemma rehash_task_runs: "runs (rehash_task us th st)"
  by (cases th; cases st) (auto simp: rehash_task_def Let_def intro!: runs_bind)

lemma rehash_task_total:
  "returns (\<lambda>r. rh_total (fst r) = removeAll (fst th) (rh_total (fst st)) \<and> set (snd r) \<subseteq> set (rh_total (fst r))) (rehash_task us th st)"
  by (cases th; cases st) (auto simp: rehash_task_def Let_def intro!: returns_bind_any)

lemma rehash_tasks_total:
  "returns (\<lambda>r. rh_total (fst r) = filter (\<lambda>t. t \<notin> set (dkeys ready)) (rh_total (fst st)) \<and>
     (ready \<noteq> [] \<longrightarrow> set (snd r) \<subseteq> set (rh_total (fst r))) \<and> (ready = [] \<longrightarrow> r = st))
   (rfold (rehash_task us) ready st)"
proof (induction ready arbitrary: st)
  case Nil
  then show ?case by (simp add: dkeys_def filter_id_conv)
next
  case (Cons th ready)
  show ?case
    unfolding rfold.simps
  proof (rule returns_bind [OF rehash_task_total])
    fix u :: "rehashing \<times> string list"
    assume u: "rh_total (fst u) = removeAll (fst th) (rh_total (fst st)) \<and> set (snd u) \<subseteq> set (rh_total (fst u))"
    have rest: "filter (\<lambda>t. t \<notin> set (dkeys ready)) (rh_total (fst u)) = filter (\<lambda>t. t \<notin> set (dkeys (th # ready))) (rh_total (fst st))"
      using u by (auto simp: removeAll_filter_not_eq dkeys_def intro!: filter_cong)
    show "returns (\<lambda>r. rh_total (fst r) = filter (\<lambda>t. t \<notin> set (dkeys (th # ready))) (rh_total (fst st)) \<and>
       (th # ready \<noteq> [] \<longrightarrow> set (snd r) \<subseteq> set (rh_total (fst r))) \<and> (th # ready = [] \<longrightarrow> r = st)) (rfold (rehash_task us) ready u)"
      using Cons.IH [of u] u unfolding rest by (auto elim!: returns_weaken simp del: set_filter)
  qed
qed

lemma rehash_loop_runs:
  "set todo \<subseteq> set (rh_total r) \<Longrightarrow> length (rh_total r) < n \<Longrightarrow> runs (rehash_loop (Suc n) i p todo r)"
proof (induction n arbitrary: todo r)
  case 0
  then show ?case by simp
next
  case (Suc n)
  have keys: "returns (\<lambda>ready. set (dkeys ready) \<subseteq> set todo) (rfold (add_ready i (ex_tasks (rh_exe r)) p (rh_total r)) todo [])"
    by (rule returns_fold, simp add: dkeys_def, rule returns_weaken [OF add_ready_keys]) auto
  have "runs (rbind (rfold (rehash_task (in_unihashes i (dkeys ready))) ready (r, [])) (\<lambda>(r, todo). rehash_loop (Suc n) i p todo r))"
    if ready: "set (dkeys ready) \<subseteq> set todo" for ready
  proof (rule runs_bind_returns [OF _ rehash_tasks_total])
    fix st :: "rehashing \<times> string list"
    obtain r' todo' where st: "st = (r', todo')" by (cases st)
    assume "rh_total (fst st) = filter (\<lambda>t. t \<notin> set (dkeys ready)) (rh_total (fst (r, []))) \<and>
     (ready \<noteq> [] \<longrightarrow> set (snd st) \<subseteq> set (rh_total (fst st))) \<and> (ready = [] \<longrightarrow> st = (r, []))"
    then have r': "rh_total r' = filter (\<lambda>t. t \<notin> set (dkeys ready)) (rh_total r)" "ready \<noteq> [] \<Longrightarrow> set todo' \<subseteq> set (rh_total r')"
      "ready = [] \<Longrightarrow> todo' = []"
      by (auto simp: st)
    show "runs (case st of (r, todo) \<Rightarrow> rehash_loop (Suc n) i p todo r)"
    proof (cases "ready = []")
      case True
      then show ?thesis using r'(3) by (simp add: st)
    next
      case False
      then have "fst (hd ready) \<in> set (rh_total r)" "fst (hd ready) \<in> set (dkeys ready)"
        using ready Suc.prems(1) by (cases ready; auto simp: dkeys_def)+
      then have "length (rh_total r') < length (rh_total r)"
        unfolding r'(1) by (intro length_filter_less) blast+
      then show ?thesis using Suc.IH [of todo' r'] r'(2) False Suc.prems(2) by (simp add: st)
    qed
  qed (intro runs_fold_any rehash_task_runs)
  then show ?case
    unfolding rehash_loop.simps(2) [of "Suc n"]
    by (intro runs_if runs_bind_returns [OF _ keys] runs_fold_any add_ready_runs) simp_all
qed


lemma rehash_start_subset: "set (rehash_start rts xs) \<subseteq> set xs"
  by (auto simp: rehash_start_def)

lemma mig_like_graph: "mig_like s u \<Longrightarrow> sound_graph (ex_tasks s) \<Longrightarrow> sound_graph (ex_tasks u)"
  using mig_like_view [of s u] sound_graph_of [of "ex_tasks u" "ex_tasks s"] by (simp add: same_view_def)

lemma update_hashes_runs:
  assumes "sound_graph (ex_tasks s)"
  shows "runs (update_hashes i s)"
  unfolding update_hashes_def
proof (rule runs_bind_returns [where P = "\<lambda>t. mig_like s (fst t)"])
  show "runs (rfold take_update (ex_updated_taskhash_queue s) (s, []))"
    by (intro runs_fold_any take_update_runs)
  show "returns (\<lambda>t. mig_like s (fst t)) (rfold take_update (ex_updated_taskhash_queue s) (s, []))"
    by (intro returns_fold take_update_mig) simp_all
  fix st :: "rqe \<times> string list"
  assume m: "mig_like s (fst st)"
  obtain u toprocess where st: "st = (u, toprocess)" by (cases st)
  have u: "sound_graph (ex_tasks u)" using mig_like_graph [OF _ assms] m by (simp add: st)
  have "card (set (dkeys (ex_tasks u)) - set []) < Suc (Suc (length (ex_tasks u)))"
    using card_length [of "dkeys (ex_tasks u)"] by (simp add: dkeys_def)
  then have deps: "runs (dependents (Suc (Suc (length (ex_tasks u)))) (ex_tasks u) todo [])"
    if "set todo \<subseteq> set (dkeys (ex_tasks u))" for todo
    using that by (intro dependents_runs [OF u]) simp_all
  have loop: "runs (rehash_loop (Suc (Suc (length xs))) i p (rehash_start (ex_tasks u) xs) \<lparr>rh_exe = u, rh_total = xs, rh_changed = []\<rparr>)" for xs p
    using rehash_start_subset by (intro rehash_loop_runs) simp_all
  have "runs (rbind (rfold (add_revdeps (ex_tasks u)) toprocess []) (\<lambda>todo.
     rbind (dependents (Suc (Suc (length (ex_tasks u)))) (ex_tasks u) todo []) (\<lambda>remaining.
       let remaining = in_iteration i remaining in
       rbind (rehash_loop (Suc (Suc (length remaining))) i (if remaining = [] then [] else last remaining)
                (rehash_start (ex_tasks u) remaining) \<lparr>rh_exe = u, rh_total = remaining, rh_changed = []\<rparr>) (\<lambda>r.
         Inr (rh_exe r, rh_changed r)))))"
    unfolding Let_def
    by (rule runs_bind_returns [OF add_revdeps_runs add_revdeps_keys [OF u]])
      (auto intro!: runs_bind deps loop simp del: dependents.simps rehash_loop.simps)
  then show "runs (case st of (s, toprocess) \<Rightarrow>
     rbind (rfold (add_revdeps (ex_tasks s)) toprocess []) (\<lambda>todo.
     rbind (dependents (Suc (Suc (length (ex_tasks s)))) (ex_tasks s) todo []) (\<lambda>remaining.
       let remaining = in_iteration i remaining in
       rbind (rehash_loop (Suc (Suc (length remaining))) i (if remaining = [] then [] else last remaining)
                (rehash_start (ex_tasks s) remaining) \<lparr>rh_exe = s, rh_total = remaining, rh_changed = []\<rparr>) (\<lambda>r.
         Inr (rh_exe r, rh_changed r)))))"
    by (simp only: st prod.case)
qed

lemma migrate_runs: "runs (migrate i tid st)"
  by (cases st; cases "snd (snd st)") (auto simp: migrate_def Let_def intro!: runs_bind split: bool.split prod.split)

lemma requeue_runs: "runs (requeue tid st)"
  by (cases st) (auto simp: requeue_def Let_def intro!: runs_bind)

lemma runs_hash_index [simp]: "runs (pending_hash_index dcs rts tid)"
  by (auto simp: pending_hash_index_def Let_def intro!: runs_bind split: option.split)

lemma defer_same_hash_runs: "runs (defer_same_hash cf tid s)"
  by (auto simp: defer_same_hash_def intro!: runs_bind)

lemma retry_tasks_runs:
  assumes "sound_graph (ex_tasks s)"
  shows "runs (retry_tasks cf i ts s)"
  unfolding retry_tasks_def
proof (rule runs_bind_returns [where P = "\<lambda>t. mig_like s (fst t)"])
  show "runs (rfold requeue ts (s, []))" by (intro runs_fold_any requeue_runs)
  show "returns (\<lambda>t. mig_like s (fst t)) (rfold requeue ts (s, []))"
    by (intro returns_fold requeue_mig) simp_all
  fix st :: "rqe \<times> (string \<times> bool) list"
  assume m: "mig_like s (fst st)"
  obtain u ts2 where st: "st = (u, ts2)" by (cases st)
  have u: "mig_like s u" using m by (simp add: st)
  have deferred: "runs (rfold (defer_same_hash cf) xs v)" "mig_like s v \<Longrightarrow> returns (mig_like s) (rfold (defer_same_hash cf) xs v)" for xs v
    by (intro runs_fold_any defer_same_hash_runs) (intro returns_fold defer_same_hash_mig)
  have upd: "runs (update_scenequeue_data cf i xs v)" "returns (mig_like s) (update_scenequeue_data cf i xs v)" if "mig_like s v" for xs v
    using mig_like_graph [OF that assms] that
    by (simp add: update_scenequeue_data_runs, intro returns_mig_sq [OF update_scenequeue_data_core])
  have again: "runs (if ts2 = [] then Inr u
            else rbind (rfold (defer_same_hash cf) (by_multiconfig (sq_multiconfigs (ex_sq u)) (map fst ts2)) (u\<lparr>ex_sqdone := False\<rparr>))
                   (update_scenequeue_data cf i (map fst ts2)))"
    using u by (intro runs_if runs_bind_returns [OF deferred(1) deferred(2)] upd) simp_all
  have again_mig: "returns (mig_like s) (if ts2 = [] then Inr u
            else rbind (rfold (defer_same_hash cf) (by_multiconfig (sq_multiconfigs (ex_sq u)) (map fst ts2)) (u\<lparr>ex_sqdone := False\<rparr>))
                   (update_scenequeue_data cf i (map fst ts2)))"
    using u by (intro returns_if returns_bind [OF deferred(2)] upd) simp_all
  have fail: "runs (rfold (fail_requeued cf i) ts2 v)" if "mig_like s v" for v
  proof (rule runs_fold [where P = "mig_like s"])
    fix t and w :: rqe
    assume w: "mig_like s w"
    then show "runs (fail_requeued cf i t w) \<and> returns (mig_like s) (fail_requeued cf i t w)"
      using mig_like_graph [OF w assms]
      by (intro conjI fail_requeued_mig [OF w]) (auto simp: fail_requeued_def sq_task_failoutright_runs split: prod.split)
  qed (rule that)
  show "runs (case st of (s, update_tasks2) \<Rightarrow>
     rbind (if update_tasks2 = [] then Inr s
            else rbind (rfold (defer_same_hash cf) (by_multiconfig (sq_multiconfigs (ex_sq s)) (map fst update_tasks2))
                          (s\<lparr>ex_sqdone := False\<rparr>))
                   (update_scenequeue_data cf i (map fst update_tasks2))) (\<lambda>s.
       rfold (fail_requeued cf i) update_tasks2 s))"
    unfolding st prod.case by (rule runs_bind_returns [OF again again_mig fail])
qed

lemma process_possible_migrations_runs:
  assumes "sound_graph (ex_tasks s)"
  shows "runs (process_possible_migrations cf i s)"
  unfolding process_possible_migrations_def
proof (rule runs_bind_returns [OF update_hashes_runs [OF assms] update_hashes_mig])
  fix st :: "rqe \<times> string list"
  assume m: "mig_like s (fst st)"
  obtain u changed where st: "st = (u, changed)" by (cases st)
  define v where "v = u\<lparr>ex_pending_migrations :=
                 sunion (ex_pending_migrations u) (filter (\<lambda>t. t \<in> set (cf_setscene_tids cf)) changed)\<rparr>"
  have v: "mig_like s v" using m by (simp add: st v_def)
  have "runs (rbind (rfold (migrate i) (ex_pending_migrations v) (v, changed \<noteq> [], Going [])) (\<lambda>(s, changed, m).
       case m of
         Halted \<Rightarrow> Inr s
       | Going update_tasks \<Rightarrow>
           rbind (retry_tasks cf i update_tasks s) (\<lambda>s.
             Inr (if changed then reset_migrated s else s))))"
  proof (rule runs_bind_returns [where P = "\<lambda>t. mig_like s (fst t)"])
    show "runs (rfold (migrate i) (ex_pending_migrations v) (v, changed \<noteq> [], Going []))"
      by (intro runs_fold_any migrate_runs)
    show "returns (\<lambda>t. mig_like s (fst t)) (rfold (migrate i) (ex_pending_migrations v) (v, changed \<noteq> [], Going []))"
      using v by (intro returns_fold migrate_mig) simp_all
    fix w :: "rqe \<times> bool \<times> migration"
    assume "mig_like s (fst w)"
    then have "sound_graph (ex_tasks (fst w))" by (rule mig_like_graph [OF _ assms])
    then show "runs (case w of (s, changed, m) \<Rightarrow> (case m of
         Halted \<Rightarrow> Inr s
       | Going update_tasks \<Rightarrow>
           rbind (retry_tasks cf i update_tasks s) (\<lambda>s.
             Inr (if changed then reset_migrated s else s))))"
      by (auto intro!: runs_bind retry_tasks_runs split: migration.split prod.split)
  qed
  then show "runs (case st of (s, changed) \<Rightarrow>
     let s = s\<lparr>ex_pending_migrations :=
                 sunion (ex_pending_migrations s) (filter (\<lambda>t. t \<in> set (cf_setscene_tids cf)) changed)\<rparr> in
     rbind (rfold (migrate i) (ex_pending_migrations s) (s, changed \<noteq> [], Going [])) (\<lambda>(s, changed, m).
       case m of
         Halted \<Rightarrow> Inr s
       | Going update_tasks \<Rightarrow>
           rbind (retry_tasks cf i update_tasks s) (\<lambda>s.
             Inr (if changed then reset_migrated s else s))))"
    unfolding st prod.case Let_def v_def [symmetric] .
qed


section \<open>The scheduler\<close>

lemma prio_index_runs [simp]: "runs (prio_index es tid)"
  by (induction es) (auto intro!: runs_bind)

lemma runs_py_int [simp]: "runs (py_int s)"
  by (rule runs_yields [OF py_int_yields])

lemma runs_at_limit [simp]: "runs (at_limit m k name)"
  by (auto simp: at_limit_def intro!: runs_bind split: option.split)

lemma choose_best_runs: "runs (choose_best rts v skip xs s)"
  by (auto simp: choose_best_def better_task_def reverse_prio_map_def Let_def
      intro!: runs_bind runs_fold_any runs_map split: option.split)

lemma count_running_runs: "runs (count_running threads t st)"
  by (cases st) (auto simp: count_running_def Let_def intro!: runs_bind split: option.split)

lemma next_task_runs: "runs (next_task rts v s)"
  by (auto simp: next_task_def next_buildable_task_def Let_def
      intro!: runs_bind runs_fold_any count_running_runs choose_best_runs split: list.split)

section \<open>One call\<close>

lemma leave_runs: "runs m \<Longrightarrow> runs (leave m)"
  by (simp add: leave_def runs_bind)

lemma and_then_runs:
  assumes "runs m" and "returns (\<lambda>r. P (fst r)) m" and "\<And>s. P s \<Longrightarrow> runs (f s)"
  shows "runs (and_then m f)"
  unfolding and_then_def by (rule runs_bind_returns [OF assms(1,2)]) (auto simp: assms(3))

lemma check_dependencies_runs: "runs (check_dependencies cf s t ds)"
  by (auto simp: check_dependencies_def dep_info_def intro!: runs_bind runs_map split: option.split)

lemma settle_setscene_runs: "sound_graph (ex_tasks s) \<Longrightarrow> runs (settle_setscene cf i t s)"
  by (auto simp: settle_setscene_def Let_def intro!: runs_bind sq_task_failoutright_runs)

lemma try_setscene_runs: "sound_graph (ex_tasks s) \<Longrightarrow> runs (try_setscene cf i t s)"
  by (auto simp: try_setscene_def not_needed_def skip_unneeded_def
      intro!: runs_bind check_dependencies_runs settle_setscene_runs sq_task_skip_runs split: option.split)

lemma scene_like_graph: "scene_like s u \<Longrightarrow> ex_tasks u = ex_tasks s"
  by (simp add: scene_like_def)

lemma pick_setscene_runs: "sound_graph (ex_tasks s) \<Longrightarrow> runs (pick_setscene n cf i s)"
proof (induction n arbitrary: s)
  case 0
  then show ?case by simp
next
  case (Suc n)
  let ?s = "s\<lparr>ex_cycle := Suc (ex_cycle s)\<rparr>"
  show ?case
    unfolding pick_setscene.simps Let_def
  proof (rule runs_bind_returns [where P = "\<lambda>r. scene_like ?s (fst r)"])
    fix r :: "rqe \<times> pick"
    assume "scene_like ?s (fst r)"
    then have "sound_graph (ex_tasks (fst r))" using Suc.prems scene_like_graph by fastforce
    then show "runs (case r of (s, p) \<Rightarrow> if p = NotThis then pick_setscene n cf i s else Inr (s, p))"
      by (cases r) (auto intro: Suc.IH)
  qed (simp_all add: Suc.prems try_setscene_runs try_setscene_scene)
qed

lemma start_setscene_runs: "sound_graph (ex_tasks s) \<Longrightarrow> runs (start_setscene cf i t s)"
  by (auto simp: start_setscene_def Let_def intro!: runs_bind leave_runs sq_task_failoutright_runs sq_task_skip_runs)

lemma setscene_part_runs:
  assumes "sound_graph (ex_tasks s)"
  shows "runs (setscene_part cf i s)"
  unfolding setscene_part_def
proof (intro runs_if runs_bind_returns [OF pick_setscene_runs [OF assms] pick_setscene_scene [OF scene_like_refl]])
  fix r :: "rqe \<times> pick"
  assume "scene_like s (fst r)"
  then have "sound_graph (ex_tasks (fst r))" using assms by (simp add: scene_like_graph)
  then show "runs (case r of (s, p) \<Rightarrow>
        case p of NotThis \<Rightarrow> Inr (s, None) | Leave \<Rightarrow> Inr (s, Some Again) | Start t \<Rightarrow> start_setscene cf i t s)"
    by (cases r) (auto simp: start_setscene_runs split: pick.split)
qed simp

lemma update_holdofftasks_runs: "runs (update_holdofftasks cf s)"
  by (auto simp: update_holdofftasks_def Let_def add_covered_def hold_off_def buildable_if_ready_def
      intro!: runs_bind runs_fold_any)

lemma check_ignore_runs: "runs (check_setscene_ignore_tasks cf i t s)"
  by (auto simp: check_setscene_ignore_tasks_def intro!: runs_bind)

lemma start_task_runs:
  assumes "run_inv rts s" and "sound_graph rts" and "task \<in> buildable_set s"
  shows "runs (start_task cf i task s)"
proof -
  have act: "run_inv rts (activate task (fire (TaskStarted task True) s))"
    by (rule run_inv_activated [OF assms(1)])
  show ?thesis
    using task_skip_runs [OF assms] task_complete_runs [OF act assms(2)]
    by (auto simp: start_task_def Let_def intro!: runs_bind leave_runs check_ignore_runs task_fail_runs)
qed

lemma task_part_runs:
  assumes "run_inv rts s" and "sound_graph rts"
  shows "runs (task_part cf i s)"
  unfolding task_part_def
proof (intro runs_if runs_bind_returns [OF next_task_runs next_task_from])
  fix r :: "string option \<times> scheduler"
  assume r: "handed_out (view_of cf i s) (ex_sched s) r"
  obtain t sched where rt: "r = (t, sched)" by (cases r)
  have s: "run_inv rts (s\<lparr>ex_sched := sched\<rparr>)"
    using assms(1) r by (intro run_inv_scheduled) (simp_all add: handed_out_def rt)
  have "runs (start_task cf i task (s\<lparr>ex_sched := sched\<rparr>))" if "t = Some task" for task
    using r that by (intro start_task_runs [OF s assms(2)]) (auto simp: handed_out_def rt buildable_set_def)
  then show "runs (case r of (t, sched) \<Rightarrow>
        let s = s\<lparr>ex_sched := sched\<rparr> in case t of None \<Rightarrow> Inr (s, None) | Some task \<Rightarrow> start_task cf i task s)"
    by (simp add: rt Let_def split: option.split)
qed simp

lemma wait_part_runs: "run_inv rts s \<Longrightarrow> sound_graph rts \<Longrightarrow> runs (wait_part cf i s)"
  by (auto simp: wait_part_def intro!: runs_bind read_workers_runs)

lemma execute_runs:
  assumes "run_inv rts s" and "sound_graph rts"
  shows "runs (execute cf i s)"
proof -
  have mig: "returns (run_inv rts) (if ex_updated_taskhash_queue s = [] \<and> ex_pending_migrations s = [] then Inr s
            else process_possible_migrations cf i s)" if "run_inv rts s" for s
    using that order.like mig_like_view by (auto intro: returns_weaken [OF process_possible_migrations_mig])
  have mig_runs: "runs (if ex_updated_taskhash_queue s = [] \<and> ex_pending_migrations s = [] then Inr s
            else process_possible_migrations cf i s)" if "run_inv rts s" for s
    using inv_graph [OF that assms(2)] by (simp add: process_possible_migrations_runs)
  have scene: "runs (setscene_part cf i u)" if "run_inv rts u" for u
    using inv_graph [OF that assms(2)] by (rule setscene_part_runs)
  show ?thesis
    unfolding execute_def
    by (intro runs_bind_returns [OF read_workers_runs [OF assms] order.read_workers_keeps [OF assms(1)]]
        runs_bind_returns [OF mig_runs mig] and_then_runs [where P = "run_inv rts"] runs_bind_returns [OF update_holdofftasks_runs order.update_holdofftasks_keeps]
        scene order.setscene_part_keeps order.scene_end_keeps kept_inv [OF order.task_part_keeps] order.wait_part_keeps
        task_part_runs [OF _ assms(2)] wait_part_runs [OF _ assms(2)])
      (simp_all add: scene_end_def last_part_def Let_def)
qed

lemma finish_runs: "run_inv rts s \<Longrightarrow> sound_graph rts \<Longrightarrow> runs (finish cf i s)"
  by (auto simp: finish_def Let_def intro!: runs_bind read_workers_runs)

lemma run_phase_runs:
  assumes "run_inv rts s" and "sound_graph rts"
  shows "runs (run_phase cf i s)"
  unfolding run_phase_def
proof (rule runs_bind_returns [where P = "\<lambda>r. run_inv rts (fst r)"])
  show "runs (if ex_phase s = Running then execute cf i s else Inr (s, None))"
    using execute_runs [OF assms] by simp
  show "returns (\<lambda>r. run_inv rts (fst r)) (if ex_phase s = Running then execute cf i s else Inr (s, None))"
    using assms(1) by (simp add: kept_inv [OF order.execute_keeps])
qed (auto intro!: runs_bind finish_runs [OF _ assms(2)])


section \<open>The start of the execution\<close>

lemma keys_of_map [simp]: "dkeys (map (\<lambda>(k, v). (k, f v)) d) = dkeys d"
  by (induction d) (auto simp: dkeys_def)

lemma dadd_runs [simp]: "runs (dadd k x d)"
  by (auto simp: dadd_def intro!: runs_bind)

lemma second_endpoints_runs: "runs (second_endpoints rts tid st)"
  by (cases st) (auto simp: second_endpoints_def second_endpoint_def intro!: runs_bind runs_fold_any)

lemma walk_point_runs: "runs (walk_point setscene rts pt st)"
  by (cases pt; cases st) (auto simp: walk_point_def walk_dep_def Let_def intro!: runs_bind runs_fold_any)

lemma walk_dep_new:
  "returns (\<lambda>r. set (dkeys (snd r)) \<subseteq> insert dep (set (dkeys (snd st)))) (walk_dep setscene point task tasks dep st)"
  by (cases st) (auto simp: walk_dep_def Let_def intro!: returns_bind_any)

lemma walk_point_new:
  "returns (\<lambda>r. set (dkeys (snd r)) \<subseteq> set (dkeys (snd st)) \<union> {u. (fst pt, u) \<in> edges rts}) (walk_point setscene rts pt st)"
proof -
  obtain b newendpoints where st: "st = (b, newendpoints)" by (cases st)
  obtain point task where pt: "pt = (point, task)" by (cases pt)
  let ?P = "\<lambda>r :: sq_build \<times> (string, string list) dict. set (dkeys (snd r)) \<subseteq> set (dkeys newendpoints) \<union> {u. (point, u) \<in> edges rts}"
  have deps: "returns ?P (rfold (walk_dep setscene point task tasks) (rte_depends e) (c, newendpoints))"
    if "dlookup rts point = Inr e" for tasks e c
  proof (rule returns_fold)
    fix dep and u :: "sq_build \<times> (string, string list) dict"
    assume "dep \<in> set (rte_depends e)" and "?P u"
    then show "returns ?P (walk_dep setscene point task tasks dep u)"
      using lookup_edge [OF that] by (intro returns_weaken [OF walk_dep_new]) blast
  qed simp
  show ?thesis
    unfolding st pt walk_point_def prod.case Let_def fst_conv snd_conv
    by (intro returns_bind_any returns_if deps) auto
qed

lemma process_endpoints_runs:
  assumes "sound_graph rts" and "\<forall>t\<in>set (dkeys endpoints). height rts t < n"
  shows "runs (process_endpoints (Suc n) setscene rts endpoints b)"
  using assms(2)
proof (induction n arbitrary: endpoints b)
  case 0
  then have "endpoints = []" by (cases endpoints) (auto simp: dkeys_def)
  then show ?case by simp
next
  case (Suc n)
  have new: "returns (\<lambda>r. \<forall>t\<in>set (dkeys (snd r)). height rts t < n) (rfold (walk_point setscene rts) endpoints (b, []))"
  proof (rule returns_fold)
    fix pt and st :: "sq_build \<times> (string, string list) dict"
    assume pt: "pt \<in> set endpoints" and st: "\<forall>t\<in>set (dkeys (snd st)). height rts t < n"
    have "\<forall>u. (fst pt, u) \<in> edges rts \<longrightarrow> height rts u < n"
      using height_less [OF assms(1)] Suc.prems pt by (fastforce simp: dkeys_def)
    then show "returns (\<lambda>r. \<forall>t\<in>set (dkeys (snd r)). height rts t < n) (walk_point setscene rts pt st)"
      using st by (intro returns_weaken [OF walk_point_new]) blast
  qed (simp add: dkeys_def)
  show ?case
    unfolding process_endpoints.simps(2) [of "Suc n"]
    by (rule runs_bind_returns [OF runs_fold_any [OF walk_point_runs] new])
      (auto intro: Suc.IH simp del: process_endpoints.simps)
qed

lemma squash_graph_runs:
  assumes "sound_graph rts"
  shows "runs (squash_graph setscene rts)"
proof -
  have "runs (process_endpoints (Suc (Suc (length rts))) setscene rts endpoints b)" for endpoints b
    using height_le [OF assms] by (intro process_endpoints_runs [OF assms]) (simp add: le_imp_less_Suc)
  then show ?thesis
    unfolding squash_graph_def by (intro runs_bind runs_fold_any second_endpoints_runs) (simp split: prod.split)
qed

lemma unskip_task_runs: "runs (unskip_task setscene orig tid st)"
  by (cases st) (auto simp: unskip_task_def Let_def intro!: runs_bind)


lemma unskip_task_grows:
  fixes st :: "string list \<times> bool \<times> rqe"
  assumes "sound_graph rts" and "ex_tasks (snd (snd st)) = rts" and "set orig \<subseteq> set (fst st)" and "set (fst st) \<subseteq> set (dkeys rts)"
    and "fst (snd st) \<longrightarrow> set (fst st) \<noteq> set orig"
  shows "returns (\<lambda>r. ex_tasks (snd (snd r)) = rts \<and> set orig \<subseteq> set (fst r) \<and> set (fst r) \<subseteq> set (dkeys rts) \<and>
     (fst (snd r) \<longrightarrow> set (fst r) \<noteq> set orig)) (unskip_task setscene orig tid st)"
proof -
  obtain u new s where st: "st = (u, new, s)" by (cases st)
  have "set (rte_depends e) \<subseteq> set (dkeys rts)" if "dlookup rts tid = Inr e" for e
    using lookup_edge [OF that] edges_within [OF assms(1)] by blast
  then show ?thesis
    using assms(2-5) unfolding st unskip_task_def prod.case Let_def fst_conv snd_conv
    by (intro returns_if returns_bind_any; auto)
qed

lemma unskip_loop_runs:
  assumes "sound_graph rts"
  shows "ex_tasks s = rts \<Longrightarrow> set u \<subseteq> set (dkeys rts) \<Longrightarrow> card (set (dkeys rts) - set u) < n \<Longrightarrow> runs (unskip_loop n setscene u s)"
proof (induction n arbitrary: u s)
  case 0
  then show ?case by simp
next
  case (Suc n)
  let ?P = "\<lambda>r :: string list \<times> bool \<times> rqe. ex_tasks (snd (snd r)) = rts \<and> set u \<subseteq> set (fst r) \<and>
     set (fst r) \<subseteq> set (dkeys rts) \<and> (fst (snd r) \<longrightarrow> set (fst r) \<noteq> set u)"
  have grown: "returns ?P (rfold (unskip_task setscene u) (rev (sort u)) (u, False, s))"
  proof (rule returns_fold)
    fix x and r :: "string list \<times> bool \<times> rqe"
    assume "?P r"
    then show "returns ?P (unskip_task setscene u x r)" by (intro unskip_task_grows [OF assms]) simp_all
  qed (simp add: Suc.prems)
  have step: "runs (unskip_loop n setscene v t)" if "ex_tasks t = rts" "set u \<subseteq> set v" "set v \<subseteq> set (dkeys rts)" "\<not> set v \<subseteq> set u" for v t
  proof -
    have "set (dkeys rts) - set v \<subset> set (dkeys rts) - set u" using that by blast
    then have "card (set (dkeys rts) - set v) < card (set (dkeys rts) - set u)" by (intro psubset_card_mono) simp_all
    then show ?thesis using that Suc.prems(3) by (intro Suc.IH) simp_all
  qed
  show ?case
    unfolding unskip_loop.simps
  proof (rule runs_bind_returns [OF runs_fold_any [OF unskip_task_runs] grown])
    fix r :: "string list \<times> bool \<times> rqe"
    assume r: "?P r"
    then have "fst (snd r) \<Longrightarrow> \<not> set (fst r) \<subseteq> set u" by blast
    then show "runs (case r of (v, new, t) \<Rightarrow> if new then unskip_loop n setscene v t else Inr (v, t))"
      using r step [of "snd (snd r)" "fst r"] by (simp add: case_prod_beta)
  qed
qed

lemma first_unskippable_keys: "set (first_unskippable (cant_skip cf rts) rts) \<subseteq> set (dkeys rts)"
  by (auto simp: first_unskippable_def cant_skip_def dkeys_def has_key_def dest: map_of_SomeD split: option.splits intro: rev_image_eqI)

lemma harddeps_of_runs: "runs (harddeps_of cf i rts tid q)"
  by (auto simp: harddeps_of_def harddep_def Let_def intro!: runs_bind runs_fold_any split: option.split list.split)

lemma index_hash_runs: "runs (index_hash cf rts tid st)"
  by (cases st) (auto simp: index_hash_def intro!: runs_bind)

lemma squashed_deps_runs: "runs (squashed_deps d)"
  by (auto simp: squashed_deps_def intro!: runs_fold_any)

lemma check_squashed_runs: "runs (check_squashed setscene ts d)"
  by (auto simp: check_squashed_def split: prod.split)

lemma build_scenequeue_data_runs:
  assumes "sound_graph (ex_tasks s)"
  shows "runs (build_scenequeue_data cf i s)"
proof -
  have "card (set (dkeys (ex_tasks s)) - set (first_unskippable (cant_skip cf (ex_tasks s)) (ex_tasks s))) < Suc (Suc (length (ex_tasks s)))"
    using card_mono [of "set (dkeys (ex_tasks s))" "set (dkeys (ex_tasks s)) - set (first_unskippable (cant_skip cf (ex_tasks s)) (ex_tasks s))"]
      card_length [of "dkeys (ex_tasks s)"] by (simp add: dkeys_def)
  then have unskip: "runs (unskip_loop (Suc (Suc (length (ex_tasks s)))) (cf_setscene_tids cf)
      (first_unskippable (cant_skip cf (ex_tasks s)) (ex_tasks s)) s)"
    by (intro unskip_loop_runs [OF assms refl] first_unskippable_keys)
  show ?thesis
    unfolding build_scenequeue_data_def Let_def
    by (auto intro!: runs_bind squash_graph_runs [OF assms] unskip runs_fold_any check_squashed_runs harddeps_of_runs
        squashed_deps_runs index_hash_runs simp del: unskip_loop.simps)
qed

lemma choose_scheduler_runs: "runs (choose_scheduler name f rts xs)"
proof -
  have "runs (recipe_tasks t d)" for t d by (simp add: recipe_tasks_def split: option.split prod.split)
  moreover have "runs (move_tasks n t st)" for n t st
    unfolding move_tasks_def by (intro runs_fold_any) (auto simp: move_task_def Let_def intro!: runs_bind split: prod.split)
  ultimately have order: "runs (completion_order rts)"
    by (auto simp: completion_order_def Let_def intro!: runs_bind runs_fold_any)
  have init: "runs (init_scheduler f rts xs)"
    by (auto simp: init_scheduler_def intro!: runs_bind runs_fold_any split: prod.split)
  show ?thesis using order init
    by (auto simp: choose_scheduler_def init_speed_def init_completion_def intro!: runs_bind)
qed

lemma new_exec_runs:
  assumes "sound_graph rts"
  shows "runs (new_exec cf i name rts)"
  unfolding new_exec_def
proof (intro runs_if runs_bind choose_scheduler_runs)
  fix sched :: scheduler and s
  let ?s = "empty_exec rts (length (cf_setscene_tids cf)) sched"
  have tasks: "ex_tasks ?s = rts" by (simp add: empty_exec_def)
  then show "runs (build_scenequeue_data cf i ?s)" using assms by (intro build_scenequeue_data_runs) simp
  assume s: "choose_scheduler name (in_stampfile i) rts [] = Inr sched" "build_scenequeue_data cf i ?s = Inr s"
    and n: "\<not> cf_number_tasks cf \<le> 0"
  have "distinct (dkeys rts)" using assms by (simp add: sound_graph_def graph_wf_def)
  then have "run_inv rts ?s" using returnsD [OF choose_scheduler_buildable s(1)] by (rule run_inv_initial)
  then have "run_inv rts s" using returnsD [OF order.build_scenequeue_data_keeps s(2)] by blast
  then show "runs (update_scenequeue_data cf i (dkeys (sq_revdeps (ex_sq s))) s)"
    using assms by (intro update_scenequeue_data_runs) (rule inv_graph)
qed simp

text \<open>C11: on a task graph whose two directions agree and which has no dependency loop, no loop of the run queue
  is cut short by the bound it is modelled with: neither the construction of its state nor any call in any
  state of a run, whatever the workers, the stamps and the hash server answer; each returns, or raises an
  exception of the code.\<close>

theorem calls_terminate:
  assumes "sound_graph rts"
  shows "new_exec cf i name rts \<noteq> Inl OutOfFuel \<and> (run_state cf name rts ok s \<longrightarrow> run_phase cf j s \<noteq> Inl OutOfFuel)"
proof -
  have "distinct (dkeys rts)" using assms by (simp add: sound_graph_def graph_wf_def)
  then have "run_inv rts s" if "run_state cf name rts ok s" using run_state_inv [OF that] by simp
  then show ?thesis using new_exec_runs [OF assms] run_phase_runs [OF _ assms] by (simp add: runs_def)
qed

lemma sample_sound: "sound_graph sample_graph"
proof -
  have e: "edges sample_graph = {(sample_build, sample_compile)}"
    by (auto simp: edges_def sample_graph_def depends_of_def dget_def dkeys_def sample_build_def sample_compile_def split: if_splits)
  have "graph_wf sample_graph" by code_simp
  moreover have "acyclic ({} :: (string \<times> string) set)" by (simp add: acyclic_def)
  ultimately show ?thesis unfolding sound_graph_def e by (simp add: acyclic_insert sample_build_def sample_compile_def)
qed

lemma calls_terminate_witness:
  "\<exists>s. run_state (sample_config [] None) ''speed'' sample_graph (\<lambda>_. True) s \<and>
     sent_tasks (ex_events s) = [sample_compile, sample_build] \<and>
     run_phase (sample_config [] None) (sample_inputs []) s \<noteq> Inl OutOfFuel"
proof -
  obtain s where s: "sample_exec (sample_config [] None) sample_msgs = Inr (s, AllDone)"
    "sent_tasks (ex_events s) = [sample_compile, sample_build]"
    using events_ofD [OF sample_built] by (auto simp: sent_tasks_def)
  have r: "run_state (sample_config [] None) ''speed'' sample_graph (\<lambda>_. True) s"
    by (rule sample_run_state [OF s(1)]) simp
  show ?thesis using r s(2) calls_terminate [OF sample_sound] by blast
qed

end
