(* ===== verification/VarText.thy ===== *)
theory VarText
  imports PyString
begin

text \<open>
  The regular expressions of \<open>bb/data_smart.py\<close>: the references \<open>${NAME}\<close> and \<open>${@code}\<close> in a text, the
  operations \<open>:append\<close>, \<open>:prepend\<close> and \<open>:remove\<close> at the end of a name, the names that can be overrides, and
  the split of a text at its white space. Names of variables hold no line break.
\<close>

section \<open>References\<close>

text \<open>A text is cut into single characters and references, from the left.\<close>

datatype piece = Lit char | Ref string

definition is_lower :: "char \<Rightarrow> bool" where
  "is_lower c = (let n = (of_char c :: nat) in 97 \<le> n \<and> n \<le> 122)"

definition is_name_char :: "char \<Rightarrow> bool" where
  "is_name_char c \<longleftrightarrow> is_letter c \<or> is_digit c \<or> c \<in> set ''-_+./~:''"

fun name_end :: "string \<Rightarrow> (string \<times> string) option" where
  "name_end s =
     (let name = takeWhile is_name_char s
      in case dropWhile is_name_char s of
           c # rest \<Rightarrow> if name \<noteq> [] \<and> c = CHR ''}'' then Some (name, rest) else None
         | [] \<Rightarrow> None)"

declare name_end.simps [simp del]

lemma name_end_Some: "name_end s = Some (name, rest) \<Longrightarrow> s = name @ CHR ''}'' # rest \<and> name \<noteq> [] \<and> list_all is_name_char name"
proof -
  have s: "s = takeWhile is_name_char s @ dropWhile is_name_char s" by simp
  assume "name_end s = Some (name, rest)"
  then have "dropWhile is_name_char s = CHR ''}'' # rest" "name = takeWhile is_name_char s" "name \<noteq> []"
    by (auto simp: name_end.simps Let_def split: list.splits if_splits)
  then show ?thesis using s by (auto simp: list_all_iff dest: set_takeWhileD)
qed

function var_pieces :: "string \<Rightarrow> piece list" where
  "var_pieces s =
     (if s = [] then []
      else case (if prefix ''${'' s then name_end (drop 2 s) else None) of
             Some (name, rest) \<Rightarrow> Ref name # var_pieces rest
           | None \<Rightarrow> Lit (hd s) # var_pieces (tl s))"
  by pat_completeness auto
termination
  by (relation "measure length") (auto simp: prefix_def dest!: name_end_Some split: if_splits)

declare var_pieces.simps [simp del]

text \<open>Whether \<open>findall\<close> finds a reference.\<close>

definition has_var_ref :: "string \<Rightarrow> bool" where
  "has_var_ref s \<longleftrightarrow> list_ex (\<lambda>p. case p of Ref _ \<Rightarrow> True | Lit _ \<Rightarrow> False) (var_pieces s)"

section \<open>Inline Python\<close>

text \<open>\<open>closings s\<close> is what may follow a block in braces that is open at the start of \<open>s\<close>.\<close>

fun closings :: "string \<Rightarrow> string list" where
  "closings [] = []"
| "closings (c # cs) =
     (if c = CHR ''\<newline>'' then [] else if c = CHR ''}'' then cs # closings cs else closings cs)"

fun first_some :: "('a \<Rightarrow> 'b option) \<Rightarrow> 'a list \<Rightarrow> 'b option" where
  "first_some f [] = None"
| "first_some f (x # xs) = (case f x of None \<Rightarrow> first_some f xs | Some y \<Rightarrow> Some y)"

lemma first_some_cong [fundef_cong]:
  assumes "xs = ys" and "\<And>x. x \<in> set ys \<Longrightarrow> f x = g x"
  shows "first_some f xs = first_some g ys"
  using assms(2) unfolding assms(1) by (induction ys) (auto split: option.split)

lemma first_some_Some: "first_some f xs = Some y \<Longrightarrow> \<exists>x\<in>set xs. f x = Some y"
  by (induction xs) (auto split: option.splits)

lemma closings_shorter: "r \<in> set (closings s) \<Longrightarrow> length r < length s"
  by (induction s) (auto split: if_splits)

text \<open>The text after the shortest code that a closing brace ends: a block in braces is passed over as a
  whole where that leads to a match. At least one character or block comes before the closing brace.\<close>

function py_match :: "bool \<Rightarrow> string \<Rightarrow> string option" where
  "py_match may_end [] = None"
| "py_match may_end (c # cs) =
     (if may_end \<and> c = CHR ''}'' then Some cs
      else case (if c = CHR ''{'' then first_some (py_match True) (closings cs) else None) of
             Some rest \<Rightarrow> Some rest
           | None \<Rightarrow> if c = CHR ''\<newline>'' then None else py_match True cs)"
  by pat_completeness auto
termination
  by (relation "measure (length \<circ> snd)") (auto dest: closings_shorter)

lemma py_match_shorter: "py_match may_end s = Some rest \<Longrightarrow> length rest < length s"
proof (induction may_end s arbitrary: rest rule: py_match.induct)
  case (1 may_end)
  then show ?case by simp
next
  case (2 may_end c cs)
  show ?case
  proof (cases "may_end \<and> c = CHR ''}''")
    case True
    then show ?thesis using "2.prems" by simp
  next
    case False
    show ?thesis
    proof (cases "if c = CHR ''{'' then first_some (py_match True) (closings cs) else None")
      case None
      then show ?thesis using "2.prems" "2.IH"(2) [OF False None] False by (auto split: if_splits)
    next
      case (Some r)
      then obtain x where "c = CHR ''{''" "x \<in> set (closings cs)" "py_match True x = Some r"
        using first_some_Some [of "py_match True" "closings cs" r] by (auto split: if_splits)
      then show ?thesis using "2.IH"(1) [OF False, of x r] closings_shorter [of x cs] "2.prems" False Some by auto
    qed
  qed
qed

function py_pieces :: "string \<Rightarrow> piece list" where
  "py_pieces s =
     (if s = [] then []
      else case (if prefix ''${@'' s then py_match False (drop 3 s) else None) of
             Some rest \<Rightarrow> Ref (take (length s - length rest - 4) (drop 3 s)) # py_pieces rest
           | None \<Rightarrow> Lit (hd s) # py_pieces (tl s))"
  by pat_completeness auto
termination
  by (relation "measure length") (auto dest!: py_match_shorter split: if_splits)

declare py_pieces.simps [simp del]

section \<open>Operations and overrides in names\<close>

definition op_keywords :: "string list" where
  "op_keywords = ['':append'', '':prepend'', '':remove'']"

definition is_upper :: "char \<Rightarrow> bool" where
  "is_upper c \<longleftrightarrow> is_letter c \<and> \<not> is_lower c"

text \<open>What follows a keyword: nothing, or the overrides the operation is for.\<close>

fun keyword_add :: "string \<Rightarrow> string option option" where
  "keyword_add [] = Some None"
| "keyword_add (c # add) = (if c = CHR '':'' \<and> list_all (\<lambda>x. \<not> is_upper x) add then Some (Some add) else None)"

definition keyword_at :: "string \<Rightarrow> (string \<times> string option) option" where
  "keyword_at s = first_some (\<lambda>k. if prefix k s then map_option (Pair k) (keyword_add (drop (length k) s)) else None) op_keywords"

fun split_keyword :: "string \<Rightarrow> (string \<times> string \<times> string option) option" where
  "split_keyword [] = None"
| "split_keyword (c # cs) =
     (case keyword_at (c # cs) of
        Some (k, add) \<Rightarrow> Some ([], k, add)
      | None \<Rightarrow> map_option (\<lambda>(base, k, add). (c # base, k, add)) (split_keyword cs))"

fun contains :: "string \<Rightarrow> string \<Rightarrow> bool" where
  "contains sub s = list_ex (prefix sub) (suffixes s)"

definition old_syntax :: "string \<Rightarrow> bool" where
  "old_syntax var \<longleftrightarrow> \<not> prefix ''__anon_'' var \<and>
     (contains ''_append'' var \<or> contains ''_prepend'' var \<or> contains ''_remove'' var)"

text \<open>\<open>__override_regexp__.match\<close> only looks at the start.\<close>

fun is_override :: "string \<Rightarrow> bool" where
  "is_override [] = False"
| "is_override (c # cs) = (is_lower c \<or> is_digit c)"

text \<open>The ways to read a name as a variable and its overrides, from the right. A name without a colon is
  read as well, with its last character cut off.\<close>

function override_entries :: "string \<Rightarrow> string \<Rightarrow> (string \<times> string) list" where
  "override_entries short override =
     (if \<not> is_override override then []
      else (short, override) #
        (case rsplit1 CHR '':'' short of
           None \<Rightarrow> []
         | Some (a, b) \<Rightarrow> if a = [] then [] else override_entries a (b @ CHR '':'' # override)))"
  by pat_completeness auto
termination
  by (relation "measure (length \<circ> fst)") (auto dest: rsplit1_Some(1))

declare override_entries.simps [simp del]

definition name_entries :: "string \<Rightarrow> (string \<times> string) list" where
  "name_entries var =
     (case rsplit1 CHR '':'' var of
        None \<Rightarrow> override_entries (butlast var) var
      | Some (short, override) \<Rightarrow> override_entries short override)"

section \<open>White space\<close>

text \<open>\<open>re.split('(\s)', s)\<close>: the separators are pieces of their own.\<close>

fun ws_pieces :: "string \<Rightarrow> string list" where
  "ws_pieces [] = [[]]"
| "ws_pieces (c # cs) =
     (if is_space c then [] # [c] # ws_pieces cs
      else case ws_pieces cs of [] \<Rightarrow> [[c]] | w # ws \<Rightarrow> (c # w) # ws)"

end
