(* ===== verification/VarStore.thy ===== *)
theory VarStore
  imports VarText DataCache
begin

text \<open>
  The variable store of \<open>bb/data_smart.py\<close>: its state, the layers of a copy, the data about overrides, and
  how the overrides of a variable that are active decide which value is taken.

  The tables of a copy lie over those of the store it was made from, which is not changed afterwards.
  The history of variables and of includes is only kept for error messages and is outside the model.
\<close>

section \<open>State\<close>

text \<open>The value of a variable or flag: a text, the list of operations under one of the keywords, a list or set of
  names, a number, the deferred classes with the file and line that asked for them, the table of tasks of a recipe,
  \<open>True\<close>, or \<open>None\<close>, which a lookup does not tell from a missing value.\<close>

datatype val = Text string | Ops "(val \<times> string option) list" | Names "string list" | Num int | Inherits "(string \<times> string \<times> nat) list"
  | Tasks taskdeps | Truth | Null

fun truthy :: "val option \<Rightarrow> bool" where
  "truthy None = False"
| "truthy (Some (Text t)) = (t \<noteq> [])"
| "truthy (Some (Ops ops)) = (ops \<noteq> [])"
| "truthy (Some (Names xs)) = (xs \<noteq> [])"
| "truthy (Some (Num n)) = (n \<noteq> 0)"
| "truthy (Some (Inherits xs)) = (xs \<noteq> [])"
| "truthy (Some (Tasks td)) = True"
| "truthy (Some Truth) = True"
| "truthy (Some Null) = False"

fun as_value :: "val \<Rightarrow> val option" where
  "as_value Null = None"
| "as_value v = Some v"

type_synonym var_flags = "(string, val) dict"

text \<open>\<open>VariableParse\<close>: a text with its expansion, the variables it refers to, the functions it calls, the items it looks for
  in the lists of other variables, and the removals that were applied.\<close>

record vparse =
  vp_unexpanded :: "val option"
  vp_value :: "val option"
  vp_refs :: "string list"
  vp_execs :: "string list"
  vp_contains :: "(string, string list) dict"
  vp_removes :: "val list option"

record dstore =
  ds_dict :: "(string, var_flags) dict"
  ds_below :: "(string, var_flags) dict list"
  ds_renames :: "string list"
  ds_cache :: "(string, vparse) dict"
  ds_overridedata :: "(string, (string \<times> string) list) dict"
  ds_overrides :: "string list option"
  ds_overridesset :: "string list"
  ds_overridevars :: "string list"
  ds_inoverride :: bool

type_synonym 'a ds = "(dstore, 'a) meth"

definition bitbake_renamed_vars :: "string list" where
  "bitbake_renamed_vars =
     [''BB_ENV_WHITELIST'', ''BB_ENV_EXTRAWHITE'', ''BB_HASHBASE_WHITELIST'', ''BB_HASHCONFIG_WHITELIST'',
      ''BB_HASHTASK_WHITELIST'', ''BB_SETSCENE_ENFORCE_WHITELIST'', ''MULTI_PROVIDER_WHITELIST'',
      ''BB_STAMP_WHITELIST'', ''BB_STAMP_POLICY'']"

definition new_store :: dstore where
  "new_store =
     \<lparr>ds_dict = [], ds_below = [], ds_renames = bitbake_renamed_vars, ds_cache = [], ds_overridedata = [],
      ds_overrides = None, ds_overridesset = [], ds_overridevars = [''OVERRIDES'', ''FILE''], ds_inoverride = False\<rparr>"

definition create_copy :: "dstore \<Rightarrow> dstore" where
  "create_copy d = new_store\<lparr>ds_below := ds_dict d # ds_below d, ds_renames := ds_renames d,
     ds_overridevars := ds_overridevars d, ds_overridedata := ds_overridedata d\<rparr>"

section \<open>Layers\<close>

fun find_in :: "(string, var_flags) dict list \<Rightarrow> string \<Rightarrow> var_flags option" where
  "find_in [] var = None"
| "find_in (l # ls) var = (case map_of l var of Some fs \<Rightarrow> Some fs | None \<Rightarrow> find_in ls var)"

definition find_var :: "dstore \<Rightarrow> string \<Rightarrow> var_flags option" where
  "find_var d var = find_in (ds_dict d # ds_below d) var"

definition clear_cache :: "dstore \<Rightarrow> dstore" where
  "clear_cache d = d\<lparr>ds_cache := []\<rparr>"

definition init_var :: "string \<Rightarrow> dstore \<Rightarrow> dstore" where
  "init_var var d =
     (let d = clear_cache d
      in if has_key (ds_dict d) var then d else d\<lparr>ds_dict := AList.update var [] (ds_dict d)\<rparr>)"

definition make_shadow_copy :: "string \<Rightarrow> dstore \<Rightarrow> dstore" where
  "make_shadow_copy var d =
     (if has_key (ds_dict d) var then d
      else case find_var d var of
             Some (f # fs) \<Rightarrow> d\<lparr>ds_dict := AList.update var (f # fs) (ds_dict d)\<rparr>
           | _ \<Rightarrow> init_var var d)"

definition own_flags :: "dstore \<Rightarrow> string \<Rightarrow> var_flags" where
  "own_flags d var = dget (ds_dict d) var []"

definition put_flags :: "string \<Rightarrow> var_flags \<Rightarrow> dstore \<Rightarrow> dstore" where
  "put_flags var fs d = d\<lparr>ds_dict := AList.update var fs (ds_dict d)\<rparr>"

section \<open>The table of overrides\<close>

definition hasOverrides :: "dstore \<Rightarrow> string \<Rightarrow> bool" where
  "hasOverrides d var = has_key (ds_overridedata d) var"

definition note_override :: "string \<Rightarrow> string \<times> string \<Rightarrow> dstore \<Rightarrow> dstore" where
  "note_override var e d =
     (case e of (short, override) \<Rightarrow>
      d\<lparr>ds_overridedata := AList.update short (sadd (var, override) (dget (ds_overridedata d) short [])) (ds_overridedata d)\<rparr>)"

definition setvar_update_overrides :: "string \<Rightarrow> dstore \<Rightarrow> dstore" where
  "setvar_update_overrides var d = fold (note_override var) (name_entries var) d"

definition forget_override :: "string \<Rightarrow> string \<times> string \<Rightarrow> dstore \<Rightarrow> dstore" where
  "forget_override var e d =
     (case e of (short, override) \<Rightarrow>
      if has_key (ds_overridedata d) short
      then d\<lparr>ds_overridedata := AList.update short (remove1 (var, override) (dget (ds_overridedata d) short [])) (ds_overridedata d)\<rparr>
      else d)"

definition delVar :: "string \<Rightarrow> dstore \<Rightarrow> dstore" where
  "delVar var d =
     (let d = put_flags var [] (clear_cache d);
          d = d\<lparr>ds_overridedata := AList.delete var (ds_overridedata d)\<rparr>
      in if CHR '':'' \<in> set var then fold (forget_override var) (name_entries var) d else d)"

text \<open>The names listed for a variable whose overrides all are in the set.\<close>

definition all_active :: "string list \<Rightarrow> string \<Rightarrow> bool" where
  "all_active os override \<longleftrightarrow>
     override \<in> set os \<or> (CHR '':'' \<in> set override \<and> set (split_on CHR '':'' override) \<subseteq> set os)"

definition active_names :: "string list \<Rightarrow> (string \<times> string) list \<Rightarrow> string list" where
  "active_names os entries = map fst (filter (\<lambda>(r, override). all_active os override) entries)"

section \<open>Which override wins\<close>

definition active_entries :: "string list \<Rightarrow> (string \<times> string) list \<Rightarrow> (string, string) dict" where
  "active_entries os entries =
     fold (\<lambda>(r, override) active. if all_active os override then AList.update override r active else active) entries []"

text \<open>The state of the search: what is still active, the name found last, whether a name was shortened. A name
  is still there when its turn comes.\<close>

type_synonym matching = "(string, string) dict \<times> string option \<times> bool"

definition match_one :: "string \<Rightarrow> string \<Rightarrow> matching \<Rightarrow> matching" where
  "match_one override a st =
     (case st of (active, found, shortened) \<Rightarrow>
      if \<not> has_key active a then st
      else if suffix (CHR '':'' # override) a then
        (AList.update (replace_all (CHR '':'' # override) [] a) (dget active a []) (AList.delete a active), found, True)
      else if a = override then (AList.delete a active, Some (dget active a []), shortened)
      else st)"

definition match_override :: "string \<Rightarrow> matching \<Rightarrow> matching" where
  "match_override override st = fold (match_one override) (dkeys (fst st)) st"

definition match_round :: "string list \<Rightarrow> (string, string) dict \<Rightarrow> string option \<Rightarrow> matching" where
  "match_round os active found = fold match_override os (active, found, False)"

definition names_size :: "(string, string) dict \<Rightarrow> nat" where
  "names_size active = sum_list (map length (dkeys active))"


lemma names_size_update: "names_size (AList.update k v d) \<le> length k + names_size d"
  by (induction d) (auto simp: names_size_def dkeys_def)

lemma names_size_delete: "has_key d k \<Longrightarrow> names_size (AList.delete k d) + length k \<le> names_size d"
proof (induction d)
  case Nil
  then show ?case by (simp add: has_key_def)
next
  case (Cons e d)
  have "names_size (AList.delete k d) \<le> names_size d"
    by (induction d) (auto simp: names_size_def dkeys_def AList.delete_eq)
  then show ?case using Cons by (cases "fst e = k"; cases e) (auto simp: names_size_def dkeys_def has_key_def)
qed

lemma replace_all_shorter: "length (replace_all old [] s) \<le> length s"
proof (induction old "[] :: string" s rule: replace_all.induct)
  case (1 old s)
  then show ?case by (subst replace_all.simps) (cases s; auto simp: le_diff_conv)
qed

lemma replace_suffix_shorter: "suffix old s \<Longrightarrow> old \<noteq> [] \<Longrightarrow> length (replace_all old [] s) < length s"
proof (induction old "[] :: string" s rule: replace_all.induct)
  case (1 old s)
  have "s \<noteq> []" using "1.prems" by auto
  show ?case
  proof (cases "prefix old s")
    case True
    have "length (replace_all old [] (drop (length old) s)) \<le> length s - length old"
      using replace_all_shorter [of old "drop (length old) s"] by simp
    moreover have "length s - length old < length s" using "1.prems" \<open>s \<noteq> []\<close> by (simp add: length_greater_0_conv)
    ultimately have "length (replace_all old [] (drop (length old) s)) < length s" by (rule le_less_trans)
    then show ?thesis using True "1.prems"(2) \<open>s \<noteq> []\<close> by (subst replace_all.simps) simp
  next
    case False
    then have "suffix old (tl s)" using "1.prems" \<open>s \<noteq> []\<close> by (cases s) (auto simp: suffix_Cons)
    then have "length (replace_all old [] (tl s)) < length (tl s)"
      using "1.hyps"(2) "1.prems"(2) \<open>s \<noteq> []\<close> False by simp
    then show ?thesis using False "1.prems"(2) \<open>s \<noteq> []\<close> by (subst replace_all.simps) (cases s; simp)
  qed
qed

definition shrunk :: "nat \<Rightarrow> matching \<Rightarrow> bool" where
  "shrunk n st = (case st of (active, found, shortened) \<Rightarrow> names_size active \<le> n \<and> (shortened \<longrightarrow> names_size active < n))"

lemma match_one_shrinks: "shrunk n st \<Longrightarrow> shrunk n (match_one override a st)"
proof -
  assume n: "shrunk n st"
  obtain active found shortened where st: "st = (active, found, shortened)" by (cases st)
  show ?thesis
  proof (cases "has_key active a")
    case True
    have "suffix (CHR '':'' # override) a \<Longrightarrow> length (replace_all (CHR '':'' # override) [] a) < length a"
      by (rule replace_suffix_shorter) simp_all
    then show ?thesis
      using n names_size_delete [OF True] names_size_update [of "replace_all (CHR '':'' # override) [] a" "dget active a []" "AList.delete a active"]
      by (auto simp: st match_one_def shrunk_def)
  qed (use n in \<open>simp add: st match_one_def\<close>)
qed

lemma fold_keeps: "P s \<Longrightarrow> (\<And>x s. x \<in> set xs \<Longrightarrow> P s \<Longrightarrow> P (f x s)) \<Longrightarrow> P (fold f xs s)"
  by (induction xs arbitrary: s) auto

lemma match_round_shrinks:
  assumes "match_round os active found = (active', found', True)"
  shows "names_size active' < names_size active"
proof -
  let ?P = "shrunk (names_size active)"
  have "?P (match_override override st)" if "?P st" for override st
    unfolding match_override_def using that match_one_shrinks by (rule fold_keeps [where P = ?P])
  then have "?P (match_round os active found)"
    unfolding match_round_def by (intro fold_keeps [where P = ?P]) (simp_all add: shrunk_def)
  then show ?thesis by (simp add: assms shrunk_def)
qed

text \<open>The rounds end, since one that shortens a name leaves less.\<close>

function match_loop :: "string list \<Rightarrow> (string, string) dict \<Rightarrow> string option \<Rightarrow> string option" where
  "match_loop os active found =
     (case match_round os active found of
        (active', found', shortened) \<Rightarrow> if shortened then match_loop os active' found' else found')"
  by pat_completeness auto
termination
  by (relation "measure (\<lambda>(os, active, found). names_size active)") (auto dest: match_round_shrinks dest!: sym [of _ "match_round _ _ _"])

declare match_loop.simps [simp del]

definition best_override :: "string list \<Rightarrow> string list \<Rightarrow> (string \<times> string) list \<Rightarrow> string option" where
  "best_override osset os entries = match_loop os (active_entries osset entries) None"

end
