(* ===== verification/VarLookup.thy ===== *)
theory VarLookup
  imports VarStore
begin

text \<open>
  How \<open>bb/data_smart.py\<close> finds and expands a value: \<open>VariableParse\<close>, \<open>DataSmart.expandWithRefs\<close>,
  \<open>need_overrides\<close> and \<open>getVarFlag\<close>.

  Looking up a variable expands its value, which looks up others, and so on without a bound; the
  parameter of the lookup bounds the depth and, in each expansion, the rounds. Python's own limit on the
  depth of calls, which turns an endless expansion into an \<open>ExpansionError\<close>, is not modelled. What a
  piece of inline Python refers to and what it does is a parameter, and so is how \<open>str\<close> shows a value that is
  no text and whether the definitions of a function or module can be executed.
\<close>

section \<open>Expansion\<close>

record python =
  py_parse :: "string \<Rightarrow> (string list \<times> string list \<times> (string, string list) dict) res"
  py_eval :: "string \<Rightarrow> string ds"
  py_str :: "val \<Rightarrow> string"
  py_define :: "string \<Rightarrow> string \<Rightarrow> unit res"

text \<open>The arguments of a lookup: the variable and the flag, then \<open>expand\<close>, \<open>noweakdefault\<close>, \<open>parsing\<close> and \<open>retparser\<close>.\<close>

type_synonym lookup = "string \<Rightarrow> string \<Rightarrow> bool \<Rightarrow> bool \<Rightarrow> bool \<Rightarrow> bool \<Rightarrow> (val option \<times> vparse option) ds"

fun mfold :: "('a \<Rightarrow> 'b \<Rightarrow> ('s, 'b) meth) \<Rightarrow> 'a list \<Rightarrow> 'b \<Rightarrow> ('s, 'b) meth" where
  "mfold f [] y = mreturn y"
| "mfold f (x # xs) y = mbind (f x y) (mfold f xs)"

text \<open>\<open>gives_only Q m\<close>: what \<open>m\<close> returns, when it returns, is in \<open>Q\<close>.\<close>

definition gives_only :: "('a \<Rightarrow> bool) \<Rightarrow> ('s, 'a) meth \<Rightarrow> bool" where
  "gives_only Q m \<longleftrightarrow> (\<forall>s x t. m s = (Inr x, t) \<longrightarrow> Q x)"

lemma gives_only_bind: "gives_only R m \<Longrightarrow> (\<And>x. R x \<Longrightarrow> gives_only Q (f x)) \<Longrightarrow> gives_only Q (mbind m f)"
  by (fastforce simp: gives_only_def mbind_def split: prod.splits sum.splits)

lemma gives_only_any: "gives_only (\<lambda>_. True) m"
  by (simp add: gives_only_def)

lemma gives_only_return: "Q x \<Longrightarrow> gives_only Q (mreturn x)"
  by (simp add: gives_only_def meth_defs)

lemma gives_only_raise: "gives_only Q (mraise e)"
  by (simp add: gives_only_def meth_defs)

lemma gives_only_read: "(\<And>s. gives_only Q (f s)) \<Longrightarrow> gives_only Q (mread f)"
  by (auto simp: gives_only_def mread_def)

lemma gives_only_then: "gives_only Q m' \<Longrightarrow> gives_only Q (mthen m m')"
  unfolding mthen_def by (rule gives_only_bind [OF gives_only_any])

text \<open>A loop keeps an invariant of what it has done and what it has found.\<close>

lemma gives_only_mfold:
  assumes "\<And>D x y. P D y \<Longrightarrow> x \<in> set xs \<Longrightarrow> gives_only (P (insert x D)) (f x y)" and "P D y"
  shows "gives_only (P (D \<union> set xs)) (mfold f xs y)"
  using assms
proof (induction xs arbitrary: D y)
  case (Cons x xs)
  have "gives_only (P (insert x D \<union> set xs)) (mbind (f x y) (mfold f xs))"
  proof (rule gives_only_bind [OF Cons.prems(1) [OF Cons.prems(2)]])
    fix y' assume "P (insert x D) y'"
    then show "gives_only (P (insert x D \<union> set xs)) (mfold f xs y')"
      using Cons.IH [of "insert x D" y'] Cons.prems(1) by simp
  qed simp
  then show ?case by simp
qed (simp add: gives_only_return)

definition get_var :: "lookup \<Rightarrow> string \<Rightarrow> val option ds" where
  "get_var look var = mbind (look var ''_content'' True False False False) (\<lambda>(v, p). mreturn v)"

definition var_sub :: "lookup \<Rightarrow> string \<Rightarrow> string \<Rightarrow> vparse \<Rightarrow> (string option \<times> vparse) ds" where
  "var_sub look varname key p =
     (if varname \<noteq> [] \<and> varname = key then mraise (PlainException (''variable '' @ key @ '' references itself!''))
      else mbind (get_var look key) (\<lambda>v.
        let p = p\<lparr>vp_refs := sadd key (vp_refs p)\<rparr> in
        case v of
          None \<Rightarrow> mreturn (Some (''${'' @ key @ ''}''), p)
        | Some (Text t) \<Rightarrow> mreturn (Some t, p)
        | Some _ \<Rightarrow> mraise TypeError))"

text \<open>A syntax error of the code that comes from quotes or brackets that do not match leaves the text as it is.\<close>

fun unterminated :: "exn \<Rightarrow> bool" where
  "unterminated (SyntaxError msg) =
     (msg = ''EOL while scanning string literal'' \<or> prefix ''unterminated string literal'' msg)"
| "unterminated e = False"

definition attempt :: "'a ds \<Rightarrow> 'a option ds" where
  "attempt m = mcatch (mbind m (\<lambda>x. mreturn (Some x))) (\<lambda>e. if unterminated e then mreturn None else mraise e)"

definition merge_contains :: "(string, string list) dict \<Rightarrow> (string, string list) dict \<Rightarrow> (string, string list) dict" where
  "merge_contains new old = fold (\<lambda>(k, items) d. AList.update k (sunion (dget d k []) items) d) new old"

definition python_sub :: "python \<Rightarrow> lookup \<Rightarrow> string \<Rightarrow> string \<Rightarrow> vparse \<Rightarrow> (string option \<times> vparse) ds" where
  "python_sub py look varname code p =
     (if has_var_ref code then mreturn (Some (''${@'' @ code @ ''}''), p)
      else mbind (attempt (mlift (py_parse py code))) (\<lambda>r.
        case r of
          None \<Rightarrow> mreturn (None, p)
        | Some (refs, execs, conts) \<Rightarrow>
            mthen (if varname = [] then mreturn ()
                   else mbind (look varname ''vardeps'' True False False False) (\<lambda>_. mreturn ()))
              (let p = p\<lparr>vp_refs := sunion (vp_refs p) refs, vp_execs := sunion (vp_execs p) execs,
                         vp_contains := merge_contains conts (vp_contains p)\<rparr>
               in mbind (attempt (py_eval py code)) (\<lambda>t. mreturn (t, p)))))"

text \<open>\<open>re.sub\<close>: the substitutions are made from the left; \<open>None\<close> abandons them all.\<close>

fun sub_pieces ::
  "(string \<Rightarrow> vparse \<Rightarrow> (string option \<times> vparse) ds) \<Rightarrow> piece list \<Rightarrow> string \<Rightarrow> vparse \<Rightarrow> (string option \<times> vparse) ds" where
  "sub_pieces f [] out p = mreturn (Some out, p)"
| "sub_pieces f (Lit c # ps) out p = sub_pieces f ps (out @ [c]) p"
| "sub_pieces f (Ref k # ps) out p =
     mbind (f k p) (\<lambda>(r, p). case r of None \<Rightarrow> mreturn (None, p) | Some t \<Rightarrow> sub_pieces f ps (out @ t) p)"

fun wrap_exn :: "string \<Rightarrow> string \<Rightarrow> exn \<Rightarrow> exn" where
  "wrap_exn varname s (ExpansionError vars) = ExpansionError (if varname = [] then vars else vars @ [varname])"
| "wrap_exn varname s (SkipRecipe m) = SkipRecipe m"
| "wrap_exn varname s (Fatal m) = Fatal m"
| "wrap_exn varname s OutOfFuel = OutOfFuel"
| "wrap_exn varname s e = ExpansionError [if varname = [] then s else varname]"

definition wrapped :: "string \<Rightarrow> string \<Rightarrow> 'a ds \<Rightarrow> 'a ds" where
  "wrapped varname s m = mcatch m (\<lambda>e. mraise (wrap_exn varname s e))"

definition expand_round :: "python \<Rightarrow> lookup \<Rightarrow> string \<Rightarrow> string \<Rightarrow> vparse \<Rightarrow> (string \<times> vparse) ds" where
  "expand_round py look varname s p =
     mbind (wrapped varname s (sub_pieces (var_sub look varname) (var_pieces s) [] p)) (\<lambda>(s1, p).
     mbind (wrapped varname (the s1) (sub_pieces (python_sub py look varname) (py_pieces (the s1)) [] p)) (\<lambda>(s2, p).
       mreturn (case s2 of None \<Rightarrow> the s1 | Some t \<Rightarrow> t, p)))"

primrec expand_loop :: "nat \<Rightarrow> python \<Rightarrow> lookup \<Rightarrow> string \<Rightarrow> string \<Rightarrow> vparse \<Rightarrow> (string \<times> vparse) ds" where
  "expand_loop 0 py look varname s p = mraise OutOfFuel"
| "expand_loop (Suc k) py look varname s p =
     (if \<not> contains ''${'' s then mreturn (s, p)
      else mbind (expand_round py look varname s p) (\<lambda>(s', p).
        if s' = s then mreturn (s, p) else expand_loop k py look varname s' p))"

definition expandWithRefs :: "nat \<Rightarrow> python \<Rightarrow> lookup \<Rightarrow> val option \<Rightarrow> string \<Rightarrow> vparse ds" where
  "expandWithRefs k py look v varname =
     (let p = \<lparr>vp_unexpanded = v, vp_value = v, vp_refs = [], vp_execs = [], vp_contains = [], vp_removes = None\<rparr>
      in case v of
           Some (Text s) \<Rightarrow> mbind (expand_loop k py look varname s p) (\<lambda>(t, p). mreturn (p\<lparr>vp_value := Some (Text t)\<rparr>))
         | _ \<Rightarrow> mreturn p)"

section \<open>Overrides\<close>

definition split_overrides :: "val option \<Rightarrow> string list res" where
  "split_overrides v =
     (if \<not> truthy v then Inr [[]]
      else case v of Some (Text t) \<Rightarrow> Inr (split_on CHR '':'' t) | _ \<Rightarrow> Inl AttributeError)"

definition get_overrides :: "lookup \<Rightarrow> string list ds" where
  "get_overrides look = mbind (get_var look ''OVERRIDES'') (\<lambda>v. mlift (split_overrides v))"

definition put_overrides :: "string list \<Rightarrow> dstore \<Rightarrow> dstore" where
  "put_overrides os d = d\<lparr>ds_overrides := Some os, ds_overridesset := os\<rparr>"

primrec override_rounds :: "nat \<Rightarrow> lookup \<Rightarrow> unit ds" where
  "override_rounds 0 look = mraise (Fatal ''Overrides could not be expanded into a stable state after 5 iterations'')"
| "override_rounds (Suc k) look =
     mthen (mupd (\<lambda>d. put_overrides [] (d\<lparr>ds_inoverride := True\<rparr>)))
     (mbind (get_overrides look) (\<lambda>os.
      mthen (mupd (\<lambda>d. clear_cache ((put_overrides os d)\<lparr>ds_inoverride := False\<rparr>)))
      (mbind (get_overrides look) (\<lambda>newos.
        if newos = os then mreturn ()
        else mthen (mupd (put_overrides newos)) (override_rounds k look)))))"

definition need_overrides :: "lookup \<Rightarrow> unit ds" where
  "need_overrides look =
     mread (\<lambda>d. if ds_overrides d \<noteq> None \<or> ds_inoverride d then mreturn () else override_rounds 5 look)"

section \<open>Operations on a value\<close>

definition op_applies :: "string option \<Rightarrow> bool ds" where
  "op_applies override =
     (if override = None \<or> override = Some [] then mreturn True
      else mread (\<lambda>d. case ds_overrides d of
             None \<Rightarrow> mraise TypeError
           | Some os \<Rightarrow> mreturn (set (split_on CHR '':'' (the override)) \<subseteq> set os)))"

definition append_val :: "val option \<Rightarrow> val \<Rightarrow> val option res" where
  "append_val v r =
     (case (case v of None \<Rightarrow> Text [] | Some x \<Rightarrow> x, r) of
        (Text a, Text b) \<Rightarrow> Inr (Some (Text (a @ b)))
      | _ \<Rightarrow> Inl TypeError)"

definition prepend_val :: "val option \<Rightarrow> val \<Rightarrow> val option res" where
  "prepend_val v r =
     (case (r, case v of None \<Rightarrow> Text [] | Some x \<Rightarrow> x) of
        (Text a, Text b) \<Rightarrow> Inr (Some (Text (a @ b)))
      | _ \<Rightarrow> Inl TypeError)"

definition apply_op :: "(val option \<Rightarrow> val \<Rightarrow> val option res) \<Rightarrow> val \<times> string option \<Rightarrow> val option \<Rightarrow> val option ds" where
  "apply_op f op v =
     (case op of (r, override) \<Rightarrow>
      mbind (op_applies override) (\<lambda>b. if b then mlift (f v r) else mreturn v))"

text \<open>\<open>with_ops\<close> goes on with the operations under a keyword, if the variable has any.\<close>

definition with_ops ::
  "lookup \<Rightarrow> var_flags option \<Rightarrow> string \<Rightarrow> ((val \<times> string option) list \<Rightarrow> 'a \<Rightarrow> 'a ds) \<Rightarrow> 'a \<Rightarrow> 'a ds" where
  "with_ops look local keyword f x =
     (case local of
        None \<Rightarrow> mreturn x
      | Some fs \<Rightarrow>
          (case map_of fs keyword of
             None \<Rightarrow> mreturn x
           | Some (Ops ops) \<Rightarrow> mthen (need_overrides look) (f ops x)
           | Some _ \<Rightarrow> mthen (need_overrides look) (mraise TypeError)))"

definition collect_remove :: "val \<times> string option \<Rightarrow> val list \<Rightarrow> val list ds" where
  "collect_remove op removes =
     (case op of (r, override) \<Rightarrow>
      mbind (op_applies override) (\<lambda>b. mreturn (if b then sadd r removes else removes)))"

section \<open>The value of a variable or flag\<close>

definition cachename :: "string \<Rightarrow> string \<Rightarrow> string" where
  "cachename var flag = (if flag = ''_content'' then var else var @ ''['' @ flag @ '']'')"

text \<open>The value the overrides give, the removals it carries, and the name of the cache entry these belong to.\<close>

definition override_value :: "lookup \<Rightarrow> string \<Rightarrow> (val option \<times> val list \<times> string option) ds" where
  "override_value look var =
     mread (\<lambda>d. case map_of (ds_overridedata d) var of
        None \<Rightarrow> mreturn (None, [], None)
      | Some entries \<Rightarrow>
          mthen (need_overrides look) (mread (\<lambda>d.
            case ds_overrides d of
              None \<Rightarrow> mraise TypeError
            | Some os \<Rightarrow>
                (case best_override (ds_overridesset d) os entries of
                   None \<Rightarrow> mreturn (None, [], None)
                 | Some r \<Rightarrow>
                     mbind (look r ''_content'' False False False True) (\<lambda>(v, p).
                       mreturn (case p of
                          None \<Rightarrow> (v, [], None)
                        | Some p \<Rightarrow> (case vp_removes p of None \<Rightarrow> (v, [], None) | Some xs \<Rightarrow> (v, xs, Some r))))))))"

definition plain_value :: "var_flags option \<Rightarrow> string \<Rightarrow> bool \<Rightarrow> val option" where
  "plain_value local flag noweakdefault =
     (case local of
        None \<Rightarrow> None
      | Some fs \<Rightarrow>
          Option.bind
            (if has_key fs flag then map_of fs flag
             else if flag = ''_content'' \<and> has_key fs ''_defaultval'' \<and> \<not> noweakdefault then map_of fs ''_defaultval''
             else if \<not> noweakdefault then map_of fs (''_defaultval_flag_'' @ flag) else None) as_value)"

definition removed_words :: "nat \<Rightarrow> python \<Rightarrow> lookup \<Rightarrow> val \<Rightarrow> (val \<times> string list) ds" where
  "removed_words k py look r =
     mbind (expandWithRefs k py look (Some r) []) (\<lambda>p.
       case vp_value p of Some (Text t) \<Rightarrow> mreturn (r, words t) | _ \<Rightarrow> mraise AttributeError)"

definition drop_words :: "(val \<times> string list) list \<Rightarrow> vparse \<Rightarrow> vparse res" where
  "drop_words removed p =
     (case vp_value p of
        Some (Text t) \<Rightarrow>
          (let pieces = ws_pieces t;
               gone = (\<lambda>v. list_ex (\<lambda>(r, ws). v \<in> set ws) removed)
           in Inr (p\<lparr>vp_value := Some (Text (concat (filter (\<lambda>v. \<not> gone v) pieces))),
                     vp_removes := Some (map fst (filter (\<lambda>(r, ws). list_ex (\<lambda>v. v \<in> set ws) pieces) removed))\<rparr>))
      | _ \<Rightarrow> Inl TypeError)"

fun mmap :: "('a \<Rightarrow> ('s, 'b) meth) \<Rightarrow> 'a list \<Rightarrow> ('s, 'b list) meth" where
  "mmap f [] = mreturn []"
| "mmap f (x # xs) = mbind (f x) (\<lambda>y. mbind (mmap f xs) (\<lambda>ys. mreturn (y # ys)))"

text \<open>The removals of a variable are added to the set that came with the overriding value, which the cache
  entry of that value shares.\<close>

definition share_removes :: "string option \<Rightarrow> val list \<Rightarrow> dstore \<Rightarrow> dstore" where
  "share_removes carrier removes d =
     (case carrier of
        None \<Rightarrow> d
      | Some r \<Rightarrow>
          (case map_of (ds_cache d) r of
             None \<Rightarrow> d
           | Some p \<Rightarrow> d\<lparr>ds_cache := AList.update r (p\<lparr>vp_removes := Some removes\<rparr>) (ds_cache d)\<rparr>))"

definition apply_removes ::
  "nat \<Rightarrow> python \<Rightarrow> lookup \<Rightarrow> var_flags option \<Rightarrow> bool \<Rightarrow> val option \<Rightarrow> val list \<Rightarrow> string option \<Rightarrow> vparse option \<Rightarrow> vparse option ds" where
  "apply_removes k py look local active v removes carrier p =
     (if \<not> active \<or> \<not> truthy v then mreturn p
      else
        mbind (with_ops look local '':remove'' (mfold collect_remove) removes) (\<lambda>removes.
        mthen (mupd (share_removes carrier removes))
        (case p of
           None \<Rightarrow> mreturn None
         | Some p \<Rightarrow>
             if removes = [] then mreturn (Some p)
             else mbind (mmap (removed_words k py look) removes) (\<lambda>removed.
               mbind (mlift (drop_words removed p)) (\<lambda>p. mreturn (Some p))))))"

definition store_parse :: "string \<Rightarrow> vparse option \<Rightarrow> dstore \<Rightarrow> dstore" where
  "store_parse name p d = (case p of None \<Rightarrow> d | Some p \<Rightarrow> d\<lparr>ds_cache := AList.update name p (ds_cache d)\<rparr>)"

definition fresh_lookup :: "nat \<Rightarrow> python \<Rightarrow> lookup \<Rightarrow> lookup" where
  "fresh_lookup k py look var flag expand noweakdefault parsing retparser =
     mread (\<lambda>d.
       let local = find_var d var; active = (flag = ''_content'' \<and> \<not> parsing); name = cachename var flag in
       mbind (if active then override_value look var else mreturn (None, [], None)) (\<lambda>(v, removes, carrier).
       let v = (case v of None \<Rightarrow> plain_value local flag noweakdefault | Some x \<Rightarrow> Some x) in
       mbind (if active then with_ops look local '':append'' (mfold (apply_op append_val)) v else mreturn v) (\<lambda>v.
       mbind (if active then with_ops look local '':prepend'' (mfold (apply_op prepend_val)) v else mreturn v) (\<lambda>v.
       mbind (if expand \<or> retparser then mbind (expandWithRefs k py look v name) (\<lambda>p. mreturn (Some p)) else mreturn None) (\<lambda>p.
       mbind (apply_removes k py look local active (if expand then vp_value (the p) else v) removes carrier p) (\<lambda>p.
       mthen (mupd (store_parse name p))
         (mreturn (if expand then vp_value (the p) else v, if retparser then p else None))))))))"

definition lookup_body :: "nat \<Rightarrow> python \<Rightarrow> lookup \<Rightarrow> lookup" where
  "lookup_body k py look var flag expand noweakdefault parsing retparser =
     (if flag = [] then mreturn (None, None)
      else mread (\<lambda>d.
        case map_of (ds_cache d) (cachename var flag) of
          None \<Rightarrow> fresh_lookup k py look var flag expand noweakdefault parsing retparser
        | Some p \<Rightarrow>
            if \<not> expand \<and> retparser then mreturn (vp_unexpanded p, Some p)
            else if expand then mreturn (vp_value p, None)
            else fresh_lookup k py look var flag expand noweakdefault parsing retparser))"

primrec getVarFlag :: "nat \<Rightarrow> python \<Rightarrow> lookup" where
  "getVarFlag 0 py = (\<lambda>var flag expand noweakdefault parsing retparser. mraise OutOfFuel)"
| "getVarFlag (Suc n) py = lookup_body n py (getVarFlag n py)"

definition getVar :: "nat \<Rightarrow> python \<Rightarrow> string \<Rightarrow> bool \<Rightarrow> val option ds" where
  "getVar n py var expand = mbind (getVarFlag n py var ''_content'' expand False False False) (\<lambda>(v, p). mreturn v)"

end
