(* ===== verification/VarUpdate.thy ===== *)
theory VarUpdate
  imports VarLookup
begin

text \<open>
  The methods of \<open>DataSmart\<close> in \<open>bb/data_smart.py\<close> that change the store: setting, renaming and deleting
  variables and flags, and the names in it. The history that the methods record when it is asked for and
  the error messages about renamed variables are left out; that a renamed variable was seen is recorded as
  the code does.
\<close>

section \<open>Variables that overrides depend on\<close>

definition parse_names :: "vparse \<Rightarrow> string list" where
  "parse_names p = sunion (vp_refs p) (dkeys (vp_contains p))"

definition value_names :: "nat \<Rightarrow> python \<Rightarrow> string \<Rightarrow> string list \<Rightarrow> string list ds" where
  "value_names n py i names =
     mbind (getVar n py i True) (\<lambda>v.
     mbind (expandWithRefs n py (getVarFlag n py) v i) (\<lambda>p. mreturn (sunion names (parse_names p))))"

primrec overridevars_loop :: "nat \<Rightarrow> nat \<Rightarrow> python \<Rightarrow> string list \<Rightarrow> unit ds" where
  "overridevars_loop 0 n py new = mraise OutOfFuel"
| "overridevars_loop (Suc k) n py new =
     mread (\<lambda>d.
       if set new \<subseteq> set (ds_overridevars d) then mreturn ()
       else mthen (mupd (\<lambda>d. d\<lparr>ds_overridevars := sunion (ds_overridevars d) new\<rparr>))
         (mbind (mfold (value_names n py) new []) (overridevars_loop k n py)))"

definition setvar_update_overridevars :: "nat \<Rightarrow> python \<Rightarrow> string \<Rightarrow> val \<Rightarrow> unit ds" where
  "setvar_update_overridevars n py var v =
     mbind (expandWithRefs n py (getVarFlag n py) (Some v) var) (\<lambda>p.
     mthen (overridevars_loop n n py (parse_names p))
       (mupd (\<lambda>d. clear_cache (d\<lparr>ds_overrides := None\<rparr>))))"

definition update_if_overridevar :: "nat \<Rightarrow> python \<Rightarrow> string \<Rightarrow> string \<Rightarrow> val \<Rightarrow> unit ds" where
  "update_if_overridevar n py base var v =
     mread (\<lambda>d. if base \<in> set (ds_overridevars d) then setvar_update_overridevars n py var v else mreturn ())"

section \<open>Setting a variable\<close>

definition drop_ops :: "string \<Rightarrow> dstore \<Rightarrow> dstore" where
  "drop_ops var d = put_flags var (filter (\<lambda>(flag, v). flag \<notin> set op_keywords) (own_flags d var)) d"

definition delete_overrides :: "string \<Rightarrow> dstore \<Rightarrow> dstore" where
  "delete_overrides var d = d\<lparr>ds_overridedata := AList.delete var (ds_overridedata d)\<rparr>"

text \<open>A plain assignment does away with operations and with the active overrides of the variable.\<close>

definition drop_active :: "nat \<Rightarrow> python \<Rightarrow> string \<Rightarrow> unit ds" where
  "drop_active n py var =
     mread (\<lambda>d.
       if \<not> has_key (ds_overridedata d) var then mreturn ()
       else mthen (need_overrides (getVarFlag n py)) (mread (\<lambda>d.
         mthen (mupd (fold delVar (active_names (ds_overridesset d) (dget (ds_overridedata d) var []))))
           (mread (\<lambda>d. if has_key (ds_overridedata d) var then mupd (delete_overrides var) else mraise (KeyError var))))))"

definition put_content :: "string \<Rightarrow> val \<Rightarrow> dstore \<Rightarrow> dstore" where
  "put_content var v d = put_flags var (AList.update ''_content'' v (own_flags d var)) d"

definition plain_set :: "nat \<Rightarrow> python \<Rightarrow> string \<Rightarrow> val \<Rightarrow> bool \<Rightarrow> unit ds" where
  "plain_set n py var v parsing =
     mthen (mupd (make_shadow_copy var))
     (mthen (if parsing then mreturn () else mthen (mupd (drop_ops var)) (drop_active n py var))
     (mthen (mupd (\<lambda>d. if CHR '':'' \<in> set var then setvar_update_overrides var d else d))
     (mthen (mupd (put_content var v))
        (update_if_overridevar n py var var v))))"

definition mark_failed :: "nat \<Rightarrow> python \<Rightarrow> unit ds" where
  "mark_failed n py = mthen (mupd clear_cache) (plain_set n py ''_FAILPARSINGERRORHANDLED'' Truth False)"

definition check_renamed :: "nat \<Rightarrow> python \<Rightarrow> string \<Rightarrow> unit ds" where
  "check_renamed n py var = mread (\<lambda>d. if var \<in> set (ds_renames d) then mark_failed n py else mreturn ())"

section \<open>Flags\<close>

definition put_flag :: "string \<Rightarrow> string \<Rightarrow> val \<Rightarrow> dstore \<Rightarrow> dstore" where
  "put_flag var flag v d =
     (let d = make_shadow_copy var d in put_flags var (AList.update flag v (own_flags d var)) d)"

definition export_var :: "string \<Rightarrow> unit ds" where
  "export_var var =
     mread (\<lambda>d.
       let d = make_shadow_copy ''__exportlist'' d
       in case map_of (own_flags d ''__exportlist'') ''_content'' of
            None \<Rightarrow> mupd (\<lambda>_. put_flag ''__exportlist'' ''_content'' (Names [var]) d)
          | Some (Names xs) \<Rightarrow> mupd (\<lambda>_. put_flag ''__exportlist'' ''_content'' (Names (sadd var xs)) d)
          | Some _ \<Rightarrow> mraise AttributeError)"

definition note_rename :: "string \<Rightarrow> string \<Rightarrow> dstore \<Rightarrow> dstore" where
  "note_rename var flag d =
     (if var = ''BB_RENAMED_VARIABLES'' then d\<lparr>ds_renames := sadd flag (ds_renames d)\<rparr> else d)"

definition setVarFlag :: "nat \<Rightarrow> python \<Rightarrow> string \<Rightarrow> string \<Rightarrow> val \<Rightarrow> unit ds" where
  "setVarFlag n py var flag v =
     mthen (mupd (note_rename var flag \<circ> clear_cache))
     (mthen (check_renamed n py var)
     (mthen (mupd (put_flag var flag v))
     (mthen (mupd (\<lambda>d. if flag = ''_defaultval'' \<and> CHR '':'' \<in> set var then setvar_update_overrides var d else d))
     (mthen (if flag = ''_defaultval'' then update_if_overridevar n py var var v else mreturn ())
       (if flag = ''unexport'' \<or> flag = ''export'' then export_var var else mreturn ())))))"

definition ops_list :: "val option \<Rightarrow> (val \<times> string option) list res" where
  "ops_list v = (if \<not> truthy v then Inr [] else case v of Some (Ops ops) \<Rightarrow> Inr ops | _ \<Rightarrow> Inl AttributeError)"

definition get_ops :: "nat \<Rightarrow> python \<Rightarrow> string \<Rightarrow> string \<Rightarrow> (val \<times> string option) list ds" where
  "get_ops n py var keyword =
     mbind (getVarFlag n py var keyword False False False False) (\<lambda>(v, p). mlift (ops_list v))"

definition add_op :: "nat \<Rightarrow> python \<Rightarrow> string \<Rightarrow> string \<Rightarrow> string \<Rightarrow> val \<Rightarrow> string option \<Rightarrow> unit ds" where
  "add_op n py var base keyword v override =
     mbind (get_ops n py base keyword) (\<lambda>ops.
     mthen (setVarFlag n py base keyword (Ops (ops @ [(v, override)])))
     (mthen (mupd (setvar_update_overrides base))
        (update_if_overridevar n py base var v)))"

definition before_colon :: "string \<Rightarrow> string" where
  "before_colon var = takeWhile (\<lambda>c. c \<noteq> CHR '':'') var"

definition setVar :: "nat \<Rightarrow> python \<Rightarrow> string \<Rightarrow> val \<Rightarrow> bool \<Rightarrow> unit ds" where
  "setVar n py var v parsing =
     (if old_syntax var then mraise (Fatal (''Variable '' @ var @ '' contains an operation using the old override syntax''))
      else mthen (check_renamed n py (before_colon var))
        (mthen (mupd clear_cache)
          (case split_keyword var of
             Some (base, keyword, override) \<Rightarrow> add_op n py var base keyword v override
           | None \<Rightarrow> plain_set n py var v parsing)))"

definition appendVar :: "nat \<Rightarrow> python \<Rightarrow> string \<Rightarrow> val \<Rightarrow> unit ds" where
  "appendVar n py var v = setVar n py (var @ '':append'') v True"

definition prependVar :: "nat \<Rightarrow> python \<Rightarrow> string \<Rightarrow> val \<Rightarrow> unit ds" where
  "prependVar n py var v = setVar n py (var @ '':prepend'') v True"

section \<open>More on flags\<close>

definition delVarFlag :: "string \<Rightarrow> string \<Rightarrow> dstore \<Rightarrow> dstore" where
  "delVarFlag var flag d =
     (let d = clear_cache d in
      if find_var d var = None \<or> find_var d var = Some [] then d
      else let d = make_shadow_copy var d; fs = own_flags d var
           in if has_key fs flag
              then put_flags var (AList.delete (''_defaultval_flag_'' @ flag) (AList.delete flag fs)) d else d)"

text \<open>\<open>(v or "") + value\<close>, and the other way round.\<close>

definition or_empty :: "val option \<Rightarrow> val option" where
  "or_empty v = (if truthy v then v else None)"

definition appendVarFlag :: "nat \<Rightarrow> python \<Rightarrow> string \<Rightarrow> string \<Rightarrow> val \<Rightarrow> unit ds" where
  "appendVarFlag n py var flag v =
     mbind (getVarFlag n py var flag False False False False) (\<lambda>(old, p).
     mbind (mlift (append_val (or_empty old) v)) (\<lambda>new. setVarFlag n py var flag (the new)))"

definition prependVarFlag :: "nat \<Rightarrow> python \<Rightarrow> string \<Rightarrow> string \<Rightarrow> val \<Rightarrow> unit ds" where
  "prependVarFlag n py var flag v =
     mbind (getVarFlag n py var flag False False False False) (\<lambda>(old, p).
     mbind (mlift (prepend_val (or_empty old) v)) (\<lambda>new. setVarFlag n py var flag (the new)))"

definition setVarFlags :: "string \<Rightarrow> var_flags \<Rightarrow> dstore \<Rightarrow> dstore" where
  "setVarFlags var flags d =
     (let d = make_shadow_copy var (clear_cache d)
      in fold (\<lambda>(flag, v) d. if flag = ''_content'' then d else put_flags var (AList.update flag v (own_flags d var)) d) flags d)"

definition add_flag :: "nat \<Rightarrow> python \<Rightarrow> string \<Rightarrow> string list \<Rightarrow> bool \<Rightarrow> var_flags \<Rightarrow> string \<times> val \<Rightarrow> var_flags \<Rightarrow> var_flags ds" where
  "add_flag n py var expand internalflags local fv flags =
     (case fv of (i, v) \<Rightarrow>
      let weak = prefix ''_defaultval_flag_'' i \<and> \<not> internalflags;
          i = (if weak then drop (length ''_defaultval_flag_'') i else i)
      in if \<not> weak \<and> (prefix ''_'' i \<or> prefix '':'' i) \<and> \<not> internalflags then mreturn flags
         else
           let flags = (if weak \<and> has_key local i then flags else AList.update i v flags)
           in if i \<in> set expand then
                mbind (mlift (case map_of flags i of None \<Rightarrow> Inl (KeyError i) | Some w \<Rightarrow> Inr w)) (\<lambda>w.
                mbind (expandWithRefs n py (getVarFlag n py) (Some w) (var @ ''['' @ i @ '']'')) (\<lambda>p.
                  mreturn (AList.update i (the (vp_value p)) flags)))
              else mreturn flags)"

definition getVarFlags :: "nat \<Rightarrow> python \<Rightarrow> string \<Rightarrow> string list \<Rightarrow> bool \<Rightarrow> var_flags option ds" where
  "getVarFlags n py var expand internalflags =
     mread (\<lambda>d.
       case find_var d var of
         None \<Rightarrow> mreturn None
       | Some local \<Rightarrow>
           mbind (mfold (add_flag n py var expand internalflags local) local []) (\<lambda>flags.
             mreturn (if flags = [] then None else Some flags)))"

definition delVarFlags :: "string \<Rightarrow> dstore \<Rightarrow> dstore" where
  "delVarFlags var d =
     (let d = make_shadow_copy var (clear_cache d)
      in if \<not> has_key (ds_dict d) var then d
         else case map_of (own_flags d var) ''_content'' of
                Some v \<Rightarrow> put_flags var [(''_content'', v)] d
              | None \<Rightarrow> d\<lparr>ds_dict := AList.delete var (ds_dict d)\<rparr>)"

section \<open>Renaming\<close>

definition move_ops :: "nat \<Rightarrow> python \<Rightarrow> string \<Rightarrow> string \<times> val \<Rightarrow> unit ds" where
  "move_ops n py newkey fv =
     (case fv of (flag, src) \<Rightarrow>
      if flag \<notin> set op_keywords then mreturn ()
      else mbind (get_ops n py newkey flag) (\<lambda>dest.
           mbind (mlift (case src of Ops ops \<Rightarrow> Inr ops | _ \<Rightarrow> Inl TypeError)) (\<lambda>ops.
             setVarFlag n py newkey flag (Ops (dest @ ops)))))"

text \<open>\<open>add_entry\<close> puts a new entry at the end of the list of a variable, which is there.\<close>

definition add_entry :: "string \<Rightarrow> string \<times> string \<Rightarrow> dstore \<Rightarrow> dstore" where
  "add_entry var e d =
     d\<lparr>ds_overridedata := AList.update var (dget (ds_overridedata d) var [] @ [e]) (ds_overridedata d)\<rparr>"

primrec renameVar :: "nat \<Rightarrow> nat \<Rightarrow> python \<Rightarrow> string \<Rightarrow> string \<Rightarrow> unit ds" where
  "renameVar 0 n py key newkey = mraise OutOfFuel"
| "renameVar (Suc k) n py key newkey =
     (if key = newkey then mreturn ()
      else
        mbind (getVarFlag n py key ''_content'' False False True False) (\<lambda>(v, p).
        mthen (case v of None \<Rightarrow> mreturn () | Some x \<Rightarrow> setVar n py newkey x True)
        (mbind (getVarFlags n py key [] True) (\<lambda>srcflags.
        mthen (mfor (move_ops n py newkey) (case srcflags of None \<Rightarrow> [] | Some fs \<Rightarrow> fs))
        (mread (\<lambda>d.
         mthen (case map_of (ds_overridedata d) key of
             None \<Rightarrow> mreturn ()
           | Some entries \<Rightarrow>
               mthen (mupd (\<lambda>d. d\<lparr>ds_overridedata := AList.update newkey [] (ds_overridedata d)\<rparr>))
                 (mfor (\<lambda>(r, override). mthen (mupd (add_entry newkey (replace_all key newkey r, override)))
                    (renameVar k n py r (replace_all key newkey r))) entries))
         (mthen (mupd (\<lambda>d. if CHR '':'' \<in> set newkey \<and> v = None then setvar_update_overrides newkey d else d))
            (mupd (delVar key)))))))))"

section \<open>The names in the store\<close>

definition local_keys :: "dstore \<Rightarrow> string list" where
  "local_keys d = dkeys (ds_dict d)"

text \<open>A name with an empty table in one layer is deleted and hides the name in those below.\<close>

fun key_list :: "string list \<Rightarrow> string list \<Rightarrow> (string, var_flags) dict list \<Rightarrow> string list" where
  "key_list overrides deleted [] = []"
| "key_list overrides deleted (l # ls) =
     (let here = filter (\<lambda>(key, fs). key \<notin> set deleted \<and> key \<notin> set overrides) l;
          gone = map fst (filter (\<lambda>(key, fs). fs = []) here)
      in sunion (map fst (filter (\<lambda>(key, fs). fs \<noteq> []) here)) (key_list overrides (deleted @ gone) ls))"

definition overridden_keys :: "dstore \<Rightarrow> string list" where
  "overridden_keys d =
     map fst (filter (\<lambda>(var, entries). active_names (ds_overridesset d) entries \<noteq> []) (ds_overridedata d))"

definition all_keys :: "nat \<Rightarrow> python \<Rightarrow> string list ds" where
  "all_keys n py =
     mthen (need_overrides (getVarFlag n py)) (mread (\<lambda>d.
       let overrides = overridden_keys d
       in mreturn (key_list overrides [] (ds_dict d # ds_below d) @ overrides)))"

definition expand_ref :: "nat \<Rightarrow> python \<Rightarrow> string \<Rightarrow> val option \<Rightarrow> string \<Rightarrow> unit ds" where
  "expand_ref n py ref v key =
     mbind (getVar n py key False) (\<lambda>w.
       case w of
         Some (Text t) \<Rightarrow>
           if contains ref t
           then (case v of Some (Text s) \<Rightarrow> setVar n py key (Text (replace_all ref s t)) False | _ \<Rightarrow> mraise TypeError)
           else mreturn ()
       | _ \<Rightarrow> mreturn ())"

definition expandVarref :: "nat \<Rightarrow> python \<Rightarrow> string \<Rightarrow> bool \<Rightarrow> unit ds" where
  "expandVarref n py variable parents =
     mbind (if parents then all_keys n py else mread (\<lambda>d. mreturn (local_keys d))) (\<lambda>keys.
     mbind (getVar n py variable False) (\<lambda>v.
       mfor (expand_ref n py (''${'' @ variable @ ''}'') v) keys))"

end
