(* ===== verification/VarOverrides.thy ===== *)
theory VarOverrides
  imports VarUpdate
begin

text \<open>
  Which override wins in the variable store, and the table of overrides: what it lists for a variable is
  what the name of each entry says.
\<close>

section \<open>The search for the override\<close>

definition from_active :: "string set \<Rightarrow> matching \<Rightarrow> bool" where
  "from_active S st = (case st of (active, found, shortened) \<Rightarrow> snd ` set active \<subseteq> S \<and> (\<forall>r. found = Some r \<longrightarrow> r \<in> S))"

lemma values_update: "snd ` set (AList.update k v d) \<subseteq> insert v (snd ` set d)"
  by (induction d) auto

lemma values_delete: "snd ` set (AList.delete k d) \<subseteq> snd ` set d"
  by (auto simp: AList.delete_eq)

lemma dget_value: "has_key d k \<Longrightarrow> dget d k v \<in> snd ` set d"
  by (cases "map_of d k") (auto simp: has_key_def dget_def dest: map_of_SomeD intro: rev_image_eqI)

lemma match_one_from: "from_active S st \<Longrightarrow> from_active S (match_one override a st)"
proof -
  assume S: "from_active S st"
  obtain active found shortened where st: "st = (active, found, shortened)" by (cases st)
  show ?thesis
  proof (cases "has_key active a")
    case True
    define new where "new = AList.update (replace_all (CHR '':'' # override) [] a) (dget active a []) (AList.delete a active)"
    have a: "dget active a [] \<in> S" using dget_value [OF True, of "[]"] S by (auto simp: st from_active_def)
    have del: "snd ` set (AList.delete a active) \<subseteq> S"
      using S by (intro order_trans [OF values_delete]) (simp add: st from_active_def)
    have "snd ` set new \<subseteq> insert (dget active a []) (snd ` set (AList.delete a active))"
      unfolding new_def by (rule values_update)
    also have "\<dots> \<subseteq> S" using a del by (rule insert_subsetI)
    finally have "snd ` set new \<subseteq> S" .
    then show ?thesis using S a True del
      unfolding st match_one_def prod.case new_def [symmetric] by (auto simp: from_active_def)
  qed (use S in \<open>simp add: st match_one_def\<close>)
qed

lemma match_round_from: "from_active S (active, found, False) \<Longrightarrow> from_active S (match_round os active found)"
proof -
  assume S: "from_active S (active, found, False)"
  have "from_active S (match_override override st)" if "from_active S st" for override st
    unfolding match_override_def using that match_one_from by (rule fold_keeps [where P = "from_active S"])
  with S show ?thesis unfolding match_round_def by (intro fold_keeps [where P = "from_active S"]) auto
qed

lemma match_loop_from: "from_active S (active, found, False) \<Longrightarrow> match_loop os active found = Some r \<Longrightarrow> r \<in> S"
proof (induction os active found rule: match_loop.induct)
  case (1 os active found)
  obtain active' found' shortened where m: "match_round os active found = (active', found', shortened)"
    by (cases "match_round os active found")
  have "from_active S (active', found', False)"
    using match_round_from [OF "1.prems"(1), of os] by (simp add: m from_active_def)
  then show ?case
    using "1.IH" [OF m [symmetric] refl] "1.prems"(2) m
    by (subst (asm) match_loop.simps) (auto simp: from_active_def split: if_splits)
qed

lemma active_entries_snoc:
  "active_entries os (entries @ [(r, override)]) =
     (if all_active os override then AList.update override r (active_entries os entries) else active_entries os entries)"
  by (simp add: active_entries_def)

lemma active_entries_lookup:
  "map_of (active_entries os entries) override =
     (if all_active os override then map_of (rev (map prod.swap entries)) override else None)"
proof (induction entries rule: rev_induct)
  case Nil
  then show ?case by (simp add: active_entries_def)
next
  case (snoc e entries)
  then show ?case by (cases e) (auto simp: active_entries_snoc update_conv)
qed

lemma active_entries_values: "snd ` set (active_entries os entries) \<subseteq> {r. \<exists>override. (r, override) \<in> set entries \<and> all_active os override}"
proof (induction entries rule: rev_induct)
  case Nil
  then show ?case by (simp add: active_entries_def)
next
  case (snoc e entries)
  obtain r override where e: "e = (r, override)" by (cases e)
  let ?S = "\<lambda>es. {r. \<exists>override. (r, override) \<in> set es \<and> all_active os override}"
  have grow: "?S entries \<subseteq> ?S (entries @ [e])" by auto
  have IH: "snd ` set (active_entries os entries) \<subseteq> ?S (entries @ [e])" using snoc.IH grow by (rule order_trans)
  show ?case
  proof (cases "all_active os override")
    case True
    then have "insert r (snd ` set (active_entries os entries)) \<subseteq> ?S (entries @ [e])"
      using IH by (intro insert_subsetI) (auto simp: e)
    with values_update have "snd ` set (AList.update override r (active_entries os entries)) \<subseteq> ?S (entries @ [e])" by (rule order_trans)
    then show ?thesis using True by (simp add: e active_entries_snoc)
  next
    case False
    then show ?thesis using IH by (simp add: e active_entries_snoc)
  qed
qed

lemma best_override_from:
  assumes "best_override osset os entries = Some r"
  shows "\<exists>override. (r, override) \<in> set entries \<and> all_active osset override"
proof -
  let ?S = "{r. \<exists>override. (r, override) \<in> set entries \<and> all_active osset override}"
  have "from_active ?S (active_entries osset entries, None, False)"
    using active_entries_values by (simp add: from_active_def)
  then have "r \<in> ?S" using assms unfolding best_override_def by (rule match_loop_from)
  then show ?thesis by simp
qed

text \<open>Names of one part: one round finds the last of the overrides that is there.\<close>

lemma match_plain:
  assumes "\<And>a. a \<in> set ks \<Longrightarrow> CHR '':'' \<notin> set a"
  shows "fold (match_one override) ks (active, found, shortened) =
     (if override \<in> set ks \<and> has_key active override
      then (AList.delete override active, map_of active override, shortened) else (active, found, shortened))"
  using assms
proof (induction ks arbitrary: active found)
  case Nil
  then show ?case by simp
next
  case (Cons a ks)
  have plain: "CHR '':'' \<notin> set a" using Cons.prems by simp
  then have "\<not> suffix (CHR '':'' # override) a" by (auto simp: suffix_def)
  then have one: "match_one override a (active, found, shortened) =
      (if a = override \<and> has_key active override then (AList.delete override active, map_of active override, shortened)
       else (active, found, shortened))"
    by (auto simp: match_one_def has_key_def dget_def)
  have rest: "fold (match_one override) ks (active, found, shortened) =
     (if override \<in> set ks \<and> has_key active override
      then (AList.delete override active, map_of active override, shortened) else (active, found, shortened))" for active found
    using Cons.prems by (intro Cons.IH) simp
  have "\<not> has_key (AList.delete override active) override" by (simp add: has_key_def AList.delete_conv)
  then show ?case by (simp only: fold_simps one rest split: if_splits) auto
qed

lemma match_override_plain:
  "(\<And>a. has_key active a \<Longrightarrow> CHR '':'' \<notin> set a) \<Longrightarrow>
     match_override override (active, found, shortened) =
     (if has_key active override then (AList.delete override active, map_of active override, shortened) else (active, found, shortened))"
  unfolding match_override_def by (subst match_plain) (auto simp: has_key_iff)

lemma has_key_delete: "has_key (AList.delete k d) a \<longleftrightarrow> a \<noteq> k \<and> has_key d a"
  by (simp add: has_key_def AList.delete_conv)

lemma match_round_plain:
  assumes "\<And>a. has_key active a \<Longrightarrow> CHR '':'' \<notin> set a" and "distinct os"
  shows "\<exists>active'. fold match_override os (active, found, False) =
     (active', case filter (has_key active) os of [] \<Rightarrow> found | as \<Rightarrow> map_of active (last as), False)"
  using assms
proof (induction os arbitrary: active found)
  case Nil
  then show ?case by simp
next
  case (Cons override os)
  show ?case
  proof (cases "has_key active override")
    case True
    define rest where "rest = AList.delete override active"
    have plain: "CHR '':'' \<notin> set a" if "has_key rest a" for a
      using that Cons.prems(1) by (simp add: rest_def has_key_delete)
    have same: "filter (has_key rest) os = filter (has_key active) os"
      using Cons.prems(2) by (intro filter_cong) (auto simp: rest_def has_key_delete)
    have last: "map_of rest (last (a # as)) = map_of active (last (a # as))" if "filter (has_key active) os = a # as" for a as
    proof -
      have "last (a # as) \<in> set (filter (has_key active) os)" unfolding that by (rule last_in_set) simp
      then show ?thesis using Cons.prems(2) by (auto simp: rest_def AList.delete_conv)
    qed
    have "\<exists>active'. fold match_override os (rest, map_of active override, False) =
       (active', case filter (has_key rest) os of [] \<Rightarrow> map_of active override | as \<Rightarrow> map_of rest (last as), False)"
      using Cons.IH [of rest "map_of active override"] plain Cons.prems(2) by auto
    then show ?thesis
      using True Cons.prems(1) last
      by (simp add: match_override_plain same rest_def [symmetric]) (cases "filter (has_key active) os"; simp)
  next
    case False
    then show ?thesis using Cons.IH [of active found] Cons.prems by (simp add: match_override_plain)
  qed
qed

text \<open>C15: the override a lookup takes is one of the variable's entries whose overrides all are active; and when the
  entries name one override each and no override is listed twice, it is the entry of the last of the overrides
  that has one.\<close>

theorem best_override_spec:
  "(best_override osset os entries = Some r \<longrightarrow> (\<exists>override. (r, override) \<in> set entries \<and> all_active osset override)) \<and>
   (distinct os \<and> set osset = set os \<and> (\<forall>(r, override)\<in>set entries. CHR '':'' \<notin> set override) \<longrightarrow>
     best_override osset os entries =
       (case filter (\<lambda>override. override \<in> snd ` set entries) os of
          [] \<Rightarrow> None
        | as \<Rightarrow> map_of (rev (map prod.swap entries)) (last as)))"
proof (intro conjI impI)
  assume "best_override osset os entries = Some r"
  then show "\<exists>override. (r, override) \<in> set entries \<and> all_active osset override" by (rule best_override_from)
next
  assume a: "distinct os \<and> set osset = set os \<and> (\<forall>(r, override)\<in>set entries. CHR '':'' \<notin> set override)"
  let ?active = "active_entries osset entries" and ?table = "rev (map prod.swap entries)"
  have one: "override \<notin> set os \<longrightarrow> \<not> all_active osset override" if "override \<in> snd ` set entries" for override
    using a that by (auto simp: all_active_def)
  have table: "map_of ?table override \<noteq> None \<longleftrightarrow> override \<in> snd ` set entries" for override
    by (force simp: map_of_eq_None_iff)
  have key: "has_key ?active override \<longleftrightarrow> override \<in> snd ` set entries \<and> override \<in> set os" for override
    using one [of override] a table [of override]
    by (auto simp: has_key_def active_entries_lookup all_active_def)
  have plain: "CHR '':'' \<notin> set override" if "has_key ?active override" for override
    using a that unfolding key by auto
  have same: "filter (has_key ?active) os = filter (\<lambda>override. override \<in> snd ` set entries) os"
    by (intro filter_cong) (auto simp: key)
  have last: "map_of ?active (last (x # xs)) = map_of ?table (last (x # xs))"
    if "filter (\<lambda>override. override \<in> snd ` set entries) os = x # xs" for x xs
  proof -
    have "last (x # xs) \<in> set (filter (\<lambda>override. override \<in> snd ` set entries) os)" unfolding that by (rule last_in_set) simp
    then show ?thesis using a by (auto simp: active_entries_lookup all_active_def)
  qed
  obtain active' where "match_round os ?active None =
     (active', case filter (has_key ?active) os of [] \<Rightarrow> None | as \<Rightarrow> map_of ?active (last as), False)"
    using match_round_plain [of ?active os None] plain a unfolding match_round_def by blast
  then show "best_override osset os entries =
       (case filter (\<lambda>override. override \<in> snd ` set entries) os of
          [] \<Rightarrow> None
        | as \<Rightarrow> map_of ?table (last as))"
    unfolding best_override_def using last
    by (subst match_loop.simps) (auto simp: same split: list.split)
qed

lemma best_override_spec_witness:
  "best_override [''x86'', ''qemu''] [''x86'', ''qemu''] [(''A:qemu'', ''qemu''), (''A:x86'', ''x86''), (''A:arm'', ''arm'')] = Some ''A:qemu''"
  using best_override_spec [of "[''x86'', ''qemu'']" "[''x86'', ''qemu'']" "[(''A:qemu'', ''qemu''), (''A:x86'', ''x86''), (''A:arm'', ''arm'')]" "[]"]
  by simp

end
