(* ===== verification/VarFrames.thy ===== *)
theory VarFrames
  imports VarOverrides
begin

text \<open>
  What reading the variable store leaves alone, and what a variable holds after it was set: a lookup only
  fills the cache and computes the overrides, provided that inline Python changes no variable.
\<close>

section \<open>Reading changes no variable\<close>

definition tables ::
  "dstore \<Rightarrow> (string, var_flags) dict \<times> (string, var_flags) dict list \<times> (string, (string \<times> string) list) dict \<times> string list \<times> string list" where
  "tables d = (ds_dict d, ds_below d, ds_overridedata d, ds_renames d, ds_overridevars d)"

lemma tables_update [simp]:
  "tables (d\<lparr>ds_cache := c\<rparr>) = tables d" "tables (d\<lparr>ds_inoverride := b\<rparr>) = tables d"
  "tables (d\<lparr>ds_overrides := o'\<rparr>) = tables d" "tables (clear_cache d) = tables d"
  "tables (put_overrides os d) = tables d" "tables (store_parse name p d) = tables d"
  "tables (share_removes r xs d) = tables d"
  by (simp_all add: tables_def clear_cache_def put_overrides_def store_parse_def share_removes_def split: option.split)

text \<open>\<open>keeps f m\<close>: whatever \<open>m\<close> does, \<open>f\<close> reads the same of the store afterwards.\<close>

definition keeps :: "(dstore \<Rightarrow> 't) \<Rightarrow> 'a ds \<Rightarrow> bool" where
  "keeps f m \<longleftrightarrow> (\<forall>d. f (snd (m d)) = f d)"

definition quiet :: "python \<Rightarrow> bool" where
  "quiet py \<longleftrightarrow> (\<forall>code. keeps tables (py_eval py code))"

named_theorems keeps_rules "computations that change no variable"

lemma keepsD: "keeps T m \<Longrightarrow> m d = (r, d') \<Longrightarrow> T d' = T d"
  by (metis keeps_def snd_conv)

lemma keeps_return [keeps_rules]: "keeps T (mreturn x)"
  by (simp add: keeps_def mreturn_def)

lemma keeps_raise [keeps_rules]: "keeps T (mraise e)"
  by (simp add: keeps_def mraise_def)

lemma keeps_lift [keeps_rules]: "keeps T (mlift r)"
  by (simp add: keeps_def mlift_def)

lemma keeps_upd [keeps_rules]: "(\<And>d. T (f d) = T d) \<Longrightarrow> keeps T (mupd f)"
  by (simp add: keeps_def mupd_def)

lemma keeps_read [keeps_rules]: "(\<And>d. keeps T (f d)) \<Longrightarrow> keeps T (mread f)"
  by (simp add: keeps_def mread_def)

lemma keeps_bind [keeps_rules]:
  assumes "keeps T m" and "\<And>x. keeps T (f x)"
  shows "keeps T (mbind m f)"
  unfolding keeps_def
proof
  fix d
  obtain r d1 where m: "m d = (r, d1)" by (cases "m d")
  have "T d1 = T d" using keepsD [OF assms(1) m] .
  then show "T (snd (mbind m f d)) = T d"
    using assms(2) by (cases r) (simp_all add: mbind_def m keeps_def)
qed

lemma keeps_then [keeps_rules]: "keeps T m \<Longrightarrow> keeps T n \<Longrightarrow> keeps T (mthen m n)"
  by (simp add: mthen_def keeps_bind)

lemma keeps_catch [keeps_rules]:
  assumes "keeps T m" and "\<And>e. keeps T (h e)"
  shows "keeps T (mcatch m h)"
  unfolding keeps_def
proof
  fix d
  obtain r d1 where m: "m d = (r, d1)" by (cases "m d")
  have "T d1 = T d" using keepsD [OF assms(1) m] .
  then show "T (snd (mcatch m h d)) = T d"
    using assms(2) by (cases r) (simp_all add: mcatch_def m keeps_def)
qed

lemma keeps_if [keeps_rules]: "(b \<Longrightarrow> keeps T m) \<Longrightarrow> (\<not> b \<Longrightarrow> keeps T n) \<Longrightarrow> keeps T (if b then m else n)"
  by simp

lemma keeps_option [keeps_rules]: "keeps T m \<Longrightarrow> (\<And>x. keeps T (f x)) \<Longrightarrow> keeps T (case x of None \<Rightarrow> m | Some x \<Rightarrow> f x)"
  by (cases x) simp_all

lemma keeps_pair [keeps_rules]: "(\<And>a b. keeps T (f a b)) \<Longrightarrow> keeps T (case x of (a, b) \<Rightarrow> f a b)"
  by (cases x) simp

lemma keeps_let [keeps_rules]: "keeps T (f x) \<Longrightarrow> keeps T (let y = x in f y)"
  by simp

lemma keeps_mfold [keeps_rules]: "(\<And>x y. keeps T (f x y)) \<Longrightarrow> keeps T (mfold f xs y)"
  by (induction xs arbitrary: y) (auto intro: keeps_rules)

lemma keeps_mmap [keeps_rules]: "(\<And>x. keeps T (f x)) \<Longrightarrow> keeps T (mmap f xs)"
  by (induction xs) (auto intro: keeps_rules)

lemma keeps_val: "(\<And>t. keeps T (f t)) \<Longrightarrow> keeps T m \<Longrightarrow> keeps T (case x of Some (Text t) \<Rightarrow> f t | _ \<Rightarrow> m)"
  by (auto split: option.split val.split)

lemma keeps_val_raise: "keeps T m \<Longrightarrow> (\<And>t. keeps T (f t)) \<Longrightarrow> keeps T (case x of None \<Rightarrow> m | Some (Text t) \<Rightarrow> f t | Some _ \<Rightarrow> mraise e)"
  by (auto intro: keeps_rules split: option.split val.split)

definition keeps_lookup :: "lookup \<Rightarrow> bool" where
  "keeps_lookup look \<longleftrightarrow> (\<forall>var flag expand noweak parsing retparser. keeps tables (look var flag expand noweak parsing retparser))"

lemma keeps_lookupD: "keeps_lookup look \<Longrightarrow> keeps tables (look var flag expand noweak parsing retparser)"
  by (simp add: keeps_lookup_def)

lemma get_var_keeps: "keeps_lookup look \<Longrightarrow> keeps tables (get_var look var)"
  by (auto simp: get_var_def keeps_lookup_def intro!: keeps_rules)

lemma var_sub_keeps: "keeps_lookup look \<Longrightarrow> keeps tables (var_sub look varname key p)"
  unfolding var_sub_def Let_def by (intro keeps_rules keeps_val_raise get_var_keeps)

lemma attempt_keeps: "keeps tables m \<Longrightarrow> keeps tables (attempt m)"
  unfolding attempt_def by (intro keeps_rules)

lemma python_sub_keeps:
  assumes "quiet py" and "keeps_lookup look"
  shows "keeps tables (python_sub py look varname code p)"
proof -
  have "keeps tables (py_eval py code)" using assms(1) by (simp add: quiet_def)
  then show ?thesis
    unfolding python_sub_def Let_def by (intro keeps_rules attempt_keeps keeps_lookupD [OF assms(2)])
qed

lemma sub_pieces_keeps: "(\<And>k p. keeps tables (f k p)) \<Longrightarrow> keeps tables (sub_pieces f ps out p)"
  by (induction f ps out p rule: sub_pieces.induct) (auto intro!: keeps_rules)

lemma expand_loop_keeps: "quiet py \<Longrightarrow> keeps_lookup look \<Longrightarrow> keeps tables (expand_loop k py look varname s p)"
proof (induction k arbitrary: s p)
  case 0
  then show ?case by (simp add: keeps_rules)
next
  case (Suc k)
  have "keeps tables (expand_round py look varname s p)" for s p
    unfolding expand_round_def wrapped_def
    by (intro keeps_rules sub_pieces_keeps var_sub_keeps python_sub_keeps Suc.prems)
  then show ?case using Suc by (auto intro!: keeps_rules)
qed

lemma expandWithRefs_keeps: "quiet py \<Longrightarrow> keeps_lookup look \<Longrightarrow> keeps tables (expandWithRefs k py look v varname)"
  unfolding expandWithRefs_def Let_def by (intro keeps_val keeps_rules expand_loop_keeps)

lemma get_overrides_keeps: "keeps_lookup look \<Longrightarrow> keeps tables (get_overrides look)"
  unfolding get_overrides_def by (intro keeps_rules get_var_keeps)

lemma override_rounds_keeps: "keeps_lookup look \<Longrightarrow> keeps tables (override_rounds k look)"
  by (induction k) (auto intro!: keeps_rules get_overrides_keeps)

lemma need_overrides_keeps: "keeps_lookup look \<Longrightarrow> keeps tables (need_overrides look)"
  unfolding need_overrides_def by (intro keeps_rules override_rounds_keeps)

lemma op_applies_keeps: "keeps tables (op_applies override)"
  unfolding op_applies_def by (intro keeps_rules)

lemma apply_op_keeps: "keeps tables (apply_op f op v)" "keeps tables (collect_remove op removes)"
  unfolding apply_op_def collect_remove_def by (intro keeps_rules op_applies_keeps)+

lemma with_ops_keeps: "keeps_lookup look \<Longrightarrow> (\<And>ops y. keeps tables (f ops y)) \<Longrightarrow> keeps tables (with_ops look local keyword f x)"
  by (auto simp: with_ops_def intro!: keeps_rules need_overrides_keeps split: option.split val.split)

lemma override_value_keeps:
  assumes "keeps_lookup look"
  shows "keeps tables (override_value look var)"
  unfolding override_value_def by (intro keeps_rules need_overrides_keeps keeps_lookupD [OF assms] assms)

lemma apply_removes_keeps:
  assumes "quiet py" and "keeps_lookup look"
  shows "keeps tables (apply_removes k py look local active v removes carrier p)"
proof -
  have "keeps tables (removed_words k py look r)" for r
    unfolding removed_words_def by (intro keeps_rules keeps_val expandWithRefs_keeps assms)
  then show ?thesis
    unfolding apply_removes_def by (intro keeps_rules with_ops_keeps apply_op_keeps assms) simp_all
qed

lemma fresh_lookup_keeps: "quiet py \<Longrightarrow> keeps_lookup look \<Longrightarrow> keeps tables (fresh_lookup k py look var flag expand noweak parsing retparser)"
  unfolding fresh_lookup_def Let_def
  by (intro keeps_rules override_value_keeps with_ops_keeps apply_op_keeps expandWithRefs_keeps apply_removes_keeps) simp_all

lemma getVarFlag_keeps: "quiet py \<Longrightarrow> keeps_lookup (getVarFlag n py)"
proof (induction n)
  case 0
  then show ?case by (simp add: keeps_lookup_def keeps_rules)
next
  case (Suc n)
  then have "keeps tables (lookup_body n py (getVarFlag n py) var flag expand noweak parsing retparser)"
    for var flag expand noweak parsing retparser
    unfolding lookup_body_def by (intro keeps_rules fresh_lookup_keeps)
  then show ?case by (simp add: keeps_lookup_def)
qed

lemma getVar_keeps: "quiet py \<Longrightarrow> keeps tables (getVar n py var expand)"
  unfolding getVar_def by (intro keeps_rules keeps_lookupD [OF getVarFlag_keeps])


section \<open>What was set is what is found\<close>

definition vars :: "dstore \<Rightarrow> (string, var_flags) dict \<times> (string, var_flags) dict list \<times> (string, (string \<times> string) list) dict" where
  "vars d = (ds_dict d, ds_below d, ds_overridedata d)"

lemma keeps_vars: "keeps tables m \<Longrightarrow> keeps vars m"
  by (simp add: keeps_def tables_def vars_def)

lemma overridevars_loop_keeps:
  assumes "quiet py"
  shows "keeps vars (overridevars_loop k n py new)"
proof (induction k arbitrary: new)
  case 0
  then show ?case by (simp add: keeps_rules)
next
  case (Suc k)
  have "keeps tables (value_names n py i names)" for i names
    unfolding value_names_def by (intro keeps_rules getVar_keeps expandWithRefs_keeps getVarFlag_keeps assms)
  then show ?case
    unfolding overridevars_loop.simps by (intro keeps_rules Suc.IH keeps_vars) (simp add: vars_def)
qed

lemma update_overridevar_keeps:
  assumes "quiet py"
  shows "keeps vars (update_if_overridevar n py base var v)"
  unfolding update_if_overridevar_def setvar_update_overridevars_def
  by (intro keeps_rules keeps_vars [OF expandWithRefs_keeps] getVarFlag_keeps overridevars_loop_keeps assms)
    (simp add: vars_def clear_cache_def)

lemma find_own: "has_key (ds_dict d) var \<Longrightarrow> find_var d var = Some (own_flags d var)"
  by (auto simp: find_var_def own_flags_def has_key_def dget_def)

lemma getVar_plain:
  assumes "find_var d var = Some fs" and "map_of fs ''_content'' = Some v"
    and "map_of (ds_overridedata d) var = None" and "\<And>k. k \<in> set op_keywords \<Longrightarrow> map_of fs k = None"
  shows "getVar (Suc n) py var False d = (Inr (as_value v), d)"
proof -
  have "map_of fs '':append'' = None" "map_of fs '':prepend'' = None" "map_of fs '':remove'' = None"
    using assms(4) by (simp_all add: op_keywords_def)
  moreover have "truthy u \<Longrightarrow> mbind (with_ops look (Some fs) '':remove'' (mfold collect_remove) [])
        (\<lambda>removes. mthen (mupd (share_removes None removes)) (mreturn None)) d = (Inr (None :: vparse option), d)" for u look
    using calculation(3) by (simp add: with_ops_def mbind_eval mthen_eval meth_defs share_removes_def)
  ultimately show ?thesis
    using assms(1-3)
    by (simp add: getVar_def lookup_body_def fresh_lookup_def Let_def cachename_def override_value_def with_ops_def
        plain_value_def has_key_def apply_removes_def share_removes_def store_parse_def mbind_eval mthen_eval meth_defs
        split: option.split)
qed


definition no_ops :: "string \<Rightarrow> dstore \<Rightarrow> bool" where
  "no_ops var d \<longleftrightarrow> has_key (ds_dict d) var \<and> (\<forall>k\<in>set op_keywords. map_of (own_flags d var) k = None)"

definition unset_overrides :: "string \<Rightarrow> dstore \<Rightarrow> bool" where
  "unset_overrides var d \<longleftrightarrow> no_ops var d \<and> map_of (ds_overridedata d) var = None"

lemma own_put [simp]: "own_flags (put_flags var fs d) var' = (if var' = var then fs else own_flags d var')"
  by (simp add: own_flags_def put_flags_def)

lemma put_flags_fields [simp]:
  "ds_overridedata (put_flags var fs d) = ds_overridedata d"
  "has_key (ds_dict (put_flags var fs d)) var' \<longleftrightarrow> var' = var \<or> has_key (ds_dict d) var'"
  by (simp_all add: put_flags_def)

lemma shadow_has_key: "has_key (ds_dict (make_shadow_copy var d)) var"
  by (auto simp: make_shadow_copy_def init_var_def Let_def clear_cache_def split: option.split list.split)

lemma no_ops_vars: "vars d' = vars d \<Longrightarrow> no_ops var d' = no_ops var d \<and> unset_overrides var d' = unset_overrides var d"
  by (auto simp: vars_def no_ops_def own_flags_def unset_overrides_def)

lemma drop_ops_no_ops: "no_ops var (drop_ops var d)"
  by (auto simp: no_ops_def drop_ops_def map_of_eq_None_iff)

lemma forget_override_fields [simp]:
  "ds_dict (forget_override v e d) = ds_dict d" "ds_dict (note_override v e d) = ds_dict d"
  by (simp_all add: forget_override_def note_override_def split: prod.split)

lemma fold_dict:
  "ds_dict (fold (forget_override v) es d) = ds_dict d" "ds_dict (fold (note_override v) es d) = ds_dict d"
  by (induction es arbitrary: d) simp_all

lemma delVar_dict: "ds_dict (delVar a d) = ds_dict (put_flags a [] d)"
  by (simp add: delVar_def Let_def fold_dict put_flags_def clear_cache_def)

lemma delVar_no_ops: "no_ops var d \<Longrightarrow> no_ops var (delVar a d)"
  by (auto simp: no_ops_def own_flags_def delVar_dict put_flags_def)

lemma keeps_triple:
  assumes "keeps vars m" and "\<And>d d'. vars d' = vars d \<Longrightarrow> P d' = P d"
  shows "triple P m (\<lambda>_. P) (\<lambda>_ _. True)"
  unfolding triple_def
proof (intro allI impI)
  fix d assume "P d"
  obtain r d' where m: "m d = (r, d')" by (cases "m d")
  have "P d'" using assms(2) keepsD [OF assms(1) m] \<open>P d\<close> by blast
  then show "case m d of (Inr x, t) \<Rightarrow> P t | (Inl e, t) \<Rightarrow> True" by (simp add: m split: sum.split)
qed

lemma drop_active_clears:
  assumes "quiet py"
  shows "triple (no_ops var) (drop_active n py var) (\<lambda>_. unset_overrides var) (\<lambda>_ _. True)"
proof -
  let ?delete = "mread (\<lambda>d. if has_key (ds_overridedata d) var then mupd (delete_overrides var) else mraise (KeyError var))"
  have need: "triple (no_ops var) (need_overrides (getVarFlag n py)) (\<lambda>_. no_ops var) (\<lambda>_ _. True)"
    by (rule keeps_triple [OF keeps_vars [OF need_overrides_keeps [OF getVarFlag_keeps [OF assms]]]]) (rule conjunct1 [OF no_ops_vars])
  have del: "no_ops var (fold delVar as d)" if "no_ops var d" for as d
    using that by (intro fold_keeps [where P = "no_ops var"] delVar_no_ops)
  have gone: "unset_overrides var (delete_overrides var d)" if "no_ops var d" for d
    using that by (simp add: delete_overrides_def unset_overrides_def no_ops_def own_flags_def AList.delete_conv)
  have last: "triple (no_ops var) ?delete (\<lambda>_. unset_overrides var) (\<lambda>_ _. True)"
    by (rule triple_read, rule triple_if, rule triple_upd, simp add: gone, rule triple_raise, simp)
  have active: "triple (no_ops var) (mread (\<lambda>d. mthen (mupd (fold delVar (active_names (ds_overridesset d) (dget (ds_overridedata d) var [])))) ?delete))
      (\<lambda>_. unset_overrides var) (\<lambda>_ _. True)"
  proof (rule triple_read)
    fix t assume t: "no_ops var t"
    have "triple (\<lambda>s. s = t) (mupd (fold delVar xs)) (\<lambda>_. no_ops var) (\<lambda>_ _. True)" for xs
      by (rule triple_upd) (simp add: del t)
    then show "triple (\<lambda>s. s = t) (mthen (mupd (fold delVar (active_names (ds_overridesset t) (dget (ds_overridedata t) var [])))) ?delete)
      (\<lambda>_. unset_overrides var) (\<lambda>_ _. True)"
      using last by (rule triple_then)
  qed
  show ?thesis
    unfolding drop_active_def
  proof (rule triple_read, rule triple_if)
    fix t assume t: "no_ops var t"
    show "triple (\<lambda>s. s = t) (mreturn ()) (\<lambda>_. unset_overrides var) (\<lambda>_ _. True)" if "\<not> has_key (ds_overridedata t) var"
      using t that by (intro triple_return) (simp add: unset_overrides_def has_key_def)
    show "triple (\<lambda>s. s = t) (mthen (need_overrides (getVarFlag n py))
        (mread (\<lambda>d. mthen (mupd (fold delVar (active_names (ds_overridesset d) (dget (ds_overridedata d) var [])))) ?delete)))
      (\<lambda>_. unset_overrides var) (\<lambda>_ _. True)"
      using triple_then [OF need active] by (rule triple_pre) (simp add: t)
  qed
qed

lemma name_entries_shorter:
  assumes "CHR '':'' \<in> set var" and "e \<in> set (name_entries var)"
  shows "length (fst e) < length var"
proof -
  have entries: "f \<in> set (override_entries short override) \<Longrightarrow> length (fst f) \<le> length short" for f short override
  proof (induction short override rule: override_entries.induct)
    case (1 short override)
    then show ?case
      by (subst (asm) (2) override_entries.simps) (fastforce split: option.splits prod.splits if_splits dest: rsplit1_Some(1))
  qed
  obtain a b where "rsplit1 CHR '':'' var = Some (a, b)" using assms(1) by (cases "rsplit1 CHR '':'' var") (auto simp: rsplit1_None_iff)
  then show ?thesis using assms(2) entries [of e a b] rsplit1_Some(1) [of "CHR '':''" var a b] by (simp add: name_entries_def)
qed

lemma note_other: "short \<noteq> var \<Longrightarrow> map_of (ds_overridedata (note_override v (short, override) d)) var = map_of (ds_overridedata d) var"
  by (simp add: note_override_def update_conv)

lemma update_overrides_unset:
  assumes "unset_overrides var d" and "CHR '':'' \<in> set var"
  shows "unset_overrides var (setvar_update_overrides var d)"
proof -
  have "map_of (ds_overridedata (fold (note_override var) es d)) var = map_of (ds_overridedata d) var"
    if "\<forall>e\<in>set es. fst e \<noteq> var" for es
    using that by (induction es arbitrary: d) (auto simp: note_other)
  then have "map_of (ds_overridedata (setvar_update_overrides var d)) var = None"
    using name_entries_shorter [OF assms(2)] assms(1) unfolding setvar_update_overrides_def unset_overrides_def by fastforce
  then show ?thesis using assms(1)
    by (simp add: unset_overrides_def no_ops_def own_flags_def setvar_update_overrides_def fold_dict)
qed

definition holds_value :: "string \<Rightarrow> val \<Rightarrow> dstore \<Rightarrow> bool" where
  "holds_value var v d \<longleftrightarrow> unset_overrides var d \<and> map_of (own_flags d var) ''_content'' = Some v"

lemma plain_set_holds:
  assumes "quiet py"
  shows "triple (\<lambda>_. True) (plain_set n py var v False) (\<lambda>_. holds_value var v) (\<lambda>_ _. True)"
proof -
  have put: "holds_value var v (put_content var v d)" if "unset_overrides var d" for d
    using that by (auto simp: holds_value_def unset_overrides_def no_ops_def put_content_def update_conv op_keywords_def)
  have kept: "triple (holds_value var v) (update_if_overridevar n py var var v) (\<lambda>_. holds_value var v) (\<lambda>_ _. True)"
    by (rule keeps_triple [OF update_overridevar_keeps [OF assms]]) (simp add: holds_value_def unset_overrides_def no_ops_def own_flags_def vars_def)
  have clear: "triple (\<lambda>_. True) (mthen (mupd (drop_ops var)) (drop_active n py var)) (\<lambda>_. unset_overrides var) (\<lambda>_ _. True)"
    using triple_upd drop_active_clears [OF assms] by (rule triple_then) (simp add: drop_ops_no_ops)
  have entries: "triple (unset_overrides var) (mupd (\<lambda>d. if CHR '':'' \<in> set var then setvar_update_overrides var d else d))
      (\<lambda>_. unset_overrides var) (\<lambda>_ _. True)"
    by (rule triple_upd) (simp add: update_overrides_unset)
  have "triple (unset_overrides var) (mupd (put_content var v)) (\<lambda>_. holds_value var v) (\<lambda>_ _. True)"
    by (rule triple_upd) (rule put)
  note rest = triple_then [OF clear triple_then [OF entries triple_then [OF this kept]]]
  have "triple (\<lambda>_. True) (mupd (make_shadow_copy var)) (\<lambda>_ _. True) (\<lambda>_ _. True)"
    by (rule triple_upd) simp
  from triple_then [OF this rest] show ?thesis by (simp add: plain_set_def)
qed

lemma setVar_plain: "split_keyword var = None \<Longrightarrow> setVar n py var v parsing =
    (if old_syntax var then mraise (Fatal (''Variable '' @ var @ '' contains an operation using the old override syntax''))
     else mthen (check_renamed n py (before_colon var)) (mthen (mupd clear_cache) (plain_set n py var v parsing)))"
  by (simp add: setVar_def)

lemma holds_value_get: "holds_value var v d \<Longrightarrow> getVar (Suc m) py var False d = (Inr (as_value v), d)"
  by (rule getVar_plain [where fs = "own_flags d var"])
    (auto simp: holds_value_def unset_overrides_def no_ops_def intro: find_own)

lemma make_shadow_fields [simp]:
  "ds_overridedata (make_shadow_copy var d) = ds_overridedata d" "ds_overridevars (make_shadow_copy var d) = ds_overridevars d"
  "ds_overridevars (put_flags var fs d) = ds_overridevars d"
  by (auto simp: make_shadow_copy_def init_var_def Let_def clear_cache_def put_flags_def split: option.split list.split)

lemma update_overrides_vars [simp]: "ds_overridevars (setvar_update_overrides var d) = ds_overridevars d"
proof -
  have "ds_overridevars (fold (note_override var) es d) = ds_overridevars d" for es
    by (induction es arbitrary: d) (auto simp: note_override_def)
  then show ?thesis by (simp add: setvar_update_overrides_def)
qed

lemma plain_set_returns:
  "var \<notin> set (ds_overridevars d) \<Longrightarrow> \<not> has_key (ds_overridedata d) var \<Longrightarrow> fst (plain_set n py var v False d) = Inr ()"
  by (simp add: plain_set_def drop_active_def update_if_overridevar_def mthen_eval meth_defs drop_ops_def put_content_def)

text \<open>C14: after a variable was set, looking it up without expansion gives the value it was set to, whatever
  operations and overrides it had, and changes nothing; and setting a variable that has no overrides and that
  overrides do not depend on does not fail.\<close>

theorem set_then_get:
  assumes "quiet py" and "split_keyword var = None"
  shows "(setVar n py var v False d = (Inr (), d') \<longrightarrow> getVar (Suc m) py var False d' = (Inr (as_value v), d')) \<and>
    (\<not> old_syntax var \<and> before_colon var \<notin> set (ds_renames d) \<and> var \<notin> set (ds_overridevars d) \<and> \<not> hasOverrides d var \<longrightarrow>
      fst (setVar n py var v False d) = Inr ())"
proof (intro conjI impI)
  assume set: "setVar n py var v False d = (Inr (), d')"
  then obtain d1 where "plain_set n py var v False d1 = (Inr (), d')"
    by (auto simp: setVar_plain [OF assms(2)] mthen_eval meth_defs split: if_splits prod.splits sum.splits)
  then have "holds_value var v d'"
    using plain_set_holds [OF assms(1), of n var v] by (auto simp: triple_def split: prod.splits sum.splits)
  then show "getVar (Suc m) py var False d' = (Inr (as_value v), d')" by (rule holds_value_get)
next
  assume a: "\<not> old_syntax var \<and> before_colon var \<notin> set (ds_renames d) \<and> var \<notin> set (ds_overridevars d) \<and> \<not> hasOverrides d var"
  then show "fst (setVar n py var v False d) = Inr ()"
    using plain_set_returns [of var "clear_cache d" n py v]
    by (simp add: setVar_plain [OF assms(2)] check_renamed_def mthen_eval meth_defs hasOverrides_def clear_cache_def)
qed

definition sample_python :: python where
  "sample_python = \<lparr>py_parse = (\<lambda>code. Inr ([], [], [])), py_eval = (\<lambda>code. mreturn code), py_str = (\<lambda>v. []), py_define = (\<lambda>name text. Inr ())\<rparr>"

lemma sample_python_quiet: "quiet sample_python"
  by (simp add: quiet_def sample_python_def keeps_rules)

definition set_all :: "nat \<Rightarrow> python \<Rightarrow> (string \<times> string) list \<Rightarrow> unit ds" where
  "set_all n py = mfor (\<lambda>(var, t). setVar n py var (Text t) True)"

definition sample_store :: dstore where
  "sample_store = snd (set_all 3 sample_python [(''A'', ''1''), (''A:append'', ''2''), (''B'', ''${A}'')] new_store)"

lemma set_then_get_witness:
  "\<exists>d'. setVar 3 sample_python ''A'' (Text ''x'') False sample_store = (Inr (), d') \<and>
     getVar 1 sample_python ''A'' False d' = (Inr (Some (Text ''x'')), d') \<and>
     getVar 3 sample_python ''A'' False sample_store \<noteq> (Inr (Some (Text ''x'')), sample_store)"
proof -
  have k: "split_keyword ''A'' = None" by code_simp
  have "\<not> old_syntax ''A''" "before_colon ''A'' \<notin> set (ds_renames sample_store)" "''A'' \<notin> set (ds_overridevars sample_store)"
    "\<not> hasOverrides sample_store ''A''" by code_simp+
  then have "fst (setVar 3 sample_python ''A'' (Text ''x'') False sample_store) = Inr ()"
    using set_then_get [OF sample_python_quiet k, of 3 "Text ''x''" sample_store sample_store 0] by blast
  then obtain d' where d': "setVar 3 sample_python ''A'' (Text ''x'') False sample_store = (Inr (), d')"
    by (cases "setVar 3 sample_python ''A'' (Text ''x'') False sample_store") auto
  have "fst (getVar 3 sample_python ''A'' False sample_store) = Inr (Some (Text ''12''))" by code_simp
  then show ?thesis using d' set_then_get [OF sample_python_quiet k, of 3 "Text ''x''" sample_store d' 0] by auto
qed

end
