(* ===== verification/VarCache.thy ===== *)
theory VarCache
  imports VarFrames
begin

text \<open>
  The cache of expanded values is transparent: a lookup gives what it would give if nothing were ever
  cached. This needs that no variable has a \<open>:remove\<close>, whose set of removals is shared with the cache,
  and that names hold no bracket, since a bracket is what tells a flag from a variable in the cache.
\<close>

section \<open>A store that forgets\<close>

text \<open>Every lookup starts with an empty cache and leaves the store as it was.\<close>

primrec uncached :: "nat \<Rightarrow> python \<Rightarrow> lookup" where
  "uncached 0 py = (\<lambda>var flag expand noweakdefault parsing retparser. mraise OutOfFuel)"
| "uncached (Suc n) py = (\<lambda>var flag expand noweakdefault parsing retparser d.
     (if flag = [] then Inr (None, None)
      else fst (fresh_lookup n py (uncached n py) var flag expand noweakdefault parsing retparser (clear_cache d)), d))"

definition plain_python :: "python \<Rightarrow> bool" where
  "plain_python py \<longleftrightarrow> (\<forall>code. \<exists>r. py_eval py code = mlift r)"

text \<open>The overrides are known, nothing is removed, and the names of the entries hold no bracket.\<close>

definition settled_store :: "dstore \<Rightarrow> bool" where
  "settled_store d \<longleftrightarrow> ds_overrides d \<noteq> None \<and> (\<forall>var fs. find_var d var = Some fs \<longrightarrow> map_of fs '':remove'' = None) \<and>
     (\<forall>var es. map_of (ds_overridedata d) var = Some es \<longrightarrow> (\<forall>(r, override)\<in>set es. CHR ''['' \<notin> set r))"

definition good :: "python \<Rightarrow> dstore \<Rightarrow> bool" where
  "good py d \<longleftrightarrow> plain_python py \<and> settled_store d \<and> ds_cache d = []"

definition proper :: "string \<Rightarrow> string \<Rightarrow> bool" where
  "proper var flag \<longleftrightarrow> flag \<noteq> [] \<and> (if flag = ''_content'' then CHR ''['' \<notin> set var else CHR ''['' \<notin> set flag)"

lemma cachename_inj:
  assumes "proper var flag" and "proper var' flag'" and "cachename var flag = cachename var' flag'"
  shows "var = var' \<and> flag = flag'"
proof -
  have flagged: "rsplit1 CHR ''['' (cachename v f) = Some (v, f @ '']'')" if "proper v f" "f \<noteq> ''_content''" for v f
    using that rsplit1_append [of "CHR ''[''" "f @ '']''" v] by (simp add: proper_def cachename_def)
  have plain: "rsplit1 CHR ''['' (cachename v f) = None" if "proper v f" "f = ''_content''" for v f
    using that by (simp add: proper_def cachename_def rsplit1_None_iff)
  show ?thesis
  proof (cases "flag = ''_content''")
    case True
    then have "rsplit1 CHR ''['' (cachename var' flag') = None" using plain [OF assms(1)] assms(3) by simp
    then have "flag' = ''_content''" using flagged [OF assms(2)] by (metis option.distinct(1))
    then show ?thesis using True assms(3) by (simp add: cachename_def)
  next
    case False
    then have f: "rsplit1 CHR ''['' (cachename var' flag') = Some (var, flag @ '']'')" using flagged [OF assms(1)] assms(3) by simp
    then have "flag' \<noteq> ''_content''" using plain [OF assms(2)] by (metis option.distinct(1))
    then have "Some (var, flag @ '']'') = Some (var', flag' @ '']'')" using flagged [OF assms(2)] f by (metis (full_types))
    then show ?thesis by simp
  qed
qed

section \<open>Simulation\<close>

text \<open>Where \<open>m'\<close> ends at the store \<open>d0\<close>, it leaves that alone, and \<open>m\<close> ends in the same way at each store in \<open>C\<close> and
  stays in \<open>C\<close>.\<close>

definition simulates :: "(dstore \<Rightarrow> bool) \<Rightarrow> dstore \<Rightarrow> 'a ds \<Rightarrow> 'a ds \<Rightarrow> bool" where
  "simulates C d0 m m' \<longleftrightarrow>
     (\<forall>d. C d \<longrightarrow> fst (m' d0) \<noteq> Inl OutOfFuel \<longrightarrow> snd (m' d0) = d0 \<and> fst (m d) = fst (m' d0) \<and> C (snd (m d)))"

named_theorems sim_rules "structural rules for simulation"

lemma simD:
  assumes "simulates C d0 m m'" and "C d" and "m' d0 = (r, d1)" and "r \<noteq> Inl OutOfFuel"
  obtains d' where "d1 = d0" "m d = (r, d')" "C d'"
  using assms by (cases "m d") (auto simp: simulates_def)

lemma sim_return [sim_rules]: "simulates C d0 (mreturn x) (mreturn x)"
  by (simp add: simulates_def mreturn_def)

lemma sim_raise [sim_rules]: "simulates C d0 (mraise e) (mraise e)"
  by (simp add: simulates_def mraise_def)

lemma sim_fuel: "simulates C d0 m (mraise OutOfFuel)"
  by (simp add: simulates_def mraise_def)

lemma sim_lift [sim_rules]: "simulates C d0 (mlift r) (mlift r)"
  by (simp add: simulates_def mlift_def)

lemma sim_read: "(\<And>d. C d \<Longrightarrow> simulates C d0 (f d) (f' d0)) \<Longrightarrow> simulates C d0 (mread f) (mread f')"
  by (simp add: simulates_def mread_def)

lemma sim_bind [sim_rules]:
  assumes "simulates C d0 m m'" and "\<And>x. simulates C d0 (f x) (f' x)"
  shows "simulates C d0 (mbind m f) (mbind m' f')"
  unfolding simulates_def
proof (intro allI impI)
  fix d assume d: "C d" and f: "fst (mbind m' f' d0) \<noteq> Inl OutOfFuel"
  obtain r d1 where m': "m' d0 = (r, d1)" by (cases "m' d0")
  have r: "r \<noteq> Inl OutOfFuel" using f by (auto simp: mbind_def m')
  obtain d' where m: "d1 = d0" "m d = (r, d')" "C d'" using simD [OF assms(1) d m' r] .
  show "snd (mbind m' f' d0) = d0 \<and> fst (mbind m f d) = fst (mbind m' f' d0) \<and> C (snd (mbind m f d))"
  proof (cases r)
    case (Inr x)
    then show ?thesis using assms(2) [of x] f m m' by (simp add: mbind_def simulates_def)
  qed (use m m' in \<open>simp add: mbind_def\<close>)
qed

lemma sim_then [sim_rules]: "simulates C d0 m m' \<Longrightarrow> simulates C d0 n n' \<Longrightarrow> simulates C d0 (mthen m n) (mthen m' n')"
  by (simp add: mthen_def sim_bind)

lemma sim_catch:
  assumes "simulates C d0 m m'" and "\<And>e. simulates C d0 (h e) (h e)" and "\<And>d. h OutOfFuel d = (Inl OutOfFuel, d)"
  shows "simulates C d0 (mcatch m h) (mcatch m' h)"
  unfolding simulates_def
proof (intro allI impI)
  fix d assume d: "C d" and f: "fst (mcatch m' h d0) \<noteq> Inl OutOfFuel"
  obtain r d1 where m': "m' d0 = (r, d1)" by (cases "m' d0")
  have r: "r \<noteq> Inl OutOfFuel" using f assms(3) by (auto simp: mcatch_def m')
  obtain d' where m: "d1 = d0" "m d = (r, d')" "C d'" using simD [OF assms(1) d m' r] .
  show "snd (mcatch m' h d0) = d0 \<and> fst (mcatch m h d) = fst (mcatch m' h d0) \<and> C (snd (mcatch m h d))"
  proof (cases r)
    case (Inl e)
    then show ?thesis using assms(2) [of e] f m m' by (simp add: mcatch_def simulates_def)
  qed (use m m' in \<open>simp add: mcatch_def\<close>)
qed

lemma sim_if [sim_rules]: "(b \<Longrightarrow> simulates C d0 m m') \<Longrightarrow> (\<not> b \<Longrightarrow> simulates C d0 n n') \<Longrightarrow> simulates C d0 (if b then m else n) (if b then m' else n')"
  by simp

lemma sim_option [sim_rules]:
  "simulates C d0 m m' \<Longrightarrow> (\<And>x. y = Some x \<Longrightarrow> simulates C d0 (f x) (f' x)) \<Longrightarrow>
     simulates C d0 (case y of None \<Rightarrow> m | Some x \<Rightarrow> f x) (case y of None \<Rightarrow> m' | Some x \<Rightarrow> f' x)"
  by (cases y) simp_all

lemma sim_pair [sim_rules]:
  "(\<And>a b. y = (a, b) \<Longrightarrow> simulates C d0 (f a b) (f' a b)) \<Longrightarrow> simulates C d0 (case y of (a, b) \<Rightarrow> f a b) (case y of (a, b) \<Rightarrow> f' a b)"
  by (cases y) simp

lemma sim_mfold [sim_rules]: "(\<And>x y. simulates C d0 (f x y) (f' x y)) \<Longrightarrow> simulates C d0 (mfold f xs y) (mfold f' xs y)"
  by (induction xs arbitrary: y) (auto intro: sim_rules)


section \<open>One lookup over another\<close>

text \<open>A lookup up to the expanded value: the value, its expansion, and the removals that came with it.\<close>

definition parse_full ::
  "nat \<Rightarrow> python \<Rightarrow> lookup \<Rightarrow> string \<Rightarrow> string \<Rightarrow> (val option \<times> vparse \<times> val list \<times> string option) ds" where
  "parse_full k py look var flag =
     mread (\<lambda>d.
       let local = find_var d var; active = (flag = ''_content'') in
       mbind (if active then override_value look var else mreturn (None, [], None)) (\<lambda>(v, removes, carrier).
       let v = (case v of None \<Rightarrow> plain_value local flag False | Some x \<Rightarrow> Some x) in
       mbind (if active then with_ops look local '':append'' (mfold (apply_op append_val)) v else mreturn v) (\<lambda>v.
       mbind (if active then with_ops look local '':prepend'' (mfold (apply_op prepend_val)) v else mreturn v) (\<lambda>v.
       mbind (expandWithRefs k py look v (cachename var flag)) (\<lambda>p. mreturn (v, p, removes, carrier))))))"

lemma mbind_assoc: "mbind (mbind m f) g = mbind m (\<lambda>x. mbind (f x) g)"
  by (rule ext) (simp add: mbind_def split: prod.split sum.split)

lemma mbind_read: "mbind (mread f) g d = mbind (f d) g d"
  by (simp add: mbind_def mread_def)

lemma mbind_return [simp]: "mbind (mreturn x) f = f x"
  by (rule ext) (simp add: mbind_def mreturn_def)

definition finish_lookup ::
  "nat \<Rightarrow> python \<Rightarrow> lookup \<Rightarrow> var_flags option \<Rightarrow> string \<Rightarrow> string \<Rightarrow> bool \<Rightarrow> bool \<Rightarrow>
    val option \<times> vparse \<times> val list \<times> string option \<Rightarrow> (val option \<times> vparse option) ds" where
  "finish_lookup k py look local var flag expand retparser r =
     (case r of (v, p, removes, carrier) \<Rightarrow>
      mbind (apply_removes k py look local (flag = ''_content'') (if expand then vp_value p else v) removes carrier (Some p)) (\<lambda>p.
      mthen (mupd (store_parse (cachename var flag) p))
        (mreturn (if expand then vp_value (the p) else v, if retparser then p else None))))"

lemma fresh_lookup_split:
  "expand \<or> retparser \<Longrightarrow>
     fresh_lookup k py look var flag expand False False retparser d =
       mbind (parse_full k py look var flag) (finish_lookup k py look (find_var d var) var flag expand retparser) d"
  unfolding parse_full_def mbind_read
  by (cases "flag = ''_content''"; cases expand)
    (simp_all add: fresh_lookup_def mread_def Let_def mbind_assoc split_def finish_lookup_def cong: option.case_cong)

lemma mapM_sim_pieces:
  "(\<And>k p. Ref k \<in> set ps \<Longrightarrow> simulates C d0 (f k p) (f' k p)) \<Longrightarrow> simulates C d0 (sub_pieces f ps out p) (sub_pieces f' ps out p)"
proof (induction ps arbitrary: out p)
  case Nil
  then show ?case by (simp add: sim_return)
next
  case (Cons piece ps)
  then show ?case by (cases piece) (auto intro!: sim_rules)
qed

lemma var_pieces_names: "Ref k \<in> set (var_pieces s) \<Longrightarrow> list_all is_name_char k"
proof (induction s rule: var_pieces.induct)
  case (1 s)
  then show ?case
    by (subst (asm) (3) var_pieces.simps) (auto split: if_splits option.splits dest: name_end_Some)
qed


locale lookup_sim =
  fixes py :: python and d0 :: dstore and C :: "dstore \<Rightarrow> bool"
  assumes config: "C d \<Longrightarrow> good py d0 \<and> clear_cache d = d0"
begin

lemma same_config:
  assumes "C d"
  shows "ds_overrides d = ds_overrides d0" "ds_overridesset d = ds_overridesset d0" "ds_overridedata d = ds_overridedata d0"
    "find_var d var = find_var d0 var"
proof -
  have "d0 = clear_cache d" using config [OF assms] by simp
  then show "ds_overrides d = ds_overrides d0" "ds_overridesset d = ds_overridesset d0" "ds_overridedata d = ds_overridedata d0"
    "find_var d var = find_var d0 var"
    by (simp_all add: clear_cache_def find_var_def)
qed

definition sim_lookup :: "lookup \<Rightarrow> lookup \<Rightarrow> bool" where
  "sim_lookup look look0 \<longleftrightarrow> (\<forall>var flag expand retparser. proper var flag \<longrightarrow> expand \<noteq> retparser \<longrightarrow>
     simulates C d0 (look var flag expand False False retparser) (look0 var flag expand False False retparser))"

lemma sim_vacuous: "(\<And>d. C d \<Longrightarrow> simulates C d0 m m') \<Longrightarrow> simulates C d0 m m'"
  by (simp add: simulates_def)

lemma sim_lookupD:
  "sim_lookup look look0 \<Longrightarrow> proper var flag \<Longrightarrow> expand \<noteq> retparser \<Longrightarrow>
     simulates C d0 (look var flag expand False False retparser) (look0 var flag expand False False retparser)"
  by (simp add: sim_lookup_def)

lemma sim_get_var:
  assumes "sim_lookup look look0" and "CHR ''['' \<notin> set var"
  shows "simulates C d0 (get_var look var) (get_var look0 var)"
proof -
  have "simulates C d0 (look var ''_content'' True False False False) (look0 var ''_content'' True False False False)"
    by (rule sim_lookupD [OF assms(1)]) (simp_all add: proper_def assms(2))
  then show ?thesis unfolding get_var_def by (intro sim_rules)
qed

lemma sim_var_sub:
  assumes "sim_lookup look look0" and "CHR ''['' \<notin> set key"
  shows "simulates C d0 (var_sub look varname key p) (var_sub look0 varname key p)"
  unfolding var_sub_def Let_def
  by (intro sim_rules sim_get_var assms) (auto intro: sim_rules split: val.split)

lemma sim_attempt: "simulates C d0 m m' \<Longrightarrow> simulates C d0 (attempt m) (attempt m')"
  unfolding attempt_def by (intro sim_catch sim_rules) (auto simp: mraise_def)

lemma sim_python_sub:
  assumes "sim_lookup look look0"
  shows "simulates C d0 (python_sub py look varname code p) (python_sub py look0 varname code p)"
proof (rule sim_vacuous)
  fix d assume "C d"
  then obtain r where "py_eval py code = mlift r" using config [of d] by (auto simp: good_def plain_python_def)
  then have ev: "simulates C d0 (py_eval py code) (py_eval py code)" by (simp add: sim_rules)
  have "simulates C d0 (look varname ''vardeps'' True False False False) (look0 varname ''vardeps'' True False False False)"
    by (rule sim_lookupD [OF assms]) (simp_all add: proper_def)
  then show "simulates C d0 (python_sub py look varname code p) (python_sub py look0 varname code p)"
    unfolding python_sub_def Let_def by (intro sim_rules sim_attempt ev)
qed

lemma sim_wrapped: "simulates C d0 m m' \<Longrightarrow> simulates C d0 (wrapped varname s m) (wrapped varname s m')"
  unfolding wrapped_def by (intro sim_catch sim_rules) (auto simp: mraise_def)

lemma name_no_bracket: "list_all is_name_char k \<Longrightarrow> CHR ''['' \<notin> set k"
  by (auto simp: list_all_iff is_name_char_def is_letter_def is_digit_def Let_def)

lemma sim_expand_round:
  assumes "sim_lookup look look0"
  shows "simulates C d0 (expand_round py look varname s p) (expand_round py look0 varname s p)"
  unfolding expand_round_def
  by (intro sim_rules sim_wrapped mapM_sim_pieces sim_var_sub sim_python_sub assms)
    (rule name_no_bracket, erule var_pieces_names)

lemma sim_expand_loop:
  assumes "sim_lookup look look0"
  shows "k \<le> k' \<Longrightarrow> simulates C d0 (expand_loop k' py look varname s p) (expand_loop k py look0 varname s p)"
proof (induction k arbitrary: k' s p)
  case 0
  then show ?case by (simp add: sim_fuel)
next
  case (Suc k)
  then obtain j where "k' = Suc j" "k \<le> j" by (cases k') auto
  then show ?case by (auto intro!: sim_rules sim_expand_round [OF assms] Suc.IH)
qed

lemma sim_expand:
  assumes "sim_lookup look look0" and "k \<le> k'"
  shows "simulates C d0 (expandWithRefs k' py look v name) (expandWithRefs k py look0 v name)"
  unfolding expandWithRefs_def Let_def
  by (auto intro!: sim_rules sim_expand_loop assms split: option.split val.split)

lemma sim_need_overrides: "simulates C d0 (need_overrides look) (need_overrides look0)"
proof (rule sim_vacuous)
  fix d assume "C d"
  then have "ds_overrides d0 \<noteq> None" using config by (simp add: good_def settled_store_def)
  then show "simulates C d0 (need_overrides look) (need_overrides look0)"
    unfolding need_overrides_def by (intro sim_read) (simp add: same_config sim_rules)
qed

lemma sim_op_applies: "simulates C d0 (op_applies override) (op_applies override)"
  unfolding op_applies_def by (intro sim_rules sim_read) (auto simp: same_config intro: sim_rules split: option.split)

lemma sim_apply_op: "simulates C d0 (apply_op f op v) (apply_op f op v)"
  unfolding apply_op_def by (intro sim_rules sim_op_applies)

lemma sim_with_ops:
  "(\<And>ops y. simulates C d0 (f ops y) (f ops y)) \<Longrightarrow> simulates C d0 (with_ops look local keyword f x) (with_ops look0 local keyword f x)"
  by (auto simp: with_ops_def intro!: sim_rules sim_need_overrides split: option.split val.split)

lemma sim_override_value:
  assumes "sim_lookup look look0"
  shows "simulates C d0 (override_value look var) (override_value look0 var)"
  unfolding override_value_def
proof (rule sim_read)
  fix d assume d: "C d"
  have entries: "CHR ''['' \<notin> set r" if "map_of (ds_overridedata d0) var = Some es" "(r, override) \<in> set es" for es r override
    using that conjunct1 [OF config [OF d]] unfolding good_def settled_store_def by fastforce
  have look: "simulates C d0 (look r ''_content'' False False False True) (look0 r ''_content'' False False False True)"
    if "map_of (ds_overridedata d0) var = Some es" "best_override osset os es = Some r" for r es os osset
    using best_override_from [OF that(2)] entries [OF that(1)]
    by - (rule sim_lookupD [OF assms], auto simp: proper_def)
  show "simulates C d0
     (case map_of (ds_overridedata d) var of
        None \<Rightarrow> mreturn (None, [], None)
      | Some entries \<Rightarrow>
          mthen (need_overrides look) (mread (\<lambda>d.
            case ds_overrides d of
              None \<Rightarrow> mraise TypeError
            | Some os \<Rightarrow>
                (case best_override (ds_overridesset d) os entries of
                   None \<Rightarrow> mreturn (None, [], None)
                 | Some r \<Rightarrow>
                     mbind (look r ''_content'' False False False True) (\<lambda>(v, p).
                       mreturn (case p of
                          None \<Rightarrow> (v, [], None)
                        | Some p \<Rightarrow> (case vp_removes p of None \<Rightarrow> (v, [], None) | Some xs \<Rightarrow> (v, xs, Some r))))))))
     (case map_of (ds_overridedata d0) var of
        None \<Rightarrow> mreturn (None, [], None)
      | Some entries \<Rightarrow>
          mthen (need_overrides look0) (mread (\<lambda>d.
            case ds_overrides d of
              None \<Rightarrow> mraise TypeError
            | Some os \<Rightarrow>
                (case best_override (ds_overridesset d) os entries of
                   None \<Rightarrow> mreturn (None, [], None)
                 | Some r \<Rightarrow>
                     mbind (look0 r ''_content'' False False False True) (\<lambda>(v, p).
                       mreturn (case p of
                          None \<Rightarrow> (v, [], None)
                        | Some p \<Rightarrow> (case vp_removes p of None \<Rightarrow> (v, [], None) | Some xs \<Rightarrow> (v, xs, Some r))))))))"
    unfolding same_config(3) [OF d]
    by (intro sim_rules sim_need_overrides sim_read) (auto simp: same_config intro!: sim_rules look)
qed

lemma sim_parse_full:
  assumes "sim_lookup look look0" and "k \<le> k'"
  shows "simulates C d0 (parse_full k' py look var flag) (parse_full k py look0 var flag)"
  unfolding parse_full_def Let_def
  by (rule sim_read, simp only: same_config(4))
    (intro sim_rules sim_override_value sim_with_ops sim_apply_op sim_expand assms)

end

section \<open>More fuel gives the same\<close>

interpretation same: lookup_sim py d0 "\<lambda>d. good py d0 \<and> d = d0" for py d0
proof
  fix d assume "good py d0 \<and> d = d0"
  then show "good py d0 \<and> clear_cache d = d0" by (simp add: good_def clear_cache_def)
qed

text \<open>\<open>gives Q m\<close>: in a settled store, whatever value \<open>m\<close> returns is in \<open>Q\<close>, and the store stays settled.\<close>

definition gives :: "('a \<Rightarrow> bool) \<Rightarrow> 'a ds \<Rightarrow> bool" where
  "gives Q m \<longleftrightarrow> (\<forall>d. settled_store d \<longrightarrow> settled_store (snd (m d)) \<and> (\<forall>x. fst (m d) = Inr x \<longrightarrow> Q x))"

abbreviation harmless :: "'a ds \<Rightarrow> bool" where
  "harmless m \<equiv> gives (\<lambda>_. True) m"

named_theorems gives_rules "structural rules for the values a computation returns"

lemma gives_return [gives_rules]: "Q x \<Longrightarrow> gives Q (mreturn x)"
  by (simp add: gives_def mreturn_def)

lemma gives_raise [gives_rules]: "gives Q (mraise e)"
  by (simp add: gives_def mraise_def)

lemma gives_lift [gives_rules]: "(\<And>x. r = Inr x \<Longrightarrow> Q x) \<Longrightarrow> gives Q (mlift r)"
  by (simp add: gives_def mlift_def)

lemma gives_read [gives_rules]: "(\<And>d. settled_store d \<Longrightarrow> gives Q (f d)) \<Longrightarrow> gives Q (mread f)"
  by (simp add: gives_def mread_def)

lemma gives_weaken: "gives S m \<Longrightarrow> (\<And>x. S x \<Longrightarrow> Q x) \<Longrightarrow> gives Q m"
  by (auto simp: gives_def)

lemma gives_bind:
  assumes "gives S m" and "\<And>x. S x \<Longrightarrow> gives Q (f x)"
  shows "gives Q (mbind m f)"
  unfolding gives_def
proof (intro allI impI)
  fix d assume d: "settled_store d"
  obtain r d1 where m: "m d = (r, d1)" by (cases "m d")
  have d1: "settled_store d1" using assms(1) d m by (auto simp: gives_def)
  show "settled_store (snd (mbind m f d)) \<and> (\<forall>x. fst (mbind m f d) = Inr x \<longrightarrow> Q x)"
  proof (cases r)
    case (Inr x)
    then have "gives Q (f x)" using assms d m by (auto simp: gives_def)
    then show ?thesis using Inr m d1 by (simp add: mbind_def gives_def)
  qed (use m d1 in \<open>simp add: mbind_def\<close>)
qed

lemma gives_bind_any [gives_rules]: "harmless m \<Longrightarrow> (\<And>x. gives Q (f x)) \<Longrightarrow> gives Q (mbind m f)"
  by (rule gives_bind)

lemma gives_then [gives_rules]: "harmless m \<Longrightarrow> gives Q n \<Longrightarrow> gives Q (mthen m n)"
  by (simp add: mthen_def gives_bind_any)

lemma gives_catch:
  assumes "gives Q m" and "\<And>e. gives Q (h e)"
  shows "gives Q (mcatch m h)"
  unfolding gives_def
proof (intro allI impI)
  fix d assume d: "settled_store d"
  obtain r d1 where m: "m d = (r, d1)" by (cases "m d")
  have d1: "settled_store d1" using assms(1) d m by (auto simp: gives_def)
  show "settled_store (snd (mcatch m h d)) \<and> (\<forall>x. fst (mcatch m h d) = Inr x \<longrightarrow> Q x)"
  proof (cases r)
    case (Inl e)
    then show ?thesis using assms(2) [of e] m d1 by (simp add: mcatch_def gives_def)
  next
    case (Inr x)
    then show ?thesis using assms(1) d m by (auto simp: mcatch_def gives_def)
  qed
qed

lemma gives_if [gives_rules]: "(b \<Longrightarrow> gives Q m) \<Longrightarrow> (\<not> b \<Longrightarrow> gives Q n) \<Longrightarrow> gives Q (if b then m else n)"
  by simp

lemma gives_mfold: "(\<And>x y. harmless (f x y)) \<Longrightarrow> harmless (mfold f xs y)"
  by (induction xs arbitrary: y) (simp_all add: gives_return gives_bind_any)

definition like_parse :: "vparse \<Rightarrow> vparse \<Rightarrow> bool" where
  "like_parse p q \<longleftrightarrow> vp_unexpanded q = vp_unexpanded p \<and> vp_removes q = vp_removes p"

text \<open>A lookup that leaves the store settled and gives parses without removals.\<close>

definition plain_lookup :: "lookup \<Rightarrow> bool" where
  "plain_lookup look \<longleftrightarrow>
     (\<forall>var flag expand noweak parsing retparser. harmless (look var flag expand noweak parsing retparser)) \<and>
     (\<forall>r. gives (\<lambda>(v, p). \<forall>q. p = Some q \<longrightarrow> vp_removes q = None) (look r ''_content'' False False False True))"

lemma plain_harmless: "plain_lookup look \<Longrightarrow> harmless (look var flag expand noweak parsing retparser)"
  by (simp add: plain_lookup_def)

lemma get_var_harmless:
  assumes "plain_lookup look"
  shows "harmless (get_var look var)"
  unfolding get_var_def by (rule gives_bind_any [OF plain_harmless [OF assms]]) (simp add: gives_return split: prod.split)

lemma sub_pieces_like:
  assumes "\<And>k p. gives (\<lambda>r. like_parse p (snd r)) (f k p)"
  shows "gives (\<lambda>r. like_parse p (snd r)) (sub_pieces f ps out p)"
proof (induction ps arbitrary: out p)
  case Nil
  then show ?case by (simp add: gives_return like_parse_def)
next
  case (Cons piece ps)
  show ?case
  proof (cases piece)
    case (Ref k)
    have rest: "gives (\<lambda>r. like_parse p (snd r)) (sub_pieces f ps out' q)" if "like_parse p q" for out' q
      by (rule gives_weaken [OF Cons.IH]) (use that in \<open>simp add: like_parse_def\<close>)
    show ?thesis
      unfolding Ref sub_pieces.simps
      by (rule gives_bind [OF assms]) (auto intro: rest gives_return split: option.split prod.split)
  qed (simp add: Cons.IH)
qed

lemma var_sub_like: "plain_lookup look \<Longrightarrow> gives (\<lambda>r. like_parse p (snd r)) (var_sub look varname key p)"
  unfolding var_sub_def Let_def
  by (intro gives_if gives_raise gives_bind_any get_var_harmless)
    (auto simp: like_parse_def intro!: gives_rules split: option.split val.split)

lemma attempt_harmless: "harmless m \<Longrightarrow> harmless (attempt m)"
  unfolding attempt_def by (intro gives_catch gives_bind_any gives_if gives_return gives_raise) simp_all

lemma eval_harmless: "plain_python py \<Longrightarrow> harmless (py_eval py code)"
  by (metis plain_python_def gives_lift)

lemma python_sub_like:
  assumes "plain_lookup look" and "plain_python py"
  shows "gives (\<lambda>r. like_parse p (snd r)) (python_sub py look varname code p)"
proof -
  have tail: "gives (\<lambda>r. like_parse p (snd r)) (mbind (attempt (py_eval py code)) (\<lambda>t. mreturn (t, q)))" if "like_parse p q" for q
    by (rule gives_bind_any [OF attempt_harmless [OF eval_harmless [OF assms(2)]]]) (simp add: that gives_return)
  have vardeps: "harmless (if varname = [] then mreturn () else mbind (look varname ''vardeps'' True False False False) (\<lambda>_. mreturn ()))"
    by (rule gives_if, rule gives_return, rule TrueI, rule gives_bind_any [OF plain_harmless [OF assms(1)]], rule gives_return, rule TrueI)
  have parse: "harmless (attempt (mlift (py_parse py code)))" by (rule attempt_harmless) (simp add: gives_lift)
  show ?thesis
    unfolding python_sub_def Let_def
  proof (rule gives_if)
    show "gives (\<lambda>r. like_parse p (snd r)) (mreturn (Some (''${@'' @ code @ ''}''), p))"
      by (simp add: gives_return like_parse_def)
    have "gives (\<lambda>r. like_parse p (snd r)) (mthen (if varname = [] then mreturn () else mbind (look varname ''vardeps'' True False False False) (\<lambda>_. mreturn ()))
          (mbind (attempt (py_eval py code)) (\<lambda>t. mreturn (t, p\<lparr>vp_refs := refs, vp_execs := execs, vp_contains := conts\<rparr>))))" for refs execs conts
      by (rule gives_then [OF vardeps tail]) (simp add: like_parse_def)
    then show "gives (\<lambda>r. like_parse p (snd r)) (mbind (attempt (mlift (py_parse py code))) (\<lambda>r. case r of
          None \<Rightarrow> mreturn (None, p)
        | Some (refs, execs, conts) \<Rightarrow>
            mthen (if varname = [] then mreturn () else mbind (look varname ''vardeps'' True False False False) (\<lambda>_. mreturn ()))
              (mbind (attempt (py_eval py code)) (\<lambda>t. mreturn (t, p\<lparr>vp_refs := sunion (vp_refs p) refs, vp_execs := sunion (vp_execs p) execs, vp_contains := merge_contains conts (vp_contains p)\<rparr>)))))"
      using gives_return [of "\<lambda>r. like_parse p (snd r)" "(None :: string option, p)"]
      by (intro gives_bind_any [OF parse]) (simp add: like_parse_def split: option.split split del: if_split)
  qed
qed

lemma wrapped_gives: "gives Q m \<Longrightarrow> gives Q (wrapped varname s m)"
  unfolding wrapped_def by (intro gives_catch gives_raise)

lemma expand_round_like:
  assumes "plain_lookup look" and "plain_python py"
  shows "gives (\<lambda>r. like_parse p (snd r)) (expand_round py look varname s p)"
  unfolding expand_round_def
proof (rule gives_bind [OF wrapped_gives [OF sub_pieces_like [OF var_sub_like [OF assms(1)]]]])
  fix r :: "string option \<times> vparse"
  assume r: "like_parse p (snd r)"
  show "gives (\<lambda>r. like_parse p (snd r)) (case r of (s1, p) \<Rightarrow>
     mbind (wrapped varname (the s1) (sub_pieces (python_sub py look varname) (py_pieces (the s1)) [] p)) (\<lambda>(s2, p).
       mreturn (case s2 of None \<Rightarrow> the s1 | Some t \<Rightarrow> t, p)))"
    using r by (cases r) (auto intro!: gives_bind [OF wrapped_gives [OF sub_pieces_like [OF python_sub_like [OF assms]]]] gives_return simp: like_parse_def)
qed

lemma expand_loop_like:
  assumes "plain_lookup look" and "plain_python py"
  shows "gives (\<lambda>r. like_parse p (snd r)) (expand_loop k py look varname s p)"
proof (induction k arbitrary: s p)
  case 0
  then show ?case by (simp add: gives_raise)
next
  case (Suc k)
  have rest: "gives (\<lambda>r. like_parse p (snd r)) (expand_loop k py look varname s' q)" if "like_parse p q" for s' q
    by (rule gives_weaken [OF Suc.IH]) (use that in \<open>simp add: like_parse_def\<close>)
  have "gives (\<lambda>r. like_parse p (snd r)) (mbind (expand_round py look varname s p) (\<lambda>(s', p).
        if s' = s then mreturn (s, p) else expand_loop k py look varname s' p))"
  proof (rule gives_bind [OF expand_round_like [OF assms]])
    fix r :: "string \<times> vparse"
    assume "like_parse p (snd r)"
    then show "gives (\<lambda>r. like_parse p (snd r)) (case r of (s', p) \<Rightarrow> if s' = s then mreturn (s, p) else expand_loop k py look varname s' p)"
      using rest [of "snd r" "fst r"] gives_return [of "\<lambda>r. like_parse p (snd r)" "(s, snd r)"] by (simp add: case_prod_beta)
  qed
  then show ?case by (simp add: gives_return like_parse_def)
qed

lemma expand_fields:
  assumes "plain_lookup look" and "plain_python py"
  shows "gives (\<lambda>p. vp_unexpanded p = v \<and> vp_removes p = None) (expandWithRefs k py look v name)"
  unfolding expandWithRefs_def Let_def
  by (auto intro!: gives_bind [OF expand_loop_like [OF assms]] gives_return simp: like_parse_def split: option.split val.split)

section \<open>A lookup without removals\<close>

lemma find_clear [simp]: "find_var (clear_cache d) var = find_var d var" "ds_overridedata (clear_cache d) = ds_overridedata d"
  by (simp_all add: find_var_def clear_cache_def)

lemma settled_clear [simp]: "settled_store (clear_cache d) = settled_store d"
  by (simp add: settled_store_def) (simp add: clear_cache_def)

definition no_removes :: "var_flags option \<Rightarrow> bool" where
  "no_removes local \<longleftrightarrow> (\<forall>fs. local = Some fs \<longrightarrow> map_of fs '':remove'' = None)"

definition lookup_result :: "bool \<Rightarrow> bool \<Rightarrow> vparse \<Rightarrow> val option \<times> vparse option" where
  "lookup_result expand retparser p = (if expand then vp_value p else vp_unexpanded p, if retparser then Some p else None)"

lemma finish_plain:
  assumes "no_removes local" and "vp_unexpanded p = v"
  shows "finish_lookup k py look local var flag expand retparser (v, p, [], None) d =
    (Inr (lookup_result expand retparser p), store_parse (cachename var flag) (Some p) d)"
proof -
  have "with_ops look local '':remove'' f xs = mreturn xs" for f and xs :: "val list"
    using assms(1) by (auto simp: with_ops_def no_removes_def split: option.split)
  then show ?thesis
    using assms(2) by (simp add: finish_lookup_def apply_removes_def share_removes_def lookup_result_def mbind_eval mthen_eval meth_defs)
qed

definition plain_parse :: "val option \<times> vparse \<times> val list \<times> string option \<Rightarrow> bool" where
  "plain_parse r \<longleftrightarrow> (case r of (v, p, removes, carrier) \<Rightarrow>
     removes = [] \<and> carrier = None \<and> vp_unexpanded p = v \<and> vp_removes p = None)"

lemma need_overrides_harmless: "harmless (need_overrides look)"
  unfolding need_overrides_def by (intro gives_rules) (auto simp: settled_store_def)

lemma op_applies_harmless: "harmless (op_applies override)"
  unfolding op_applies_def
  by (intro gives_if gives_return gives_read) (simp_all add: gives_return gives_raise split: option.split)

lemma apply_op_harmless: "harmless (apply_op f op v)"
  unfolding apply_op_def by (cases op) (auto intro!: gives_rules op_applies_harmless)

lemma with_ops_harmless: "(\<And>ops y. harmless (f ops y)) \<Longrightarrow> harmless (with_ops look local keyword f x)"
  by (auto simp: with_ops_def intro!: gives_rules need_overrides_harmless split: option.split val.split)

lemma override_value_plain:
  assumes look: "plain_lookup look"
  shows "gives (\<lambda>r. snd r = ([], None)) (override_value look var)"
proof -
  have "gives (\<lambda>(v, p). \<forall>q. p = Some q \<longrightarrow> vp_removes q = None) (look r ''_content'' False False False True)" for r
    using look by (simp add: plain_lookup_def)
  then have one: "gives (\<lambda>r. snd r = ([], None)) (mbind (look r ''_content'' False False False True) (\<lambda>(v, p).
                       mreturn (case p of
                          None \<Rightarrow> (v, [], None)
                        | Some p \<Rightarrow> (case vp_removes p of None \<Rightarrow> (v, [], None) | Some xs \<Rightarrow> (v, xs, Some r)))))" for r
    by (rule gives_bind) (auto intro!: gives_return split: option.splits)
  show ?thesis
    unfolding override_value_def
    by (auto intro!: gives_read gives_return gives_raise gives_then need_overrides_harmless one split: option.split)
qed

lemma parse_full_plain:
  assumes "plain_lookup look" and "plain_python py"
  shows "gives plain_parse (parse_full k py look var flag)"
proof -
  have expand: "gives plain_parse (mbind (expandWithRefs k py look v (cachename var flag)) (\<lambda>p. mreturn (v, p, [], None)))" for v
    by (rule gives_bind [OF expand_fields [OF assms]]) (auto simp: plain_parse_def intro: gives_return)
  have start: "gives (\<lambda>r. snd r = ([], None)) (if active then override_value look var else mreturn (None, [], None))" for active
    using override_value_plain [OF assms(1)] by (auto intro: gives_if gives_return)
  have ops: "harmless (if active then with_ops look local keyword (mfold (apply_op f)) v else mreturn v)" for active local keyword f v
    by (intro gives_rules with_ops_harmless gives_mfold apply_op_harmless) simp
  show ?thesis
    unfolding parse_full_def Let_def
  proof (intro gives_read gives_bind [OF start])
    fix d :: dstore and r :: "val option \<times> val list \<times> string option"
    assume "snd r = ([], None)"
    then obtain v where r: "r = (v, [], None)" by (cases r) simp
    show "gives plain_parse (case r of (v, removes, carrier) \<Rightarrow>
        mbind (if flag = ''_content'' then with_ops look (find_var d var) '':append'' (mfold (apply_op append_val))
                 (case v of None \<Rightarrow> plain_value (find_var d var) flag False | Some x \<Rightarrow> Some x)
               else mreturn (case v of None \<Rightarrow> plain_value (find_var d var) flag False | Some x \<Rightarrow> Some x))
         (\<lambda>v. mbind (if flag = ''_content'' then with_ops look (find_var d var) '':prepend'' (mfold (apply_op prepend_val)) v else mreturn v)
         (\<lambda>v. mbind (expandWithRefs k py look v (cachename var flag)) (\<lambda>p. mreturn (v, p, removes, carrier)))))"
      unfolding r prod.case by (intro gives_bind_any ops expand)
  qed
qed

section \<open>The uncached lookup as a parse\<close>

lemma settled_no_removes: "settled_store d \<Longrightarrow> no_removes (find_var d var)"
  by (simp add: settled_store_def no_removes_def)

text \<open>What a lookup gives once its value is parsed.\<close>

definition from_parse :: "bool \<Rightarrow> bool \<Rightarrow> (val option \<times> vparse \<times> val list \<times> string option) res \<Rightarrow> (val option \<times> vparse option) res" where
  "from_parse expand retparser r = (case r of Inl e \<Rightarrow> Inl e | Inr (v, p, removes, carrier) \<Rightarrow> Inr (lookup_result expand retparser p))"

lemma from_parse_fuel: "from_parse expand retparser r = Inl OutOfFuel \<longleftrightarrow> r = Inl OutOfFuel"
  by (auto simp: from_parse_def split: sum.split)

lemma lookup_from_parse:
  assumes look: "plain_lookup look" "plain_python py" and "expand \<or> retparser" and d: "settled_store d"
    and full: "parse_full k py look var flag d = (r, d')"
  shows "fst (fresh_lookup k py look var flag expand False False retparser d) = from_parse expand retparser r"
    and "\<And>v p removes carrier. r = Inr (v, p, removes, carrier) \<Longrightarrow>
      plain_parse (v, p, removes, carrier) \<and>
      snd (fresh_lookup k py look var flag expand False False retparser d) = store_parse (cachename var flag) (Some p) d'"
    and "\<And>e. r = Inl e \<Longrightarrow> snd (fresh_lookup k py look var flag expand False False retparser d) = d'"
proof -
  have split: "fresh_lookup k py look var flag expand False False retparser d =
      mbind (parse_full k py look var flag) (finish_lookup k py look (find_var d var) var flag expand retparser) d"
    by (rule fresh_lookup_split [OF assms(3)])
  have plain: "plain_parse x" if "r = Inr x" for x
    using spec [OF iffD1 [OF gives_def parse_full_plain [OF look, of k var flag]], of d] d full that by simp
  have finish: "finish_lookup k py look (find_var d var) var flag expand retparser (v, p, removes, carrier) d' =
      (Inr (lookup_result expand retparser p), store_parse (cachename var flag) (Some p) d')"
    if "r = Inr (v, p, removes, carrier)" for v p removes carrier
    using plain [OF that] finish_plain [OF settled_no_removes [OF d]] by (simp add: plain_parse_def)
  show "fst (fresh_lookup k py look var flag expand False False retparser d) = from_parse expand retparser r"
    using finish unfolding split by (cases r) (auto simp: mbind_def full from_parse_def)
  show "plain_parse (v, p, removes, carrier) \<and>
      snd (fresh_lookup k py look var flag expand False False retparser d) = store_parse (cachename var flag) (Some p) d'"
    if "r = Inr (v, p, removes, carrier)" for v p removes carrier
    using finish [OF that] plain [OF that] that unfolding split by (simp add: mbind_def full)
  show "snd (fresh_lookup k py look var flag expand False False retparser d) = d'" if "r = Inl e" for e
    using that unfolding split by (simp add: mbind_def full)
qed

lemma fresh_no_parse: "fst (fresh_lookup k py look var flag expand noweak parsing False d) = Inr (v, p) \<Longrightarrow> p = None"
  by (auto simp: fresh_lookup_def Let_def mbind_def mthen_def mreturn_def mupd_def mread_def split: sum.splits prod.splits if_splits)

lemma uncached_plain: "plain_python py \<Longrightarrow> plain_lookup (uncached n py)"
proof (induction n)
  case 0
  then show ?case by (simp add: plain_lookup_def gives_raise)
next
  case (Suc n)
  have "vp_removes q = None"
    if d: "settled_store d" and r: "fst (fresh_lookup n py (uncached n py) r ''_content'' False False False True (clear_cache d)) = Inr (v, Some q)" for d r v q
  proof -
    obtain full d' where full: "parse_full n py (uncached n py) r ''_content'' (clear_cache d) = (full, d')" by fastforce
    have d0: "settled_store (clear_cache d)" using d by simp
    note parse = lookup_from_parse [OF Suc.IH [OF Suc.prems] Suc.prems _ d0 full, of False True]
    have "from_parse False True full = Inr (v, Some q)" using parse(1) r by simp
    then obtain v' removes carrier where "full = Inr (v', q, removes, carrier)"
      by (auto simp: from_parse_def lookup_result_def split: sum.splits)
    then show ?thesis using parse(2) [of v' q removes carrier] by (simp add: plain_parse_def)
  qed
  then show ?case by (auto simp: plain_lookup_def gives_def)
qed

lemma uncached_Suc:
  assumes "good py d0" and "flag \<noteq> []" and "expand \<or> retparser"
  shows "uncached (Suc n) py var flag expand False False retparser d0 =
    (from_parse expand retparser (fst (parse_full n py (uncached n py) var flag d0)), d0)"
proof -
  have d0: "plain_python py" "settled_store d0" "clear_cache d0 = d0" using assms(1) by (auto simp: good_def clear_cache_def)
  obtain full d' where full: "parse_full n py (uncached n py) var flag d0 = (full, d')" by fastforce
  show ?thesis
    using lookup_from_parse(1) [OF uncached_plain [OF d0(1)] d0(1) assms(3) d0(2) full] assms(2) full d0(3) by simp
qed

section \<open>More fuel, and a cache\<close>

lemma uncached_more: "n \<le> n' \<Longrightarrow> lookup_sim.sim_lookup d0 (\<lambda>d. good py d0 \<and> d = d0) (uncached n' py) (uncached n py)"
proof (induction n arbitrary: n')
  case 0
  then show ?case by (simp add: same.sim_lookup_def sim_fuel)
next
  case (Suc n)
  then obtain j where n': "n' = Suc j" "n \<le> j" by (cases n') auto
  show ?case
    unfolding same.sim_lookup_def n'(1)
  proof (intro allI impI)
    fix var flag :: string and expand retparser :: bool
    assume "proper var flag" and er: "expand \<noteq> retparser"
    then have flag: "flag \<noteq> []" "expand \<or> retparser" by (auto simp: proper_def)
    show "simulates (\<lambda>d. good py d0 \<and> d = d0) d0 (uncached (Suc j) py var flag expand False False retparser)
        (uncached (Suc n) py var flag expand False False retparser)"
      unfolding simulates_def
    proof (intro allI impI)
      fix d assume d: "good py d0 \<and> d = d0" and fuel: "fst (uncached (Suc n) py var flag expand False False retparser d0) \<noteq> Inl OutOfFuel"
      have "simulates (\<lambda>d. good py d0 \<and> d = d0) d0 (parse_full j py (uncached j py) var flag) (parse_full n py (uncached n py) var flag)"
        by (rule same.sim_parse_full [OF Suc.IH [OF n'(2)] n'(2)])
      then show "snd (uncached (Suc n) py var flag expand False False retparser d0) = d0 \<and>
          fst (uncached (Suc j) py var flag expand False False retparser d) = fst (uncached (Suc n) py var flag expand False False retparser d0) \<and>
          (good py d0 \<and> snd (uncached (Suc j) py var flag expand False False retparser d) = d0)"
        using d fuel flag by (simp add: uncached_Suc from_parse_fuel simulates_def del: uncached.simps)
    qed
  qed
qed

definition full_parse :: "nat \<Rightarrow> python \<Rightarrow> string \<Rightarrow> string \<Rightarrow> dstore \<Rightarrow> (val option \<times> vparse \<times> val list \<times> string option) res" where
  "full_parse k py var flag d = fst (parse_full k py (uncached k py) var flag d)"

lemma full_parse_more:
  assumes "good py d0" and "k \<le> k'" and "full_parse k py var flag d0 \<noteq> Inl OutOfFuel"
  shows "full_parse k' py var flag d0 = full_parse k py var flag d0"
  using same.sim_parse_full [OF uncached_more [OF assms(2)] assms(2)] assms(1,3) by (simp add: simulates_def full_parse_def)

lemma full_parse_unique:
  assumes "good py d0" and "full_parse k py var flag d0 \<noteq> Inl OutOfFuel" and "full_parse n py var flag d0 \<noteq> Inl OutOfFuel"
  shows "full_parse k py var flag d0 = full_parse n py var flag d0"
  using full_parse_more [OF assms(1), of k n] full_parse_more [OF assms(1), of n k] assms(2,3) by (cases "k \<le> n") auto

lemma full_parse_plain:
  assumes "good py d0" and "full_parse k py var flag d0 = Inr x"
  shows "plain_parse x"
proof -
  have "plain_python py" "settled_store d0" using assms(1) by (simp_all add: good_def)
  then show ?thesis
    using spec [OF iffD1 [OF gives_def parse_full_plain [OF uncached_plain], of py py k k var flag], of d0] assms(2)
    by (cases x) (simp add: full_parse_def)
qed

text \<open>Every entry of the cache is what the value parses to in the store without its cache.\<close>

definition coherent :: "python \<Rightarrow> dstore \<Rightarrow> dstore \<Rightarrow> bool" where
  "coherent py d0 d \<longleftrightarrow> good py d0 \<and> clear_cache d = d0 \<and>
     (\<forall>var flag p. proper var flag \<longrightarrow> map_of (ds_cache d) (cachename var flag) = Some p \<longrightarrow>
        (\<exists>k v. full_parse k py var flag d0 = Inr (v, p, [], None)))"

interpretation cached: lookup_sim py d0 "coherent py d0" for py d0
  by unfold_locales (simp add: coherent_def)

lemma coherent_store:
  assumes "coherent py d0 d" and "proper var flag" and "full_parse k py var flag d0 = Inr (v, p, [], None)"
  shows "coherent py d0 (store_parse (cachename var flag) (Some p) d)"
proof -
  have "\<exists>k v. full_parse k py var' flag' d0 = Inr (v, q, [], None)"
    if "proper var' flag'" "map_of (AList.update (cachename var flag) p (ds_cache d)) (cachename var' flag') = Some q" for var' flag' q
    using that assms cachename_inj [OF assms(2) that(1)] by (auto simp: coherent_def update_conv' split: if_splits)
  then show ?thesis using assms(1) by (auto simp: coherent_def store_parse_def clear_cache_def)
qed

lemma hit_lookup:
  assumes "map_of (ds_cache d) (cachename var flag) = Some p" and "flag \<noteq> []" and "expand \<noteq> retparser"
  shows "getVarFlag (Suc j) py var flag expand False False retparser d = (Inr (lookup_result expand retparser p), d)"
  using assms by (auto simp: lookup_body_def lookup_result_def meth_defs)

lemma miss_lookup:
  assumes "map_of (ds_cache d) (cachename var flag) = None" and "flag \<noteq> []" and "expand \<noteq> retparser"
  shows "getVarFlag (Suc j) py var flag expand False False retparser d =
    mbind (parse_full j py (getVarFlag j py) var flag) (finish_lookup j py (getVarFlag j py) (find_var d var) var flag expand retparser) d"
  using assms fresh_lookup_split [of expand retparser j py "getVarFlag j py" var flag d] by (auto simp: lookup_body_def mread_def)

lemma cached_lookup:
  "n \<le> n' \<Longrightarrow> lookup_sim.sim_lookup d0 (coherent py d0) (getVarFlag n' py) (uncached n py)"
proof (induction n arbitrary: n')
  case 0
  then show ?case by (simp add: cached.sim_lookup_def sim_fuel)
next
  case (Suc n)
  then obtain j where n': "n' = Suc j" "n \<le> j" by (cases n') auto
  have one: "fst (getVarFlag (Suc j) py var flag expand False False retparser d) = from_parse expand retparser (full_parse n py var flag d0) \<and>
      coherent py d0 (snd (getVarFlag (Suc j) py var flag expand False False retparser d))"
    if d: "coherent py d0 d" and p: "proper var flag" "flag \<noteq> []" "expand \<noteq> retparser" and fuel: "full_parse n py var flag d0 \<noteq> Inl OutOfFuel"
    for d var flag expand retparser
  proof (cases "map_of (ds_cache d) (cachename var flag)")
    case (Some q)
    then obtain k v where k: "full_parse k py var flag d0 = Inr (v, q, [], None)"
      using d p(1) unfolding coherent_def by blast
    then have "full_parse n py var flag d0 = Inr (v, q, [], None)"
      using full_parse_unique [of py d0 k var flag n] fuel d by (simp add: coherent_def)
    then show ?thesis using hit_lookup [OF Some p(2,3)] d by (simp add: from_parse_def del: getVarFlag.simps)
  next
    case None
    obtain r d' where full: "parse_full j py (getVarFlag j py) var flag d = (r, d')" by fastforce
    have r: "full_parse n py var flag d0 = r" "coherent py d0 d'"
      using cached.sim_parse_full [OF Suc.IH [OF n'(2)] n'(2), of var flag] d fuel full
      by (auto simp: simulates_def full_parse_def)
    have good: "good py d0" using d by (simp add: coherent_def)
    have "no_removes (find_var d var)"
      using cached.same_config(4) [OF d] good settled_no_removes by (simp add: good_def)
    then show ?thesis
      using full_parse_plain [OF good, of n var flag] coherent_store [OF r(2) p(1), of n] finish_plain [of "find_var d var"] r
      unfolding miss_lookup [OF None p(2,3)]
      by (cases r) (auto simp: mbind_def full from_parse_def plain_parse_def)
  qed
  show ?case
    unfolding cached.sim_lookup_def n'(1)
  proof (intro allI impI)
    fix var flag :: string and expand retparser :: bool
    assume p: "proper var flag" "expand \<noteq> retparser"
    then have flag: "flag \<noteq> []" "expand \<or> retparser" by (auto simp: proper_def)
    show "simulates (coherent py d0) d0 (getVarFlag (Suc j) py var flag expand False False retparser)
        (uncached (Suc n) py var flag expand False False retparser)"
      unfolding simulates_def
    proof (intro allI impI)
      fix d assume d: "coherent py d0 d" and fuel: "fst (uncached (Suc n) py var flag expand False False retparser d0) \<noteq> Inl OutOfFuel"
      have good: "good py d0" using d by (simp add: coherent_def)
      have unc: "uncached (Suc n) py var flag expand False False retparser d0 = (from_parse expand retparser (full_parse n py var flag d0), d0)"
        using uncached_Suc [OF good flag] by (simp add: full_parse_def)
      then have "full_parse n py var flag d0 \<noteq> Inl OutOfFuel" using fuel from_parse_fuel by force
      then show "snd (uncached (Suc n) py var flag expand False False retparser d0) = d0 \<and>
          fst (getVarFlag (Suc j) py var flag expand False False retparser d) = fst (uncached (Suc n) py var flag expand False False retparser d0) \<and>
          coherent py d0 (snd (getVarFlag (Suc j) py var flag expand False False retparser d))"
        unfolding unc using one [OF d p(1) flag(1) p(2)] by simp
    qed
  qed
qed

section \<open>Reading in any order\<close>

definition read_all :: "nat \<Rightarrow> python \<Rightarrow> (string \<times> string) list \<Rightarrow> dstore \<Rightarrow> dstore" where
  "read_all n py reads d = fold (\<lambda>(var, flag) d. snd (getVarFlag n py var flag True False False False d)) reads d"

lemma coherent_start: "plain_python py \<Longrightarrow> settled_store d \<Longrightarrow> ds_cache d = [] \<Longrightarrow> coherent py d d"
  by (simp add: coherent_def good_def clear_cache_def)

lemma coherent_read:
  assumes "coherent py d0 d" and "proper var flag" and "n \<le> m"
    and "fst (uncached n py var flag True False False False d0) \<noteq> Inl OutOfFuel"
  shows "fst (getVarFlag m py var flag True False False False d) = fst (uncached n py var flag True False False False d0) \<and>
    coherent py d0 (snd (getVarFlag m py var flag True False False False d))"
  using cached.sim_lookupD [OF cached_lookup [OF assms(3)] assms(2), of True False py d0] assms(1,4)
  by (simp add: simulates_def)

lemma coherent_read_all:
  assumes "coherent py d0 d" and "n \<le> m"
    and "\<forall>(v, f)\<in>set reads. proper v f \<and> fst (uncached n py v f True False False False d0) \<noteq> Inl OutOfFuel"
  shows "coherent py d0 (read_all m py reads d)"
  using assms(1,3)
proof (induction reads arbitrary: d)
  case (Cons r rs)
  then show ?case
    using coherent_read [of py d0 d "fst r" "snd r" n m] assms(2) by (simp add: read_all_def case_prod_beta)
qed (simp add: read_all_def)

text \<open>C13: in a store whose overrides are known and where nothing is removed, and with inline Python code whose result
  only depends on its text, the expanded lookups with the default arguments (as \<open>getVar\<close> makes them) do not disturb each
  other: such a lookup, with the cache that any other lookups of that kind have left, gives the value or the exception
  that it gives without any cache. (Lookups with \<open>noweakdefault\<close> share the cache and are not among them.)\<close>

theorem cache_transparent:
  assumes "plain_python py" and "settled_store d" and "ds_cache d = []" and "n \<le> m"
    and "\<forall>(v, f)\<in>set ((var, flag) # reads). proper v f \<and> fst (uncached n py v f True False False False d) \<noteq> Inl OutOfFuel"
  shows "fst (getVarFlag m py var flag True False False False (read_all m py reads d)) =
    fst (uncached n py var flag True False False False d)"
proof -
  have "coherent py d (read_all m py reads d)"
    by (rule coherent_read_all [OF coherent_start [OF assms(1-3)] assms(4)]) (use assms(5) in auto)
  then show ?thesis
    using coherent_read [OF _ _ assms(4)] assms(5) by simp
qed

text \<open>A test for settled stores.\<close>

definition settled_test :: "dstore \<Rightarrow> bool" where
  "settled_test d \<longleftrightarrow> ds_overrides d \<noteq> None \<and>
     list_all (\<lambda>l. list_all (\<lambda>(var, fs). map_of fs '':remove'' = None) l) (ds_dict d # ds_below d) \<and>
     list_all (\<lambda>(var, es). list_all (\<lambda>(r, override). CHR ''['' \<notin> set r) es) (ds_overridedata d)"

lemma find_in_mem: "find_in ls var = Some fs \<Longrightarrow> \<exists>l\<in>set ls. (var, fs) \<in> set l"
  by (induction ls) (auto split: option.splits dest: map_of_SomeD)

lemma settled_testD: "settled_test d \<Longrightarrow> settled_store d"
  unfolding settled_test_def settled_store_def find_var_def list_all_iff
  by (fastforce dest!: find_in_mem map_of_SomeD)

definition sample_settled :: dstore where
  "sample_settled = clear_cache (snd (getVar 9 sample_python ''A'' True
     (snd (set_all 9 sample_python [(''OVERRIDES'', ''o''), (''A'', ''1''), (''A:o'', ''${B} ${@p}''), (''B'', ''2''), (''B:append'', ''${C}''), (''C'', ''3'')] new_store))))"

lemma sample_python_plain: "plain_python sample_python"
  unfolding plain_python_def sample_python_def by (auto simp: mreturn_def mlift_def intro!: exI [of _ "Inr _"])

lemma cache_transparent_witness:
  "fst (getVarFlag 9 sample_python ''A'' ''_content'' True False False False
      (read_all 9 sample_python [(''B'', ''_content''), (''A:o'', ''_content''), (''C'', ''doc'')] sample_settled)) = Inr (Some (Text ''23 p''), None)"
proof -
  have u: "fst (uncached 8 sample_python ''A'' ''_content'' True False False False sample_settled) = Inr (Some (Text ''23 p''), None)"
    "fst (uncached 8 sample_python ''B'' ''_content'' True False False False sample_settled) = Inr (Some (Text ''23''), None)"
    "fst (uncached 8 sample_python ''A:o'' ''_content'' True False False False sample_settled) = Inr (Some (Text ''23 p''), None)"
    "fst (uncached 8 sample_python ''C'' ''doc'' True False False False sample_settled) = Inr (None, None)"
    by code_simp+
  have s: "settled_test sample_settled" "ds_cache sample_settled = []" by code_simp+
  have "\<forall>(v, f)\<in>set [(''A'', ''_content''), (''B'', ''_content''), (''A:o'', ''_content''), (''C'', ''doc'')].
      proper v f \<and> fst (uncached 8 sample_python v f True False False False sample_settled) \<noteq> Inl OutOfFuel"
    using u by (simp add: proper_def del: uncached.simps)
  then show ?thesis
    using cache_transparent [OF sample_python_plain settled_testD [OF s(1)] s(2), of 8 9] u by simp
qed

section \<open>Removals\<close>

definition removing_store :: dstore where
  "removing_store = snd (set_all 9 sample_python
     [(''OVERRIDES'', ''b:c''), (''A:b:c'', ''x y z''), (''A:b:c:remove'', ''z''), (''A:remove'', ''x'')] new_store)"

text \<open>Where something is removed the order of lookups matters: the set of removals that comes with an overriding
  variable is shared with the cache, so that after one variable was read, another one with the same overriding
  variable also loses the words that are only removed from the first.\<close>

theorem removals_are_shared:
  "fst (getVar 9 sample_python ''A:b'' True removing_store) = Inr (Some (Text ''x y ''))
   \<and> fst (getVar 9 sample_python ''A:b'' True (snd (getVar 9 sample_python ''A'' True removing_store))) = Inr (Some (Text '' y ''))"
  by code_simp

end
