(* ===== verification/VarTable.thy ===== *)
theory VarTable
  imports VarFrames
begin

text \<open>
  The table of overrides is well formed: it has one list for a name, and the list of a name holds, once each,
  variables whose own name is read as that name with the overrides that are listed. Setting and deleting variables and
  flags, reading and copying keep it so. Renaming does not: it rewrites names without reading them again.
\<close>

section \<open>Well-formed tables\<close>

definition wf_data :: "(string, (string \<times> string) list) dict \<Rightarrow> bool" where
  "wf_data t \<longleftrightarrow> distinct (map fst t) \<and>
     (\<forall>(short, es)\<in>set t. distinct es \<and> (\<forall>(var, override)\<in>set es. (short, override) \<in> set (name_entries var)))"

definition wf_table :: "dstore \<Rightarrow> bool" where
  "wf_table d \<longleftrightarrow> wf_data (ds_overridedata d)"

definition wf_kept :: "'a ds \<Rightarrow> bool" where
  "wf_kept m \<longleftrightarrow> (\<forall>d. wf_table d \<longrightarrow> wf_table (snd (m d)))"

named_theorems wf_rules "computations that keep the table of overrides well formed"

lemma wf_return [wf_rules]: "wf_kept (mreturn x)"
  by (simp add: wf_kept_def mreturn_def)

lemma wf_raise [wf_rules]: "wf_kept (mraise e)"
  by (simp add: wf_kept_def mraise_def)

lemma wf_lift [wf_rules]: "wf_kept (mlift r)"
  by (simp add: wf_kept_def mlift_def)

lemma wf_read [wf_rules]: "(\<And>d. wf_kept (f d)) \<Longrightarrow> wf_kept (mread f)"
  by (simp add: wf_kept_def mread_def)

lemma wf_upd: "(\<And>d. wf_table d \<Longrightarrow> wf_table (f d)) \<Longrightarrow> wf_kept (mupd f)"
  by (simp add: wf_kept_def mupd_def)

lemma wf_bind [wf_rules]:
  assumes "wf_kept m" and "\<And>x. wf_kept (f x)"
  shows "wf_kept (mbind m f)"
  unfolding wf_kept_def
proof (intro allI impI)
  fix d assume d: "wf_table d"
  obtain r d1 where m: "m d = (r, d1)" by (cases "m d")
  have "wf_table d1" using assms(1) d m by (auto simp: wf_kept_def)
  then show "wf_table (snd (mbind m f d))" using assms(2) by (cases r) (auto simp: mbind_def m wf_kept_def)
qed

lemma wf_then [wf_rules]: "wf_kept m \<Longrightarrow> wf_kept n \<Longrightarrow> wf_kept (mthen m n)"
  by (simp add: mthen_def wf_bind)

lemma wf_if [wf_rules]: "(b \<Longrightarrow> wf_kept m) \<Longrightarrow> (\<not> b \<Longrightarrow> wf_kept n) \<Longrightarrow> wf_kept (if b then m else n)"
  by simp

lemma wf_option [wf_rules]: "wf_kept m \<Longrightarrow> (\<And>x. wf_kept (f x)) \<Longrightarrow> wf_kept (case y of None \<Rightarrow> m | Some x \<Rightarrow> f x)"
  by (cases y) simp_all

lemma wf_keeps: "keeps vars m \<Longrightarrow> wf_kept m"
  by (simp add: wf_kept_def keeps_def vars_def wf_table_def)

section \<open>The operations on the table\<close>

lemma wf_update:
  assumes "wf_data t" and "distinct es" and "\<And>var override. (var, override) \<in> set es \<Longrightarrow> (short, override) \<in> set (name_entries var)"
  shows "wf_data (AList.update short es t)"
proof -
  have "x \<in> set (AList.update short es t) \<Longrightarrow> x \<in> set t \<or> x = (short, es)" for x
    by (induction t) (auto split: if_splits)
  then show ?thesis using assms unfolding wf_data_def by (fastforce intro: distinct_update)
qed

lemma wf_delete: "wf_data t \<Longrightarrow> wf_data (AList.delete short t)"
  using distinct_delete [of t short] by (auto simp: wf_data_def AList.delete_eq)

lemma wf_dget:
  assumes "wf_data t"
  shows "distinct (dget t short []) \<and> (\<forall>(var, override)\<in>set (dget t short []). (short, override) \<in> set (name_entries var))"
  using assms by (auto simp: wf_data_def dget_def split: option.splits dest!: map_of_SomeD)

lemma wf_note:
  assumes "wf_table d" and "e \<in> set (name_entries var)"
  shows "wf_table (note_override var e d)"
proof (cases e)
  case (Pair short override)
  have "wf_data (AList.update short (sadd (var, override) (dget (ds_overridedata d) short [])) (ds_overridedata d))"
    using assms wf_dget [of "ds_overridedata d" short] Pair by (intro wf_update) (auto simp: wf_table_def sadd_def split: if_splits)
  then show ?thesis by (simp add: Pair note_override_def wf_table_def)
qed

lemma wf_note_all: "wf_table d \<Longrightarrow> set es \<subseteq> set (name_entries var) \<Longrightarrow> wf_table (fold (note_override var) es d)"
  by (induction es arbitrary: d) (simp_all add: wf_note)

lemma wf_update_overrides: "wf_table d \<Longrightarrow> wf_table (setvar_update_overrides var d)"
  by (simp add: setvar_update_overrides_def wf_note_all)

lemma wf_forget: "wf_table d \<Longrightarrow> wf_table (forget_override var e d)"
proof (cases e)
  case (Pair short override)
  assume d: "wf_table d"
  then have "wf_data (AList.update short (remove1 (var, override) (dget (ds_overridedata d) short [])) (ds_overridedata d))"
    using wf_dget [of "ds_overridedata d" short] set_remove1_subset [of "(var, override)" "dget (ds_overridedata d) short []"]
    by (intro wf_update) (auto simp: wf_table_def)
  then show ?thesis using d by (simp add: Pair forget_override_def wf_table_def)
qed

lemma wf_forget_all: "wf_table d \<Longrightarrow> wf_table (fold (forget_override var) es d)"
  by (induction es arbitrary: d) (simp_all add: wf_forget)

lemma wf_delVar: "wf_table d \<Longrightarrow> wf_table (delVar var d)"
proof -
  assume d: "wf_table d"
  have "wf_table ((put_flags var [] (clear_cache d))\<lparr>ds_overridedata := AList.delete var (ds_overridedata d)\<rparr>)"
    using d by (simp add: wf_table_def wf_delete)
  then show ?thesis using wf_forget_all by (simp add: delVar_def Let_def put_flags_def clear_cache_def)
qed

lemma wf_del_all: "wf_table d \<Longrightarrow> wf_table (fold delVar as d)"
  by (induction as arbitrary: d) (simp_all add: wf_delVar)

lemma wf_table_other [simp]:
  "wf_table (clear_cache d) = wf_table d" "wf_table (put_flags var fs d) = wf_table d"
  "wf_table (make_shadow_copy var d) = wf_table d" "wf_table (drop_ops var d) = wf_table d"
  "wf_table (put_content var v d) = wf_table d" "wf_table (put_flag var flag v d) = wf_table d"
  "wf_table (note_rename var flag d) = wf_table d"
  by (simp_all add: wf_table_def clear_cache_def drop_ops_def put_content_def put_flag_def note_rename_def Let_def)
    (simp add: put_flags_def)?

lemma wf_delete_overrides: "wf_table d \<Longrightarrow> wf_table (delete_overrides var d)"
  by (simp add: wf_table_def delete_overrides_def wf_delete)

section \<open>Setting and deleting\<close>

lemma wf_plain_set:
  assumes "quiet py"
  shows "wf_kept (plain_set n py var v parsing)"
proof -
  have need: "wf_kept (need_overrides (getVarFlag n py))"
    by (rule wf_keeps [OF keeps_vars [OF need_overrides_keeps [OF getVarFlag_keeps [OF assms]]]])
  have active: "wf_kept (drop_active n py var)"
    unfolding drop_active_def by (intro wf_rules need wf_upd wf_del_all wf_delete_overrides)
  have update: "wf_kept (update_if_overridevar n py var var v)"
    by (rule wf_keeps [OF update_overridevar_keeps [OF assms]])
  show ?thesis
    unfolding plain_set_def by (intro wf_rules active update wf_upd) (simp_all add: wf_update_overrides)
qed

lemma wf_check_renamed: "quiet py \<Longrightarrow> wf_kept (check_renamed n py var)"
  unfolding check_renamed_def mark_failed_def by (intro wf_rules wf_plain_set wf_upd) simp_all

lemma wf_export: "wf_kept (export_var var)"
proof -
  have "wf_table (put_flag a b v (make_shadow_copy c d))" if "wf_table d" for a b c v d
    using that by simp
  then have "wf_table (snd (export_var var d))" if "wf_table d" for d
    using that by (auto simp: export_var_def Let_def meth_defs split: option.split val.split)
  then show ?thesis by (simp add: wf_kept_def)
qed

lemma wf_setVarFlag:
  assumes "quiet py"
  shows "wf_kept (setVarFlag n py var flag v)"
  unfolding setVarFlag_def
  by (intro wf_rules wf_check_renamed wf_export wf_upd wf_keeps [OF update_overridevar_keeps] assms)
    (simp_all add: wf_update_overrides)

lemma wf_setVar:
  assumes "quiet py"
  shows "wf_kept (setVar n py var v parsing)"
proof -
  have get: "wf_kept (get_ops n py var keyword)" for var keyword
    unfolding get_ops_def by (rule wf_keeps, rule keeps_vars, intro keeps_rules keeps_lookupD getVarFlag_keeps assms)
  have "wf_kept (add_op n py var base keyword v override)" for base keyword override
    unfolding add_op_def
    by (intro wf_rules get wf_setVarFlag wf_upd wf_keeps [OF update_overridevar_keeps] assms) (simp add: wf_update_overrides)
  then have op: "wf_kept (case split_keyword var of None \<Rightarrow> plain_set n py var v parsing | Some (base, keyword, override) \<Rightarrow> add_op n py var base keyword v override)"
    using wf_plain_set [OF assms] by (simp split: option.split)
  show ?thesis
    unfolding setVar_def by (rule wf_if, rule wf_raise, rule wf_then [OF wf_check_renamed [OF assms] wf_then [OF wf_upd op]]) simp
qed

lemma wf_setVarFlags: "wf_table d \<Longrightarrow> wf_table (setVarFlags var flags d)"
proof -
  assume d: "wf_table d"
  have "wf_table (fold (\<lambda>(flag, v) d. if flag = ''_content'' then d else put_flags var (AList.update flag v (own_flags d var)) d) fs d')"
    if "wf_table d'" for fs d'
    using that by (induction fs arbitrary: d') auto
  then show ?thesis using d by (simp add: setVarFlags_def Let_def)
qed

lemma wf_delVarFlag: "wf_table d \<Longrightarrow> wf_table (delVarFlag var flag d)" "wf_table d \<Longrightarrow> wf_table (delVarFlags var d)"
  by (simp_all add: delVarFlag_def delVarFlags_def Let_def split: option.split) (simp add: wf_table_def clear_cache_def)

section \<open>How names are read\<close>

lemma override_entries_text:
  "(short', override') \<in> set (override_entries short override) \<Longrightarrow> short' @ '':'' @ override' = short @ '':'' @ override \<and> is_override override'"
proof (induction short override rule: override_entries.induct)
  case (1 short override)
  then show ?case
    by (subst (asm) (2) override_entries.simps) (auto split: option.splits if_splits dest!: rsplit1_Some(1))
qed

lemma name_entries_text:
  assumes "(short, override) \<in> set (name_entries r)"
  shows "is_override override \<and> (if CHR '':'' \<in> set r then r = short @ '':'' @ override else short = butlast r \<and> override = r)"
proof (cases "rsplit1 CHR '':'' r")
  case None
  then have r: "CHR '':'' \<notin> set r" by (simp add: rsplit1_None_iff)
  then have "rsplit1 CHR '':'' (butlast r) = None" using in_set_butlastD by (fastforce simp: rsplit1_None_iff)
  then show ?thesis using assms None r by (auto simp: name_entries_def override_entries.simps [of "butlast r"] split: if_splits)
next
  case (Some e)
  then have "CHR '':'' \<in> set r" using rsplit1_None_iff [of "CHR '':''" r] by auto
  then show ?thesis
    using assms Some override_entries_text [of short override "fst e" "snd e"] rsplit1_Some(1) [of "CHR '':''" r "fst e" "snd e"]
    by (auto simp: name_entries_def)
qed

text \<open>C16: the table of overrides is well formed in a new store, and stays so whatever variables and flags are
  read, set, appended to and deleted and when the store is copied; in a well-formed table, a variable that is listed for
  a name is that name, a colon and the overrides that are listed with it, or else a name without a colon that is listed under itself
  less its last character.\<close>

theorem override_table_well_formed:
  assumes "quiet py" and "wf_table d"
  shows "wf_table new_store \<and> wf_table (create_copy d) \<and> wf_table (snd (setVar n py var v parsing d)) \<and>
    wf_table (snd (setVarFlag n py var flag v d)) \<and> wf_table (snd (appendVarFlag n py var flag v d)) \<and>
    wf_table (snd (prependVarFlag n py var flag v d)) \<and> wf_table (setVarFlags var flags d) \<and>
    wf_table (delVar var d) \<and> wf_table (delVarFlag var flag d) \<and> wf_table (delVarFlags var d) \<and>
    wf_table (snd (getVarFlag n py var flag expand noweakdefault parsing retparser d)) \<and>
    (\<forall>short es. map_of (ds_overridedata d) short = Some es \<longrightarrow> distinct es \<and>
       (\<forall>(r, override)\<in>set es. is_override override \<and>
          (if CHR '':'' \<in> set r then r = short @ '':'' @ override else short = butlast r \<and> override = r)))"
proof -
  have look: "wf_kept (getVarFlag n py var flag expand noweak parsing retparser)" for flag expand noweak parsing retparser
    by (rule wf_keeps [OF keeps_vars [OF keeps_lookupD [OF getVarFlag_keeps [OF assms(1)]]]])
  have flags: "wf_kept (appendVarFlag n py var flag v)" "wf_kept (prependVarFlag n py var flag v)"
    unfolding appendVarFlag_def prependVarFlag_def by (auto intro!: wf_rules look wf_setVarFlag assms(1))
  have listed: "distinct es \<and> (\<forall>(r, override)\<in>set es. is_override override \<and>
      (if CHR '':'' \<in> set r then r = short @ '':'' @ override else short = butlast r \<and> override = r))"
    if "map_of (ds_overridedata d) short = Some es" for short es
    using map_of_SomeD [OF that] assms(2) name_entries_text unfolding wf_table_def wf_data_def by fast
  have "wf_table new_store" "wf_table (create_copy d)"
    using assms(2) by (simp_all add: wf_table_def new_store_def create_copy_def wf_data_def)
  then show ?thesis
    using assms(2) flags look wf_setVar [OF assms(1)] wf_setVarFlag [OF assms(1)] wf_setVarFlags wf_delVar wf_delVarFlag listed
    by (simp add: wf_kept_def)
qed

lemma override_table_well_formed_witness:
  "wf_table (snd (setVar 9 sample_python ''A:b:c'' (Text ''2'') False new_store)) \<and>
   ds_overridedata (snd (setVar 9 sample_python ''A:b:c'' (Text ''2'') False new_store)) = [(''A:b'', [(''A:b:c'', ''c'')]), (''A'', [(''A:b:c'', ''b:c'')])]"
proof
  have "wf_table new_store" by (simp add: wf_table_def new_store_def wf_data_def)
  then show "wf_table (snd (setVar 9 sample_python ''A:b:c'' (Text ''2'') False new_store))"
    using override_table_well_formed [OF sample_python_quiet, of new_store 9 "''A:b:c''" "Text ''2''" False] by simp
qed code_simp

end
