(* ===== verification/Regex.thy ===== *)
theory Regex
  imports VarText
begin

text \<open>
  Regular expressions as \<open>re.match\<close> of Python runs them: an expression maps a text to the list of its
  matches at the start, each with what it captured and with the rest of the text, in the order in which
  the matcher tries them. The match is the first of the list. Texts hold ASCII characters.
\<close>

section \<open>Combinators\<close>

type_synonym 'a rx = "string \<Rightarrow> ('a \<times> string) list"

definition rx_return :: "'a \<Rightarrow> 'a rx" where
  "rx_return x s = [(x, s)]"

definition rx_bind :: "'a rx \<Rightarrow> ('a \<Rightarrow> 'b rx) \<Rightarrow> 'b rx" where
  "rx_bind m f s = concat (map (\<lambda>(x, t). f x t) (m s))"

definition rx_lit :: "string \<Rightarrow> string rx" where
  "rx_lit w s = (if prefix w s then [(w, drop (length w) s)] else [])"

text \<open>The ways to take characters of a class, the fewest first; \<open>rx_star\<close> and \<open>rx_plus\<close> take the most first.\<close>

fun rx_lazy :: "(char \<Rightarrow> bool) \<Rightarrow> string rx" where
  "rx_lazy P [] = [([], [])]"
| "rx_lazy P (c # s) = ([], c # s) # (if P c then map (\<lambda>(a, b). (c # a, b)) (rx_lazy P s) else [])"

definition rx_star :: "(char \<Rightarrow> bool) \<Rightarrow> string rx" where
  "rx_star P s = rev (rx_lazy P s)"

definition rx_plus :: "(char \<Rightarrow> bool) \<Rightarrow> string rx" where
  "rx_plus P s = filter (\<lambda>(a, b). a \<noteq> []) (rx_star P s)"

definition rx_char :: "(char \<Rightarrow> bool) \<Rightarrow> string rx" where
  "rx_char P s = (case s of [] \<Rightarrow> [] | c # t \<Rightarrow> if P c then [([c], t)] else [])"

definition rx_alt :: "'a rx \<Rightarrow> 'a rx \<Rightarrow> 'a rx" where
  "rx_alt m n s = m s @ n s"

definition rx_opt :: "'a rx \<Rightarrow> 'a option rx" where
  "rx_opt m s = map (\<lambda>(x, t). (Some x, t)) (m s) @ [(None, s)]"

definition rx_end :: "unit rx" where
  "rx_end s = (if s = [] then [((), [])] else [])"

definition rx_not :: "'a rx \<Rightarrow> unit rx" where
  "rx_not m s = (if m s = [] then [((), s)] else [])"

definition rx_ahead :: "'a rx \<Rightarrow> unit rx" where
  "rx_ahead m s = (if m s = [] then [] else [((), s)])"

definition rx_then :: "'a rx \<Rightarrow> 'b rx \<Rightarrow> 'b rx" where
  "rx_then m n = rx_bind m (\<lambda>_. n)"

definition rx_match :: "'a rx \<Rightarrow> string \<Rightarrow> 'a option" where
  "rx_match m s = (case m s of [] \<Rightarrow> None | (x, t) # _ \<Rightarrow> Some x)"

definition not_newline :: "char \<Rightarrow> bool" where
  "not_newline c \<longleftrightarrow> c \<noteq> CHR ''\<newline>''"

definition is_word_char :: "char \<Rightarrow> bool" where
  "is_word_char c \<longleftrightarrow> is_letter c \<or> is_digit c \<or> c = CHR ''_''"

section \<open>Their matches\<close>

named_theorems rx_simps "matches of combined expressions"

lemma rx_bind_Nil: "m s = [] \<Longrightarrow> rx_bind m f s = []"
  by (simp add: rx_bind_def)

lemma rx_bind_Cons: "m s = (x, t) # r \<Longrightarrow> rx_bind m f s = f x t @ concat (map (\<lambda>(x, t). f x t) r)"
  by (simp add: rx_bind_def)

lemma rx_bind_one: "m s = [(x, t)] \<Longrightarrow> rx_bind m f s = f x t"
  by (simp add: rx_bind_def)

lemma rx_lit_append [simp]: "rx_lit w (w @ s) = [(w, s)]"
  by (simp add: rx_lit_def)

lemma rx_match_bind: "m s = [(x, t)] \<Longrightarrow> rx_match (rx_bind m f) s = rx_match (f x) t"
  by (simp add: rx_match_def rx_bind_one)

lemma rx_lazy_stop: "s = [] \<or> \<not> P (hd s) \<Longrightarrow> rx_lazy P s = [([], s)]"
  by (cases s) auto

text \<open>Of a text that starts with characters of the class, every prefix up to the first other character.\<close>

lemma rx_lazy_span:
  assumes "list_all P w" and "s = [] \<or> \<not> P (hd s)"
  shows "rx_lazy P (w @ s) = map (\<lambda>i. (take i w, drop i w @ s)) [0..<Suc (length w)]"
  using assms(1)
proof (induction w)
  case Nil
  then show ?case using rx_lazy_stop [of s P] assms(2) by simp
next
  case (Cons c w)
  have "map g [0..<Suc (Suc (length w))] = g 0 # map (g \<circ> Suc) [0..<Suc (length w)]" for g :: "nat \<Rightarrow> string \<times> string"
    by (simp add: map_upt_Suc comp_def del: upt_Suc)
  then show ?case using Cons by (simp add: comp_def del: upt_Suc)
qed

lemma rx_star_span:
  assumes "list_all P w" and "s = [] \<or> \<not> P (hd s)"
  shows "\<exists>r. rx_star P (w @ s) = (w, s) # r"
  by (simp add: rx_star_def rx_lazy_span [OF assms])

lemma rx_star_stop: "s = [] \<or> \<not> P (hd s) \<Longrightarrow> rx_star P s = [([], s)]"
  by (simp add: rx_star_def rx_lazy_stop)

lemma rx_plus_stop: "s = [] \<or> \<not> P (hd s) \<Longrightarrow> rx_plus P s = []"
  by (simp add: rx_plus_def rx_star_stop)

lemma rx_lazy_mem: "(a, b) \<in> set (rx_lazy P s) \<Longrightarrow> s = a @ b \<and> list_all P a"
  by (induction s arbitrary: a) (auto split: if_splits)

lemma rx_star_mem: "(a, b) \<in> set (rx_star P s) \<Longrightarrow> s = a @ b \<and> list_all P a"
  using rx_lazy_mem by (simp add: rx_star_def)

text \<open>A star whose rest must be at the end of the class takes all.\<close>

lemma rx_bind_star:
  assumes "list_all P w" and "s = [] \<or> \<not> P (hd s)" and "\<And>i. i < length w \<Longrightarrow> f (take i w) (drop i w @ s) = []"
  shows "rx_bind (rx_star P) f (w @ s) = f w s"
proof -
  have "rx_star P (w @ s) = (w, s) # rev (map (\<lambda>i. (take i w, drop i w @ s)) [0..<length w])"
    by (simp add: rx_star_def rx_lazy_span [OF assms(1,2)])
  moreover have "concat (map (\<lambda>(x, t). f x t) (rev (map (\<lambda>i. (take i w, drop i w @ s)) [0..<length w]))) = []"
    using assms(3) by simp
  ultimately show ?thesis by (simp add: rx_bind_def)
qed

lemma rx_bind_lazy:
  assumes "list_all P w" and "s = [] \<or> \<not> P (hd s)" and "\<And>i. i < length w \<Longrightarrow> f (take i w) (drop i w @ s) = []"
  shows "rx_bind (rx_lazy P) f (w @ s) = f w s"
proof -
  have "rx_lazy P (w @ s) = map (\<lambda>i. (take i w, drop i w @ s)) [0..<length w] @ [(w, s)]"
    by (simp add: rx_lazy_span [OF assms(1,2)])
  moreover have "concat (map (\<lambda>(x, t). f x t) (map (\<lambda>i. (take i w, drop i w @ s)) [0..<length w])) = []"
    using assms(3) by simp
  ultimately show ?thesis by (simp add: rx_bind_def)
qed

end
