(* ===== verification/ConfParse.thy ===== *)
theory ConfParse
  imports Regex
begin

text \<open>
  The lines of a configuration file: \<open>bb/parse/parse_py/ConfHandler.py\<close>, which reads a line as an
  assignment or another statement, and joins lines that end in a backslash.
\<close>

section \<open>Statements\<close>

text \<open>The operators of an assignment, and the groups of \<open>__config_regexp__\<close> that evaluation uses.\<close>

datatype assign_op = SetOp | LazyOp | QuesOp | ColonOp | AppendOp | PrependOp | PredotOp | PostdotOp

record assignment =
  gd_exp :: bool
  gd_var :: string
  gd_flag :: "string option"
  gd_op :: assign_op
  gd_value :: string

text \<open>The classes of \<open>bb/parse/ast.py\<close>.\<close>

datatype statement =
    Assign assignment
  | Include string bool
  | IncludeAll string
  | Export string
  | Unset string
  | UnsetFlag string string
  | PyLib string string
  | AddFragments string string string
  | Method string "string list" bool bool
  | PythonMethod string string "string list"
  | ExportFuncs "string list" string
  | AddTask string string string
  | DelTask string
  | BBHandlers "string list"
  | Inherit string
  | InheritDeferred string

text \<open>A statement with the file and the line it was read from.\<close>

record node =
  nd_file :: string
  nd_line :: nat
  nd_what :: statement

section \<open>The expressions\<close>

definition is_conf_char :: "char \<Rightarrow> bool" where
  "is_conf_char c \<longleftrightarrow> is_letter c \<or> is_digit c \<or> c \<in> set ''-_+.${}/~:''"

definition is_flag_char :: "char \<Rightarrow> bool" where
  "is_flag_char c \<longleftrightarrow> is_letter c \<or> is_digit c \<or> c \<in> set ''-_+.''"

definition is_flag_rest :: "char \<Rightarrow> bool" where
  "is_flag_rest c \<longleftrightarrow> is_flag_char c \<or> c \<in> set ''@/''"

definition assign_ops :: "(string \<times> assign_op) list" where
  "assign_ops =
     [('':='', ColonOp), (''??='', LazyOp), (''?='', QuesOp), (''+='', AppendOp), (''=+'', PrependOp),
      (''=.'', PredotOp), (''.='', PostdotOp), (''='', SetOp)]"

definition op_rx :: "assign_op rx" where
  "op_rx s = concat (map (\<lambda>(w, o'). map (\<lambda>(x, t). (o', t)) (rx_lit w s)) assign_ops)"

definition flag_rx :: "string rx" where
  "flag_rx =
     rx_then (rx_lit ''['') (rx_bind (rx_char is_flag_char) (\<lambda>a. rx_bind (rx_star is_flag_rest) (\<lambda>b.
       rx_then (rx_lit '']'') (rx_return (a @ b)))))"

text \<open>A text that is quoted by \<open>q\<close> and has one more \<open>q\<close> in it.\<close>

definition thrice_rx :: "char \<Rightarrow> unit rx" where
  "thrice_rx q =
     rx_then (rx_lit [q]) (rx_then (rx_star (\<lambda>c. c \<noteq> q)) (rx_then (rx_lit [q]) (rx_then (rx_star (\<lambda>c. c \<noteq> q))
       (rx_then (rx_lit [q]) rx_end))))"

definition quoted_rx :: "string rx" where
  "quoted_rx =
     rx_then (rx_not (thrice_rx CHR 0x27)) (rx_then (rx_not (thrice_rx CHR 0x22))
       (rx_bind (rx_char (\<lambda>c. c = CHR 0x27 \<or> c = CHR 0x22)) (\<lambda>q.
        rx_bind (rx_star not_newline) (\<lambda>v. rx_then (rx_lit q) (rx_then rx_end (rx_return v))))))"

definition config_rx :: "assignment rx" where
  "config_rx =
     rx_bind (rx_opt (rx_then (rx_lit ''export'') (rx_plus is_space))) (\<lambda>e.
     rx_bind (rx_lazy is_conf_char) (\<lambda>var.
     rx_bind (rx_opt flag_rx) (\<lambda>flag.
     rx_then (rx_star is_space)
       (rx_bind op_rx (\<lambda>o'.
        rx_then (rx_star is_space)
          (rx_bind quoted_rx (\<lambda>v.
             rx_return \<lparr>gd_exp = (e \<noteq> None), gd_var = var, gd_flag = flag, gd_op = o', gd_value = v\<rparr>)))))))"

text \<open>\<open>keyword_rx w n\<close> is the word \<open>w\<close>, space, and \<open>n\<close>.\<close>

definition keyword_rx :: "string \<Rightarrow> 'a rx \<Rightarrow> 'a rx" where
  "keyword_rx w n = rx_then (rx_lit w) (rx_then (rx_plus is_space) n)"

definition any_rx :: "string rx" where
  "any_rx = rx_plus not_newline"

definition unset_char :: "char \<Rightarrow> bool" where
  "unset_char c \<longleftrightarrow> is_conf_char c \<and> c \<noteq> CHR '':''"

definition name_rx :: "string rx" where
  "name_rx = rx_bind (rx_plus unset_char) (\<lambda>v. rx_then rx_end (rx_return v))"

definition name_flag_rx :: "(string \<times> string) rx" where
  "name_flag_rx =
     rx_bind (rx_plus unset_char) (\<lambda>v.
     rx_then (rx_lit ''['') (rx_bind (rx_char is_flag_char) (\<lambda>a.
     rx_bind (rx_plus (\<lambda>c. is_flag_char c \<or> c = CHR ''@'')) (\<lambda>b.
     rx_then (rx_lit '']'') (rx_then rx_end (rx_return (v, a @ b)))))))"

definition two_rx :: "(string \<times> string) rx" where
  "two_rx = rx_bind any_rx (\<lambda>a. rx_then (rx_plus is_space) (rx_bind any_rx (\<lambda>b. rx_return (a, b))))"

definition three_rx :: "(string \<times> string \<times> string) rx" where
  "three_rx = rx_bind any_rx (\<lambda>a. rx_then (rx_plus is_space) (rx_bind two_rx (\<lambda>b. rx_return (a, b))))"

section \<open>Reading a line\<close>

text \<open>\<open>or_match m f r\<close>: what \<open>f\<close> makes of the match, or \<open>r\<close> if there is none.\<close>

definition or_match :: "'a option \<Rightarrow> ('a \<Rightarrow> 'b) \<Rightarrow> 'b \<Rightarrow> 'b" where
  "or_match m f r = (case m of None \<Rightarrow> r | Some x \<Rightarrow> f x)"

definition conf_feeder :: "string \<Rightarrow> bool \<Rightarrow> bool \<Rightarrow> statement res" where
  "conf_feeder s baseconfig conffile =
     or_match (rx_match config_rx s)
       (\<lambda>g. if gd_var g = [] then Inl (ParseError (''Empty variable name in assignment: '' @ s)) else Inr (Assign g))
     (or_match (rx_match (keyword_rx ''include'' any_rx) s) (\<lambda>f. Inr (Include f False))
     (or_match (rx_match (keyword_rx ''require'' any_rx) s) (\<lambda>f. Inr (Include f True))
     (or_match (rx_match (keyword_rx ''include_all'' any_rx) s) (\<lambda>f. Inr (IncludeAll f))
     (or_match (rx_match (keyword_rx ''export'' name_rx) s) (\<lambda>v. Inr (Export v))
     (or_match (rx_match (keyword_rx ''unset'' name_rx) s) (\<lambda>v. Inr (Unset v))
     (or_match (rx_match (keyword_rx ''unset'' name_flag_rx) s) (\<lambda>(v, flag). Inr (UnsetFlag v flag))
     (or_match (if baseconfig \<and> conffile then rx_match (keyword_rx ''addpylib'' two_rx) s else None) (\<lambda>(a, b). Inr (PyLib a b))
     (or_match (rx_match (keyword_rx ''addfragments'' three_rx) s) (\<lambda>(a, b, c). Inr (AddFragments a b c))
       (Inl (ParseError (''unparsed line: '' @ s)))))))))))"

section \<open>Reading a file\<close>

definition rstrip :: "string \<Rightarrow> string" where
  "rstrip s = rev (dropWhile is_space (rev s))"

text \<open>A line is joined with the next ones as long as it ends in a backslash; at the end of the file the
  next line is empty.\<close>

function conf_join :: "string \<Rightarrow> nat \<Rightarrow> string list \<Rightarrow> (string \<times> nat \<times> string list) res" where
  "conf_join s n ls =
     (if s = [] then Inl IndexError
      else if last s \<noteq> CHR 0x5C then Inr (s, n, ls)
      else let s2 = (case ls of [] \<Rightarrow> [] | l # _ \<Rightarrow> rstrip l)
           in if (s2 = [] \<or> hd s2 \<noteq> CHR ''#'') \<and> hd s = CHR ''#''
              then Inl (Fatal ''There is a confusing multiline, partially commented expression'')
              else conf_join (butlast s @ s2) (Suc n) (tl ls))"
  by pat_completeness auto
termination
  by (relation "measures [\<lambda>(s, n, ls). length ls, \<lambda>(s, n, ls). length s]") (auto split: list.split simp: neq_Nil_conv)

declare conf_join.simps [simp del]

lemma conf_join_rest: "conf_join s n ls = Inr (t, m, ls') \<Longrightarrow> length ls' \<le> length ls"
proof (induction s n ls rule: conf_join.induct)
  case (1 s n ls)
  show ?case
  proof (cases "s \<noteq> [] \<and> last s = CHR 0x5C")
    case True
    then have "length ls' \<le> length (tl ls)"
      using "1.IH" [OF _ _ refl] "1.prems" by (subst (asm) (2) conf_join.simps) (auto simp: Let_def split: if_splits)
    then show ?thesis by simp
  next
    case False
    then show ?thesis using "1.prems" by (subst (asm) conf_join.simps) (auto split: if_splits)
  qed
qed

function conf_lines :: "string \<Rightarrow> bool \<Rightarrow> nat \<Rightarrow> string list \<Rightarrow> node list res" where
  "conf_lines fn baseconfig n [] = Inr []"
| "conf_lines fn baseconfig n (l # ls) =
     (if strip l = [] then conf_lines fn baseconfig (Suc n) ls
      else case conf_join (rstrip l) n ls of
        Inl e \<Rightarrow> Inl e
      | Inr (s, m, ls') \<Rightarrow>
          if hd s = CHR ''#'' then conf_lines fn baseconfig (Suc m) ls'
          else case conf_feeder s baseconfig True of
            Inl e \<Rightarrow> Inl e
          | Inr st \<Rightarrow>
              (case conf_lines fn baseconfig (Suc m) ls' of
                 Inl e \<Rightarrow> Inl e
               | Inr sts \<Rightarrow> Inr (\<lparr>nd_file = fn, nd_line = m, nd_what = st\<rparr> # sts)))"
  by pat_completeness auto
termination
  by (relation "measure (\<lambda>(fn, b, n, ls). length ls)") (auto dest!: conf_join_rest)

definition parse_conf :: "string \<Rightarrow> bool \<Rightarrow> string list \<Rightarrow> node list res" where
  "parse_conf fn baseconfig ls = conf_lines fn baseconfig 1 ls"

section \<open>Printing an assignment\<close>

definition op_text :: "assign_op \<Rightarrow> string" where
  "op_text o' = (case find (\<lambda>(w, p). p = o') assign_ops of Some (w, p) \<Rightarrow> w | None \<Rightarrow> [])"

definition print_rest :: "assign_op \<Rightarrow> string \<Rightarrow> string" where
  "print_rest o' v = '' '' @ op_text o' @ '' '' @ [CHR 0x22] @ v @ [CHR 0x22]"

definition print_flag :: "string option \<Rightarrow> string" where
  "print_flag flag = (case flag of None \<Rightarrow> [] | Some f \<Rightarrow> ''['' @ f @ '']'')"

definition print_assign :: "assignment \<Rightarrow> string" where
  "print_assign g =
     (if gd_exp g then ''export '' else []) @ gd_var g @ print_flag (gd_flag g) @ print_rest (gd_op g) (gd_value g)"

text \<open>The assignments that a line can express with double quotes.\<close>

definition printable :: "assignment \<Rightarrow> bool" where
  "printable g \<longleftrightarrow> gd_var g \<noteq> [] \<and> list_all is_conf_char (gd_var g) \<and>
     (gd_exp g \<or> gd_flag g \<noteq> None \<or> gd_var g \<noteq> ''export'') \<and>
     (case gd_flag g of None \<Rightarrow> True | Some f \<Rightarrow> f \<noteq> [] \<and> is_flag_char (hd f) \<and> list_all is_flag_rest (tl f)) \<and>
     CHR 0x22 \<notin> set (gd_value g) \<and> list_all not_newline (gd_value g)"

lemma rx_match_first: "m s = (x, t) # r \<Longrightarrow> rx_match (f x) t = Some y \<Longrightarrow> rx_match (rx_bind m f) s = Some y"
  by (auto simp: rx_match_def rx_bind_def split: list.splits)

lemma star_first: "list_all P w \<Longrightarrow> s = [] \<or> \<not> P (hd s) \<Longrightarrow> \<exists>r. rx_star P (w @ s) = (w, s) # r"
  by (rule rx_star_span)

lemma conf_char_simps:
  "is_conf_char c \<Longrightarrow> c \<noteq> CHR ''='' \<and> c \<noteq> CHR ''?'' \<and> c \<noteq> CHR ''['' \<and> \<not> is_space c"
  by (auto simp: is_conf_char_def is_letter_def is_digit_def is_space_def Let_def)

lemma flag_char_simps: "is_flag_rest c \<Longrightarrow> c \<noteq> CHR '']''"
  by (auto simp: is_flag_rest_def is_flag_char_def is_letter_def is_digit_def Let_def)

lemma op_first: "\<exists>r. op_rx (op_text o' @ '' '' @ s) = (o', '' '' @ s) # r"
  by (cases o') (simp_all add: op_rx_def op_text_def assign_ops_def rx_lit_def)

lemma op_none:
  assumes "is_conf_char c" and "s = [] \<or> hd s \<noteq> CHR ''=''"
  shows "op_rx (c # s) = []"
  using conf_char_simps [OF assms(1)] assms(2)
  by (cases s) (auto simp: op_rx_def assign_ops_def rx_lit_def)

lemma quoted_print:
  assumes "CHR 0x22 \<notin> set v" and "list_all not_newline v"
  shows "\<exists>r. quoted_rx ([CHR 0x22] @ v @ [CHR 0x22]) = (v, []) # r"
proof -
  let ?q = "CHR 0x22" and ?n = "\<lambda>c. c \<noteq> CHR 0x22"
  have free: "list_all ?n v" using assms(1) by (auto simp: list_all_iff)
  have stop: "rx_star ?n [?q] = [([], [?q])]" "rx_star ?n [] = [([], [])]" by (simp_all add: rx_star_stop)
  have "rx_bind (rx_star ?n) (\<lambda>_. rx_then (rx_lit [?q]) (rx_then (rx_star ?n) (rx_then (rx_lit [?q]) rx_end))) (v @ [?q]) =
      rx_then (rx_lit [?q]) (rx_then (rx_star ?n) (rx_then (rx_lit [?q]) rx_end)) [?q]"
  proof (rule rx_bind_star [OF free])
    fix i assume i: "i < length v"
    then have "drop i v = v ! i # drop (Suc i) v" "v ! i \<noteq> ?q" using free by (simp_all add: Cons_nth_drop_Suc list_all_length)
    then show "rx_then (rx_lit [?q]) (rx_then (rx_star ?n) (rx_then (rx_lit [?q]) rx_end)) (drop i v @ [?q]) = []"
      by (simp add: rx_then_def rx_bind_def rx_lit_def)
  qed simp
  also have "\<dots> = []" by (simp add: rx_then_def rx_bind_def rx_lit_def stop)
  finally have twice: "thrice_rx ?q ([?q] @ v @ [?q]) = []"
    by (simp add: thrice_rx_def rx_then_def rx_bind_def rx_lit_def)
  have other: "thrice_rx CHR 0x27 ([?q] @ v @ [?q]) = []"
    by (simp add: thrice_rx_def rx_then_def rx_bind_def rx_lit_def)
  have "\<exists>r. rx_star not_newline (v @ [?q]) = (v @ [?q], []) # (v, [?q]) # r"
    using rx_lazy_span [of not_newline "v @ [?q]" "[]"] assms(2) by (simp add: rx_star_def not_newline_def)
  then obtain r where star: "rx_star not_newline (v @ [?q]) = (v @ [?q], []) # (v, [?q]) # r" by blast
  show ?thesis
    using twice other
    by (simp add: quoted_rx_def rx_then_def rx_bind_def rx_not_def rx_char_def rx_lit_def rx_end_def rx_return_def star)
qed

lemma rest_print:
  assumes "CHR 0x22 \<notin> set v" and "list_all not_newline v"
  shows "rx_match (rx_then (rx_star is_space)
       (rx_bind op_rx (\<lambda>o'. rx_then (rx_star is_space) (rx_bind quoted_rx (\<lambda>v. rx_return (f o' v)))))) (print_rest o' v) = Some (f o' v)"
proof -
  let ?quoted = "[CHR 0x22] @ v @ [CHR 0x22]"
  have sp: "list_all is_space '' ''" by (simp add: is_space_def Let_def)
  have op: "\<not> is_space (hd (op_text o' @ '' '' @ ?quoted))" "op_text o' \<noteq> []"
    by (cases o'; simp add: op_text_def assign_ops_def is_space_def Let_def)+
  obtain r1 where 1: "rx_star is_space ('' '' @ op_text o' @ '' '' @ ?quoted) = ('' '', op_text o' @ '' '' @ ?quoted) # r1"
    using star_first [OF sp, of "op_text o' @ '' '' @ ?quoted"] op by blast
  obtain r2 where 2: "op_rx (op_text o' @ '' '' @ ?quoted) = (o', '' '' @ ?quoted) # r2"
    using op_first by blast
  obtain r3 where 3: "rx_star is_space ('' '' @ ?quoted) = ('' '', ?quoted) # r3"
    using star_first [OF sp, of ?quoted] by (auto simp: is_space_def)
  obtain r4 where 4: "quoted_rx ?quoted = (v, []) # r4" using quoted_print [OF assms] by blast
  show ?thesis
    unfolding rx_then_def print_rest_def
    by (rule rx_match_first, rule 1, rule rx_match_first, rule 2, rule rx_match_first, rule 3, rule rx_match_first, rule 4)
      (simp add: rx_match_def rx_return_def)
qed

lemma flag_print:
  assumes "f \<noteq> []" and "is_flag_char (hd f)" and "list_all is_flag_rest (tl f)"
  shows "flag_rx (''['' @ f @ '']'' @ s) = [(f, s)]"
proof -
  obtain a b where f: "f = a # b" using assms(1) by (cases f) auto
  let ?k = "\<lambda>b. rx_then (rx_lit '']'') (rx_return (a # b))"
  have "rx_bind (rx_star is_flag_rest) ?k (b @ '']'' @ s) = ?k b ('']'' @ s)"
  proof (rule rx_bind_star)
    show "list_all is_flag_rest b" using assms(3) f by simp
    show "'']'' @ s = [] \<or> \<not> is_flag_rest (hd ('']'' @ s))" using flag_char_simps by auto
    fix i assume i: "i < length b"
    then have "drop i b = b ! i # drop (Suc i) b" "is_flag_rest (b ! i)" using assms(3) f by (simp_all add: Cons_nth_drop_Suc list_all_length)
    moreover have "b ! i \<noteq> CHR '']''" using calculation flag_char_simps by blast
    ultimately show "?k (take i b) (drop i b @ '']'' @ s) = []"
      by (auto simp: rx_then_def rx_bind_def rx_lit_def)
  qed
  then show ?thesis
    using assms(2) f by (simp add: flag_rx_def rx_then_def rx_bind_def rx_lit_def rx_char_def rx_return_def)
qed

lemma var_print:
  assumes "list_all is_conf_char var" and "\<forall>f. flag = Some f \<longrightarrow> f \<noteq> [] \<and> is_flag_char (hd f) \<and> list_all is_flag_rest (tl f)"
    and "CHR 0x22 \<notin> set v" and "list_all not_newline v"
  shows "rx_match (rx_bind (rx_lazy is_conf_char) (\<lambda>var. rx_bind (rx_opt flag_rx) (\<lambda>flag.
       rx_then (rx_star is_space)
         (rx_bind op_rx (\<lambda>o'. rx_then (rx_star is_space) (rx_bind quoted_rx (\<lambda>v. rx_return (f var flag o' v))))))))
       (var @ print_flag flag @ print_rest o' v) = Some (f var flag o' v)"
proof -
  let ?rest = "\<lambda>var flag. rx_then (rx_star is_space) (rx_bind op_rx (\<lambda>o'. rx_then (rx_star is_space) (rx_bind quoted_rx (\<lambda>v. rx_return (f var flag o' v)))))"
  let ?k = "\<lambda>var. rx_bind (rx_opt flag_rx) (?rest var)" and ?s = "print_flag flag @ print_rest o' v"
  have s: "?s \<noteq> []" "\<not> is_conf_char (hd ?s)" "hd ?s \<noteq> CHR ''=''"
    by (auto simp: print_flag_def print_rest_def is_conf_char_def is_letter_def is_digit_def Let_def split: option.split)
  have fail: "?k w (c # t) = []" if "is_conf_char c" "t = [] \<or> hd t \<noteq> CHR ''=''" for w c t
  proof -
    have "flag_rx (c # t) = []" "rx_star is_space (c # t) = [([], c # t)]"
      using conf_char_simps [OF that(1)] by (auto simp: flag_rx_def rx_then_def rx_bind_def rx_lit_def rx_star_stop)
    then show ?thesis by (simp add: rx_bind_def rx_opt_def rx_then_def op_none [OF that])
  qed
  have lazy: "rx_bind (rx_lazy is_conf_char) ?k (var @ ?s) = ?k var ?s"
  proof (rule rx_bind_lazy [OF assms(1)])
    fix i assume i: "i < length var"
    then have d: "drop i var = var ! i # drop (Suc i) var" by (simp add: Cons_nth_drop_Suc)
    have "drop (Suc i) var @ ?s = [] \<or> hd (drop (Suc i) var @ ?s) \<noteq> CHR ''=''"
    proof (cases "Suc i < length var")
      case True
      then have "is_conf_char (hd (drop (Suc i) var))" using assms(1) by (simp add: hd_drop_conv_nth list_all_length)
      then show ?thesis using True conf_char_simps by (auto simp: hd_append)
    qed (use s in simp)
    then show "?k (take i var) (drop i var @ ?s) = []"
      using fail [of "var ! i" "drop (Suc i) var @ ?s"] assms(1) i by (simp add: d list_all_length)
  qed (use s in simp)
  have "rx_match (?k var) ?s = Some (f var flag o' v)"
  proof (cases flag)
    case None
    have "rx_opt flag_rx (print_rest o' v) = [(None, print_rest o' v)]"
      by (simp add: rx_opt_def flag_rx_def rx_then_def rx_bind_def rx_lit_def print_rest_def)
    then show ?thesis
      using rest_print [OF assms(3,4), where f = "f var None"] by (intro rx_match_first) (simp_all add: None print_flag_def)
  next
    case (Some fl)
    have "rx_opt flag_rx (''['' @ fl @ '']'' @ print_rest o' v) = [(Some fl, print_rest o' v), (None, ''['' @ fl @ '']'' @ print_rest o' v)]"
      using assms(2) Some flag_print [of fl "print_rest o' v"] by (simp add: rx_opt_def)
    then show ?thesis
      using rest_print [OF assms(3,4), where f = "f var (Some fl)"] by (intro rx_match_first) (simp_all add: Some print_flag_def)
  qed
  then show ?thesis by (simp add: rx_match_def lazy)
qed

section \<open>Reading back what was printed\<close>

lemma no_export:
  assumes "list_all is_conf_char var" and "flag \<noteq> None \<or> var \<noteq> ''export''"
  shows "rx_then (rx_lit ''export'') (rx_plus is_space) (var @ print_flag flag @ print_rest o' v) = []"
proof -
  let ?t = "print_flag flag @ print_rest o' v"
  have t: "\<exists>c u. ?t = c # u \<and> \<not> is_letter c \<and> (flag \<noteq> None \<longrightarrow> \<not> is_space c)"
    by (auto simp: print_flag_def print_rest_def is_letter_def is_space_def Let_def split: option.split)
  have "rx_plus is_space u = []" if u: "var @ ?t = ''export'' @ u" for u
  proof -
    consider w where "var = ''export'' @ w" "u = w @ ?t" | w where "''export'' = var @ w" "w \<noteq> []" "?t = w @ u"
      using iffD1 [OF append_eq_append_conv2 u] by force
    then show ?thesis
    proof cases
      case 1
      have "u = [] \<or> \<not> is_space (hd u)"
      proof (cases w)
        case Nil
        then show ?thesis using 1 t assms(2) by auto
      next
        case (Cons a w')
        then show ?thesis using 1 assms(1) conf_char_simps [of a] by simp
      qed
      then show ?thesis by (rule rx_plus_stop)
    next
      case 2
      then obtain a w' where w: "w = a # w'" by (cases w) auto
      have "a \<in> set ''export''" unfolding 2(1) w by simp
      then have "is_letter a" by (auto simp: is_letter_def)
      then show ?thesis using t 2(3) w by auto
    qed
  qed
  note rest = this
  show ?thesis
  proof (cases "prefix ''export'' (var @ ?t)")
    case True
    then obtain u where u: "var @ ?t = ''export'' @ u" by (auto elim: prefixE)
    have "rx_then (rx_lit ''export'') (rx_plus is_space) (''export'' @ u) = rx_plus is_space u"
      by (simp add: rx_then_def rx_bind_def rx_lit_def)
    then show ?thesis unfolding u using rest [OF u] by simp
  qed (simp add: rx_then_def rx_bind_def rx_lit_def)
qed

lemma config_print:
  assumes "printable g"
  shows "rx_match config_rx (print_assign g) = Some g"
proof -
  let ?s = "gd_var g @ print_flag (gd_flag g) @ print_rest (gd_op g) (gd_value g)"
  let ?export = "rx_then (rx_lit ''export'') (rx_plus is_space)"
  let ?k = "\<lambda>e. rx_bind (rx_lazy is_conf_char) (\<lambda>var. rx_bind (rx_opt flag_rx) (\<lambda>flag. rx_then (rx_star is_space)
       (rx_bind op_rx (\<lambda>o'. rx_then (rx_star is_space) (rx_bind quoted_rx (\<lambda>v.
         rx_return \<lparr>gd_exp = (e \<noteq> None), gd_var = var, gd_flag = flag, gd_op = o', gd_value = v\<rparr>))))))"
  have k: "rx_match (?k e) ?s = Some (g\<lparr>gd_exp := (e \<noteq> None)\<rparr>)" for e :: "string option"
    using var_print [of "gd_var g" "gd_flag g" "gd_value g"
        "\<lambda>var flag o' v. \<lparr>gd_exp = (e \<noteq> None), gd_var = var, gd_flag = flag, gd_op = o', gd_value = v\<rparr>" "gd_op g"] assms
    by (cases g) (auto simp: printable_def split: option.splits)
  obtain c u where s: "?s = c # u" "\<not> is_space c"
    using assms conf_char_simps by (cases "gd_var g") (auto simp: printable_def)
  show ?thesis
  proof (cases "gd_exp g")
    case True
    have "list_all is_space '' ''" by (simp add: is_space_def)
    then obtain r where "rx_star is_space ('' '' @ ?s) = ('' '', ?s) # r"
      using star_first [of is_space "'' ''" ?s] s by auto
    then have "\<exists>r. rx_opt ?export (''export '' @ ?s) = (Some '' '', ?s) # r"
      by (simp add: rx_opt_def rx_then_def rx_bind_def rx_lit_def rx_plus_def)
    then obtain r where opt: "rx_opt ?export (''export '' @ ?s) = (Some '' '', ?s) # r" by blast
    have "rx_match (rx_bind (rx_opt ?export) ?k) (''export '' @ ?s) = Some (g\<lparr>gd_exp := True\<rparr>)"
      by (rule rx_match_first, rule opt) (use k [of "Some '' ''"] in simp)
    then show ?thesis using True by (simp add: config_rx_def print_assign_def)
  next
    case False
    have "?export ?s = []"
      using assms False by (intro no_export) (auto simp: printable_def)
    then have "rx_opt ?export ?s = [(None, ?s)]" by (simp add: rx_opt_def)
    then have "rx_match (rx_bind (rx_opt ?export) ?k) ?s = Some (g\<lparr>gd_exp := False\<rparr>)"
      by (rule rx_match_first) (use k [of None] in simp)
    then show ?thesis using False by (simp add: config_rx_def print_assign_def)
  qed
qed

lemma feeder_print: "printable g \<Longrightarrow> conf_feeder (print_assign g) baseconfig conffile = Inr (Assign g)"
  by (simp add: conf_feeder_def or_match_def config_print) (simp add: printable_def)

text \<open>The statements of a file with one assignment in a line.\<close>

fun assign_nodes :: "string \<Rightarrow> nat \<Rightarrow> assignment list \<Rightarrow> node list" where
  "assign_nodes fn n [] = []"
| "assign_nodes fn n (g # gs) = \<lparr>nd_file = fn, nd_line = n, nd_what = Assign g\<rparr> # assign_nodes fn (Suc n) gs"

lemma print_line:
  assumes "printable g"
  shows "rstrip (print_assign g) = print_assign g" "strip (print_assign g) \<noteq> []" "print_assign g \<noteq> []"
    "last (print_assign g) \<noteq> CHR 0x5C" "hd (print_assign g) \<noteq> CHR ''#''"
proof -
  obtain w where w: "print_assign g = w @ [CHR 0x22]" by (simp add: print_assign_def print_rest_def)
  have q: "\<not> is_space CHR 0x22" by (simp add: is_space_def)
  show "rstrip (print_assign g) = print_assign g" "print_assign g \<noteq> []" "last (print_assign g) \<noteq> CHR 0x5C"
    using q by (simp_all add: w rstrip_def)
  show "strip (print_assign g) \<noteq> []"
    unfolding w using q by (auto simp: strip_def dropWhile_append dropWhile_eq_Nil_conv)
  show "hd (print_assign g) \<noteq> CHR ''#''"
    using assms by (cases "gd_var g") (auto simp: print_assign_def printable_def is_conf_char_def is_letter_def is_digit_def Let_def)
qed

lemma conf_lines_print: "list_all printable gs \<Longrightarrow> conf_lines fn baseconfig n (map print_assign gs) = Inr (assign_nodes fn n gs)"
proof (induction gs arbitrary: n)
  case (Cons g gs)
  have "conf_join (print_assign g) n ls = Inr (print_assign g, n, ls)" for ls
    using print_line [of g] Cons.prems by (subst conf_join.simps) simp
  then show ?case using Cons print_line [of g] feeder_print [of g] by simp
qed simp

text \<open>C17: a file that is written with one assignment in a line, in double quotes, is read back as these
  assignments with their export mark, flag and operator, each at its line.\<close>

theorem parse_printed:
  assumes "list_all printable gs"
  shows "parse_conf fn baseconfig (map print_assign gs) = Inr (assign_nodes fn 1 gs)"
  unfolding parse_conf_def using assms by (rule conf_lines_print)

lemma parse_printed_witness:
  "parse_conf ''local.conf'' False [''export A = '' @ [CHR 0x22] @ ''x y'' @ [CHR 0x22], ''do_a[deps] ??= '' @ [CHR 0x22, CHR 0x22]] =
     Inr [\<lparr>nd_file = ''local.conf'', nd_line = 1, nd_what = Assign \<lparr>gd_exp = True, gd_var = ''A'', gd_flag = None, gd_op = SetOp, gd_value = ''x y''\<rparr>\<rparr>,
          \<lparr>nd_file = ''local.conf'', nd_line = 2, nd_what = Assign \<lparr>gd_exp = False, gd_var = ''do_a'', gd_flag = Some ''deps'', gd_op = LazyOp, gd_value = []\<rparr>\<rparr>]"
proof -
  let ?gs = "[\<lparr>gd_exp = True, gd_var = ''A'', gd_flag = None, gd_op = SetOp, gd_value = ''x y''\<rparr>,
    \<lparr>gd_exp = False, gd_var = ''do_a'', gd_flag = Some ''deps'', gd_op = LazyOp, gd_value = []\<rparr>]"
  have "list_all printable ?gs" by code_simp
  from parse_printed [OF this, of "''local.conf''" False] show ?thesis
    by (simp add: print_assign_def print_flag_def print_rest_def op_text_def assign_ops_def)
qed

end
