(* ===== verification/BBParse.thy ===== *)
theory BBParse
  imports ConfParse
begin

text \<open>
  The lines of recipes and classes: \<open>bb/parse/parse_py/BBHandler.py\<close>. The state of the reader, which the module keeps
  in global variables, is a record: the function or Python definition that is open, its body, and the lines
  that ended in a backslash.
\<close>

section \<open>The state and the expressions\<close>

record bb_parser =
  bp_infunc :: "(string \<times> string \<times> nat \<times> bool \<times> bool) option"
  bp_inpython :: "string option"
  bp_body :: "string list"
  bp_residue :: "string list"

definition empty_parser :: bb_parser where
  "empty_parser = \<lparr>bp_infunc = None, bp_inpython = None, bp_body = [], bp_residue = []\<rparr>"

definition is_func_char :: "char \<Rightarrow> bool" where
  "is_func_char c \<longleftrightarrow> is_word_char c \<or> c \<in> set ''.-+{}$:''"

text \<open>One of the words \<open>python\<close> (true) and \<open>fakeroot\<close> (false), and space.\<close>

definition mark_rx :: "bool rx" where
  "mark_rx =
     rx_bind (rx_alt
       (rx_then (rx_lit ''python'') (rx_then (rx_ahead (rx_char (\<lambda>c. is_space c \<or> c = CHR ''(''))) (rx_return True)))
       (rx_then (rx_lit ''fakeroot'') (rx_then (rx_ahead (rx_char is_space)) (rx_return False))))
     (\<lambda>w. rx_then (rx_star is_space) (rx_return w))"

text \<open>As many of them as there are; the first argument is enough if it is the length of the text.\<close>

fun marks_rx :: "nat \<Rightarrow> bool \<Rightarrow> bool \<Rightarrow> (bool \<times> bool) rx" where
  "marks_rx 0 py fr s = [((py, fr), s)]"
| "marks_rx (Suc n) py fr s = concat (map (\<lambda>(w, t). marks_rx n (py \<or> w) (fr \<or> \<not> w) t) (mark_rx s)) @ [((py, fr), s)]"

definition func_start_rx :: "(string option \<times> bool \<times> bool) rx" where
  "func_start_rx =
     rx_bind (\<lambda>s. marks_rx (length s) False False s) (\<lambda>(py, fr).
     rx_bind (rx_opt (rx_plus is_func_char)) (\<lambda>f.
     rx_then (rx_star is_space) (rx_then (rx_lit ''('') (rx_then (rx_star is_space) (rx_then (rx_lit '')'')
       (rx_then (rx_star is_space) (rx_then (rx_lit ''{'') (rx_then rx_end (rx_return (f, py, fr))))))))))"

definition def_rx :: "string rx" where
  "def_rx = keyword_rx ''def'' (rx_bind (rx_plus is_word_char) (\<lambda>f. rx_then (rx_star not_newline) (rx_then (rx_lit '':'') (rx_return f))))"

definition before_comment :: "string rx" where
  "before_comment = rx_plus (\<lambda>c. c \<noteq> CHR ''#'' \<and> c \<noteq> CHR ''\<newline>'')"

definition python_line :: "string \<Rightarrow> bool" where
  "python_line s \<longleftrightarrow> s = [] \<or> is_space (hd s) \<or> hd s = CHR ''#''"

section \<open>addtask\<close>

text \<open>\<open>str.split\<close> with a separator of several characters.\<close>

function split_str :: "string \<Rightarrow> string \<Rightarrow> string list" where
  "split_str sep [] = [[]]"
| "split_str sep (c # s) =
     (if sep \<noteq> [] \<and> prefix sep (c # s) then [] # split_str sep (drop (length sep) (c # s))
      else case split_str sep s of [] \<Rightarrow> [[c]] | w # ws \<Rightarrow> (c # w) # ws)"
  by pat_completeness auto
termination
  by (relation "measure (length \<circ> snd)") (auto simp: length_greater_0_conv)

text \<open>\<open>clause sep other g\<close>: what follows \<open>other\<close> in the parts of \<open>g\<close> between \<open>sep\<close>, put together.\<close>

definition clause :: "string \<Rightarrow> string \<Rightarrow> string \<Rightarrow> string" where
  "clause sep other g = concat (map (\<lambda>part. join '' '' (tl (split_str other part))) (split_str sep g))"

definition keyword_in :: "string \<Rightarrow> bool" where
  "keyword_in s \<longleftrightarrow> list_ex (\<lambda>te. list_ex (\<lambda>k. contains (k @ ''_'') te) op_keywords) (words s)"

definition read_addtask :: "string \<Rightarrow> string \<Rightarrow> statement res" where
  "read_addtask s g =
     (if keyword_in s then Inl (ParseError (''Task name contains a keyword: '' @ s))
      else Inr (AddTask (hd (split_str '' after '' (hd (split_str '' before '' g))))
        (clause '' after '' '' before '' g) (clause '' before '' '' after '' g)))"

section \<open>Reading a line\<close>

definition put_node :: "string \<Rightarrow> nat \<Rightarrow> bb_parser \<Rightarrow> statement res \<Rightarrow> (bb_parser \<times> node list) res" where
  "put_node fn n p r = (case r of Inl e \<Rightarrow> Inl e | Inr st \<Rightarrow> Inr (p, [\<lparr>nd_file = fn, nd_line = n, nd_what = st\<rparr>]))"

definition bb_statement :: "string \<Rightarrow> string \<Rightarrow> nat \<Rightarrow> string \<Rightarrow> bb_parser \<Rightarrow> (bb_parser \<times> node list) res" where
  "bb_statement fn classname n s p =
     or_match (rx_match func_start_rx s)
       (\<lambda>(f, py, fr). Inr (p\<lparr>bp_infunc := Some (case f of None \<Rightarrow> ''__anonymous'' | Some x \<Rightarrow> x, fn, n, py, fr)\<rparr>, []))
     (or_match (rx_match def_rx s) (\<lambda>f. Inr (p\<lparr>bp_body := bp_body p @ [s], bp_inpython := Some f\<rparr>, []))
     (put_node fn n p
       (or_match (rx_match (keyword_rx ''EXPORT_FUNCTIONS'' any_rx) s) (\<lambda>fns. Inr (ExportFuncs (words fns) classname))
       (or_match (rx_match (keyword_rx ''addtask'' before_comment) s) (read_addtask s)
       (or_match (rx_match (keyword_rx ''deltask'' before_comment) s) (\<lambda>t. Inr (DelTask t))
       (or_match (rx_match (keyword_rx ''addhandler'' any_rx) s) (\<lambda>fns. Inr (BBHandlers (words fns)))
       (or_match (rx_match (keyword_rx ''inherit'' any_rx) s) (\<lambda>c. Inr (Inherit c))
       (or_match (rx_match (keyword_rx ''inherit_defer'' any_rx) s) (\<lambda>c. Inr (InheritDeferred c))
         (conf_feeder s False False)))))))))"

text \<open>Comments, continued lines and empty lines.\<close>

definition bb_line :: "string \<Rightarrow> string \<Rightarrow> nat \<Rightarrow> string \<Rightarrow> bb_parser \<Rightarrow> (bb_parser \<times> node list) res" where
  "bb_line fn classname n s p =
     (let rs = bp_residue p in
      if rs \<noteq> [] \<and> hd rs = [] then Inl IndexError
      else if s \<noteq> [] \<and> hd s = CHR ''#'' \<and> rs \<noteq> [] \<and> hd (hd rs) \<noteq> CHR ''#''
      then Inl (Fatal ''There is a comment in the middle of a multiline expression'')
      else if rs \<noteq> [] \<and> hd (hd rs) = CHR ''#'' \<and> (s = [] \<or> hd s \<noteq> CHR ''#'')
      then Inl (Fatal ''There is a confusing multiline partially commented expression'')
      else if s \<noteq> [] \<and> last s = CHR 0x5C then Inr (p\<lparr>bp_residue := rs @ [butlast s]\<rparr>, [])
      else
        let s = concat rs @ s; p = p\<lparr>bp_residue := []\<rparr>
        in if s = [] \<or> hd s = CHR ''#'' then Inr (p, []) else bb_statement fn classname n s p)"

definition bb_feeder :: "string \<Rightarrow> string \<Rightarrow> string \<Rightarrow> bool \<Rightarrow> nat \<Rightarrow> string \<Rightarrow> bb_parser \<Rightarrow> (bb_parser \<times> node list) res" where
  "bb_feeder fn root classname eof n s p =
     (case bp_infunc p of
        Some (f, _, _, py, fr) \<Rightarrow>
          if s = ''}''
          then Inr (p\<lparr>bp_infunc := None, bp_body := []\<rparr>,
                 [\<lparr>nd_file = fn, nd_line = n, nd_what = Method f (bp_body p @ [[]]) py fr\<rparr>])
          else Inr (p\<lparr>bp_body := bp_body p @ [s]\<rparr>, [])
      | None \<Rightarrow>
          (case bp_inpython p of
             None \<Rightarrow> bb_line fn classname n s p
           | Some f \<Rightarrow>
               if python_line s \<and> \<not> eof then Inr (p\<lparr>bp_body := bp_body p @ [s]\<rparr>, [])
               else
                 let st = \<lparr>nd_file = fn, nd_line = n, nd_what = PythonMethod f root (bp_body p)\<rparr>;
                     p = p\<lparr>bp_body := [], bp_inpython := None\<rparr>
                 in if eof then Inr (p, [st])
                    else (case bb_line fn classname n s p of Inl e \<Rightarrow> Inl e | Inr (p, sts) \<Rightarrow> Inr (p, st # sts))))"

section \<open>Reading a file\<close>

fun bb_lines :: "string \<Rightarrow> string \<Rightarrow> string \<Rightarrow> nat \<Rightarrow> string list \<Rightarrow> bb_parser \<Rightarrow> (bb_parser \<times> node list) res" where
  "bb_lines fn root classname n [] p = (if bp_inpython p = None then Inr (p, []) else bb_feeder fn root classname True n [] p)"
| "bb_lines fn root classname n (l # ls) p =
     (case bb_feeder fn root classname False n (rstrip l) p of
        Inl e \<Rightarrow> Inl e
      | Inr (p, sts) \<Rightarrow>
          (case bb_lines fn root classname (Suc n) ls p of Inl e \<Rightarrow> Inl e | Inr (p, sts') \<Rightarrow> Inr (p, sts @ sts')))"

text \<open>The statements, and whether a function with an empty body was left open.\<close>

definition get_statements :: "string \<Rightarrow> string \<Rightarrow> string \<Rightarrow> string list \<Rightarrow> (node list \<times> bool) res" where
  "get_statements fn root classname ls =
     (case bb_lines fn root classname 1 ls empty_parser of
        Inl e \<Rightarrow> Inl e
      | Inr (p, sts) \<Rightarrow>
          if bp_residue p \<noteq> [] then Inl (ParseError (''Unparsed lines '' @ fn))
          else if bp_body p \<noteq> [] then Inl (ParseError (''Unparsed lines from unclosed function '' @ fn))
          else Inr (sts, bp_infunc p \<noteq> None))"

section \<open>Continued lines\<close>

definition backslash :: char where
  "backslash = CHR 0x5C"

text \<open>Segments of a line: the first holds something, none starts with a comment sign, and the last one ends in a
  character that is neither space nor a backslash.\<close>

definition segments :: "string list \<Rightarrow> string \<Rightarrow> bool" where
  "segments ss t \<longleftrightarrow> ss \<noteq> [] \<and> hd ss \<noteq> [] \<and> (\<forall>s\<in>set (t # ss). s = [] \<or> hd s \<noteq> CHR ''#'') \<and>
     t \<noteq> [] \<and> last t \<noteq> backslash \<and> \<not> is_space (last t)"

definition continued :: "string list \<Rightarrow> string list" where
  "continued ss = map (\<lambda>s. s @ [backslash]) ss"

lemma rstrip_last: "s \<noteq> [] \<Longrightarrow> \<not> is_space (last s) \<Longrightarrow> rstrip s = s"
  by (cases s rule: rev_cases) (simp_all add: rstrip_def)

lemma backslash_visible: "\<not> is_space backslash" "backslash \<noteq> CHR ''#''"
  by (simp_all add: is_space_def backslash_def)

lemma rstrip_continued: "rstrip (s @ [backslash]) = s @ [backslash]"
  by (rule rstrip_last) (simp_all add: backslash_visible)

text \<open>The residue of a line that does not start with a comment sign.\<close>

definition open_line :: "string list \<Rightarrow> bool" where
  "open_line rs \<longleftrightarrow> rs = [] \<or> (hd rs \<noteq> [] \<and> hd (hd rs) \<noteq> CHR ''#'')"

lemma feed_continued:
  assumes "bp_infunc p = None" and "bp_inpython p = None" and "open_line (bp_residue p)" and "s = [] \<or> hd s \<noteq> CHR ''#''"
  shows "bb_feeder fn root classname eof n (s @ [backslash]) p = Inr (p\<lparr>bp_residue := bp_residue p @ [s]\<rparr>, [])"
proof -
  have "hd (s @ [backslash]) \<noteq> CHR ''#''" using assms(4) backslash_visible(2) by (cases s) auto
  then show ?thesis
    using assms(1-3) by (auto simp: bb_feeder_def bb_line_def Let_def open_line_def) (simp_all add: backslash_def)
qed

lemma feed_last:
  assumes "bp_infunc p = None" and "bp_inpython p = None" and "open_line (bp_residue p)"
    and t: "t \<noteq> []" "hd t \<noteq> CHR ''#''" "last t \<noteq> backslash"
  shows "bb_feeder fn root classname eof n t p = bb_feeder fn root classname eof n (concat (bp_residue p) @ t) (p\<lparr>bp_residue := []\<rparr>)"
proof -
  have "hd (concat (bp_residue p) @ t) \<noteq> CHR ''#''"
    using assms(3) t by (cases "bp_residue p") (auto simp: open_line_def hd_append)
  moreover have "last (concat (bp_residue p) @ t) \<noteq> backslash" using t by simp
  ultimately show ?thesis
    using assms by (auto simp: bb_feeder_def bb_line_def Let_def open_line_def backslash_def)
qed

lemma bb_lines_continued:
  assumes "bp_infunc p = None" and "bp_inpython p = None" and "open_line (bp_residue p)" and "bp_residue p @ ss \<noteq> []"
    and "open_line (bp_residue p @ ss)" and "\<forall>s\<in>set ss. s = [] \<or> hd s \<noteq> CHR ''#''"
    and "t \<noteq> []" "hd t \<noteq> CHR ''#''" "last t \<noteq> backslash" "\<not> is_space (last t)"
  shows "bb_lines fn root classname n (continued ss @ t # ls) p =
    bb_lines fn root classname (n + length ss) ((concat (bp_residue p @ ss) @ t) # ls) (p\<lparr>bp_residue := []\<rparr>)"
  using assms
proof (induction ss arbitrary: n p)
  case Nil
  have "rstrip t = t" "rstrip (concat (bp_residue p) @ t) = concat (bp_residue p) @ t"
    using Nil.prems by (auto intro!: rstrip_last)
  then show ?case using Nil.prems feed_last [of p t fn root classname False n] by (simp add: continued_def)
next
  case (Cons s ss)
  let ?p = "p\<lparr>bp_residue := bp_residue p @ [s]\<rparr>"
  have "bb_lines fn root classname (Suc n) (continued ss @ t # ls) ?p =
    bb_lines fn root classname (Suc n + length ss) ((concat (bp_residue ?p @ ss) @ t) # ls) (?p\<lparr>bp_residue := []\<rparr>)"
  proof (rule Cons.IH)
    show "open_line (bp_residue ?p)" using Cons.prems(5) by (cases "bp_residue p") (auto simp: open_line_def)
  qed (use Cons.prems in simp_all)
  moreover have "bb_feeder fn root classname False n (s @ [backslash]) p = Inr (?p, [])"
    using Cons.prems by (intro feed_continued) auto
  ultimately show ?case by (simp add: continued_def rstrip_continued split: sum.split prod.split)
qed

lemma conf_join_continued:
  assumes "s \<noteq> []" and "hd s \<noteq> CHR ''#''" and "t \<noteq> []" "last t \<noteq> backslash" "\<not> is_space (last t)"
  shows "conf_join (s @ [backslash]) n (continued ss @ t # ls) = Inr (s @ concat ss @ t, n + Suc (length ss), ls)"
  using assms(1,2)
proof (induction ss arbitrary: s n)
  case Nil
  have "conf_join (s @ t) (Suc n) ls = Inr (s @ t, Suc n, ls)"
    using Nil assms(3-5) by (subst conf_join.simps) (simp add: backslash_def)
  then show ?case
    using Nil rstrip_last [OF assms(3,5)] by (subst conf_join.simps) (simp add: continued_def Let_def hd_append backslash_def [symmetric])
next
  case (Cons u ss)
  have "conf_join ((s @ u) @ [backslash]) (Suc n) (continued ss @ t # ls) = Inr ((s @ u) @ concat ss @ t, Suc n + Suc (length ss), ls)"
    using Cons.prems by (intro Cons.IH) auto
  then show ?case
    using Cons.prems rstrip_continued [of u] by (subst conf_join.simps) (simp add: continued_def Let_def hd_append backslash_def [symmetric])
qed

lemma strip_Nil: "strip s = [] \<longleftrightarrow> list_all is_space s"
  by (induction s) (auto simp: strip_def dropWhile_eq_Nil_conv)

lemma conf_lines_continued:
  assumes "segments ss t"
  shows "conf_lines fn baseconfig n (continued ss @ t # ls) = conf_lines fn baseconfig (n + length ss) ((concat ss @ t) # ls)"
proof -
  obtain s us where ss: "ss = s # us" using assms by (cases ss) (auto simp: segments_def)
  have s: "s \<noteq> []" "hd s \<noteq> CHR ''#''" and t: "t \<noteq> []" "last t \<noteq> backslash" "\<not> is_space (last t)"
    using assms ss by (auto simp: segments_def)
  have joined: "conf_join (s @ [backslash]) n (continued us @ t # ls) = Inr (s @ concat us @ t, n + Suc (length us), ls)"
    by (rule conf_join_continued [OF s t])
  have whole: "conf_join (s @ concat us @ t) m ls = Inr (s @ concat us @ t, m, ls)" for m
    using t s by (subst conf_join.simps) (simp add: backslash_def)
  have strips: "strip (s @ [backslash]) \<noteq> []" "strip (s @ concat us @ t) \<noteq> []"
    using t backslash_visible(1) last_in_set [OF t(1)] by (auto simp: strip_Nil list_all_iff)
  have "rstrip (s @ concat us @ t) = s @ concat us @ t" using t by (intro rstrip_last) auto
  then show ?thesis
    using joined whole strips by (simp add: ss continued_def rstrip_continued hd_append s)
qed

text \<open>C18: a line that is broken with backslashes is read, in a configuration file as well as in a recipe or class
  outside of functions, as the line would be that its segments make up, with the number of the last line.\<close>

theorem continued_lines:
  assumes "segments ss t" and "bp_infunc p = None" and "bp_inpython p = None" and "bp_residue p = []"
  shows "conf_lines fn baseconfig n (continued ss @ t # ls) = conf_lines fn baseconfig (n + length ss) ((concat ss @ t) # ls) \<and>
    bb_lines fn root classname n (continued ss @ t # ls) p = bb_lines fn root classname (n + length ss) ((concat ss @ t) # ls) p"
proof
  show "conf_lines fn baseconfig n (continued ss @ t # ls) = conf_lines fn baseconfig (n + length ss) ((concat ss @ t) # ls)"
    by (rule conf_lines_continued [OF assms(1)])
  have "bb_lines fn root classname n (continued ss @ t # ls) p =
      bb_lines fn root classname (n + length ss) ((concat (bp_residue p @ ss) @ t) # ls) (p\<lparr>bp_residue := []\<rparr>)"
    using assms by (intro bb_lines_continued) (auto simp: segments_def open_line_def)
  then show "bb_lines fn root classname n (continued ss @ t # ls) p = bb_lines fn root classname (n + length ss) ((concat ss @ t) # ls) p"
    using assms(4) by (cases p) simp
qed

lemma continued_lines_witness:
  "conf_lines ''c'' False 1 [''A = '' @ [CHR 0x22, CHR 0x5C], ''x'' @ [CHR 0x22]] = conf_lines ''c'' False 2 [''A = '' @ [CHR 0x22] @ ''x'' @ [CHR 0x22]] \<and>
   bb_lines ''c'' ''c'' [] 1 [''A = '' @ [CHR 0x22, CHR 0x5C], ''x'' @ [CHR 0x22]] empty_parser = bb_lines ''c'' ''c'' [] 2 [''A = '' @ [CHR 0x22] @ ''x'' @ [CHR 0x22]] empty_parser"
proof -
  have "segments [''A = '' @ [CHR 0x22]] (''x'' @ [CHR 0x22])" by (simp add: segments_def backslash_def is_space_def)
  moreover have "bp_infunc empty_parser = None" "bp_inpython empty_parser = None" "bp_residue empty_parser = []"
    by (simp_all add: empty_parser_def)
  ultimately show ?thesis
    using continued_lines [of "[''A = '' @ [CHR 0x22]]" "''x'' @ [CHR 0x22]" empty_parser "''c''" False 1 "[]" "''c''" "[]"]
    by (simp add: continued_def backslash_def numeral_2_eq_2 del: conf_lines.simps bb_lines.simps)
qed

end
