(* ===== verification/TaskTable.thy ===== *)
theory TaskTable
  imports VarUpdate
begin

text \<open>
  The tasks of a recipe, from \<open>bb/build.py\<close>: the variable \<open>__BBTASKS\<close> lists them and the flag \<open>deps\<close> of a
  task lists the tasks before it; \<open>addtask\<close> and \<open>deltask\<close> change both, and \<open>add_tasks\<close> collects what the
  task data and the run queue read.
\<close>

section \<open>Lists of names in the store\<close>

definition ensure_task_prefix :: "string \<Rightarrow> string" where
  "ensure_task_prefix t = (if prefix ''do_'' t then t else ''do_'' @ t)"

text \<open>\<open>v or []\<close>.\<close>

definition or_names :: "val option \<Rightarrow> val" where
  "or_names v = (if truthy v then the v else Names [])"

definition raw_flag :: "nat \<Rightarrow> python \<Rightarrow> string \<Rightarrow> string \<Rightarrow> val option ds" where
  "raw_flag n py var flag = mbind (getVarFlag n py var flag False False False False) (\<lambda>(v, p). mreturn v)"

text \<open>\<open>x in v\<close>, \<open>v.append(x)\<close>, \<open>v.remove(x)\<close>, \<open>[x] + v\<close> and the elements of \<open>v\<close>.\<close>

fun py_in :: "string \<Rightarrow> val \<Rightarrow> bool res" where
  "py_in x (Names xs) = Inr (x \<in> set xs)"
| "py_in x (Text t) = Inr (contains x t)"
| "py_in x (Ops ops) = Inr False"
| "py_in x (Inherits is) = Inr False"
| "py_in x v = Inl TypeError"

fun py_append :: "string \<Rightarrow> val \<Rightarrow> val res" where
  "py_append x (Names xs) = Inr (Names (xs @ [x]))"
| "py_append x v = Inl AttributeError"

fun py_remove :: "string \<Rightarrow> val \<Rightarrow> val res" where
  "py_remove x (Names xs) = Inr (Names (remove1 x xs))"
| "py_remove x v = Inl AttributeError"

fun py_cons :: "string \<Rightarrow> val \<Rightarrow> val res" where
  "py_cons x (Names xs) = Inr (Names (x # xs))"
| "py_cons x v = Inl TypeError"

fun py_elems :: "val \<Rightarrow> string list res" where
  "py_elems (Names xs) = Inr xs"
| "py_elems (Text t) = Inr (map (\<lambda>c. [c]) t)"
| "py_elems v = Inl TypeError"

text \<open>\<open>if x not in v: v.append(x)\<close>.\<close>

definition add_missing :: "string \<Rightarrow> val \<Rightarrow> val ds" where
  "add_missing x v = mbind (mlift (py_in x v)) (\<lambda>b. if b then mreturn v else mlift (py_append x v))"

section \<open>Adding and deleting a task\<close>

definition add_before :: "nat \<Rightarrow> python \<Rightarrow> string \<Rightarrow> string \<Rightarrow> unit ds" where
  "add_before n py task entry =
     mbind (raw_flag n py entry ''deps'') (\<lambda>old.
     mbind (mlift (py_in task (or_names old))) (\<lambda>b.
       if b then mreturn ()
       else mbind (mlift (py_cons task (or_names old))) (setVarFlag n py entry ''deps'')))"

definition addtask :: "nat \<Rightarrow> python \<Rightarrow> string \<Rightarrow> string option \<Rightarrow> string option \<Rightarrow> unit ds" where
  "addtask n py name before after =
     (let task = ensure_task_prefix name;
          entries = (\<lambda>s. map ensure_task_prefix (case s of None \<Rightarrow> [] | Some t \<Rightarrow> words t))
      in mthen (setVarFlag n py task ''task'' (Num 1))
         (mbind (getVar n py ''__BBTASKS'' False) (\<lambda>ts.
          mbind (add_missing task (or_names ts)) (\<lambda>ts.
          mthen (setVar n py ''__BBTASKS'' ts False)
          (mbind (raw_flag n py task ''deps'') (\<lambda>old.
           mbind (mfold add_missing (entries after) (or_names old)) (\<lambda>deps.
           mthen (setVarFlag n py task ''deps'' deps)
             (mfor (add_before n py task) (entries before)))))))))"

definition drop_dep :: "nat \<Rightarrow> python \<Rightarrow> string \<Rightarrow> string \<Rightarrow> unit ds" where
  "drop_dep n py task bbtask =
     mbind (raw_flag n py bbtask ''deps'') (\<lambda>old.
     mbind (mlift (py_in task (or_names old))) (\<lambda>b.
       if b then mbind (mlift (py_remove task (or_names old))) (setVarFlag n py bbtask ''deps'') else mreturn ()))"

definition deltask :: "nat \<Rightarrow> python \<Rightarrow> string \<Rightarrow> unit ds" where
  "deltask n py name =
     (let task = ensure_task_prefix name
      in mbind (getVar n py ''__BBTASKS'' False) (\<lambda>ts.
         mbind (mlift (py_in task (or_names ts))) (\<lambda>b.
         mthen (if b
                then mbind (mlift (py_remove task (or_names ts))) (\<lambda>ts.
                     mthen (mupd (delVarFlag task ''task'')) (setVar n py ''__BBTASKS'' ts False))
                else mreturn ())
         (mthen (mupd (delVarFlag task ''deps''))
         (mbind (getVar n py ''__BBTASKS'' False) (\<lambda>ts.
          mbind (mlift (py_elems (or_names ts))) (\<lambda>ts.
            mfor (drop_dep n py task) ts)))))))"

section \<open>Reading the table\<close>

definition listtasks :: "nat \<Rightarrow> python \<Rightarrow> string list ds" where
  "listtasks n py = mbind (getVar n py ''__BBTASKS'' False) (\<lambda>ts. mlift (py_elems (or_names ts)))"

definition flag_text :: "nat \<Rightarrow> python \<Rightarrow> string \<Rightarrow> string \<Rightarrow> val option ds" where
  "flag_text n py var flag = mbind (getVarFlag n py var flag True False False False) (\<lambda>(v, p). mreturn v)"

definition text_words :: "val option \<Rightarrow> string list res" where
  "text_words v = (if \<not> truthy v then Inr [] else case v of Some (Text t) \<Rightarrow> Inr (words t) | _ \<Rightarrow> Inl AttributeError)"

definition preceedtask :: "nat \<Rightarrow> python \<Rightarrow> string \<Rightarrow> bool \<Rightarrow> string list ds" where
  "preceedtask n py task with_recrdeptasks =
     mbind (getVar n py ''__BBTASKS'' False) (\<lambda>ts.
     mbind (mlift (case ts of None \<Rightarrow> Inl TypeError | Some v \<Rightarrow> py_in task v)) (\<lambda>b.
       if \<not> b then mreturn []
       else mbind (flag_text n py task ''deps'') (\<lambda>deps.
            mbind (mlift (py_elems (or_names deps))) (\<lambda>deps.
              if \<not> with_recrdeptasks then mreturn (sunion [] deps)
              else mbind (flag_text n py task ''recrdeptask'') (\<lambda>r.
                   mbind (mlift (text_words r)) (\<lambda>ws. mreturn (sunion deps ws)))))))"

text \<open>\<open>follow_chain\<close> over the tasks with their dependencies: the tasks it adds for the chain that leads to
  \<open>task\<close>. A chain without repetition is no longer than the table.\<close>

fun follow_chain :: "nat \<Rightarrow> (string \<times> val option) list \<Rightarrow> string \<Rightarrow> string list \<Rightarrow> string \<Rightarrow> string list \<Rightarrow> string list res" where
  "follow_chain 0 tasks end_task chain task out = Inl OutOfFuel"
| "follow_chain (Suc k) tasks end_task chain task out =
     (if task \<in> set chain then Inl (Fatal ''Circular task dependencies'')
      else rfold (\<lambda>(other, deps) out.
        if other = task then Inr out
        else if task = end_task then Inr (sunion out (chain @ [task]))
        else rbind (case deps of None \<Rightarrow> Inl TypeError | Some v \<Rightarrow> py_in task v) (\<lambda>b.
          if b then follow_chain k tasks end_task (chain @ [task]) other out else Inr out)) tasks out)"

definition keep_tasks :: "nat \<Rightarrow> python \<Rightarrow> string \<Rightarrow> (string \<times> val option) list \<Rightarrow> (string \<times> val option) list ds" where
  "keep_tasks n py key out =
     mbind (flag_text n py key ''task'') (\<lambda>t.
       if truthy t then mbind (raw_flag n py key ''deps'') (\<lambda>deps. mreturn (out @ [(key, deps)])) else mreturn out)"

definition tasksbetween :: "nat \<Rightarrow> python \<Rightarrow> string \<Rightarrow> string \<Rightarrow> string list ds" where
  "tasksbetween n py task_start task_end =
     mbind (all_keys n py) (\<lambda>ks.
     mbind (mfold (keep_tasks n py) ks []) (\<lambda>tasks.
       mlift (follow_chain (Suc (Suc (length tasks))) tasks task_end [] task_start [])))"

section \<open>What the run queue reads\<close>

definition task_flag_names :: "string list" where
  "task_flag_names =
     [''mcdepends'', ''depends'', ''rdepends'', ''deptask'', ''rdeptask'', ''recrdeptask'', ''recideptask'',
      ''nostamp'', ''fakeroot'', ''noexec'', ''umask'']"

definition expand_text :: "nat \<Rightarrow> python \<Rightarrow> val \<Rightarrow> val option ds" where
  "expand_text n py v = mbind (expandWithRefs n py (getVarFlag n py) (Some v) []) (\<lambda>p. mreturn (vp_value p))"

definition expand_name :: "nat \<Rightarrow> python \<Rightarrow> string \<Rightarrow> string ds" where
  "expand_name n py s = mbind (expand_text n py (Text s)) (\<lambda>v. case v of Some (Text t) \<Rightarrow> mreturn t | _ \<Rightarrow> mraise TypeError)"

text \<open>A flag that is no text is kept as the text that shows it.\<close>

definition get_task :: "nat \<Rightarrow> python \<Rightarrow> string \<Rightarrow> var_flags \<Rightarrow> string \<Rightarrow> taskdeps \<Rightarrow> taskdeps ds" where
  "get_task n py task flags name td =
     (let td = (if has_key (td_flags td) name then td else td\<lparr>td_flags := AList.update name [] (td_flags td)\<rparr>)
      in case map_of flags name of
           None \<Rightarrow> mreturn td
         | Some v \<Rightarrow>
             mbind (expand_text n py v) (\<lambda>v.
             mbind (case v of Some (Text t) \<Rightarrow> mreturn t | Some w \<Rightarrow> mreturn (py_str py w) | None \<Rightarrow> mraise TypeError) (\<lambda>t.
               mreturn (td\<lparr>td_flags := AList.update name (AList.update task t (dget (td_flags td) name [])) (td_flags td)\<rparr>))))"

definition add_parent :: "nat \<Rightarrow> python \<Rightarrow> string \<Rightarrow> string \<Rightarrow> taskdeps \<Rightarrow> taskdeps ds" where
  "add_parent n py task dep td =
     mbind (expand_name n py dep) (\<lambda>dep.
       mreturn (td\<lparr>td_parents := AList.update task (dget (td_parents td) task [] @ [dep]) (td_parents td)\<rparr>))"

definition add_one_task :: "nat \<Rightarrow> python \<Rightarrow> string \<Rightarrow> taskdeps \<Rightarrow> taskdeps ds" where
  "add_one_task n py name td =
     mbind (expand_name n py name) (\<lambda>task.
     mthen (setVarFlag n py task ''task'' (Num 1))
     (mbind (getVarFlags n py task [] False) (\<lambda>flags.
      mbind (mlift (case flags of None \<Rightarrow> Inl TypeError | Some fs \<Rightarrow> Inr fs)) (\<lambda>flags.
      mbind (mfold (get_task n py task flags) task_flag_names (td\<lparr>td_tasks := sadd task (td_tasks td)\<rparr>)) (\<lambda>td.
      mbind (mlift (case map_of flags ''deps'' of None \<Rightarrow> Inr [] | Some v \<Rightarrow> py_elems v)) (\<lambda>deps.
        mfold (add_parent n py task) deps (td\<lparr>td_parents := AList.update task [] (td_parents td)\<rparr>)))))))"

definition add_tasks :: "nat \<Rightarrow> python \<Rightarrow> string list \<Rightarrow> unit ds" where
  "add_tasks n py tasklist =
     mbind (getVar n py ''_task_deps'' False) (\<lambda>old.
     mbind (mlift (if \<not> truthy old then Inr empty_taskdeps else case old of Some (Tasks td) \<Rightarrow> Inr td | _ \<Rightarrow> Inl TypeError)) (\<lambda>td.
     mbind (mfold (add_one_task n py) tasklist td) (\<lambda>td. setVar n py ''_task_deps'' (Tasks td) False)))"

end
