(* ===== verification/TaskSpec.thy ===== *)
theory TaskSpec
  imports TaskTable VarFrames
begin

text \<open>
  \<open>addtask\<close> and \<open>deltask\<close> implement operations on a graph: a list of tasks and, for each name, the list of the
  tasks before it. The graph is read off the store.
\<close>

section \<open>The flags of a store\<close>

definition flags_of :: "dstore \<Rightarrow> string \<Rightarrow> var_flags" where
  "flags_of d var = (case find_var d var of None \<Rightarrow> [] | Some fs \<Rightarrow> fs)"

definition raw_value :: "dstore \<Rightarrow> string \<Rightarrow> string \<Rightarrow> val option" where
  "raw_value d var flag = Option.bind (map_of (flags_of d var) flag) as_value"

lemma find_update: "map_of l var = None \<or> var' = var \<Longrightarrow>
    map_of (AList.update var fs l) var' = (if var' = var then Some fs else map_of l var')"
  by (simp add: update_conv')

lemma flags_put_flags [simp]: "flags_of (put_flags var fs d) = (flags_of d)(var := fs)"
  by (rule ext) (simp add: flags_of_def find_var_def put_flags_def update_conv')

lemma flags_clear [simp]: "flags_of (clear_cache d) = flags_of d"
  by (rule ext) (simp add: flags_of_def find_var_def clear_cache_def)

lemma flags_shadow [simp]: "flags_of (make_shadow_copy var d) = flags_of d"
proof
  fix var'
  show "flags_of (make_shadow_copy var d) var' = flags_of d var'"
    by (cases "find_var d var")
      (auto simp: make_shadow_copy_def init_var_def Let_def flags_of_def find_var_def clear_cache_def has_key_def update_conv'
        split: option.splits list.splits)
qed

lemma own_shadow: "own_flags (make_shadow_copy var d) var = flags_of d var"
proof -
  have "find_var (make_shadow_copy var d) var = Some (own_flags (make_shadow_copy var d) var)"
    by (rule find_own [OF shadow_has_key])
  then have "own_flags (make_shadow_copy var d) var = flags_of (make_shadow_copy var d) var" by (simp add: flags_of_def del: flags_shadow)
  also have "\<dots> = flags_of d var" by (simp only: flags_shadow)
  finally show ?thesis .
qed

lemma flags_put_flag [simp]: "flags_of (put_flag var flag v d) = (flags_of d)(var := AList.update flag v (flags_of d var))"
  by (simp add: put_flag_def Let_def own_shadow)

lemma flags_of_delVarFlag: "map_of (flags_of (delVarFlag var flag d) var') flag' =
    (if var' = var \<and> (flag' = flag \<or> flag' = ''_defaultval_flag_'' @ flag \<and> has_key (flags_of d var) flag) then None else map_of (flags_of d var') flag')"
proof -
  let ?d = "make_shadow_copy var (clear_cache d)" and ?fs = "flags_of d var"
  let ?gone = "AList.delete (''_defaultval_flag_'' @ flag) (AList.delete flag ?fs)"
  have find: "find_var (clear_cache d) var = find_var d var" by (simp add: find_var_def clear_cache_def)
  have own: "own_flags ?d var = ?fs" using own_shadow [of var "clear_cache d"] by simp
  show ?thesis
  proof (cases "find_var d var = None \<or> find_var d var = Some []")
    case True
    then have "delVarFlag var flag d = clear_cache d" "?fs = []" by (auto simp: delVarFlag_def Let_def find flags_of_def)
    then show ?thesis by (simp add: has_key_def)
  next
    case False
    then have "delVarFlag var flag d = (if has_key ?fs flag then put_flags var ?gone ?d else ?d)"
      by (auto simp: delVarFlag_def Let_def find own)
    then show ?thesis by (auto simp: AList.delete_conv' has_key_def)
  qed
qed

section \<open>Reading and writing\<close>

lemma plain_value_flags:
  "map_of (flags_of d var) (''_defaultval_flag_'' @ flag) = None \<Longrightarrow> flag \<noteq> ''_content'' \<Longrightarrow>
     plain_value (find_var d var) flag False = raw_value d var flag"
  by (auto simp: plain_value_def raw_value_def flags_of_def has_key_def split: option.split)

lemma raw_flag_eval:
  assumes "flag \<noteq> ''_content''" and "flag \<noteq> []" and "map_of (flags_of d var) (''_defaultval_flag_'' @ flag) = None"
  shows "raw_flag (Suc n) py var flag d = (Inr (raw_value d var flag), d)"
proof -
  have "fresh_lookup n py look var flag False False False False d = (Inr (raw_value d var flag, None), d)" for look
    using assms plain_value_flags [OF assms(3,1)]
    by (simp add: fresh_lookup_def Let_def apply_removes_def store_parse_def mbind_eval mthen_eval meth_defs)
  then show ?thesis
    using assms(2) by (simp add: raw_flag_def lookup_body_def mbind_eval meth_defs split: option.split)
qed

lemma setVarFlag_eval:
  assumes "var \<notin> set (ds_renames d)" and "var \<noteq> ''BB_RENAMED_VARIABLES''" and "flag \<notin> {''_defaultval'', ''export'', ''unexport''}"
  shows "setVarFlag n py var flag v d = (Inr (), put_flag var flag v (clear_cache d))"
proof -
  have "ds_renames (clear_cache d) = ds_renames d" by (simp add: clear_cache_def)
  then show ?thesis
    using assms by (simp add: setVarFlag_def note_rename_def check_renamed_def mthen_eval meth_defs comp_def)
qed

section \<open>The graph\<close>

definition env :: "dstore \<Rightarrow> string list \<times> (string, (string \<times> string) list) dict \<times> string list" where
  "env d = (ds_renames d, ds_overridedata d, ds_overridevars d)"

lemma env_simps [simp]:
  "env (clear_cache d) = env d" "env (put_flags var fs d) = env d" "env (make_shadow_copy var d) = env d"
  by (auto simp: env_def clear_cache_def put_flags_def make_shadow_copy_def init_var_def Let_def split: option.split list.split)

lemma env_more [simp]: "env (put_flag var flag v d) = env d" "env (delVarFlag var flag d) = env d"
  by (simp_all add: put_flag_def delVarFlag_def Let_def)

definition names_only :: "val option \<Rightarrow> bool" where
  "names_only v \<longleftrightarrow> v = None \<or> (\<exists>xs. v = Some (Names xs))"

fun names_of :: "val option \<Rightarrow> string list" where
  "names_of (Some (Names xs)) = xs"
| "names_of v = []"

lemma or_names_only: "names_only v \<Longrightarrow> or_names v = Names (names_of v)"
  by (auto simp: names_only_def or_names_def)

definition store_tasks :: "dstore \<Rightarrow> string list" where
  "store_tasks d = names_of (raw_value d ''__BBTASKS'' ''_content'')"

definition store_deps :: "dstore \<Rightarrow> string \<Rightarrow> string list" where
  "store_deps d t = names_of (raw_value d t ''deps'')"

text \<open>The stores in which tasks are kept as the code expects: the list and the flags hold lists of names, the
  list has no overrides, operations and defaults, and no task has the name of a variable that was renamed.\<close>

definition task_store :: "dstore \<Rightarrow> bool" where
  "task_store d \<longleftrightarrow>
     (case env d of (renames, overrides, overridevars) \<Rightarrow>
        ''__BBTASKS'' \<notin> set renames \<and> (\<forall>t\<in>set renames. \<not> prefix ''do_'' t) \<and>
        map_of overrides ''__BBTASKS'' = None \<and> ''__BBTASKS'' \<notin> set overridevars) \<and>
     names_only (raw_value d ''__BBTASKS'' ''_content'') \<and>
     (\<forall>k\<in>set ([''_defaultval'', ''_defaultval_flag__content''] @ op_keywords). map_of (flags_of d ''__BBTASKS'') k = None) \<and>
     (\<forall>t. prefix ''do_'' t \<longrightarrow> names_only (raw_value d t ''deps'') \<and> map_of (flags_of d t) ''_defaultval_flag_deps'' = None)"

type_synonym graph = "string list \<times> (string \<Rightarrow> string list)"

definition graph_of :: "dstore \<Rightarrow> graph" where
  "graph_of d = (store_tasks d, store_deps d)"

text \<open>\<open>edits m g x g'\<close>: in a store with the graph \<open>g\<close>, \<open>m\<close> returns \<open>x\<close> and the graph is \<open>g'\<close>.\<close>

definition edits :: "'a ds \<Rightarrow> graph \<Rightarrow> 'a \<Rightarrow> graph \<Rightarrow> bool" where
  "edits m g x g' \<longleftrightarrow>
     (\<forall>d. task_store d \<and> graph_of d = g \<longrightarrow> fst (m d) = Inr x \<and> task_store (snd (m d)) \<and> graph_of (snd (m d)) = g')"

named_theorems run_rules "computations on the graph"

lemma edits_return [run_rules]: "edits (mreturn x) g x g"
  by (simp add: edits_def mreturn_def)

lemma edits_lift [run_rules]: "r = Inr x \<Longrightarrow> edits (mlift r) g x g"
  by (simp add: edits_def mlift_def)

lemma edits_bind:
  assumes "edits m g x g1" and "edits (f x) g1 y g2"
  shows "edits (mbind m f) g y g2"
  unfolding edits_def
proof (intro allI impI)
  fix d assume d: "task_store d \<and> graph_of d = g"
  obtain r d1 where m: "m d = (r, d1)" by (cases "m d")
  have "r = Inr x" "task_store d1" "graph_of d1 = g1" using assms(1) d m by (auto simp: edits_def)
  then show "fst (mbind m f d) = Inr y \<and> task_store (snd (mbind m f d)) \<and> graph_of (snd (mbind m f d)) = g2"
    using assms(2) by (simp add: mbind_def m edits_def)
qed

lemma edits_then: "edits m g x g1 \<Longrightarrow> edits n g1 y g2 \<Longrightarrow> edits (mthen m n) g y g2"
  by (simp add: mthen_def edits_bind)

lemma edits_mfor: "(\<And>x g. x \<in> set xs \<Longrightarrow> edits (f x) g () (step x g)) \<Longrightarrow> edits (mfor f xs) g () (fold step xs g)"
proof (induction xs arbitrary: g)
  case (Cons x xs)
  have "edits (f x) g () (step x g)" "edits (mfor f xs) (step x g) () (fold step xs (step x g))"
    using Cons by simp_all
  then show ?case by (simp add: edits_then)
qed (simp add: edits_return)

lemma edits_mfold: "(\<And>x y. x \<in> set xs \<Longrightarrow> edits (f x y) g (step x y) g) \<Longrightarrow> edits (mfold f xs y) g (fold step xs y) g"
proof (induction xs arbitrary: y)
  case (Cons x xs)
  have "edits (f x y) g (step x y) g" "edits (mfold f xs (step x y)) g (fold step xs (step x y)) g"
    using Cons by simp_all
  then show ?case by (simp add: edits_bind)
qed (simp add: edits_return)

section \<open>The steps\<close>

lemma task_storeD:
  assumes "task_store d"
  shows "''__BBTASKS'' \<notin> set (ds_renames d)" "prefix ''do_'' t \<Longrightarrow> t \<notin> set (ds_renames d)"
    "map_of (ds_overridedata d) ''__BBTASKS'' = None" "''__BBTASKS'' \<notin> set (ds_overridevars d)"
    "or_names (raw_value d ''__BBTASKS'' ''_content'') = Names (store_tasks d)"
    "map_of (flags_of d ''__BBTASKS'') '':append'' = None" "map_of (flags_of d ''__BBTASKS'') '':prepend'' = None"
    "map_of (flags_of d ''__BBTASKS'') '':remove'' = None" "map_of (flags_of d ''__BBTASKS'') ''_defaultval'' = None"
    "map_of (flags_of d ''__BBTASKS'') ''_defaultval_flag__content'' = None"
    "prefix ''do_'' t \<Longrightarrow> or_names (raw_value d t ''deps'') = Names (store_deps d t)"
    "prefix ''do_'' t \<Longrightarrow> map_of (flags_of d t) ''_defaultval_flag_deps'' = None"
  using assms or_names_only by (auto simp: task_store_def env_def store_tasks_def store_deps_def op_keywords_def)

lemma edits_deps:
  assumes "prefix ''do_'' t" and "edits (f (Names (ds t))) (ts, ds) y g"
  shows "edits (mbind (raw_flag (Suc n) py t ''deps'') (\<lambda>old. f (or_names old))) (ts, ds) y g"
  unfolding edits_def
proof (intro allI impI)
  fix d assume d: "task_store d \<and> graph_of d = (ts, ds)"
  have "raw_flag (Suc n) py t ''deps'' d = (Inr (raw_value d t ''deps''), d)"
    using d assms(1) by (intro raw_flag_eval) (auto dest: task_storeD(12))
  moreover have "or_names (raw_value d t ''deps'') = Names (ds t)"
    using d assms(1) task_storeD(11) [of d t] by (simp add: graph_of_def)
  ultimately show "fst (mbind (raw_flag (Suc n) py t ''deps'') (\<lambda>old. f (or_names old)) d) = Inr y \<and>
      task_store (snd (mbind (raw_flag (Suc n) py t ''deps'') (\<lambda>old. f (or_names old)) d)) \<and>
      graph_of (snd (mbind (raw_flag (Suc n) py t ''deps'') (\<lambda>old. f (or_names old)) d)) = g"
    using assms(2) d by (simp add: mbind_def edits_def)
qed

lemma getVar_tasks:
  assumes "task_store d"
  shows "getVar (Suc n) py ''__BBTASKS'' False d = (Inr (raw_value d ''__BBTASKS'' ''_content''), d)"
proof -
  let ?local = "find_var d ''__BBTASKS''"
  note t = task_storeD [OF assms]
  have v: "plain_value ?local ''_content'' False = raw_value d ''__BBTASKS'' ''_content''"
    using t(9,10) by (auto simp: plain_value_def raw_value_def flags_of_def has_key_def split: option.splits)
  have o: "with_ops look ?local k f x = mreturn x" if "k \<in> {'':append'', '':prepend''}" for look k f and x :: "val option"
    using that t(6,7) by (auto simp: with_ops_def flags_of_def split: option.split)
  have r: "with_ops look ?local '':remove'' f x = mreturn x" for look f and x :: "val list"
    using t(8) by (auto simp: with_ops_def flags_of_def split: option.split)
  have "fresh_lookup n py look ''__BBTASKS'' ''_content'' False False False False d = (Inr (raw_value d ''__BBTASKS'' ''_content'', None), d)" for look
    using t(3) by (simp add: fresh_lookup_def Let_def override_value_def v o r apply_removes_def share_removes_def store_parse_def mbind_eval mthen_eval meth_defs)
  then show ?thesis by (simp add: getVar_def lookup_body_def mbind_eval meth_defs split: option.split)
qed

lemma edits_tasks:
  assumes "edits (f (Names ts)) (ts, ds) y g"
  shows "edits (mbind (getVar (Suc n) py ''__BBTASKS'' False) (\<lambda>old. f (or_names old))) (ts, ds) y g"
  using assms task_storeD(5) by (auto simp: edits_def mbind_def getVar_tasks graph_of_def)

lemma raw_clear [simp]: "raw_value (clear_cache d) = raw_value d"
  by (intro ext) (simp add: raw_value_def)

lemma raw_put_flag: "raw_value (put_flag var flag v d) var' flag' = (if var' = var \<and> flag' = flag then as_value v else raw_value d var' flag')"
  by (simp add: raw_value_def update_conv')

lemma graph_put_flag:
  assumes "task_store d" and "prefix ''do_'' t" and "flag \<in> {''deps'', ''task''}" and "flag = ''deps'' \<longrightarrow> v = Names xs"
  shows "task_store (put_flag t flag v d)"
    and "graph_of (put_flag t flag v d) = (store_tasks d, if flag = ''deps'' then (store_deps d)(t := xs) else store_deps d)"
proof -
  have t: "t \<noteq> ''__BBTASKS''" using assms(2) by auto
  show "graph_of (put_flag t flag v d) = (store_tasks d, if flag = ''deps'' then (store_deps d)(t := xs) else store_deps d)"
    using assms(3,4) t by (auto simp: graph_of_def store_tasks_def store_deps_def raw_put_flag fun_eq_iff)
  show "task_store (put_flag t flag v d)"
    using assms t by (auto simp: task_store_def raw_put_flag names_only_def update_conv')
qed

lemma edits_set_flag:
  assumes "prefix ''do_'' t"
  shows "edits (setVarFlag n py t ''deps'' (Names xs)) (ts, ds) () (ts, ds(t := xs))"
    and "edits (setVarFlag n py t ''task'' (Num 1)) (ts, ds) () (ts, ds)"
proof -
  have t: "t \<noteq> ''BB_RENAMED_VARIABLES''" using assms by auto
  have clear: "task_store (clear_cache d) = task_store d" "store_tasks (clear_cache d) = store_tasks d" "store_deps (clear_cache d) = store_deps d" for d
    by (auto simp: task_store_def store_tasks_def store_deps_def)
  show "edits (setVarFlag n py t ''deps'' (Names xs)) (ts, ds) () (ts, ds(t := xs))"
    using graph_put_flag [OF _ assms, of "clear_cache _" "''deps''" "Names xs" xs] task_storeD(2) assms t
    by (auto simp: edits_def setVarFlag_eval clear graph_of_def)
  show "edits (setVarFlag n py t ''task'' (Num 1)) (ts, ds) () (ts, ds)"
    using graph_put_flag [OF _ assms, of "clear_cache _" "''task''" "Num 1"] task_storeD(2) assms t
    by (auto simp: edits_def setVarFlag_eval clear graph_of_def)
qed

lemma map_of_filter_key: "map_of (filter (\<lambda>(k, v). P k) xs) k = (if P k then map_of xs k else None)"
  by (induction xs) auto

lemma edits_set_tasks: "edits (setVar n py ''__BBTASKS'' (Names xs) False) (ts, ds) () (xs, ds)"
  unfolding edits_def
proof (intro allI impI)
  fix d assume d: "task_store d \<and> graph_of d = (ts, ds)"
  then have store: "task_store d" by simp
  note t = task_storeD [OF store]
  let ?var = "''__BBTASKS''"
  let ?fs = "AList.update ''_content'' (Names xs) (filter (\<lambda>(flag, v). flag \<notin> set op_keywords) (flags_of d ?var))"
  let ?e = "make_shadow_copy ?var (clear_cache d)"
  let ?d = "put_content ?var (Names xs) (drop_ops ?var ?e)"
  have keys: "split_keyword ?var = None" "\<not> old_syntax ?var" "before_colon ?var = ?var" by code_simp+
  have e: "ds_overridedata (clear_cache d) = ds_overridedata d" "ds_overridevars (clear_cache d) = ds_overridevars d"
    by (simp_all add: clear_cache_def)
  have active: "drop_active n py ?var (drop_ops ?var ?e) = (Inr (), drop_ops ?var ?e)"
    using t(3) by (simp add: drop_active_def meth_defs drop_ops_def put_flags_def has_key_def e(1))
  have plain: "plain_set n py ?var (Names xs) False (clear_cache d) = (Inr (), ?d)"
    using t(4) by (simp add: plain_set_def update_if_overridevar_def mthen_eval meth_defs active)
      (simp add: put_content_def drop_ops_def put_flags_def e(2))
  have result: "setVar n py ?var (Names xs) False d = (Inr (), ?d)"
    using t(1) by (simp add: setVar_plain [OF keys(1)] keys check_renamed_def mthen_eval meth_defs plain)
  have flags: "flags_of ?d = (flags_of d)(?var := ?fs)"
    using own_shadow [of ?var "clear_cache d"] by (simp add: put_content_def drop_ops_def)
  have env: "env ?d = env d" by (simp add: put_content_def drop_ops_def)
  have raw: "raw_value ?d var flag = (if var = ?var then Option.bind (map_of ?fs flag) as_value else raw_value d var flag)" for var flag
    by (simp add: raw_value_def flags)
  have tasks: "raw_value ?d ?var ''_content'' = Some (Names xs)" by (simp add: raw update_conv')
  have "raw_value ?d u ''deps'' = raw_value d u ''deps''" for u
    unfolding raw by (simp add: update_conv' map_of_filter_key op_keywords_def raw_value_def)
  then have "graph_of ?d = (xs, ds)"
    using d tasks by (simp add: graph_of_def store_tasks_def store_deps_def fun_eq_iff)
  moreover have "task_store ?d"
    using store tasks by (auto simp: task_store_def env raw flags names_only_def update_conv' map_of_filter_key op_keywords_def)
  ultimately show "fst (setVar n py ?var (Names xs) False d) = Inr () \<and> task_store (snd (setVar n py ?var (Names xs) False d)) \<and>
      graph_of (snd (setVar n py ?var (Names xs) False d)) = (xs, ds)"
    by (simp add: result)
qed

lemma edits_del_flag:
  assumes "prefix ''do_'' t"
  shows "edits (mupd (delVarFlag t ''deps'')) (ts, ds) () (ts, ds(t := []))"
    and "edits (mupd (delVarFlag t ''task'')) (ts, ds) () (ts, ds)"
proof -
  have t: "t \<noteq> ''__BBTASKS''" using assms by auto
  have raw: "raw_value (delVarFlag t flag d) var' flag' =
     (if var' = t \<and> (flag' = flag \<or> flag' = ''_defaultval_flag_'' @ flag \<and> has_key (flags_of d t) flag) then None else raw_value d var' flag')" for flag d var' flag'
    by (auto simp: raw_value_def flags_of_delVarFlag)
  have store: "task_store (delVarFlag t flag d)" if "task_store d" "flag \<in> {''deps'', ''task''}" for flag d
    using that t by (auto simp: task_store_def raw flags_of_delVarFlag names_only_def)
  show "edits (mupd (delVarFlag t ''deps'')) (ts, ds) () (ts, ds(t := []))"
    using store t by (auto simp: edits_def mupd_def graph_of_def store_tasks_def store_deps_def raw fun_eq_iff)
  show "edits (mupd (delVarFlag t ''task'')) (ts, ds) () (ts, ds)"
    using store t by (auto simp: edits_def mupd_def graph_of_def store_tasks_def store_deps_def raw fun_eq_iff)
qed

section \<open>Adding and deleting in the graph\<close>

definition add_in_graph :: "string \<Rightarrow> string list \<Rightarrow> string list \<Rightarrow> graph \<Rightarrow> graph" where
  "add_in_graph t before after g =
     (case g of (ts, ds) \<Rightarrow>
      let ds = ds(t := sunion (ds t) after)
      in (sadd t ts, \<lambda>u. if u \<in> set before \<and> t \<notin> set (ds u) then t # ds u else ds u))"

definition delete_in_graph :: "string \<Rightarrow> graph \<Rightarrow> graph" where
  "delete_in_graph t g =
     (case g of (ts, ds) \<Rightarrow>
      let ts' = remove1 t ts; ds = ds(t := [])
      in (ts', \<lambda>u. if u \<in> set ts' then remove1 t (ds u) else ds u))"

lemma add_missing_names: "edits (add_missing x (Names xs)) g (Names (sadd x xs)) g"
  unfolding add_missing_def
  by (rule edits_bind [OF edits_lift [OF py_in.simps(1)]]) (simp add: sadd_def edits_return edits_lift)

lemma edits_add_missing: "edits (mfold add_missing xs (Names ys)) g (Names (sunion ys xs)) g"
proof -
  have "edits (mfold add_missing xs (Names ys)) g (fold (\<lambda>x v. Names (sadd x (names_of (Some v)))) xs (Names ys)) g"
  proof (induction xs arbitrary: ys)
    case (Cons x xs)
    have "edits (mbind (add_missing x (Names ys)) (mfold add_missing xs)) g (fold (\<lambda>x v. Names (sadd x (names_of (Some v)))) xs (Names (sadd x ys))) g"
      by (rule edits_bind, rule add_missing_names, rule Cons.IH)
    then show ?case by simp
  qed (simp add: edits_return)
  moreover have "fold (\<lambda>x v. Names (sadd x (names_of (Some v)))) xs (Names ys) = Names (sunion ys xs)"
    by (induction xs arbitrary: ys) (simp_all add: sunion_def)
  ultimately show ?thesis by simp
qed

lemma lift_bind [simp]: "mbind (mlift (Inr x)) f = f x"
  by (rule ext) (simp add: mbind_def mlift_def)

lemma edits_add_before:
  assumes "prefix ''do_'' u"
  shows "edits (add_before (Suc n) py t u) g () (case g of (ts, ds) \<Rightarrow> (ts, ds(u := if t \<in> set (ds u) then ds u else t # ds u)))"
proof (cases g)
  case (Pair ts ds)
  show ?thesis
    unfolding add_before_def Pair prod.case
    by (rule edits_deps [OF assms]) (simp add: edits_return edits_set_flag(1) [OF assms])
qed

lemma fold_before:
  "fold (\<lambda>u (ts, ds). (ts, ds(u := if t \<in> set (ds u) then ds u else t # ds u))) us (ts, ds) =
     (ts, \<lambda>u. if u \<in> set us \<and> t \<notin> set (ds u) then t # ds u else ds u)"
  by (induction us arbitrary: ds) (auto simp: fun_eq_iff)

lemma ensure_do: "prefix ''do_'' (ensure_task_prefix t)"
  by (simp add: ensure_task_prefix_def)

definition entries :: "string option \<Rightarrow> string list" where
  "entries s = map ensure_task_prefix (case s of None \<Rightarrow> [] | Some t \<Rightarrow> words t)"

lemma edits_addtask:
  "edits (addtask (Suc n) py name before after) g () (add_in_graph (ensure_task_prefix name) (entries before) (entries after) g)"
proof -
  obtain ts ds where g: "g = (ts, ds)" by (cases g)
  let ?t = "ensure_task_prefix name" and ?after = "entries after"
  let ?ds = "ds(?t := sunion (ds ?t) ?after)"
  have "edits (mfor (add_before (Suc n) py ?t) (entries before)) (sadd ?t ts, ?ds) ()
      (fold (\<lambda>u (ts, ds). (ts, ds(u := if ?t \<in> set (ds u) then ds u else ?t # ds u))) (entries before) (sadd ?t ts, ?ds))"
    by (rule edits_mfor, rule edits_add_before) (auto simp: entries_def ensure_do)
  then have last: "edits (mfor (add_before (Suc n) py ?t) (entries before)) (sadd ?t ts, ?ds) () (add_in_graph ?t (entries before) ?after g)"
    unfolding fold_before by (simp add: add_in_graph_def g Let_def)
  have deps: "edits (mbind (raw_flag (Suc n) py ?t ''deps'') (\<lambda>old. mbind (mfold add_missing ?after (or_names old)) (\<lambda>deps.
           mthen (setVarFlag (Suc n) py ?t ''deps'' deps) (mfor (add_before (Suc n) py ?t) (entries before)))))
         (sadd ?t ts, ds) () (add_in_graph ?t (entries before) ?after g)"
    by (rule edits_deps [OF ensure_do], rule edits_bind [OF edits_add_missing], rule edits_then [OF edits_set_flag(1) [OF ensure_do]], rule last)
  show ?thesis
    unfolding addtask_def Let_def entries_def [symmetric] g
    by (rule edits_then [OF edits_set_flag(2) [OF ensure_do]], rule edits_tasks, rule edits_bind [OF add_missing_names],
        rule edits_then [OF edits_set_tasks], rule deps [unfolded g])
qed

lemma edits_drop_dep:
  assumes "prefix ''do_'' u"
  shows "edits (drop_dep (Suc n) py t u) g () (case g of (ts, ds) \<Rightarrow> (ts, ds(u := remove1 t (ds u))))"
proof (cases g)
  case (Pair ts ds)
  show ?thesis
    unfolding drop_dep_def Pair prod.case
    by (rule edits_deps [OF assms]) (simp add: edits_return edits_set_flag(1) [OF assms] remove1_idem)
qed

lemma fold_drop:
  "distinct us \<Longrightarrow> fold (\<lambda>u (ts, ds). (ts, ds(u := remove1 t (ds u)))) us (ts, ds) =
     (ts, \<lambda>u. if u \<in> set us then remove1 t (ds u) else ds u)"
  by (induction us arbitrary: ds) (auto simp: fun_eq_iff)

lemma edits_deltask:
  assumes "distinct (fst g)" and "\<forall>u\<in>set (fst g). prefix ''do_'' u"
  shows "edits (deltask (Suc n) py name) g () (delete_in_graph (ensure_task_prefix name) g)"
proof -
  obtain ts ds where g: "g = (ts, ds)" by (cases g)
  let ?t = "ensure_task_prefix name"
  let ?ts = "remove1 ?t ts" and ?ds = "ds(?t := [])"
  have sub: "\<forall>u\<in>set ?ts. prefix ''do_'' u" using assms(2) set_remove1_subset [of ?t ts] by (auto simp: g)
  have "edits (mfor (drop_dep (Suc n) py ?t) ?ts) (?ts, ?ds) () (fold (\<lambda>u (ts, ds). (ts, ds(u := remove1 ?t (ds u)))) ?ts (?ts, ?ds))"
    by (rule edits_mfor, rule edits_drop_dep) (use sub in blast)
  moreover have "distinct ?ts" using assms(1) by (simp add: g)
  ultimately have last: "edits (mfor (drop_dep (Suc n) py ?t) ?ts) (?ts, ?ds) () (delete_in_graph ?t g)"
    unfolding fold_drop [OF \<open>distinct ?ts\<close>] by (simp only: delete_in_graph_def g Let_def prod.case)
  have rest: "edits (mthen (mupd (delVarFlag ?t ''deps'')) (mbind (getVar (Suc n) py ''__BBTASKS'' False) (\<lambda>ts.
          mbind (mlift (py_elems (or_names ts))) (mfor (drop_dep (Suc n) py ?t))))) (?ts, ds) () (delete_in_graph ?t g)"
    by (rule edits_then [OF edits_del_flag(1) [OF ensure_do]], rule edits_tasks, rule edits_bind [OF edits_lift [OF py_elems.simps(1)]], rule last)
  have remove: "edits (if ?t \<in> set ts then mbind (mlift (py_remove ?t (Names ts))) (\<lambda>ts.
        mthen (mupd (delVarFlag ?t ''task'')) (setVar (Suc n) py ''__BBTASKS'' ts False)) else mreturn ()) (ts, ds) () (?ts, ds)"
    using edits_then [OF edits_del_flag(2) [OF ensure_do] edits_set_tasks] by (simp add: remove1_idem edits_return)
  show ?thesis
    unfolding deltask_def Let_def g
    by (rule edits_tasks, rule edits_bind [OF edits_lift [OF py_in.simps(1)]], rule edits_then [OF remove rest [unfolded g]])
qed

section \<open>Sequences of statements\<close>

datatype task_step = Add string "string option" "string option" | Delete string

fun store_step :: "nat \<Rightarrow> python \<Rightarrow> task_step \<Rightarrow> unit ds" where
  "store_step n py (Add name before after) = addtask n py name before after"
| "store_step n py (Delete name) = deltask n py name"

fun graph_step :: "task_step \<Rightarrow> graph \<Rightarrow> graph" where
  "graph_step (Add name before after) g = add_in_graph (ensure_task_prefix name) (entries before) (entries after) g"
| "graph_step (Delete name) g = delete_in_graph (ensure_task_prefix name) g"

definition wf_graph :: "graph \<Rightarrow> bool" where
  "wf_graph g \<longleftrightarrow> distinct (fst g) \<and> (\<forall>t\<in>set (fst g). prefix ''do_'' t) \<and> (\<forall>u. distinct (snd g u))"

lemma wf_graph_step: "wf_graph g \<Longrightarrow> wf_graph (graph_step s g)"
proof (cases s)
  case (Add name before after)
  assume "wf_graph g"
  then show ?thesis
    using ensure_do [of name] by (cases g) (auto simp: Add wf_graph_def add_in_graph_def Let_def sadd_def)
next
  case (Delete name)
  assume "wf_graph g"
  then show ?thesis by (cases g) (auto simp: Delete wf_graph_def delete_in_graph_def Let_def)
qed

lemma deleted_gone:
  "wf_graph g \<Longrightarrow> t \<notin> set (fst (delete_in_graph t g)) \<and> (\<forall>u\<in>set (fst (delete_in_graph t g)). t \<notin> set (snd (delete_in_graph t g) u))"
  by (cases g) (auto simp: wf_graph_def delete_in_graph_def Let_def)

lemma edits_step: "wf_graph g \<Longrightarrow> edits (store_step (Suc n) py s) g () (graph_step s g)"
  by (cases s) (simp_all add: edits_addtask edits_deltask wf_graph_def)

lemma edits_steps: "wf_graph g \<Longrightarrow> edits (mfor (store_step (Suc n) py) steps) g () (fold graph_step steps g) \<and> wf_graph (fold graph_step steps g)"
proof (induction steps arbitrary: g)
  case (Cons s steps)
  have "edits (mfor (store_step (Suc n) py) steps) (graph_step s g) () (fold graph_step steps (graph_step s g)) \<and>
      wf_graph (fold graph_step steps (graph_step s g))"
    by (rule Cons.IH [OF wf_graph_step [OF Cons.prems]])
  then show ?case by (auto intro: edits_then [OF edits_step [OF Cons.prems]])
qed (simp add: edits_return)

text \<open>C19: whatever tasks are added and deleted in a store that keeps its tasks as the code expects, no statement
  fails and the table of tasks is what the operations on the graph make of it: a task is listed once, its
  dependencies are those it was given, in order and once each; and after a task was deleted it is not listed and no
  listed task depends on it.\<close>

theorem tasks_implement_graph:
  assumes "task_store d" and "wf_graph (graph_of d)"
  shows "\<exists>d'. mfor (store_step (Suc n) py) steps d = (Inr (), d') \<and> task_store d' \<and>
    graph_of d' = fold graph_step steps (graph_of d) \<and> wf_graph (graph_of d') \<and>
    (\<forall>rest name. steps = rest @ [Delete name] \<longrightarrow> ensure_task_prefix name \<notin> set (store_tasks d') \<and>
      (\<forall>u\<in>set (store_tasks d'). ensure_task_prefix name \<notin> set (store_deps d' u)))"
proof -
  let ?m = "mfor (store_step (Suc n) py) steps" and ?g = "fold graph_step steps (graph_of d)"
  have "edits ?m (graph_of d) () ?g" and wf: "wf_graph ?g" using edits_steps [OF assms(2)] by blast+
  then have "fst (?m d) = Inr ()" and d': "task_store (snd (?m d))" "graph_of (snd (?m d)) = ?g"
    using assms(1) by (auto simp: edits_def)
  then have m: "?m d = (Inr (), snd (?m d))" by (metis prod.collapse)
  have "ensure_task_prefix name \<notin> set (store_tasks (snd (?m d))) \<and>
      (\<forall>u\<in>set (store_tasks (snd (?m d))). ensure_task_prefix name \<notin> set (store_deps (snd (?m d)) u))"
    if "steps = rest @ [Delete name]" for rest name
  proof -
    have "wf_graph (fold graph_step rest (graph_of d))" using edits_steps [OF assms(2)] by blast
    from deleted_gone [OF this] have "ensure_task_prefix name \<notin> set (fst ?g) \<and> (\<forall>u\<in>set (fst ?g). ensure_task_prefix name \<notin> set (snd ?g u))"
      by (simp add: that)
    then show ?thesis unfolding d'(2) [symmetric] by (simp add: graph_of_def)
  qed
  then show ?thesis using m d' wf by metis
qed

definition sample_steps :: "task_step list" where
  "sample_steps = [Add ''compile'' (Some ''build install'') (Some ''unpack patch''), Add ''unpack'' None None, Add ''install'' None (Some ''do_compile''), Delete ''unpack'']"

lemma tasks_implement_graph_witness:
  "\<exists>d'. mfor (store_step 2 sample_python) sample_steps new_store = (Inr (), d') \<and> store_tasks d' = [''do_compile'', ''do_install''] \<and>
     store_deps d' ''do_compile'' = [''do_patch''] \<and> store_deps d' ''do_install'' = [''do_compile''] \<and>
     store_deps d' ''do_build'' = [''do_compile'']"
proof -
  have flags: "flags_of new_store var = []" for var by (simp add: flags_of_def find_var_def new_store_def)
  have renames: "''__BBTASKS'' \<notin> set bitbake_renamed_vars" "\<forall>t\<in>set bitbake_renamed_vars. \<not> prefix ''do_'' t" by code_simp+
  have store: "task_store new_store"
    using renames by (simp add: task_store_def env_def raw_value_def flags names_only_def) (simp add: new_store_def)
  have empty: "graph_of new_store = ([], \<lambda>u. [])" by (simp add: graph_of_def store_tasks_def store_deps_def raw_value_def flags fun_eq_iff)
  then have wf: "wf_graph (graph_of new_store)" by (simp add: wf_graph_def)
  obtain d' where d': "mfor (store_step 2 sample_python) sample_steps new_store = (Inr (), d')"
    "graph_of d' = fold graph_step sample_steps ([], \<lambda>u. [])"
    using tasks_implement_graph [OF store wf, of 1 sample_python sample_steps] unfolding empty by (auto simp: numeral_2_eq_2)
  have "fst (fold graph_step sample_steps ([], \<lambda>u. [])) = [''do_compile'', ''do_install'']"
    "snd (fold graph_step sample_steps ([], \<lambda>u. [])) ''do_compile'' = [''do_patch'']"
    "snd (fold graph_step sample_steps ([], \<lambda>u. [])) ''do_install'' = [''do_compile'']"
    "snd (fold graph_step sample_steps ([], \<lambda>u. [])) ''do_build'' = [''do_compile'']" by code_simp+
  then show ?thesis using d' by (auto simp: graph_of_def d'(2) [symmetric])
qed

end
