(* ===== verification/Statements.thy ===== *)
theory Statements
  imports BBParse TaskTable
begin

text \<open>
  What the statements of a file do to the variable store: the \<open>eval\<close> methods of \<open>bb/parse/ast.py\<close> that need no
  other file. How an error is shown, and the warnings, are left out.
\<close>

section \<open>Assignments\<close>

text \<open>\<open>"%s" % (v or "")\<close>.\<close>

definition shown_or_empty :: "python \<Rightarrow> val option \<Rightarrow> string" where
  "shown_or_empty py v = (if \<not> truthy v then [] else case v of Some (Text t) \<Rightarrow> t | Some w \<Rightarrow> py_str py w | None \<Rightarrow> [])"

definition old_value :: "nat \<Rightarrow> python \<Rightarrow> assignment \<Rightarrow> val option ds" where
  "old_value n py g =
     (case gd_flag g of
        Some flag \<Rightarrow> mbind (getVarFlag n py (gd_var g) flag False True False False) (\<lambda>(v, p). mreturn v)
      | None \<Rightarrow> mbind (getVarFlag n py (gd_var g) ''_content'' False True True False) (\<lambda>(v, p). mreturn v))"

text \<open>An immediate expansion is made in a copy, and what it changes there is lost.\<close>

definition expand_in_copy :: "nat \<Rightarrow> python \<Rightarrow> string \<Rightarrow> string \<Rightarrow> val ds" where
  "expand_in_copy n py s varname =
     mread (\<lambda>d. mlift (case fst (expandWithRefs n py (getVarFlag n py) (Some (Text s)) varname (create_copy d)) of
        Inl e \<Rightarrow> Inl e
      | Inr p \<Rightarrow> (case vp_value p of None \<Rightarrow> Inr Null | Some v \<Rightarrow> Inr v)))"

definition assigned_value :: "nat \<Rightarrow> python \<Rightarrow> assignment \<Rightarrow> val ds" where
  "assigned_value n py g =
     (let old = (\<lambda>f. mbind (old_value n py g) (\<lambda>v. mreturn (Text (f (shown_or_empty py v))))); new = gd_value g
      in case gd_op g of
           QuesOp \<Rightarrow> mbind (old_value n py g) (\<lambda>v. mreturn (case v of None \<Rightarrow> Text new | Some w \<Rightarrow> w))
         | ColonOp \<Rightarrow> expand_in_copy n py new (gd_var g @ ''[:=]'')
         | AppendOp \<Rightarrow> old (\<lambda>t. t @ '' '' @ new)
         | PrependOp \<Rightarrow> old (\<lambda>t. new @ '' '' @ t)
         | PostdotOp \<Rightarrow> old (\<lambda>t. t @ new)
         | PredotOp \<Rightarrow> old (\<lambda>t. new @ t)
         | SetOp \<Rightarrow> mreturn (Text new)
         | LazyOp \<Rightarrow> mreturn (Text new))"

definition assigned_flag :: "assignment \<Rightarrow> string option" where
  "assigned_flag g =
     (case gd_flag g of
        Some flag \<Rightarrow> Some (if gd_op g = LazyOp then ''_defaultval_flag_'' @ flag else flag)
      | None \<Rightarrow> if gd_op g = LazyOp then Some ''_defaultval'' else None)"

definition eval_assign :: "nat \<Rightarrow> python \<Rightarrow> assignment \<Rightarrow> unit ds" where
  "eval_assign n py g =
     mthen (if gd_exp g then setVarFlag n py (gd_var g) ''export'' (Num 1) else mreturn ())
     (mbind (assigned_value n py g) (\<lambda>v.
        case assigned_flag g of
          Some (c # flag) \<Rightarrow> setVarFlag n py (gd_var g) (c # flag) v
        | _ \<Rightarrow> setVar n py (gd_var g) v True))"

section \<open>Functions\<close>

definition show_int :: "int \<Rightarrow> string" where
  "show_int i = (if i < 0 then ''-'' @ show_nat (nat (- i)) else show_nat (nat i))"

definition newline :: string where
  "newline = [CHR 0x0A]"

definition clean_name :: "string \<Rightarrow> string" where
  "clean_name s = map (\<lambda>c. if c \<in> set ''/.+-@%&~'' then CHR ''_'' else c) s"

text \<open>\<open>v.append(x)\<close> for the list \<open>v or []\<close> that the variable holds.\<close>

definition append_name :: "nat \<Rightarrow> python \<Rightarrow> string \<Rightarrow> string \<Rightarrow> unit ds" where
  "append_name n py var x =
     mbind (getVar n py var False) (\<lambda>v.
     mbind (mlift (py_append x (or_names v))) (\<lambda>v. setVar n py var v False))"

definition define_anonymous :: "nat \<Rightarrow> python \<Rightarrow> string \<Rightarrow> string \<Rightarrow> unit ds" where
  "define_anonymous n py funcname text =
     mthen (mlift (py_define py funcname text)) (append_name n py ''__BBANONFUNCS'' funcname)"

definition eval_method :: "nat \<Rightarrow> python \<Rightarrow> string \<Rightarrow> nat \<Rightarrow> string \<Rightarrow> string list \<Rightarrow> bool \<Rightarrow> bool \<Rightarrow> unit ds" where
  "eval_method n py filename lineno func body is_python fakeroot =
     (let anonymous = (func = ''__anonymous'');
          funcname = (if anonymous then ''__anon_'' @ show_nat lineno @ ''_'' @ clean_name filename else func);
          text = (if anonymous then ''def '' @ funcname @ ''(d):'' @ newline else []) @ join newline body
      in mthen (if anonymous then define_anonymous n py funcname text else mreturn ())
         (mbind (getVar n py funcname False) (\<lambda>old.
          mthen (if truthy old then mupd (delVarFlag funcname ''fakeroot'' \<circ> delVarFlag funcname ''python'') else mreturn ())
          (mthen (if is_python \<or> anonymous then setVarFlag n py funcname ''python'' (Text ''1'') else mreturn ())
          (mthen (if fakeroot then setVarFlag n py funcname ''fakeroot'' (Text ''1'') else mreturn ())
          (mthen (setVarFlag n py funcname ''func'' (Num 1))
          (mthen (setVar n py funcname (Text text) True)
          (mthen (setVarFlag n py funcname ''filename'' (Text filename))
             (setVarFlag n py funcname ''lineno'' (Text (show_int (int lineno - int (length body)))))))))))))"

definition eval_python_method :: "nat \<Rightarrow> python \<Rightarrow> string \<Rightarrow> nat \<Rightarrow> string \<Rightarrow> string \<Rightarrow> string list \<Rightarrow> unit ds" where
  "eval_python_method n py filename lineno func modulename body =
     (let text = join newline body
      in mthen (mlift (py_define py modulename text))
         (mthen (setVarFlag n py func ''func'' (Num 1))
         (mthen (setVarFlag n py func ''python'' (Num 1))
         (mthen (setVar n py func (Text text) True)
         (mthen (setVarFlag n py func ''filename'' (Text filename))
            (setVarFlag n py func ''lineno'' (Text (show_int (int lineno - int (length body) - 1)))))))))"

definition export_sentinel :: string where
  "export_sentinel = ''    # Export function set'' @ newline"

definition copy_flag :: "nat \<Rightarrow> python \<Rightarrow> string \<Rightarrow> string \<Rightarrow> string \<Rightarrow> unit ds" where
  "copy_flag n py source target flag =
     mbind (raw_flag n py source flag) (\<lambda>v.
       if truthy v then mbind (raw_flag n py source flag) (\<lambda>v. setVarFlag n py target flag (case v of None \<Rightarrow> Null | Some w \<Rightarrow> w))
       else mreturn ())"

definition export_body :: "nat \<Rightarrow> python \<Rightarrow> string \<Rightarrow> string \<Rightarrow> string \<Rightarrow> unit ds" where
  "export_body n py classname func calledfunc =
     mbind (raw_flag n py calledfunc ''python'') (\<lambda>v.
       if truthy v
       then setVar n py func (Text (export_sentinel @ ''    bb.build.exec_func('' @ [CHR 0x27] @ calledfunc @ [CHR 0x27] @ '', d)'' @ newline)) True
       else if CHR ''-'' \<in> set classname then mraise (Fatal (''The classname '' @ classname @ '' contains a dash character''))
       else setVar n py func (Text (export_sentinel @ ''    '' @ calledfunc @ newline)) True)"

definition export_func :: "nat \<Rightarrow> python \<Rightarrow> string \<Rightarrow> string \<Rightarrow> unit ds" where
  "export_func n py classname func =
     (let calledfunc = classname @ ''_'' @ func
      in mbind (getVar n py func False) (\<lambda>basevar.
         mbind (mlift (if truthy basevar then py_in export_sentinel (the basevar) else Inr True)) (\<lambda>ours.
           if \<not> ours then mreturn ()
           else mbind (getVar n py func False) (\<lambda>old.
             mthen (if truthy old
                    then mthen (setVarFlag n py func ''python'' Null) (setVarFlag n py func ''func'' Null) else mreturn ())
             (mthen (mfor (copy_flag n py calledfunc func) [''func'', ''python''])
             (mthen (mfor (copy_flag n py func calledfunc) [''dirs'', ''cleandirs'', ''fakeroot''])
             (mthen (setVarFlag n py func ''filename'' (Text ''autogenerated''))
             (mthen (setVarFlag n py func ''lineno'' (Num 1))
                (export_body n py classname func calledfunc)))))))))"

section \<open>Other statements\<close>

definition delete_tasks :: "nat \<Rightarrow> python \<Rightarrow> string \<Rightarrow> unit ds" where
  "delete_tasks n py tasks = mbind (expand_name n py tasks) (\<lambda>t. mfor (deltask n py) (words t))"

definition add_handler :: "nat \<Rightarrow> python \<Rightarrow> string \<Rightarrow> val \<Rightarrow> val ds" where
  "add_handler n py h bbhands =
     mbind (mlift (py_append h bbhands)) (\<lambda>bbhands. mthen (setVarFlag n py h ''handler'' (Num 1)) (mreturn bbhands))"

definition add_handlers :: "nat \<Rightarrow> python \<Rightarrow> string list \<Rightarrow> unit ds" where
  "add_handlers n py hs =
     mbind (getVar n py ''__BBHANDLERS'' False) (\<lambda>v.
     mbind (mfold (add_handler n py) hs (or_names v)) (\<lambda>v. setVar n py ''__BBHANDLERS'' v False))"

definition defer_inherit :: "nat \<Rightarrow> python \<Rightarrow> string \<times> string \<times> nat \<Rightarrow> unit ds" where
  "defer_inherit n py entry =
     mbind (getVar n py ''__BBDEFINHERITS'' False) (\<lambda>v.
     mbind (mlift (if \<not> truthy v then Inr (Inherits [entry])
                   else case v of Some (Inherits es) \<Rightarrow> Inr (Inherits (es @ [entry])) | _ \<Rightarrow> Inl AttributeError)) (\<lambda>v.
       setVar n py ''__BBDEFINHERITS'' v False))"

text \<open>The statements that work on the store alone. Those that read other files come with the files; extending the
  path of Python modules is outside the model.\<close>

definition eval_simple :: "nat \<Rightarrow> python \<Rightarrow> node \<Rightarrow> unit ds" where
  "eval_simple n py nd =
     (let fn = nd_file nd; line = nd_line nd in
      case nd_what nd of
        Assign g \<Rightarrow> eval_assign n py g
      | Export var \<Rightarrow> setVarFlag n py var ''export'' (Num 1)
      | Unset var \<Rightarrow> mupd (delVar var)
      | UnsetFlag var flag \<Rightarrow> mupd (delVarFlag var flag)
      | Method func body is_python fakeroot \<Rightarrow> eval_method n py fn line func body is_python fakeroot
      | PythonMethod func modulename body \<Rightarrow> eval_python_method n py fn line func modulename body
      | ExportFuncs fns classname \<Rightarrow> mfor (export_func n py classname) fns
      | AddTask tasks before after \<Rightarrow> mfor (\<lambda>t. addtask n py t (Some before) (Some after)) (words tasks)
      | DelTask tasks \<Rightarrow> delete_tasks n py tasks
      | BBHandlers hs \<Rightarrow> add_handlers n py hs
      | InheritDeferred classes \<Rightarrow> defer_inherit n py (classes, fn, line)
      | _ \<Rightarrow> mreturn ())"

end
