(* ===== verification/Paths.thy ===== *)
theory Paths
  imports PyString
begin

text \<open>
  The functions of Python's \<open>posixpath\<close> that the parser and the fetcher call, and \<open>bb.utils.which\<close>.
\<close>

section \<open>Paths\<close>

definition slash :: char where
  "slash = CHR ''/''"

definition isabs :: "string \<Rightarrow> bool" where
  "isabs p = prefix ''/'' p"

definition path_join :: "string \<Rightarrow> string \<Rightarrow> string" where
  "path_join a b = (if isabs b then b else if a = [] \<or> last a = slash then a @ b else a @ [slash] @ b)"

definition basename :: "string \<Rightarrow> string" where
  "basename p = last (split_on slash p)"

definition dirname :: "string \<Rightarrow> string" where
  "dirname p =
     (let head = (case rsplit1 slash p of None \<Rightarrow> [] | Some (a, b) \<Rightarrow> a @ [slash]);
          bare = rev (dropWhile (\<lambda>c. c = slash) (rev head))
      in if bare = [] then head else bare)"

text \<open>The extension starts at the last dot of the last part, unless only dots come before it.\<close>

definition splitext :: "string \<Rightarrow> string \<times> string" where
  "splitext p =
     (case rsplit1 CHR ''.'' (basename p) of
        None \<Rightarrow> (p, [])
      | Some (a, b) \<Rightarrow>
          if set a \<subseteq> {CHR ''.''} then (p, []) else (take (length p - Suc (length b)) p, CHR ''.'' # b))"

fun norm_parts :: "string list \<Rightarrow> string list \<Rightarrow> string list" where
  "norm_parts out [] = rev out"
| "norm_parts out (p # ps) =
     (if p = [] \<or> p = ''.'' then norm_parts out ps
      else if p = ''..'' then norm_parts (tl out) ps
      else norm_parts (p # out) ps)"

text \<open>\<open>os.path.abspath\<close>; two slashes at the front are kept, as POSIX allows them a meaning of their own.\<close>

definition abspath :: "string \<Rightarrow> string \<Rightarrow> string" where
  "abspath cwd p =
     (let p = path_join cwd p;
          front = (if prefix ''//'' p \<and> \<not> prefix ''///'' p then ''//'' else ''/'')
      in front @ join [slash] (norm_parts [] (split_on slash p)))"

section \<open>Searching a list of directories\<close>

text \<open>\<open>bb.utils.which\<close> with its history, over the directories in the given order.\<close>

fun which_in :: "(string \<Rightarrow> bool) \<Rightarrow> string \<Rightarrow> string list \<Rightarrow> string \<Rightarrow> string \<times> string list" where
  "which_in ok cwd [] item = ([], [])"
| "which_in ok cwd (p # ps) item =
     (let f = path_join p item
      in if ok f then (if isabs f then f else abspath cwd f, [f])
         else case which_in ok cwd ps item of (r, hist) \<Rightarrow> (r, f # hist))"

definition which :: "(string \<Rightarrow> bool) \<Rightarrow> string \<Rightarrow> string \<Rightarrow> string \<Rightarrow> bool \<Rightarrow> string \<times> string list" where
  "which ok cwd path item backwards =
     (let paths = split_on CHR '':'' path in which_in ok cwd (if backwards then rev paths else paths) item)"

text \<open>The first candidate that will do is taken, and every candidate up to it was tried.\<close>

lemma which_in_first:
  "which_in ok cwd ps item =
     (let fs = map (\<lambda>p. path_join p item) ps
      in case find ok fs of
           None \<Rightarrow> ([], fs)
         | Some f \<Rightarrow> (if isabs f then f else abspath cwd f, takeWhile (\<lambda>f. \<not> ok f) fs @ [f]))"
  by (induction ps) (auto simp: Let_def split: option.splits)

lemma path_samples:
  "path_join ''conf'' ''a.conf'' = ''conf/a.conf''" "path_join ''/x/'' ''a'' = ''/x/a''" "path_join ''/x'' ''/a'' = ''/a''"
  "basename ''/x/a.bb'' = ''a.bb''" "dirname ''/x/a.bb'' = ''/x''" "dirname ''/a'' = ''/''" "dirname ''a'' = []"
  "splitext ''/x.y/a_1.0.bb'' = (''/x.y/a_1.0'', ''.bb'')" "splitext ''..conf'' = (''..conf'', [])"
  "abspath ''/w/d'' ''../a/./b'' = ''/w/a/b''"
  by code_simp+

end
