(* ===== verification/ParseFiles.thy ===== *)
theory ParseFiles
  imports Statements Paths
begin

text \<open>
  Reading and evaluating files: \<open>bb/parse/__init__.py\<close>, the handlers of \<open>ConfHandler.py\<close> and \<open>BBHandler.py\<close>, and the
  statements of \<open>ast.py\<close> that go on to other files.

  The files are a parameter that does not change during a parse, so a dependency is kept without the time stamp
  that goes with it. Warnings and the history of includes are left out.
\<close>

section \<open>Files and the state of a parse\<close>

text \<open>\<open>fl_read\<close> gives the lines or the error of \<open>open\<close>; \<open>fl_fnmatch\<close> and \<open>fl_match\<close> are \<open>fnmatchcase\<close> and \<open>re.match\<close>,
  \<open>fl_import\<close> is \<open>__import__\<close>.\<close>

record files =
  fl_cwd :: string
  fl_exists :: "string \<Rightarrow> bool"
  fl_isfile :: "string \<Rightarrow> bool"
  fl_read :: "string \<Rightarrow> string list res"
  fl_fnmatch :: "string \<Rightarrow> string \<Rightarrow> bool"
  fl_match :: "string \<Rightarrow> string \<Rightarrow> bool"
  fl_import :: "string \<Rightarrow> unit res"

text \<open>The store, whether \<open>__infunc__\<close> is set, and the statements of the classes and includes read before.\<close>

record pstate =
  ps_store :: dstore
  ps_open :: bool
  ps_cached :: "(string, node list) dict"

type_synonym 'a ps = "(pstate, 'a) meth"

definition in_store :: "'a ds \<Rightarrow> 'a ps" where
  "in_store m s = (case m (ps_store s) of (r, d) \<Rightarrow> (r, s\<lparr>ps_store := d\<rparr>))"

definition not_found :: exn where
  "not_found = OSError ''ENOENT''"

section \<open>Dependencies on files\<close>

definition mark_dependency :: "files \<Rightarrow> nat \<Rightarrow> python \<Rightarrow> string \<Rightarrow> unit ds" where
  "mark_dependency fs n py f =
     (let f = (if prefix ''./'' f then fl_cwd fs @ ''/'' @ drop 2 f else f)
      in mbind (getVar n py ''__depends'' False) (\<lambda>v.
         mbind (mlift (py_in f (or_names v))) (\<lambda>b.
           if b then mreturn ()
           else mbind (mlift (py_append f (or_names v))) (\<lambda>v. setVar n py ''__depends'' v False))))"

text \<open>\<open>(path or "").split(':')\<close>, as the argument of \<open>which\<close>.\<close>

definition path_text :: "val option \<Rightarrow> string res" where
  "path_text v = (if \<not> truthy v then Inr [] else case v of Some (Text t) \<Rightarrow> Inr t | _ \<Rightarrow> Inl AttributeError)"

definition which_file :: "files \<Rightarrow> string \<Rightarrow> string \<Rightarrow> string \<times> string list" where
  "which_file fs path f = which (fl_exists fs) (fl_cwd fs) path f False"

definition resolve_file :: "files \<Rightarrow> nat \<Rightarrow> python \<Rightarrow> string \<Rightarrow> string ds" where
  "resolve_file fs n py fn =
     mbind (if isabs fn then mthen (mark_dependency fs n py fn) (mreturn fn)
            else mbind (getVar n py ''BBPATH'' True) (\<lambda>bbpath.
                 mbind (mlift (path_text bbpath)) (\<lambda>path.
                 case which_file fs path fn of (newfn, attempts) \<Rightarrow>
                   mthen (mfor (mark_dependency fs n py) attempts)
                     (if newfn = [] then mraise not_found else mreturn newfn))))
       (\<lambda>fn. if fl_isfile fs fn then mreturn fn else mraise not_found)"

section \<open>The handlers\<close>

definition load_statements :: "files \<Rightarrow> string \<Rightarrow> string \<Rightarrow> string \<Rightarrow> string \<Rightarrow> node list ps" where
  "load_statements fs fn abs_fn base_name classname =
     mread (\<lambda>s. case map_of (ps_cached s) abs_fn of
        Some sts \<Rightarrow> mreturn sts
      | None \<Rightarrow>
          mbind (mlift (fl_read fs abs_fn)) (\<lambda>ls.
          mbind (mlift (get_statements fn base_name classname ls)) (\<lambda>(sts, infunc).
          mthen (mupd (\<lambda>s. s\<lparr>ps_open := infunc\<rparr>))
          (mthen (if suffix ''.bbclass'' fn \<or> suffix ''.inc'' fn
                  then mupd (\<lambda>s. s\<lparr>ps_cached := AList.update abs_fn sts (ps_cached s)\<rparr>) else mreturn ())
             (mreturn sts)))))"

text \<open>Here and below \<open>ev\<close> evaluates the statements of a file.\<close>

type_synonym evaluator = "node list \<Rightarrow> unit ps"

definition note_inherited :: "nat \<Rightarrow> python \<Rightarrow> string \<Rightarrow> unit ds" where
  "note_inherited n py fn =
     mbind (getVar n py ''__inherit_cache'' False) (\<lambda>v.
     mbind (mlift (py_in fn (or_names v))) (\<lambda>b.
       if b then mreturn ()
       else mbind (mlift (py_append fn (or_names v))) (\<lambda>v. setVar n py ''__inherit_cache'' v False)))"

text \<open>The evaluation of a file ends at a request to skip the recipe; the result tells whether there was one.\<close>

definition until_skipped :: "nat \<Rightarrow> python \<Rightarrow> unit ps \<Rightarrow> bool ps" where
  "until_skipped n py m =
     mcatch (mthen m (mreturn False))
       (\<lambda>e. case e of SkipRecipe msg \<Rightarrow> mthen (in_store (setVar n py ''__SKIPPED'' Truth False)) (mreturn True) | _ \<Rightarrow> mraise e)"

definition bb_handle :: "evaluator \<Rightarrow> files \<Rightarrow> nat \<Rightarrow> python \<Rightarrow> string \<Rightarrow> bool \<Rightarrow> bool ps" where
  "bb_handle ev fs n py fn include =
     (let base_name = basename fn; (root, ext) = splitext base_name; is_class = (ext = ''.bbclass'')
      in mthen (mupd (\<lambda>s. s\<lparr>ps_open := False\<rparr>))
         (mthen (if is_class then in_store (note_inherited n py fn) else mreturn ())
         (mbind (if include then in_store (getVar n py ''FILE'' False) else mreturn None) (\<lambda>oldfile.
          mbind (in_store (resolve_file fs n py fn)) (\<lambda>abs_fn.
          mbind (load_statements fs fn abs_fn base_name (if is_class then root else [])) (\<lambda>statements.
          let changed = (\<not> is_class \<and> oldfile \<noteq> Some (Text abs_fn))
          in mthen (if changed then in_store (setVar n py ''FILE'' (Text abs_fn) False) else mreturn ())
             (mbind (until_skipped n py (ev statements)) (\<lambda>skipped.
              if skipped \<and> \<not> include then mreturn True
              else mread (\<lambda>s.
                if ps_open s then mraise (ParseError ''Shell function is never closed'')
                else mthen (if include \<and> changed \<and> truthy oldfile then in_store (setVar n py ''FILE'' (the oldfile) False) else mreturn ())
                  (mreturn False))))))))))"

definition conf_handle :: "evaluator \<Rightarrow> files \<Rightarrow> nat \<Rightarrow> python \<Rightarrow> string \<Rightarrow> bool \<Rightarrow> bool \<Rightarrow> unit ps" where
  "conf_handle ev fs n py fn include baseconfig =
     mbind (if include then in_store (getVar n py ''FILE'' False) else mreturn None) (\<lambda>oldfile.
     mbind (in_store (resolve_file fs n py fn)) (\<lambda>abs_fn.
     mbind (mlift (fl_read fs abs_fn)) (\<lambda>ls.
     mbind (mlift (parse_conf abs_fn baseconfig ls)) (\<lambda>statements.
     mthen (in_store (setVar n py ''FILE'' (Text abs_fn) False))
     (mthen (ev statements)
       (if truthy oldfile then in_store (setVar n py ''FILE'' (the oldfile) False) else mreturn ()))))))"

definition is_conf_file :: "string \<Rightarrow> bool" where
  "is_conf_file fn = suffix ''.conf'' fn"

definition is_bb_file :: "string \<Rightarrow> bool" where
  "is_bb_file fn = (snd (splitext fn) \<in> {''.bb'', ''.bbclass'', ''.inc''})"

definition parse_handle :: "evaluator \<Rightarrow> files \<Rightarrow> nat \<Rightarrow> python \<Rightarrow> string \<Rightarrow> bool \<Rightarrow> bool \<Rightarrow> bool ps" where
  "parse_handle ev fs n py fn include baseconfig =
     (if is_conf_file fn then mthen (conf_handle ev fs n py fn include baseconfig) (mreturn False)
      else if is_bb_file fn then bb_handle ev fs n py fn include
      else mraise (ParseError (''not a BitBake file: '' @ fn)))"

section \<open>Statements that read other files\<close>

text \<open>\<open>h\<close> handles another file. \<open>error_out\<close> is the verb of the error message, if a file that is not there is an error.\<close>

type_synonym handler = "string \<Rightarrow> unit ps"

definition find_included :: "files \<Rightarrow> nat \<Rightarrow> python \<Rightarrow> string \<Rightarrow> string \<Rightarrow> string ds" where
  "find_included fs n py parentfn fn =
     (if isabs fn then mreturn fn
      else mbind (getVar n py ''BBPATH'' True) (\<lambda>bbpath.
        let shown = (case bbpath of None \<Rightarrow> ''None'' | Some (Text t) \<Rightarrow> t | Some v \<Rightarrow> py_str py v)
        in case which_file fs (dirname parentfn @ '':'' @ shown) fn of
             (abs_fn, attempts) \<Rightarrow>
               mthen (mfor (mark_dependency fs n py) attempts) (mreturn (if abs_fn = [] then fn else abs_fn))))"

definition include_single_file :: "handler \<Rightarrow> files \<Rightarrow> nat \<Rightarrow> python \<Rightarrow> string \<Rightarrow> string option \<Rightarrow> string \<Rightarrow> unit ps" where
  "include_single_file h fs n py parentfn error_out fn =
     (if parentfn = fn then mreturn ()
      else mbind (in_store (find_included fs n py parentfn fn)) (\<lambda>fn.
        mcatch (h fn) (\<lambda>e. case e of
            OSError msg \<Rightarrow>
              (if e = not_found
               then (case error_out of Some verb \<Rightarrow> mraise (ParseError (''Could not '' @ verb @ '' file '' @ fn)) | None \<Rightarrow> mreturn ())
               else mraise (ParseError (''Error parsing '' @ fn)))
          | _ \<Rightarrow> mraise e)))"

definition include_files :: "handler \<Rightarrow> files \<Rightarrow> nat \<Rightarrow> python \<Rightarrow> string \<Rightarrow> string option \<Rightarrow> string \<Rightarrow> unit ps" where
  "include_files h fs n py parentfn error_out fns =
     mbind (in_store (expand_name n py fns)) (\<lambda>fns.
     mbind (in_store (expand_name n py parentfn)) (\<lambda>parentfn.
       mfor (include_single_file h fs n py parentfn error_out) (words fns)))"

definition eval_include :: "handler \<Rightarrow> files \<Rightarrow> nat \<Rightarrow> python \<Rightarrow> string \<Rightarrow> bool \<Rightarrow> string \<Rightarrow> unit ps" where
  "eval_include h fs n py filename force what =
     mbind (in_store (expand_name n py what)) (\<lambda>s.
       include_files h fs n py filename (if force then Some ''include required'' else None) s)"

definition eval_include_all :: "handler \<Rightarrow> files \<Rightarrow> nat \<Rightarrow> python \<Rightarrow> string \<Rightarrow> string \<Rightarrow> unit ps" where
  "eval_include_all h fs n py filename what =
     mbind (in_store (expand_name n py what)) (\<lambda>s.
     mbind (in_store (getVar n py ''BBPATH'' True)) (\<lambda>bbpath.
       case bbpath of
         Some (Text t) \<Rightarrow> mfor (\<lambda>path. include_files h fs n py filename None (path_join path s)) (split_on CHR '':'' t)
       | _ \<Rightarrow> mraise AttributeError))"

text \<open>The file of a class in the directory \<open>t\<close>.\<close>

definition class_file :: "files \<Rightarrow> nat \<Rightarrow> python \<Rightarrow> string \<Rightarrow> string \<Rightarrow> string ds" where
  "class_file fs n py cls t =
     (let file = (if \<not> isabs cls \<and> \<not> suffix ''.bbclass'' cls then path_join t (cls @ ''.bbclass'') else cls)
      in if isabs file then mreturn file
         else mbind (getVar n py ''BBPATH'' True) (\<lambda>bbpath.
              mbind (mlift (path_text bbpath)) (\<lambda>path.
              case which_file fs path file of (abs_fn, attempts) \<Rightarrow>
                mthen (mfor (\<lambda>af. if af = abs_fn then mreturn () else mark_dependency fs n py af) attempts)
                  (mreturn (if abs_fn = [] then file else abs_fn)))))"

definition find_class :: "files \<Rightarrow> nat \<Rightarrow> python \<Rightarrow> string \<Rightarrow> string ds" where
  "find_class fs n py cls =
     mbind (getVar n py ''__bbclasstype'' False) (\<lambda>classtype.
     mbind (mlift (case classtype of Some (Text t) \<Rightarrow> Inr t | _ \<Rightarrow> Inl TypeError)) (\<lambda>classtype.
     mbind (class_file fs n py cls (''classes-'' @ classtype)) (\<lambda>file.
     mbind (if fl_exists fs file then mreturn file else class_file fs n py cls ''classes'') (\<lambda>file.
       if fl_exists fs file then mreturn file else mraise (ParseError (''Could not inherit file '' @ file))))))"

definition inherit_file :: "handler \<Rightarrow> files \<Rightarrow> nat \<Rightarrow> python \<Rightarrow> string \<Rightarrow> val \<Rightarrow> val ps" where
  "inherit_file h fs n py cls inherited =
     mbind (in_store (find_class fs n py cls)) (\<lambda>file.
     mbind (mlift (py_in file inherited)) (\<lambda>b.
       if b then mreturn inherited
       else mbind (mlift (py_append file inherited)) (\<lambda>inherited.
         mthen (in_store (setVar n py ''__inherit_cache'' inherited False))
         (mthen (mcatch (h file) (\<lambda>e. case e of OSError msg \<Rightarrow> mraise (ParseError ''Could not inherit file'') | _ \<Rightarrow> mraise e))
         (mbind (in_store (getVar n py ''__inherit_cache'' False)) (\<lambda>v. mreturn (or_names v)))))))"

definition eval_inherit :: "handler \<Rightarrow> files \<Rightarrow> nat \<Rightarrow> python \<Rightarrow> string \<Rightarrow> unit ps" where
  "eval_inherit h fs n py classes =
     mbind (in_store (getVar n py ''__inherit_cache'' False)) (\<lambda>v.
     mbind (in_store (expand_name n py classes)) (\<lambda>names.
       mthen (mfold (inherit_file h fs n py) (words names) (or_names v)) (mreturn ())))"

end
