(* ===== verification/ParseEval.thy ===== *)
theory ParseEval
  imports ParseFiles
begin

text \<open>
  The evaluation of all statements, and a file with everything it includes and inherits. Files include each other
  without a bound that the code checks, so the depth is bounded by fuel; what Python does at its own limit on calls is
  not modelled.
\<close>

section \<open>Layers\<close>

definition or_text :: "val option \<Rightarrow> string res" where
  "or_text v = (if \<not> truthy v then Inr [] else case v of Some (Text t) \<Rightarrow> Inr t | _ \<Rightarrow> Inl TypeError)"

definition get_collection_res :: "nat \<Rightarrow> python \<Rightarrow> (string, string) dict ds" where
  "get_collection_res n py =
     mbind (getVar n py ''BBFILE_COLLECTIONS'' True) (\<lambda>v.
     mbind (mlift (text_words v)) (\<lambda>cs.
       mfold (\<lambda>c res. mbind (getVar n py (''BBFILE_PATTERN_'' @ c) True) (\<lambda>v.
         mbind (mlift (or_text v)) (\<lambda>t. mreturn (AList.update c t res)))) cs []))"

text \<open>The layer with the longest pattern that matches; of several, the first.\<close>

definition path_to_layer :: "files \<Rightarrow> (string, string) dict \<Rightarrow> string \<Rightarrow> string option" where
  "path_to_layer fs collections path =
     snd (fold (\<lambda>(collection, pattern) (matchlen, found).
         if length pattern > matchlen \<and> fl_match fs pattern path then (length pattern, Some collection) else (matchlen, found))
       collections (0, None))"

definition get_file_layer :: "files \<Rightarrow> nat \<Rightarrow> python \<Rightarrow> string \<Rightarrow> string option ds" where
  "get_file_layer fs n py filename =
     mbind (get_collection_res n py) (\<lambda>collections.
     mbind (getVar n py ''BBFILES_PRIORITIZED'' True) (\<lambda>v.
     mbind (mlift (text_words v)) (\<lambda>bbfiles.
       mreturn (path_to_layer fs collections (case find (fl_fnmatch fs filename) bbfiles of Some entry \<Rightarrow> entry | None \<Rightarrow> filename)))))"

section \<open>Fragments and modules\<close>

fun find_fragment :: "files \<Rightarrow> nat \<Rightarrow> python \<Rightarrow> string \<Rightarrow> string \<Rightarrow> string list \<Rightarrow> string option ds" where
  "find_fragment fs n py layerid name [] = mreturn None"
| "find_fragment fs n py layerid name (layerpath # ls) =
     (let candidate = path_join layerpath name
      in if \<not> fl_exists fs candidate then find_fragment fs n py layerid name ls
         else mbind (get_file_layer fs n py candidate) (\<lambda>l.
           if l = Some layerid then mreturn (Some candidate) else find_fragment fs n py layerid name ls))"

definition keep_as_flag :: "nat \<Rightarrow> python \<Rightarrow> string \<Rightarrow> string \<Rightarrow> unit ds" where
  "keep_as_flag n py fragment var =
     mbind (getVar n py var True) (\<lambda>v.
     mthen (setVarFlag n py var fragment (case v of None \<Rightarrow> Null | Some w \<Rightarrow> w))
       (setVar n py var Null False))"

definition add_fragment :: "handler \<Rightarrow> files \<Rightarrow> nat \<Rightarrow> python \<Rightarrow> string \<Rightarrow> string \<Rightarrow> val option \<Rightarrow> string list \<Rightarrow> string \<Rightarrow> unit ps" where
  "add_fragment h fs n py filename path_prefix layers flagged f =
     (case split_on CHR ''/'' f of
        layerid # part # parts \<Rightarrow>
          mbind (in_store (expand_name n py (path_prefix @ ''/'' @ join ''/'' (part # parts) @ ''.conf''))) (\<lambda>name.
          mbind (in_store (mbind (mlift (case layers of Some (Text t) \<Rightarrow> Inr (words t) | _ \<Rightarrow> Inl AttributeError))
                   (find_fragment fs n py layerid name))) (\<lambda>found.
            case found of
              None \<Rightarrow> mreturn ()
            | Some path \<Rightarrow>
                mthen (include_files h fs n py filename (Some ''include fragment'') path)
                  (in_store (mfor (keep_as_flag n py f) flagged))))
      | _ \<Rightarrow> mraise (ValueError ''not enough values to unpack''))"

definition eval_add_fragments :: "handler \<Rightarrow> files \<Rightarrow> nat \<Rightarrow> python \<Rightarrow> string \<Rightarrow> string \<Rightarrow> string \<Rightarrow> string \<Rightarrow> unit ps" where
  "eval_add_fragments h fs n py filename path_prefix fragments_variable flagged_variable =
     mbind (in_store (getVar n py fragments_variable True)) (\<lambda>fragments.
     mbind (in_store (getVar n py ''BBLAYERS'' True)) (\<lambda>layers.
     mbind (in_store (getVar n py flagged_variable True)) (\<lambda>flagged.
     mbind (mlift (case flagged of Some (Text t) \<Rightarrow> Inr (words t) | _ \<Rightarrow> Inl AttributeError)) (\<lambda>flagged.
     mbind (mlift (text_words fragments)) (\<lambda>fragments.
       mfor (add_fragment h fs n py filename path_prefix layers flagged) fragments)))))"

definition eval_pylib :: "files \<Rightarrow> nat \<Rightarrow> python \<Rightarrow> string \<Rightarrow> string \<Rightarrow> unit ds" where
  "eval_pylib fs n py libdir namespace =
     mbind (getVar n py ''BB_GLOBAL_PYMODULES'' True) (\<lambda>v.
     mbind (mlift (text_words v)) (\<lambda>ms.
     mthen (mfor (\<lambda>m. mlift (fl_import fs m)) ms)
     (mbind (expand_name n py libdir) (\<lambda>_.
       mcatch (mlift (fl_import fs namespace)) (\<lambda>e. if e = AttributeError then mreturn () else mraise e)))))"

section \<open>Files\<close>

definition eval_node :: "handler \<Rightarrow> files \<Rightarrow> nat \<Rightarrow> python \<Rightarrow> node \<Rightarrow> unit ps" where
  "eval_node h fs n py nd =
     (case nd_what nd of
        Include what force \<Rightarrow> eval_include h fs n py (nd_file nd) force what
      | IncludeAll what \<Rightarrow> eval_include_all h fs n py (nd_file nd) what
      | Inherit classes \<Rightarrow> eval_inherit h fs n py classes
      | AddFragments path_prefix fragments flagged \<Rightarrow> eval_add_fragments h fs n py (nd_file nd) path_prefix fragments flagged
      | PyLib libdir namespace \<Rightarrow> in_store (eval_pylib fs n py libdir namespace)
      | _ \<Rightarrow> in_store (eval_simple n py nd))"

definition eval_nodes :: "handler \<Rightarrow> files \<Rightarrow> nat \<Rightarrow> python \<Rightarrow> evaluator" where
  "eval_nodes h fs n py = mfor (eval_node h fs n py)"

text \<open>A file that is read from another one.\<close>

primrec handle_nested :: "nat \<Rightarrow> files \<Rightarrow> nat \<Rightarrow> python \<Rightarrow> handler" where
  "handle_nested 0 fs n py fn = mraise OutOfFuel"
| "handle_nested (Suc k) fs n py fn =
     mthen (parse_handle (eval_nodes (handle_nested k fs n py) fs n py) fs n py fn True False) (mreturn ())"

definition handle :: "nat \<Rightarrow> files \<Rightarrow> nat \<Rightarrow> python \<Rightarrow> string \<Rightarrow> bool \<Rightarrow> bool \<Rightarrow> bool ps" where
  "handle k fs n py = parse_handle (eval_nodes (handle_nested k fs n py) fs n py) fs n py"

definition inherit :: "nat \<Rightarrow> files \<Rightarrow> nat \<Rightarrow> python \<Rightarrow> string \<Rightarrow> unit ps" where
  "inherit k fs n py = eval_inherit (handle_nested k fs n py) fs n py"

end
