(* ===== verification/AssignSpec.thy ===== *)
theory AssignSpec
  imports ParseEval TaskSpec
begin

text \<open>
  What reading a configuration file does, as a specification: each line changes one flag of one variable, by a rule
  for each operator that looks at the old value of that flag only.
\<close>

section \<open>The specification\<close>

type_synonym flag_values = "string \<Rightarrow> string \<Rightarrow> val option"

definition flag_read :: "assignment \<Rightarrow> string" where
  "flag_read g = (case gd_flag g of None \<Rightarrow> ''_content'' | Some flag \<Rightarrow> flag)"

definition flag_written :: "assignment \<Rightarrow> string" where
  "flag_written g =
     (if gd_op g \<noteq> LazyOp then flag_read g
      else case gd_flag g of None \<Rightarrow> ''_defaultval'' | Some flag \<Rightarrow> ''_defaultval_flag_'' @ flag)"

fun combined :: "python \<Rightarrow> assign_op \<Rightarrow> val option \<Rightarrow> string \<Rightarrow> val" where
  "combined py QuesOp (Some v) new = v"
| "combined py AppendOp old new = Text (shown_or_empty py old @ '' '' @ new)"
| "combined py PrependOp old new = Text (new @ '' '' @ shown_or_empty py old)"
| "combined py PostdotOp old new = Text (shown_or_empty py old @ new)"
| "combined py PredotOp old new = Text (new @ shown_or_empty py old)"
| "combined py o' old new = Text new"

definition assign_values :: "python \<Rightarrow> assignment \<Rightarrow> flag_values \<Rightarrow> flag_values" where
  "assign_values py g r =
     r(gd_var g := (r (gd_var g))(flag_written g := as_value (combined py (gd_op g) (r (gd_var g) (flag_read g)) (gd_value g))))"

text \<open>The assignments that change nothing else: no operation in the name, no export, no name that was renamed and none
  that overrides depend on, and no expansion while parsing.\<close>

definition simple_assign :: "string list \<Rightarrow> string list \<Rightarrow> assignment \<Rightarrow> bool" where
  "simple_assign renames overridevars g \<longleftrightarrow>
     \<not> gd_exp g \<and> split_keyword (gd_var g) = None \<and> \<not> old_syntax (gd_var g) \<and>
     before_colon (gd_var g) \<notin> set renames \<and> gd_var g \<notin> set renames \<and> gd_var g \<notin> set overridevars \<and>
     gd_var g \<noteq> ''BB_RENAMED_VARIABLES'' \<and>
     (case gd_flag g of None \<Rightarrow> True | Some flag \<Rightarrow> flag \<notin> {[], ''_content'', ''_defaultval'', ''export'', ''unexport''}) \<and>
     (gd_op g = ColonOp \<longrightarrow> \<not> contains ''${'' (gd_value g))"

section \<open>Reading and writing\<close>

lemma find_overrides [simp]: "flags_of (setvar_update_overrides var d) = flags_of d"
proof -
  have below: "ds_below (fold (note_override var) es d) = ds_below d" for es
    by (induction es arbitrary: d) (auto simp: note_override_def)
  show ?thesis by (rule ext) (simp add: flags_of_def find_var_def setvar_update_overrides_def fold_dict below)
qed

lemma renames_fields [simp]:
  "ds_renames (clear_cache d) = ds_renames d" "ds_renames (make_shadow_copy var d) = ds_renames d"
  "ds_renames (put_flags var fs d) = ds_renames d" "ds_overridevars (clear_cache d) = ds_overridevars d"
  "ds_overridevars (put_flag var flag v d) = ds_overridevars d" "ds_renames (put_flag var flag v d) = ds_renames d"
  by (auto simp: clear_cache_def make_shadow_copy_def put_flags_def init_var_def put_flag_def Let_def split: option.split list.split)

lemma renames_overrides [simp]: "ds_renames (setvar_update_overrides var d) = ds_renames d"
proof -
  have "ds_renames (fold (note_override var) es d) = ds_renames d" for es
    by (induction es arbitrary: d) (auto simp: note_override_def)
  then show ?thesis by (simp add: setvar_update_overrides_def)
qed

lemma lookup_written:
  assumes "flag \<noteq> []" and "flag \<noteq> ''_content'' \<or> parsing"
  shows "getVarFlag (Suc n) py var flag False True parsing False d = (Inr (raw_value d var flag, None), d)"
proof -
  have "plain_value (find_var d var) flag True = raw_value d var flag"
    by (auto simp: plain_value_def raw_value_def flags_of_def has_key_def split: option.split)
  then have "fresh_lookup n py look var flag False True parsing False d = (Inr (raw_value d var flag, None), d)" for look
    using assms(2) by (auto simp: fresh_lookup_def Let_def apply_removes_def store_parse_def mbind_eval mthen_eval meth_defs)
  then show ?thesis using assms(1) by (simp add: lookup_body_def meth_defs split: option.split)
qed

lemma old_value_eval:
  assumes "case gd_flag g of None \<Rightarrow> True | Some flag \<Rightarrow> flag \<noteq> [] \<and> flag \<noteq> ''_content''"
  shows "old_value (Suc n) py g d = (Inr (raw_value d (gd_var g) (flag_read g)), d)"
  using assms by (cases "gd_flag g") (simp_all add: old_value_def flag_read_def mbind_eval meth_defs lookup_written del: getVarFlag.simps)

lemma expand_plain:
  assumes "\<not> contains ''${'' s"
  shows "expandWithRefs (Suc k) py look (Some (Text s)) varname d =
    (Inr \<lparr>vp_unexpanded = Some (Text s), vp_value = Some (Text s), vp_refs = [], vp_execs = [], vp_contains = [], vp_removes = None\<rparr>, d)"
  using assms by (simp add: expandWithRefs_def mbind_eval meth_defs)

lemma assigned_value_eval:
  assumes "case gd_flag g of None \<Rightarrow> True | Some flag \<Rightarrow> flag \<noteq> [] \<and> flag \<noteq> ''_content''"
    and "gd_op g = ColonOp \<longrightarrow> \<not> contains ''${'' (gd_value g)"
  shows "assigned_value (Suc n) py g d = (Inr (combined py (gd_op g) (raw_value d (gd_var g) (flag_read g)) (gd_value g)), d)"
  using assms(2) old_value_eval [OF assms(1)]
  by (cases "gd_op g"; cases "raw_value d (gd_var g) (flag_read g)")
    (simp_all add: assigned_value_def expand_in_copy_def expand_plain mbind_eval meth_defs)

text \<open>\<open>writes m var flag v d\<close>: from \<open>d\<close>, \<open>m\<close> returns, and only that flag of that variable has changed.\<close>

definition writes :: "unit ds \<Rightarrow> string \<Rightarrow> string \<Rightarrow> val \<Rightarrow> dstore \<Rightarrow> bool" where
  "writes m var flag v d \<longleftrightarrow>
     (\<exists>d'. m d = (Inr (), d') \<and> raw_value d' = (raw_value d)(var := (raw_value d var)(flag := as_value v)) \<and>
       ds_renames d' = ds_renames d \<and> ds_overridevars d' = ds_overridevars d)"

lemma raw_flags:
  "flags_of d' = (flags_of d)(var := AList.update flag v (flags_of d var)) \<Longrightarrow>
     raw_value d' = (raw_value d)(var := (raw_value d var)(flag := as_value v))"
  by (intro ext) (simp add: raw_value_def update_conv')

lemma setVar_writes:
  assumes "split_keyword var = None" "\<not> old_syntax var" "before_colon var \<notin> set (ds_renames d)" "var \<notin> set (ds_overridevars d)"
  shows "writes (setVar n py var v True) var ''_content'' v d"
proof -
  let ?e = "make_shadow_copy var (clear_cache d)"
  let ?d = "put_content var v (if CHR '':'' \<in> set var then setvar_update_overrides var ?e else ?e)"
  have fields: "ds_overridevars ?d = ds_overridevars d" "ds_renames ?d = ds_renames d" by (simp_all add: put_content_def)
  then have plain: "plain_set n py var v True (clear_cache d) = (Inr (), ?d)"
    using assms(4) by (simp add: plain_set_def update_if_overridevar_def mthen_eval meth_defs)
  have result: "setVar n py var v True d = (Inr (), ?d)"
    using assms(2,3) by (simp add: setVar_plain [OF assms(1)] check_renamed_def mthen_eval meth_defs plain)
  have own: "own_flags (setvar_update_overrides var ?e) var = flags_of d var"
    using own_shadow [of var "clear_cache d"] by (simp add: own_flags_def setvar_update_overrides_def fold_dict)
  have "flags_of ?d = (flags_of d)(var := AList.update ''_content'' v (flags_of d var))"
    using own own_shadow [of var "clear_cache d"] by (simp add: put_content_def)
  then show ?thesis
    unfolding writes_def using result fields raw_flags by (intro exI [of _ ?d]) blast
qed

lemma setVarFlag_writes:
  assumes "var \<notin> set (ds_renames d)" "var \<noteq> ''BB_RENAMED_VARIABLES''" "var \<notin> set (ds_overridevars d)" "flag \<noteq> ''export''" "flag \<noteq> ''unexport''"
  shows "writes (setVarFlag n py var flag v) var flag v d"
proof -
  let ?e = "put_flag var flag v (clear_cache d)"
  let ?d = "if flag = ''_defaultval'' \<and> CHR '':'' \<in> set var then setvar_update_overrides var ?e else ?e"
  have fields: "ds_overridevars ?d = ds_overridevars d" "ds_renames ?d = ds_renames d" by simp_all
  have result: "setVarFlag n py var flag v d = (Inr (), ?d)"
    using assms fields(1)
    by (simp add: setVarFlag_def note_rename_def check_renamed_def update_if_overridevar_def mthen_eval meth_defs comp_def)
  have "flags_of ?d = (flags_of d)(var := AList.update flag v (flags_of d var))" by simp
  then show ?thesis
    unfolding writes_def using result fields raw_flags by (intro exI [of _ ?d]) blast
qed

lemma eval_assign_writes:
  assumes "simple_assign (ds_renames d) (ds_overridevars d) g"
  shows "writes (eval_assign (Suc n) py g) (gd_var g) (flag_written g)
    (combined py (gd_op g) (raw_value d (gd_var g) (flag_read g)) (gd_value g)) d"
proof -
  let ?v = "combined py (gd_op g) (raw_value d (gd_var g) (flag_read g)) (gd_value g)"
  have v: "assigned_value (Suc n) py g d = (Inr ?v, d)"
    using assms by (intro assigned_value_eval) (auto simp: simple_assign_def split: option.splits)
  show ?thesis
  proof (cases "assigned_flag g")
    case None
    then have "flag_written g = ''_content''" by (auto simp: assigned_flag_def flag_written_def flag_read_def split: option.splits if_splits)
    then show ?thesis
      using assms setVar_writes [of "gd_var g" d "Suc n" py ?v] None v
      by (simp add: writes_def eval_assign_def simple_assign_def mbind_eval mthen_eval meth_defs)
  next
    case (Some flag)
    then have f: "flag = flag_written g" "flag \<noteq> []" "flag \<noteq> ''export''" "flag \<noteq> ''unexport''"
      using assms by (auto simp: assigned_flag_def flag_written_def flag_read_def simple_assign_def split: option.splits if_splits)
    from f(2) obtain c cs where "flag = c # cs" by (meson neq_Nil_conv)
    then show ?thesis
      using assms setVarFlag_writes [of "gd_var g" d flag "Suc n" py ?v] Some v f
      by (simp add: writes_def eval_assign_def simple_assign_def mbind_eval mthen_eval meth_defs)
  qed
qed


section \<open>Variables without overrides and operations\<close>

definition direct :: "string \<Rightarrow> dstore \<Rightarrow> bool" where
  "direct var d \<longleftrightarrow> map_of (ds_overridedata d) var = None \<and>
     (\<forall>k\<in>set ([''_defaultval'', ''_defaultval_flag__content''] @ op_keywords). map_of (flags_of d var) k = None)"

definition plain_name :: "string \<Rightarrow> bool" where
  "plain_name var \<longleftrightarrow> split_keyword var = None \<and> \<not> old_syntax var \<and> CHR '':'' \<notin> set var"

lemma before_colon_plain: "plain_name var \<Longrightarrow> before_colon var = var"
  by (auto simp: plain_name_def before_colon_def takeWhile_eq_all_conv)

lemma flags_other [simp]: "flags_of (d\<lparr>ds_overrides := os\<rparr>) = flags_of d"
  by (rule ext) (simp add: flags_of_def find_var_def)

lemma getVar_direct:
  assumes "direct var d"
  shows "getVar (Suc n) py var False d = (Inr (raw_value d var ''_content''), d)"
proof -
  let ?local = "find_var d var"
  have k: "map_of (flags_of d var) k = None" if "k \<in> set ([''_defaultval'', ''_defaultval_flag__content''] @ op_keywords)" for k
    using assms that unfolding direct_def by blast
  have v: "plain_value ?local ''_content'' False = raw_value d var ''_content''"
    using k [of "''_defaultval''"] k [of "''_defaultval_flag__content''"]
    by (auto simp: plain_value_def raw_value_def flags_of_def has_key_def split: option.splits)
  have o: "with_ops look ?local j f x = mreturn x" if "j \<in> {'':append'', '':prepend''}" for look j f and x :: "val option"
    using k [of "'':append''"] k [of "'':prepend''"] that by (auto simp: with_ops_def flags_of_def op_keywords_def split: option.splits)
  have r: "with_ops look ?local '':remove'' f x = mreturn x" for look f and x :: "val list"
    using k [of "'':remove''"] by (auto simp: with_ops_def flags_of_def op_keywords_def split: option.splits)
  have "map_of (ds_overridedata d) var = None" using assms by (simp add: direct_def)
  then have "fresh_lookup n py look var ''_content'' False False False False d = (Inr (raw_value d var ''_content'', None), d)" for look
    by (simp add: fresh_lookup_def Let_def override_value_def v o r apply_removes_def share_removes_def store_parse_def mbind_eval mthen_eval meth_defs)
  then show ?thesis by (simp add: getVar_def lookup_body_def mbind_eval meth_defs split: option.split)
qed

text \<open>Setting such a variable; if overrides depend on it, the text must have no references.\<close>

lemma setVar_direct:
  assumes "direct var d" and "plain_name var" and "var \<notin> set (ds_renames d)"
    and "var \<in> set (ds_overridevars d) \<longrightarrow> (\<exists>s. v = Text s \<and> \<not> contains ''${'' s)"
  shows "\<exists>d'. setVar (Suc n) py var v False d = (Inr (), d') \<and> flags_of d' = (flags_of d)(var := flags_of d' var) \<and>
    direct var d' \<and> raw_value d' var ''_content'' = as_value v \<and>
    ds_renames d' = ds_renames d \<and> ds_overridevars d' = ds_overridevars d \<and> ds_overridedata d' = ds_overridedata d"
proof -
  let ?fs = "AList.update ''_content'' v (filter (\<lambda>(flag, v). flag \<notin> set op_keywords) (flags_of d var))"
  let ?e = "make_shadow_copy var (clear_cache d)"
  let ?d = "put_content var v (drop_ops var ?e)"
  let ?last = "if var \<in> set (ds_overridevars d) then clear_cache (?d\<lparr>ds_overrides := None\<rparr>) else ?d"
  have data: "ds_overridedata (clear_cache d) = ds_overridedata d" "ds_overridedata ?d = ds_overridedata d" "ds_overridevars ?d = ds_overridevars d"
    by (simp_all add: clear_cache_def put_content_def drop_ops_def)
  have "map_of (ds_overridedata d) var = None" using assms(1) by (simp add: direct_def)
  then have active: "drop_active (Suc n) py var (drop_ops var ?e) = (Inr (), drop_ops var ?e)"
    by (simp add: drop_active_def meth_defs drop_ops_def put_flags_def has_key_def data(1))
  have vars: "update_if_overridevar (Suc n) py var var v ?d = (Inr (), ?last)"
    using assms(4) data(3)
    by (auto simp: update_if_overridevar_def setvar_update_overridevars_def expand_plain parse_names_def sunion_def dkeys_def
        mbind_eval mthen_eval meth_defs simp del: getVarFlag.simps)
  have "plain_set (Suc n) py var v False (clear_cache d) = (Inr (), ?last)"
    using assms(2) by (simp add: plain_set_def plain_name_def mthen_eval meth_defs active vars del: getVarFlag.simps)
  then have result: "setVar (Suc n) py var v False d = (Inr (), ?last)"
    using assms(2,3) setVar_plain [of var "Suc n" py v False]
    by (simp add: plain_name_def before_colon_plain [OF assms(2)] check_renamed_def mthen_eval meth_defs)
  have flags: "flags_of ?last = (flags_of d)(var := ?fs)"
    using own_shadow [of var "clear_cache d"] by (simp add: put_content_def drop_ops_def)
  have "direct var ?last"
    using assms(1) data by (auto simp: direct_def flags update_conv' map_of_filter_key op_keywords_def clear_cache_def)
  then show ?thesis
    using result flags data by (intro exI [of _ ?last]) (auto simp: raw_value_def update_conv' put_content_def drop_ops_def clear_cache_def)
qed


section \<open>A configuration file\<close>

text \<open>A store in which \<open>FILE\<close> and the list of files read are kept as the parser expects.\<close>

definition parser_store :: "dstore \<Rightarrow> bool" where
  "parser_store d \<longleftrightarrow> direct ''FILE'' d \<and> direct ''__depends'' d \<and> ''FILE'' \<notin> set (ds_renames d) \<and> ''__depends'' \<notin> set (ds_renames d) \<and>
     ''__depends'' \<notin> set (ds_overridevars d) \<and> names_only (raw_value d ''__depends'' ''_content'')"

text \<open>\<open>leaves vs d d'\<close>: nothing but these variables has changed, and they are kept as before.\<close>

definition leaves :: "string list \<Rightarrow> dstore \<Rightarrow> dstore \<Rightarrow> bool" where
  "leaves vs d d' \<longleftrightarrow> (\<forall>u. u \<notin> set vs \<longrightarrow> flags_of d' u = flags_of d u) \<and> parser_store d' \<and>
     ds_renames d' = ds_renames d \<and> ds_overridevars d' = ds_overridevars d"

lemma leaves_raw: "leaves vs d d' \<Longrightarrow> u \<notin> set vs \<Longrightarrow> raw_value d' u = raw_value d u"
  by (intro ext) (simp add: leaves_def raw_value_def)

lemma direct_frame: "direct var d \<Longrightarrow> flags_of d' var = flags_of d var \<Longrightarrow> ds_overridedata d' = ds_overridedata d \<Longrightarrow> direct var d'"
  by (simp add: direct_def)

lemma mark_dependency_eval:
  assumes "parser_store d"
  shows "\<exists>d'. mark_dependency fs (Suc n) py f d = (Inr (), d') \<and> leaves [''__depends''] d d'"
proof -
  let ?var = "''__depends''" and ?g = "if prefix ''./'' f then fl_cwd fs @ ''/'' @ drop 2 f else f"
  let ?xs = "names_of (raw_value d ?var ''_content'')"
  note p = assms [unfolded parser_store_def]
  have get: "getVar (Suc n) py ?var False d = (Inr (raw_value d ?var ''_content''), d)"
    using p by (intro getVar_direct) blast
  have names: "or_names (raw_value d ?var ''_content'') = Names ?xs" using p by (intro or_names_only) blast
  show ?thesis
  proof (cases "?g \<in> set ?xs")
    case True
    then have "mark_dependency fs (Suc n) py f d = (Inr (), d)"
      by (simp add: mark_dependency_def Let_def mbind_eval meth_defs get names del: getVarFlag.simps)
    then show ?thesis using assms by (simp add: leaves_def)
  next
    case False
    have plain: "plain_name ?var" by code_simp
    obtain d' where d': "setVar (Suc n) py ?var (Names (?xs @ [?g])) False d = (Inr (), d')"
        "flags_of d' = (flags_of d)(?var := flags_of d' ?var)" "direct ?var d'" "raw_value d' ?var ''_content'' = as_value (Names (?xs @ [?g]))"
        "ds_renames d' = ds_renames d" "ds_overridevars d' = ds_overridevars d" "ds_overridedata d' = ds_overridedata d"
      using setVar_direct [of ?var d "Names (?xs @ [?g])" n py] p plain by blast
    have others: "flags_of d' u = flags_of d u" if "u \<noteq> ?var" for u using d'(2) that by (metis fun_upd_apply)
    have "direct ''FILE'' d'" using p others [of "''FILE''"] d'(7) by (blast intro: direct_frame list.distinct)
    then have "parser_store d'" using p d' by (simp add: parser_store_def names_only_def)
    moreover have "mark_dependency fs (Suc n) py f d = (Inr (), d')"
      using False d'(1) by (simp add: mark_dependency_def Let_def mbind_eval meth_defs get names del: getVarFlag.simps)
    ultimately show ?thesis using d'(5,6) others by (auto simp: leaves_def)
  qed
qed

lemma set_FILE:
  assumes "parser_store d" and "\<not> contains ''${'' fn"
  shows "\<exists>d'. setVar (Suc n) py ''FILE'' (Text fn) False d = (Inr (), d') \<and> leaves [''FILE''] d d'"
proof -
  note p = assms(1) [unfolded parser_store_def]
  have plain: "plain_name ''FILE''" by code_simp
  obtain d' where d': "setVar (Suc n) py ''FILE'' (Text fn) False d = (Inr (), d')"
      "flags_of d' = (flags_of d)(''FILE'' := flags_of d' ''FILE'')" "direct ''FILE'' d'"
      "ds_renames d' = ds_renames d" "ds_overridevars d' = ds_overridevars d" "ds_overridedata d' = ds_overridedata d"
    using setVar_direct [of "''FILE''" d "Text fn" n py] p plain assms(2) by blast
  have others: "flags_of d' u = flags_of d u" if "u \<noteq> ''FILE''" for u using d'(2) that by (metis fun_upd_apply)
  then have "direct ''__depends'' d'" "raw_value d' ''__depends'' ''_content'' = raw_value d ''__depends'' ''_content''"
    using p d'(6) direct_frame [of "''__depends''" d d'] by (simp_all add: raw_value_def)
  then show ?thesis using p d' others by (auto simp: leaves_def parser_store_def)
qed

lemma eval_assigns:
  assumes "list_all (simple_assign (ds_renames d) (ds_overridevars d)) gs"
  shows "\<exists>d'. eval_nodes h fs (Suc n) py (assign_nodes fn m gs) (s\<lparr>ps_store := d\<rparr>) = (Inr (), s\<lparr>ps_store := d'\<rparr>) \<and>
    raw_value d' = fold (assign_values py) gs (raw_value d)"
  using assms
proof (induction gs arbitrary: d m)
  case Nil
  then show ?case by (auto simp: eval_nodes_def meth_defs)
next
  case (Cons g gs)
  obtain d1 where d1: "eval_assign (Suc n) py g d = (Inr (), d1)" "raw_value d1 = assign_values py g (raw_value d)"
      "ds_renames d1 = ds_renames d" "ds_overridevars d1 = ds_overridevars d"
    using eval_assign_writes [of d g n py] Cons.prems by (auto simp: writes_def assign_values_def)
  obtain d' where "eval_nodes h fs (Suc n) py (assign_nodes fn (Suc m) gs) (s\<lparr>ps_store := d1\<rparr>) = (Inr (), s\<lparr>ps_store := d'\<rparr>)"
      "raw_value d' = fold (assign_values py) gs (raw_value d1)"
    using Cons.IH [of d1 "Suc m"] Cons.prems d1(3,4) by auto
  then show ?case
    using d1 by (intro exI [of _ d']) (simp add: eval_nodes_def eval_node_def eval_simple_def in_store_def mthen_eval)
qed

lemma assign_values_other: "gd_var g \<noteq> u \<Longrightarrow> assign_values py g r u = r u"
  by (simp add: assign_values_def)

lemma fold_assign_local: "r u = r' u \<Longrightarrow> fold (assign_values py) gs r u = fold (assign_values py) gs r' u"
proof (induction gs arbitrary: r r')
  case (Cons g gs)
  have "assign_values py g r u = assign_values py g r' u"
    using Cons.prems by (cases "gd_var g = u") (simp_all add: assign_values_def)
  then show ?case using Cons.IH [of "assign_values py g r" "assign_values py g r'"] by simp
qed simp

text \<open>C20: reading a configuration file with one assignment in a line changes the store as the rules for the operators
  say, line by line, whatever the store held; besides these variables only \<open>FILE\<close> and the list of files read change.\<close>

theorem conf_file_assigns:
  assumes "is_conf_file fn" "isabs fn" "fl_isfile fs fn" "\<not> contains ''${'' fn"
    and "fl_read fs fn = Inr (map print_assign gs)" "list_all printable gs"
    and "list_all (simple_assign (ds_renames (ps_store s)) (ds_overridevars (ps_store s))) gs"
    and "parser_store (ps_store s)"
  shows "\<exists>s'. handle k fs (Suc n) py fn False baseconfig s = (Inr False, s') \<and>
    (\<forall>var. var \<noteq> ''FILE'' \<and> var \<noteq> ''__depends'' \<longrightarrow>
      raw_value (ps_store s') var = fold (assign_values py) gs (raw_value (ps_store s)) var)"
proof -
  let ?nodes = "assign_nodes fn 1 gs"
  obtain d1 where d1: "mark_dependency fs (Suc n) py fn (ps_store s) = (Inr (), d1)" "leaves [''__depends''] (ps_store s) d1"
    using mark_dependency_eval [OF assms(8)] by blast
  have resolve: "resolve_file fs (Suc n) py fn (ps_store s) = (Inr fn, d1)"
    using assms(2,3) d1(1) by (simp add: resolve_file_def mbind_eval mthen_eval meth_defs)
  obtain d2 where d2: "setVar (Suc n) py ''FILE'' (Text fn) False d1 = (Inr (), d2)" "leaves [''FILE''] d1 d2"
    using set_FILE [OF _ assms(4), of d1 n py] d1(2) by (auto simp only: leaves_def)
  have "ds_renames d2 = ds_renames (ps_store s)" "ds_overridevars d2 = ds_overridevars (ps_store s)"
    using d1(2) d2(2) by (simp_all add: leaves_def)
  then obtain d3 where d3: "eval_nodes (handle_nested k fs (Suc n) py) fs (Suc n) py ?nodes (s\<lparr>ps_store := d2\<rparr>) = (Inr (), s\<lparr>ps_store := d3\<rparr>)"
      "raw_value d3 = fold (assign_values py) gs (raw_value d2)"
    using eval_assigns [of d2 gs "handle_nested k fs (Suc n) py" fs n py fn 1 s] assms(7) by auto
  have lines: "parse_conf fn baseconfig (map print_assign gs) = Inr ?nodes"
    unfolding parse_conf_def using assms(6) by (rule conf_lines_print)
  have "handle k fs (Suc n) py fn False baseconfig s = (Inr False, s\<lparr>ps_store := d3\<rparr>)"
    using assms(1) by (simp add: handle_def parse_handle_def conf_handle_def in_store_def resolve assms(5) lines d2(1) d3(1)
        mbind_eval mthen_eval meth_defs del: getVarFlag.simps One_nat_def)
  moreover have "raw_value d3 var = fold (assign_values py) gs (raw_value (ps_store s)) var" if "var \<noteq> ''FILE''" "var \<noteq> ''__depends''" for var
    unfolding d3(2) using that leaves_raw [OF d1(2), of var] leaves_raw [OF d2(2), of var] by (intro fold_assign_local) simp
  ultimately show ?thesis by (intro exI [of _ "s\<lparr>ps_store := d3\<rparr>"]) simp
qed


definition sample_assigns :: "assignment list" where
  "sample_assigns =
     [\<lparr>gd_exp = False, gd_var = ''A'', gd_flag = None, gd_op = QuesOp, gd_value = ''x''\<rparr>,
      \<lparr>gd_exp = False, gd_var = ''A'', gd_flag = None, gd_op = AppendOp, gd_value = ''y''\<rparr>,
      \<lparr>gd_exp = False, gd_var = ''B'', gd_flag = Some ''doc'', gd_op = SetOp, gd_value = ''d''\<rparr>,
      \<lparr>gd_exp = False, gd_var = ''A'', gd_flag = None, gd_op = PredotOp, gd_value = ''0''\<rparr>]"

definition sample_files :: files where
  "sample_files =
     \<lparr>fl_cwd = ''/'', fl_exists = (\<lambda>f. f = ''/c.conf''), fl_isfile = (\<lambda>f. f = ''/c.conf''),
      fl_read = (\<lambda>f. if f = ''/c.conf'' then Inr (map print_assign sample_assigns) else Inl not_found),
      fl_fnmatch = (=), fl_match = (\<lambda>r s. prefix r s), fl_import = (\<lambda>m. Inr ())\<rparr>"

definition sample_start :: pstate where
  "sample_start = \<lparr>ps_store = new_store, ps_open = False, ps_cached = []\<rparr>"

lemma conf_file_assigns_witness:
  "\<exists>s'. handle 0 sample_files 1 sample_python ''/c.conf'' False False sample_start = (Inr False, s') \<and>
     raw_value (ps_store s') ''A'' ''_content'' = Some (Text ''0x y'') \<and> raw_value (ps_store s') ''B'' ''doc'' = Some (Text ''d'')"
proof -
  have a: "is_conf_file ''/c.conf''" "isabs ''/c.conf''" "\<not> contains ''${'' ''/c.conf''" by code_simp+
  have f: "fl_isfile sample_files ''/c.conf''" "fl_read sample_files ''/c.conf'' = Inr (map print_assign sample_assigns)"
    by (simp_all add: sample_files_def)
  have g: "list_all printable sample_assigns"
    "list_all (simple_assign (ds_renames (ps_store sample_start)) (ds_overridevars (ps_store sample_start))) sample_assigns"
    by code_simp+
  have none: "raw_value (ps_store sample_start) = (\<lambda>var flag. None)"
    by (intro ext) (simp add: raw_value_def flags_of_def find_var_def sample_start_def new_store_def)
  have p: "parser_store (ps_store sample_start)"
    by (simp add: parser_store_def direct_def none names_only_def)
      (simp add: flags_of_def find_var_def sample_start_def new_store_def bitbake_renamed_vars_def)
  obtain s' where s': "handle 0 sample_files (Suc 0) sample_python ''/c.conf'' False False sample_start = (Inr False, s')"
      "\<And>var. var \<noteq> ''FILE'' \<Longrightarrow> var \<noteq> ''__depends'' \<Longrightarrow>
        raw_value (ps_store s') var = fold (assign_values sample_python) sample_assigns (\<lambda>var flag. None) var"
    using conf_file_assigns [OF a(1,2) f(1) a(3) f(2) g p, of 0 0 sample_python False] unfolding none by blast
  then show ?thesis
    by (intro exI [of _ s'])
      (simp add: sample_assigns_def assign_values_def flag_written_def flag_read_def shown_or_empty_def)
qed

end
