(* ===== verification/Events.thy ===== *)
theory Events
  imports Statements
begin

text \<open>
  Events: \<open>bb/event.py\<close>. Handlers that classes register for kinds of events, and the queue of events that waits for a
  user interface. What a handler does is a parameter, as is what happens when its code is compiled. The kind of an event
  is the name of its class.
\<close>

section \<open>Handlers of classes\<close>

text \<open>A handler that could not be compiled is \<open>None\<close>, which does nothing.\<close>

record registry =
  rg_handlers :: "(string, nat option) dict"
  rg_catchall :: "string list"
  rg_masks :: "(string, string list) dict"

record event_env =
  ee_compile :: "string \<Rightarrow> string \<Rightarrow> nat res"
  ee_run :: "nat \<Rightarrow> string \<Rightarrow> unit ds"

datatype handler_source = NoHandler | Code string | Function nat

type_synonym 'a ev = "(registry \<times> dstore, 'a) meth"

definition ev_store :: "'a ds \<Rightarrow> 'a ev" where
  "ev_store m s = (case s of (rg, d) \<Rightarrow> (case m d of (r, d') \<Rightarrow> (r, (rg, d'))))"

definition ev_registry :: "(registry \<Rightarrow> registry) \<Rightarrow> unit ev" where
  "ev_registry f = mupd (\<lambda>(rg, d). (f rg, d))"

definition handler_name :: "nat \<Rightarrow> python \<Rightarrow> string \<Rightarrow> string ds" where
  "handler_name n py name =
     mbind (getVar n py ''BB_CURRENT_MC'' True) (\<lambda>mc.
       if \<not> truthy mc then mreturn name
       else case mc of Some (Text t) \<Rightarrow> mreturn (map (\<lambda>c. if c = CHR ''-'' then CHR ''_'' else c) t @ name) | _ \<Rightarrow> mraise AttributeError)"

text \<open>The set in the store of the handlers of this configuration.\<close>

definition names_set :: "val option \<Rightarrow> string list res" where
  "names_set v = (if \<not> truthy v then Inr [] else case v of Some (Names xs) \<Rightarrow> Inr xs | _ \<Rightarrow> Inl AttributeError)"

definition note_handler :: "nat \<Rightarrow> python \<Rightarrow> string \<Rightarrow> unit ds" where
  "note_handler n py name =
     mbind (getVar n py ''__BBHANDLERS_MC'' True) (\<lambda>v.
     mbind (mlift (names_set v)) (\<lambda>xs. setVar n py ''__BBHANDLERS_MC'' (Names (sadd name xs)) False))"

definition put_handler :: "string \<Rightarrow> nat option \<Rightarrow> registry \<Rightarrow> registry" where
  "put_handler name h rg = rg\<lparr>rg_handlers := AList.update name h (rg_handlers rg)\<rparr>"

definition put_mask :: "string \<Rightarrow> string list \<Rightarrow> registry \<Rightarrow> registry" where
  "put_mask name evmask rg =
     (if evmask = [] \<or> ''*'' \<in> set evmask then rg\<lparr>rg_catchall := sadd name (rg_catchall rg)\<rparr>
      else rg\<lparr>rg_masks := fold (\<lambda>m masks. AList.update m (sadd name (dget masks m [])) masks) evmask (rg_masks rg)\<rparr>)"

text \<open>\<open>with_data\<close>: whether a store was given. The result tells whether the handler was registered now.\<close>

definition register :: "event_env \<Rightarrow> nat \<Rightarrow> python \<Rightarrow> string \<Rightarrow> handler_source \<Rightarrow> string list \<Rightarrow> bool \<Rightarrow> bool ev" where
  "register env n py name source evmask with_data =
     mbind (if with_data then ev_store (handler_name n py name) else mreturn name) (\<lambda>name.
     mread (\<lambda>(rg, d).
       let note = (if with_data then ev_store (note_handler n py name) else mreturn ());
           add = (\<lambda>h. mthen (ev_registry (put_mask name evmask \<circ> put_handler name (Some h))) (mthen note (mreturn True)))
       in if has_key (rg_handlers rg) name then mthen note (mreturn False)
          else case source of
                 NoHandler \<Rightarrow> mreturn False
               | Function h \<Rightarrow> add h
               | Code text \<Rightarrow>
                   (case ee_compile env name text of
                      Inr h \<Rightarrow> add h
                    | Inl (SyntaxError msg) \<Rightarrow> mthen (ev_registry (put_handler name None)) (mreturn False)
                    | Inl e \<Rightarrow> mraise e)))"

definition drop_handler :: "string \<Rightarrow> registry \<Rightarrow> registry" where
  "drop_handler name rg =
     rg\<lparr>rg_handlers := AList.delete name (rg_handlers rg), rg_catchall := removeAll name (rg_catchall rg),
        rg_masks := map (\<lambda>(e, names). (e, removeAll name names)) (rg_masks rg)\<rparr>"

definition forget_handler :: "nat \<Rightarrow> python \<Rightarrow> string \<Rightarrow> unit ds" where
  "forget_handler n py name =
     mbind (getVar n py ''__BBHANDLERS_MC'' True) (\<lambda>v.
     mbind (mlift (names_set v)) (\<lambda>xs.
       if name \<in> set xs then setVar n py ''__BBHANDLERS_MC'' (Names (removeAll name xs)) False else mreturn ()))"

definition remove_handler :: "nat \<Rightarrow> python \<Rightarrow> string \<Rightarrow> bool \<Rightarrow> unit ev" where
  "remove_handler n py name with_data =
     mbind (if with_data then ev_store (handler_name n py name) else mreturn name) (\<lambda>name.
     mread (\<lambda>(rg, d).
       if \<not> has_key (rg_handlers rg) name then mraise (KeyError name)
       else mthen (ev_registry (drop_handler name))
              (if with_data then ev_store (forget_handler n py name) else mreturn ())))"

definition set_handlers :: "(string, nat option) dict \<Rightarrow> registry \<Rightarrow> registry" where
  "set_handlers hs rg = rg\<lparr>rg_handlers := hs\<rparr>"

definition listens :: "registry \<Rightarrow> string \<Rightarrow> string \<Rightarrow> bool" where
  "listens rg eid name \<longleftrightarrow> name \<in> set (rg_catchall rg) \<or> name \<in> set (dget (rg_masks rg) eid [])"

definition call_handler :: "event_env \<Rightarrow> nat \<Rightarrow> python \<Rightarrow> string \<Rightarrow> bool \<Rightarrow> string \<times> nat option \<Rightarrow> unit ev" where
  "call_handler env n py eid with_data e =
     (case e of (name, h) \<Rightarrow>
      mread (\<lambda>(rg, d).
        if \<not> listens rg eid name then mreturn ()
        else mbind (if with_data
                    then ev_store (mbind (getVar n py ''__BBHANDLERS_MC'' True) (\<lambda>v. mbind (mlift (names_set v)) (\<lambda>xs. mreturn (name \<in> set xs))))
                    else mreturn True) (\<lambda>here.
             if \<not> here then mreturn ()
             else case h of None \<Rightarrow> mreturn () | Some h \<Rightarrow> ev_store (ee_run env h eid))))"

definition fire_class_handlers :: "event_env \<Rightarrow> nat \<Rightarrow> python \<Rightarrow> string \<Rightarrow> bool \<Rightarrow> unit ev" where
  "fire_class_handlers env n py eid with_data = mread (\<lambda>(rg, d). mfor (call_handler env n py eid with_data) (rg_handlers rg))"

section \<open>User interfaces\<close>

text \<open>A message of the log with the name and level it has, or an event with its kind; both carry what tells them apart.\<close>

datatype event = LogRecord string nat string | Event string string

record ui_filter =
  uf_mask :: "string list"
  uf_level :: nat
  uf_domains :: "(string, nat) dict"

fun filter_event :: "ui_filter \<Rightarrow> event \<Rightarrow> bool" where
  "filter_event f (LogRecord name level msg) \<longleftrightarrow>
     uf_level f \<le> level \<or> (case map_of (uf_domains f) name of Some l \<Rightarrow> l \<le> level | None \<Rightarrow> False)"
| "filter_event f (Event eid what) \<longleftrightarrow> uf_mask f = [] \<or> eid \<in> set (uf_mask f)"

text \<open>\<open>ui_sent\<close> records what was sent to which interface.\<close>

record ui_state =
  ui_handlers :: "nat list"
  ui_filters :: "(nat, ui_filter) dict"
  ui_seq :: nat
  ui_ready :: "nat option"
  ui_queue :: "event list"
  ui_sent :: "(nat \<times> event) list"

definition register_UIHhandler :: "ui_filter \<Rightarrow> bool \<Rightarrow> ui_state \<Rightarrow> nat \<times> ui_state" where
  "register_UIHhandler f mainui s =
     (let k = Suc (ui_seq s)
      in (k, s\<lparr>ui_seq := k, ui_handlers := sadd k (ui_handlers s), ui_filters := AList.update k f (ui_filters s),
               ui_ready := (if mainui then Some k else ui_ready s)\<rparr>))"

definition unregister_UIHhandler :: "nat \<Rightarrow> bool \<Rightarrow> ui_state \<Rightarrow> ui_state" where
  "unregister_UIHhandler k mainui s =
     (let s = (if mainui then s\<lparr>ui_ready := None\<rparr> else s) in s\<lparr>ui_handlers := removeAll k (ui_handlers s)\<rparr>)"

definition set_UIHmask :: "nat \<Rightarrow> nat \<Rightarrow> (string, nat) dict \<Rightarrow> string list \<Rightarrow> ui_state \<Rightarrow> bool \<times> ui_state" where
  "set_UIHmask k level domains evmask s =
     (if k \<notin> set (ui_handlers s) then (False, s)
      else (True, s\<lparr>ui_filters := AList.update k \<lparr>uf_mask = (if ''*'' \<in> set evmask then [] else evmask), uf_level = level, uf_domains = domains\<rparr> (ui_filters s)\<rparr>))"

text \<open>An interface to which sending fails is dropped after the event; \<open>works\<close> tells which sends succeed.\<close>

definition passes :: "ui_state \<Rightarrow> event \<Rightarrow> nat \<Rightarrow> bool" where
  "passes s e h = (case map_of (ui_filters s) h of None \<Rightarrow> False | Some f \<Rightarrow> filter_event f e)"

definition send_event :: "(nat \<Rightarrow> event \<Rightarrow> bool) \<Rightarrow> event \<Rightarrow> ui_state \<Rightarrow> ui_state" where
  "send_event works e s =
     (let errors = filter (\<lambda>h. \<not> has_key (ui_filters s) h \<or> (passes s e h \<and> \<not> works h e)) (ui_handlers s);
          sent = filter (\<lambda>h. passes s e h \<and> works h e) (ui_handlers s)
      in s\<lparr>ui_handlers := filter (\<lambda>h. h \<notin> set errors) (ui_handlers s), ui_sent := ui_sent s @ map (\<lambda>h. (h, e)) sent\<rparr>)"

text \<open>The queue is emptied from its end, by the function that empties it.\<close>

primrec empty_queue :: "nat \<Rightarrow> (event \<Rightarrow> ui_state \<Rightarrow> ui_state res) \<Rightarrow> ui_state \<Rightarrow> ui_state res" where
  "empty_queue 0 f s = Inl OutOfFuel"
| "empty_queue (Suc k) f s =
     (if ui_queue s = [] then Inr s
      else rbind (f (last (ui_queue s)) (s\<lparr>ui_queue := butlast (ui_queue s)\<rparr>)) (empty_queue k f))"

primrec fire_ui_handlers :: "nat \<Rightarrow> (nat \<Rightarrow> event \<Rightarrow> bool) \<Rightarrow> bool \<Rightarrow> event \<Rightarrow> ui_state \<Rightarrow> ui_state res" where
  "fire_ui_handlers 0 works locked e s = Inl OutOfFuel"
| "fire_ui_handlers (Suc k) works locked e s =
     (if ui_ready s = None \<or> locked then Inr (s\<lparr>ui_queue := ui_queue s @ [e]\<rparr>)
      else empty_queue (Suc k) (fire_ui_handlers k works locked) (send_event works e s))"

text \<open>The loop over the queue in \<open>fire\<close>, which looks at the position \<open>i\<close> of the queue as it is then.\<close>

primrec fire_queued :: "nat \<Rightarrow> nat \<Rightarrow> (event \<Rightarrow> ui_state \<Rightarrow> ui_state res) \<Rightarrow> ui_state \<Rightarrow> ui_state res" where
  "fire_queued 0 i f s = Inl OutOfFuel"
| "fire_queued (Suc k) i f s =
     (if i < length (ui_queue s) then rbind (f (ui_queue s ! i) s) (fire_queued k (Suc i) f) else Inr s)"

definition fire_ui :: "(nat \<Rightarrow> event \<Rightarrow> bool) \<Rightarrow> bool \<Rightarrow> event \<Rightarrow> ui_state \<Rightarrow> ui_state res" where
  "fire_ui works locked e s =
     (let k = length (ui_queue s) + 2; f = fire_ui_handlers k works locked
      in rbind (if ui_ready s \<noteq> None \<and> ui_queue s \<noteq> []
                then rbind (fire_queued k 0 f s) (\<lambda>s. Inr (s\<lparr>ui_queue := []\<rparr>)) else Inr s)
           (f e))"


section \<open>Who is called\<close>

lemma set_masks:
  "set (dget (fold (\<lambda>m ms. AList.update m (sadd name (dget ms m [])) ms) evs ms) eid []) =
     set (dget ms eid []) \<union> (if eid \<in> set evs then {name} else {})"
  by (induction evs arbitrary: ms) (auto simp: dget_update)

lemma listens_put_mask:
  "listens (put_mask name evs rg) eid other \<longleftrightarrow>
     listens rg eid other \<or> other = name \<and> (evs = [] \<or> ''*'' \<in> set evs \<or> eid \<in> set evs)"
  by (auto simp: listens_def put_mask_def set_masks)

lemma listens_handlers [simp]:
  "listens (put_handler name h rg) = listens rg" "listens (set_handlers hs rg) = listens rg"
  by (auto simp: listens_def fun_eq_iff put_handler_def set_handlers_def)

lemma register_plain:
  assumes "ee_compile env name text = Inr h" and "\<not> has_key (rg_handlers rg) name"
  shows "register env n py name (Code text) evs False (rg, d) = (Inr True, put_mask name evs (put_handler name (Some h) rg), d)"
  using assms by (simp add: register_def ev_registry_def mbind_eval mthen_eval meth_defs comp_def)

text \<open>Restoring the handlers after a recipe leaves the kinds of events they asked for: when the next recipe
  registers a handler of the same name for other kinds, it is called for those of both recipes.\<close>

theorem handler_masks_survive:
  assumes "ee_compile env name text = Inr h" "ee_compile env name text' = Inr h'" "\<not> has_key (rg_handlers rg) name"
    and "first \<noteq> []" "''*'' \<notin> set first" "second \<noteq> []" "''*'' \<notin> set second"
    and "\<And>eid. \<not> listens rg eid name"
  shows "\<exists>rg1 rg2. register env n py name (Code text) first False (rg, d) = (Inr True, rg1, d) \<and>
    register env n py name (Code text') second False (set_handlers (rg_handlers rg) rg1, d) = (Inr True, rg2, d) \<and>
    (\<forall>eid. listens rg2 eid name \<longleftrightarrow> eid \<in> set first \<or> eid \<in> set second)"
proof -
  let ?rg1 = "put_mask name first (put_handler name (Some h) rg)"
  let ?restored = "set_handlers (rg_handlers rg) ?rg1"
  have "\<not> has_key (rg_handlers ?restored) name" using assms(3) by (simp add: set_handlers_def)
  from register_plain [OF assms(2) this, of n py second d] register_plain [OF assms(1,3), of n py first d]
  show ?thesis using assms(4-8) by (intro exI conjI) (assumption, assumption, simp add: listens_put_mask)
qed

definition sample_event_env :: event_env where
  "sample_event_env = \<lparr>ee_compile = (\<lambda>name text. Inr (length text)), ee_run = (\<lambda>h eid. mreturn ())\<rparr>"

lemma handler_masks_survive_witness:
  "\<forall>py d. \<exists>rg1 rg2. register sample_event_env 1 py ''h'' (Code ''a'') [''bb.event.RecipeParsed''] False (\<lparr>rg_handlers = [], rg_catchall = [], rg_masks = []\<rparr>, d) = (Inr True, rg1, d) \<and>
    register sample_event_env 1 py ''h'' (Code ''bb'') [''bb.event.BuildStarted''] False (set_handlers [] rg1, d) = (Inr True, rg2, d) \<and>
    listens rg2 ''bb.event.RecipeParsed'' ''h''"
proof (intro allI)
  fix py d
  let ?rg = "\<lparr>rg_handlers = [], rg_catchall = [], rg_masks = []\<rparr>"
  have c: "ee_compile sample_event_env ''h'' ''a'' = Inr 1" "ee_compile sample_event_env ''h'' ''bb'' = Inr 2"
    by (simp_all add: sample_event_env_def)
  have k: "\<not> has_key (rg_handlers ?rg) ''h''" "\<And>eid. \<not> listens ?rg eid ''h''"
    by (simp_all add: has_key_def listens_def dget_def)
  obtain rg1 rg2 where
      "register sample_event_env 1 py ''h'' (Code ''a'') [''bb.event.RecipeParsed''] False (?rg, d) = (Inr True, rg1, d)"
      "register sample_event_env 1 py ''h'' (Code ''bb'') [''bb.event.BuildStarted''] False (set_handlers (rg_handlers ?rg) rg1, d) = (Inr True, rg2, d)"
      "\<forall>eid. listens rg2 eid ''h'' \<longleftrightarrow> eid \<in> set [''bb.event.RecipeParsed''] \<or> eid \<in> set [''bb.event.BuildStarted'']"
    using handler_masks_survive [OF c k(1) _ _ _ _ k(2), of "[''bb.event.RecipeParsed'']" "[''bb.event.BuildStarted'']" 1 py d] by auto
  then show "\<exists>rg1 rg2. register sample_event_env 1 py ''h'' (Code ''a'') [''bb.event.RecipeParsed''] False (?rg, d) = (Inr True, rg1, d) \<and>
    register sample_event_env 1 py ''h'' (Code ''bb'') [''bb.event.BuildStarted''] False (set_handlers [] rg1, d) = (Inr True, rg2, d) \<and>
    listens rg2 ''bb.event.RecipeParsed'' ''h''"
    by auto
qed

section \<open>What the user interface gets\<close>

definition deliveries :: "ui_state \<Rightarrow> event \<Rightarrow> (nat \<times> event) list" where
  "deliveries s e = map (\<lambda>h. (h, e)) (filter (passes s e) (ui_handlers s))"

definition reliable :: "(nat \<Rightarrow> event \<Rightarrow> bool) \<Rightarrow> ui_state \<Rightarrow> bool" where
  "reliable works s \<longleftrightarrow> (\<forall>h\<in>set (ui_handlers s). has_key (ui_filters s) h \<and> (\<forall>e. works h e))"

lemma send_reliable:
  assumes "reliable works s"
  shows "send_event works e s = s\<lparr>ui_sent := ui_sent s @ deliveries s e\<rparr>"
proof -
  have "filter (\<lambda>h. \<not> has_key (ui_filters s) h \<or> passes s e h \<and> \<not> works h e) (ui_handlers s) = []"
    "filter (\<lambda>h. passes s e h \<and> works h e) (ui_handlers s) = filter (passes s e) (ui_handlers s)"
    using assms by (auto simp: reliable_def filter_empty_conv intro: filter_cong)
  then show ?thesis by (simp only: send_event_def Let_def deliveries_def) simp
qed

lemma passes_fields [simp]: "passes (s\<lparr>ui_queue := q\<rparr>) = passes s" "passes (s\<lparr>ui_sent := t\<rparr>) = passes s"
  by (simp_all add: passes_def fun_eq_iff)

lemma other_fields [simp]:
  "deliveries (s\<lparr>ui_queue := q\<rparr>) = deliveries s" "deliveries (s\<lparr>ui_sent := t\<rparr>) = deliveries s"
  "reliable works (s\<lparr>ui_queue := q\<rparr>) = reliable works s" "reliable works (s\<lparr>ui_sent := t\<rparr>) = reliable works s"
  by (simp_all add: deliveries_def fun_eq_iff reliable_def)

lemma fire_ui_handlers_drains:
  assumes "reliable works s" "ui_ready s \<noteq> None" "length (ui_queue s) < k"
  shows "fire_ui_handlers k works False e s =
    Inr (s\<lparr>ui_queue := [], ui_sent := ui_sent s @ concat (map (deliveries s) (e # rev (ui_queue s)))\<rparr>)"
  using assms
proof (induction k arbitrary: e s)
  case (Suc k)
  let ?s = "s\<lparr>ui_sent := ui_sent s @ deliveries s e\<rparr>"
  obtain ready where ready: "ui_ready s = Some ready" using Suc.prems(2) by blast
  show ?case
  proof (cases "ui_queue s" rule: rev_cases)
    case Nil
    then show ?thesis using ready send_reliable [OF Suc.prems(1)] by simp
  next
    case (snoc q x)
    have "fire_ui_handlers k works False x (?s\<lparr>ui_queue := q\<rparr>) =
        Inr (?s\<lparr>ui_queue := [], ui_sent := ui_sent ?s @ concat (map (deliveries s) (x # rev q))\<rparr>)"
      using Suc.IH [of "?s\<lparr>ui_queue := q\<rparr>" x] Suc.prems snoc by simp
    moreover have "empty_queue k f t = Inr t" if "ui_queue t = []" for f t
      using that Suc.prems(3) snoc by (cases k) simp_all
    ultimately show ?thesis using ready snoc send_reliable [OF Suc.prems(1)] by simp
  qed
qed simp

declare fire_ui_handlers.simps [simp del] fire_queued.simps [simp del]

lemma fire_queued_first:
  "ui_queue s = x # q \<Longrightarrow> f x s = Inr t \<Longrightarrow> ui_queue t = [] \<Longrightarrow> fire_queued (Suc (Suc k)) 0 f s = Inr t"
  by (simp add: fire_queued.simps)

text \<open>When events wait for a user interface, the next event makes it receive the first of them, then all others in
  reverse order, then the first one again, and then the event itself.\<close>

theorem queued_events_reversed:
  assumes "reliable works s" "ui_ready s \<noteq> None" "ui_queue s = first # rest"
  shows "fire_ui works False e s =
    Inr (s\<lparr>ui_queue := [], ui_sent := ui_sent s @ concat (map (deliveries s) ([first] @ rev rest @ [first, e]))\<rparr>)"
proof -
  let ?k = "Suc (Suc (length (ui_queue s)))"
  let ?t = "s\<lparr>ui_queue := [], ui_sent := ui_sent s @ concat (map (deliveries s) (first # rev (first # rest)))\<rparr>"
  have "fire_ui_handlers ?k works False first s = Inr ?t"
    using fire_ui_handlers_drains [OF assms(1,2), of ?k first] assms(3) by simp
  then have queued: "fire_queued ?k 0 (fire_ui_handlers ?k works False) s = Inr ?t"
    using fire_queued_first [OF assms(3), of "fire_ui_handlers ?k works False" ?t "length (ui_queue s)"] by simp
  have "fire_ui_handlers ?k works False e ?t = Inr (?t\<lparr>ui_queue := [], ui_sent := ui_sent ?t @ deliveries s e\<rparr>)"
    using fire_ui_handlers_drains [of works ?t ?k e] assms by simp
  moreover have "fire_ui works False e s =
      rbind (rbind (fire_queued ?k 0 (fire_ui_handlers ?k works False) s) (\<lambda>s. Inr (s\<lparr>ui_queue := []\<rparr>))) (fire_ui_handlers ?k works False e)"
    using assms(2,3) by (simp add: fire_ui_def Let_def)
  moreover have "?t\<lparr>ui_queue := []\<rparr> = ?t" by simp
  ultimately have "fire_ui works False e s = Inr (?t\<lparr>ui_queue := [], ui_sent := ui_sent ?t @ deliveries s e\<rparr>)"
    by (simp only: queued rbind_Inr)
  then show ?thesis using assms(3) by simp
qed

definition sample_ui :: ui_state where
  "sample_ui =
     \<lparr>ui_handlers = [1], ui_filters = [(1, \<lparr>uf_mask = [], uf_level = 0, uf_domains = []\<rparr>)], ui_seq = 1, ui_ready = Some 1,
      ui_queue = [Event ''e'' ''1'', Event ''e'' ''2'', Event ''e'' ''3''], ui_sent = []\<rparr>"

lemma queued_events_reversed_witness:
  "\<exists>s. fire_ui (\<lambda>h e. True) False (Event ''e'' ''4'') sample_ui = Inr s \<and>
     map snd (ui_sent s) = map (Event ''e'') [''1'', ''3'', ''2'', ''1'', ''4'']"
proof -
  have "reliable (\<lambda>h e. True) sample_ui" "ui_ready sample_ui \<noteq> None"
    "ui_queue sample_ui = Event ''e'' ''1'' # [Event ''e'' ''2'', Event ''e'' ''3'']"
    by (simp_all add: sample_ui_def reliable_def has_key_def)
  from queued_events_reversed [OF this, of "Event ''e'' ''4''"] show ?thesis
    by (simp add: sample_ui_def deliveries_def passes_def)
qed

end
