(* ===== verification/Recipes.thy ===== *)
theory Recipes
  imports ParseEval Events VarFrames
begin

text \<open>
  What happens to a recipe after its file was evaluated: \<open>finalize\<close> and \<open>multi_finalize\<close> of \<open>bb/parse/ast.py\<close>, which
  read the appended files, run what was deferred and make the variants of the recipe. Events reach the handlers of
  classes; what user interfaces get is left out here.
\<close>

section \<open>The state\<close>

text \<open>Executing the anonymous functions and the work of the signature generator are parameters.\<close>

record recipe_env =
  re_events :: event_env
  re_run :: "string \<Rightarrow> unit ds"
  re_finalise :: "string \<Rightarrow> string option \<Rightarrow> unit ds"

type_synonym 'a rs = "(pstate \<times> registry, 'a) meth"

definition in_files :: "'a ps \<Rightarrow> 'a rs" where
  "in_files m s = (case s of (ps, rg) \<Rightarrow> (case m ps of (r, ps') \<Rightarrow> (r, (ps', rg))))"

definition in_data :: "'a ds \<Rightarrow> 'a rs" where
  "in_data m = in_files (in_store m)"

definition in_events :: "'a ev \<Rightarrow> 'a rs" where
  "in_events m s = (case s of (ps, rg) \<Rightarrow> (case m (rg, ps_store ps) of (r, (rg', d)) \<Rightarrow> (r, (ps\<lparr>ps_store := d\<rparr>, rg'))))"

text \<open>\<open>on_store d m\<close> runs \<open>m\<close> on another store and returns what became of it.\<close>

definition on_store :: "dstore \<Rightarrow> 'a rs \<Rightarrow> ('a \<times> dstore) rs" where
  "on_store d m s =
     (case s of (ps, rg) \<Rightarrow>
      (case m (ps\<lparr>ps_store := d\<rparr>, rg) of (r, (ps', rg')) \<Rightarrow>
        (case r of Inl e \<Rightarrow> Inl e | Inr x \<Rightarrow> Inr (x, ps_store ps'), (ps'\<lparr>ps_store := ps_store ps\<rparr>, rg'))))"

section \<open>Keys and virtual providers\<close>

definition note_key :: "nat \<Rightarrow> python \<Rightarrow> string \<Rightarrow> (string, string) dict \<Rightarrow> (string, string) dict ds" where
  "note_key n py key todo =
     (if \<not> contains ''${'' key then mreturn todo
      else mbind (expand_name n py key) (\<lambda>ekey. mreturn (if key = ekey then todo else AList.update key ekey todo)))"

definition rename_key :: "nat \<Rightarrow> python \<Rightarrow> (string, string) dict \<Rightarrow> string \<Rightarrow> unit ds" where
  "rename_key n py todo key =
     (let ekey = dget todo key []
      in mbind (getVar n py ekey False) (\<lambda>newval.
         mthen (if newval = None then mreturn () else mbind (getVar n py key False) (\<lambda>_. mreturn ()))
           (renameVar n n py key ekey)))"

definition expandKeys :: "nat \<Rightarrow> python \<Rightarrow> unit ds" where
  "expandKeys n py =
     mbind (all_keys n py) (\<lambda>keys.
     mbind (mfold (note_key n py) keys []) (\<lambda>todo.
       mfor (rename_key n py todo) (sort (dkeys todo))))"

definition var_words :: "nat \<Rightarrow> python \<Rightarrow> string \<Rightarrow> string list ds" where
  "var_words n py var = mbind (getVar n py var True) (\<lambda>v. mlift (text_words v))"

definition preferred_dep :: "nat \<Rightarrow> python \<Rightarrow> string list \<Rightarrow> string \<Rightarrow> string list \<Rightarrow> string list ds" where
  "preferred_dep n py virtprovs dep newdeps =
     (if dep \<notin> set virtprovs then mreturn (newdeps @ [dep])
      else mbind (getVar n py (''PREFERRED_PROVIDER_'' @ dep) True) (\<lambda>v.
        if \<not> truthy v then mraise (Fatal (''Error, recipe virtual provider PREFERRED_PROVIDER_'' @ dep @ '' not set''))
        else case v of Some (Text t) \<Rightarrow> mreturn (newdeps @ [t]) | _ \<Rightarrow> mraise TypeError))"

text \<open>\<open>"%s" % v\<close> for any value.\<close>

definition shown :: "python \<Rightarrow> val option \<Rightarrow> string" where
  "shown py v = (case v of None \<Rightarrow> ''None'' | Some (Text t) \<Rightarrow> t | Some w \<Rightarrow> py_str py w)"

definition remap_entry :: "nat \<Rightarrow> python \<Rightarrow> string list \<Rightarrow> string \<Rightarrow> string list \<Rightarrow> string list ds" where
  "remap_entry n py virtprovs entry remapped =
     (case split_on CHR '':'' entry of
        [r, t] \<Rightarrow>
          mbind (if r \<in> set virtprovs then mbind (getVar n py (''PREFERRED_PROVIDER_'' @ r) True) (\<lambda>v. mreturn (shown py v))
                 else mreturn r) (\<lambda>r. mreturn (remapped @ [r @ '':'' @ t]))
      | _ \<Rightarrow> mraise (ValueError ''too many values to unpack''))"

definition remap_task :: "nat \<Rightarrow> python \<Rightarrow> string list \<Rightarrow> string \<Rightarrow> unit ds" where
  "remap_task n py virtprovs task =
     mbind (flag_text n py task ''depends'') (\<lambda>v.
     mbind (mlift (text_words v)) (\<lambda>entries.
     mbind (mfold (remap_entry n py virtprovs) entries []) (\<lambda>remapped.
       setVarFlag n py task ''depends'' (Text (join '' '' remapped)))))"

definition handleVirtRecipeProviders :: "nat \<Rightarrow> python \<Rightarrow> string list \<Rightarrow> unit ds" where
  "handleVirtRecipeProviders n py tasklist =
     mbind (var_words n py ''DEPENDS'') (\<lambda>depends.
     mbind (var_words n py ''BB_RECIPE_VIRTUAL_PROVIDERS'') (\<lambda>virtprovs.
     mbind (mfold (preferred_dep n py virtprovs) depends []) (\<lambda>newdeps.
     mthen (setVar n py ''DEPENDS'' (Text (join '' '' newdeps)) False)
       (mfor (remap_task n py virtprovs) tasklist))))"

section \<open>Finalizing\<close>

definition names_or_none :: "nat \<Rightarrow> python \<Rightarrow> string \<Rightarrow> string list ds" where
  "names_or_none n py var = mbind (getVar n py var False) (\<lambda>v. mlift (py_elems (or_names v)))"

definition get_file_depends :: "files \<Rightarrow> nat \<Rightarrow> python \<Rightarrow> string ds" where
  "get_file_depends fs n py =
     mbind (names_or_none n py ''__base_depends'') (\<lambda>base.
     mbind (names_or_none n py ''__depends'') (\<lambda>deps. mreturn (join '' '' (map (abspath (fl_cwd fs)) (base @ deps)))))"

definition runAnonFuncs :: "recipe_env \<Rightarrow> nat \<Rightarrow> python \<Rightarrow> unit ds" where
  "runAnonFuncs env n py =
     mbind (names_or_none n py ''__BBANONFUNCS'') (\<lambda>fs. re_run env (join newline (map (\<lambda>f. f @ ''(d)'') fs)))"

definition fire_event :: "recipe_env \<Rightarrow> nat \<Rightarrow> python \<Rightarrow> string \<Rightarrow> unit rs" where
  "fire_event env n py eid = in_events (fire_class_handlers (re_events env) n py (''bb.event.'' @ eid) True)"

text \<open>The function that a handler names; its line must be a number.\<close>

definition handler_entry :: "nat \<Rightarrow> python \<Rightarrow> string \<Rightarrow> (handler_source \<times> string list) ds" where
  "handler_entry n py var =
     mbind (raw_flag n py var ''filename'') (\<lambda>fn.
       if \<not> truthy fn then mraise (Fatal (''Undefined event handler function '' @ var))
       else mbind (raw_flag n py var ''lineno'') (\<lambda>line.
         mthen (mlift (case line of None \<Rightarrow> Inl TypeError | Some (Num i) \<Rightarrow> Inr () | Some (Text t) \<Rightarrow> rbind (py_int t) (\<lambda>_. Inr ()) | _ \<Rightarrow> Inl TypeError))
         (mbind (getVar n py var False) (\<lambda>v.
          mbind (flag_text n py var ''eventmask'') (\<lambda>m.
          mbind (mlift (text_words m)) (\<lambda>evmask.
          mbind (mlift (case v of None \<Rightarrow> Inr NoHandler | Some (Text t) \<Rightarrow> Inr (Code t) | _ \<Rightarrow> Inl TypeError)) (\<lambda>source.
            mreturn (source, evmask))))))))"

definition add_class_handler :: "recipe_env \<Rightarrow> nat \<Rightarrow> python \<Rightarrow> string \<Rightarrow> unit rs" where
  "add_class_handler env n py var =
     mbind (in_data (handler_entry n py var)) (\<lambda>(source, evmask).
     mbind (in_events (register (re_events env) n py var source evmask True)) (\<lambda>_. mreturn ()))"

definition check_autorev :: "nat \<Rightarrow> python \<Rightarrow> unit ds" where
  "check_autorev n py =
     mbind (getVar n py ''__BBAUTOREV_SEEN'' True) (\<lambda>a. if \<not> truthy a then mreturn ()
       else mbind (getVar n py ''__BBSRCREV_SEEN'' True) (\<lambda>b. if \<not> truthy b then mreturn ()
         else mbind (getVar n py ''__BBAUTOREV_ACTED_UPON'' True) (\<lambda>c. if truthy c then mreturn ()
           else mraise (Fatal ''AUTOREV/SRCPV set too late for the fetcher to work properly''))))"

definition finalize_body :: "recipe_env \<Rightarrow> files \<Rightarrow> nat \<Rightarrow> python \<Rightarrow> string \<Rightarrow> string option \<Rightarrow> unit rs" where
  "finalize_body env fs n py fn variant =
     mbind (in_data (getVar n py ''_FAILPARSINGERRORHANDLED'' False)) (\<lambda>failed.
     if failed = Some Truth \<or> failed = Some (Num 1) then mraise (PlainException ''BBHandledException'')
     else
       mbind (in_data (names_or_none n py ''__BBHANDLERS'')) (\<lambda>hs.
       mthen (mfor (add_class_handler env n py) hs)
       (mthen (fire_event env n py ''RecipePreFinalise'')
       (mthen (in_data (expandKeys n py))
       (mthen (fire_event env n py ''RecipePostKeyExpansion'')
       (mthen (in_data (runAnonFuncs env n py))
       (mbind (in_data (names_or_none n py ''__BBTASKS'')) (\<lambda>tasklist.
        mthen (fire_event env n py ''RecipeTaskPreProcess'')
        (mthen (in_data (handleVirtRecipeProviders n py tasklist))
        (mthen (in_data (add_tasks n py tasklist))
        (mthen (in_data (re_finalise env fn variant))
        (mthen (in_data (mbind (get_file_depends fs n py) (\<lambda>t. setVar n py ''BBINCLUDED'' (Text t) False)))
        (mthen (in_data (check_autorev n py))
          (fire_event env n py ''RecipeParsed''))))))))))))))"

text \<open>The handlers are restored in any case.\<close>

definition finalize :: "recipe_env \<Rightarrow> files \<Rightarrow> nat \<Rightarrow> python \<Rightarrow> string \<Rightarrow> string option \<Rightarrow> unit rs" where
  "finalize env fs n py fn variant s =
     (case s of (ps, rg) \<Rightarrow>
      (case finalize_body env fs n py fn variant (ps, rg) of (r, (ps', rg')) \<Rightarrow> (r, (ps', set_handlers (rg_handlers rg) rg'))))"

definition finalize_or_skip :: "recipe_env \<Rightarrow> files \<Rightarrow> nat \<Rightarrow> python \<Rightarrow> string \<Rightarrow> string option \<Rightarrow> unit rs" where
  "finalize_or_skip env fs n py fn variant =
     mcatch (finalize env fs n py fn variant)
       (\<lambda>e. case e of SkipRecipe msg \<Rightarrow> in_data (setVar n py ''__SKIPPED'' (Text msg) False) | _ \<Rightarrow> mraise e)"

section \<open>Variants\<close>

text \<open>The name, class and variant of each entry of \<open>BBCLASSEXTEND\<close>.\<close>

definition extended_map :: "string \<Rightarrow> (string, string \<times> string option) dict" where
  "extended_map extended =
     fold (\<lambda>ext m. AList.update ext (case split_on CHR '':'' ext of c # v # vs \<Rightarrow> (c, Some v) | _ \<Rightarrow> (ext, None)) m) (words extended) []"

definition extend_recipe :: "nat \<Rightarrow> files \<Rightarrow> nat \<Rightarrow> python \<Rightarrow> string \<Rightarrow> val option \<Rightarrow> string \<times> string \<times> string option \<Rightarrow> unit rs" where
  "extend_recipe k fs n py fn pn e =
     (case e of (name, cls, variant) \<Rightarrow>
      mthen (if name \<noteq> cls
             then mthen (in_data (setVar n py ''BBEXTENDCURR'' (Text cls) False))
                    (case variant of None \<Rightarrow> mraise (KeyError name)
                       | Some v \<Rightarrow> in_data (setVar n py ''BBEXTENDVARIANT'' (Text v) False))
             else in_data (setVar n py ''PN'' (Text (shown py pn @ ''-'' @ name)) False))
        (in_files (inherit k fs n py cls)))"

text \<open>Whether a variant is asked for: no list, an empty one, or one with the name in it.\<close>

definition wanted_variant :: "val option \<Rightarrow> string \<Rightarrow> bool res" where
  "wanted_variant only name = (if \<not> truthy only then Inr True else py_in name (the only))"

definition create_variant ::
  "nat \<Rightarrow> files \<Rightarrow> nat \<Rightarrow> python \<Rightarrow> string \<Rightarrow> val option \<Rightarrow> val option \<Rightarrow> string \<times> string \<times> string option \<Rightarrow> (string, dstore) dict \<Rightarrow> (string, dstore) dict rs" where
  "create_variant k fs n py fn pn only e stores =
     mbind (mlift (wanted_variant only (fst e))) (\<lambda>b.
       if \<not> b then mreturn stores
       else mread (\<lambda>(ps, rg).
         mbind (on_store (create_copy (ps_store ps)) (extend_recipe k fs n py fn pn e)) (\<lambda>(_, new).
           mreturn (AList.update (fst e) new stores))))"

definition finalize_variant ::
  "recipe_env \<Rightarrow> files \<Rightarrow> nat \<Rightarrow> python \<Rightarrow> string \<Rightarrow> val option \<Rightarrow> string \<Rightarrow> (string, dstore) dict \<Rightarrow> (string, dstore) dict rs" where
  "finalize_variant env fs n py fn only variant stores =
     (case map_of stores variant of
        None \<Rightarrow> mreturn stores
      | Some d \<Rightarrow>
          mbind (mlift (wanted_variant only variant)) (\<lambda>b.
            if \<not> b then mreturn stores
            else mbind (on_store d (finalize_or_skip env fs n py fn (Some variant))) (\<lambda>(_, d). mreturn (AList.update variant d stores))))"

text \<open>Classes whose inheritance was deferred may defer others in turn.\<close>

primrec deferred_inherits :: "nat \<Rightarrow> nat \<Rightarrow> files \<Rightarrow> nat \<Rightarrow> python \<Rightarrow> unit ps" where
  "deferred_inherits 0 k fs n py = mraise OutOfFuel"
| "deferred_inherits (Suc m) k fs n py =
     mbind (in_store (getVar n py ''__BBDEFINHERITS'' False)) (\<lambda>v.
       if \<not> truthy v then mreturn ()
       else case v of
              Some (Inherits ((classes, filename, line) # es)) \<Rightarrow>
                mthen (in_store (setVar n py ''__BBDEFINHERITS'' (Inherits es) False))
                (mthen (inherit k fs n py classes) (deferred_inherits m k fs n py))
            | _ \<Rightarrow> mraise AttributeError)"

definition read_appends :: "nat \<Rightarrow> files \<Rightarrow> nat \<Rightarrow> python \<Rightarrow> unit ps" where
  "read_appends k fs n py =
     mbind (in_store (var_words n py ''__BBAPPEND'')) (\<lambda>appends.
       mfor (\<lambda>a. mthen (bb_handle (eval_nodes (handle_nested k fs n py) fs n py) fs n py a True) (mreturn ())) appends)"

definition multi_finalize :: "recipe_env \<Rightarrow> nat \<Rightarrow> files \<Rightarrow> nat \<Rightarrow> python \<Rightarrow> string \<Rightarrow> (string, dstore) dict rs" where
  "multi_finalize env k fs n py fn =
     mthen (in_files (read_appends k fs n py))
     (mthen (in_files (deferred_inherits k k fs n py))
     (mbind (in_data (getVar n py ''__ONLYFINALISE'' False)) (\<lambda>only.
     mread (\<lambda>(ps, rg).
     mbind (on_store (create_copy (ps_store ps))
         (mthen (finalize_or_skip env fs n py fn None)
           (mbind (in_data (getVar n py ''BBCLASSEXTEND'' True)) (\<lambda>v.
            mbind (mlift (or_text v)) (\<lambda>extended.
            mbind (if extended = [] then mreturn None else in_data (getVar n py ''PN'' True)) (\<lambda>pn. mreturn (extended, pn)))))))
       (\<lambda>((extended, pn), d).
        mbind (if extended = [] then mreturn []
               else mthen (in_data (setVar n py ''BBCLASSEXTEND'' (Text extended) False))
                 (mfold (create_variant k fs n py fn pn only) (extended_map extended) [])) (\<lambda>stores.
        mbind (mfold (finalize_variant env fs n py fn only) (dkeys stores) stores) (\<lambda>stores.
          mreturn (([], d) # stores))))))))"


section \<open>What is left when the variants are made\<close>

text \<open>\<open>restores m\<close>: however \<open>m\<close> ends, the handlers are those from before.\<close>

definition restores :: "'a rs \<Rightarrow> bool" where
  "restores m \<longleftrightarrow> (\<forall>s. rg_handlers (snd (snd (m s))) = rg_handlers (snd s))"

named_theorems restore_rules "computations that leave the handlers"

lemma restores_return [restore_rules]: "restores (mreturn x)" "restores (mraise e)" "restores (mlift r)"
  by (simp_all add: restores_def meth_defs)

lemma restores_files [restore_rules]: "restores (in_files m)" "restores (in_data m')"
  by (simp_all add: restores_def in_data_def in_files_def split: prod.split)

lemma restores_bind [restore_rules]: "restores m \<Longrightarrow> (\<And>x. restores (f x)) \<Longrightarrow> restores (mbind m f)"
  by (auto simp: restores_def mbind_def split: prod.split sum.split) (metis snd_conv)+

lemma restores_then [restore_rules]: "restores m \<Longrightarrow> restores m' \<Longrightarrow> restores (mthen m m')"
  by (simp add: mthen_def restores_bind)

lemma restores_read [restore_rules]: "(\<And>s. restores (f s)) \<Longrightarrow> restores (mread f)"
  by (simp add: restores_def mread_def)

lemma restores_catch [restore_rules]: "restores m \<Longrightarrow> (\<And>e. restores (h e)) \<Longrightarrow> restores (mcatch m h)"
  by (auto simp: restores_def mcatch_def split: prod.split sum.split) (metis snd_conv)+

lemma restores_if [restore_rules]: "(b \<Longrightarrow> restores m) \<Longrightarrow> (\<not> b \<Longrightarrow> restores m') \<Longrightarrow> restores (if b then m else m')"
  by simp

lemma restores_mfold: "(\<And>x y. restores (f x y)) \<Longrightarrow> restores (mfold f xs y)"
  by (induction xs arbitrary: y) (simp_all add: restore_rules)

lemma restores_on_store [restore_rules]: "restores m \<Longrightarrow> restores (on_store d m)"
  by (auto simp: restores_def on_store_def split: prod.split) (metis snd_conv)

lemma finalize_restores [restore_rules]: "restores (finalize env fs n py fn variant)"
  by (simp add: restores_def finalize_def set_handlers_def split: prod.split)

lemma finalize_or_skip_restores [restore_rules]: "restores (finalize_or_skip env fs n py fn variant)"
  unfolding finalize_or_skip_def by (intro restores_catch finalize_restores) (auto intro: restore_rules split: exn.split)

lemma create_variant_restores: "restores (create_variant k fs n py fn pn only e stores)"
proof -
  have "restores (extend_recipe k fs n py fn pn e)"
    by (cases e) (auto simp: extend_recipe_def split: option.split intro!: restore_rules)
  then show ?thesis unfolding create_variant_def by (auto intro!: restore_rules split: prod.split)
qed

lemma finalize_variant_restores: "restores (finalize_variant env fs n py fn only variant stores)"
  by (auto simp: finalize_variant_def intro!: restore_rules split: option.split prod.split)

lemma multi_finalize_restores: "restores (multi_finalize env k fs n py fn)"
  unfolding multi_finalize_def
  by (auto intro!: restore_rules restores_mfold create_variant_restores finalize_variant_restores split: prod.split)

lemma wanted_lift: "gives_only (\<lambda>b. wanted_variant only name = Inr b) (mlift (wanted_variant only name))"
  by (auto simp: gives_only_def meth_defs)

lemma create_variant_keys:
  "fst e \<notin> set (dkeys stores) \<Longrightarrow> gives_only (\<lambda>stores'. dkeys stores' = dkeys stores @ filter (\<lambda>v. wanted_variant only v = Inr True) [fst e])
     (create_variant k fs n py fn pn only e stores)"
  unfolding create_variant_def
  by (rule gives_only_bind [OF wanted_lift])
    (auto simp: dict_simps intro!: gives_only_return gives_only_read gives_only_bind [OF gives_only_any])

lemma create_variants_keys:
  assumes "distinct (map fst es)" "set (dkeys stores) \<inter> fst ` set es = {}"
  shows "gives_only (\<lambda>stores'. dkeys stores' = dkeys stores @ filter (\<lambda>v. wanted_variant only v = Inr True) (map fst es))
     (mfold (create_variant k fs n py fn pn only) es stores)"
  using assms
proof (induction es arbitrary: stores)
  case Nil
  then show ?case by (simp add: gives_only_return)
next
  case (Cons e es)
  let ?keys = "\<lambda>d. dkeys stores @ filter (\<lambda>v. wanted_variant only v = Inr True) d"
  have "fst e \<notin> set (dkeys stores)" using Cons.prems by auto
  from create_variant_keys [OF this]
  have "gives_only (\<lambda>stores'. dkeys stores' = ?keys (map fst (e # es)))
      (mbind (create_variant k fs n py fn pn only e stores) (mfold (create_variant k fs n py fn pn only) es))"
  proof (rule gives_only_bind)
    fix new :: "(string, dstore) dict" assume new: "dkeys new = ?keys [fst e]"
    then have "set (dkeys new) \<inter> fst ` set es = {}" using Cons.prems by (auto split: if_splits)
    then have "gives_only (\<lambda>s. dkeys s = dkeys new @ filter (\<lambda>v. wanted_variant only v = Inr True) (map fst es))
        (mfold (create_variant k fs n py fn pn only) es new)"
      using Cons by simp
    then show "gives_only (\<lambda>stores'. dkeys stores' = ?keys (map fst (e # es))) (mfold (create_variant k fs n py fn pn only) es new)"
      by (simp add: new split: if_splits)
  qed
  then show ?case by simp
qed

lemma finalize_variant_keys:
  "gives_only (\<lambda>stores'. dkeys stores' = dkeys stores) (finalize_variant env fs n py fn only variant stores)"
proof (cases "map_of stores variant")
  case None
  then show ?thesis by (simp add: finalize_variant_def gives_only_return)
next
  case (Some d)
  then have "variant \<in> set (dkeys stores)" by (auto simp: dkeys_def map_of_SomeD dest: map_of_SomeD intro: rev_image_eqI)
  then show ?thesis using Some
    by (auto simp: finalize_variant_def dict_simps intro!: gives_only_bind [OF gives_only_any] gives_only_return)
qed

lemma finalize_variants_keys:
  "gives_only (\<lambda>stores'. dkeys stores' = dkeys stores) (mfold (finalize_variant env fs n py fn only) vs stores)"
proof (induction vs arbitrary: stores)
  case (Cons v vs)
  have "gives_only (\<lambda>stores'. dkeys stores' = dkeys stores) (mbind (finalize_variant env fs n py fn only v stores) (mfold (finalize_variant env fs n py fn only) vs))"
    by (rule gives_only_bind [OF finalize_variant_keys]) (use Cons in metis)
  then show ?case by simp
qed (simp add: gives_only_return)


text \<open>The entries of \<open>BBCLASSEXTEND\<close>, each at its first place.\<close>

lemma extended_map_keys: "dkeys (extended_map extended) = rev (remdups (rev (words extended)))"
proof -
  have "dkeys (fold (\<lambda>ext m. AList.update ext (f ext) m) ws []) = rev (remdups (rev ws))"
      for f :: "string \<Rightarrow> string \<times> string option" and ws
    by (induction ws rule: rev_induct) (auto simp: dict_simps dkeys_def [of "[]"])
  then show ?thesis by (simp add: extended_map_def)
qed

lemma wanted_variant_iff: "wanted_variant only v = Inr True \<longleftrightarrow> (truthy only \<longrightarrow> py_in v (the only) = Inr True)"
  by (simp add: wanted_variant_def)

lemma mbind_gives: "mbind m f s = (Inr x, t) \<longleftrightarrow> (\<exists>y u. m s = (Inr y, u) \<and> f y u = (Inr x, t))"
  by (auto simp: mbind_def split: prod.split sum.split)

lemma in_files_gives: "in_files m (ps, rg) = (Inr x, t) \<longleftrightarrow> (\<exists>ps'. m ps = (Inr x, ps') \<and> t = (ps', rg))"
  by (auto simp: in_files_def split: prod.split)

lemma in_data_gives:
  "in_data m (ps, rg) = (Inr x, t) \<longleftrightarrow> (\<exists>d. m (ps_store ps) = (Inr x, d) \<and> t = (ps\<lparr>ps_store := d\<rparr>, rg))"
  by (auto simp: in_data_def in_files_def in_store_def split: prod.split)

lemma on_store_gives:
  "on_store d m (ps, rg) = (Inr (x, d'), t) \<Longrightarrow> \<exists>ps' rg'. m (ps\<lparr>ps_store := d\<rparr>, rg) = (Inr x, (ps', rg')) \<and> d' = ps_store ps'"
  by (auto simp: on_store_def split: prod.splits sum.splits)

text \<open>The stores that are made, once the entries of \<open>BBCLASSEXTEND\<close> and the names that are wanted are known.\<close>

lemma make_variants_keys:
  "gives_only (\<lambda>stores. dkeys stores = [] # filter (\<lambda>v. wanted_variant only v = Inr True) (dkeys (extended_map extended)))
     (mbind (if extended = [] then mreturn []
        else mthen (in_data (setVar n py ''BBCLASSEXTEND'' (Text extended) False))
          (mfold (create_variant k fs n py fn pn only) (extended_map extended) []))
       (\<lambda>stores. mbind (mfold (finalize_variant env fs n py fn only) (dkeys stores) stores) (\<lambda>stores. mreturn (([], d) # stores))))"
  (is "gives_only _ (mbind ?create _)")
proof -
  let ?keys = "filter (\<lambda>v. wanted_variant only v = Inr True) (dkeys (extended_map extended))"
  have "gives_only (\<lambda>stores. dkeys stores = ?keys) ?create"
    using create_variants_keys [of "extended_map extended" "[]" only k fs n py fn pn]
    by (auto simp: extended_map_keys dkeys_def [symmetric] dkeys_def [of "[]"] words_def intro!: gives_only_return gives_only_then)
  then show ?thesis
    by (rule gives_only_bind) (rule gives_only_bind [OF finalize_variants_keys], rule gives_only_return, auto simp: dkeys_def)
qed

lemma multi_finalize_keys:
  assumes "multi_finalize env k fs n py fn (ps, rg) = (Inr stores, t)"
  shows "\<exists>ps1 ps2 only d ps3 rg3 v extended.
    read_appends k fs n py ps = (Inr (), ps1) \<and> deferred_inherits k k fs n py ps1 = (Inr (), ps2) \<and>
    getVar n py ''__ONLYFINALISE'' False (ps_store ps2) = (Inr only, d) \<and>
    finalize_or_skip env fs n py fn None (ps2\<lparr>ps_store := create_copy d\<rparr>, rg) = (Inr (), (ps3, rg3)) \<and>
    fst (getVar n py ''BBCLASSEXTEND'' True (ps_store ps3)) = Inr v \<and> or_text v = Inr extended \<and>
    dkeys stores = [] # filter (\<lambda>v. wanted_variant only v = Inr True) (dkeys (extended_map extended))"
proof -
  from assms obtain ps1 ps2 only d extended pn d' u
    where run: "read_appends k fs n py ps = (Inr (), ps1)" "deferred_inherits k k fs n py ps1 = (Inr (), ps2)"
        "getVar n py ''__ONLYFINALISE'' False (ps_store ps2) = (Inr only, d)"
      and copied: "on_store (create_copy d)
          (mthen (finalize_or_skip env fs n py fn None)
            (mbind (in_data (getVar n py ''BBCLASSEXTEND'' True)) (\<lambda>v.
             mbind (mlift (or_text v)) (\<lambda>extended.
             mbind (if extended = [] then mreturn None else in_data (getVar n py ''PN'' True)) (\<lambda>pn. mreturn (extended, pn))))))
          (ps2\<lparr>ps_store := d\<rparr>, rg) = (Inr ((extended, pn), d'), u)"
      and made: "mbind (if extended = [] then mreturn []
           else mthen (in_data (setVar n py ''BBCLASSEXTEND'' (Text extended) False))
             (mfold (create_variant k fs n py fn pn only) (extended_map extended) []))
          (\<lambda>stores. mbind (mfold (finalize_variant env fs n py fn only) (dkeys stores) stores) (\<lambda>stores. mreturn (([], d') # stores)))
          u = (Inr stores, t)"
    unfolding multi_finalize_def mthen_def [of "in_files m" for m]
    by (auto simp: mbind_gives in_files_gives in_data_gives mread_def)
  have same: "ps2\<lparr>ps_store := d, ps_store := create_copy d\<rparr> = ps2\<lparr>ps_store := create_copy d\<rparr>" by simp
  have one: "(\<exists>y. P y) \<longleftrightarrow> P ()" for P :: "unit \<Rightarrow> bool" by (metis (full_types) unit.exhaust)
  from on_store_gives [OF copied] obtain ps3 rg3 v d3
    where "finalize_or_skip env fs n py fn None (ps2\<lparr>ps_store := create_copy d\<rparr>, rg) = (Inr (), (ps3, rg3))"
      "getVar n py ''BBCLASSEXTEND'' True (ps_store ps3) = (Inr v, d3)" "or_text v = Inr extended"
    unfolding mthen_def mbind_gives in_data_gives mlift_def mreturn_def same split_paired_Ex prod.inject sum.inject one by blast
  moreover from this have "fst (getVar n py ''BBCLASSEXTEND'' True (ps_store ps3)) = Inr v" by simp
  moreover have "dkeys stores = [] # filter (\<lambda>v. wanted_variant only v = Inr True) (dkeys (extended_map extended))"
    using make_variants_keys made unfolding gives_only_def by blast
  ultimately show ?thesis using run by blast
qed

text \<open>C21: making the variants of a recipe leaves the handlers of events as they were, also when it fails. When it succeeds, it
  gives one store for the recipe and then one for each entry of \<open>BBCLASSEXTEND\<close>, in their order and no name twice: of each entry
  when \<open>__ONLYFINALISE\<close> is unset or empty, else of those that \<open>__ONLYFINALISE\<close> holds. \<open>__ONLYFINALISE\<close> is read once the appended
  files and the deferred classes have been evaluated, \<open>BBCLASSEXTEND\<close> from the copy of the store in which the recipe itself has
  been finalized.\<close>

theorem variants_of_recipe:
  assumes "multi_finalize env k fs n py fn (ps, rg) = (r, (ps', rg'))"
  shows "rg_handlers rg' = rg_handlers rg \<and>
    (\<forall>stores. r = Inr stores \<longrightarrow> distinct (dkeys stores) \<and>
      (\<exists>ps1 ps2 only d ps3 rg3 v extended.
         read_appends k fs n py ps = (Inr (), ps1) \<and> deferred_inherits k k fs n py ps1 = (Inr (), ps2) \<and>
         getVar n py ''__ONLYFINALISE'' False (ps_store ps2) = (Inr only, d) \<and>
         finalize_or_skip env fs n py fn None (ps2\<lparr>ps_store := create_copy d\<rparr>, rg) = (Inr (), (ps3, rg3)) \<and>
         fst (getVar n py ''BBCLASSEXTEND'' True (ps_store ps3)) = Inr v \<and> or_text v = Inr extended \<and>
         dkeys stores = [] # filter (\<lambda>name. truthy only \<longrightarrow> py_in name (the only) = Inr True) (rev (remdups (rev (words extended))))))"
proof (intro conjI allI impI)
  show "rg_handlers rg' = rg_handlers rg" using multi_finalize_restores [of env k fs n py fn] assms unfolding restores_def by (metis snd_conv)
  fix stores assume "r = Inr stores"
  with assms multi_finalize_keys [of env k fs n py fn ps rg stores "(ps', rg')"]
  show named: "\<exists>ps1 ps2 only d ps3 rg3 v extended.
         read_appends k fs n py ps = (Inr (), ps1) \<and> deferred_inherits k k fs n py ps1 = (Inr (), ps2) \<and>
         getVar n py ''__ONLYFINALISE'' False (ps_store ps2) = (Inr only, d) \<and>
         finalize_or_skip env fs n py fn None (ps2\<lparr>ps_store := create_copy d\<rparr>, rg) = (Inr (), (ps3, rg3)) \<and>
         fst (getVar n py ''BBCLASSEXTEND'' True (ps_store ps3)) = Inr v \<and> or_text v = Inr extended \<and>
         dkeys stores = [] # filter (\<lambda>name. truthy only \<longrightarrow> py_in name (the only) = Inr True) (rev (remdups (rev (words extended))))"
    by (simp add: extended_map_keys wanted_variant_iff)
  have "[] \<notin> set (words extended)" for extended using words_nonempty [of "[]" extended] by auto
  then show "distinct (dkeys stores)" using named by auto
qed


definition sample_recipe_env :: recipe_env where
  "sample_recipe_env =
     \<lparr>re_events = sample_event_env, re_run = (\<lambda>code. mreturn ()), re_finalise = (\<lambda>fn variant. mreturn ())\<rparr>"

definition sample_class :: files where
  "sample_class =
     \<lparr>fl_cwd = ''/'', fl_exists = (\<lambda>f. f = ''/native.bbclass''), fl_isfile = (\<lambda>f. f = ''/native.bbclass''),
      fl_read = (\<lambda>f. Inr [''A = '' @ [CHR 0x22] @ ''1'' @ [CHR 0x22]]),
      fl_fnmatch = (=), fl_match = (\<lambda>r s. prefix r s), fl_import = (\<lambda>m. Inr ())\<rparr>"

definition sample_recipe :: pstate where
  "sample_recipe =
     \<lparr>ps_store = snd (setVar 3 sample_python ''__ONLYFINALISE'' (Names [''/native.bbclass'']) False
         (snd (set_all 3 sample_python [(''BBCLASSEXTEND'', ''/native.bbclass multilib:lib32''), (''__bbclasstype'', ''recipe''), (''PN'', ''a'')] new_store))),
      ps_open = False, ps_cached = []\<rparr>"

lemma variants_of_recipe_witness:
  "\<exists>stores s. multi_finalize sample_recipe_env 2 sample_class 4 sample_python ''/a.bb'' (sample_recipe, \<lparr>rg_handlers = [(''h'', Some 1)], rg_catchall = [], rg_masks = []\<rparr>) =
       (Inr stores, s) \<and> rg_handlers (snd s) = [(''h'', Some 1)] \<and> distinct (dkeys stores) \<and> dkeys stores = [[], ''/native.bbclass'']"
proof -
  let ?rg = "\<lparr>rg_handlers = [(''h'', Some 1)], rg_catchall = [], rg_masks = []\<rparr>"
  let ?m = "multi_finalize sample_recipe_env 2 sample_class 4 sample_python ''/a.bb'' (sample_recipe, ?rg)"
  have keys: "(case fst ?m of Inl e \<Rightarrow> False | Inr stores \<Rightarrow> dkeys stores = [[], ''/native.bbclass''])" by code_simp
  obtain r ps' rg' where m: "?m = (r, (ps', rg'))" by (cases ?m) auto
  with keys obtain stores where "r = Inr stores" "dkeys stores = [[], ''/native.bbclass'']" by (cases r) auto
  with m variants_of_recipe [OF m] show ?thesis by auto
qed

end
