(* ===== verification/SigData.thy ===== *)
theory SigData
  imports VarUpdate
begin

text \<open>
  What the signature of a task is made from: \<open>build_dependencies\<close>, \<open>generate_dependencies\<close> and
  \<open>generate_dependency_hash\<close> of \<open>bb/data.py\<close>. For each variable and function that a task reaches, they find what it
  depends on and the value that counts; the base hash of the task is the hash of all of them.

  What the parsers of shell and Python code find is a parameter, and so is the hash function. Sets are lists.
\<close>

section \<open>Two stores\<close>

text \<open>What a parser finds in code: the variables it reads, the functions it calls, the items it looks for.\<close>

type_synonym found = "string list \<times> string list \<times> (string, string list) dict"

text \<open>\<open>cp_modules\<close> is \<open>modulecode_deps\<close>: what was found in the functions of modules, and their text.\<close>

record codeparser =
  cp_python :: "val option \<Rightarrow> found res"
  cp_shell :: "val option \<Rightarrow> string list res"
  cp_modules :: "(string, found \<times> string) dict"

text \<open>The second store is the copy in which functions are parsed.\<close>

type_synonym 'a sg = "(dstore \<times> dstore, 'a) meth"

definition in_main :: "'a ds \<Rightarrow> 'a sg" where
  "in_main m s = (case s of (d, c) \<Rightarrow> (case m d of (r, d') \<Rightarrow> (r, (d', c))))"

definition in_parsed :: "'a ds \<Rightarrow> 'a sg" where
  "in_parsed m s = (case s of (d, c) \<Rightarrow> (case m c of (r, c') \<Rightarrow> (r, (d, c'))))"

section \<open>Values\<close>

definition only :: "string list \<Rightarrow> string list \<Rightarrow> string list" where
  "only keys xs = filter (\<lambda>x. x \<in> set keys) xs"

definition without_all :: "string list \<Rightarrow> string list \<Rightarrow> string list" where
  "without_all gone xs = filter (\<lambda>x. x \<notin> set gone) xs"

definition str_val :: "python \<Rightarrow> val \<Rightarrow> string" where
  "str_val py v = (case v of Text t \<Rightarrow> t | w \<Rightarrow> py_str py w)"

definition words_of :: "val option \<Rightarrow> string list res" where
  "words_of v = (if \<not> truthy v then Inr [] else case v of Some (Text t) \<Rightarrow> Inr (words t) | _ \<Rightarrow> Inl AttributeError)"

definition contain_lines :: "nat \<Rightarrow> python \<Rightarrow> string list \<Rightarrow> (string, string list) dict \<Rightarrow> string \<Rightarrow> string \<Rightarrow> string ds" where
  "contain_lines n py skipped conts k out =
     (if k \<in> set skipped then mreturn out
      else mbind (getVar n py k True) (\<lambda>v.
           mbind (mlift (words_of v)) (\<lambda>l.
             mreturn (out @ concat (map (\<lambda>item.
               [CHR 0x0A] @ k @ ''{'' @ item @ ''} = '' @ (if set (words item) \<subseteq> set l then ''Set'' else ''Unset''))
               (sort (dget conts k [])))))))"

definition handle_contains :: "nat \<Rightarrow> python \<Rightarrow> string list \<Rightarrow> val option \<Rightarrow> (string, string list) dict \<Rightarrow> string ds" where
  "handle_contains n py skipped v conts =
     mfold (contain_lines n py skipped conts) (sort (dkeys conts)) (if truthy v then str_val py (the v) else [])"

text \<open>The dependencies are a set that the first removal extends in place; then the name stands for a set of its own, which
  is dropped.\<close>

fun handle_remove :: "nat \<Rightarrow> python \<Rightarrow> string list \<Rightarrow> bool \<Rightarrow> string list \<Rightarrow> string \<Rightarrow> string list \<Rightarrow> (string \<times> string list) ds" where
  "handle_remove n py skipped shared [] v dps = mreturn (v, dps)"
| "handle_remove n py skipped shared (r # rs) v dps =
     mbind (expandWithRefs n py (getVarFlag n py) (Some (Text r)) []) (\<lambda>r2.
     mbind (handle_contains n py skipped (Some (Text (v @ [CHR 0x0A] @ ''_remove of '' @ r))) (vp_contains r2)) (\<lambda>v.
       handle_remove n py skipped False rs v (if shared then sunion dps (vp_refs r2) else dps)))"

definition removal_texts :: "val list \<Rightarrow> string list res" where
  "removal_texts rs = rmap (\<lambda>r. case r of Text t \<Rightarrow> Inr t | _ \<Rightarrow> Inl TypeError) rs"

definition with_removes :: "nat \<Rightarrow> python \<Rightarrow> string list \<Rightarrow> vparse \<Rightarrow> string \<Rightarrow> string list \<Rightarrow> (string \<times> string list) ds" where
  "with_removes n py skipped p v dps =
     (case vp_removes p of
        None \<Rightarrow> mreturn (v, dps)
      | Some rs \<Rightarrow> mbind (mlift (removal_texts rs)) (\<lambda>rs. handle_remove n py skipped True (sort rs) v dps))"

section \<open>The dependencies of one name\<close>

record sig_env =
  se_parser :: codeparser
  se_keys :: "string list"
  se_shelldeps :: "string list"
  se_excluded :: "val option"
  se_ignored :: "string list"

definition parsed_value :: "nat \<Rightarrow> python \<Rightarrow> string \<Rightarrow> string \<Rightarrow> (val option \<times> vparse) ds" where
  "parsed_value n py var flag =
     mbind (getVarFlag n py var flag False False False True) (\<lambda>(v, p).
       case p of None \<Rightarrow> mraise AttributeError | Some p \<Rightarrow> mreturn (v, p))"

definition flag_text_of :: "var_flags \<Rightarrow> string \<Rightarrow> string list res" where
  "flag_text_of flags f =
     (case map_of flags f of None \<Rightarrow> Inr [] | Some (Text t) \<Rightarrow> Inr (words t) | Some _ \<Rightarrow> Inl AttributeError)"

definition function_deps :: "sig_env \<Rightarrow> nat \<Rightarrow> python \<Rightarrow> string \<Rightarrow> var_flags \<Rightarrow> string list \<Rightarrow> (string \<times> string list) sg" where
  "function_deps env n py key flags skipped =
     (if truthy (map_of flags ''python'') then
        mbind (in_parsed (mbind (getVarFlag n py key ''_content'' False False False False) (\<lambda>(v, p). mreturn v))) (\<lambda>v.
        mbind (mlift (cp_python (se_parser env) v)) (\<lambda>(refs, execs, conts).
        mbind (in_main (handle_contains n py skipped v conts)) (\<lambda>v.
          mreturn (v, sunion refs (only (se_keys env) execs)))))
      else
        mbind (in_parsed (parsed_value n py key ''_content'')) (\<lambda>(v, p).
        mbind (mlift (cp_shell (se_parser env) (vp_value p))) (\<lambda>execs.
        let dps = sunion (se_shelldeps env) (vp_refs p @ only (se_keys env) execs @ only (se_keys env) (vp_execs p))
        in mbind (in_main (handle_contains n py skipped v (vp_contains p))) (\<lambda>v.
             in_main (with_removes n py skipped p v dps)))))"

definition variable_deps :: "sig_env \<Rightarrow> nat \<Rightarrow> python \<Rightarrow> string \<Rightarrow> string list \<Rightarrow> (string \<times> string list) ds" where
  "variable_deps env n py key skipped =
     mbind (parsed_value n py key ''_content'') (\<lambda>(v, p).
     mbind (handle_contains n py skipped v (vp_contains p)) (\<lambda>v.
       with_removes n py skipped p v (sunion (vp_refs p) (only (se_keys env) (vp_execs p)))))"

text \<open>What the value of a name is made of, and the names of the functions around it.\<close>

definition content_deps :: "sig_env \<Rightarrow> nat \<Rightarrow> python \<Rightarrow> string \<Rightarrow> var_flags \<Rightarrow> string list \<Rightarrow> (val option \<times> string list) sg" where
  "content_deps env n py key flags exclusions =
     (let skipped = exclusions @ se_ignored env in
      case map_of flags ''vardepvalue'' of
        Some v \<Rightarrow> mreturn (Some v, [])
      | None \<Rightarrow>
          if truthy (map_of flags ''func'') then
            mbind (function_deps env n py key flags skipped) (\<lambda>(v, dps).
            mbind (mlift (flag_text_of flags ''prefuncs'')) (\<lambda>pre.
            mbind (mlift (flag_text_of flags ''postfuncs'')) (\<lambda>post.
            mbind (mlift (flag_text_of flags ''exports'')) (\<lambda>exports.
              mreturn (Some (Text v), sunion dps (pre @ post @ exports))))))
          else mbind (in_main (variable_deps env n py key skipped)) (\<lambda>(v, dps). mreturn (Some (Text v), dps)))"

definition exclude_values :: "var_flags \<Rightarrow> val option \<Rightarrow> val option res" where
  "exclude_values flags v =
     (case map_of flags ''vardepvalueexclude'' of
        None \<Rightarrow> Inr v
      | Some (Text t) \<Rightarrow>
          rfold (\<lambda>excl v. if excl = [] then Inr v
                  else case v of Some (Text u) \<Rightarrow> Inr (Some (Text (replace_all excl [] u))) | _ \<Rightarrow> Inl AttributeError)
            (split_on CHR ''|'' t) v
      | Some _ \<Rightarrow> Inl AttributeError)"

text \<open>\<open>f not in varflagsexcl\<close>, where the excluded flags are one text.\<close>

definition flag_deps :: "sig_env \<Rightarrow> string \<Rightarrow> var_flags \<Rightarrow> string list res" where
  "flag_deps env key flags =
     (if \<not> truthy (se_excluded env) then Inr []
      else case se_excluded env of
             Some (Text t) \<Rightarrow> Inr (map (\<lambda>f. key @ ''['' @ f @ '']'') (filter (\<lambda>f. \<not> contains f t) (dkeys flags)))
           | _ \<Rightarrow> Inl TypeError)"

definition named_deps :: "sig_env \<Rightarrow> nat \<Rightarrow> python \<Rightarrow> string \<Rightarrow> (string list \<times> val option) sg" where
  "named_deps env n py key =
     mbind (in_main (getVarFlags n py key [''vardeps'', ''vardepvalue'', ''vardepsexclude'', ''exports'', ''postfuncs'', ''prefuncs'', ''lineno'', ''filename''] False)) (\<lambda>flags.
     let flags = (case flags of None \<Rightarrow> [] | Some fs \<Rightarrow> fs) in
     mbind (mlift (flag_text_of flags ''vardepsexclude'')) (\<lambda>exclusions.
     mbind (content_deps env n py key flags exclusions) (\<lambda>(v, dps).
     mbind (mlift (exclude_values flags v)) (\<lambda>v.
     mbind (mlift (flag_deps env key flags)) (\<lambda>fdeps.
     mbind (mlift (words_of (map_of flags ''vardeps''))) (\<lambda>vardeps.
       mreturn (without_all (se_ignored env) (without_all exclusions (sunion dps (fdeps @ vardeps))), v)))))))"

definition flag_value_deps :: "sig_env \<Rightarrow> nat \<Rightarrow> python \<Rightarrow> string \<Rightarrow> (string list \<times> val option) ds" where
  "flag_value_deps env n py key =
     (case split_on CHR ''['' (butlast key) of
        var # flag # rest \<Rightarrow>
          if flag = ''vardepvalueexclude'' then mreturn ([], Some (Text []))
          else mbind (parsed_value n py var flag) (\<lambda>(v, p).
            mreturn (without_all (se_ignored env) (sunion (vp_refs p) (only (se_keys env) (vp_execs p))), v))
      | _ \<Rightarrow> mraise IndexError)"

definition build_dependencies :: "sig_env \<Rightarrow> nat \<Rightarrow> python \<Rightarrow> string \<Rightarrow> (string list \<times> val option) sg" where
  "build_dependencies env n py key =
     (case map_of (cp_modules (se_parser env)) key of
        Some ((refs, execs, conts), text) \<Rightarrow>
          mbind (in_main (handle_contains n py (se_ignored env) (Some (Text text)) conts)) (\<lambda>v.
            mreturn (without_all (se_ignored env) (sunion refs (only (se_keys env) execs)), Some (Text v)))
      | None \<Rightarrow>
          if key = [] then mraise IndexError
          else if last key = CHR '']'' then in_main (flag_value_deps env n py key)
          else named_deps env n py key)"

section \<open>All dependencies\<close>

type_synonym gendeps = "(string, string list) dict"
type_synonym varvals = "(string, val option) dict"

definition need_deps :: "sig_env \<Rightarrow> nat \<Rightarrow> python \<Rightarrow> string \<Rightarrow> gendeps \<times> varvals \<Rightarrow> (gendeps \<times> varvals) sg" where
  "need_deps env n py key st =
     (case st of (dps, vals) \<Rightarrow>
      mbind (build_dependencies env n py key) (\<lambda>(ds, v). mreturn (AList.update key ds dps, AList.update key v vals)))"

definition follow_dep :: "sig_env \<Rightarrow> nat \<Rightarrow> python \<Rightarrow> string \<Rightarrow> string list \<times> gendeps \<times> varvals \<Rightarrow> (string list \<times> gendeps \<times> varvals) sg" where
  "follow_dep env n py dep acc =
     (case acc of (newdeps, st) \<Rightarrow>
      mbind (if has_key (fst st) dep then mreturn st else need_deps env n py dep st) (\<lambda>st.
        mreturn (sunion newdeps (dget (fst st) dep []), st)))"

primrec follow_deps :: "nat \<Rightarrow> sig_env \<Rightarrow> nat \<Rightarrow> python \<Rightarrow> string list \<Rightarrow> string list \<Rightarrow> gendeps \<times> varvals \<Rightarrow> (gendeps \<times> varvals) sg" where
  "follow_deps 0 env n py newdeps seen st = mraise OutOfFuel"
| "follow_deps (Suc k) env n py newdeps seen st =
     (if newdeps = [] then mreturn st
      else let seen = sunion seen newdeps
           in mbind (mfold (follow_dep env n py) newdeps ([], st)) (\<lambda>(newdeps, st).
                follow_deps k env n py (without_all seen newdeps) seen st))"

definition task_deps_of :: "nat \<Rightarrow> sig_env \<Rightarrow> nat \<Rightarrow> python \<Rightarrow> string \<Rightarrow> gendeps \<times> varvals \<Rightarrow> (gendeps \<times> varvals) sg" where
  "task_deps_of k env n py task st =
     mbind (need_deps env n py task st) (\<lambda>st. follow_deps k env n py (dget (fst st) task []) [] st)"

definition boolean_flag :: "nat \<Rightarrow> python \<Rightarrow> string \<Rightarrow> string \<Rightarrow> bool ds" where
  "boolean_flag n py var flag =
     mbind (getVarFlag n py var flag True False False False) (\<lambda>(v, p).
       if \<not> truthy v then mreturn False
       else case v of
              Some (Text t) \<Rightarrow> mlift (rbind (to_boolean t None) (\<lambda>b. Inr (b = Some True)))
            | Some (Num i) \<Rightarrow> mreturn True
            | Some Truth \<Rightarrow> mreturn True
            | _ \<Rightarrow> mraise AttributeError)"

definition shell_deps :: "nat \<Rightarrow> python \<Rightarrow> string list ds" where
  "shell_deps n py =
     mbind (getVar n py ''__exportlist'' False) (\<lambda>v.
     mbind (mlift (case v of Some (Names xs) \<Rightarrow> Inr xs | Some (Text t) \<Rightarrow> Inr (map (\<lambda>c. [c]) t) | _ \<Rightarrow> Inl TypeError)) (\<lambda>keys.
       mfold (\<lambda>key out.
         mbind (boolean_flag n py key ''export'') (\<lambda>e.
           if \<not> e then mreturn out
           else mbind (boolean_flag n py key ''unexport'') (\<lambda>u. mreturn (if u then out else sadd key out)))) keys []))"

definition force_value :: "nat \<Rightarrow> python \<Rightarrow> string \<Rightarrow> unit ds" where
  "force_value n py forced =
     (case split_on CHR ''='' forced of
        key # v # vs \<Rightarrow> setVar n py key (Text (join ''='' (v # vs))) False
      | _ \<Rightarrow> mraise (ValueError ''not enough values to unpack''))"

definition generate_dependencies ::
  "nat \<Rightarrow> codeparser \<Rightarrow> nat \<Rightarrow> python \<Rightarrow> string list \<Rightarrow> (string list \<times> gendeps \<times> varvals) ds" where
  "generate_dependencies k parser n py ignored =
     mbind (all_keys n py) (\<lambda>names.
     mbind (shell_deps n py) (\<lambda>shell.
     mbind (getVar n py ''BB_SIGNATURE_EXCLUDE_FLAGS'' True) (\<lambda>excluded.
     let env = \<lparr>se_parser = parser, se_keys = sunion (filter (\<lambda>key. \<not> prefix ''__'' key) names) (dkeys (cp_modules parser)),
                se_shelldeps = shell, se_excluded = excluded, se_ignored = ignored\<rparr>
     in mread (\<lambda>d.
        mbind (getVar n py ''BB_HASH_CODEPARSER_VALS'' True) (\<lambda>vals.
        mbind (mlift (words_of vals)) (\<lambda>forced.
        mbind (mlift (fst (mfor (force_value n py) forced (create_copy d)))) (\<lambda>_.
        let c = snd (mfor (force_value n py) forced (create_copy d))
        in mbind (getVar n py ''__BBTASKS'' False) (\<lambda>v.
           mbind (mlift (case v of None \<Rightarrow> Inr [] | Some (Names ts) \<Rightarrow> Inr ts | Some w \<Rightarrow> if truthy (Some w) then Inl TypeError else Inr [])) (\<lambda>tasklist.
             \<lambda>d. case mfold (task_deps_of k env n py) tasklist ([], []) (d, c) of
                   (r, (d, c)) \<Rightarrow> (rbind r (\<lambda>(dps, vals). Inr (tasklist, dps, vals)), d))))))))))"

section \<open>The hash\<close>

definition collect_deps :: "gendeps \<Rightarrow> string \<Rightarrow> string list \<Rightarrow> string list res" where
  "collect_deps gendeps dep out = (case map_of gendeps dep of None \<Rightarrow> Inl (KeyError dep) | Some ds \<Rightarrow> Inr (sunion out ds))"

primrec reach_deps :: "nat \<Rightarrow> gendeps \<Rightarrow> string list \<Rightarrow> string list \<Rightarrow> string list res" where
  "reach_deps 0 gendeps newdeps seen = Inl OutOfFuel"
| "reach_deps (Suc k) gendeps newdeps seen =
     (if newdeps = [] then Inr seen
      else let seen = sunion seen newdeps
           in rbind (rfold (collect_deps gendeps) newdeps []) (\<lambda>out. reach_deps k gendeps (without_all seen out) seen))"

definition dep_text :: "python \<Rightarrow> varvals \<Rightarrow> string \<Rightarrow> string res" where
  "dep_text py vals dep =
     (case map_of vals dep of
        None \<Rightarrow> Inl (KeyError dep)
      | Some v \<Rightarrow> Inr (dep @ (case v of None \<Rightarrow> [] | Some w \<Rightarrow> str_val py w)))"

definition hash_text :: "python \<Rightarrow> varvals \<Rightarrow> val option \<Rightarrow> string list \<Rightarrow> string res" where
  "hash_text py vals v seen =
     rbind (rmap (dep_text py vals) (sort seen)) (\<lambda>ts.
       case v of
         None \<Rightarrow> Inr (concat ts)
       | Some (Text t) \<Rightarrow> Inr (t @ concat ts)
       | Some w \<Rightarrow> Inl TypeError)"

text \<open>The rounds end after as many as there are names.\<close>

definition reached :: "gendeps \<Rightarrow> string \<Rightarrow> string list res" where
  "reached gendeps task =
     (case map_of gendeps task of None \<Rightarrow> Inl (KeyError task) | Some ds \<Rightarrow> reach_deps (Suc (Suc (length gendeps))) gendeps ds [])"

definition hash_of_task ::
  "(string \<Rightarrow> string) \<Rightarrow> python \<Rightarrow> gendeps \<Rightarrow> varvals \<Rightarrow> string \<Rightarrow> string \<Rightarrow> gendeps \<times> (string, string) dict \<Rightarrow> (gendeps \<times> (string, string) dict) res" where
  "hash_of_task sha256 py gendeps vals fn task out =
     (case out of (taskdeps, basehash) \<Rightarrow>
      (case map_of vals task of
         None \<Rightarrow> Inl (KeyError task)
       | Some v \<Rightarrow>
           rbind (reached gendeps task) (\<lambda>seen.
           rbind (hash_text py vals v seen) (\<lambda>text.
             Inr (AList.update task seen taskdeps, AList.update (fn @ '':'' @ task) (sha256 text) basehash)))))"

definition generate_dependency_hash ::
  "(string \<Rightarrow> string) \<Rightarrow> python \<Rightarrow> string list \<Rightarrow> gendeps \<Rightarrow> varvals \<Rightarrow> string \<Rightarrow> (gendeps \<times> (string, string) dict) res" where
  "generate_dependency_hash sha256 py tasklist gendeps vals fn = rfold (hash_of_task sha256 py gendeps vals fn) tasklist ([], [])"

end
