(* ===== verification/SigSpec.thy ===== *)
theory SigSpec
  imports SigData VarFrames
begin

text \<open>
  What the base hash of a task is the hash of: the value of the task, and the names and values of everything that it reaches
  through the dependencies. The dependencies that \<open>generate_dependencies\<close> finds are closed, so that
  \<open>generate_dependency_hash\<close> finds an entry for every name it meets, and its rounds end.
\<close>

section \<open>What a name reaches\<close>

definition dep_edges :: "gendeps \<Rightarrow> (string \<times> string) set" where
  "dep_edges gendeps = {(a, b). b \<in> set (dget gendeps a [])}"

definition reaches :: "gendeps \<Rightarrow> string \<Rightarrow> string set" where
  "reaches gendeps a = {b. (a, b) \<in> (dep_edges gendeps)\<^sup>+}"

definition closed_deps :: "gendeps \<Rightarrow> bool" where
  "closed_deps gendeps \<longleftrightarrow> (\<forall>k. set (dget gendeps k []) \<subseteq> set (dkeys gendeps))"

text \<open>The text that is hashed, from the set of names that are reached.\<close>

definition signature_text :: "python \<Rightarrow> varvals \<Rightarrow> string \<Rightarrow> string set \<Rightarrow> string" where
  "signature_text py vals task names =
     (case dget vals task None of None \<Rightarrow> [] | Some w \<Rightarrow> (case w of Text t \<Rightarrow> t | _ \<Rightarrow> [])) @
     concat (map (\<lambda>x. x @ (case dget vals x None of None \<Rightarrow> [] | Some w \<Rightarrow> str_val py w)) (sorted_list_of_set names))"

lemma reaches_step:
  "set (dget gendeps a []) \<subseteq> reaches gendeps a"
  "x \<in> reaches gendeps a \<Longrightarrow> set (dget gendeps x []) \<subseteq> reaches gendeps a"
  by (auto simp: reaches_def dep_edges_def intro: trancl_into_trancl)

lemma reaches_least:
  assumes "set (dget gendeps a []) \<subseteq> S" and "\<And>x. x \<in> S \<Longrightarrow> set (dget gendeps x []) \<subseteq> S"
  shows "reaches gendeps a \<subseteq> S"
proof
  fix b assume "b \<in> reaches gendeps a"
  then have "(a, b) \<in> (dep_edges gendeps)\<^sup>+" by (simp add: reaches_def)
  then show "b \<in> S" by (induction rule: trancl_induct) (use assms in \<open>auto simp: dep_edges_def\<close>)
qed

lemma reaches_agree:
  assumes "\<And>x. x \<in> insert a (reaches g a) \<Longrightarrow> set (dget g x []) = set (dget h x [])"
  shows "reaches g a = reaches h a"
proof (rule equalityI)
  have "(a, b) \<in> (dep_edges h)\<^sup>+ \<and> b \<in> reaches g a" if "(a, b) \<in> (dep_edges g)\<^sup>+" for b
    using that
  proof (induction rule: trancl_induct)
    case (base y)
    then show ?case using assms [of a] reaches_step(1) [of g a] by (auto simp: dep_edges_def)
  next
    case (step y z)
    then show ?case using assms [of y] reaches_step(2) [of y g a] by (auto simp: dep_edges_def intro: trancl_into_trancl)
  qed
  then show "reaches g a \<subseteq> reaches h a" by (auto simp: reaches_def)
  show "reaches h a \<subseteq> reaches g a"
    by (rule reaches_least) (use assms reaches_step(1) [of g a] reaches_step(2) [of _ g a] in auto)
qed

section \<open>The rounds\<close>

lemma collect_deps_gives:
  "rfold (collect_deps g) xs out = Inr ys \<Longrightarrow>
     set xs \<subseteq> set (dkeys g) \<and> set ys = set out \<union> (\<Union>x \<in> set xs. set (dget g x [])) \<and> (distinct ys \<longleftrightarrow> distinct out)"
proof (induction xs arbitrary: out)
  case (Cons x xs)
  then obtain u where "collect_deps g x out = Inr u" and ys: "rfold (collect_deps g) xs u = Inr ys" by (auto simp: rbind_eq_Inr)
  then obtain ds where "map_of g x = Some ds" and "u = sunion out ds" by (auto simp: collect_deps_def split: option.splits)
  with Cons.IH [OF ys] show ?case by (auto simp: dget_def has_key_def simp flip: has_key_iff)
qed simp

lemma collect_deps_total: "set xs \<subseteq> set (dkeys g) \<Longrightarrow> \<exists>ys. rfold (collect_deps g) xs out = Inr ys"
proof (induction xs arbitrary: out)
  case (Cons x xs)
  then obtain ds where "map_of g x = Some ds" by (auto simp: has_key_def simp flip: has_key_iff)
  with Cons show ?case by (simp add: collect_deps_def)
qed simp

text \<open>The names seen are all reached, and those whose dependencies were not looked at are the new ones.\<close>

definition search_inv :: "gendeps \<Rightarrow> string \<Rightarrow> string list \<Rightarrow> string list \<Rightarrow> bool" where
  "search_inv g a new seen \<longleftrightarrow> distinct seen \<and> set seen \<union> set new \<subseteq> reaches g a \<and> set seen \<subseteq> set (dkeys g) \<and>
     set (dget g a []) \<subseteq> set seen \<union> set new \<and> (\<forall>x \<in> set seen. set (dget g x []) \<subseteq> set seen \<union> set new)"

lemma search_inv_round:
  assumes "search_inv g a new seen" and "rfold (collect_deps g) new [] = Inr out"
  shows "search_inv g a (without_all (sunion seen new) out) (sunion seen new)"
proof -
  have out: "set out = (\<Union>x \<in> set new. set (dget g x []))" "set new \<subseteq> set (dkeys g)" using collect_deps_gives [OF assms(2)] by auto
  have "set (dget g x []) \<subseteq> reaches g a" if "x \<in> set new" for x
    using that assms(1) reaches_step(2) [of x g a] by (auto simp: search_inv_def)
  with assms(1) out show ?thesis by (auto simp: search_inv_def without_all_def)
qed

lemma search_inv_end: "search_inv g a [] seen \<Longrightarrow> distinct seen \<and> set seen = reaches g a \<and> set seen \<subseteq> set (dkeys g)"
  using reaches_least [of g a "set seen"] by (auto simp: search_inv_def)

lemma reach_deps_gives: "search_inv g a new seen \<Longrightarrow> reach_deps k g new seen = Inr s \<Longrightarrow> distinct s \<and> set s = reaches g a \<and> set s \<subseteq> set (dkeys g)"
proof (induction k arbitrary: new seen)
  case (Suc k)
  show ?case
  proof (cases "new = []")
    case True
    with Suc.prems show ?thesis using search_inv_end [of g a seen] by auto
  next
    case False
    with Suc.prems(2) obtain out where "rfold (collect_deps g) new [] = Inr out"
      and "reach_deps k g (without_all (sunion seen new) out) (sunion seen new) = Inr s"
      by (auto simp: Let_def rbind_eq_Inr)
    then show ?thesis using Suc.IH search_inv_round [OF Suc.prems(1)] by blast
  qed
qed simp

text \<open>Every round sees a new name, so that the fuel is enough.\<close>

lemma reach_deps_total:
  assumes "closed_deps g"
  shows "set new \<subseteq> set (dkeys g) \<Longrightarrow> set new \<inter> set seen = {} \<Longrightarrow> card (set (dkeys g) - set seen) < k \<Longrightarrow>
    \<exists>s. reach_deps k g new seen = Inr s"
proof (induction k arbitrary: new seen)
  case (Suc k)
  show ?case
  proof (cases "new = []")
    case False
    obtain out where out: "rfold (collect_deps g) new [] = Inr out" using collect_deps_total [OF Suc.prems(1)] by blast
    have keys: "set (without_all (sunion seen new) out) \<subseteq> set (dkeys g)"
      using collect_deps_gives [OF out] assms by (auto simp: closed_deps_def without_all_def)
    have "set (dkeys g) - set (sunion seen new) \<subset> set (dkeys g) - set seen"
      using False Suc.prems(1,2) by (cases new) auto
    from psubset_card_mono [OF _ this] have "card (set (dkeys g) - set (sunion seen new)) < k"
      using Suc.prems(3) by simp
    then show ?thesis
      using Suc.IH [OF keys, of "sunion seen new"] False out by (auto simp: Let_def without_all_def)
  qed simp
qed simp

lemma reached_gives: "reached g a = Inr s \<Longrightarrow> a \<in> set (dkeys g) \<and> distinct s \<and> set s = reaches g a \<and> set s \<subseteq> set (dkeys g)"
proof -
  assume r: "reached g a = Inr s"
  then obtain ds where ds: "map_of g a = Some ds" and k: "reach_deps (Suc (Suc (length g))) g ds [] = Inr s"
    by (auto simp: reached_def split: option.splits simp del: reach_deps.simps)
  have "search_inv g a ds []" using ds reaches_step(1) [of g a] by (simp add: search_inv_def dget_def)
  moreover have "a \<in> set (dkeys g)" using ds has_key_iff [of g a] by (simp add: has_key_def)
  ultimately show ?thesis using reach_deps_gives [OF _ k, of a] by blast
qed

lemma reached_total:
  assumes "closed_deps g" "a \<in> set (dkeys g)"
  shows "\<exists>s. reached g a = Inr s"
proof -
  obtain ds where ds: "map_of g a = Some ds" using assms(2) by (auto simp: has_key_def simp flip: has_key_iff)
  then have "dget g a [] = ds" by (simp add: dget_def)
  then have "set ds \<subseteq> set (dkeys g)" using assms(1) unfolding closed_deps_def by blast
  moreover have "card (set (dkeys g)) \<le> length g" using card_length [of "dkeys g"] by (simp add: dkeys_def)
  ultimately show ?thesis
    using reach_deps_total [OF assms(1), of ds "[]" "Suc (Suc (length g))"] ds by (simp add: reached_def del: reach_deps.simps)
qed

section \<open>The hash\<close>

lemma hash_text_gives:
  assumes "hash_text py vals v seen = Inr text" and "map_of vals task = Some v" and "distinct seen"
  shows "text = signature_text py vals task (set seen) \<and> set seen \<subseteq> set (dkeys vals) \<and> (\<forall>w. v = Some w \<longrightarrow> (\<exists>t. w = Text t))"
proof -
  obtain ts where ts: "rmap (dep_text py vals) (sort seen) = Inr ts"
    using assms(1) by (auto simp: hash_text_def rbind_eq_Inr)
  have made: "text = (case v of None \<Rightarrow> [] | Some w \<Rightarrow> (case w of Text t \<Rightarrow> t | _ \<Rightarrow> [])) @ concat ts"
  proof (cases v)
    case (Some w)
    then show ?thesis using assms(1) ts by (cases w) (simp_all add: hash_text_def)
  qed (use assms(1) ts in \<open>simp add: hash_text_def\<close>)
  have "ts = map (\<lambda>x. x @ (case dget vals x None of None \<Rightarrow> [] | Some w \<Rightarrow> str_val py w)) xs \<and> set xs \<subseteq> set (dkeys vals)"
    if "rmap (dep_text py vals) xs = Inr ts" for xs ts
    using that
  proof (induction xs arbitrary: ts)
    case (Cons x xs)
    then show ?case
      by (auto simp: rbind_eq_Inr dep_text_def dget_def has_key_def simp flip: has_key_iff split: option.splits)
  qed simp
  note entries = this [OF ts]
  have "\<exists>t. w = Text t" if "v = Some w" for w
    using assms(1) ts that by (cases w) (simp_all add: hash_text_def)
  then show ?thesis using entries made assms(2,3)
    by (simp add: signature_text_def dget_def sorted_list_of_set_sort_remdups distinct_remdups_id)
qed

lemma hash_text_total:
  assumes "set seen \<subseteq> set (dkeys vals)" and "\<forall>w. v = Some w \<longrightarrow> (\<exists>t. w = Text t)"
  shows "\<exists>text. hash_text py vals v seen = Inr text"
proof -
  have "\<exists>ts. rmap (dep_text py vals) xs = Inr ts" if "set xs \<subseteq> set (dkeys vals)" for xs
    using that by (induction xs) (auto simp: dep_text_def has_key_def simp flip: has_key_iff)
  from this [of "sort seen"] assms show ?thesis by (auto simp: hash_text_def split: option.split)
qed

lemma signature_text_agree:
  assumes "\<And>x. x \<in> insert task (reaches gendeps task) \<Longrightarrow> dget vals x None = dget vals' x None"
  shows "signature_text py vals task (reaches gendeps task) = signature_text py vals' task (reaches gendeps task)"
proof -
  have "set (sorted_list_of_set (reaches gendeps task)) \<subseteq> reaches gendeps task"
    by (cases "finite (reaches gendeps task)") auto
  then have same: "map (\<lambda>x. x @ (case dget vals x None of None \<Rightarrow> [] | Some w \<Rightarrow> str_val py w)) (sorted_list_of_set (reaches gendeps task)) =
      map (\<lambda>x. x @ (case dget vals' x None of None \<Rightarrow> [] | Some w \<Rightarrow> str_val py w)) (sorted_list_of_set (reaches gendeps task))"
    using assms by (intro map_cong) (auto simp: subset_iff)
  show ?thesis unfolding signature_text_def by (simp only: same assms [of task, OF insertI1])
qed

text \<open>What is stored for a task, at the names that \<open>generate_dependency_hash\<close> uses.\<close>

definition hashed :: "(string \<Rightarrow> string) \<Rightarrow> python \<Rightarrow> gendeps \<Rightarrow> varvals \<Rightarrow> string \<Rightarrow> string \<Rightarrow> gendeps \<times> (string, string) dict \<Rightarrow> bool" where
  "hashed sha256 py gendeps vals fn task out \<longleftrightarrow>
     task \<in> set (dkeys gendeps) \<and> task \<in> set (dkeys vals) \<and> reaches gendeps task \<subseteq> set (dkeys vals) \<and> reaches gendeps task \<subseteq> set (dkeys gendeps) \<and>
     (\<forall>w. map_of vals task = Some (Some w) \<longrightarrow> (\<exists>t. w = Text t)) \<and>
     (\<exists>seen. map_of (fst out) task = Some seen \<and> distinct seen \<and> set seen = reaches gendeps task) \<and>
     map_of (snd out) (fn @ '':'' @ task) = Some (sha256 (signature_text py vals task (reaches gendeps task)))"

lemma hash_of_task_hashed:
  assumes "hash_of_task sha256 py gendeps vals fn task out = Inr out'"
  shows "hashed sha256 py gendeps vals fn task out' \<and>
    (\<forall>t. hashed sha256 py gendeps vals fn t out \<longrightarrow> hashed sha256 py gendeps vals fn t out') \<and>
    set (dkeys (fst out')) = insert task (set (dkeys (fst out)))"
proof -
  obtain taskdeps basehash where out: "out = (taskdeps, basehash)" by (cases out)
  obtain v seen sig where v: "map_of vals task = Some v" and seen: "reached gendeps task = Inr seen"
    and made: "hash_text py vals v seen = Inr sig"
    and out': "out' = (AList.update task seen taskdeps, AList.update (fn @ '':'' @ task) (sha256 sig) basehash)"
    using assms by (auto simp: hash_of_task_def out rbind_eq_Inr split: option.splits)
  have "hashed sha256 py gendeps vals fn task out'"
    using reached_gives [OF seen] hash_text_gives [OF made v] v
    by (auto simp: hashed_def out' update_conv has_key_def simp flip: has_key_iff)
  then show ?thesis by (auto simp: hashed_def out out' update_conv dict_simps)
qed

lemma hash_of_tasks_hashed:
  "rfold (hash_of_task sha256 py gendeps vals fn) tasks out = Inr out' \<Longrightarrow>
    (\<forall>t. t \<in> set tasks \<or> hashed sha256 py gendeps vals fn t out \<longrightarrow> hashed sha256 py gendeps vals fn t out') \<and>
    set (dkeys (fst out')) = set tasks \<union> set (dkeys (fst out))"
proof (induction tasks arbitrary: out)
  case (Cons task tasks)
  then obtain u where u: "hash_of_task sha256 py gendeps vals fn task out = Inr u"
    and rest: "rfold (hash_of_task sha256 py gendeps vals fn) tasks u = Inr out'" by (auto simp: rbind_eq_Inr)
  from hash_of_task_hashed [OF u] Cons.IH [OF rest] show ?case by auto
qed simp

lemma hash_of_tasks_total:
  assumes "closed_deps gendeps" and "set (dkeys gendeps) \<subseteq> set (dkeys vals)"
  shows "set tasks \<subseteq> set (dkeys gendeps) \<Longrightarrow> (\<And>t w. t \<in> set tasks \<Longrightarrow> map_of vals t = Some (Some w) \<Longrightarrow> \<exists>s. w = Text s) \<Longrightarrow>
    \<exists>out'. rfold (hash_of_task sha256 py gendeps vals fn) tasks out = Inr out'"
proof (induction tasks arbitrary: out)
  case (Cons task tasks)
  obtain v where v: "map_of vals task = Some v" using Cons.prems(1) assms(2) has_key_iff [of vals task] by (auto simp: has_key_def)
  obtain seen where seen: "reached gendeps task = Inr seen" using reached_total [OF assms(1)] Cons.prems(1) by auto
  have "reaches gendeps task \<subseteq> set (dkeys gendeps)"
    by (rule reaches_least) (use assms(1) in \<open>auto simp: closed_deps_def\<close>)
  then have "set seen \<subseteq> set (dkeys vals)" using reached_gives [OF seen] assms(2) by auto
  then obtain sig where "hash_text py vals v seen = Inr sig"
    using hash_text_total [of seen vals v py] Cons.prems(2) [of task] v by auto
  then have "\<exists>u. hash_of_task sha256 py gendeps vals fn task out = Inr u" by (cases out) (simp add: hash_of_task_def v seen)
  with Cons.IH Cons.prems show ?case by fastforce
qed simp

section \<open>What was generated is closed\<close>

text \<open>While names are still open: their dependencies may have no entry yet.\<close>

definition open_deps :: "string set \<Rightarrow> gendeps \<times> varvals \<Rightarrow> bool" where
  "open_deps names st \<longleftrightarrow> set (dkeys (fst st)) = set (dkeys (snd st)) \<and>
     (\<forall>k. set (dget (fst st) k []) \<subseteq> set (dkeys (fst st)) \<union> names)"

lemma open_deps_closed: "open_deps {} st \<longleftrightarrow> closed_deps (fst st) \<and> set (dkeys (fst st)) = set (dkeys (snd st))"
  by (auto simp: open_deps_def closed_deps_def)

lemma need_deps_gives:
  assumes "open_deps names st"
  shows "gives_only (\<lambda>st'. open_deps (names \<union> set (dget (fst st') key [])) st' \<and>
      set (dkeys (fst st')) = insert key (set (dkeys (fst st)))) (need_deps env n py key st)"
proof -
  have "open_deps (names \<union> set ds) (AList.update key ds g, AList.update key v vals)"
    if "open_deps names (g, vals)" for ds v g vals
    using that by (auto simp: open_deps_def dict_simps)
  then show ?thesis using assms unfolding need_deps_def
    by (cases st) (auto intro!: gives_only_bind [OF gives_only_any] gives_only_return)
qed

definition round_inv :: "string set \<Rightarrow> string set \<Rightarrow> string set \<Rightarrow> string list \<times> gendeps \<times> varvals \<Rightarrow> bool" where
  "round_inv names kept done acc \<longleftrightarrow> open_deps (names - done \<union> set (fst acc)) (snd acc) \<and> kept \<union> done \<subseteq> set (dkeys (fst (snd acc)))"

lemma follow_dep_gives:
  assumes "round_inv names kept done acc"
  shows "gives_only (round_inv names kept (insert dep done)) (follow_dep env n py dep acc)"
proof -
  obtain new st where acc: "acc = (new, st)" by (cases acc)
  have opened: "open_deps (names - done \<union> set new) st" and keys: "kept \<union> done \<subseteq> set (dkeys (fst st))"
    using assms by (auto simp: round_inv_def acc)
  have step: "round_inv names kept (insert dep done) (sunion new (dget (fst st') dep []), st')"
    if "open_deps (names - done \<union> set new \<union> set (dget (fst st') dep [])) st'" "insert dep (set (dkeys (fst st))) = set (dkeys (fst st'))" for st'
    using that keys by (auto simp: round_inv_def open_deps_def)
  have "gives_only (\<lambda>st'. open_deps (names - done \<union> set new \<union> set (dget (fst st') dep [])) st' \<and> insert dep (set (dkeys (fst st))) = set (dkeys (fst st')))
      (if has_key (fst st) dep then mreturn st else need_deps env n py dep st)"
    using need_deps_gives [OF opened, of dep env n py] opened
    by (auto simp: has_key_iff open_deps_def insert_absorb eq_commute intro!: gives_only_return)
  then show ?thesis unfolding follow_dep_def acc prod.case
    by (rule gives_only_bind) (auto intro!: gives_only_return step)
qed

lemma follow_deps_gives:
  "open_deps (set new) st \<Longrightarrow> kept \<union> set seen \<subseteq> set (dkeys (fst st)) \<Longrightarrow>
    gives_only (\<lambda>st'. open_deps {} st' \<and> kept \<subseteq> set (dkeys (fst st'))) (follow_deps k env n py new seen st)"
proof (induction k arbitrary: new seen st)
  case (Suc k)
  have "round_inv (set new) (kept \<union> set seen) {} ([], st)" using Suc.prems by (simp add: round_inv_def)
  from gives_only_mfold [where P = "round_inv (set new) (kept \<union> set seen)" and D = "{}" and xs = new, OF follow_dep_gives this]
  have round: "gives_only (round_inv (set new) (kept \<union> set seen) (set new)) (mfold (follow_dep env n py) new ([], st))" by simp
  have "gives_only (\<lambda>st'. open_deps {} st' \<and> kept \<subseteq> set (dkeys (fst st')))
      (mbind (mfold (follow_dep env n py) new ([], st))
        (\<lambda>(new', st'). follow_deps k env n py (without_all (sunion seen new) new') (sunion seen new) st'))"
  proof (rule gives_only_bind [OF round], unfold split_paired_all prod.case)
    fix new' g vals assume "round_inv (set new) (kept \<union> set seen) (set new) (new', g, vals)"
    then show "gives_only (\<lambda>st'. open_deps {} st' \<and> kept \<subseteq> set (dkeys (fst st')))
        (follow_deps k env n py (without_all (sunion seen new) new') (sunion seen new) (g, vals))"
      by (intro Suc.IH) (auto simp: round_inv_def open_deps_def without_all_def)
  qed
  then show ?case using Suc.prems by (auto simp: Let_def intro!: gives_only_return)
qed (simp add: gives_only_raise)

lemma task_deps_gives:
  assumes "open_deps {} st" and "tasks \<subseteq> set (dkeys (fst st))"
  shows "gives_only (\<lambda>st'. open_deps {} st' \<and> insert task tasks \<subseteq> set (dkeys (fst st'))) (task_deps_of k env n py task st)"
  unfolding task_deps_of_def
proof (rule gives_only_bind [OF need_deps_gives [OF assms(1)]])
  fix st' assume "open_deps ({} \<union> set (dget (fst st') task [])) st' \<and> set (dkeys (fst st')) = insert task (set (dkeys (fst st)))"
  then show "gives_only (\<lambda>st'. open_deps {} st' \<and> insert task tasks \<subseteq> set (dkeys (fst st')))
      (follow_deps k env n py (dget (fst st') task []) [] st')"
    using assms(2) by (intro follow_deps_gives) auto
qed

lemma all_task_deps_gives:
  "gives_only (\<lambda>st. open_deps {} st \<and> set tasks \<subseteq> set (dkeys (fst st))) (mfold (task_deps_of k env n py) tasks ([], []))"
proof -
  have "gives_only (\<lambda>st. open_deps {} st \<and> {} \<union> set tasks \<subseteq> set (dkeys (fst st))) (mfold (task_deps_of k env n py) tasks ([], []))"
    by (rule gives_only_mfold, use task_deps_gives in blast) (simp add: open_deps_def dget_def dkeys_def)
  then show ?thesis by simp
qed

text \<open>Ignored names are nobody's dependency.\<close>

definition none_ignored :: "string list \<Rightarrow> gendeps \<Rightarrow> bool" where
  "none_ignored ignored gendeps \<longleftrightarrow> (\<forall>k. set (dget gendeps k []) \<inter> set ignored = {})"

lemma build_dependencies_ignored:
  "gives_only (\<lambda>(ds, v). set ds \<inter> set (se_ignored env) = {}) (build_dependencies env n py key)"
proof -
  have main: "gives_only Q (in_main m)" if "gives_only Q m" for Q and m :: "'a ds"
    using that by (fastforce simp: gives_only_def in_main_def split: prod.splits)
  have flag: "gives_only (\<lambda>(ds, v). set ds \<inter> set (se_ignored env) = {}) (flag_value_deps env n py key)"
    unfolding flag_value_deps_def
    by (auto split: list.split intro!: gives_only_return gives_only_raise gives_only_bind [OF gives_only_any] simp: without_all_def)
  have named: "gives_only (\<lambda>(ds, v). set ds \<inter> set (se_ignored env) = {}) (named_deps env n py key)"
    unfolding named_deps_def Let_def
    by (auto intro!: gives_only_return gives_only_bind [OF gives_only_any] simp: without_all_def)
  show ?thesis unfolding build_dependencies_def
    by (auto intro!: gives_only_return gives_only_raise gives_only_bind [OF gives_only_any] main [OF flag] named
        simp: without_all_def split: option.split prod.split)
qed

lemma need_deps_ignored:
  assumes "none_ignored (se_ignored env) (fst st)"
  shows "gives_only (\<lambda>st'. none_ignored (se_ignored env) (fst st')) (need_deps env n py key st)"
proof (cases st)
  case (Pair g vals)
  show ?thesis unfolding need_deps_def Pair prod.case
    by (rule gives_only_bind [OF build_dependencies_ignored], unfold split_paired_all prod.case, rule gives_only_return)
      (use assms in \<open>auto simp: Pair none_ignored_def\<close>)
qed

lemma task_deps_ignored:
  assumes "none_ignored (se_ignored env) (fst st)"
  shows "gives_only (\<lambda>st'. none_ignored (se_ignored env) (fst st')) (task_deps_of k env n py task st)"
proof -
  let ?ok = "\<lambda>st. none_ignored (se_ignored env) (fst st)"
  have one: "gives_only (\<lambda>acc. ?ok (snd acc)) (follow_dep env n py dep acc)" if "?ok (snd acc)" for dep acc
  proof -
    obtain new st where acc: "acc = (new, st)" by (cases acc)
    have "gives_only ?ok (if has_key (fst st) dep then mreturn st else need_deps env n py dep st)"
      using that acc need_deps_ignored [of env st n py dep] by (auto intro!: gives_only_return)
    then show ?thesis unfolding follow_dep_def acc prod.case by (rule gives_only_bind) (auto intro!: gives_only_return)
  qed
  have all: "gives_only (\<lambda>acc. ?ok (snd acc)) (mfold (follow_dep env n py) ds acc)" if "?ok (snd acc)" for ds acc
    using gives_only_mfold [where P = "\<lambda>_ acc. ?ok (snd acc)" and xs = ds and y = acc] one that by blast
  have rounds: "gives_only ?ok (follow_deps k env n py new seen st)" if "?ok st" for k new seen st
    using that
  proof (induction k arbitrary: new seen st)
    case (Suc k)
    have "gives_only ?ok (mbind (mfold (follow_dep env n py) new ([], st))
        (\<lambda>(new', st'). follow_deps k env n py (without_all (sunion seen new) new') (sunion seen new) st'))"
      by (rule gives_only_bind [OF all]) (use Suc in \<open>auto split: prod.split\<close>)
    then show ?case using Suc.prems by (auto simp: Let_def intro!: gives_only_return)
  qed (simp add: gives_only_raise)
  show ?thesis unfolding task_deps_of_def by (rule gives_only_bind [OF need_deps_ignored [OF assms]]) (rule rounds)
qed

lemma all_task_deps_ignored:
  "gives_only (\<lambda>st. none_ignored (se_ignored env) (fst st)) (mfold (task_deps_of k env n py) tasks ([], []))"
  by (rule gives_only_mfold [where P = "\<lambda>_ st. none_ignored (se_ignored env) (fst st)"], erule task_deps_ignored)
    (simp add: none_ignored_def dget_def)

lemma reaches_not_ignored: "none_ignored ignored g \<Longrightarrow> reaches g a \<inter> set ignored = {}"
  using reaches_least [of g a "- set ignored"] by (auto simp: none_ignored_def)

lemma generate_dependencies_gives:
  "gives_only (\<lambda>(tasks, gendeps, vals). closed_deps gendeps \<and> set (dkeys gendeps) = set (dkeys vals) \<and> set tasks \<subseteq> set (dkeys gendeps) \<and>
       none_ignored ignored gendeps)
     (generate_dependencies k parser n py ignored)"
proof -
  have last: "gives_only (\<lambda>(tasks, gendeps, vals). closed_deps gendeps \<and> set (dkeys gendeps) = set (dkeys vals) \<and> set tasks \<subseteq> set (dkeys gendeps) \<and>
       none_ignored ignored gendeps)
     (\<lambda>d. case mfold (task_deps_of k env n py) tasklist ([], []) (d, c) of
            (r, (d, c)) \<Rightarrow> (rbind r (\<lambda>(dps, vals). Inr (tasklist, dps, vals)), d))" if "se_ignored env = ignored" for env tasklist c
    using all_task_deps_gives [where env = env and k = k and n = n and py = py and tasks = tasklist]
      all_task_deps_ignored [where env = env and k = k and n = n and py = py and tasks = tasklist] that unfolding gives_only_def open_deps_closed
    by (fastforce simp: rbind_eq_Inr split: prod.splits)
  show ?thesis unfolding generate_dependencies_def Let_def
    by (intro gives_only_bind [OF gives_only_any] gives_only_read last) simp
qed

section \<open>Signatures\<close>

text \<open>C22: what \<open>generate_dependencies\<close> finds, \<open>generate_dependency_hash\<close> can hash: every name that it meets has an entry and
  its rounds end. The dependencies of a task are exactly the names that it reaches, and its base hash is the hash of its value
  followed by the sorted names with their values.\<close>

theorem signature_of_generated:
  assumes "fst (generate_dependencies k parser n py ignored d) = Inr (tasks, gendeps, vals)"
    and "\<And>t w. t \<in> set tasks \<Longrightarrow> map_of vals t = Some (Some w) \<Longrightarrow> \<exists>s. w = Text s"
  shows "\<exists>taskdeps basehash. generate_dependency_hash sha256 py tasks gendeps vals fn = Inr (taskdeps, basehash) \<and>
    set (dkeys taskdeps) = set tasks \<and>
    (\<forall>t \<in> set tasks.
       (\<exists>seen. map_of taskdeps t = Some seen \<and> distinct seen \<and> set seen = reaches gendeps t) \<and>
       map_of basehash (fn @ '':'' @ t) = Some (sha256 (signature_text py vals t (reaches gendeps t))))"
proof -
  have closed: "closed_deps gendeps" and keys: "set (dkeys gendeps) = set (dkeys vals)" and tasks: "set tasks \<subseteq> set (dkeys gendeps)"
    using generate_dependencies_gives [where k = k and parser = parser and n = n and py = py and ignored = ignored] assms(1) unfolding gives_only_def
    by (cases "generate_dependencies k parser n py ignored d", fastforce)+
  obtain out where out: "rfold (hash_of_task sha256 py gendeps vals fn) tasks ([], []) = Inr out"
    using hash_of_tasks_total [OF closed, of vals tasks sha256 py fn "([], [])"] keys tasks assms(2) by blast
  then show ?thesis
    using hash_of_tasks_hashed [OF out] unfolding generate_dependency_hash_def
    by (cases out) (auto simp: hashed_def dict_simps dkeys_def)
qed

definition sample_parser :: codeparser where
  "sample_parser = \<lparr>cp_python = (\<lambda>v. Inr ([], [], [])), cp_shell = (\<lambda>v. Inr [''B'']), cp_modules = []\<rparr>"

definition sample_signed :: dstore where
  "sample_signed = snd (mthen (mfor (\<lambda>(k, v). setVar 3 sample_python k v False)
     [(''A'', Text ''${B}''), (''B'', Text ''1''), (''C'', Text ''2''), (''__exportlist'', Names []), (''__BBTASKS'', Names [''do_a'']),
      (''do_a'', Text ''echo ${A}'')])
     (setVarFlag 3 sample_python ''do_a'' ''func'' (Text ''1'')) new_store)"

definition sample_gendeps :: gendeps where
  "sample_gendeps = [(''do_a'', [''A'', ''B'']), (''A'', [''B'']), (''B'', [])]"

definition sample_values :: varvals where
  "sample_values = [(''do_a'', Some (Text ''echo ${A}'')), (''A'', Some (Text ''${B}'')), (''B'', Some (Text ''1''))]"

lemma signature_of_generated_witness:
  "\<exists>taskdeps basehash. generate_dependency_hash (\<lambda>t. t) sample_python [''do_a''] sample_gendeps sample_values ''f'' = Inr (taskdeps, basehash) \<and>
     set (dkeys taskdeps) = {''do_a''}"
proof -
  have "fst (generate_dependencies 9 sample_parser 6 sample_python [] sample_signed) = Inr ([''do_a''], sample_gendeps, sample_values)"
    by code_simp
  then show ?thesis using signature_of_generated [of 9 sample_parser 6 sample_python "[]" sample_signed "[''do_a'']" sample_gendeps sample_values "\<lambda>t. t" "''f''"]
    by (auto simp: sample_values_def)
qed

text \<open>The base hash of a task is decided by the task and what it reaches. Another set of dependencies that agrees there,
  in whatever order they were found, and the values of those names give the same dependencies and the same hash.\<close>

theorem signature_is_local:
  assumes "generate_dependency_hash sha256 py tasks gendeps vals fn = Inr (taskdeps, basehash)" and "task \<in> set tasks"
    and "generate_dependency_hash sha256 py tasks' gendeps' vals' fn = Inr (taskdeps', basehash')" and "task \<in> set tasks'"
    and "\<And>x. x \<in> insert task (reaches gendeps task) \<Longrightarrow> set (dget gendeps x []) = set (dget gendeps' x []) \<and> dget vals x None = dget vals' x None"
  shows "set (dget taskdeps task []) = set (dget taskdeps' task []) \<and>
    map_of basehash (fn @ '':'' @ task) = map_of basehash' (fn @ '':'' @ task)"
proof -
  have same: "reaches gendeps task = reaches gendeps' task" by (rule reaches_agree) (use assms(5) in blast)
  have "hashed sha256 py gendeps vals fn task (taskdeps, basehash)"
    using hash_of_tasks_hashed assms(1,2) unfolding generate_dependency_hash_def by blast
  moreover have "hashed sha256 py gendeps' vals' fn task (taskdeps', basehash')"
    using hash_of_tasks_hashed assms(3,4) unfolding generate_dependency_hash_def by blast
  ultimately show ?thesis
    using signature_text_agree [of task gendeps vals vals' py, OF assms(5) [THEN conjunct2]] same
    by (auto simp: hashed_def dget_def)
qed

definition sample_gendeps2 :: gendeps where
  "sample_gendeps2 = [(''C'', [''do_a'']), (''B'', []), (''A'', [''B'']), (''do_a'', [''B'', ''A''])]"

definition sample_values2 :: varvals where
  "sample_values2 = [(''do_a'', Some (Text ''echo ${A}'')), (''B'', Some (Text ''1'')), (''C'', Some (Text ''x'')), (''A'', Some (Text ''${B}''))]"

lemma signature_is_local_witness:
  "\<exists>td bh td' bh'. generate_dependency_hash (\<lambda>t. t) sample_python [''do_a''] sample_gendeps sample_values ''f'' = Inr (td, bh) \<and>
     generate_dependency_hash (\<lambda>t. t) sample_python [''C'', ''do_a''] sample_gendeps2 sample_values2 ''f'' = Inr (td', bh') \<and>
     map_of bh ''f:do_a'' = map_of bh' ''f:do_a''"
proof -
  have "case generate_dependency_hash (\<lambda>t. t) sample_python [''do_a''] sample_gendeps sample_values ''f'' of Inl e \<Rightarrow> False | Inr out \<Rightarrow> True" by code_simp
  then obtain td bh where r: "generate_dependency_hash (\<lambda>t. t) sample_python [''do_a''] sample_gendeps sample_values ''f'' = Inr (td, bh)"
    by (auto split: sum.splits)
  have "case generate_dependency_hash (\<lambda>t. t) sample_python [''C'', ''do_a''] sample_gendeps2 sample_values2 ''f'' of Inl e \<Rightarrow> False | Inr out \<Rightarrow> True" by code_simp
  then obtain td' bh' where r': "generate_dependency_hash (\<lambda>t. t) sample_python [''C'', ''do_a''] sample_gendeps2 sample_values2 ''f'' = Inr (td', bh')"
    by (auto split: sum.splits)
  have "reaches sample_gendeps ''do_a'' \<subseteq> {''A'', ''B''}"
    by (rule reaches_least) (auto simp: sample_gendeps_def dget_def)
  then have agree: "x \<in> insert ''do_a'' (reaches sample_gendeps ''do_a'') \<Longrightarrow>
      set (dget sample_gendeps x []) = set (dget sample_gendeps2 x []) \<and> dget sample_values x None = dget sample_values2 x None" for x
    by (auto simp: sample_gendeps_def sample_gendeps2_def sample_values_def sample_values2_def dget_def)
  have "map_of bh (''f'' @ '':'' @ ''do_a'') = map_of bh' (''f'' @ '':'' @ ''do_a'')"
    using signature_is_local [OF r _ r' _ agree] by simp
  then show ?thesis using r r' by auto
qed

text \<open>Of the removals of a value only the first in order brings dependencies. The names that the texts of the others refer
  to are lost, although the texts count in the value; and no function that a removal calls is ever a dependency.\<close>

lemma later_removals_forgotten:
  assumes "handle_remove n py skipped True (r # rs) v dps d = (Inr (v', dps'), d')"
  shows "\<exists>p d1. expandWithRefs n py (getVarFlag n py) (Some (Text r)) [] d = (Inr p, d1) \<and> dps' = sunion dps (vp_refs p)"
proof -
  have rest: "dps' = dps" if "handle_remove n py skipped False rs v dps d = (Inr (v', dps'), d')" for rs v dps dps' d
    using that by (induction rs arbitrary: v d) (auto simp: mbind_def meth_defs split: prod.splits sum.splits)
  show ?thesis using assms rest by (auto simp: mbind_def split: prod.splits sum.splits)
qed

lemma later_removal_lost:
  "\<exists>v' dps' d'. handle_remove 6 sample_python [] True [''${A}'', ''${B}''] ''x'' [] sample_signed = (Inr (v', dps'), d') \<and> ''B'' \<notin> set dps'"
proof -
  let ?run = "handle_remove 6 sample_python [] True [''${A}'', ''${B}''] ''x'' [] sample_signed"
  have "fst ?run = Inr (''x'' @ [CHR 0x0A] @ ''_remove of ${A}'' @ [CHR 0x0A] @ ''_remove of ${B}'', [''A''])" by code_simp
  then show ?thesis
    using later_removals_forgotten [of 6 sample_python "[]" "''${A}''" "[''${B}'']" "''x''" "[]" sample_signed]
    by (cases ?run) auto
qed

end
