(* ===== verification/SigGen.thy ===== *)
theory SigGen
  imports SigData Tid Paths DataCache "HOL-Library.Product_Lexorder"
begin

text \<open>
  The signature generators of \<open>bb/siggen.py\<close> and of \<open>oe/sstatesig.py\<close>: the state they keep for the tasks, the hashes of the
  tasks, the unique hashes that a server may give in their place, and the names of stamps. The classes build on each other by
  overriding methods; here one function per method says which class does what.

  The hash function, random numbers, the files that taint a task, the checksums of files, and the server are parameters. What
  they find may change from one call to the other, so they read and return the state of the world.
\<close>

section \<open>Classes and their state\<close>

datatype sigclass = SigBasic | SigBasicHash | TestEquivHash | OEBasicHash | OEEquivHash

text \<open>Which of the mixed-in classes a generator has.\<close>

definition hash_stamps :: "sigclass \<Rightarrow> bool" where
  "hash_stamps c \<longleftrightarrow> c \<noteq> SigBasic"

definition asks_server :: "sigclass \<Rightarrow> bool" where
  "asks_server c \<longleftrightarrow> c = TestEquivHash \<or> c = OEEquivHash"

definition locks_hashes :: "sigclass \<Rightarrow> bool" where
  "locks_hashes c \<longleftrightarrow> c = OEBasicHash \<or> c = OEEquivHash"

text \<open>What is fixed once the generator was made. \<open>sc_server\<close> answers queries of methods and hashes, \<open>None\<close> when it cannot be
  reached; \<open>sc_report\<close> is \<open>report_unihash_equiv\<close> of the client, whose answer may be empty.\<close>

record 'w sigconf =
  sc_class :: sigclass
  sc_sha256 :: "string \<Rightarrow> string"
  sc_uuid4 :: "'w \<Rightarrow> string \<times> 'w"
  sc_read_taint :: "'w \<Rightarrow> string \<Rightarrow> string option"
  sc_write_taint :: "string \<Rightarrow> string \<Rightarrow> 'w \<Rightarrow> 'w"
  sc_remove :: "string \<Rightarrow> 'w \<Rightarrow> 'w"
  sc_checksums :: "string option \<Rightarrow> string \<Rightarrow> 'w \<Rightarrow> (string \<times> string) list \<times> 'w"
  sc_server :: "(string \<times> string) list \<Rightarrow> 'w \<Rightarrow> string option list option \<times> 'w"
  sc_report :: "string \<Rightarrow> string \<Rightarrow> string \<Rightarrow> 'w \<Rightarrow> string option option \<times> 'w"
  sc_exists :: "string list \<Rightarrow> 'w \<Rightarrow> bool list \<times> 'w"
  sc_ignored_tasks :: "(string \<Rightarrow> bool) option"
  sc_method :: string
  sc_extramethod :: "(string, string) dict"
  sc_lockedsigs :: "(string, (string, string \<times> string) dict) dict"
  sc_unihashmap :: "(string \<times> string, string \<times> string) dict"

record 'w sigstate =
  st_basehash :: "(string, string) dict"
  st_taskhash :: "(string, string) dict"
  st_unihash :: "(string, string option) dict"
  st_runtaskdeps :: "(string, (string \<times> string) list) dict"
  st_file_checksum_values :: "(string, (string \<times> string) list) dict"
  st_taints :: "(string, string) dict"
  st_setscenetasks :: "string list"
  st_unitaskhashes :: "(string, string \<times> string) dict"
  st_tidtopn :: "(string, string) dict"
  st_lockedhashes :: "(string, string option) dict"
  st_lockedpnmap :: "(string, string) dict"
  st_lockedhashfn :: "(string, string) dict"
  st_unlockedrecipes :: "string list"
  st_internal :: bool
  st_mismatches :: "string list"
  st_abisaferecipes :: "string list"
  st_saferecipedeps :: "string list"
  st_exists :: "string list"
  st_world :: 'w

type_synonym ('w, 'a) sm = "('w sigstate, 'a) meth"
type_synonym datacaches = "(string, dcache) dict"

text \<open>\<open>d[k]\<close>\<close>

definition item :: "(string, 'v) dict \<Rightarrow> string \<Rightarrow> 'v res" where
  "item d k = (case map_of d k of None \<Rightarrow> Inl (KeyError k) | Some v \<Rightarrow> Inr v)"

definition s_item :: "('w sigstate \<Rightarrow> (string, 'v) dict) \<Rightarrow> string \<Rightarrow> ('w, 'v) sm" where
  "s_item f k = mread (\<lambda>s. mlift (item (f s) k))"

definition in_world :: "('w \<Rightarrow> 'a \<times> 'w) \<Rightarrow> ('w, 'a) sm" where
  "in_world f s = (case f (st_world s) of (x, w) \<Rightarrow> (Inr x, s\<lparr>st_world := w\<rparr>))"

definition build_pnid :: "string \<Rightarrow> string \<Rightarrow> string \<Rightarrow> string" where
  "build_pnid mc pn taskname = (if mc \<noteq> [] then ''mc:'' @ mc @ '':'' @ pn @ '':'' @ taskname else pn @ '':'' @ taskname)"

section \<open>Unique hashes\<close>

text \<open>The key of a task in the table of unique hashes, which outlives the build.\<close>

definition unihash_key :: "string \<Rightarrow> ('w, string) sm" where
  "unihash_key tid =
     mbind (mlift (split_tid_mcfn tid)) (\<lambda>(mc, fn, taskname, taskfn).
     mbind (s_item st_tidtopn tid) (\<lambda>pn. mreturn (mc @ '':'' @ pn @ '':'' @ taskname)))"

definition siggen_set_unihash :: "string \<Rightarrow> string \<Rightarrow> ('w, unit) sm" where
  "siggen_set_unihash tid unihash =
     mbind (unihash_key tid) (\<lambda>key.
     mbind (s_item st_taskhash tid) (\<lambda>taskhash.
       mupd (\<lambda>s. s\<lparr>st_unitaskhashes := AList.update key (taskhash, unihash) (st_unitaskhashes s),
                   st_unihash := AList.update tid (Some unihash) (st_unihash s)\<rparr>)))"

text \<open>\<open>_get_unihash\<close>; an empty \<open>checkkey\<close> is none.\<close>

definition known_unihash :: "string \<Rightarrow> string \<Rightarrow> ('w, string option) sm" where
  "known_unihash tid checkkey = mread (\<lambda>s.
     if \<not> has_key (st_tidtopn s) tid then mreturn None
     else mbind (unihash_key tid) (\<lambda>key.
       case map_of (st_unitaskhashes s) key of
         None \<Rightarrow> mreturn None
       | Some (taskhash, unihash) \<Rightarrow>
           mbind (if checkkey = [] then s_item st_taskhash tid else mreturn checkkey) (\<lambda>checkkey.
             mreturn (if taskhash \<noteq> checkkey then None else Some unihash))))"

definition server_cached_unihash :: "string \<Rightarrow> ('w, string option) sm" where
  "server_cached_unihash tid =
     mbind (s_item st_taskhash tid) (\<lambda>taskhash. mread (\<lambda>s.
       if st_setscenetasks s \<noteq> [] \<and> tid \<notin> set (st_setscenetasks s) then
         mthen (mupd (\<lambda>s. s\<lparr>st_unihash := AList.update tid None (st_unihash s)\<rparr>)) (mreturn (Some taskhash))
       else mbind (known_unihash tid []) (\<lambda>u. case u of
              None \<Rightarrow> mreturn None
            | Some unihash \<Rightarrow>
                mthen (mupd (\<lambda>s. s\<lparr>st_unihash := AList.update tid (Some unihash) (st_unihash s)\<rparr>)) (mreturn (Some unihash)))))"

text \<open>A locked hash is the answer, except while the generator itself asks.\<close>

definition locked_hash :: "'w sigstate \<Rightarrow> string \<Rightarrow> string option" where
  "locked_hash s tid = (case map_of (st_lockedhashes s) tid of Some (Some h) \<Rightarrow> if h = [] then None else Some h | _ \<Rightarrow> None)"

definition base_cached_unihash :: "'w sigconf \<Rightarrow> string \<Rightarrow> ('w, string option) sm" where
  "base_cached_unihash cf tid = (if asks_server (sc_class cf) then server_cached_unihash tid else mreturn None)"

definition get_cached_unihash :: "'w sigconf \<Rightarrow> string \<Rightarrow> ('w, string option) sm" where
  "get_cached_unihash cf tid =
     (if \<not> locks_hashes (sc_class cf) then base_cached_unihash cf tid
      else mread (\<lambda>s.
        if locked_hash s tid \<noteq> None \<and> \<not> st_internal s then mreturn (locked_hash s tid)
        else mbind (mlift (split_tid_mcfn tid)) (\<lambda>(mc, f, task, fn).
             mbind (s_item st_lockedpnmap fn) (\<lambda>recipename.
               case map_of (sc_unihashmap cf) (recipename, task) of
                 None \<Rightarrow> base_cached_unihash cf tid
               | Some (taskhash, unihash) \<Rightarrow>
                   mbind (s_item st_taskhash tid) (\<lambda>current.
                     if taskhash = current then mreturn (Some unihash) else base_cached_unihash cf tid)))))"

definition get_method :: "'w sigconf \<Rightarrow> string \<Rightarrow> string" where
  "get_method cf tid = sc_method cf @ dget (sc_extramethod cf) tid []"

section \<open>Asking the server\<close>

definition split_cached :: "'w sigconf \<Rightarrow> string \<Rightarrow> (string, string) dict \<times> string list \<Rightarrow> ('w, (string, string) dict \<times> string list) sm" where
  "split_cached cf tid acc =
     (case acc of (result, query_tids) \<Rightarrow>
      mbind (get_cached_unihash cf tid) (\<lambda>u. mreturn (case u of
          Some unihash \<Rightarrow> if unihash = [] then (result, query_tids @ [tid]) else (AList.update tid unihash result, query_tids)
        | None \<Rightarrow> (result, query_tids @ [tid]))))"

definition method_query :: "'w sigconf \<Rightarrow> string \<Rightarrow> (string \<times> string) list \<Rightarrow> ('w, (string \<times> string) list) sm" where
  "method_query cf tid query = mbind (s_item st_taskhash tid) (\<lambda>h. mreturn (query @ [(get_method cf tid, h)]))"

text \<open>A task for which the server knows no unique hash has its own hash as one.\<close>

definition settle_unihash :: "string option list \<Rightarrow> nat \<times> string \<Rightarrow> (string, string) dict \<Rightarrow> ('w, (string, string) dict) sm" where
  "settle_unihash answers it result =
     (case it of (idx, tid) \<Rightarrow>
      mbind (s_item st_taskhash tid) (\<lambda>taskhash.
      mbind (if answers = [] then mreturn taskhash
             else if idx \<ge> length answers then mraise IndexError
             else mreturn (case answers ! idx of None \<Rightarrow> taskhash | Some u \<Rightarrow> if u = [] then taskhash else u)) (\<lambda>unihash.
      mthen (siggen_set_unihash tid unihash) (mreturn (AList.update tid unihash result)))))"

definition server_unihashes :: "'w sigconf \<Rightarrow> string list \<Rightarrow> ('w, (string, string) dict) sm" where
  "server_unihashes cf tids =
     mbind (mfold (split_cached cf) tids ([], [])) (\<lambda>(result, query_tids).
     mbind (if query_tids = [] then mreturn []
            else mbind (mfold (method_query cf) query_tids []) (\<lambda>query.
                 mbind (in_world (sc_server cf query)) (\<lambda>a. mreturn (case a of None \<Rightarrow> [] | Some answers \<Rightarrow> answers)))) (\<lambda>answers.
       mfold (settle_unihash answers) (enumerate 0 query_tids) result))"

definition plain_unihash :: "'w sigconf \<Rightarrow> string \<Rightarrow> ('w, string) sm" where
  "plain_unihash cf tid =
     mbind (get_cached_unihash cf tid) (\<lambda>u. case u of
         Some unihash \<Rightarrow> if unihash = [] then s_item st_taskhash tid else mreturn unihash
       | None \<Rightarrow> s_item st_taskhash tid)"

definition get_unihashes :: "'w sigconf \<Rightarrow> string list \<Rightarrow> ('w, (string, string) dict) sm" where
  "get_unihashes cf tids =
     (if asks_server (sc_class cf) then server_unihashes cf tids
      else mfold (\<lambda>tid result. mbind (plain_unihash cf tid) (\<lambda>u. mreturn (AList.update tid u result))) tids [])"

definition get_unihash :: "'w sigconf \<Rightarrow> string \<Rightarrow> ('w, string) sm" where
  "get_unihash cf tid =
     (if asks_server (sc_class cf) then mbind (server_unihashes cf [tid]) (\<lambda>result. mlift (item result tid))
      else plain_unihash cf tid)"

text \<open>\<open>unihashes_exist\<close>: which of the hashes the server has. Those that it had once are not asked for again.\<close>

definition note_exists :: "(string, string) dict \<Rightarrow> bool list \<Rightarrow> nat \<times> string \<Rightarrow> (string, bool) dict \<Rightarrow> ('w, (string, bool) dict) sm" where
  "note_exists query answers it result =
     (case it of (idx, key) \<Rightarrow>
      if idx \<ge> length answers then mraise IndexError
      else mthen (if answers ! idx then mupd (\<lambda>s. s\<lparr>st_exists := sadd (dget query key []) (st_exists s)\<rparr>) else mreturn ())
             (mreturn (AList.update key (answers ! idx) result)))"

definition unihashes_exist :: "'w sigconf \<Rightarrow> (string, string) dict \<Rightarrow> ('w, (string, bool) dict) sm" where
  "unihashes_exist cf query = mread (\<lambda>s.
     let known = filter (\<lambda>(key, u). u \<in> set (st_exists s)) query;
         query_keys = map fst (filter (\<lambda>(key, u). u \<notin> set (st_exists s)) query)
     in mbind (if query_keys = [] then mreturn [] else in_world (sc_exists cf (map (\<lambda>k. dget query k []) query_keys))) (\<lambda>answers.
          mfold (note_exists query answers) (enumerate 0 query_keys) (map (\<lambda>(key, u). (key, True)) known)))"

definition set_setscene_tasks :: "string list \<Rightarrow> 'w sigstate \<Rightarrow> 'w sigstate" where
  "set_setscene_tasks setscene_tasks s = s\<lparr>st_setscenetasks := remdups setscene_tasks\<rparr>"

text \<open>\<open>report_unihash_equiv\<close>: the server is told that a task is as good as another; whether the unique hash changed.\<close>

definition report_unihash_equiv :: "'w sigconf \<Rightarrow> string \<Rightarrow> string \<Rightarrow> string \<Rightarrow> string \<Rightarrow> ('w, bool) sm" where
  "report_unihash_equiv cf tid taskhash wanted_unihash current_unihash =
     mbind (in_world (sc_report cf taskhash (get_method cf tid) wanted_unihash)) (\<lambda>a.
       case a of
         Some (Some finalunihash) \<Rightarrow>
           if finalunihash = current_unihash then mreturn False
           else if finalunihash = wanted_unihash then mthen (siggen_set_unihash tid finalunihash) (mreturn True)
           else mreturn False
       | _ \<Rightarrow> mreturn False)"

section \<open>Which dependencies count\<close>

definition ignored_dep :: "'w sigconf \<Rightarrow> string \<Rightarrow> string \<Rightarrow> bool" where
  "ignored_dep cf recipename depname =
     (case sc_ignored_tasks cf of None \<Rightarrow> False | Some matches \<Rightarrow> \<not> matches recipename \<and> matches depname)"

definition inherited_text :: "datacaches \<Rightarrow> string \<Rightarrow> string \<Rightarrow> string res" where
  "inherited_text dcs mc fn = rbind (item dcs mc) (\<lambda>dc. rbind (item (inherits dc) fn) (\<lambda>classes. Inr (join '' '' classes)))"

definition is_kernel :: "datacaches \<Rightarrow> string \<Rightarrow> string \<Rightarrow> bool res" where
  "is_kernel dcs mc fn =
     rbind (inherited_text dcs mc fn) (\<lambda>t.
       Inr (contains ''/module-base.bbclass'' t \<or> contains ''/linux-kernel-base.bbclass'' t))"

definition inherits_class :: "string \<Rightarrow> datacaches \<Rightarrow> string \<Rightarrow> string \<Rightarrow> bool res" where
  "inherits_class cls dcs mc fn = rbind (inherited_text dcs mc fn) (\<lambda>t. Inr (contains cls t))"

definition for_target :: "string \<Rightarrow> bool" where
  "for_target recipename \<longleftrightarrow>
     \<not> suffix ''-native'' recipename \<and> \<not> contains ''-cross-'' recipename \<and> \<not> prefix ''nativesdk-'' recipename"

definition recommends_modules :: "dcache \<Rightarrow> string \<Rightarrow> bool" where
  "recommends_modules dc fn = list_ex (\<lambda>(pkg, names). contains ''kernel-module-'' (join '' '' names)) (dget (runrecs dc) fn [])"

text \<open>\<open>a and not b\<close>, where \<open>b\<close> may raise and is looked at only if \<open>a\<close> holds.\<close>

definition and_not :: "bool res \<Rightarrow> bool res \<Rightarrow> bool res" where
  "and_not a b = rbind a (\<lambda>x. if x then rbind b (\<lambda>y. Inr (\<not> y)) else Inr False)"

definition packagegroup_dep :: "datacaches \<Rightarrow> string \<Rightarrow> string \<Rightarrow> string \<Rightarrow> bool res" where
  "packagegroup_dep dcs mc fn depname =
     rbind (inherits_class ''/packagegroup.bbclass'' dcs mc fn) (\<lambda>x.
       if x then rbind (inherits_class ''/allarch.bbclass'' dcs mc fn) (\<lambda>y. Inr (y \<and> \<not> suffix ''-native'' depname)) else Inr False)"

definition abisafe_dep :: "string list \<Rightarrow> datacaches \<Rightarrow> string \<Rightarrow> string \<Rightarrow> string \<Rightarrow> bool res" where
  "abisafe_dep abisafe dcs mc fn depname = and_not (Inr (depname \<in> set abisafe)) (inherits_class ''/image.bbclass'' dcs mc fn)"

definition kernel_dep :: "datacaches \<Rightarrow> string \<Rightarrow> string \<Rightarrow> string \<Rightarrow> string \<Rightarrow> bool res" where
  "kernel_dep dcs mc fn depmc depmcfn =
     (if dcs = [] then Inr False
      else rbind (and_not (is_kernel dcs depmc depmcfn) (is_kernel dcs mc fn)) (\<lambda>k.
        if k then rbind (item dcs mc) (\<lambda>dc. Inr (recommends_modules dc fn)) else Inr False))"

text \<open>\<open>sstate_rundepfilter\<close>: whether the dependency is kept.\<close>

definition sstate_rundepfilter :: "'w sigstate \<Rightarrow> string \<Rightarrow> string \<Rightarrow> string \<Rightarrow> string \<Rightarrow> string \<Rightarrow> datacaches \<Rightarrow> bool res" where
  "sstate_rundepfilter s fn recipename task dep depname dcs =
     rbind (split_tid_mcfn dep) (\<lambda>(depmc, f, deptaskname, depmcfn).
     let mc = fst (split_mc fn) in
     if task = ''do_rm_work'' then Inr False
     else if recipename = depname \<and> depmc = mc then Inr (\<not> (task = ''do_kernel_configme'' \<and> deptaskname = ''do_unpack_and_patch''))
     else if recipename @ ''->'' @ depname \<in> set (st_saferecipedeps s) then Inr False
     else if ''*->'' @ depname \<in> set (st_saferecipedeps s) \<and> recipename \<noteq> depname then Inr False
     else if \<not> for_target recipename then Inr True
     else rbind (packagegroup_dep dcs mc fn depname) (\<lambda>drop_group.
          if drop_group then Inr False
          else rbind (abisafe_dep (st_abisaferecipes s) dcs mc fn depname) (\<lambda>drop_safe.
               if drop_safe then Inr False
               else rbind (kernel_dep dcs mc fn depmc depmcfn) (\<lambda>drop_kernel. Inr (\<not> drop_kernel)))))"

definition rundep_check :: "'w sigconf \<Rightarrow> 'w sigstate \<Rightarrow> string \<Rightarrow> string \<Rightarrow> string \<Rightarrow> string \<Rightarrow> string \<Rightarrow> datacaches \<Rightarrow> bool res" where
  "rundep_check cf s fn recipename task dep depname dcs =
     (if locks_hashes (sc_class cf) then sstate_rundepfilter s fn recipename task dep depname dcs
      else Inr (\<not> ignored_dep cf recipename depname))"

section \<open>The hash of a task\<close>

definition sig_recipe_of :: "datacaches \<Rightarrow> string \<Rightarrow> string \<Rightarrow> string res" where
  "sig_recipe_of dcs mc fn = rbind (item dcs mc) (\<lambda>dc. item (pkg_fn dc) fn)"

definition prep_dep :: "'w sigconf \<Rightarrow> datacaches \<Rightarrow> string \<Rightarrow> string \<Rightarrow> string \<Rightarrow> string \<Rightarrow> string \<Rightarrow> ('w, unit) sm" where
  "prep_dep cf dcs mcfn recipename task tid dep =
     mbind (mlift (split_tid_mcfn dep)) (\<lambda>(depmc, f, deptask, depmcfn).
     mbind (mlift (sig_recipe_of dcs depmc depmcfn)) (\<lambda>dep_pn. mread (\<lambda>s.
     mbind (mlift (rundep_check cf s mcfn recipename task dep dep_pn dcs)) (\<lambda>keep.
       if \<not> keep then mreturn ()
       else if \<not> has_key (st_taskhash s) dep then
         mraise (Fatal (dep @ '' is not in taskhash, caller isn'' @ [CHR 0x27] @ ''t calling in dependency order?''))
       else mupd (\<lambda>s. s\<lparr>st_runtaskdeps := dappend tid (build_pnid depmc dep_pn deptask, dep) (st_runtaskdeps s)\<rparr>)))))"

definition prep_checksums :: "'w sigconf \<Rightarrow> dcache \<Rightarrow> string \<Rightarrow> string \<Rightarrow> string \<Rightarrow> string \<Rightarrow> ('w, unit) sm" where
  "prep_checksums cf dc mcfn recipename task tid =
     mbind (mlift (item (file_checksums dc) mcfn)) (\<lambda>flags.
       case map_of flags task of
         None \<Rightarrow> mreturn ()
       | Some files \<Rightarrow>
           mbind (in_world (sc_checksums cf files recipename)) (\<lambda>cs.
             mupd (\<lambda>s. s\<lparr>st_file_checksum_values := AList.update tid cs (st_file_checksum_values s)\<rparr>)))"

definition nostamp_text :: string where
  "nostamp_text = ''nostamp:''"

definition set_taint :: "string \<Rightarrow> string \<Rightarrow> ('w, unit) sm" where
  "set_taint tid taint = mupd (\<lambda>s. s\<lparr>st_taints := AList.update tid taint (st_taints s)\<rparr>)"

definition prep_taints :: "'w sigconf \<Rightarrow> dcache \<Rightarrow> string \<Rightarrow> string \<Rightarrow> string \<Rightarrow> ('w, unit) sm" where
  "prep_taints cf dc mcfn task tid =
     mbind (mlift (item (DataCache.task_deps dc) mcfn)) (\<lambda>taskdep.
     mthen (mread (\<lambda>s.
         if task_flag taskdep ''nostamp'' task = None \<or> prefix nostamp_text (dget (st_taints s) tid []) then mreturn ()
         else mbind (in_world (sc_uuid4 cf)) (\<lambda>u. set_taint tid (nostamp_text @ u))))
     (mbind (mlift (item (stamp dc) mcfn)) (\<lambda>stampbase. mread (\<lambda>s.
       case sc_read_taint cf (st_world s) (stampbase @ ''.'' @ task @ ''.taint'') of
         None \<Rightarrow> mreturn ()
       | Some taint \<Rightarrow> if taint = [] then mreturn () else set_taint tid taint))))"

definition prep_taskhash :: "'w sigconf \<Rightarrow> datacaches \<Rightarrow> string \<Rightarrow> string list \<Rightarrow> ('w, string list) sm" where
  "prep_taskhash cf dcs tid ds =
     mbind (mlift (split_tid_mcfn tid)) (\<lambda>(mc, f, task, mcfn).
     mbind (mlift (item dcs mc)) (\<lambda>dc.
     mbind (mlift (item (basetaskhash dc) tid)) (\<lambda>basehash.
     mthen (mupd (\<lambda>s. s\<lparr>st_basehash := AList.update tid basehash (st_basehash s),
                      st_runtaskdeps := AList.update tid [] (st_runtaskdeps s),
                      st_file_checksum_values := AList.update tid [] (st_file_checksum_values s)\<rparr>))
     (mbind (mlift (item (pkg_fn dc) mcfn)) (\<lambda>recipename.
     mthen (mupd (\<lambda>s. s\<lparr>st_tidtopn := AList.update tid recipename (st_tidtopn s)\<rparr>))
     (mthen (mfor (prep_dep cf dcs mcfn recipename task tid) ds)
     (mthen (prep_checksums cf dc mcfn recipename task tid)
     (mthen (prep_taints cf dc mcfn task tid)
     (mbind (s_item st_runtaskdeps tid) (\<lambda>rds. mreturn (fold sadd (map snd rds) [])))))))))))"

text \<open>The part of a path that counts.\<close>

definition clean_checksum_file_path :: "string \<times> string \<Rightarrow> string" where
  "clean_checksum_file_path c =
     (case c of (f, cs) \<Rightarrow> if contains ''/./'' f then ''./'' @ split_text ''/./'' f ! 1 else basename f)"

definition checksum_data :: "string \<times> string \<Rightarrow> string" where
  "checksum_data c =
     (case c of (f, cs) \<Rightarrow>
        if cs = [] then [] else (if contains ''/./'' f then ''./'' @ split_text ''/./'' f ! 1 else []) @ cs)"

definition taint_data :: "string \<Rightarrow> string" where
  "taint_data taint = (if prefix nostamp_text taint then drop 8 taint else taint)"

definition add_dep_hash :: "'w sigconf \<Rightarrow> string \<times> string \<Rightarrow> string \<Rightarrow> ('w, string) sm" where
  "add_dep_hash cf dep text = mbind (get_unihash cf (snd dep)) (\<lambda>u. mreturn (text @ u))"

definition base_taskhash :: "'w sigconf \<Rightarrow> string \<Rightarrow> ('w, string) sm" where
  "base_taskhash cf tid =
     mbind (s_item st_basehash tid) (\<lambda>basehash.
     mbind (s_item st_runtaskdeps tid) (\<lambda>rds.
     mbind (mfold (add_dep_hash cf) (sort rds) basehash) (\<lambda>text.
     mbind (s_item st_file_checksum_values tid) (\<lambda>cs. mread (\<lambda>s.
     let h = sc_sha256 cf (text @ concat (map checksum_data (sort_key clean_checksum_file_path cs)) @
               (case map_of (st_taints s) tid of None \<Rightarrow> [] | Some t \<Rightarrow> taint_data t))
     in mthen (mupd (\<lambda>s. s\<lparr>st_taskhash := AList.update tid h (st_taskhash s)\<rparr>)) (mreturn h))))))"

section \<open>Locked hashes\<close>

text \<open>Whether a recipe is built from source although its hash is locked: if it is named, or if the text of a name occurs in that
  of a dependency.\<close>

definition dep_recipes :: "datacaches \<Rightarrow> string \<Rightarrow> string list \<Rightarrow> string list res" where
  "dep_recipes dcs mc ds =
     rmap (\<lambda>x. rbind (split_tid_mcfn x) (\<lambda>(depmc, f, t, depfn). sig_recipe_of dcs depmc depfn)) (filter (\<lambda>x. mc = mc_from_tid x) ds)"

definition check_unlocked :: "datacaches \<Rightarrow> string \<Rightarrow> string \<Rightarrow> string list \<Rightarrow> ('w, bool) sm" where
  "check_unlocked dcs mc recipename ds = mread (\<lambda>s.
     if recipename \<in> set (st_unlockedrecipes s) then mreturn True
     else mbind (mlift (dep_recipes dcs mc ds)) (\<lambda>depnames.
       if list_ex (\<lambda>y. list_ex (\<lambda>x. contains x y) (st_unlockedrecipes s)) depnames then
         mthen (mupd (\<lambda>s. s\<lparr>st_unlockedrecipes := sadd recipename (st_unlockedrecipes s)\<rparr>)) (mreturn True)
       else mreturn False))"

definition mismatch_text :: "string \<Rightarrow> string \<Rightarrow> string \<Rightarrow> string \<Rightarrow> string \<Rightarrow> string" where
  "mismatch_text recipename task h h_locked var =
     ''The '' @ recipename @ '':'' @ task @ '' sig is computed to be '' @ h @ '', but the sig is locked to '' @ h_locked @ '' in '' @ var"

definition lock_hash :: "'w sigconf \<Rightarrow> string \<Rightarrow> string \<Rightarrow> string \<Rightarrow> string \<Rightarrow> string \<Rightarrow> string \<Rightarrow> ('w, string) sm" where
  "lock_hash cf tid recipename task h h_locked var =
     mthen (mupd (\<lambda>s. s\<lparr>st_lockedhashes := AList.update tid (Some h_locked) (st_lockedhashes s), st_internal := True\<rparr>))
     (mbind (get_unihash cf tid) (\<lambda>unihash.
      mthen (mupd (\<lambda>s. s\<lparr>st_internal := False\<rparr>))
      (mthen (if h \<noteq> h_locked \<and> h_locked \<noteq> unihash
              then mupd (\<lambda>s. s\<lparr>st_mismatches := st_mismatches s @ [mismatch_text recipename task h h_locked var]\<rparr>)
              else mreturn ())
        (mreturn h_locked))))"

definition locked_taskhash :: "'w sigconf \<Rightarrow> datacaches \<Rightarrow> string \<Rightarrow> string list \<Rightarrow> ('w, string) sm" where
  "locked_taskhash cf dcs tid ds = mread (\<lambda>s.
     if has_key (st_lockedhashes s) tid then
       (case locked_hash s tid of Some h \<Rightarrow> mreturn h | None \<Rightarrow> base_taskhash cf tid)
     else mbind (base_taskhash cf tid) (\<lambda>h.
       mbind (mlift (split_tid_mcfn tid)) (\<lambda>(mc, f, task, fn).
       mbind (mlift (sig_recipe_of dcs mc fn)) (\<lambda>recipename.
       mthen (mupd (\<lambda>s. s\<lparr>st_lockedpnmap := AList.update fn recipename (st_lockedpnmap s)\<rparr>))
       (mbind (mlift (rbind (item dcs mc) (\<lambda>dc. item (hashfn dc) fn))) (\<lambda>hfn.
       mthen (mupd (\<lambda>s. s\<lparr>st_lockedhashfn := AList.update fn hfn (st_lockedhashfn s)\<rparr>))
       (mbind (check_unlocked dcs mc recipename ds) (\<lambda>unlocked.
         case (if unlocked then None else map_of (dget (sc_lockedsigs cf) recipename []) task) of
           Some (h_locked, var) \<Rightarrow> lock_hash cf tid recipename task h h_locked var
         | None \<Rightarrow> mthen (mupd (\<lambda>s. s\<lparr>st_lockedhashes := AList.update tid None (st_lockedhashes s)\<rparr>)) (mreturn h)))))))))"

definition get_taskhash :: "'w sigconf \<Rightarrow> datacaches \<Rightarrow> string \<Rightarrow> string list \<Rightarrow> ('w, string) sm" where
  "get_taskhash cf dcs tid ds =
     (if locks_hashes (sc_class cf) then locked_taskhash cf dcs tid ds else base_taskhash cf tid)"

section \<open>Stamps\<close>

definition base_stampfile_hash :: "string \<Rightarrow> ('w, string) sm" where
  "base_stampfile_hash tid = mread (\<lambda>s. case map_of (st_taskhash s) tid of Some h \<Rightarrow> mreturn h | None \<Rightarrow> s_item st_basehash tid)"

definition server_stampfile_hash :: "'w sigconf \<Rightarrow> string \<Rightarrow> ('w, string) sm" where
  "server_stampfile_hash cf tid = mread (\<lambda>s.
     if asks_server (sc_class cf) \<and> has_key (st_taskhash s) tid then
       mbind (known_unihash tid []) (\<lambda>u. case u of Some unihash \<Rightarrow> mreturn unihash | None \<Rightarrow> base_stampfile_hash tid)
     else base_stampfile_hash tid)"

definition get_stampfile_hash :: "'w sigconf \<Rightarrow> string \<Rightarrow> ('w, string) sm" where
  "get_stampfile_hash cf tid = mread (\<lambda>s.
     if locks_hashes (sc_class cf) \<and> locked_hash s tid \<noteq> None then mreturn (the (locked_hash s tid))
     else server_stampfile_hash cf tid)"

definition setscene_suffix :: string where
  "setscene_suffix = ''_setscene''"

definition stampfile :: "'w sigconf \<Rightarrow> string \<Rightarrow> string \<Rightarrow> string \<Rightarrow> string \<Rightarrow> bool \<Rightarrow> ('w, string) sm" where
  "stampfile cf stampbase mcfn taskname extrainfo clean =
     (if \<not> hash_stamps (sc_class cf) then mreturn (rstrip_char CHR ''.'' (stampbase @ ''.'' @ taskname @ ''.'' @ extrainfo))
      else let tid = mcfn @ '':'' @ (if suffix setscene_suffix taskname then take (length taskname - 9) taskname else taskname)
           in mbind (if clean then mreturn ''*'' else get_stampfile_hash cf tid) (\<lambda>h.
                mreturn (rstrip_char CHR ''.'' (stampbase @ ''.'' @ taskname @ ''.'' @ h @ ''.'' @ extrainfo))))"

definition stamp_flag :: "dcache \<Rightarrow> string \<Rightarrow> string \<Rightarrow> string res" where
  "stamp_flag dc mcfn taskname =
     rbind (item (stamp_extrainfo dc) mcfn) (\<lambda>flags.
       let flagname = (if suffix setscene_suffix taskname then replace_all setscene_suffix [] taskname else taskname)
       in Inr (case map_of flags flagname of Some (Some e) \<Rightarrow> e | _ \<Rightarrow> []))"

definition stamp_of :: "datacaches \<Rightarrow> string \<Rightarrow> (dcache \<times> string) res" where
  "stamp_of dcs mcfn = rbind (item dcs (mc_from_tid mcfn)) (\<lambda>dc. rbind (item (stamp dc) mcfn) (\<lambda>st. Inr (dc, st)))"

text \<open>\<open>None\<close> when the recipe has no stamp.\<close>

definition stampfile_mcfn :: "'w sigconf \<Rightarrow> datacaches \<Rightarrow> string \<Rightarrow> string \<Rightarrow> bool \<Rightarrow> ('w, string option) sm" where
  "stampfile_mcfn cf dcs taskname mcfn extrainfo =
     mbind (mlift (stamp_of dcs mcfn)) (\<lambda>(dc, st).
       if st = [] then mreturn None
       else mbind (if extrainfo then mlift (stamp_flag dc mcfn taskname) else mreturn []) (\<lambda>extra.
            mbind (stampfile cf st mcfn taskname extra False) (\<lambda>t. mreturn (Some t))))"

definition stampcleanmask_mcfn :: "'w sigconf \<Rightarrow> datacaches \<Rightarrow> string \<Rightarrow> string \<Rightarrow> ('w, string option) sm" where
  "stampcleanmask_mcfn cf dcs taskname mcfn =
     mbind (mlift (stamp_of dcs mcfn)) (\<lambda>(dc, st).
       if st = [] then mreturn None
       else mbind (mlift (stamp_flag dc mcfn taskname)) (\<lambda>extra.
            mbind (stampfile cf st mcfn taskname extra True) (\<lambda>t. mreturn (Some t))))"

text \<open>A task is made to run again: by removing its stamp, or by a taint that changes its hash.\<close>

definition siggen_invalidate_task :: "'w sigconf \<Rightarrow> datacaches \<Rightarrow> string \<Rightarrow> string \<Rightarrow> ('w, unit) sm" where
  "siggen_invalidate_task cf dcs task mcfn =
     mbind (mlift (stamp_of dcs mcfn)) (\<lambda>(dc, st).
       if \<not> hash_stamps (sc_class cf) then mupd (\<lambda>s. s\<lparr>st_world := sc_remove cf st (st_world s)\<rparr>)
       else mbind (in_world (sc_uuid4 cf)) (\<lambda>u.
              mupd (\<lambda>s. s\<lparr>st_world := sc_write_taint cf (st @ ''.'' @ task @ ''.taint'') u (st_world s)\<rparr>)))"

section \<open>The base hashes of a recipe\<close>

definition base_entry :: "string \<Rightarrow> (string, string) dict \<Rightarrow> string \<Rightarrow> ('w, unit) sm" where
  "base_entry mcfn basehash task =
     mbind (mlift (item basehash (mcfn @ '':'' @ task))) (\<lambda>h.
       mupd (\<lambda>s. s\<lparr>st_basehash := AList.update (mcfn @ '':'' @ task) h (st_basehash s)\<rparr>))"

definition build_data :: "'w sigconf \<Rightarrow> python \<Rightarrow> string \<Rightarrow> string list \<Rightarrow> gendeps \<Rightarrow> varvals \<Rightarrow> ('w, gendeps) sm" where
  "build_data cf py mcfn tasklist gendeps vals =
     mbind (mlift (generate_dependency_hash (sc_sha256 cf) py tasklist gendeps vals mcfn)) (\<lambda>(taskdeps, basehash).
     mthen (mfor (base_entry mcfn basehash) tasklist) (mreturn taskdeps))"

section \<open>Signature files\<close>

text \<open>What is written for a task: \<open>sd_runtime\<close> holds what is there once the task has a hash.\<close>

record run_sigdata =
  rd_runtaskdeps :: "string list"
  rd_file_checksum_values :: "(string \<times> string) list"
  rd_runtaskhashes :: "(string, string) dict"
  rd_taskhash :: string
  rd_unihash :: string

record sigdata =
  sd_task :: string
  sd_taskdeps :: "string list"
  sd_basehash :: string
  sd_gendeps :: gendeps
  sd_varvals :: varvals
  sd_runtime :: "run_sigdata option"
  sd_taint :: "string option"

text \<open>What the parsing kept for the recipes: \<open>siggen_taskdeps\<close>, \<open>siggen_gendeps\<close> and \<open>siggen_varvals\<close>.\<close>

record sigcache =
  siggen_taskdeps :: "(string, gendeps) dict"
  siggen_gendeps :: "(string, gendeps) dict"
  siggen_varvals :: "(string, varvals) dict"

definition dump_dep :: "string list \<Rightarrow> gendeps \<Rightarrow> varvals \<Rightarrow> string \<Rightarrow> gendeps \<times> varvals \<Rightarrow> (gendeps \<times> varvals) res" where
  "dump_dep ignored gendeps vals dep out =
     (if dep \<in> set ignored then Inr out
      else case out of (g, v) \<Rightarrow>
        rbind (item gendeps dep) (\<lambda>ds. rbind (item vals dep) (\<lambda>x. Inr (AList.update dep ds g, AList.update dep x v))))"

definition dump_base :: "sigcache \<Rightarrow> string list \<Rightarrow> string \<Rightarrow> string \<Rightarrow> string \<Rightarrow> sigdata res" where
  "dump_base sc ignored mcfn task basehash =
     rbind (rbind (item (siggen_taskdeps sc) mcfn) (\<lambda>td. item td task)) (\<lambda>taskdeps.
     rbind (item (siggen_varvals sc) mcfn) (\<lambda>vals.
     rbind (item vals task) (\<lambda>v.
     rbind (item (siggen_gendeps sc) mcfn) (\<lambda>gendeps.
     rbind (rfold (dump_dep ignored gendeps vals) taskdeps ([], [(task, v)])) (\<lambda>(g, varvals).
       Inr \<lparr>sd_task = task, sd_taskdeps = taskdeps, sd_basehash = basehash, sd_gendeps = g, sd_varvals = varvals,
            sd_runtime = None, sd_taint = None\<rparr>)))))"

definition dump_checksum :: "string \<times> string \<Rightarrow> string \<times> string" where
  "dump_checksum c = (case c of (f, cs) \<Rightarrow> (if contains ''/./'' f then ''./'' @ split_text ''/./'' f ! 1 else basename f, cs))"

definition dump_hash :: "'w sigconf \<Rightarrow> string \<times> string \<Rightarrow> (string, string) dict \<Rightarrow> ('w, (string, string) dict) sm" where
  "dump_hash cf dep hashes = mbind (get_unihash cf (snd dep)) (\<lambda>u. mreturn (AList.update (fst dep) u hashes))"

definition dump_runtime :: "'w sigconf \<Rightarrow> string \<Rightarrow> ('w, run_sigdata) sm" where
  "dump_runtime cf tid =
     mbind (s_item st_runtaskdeps tid) (\<lambda>rds.
     mbind (s_item st_file_checksum_values tid) (\<lambda>cs.
     mbind (mfold (dump_hash cf) rds []) (\<lambda>hashes.
     mbind (s_item st_taskhash tid) (\<lambda>h.
     mbind (get_unihash cf tid) (\<lambda>u.
       mreturn \<lparr>rd_runtaskdeps = map fst (sort rds),
                rd_file_checksum_values = map dump_checksum (sort_key clean_checksum_file_path cs),
                rd_runtaskhashes = hashes, rd_taskhash = h, rd_unihash = u\<rparr>)))))"

text \<open>The taint that is dumped is read again; only that of a task without stamps is taken from the state.\<close>

definition dump_taint :: "'w sigconf \<Rightarrow> bool \<Rightarrow> string \<Rightarrow> string \<Rightarrow> string \<Rightarrow> ('w, string option) sm" where
  "dump_taint cf runtime tid task referencestamp = mread (\<lambda>s.
     let taint = (case sc_read_taint cf (st_world s) (referencestamp @ ''.'' @ task @ ''.taint'') of
                    Some t \<Rightarrow> if t = [] then None else Some t | None \<Rightarrow> None)
     in mreturn (case map_of (st_taints s) tid of
          Some t \<Rightarrow> if runtime \<and> contains nostamp_text t then Some t else taint
        | None \<Rightarrow> taint))"

definition dump_sigdata :: "'w sigconf \<Rightarrow> sigcache \<Rightarrow> string list \<Rightarrow> string \<Rightarrow> string \<Rightarrow> string \<Rightarrow> bool \<Rightarrow> ('w, sigdata) sm" where
  "dump_sigdata cf sc ignored mcfn task referencestamp runtime =
     (let tid = mcfn @ '':'' @ task in
      mbind (s_item st_basehash tid) (\<lambda>basehash.
      mbind (mlift (dump_base sc ignored mcfn task basehash)) (\<lambda>sd.
      mread (\<lambda>s.
      mbind (if runtime \<and> has_key (st_taskhash s) tid then mbind (dump_runtime cf tid) (\<lambda>rd. mreturn (Some rd)) else mreturn None) (\<lambda>rd.
      mbind (dump_taint cf runtime tid task referencestamp) (\<lambda>taint.
        mreturn (sd\<lparr>sd_runtime := rd, sd_taint := taint\<rparr>)))))))"

definition calc_dep :: "python \<Rightarrow> varvals \<Rightarrow> string \<Rightarrow> string \<Rightarrow> string res" where
  "calc_dep py vals dep text =
     rbind (item vals dep) (\<lambda>v. Inr (text @ dep @ (case v of None \<Rightarrow> [] | Some w \<Rightarrow> str_val py w)))"

definition calc_basehash :: "(string \<Rightarrow> string) \<Rightarrow> python \<Rightarrow> sigdata \<Rightarrow> string res" where
  "calc_basehash sha256 py sd =
     rbind (item (sd_varvals sd) (sd_task sd)) (\<lambda>v.
     rbind (case v of None \<Rightarrow> Inr [] | Some (Text t) \<Rightarrow> Inr t | Some w \<Rightarrow> if sd_taskdeps sd = [] then Inl AttributeError else Inl TypeError) (\<lambda>text.
     rbind (rfold (calc_dep py (sd_varvals sd)) (sort (sd_taskdeps sd)) text) (\<lambda>text. Inr (sha256 text))))"

definition calc_checksum :: "string \<times> string \<Rightarrow> string" where
  "calc_checksum c = (case c of (f, cs) \<Rightarrow> if cs = [] then [] else (if contains ''./'' f then f else []) @ cs)"

definition calc_taskhash :: "(string \<Rightarrow> string) \<Rightarrow> sigdata \<Rightarrow> string res" where
  "calc_taskhash sha256 sd =
     (case sd_runtime sd of
        None \<Rightarrow> Inl (KeyError ''runtaskdeps'')
      | Some rd \<Rightarrow>
          rbind (rmap (item (rd_runtaskhashes rd)) (rd_runtaskdeps rd)) (\<lambda>hashes.
            Inr (sha256 (sd_basehash sd @ concat hashes @ concat (map calc_checksum (rd_file_checksum_values rd)) @
              (case sd_taint sd of None \<Rightarrow> [] | Some t \<Rightarrow> if contains nostamp_text t then drop 8 t else t)))))"

section \<open>The file of a signature\<close>

text \<open>\<open>runtime\<close> of \<open>dump_sigtask\<close>: false, true, or a text that names the stamp to look at.\<close>

datatype dumpmode = BaseOnly | Runtime | CustomFile string

definition sig_file :: "'w sigconf \<Rightarrow> string \<Rightarrow> string \<Rightarrow> string \<Rightarrow> dumpmode \<Rightarrow> ('w, string) sm" where
  "sig_file cf tid task stampbase mode = mread (\<lambda>s.
     case mode of
       CustomFile r \<Rightarrow> mreturn stampbase
     | _ \<Rightarrow>
         if mode = Runtime \<and> has_key (st_taskhash s) tid then
           mbind (get_unihash cf tid) (\<lambda>u. mreturn (stampbase @ ''.'' @ task @ ''.sigdata.'' @ u))
         else mbind (s_item st_basehash tid) (\<lambda>h. mreturn (stampbase @ ''.'' @ task @ ''.sigbasedata.'' @ h)))"

text \<open>The file, what is written to it, and whether the hashes that are computed from what is written are those of the task. A
  task whose hash is locked has no file.\<close>

definition dump_sigtask ::
  "'w sigconf \<Rightarrow> python \<Rightarrow> sigcache \<Rightarrow> string list \<Rightarrow> string \<Rightarrow> string \<Rightarrow> string \<Rightarrow> dumpmode \<Rightarrow>
    ('w, (string \<times> sigdata \<times> bool \<times> bool) option) sm" where
  "dump_sigtask cf py sc ignored mcfn task stampbase mode = mread (\<lambda>s.
     let tid = mcfn @ '':'' @ task; reference = (case mode of CustomFile r \<Rightarrow> r | _ \<Rightarrow> stampbase) in
     if locks_hashes (sc_class cf) \<and> locked_hash s tid \<noteq> None then mreturn None
     else
       mbind (sig_file cf tid task stampbase mode) (\<lambda>sigfile.
       mbind (dump_sigdata cf sc ignored mcfn task reference (mode \<noteq> BaseOnly)) (\<lambda>sd.
       mbind (mlift (calc_basehash (sc_sha256 cf) py sd)) (\<lambda>base.
         case sd_runtime sd of
           None \<Rightarrow> mreturn (Some (sigfile, sd, base = sd_basehash sd, True))
         | Some rd \<Rightarrow>
             mbind (mlift (calc_taskhash (sc_sha256 cf) sd)) (\<lambda>h.
               mreturn (Some (if h = rd_taskhash rd then sigfile else replace_all (rd_taskhash rd) h sigfile,
                              sd, base = sd_basehash sd, h = rd_taskhash rd)))))))"

lemma item_Inr: "item d k = Inr v \<longleftrightarrow> map_of d k = Some v"
  by (simp add: item_def split: option.split)

text \<open>When a method returns.\<close>

lemma returns_iff:
  "mbind m f s = (Inr x, t) \<longleftrightarrow> (\<exists>y u. m s = (Inr y, u) \<and> f y u = (Inr x, t))"
  "mthen m m' s = (Inr x, t) \<longleftrightarrow> (\<exists>y u. m s = (Inr y, u) \<and> m' u = (Inr x, t))"
  "mlift r s = (Inr x, t) \<longleftrightarrow> r = Inr x \<and> t = s"
  "mupd g s = (Inr w, t) \<longleftrightarrow> t = g s"
  "mreturn z s = (Inr x, t) \<longleftrightarrow> z = x \<and> t = s"
  "mread h s = (Inr x, t) \<longleftrightarrow> h s s = (Inr x, t)"
  "s_item fld k s = (Inr v, t) \<longleftrightarrow> item (fld s) k = Inr v \<and> t = s"
  by (auto simp: mbind_def mthen_def meth_defs s_item_def split: prod.splits sum.splits)

section \<open>A sample\<close>

definition sample_conf :: "sigclass \<Rightarrow> unit sigconf" where
  "sample_conf c =
     \<lparr>sc_class = c, sc_sha256 = (\<lambda>t. ''<'' @ t @ ''>''), sc_uuid4 = (\<lambda>w. (''u'', w)), sc_read_taint = (\<lambda>w f. None),
      sc_write_taint = (\<lambda>f t w. w), sc_remove = (\<lambda>f w. w), sc_checksums = (\<lambda>fs pn w. ([(''/a/./f'', ''9'')], w)),
      sc_server = (\<lambda>qs w. (Some (map (\<lambda>(m, h). Some (''s'' @ h)) qs), w)), sc_report = (\<lambda>h m u w. (None, w)),
      sc_exists = (\<lambda>qs w. (map (\<lambda>q. False) qs, w)),
      sc_ignored_tasks = None, sc_method = ''m'', sc_extramethod = [], sc_lockedsigs = [], sc_unihashmap = []\<rparr>"

definition sample_sigstate :: "unit sigstate" where
  "sample_sigstate =
     \<lparr>st_basehash = [], st_taskhash = [(''a:t'', ''1''), (''b:t'', ''2'')], st_unihash = [], st_runtaskdeps = [],
      st_file_checksum_values = [], st_taints = [], st_setscenetasks = [], st_unitaskhashes = [],
      st_tidtopn = [(''a:t'', ''a''), (''b:t'', ''b'')], st_lockedhashes = [], st_lockedpnmap = [], st_lockedhashfn = [],
      st_unlockedrecipes = [], st_internal = False, st_mismatches = [], st_abisaferecipes = [], st_saferecipedeps = [],
      st_exists = [], st_world = ()\<rparr>"

definition sample_caches :: datacaches where
  "sample_caches = [([], init_cacheData
     \<lparr>pkg_fn := [(''a'', ''a''), (''b'', ''b''), (''c'', ''c'')], basetaskhash := [(''c:t'', ''0'')], file_checksums := [(''c'', [(''t'', Some ''x'')])],
      DataCache.task_deps := [(''c'', empty_taskdeps)], stamp := [(''c'', ''s'')]\<rparr>)]"

end
