(* ===== verification/SigLocks.thy ===== *)
theory SigLocks
  imports SigGen VarUpdate
begin

text \<open>
  Locked signatures, from \<open>oe/sstatesig.py\<close>: reading the variables that lock the hashes of tasks, writing the file that sets
  them, and the report about locked tasks after the state cache was searched.
\<close>

section \<open>Reading\<close>

type_synonym lockedsigs = "(string, (string, string \<times> string) dict) dict"

text \<open>\<open>pn, task, h = ls.split(":", 2)\<close>\<close>

definition lock_entry :: "string \<Rightarrow> string \<Rightarrow> lockedsigs \<Rightarrow> lockedsigs res" where
  "lock_entry var ls sigs =
     (case split_on CHR '':'' ls of
        pn # task # h # hs \<Rightarrow> Inr (AList.update pn (AList.update task (join '':'' (h # hs), var) (dget sigs pn [])) sigs)
      | _ \<Rightarrow> Inl (ValueError ''not enough values to unpack''))"

definition lock_type :: "nat \<Rightarrow> python \<Rightarrow> string \<Rightarrow> lockedsigs \<Rightarrow> lockedsigs ds" where
  "lock_type n py t sigs =
     (let var = ''SIGGEN_LOCKEDSIGS_'' @ t in
      mbind (getVar n py var True) (\<lambda>v.
      mbind (mlift (words_of v)) (\<lambda>entries. mlift (rfold (lock_entry var) entries sigs))))"

definition sstate_lockedsigs :: "nat \<Rightarrow> python \<Rightarrow> lockedsigs ds" where
  "sstate_lockedsigs n py =
     mbind (getVar n py ''SIGGEN_LOCKEDSIGS_TYPES'' True) (\<lambda>v.
     mbind (mlift (words_of v)) (\<lambda>types. mfold (lock_type n py) types []))"

definition map_entry :: "string \<Rightarrow> (string \<times> string, string \<times> string) dict \<Rightarrow> (string \<times> string, string \<times> string) dict res" where
  "map_entry entry m =
     (case split_on CHR '':'' entry of
        [pn, task, taskhash, unihash] \<Rightarrow> Inr (AList.update (pn, task) (taskhash, unihash) m)
      | _ \<Rightarrow> Inl (ValueError ''values to unpack''))"

definition lockedsigs_unihashmap :: "nat \<Rightarrow> python \<Rightarrow> (string \<times> string, string \<times> string) dict ds" where
  "lockedsigs_unihashmap n py =
     mbind (getVar n py ''SIGGEN_UNIHASHMAP'' True) (\<lambda>v.
     mbind (mlift (words_of v)) (\<lambda>entries. mlift (rfold map_entry entries [])))"

text \<open>Names of providers become names of recipes.\<close>

definition resolve_name :: "(string, string) dict \<Rightarrow> string \<Rightarrow> string" where
  "resolve_name virtpnmap a = dget virtpnmap a a"

definition resolve_safe :: "(string, string) dict \<Rightarrow> string \<Rightarrow> string res" where
  "resolve_safe virtpnmap a =
     (case split_text ''->'' a of
        [a1, a2] \<Rightarrow> Inr (resolve_name virtpnmap a1 @ ''->'' @ resolve_name virtpnmap a2)
      | _ \<Rightarrow> Inl (ValueError ''values to unpack''))"

definition tasks_resolved :: "(string, string) dict \<Rightarrow> ('w, unit) sm" where
  "tasks_resolved virtpnmap = mthen
     (mupd (\<lambda>s. s\<lparr>st_abisaferecipes := map (resolve_name virtpnmap) (st_abisaferecipes s)\<rparr>))
     (mread (\<lambda>s. mbind (mlift (rmap (resolve_safe virtpnmap) (st_saferecipedeps s))) (\<lambda>safe.
        mupd (\<lambda>s. s\<lparr>st_saferecipedeps := safe\<rparr>))))"

section \<open>Writing\<close>

definition list_item :: "nat \<Rightarrow> string list \<Rightarrow> string res" where
  "list_item i xs = (if i < length xs then Inr (xs ! i) else Inl IndexError)"

text \<open>The type of a task is the architecture in its hash file name.\<close>

definition lock_type_of :: "string \<Rightarrow> string res" where
  "lock_type_of hfn =
     rbind (list_item 1 (split_on CHR '' '' hfn)) (\<lambda>t.
     rbind (list_item 5 (split_on CHR '':'' t)) (\<lambda>t. Inr (''t-'' @ replace_all ''_'' ''-'' t)))"

type_synonym lock_tables = "(string, string list) dict \<times> (string, string) dict"

definition collect_lock :: "'w sigconf \<Rightarrow> string list \<Rightarrow> string \<Rightarrow> lock_tables \<Rightarrow> ('w, lock_tables) sm" where
  "collect_lock cf taskfilter tid out =
     (case out of (types, unihashmap) \<Rightarrow>
      if taskfilter \<noteq> [] \<and> tid \<notin> set taskfilter then mreturn out
      else mbind (mlift (split_tid_mcfn tid)) (\<lambda>(mc, f, task, fn).
           mbind (s_item st_lockedhashfn fn) (\<lambda>hfn.
           mbind (mlift (lock_type_of hfn)) (\<lambda>t.
           mbind (s_item st_taskhash tid) (\<lambda>taskhash.
           mbind (get_unihash cf tid) (\<lambda>unihash.
             if taskhash = unihash then mreturn (dappend t tid types, unihashmap)
             else mbind (s_item st_lockedpnmap fn) (\<lambda>pn.
               mreturn (dappend t tid types,
                 AList.update tid (''    '' @ pn @ '':'' @ task @ '':'' @ taskhash @ '':'' @ unihash) unihashmap))))))))"

definition by_recipe :: "string list \<Rightarrow> ('w, string list) sm" where
  "by_recipe tids =
     mbind (mfold (\<lambda>tid ps. mbind (s_item st_lockedpnmap (fn_from_tid tid)) (\<lambda>pn. mreturn (ps @ [(pn, tid)]))) tids []) (\<lambda>ps.
       mreturn (map snd (sort_key fst ps)))"

definition lock_newline :: string where
  "lock_newline = [CHR 0x0A]"

definition quote :: string where
  "quote = [CHR 0x22]"

definition backslash_end :: string where
  "backslash_end = [CHR 0x5C] @ lock_newline"

definition lock_line :: "'w sigconf \<Rightarrow> string \<Rightarrow> string \<Rightarrow> ('w, string) sm" where
  "lock_line cf tid out =
     mbind (mlift (split_tid_mcfn tid)) (\<lambda>(mc, f, task, fn). mread (\<lambda>s.
       if \<not> has_key (st_taskhash s) tid then mreturn out
       else mbind (s_item st_lockedpnmap fn) (\<lambda>pn.
            mbind (get_unihash cf tid) (\<lambda>u. mreturn (out @ ''    '' @ pn @ '':'' @ task @ '':'' @ u @ '' '' @ backslash_end)))))"

definition lock_section :: "'w sigconf \<Rightarrow> (string, string list) dict \<Rightarrow> string \<Rightarrow> string \<Rightarrow> ('w, string) sm" where
  "lock_section cf types t out =
     mbind (by_recipe (sort (dget types t []))) (\<lambda>tids.
     mbind (mfold (lock_line cf) tids (out @ ''SIGGEN_LOCKEDSIGS_'' @ t @ '' = '' @ quote @ backslash_end)) (\<lambda>out.
       mreturn (out @ ''    '' @ quote @ lock_newline)))"

definition dump_lockedsigs :: "'w sigconf \<Rightarrow> string \<Rightarrow> string list \<Rightarrow> ('w, string) sm" where
  "dump_lockedsigs cf machine taskfilter = mread (\<lambda>s.
     mbind (mfold (collect_lock cf taskfilter) (dkeys (st_runtaskdeps s)) ([], [])) (\<lambda>(types, unihashmap).
     mbind (mfold (lock_section cf types) (sort (dkeys types)) []) (\<lambda>out.
     mbind (by_recipe (dkeys unihashmap)) (\<lambda>tids.
       mreturn (out @ ''SIGGEN_LOCKEDSIGS_TYPES:'' @ machine @ '' = '' @ quote @ join '' '' (sort (dkeys types)) @ quote @ lock_newline @
         ''SIGGEN_UNIHASHMAP += '' @ quote @ backslash_end @
         concat (map (\<lambda>tid. dget unihashmap tid [] @ '' '' @ backslash_end) tids) @ ''    '' @ quote @ lock_newline)))))"

text \<open>All hashes, one line for each task; a part of the paths may be left out.\<close>

definition strip_fn :: "string \<Rightarrow> string \<Rightarrow> string" where
  "strip_fn start fn =
     (if start = [] then fn
      else let es = split_on CHR '':'' fn
           in join '':'' (butlast es @ [if prefix start (last es) then drop (length start) (last es) else last es]))"

definition siglist_entry :: "string \<Rightarrow> string \<times> string \<Rightarrow> (string \<times> string \<times> string \<times> string) list \<Rightarrow> ('w, (string \<times> string \<times> string \<times> string) list) sm" where
  "siglist_entry start i out =
     (case i of (tid, taskhash) \<Rightarrow>
      (case rsplit1 CHR '':'' tid of
         None \<Rightarrow> mraise (ValueError ''not enough values to unpack'')
       | Some (fn, task) \<Rightarrow>
           mbind (s_item st_lockedpnmap fn) (\<lambda>pn. mreturn (out @ [(pn, task, strip_fn start fn, taskhash)]))))"

definition dump_siglist :: "string \<Rightarrow> ('w, string) sm" where
  "dump_siglist start = mread (\<lambda>s.
     mbind (mfold (siglist_entry start) (st_taskhash s) []) (\<lambda>tasks.
       mreturn (concat (map (\<lambda>(pn, task, fn, taskhash). pn @ '':'' @ task @ '' '' @ fn @ '' '' @ taskhash @ lock_newline) (sort tasks)))))"

section \<open>The report\<close>

text \<open>A hash is a text, what a locked task has is a list; \<open>in\<close> compares them as Python values.\<close>

datatype pyvalue = PyText string | PyList "string list"

definition locked_values :: "(string, string \<times> string) dict \<Rightarrow> pyvalue list" where
  "locked_values tasks = map (\<lambda>(task, h, var). PyList [h, var]) tasks"

definition missing_texts :: "lockedsigs \<Rightarrow> (string, string) dict \<Rightarrow> string list \<Rightarrow> string list res" where
  "missing_texts sigs hashes found =
     rfold (\<lambda>(tid, h) out.
       if tid \<in> set found then Inr out
       else rfold (\<lambda>(pn, tasks) out.
              rbind (taskname_from_tid tid) (\<lambda>taskname.
                Inr (if PyText h \<in> set (locked_values tasks) \<and> taskname \<noteq> ''do_shared_workdir'' then
                       out @ [''Locked sig is set for '' @ pn @ '':'' @ taskname @ '' ('' @ h @ '') yet not in sstate cache?'']
                     else out))) sigs out) hashes []"

definition lockedsigs_text :: "lockedsigs \<Rightarrow> nat \<Rightarrow> string" where
  "lockedsigs_text sigs mismatches =
     (if sigs = [] then []
      else if length sigs > 10 then
        ''There are '' @ show_nat (length sigs) @ '' recipes with locked tasks ('' @ show_nat mismatches @ '' task(s) have non matching signature)''
      else ''The following recipes have locked tasks:'' @ concat (map (\<lambda>pn. '' '' @ pn) (dkeys sigs)))"

record lock_report =
  lr_info :: string
  lr_warnings :: "string list"

definition at_level :: "val option \<Rightarrow> string list \<Rightarrow> bool" where
  "at_level v levels \<longleftrightarrow> (case v of Some (Text t) \<Rightarrow> t \<in> set levels | _ \<Rightarrow> False)"

text \<open>Errors are fatal.\<close>

definition checkhashes ::
  "nat \<Rightarrow> python \<Rightarrow> lockedsigs \<Rightarrow> string list \<Rightarrow> (string, string) dict \<Rightarrow> string list \<Rightarrow> lock_report ds" where
  "checkhashes n py sigs mismatches hashes found =
     mbind (mlift (missing_texts sigs hashes found)) (\<lambda>missing.
     mbind (getVar n py ''SIGGEN_LOCKEDSIGS_TASKSIG_CHECK'' True) (\<lambda>c1.
     mbind (getVar n py ''SIGGEN_LOCKEDSIGS_SSTATE_EXISTS_CHECK'' True) (\<lambda>c2.
     let warnings = (if at_level c1 [''warn'', ''info''] then mismatches else []) @ (if at_level c2 [''warn''] then missing else []);
         errors = (if at_level c1 [''error''] then mismatches else []) @ (if at_level c2 [''error''] then missing else [])
     in if errors \<noteq> [] then mraise (Fatal (join lock_newline errors))
        else mreturn \<lparr>lr_info = (if at_level c1 [''info''] then lockedsigs_text sigs (length mismatches) else []),
                      lr_warnings = warnings\<rparr>)))"

lemma text_never_locked: "PyText h \<notin> set (locked_values tasks)"
  by (auto simp: locked_values_def)

text \<open>The values of the locked tasks are lists, so that no hash is ever among them, and nothing is ever reported as missing.\<close>

lemma missing_never_reported: "missing_texts sigs hashes found = Inr texts \<Longrightarrow> texts = []"
proof -
  have inner: "rfold (\<lambda>(pn, tasks) out. rbind (taskname_from_tid tid) (\<lambda>taskname.
      Inr (if PyText h \<in> set (locked_values tasks) \<and> taskname \<noteq> ''do_shared_workdir'' then out @ msg pn taskname else out))) sigs out = Inr out'
      \<Longrightarrow> out' = out" for tid h msg sigs out out'
    by (induction sigs arbitrary: out) (auto simp: text_never_locked rbind_eq_Inr)
  assume "missing_texts sigs hashes found = Inr texts"
  then show ?thesis unfolding missing_texts_def
    by (rule rfold_invariant [where P = "\<lambda>out. out = []"]) (auto split: if_splits dest: inner)
qed

end
