(* ===== verification/SigGenSpec.thy ===== *)
theory SigGenSpec
  imports SigGen SigSpec "HOL-Library.Multiset"
begin

text \<open>
  What the signature generators promise: the hash of a task does not depend on the order in which its dependencies are given;
  what is dumped for a task gives its hashes again; a unique hash, once found, is found again without the server.
\<close>

section \<open>Methods that do not look at the dependencies of tasks\<close>

named_theorems oblivious_rules

definition oblivious :: "('w, 'a) sm \<Rightarrow> bool" where
  "oblivious m \<longleftrightarrow> (\<forall>s r. m (s\<lparr>st_runtaskdeps := r\<rparr>) = (fst (m s), snd (m s)\<lparr>st_runtaskdeps := r\<rparr>))"

lemma obliviousD: "oblivious m \<Longrightarrow> m (s\<lparr>st_runtaskdeps := r\<rparr>) = (fst (m s), snd (m s)\<lparr>st_runtaskdeps := r\<rparr>)"
  by (simp add: oblivious_def)

lemma oblivious_return [oblivious_rules]: "oblivious (mreturn x)"
  by (simp add: oblivious_def meth_defs)

lemma oblivious_raise [oblivious_rules]: "oblivious (mraise e)"
  by (simp add: oblivious_def meth_defs)

lemma oblivious_lift [oblivious_rules]: "oblivious (mlift r)"
  by (simp add: oblivious_def meth_defs)

lemma oblivious_upd [oblivious_rules]:
  "(\<And>s r. f (s\<lparr>st_runtaskdeps := r\<rparr>) = (f s)\<lparr>st_runtaskdeps := r\<rparr>) \<Longrightarrow> oblivious (mupd f)"
  by (simp add: oblivious_def meth_defs)

lemma oblivious_read [oblivious_rules]:
  "(\<And>s r. f (s\<lparr>st_runtaskdeps := r\<rparr>) = f s) \<Longrightarrow> (\<And>s. oblivious (f s)) \<Longrightarrow> oblivious (mread f)"
  by (simp add: oblivious_def mread_def)

lemma oblivious_bind [oblivious_rules]: "oblivious m \<Longrightarrow> (\<And>x. oblivious (f x)) \<Longrightarrow> oblivious (mbind m f)"
  by (auto simp: oblivious_def mbind_def split: prod.split sum.split)

lemma oblivious_then [oblivious_rules]: "oblivious m \<Longrightarrow> oblivious m' \<Longrightarrow> oblivious (mthen m m')"
  unfolding mthen_def by (rule oblivious_bind)

lemma oblivious_mfold [oblivious_rules]: "(\<And>x y. oblivious (f x y)) \<Longrightarrow> oblivious (mfold f xs y)"
  by (induction xs arbitrary: y) (auto intro!: oblivious_rules)

lemma oblivious_item [oblivious_rules]: "(\<And>s r. f (s\<lparr>st_runtaskdeps := r\<rparr>) = f s) \<Longrightarrow> oblivious (s_item f k)"
  unfolding s_item_def by (auto intro!: oblivious_rules)

lemma oblivious_world [oblivious_rules]: "oblivious (in_world f)"
  by (simp add: oblivious_def in_world_def split: prod.split)

lemma oblivious_key [oblivious_rules]: "oblivious (unihash_key tid)"
  unfolding unihash_key_def by (auto intro!: oblivious_rules split: prod.split)

lemma oblivious_set_unihash [oblivious_rules]: "oblivious (siggen_set_unihash tid u)"
  unfolding siggen_set_unihash_def by (auto intro!: oblivious_rules)

lemma oblivious_known [oblivious_rules]: "oblivious (known_unihash tid k)"
  unfolding known_unihash_def by (auto intro!: oblivious_rules split: option.split prod.split)

lemma oblivious_cached [oblivious_rules]: "oblivious (get_cached_unihash cf tid)"
proof -
  have s: "oblivious (server_cached_unihash tid)" for tid
    unfolding server_cached_unihash_def by (auto intro!: oblivious_rules split: option.split)
  then have b: "oblivious (base_cached_unihash cf tid)" for tid
    unfolding base_cached_unihash_def by (auto intro!: oblivious_rules)
  show ?thesis unfolding get_cached_unihash_def
    by (auto intro!: oblivious_rules b simp: locked_hash_def split: option.split prod.split)
qed

lemma oblivious_get_unihash [oblivious_rules]: "oblivious (get_unihash cf tid)"
proof -
  have "oblivious (settle_unihash answers it result)" for answers it result
    unfolding settle_unihash_def by (auto intro!: oblivious_rules split: prod.split)
  then have "oblivious (server_unihashes cf tids)" for tids
    unfolding server_unihashes_def split_cached_def method_query_def by (auto intro!: oblivious_rules split: prod.split)
  moreover have "oblivious (plain_unihash cf tid)"
    unfolding plain_unihash_def by (auto intro!: oblivious_rules split: option.split)
  ultimately show ?thesis unfolding get_unihash_def by (auto intro!: oblivious_rules)
qed

section \<open>The order of dependencies\<close>

text \<open>What a dependency adds: nothing, or the entry it has among those of the task.\<close>

definition dep_entry :: "'w sigconf \<Rightarrow> datacaches \<Rightarrow> string \<Rightarrow> string \<Rightarrow> string \<Rightarrow> 'w sigstate \<Rightarrow> string \<Rightarrow> (string \<times> string) option res" where
  "dep_entry cf dcs mcfn recipename task s dep =
     rbind (split_tid_mcfn dep) (\<lambda>(depmc, f, deptask, depmcfn).
     rbind (sig_recipe_of dcs depmc depmcfn) (\<lambda>dep_pn.
     rbind (rundep_check cf s mcfn recipename task dep dep_pn dcs) (\<lambda>keep.
       if \<not> keep then Inr None
       else if \<not> has_key (st_taskhash s) dep then
         Inl (Fatal (dep @ '' is not in taskhash, caller isn'' @ [CHR 0x27] @ ''t calling in dependency order?''))
       else Inr (Some (build_pnid depmc dep_pn deptask, dep)))))"

lemma prep_dep_entry:
  "prep_dep cf dcs mcfn recipename task tid dep s =
     (case dep_entry cf dcs mcfn recipename task s dep of
        Inl e \<Rightarrow> (Inl e, s)
      | Inr None \<Rightarrow> (Inr (), s)
      | Inr (Some p) \<Rightarrow> (Inr (), s\<lparr>st_runtaskdeps := dappend tid p (st_runtaskdeps s)\<rparr>))"
  by (simp add: prep_dep_def dep_entry_def mbind_def meth_defs rbind_def split: sum.split prod.split)

lemma dep_entry_oblivious: "dep_entry cf dcs mcfn recipename task (s\<lparr>st_runtaskdeps := r\<rparr>) dep = dep_entry cf dcs mcfn recipename task s dep"
  by (simp add: dep_entry_def rundep_check_def sstate_rundepfilter_def cong: if_cong)

definition some_entries :: "(string \<times> string) option list \<Rightarrow> (string \<times> string) list" where
  "some_entries es = map the (filter (\<lambda>e. e \<noteq> None) es)"

lemma prep_deps_entries:
  "mfor (prep_dep cf dcs mcfn recipename task tid) ds s = (Inr (), t) \<longleftrightarrow>
     (\<exists>es. rmap (dep_entry cf dcs mcfn recipename task s) ds = Inr es \<and>
       t = s\<lparr>st_runtaskdeps := fold (dappend tid) (some_entries es) (st_runtaskdeps s)\<rparr>)"
proof (induction ds arbitrary: s)
  case Nil
  then show ?case by (auto simp: meth_defs some_entries_def)
next
  case (Cons d ds)
  have entries: "some_entries (None # es) = some_entries es" "some_entries (Some p # es) = p # some_entries es" for p es
    by (simp_all add: some_entries_def)
  show ?case
  proof (cases "dep_entry cf dcs mcfn recipename task s d")
    case (Inl e)
    then show ?thesis by (simp add: mthen_eval prep_dep_entry [of cf dcs mcfn recipename task tid d s])
  next
    case (Inr w)
    then show ?thesis
      by (cases w) (auto simp: mthen_eval prep_dep_entry [of cf dcs mcfn recipename task tid d s] Cons.IH dep_entry_oblivious
        rbind_eq_Inr entries)
  qed
qed

lemma fold_dappend: "map_of (fold (dappend tid) es r) tid = (if es = [] then map_of r tid else Some (dget r tid [] @ es))"
proof (induction es arbitrary: r)
  case (Cons e es)
  then show ?case by (simp add: dappend_def update_conv dget_def)
qed simp

lemma rmap_perm:
  assumes "mset xs = mset ys" and "rmap f xs = Inr us"
  shows "\<exists>vs. rmap f ys = Inr vs \<and> mset vs = mset us"
proof -
  have "rmap f zs = Inr ws \<longleftrightarrow> (\<forall>z \<in> set zs. \<exists>w. f z = Inr w) \<and> ws = map (\<lambda>z. case f z of Inl e \<Rightarrow> undefined | Inr w \<Rightarrow> w) zs" for zs ws
    by (induction zs arbitrary: ws) (auto simp: rbind_eq_Inr)
  moreover have "set xs = set ys" using assms(1) by (rule mset_eq_setD)
  ultimately show ?thesis using assms by simp
qed

lemma oblivious_prep_checksums [oblivious_rules]: "oblivious (prep_checksums cf dc mcfn recipename task tid)"
  unfolding prep_checksums_def by (auto intro!: oblivious_rules split: option.split)

lemma oblivious_prep_taints [oblivious_rules]: "oblivious (prep_taints cf dc mcfn task tid)"
  unfolding prep_taints_def set_taint_def by (auto intro!: oblivious_rules split: option.split)

text \<open>Two states that differ at most in the order of the dependencies of a task.\<close>

definition same_deps :: "string \<Rightarrow> 'w sigstate \<Rightarrow> 'w sigstate \<Rightarrow> bool" where
  "same_deps tid s s' \<longleftrightarrow> (\<exists>r es es'. s' = s\<lparr>st_runtaskdeps := r\<rparr> \<and> map_of (st_runtaskdeps s) tid = Some es \<and>
     map_of r tid = Some es' \<and> mset es = mset es')"

lemma oblivious_keeps:
  assumes "oblivious m" and "m s = (x, t)"
  shows "st_runtaskdeps t = st_runtaskdeps s" "m (s\<lparr>st_runtaskdeps := r\<rparr>) = (x, t\<lparr>st_runtaskdeps := r\<rparr>)"
proof -
  show "m (s\<lparr>st_runtaskdeps := r\<rparr>) = (x, t\<lparr>st_runtaskdeps := r\<rparr>)" using obliviousD [OF assms(1), where s = s and r = r] assms(2) by simp
  have "m s = (fst (m s), (snd (m s))\<lparr>st_runtaskdeps := st_runtaskdeps s\<rparr>)"
    using obliviousD [OF assms(1), where s = s and r = "st_runtaskdeps s"] by simp
  from arg_cong [OF this, of "\<lambda>p. st_runtaskdeps (snd p)"] show "st_runtaskdeps t = st_runtaskdeps s" using assms(2) by simp
qed

lemma perm_entries: "mset es = mset es' \<Longrightarrow> mset (some_entries es) = mset (some_entries es')"
  by (simp add: some_entries_def)

lemma set_fold_sadd: "set (fold sadd xs ys) = set xs \<union> set ys"
  by (induction xs arbitrary: ys) auto

text \<open>The state once the dependencies were looked at.\<close>

definition prepared :: "string \<Rightarrow> string \<Rightarrow> string \<Rightarrow> (string \<times> string) list \<Rightarrow> 'w sigstate \<Rightarrow> 'w sigstate" where
  "prepared tid basehash recipename es s =
     s\<lparr>st_basehash := AList.update tid basehash (st_basehash s),
       st_file_checksum_values := AList.update tid [] (st_file_checksum_values s),
       st_tidtopn := AList.update tid recipename (st_tidtopn s),
       st_runtaskdeps := fold (dappend tid) es (AList.update tid [] (st_runtaskdeps s))\<rparr>"

lemma prepared_order:
  "s\<lparr>st_basehash := a, st_runtaskdeps := b, st_file_checksum_values := c, st_tidtopn := d\<rparr> =
     s\<lparr>st_basehash := a, st_file_checksum_values := c, st_tidtopn := d, st_runtaskdeps := b\<rparr>"
  by simp

lemma prep_taskhash_eval:
  "prep_taskhash cf dcs tid ds s = (Inr kept, t) \<longleftrightarrow>
     (\<exists>mc f task mcfn dc basehash recipename es t1 rds. split_tid_mcfn tid = Inr (mc, f, task, mcfn) \<and> item dcs mc = Inr dc \<and>
        item (basetaskhash dc) tid = Inr basehash \<and> item (pkg_fn dc) mcfn = Inr recipename \<and>
        rmap (dep_entry cf dcs mcfn recipename task (prepared tid basehash recipename [] s)) ds = Inr es \<and>
        prep_checksums cf dc mcfn recipename task tid (prepared tid basehash recipename (some_entries es) s) = (Inr (), t1) \<and>
        prep_taints cf dc mcfn task tid t1 = (Inr (), t) \<and>
        item (st_runtaskdeps t) tid = Inr rds \<and> kept = fold sadd (map snd rds) [])"
  unfolding prep_taskhash_def by (auto simp: returns_iff prep_deps_entries prepared_def prepared_order split: prod.splits)

lemma prep_taskhash_perm:
  assumes "prep_taskhash cf dcs tid ds s = (Inr kept, t)" and perm: "mset ds = mset ds'"
  shows "\<exists>kept' t'. prep_taskhash cf dcs tid ds' s = (Inr kept', t') \<and> set kept' = set kept \<and> same_deps tid t t'"
proof -
  obtain mc f task mcfn dc basehash recipename es t1 rds where pre: "split_tid_mcfn tid = Inr (mc, f, task, mcfn)" "item dcs mc = Inr dc"
      "item (basetaskhash dc) tid = Inr basehash" "item (pkg_fn dc) mcfn = Inr recipename"
    and es: "rmap (dep_entry cf dcs mcfn recipename task (prepared tid basehash recipename [] s)) ds = Inr es"
    and cs: "prep_checksums cf dc mcfn recipename task tid (prepared tid basehash recipename (some_entries es) s) = (Inr (), t1)"
    and ta: "prep_taints cf dc mcfn task tid t1 = (Inr (), t)"
    and rds: "map_of (st_runtaskdeps t) tid = Some rds" and kept: "kept = fold sadd (map snd rds) []"
    using assms(1) unfolding prep_taskhash_eval item_Inr by blast
  obtain es' where es': "rmap (dep_entry cf dcs mcfn recipename task (prepared tid basehash recipename [] s)) ds' = Inr es'"
    and me: "mset es' = mset es" using rmap_perm [OF perm es] by blast
  have field: "map_of (st_runtaskdeps (prepared tid basehash recipename xs s)) tid = Some xs" for xs
    by (simp add: prepared_def fold_dappend update_conv)
  have eq: "prepared tid basehash recipename xs s = (prepared tid basehash recipename ys s)\<lparr>st_runtaskdeps :=
      st_runtaskdeps (prepared tid basehash recipename xs s)\<rparr>" for xs ys
    by (simp add: prepared_def)
  let ?r = "st_runtaskdeps (prepared tid basehash recipename (some_entries es') s)"
  have "prep_checksums cf dc mcfn recipename task tid (prepared tid basehash recipename (some_entries es') s) = (Inr (), t1\<lparr>st_runtaskdeps := ?r\<rparr>)"
    using oblivious_keeps(2) [OF oblivious_prep_checksums cs, of ?r] eq [of "some_entries es'" "some_entries es"] by simp
  moreover have "prep_taints cf dc mcfn task tid (t1\<lparr>st_runtaskdeps := ?r\<rparr>) = (Inr (), t\<lparr>st_runtaskdeps := ?r\<rparr>)"
    using oblivious_keeps(2) [OF oblivious_prep_taints ta] by blast
  note steps = this calculation
  have run: "prep_taskhash cf dcs tid ds' s = (Inr (fold sadd (map snd (some_entries es')) []), t\<lparr>st_runtaskdeps := ?r\<rparr>)"
    unfolding prep_taskhash_eval
  proof (intro exI conjI)
    show "item (st_runtaskdeps (t\<lparr>st_runtaskdeps := ?r\<rparr>)) tid = Inr (some_entries es')" using field [of "some_entries es'"] by (simp add: item_Inr)
    show "fold sadd (map snd (some_entries es')) [] = fold sadd (map snd (some_entries es')) []" by (rule refl)
  qed (rule pre es' steps)+
  have "st_runtaskdeps t = st_runtaskdeps (prepared tid basehash recipename (some_entries es) s)"
    using oblivious_keeps(1) [OF oblivious_prep_checksums cs] oblivious_keeps(1) [OF oblivious_prep_taints ta] by simp
  then have "rds = some_entries es" using rds field [of "some_entries es"] by simp
  moreover have "mset (some_entries es) = mset (some_entries es')" using perm_entries [of es es'] me by simp
  ultimately show ?thesis using run rds field [of "some_entries es'"] kept
    by (auto simp: same_deps_def set_fold_sadd dest: mset_eq_setD)
qed

text \<open>The hash from the dependencies in order.\<close>

definition hash_rest :: "'w sigconf \<Rightarrow> string \<Rightarrow> string \<Rightarrow> (string \<times> string) list \<Rightarrow> ('w, string) sm" where
  "hash_rest cf tid basehash rds =
     mbind (mfold (add_dep_hash cf) rds basehash) (\<lambda>text.
     mbind (s_item st_file_checksum_values tid) (\<lambda>cs. mread (\<lambda>s.
     let h = sc_sha256 cf (text @ concat (map checksum_data (sort_key clean_checksum_file_path cs)) @
               (case map_of (st_taints s) tid of None \<Rightarrow> [] | Some t \<Rightarrow> taint_data t))
     in mthen (mupd (\<lambda>s. s\<lparr>st_taskhash := AList.update tid h (st_taskhash s)\<rparr>)) (mreturn h))))"

lemma base_taskhash_rest:
  "base_taskhash cf tid s =
     (case item (st_basehash s) tid of Inl e \<Rightarrow> (Inl e, s) | Inr basehash \<Rightarrow>
     (case item (st_runtaskdeps s) tid of Inl e \<Rightarrow> (Inl e, s) | Inr rds \<Rightarrow> hash_rest cf tid basehash (sort rds) s))"
  by (simp add: base_taskhash_def hash_rest_def mbind_def s_item_def mread_def mlift_def split: sum.split)

lemma oblivious_hash_rest: "oblivious (hash_rest cf tid basehash rds)"
  unfolding hash_rest_def add_dep_hash_def Let_def by (auto intro!: oblivious_rules)

lemma base_taskhash_perm:
  assumes "same_deps tid s s'"
  shows "\<exists>r. base_taskhash cf tid s' = (fst (base_taskhash cf tid s), (snd (base_taskhash cf tid s))\<lparr>st_runtaskdeps := r\<rparr>)"
proof -
  obtain r es es' where s': "s' = s\<lparr>st_runtaskdeps := r\<rparr>" and es: "item (st_runtaskdeps s) tid = Inr es"
    and es': "item r tid = Inr es'" and m: "mset es = mset es'" using assms unfolding same_deps_def item_Inr by blast
  have "sort es' = sort es" using m by (metis properties_for_sort sorted_sort mset_sort)
  then show ?thesis
    using obliviousD [OF oblivious_hash_rest, where s = s and r = r] es es'
    by (auto simp: base_taskhash_rest s' split: sum.split)
qed

lemma check_unlocked_perm:
  fixes s :: "'w sigstate"
  assumes "mset ds = mset ds'" and "\<And>x. x \<in> set ds \<Longrightarrow> \<exists>e. dep_entry cf dcs mcfn recipename task s x = Inr e"
  shows "(check_unlocked dcs mc r ds :: ('w, bool) sm) = check_unlocked dcs mc r ds'"
proof -
  have ok: "\<exists>pn. rbind (split_tid_mcfn x) (\<lambda>(depmc, f, t, depfn). sig_recipe_of dcs depmc depfn) = Inr pn" if "x \<in> set ds" for x
    using assms(2) [OF that] by (auto simp: dep_entry_def rbind_eq_Inr)
  have total: "(\<And>x. x \<in> set xs \<Longrightarrow> \<exists>y. g x = Inr y) \<Longrightarrow> \<exists>ys. rmap g xs = Inr ys" for g :: "string \<Rightarrow> string res" and xs
    by (induction xs) (auto simp: rbind_eq_Inr)
  have "\<exists>us. dep_recipes dcs mc ds = Inr us" unfolding dep_recipes_def by (rule total) (use ok in auto)
  then obtain us where us: "dep_recipes dcs mc ds = Inr us" by blast
  have "mset (filter (\<lambda>x. mc = mc_from_tid x) ds) = mset (filter (\<lambda>x. mc = mc_from_tid x) ds')" using assms(1) by simp
  from rmap_perm [OF this us [unfolded dep_recipes_def]] obtain us' where us': "dep_recipes dcs mc ds' = Inr us'" "set us' = set us"
    unfolding dep_recipes_def by (metis mset_eq_setD)
  have "list_ex p us' = list_ex p us" for p using us'(2) by (simp add: list_ex_iff)
  moreover have "mbind (mlift (Inr x)) g = (g x :: ('w, bool) sm)" for x and g :: "string list \<Rightarrow> ('w, bool) sm"
    by (rule ext) (simp add: mbind_def mlift_def)
  ultimately show ?thesis unfolding check_unlocked_def us us'(1) by (simp cong: if_cong)
qed

text \<open>What follows once the hash of a task was computed.\<close>

definition lock_rest :: "'w sigconf \<Rightarrow> datacaches \<Rightarrow> string \<Rightarrow> string list \<Rightarrow> string \<Rightarrow> ('w, string) sm" where
  "lock_rest cf dcs tid ds h =
     mbind (mlift (split_tid_mcfn tid)) (\<lambda>(mc, f, task, fn).
     mbind (mlift (sig_recipe_of dcs mc fn)) (\<lambda>recipename.
     mthen (mupd (\<lambda>s. s\<lparr>st_lockedpnmap := AList.update fn recipename (st_lockedpnmap s)\<rparr>))
     (mbind (mlift (rbind (item dcs mc) (\<lambda>dc. item (hashfn dc) fn))) (\<lambda>hfn.
     mthen (mupd (\<lambda>s. s\<lparr>st_lockedhashfn := AList.update fn hfn (st_lockedhashfn s)\<rparr>))
     (mbind (check_unlocked dcs mc recipename ds) (\<lambda>unlocked.
       case (if unlocked then None else map_of (dget (sc_lockedsigs cf) recipename []) task) of
         Some (h_locked, var) \<Rightarrow> lock_hash cf tid recipename task h h_locked var
       | None \<Rightarrow> mthen (mupd (\<lambda>s. s\<lparr>st_lockedhashes := AList.update tid None (st_lockedhashes s)\<rparr>)) (mreturn h)))))))"

lemma locked_taskhash_rest:
  "locked_taskhash cf dcs tid ds s =
     (if has_key (st_lockedhashes s) tid then (case locked_hash s tid of Some h \<Rightarrow> (Inr h, s) | None \<Rightarrow> base_taskhash cf tid s)
      else mbind (base_taskhash cf tid) (lock_rest cf dcs tid ds) s)"
  unfolding locked_taskhash_def lock_rest_def by (simp add: mread_def mreturn_def split: option.split)

lemma oblivious_lock_rest: "oblivious (lock_rest cf dcs tid ds h)"
proof -
  have "oblivious (lock_hash cf tid recipename task h h_locked var)" for recipename task h_locked var
    unfolding lock_hash_def by (auto intro!: oblivious_rules)
  moreover have "oblivious (check_unlocked dcs mc recipename ds)" for mc recipename
    unfolding check_unlocked_def by (auto intro!: oblivious_rules)
  ultimately show ?thesis unfolding lock_rest_def by (auto intro!: oblivious_rules split: option.split prod.split)
qed

text \<open>C23: the hash of a task does not depend on the order in which its dependencies are given. Dependencies come as a set, whose
  order is arbitrary: if the task can be prepared with them in one order, it can in any other, the same dependencies are kept,
  and the hash, or the exception, is the same.\<close>

theorem taskhash_order_independent:
  assumes "mset ds = mset ds'" and "prep_taskhash cf dcs tid ds s = (Inr kept, t)"
  shows "\<exists>kept' t'. prep_taskhash cf dcs tid ds' s = (Inr kept', t') \<and> set kept' = set kept \<and>
    fst (get_taskhash cf dcs tid ds' t') = fst (get_taskhash cf dcs tid ds t)"
proof -
  obtain kept' t' where run: "prep_taskhash cf dcs tid ds' s = (Inr kept', t')" and kept: "set kept' = set kept"
    and same: "same_deps tid t t'" using prep_taskhash_perm [OF assms(2,1)] by blast
  obtain r where t': "t' = t\<lparr>st_runtaskdeps := r\<rparr>" using same unfolding same_deps_def by blast
  obtain q where base: "base_taskhash cf tid t' = (fst (base_taskhash cf tid t), (snd (base_taskhash cf tid t))\<lparr>st_runtaskdeps := q\<rparr>)"
    using base_taskhash_perm [OF same, of cf] by blast
  have rest: "lock_rest cf dcs tid ds' = lock_rest cf dcs tid ds"
  proof -
    obtain mcfn recipename task u es where "rmap (dep_entry cf dcs mcfn recipename task u) ds = Inr es"
      using assms(2) unfolding prep_taskhash_eval by blast
    then have "\<exists>e. dep_entry cf dcs mcfn recipename task u x = Inr e" if "x \<in> set ds" for x
      using that by (induction ds arbitrary: es) (auto simp: rbind_eq_Inr)
    from check_unlocked_perm [OF assms(1) this] have "check_unlocked dcs mc p ds' = (check_unlocked dcs mc p ds :: ('a, bool) sm)" for mc p
      by simp
    then show ?thesis unfolding lock_rest_def by simp
  qed
  have "fst (get_taskhash cf dcs tid ds' t') = fst (get_taskhash cf dcs tid ds t)"
    unfolding get_taskhash_def locked_taskhash_rest rest
    using obliviousD [OF oblivious_lock_rest [of cf dcs tid ds]]
    by (auto simp: t' mbind_def base [unfolded t'] locked_hash_def split: option.split prod.split sum.split)
  then show ?thesis using run kept by blast
qed

section \<open>What is dumped\<close>

lemma dump_deps_total:
  assumes "set xs \<subseteq> set (dkeys gendeps)" and "set xs \<subseteq> set (dkeys vals)"
  shows "\<exists>g' v'. rfold (dump_dep ignored gendeps vals) xs (g, v) = Inr (g', v') \<and>
    (\<forall>x. map_of v' x = (if x \<in> set xs - set ignored then map_of vals x else map_of v x))"
  using assms
proof (induction xs arbitrary: g v)
  case (Cons x xs)
  obtain ds w where dw: "map_of gendeps x = Some ds" "map_of vals x = Some w"
    using Cons.prems has_key_iff [of gendeps x] has_key_iff [of vals x] by (auto simp: has_key_def)
  show ?case
  proof (cases "x \<in> set ignored")
    case True
    then show ?thesis using Cons by (simp add: dump_dep_def)
  next
    case False
    then have step: "dump_dep ignored gendeps vals x (g, v) = Inr (AList.update x ds g, AList.update x w v)"
      using dw by (simp add: dump_dep_def item_def)
    obtain g' v' where r: "rfold (dump_dep ignored gendeps vals) xs (AList.update x ds g, AList.update x w v) = Inr (g', v')"
      and m: "\<And>y. map_of v' y = (if y \<in> set xs - set ignored then map_of vals y else map_of (AList.update x w v) y)"
      using Cons by fastforce
    have "map_of v' y = (if y \<in> set (x # xs) - set ignored then map_of vals y else map_of v y)" for y
      using m [of y] dw False by (auto simp: update_conv)
    then show ?thesis using step r by auto
  qed
qed simp

lemma calc_deps_text:
  assumes "\<And>x. x \<in> set xs \<Longrightarrow> map_of v x = map_of vals x" and "set xs \<subseteq> set (dkeys vals)"
  shows "rfold (calc_dep py v) xs acc =
    Inr (acc @ concat (map (\<lambda>x. x @ (case dget vals x None of None \<Rightarrow> [] | Some w \<Rightarrow> str_val py w)) xs))"
  using assms
proof (induction xs arbitrary: acc)
  case (Cons x xs)
  then obtain w where "map_of vals x = Some w" using has_key_iff [of vals x] by (auto simp: has_key_def)
  with Cons show ?case by (simp add: calc_dep_def item_def dget_def)
qed simp

text \<open>The base hash can be computed again from what is dumped for a task: if the caches hold what parsing the recipe found, the
  data of the task can be collected, and \<open>calc_basehash\<close> of it is the base hash that was stored.\<close>

theorem dumped_basehash:
  assumes "fst (generate_dependencies k parser n py ignored d) = Inr (tasks, gendeps, vals)"
    and "generate_dependency_hash sha256 py tasks gendeps vals mcfn = Inr (taskdeps, basehash)" and "task \<in> set tasks"
    and "map_of (siggen_taskdeps sc) mcfn = Some taskdeps" and "map_of (siggen_gendeps sc) mcfn = Some gendeps"
    and "map_of (siggen_varvals sc) mcfn = Some vals"
  shows "\<exists>sd h. dump_base sc ignored mcfn task base = Inr sd \<and> map_of basehash (mcfn @ '':'' @ task) = Some h \<and>
    calc_basehash sha256 py sd = Inr h"
proof -
  have "none_ignored ignored gendeps"
    using generate_dependencies_gives [where k = k and parser = parser and n = n and py = py and ignored = ignored] assms(1)
    unfolding gives_only_def by (cases "generate_dependencies k parser n py ignored d") fastforce
  from reaches_not_ignored [OF this] have ign: "reaches gendeps task \<inter> set ignored = {}" .
  have h: "hashed sha256 py gendeps vals mcfn task (taskdeps, basehash)"
    using hash_of_tasks_hashed assms(2,3) unfolding generate_dependency_hash_def by blast
  then obtain seen where seen: "map_of taskdeps task = Some seen" "distinct seen" "set seen = reaches gendeps task"
    unfolding hashed_def by auto
  obtain v where v: "map_of vals task = Some v" using h has_key_iff [of vals task] by (auto simp: hashed_def has_key_def)
  obtain g' v' where dump: "rfold (dump_dep ignored gendeps vals) seen ([], [(task, v)]) = Inr (g', v')"
    and m: "\<And>x. map_of v' x = (if x \<in> set seen - set ignored then map_of vals x else map_of [(task, v)] x)"
    using dump_deps_total [of seen gendeps vals ignored "[]" "[(task, v)]"] h seen(3) by (auto simp: hashed_def)
  let ?sd = "\<lparr>sd_task = task, sd_taskdeps = seen, sd_basehash = base, sd_gendeps = g', sd_varvals = v', sd_runtime = None, sd_taint = None\<rparr>"
  have sd: "dump_base sc ignored mcfn task base = Inr ?sd"
    using assms(4-6) seen(1) v dump by (simp add: dump_base_def item_def)
  have start: "map_of v' task = Some v" using m [of task] v by simp
  have "rfold (calc_dep py v') (sort seen) acc =
      Inr (acc @ concat (map (\<lambda>x. x @ (case dget vals x None of None \<Rightarrow> [] | Some w \<Rightarrow> str_val py w)) (sort seen)))" for acc
    by (rule calc_deps_text) (use m seen(3) ign h in \<open>auto simp: hashed_def\<close>)
  moreover have "sort seen = sorted_list_of_set (reaches gendeps task)"
    using seen(2,3) by (metis distinct_remdups_id sorted_list_of_set_sort_remdups)
  ultimately have "calc_basehash sha256 py ?sd = Inr (sha256 (signature_text py vals task (reaches gendeps task)))"
    using start v h by (auto simp: calc_basehash_def item_def signature_text_def dget_def hashed_def split: option.split)
  then show ?thesis using sd h by (auto simp: hashed_def)
qed

lemma contains_needs: "contains sub s \<Longrightarrow> set sub \<subseteq> set s"
  by (auto simp: list_ex_iff) (meson set_mono_prefix set_mono_suffix subsetD)

lemma contains_prefix: "contains sub (sub @ s)"
  by (auto simp: list_ex_iff intro!: bexI [of _ "sub @ s"])

lemma basename_flat: "slash \<notin> set (basename p)"
  unfolding basename_def by (rule split_on_parts [of _ slash p]) simp

text \<open>The part of a path that is dumped adds what the path added.\<close>

lemma calc_dump_checksum: "calc_checksum (dump_checksum c) = checksum_data c"
proof -
  have "\<not> contains ''./'' (basename p)" for p using contains_needs [of "''./''" "basename p"] basename_flat [of p] by (auto simp: slash_def)
  moreover have "contains ''./'' (''./'' @ x)" for x using contains_prefix [of "''./''" x] .
  ultimately show ?thesis
    by (cases c) (simp add: calc_checksum_def dump_checksum_def checksum_data_def del: contains.simps)
qed

definition settled_hash :: "'w sigconf \<Rightarrow> (string \<Rightarrow> string) \<Rightarrow> 'w sigstate \<Rightarrow> string \<Rightarrow> bool" where
  "settled_hash cf u s tid \<longleftrightarrow> get_unihash cf tid s = (Inr (u tid), s)"

lemma add_dep_hashes:
  "(\<And>p. p \<in> set rds \<Longrightarrow> settled_hash cf u s (snd p)) \<Longrightarrow>
    mfold (add_dep_hash cf) rds acc s = (Inr (acc @ concat (map (\<lambda>p. u (snd p)) rds)), s)"
proof (induction rds arbitrary: acc)
  case (Cons p rds)
  then have "get_unihash cf (snd p) s = (Inr (u (snd p)), s)" by (simp add: settled_hash_def)
  then have "add_dep_hash cf p acc s = (Inr (acc @ u (snd p)), s)" by (simp add: add_dep_hash_def mbind_def mreturn_def)
  then show ?case using Cons by (simp add: mbind_def)
qed (simp add: mreturn_def)

lemma dump_hashes:
  "(\<And>p. p \<in> set rds \<Longrightarrow> settled_hash cf u s (snd p)) \<Longrightarrow> distinct (map fst rds) \<Longrightarrow>
    \<exists>hs. mfold (dump_hash cf) rds acc s = (Inr hs, s) \<and>
      (\<forall>k. map_of hs k = (case map_of rds k of Some d \<Rightarrow> Some (u d) | None \<Rightarrow> map_of acc k))"
proof (induction rds arbitrary: acc)
  case (Cons p rds)
  then have "get_unihash cf (snd p) s = (Inr (u (snd p)), s)" by (simp add: settled_hash_def)
  then have step: "dump_hash cf p acc s = (Inr (AList.update (fst p) (u (snd p)) acc), s)" by (simp add: dump_hash_def mbind_def mreturn_def)
  obtain hs where "mfold (dump_hash cf) rds (AList.update (fst p) (u (snd p)) acc) s = (Inr hs, s)"
    and hs: "\<forall>k. map_of hs k = (case map_of rds k of Some d \<Rightarrow> Some (u d) | None \<Rightarrow> map_of (AList.update (fst p) (u (snd p)) acc) k)"
    using Cons by fastforce
  moreover have "map_of rds (fst p) = None" using Cons.prems(2) by (simp add: map_of_eq_None_iff)
  ultimately show ?case using step by (auto simp: mbind_def update_conv split: option.split)
qed (simp add: mreturn_def)

lemma base_taskhash_settled:
  assumes "base_taskhash cf tid s = (Inr h, s1)" and "map_of (st_runtaskdeps s) tid = Some rds"
    and "\<And>p. p \<in> set rds \<Longrightarrow> settled_hash cf u s (snd p)"
  shows "\<exists>base cs. map_of (st_basehash s) tid = Some base \<and> map_of (st_file_checksum_values s) tid = Some cs \<and>
    h = sc_sha256 cf (base @ concat (map (\<lambda>p. u (snd p)) (sort rds)) @ concat (map checksum_data (sort_key clean_checksum_file_path cs)) @
      (case map_of (st_taints s) tid of None \<Rightarrow> [] | Some t \<Rightarrow> taint_data t)) \<and>
    s1 = s\<lparr>st_taskhash := AList.update tid h (st_taskhash s)\<rparr>"
proof -
  obtain base where base: "map_of (st_basehash s) tid = Some base" and rest: "hash_rest cf tid base (sort rds) s = (Inr h, s1)"
    using assms(1,2) by (auto simp: base_taskhash_rest item_def split: option.splits)
  have "mfold (add_dep_hash cf) (sort rds) base s = (Inr (base @ concat (map (\<lambda>p. u (snd p)) (sort rds))), s)"
    by (rule add_dep_hashes) (use assms(3) in simp)
  then show ?thesis using base rest by (auto simp: hash_rest_def returns_iff item_Inr Let_def)
qed

text \<open>C24: the hash of a task can be computed again from its signature file. While the unique hashes of its dependencies do not
  change, \<open>calc_taskhash\<close> of what is dumped is the hash of the task, if no two dependencies have the same name in the file and
  the taint that is dumped is the one that the hash was made with.\<close>

theorem dumped_taskhash:
  assumes "base_taskhash cf (mcfn @ '':'' @ task) s = (Inr h, s1)"
    and "map_of (st_runtaskdeps s) (mcfn @ '':'' @ task) = Some rds" and "distinct (map fst rds)"
    and "\<And>p. p \<in> set rds \<Longrightarrow> settled_hash cf u s (snd p) \<and> settled_hash cf u s1 (snd p)"
    and "dump_sigdata cf sc ignored mcfn task reference True s1 = (Inr sd, s2)"
    and "sd_taint sd = map_of (st_taints s) (mcfn @ '':'' @ task)"
    and "\<And>t. sd_taint sd = Some t \<Longrightarrow> contains nostamp_text t \<Longrightarrow> prefix nostamp_text t"
  shows "calc_taskhash (sc_sha256 cf) sd = Inr h"
proof -
  let ?tid = "mcfn @ '':'' @ task"
  obtain base cs where base: "map_of (st_basehash s) ?tid = Some base" and cs: "map_of (st_file_checksum_values s) ?tid = Some cs"
    and h: "h = sc_sha256 cf (base @ concat (map (\<lambda>p. u (snd p)) (sort rds)) @ concat (map checksum_data (sort_key clean_checksum_file_path cs)) @
      (case map_of (st_taints s) ?tid of None \<Rightarrow> [] | Some t \<Rightarrow> taint_data t))"
    and s1: "s1 = s\<lparr>st_taskhash := AList.update ?tid h (st_taskhash s)\<rparr>"
    using base_taskhash_settled [OF assms(1,2)] assms(4) by blast
  obtain hs where hs: "mfold (dump_hash cf) rds [] s1 = (Inr hs, s1)"
    and look: "\<And>k. map_of hs k = (case map_of rds k of Some d \<Rightarrow> Some (u d) | None \<Rightarrow> None)"
    using dump_hashes [of rds cf u s1 "[]"] assms(3,4) by (auto cong: option.case_cong)
  have key: "map_of (st_basehash s1) ?tid = Some base" "has_key (st_taskhash s1) ?tid" using base s1 by simp_all
  obtain sd0 rd t1 where sd0: "dump_base sc ignored mcfn task base = Inr sd0" and run: "dump_runtime cf ?tid s1 = (Inr rd, t1)"
    and sd: "sd_runtime sd = Some rd" "sd_basehash sd = sd_basehash sd0"
    using assms(5) key unfolding dump_sigdata_def Let_def by (auto simp: returns_iff item_Inr)
  have "sd_basehash sd0 = base" using sd0 by (auto simp: dump_base_def rbind_eq_Inr)
  moreover have rd: "rd_runtaskdeps rd = map fst (sort rds)" "rd_runtaskhashes rd = hs"
    "rd_file_checksum_values rd = map dump_checksum (sort_key clean_checksum_file_path cs)"
    using run hs assms(2) cs s1 by (auto simp: dump_runtime_def returns_iff item_Inr)
  moreover have "rmap (item hs) (map fst xs) = Inr (map (\<lambda>p. u (snd p)) xs)" if "set xs \<subseteq> set rds" for xs
    using that look assms(3) by (induction xs) (auto simp: item_def)
  moreover have "contains nostamp_text t \<longleftrightarrow> prefix nostamp_text t" if "sd_taint sd = Some t" for t
    using assms(7) [OF that] contains_prefix [of nostamp_text] by (auto simp: prefix_def simp del: contains.simps)
  moreover have "map calc_checksum (map dump_checksum xs) = map checksum_data xs" for xs by (simp add: calc_dump_checksum)
  ultimately show ?thesis using assms(6,7) sd h
    by (auto simp: calc_taskhash_def taint_data_def map_map [symmetric] simp del: map_map contains.simps split: option.split)
qed

lemma dumped_basehash_witness:
  "\<exists>td bh sd. generate_dependency_hash (\<lambda>t. t) sample_python [''do_a''] sample_gendeps sample_values ''f'' = Inr (td, bh) \<and>
     dump_base \<lparr>siggen_taskdeps = [(''f'', td)], siggen_gendeps = [(''f'', sample_gendeps)], siggen_varvals = [(''f'', sample_values)]\<rparr>
       [] ''f'' ''do_a'' [] = Inr sd \<and> map_of bh ''f:do_a'' = (case calc_basehash (\<lambda>t. t) sample_python sd of Inr h \<Rightarrow> Some h | Inl e \<Rightarrow> None)"
proof -
  have g: "fst (generate_dependencies 9 sample_parser 6 sample_python [] sample_signed) = Inr ([''do_a''], sample_gendeps, sample_values)"
    by code_simp
  have "case generate_dependency_hash (\<lambda>t. t) sample_python [''do_a''] sample_gendeps sample_values ''f'' of Inl e \<Rightarrow> False | Inr out \<Rightarrow> True"
    by code_simp
  then obtain td bh where h: "generate_dependency_hash (\<lambda>t. t) sample_python [''do_a''] sample_gendeps sample_values ''f'' = Inr (td, bh)"
    by (auto split: sum.splits)
  show ?thesis
    using dumped_basehash [OF g h, of "''do_a''" "\<lparr>siggen_taskdeps = [(''f'', td)], siggen_gendeps = [(''f'', sample_gendeps)],
      siggen_varvals = [(''f'', sample_values)]\<rparr>" "[]"] h by auto
qed

lemma taskhash_order_independent_witness:
  "\<exists>kept t. prep_taskhash (sample_conf SigBasicHash) sample_caches ''c:t'' [''b:t'', ''a:t''] sample_sigstate = (Inr kept, t) \<and>
     fst (get_taskhash (sample_conf SigBasicHash) sample_caches ''c:t'' [''b:t'', ''a:t''] t) = Inr ''<012./f9>''"
proof -
  let ?prep = "\<lambda>ds. prep_taskhash (sample_conf SigBasicHash) sample_caches ''c:t'' ds sample_sigstate"
  have "fst (?prep [''a:t'', ''b:t'']) = Inr [''a:t'', ''b:t'']" by code_simp
  then obtain t where t: "?prep [''a:t'', ''b:t''] = (Inr [''a:t'', ''b:t''], t)" by (cases "?prep [''a:t'', ''b:t'']") auto
  have "fst (get_taskhash (sample_conf SigBasicHash) sample_caches ''c:t'' [''a:t'', ''b:t''] (snd (?prep [''a:t'', ''b:t'']))) = Inr ''<012./f9>''"
    by code_simp
  then show ?thesis using taskhash_order_independent [OF _ t, of "[''b:t'', ''a:t'']"] t by auto
qed

definition sample_ready :: "unit sigstate" where
  "sample_ready = snd (prep_taskhash (sample_conf SigBasicHash) sample_caches ''c:t'' [''a:t'', ''b:t''] sample_sigstate)"

definition sample_sigcache :: sigcache where
  "sample_sigcache = \<lparr>siggen_taskdeps = [(''c'', [(''t'', [])])], siggen_gendeps = [(''c'', [])], siggen_varvals = [(''c'', [(''t'', None)])]\<rparr>"

lemma dumped_taskhash_witness:
  "\<exists>sd. fst (dump_sigdata (sample_conf SigBasicHash) sample_sigcache [] ''c'' ''t'' ''s'' True
       (snd (base_taskhash (sample_conf SigBasicHash) ''c:t'' sample_ready))) = Inr sd \<and>
     calc_taskhash (\<lambda>t. ''<'' @ t @ ''>'') sd = Inr ''<012./f9>''"
proof -
  let ?cf = "sample_conf SigBasicHash"
  let ?run = "base_taskhash ?cf ''c:t'' sample_ready"
  let ?dump = "dump_sigdata ?cf sample_sigcache [] ''c'' ''t'' ''s'' True (snd ?run)"
  have "fst ?run = Inr ''<012./f9>''" by code_simp
  then have run: "base_taskhash ?cf (''c'' @ '':'' @ ''t'') sample_ready = (Inr ''<012./f9>'', snd ?run)" by (cases ?run) auto
  have rds: "map_of (st_runtaskdeps sample_ready) (''c'' @ '':'' @ ''t'') = Some [(''a:t'', ''a:t''), (''b:t'', ''b:t'')]" by code_simp
  have "list_all (\<lambda>p. settled_hash ?cf (\<lambda>tid. if tid = ''a:t'' then ''1'' else ''2'') sample_ready p \<and>
      settled_hash ?cf (\<lambda>tid. if tid = ''a:t'' then ''1'' else ''2'') (snd ?run) p) [''a:t'', ''b:t'']" by code_simp
  then have settled: "settled_hash ?cf (\<lambda>tid. if tid = ''a:t'' then ''1'' else ''2'') sample_ready (snd p) \<and>
      settled_hash ?cf (\<lambda>tid. if tid = ''a:t'' then ''1'' else ''2'') (snd ?run) (snd p)" if "p \<in> set [(''a:t'', ''a:t''), (''b:t'', ''b:t'')]" for p
    using that by auto
  have "(case fst ?dump of Inl e \<Rightarrow> False | Inr sd \<Rightarrow> sd_taint sd = None)" by code_simp
  then obtain sd where sd: "fst ?dump = Inr sd" "sd_taint sd = None" by (auto split: sum.splits)
  have taint: "map_of (st_taints sample_ready) (''c'' @ '':'' @ ''t'') = None" by code_simp
  have "calc_taskhash (sc_sha256 ?cf) sd = Inr ''<012./f9>''"
    by (rule dumped_taskhash [OF run rds _ settled, of sample_sigcache "[]" "''s''" sd "snd ?dump"])
      (use sd taint in \<open>auto simp: prod_eq_iff\<close>)
  then show ?thesis using sd by (simp add: sample_conf_def)
qed

end
