(* ===== verification/SigUnihash.thy ===== *)
theory SigUnihash
  imports SigGen
begin

text \<open>
  Unique hashes are found once: when the hashes of some tasks were asked for, asking again gives the same ones, from the tables,
  without the server, and changes nothing.
\<close>

section \<open>What the tables say\<close>

definition task_key :: "(string, string) dict \<Rightarrow> string \<Rightarrow> string res" where
  "task_key tidtopn tid =
     rbind (split_tid_mcfn tid) (\<lambda>(mc, fn, taskname, taskfn).
     rbind (item tidtopn tid) (\<lambda>pn. Inr (mc @ '':'' @ pn @ '':'' @ taskname)))"

lemma unihash_key_run: "unihash_key tid s = (task_key (st_tidtopn s) tid, s)"
  by (simp add: unihash_key_def task_key_def s_item_def mbind_def mread_def mlift_def mreturn_def rbind_def split: sum.split prod.split)

definition known_of :: "'w sigstate \<Rightarrow> string \<Rightarrow> string option res" where
  "known_of s tid =
     (if \<not> has_key (st_tidtopn s) tid then Inr None
      else rbind (task_key (st_tidtopn s) tid) (\<lambda>key.
        case map_of (st_unitaskhashes s) key of
          None \<Rightarrow> Inr None
        | Some (taskhash, unihash) \<Rightarrow> rbind (item (st_taskhash s) tid) (\<lambda>h. Inr (if taskhash \<noteq> h then None else Some unihash))))"

lemma known_run: "known_unihash tid [] s = (known_of s tid, s)"
  by (simp add: known_unihash_def known_of_def mread_def mbind_def mreturn_def mlift_def s_item_def unihash_key_run rbind_def
      split: sum.split option.split prod.split)

text \<open>The answer of the tables, and what is noted as the unique hash of the task.\<close>

definition server_cached_of :: "'w sigstate \<Rightarrow> string \<Rightarrow> string option res \<times> string option option" where
  "server_cached_of s tid =
     (case item (st_taskhash s) tid of
        Inl e \<Rightarrow> (Inl e, None)
      | Inr h \<Rightarrow>
          if st_setscenetasks s \<noteq> [] \<and> tid \<notin> set (st_setscenetasks s) then (Inr (Some h), Some None)
          else (case known_of s tid of
                  Inl e \<Rightarrow> (Inl e, None)
                | Inr None \<Rightarrow> (Inr None, None)
                | Inr (Some u) \<Rightarrow> (Inr (Some u), Some (Some u))))"

definition cached_of :: "'w sigconf \<Rightarrow> 'w sigstate \<Rightarrow> string \<Rightarrow> string option res \<times> string option option" where
  "cached_of cf s tid =
     (if \<not> locks_hashes (sc_class cf) then server_cached_of s tid
      else if locked_hash s tid \<noteq> None \<and> \<not> st_internal s then (Inr (locked_hash s tid), None)
      else (case rbind (split_tid_mcfn tid) (\<lambda>(mc, f, task, fn). rbind (item (st_lockedpnmap s) fn) (\<lambda>pn. Inr (pn, task))) of
              Inl e \<Rightarrow> (Inl e, None)
            | Inr k \<Rightarrow>
                (case map_of (sc_unihashmap cf) k of
                   None \<Rightarrow> server_cached_of s tid
                 | Some (taskhash, unihash) \<Rightarrow>
                     (case item (st_taskhash s) tid of
                        Inl e \<Rightarrow> (Inl e, None)
                      | Inr h \<Rightarrow> if taskhash = h then (Inr (Some unihash), None) else server_cached_of s tid))))"

definition noted :: "string \<Rightarrow> string option option \<Rightarrow> 'w sigstate \<Rightarrow> 'w sigstate" where
  "noted tid touch s = (case touch of None \<Rightarrow> s | Some v \<Rightarrow> s\<lparr>st_unihash := AList.update tid v (st_unihash s)\<rparr>)"

lemma server_cached_run:
  "server_cached_unihash tid s = (fst (server_cached_of s tid), noted tid (snd (server_cached_of s tid)) s)"
  by (simp add: server_cached_unihash_def server_cached_of_def noted_def mbind_def mthen_def mread_def mreturn_def mlift_def mupd_def
      s_item_def known_run split: sum.split option.split)

lemma cached_run:
  assumes "asks_server (sc_class cf)"
  shows "get_cached_unihash cf tid s = (fst (cached_of cf s tid), noted tid (snd (cached_of cf s tid)) s)"
  using assms
  by (simp add: get_cached_unihash_def base_cached_unihash_def cached_of_def server_cached_run noted_def mbind_def mread_def mreturn_def
      mlift_def s_item_def rbind_def split: sum.split option.split prod.split)

section \<open>Found and pending\<close>

definition found :: "'w sigconf \<Rightarrow> 'w sigstate \<Rightarrow> string \<Rightarrow> string \<Rightarrow> bool" where
  "found cf s tid u \<longleftrightarrow> u \<noteq> [] \<and> (\<exists>touch. cached_of cf s tid = (Inr (Some u), touch) \<and>
     (\<forall>v. touch = Some v \<longrightarrow> map_of (st_unihash s) tid = Some v))"

definition pending :: "'w sigconf \<Rightarrow> 'w sigstate \<Rightarrow> string \<Rightarrow> bool" where
  "pending cf s tid \<longleftrightarrow> (\<exists>r touch. cached_of cf s tid = (Inr r, touch) \<and> (r = None \<or> r = Some []))"

lemma update_same: "map_of d k = Some v \<Longrightarrow> AList.update k v d = d"
  by (induction d) (auto split: if_splits)

lemma found_run:
  assumes "asks_server (sc_class cf)" and "found cf s tid u"
  shows "get_cached_unihash cf tid s = (Inr (Some u), s)"
proof -
  obtain touch where "cached_of cf s tid = (Inr (Some u), touch)" "\<forall>v. touch = Some v \<longrightarrow> map_of (st_unihash s) tid = Some v"
    using assms(2) unfolding found_def by blast
  then show ?thesis using cached_run [OF assms(1)] update_same [of "st_unihash s" tid] by (auto simp: noted_def split: option.split)
qed

text \<open>The answer depends on the table of unique hashes at the key of the task only.\<close>

lemma cached_of_agree:
  assumes "\<And>key. task_key (st_tidtopn s) tid = Inr key \<Longrightarrow> map_of um key = map_of (st_unitaskhashes s) key"
  shows "cached_of cf (s\<lparr>st_unihash := m, st_unitaskhashes := um, st_world := w\<rparr>) tid = cached_of cf s tid"
proof -
  have "known_of (s\<lparr>st_unihash := m, st_unitaskhashes := um, st_world := w\<rparr>) tid = known_of s tid"
    using assms by (simp add: known_of_def rbind_def cong: option.case_cong split: sum.split)
  then have "server_cached_of (s\<lparr>st_unihash := m, st_unitaskhashes := um, st_world := w\<rparr>) tid = server_cached_of s tid"
    by (simp add: server_cached_of_def cong: sum.case_cong if_cong)
  then show ?thesis by (simp add: cached_of_def locked_hash_def cong: sum.case_cong option.case_cong if_cong)
qed

text \<open>What another task changes keeps both.\<close>

definition others :: "string \<Rightarrow> string option \<Rightarrow> string res \<Rightarrow> string \<times> string \<Rightarrow> 'w \<Rightarrow> 'w sigstate \<Rightarrow> 'w sigstate" where
  "others y v key e w s = s\<lparr>st_unihash := AList.update y v (st_unihash s),
     st_unitaskhashes := (case key of Inl x \<Rightarrow> st_unitaskhashes s | Inr k \<Rightarrow> AList.update k e (st_unitaskhashes s)), st_world := w\<rparr>"

lemma others_keep:
  assumes "x \<noteq> y" and "\<And>k. key = Inr k \<Longrightarrow> task_key (st_tidtopn s) x \<noteq> Inr k"
  shows "found cf s x u \<Longrightarrow> found cf (others y v key e w s) x u" and "pending cf s x \<Longrightarrow> pending cf (others y v key e w s) x"
proof -
  have "cached_of cf (others y v key e w s) x = cached_of cf s x" unfolding others_def
    by (rule cached_of_agree) (use assms(2) in \<open>auto simp: update_conv split: sum.split\<close>)
  then show "found cf s x u \<Longrightarrow> found cf (others y v key e w s) x u" "pending cf s x \<Longrightarrow> pending cf (others y v key e w s) x"
    using assms(1) by (auto simp: found_def pending_def others_def update_conv)
qed

section \<open>The two passes\<close>

text \<open>Of the tasks in \<open>D\<close>, those in \<open>P\<close> are still to be asked for; the others have their hash.\<close>

definition progress :: "'w sigconf \<Rightarrow> 'w sigstate \<Rightarrow> string set \<Rightarrow> string set \<Rightarrow> (string, string) dict \<Rightarrow> 'w sigstate \<Rightarrow> bool" where
  "progress cf s0 D P res s \<longleftrightarrow> st_tidtopn s = st_tidtopn s0 \<and> st_taskhash s = st_taskhash s0 \<and> P \<subseteq> D \<and>
     (\<forall>x. x \<in> D - P \<longrightarrow> (\<exists>u. map_of res x = Some u \<and> found cf s x u)) \<and> (\<forall>x. x \<notin> D - P \<longrightarrow> map_of res x = None) \<and>
     (\<forall>x \<in> P. pending cf s x)"

lemma noted_others: "noted y touch s = (case touch of None \<Rightarrow> s | Some v \<Rightarrow> others y v (Inl IndexError) e (st_world s) s)"
  by (simp add: noted_def others_def split: option.split)

lemma noted_keep:
  assumes "x \<noteq> y"
  shows "found cf s x u \<Longrightarrow> found cf (noted y touch s) x u" and "pending cf s x \<Longrightarrow> pending cf (noted y touch s) x"
proof -
  have "noted y touch s = (case touch of None \<Rightarrow> s | Some v \<Rightarrow> others y v (Inl IndexError) ([], []) (st_world s) s)"
    by (rule noted_others)
  then show "found cf s x u \<Longrightarrow> found cf (noted y touch s) x u" "pending cf s x \<Longrightarrow> pending cf (noted y touch s) x"
    using others_keep [OF assms, of "Inl IndexError" s cf] by (auto split: option.split)
qed

lemma noted_self: "cached_of cf (noted y touch s) x = cached_of cf s x"
  using cached_of_agree [where s = s and tid = x and um = "st_unitaskhashes s" and cf = cf and w = "st_world s"]
  by (auto simp: noted_def split: option.split)

lemma split_cached_step:
  assumes "asks_server (sc_class cf)" and "progress cf s0 D P res s" and "set qs = P" "distinct qs" and "x \<notin> D"
    and "split_cached cf x (res, qs) s = (Inr (res', qs'), s')"
  shows "progress cf s0 (insert x D) (set qs') res' s' \<and> distinct qs' \<and> set qs' \<subseteq> insert x D"
proof -
  obtain r touch where c: "cached_of cf s x = (Inr r, touch)" and s': "s' = noted x touch s"
    and out: "(res', qs') = (case r of Some unihash \<Rightarrow> if unihash = [] then (res, qs @ [x]) else (AList.update x unihash res, qs)
        | None \<Rightarrow> (res, qs @ [x]))"
    using assms(6) cached_run [OF assms(1), of x s]
    by (cases "cached_of cf s x") (auto simp: split_cached_def mbind_def mreturn_def split: sum.splits option.splits if_splits)
  have P: "P \<subseteq> D" "\<And>y. y \<in> P \<Longrightarrow> y \<noteq> x" "\<And>y. y \<in> D \<Longrightarrow> y \<noteq> x" using assms(2,5) by (auto simp: progress_def)
  have base: "st_tidtopn s' = st_tidtopn s0" "st_taskhash s' = st_taskhash s0"
    using assms(2) by (auto simp: progress_def s' noted_def split: option.split)
  have keepf: "found cf s y u \<Longrightarrow> found cf s' y u" and keepp: "pending cf s y \<Longrightarrow> pending cf s' y" if "y \<noteq> x" for y u
    unfolding s' using noted_keep [OF that] by blast+
  show ?thesis
  proof (cases "r = None \<or> r = Some []")
    case True
    then have "res' = res" "qs' = qs @ [x]" using out by auto
    moreover have "pending cf s' x" using True c by (auto simp: pending_def s' noted_self)
    ultimately show ?thesis using assms(2-5) P base keepf keepp by (auto simp: progress_def)
  next
    case False
    then obtain u where u: "r = Some u" "u \<noteq> []" by auto
    then have "res' = AList.update x u res" "qs' = qs" using out by auto
    moreover have "cached_of cf s' x = (Inr (Some u), touch)" using u c by (simp add: s' noted_self)
    then have "found cf s' x u" using u by (auto simp: found_def s' noted_def update_conv)
    ultimately show ?thesis using assms(2-5) P base keepf keepp by (auto simp: progress_def update_conv)
  qed
qed

lemma split_cached_all:
  assumes "asks_server (sc_class cf)"
  shows "progress cf s0 D (set qs) res s \<Longrightarrow> distinct qs \<Longrightarrow> distinct xs \<Longrightarrow> set xs \<inter> D = {} \<Longrightarrow>
    mfold (split_cached cf) xs (res, qs) s = (Inr (res', qs'), s') \<Longrightarrow>
    progress cf s0 (D \<union> set xs) (set qs') res' s' \<and> distinct qs'"
proof (induction xs arbitrary: D qs res s)
  case Nil
  then show ?case by (simp add: mreturn_def)
next
  case (Cons x xs)
  then obtain res1 qs1 s1 where step: "split_cached cf x (res, qs) s = (Inr (res1, qs1), s1)"
    and rest: "mfold (split_cached cf) xs (res1, qs1) s1 = (Inr (res', qs'), s')"
    by (auto simp: mbind_def split: prod.splits sum.splits)
  have "progress cf s0 (insert x D) (set qs1) res1 s1 \<and> distinct qs1"
    using split_cached_step [OF assms Cons.prems(1) refl Cons.prems(2) _ step] Cons.prems(4) by auto
  with Cons.IH [of "insert x D" qs1 res1 s1] rest Cons.prems(3,4) show ?case by auto
qed

text \<open>A task is pending because the server's table has nothing for it.\<close>

lemma pending_server:
  assumes "pending cf s x" and maps: "\<And>k h u. map_of (sc_unihashmap cf) k = Some (h, u) \<Longrightarrow> u \<noteq> []"
    and same: "st_lockedhashes s' = st_lockedhashes s" "st_internal s' = st_internal s" "st_lockedpnmap s' = st_lockedpnmap s"
      "st_taskhash s' = st_taskhash s"
  shows "cached_of cf s x = server_cached_of s x \<and> cached_of cf s' x = server_cached_of s' x"
proof -
  obtain r touch where c: "cached_of cf s x = (Inr r, touch)" "r = None \<or> r = Some []" using assms(1) by (auto simp: pending_def)
  have l: "locked_hash s' x = locked_hash s x" "locked_hash s x \<noteq> Some []" using same by (auto simp: locked_hash_def split: option.splits)
  show ?thesis using c l same
    by (auto simp: cached_of_def split: if_splits sum.splits option.splits prod.splits dest: maps)
qed

lemma server_settled:
  assumes "fst (server_cached_of s x) = Inr r" "r = None \<or> r = Some []" and "map_of (st_taskhash s) x = Some h" "h \<noteq> []"
    and "st_setscenetasks s' = st_setscenetasks s" "map_of (st_taskhash s') x = Some h" "task_key (st_tidtopn s') x = Inr key"
    and "map_of (st_unitaskhashes s') key = Some (h, u)"
  shows "server_cached_of s' x = (Inr (Some u), Some (Some u))"
proof -
  have "has_key (st_tidtopn s') x" using assms(7) by (auto simp: task_key_def rbind_eq_Inr item_def has_key_def split: option.splits)
  then have "known_of s' x = Inr (Some u)" using assms(6-8) by (simp add: known_of_def item_def)
  moreover have "\<not> (st_setscenetasks s \<noteq> [] \<and> x \<notin> set (st_setscenetasks s))" using assms(1-4) by (auto simp: server_cached_of_def item_def split: if_splits)
  ultimately show ?thesis using assms(5,6) by (auto simp: server_cached_of_def item_def)
qed

text \<open>Asking for a pending task settles it: it has a hash that is not empty, and the table has it.\<close>

lemma settle_step:
  assumes "progress cf s0 D P res s" and "asks_server (sc_class cf)"
    and maps: "\<And>k h u. map_of (sc_unihashmap cf) k = Some (h, u) \<Longrightarrow> u \<noteq> []" and x: "x \<in> P" "map_of (st_taskhash s0) x \<noteq> Some []"
    and keys: "\<And>y k. y \<in> D \<Longrightarrow> y \<noteq> x \<Longrightarrow> task_key (st_tidtopn s0) y = Inr k \<Longrightarrow> task_key (st_tidtopn s0) x \<noteq> Inr k"
    and run: "settle_unihash answers (i, x) res s = (Inr res', s')"
  shows "progress cf s0 D (P - {x}) res' s' \<and> st_world s' = st_world s"
proof -
  have base: "st_tidtopn s = st_tidtopn s0" "st_taskhash s = st_taskhash s0" using assms(1) by (simp_all add: progress_def)
  obtain h key u where h: "map_of (st_taskhash s) x = Some h" and key: "task_key (st_tidtopn s) x = Inr key"
    and u: "u \<noteq> []" and res': "res' = AList.update x u res"
    and s': "s' = s\<lparr>st_unitaskhashes := AList.update key (h, u) (st_unitaskhashes s), st_unihash := AList.update x (Some u) (st_unihash s)\<rparr>"
  proof -
    obtain h key where h: "map_of (st_taskhash s) x = Some h" and key: "task_key (st_tidtopn s) x = Inr key"
      using run by (auto simp: settle_unihash_def siggen_set_unihash_def returns_iff item_Inr unihash_key_run mraise_def split: if_splits)
    have "h \<noteq> []" using x(2) h base by auto
    then show ?thesis using run h key that
      by (auto simp: settle_unihash_def siggen_set_unihash_def returns_iff item_Inr unihash_key_run mraise_def split: if_splits option.splits)
  qed
  have s'2: "s' = others x (Some u) (Inr key) (h, u) (st_world s) s" by (simp add: s' others_def)
  have keep: "found cf s y v \<Longrightarrow> found cf s' y v" "pending cf s y \<Longrightarrow> pending cf s' y" if "y \<noteq> x" "y \<in> D" for y v
  proof -
    have other: "Inr key = Inr k \<Longrightarrow> task_key (st_tidtopn s) y \<noteq> Inr k" for k :: string
      using keys [OF that(2,1), of key] key base by auto
    show "found cf s y v \<Longrightarrow> found cf s' y v" "pending cf s y \<Longrightarrow> pending cf s' y"
      unfolding s'2 using others_keep(1) [OF that(1) other] others_keep(2) [OF that(1) other] by blast+
  qed
  have "cached_of cf s x = server_cached_of s x" "cached_of cf s' x = server_cached_of s' x"
    using pending_server [of cf s x s'] maps assms(1) x(1) by (auto simp: progress_def s')
  moreover obtain r0 where "fst (cached_of cf s x) = Inr r0" "r0 = None \<or> r0 = Some []"
    using assms(1) x(1) by (force simp: progress_def pending_def)
  moreover have "h \<noteq> []" using x(2) h base by auto
  ultimately have "cached_of cf s' x = (Inr (Some u), Some (Some u))"
    using server_settled [of s x r0 h s' key u] h key by (simp add: s' update_conv)
  then have "found cf s' x u" using u by (simp add: found_def s' update_conv)
  moreover have "pending cf s' y" if "y \<in> P - {x}" for y
    using keep(2) [of y] assms(1) that by (auto simp: progress_def)
  moreover have "\<exists>v. map_of res' y = Some v \<and> found cf s' y v" if "y \<in> D - P" for y
  proof -
    obtain v where "map_of res y = Some v" "found cf s y v" using assms(1) \<open>y \<in> D - P\<close> unfolding progress_def by blast
    moreover have "y \<noteq> x" using that x(1) by auto
    ultimately show ?thesis using keep(1) [of y v] that by (auto simp: res' update_conv)
  qed
  moreover have "st_tidtopn s' = st_tidtopn s0" "st_taskhash s' = st_taskhash s0" "st_world s' = st_world s" using base s' by simp_all
  moreover have "map_of res' y = None" if "y \<notin> D - (P - {x})" for y
    using assms(1) x(1) that by (auto simp: progress_def res' update_conv)
  moreover have "map_of res' x = Some u" by (simp add: res' update_conv)
  moreover have "P \<subseteq> D" using assms(1) by (simp add: progress_def)
  ultimately show ?thesis unfolding progress_def by blast
qed

lemma settle_all:
  assumes "asks_server (sc_class cf)" and "\<And>k h u. map_of (sc_unihashmap cf) k = Some (h, u) \<Longrightarrow> u \<noteq> []"
    and "\<And>x. x \<in> D \<Longrightarrow> map_of (st_taskhash s0) x \<noteq> Some []"
    and "\<And>x y k. x \<in> D \<Longrightarrow> y \<in> D \<Longrightarrow> y \<noteq> x \<Longrightarrow> task_key (st_tidtopn s0) y = Inr k \<Longrightarrow> task_key (st_tidtopn s0) x \<noteq> Inr k"
  shows "progress cf s0 D (set qs) res s \<Longrightarrow> distinct qs \<Longrightarrow>
    mfold (settle_unihash answers) (enumerate i qs) res s = (Inr res', s') \<Longrightarrow> progress cf s0 D {} res' s' \<and> st_world s' = st_world s"
proof (induction qs arbitrary: i res s)
  case Nil
  then show ?case by (simp add: mreturn_def)
next
  case (Cons q qs)
  then obtain res1 s1 where step: "settle_unihash answers (i, q) res s = (Inr res1, s1)"
    and rest: "mfold (settle_unihash answers) (enumerate (Suc i) qs) res1 s1 = (Inr res', s')"
    by (auto simp: mbind_def split: prod.splits sum.splits)
  have D: "q \<in> D" "set qs \<subseteq> D" using Cons.prems(1) by (auto simp: progress_def)
  have "progress cf s0 D (set (q # qs) - {q}) res1 s1 \<and> st_world s1 = st_world s"
    by (rule settle_step [OF Cons.prems(1) assms(1) assms(2) _ assms(3) [OF D(1)] assms(4) [OF D(1)] step]) auto
  moreover have "set (q # qs) - {q} = set qs" using Cons.prems(2) by auto
  ultimately show ?case using Cons.IH [OF _ _ rest] Cons.prems(2) by auto
qed

lemma progress_world: "progress cf s0 D P res (s\<lparr>st_world := w\<rparr>) \<longleftrightarrow> progress cf s0 D P res s"
proof -
  have "cached_of cf (s\<lparr>st_world := w\<rparr>) x = cached_of cf s x" for x
    using cached_of_agree [where s = s and tid = x and um = "st_unitaskhashes s" and m = "st_unihash s" and cf = cf and w = w] by simp
  then have "found cf (s\<lparr>st_world := w\<rparr>) x u = found cf s x u" "pending cf (s\<lparr>st_world := w\<rparr>) x = pending cf s x" for x u
    by (simp_all add: found_def pending_def)
  then show ?thesis by (simp add: progress_def)
qed

lemma queries_keep: "mfold (method_query cf) xs q s = (Inr q', s') \<Longrightarrow> s' = s"
  by (induction xs arbitrary: q) (auto simp: method_query_def returns_iff)

lemma found_again:
  assumes "asks_server (sc_class cf)"
  shows "(\<And>x. x \<in> set xs \<Longrightarrow> found cf s x (u x)) \<Longrightarrow>
    mfold (split_cached cf) xs (res, []) s = (Inr (fold (\<lambda>x. AList.update x (u x)) xs res, []), s)"
proof (induction xs arbitrary: res)
  case (Cons x xs)
  then have "get_cached_unihash cf x s = (Inr (Some (u x)), s)" "u x \<noteq> []"
    using found_run [OF assms, of s x "u x"] by (auto simp: found_def)
  then have "split_cached cf x (res, []) s = (Inr (AList.update x (u x) res, []), s)"
    by (simp add: split_cached_def mbind_def mreturn_def)
  with Cons show ?case by (simp add: mbind_def)
qed (simp add: mreturn_def)

lemma map_of_updates: "map_of (fold (\<lambda>x. AList.update x (u x)) xs d) y = (if y \<in> set xs then Some (u y) else map_of d y)"
  by (induction xs arbitrary: d) (auto simp: update_conv)

section \<open>Asking twice\<close>

lemma first_round:
  assumes "asks_server (sc_class cf)" and "get_unihashes cf tids s = (Inr result, t)" and "distinct tids"
    and "\<And>k h u. map_of (sc_unihashmap cf) k = Some (h, u) \<Longrightarrow> u \<noteq> []"
    and "\<And>x. x \<in> set tids \<Longrightarrow> map_of (st_taskhash s) x \<noteq> Some []"
    and "\<And>x y k. x \<in> set tids \<Longrightarrow> y \<in> set tids \<Longrightarrow> y \<noteq> x \<Longrightarrow> task_key (st_tidtopn s) y = Inr k \<Longrightarrow> task_key (st_tidtopn s) x \<noteq> Inr k"
  shows "progress cf s (set tids) {} result t"
proof -
  obtain res qs s1 answers s2 where one: "mfold (split_cached cf) tids ([], []) s = (Inr (res, qs), s1)"
    and ask: "(if qs = [] then mreturn [] else mbind (mfold (method_query cf) qs []) (\<lambda>query.
        mbind (in_world (sc_server cf query)) (\<lambda>a. mreturn (case a of None \<Rightarrow> [] | Some answers \<Rightarrow> answers)))) s1 = (Inr answers, s2)"
    and settle: "mfold (settle_unihash answers) (enumerate 0 qs) res s2 = (Inr result, t)"
    using assms(2) by (auto simp: get_unihashes_def server_unihashes_def assms(1) returns_iff)
  have p1: "progress cf s (set tids) (set qs) res s1 \<and> distinct qs"
    using split_cached_all [OF assms(1), of s "{}" "[]" "[]" s tids res qs s1] one assms(3) by (simp add: progress_def)
  have "\<exists>w. s2 = s1\<lparr>st_world := w\<rparr>"
  proof (cases "qs = []")
    case True
    then have "s2 = s1\<lparr>st_world := st_world s1\<rparr>" using ask by (simp add: mreturn_def)
    then show ?thesis by blast
  next
    case False
    then obtain q u a where "mfold (method_query cf) qs [] s1 = (Inr q, u)" and a: "in_world (sc_server cf q) u = (Inr a, s2)"
      using ask by (auto simp: returns_iff)
    then have "u = s1" using queries_keep by blast
    then show ?thesis using a by (cases "sc_server cf q (st_world u)") (auto simp: in_world_def)
  qed
  then have "progress cf s (set tids) (set qs) res s2" using p1 progress_world [where s = s1 and cf = cf and ?s0.0 = s] by metis
  from settle_all [OF assms(1,4,5,6) this _ settle] p1 show ?thesis by auto
qed

text \<open>C25: unique hashes are found once. If the hashes of some tasks could be had, asking again for any of them gives the same, leaves
  the state as it is, and does not ask the server. The tasks have to have different names in the table, which leaves out the file,
  and no hash is empty.\<close>

theorem unihashes_found_once:
  assumes "asks_server (sc_class cf)" and "get_unihashes cf tids s = (Inr result, t)" and "distinct tids"
    and "\<And>k h u. map_of (sc_unihashmap cf) k = Some (h, u) \<Longrightarrow> u \<noteq> []"
    and "\<And>x. x \<in> set tids \<Longrightarrow> map_of (st_taskhash s) x \<noteq> Some []"
    and "\<And>x y k. x \<in> set tids \<Longrightarrow> y \<in> set tids \<Longrightarrow> y \<noteq> x \<Longrightarrow> task_key (st_tidtopn s) y = Inr k \<Longrightarrow> task_key (st_tidtopn s) x \<noteq> Inr k"
    and "set again \<subseteq> set tids"
  shows "\<exists>result'. get_unihashes cf again t = (Inr result', t) \<and>
    (\<forall>x. map_of result' x = (if x \<in> set again then map_of result x else None)) \<and> (\<forall>x \<in> set again. map_of result x \<noteq> None)"
proof -
  have p: "progress cf s (set tids) {} result t" by (rule first_round [OF assms(1-3)]) (use assms(4-6) in blast)+
  define u where "u = (\<lambda>x. the (map_of result x))"
  have f: "found cf t x (u x)" "map_of result x = Some (u x)" if "x \<in> set again" for x
    using p that assms(7) by (auto simp: progress_def u_def)
  have "get_unihashes cf again t = (Inr (fold (\<lambda>x. AList.update x (u x)) again []), t)"
    using found_again [OF assms(1), of again t u "[]"] f(1)
    by (simp add: get_unihashes_def server_unihashes_def assms(1) mbind_def mreturn_def)
  then show ?thesis using f(2) by (auto simp: map_of_updates)
qed

lemma unihashes_found_once_witness:
  "\<exists>t. get_unihashes (sample_conf TestEquivHash) [''a:t'', ''b:t''] sample_sigstate = (Inr [(''a:t'', ''s1''), (''b:t'', ''s2'')], t) \<and>
     (\<exists>r. get_unihashes (sample_conf TestEquivHash) [''b:t''] t = (Inr r, t) \<and> map_of r ''b:t'' = Some ''s2'')"
proof -
  let ?run = "get_unihashes (sample_conf TestEquivHash) [''a:t'', ''b:t''] sample_sigstate"
  have "fst ?run = Inr [(''a:t'', ''s1''), (''b:t'', ''s2'')]" by code_simp
  then obtain t where t: "?run = (Inr [(''a:t'', ''s1''), (''b:t'', ''s2'')], t)" by (cases ?run) auto
  have keys: "task_key (st_tidtopn sample_sigstate) ''a:t'' = Inr '':a:t''" "task_key (st_tidtopn sample_sigstate) ''b:t'' = Inr '':b:t''"
    by code_simp+
  have "\<exists>r. get_unihashes (sample_conf TestEquivHash) [''b:t''] t = (Inr r, t) \<and>
      (\<forall>x. map_of r x = (if x \<in> set [''b:t''] then map_of [(''a:t'', ''s1''), (''b:t'', ''s2'')] x else None)) \<and>
      (\<forall>x \<in> set [''b:t'']. map_of [(''a:t'', ''s1''), (''b:t'', ''s2'')] x \<noteq> None)"
    by (rule unihashes_found_once [OF _ t]) (use keys in \<open>auto simp: asks_server_def sample_conf_def sample_sigstate_def\<close>)
  then show ?thesis using t by auto
qed

end
