(* ===== verification/PRServ.thy ===== *)
theory PRServ
  imports Versions
begin

text \<open>
  The PR service, \<open>prserv/__init__.py\<close>, \<open>prserv/db.py\<close> and \<open>prserv/serv.py\<close>: a table that gives each output of a package, known
  by its checksum, a revision, so that what is built later has a greater one. A server may ask another one upstream.

  The table is the list of its rows. The order in which the database returns rows is a parameter, and so are the answers of the
  upstream server during a request.
\<close>

section \<open>Revisions\<close>

definition show_val :: "int \<Rightarrow> string" where
  "show_val i = (if i < 0 then CHR ''-'' # show_nat (nat (- i)) else show_nat (nat i))"

definition increase_revision :: "string \<Rightarrow> string res" where
  "increase_revision ver =
     (let fields = split_on CHR ''.'' ver
      in rbind (py_int (last fields)) (\<lambda>val. Inr (join ''.'' (butlast fields @ [show_val (val + 1)]))))"

text \<open>The fields of two revisions, one after the other; when the second has no more, or neither, the answer is yes.\<close>

fun fields_greater_or_equal :: "string list \<Rightarrow> string list \<Rightarrow> bool res" where
  "fields_greater_or_equal [] fields2 = Inr True"
| "fields_greater_or_equal (f # fields1) fields2 =
     rbind (py_int f) (\<lambda>val1.
       case fields2 of
         [] \<Rightarrow> Inr True
       | g # fields2 \<Rightarrow>
           rbind (py_int g) (\<lambda>val2.
             if val2 < val1 then Inr True else if val2 > val1 then Inr False else fields_greater_or_equal fields1 fields2))"

definition revision_greater_or_equal :: "string \<Rightarrow> string \<Rightarrow> bool res" where
  "revision_greater_or_equal rev1 rev2 = fields_greater_or_equal (split_on CHR ''.'' rev1) (split_on CHR ''.'' rev2)"

definition revision_smaller :: "string \<Rightarrow> string \<Rightarrow> bool res" where
  "revision_smaller rev1 rev2 = rbind (revision_greater_or_equal rev1 rev2) (\<lambda>b. Inr (\<not> b))"

definition revision_greater :: "string \<Rightarrow> string \<Rightarrow> bool res" where
  "revision_greater rev1 rev2 = rbind (revision_greater_or_equal rev1 rev2) (\<lambda>b. Inr (b \<and> rev1 \<noteq> rev2))"

section \<open>The table\<close>

record pr_row =
  row_version :: string
  row_pkgarch :: string
  row_checksum :: string
  row_value :: string

record pr_db =
  db_order :: "pr_row list \<Rightarrow> pr_row list"
  db_read_only :: bool

type_synonym pr_table = "pr_row list"

definition select_values :: "pr_db \<Rightarrow> (pr_row \<Rightarrow> bool) \<Rightarrow> pr_table \<Rightarrow> string list" where
  "select_values db P rows = map row_value (db_order db (filter P rows))"

definition extremum_step :: "bool \<Rightarrow> string \<Rightarrow> string option \<Rightarrow> string option res" where
  "extremum_step is_max current v =
     (case v of
        None \<Rightarrow> Inr (Some current)
      | Some best \<Rightarrow>
          rbind (if is_max then revision_greater current best else revision_smaller current best) (\<lambda>new.
            Inr (Some (if new then current else best))))"

definition extremum_value :: "bool \<Rightarrow> string list \<Rightarrow> string option res" where
  "extremum_value is_max values = rfold (extremum_step is_max) values None"

definition of_package :: "string \<Rightarrow> string \<Rightarrow> pr_row \<Rightarrow> bool" where
  "of_package version pkgarch r \<longleftrightarrow> row_version r = version \<and> row_pkgarch r = pkgarch"

definition test_package :: "string \<Rightarrow> string \<Rightarrow> pr_table \<Rightarrow> bool" where
  "test_package version pkgarch rows = list_ex (of_package version pkgarch) rows"

definition test_value :: "string \<Rightarrow> string \<Rightarrow> string \<Rightarrow> pr_table \<Rightarrow> bool" where
  "test_value version pkgarch v rows = list_ex (\<lambda>r. of_package version pkgarch r \<and> row_value r = v) rows"

definition find_package_max_value :: "pr_db \<Rightarrow> string \<Rightarrow> string \<Rightarrow> pr_table \<Rightarrow> string option res" where
  "find_package_max_value db version pkgarch rows = extremum_value True (select_values db (of_package version pkgarch) rows)"

definition find_value :: "pr_db \<Rightarrow> string \<Rightarrow> string \<Rightarrow> string \<Rightarrow> bool \<Rightarrow> pr_table \<Rightarrow> string option res" where
  "find_value db version pkgarch checksum history rows =
     extremum_value (\<not> history) (select_values db (\<lambda>r. of_package version pkgarch r \<and> row_checksum r = checksum) rows)"

text \<open>\<open>LIKE\<close> of SQL: any text for \<open>%\<close>, any character for \<open>_\<close>, and letters in either case.\<close>

definition sql_same :: "char \<Rightarrow> char \<Rightarrow> bool" where
  "sql_same a b \<longleftrightarrow> a = b \<or> is_letter a \<and> is_letter b \<and> (of_char a :: nat) mod 32 = of_char b mod 32"

fun sql_like :: "string \<Rightarrow> string \<Rightarrow> bool" where
  "sql_like [] s = (s = [])"
| "sql_like (p # ps) s =
     (if p = CHR ''%'' then list_ex (sql_like ps) (suffixes s)
      else (case s of [] \<Rightarrow> False | c # cs \<Rightarrow> (p = CHR ''_'' \<or> sql_same p c) \<and> sql_like ps cs))"

definition like_base :: "string option \<Rightarrow> pr_row \<Rightarrow> bool" where
  "like_base base r = sql_like ((case base of None \<Rightarrow> ''None'' | Some b \<Rightarrow> b) @ ''.%'') (row_value r)"

definition find_new_subvalue :: "pr_db \<Rightarrow> string \<Rightarrow> string \<Rightarrow> string option \<Rightarrow> pr_table \<Rightarrow> string res" where
  "find_new_subvalue db version pkgarch base rows =
     rbind (extremum_value True (select_values db (\<lambda>r. of_package version pkgarch r \<and> like_base base r) rows)) (\<lambda>v.
       case v of Some v \<Rightarrow> increase_revision v | None \<Rightarrow> (case base of None \<Rightarrow> Inl TypeError | Some b \<Rightarrow> Inr (b @ ''.0'')))"

definition new_row :: "string \<Rightarrow> string \<Rightarrow> string \<Rightarrow> string \<Rightarrow> pr_row" where
  "new_row version pkgarch checksum v = \<lparr>row_version = version, row_pkgarch = pkgarch, row_checksum = checksum, row_value = v\<rparr>"

definition test_checksum_value :: "string \<Rightarrow> string \<Rightarrow> string \<Rightarrow> string \<Rightarrow> pr_table \<Rightarrow> bool" where
  "test_checksum_value version pkgarch checksum v rows = (new_row version pkgarch checksum v \<in> set rows)"

definition store_value :: "pr_db \<Rightarrow> string \<Rightarrow> string \<Rightarrow> string \<Rightarrow> string \<Rightarrow> pr_table \<Rightarrow> pr_table" where
  "store_value db version pkgarch checksum v rows =
     (if \<not> db_read_only db \<and> \<not> test_checksum_value version pkgarch checksum v rows
      then rows @ [new_row version pkgarch checksum v] else rows)"

text \<open>The last comparison is one of texts.\<close>

definition choose_value :: "pr_db \<Rightarrow> string \<Rightarrow> string \<Rightarrow> string \<Rightarrow> bool \<Rightarrow> pr_table \<Rightarrow> string res" where
  "choose_value db version pkgarch checksum history rows =
     rbind (find_package_max_value db version pkgarch rows) (\<lambda>max_value.
       case max_value of
         None \<Rightarrow> Inr ''0''
       | Some max_value \<Rightarrow>
           rbind (find_value db version pkgarch checksum history rows) (\<lambda>v.
             case v of
               None \<Rightarrow> increase_revision max_value
             | Some v \<Rightarrow> if history then Inr v else if max_value > v then increase_revision max_value else Inr v))"

definition get_value :: "pr_db \<Rightarrow> string \<Rightarrow> string \<Rightarrow> string \<Rightarrow> bool \<Rightarrow> pr_table \<Rightarrow> (string \<times> pr_table) res" where
  "get_value db version pkgarch checksum history rows =
     rbind (choose_value db version pkgarch checksum history rows) (\<lambda>v.
       Inr (v, if db_read_only db then rows else store_value db version pkgarch checksum v rows))"

definition importone :: "pr_db \<Rightarrow> string \<Rightarrow> string \<Rightarrow> string \<Rightarrow> string \<Rightarrow> pr_table \<Rightarrow> string \<times> pr_table" where
  "importone db version pkgarch checksum v rows = (v, store_value db version pkgarch checksum v rows)"

text \<open>The rows that are exported: all, or those with the greatest value of their package. Values are texts for the database.\<close>

definition greatest_text :: "string list \<Rightarrow> string" where
  "greatest_text values = fold max values []"

definition exported :: "pr_db \<Rightarrow> string option \<Rightarrow> string option \<Rightarrow> string option \<Rightarrow> bool \<Rightarrow> pr_table \<Rightarrow> pr_row list" where
  "exported db version pkgarch checksum history rows =
     (let asked = (\<lambda>a v. case a of None \<Rightarrow> True | Some t \<Rightarrow> t = [] \<or> v = t);
          wanted = (\<lambda>r. asked version (row_version r) \<and> asked pkgarch (row_pkgarch r) \<and> asked checksum (row_checksum r) \<and>
            (history \<or> row_value r = greatest_text (map row_value (filter (of_package (row_version r) (row_pkgarch r)) rows))))
      in filter (\<lambda>r. row_version r \<noteq> []) (db_order db (filter wanted rows)))"

section \<open>The server\<close>

record pr_upstream =
  up_max_package_pr :: "string \<Rightarrow> string \<Rightarrow> string option"
  up_test_pr :: "string \<Rightarrow> string \<Rightarrow> string \<Rightarrow> string option"
  up_test_package :: "string \<Rightarrow> string \<Rightarrow> bool"

record pr_request =
  rq_version :: string
  rq_pkgarch :: string
  rq_checksum :: string
  rq_history :: bool

text \<open>\<open>revision_smaller\<close> where the second revision may be \<open>None\<close>.\<close>

definition smaller_than :: "string \<Rightarrow> string option \<Rightarrow> bool res" where
  "smaller_than rev1 rev2 = (case rev2 of None \<Rightarrow> Inl AttributeError | Some rev2 \<Rightarrow> revision_smaller rev1 rev2)"

definition raise_local :: "pr_db \<Rightarrow> string \<Rightarrow> string \<Rightarrow> string \<Rightarrow> pr_table \<Rightarrow> string res" where
  "raise_local db version pkgarch v rows =
     rbind (find_package_max_value db version pkgarch rows) (\<lambda>local_max.
     rbind (smaller_than v local_max) (\<lambda>b.
       if b then increase_revision (the local_max) else Inr v))"

definition raise_upstream :: "pr_upstream \<Rightarrow> string \<Rightarrow> string \<Rightarrow> string \<Rightarrow> string \<Rightarrow> string res" where
  "raise_upstream up version pkgarch checksum v =
     rbind (smaller_than v (up_max_package_pr up version pkgarch)) (\<lambda>b.
       if \<not> b then Inr v
       else Inr (case up_max_package_pr up version pkgarch of
              None \<Rightarrow> v
            | Some m \<Rightarrow> (case up_test_pr up version pkgarch checksum of None \<Rightarrow> m @ ''.0'' | Some u \<Rightarrow> m)))"

definition known_locally :: "pr_db \<Rightarrow> pr_upstream \<Rightarrow> pr_request \<Rightarrow> string \<Rightarrow> pr_table \<Rightarrow> (string \<times> pr_table) res" where
  "known_locally db up rq v rows =
     (if rq_history rq then get_value db (rq_version rq) (rq_pkgarch rq) (rq_checksum rq) True rows
      else rbind (raise_local db (rq_version rq) (rq_pkgarch rq) v rows) (\<lambda>v1.
           rbind (raise_upstream up (rq_version rq) (rq_pkgarch rq) (rq_checksum rq) v1) (\<lambda>v2.
             Inr (v2, if v2 \<noteq> v \<and> \<not> db_read_only db then store_value db (rq_version rq) (rq_pkgarch rq) (rq_checksum rq) v2 rows else rows))))"

definition new_locally :: "pr_db \<Rightarrow> pr_upstream \<Rightarrow> pr_request \<Rightarrow> pr_table \<Rightarrow> (string \<times> pr_table) res" where
  "new_locally db up rq rows =
     (let store = (\<lambda>v. if db_read_only db then rows else store_value db (rq_version rq) (rq_pkgarch rq) (rq_checksum rq) v rows)
      in if \<not> up_test_package up (rq_version rq) (rq_pkgarch rq)
         then get_value db (rq_version rq) (rq_pkgarch rq) (rq_checksum rq) (rq_history rq) rows
         else (case up_test_pr up (rq_version rq) (rq_pkgarch rq) (rq_checksum rq) of
                 Some v \<Rightarrow> Inr (v, store v)
               | None \<Rightarrow>
                   rbind (find_new_subvalue db (rq_version rq) (rq_pkgarch rq)
                       (up_max_package_pr up (rq_version rq) (rq_pkgarch rq)) rows) (\<lambda>v.
                     Inr (v, store v))))"

definition handle_get_pr :: "pr_db \<Rightarrow> pr_upstream option \<Rightarrow> pr_request \<Rightarrow> pr_table \<Rightarrow> (string \<times> pr_table) res" where
  "handle_get_pr db upstream rq rows =
     (case upstream of
        None \<Rightarrow> get_value db (rq_version rq) (rq_pkgarch rq) (rq_checksum rq) (rq_history rq) rows
      | Some up \<Rightarrow>
          rbind (find_value db (rq_version rq) (rq_pkgarch rq) (rq_checksum rq) (rq_history rq) rows) (\<lambda>v.
            case v of Some v \<Rightarrow> known_locally db up rq v rows | None \<Rightarrow> new_locally db up rq rows))"

definition handle_import_one :: "pr_db \<Rightarrow> string \<Rightarrow> string \<Rightarrow> string \<Rightarrow> string \<Rightarrow> pr_table \<Rightarrow> string option \<times> pr_table" where
  "handle_import_one db version pkgarch checksum v rows =
     (if db_read_only db then (None, rows) else (case importone db version pkgarch checksum v rows of (v, rows) \<Rightarrow> (Some v, rows)))"

text \<open>Requests one after the other, and their answers.\<close>

fun serve :: "pr_db \<Rightarrow> pr_upstream option \<Rightarrow> pr_request list \<Rightarrow> pr_table \<Rightarrow> (string list \<times> pr_table) res" where
  "serve db upstream [] rows = Inr ([], rows)"
| "serve db upstream (rq # rqs) rows =
     rbind (handle_get_pr db upstream rq rows) (\<lambda>(v, rows).
     rbind (serve db upstream rqs rows) (\<lambda>(vs, rows). Inr (v # vs, rows)))"

end
