(* ===== verification/PRSpec.thy ===== *)
theory PRSpec
  imports PRServ "HOL-Library.Multiset"
begin

text \<open>
  What the PR service promises and what it does not: two outputs of a package never have the same revision, and a new output gets
  a greater one than all before. But without history the revision of an output can go down, and a package that the upstream server
  does not know can be asked for only once.
\<close>

section \<open>Numerals\<close>

lemma char_digit: "n < 10 \<Longrightarrow> is_digit (char_of (48 + n)) \<and> digit_val (char_of (48 + n)) = int n" for n :: nat
  by (simp add: is_digit_def digit_val_def Let_def)

lemma digits_val_snoc: "digits_val (s @ [c]) = digits_val s * 10 + digit_val c"
  by (simp add: digits_val_def)

lemma show_nat_digits: "show_nat n \<noteq> [] \<and> list_all is_digit (show_nat n) \<and> digits_val (show_nat n) = int n"
proof (induction n rule: show_nat.induct)
  case (1 n)
  show ?case
  proof (cases "n < 10")
    case True
    then have "show_nat n = [char_of (48 + n)]" by (subst show_nat.simps) simp
    then show ?thesis using char_digit [OF True] by (simp add: digits_val_def)
  next
    case False
    then have "n mod 10 < 10" by simp
    note last = char_digit [OF this]
    have "show_nat n = show_nat (n div 10) @ [char_of (48 + n mod 10)]" using False by (subst show_nat.simps) simp
    moreover have "int (n div 10) * 10 + int (n mod 10) = int n" by presburger
    ultimately show ?thesis using last 1 [OF False] by (simp add: digits_val_snoc)
  qed
qed

lemma py_int_show: "py_int (show_nat n) = Inr (int n)"
  using py_int_digits [of "show_nat n"] show_nat_digits [of n] by simp

lemma show_nat_inj [simp]: "show_nat a = show_nat b \<longleftrightarrow> a = b"
  using py_int_show [of a] py_int_show [of b] by (metis Inr_inject of_nat_eq_iff)

lemma show_nat_fields: "split_on CHR ''.'' (show_nat n) = [show_nat n]"
proof (rule split_on_free)
  have "\<not> is_digit CHR ''.''" by (simp add: is_digit_def)
  then show "CHR ''.'' \<notin> set (show_nat n)" using show_nat_digits [of n] by (auto simp: list_all_iff)
qed

lemma increase_show: "increase_revision (show_nat n) = Inr (show_nat (Suc n))"
proof -
  have "nat (int n + 1) = Suc n" by simp
  then show ?thesis by (simp add: increase_revision_def show_nat_fields py_int_show show_val_def)
qed

lemma greater_show: "revision_greater (show_nat a) (show_nat b) = Inr (b < a)"
  by (auto simp: revision_greater_def revision_greater_or_equal_def show_nat_fields py_int_show)

lemma smaller_show: "revision_smaller (show_nat a) (show_nat b) = Inr (a < b)"
  by (auto simp: revision_smaller_def revision_greater_or_equal_def show_nat_fields py_int_show)

lemma extremum_max: "rfold (extremum_step True) (map show_nat ns) (Some (show_nat a)) = Inr (Some (show_nat (Max (insert a (set ns)))))"
proof (induction ns arbitrary: a)
  case (Cons n ns)
  have step: "extremum_step True (show_nat n) (Some (show_nat a)) = Inr (Some (show_nat (max n a)))"
    by (simp add: extremum_step_def greater_show max_def)
  have "Max (insert (max n a) (set ns)) = Max (insert a (insert n (set ns)))"
    by (cases "ns = []") (simp_all add: max.assoc max.left_commute max.commute)
  then show ?case using Cons [of "max n a"] step by (simp del: Max_insert)
qed simp

lemma extremum_min: "rfold (extremum_step False) (map show_nat ns) (Some (show_nat a)) = Inr (Some (show_nat (Min (insert a (set ns)))))"
proof (induction ns arbitrary: a)
  case (Cons n ns)
  have step: "extremum_step False (show_nat n) (Some (show_nat a)) = Inr (Some (show_nat (min n a)))"
    by (auto simp: extremum_step_def smaller_show min_def)
  have "Min (insert (min n a) (set ns)) = Min (insert a (insert n (set ns)))"
    by (cases "ns = []") (simp_all add: min.assoc min.left_commute min.commute)
  then show ?case using Cons [of "min n a"] step by (simp del: Min_insert)
qed simp

lemma extremum_numbers:
  "extremum_value is_max (map show_nat ns) =
     Inr (if ns = [] then None else Some (show_nat (if is_max then Max (set ns) else Min (set ns))))"
proof (cases ns)
  case (Cons n ns')
  then show ?thesis using extremum_max [of ns' n] extremum_min [of ns' n] by (simp add: extremum_value_def extremum_step_def)
qed (simp add: extremum_value_def)

section \<open>Tables of numbers\<close>

definition numbers :: "pr_table \<Rightarrow> bool" where
  "numbers rows \<longleftrightarrow> (\<forall>r \<in> set rows. \<exists>n. row_value r = show_nat n)"

definition any_order :: "pr_db \<Rightarrow> bool" where
  "any_order db \<longleftrightarrow> (\<forall>xs. mset (db_order db xs) = mset xs)"

definition selected :: "(pr_row \<Rightarrow> bool) \<Rightarrow> pr_table \<Rightarrow> nat set" where
  "selected P rows = {n. \<exists>r \<in> set rows. P r \<and> row_value r = show_nat n}"

lemma order_set: "any_order db \<Longrightarrow> set (db_order db xs) = set xs"
  using mset_eq_setD [of "db_order db xs" xs] by (simp add: any_order_def)

lemma select_numbers:
  assumes "any_order db" and "numbers rows"
  obtains ns where "select_values db P rows = map show_nat ns" and "set ns = selected P rows"
proof -
  have "\<forall>v \<in> set (select_values db P rows). \<exists>n. v = show_nat n"
    using assms(2) order_set [OF assms(1)] by (auto simp: select_values_def numbers_def)
  then obtain ns where ns: "select_values db P rows = map show_nat ns"
    unfolding ex_map_conv [symmetric] by blast
  have "n \<in> set ns \<longleftrightarrow> n \<in> selected P rows" for n
  proof -
    have "n \<in> set ns \<longleftrightarrow> show_nat n \<in> set (select_values db P rows)" by (auto simp: ns)
    also have "\<dots> \<longleftrightarrow> n \<in> selected P rows"
      using order_set [OF assms(1)] by (auto simp: select_values_def selected_def image_iff)
    finally show ?thesis .
  qed
  then show thesis using ns that by blast
qed

lemma extremum_selected:
  assumes "any_order db" and "numbers rows"
  shows "extremum_value is_max (select_values db P rows) =
    Inr (if selected P rows = {} then None else Some (show_nat (if is_max then Max (selected P rows) else Min (selected P rows))))"
proof -
  obtain ns where ns: "select_values db P rows = map show_nat ns" "set ns = selected P rows"
    by (rule select_numbers [OF assms])
  show ?thesis by (simp add: ns(1) extremum_numbers flip: ns(2))
qed

lemma finite_selected: "finite (selected P rows)"
proof -
  have "selected P rows \<subseteq> (\<lambda>v. nat (digits_val v)) ` row_value ` set rows"
    by (force simp: selected_def show_nat_digits)
  then show ?thesis by (rule finite_subset) simp
qed

section \<open>One answer\<close>

abbreviation of_output :: "string \<Rightarrow> string \<Rightarrow> string \<Rightarrow> pr_row \<Rightarrow> bool" where
  "of_output version pkgarch checksum r \<equiv> of_package version pkgarch r \<and> row_checksum r = checksum"

abbreviation package_numbers :: "string \<Rightarrow> string \<Rightarrow> pr_table \<Rightarrow> nat set" where
  "package_numbers version pkgarch rows \<equiv> selected (of_package version pkgarch) rows"

abbreviation output_numbers :: "string \<Rightarrow> string \<Rightarrow> string \<Rightarrow> pr_table \<Rightarrow> nat set" where
  "output_numbers version pkgarch checksum rows \<equiv> selected (of_output version pkgarch checksum) rows"

definition answer :: "nat set \<Rightarrow> nat set \<Rightarrow> bool \<Rightarrow> nat" where
  "answer package own history =
     (if package = {} then 0 else if own = {} then Suc (Max package) else if history then Min own
      else if show_nat (Max package) > show_nat (Max own) then Suc (Max package) else Max own)"

lemma output_package: "output_numbers version pkgarch checksum rows \<subseteq> package_numbers version pkgarch rows"
  by (auto simp: selected_def)

lemma show_zero: "show_nat 0 = ''0''"
  by code_simp

lemma choose_answer:
  assumes "any_order db" and "numbers rows"
  shows "choose_value db version pkgarch checksum history rows =
    Inr (show_nat (answer (package_numbers version pkgarch rows) (output_numbers version pkgarch checksum rows) history))"
proof (cases "package_numbers version pkgarch rows = {}")
  case True
  then show ?thesis
    by (simp add: choose_value_def find_package_max_value_def extremum_selected [OF assms] answer_def show_zero)
next
  case False
  then show ?thesis
    by (auto simp: choose_value_def find_package_max_value_def find_value_def extremum_selected [OF assms] answer_def increase_show)
qed

lemma answer_new: "own = {} \<Longrightarrow> finite package \<Longrightarrow> n \<in> package \<Longrightarrow> n < answer package own history"
  by (auto simp: answer_def less_Suc_eq_le)

lemma answer_own_or_new:
  "finite package \<Longrightarrow> own \<subseteq> package \<Longrightarrow> answer package own history \<in> own \<or> answer package own history \<notin> package"
  by (auto simp: answer_def finite_subset Max_in Min_in dest: Max_ge)

definition own_values :: "pr_table \<Rightarrow> bool" where
  "own_values rows \<longleftrightarrow> (\<forall>r \<in> set rows. \<forall>r' \<in> set rows. row_version r = row_version r' \<and> row_pkgarch r = row_pkgarch r' \<and>
     row_value r = row_value r' \<longrightarrow> row_checksum r = row_checksum r')"

lemma own_valuesD:
  "own_values rows \<Longrightarrow> r \<in> set rows \<Longrightarrow> r' \<in> set rows \<Longrightarrow> row_version r = row_version r' \<Longrightarrow> row_pkgarch r = row_pkgarch r' \<Longrightarrow>
     row_value r = row_value r' \<Longrightarrow> row_checksum r = row_checksum r'"
  unfolding own_values_def by blast

definition writable :: "pr_db \<Rightarrow> bool" where
  "writable db \<longleftrightarrow> any_order db \<and> \<not> db_read_only db"

lemma get_answer:
  assumes "writable db" and "numbers rows" and "own_values rows"
  obtains n rows' where "get_value db version pkgarch checksum history rows = Inr (show_nat n, rows')"
    and "set rows' = insert (new_row version pkgarch checksum (show_nat n)) (set rows)"
    and "numbers rows'" and "own_values rows'"
    and "n = answer (package_numbers version pkgarch rows) (output_numbers version pkgarch checksum rows) history"
proof -
  let ?package = "package_numbers version pkgarch rows" and ?own = "output_numbers version pkgarch checksum rows"
  define n where "n = answer ?package ?own history"
  define rows' where "rows' = store_value db version pkgarch checksum (show_nat n) rows"
  have set: "set rows' = insert (new_row version pkgarch checksum (show_nat n)) (set rows)"
    using assms(1) by (auto simp: rows'_def store_value_def test_checksum_value_def writable_def)
  have get: "get_value db version pkgarch checksum history rows = Inr (show_nat n, rows')"
    using assms(1,2) by (simp add: get_value_def choose_answer writable_def n_def rows'_def)
  have "numbers rows'" using assms(2) by (auto simp: numbers_def set new_row_def)
  moreover have "own_values rows'"
  proof -
    have "row_checksum r = checksum"
      if r: "r \<in> set rows" "row_version r = version" "row_pkgarch r = pkgarch" "row_value r = show_nat n" for r
    proof -
      have "n \<in> ?package" using r by (auto simp: selected_def of_package_def)
      then have "n \<in> ?own"
        using answer_own_or_new [OF finite_selected output_package, of version pkgarch rows checksum history] by (simp add: n_def)
      then obtain r' where "r' \<in> set rows" "of_output version pkgarch checksum r'" "row_value r' = show_nat n"
        by (auto simp: selected_def)
      then show ?thesis using own_valuesD [OF assms(3) r(1), of r'] r(2-4) by (simp add: of_package_def)
    qed
    note stored = this
    show ?thesis unfolding own_values_def set
    proof (intro ballI impI)
      fix r r'
      assume "r \<in> insert (new_row version pkgarch checksum (show_nat n)) (set rows)"
        and "r' \<in> insert (new_row version pkgarch checksum (show_nat n)) (set rows)"
        and same: "row_version r = row_version r' \<and> row_pkgarch r = row_pkgarch r' \<and> row_value r = row_value r'"
      then consider "r = r'" | "r = new_row version pkgarch checksum (show_nat n)" "r' \<in> set rows"
        | "r' = new_row version pkgarch checksum (show_nat n)" "r \<in> set rows" | "r \<in> set rows" "r' \<in> set rows" by blast
      then show "row_checksum r = row_checksum r'"
      proof cases
        case 2 then show ?thesis using stored [of r'] same by (simp add: new_row_def)
      next
        case 3 then show ?thesis using stored [of r] same by (simp add: new_row_def)
      next
        case 4 then show ?thesis using own_valuesD [OF assms(3)] same by blast
      qed simp
    qed
  qed
  ultimately show thesis using that [OF get set] by (simp add: n_def)
qed

section \<open>Many answers\<close>

definition same_package :: "pr_request \<Rightarrow> pr_request \<Rightarrow> bool" where
  "same_package rq rq' \<longleftrightarrow> rq_version rq = rq_version rq' \<and> rq_pkgarch rq = rq_pkgarch rq'"

definition row_of :: "pr_request \<Rightarrow> string \<Rightarrow> pr_row" where
  "row_of rq v = new_row (rq_version rq) (rq_pkgarch rq) (rq_checksum rq) v"

definition is_new :: "pr_request \<Rightarrow> pr_table \<Rightarrow> bool" where
  "is_new rq rows \<longleftrightarrow> output_numbers (rq_version rq) (rq_pkgarch rq) (rq_checksum rq) rows = {}"

lemma is_new_insert:
  assumes "set rows' = insert (row_of rq (show_nat n)) (set rows)"
  shows "is_new rq' rows' \<longleftrightarrow> is_new rq' rows \<and> \<not> (same_package rq rq' \<and> rq_checksum rq = rq_checksum rq')"
  by (auto simp: is_new_def selected_def assms row_of_def new_row_def of_package_def same_package_def)

definition new_are_greater :: "pr_table \<Rightarrow> pr_request list \<Rightarrow> nat list \<Rightarrow> bool" where
  "new_are_greater rows rqs ns \<longleftrightarrow> (\<forall>j < length rqs. is_new (rqs ! j) rows \<and>
        (\<forall>i < j. same_package (rqs ! i) (rqs ! j) \<longrightarrow> rq_checksum (rqs ! i) \<noteq> rq_checksum (rqs ! j)) \<longrightarrow>
       (\<forall>n \<in> package_numbers (rq_version (rqs ! j)) (rq_pkgarch (rqs ! j)) rows. n < ns ! j) \<and>
       (\<forall>i < j. same_package (rqs ! i) (rqs ! j) \<longrightarrow> ns ! i < ns ! j))"

definition answered :: "pr_request list \<Rightarrow> nat list \<Rightarrow> pr_row set" where
  "answered rqs ns = set (map2 (\<lambda>rq n. row_of rq (show_nat n)) rqs ns)"

lemma new_are_greater_Cons:
  assumes rows1: "set rows1 = insert (row_of rq (show_nat n)) (set rows)"
    and n: "n = answer (package_numbers (rq_version rq) (rq_pkgarch rq) rows)
       (output_numbers (rq_version rq) (rq_pkgarch rq) (rq_checksum rq) rows) (rq_history rq)"
    and greater: "new_are_greater rows1 rqs ns"
  shows "new_are_greater rows (rq # rqs) (n # ns)"
  unfolding new_are_greater_def
proof (intro allI impI, elim conjE)
  fix j assume j: "j < length (rq # rqs)" "is_new ((rq # rqs) ! j) rows"
      "\<forall>i < j. same_package ((rq # rqs) ! i) ((rq # rqs) ! j) \<longrightarrow> rq_checksum ((rq # rqs) ! i) \<noteq> rq_checksum ((rq # rqs) ! j)"
  show "(\<forall>m \<in> package_numbers (rq_version ((rq # rqs) ! j)) (rq_pkgarch ((rq # rqs) ! j)) rows. m < (n # ns) ! j) \<and>
       (\<forall>i < j. same_package ((rq # rqs) ! i) ((rq # rqs) ! j) \<longrightarrow> (n # ns) ! i < (n # ns) ! j)"
  proof (cases j)
    case 0
    with j(2) have none: "output_numbers (rq_version rq) (rq_pkgarch rq) (rq_checksum rq) rows = {}" by (simp add: is_new_def)
    have "x < n" if "x \<in> package_numbers (rq_version rq) (rq_pkgarch rq) rows" for x
      unfolding n by (rule answer_new [OF none finite_selected that])
    then show ?thesis using 0 by simp
  next
    case (Suc k)
    have k: "k < length rqs" using j(1) Suc by simp
    have apart: "same_package rq (rqs ! k) \<Longrightarrow> rq_checksum rq \<noteq> rq_checksum (rqs ! k)" using j(3) Suc by fastforce
    have "is_new (rqs ! k) rows1" using j(2) apart by (auto simp: is_new_insert [OF rows1] Suc)
    moreover have "\<forall>i < k. same_package (rqs ! i) (rqs ! k) \<longrightarrow> rq_checksum (rqs ! i) \<noteq> rq_checksum (rqs ! k)"
    proof (intro allI impI)
      fix i assume "i < k" and "same_package (rqs ! i) (rqs ! k)"
      then show "rq_checksum (rqs ! i) \<noteq> rq_checksum (rqs ! k)" using j(3) [rule_format, of "Suc i"] Suc by simp
    qed
    ultimately have below: "\<And>n. n \<in> package_numbers (rq_version (rqs ! k)) (rq_pkgarch (rqs ! k)) rows1 \<Longrightarrow> n < ns ! k"
      and later: "\<And>i. i < k \<Longrightarrow> same_package (rqs ! i) (rqs ! k) \<Longrightarrow> ns ! i < ns ! k"
      using greater k unfolding new_are_greater_def by blast+
    have grown: "x \<in> selected P rows \<Longrightarrow> x \<in> selected P rows1" for x P by (auto simp: selected_def rows1)
    have "n < ns ! k" if "same_package rq (rqs ! k)"
      using that by (intro below) (auto simp: selected_def rows1 row_of_def new_row_def of_package_def same_package_def)
    then have "(n # ns) ! i < ns ! k" if "i < Suc k" and "same_package ((rq # rqs) ! i) (rqs ! k)" for i
      using that later by (cases i) auto
    with below grown show ?thesis by (auto simp: Suc)
  qed
qed

lemma serve_answers:
  assumes "writable db" and "numbers rows" and "own_values rows"
  shows "\<exists>ns rows'. serve db None rqs rows = Inr (map show_nat ns, rows') \<and> length ns = length rqs \<and>
    set rows' = set rows \<union> answered rqs ns \<and> own_values rows' \<and> new_are_greater rows rqs ns"
  using assms(2,3)
proof (induction rqs arbitrary: rows)
  case Nil
  then show ?case by (simp add: answered_def new_are_greater_def)
next
  case (Cons rq rqs)
  obtain n rows1 where first: "handle_get_pr db None rq rows = Inr (show_nat n, rows1)"
    "set rows1 = insert (row_of rq (show_nat n)) (set rows)" "numbers rows1" "own_values rows1"
    "n = answer (package_numbers (rq_version rq) (rq_pkgarch rq) rows)
       (output_numbers (rq_version rq) (rq_pkgarch rq) (rq_checksum rq) rows) (rq_history rq)"
    using get_answer [OF assms(1) Cons.prems, of "rq_version rq" "rq_pkgarch rq" "rq_checksum rq" "rq_history rq"]
    by (auto simp: handle_get_pr_def row_of_def)
  from Cons.IH [OF first(3,4)] obtain ns rows' where
    rest: "serve db None rqs rows1 = Inr (map show_nat ns, rows')" "length ns = length rqs"
      "set rows' = set rows1 \<union> answered rqs ns" "own_values rows'" "new_are_greater rows1 rqs ns"
    by blast
  have "serve db None (rq # rqs) rows = Inr (map show_nat (n # ns), rows')" using first(1) rest(1) by simp
  moreover have "set rows' = set rows \<union> answered (rq # rqs) (n # ns)"
    by (auto simp: rest(3) first(2) answered_def)
  ultimately show ?case using rest(2,4) new_are_greater_Cons [OF first(2,5) rest(5)]
    by (intro exI [of _ "n # ns"] exI [of _ rows'] conjI) (simp_all only: length_Cons)
qed

lemma row_of_fields [simp]: "row_version (row_of rq v) = rq_version rq" "row_pkgarch (row_of rq v) = rq_pkgarch rq"
    "row_checksum (row_of rq v) = rq_checksum rq" "row_value (row_of rq v) = v"
  by (simp_all add: row_of_def new_row_def)

text \<open>C26: however the database orders its rows, a server of its own answers any sequence of requests with numbers; every answer is
  kept under the output it was given to; two outputs of one package never have the same revision; and an output that is asked
  for the first time gets a greater one than all that were given for its package before.\<close>

theorem pr_values_unique:
  assumes "any_order db" and "\<not> db_read_only db"
  shows "\<exists>ns rows. serve db None rqs [] = Inr (map show_nat ns, rows) \<and> length ns = length rqs \<and>
    (\<forall>i < length rqs. row_of (rqs ! i) (show_nat (ns ! i)) \<in> set rows) \<and>
    (\<forall>i < length rqs. \<forall>j < length rqs. same_package (rqs ! i) (rqs ! j) \<and> ns ! i = ns ! j \<longrightarrow>
       rq_checksum (rqs ! i) = rq_checksum (rqs ! j)) \<and>
    (\<forall>j < length rqs. (\<forall>i < j. same_package (rqs ! i) (rqs ! j) \<longrightarrow> rq_checksum (rqs ! i) \<noteq> rq_checksum (rqs ! j)) \<longrightarrow>
       (\<forall>i < j. same_package (rqs ! i) (rqs ! j) \<longrightarrow> ns ! i < ns ! j))"
proof -
  have "writable db" "numbers []" "own_values []"
    using assms by (simp_all add: writable_def numbers_def own_values_def)
  from serve_answers [OF this, of rqs] obtain ns rows where
    served: "serve db None rqs [] = Inr (map show_nat ns, rows)" "length ns = length rqs"
      "set rows = answered rqs ns" "own_values rows" "new_are_greater [] rqs ns" by auto
  have kept: "row_of (rqs ! i) (show_nat (ns ! i)) \<in> set rows" if "i < length rqs" for i
    using that served(2) unfolding served(3) answered_def by (auto simp: set_zip)
  have "rq_checksum (rqs ! i) = rq_checksum (rqs ! j)"
    if "i < length rqs" "j < length rqs" "same_package (rqs ! i) (rqs ! j)" "ns ! i = ns ! j" for i j
    using own_valuesD [OF served(4) kept [OF that(1)] kept [OF that(2)]] that(3,4) by (simp add: same_package_def)
  moreover have "\<forall>i < j. same_package (rqs ! i) (rqs ! j) \<longrightarrow> ns ! i < ns ! j"
    if "j < length rqs" "\<forall>i < j. same_package (rqs ! i) (rqs ! j) \<longrightarrow> rq_checksum (rqs ! i) \<noteq> rq_checksum (rqs ! j)" for j
  proof -
    have "is_new (rqs ! j) []" by (simp add: is_new_def selected_def)
    then show ?thesis using served(5) that unfolding new_are_greater_def by blast
  qed
  ultimately show ?thesis using served(1,2) kept by blast
qed

definition sample_db :: pr_db where
  "sample_db = \<lparr>db_order = rev, db_read_only = False\<rparr>"

definition ask :: "string \<Rightarrow> bool \<Rightarrow> pr_request" where
  "ask checksum history = \<lparr>rq_version = ''acl-2.3-r0'', rq_pkgarch = ''core2-64'', rq_checksum = checksum, rq_history = history\<rparr>"

lemma sample_order: "any_order sample_db" "\<not> db_read_only sample_db"
  by (simp_all add: any_order_def sample_db_def)

theorem pr_values_unique_witness:
  "\<exists>ns rows. serve sample_db None [ask ''a'' False, ask ''b'' False, ask ''a'' False] [] = Inr (map show_nat ns, rows) \<and>
     ns ! 0 < ns ! 1 \<and> ns ! 1 \<noteq> ns ! 2"
proof -
  let ?rqs = "[ask ''a'' False, ask ''b'' False, ask ''a'' False]"
  obtain ns rows where served: "serve sample_db None ?rqs [] = Inr (map show_nat ns, rows)"
    and unique: "\<forall>i < length ?rqs. \<forall>j < length ?rqs. same_package (?rqs ! i) (?rqs ! j) \<and> ns ! i = ns ! j \<longrightarrow>
       rq_checksum (?rqs ! i) = rq_checksum (?rqs ! j)"
    and greater: "\<forall>j < length ?rqs. (\<forall>i < j. same_package (?rqs ! i) (?rqs ! j) \<longrightarrow> rq_checksum (?rqs ! i) \<noteq> rq_checksum (?rqs ! j)) \<longrightarrow>
       (\<forall>i < j. same_package (?rqs ! i) (?rqs ! j) \<longrightarrow> ns ! i < ns ! j)"
    using pr_values_unique [OF sample_order, of ?rqs] by blast
  have "ns ! 0 < ns ! 1" using greater [rule_format, of 1 0] by (auto simp: ask_def same_package_def)
  moreover have "ns ! 1 \<noteq> ns ! 2" using unique [rule_format, of 1 2] by (auto simp: ask_def same_package_def)
  ultimately show ?thesis using served by blast
qed

section \<open>Where the promise ends\<close>

lemma own_row:
  assumes "n \<in> output_numbers version pkgarch checksum rows"
  shows "store_value db version pkgarch checksum (show_nat n) rows = rows"
proof -
  obtain r where "r \<in> set rows" "of_output version pkgarch checksum r" "row_value r = show_nat n"
    using assms by (auto simp: selected_def)
  then have "new_row version pkgarch checksum (show_nat n) \<in> set rows"
    by (metis (mono_tags, lifting) new_row_def of_package_def old.unit.exhaust pr_row.surjective)
  then show ?thesis by (simp add: store_value_def test_checksum_value_def)
qed

text \<open>C27: the greatest revision of the package is compared with the output's own as texts. So without history an output keeps its
  revision although its package has a greater one, whenever the texts are the other way round, as with 9 and 10: the revision the
  package is built with goes down.\<close>

theorem pr_value_can_decrease:
  assumes "any_order db" and "numbers rows" and "output_numbers version pkgarch checksum rows \<noteq> {}"
    and "Max (output_numbers version pkgarch checksum rows) = n" and "Max (package_numbers version pkgarch rows) = m"
    and "n < m" and "show_nat m < show_nat n"
  shows "get_value db version pkgarch checksum False rows = Inr (show_nat n, rows)"
proof -
  have own: "n \<in> output_numbers version pkgarch checksum rows"
    using assms(3,4) Max_in [OF finite_selected] by blast
  then have "package_numbers version pkgarch rows \<noteq> {}" using output_package by blast
  then have "choose_value db version pkgarch checksum False rows = Inr (show_nat n)"
    using assms(3-7) by (simp add: choose_answer [OF assms(1,2)] answer_def)
  then show ?thesis by (simp add: get_value_def own_row [OF own])
qed

definition ten_outputs :: pr_table where
  "ten_outputs = [new_row ''acl'' ''x86'' ''old'' (show_nat 9), new_row ''acl'' ''x86'' ''new'' (show_nat 10)]"

theorem pr_value_can_decrease_witness:
  "get_value sample_db ''acl'' ''x86'' ''old'' False ten_outputs = Inr (''9'', ten_outputs)"
proof -
  have own: "output_numbers ''acl'' ''x86'' ''old'' ten_outputs = {9}"
    by (auto simp: selected_def ten_outputs_def new_row_def of_package_def)
  have package: "package_numbers ''acl'' ''x86'' ten_outputs = {9, 10}"
    by (auto simp: selected_def ten_outputs_def new_row_def of_package_def)
  have texts: "show_nat 9 = ''9''" "show_nat 10 = ''10''" by code_simp+
  have "numbers ten_outputs" by (auto simp: numbers_def ten_outputs_def new_row_def)
  then have "get_value sample_db ''acl'' ''x86'' ''old'' False ten_outputs = Inr (show_nat 9, ten_outputs)"
    by (rule pr_value_can_decrease [OF sample_order(1), where m = 10]) (simp_all add: own package texts less_char_def)
  then show ?thesis by (simp add: texts)
qed

text \<open>C28: with an upstream server that does not know the package, an output of the package can be asked for once: the answer is
  kept, and when it is asked for again without history the server compares it with the revision upstream, which is none, and
  fails with an \<open>AttributeError\<close>.\<close>

theorem pr_local_package_fails:
  assumes "any_order db" and "\<not> db_read_only db" and "\<not> rq_history rq"
    and "up_max_package_pr up (rq_version rq) (rq_pkgarch rq) = None" and "\<not> up_test_package up (rq_version rq) (rq_pkgarch rq)"
    and "numbers rows" and "output_numbers (rq_version rq) (rq_pkgarch rq) (rq_checksum rq) rows = {}"
  shows "\<exists>n rows'. handle_get_pr db (Some up) rq rows = Inr (show_nat n, rows') \<and> set rows' = insert (row_of rq (show_nat n)) (set rows) \<and>
    handle_get_pr db (Some up) rq rows' = Inl AttributeError"
proof -
  define n where "n = answer (package_numbers (rq_version rq) (rq_pkgarch rq) rows) {} False"
  define rows' where "rows' = store_value db (rq_version rq) (rq_pkgarch rq) (rq_checksum rq) (show_nat n) rows"
  have rows': "set rows' = insert (row_of rq (show_nat n)) (set rows)"
    using assms(2) by (auto simp: rows'_def store_value_def test_checksum_value_def row_of_def)
  have unknown: "find_value db (rq_version rq) (rq_pkgarch rq) (rq_checksum rq) False rows = Inr None"
    by (simp add: find_value_def extremum_selected [OF assms(1,6)] assms(7))
  have first: "handle_get_pr db (Some up) rq rows = Inr (show_nat n, rows')"
    using assms(2,3,5) by (simp add: handle_get_pr_def unknown new_locally_def get_value_def choose_answer [OF assms(1,6)]
        assms(7) n_def rows'_def)
  have good: "numbers rows'" using assms(6) by (auto simp: numbers_def rows')
  have own: "output_numbers (rq_version rq) (rq_pkgarch rq) (rq_checksum rq) rows' \<noteq> {}"
    by (auto simp: selected_def rows' of_package_def)
  then have package: "package_numbers (rq_version rq) (rq_pkgarch rq) rows' \<noteq> {}" using output_package by blast
  have "handle_get_pr db (Some up) rq rows' = Inl AttributeError"
    using assms(3,4) own package
    by (simp add: handle_get_pr_def known_locally_def raise_local_def raise_upstream_def smaller_than_def find_value_def
        find_package_max_value_def extremum_selected [OF assms(1) good] smaller_show increase_show)
  with first rows' show ?thesis by blast
qed

definition empty_upstream :: pr_upstream where
  "empty_upstream = \<lparr>up_max_package_pr = (\<lambda>version pkgarch. None), up_test_pr = (\<lambda>version pkgarch checksum. None),
     up_test_package = (\<lambda>version pkgarch. False)\<rparr>"

theorem pr_local_package_fails_witness:
  "\<exists>n rows. handle_get_pr sample_db (Some empty_upstream) (ask ''a'' False) [] = Inr (show_nat n, rows) \<and>
     handle_get_pr sample_db (Some empty_upstream) (ask ''a'' False) rows = Inl AttributeError"
proof -
  have "numbers []" by (simp add: numbers_def)
  then show ?thesis
    using pr_local_package_fails [OF sample_order, of "ask ''a'' False" empty_upstream "[]"]
    by (auto simp: ask_def empty_upstream_def selected_def)
qed

end
