(* ===== verification/Firewall.thy ===== *)
theory Firewall
  imports Regex
begin

unbundle bit_operations_syntax

text \<open>
  The firewall daemon \<open>fwl_dmn.py\<close> of \<open>meta-axiado\<close>: requests over HTTP that add a rule to iptables and mark what
  it matches for the hardware, and that delete the rule again.

  A request holds a JSON value, without fractions and with texts of ASCII characters. What the commands that the daemon
  runs, and the device that it writes, do is a parameter; the state logs what was asked of them. Requests are handled one
  after the other.
\<close>

section \<open>Values\<close>

datatype json = JNull | JBool bool | JInt int | JStr string | JList "json list" | JObj "(string \<times> json) list"

definition json_true :: "json \<Rightarrow> bool" where
  "json_true v = (case v of JNull \<Rightarrow> False | JBool b \<Rightarrow> b | JInt n \<Rightarrow> n \<noteq> 0 | JStr s \<Rightarrow> s \<noteq> [] | JList l \<Rightarrow> l \<noteq> [] | JObj d \<Rightarrow> d \<noteq> [])"

text \<open>\<open>int(v)\<close> and \<open>data.get(key, 0)\<close>.\<close>

definition json_int :: "json \<Rightarrow> int res" where
  "json_int v = (case v of JStr s \<Rightarrow> py_int s | JInt n \<Rightarrow> Inr n | JBool b \<Rightarrow> Inr (if b then 1 else 0) | _ \<Rightarrow> Inl TypeError)"

definition json_get :: "json \<Rightarrow> string \<Rightarrow> json res" where
  "json_get data key = (case data of JObj d \<Rightarrow> Inr (dget d key (JInt 0)) | _ \<Rightarrow> Inl AttributeError)"

definition lower_text :: "string \<Rightarrow> string" where
  "lower_text = map (\<lambda>c. if CHR ''A'' \<le> c \<and> c \<le> CHR ''Z'' then char_of ((of_char c :: nat) + 32) else c)"

definition upper_text :: "string \<Rightarrow> string" where
  "upper_text = map (\<lambda>c. if CHR ''a'' \<le> c \<and> c \<le> CHR ''z'' then char_of ((of_char c :: nat) - 32) else c)"

fun hex_digits :: "nat \<Rightarrow> string" where
  "hex_digits n = (if n < 16 then [''0123456789abcdef'' ! n] else hex_digits (n div 16) @ [''0123456789abcdef'' ! (n mod 16)])"

declare hex_digits.simps [simp del]

definition hex_text :: "int \<Rightarrow> string" where
  "hex_text i = (if i < 0 then ''-0x'' @ hex_digits (nat (- i)) else ''0x'' @ hex_digits (nat i))"

section \<open>Validity\<close>

text \<open>One to three digits, and \<open>$\<close>, which also matches before a newline at the end.\<close>

definition up_to_three :: "string rx" where
  "up_to_three s = filter (\<lambda>(a, t). length a \<le> 3) (rx_plus is_digit s)"

definition dollar :: "unit rx" where
  "dollar s = (if s = [] \<or> s = ''\<newline>'' then [((), s)] else [])"

definition ipv4_rx :: "unit rx" where
  "ipv4_rx =
     (let octet = rx_then up_to_three (rx_lit ''.'')
      in rx_then octet (rx_then octet (rx_then octet (rx_then up_to_three dollar))))"

fun all_octets :: "string list \<Rightarrow> bool res" where
  "all_octets [] = Inr True"
| "all_octets (octet # octets) = rbind (py_int octet) (\<lambda>n. if 0 \<le> n \<and> n \<le> 255 then all_octets octets else Inr False)"

definition is_valid_ipv4 :: "json \<Rightarrow> bool res" where
  "is_valid_ipv4 ip =
     (case ip of
        JStr s \<Rightarrow> if rx_match ipv4_rx s \<noteq> None then all_octets (split_on CHR ''.'' s) else Inr False
      | _ \<Rightarrow> Inl TypeError)"

definition is_valid_protocol :: "json \<Rightarrow> bool res" where
  "is_valid_protocol protocol =
     (case protocol of
        JStr s \<Rightarrow> Inr (lower_text s \<in> set [''udp'', ''tcp'', ''icmp'', ''http'', ''https'', ''ftp''])
      | _ \<Rightarrow> Inl AttributeError)"

definition is_value_error :: "exn \<Rightarrow> bool" where
  "is_value_error e = (case e of ValueError _ \<Rightarrow> True | _ \<Rightarrow> False)"

definition is_valid_port :: "json \<Rightarrow> bool res" where
  "is_valid_port port =
     (case json_int port of
        Inl e \<Rightarrow> if is_value_error e then Inr False else Inl e
      | Inr n \<Rightarrow> Inr (0 \<le> n \<and> n \<le> 65535))"

definition is_valid_action :: "json \<Rightarrow> bool res" where
  "is_valid_action action =
     (case action of JStr s \<Rightarrow> Inr (upper_text s \<in> set [''ACCEPT'', ''DROP'']) | _ \<Rightarrow> Inl AttributeError)"

record rule_fields =
  fd_dst_ip :: json
  fd_src_ip :: json
  fd_proto :: json
  fd_dst_port :: json
  fd_src_port :: json
  fd_action :: json

definition given_and :: "(json \<Rightarrow> bool res) \<Rightarrow> json \<Rightarrow> bool res" where
  "given_and valid v = (if json_true v then valid v else Inr False)"

definition check_data_validity :: "rule_fields \<Rightarrow> int res" where
  "check_data_validity f =
     rbind (given_and is_valid_ipv4 (fd_dst_ip f)) (\<lambda>a.
     rbind (given_and is_valid_ipv4 (fd_src_ip f)) (\<lambda>b.
     rbind (given_and is_valid_protocol (fd_proto f)) (\<lambda>c.
     rbind (given_and is_valid_port (fd_dst_port f)) (\<lambda>d.
     rbind (given_and is_valid_port (fd_src_port f)) (\<lambda>e.
     rbind (given_and is_valid_action (fd_action f)) (\<lambda>g.
       Inr ((if a \<or> b \<or> c \<or> d \<or> e then 1 else 0) + (if g then 1 else 0))))))))"

section \<open>The state and the world\<close>

type_synonym command = "json list"

datatype fw_event = Command command | Device int

datatype run_result = Ran | Failed | NotRun exn

record fw_env =
  fw_runs :: "fw_event list \<Rightarrow> command \<Rightarrow> run_result"
  fw_device :: "fw_event list \<Rightarrow> int \<Rightarrow> exn option"

record fw_state =
  iptable_rule_dict :: "(int, command \<times> command) dict"
  iptbl_idx :: int
  fw_log :: "fw_event list"

definition fw_start :: fw_state where
  "fw_start = \<lparr>iptable_rule_dict = [], iptbl_idx = 1, fw_log = []\<rparr>"

datatype fw_answer = InvalidJson | ExtractError | RuleAdded | AddError | MissingFields | NoSuchRule | RuleDeleted | DeleteError

abbreviation called_process_error :: exn where
  "called_process_error \<equiv> PlainException ''CalledProcessError''"

abbreviation unbound_local_error :: exn where
  "unbound_local_error \<equiv> PlainException ''UnboundLocalError''"

text \<open>\<open>subprocess.run(cmd, check=True)\<close>: the words must be texts without a null character.\<close>

fun check_words :: "command \<Rightarrow> unit res" where
  "check_words [] = Inr ()"
| "check_words (w # ws) =
     (case w of
        JStr s \<Rightarrow> if char_of (0 :: nat) \<in> set s then Inl (ValueError ''embedded null byte'') else check_words ws
      | _ \<Rightarrow> Inl TypeError)"

definition run_command :: "fw_env \<Rightarrow> command \<Rightarrow> (fw_state, unit) meth" where
  "run_command env cmd =
     mthen (mlift (check_words cmd)) (mread (\<lambda>s.
       mthen (mupd (fw_log_update (\<lambda>log. log @ [Command cmd])))
         (case fw_runs env (fw_log s) cmd of Ran \<Rightarrow> mreturn () | Failed \<Rightarrow> mraise called_process_error | NotRun e \<Rightarrow> mraise e)))"

definition del_fwl_rule :: "fw_env \<Rightarrow> int \<Rightarrow> (fw_state, unit) meth" where
  "del_fwl_rule env fwl_id =
     mread (\<lambda>s. mthen (mupd (fw_log_update (\<lambda>log. log @ [Device fwl_id])))
       (case fw_device env (fw_log s) fwl_id of None \<Rightarrow> mreturn () | Some e \<Rightarrow> mraise e))"

definition caught_process_error :: "(fw_state, fw_answer) meth \<Rightarrow> fw_answer \<Rightarrow> (fw_state, fw_answer) meth" where
  "caught_process_error m answer = mcatch m (\<lambda>e. if e = called_process_error then mreturn answer else mraise e)"

section \<open>Adding a rule\<close>

definition rule_fields_of :: "json \<Rightarrow> rule_fields res" where
  "rule_fields_of data =
     rbind (json_get data ''dst_ip'') (\<lambda>a. rbind (json_get data ''src_ip'') (\<lambda>b. rbind (json_get data ''proto'') (\<lambda>c.
     rbind (json_get data ''dst_port'') (\<lambda>d. rbind (json_get data ''src_port'') (\<lambda>e. rbind (json_get data ''action'') (\<lambda>g.
       Inr \<lparr>fd_dst_ip = a, fd_src_ip = b, fd_proto = c, fd_dst_port = d, fd_src_port = e, fd_action = g\<rparr>))))))"

definition rule_head :: "string \<Rightarrow> command" where
  "rule_head chain =
     map JStr [''ip'', ''netns'', ''exec'', ''defeip'', ''iptables'', ''-t'', ''mangle'', ''-I'', chain, ''1'']"

definition rule_options :: "rule_fields \<Rightarrow> command" where
  "rule_options f =
     (let opt = (\<lambda>name v. if json_true v then [JStr name, v] else [])
      in opt ''-d'' (fd_dst_ip f) @ opt ''-s'' (fd_src_ip f) @ opt ''-p'' (fd_proto f) @
         opt ''--dport'' (fd_dst_port f) @ opt ''--sport'' (fd_src_port f))"

definition pkt_res :: "json \<Rightarrow> int res" where
  "pkt_res action =
     (if action = JStr ''DENY'' then Inr 0 else if action = JStr ''ACCEPT'' then Inr 1 else Inl unbound_local_error)"

definition mark_data :: "int \<Rightarrow> int \<Rightarrow> int" where
  "mark_data idx res =
     (let mark = (0x02200000 AND 0xFFFF0000) OR (idx AND 0xFFFF)
      in (mark AND NOT (push_bit 26 1)) OR push_bit 26 res)"

definition rule_commands :: "rule_fields \<Rightarrow> int \<Rightarrow> int \<Rightarrow> command \<times> command" where
  "rule_commands f idx res =
     (rule_head ''PREROUTING'' @ [JStr ''-i'', JStr ''eip0''] @ rule_options f @ [JStr ''-j'', JStr ''DIVERT''],
      rule_head ''POSTROUTING'' @ rule_options f @ [JStr ''-j'', JStr ''MARK'', JStr ''--set-mark'', JStr (hex_text (mark_data idx res))])"

definition add_rule :: "fw_env \<Rightarrow> rule_fields \<Rightarrow> (fw_state, fw_answer) meth" where
  "add_rule env f =
     mread (\<lambda>s. mbind (mlift (pkt_res (fd_action f))) (\<lambda>res.
       case rule_commands f (iptbl_idx s) res of (cmd1, cmd2) \<Rightarrow>
         mthen (run_command env cmd1) (mthen (run_command env cmd2)
           (mthen (mupd (\<lambda>s. s\<lparr>iptable_rule_dict := AList.update (iptbl_idx s) (cmd1, cmd2) (iptable_rule_dict s)\<rparr>))
             (mthen (mupd (iptbl_idx_update (\<lambda>i. i + 1))) (mreturn RuleAdded))))))"

definition add_iptables_rule :: "fw_env \<Rightarrow> json option \<Rightarrow> (fw_state, fw_answer) meth" where
  "add_iptables_rule env data =
     (case data of
        None \<Rightarrow> mreturn InvalidJson
      | Some data \<Rightarrow>
          (case rule_fields_of data of
             Inl e \<Rightarrow> mreturn ExtractError
           | Inr f \<Rightarrow>
               mbind (mlift (check_data_validity f)) (\<lambda>match_flag.
                 if match_flag = 2 then caught_process_error (add_rule env f) AddError else mreturn MissingFields)))"

section \<open>Deleting a rule\<close>

text \<open>The commands are changed in place, so the table keeps the changes.\<close>

definition del_word :: "nat \<Rightarrow> command \<Rightarrow> command res" where
  "del_word i cmd = (if i < length cmd then Inr (take i cmd @ drop (Suc i) cmd) else Inl IndexError)"

definition set_word :: "nat \<Rightarrow> string \<Rightarrow> command \<Rightarrow> command res" where
  "set_word i w cmd = (if i < length cmd then Inr (cmd[i := JStr w]) else Inl IndexError)"

definition put_commands :: "int \<Rightarrow> command \<Rightarrow> command \<Rightarrow> (fw_state, unit) meth" where
  "put_commands idx cmd1 cmd2 = mupd (iptable_rule_dict_update (AList.update idx (cmd1, cmd2)))"

definition undo_rule :: "fw_env \<Rightarrow> int \<Rightarrow> command \<Rightarrow> command \<Rightarrow> (fw_state, fw_answer) meth" where
  "undo_rule env idx cmd1 cmd2 =
     mbind (mlift (del_word 9 cmd2)) (\<lambda>cmd2. mthen (put_commands idx cmd1 cmd2) (
     mbind (mlift (del_word 9 cmd1)) (\<lambda>cmd1. mthen (put_commands idx cmd1 cmd2) (
     mbind (mlift (set_word 7 ''-D'' cmd1)) (\<lambda>cmd1. mthen (put_commands idx cmd1 cmd2) (
     mbind (mlift (set_word 7 ''-D'' cmd2)) (\<lambda>cmd2. mthen (put_commands idx cmd1 cmd2) (
       caught_process_error
         (mthen (run_command env cmd1) (mthen (run_command env cmd2)
           (mthen (mupd (iptable_rule_dict_update (AList.delete idx))) (mthen (del_fwl_rule env idx) (mreturn RuleDeleted)))))
         DeleteError))))))))"

definition del_iptables_rule :: "fw_env \<Rightarrow> json option \<Rightarrow> (fw_state, fw_answer) meth" where
  "del_iptables_rule env data =
     (case data of
        None \<Rightarrow> mreturn InvalidJson
      | Some data \<Rightarrow>
          (case rbind (json_get data ''iprule_idx'') json_int of
             Inl e \<Rightarrow> mreturn ExtractError
           | Inr idx \<Rightarrow>
               mread (\<lambda>s. case map_of (iptable_rule_dict s) idx of
                   None \<Rightarrow> mreturn NoSuchRule
                 | Some (cmd1, cmd2) \<Rightarrow> undo_rule env idx cmd1 cmd2)))"

section \<open>Requests\<close>

datatype fw_request = AddRequest "json option" | DeleteRequest "json option"

definition fw_handle :: "fw_env \<Rightarrow> fw_request \<Rightarrow> (fw_state, fw_answer) meth" where
  "fw_handle env r = (case r of AddRequest data \<Rightarrow> add_iptables_rule env data | DeleteRequest data \<Rightarrow> del_iptables_rule env data)"

text \<open>An exception ends the request, and the server goes on.\<close>

fun fw_serve :: "fw_env \<Rightarrow> fw_request list \<Rightarrow> fw_state \<Rightarrow> fw_answer res list \<times> fw_state" where
  "fw_serve env [] s = ([], s)"
| "fw_serve env (r # rs) s =
     (case fw_handle env r s of (answer, s) \<Rightarrow> case fw_serve env rs s of (answers, s) \<Rightarrow> (answer # answers, s))"

end
