(* ===== verification/FirewallSpec.thy ===== *)
theory FirewallSpec
  imports Firewall
begin

text \<open>
  What the firewall daemon does with rules: every rule that it installs lets packets through, since no request that asks for
  anything but to accept them is obeyed; a rule is deleted by the commands that added it, but for a deletion that failed
  there is no second try.
\<close>

section \<open>Marks\<close>

lemma mark_allow: "mark_data i 1 = 0x06200000 + i mod 65536"
proof -
  define y where "y = take_bit 16 i"
  have low: "i AND 0xFFFF = y"
    unfolding y_def by (simp add: take_bit_eq_mask mask_numeral)
  have "(push_bit 16 b) AND y = 0" for b :: int
    by (intro bit_eqI) (auto simp: bit_and_iff bit_push_bit_iff y_def bit_take_bit_iff)
  then have or: "(push_bit 16 b) OR y = push_bit 16 b + y" for b :: int
    using plus_and_or [of "push_bit 16 b" y] by simp
  have set_bits: "((a OR y) AND NOT m) OR m = (a OR m) OR y" for a m :: int
    by (intro bit_eqI) (auto simp: bit_or_iff bit_and_iff bit_not_iff)
  have "mark_data i 1 = ((push_bit 16 0x220 OR y) AND NOT (push_bit 26 1)) OR push_bit 26 1"
    by (simp add: mark_data_def low push_bit_eq_mult)
  also have "\<dots> = (push_bit 16 0x220 OR push_bit 26 1) OR y"
    by (rule set_bits)
  also have "push_bit 16 0x220 OR push_bit 26 1 = push_bit 16 (0x620 :: int)"
    by (simp add: push_bit_eq_mult)
  also have "push_bit 16 (0x620 :: int) OR y = 0x06200000 + y"
    unfolding or by (simp add: push_bit_eq_mult)
  finally show ?thesis by (simp add: y_def take_bit_eq_mod)
qed

section \<open>What is installed\<close>

definition installs :: "command \<Rightarrow> bool" where
  "installs cmd \<longleftrightarrow> \<not> (7 < length cmd \<and> cmd ! 7 = JStr ''-D'')"

definition divert_command :: "command \<Rightarrow> command" where
  "divert_command opts = rule_head ''PREROUTING'' @ [JStr ''-i'', JStr ''eip0''] @ opts @ [JStr ''-j'', JStr ''DIVERT'']"

definition mark_command :: "command \<Rightarrow> int \<Rightarrow> command" where
  "mark_command opts mark =
     rule_head ''POSTROUTING'' @ opts @ [JStr ''-j'', JStr ''MARK'', JStr ''--set-mark'', JStr (hex_text mark)]"

text \<open>What was run since the log had \<open>n\<close> entries, deletions apart.\<close>

definition installed_since :: "nat \<Rightarrow> (command \<Rightarrow> bool) \<Rightarrow> fw_state \<Rightarrow> bool" where
  "installed_since n Q s \<longleftrightarrow>
     n \<le> length (fw_log s) \<and> (\<forall>cmd. Command cmd \<in> set (drop n (fw_log s)) \<longrightarrow> installs cmd \<longrightarrow> Q cmd)"

lemma installed_now: "installed_since (length (fw_log s)) Q s"
  by (simp add: installed_since_def)

lemma installed_log:
  "installed_since n Q s \<Longrightarrow> (\<And>cmd. e = Command cmd \<Longrightarrow> installs cmd \<Longrightarrow> Q cmd) \<Longrightarrow> installed_since n Q (fw_log_update (\<lambda>log. log @ [e]) s)"
  by (auto simp: installed_since_def)

lemma check_words_total: "check_words cmd = Inr () \<or> (\<exists>e. check_words cmd = Inl e)"
  by (cases "check_words cmd") auto

lemma stable_lift_bind:
  assumes "\<And>x. r = Inr x \<Longrightarrow> stable P (\<lambda>_. P) (f x)"
  shows "stable P (\<lambda>_. P) (mbind (mlift r) f)"
proof (cases r)
  case (Inl e)
  have "mbind (mlift r) f = mraise e" by (rule ext) (simp add: Inl result_simps)
  then show ?thesis by (simp add: stable_raise)
next
  case (Inr x)
  have "mbind (mlift r) f = f x" by (rule ext) (simp add: Inr result_simps)
  then show ?thesis using assms Inr by simp
qed

abbreviation stays :: "nat \<Rightarrow> (command \<Rightarrow> bool) \<Rightarrow> (fw_state, 'a) meth \<Rightarrow> bool" where
  "stays n Q m \<equiv> stable (installed_since n Q) (\<lambda>_. installed_since n Q) m"

lemma stays_upd: "(\<And>s. fw_log (f s) = fw_log s) \<Longrightarrow> stays n Q (mupd f)"
  by (intro stable_upd) (simp add: installed_since_def)

lemma run_command_installs:
  assumes "installs cmd \<Longrightarrow> Q cmd"
  shows "stays n Q (run_command env cmd)"
  unfolding run_command_def
proof (intro stable_rules)
  show "stays n Q (case fw_runs env (fw_log t) cmd of Ran \<Rightarrow> mreturn () | Failed \<Rightarrow> mraise called_process_error | NotRun e \<Rightarrow> mraise e)" for t
    by (auto split: run_result.split intro!: stable_rules)
qed (use assms in \<open>auto intro!: installed_log\<close>)

lemma caught_installs: "stays n Q m \<Longrightarrow> stays n Q (caught_process_error m a)"
  unfolding caught_process_error_def
  by (erule stable_catch) (auto intro: triple_return triple_raise)

lemma rule_commands_accept:
  "rule_commands f i 1 = (divert_command (rule_options f), mark_command (rule_options f) (0x06200000 + i mod 65536))"
  by (simp add: rule_commands_def divert_command_def mark_command_def mark_allow)

lemma checked_action:
  assumes "check_data_validity f = Inr 2" and "pkt_res (fd_action f) = Inr r"
  shows "r = 1" and "fd_action f = JStr ''ACCEPT''"
proof -
  have "\<exists>g. given_and is_valid_action (fd_action f) = Inr g \<and> g"
    using assms(1) by (auto simp: check_data_validity_def rbind_eq_Inr split: if_splits)
  moreover have "given_and is_valid_action (JStr ''DENY'') = Inr False" by code_simp
  ultimately show "r = 1" and "fd_action f = JStr ''ACCEPT''" using assms(2) by (auto simp: pkt_res_def split: if_splits)
qed

definition command_of_rule :: "rule_fields \<Rightarrow> int \<Rightarrow> command \<Rightarrow> bool" where
  "command_of_rule f i cmd \<longleftrightarrow>
     fd_action f = JStr ''ACCEPT'' \<and>
     (cmd = divert_command (rule_options f) \<or> cmd = mark_command (rule_options f) (0x06200000 + i mod 65536))"

lemma add_rule_installs:
  assumes "check_data_validity f = Inr 2"
  shows "triple (\<lambda>u. u = s) (add_rule env f) (\<lambda>_. installed_since (length (fw_log s)) (command_of_rule f (iptbl_idx s)))
    (\<lambda>_. installed_since (length (fw_log s)) (command_of_rule f (iptbl_idx s)))"
  unfolding add_rule_def
proof (rule triple_read)
  fix t assume t: "t = s"
  let ?Q = "command_of_rule f (iptbl_idx s)"
  have "stays n ?Q (case rule_commands f (iptbl_idx s) r of (cmd1, cmd2) \<Rightarrow>
         mthen (run_command env cmd1) (mthen (run_command env cmd2)
           (mthen (mupd (\<lambda>s. s\<lparr>iptable_rule_dict := AList.update (iptbl_idx s) (cmd1, cmd2) (iptable_rule_dict s)\<rparr>))
             (mthen (mupd (iptbl_idx_update (\<lambda>i. i + 1))) (mreturn RuleAdded)))))"
    if "pkt_res (fd_action f) = Inr r" for r n
    using checked_action(2) [OF assms that] unfolding checked_action(1) [OF assms that] rule_commands_accept split
    by (intro stable_then stable_return run_command_installs stays_upd) (simp_all add: command_of_rule_def)
  then have "stays n ?Q (mbind (mlift (pkt_res (fd_action f))) (\<lambda>res. case rule_commands f (iptbl_idx s) res of (cmd1, cmd2) \<Rightarrow>
         mthen (run_command env cmd1) (mthen (run_command env cmd2)
           (mthen (mupd (\<lambda>s. s\<lparr>iptable_rule_dict := AList.update (iptbl_idx s) (cmd1, cmd2) (iptable_rule_dict s)\<rparr>))
             (mthen (mupd (iptbl_idx_update (\<lambda>i. i + 1))) (mreturn RuleAdded))))))" for n
    by (intro stable_lift_bind)
  then show "triple (\<lambda>u. u = t) (mbind (mlift (pkt_res (fd_action f))) (\<lambda>res. case rule_commands f (iptbl_idx t) res of (cmd1, cmd2) \<Rightarrow>
         mthen (run_command env cmd1) (mthen (run_command env cmd2)
           (mthen (mupd (\<lambda>s. s\<lparr>iptable_rule_dict := AList.update (iptbl_idx s) (cmd1, cmd2) (iptable_rule_dict s)\<rparr>))
             (mthen (mupd (iptbl_idx_update (\<lambda>i. i + 1))) (mreturn RuleAdded))))))
      (\<lambda>_. installed_since (length (fw_log s)) ?Q) (\<lambda>_. installed_since (length (fw_log s)) ?Q)"
    unfolding t stable_def by (rule triple_pre) (simp add: installed_now)
qed

lemma add_installs:
  assumes "add_iptables_rule env data s = (a, t)" and "Command cmd \<in> set (drop (length (fw_log s)) (fw_log t))" and "installs cmd"
  shows "\<exists>v f. data = Some v \<and> rule_fields_of v = Inr f \<and> command_of_rule f (iptbl_idx s) cmd"
proof (cases "\<exists>v f. data = Some v \<and> rule_fields_of v = Inr f \<and> check_data_validity f = Inr 2")
  case True
  then obtain v f where f: "data = Some v" "rule_fields_of v = Inr f" "check_data_validity f = Inr 2" by blast
  have "triple (\<lambda>u. u = s) (caught_process_error (add_rule env f) AddError)
      (\<lambda>_. installed_since (length (fw_log s)) (command_of_rule f (iptbl_idx s)))
      (\<lambda>_. installed_since (length (fw_log s)) (command_of_rule f (iptbl_idx s)))"
    unfolding caught_process_error_def
    by (rule triple_catch [OF add_rule_installs [OF f(3)]]) (auto intro!: triple_if triple_return triple_raise)
  from tripleD [OF this, OF refl] have "installed_since (length (fw_log s)) (command_of_rule f (iptbl_idx s)) t"
    using assms(1) f by (cases a) (simp_all add: add_iptables_rule_def result_simps)
  then show ?thesis using f assms(2,3) by (auto simp: installed_since_def)
next
  case False
  then have "t = s"
    using assms(1) by (auto simp: add_iptables_rule_def result_simps split: option.splits sum.splits if_splits)
  then show ?thesis using assms(2) by simp
qed

lemma put_commands_installs: "stays n Q (put_commands idx c1 c2)"
  unfolding put_commands_def by (intro stays_upd) simp

lemma undoing: "set_word 7 ''-D'' cmd = Inr cmd' \<Longrightarrow> \<not> installs cmd'"
  by (auto simp: set_word_def installs_def split: if_splits)

lemma undo_installs: "stays n Q (undo_rule env idx cmd1 cmd2)"
proof -
  have "stays n Q (caught_process_error
         (mthen (run_command env c1) (mthen (run_command env c2)
           (mthen (mupd (iptable_rule_dict_update (AList.delete idx))) (mthen (del_fwl_rule env idx) (mreturn RuleDeleted)))))
         DeleteError)" if "\<not> installs c1" "\<not> installs c2" for c1 c2
  proof -
    have "stays n Q (del_fwl_rule env idx)"
      unfolding del_fwl_rule_def
      by (intro stable_rules) (auto split: option.split intro!: stable_rules installed_log)
    then show ?thesis using that
      by (intro caught_installs stable_then stable_return run_command_installs stays_upd) simp_all
  qed
  then show ?thesis unfolding undo_rule_def
    by (intro stable_lift_bind stable_then put_commands_installs) (simp add: undoing)
qed

lemma delete_installs: "stays n Q (del_iptables_rule env data)"
proof (cases data)
  case (Some v)
  show ?thesis
  proof (cases "rbind (json_get v ''iprule_idx'') json_int")
    case (Inr idx)
    have "stays n Q
       (case map_of (iptable_rule_dict s) idx of None \<Rightarrow> mreturn NoSuchRule | Some (cmd1, cmd2) \<Rightarrow> undo_rule env idx cmd1 cmd2)" for s
      by (auto split: option.split intro: stable_return undo_installs)
    then show ?thesis unfolding del_iptables_rule_def Some option.case Inr sum.case by (rule stable_read)
  qed (simp add: del_iptables_rule_def Some stable_return)
qed (simp add: del_iptables_rule_def stable_return)

text \<open>Only an answer that a rule was added changes the number of the next rule.\<close>

definition next_number :: "int \<Rightarrow> fw_answer res \<Rightarrow> int" where
  "next_number i a = (if a = Inr RuleAdded then i + 1 else i)"

lemma run_command_number: "stable (\<lambda>u. iptbl_idx u = i) (\<lambda>_ u. iptbl_idx u = i) (run_command env cmd)"
  unfolding run_command_def by (intro stable_rules) (auto split: run_result.split intro!: stable_rules)

definition numbered :: "int \<Rightarrow> (fw_state, fw_answer) meth \<Rightarrow> bool" where
  "numbered i m \<longleftrightarrow> triple (\<lambda>u. iptbl_idx u = i) m (\<lambda>a u. iptbl_idx u = next_number i (Inr a)) (\<lambda>_ u. iptbl_idx u = i)"

lemma numbered_rules:
  "a \<noteq> RuleAdded \<Longrightarrow> numbered i (mreturn a)" "numbered i (mraise e)"
  "stable (\<lambda>u. iptbl_idx u = i) (\<lambda>_ u. iptbl_idx u = i) m \<Longrightarrow> numbered i n \<Longrightarrow> numbered i (mthen m n)"
  "(\<And>u. iptbl_idx u = i \<Longrightarrow> numbered i (f u)) \<Longrightarrow> numbered i (mread f)"
  "(b \<Longrightarrow> numbered i m') \<Longrightarrow> (\<not> b \<Longrightarrow> numbered i n) \<Longrightarrow> numbered i (if b then m' else n)"
  unfolding numbered_def stable_def
  by (auto simp: next_number_def intro!: triple_return triple_raise triple_read_inv intro: triple_then)

lemma numbered_lift:
  assumes "\<And>x. r = Inr x \<Longrightarrow> numbered i (f x)"
  shows "numbered i (mbind (mlift r) f)"
proof (cases r)
  case (Inl e)
  have "mbind (mlift r) f = mraise e" by (rule ext) (simp add: Inl result_simps)
  then show ?thesis by (simp add: numbered_rules)
next
  case (Inr x)
  have "mbind (mlift r) f = f x" by (rule ext) (simp add: Inr result_simps)
  then show ?thesis using assms Inr by simp
qed

lemma numbered_caught: "numbered i m \<Longrightarrow> a \<noteq> RuleAdded \<Longrightarrow> numbered i (caught_process_error m a)"
  unfolding numbered_def caught_process_error_def
  by (erule triple_catch) (auto simp: next_number_def intro!: triple_if triple_return triple_raise)

lemma add_numbered: "numbered i (add_iptables_rule env data)"
proof -
  have last: "numbered i (mthen (mupd (\<lambda>s. s\<lparr>iptable_rule_dict := AList.update (iptbl_idx s) cs (iptable_rule_dict s)\<rparr>))
      (mthen (mupd (iptbl_idx_update (\<lambda>i. i + 1))) (mreturn RuleAdded)))" for cs
    by (simp add: numbered_def triple_def mthen_eval meth_defs next_number_def)
  have "numbered i (add_rule env f)" for f
    unfolding add_rule_def case_prod_beta
    by (intro numbered_rules numbered_lift run_command_number last)
  then show ?thesis
    unfolding add_iptables_rule_def
    by (auto split: option.split sum.split intro!: numbered_rules numbered_lift numbered_caught)
qed

lemma delete_numbered: "numbered i (del_iptables_rule env data)"
proof -
  have upd: "stable (\<lambda>u. iptbl_idx u = i) (\<lambda>_ u. iptbl_idx u = i) (mupd (iptable_rule_dict_update f))"
    "stable (\<lambda>u. iptbl_idx u = i) (\<lambda>_ u. iptbl_idx u = i) (put_commands idx c1 c2)"
    "stable (\<lambda>u. iptbl_idx u = i) (\<lambda>_ u. iptbl_idx u = i) (del_fwl_rule env idx)" for f idx c1 c2
    unfolding put_commands_def del_fwl_rule_def
    by (auto split: option.split intro!: stable_rules)
  have "numbered i (undo_rule env idx c1 c2)" for idx c1 c2
    unfolding undo_rule_def
    by (intro numbered_lift numbered_rules numbered_caught upd run_command_number) simp_all
  then show ?thesis
    unfolding del_iptables_rule_def
    by (auto split: option.split sum.split intro!: numbered_rules)
qed

lemma handle_number:
  assumes "fw_handle env r s = (a, t)"
  shows "iptbl_idx t = next_number (iptbl_idx s) a"
proof -
  have "numbered (iptbl_idx s) (fw_handle env r)"
    by (cases r) (simp_all add: fw_handle_def add_numbered delete_numbered)
  from tripleD [OF this [unfolded numbered_def], OF refl] show ?thesis
    using assms by (cases a) (auto simp: next_number_def)
qed

lemma serve_number:
  "fw_serve env rs s = (answers, t) \<Longrightarrow> iptbl_idx t = iptbl_idx s + int (count_list answers (Inr RuleAdded))"
proof (induction rs arbitrary: s answers)
  case (Cons r rs)
  obtain a u where h: "fw_handle env r s = (a, u)" by fastforce
  obtain as where as: "fw_serve env rs u = (as, t)" "answers = a # as" using Cons.prems h by (auto split: prod.splits)
  show ?case using Cons.IH [OF as(1)] handle_number [OF h] by (auto simp: as(2) next_number_def)
qed simp

text \<open>C29: whatever was asked and whatever failed before, every command that the daemon runs for a request, but those that
  delete, is one of the two of a rule of that request which accepts packets: one that diverts them, or one that marks them,
  with the bit that lets packets through and the low 16 bits of the number of the rule, which is one more than the number of
  rules that were added before. So no rule that denies is ever installed.\<close>

theorem rules_always_accept:
  assumes "fw_serve env rs fw_start = (answers, s)" and "fw_handle env r s = (a, t)"
    and "Command cmd \<in> set (drop (length (fw_log s)) (fw_log t))" and "installs cmd"
  shows "\<exists>data f. r = AddRequest (Some data) \<and> rule_fields_of data = Inr f \<and> fd_action f = JStr ''ACCEPT'' \<and>
    (cmd = divert_command (rule_options f) \<or>
     cmd = mark_command (rule_options f) (0x06200000 + (1 + int (count_list answers (Inr RuleAdded))) mod 65536))"
proof (cases r)
  case (AddRequest data)
  have "iptbl_idx s = 1 + int (count_list answers (Inr RuleAdded))"
    using serve_number [OF assms(1)] by (simp add: fw_start_def)
  then show ?thesis
    using add_installs [of env data s a t cmd] assms(2-4) AddRequest by (auto simp: fw_handle_def command_of_rule_def)
next
  case (DeleteRequest data)
  have "installed_since (length (fw_log s)) (\<lambda>_. False) t"
    using tripleD [OF delete_installs [unfolded stable_def], OF installed_now] assms(2) DeleteRequest
    by (cases a) (simp_all add: fw_handle_def)
  then show ?thesis using assms(3,4) by (simp add: installed_since_def)
qed

section \<open>Adding and deleting\<close>

definition undone :: "command \<Rightarrow> command" where
  "undone cmd = (take 9 cmd @ drop 10 cmd)[7 := JStr ''-D'']"

definition delete_request :: "int \<Rightarrow> json option" where
  "delete_request idx = Some (JObj [(''iprule_idx'', JInt idx)])"

lemma run_command_eval:
  "run_command env cmd s =
     (case check_words cmd of Inl e \<Rightarrow> (Inl e, s) | Inr _ \<Rightarrow>
        (case fw_runs env (fw_log s) cmd of Ran \<Rightarrow> Inr () | Failed \<Rightarrow> Inl called_process_error | NotRun e \<Rightarrow> Inl e,
         s\<lparr>fw_log := fw_log s @ [Command cmd]\<rparr>))"
  by (simp add: run_command_def result_simps split: sum.split run_result.split)

lemma run_command_returns:
  assumes "run_command env cmd s = (Inr u, t)"
  shows "check_words cmd = Inr ()" and "t = s\<lparr>fw_log := fw_log s @ [Command cmd]\<rparr>"
  using assms by (auto simp: run_command_eval split: sum.splits)

lemma mthen_returns: "mthen m n s = (Inr x, t) \<longleftrightarrow> (\<exists>y u. m s = (Inr y, u) \<and> n u = (Inr x, t))"
  by (auto simp: mthen_def mbind_def split: prod.splits sum.splits)

lemma rule_added:
  assumes "add_iptables_rule env data s = (Inr RuleAdded, t)"
  obtains f c1 c2 where "(c1, c2) = rule_commands f (iptbl_idx s) 1" and "check_words c1 = Inr ()" and "check_words c2 = Inr ()"
    and "t = s\<lparr>iptable_rule_dict := AList.update (iptbl_idx s) (c1, c2) (iptable_rule_dict s), iptbl_idx := iptbl_idx s + 1,
      fw_log := fw_log s @ [Command c1, Command c2]\<rparr>"
proof -
  obtain v f where f: "data = Some v" "rule_fields_of v = Inr f"
    using assms by (auto simp: add_iptables_rule_def result_simps split: option.splits sum.splits)
  then have checked: "check_data_validity f = Inr 2" and "caught_process_error (add_rule env f) AddError s = (Inr RuleAdded, t)"
    using assms by (auto simp: add_iptables_rule_def result_simps split: sum.splits if_splits)
  then have "add_rule env f s = (Inr RuleAdded, t)"
    by (auto simp: caught_process_error_def result_simps split: prod.splits sum.splits if_splits)
  then obtain r where r: "pkt_res (fd_action f) = Inr r"
    and run: "(case rule_commands f (iptbl_idx s) r of (cmd1, cmd2) \<Rightarrow>
         mthen (run_command env cmd1) (mthen (run_command env cmd2)
           (mthen (mupd (\<lambda>s. s\<lparr>iptable_rule_dict := AList.update (iptbl_idx s) (cmd1, cmd2) (iptable_rule_dict s)\<rparr>))
             (mthen (mupd (iptbl_idx_update (\<lambda>i. i + 1))) (mreturn RuleAdded))))) s = (Inr RuleAdded, t)"
    unfolding add_rule_def by (auto simp: result_simps split: sum.splits)
  obtain c1 c2 where c: "rule_commands f (iptbl_idx s) r = (c1, c2)" by fastforce
  obtain u1 t1 u2 t2 where "run_command env c1 s = (Inr u1, t1)" "run_command env c2 t1 = (Inr u2, t2)"
    and t: "t = t2\<lparr>iptable_rule_dict := AList.update (iptbl_idx t2) (c1, c2) (iptable_rule_dict t2), iptbl_idx := iptbl_idx t2 + 1\<rparr>"
    using run by (auto simp: c mthen_returns mupd_def mreturn_def)
  note first = run_command_returns [OF this(1)] and second = run_command_returns [OF this(2)]
  show thesis
    by (rule that [of c1 c2 f]) (use c checked_action [OF checked r] first second t in auto)
qed

lemma undo_words:
  assumes "10 \<le> length cmd"
  obtains cmd' where "del_word 9 cmd = Inr cmd'" and "set_word 7 ''-D'' cmd' = Inr (undone cmd)"
  using assms by (intro that [of "take 9 cmd @ drop 10 cmd"]) (simp_all add: del_word_def set_word_def undone_def numeral_eq_Suc)

lemma undo_eval:
  assumes "map_of (iptable_rule_dict s) idx = Some (c1, c2)" and "10 \<le> length c1" and "10 \<le> length c2"
  shows "\<exists>rules. (\<forall>i. i \<noteq> idx \<longrightarrow> map_of rules i = map_of (iptable_rule_dict s) i) \<and> map_of rules idx = Some (undone c1, undone c2) \<and>
    del_iptables_rule env (delete_request idx) s =
      caught_process_error
         (mthen (run_command env (undone c1)) (mthen (run_command env (undone c2))
           (mthen (mupd (iptable_rule_dict_update (AList.delete idx))) (mthen (del_fwl_rule env idx) (mreturn RuleDeleted)))))
         DeleteError (s\<lparr>iptable_rule_dict := rules\<rparr>)"
proof -
  obtain d1 where d1: "del_word 9 c1 = Inr d1" "set_word 7 ''-D'' d1 = Inr (undone c1)" by (rule undo_words [OF assms(2)])
  obtain d2 where d2: "del_word 9 c2 = Inr d2" "set_word 7 ''-D'' d2 = Inr (undone c2)" by (rule undo_words [OF assms(3)])
  let ?rules = "AList.update idx (undone c1, undone c2) (AList.update idx (undone c1, d2) (AList.update idx (d1, d2)
    (AList.update idx (c1, d2) (iptable_rule_dict s))))"
  have "del_iptables_rule env (delete_request idx) s = undo_rule env idx c1 c2 s"
    by (simp add: del_iptables_rule_def delete_request_def json_get_def dget_def json_int_def result_simps assms(1))
  also have "\<dots> = caught_process_error
         (mthen (run_command env (undone c1)) (mthen (run_command env (undone c2))
           (mthen (mupd (iptable_rule_dict_update (AList.delete idx))) (mthen (del_fwl_rule env idx) (mreturn RuleDeleted)))))
         DeleteError (s\<lparr>iptable_rule_dict := ?rules\<rparr>)"
    by (cases s) (simp add: undo_rule_def put_commands_def d1 d2 mthen_eval mbind_eval mlift_def mupd_def)
  finally show ?thesis by (intro exI [of _ ?rules]) (simp add: update_conv')
qed

lemma check_words_iff: "check_words cmd = Inr () \<longleftrightarrow> (\<forall>w \<in> set cmd. \<exists>s. w = JStr s \<and> char_of (0 :: nat) \<notin> set s)"
  by (induction cmd) (auto split: json.splits)

lemma check_words_undone:
  assumes "check_words cmd = Inr ()"
  shows "check_words (undone cmd) = Inr ()"
proof -
  have "set (undone cmd) \<subseteq> insert (JStr ''-D'') (set cmd)"
    unfolding undone_def
    by (rule order_trans [OF set_update_subset_insert]) (auto dest: in_set_takeD in_set_dropD)
  moreover have "char_of (0 :: nat) \<notin> set ''-D''" by code_simp
  ultimately show ?thesis using assms unfolding check_words_iff by blast
qed

lemma added_lengths:
  assumes "(c1, c2) = rule_commands f i r"
  shows "10 \<le> length c1" and "10 \<le> length c2"
  using assms by (simp_all add: rule_commands_def rule_head_def)

text \<open>C30: when all commands succeed, deleting a rule that was added runs the two commands that added it, each with \<open>-D\<close> for
  \<open>-I\<close> and without the position, tells the device the number of the rule, and leaves the rules that there were before.\<close>

theorem added_rule_is_deleted:
  assumes "add_iptables_rule env data s = (Inr RuleAdded, t)" and "map_of (iptable_rule_dict s) (iptbl_idx s) = None"
    and "\<forall>log cmd. fw_runs env log cmd = Ran" and "\<forall>log idx. fw_device env log idx = None"
  shows "\<exists>c1 c2 u. fw_log t = fw_log s @ [Command c1, Command c2] \<and>
    del_iptables_rule env (delete_request (iptbl_idx s)) t = (Inr RuleDeleted, u) \<and>
    fw_log u = fw_log t @ [Command (undone c1), Command (undone c2), Device (iptbl_idx s)] \<and>
    map_of (iptable_rule_dict u) = map_of (iptable_rule_dict s)"
proof -
  obtain f c1 c2 where c: "(c1, c2) = rule_commands f (iptbl_idx s) 1" "check_words c1 = Inr ()" "check_words c2 = Inr ()"
    and t: "t = s\<lparr>iptable_rule_dict := AList.update (iptbl_idx s) (c1, c2) (iptable_rule_dict s), iptbl_idx := iptbl_idx s + 1,
      fw_log := fw_log s @ [Command c1, Command c2]\<rparr>"
    by (rule rule_added [OF assms(1)])
  have "map_of (iptable_rule_dict t) (iptbl_idx s) = Some (c1, c2)" by (simp add: t update_conv')
  from undo_eval [OF this added_lengths [OF c(1)], of env] obtain rules where
    rules: "\<forall>i. i \<noteq> iptbl_idx s \<longrightarrow> map_of rules i = map_of (iptable_rule_dict t) i"
    and run: "del_iptables_rule env (delete_request (iptbl_idx s)) t =
      caught_process_error
         (mthen (run_command env (undone c1)) (mthen (run_command env (undone c2))
           (mthen (mupd (iptable_rule_dict_update (AList.delete (iptbl_idx s)))) (mthen (del_fwl_rule env (iptbl_idx s)) (mreturn RuleDeleted)))))
         DeleteError (t\<lparr>iptable_rule_dict := rules\<rparr>)" by blast
  let ?u = "t\<lparr>iptable_rule_dict := AList.delete (iptbl_idx s) rules,
    fw_log := fw_log t @ [Command (undone c1), Command (undone c2), Device (iptbl_idx s)]\<rparr>"
  have "del_iptables_rule env (delete_request (iptbl_idx s)) t = (Inr RuleDeleted, ?u)"
    unfolding run by (simp add: caught_process_error_def mthen_eval run_command_eval check_words_undone c(2,3) assms(3,4)
      del_fwl_rule_def meth_defs)
  moreover have "map_of (iptable_rule_dict ?u) i = map_of (iptable_rule_dict s) i" for i
    using rules assms(2) by (cases "i = iptbl_idx s") (simp_all add: delete_conv' t update_conv')
  ultimately show ?thesis by (intro exI [of _ c1] exI [of _ c2] exI [of _ ?u]) (auto simp: t)
qed

text \<open>C31: a request with any action but the text ACCEPT adds no rule, runs no command and changes nothing. When the daemon finds
  it valid, which it does for DROP and for other spellings of accept, it raises an \<open>UnboundLocalError\<close>; DENY, the
  action that the code would obey, is not valid.\<close>

theorem other_actions_refused:
  assumes "rule_fields_of data = Inr f" and "fd_action f \<noteq> JStr ''ACCEPT''"
  shows "\<exists>r. add_iptables_rule env (Some data) s = (r, s) \<and> r \<noteq> Inr RuleAdded \<and>
    (check_data_validity f = Inr 2 \<longrightarrow> r = Inl unbound_local_error)"
proof (cases "check_data_validity f = Inr 2")
  case True
  have "pkt_res (fd_action f) = Inl unbound_local_error"
    using checked_action [OF True] assms(2) by (auto simp: pkt_res_def split: if_splits)
  then have "add_iptables_rule env (Some data) s = (Inl unbound_local_error, s)"
    by (simp add: add_iptables_rule_def assms(1) True caught_process_error_def add_rule_def result_simps)
  then show ?thesis by simp
next
  case False
  then show ?thesis
    by (auto simp: add_iptables_rule_def assms(1) result_simps split: sum.splits)
qed

text \<open>A deletion changes the commands of the rule before it runs them. So when the first command fails, the rule stays in the
  table without its position, and the next try takes out the word after it: the option for the interface, whose name is left.\<close>

theorem retry_loses_interface:
  assumes "add_iptables_rule env data s = (Inr RuleAdded, t)" and "\<forall>cmd. fw_runs env (fw_log t) cmd = Failed"
  shows "\<exists>opts u rest. divert_command opts \<in> {cmd. Command cmd \<in> set (fw_log t)} \<and>
    del_iptables_rule env (delete_request (iptbl_idx s)) t = (Inr DeleteError, u) \<and> has_key (iptable_rule_dict u) (iptbl_idx s) \<and>
    fw_log (snd (del_iptables_rule env (delete_request (iptbl_idx s)) u)) = fw_log u @
      Command (map JStr [''ip'', ''netns'', ''exec'', ''defeip'', ''iptables'', ''-t'', ''mangle'', ''-D'', ''PREROUTING'', ''eip0''] @
        opts @ [JStr ''-j'', JStr ''DIVERT'']) # rest"
proof -
  obtain f c1 c2 where c: "(c1, c2) = rule_commands f (iptbl_idx s) 1" "check_words c1 = Inr ()" "check_words c2 = Inr ()"
    and t: "t = s\<lparr>iptable_rule_dict := AList.update (iptbl_idx s) (c1, c2) (iptable_rule_dict s), iptbl_idx := iptbl_idx s + 1,
      fw_log := fw_log s @ [Command c1, Command c2]\<rparr>"
    by (rule rule_added [OF assms(1)])
  define opts where "opts = rule_options f"
  have c1: "c1 = divert_command opts" using c(1) by (simp add: rule_commands_accept opts_def)
  have "map_of (iptable_rule_dict t) (iptbl_idx s) = Some (c1, c2)" by (simp add: t update_conv')
  from undo_eval [OF this added_lengths [OF c(1)], of env] obtain rules where
    rules: "map_of rules (iptbl_idx s) = Some (undone c1, undone c2)"
    and run: "del_iptables_rule env (delete_request (iptbl_idx s)) t =
      caught_process_error
         (mthen (run_command env (undone c1)) (mthen (run_command env (undone c2))
           (mthen (mupd (iptable_rule_dict_update (AList.delete (iptbl_idx s)))) (mthen (del_fwl_rule env (iptbl_idx s)) (mreturn RuleDeleted)))))
         DeleteError (t\<lparr>iptable_rule_dict := rules\<rparr>)" by blast
  define u where "u = t\<lparr>iptable_rule_dict := rules, fw_log := fw_log t @ [Command (undone c1)]\<rparr>"
  have first: "del_iptables_rule env (delete_request (iptbl_idx s)) t = (Inr DeleteError, u)"
    unfolding run u_def by (simp add: caught_process_error_def mthen_eval run_command_eval check_words_undone c(2) assms(2) meth_defs)
  have "10 \<le> length (undone c1)" "10 \<le> length (undone c2)"
    using c(1) by (auto simp: rule_commands_def rule_head_def undone_def)
  moreover have "map_of (iptable_rule_dict u) (iptbl_idx s) = Some (undone c1, undone c2)" by (simp add: u_def rules)
  ultimately obtain rules' where again: "del_iptables_rule env (delete_request (iptbl_idx s)) u =
      caught_process_error
         (mthen (run_command env (undone (undone c1))) (mthen (run_command env (undone (undone c2)))
           (mthen (mupd (iptable_rule_dict_update (AList.delete (iptbl_idx s)))) (mthen (del_fwl_rule env (iptbl_idx s)) (mreturn RuleDeleted)))))
         DeleteError (u\<lparr>iptable_rule_dict := rules'\<rparr>)" using undo_eval [of u "iptbl_idx s"] by blast
  have words: "undone (undone c1) = map JStr [''ip'', ''netns'', ''exec'', ''defeip'', ''iptables'', ''-t'', ''mangle'', ''-D'', ''PREROUTING'', ''eip0''] @
        opts @ [JStr ''-j'', JStr ''DIVERT'']"
    by (simp add: c1 divert_command_def rule_head_def undone_def numeral_eq_Suc)
  have "\<exists>rest. fw_log (snd (del_iptables_rule env (delete_request (iptbl_idx s)) u)) = fw_log u @ Command (undone (undone c1)) # rest"
    unfolding again by (simp add: caught_process_error_def mthen_eval run_command_eval check_words_undone c(2,3) meth_defs del_fwl_rule_def
      split: run_result.split option.split)
  then show ?thesis using first rules unfolding words by (auto simp: has_key_def u_def t c1)
qed

section \<open>A request\<close>

definition reliable_env :: fw_env where
  "reliable_env = \<lparr>fw_runs = (\<lambda>log cmd. Ran), fw_device = (\<lambda>log idx. None)\<rparr>"

text \<open>The first two commands succeed, and the others fail.\<close>

definition failing_env :: fw_env where
  "failing_env = \<lparr>fw_runs = (\<lambda>log cmd. if length log < 2 then Ran else Failed), fw_device = (\<lambda>log idx. None)\<rparr>"

definition accept_tcp :: "json option" where
  "accept_tcp = Some (JObj [(''proto'', JStr ''tcp''), (''action'', JStr ''ACCEPT'')])"

definition first_mark :: command where
  "first_mark = map JStr [''ip'', ''netns'', ''exec'', ''defeip'', ''iptables'', ''-t'', ''mangle'', ''-I'', ''POSTROUTING'', ''1'',
     ''-p'', ''tcp'', ''-j'', ''MARK'', ''--set-mark'', ''0x6200001'']"

lemma accept_tcp_fields:
  "rule_fields_of (the accept_tcp) = Inr \<lparr>fd_dst_ip = JInt 0, fd_src_ip = JInt 0, fd_proto = JStr ''tcp'',
     fd_dst_port = JInt 0, fd_src_port = JInt 0, fd_action = JStr ''ACCEPT''\<rparr>"
  by (simp add: accept_tcp_def rule_fields_of_def json_get_def dget_def)

lemma accept_tcp_checked:
  "check_data_validity \<lparr>fd_dst_ip = JInt 0, fd_src_ip = JInt 0, fd_proto = JStr ''tcp'',
     fd_dst_port = JInt 0, fd_src_port = JInt 0, fd_action = JStr ''ACCEPT''\<rparr> = Inr 2"
  by code_simp

lemma first_commands:
  "rule_commands \<lparr>fd_dst_ip = JInt 0, fd_src_ip = JInt 0, fd_proto = JStr ''tcp'',
     fd_dst_port = JInt 0, fd_src_port = JInt 0, fd_action = JStr ''ACCEPT''\<rparr> 1 1 =
   (divert_command [JStr ''-p'', JStr ''tcp''], first_mark)"
proof -
  have "hex_text 102760449 = ''0x6200001''" by (simp add: hex_text_def hex_digits.simps)
  then show ?thesis
    by (simp add: rule_commands_def mark_allow divert_command_def first_mark_def rule_options_def json_true_def rule_head_def)
qed

lemma first_words: "check_words (divert_command [JStr ''-p'', JStr ''tcp'']) = Inr ()" "check_words first_mark = Inr ()"
  by code_simp+

definition after_first :: fw_state where
  "after_first = \<lparr>iptable_rule_dict = [(1, divert_command [JStr ''-p'', JStr ''tcp''], first_mark)], iptbl_idx = 2,
     fw_log = [Command (divert_command [JStr ''-p'', JStr ''tcp'']), Command first_mark]\<rparr>"

lemma first_added:
  assumes "fw_runs env [] = (\<lambda>cmd. Ran)" and "\<And>cmd. fw_runs env [cmd] = (\<lambda>cmd. Ran)"
  shows "add_iptables_rule env accept_tcp fw_start = (Inr RuleAdded, after_first)"
proof -
  have "accept_tcp = Some (the accept_tcp)" by (simp add: accept_tcp_def)
  moreover have "add_iptables_rule env (Some (the accept_tcp)) fw_start = (Inr RuleAdded, after_first)"
    by (simp add: add_iptables_rule_def accept_tcp_fields accept_tcp_checked caught_process_error_def add_rule_def mthen_eval
        mbind_eval meth_defs pkt_res_def fw_start_def first_commands run_command_eval first_words assms after_first_def)
  ultimately show ?thesis by simp
qed

definition accept_udp :: json where
  "accept_udp = JObj [(''proto'', JStr ''udp''), (''action'', JStr ''ACCEPT'')]"

text \<open>The second rule: the mark has the number two.\<close>

definition second_mark :: command where
  "second_mark = map JStr [''ip'', ''netns'', ''exec'', ''defeip'', ''iptables'', ''-t'', ''mangle'', ''-I'', ''POSTROUTING'', ''1'',
     ''-p'', ''udp'', ''-j'', ''MARK'', ''--set-mark'', ''0x6200002'']"

lemma second_added:
  "\<exists>t. add_iptables_rule reliable_env (Some accept_udp) after_first = (Inr RuleAdded, t) \<and>
     Command second_mark \<in> set (drop (length (fw_log after_first)) (fw_log t))"
proof -
  let ?f = "\<lparr>fd_dst_ip = JInt 0, fd_src_ip = JInt 0, fd_proto = JStr ''udp'', fd_dst_port = JInt 0, fd_src_port = JInt 0,
    fd_action = JStr ''ACCEPT''\<rparr>"
  have fields: "rule_fields_of accept_udp = Inr ?f" by (simp add: accept_udp_def rule_fields_of_def json_get_def dget_def)
  have checked: "check_data_validity ?f = Inr 2" by code_simp
  have "hex_text 102760450 = ''0x6200002''" by (simp add: hex_text_def hex_digits.simps)
  then have commands: "rule_commands ?f 2 1 = (divert_command [JStr ''-p'', JStr ''udp''], second_mark)"
    by (simp add: rule_commands_def mark_allow divert_command_def second_mark_def rule_options_def json_true_def rule_head_def)
  have words: "check_words (divert_command [JStr ''-p'', JStr ''udp'']) = Inr ()" "check_words second_mark = Inr ()"
    by code_simp+
  show ?thesis
    by (simp add: add_iptables_rule_def fields checked caught_process_error_def add_rule_def mthen_eval
        mbind_eval meth_defs pkt_res_def after_first_def commands run_command_eval words reliable_env_def)
qed

theorem rules_always_accept_witness:
  "\<exists>s t. fw_serve reliable_env [AddRequest accept_tcp] fw_start = ([Inr RuleAdded], s) \<and>
     fw_handle reliable_env (AddRequest (Some accept_udp)) s = (Inr RuleAdded, t) \<and>
     Command second_mark \<in> set (drop (length (fw_log s)) (fw_log t)) \<and>
     (\<exists>opts. second_mark = divert_command opts \<or> second_mark = mark_command opts (0x06200000 + (1 + 1) mod 65536))"
proof -
  have served: "fw_serve reliable_env [AddRequest accept_tcp] fw_start = ([Inr RuleAdded], after_first)"
    by (simp add: fw_handle_def first_added reliable_env_def)
  obtain t where t: "fw_handle reliable_env (AddRequest (Some accept_udp)) after_first = (Inr RuleAdded, t)"
    "Command second_mark \<in> set (drop (length (fw_log after_first)) (fw_log t))"
    using second_added by (auto simp: fw_handle_def)
  have "installs second_mark" by (simp add: installs_def second_mark_def)
  from rules_always_accept [OF served t this] show ?thesis using served t by auto
qed

theorem added_rule_is_deleted_witness:
  "\<exists>u. del_iptables_rule reliable_env (delete_request 1) after_first = (Inr RuleDeleted, u) \<and>
     map_of (iptable_rule_dict u) = Map.empty"
proof -
  have "add_iptables_rule reliable_env accept_tcp fw_start = (Inr RuleAdded, after_first)"
    by (simp add: first_added reliable_env_def)
  from added_rule_is_deleted [OF this] show ?thesis by (auto simp: fw_start_def reliable_env_def)
qed

definition drop_tcp :: json where
  "drop_tcp = JObj [(''proto'', JStr ''tcp''), (''action'', JStr ''DROP'')]"

theorem other_actions_refused_witness:
  "add_iptables_rule reliable_env (Some drop_tcp) fw_start = (Inl unbound_local_error, fw_start)"
proof -
  let ?f = "\<lparr>fd_dst_ip = JInt 0, fd_src_ip = JInt 0, fd_proto = JStr ''tcp'', fd_dst_port = JInt 0, fd_src_port = JInt 0,
    fd_action = JStr ''DROP''\<rparr>"
  have "rule_fields_of drop_tcp = Inr ?f" by (simp add: drop_tcp_def rule_fields_of_def json_get_def dget_def)
  moreover have "check_data_validity ?f = Inr 2" by code_simp
  ultimately show ?thesis using other_actions_refused [of drop_tcp ?f reliable_env fw_start] by auto
qed

theorem retry_loses_interface_witness:
  "\<exists>u. del_iptables_rule failing_env (delete_request 1) after_first = (Inr DeleteError, u) \<and> has_key (iptable_rule_dict u) 1"
proof -
  have "add_iptables_rule failing_env accept_tcp fw_start = (Inr RuleAdded, after_first)"
    by (simp add: first_added failing_env_def)
  from retry_loses_interface [OF this] show ?thesis by (auto simp: fw_start_def failing_env_def after_first_def)
qed

end
