(* ===== verification/Settings.thy ===== *)
theory Settings
  imports Prelude
begin

text \<open>
  Merging settings: \<open>dict_merge\<close> of \<open>merge_settings.py\<close> and of \<open>merge_yamls.py\<close> in \<open>meta-phosphor\<close>, which lets files
  override the entries of a file of defaults or remove them, and the loops over the files.

  A document is a tree of mappings; whatever is not a mapping is a leaf. What reads and writes YAML is left out, and so is the
  sharing of parts of a document by its own references.
\<close>

section \<open>Documents\<close>

datatype ('k, 'v) doc = Leaf 'v | Mapping "('k \<times> ('k, 'v) doc) list"

type_synonym ('k, 'v) doc_entries = "('k \<times> ('k, 'v) doc) list"

section \<open>Merging\<close>

text \<open>\<open>merge_settings.py\<close>: the target, a mapping, is changed in place. What the function returns is not used.\<close>

fun dict_merge :: "bool \<Rightarrow> ('k, 'v) doc_entries \<Rightarrow> ('k, 'v) doc \<Rightarrow> ('k, 'v) doc_entries" where
  "dict_merge remove target (Leaf v) = target"
| "dict_merge remove target (Mapping source) =
     fold (\<lambda>(k, v) target.
       case map_of target k of
         Some (Mapping sub) \<Rightarrow> AList.update k (Mapping (dict_merge remove sub v)) target
       | old \<Rightarrow> if remove \<and> old \<noteq> None then AList.delete k target else AList.update k v target) source target"

text \<open>\<open>merge_yamls.py\<close>, which only overrides.\<close>

fun yaml_merge :: "('k, 'v) doc_entries \<Rightarrow> ('k, 'v) doc \<Rightarrow> ('k, 'v) doc_entries" where
  "yaml_merge target (Leaf v) = target"
| "yaml_merge target (Mapping source) =
     fold (\<lambda>(k, v) target.
       case map_of target k of
         Some (Mapping sub) \<Rightarrow> AList.update k (Mapping (yaml_merge sub v)) target
       | _ \<Rightarrow> AList.update k v target) source target"

text \<open>At the top the target may be anything; a target that is not a mapping takes no entry.\<close>

definition merge_document :: "(('k, 'v) doc_entries \<Rightarrow> ('k, 'v) doc \<Rightarrow> ('k, 'v) doc_entries) \<Rightarrow> ('k, 'v) doc \<Rightarrow> ('k, 'v) doc \<Rightarrow> ('k, 'v) doc res" where
  "merge_document merge data override =
     (case data of
        Mapping target \<Rightarrow> Inr (Mapping (merge target override))
      | Leaf v \<Rightarrow> (case override of Mapping (_ # _) \<Rightarrow> Inl TypeError | _ \<Rightarrow> Inr data))"

section \<open>The files\<close>

definition merge_settings_file :: "string \<times> ('k, 'v) doc \<Rightarrow> ('k, 'v) doc \<Rightarrow> ('k, 'v) doc res" where
  "merge_settings_file f data =
     (if suffix ''.override.yml'' (fst f) then merge_document (dict_merge False) data (snd f)
      else if suffix ''.remove.yml'' (fst f) then merge_document (dict_merge True) data (snd f)
      else Inr data)"

definition merge_settings :: "(string \<times> ('k, 'v) doc) list \<Rightarrow> ('k, 'v) doc \<Rightarrow> ('k, 'v) doc res" where
  "merge_settings = rfold merge_settings_file"

definition merge_yamls :: "('k, 'v) doc list \<Rightarrow> ('k, 'v) doc \<Rightarrow> ('k, 'v) doc res" where
  "merge_yamls = rfold (\<lambda>override data. merge_document yaml_merge data override)"

end
