(* ===== verification/SettingsSpec.thy ===== *)
theory SettingsSpec
  imports Settings
begin

text \<open>
  What a merge does to the entry at a path: it is replaced by the override's, unless it is a mapping, which stays one whatever
  overrides or removes it; what the override does not mention is left. A removal adds what it does not find.
\<close>

section \<open>Entries and paths\<close>

fun at :: "('k, 'v) doc \<Rightarrow> 'k list \<Rightarrow> ('k, 'v) doc option" where
  "at t [] = Some t"
| "at (Leaf v) (k # p) = None"
| "at (Mapping d) (k # p) = (case map_of d k of None \<Rightarrow> None | Some t \<Rightarrow> at t p)"

text \<open>No mapping has a key twice.\<close>

fun proper :: "('k, 'v) doc \<Rightarrow> bool" where
  "proper (Leaf v) = True"
| "proper (Mapping d) = (distinct (map fst d) \<and> list_all (\<lambda>(k, t). proper t) d)"

lemma proper_entry: "proper (Mapping d) \<Longrightarrow> map_of d k = Some t \<Longrightarrow> proper t"
  by (auto simp: list_all_iff dest!: map_of_SomeD)

definition merged_entry :: "bool \<Rightarrow> ('k, 'v) doc option \<Rightarrow> ('k, 'v) doc option \<Rightarrow> ('k, 'v) doc option" where
  "merged_entry remove old new =
     (case new of
        None \<Rightarrow> old
      | Some v \<Rightarrow>
          (case old of
             Some (Mapping sub) \<Rightarrow> Some (Mapping (dict_merge remove sub v))
           | Some (Leaf x) \<Rightarrow> if remove then None else Some v
           | None \<Rightarrow> Some v))"

lemma merge_entry:
  fixes source :: "('k, 'v) doc_entries" and k :: 'k
  assumes "distinct (map fst source)"
  shows "map_of (dict_merge remove target (Mapping source)) k = merged_entry remove (map_of target k) (map_of source k)"
proof -
  define step where "step = (\<lambda>(k :: 'k, v :: ('k, 'v) doc) (target :: ('k, 'v) doc_entries).
       case map_of target k of
         Some (Mapping sub) \<Rightarrow> AList.update k (Mapping (dict_merge remove sub v)) target
       | old \<Rightarrow> if remove \<and> old \<noteq> None then AList.delete k target else AList.update k v target)"
  have one: "map_of (step (j, v) target) k =
      (if k = j then merged_entry remove (map_of target k) (Some v) else map_of target k)" for j v target
    by (auto simp: step_def merged_entry_def update_conv' delete_conv' split: option.splits doc.splits)
  have "map_of (fold step source target) k = merged_entry remove (map_of target k) (map_of source k)"
    using assms
  proof (induction source arbitrary: target)
    case (Cons e source)
    obtain j v where e: "e = (j, v)" by fastforce
    have "map_of source j = None" using Cons.prems by (auto simp: e map_of_eq_None_iff)
    then show ?case using Cons.IH [of "step e target"] Cons.prems
      by (auto simp: e one merged_entry_def)
  qed (simp add: merged_entry_def)
  then show ?thesis by (simp add: step_def)
qed

lemma at_Mapping: "at (Mapping d) (k # p) = Option.bind (map_of d k) (\<lambda>t. at t p)"
  by (simp split: option.split)

section \<open>Overriding\<close>

definition is_mapping :: "('k, 'v) doc option \<Rightarrow> bool" where
  "is_mapping t \<longleftrightarrow> (\<exists>d. t = Some (Mapping d))"

lemma mapping_survives:
  assumes "proper s" and "is_mapping (at (Mapping t) p)"
  shows "is_mapping (at (Mapping (dict_merge remove t s)) p)"
  using assms
proof (induction p arbitrary: t s)
  case (Cons k p)
  show ?case
  proof (cases s)
    case (Mapping source)
    have entry: "map_of (dict_merge remove t s) k = merged_entry remove (map_of t k) (map_of source k)"
      using Cons.prems(1) by (simp add: Mapping merge_entry del: dict_merge.simps)
    obtain sub where sub: "map_of t k = Some (Mapping sub)"
    proof (cases "map_of t k")
      case (Some x)
      then show thesis using Cons.prems(2) that
        by (cases x; cases p) (auto simp: is_mapping_def)
    qed (use Cons.prems(2) in \<open>simp add: is_mapping_def\<close>)
    show ?thesis
    proof (cases "map_of source k")
      case None
      then show ?thesis using Cons.prems(2) by (simp add: entry merged_entry_def)
    next
      case (Some v)
      have "proper v" using proper_entry [of source k v] Cons.prems(1) Some Mapping by simp
      moreover have "is_mapping (at (Mapping sub) p)" using Cons.prems(2) by (simp add: sub)
      ultimately show ?thesis using Cons.IH by (simp add: entry merged_entry_def sub Some)
    qed
  qed (use Cons.prems(2) in simp)
qed (simp add: is_mapping_def)

lemma override_wins:
  assumes "proper s" and "at s p = Some (Leaf v)" and "p \<noteq> []" and "\<not> is_mapping (at (Mapping t) p)"
  shows "at (Mapping (dict_merge False t s)) p = Some (Leaf v)"
  using assms
proof (induction p arbitrary: t s)
  case (Cons k p)
  obtain source v' where s: "s = Mapping source" "map_of source k = Some v'" "at v' p = Some (Leaf v)"
    using Cons.prems(2) by (cases s) (auto split: option.splits)
  have entry: "map_of (dict_merge False t s) k = merged_entry False (map_of t k) (Some v')"
    using Cons.prems(1) by (simp add: s merge_entry del: dict_merge.simps)
  have proper: "proper v'" using proper_entry [of source k v'] Cons.prems(1) s by simp
  show ?case
  proof (cases "is_mapping (map_of t k)")
    case True
    then obtain sub where sub: "map_of t k = Some (Mapping sub)" by (auto simp: is_mapping_def)
    have "p \<noteq> []" using Cons.prems(4) sub by (auto simp: is_mapping_def)
    moreover have "\<not> is_mapping (at (Mapping sub) p)" using Cons.prems(4) by (simp add: sub)
    ultimately show ?thesis using Cons.IH [OF proper s(3)] by (simp add: entry merged_entry_def sub)
  next
    case False
    then have "merged_entry False (map_of t k) (Some v') = Some v'"
      by (auto simp: merged_entry_def is_mapping_def split: option.split doc.split)
    then show ?thesis by (simp add: entry s(3))
  qed
qed simp

text \<open>The override stops before the end of the path: it has a mapping without the next key.\<close>

definition silent :: "('k, 'v) doc \<Rightarrow> 'k list \<Rightarrow> bool" where
  "silent s p \<longleftrightarrow> (\<exists>q k r d. p = q @ k # r \<and> at s q = Some (Mapping d) \<and> map_of d k = None)"

lemma silent_Cons:
  assumes "silent (Mapping d) (k # p)" and "map_of d k = Some v"
  shows "silent v p"
proof -
  obtain q j r d' where "k # p = q @ j # r" "at (Mapping d) q = Some (Mapping d')" "map_of d' j = None"
    using assms(1) by (auto simp: silent_def)
  then show ?thesis using assms(2) by (cases q) (auto simp: silent_def)
qed

lemma silent_none: "silent s p \<Longrightarrow> at s p = None"
proof (induction p arbitrary: s)
  case (Cons k p)
  then show ?case using silent_Cons by (cases s) (fastforce split: option.splits)+
qed (simp add: silent_def)

lemma silent_kept:
  assumes "proper s" and "silent s p"
  shows "at (Mapping (dict_merge False t s)) p = at (Mapping t) p"
  using assms
proof (induction p arbitrary: t s)
  case (Cons k p)
  obtain source where s: "s = Mapping source"
    using Cons.prems(2) by (cases s) (auto simp: silent_def Cons_eq_append_conv)
  have entry: "map_of (dict_merge False t s) k = merged_entry False (map_of t k) (map_of source k)"
    using Cons.prems(1) by (simp add: s merge_entry del: dict_merge.simps)
  show ?case
  proof (cases "map_of source k")
    case (Some v)
    have "silent v p" using silent_Cons [of source k p v] Cons.prems(2) Some s by simp
    moreover have "proper v" using proper_entry [of source k v] Cons.prems(1) s Some by simp
    ultimately show ?thesis using Cons.IH [of v] silent_none [of v p]
      by (cases p) (auto simp: entry merged_entry_def Some silent_def split: option.split doc.split)
  qed (simp add: entry merged_entry_def)
qed (simp add: silent_def)

text \<open>The script for the IPMI host only overrides, as the one for settings does.\<close>

lemma yaml_merge_overrides: "yaml_merge t s = dict_merge False t s"
proof (induction s arbitrary: t)
  case (Mapping source)
  have "fold (\<lambda>(k, v) target.
       case map_of target k of
         Some (Mapping sub) \<Rightarrow> AList.update k (Mapping (yaml_merge sub v)) target
       | _ \<Rightarrow> AList.update k v target) source t =
     fold (\<lambda>(k, v) target.
       case map_of target k of
         Some (Mapping sub) \<Rightarrow> AList.update k (Mapping (dict_merge False sub v)) target
       | old \<Rightarrow> if False \<and> old \<noteq> None then AList.delete k target else AList.update k v target) source t"
    by (rule fold_cong) (auto simp: Mapping.IH fun_eq_iff split: option.split doc.split)
  then show ?case by simp
qed simp

text \<open>C32: after an override, a path at which the override has a value has this value, unless the target had a mapping there: the
  mapping stays, although the script promises to overwrite at any level. Where the override does not mention a path, the
  target is left as it was. This is so for settings and for the files of the IPMI host.\<close>

theorem override_at_path:
  assumes "proper s"
  shows "(at s p = Some (Leaf v) \<and> p \<noteq> [] \<longrightarrow>
      (if is_mapping (at (Mapping t) p) then is_mapping (at (Mapping (dict_merge False t s)) p)
       else at (Mapping (dict_merge False t s)) p = Some (Leaf v))) \<and>
    (silent s p \<longrightarrow> at (Mapping (dict_merge False t s)) p = at (Mapping t) p) \<and>
    yaml_merge t s = dict_merge False t s"
  using mapping_survives [OF assms] override_wins [OF assms] silent_kept [OF assms] yaml_merge_overrides by auto

text \<open>C33: a removal takes out an entry that is a value; an entry that is a mapping stays as it is when the removal names it with a
  value, and an entry that is not there is added, with what the file for the removal says.\<close>

theorem removal_of_entry:
  assumes "proper (Mapping source)" and "map_of source k = Some (Leaf v)"
  shows "map_of (dict_merge True target (Mapping source)) k =
    (case map_of target k of None \<Rightarrow> Some (Leaf v) | Some (Leaf x) \<Rightarrow> None | Some (Mapping sub) \<Rightarrow> Some (Mapping sub))"
  using assms by (simp add: merge_entry merged_entry_def del: dict_merge.simps(2) split: option.split doc.split)

definition defaults :: "(string, int) doc_entries" where
  "defaults = [(''power'', Mapping [(''limit'', Leaf 500), (''on'', Leaf 1)]), (''boot'', Leaf 0)]"

definition changes :: "(string, int) doc" where
  "changes = Mapping [(''power'', Mapping [(''limit'', Leaf 300)]), (''network'', Leaf 7)]"

theorem override_at_path_witness:
  "at (Mapping (dict_merge False defaults changes)) [''power'', ''limit''] = Some (Leaf 300) \<and>
   at (Mapping (dict_merge False defaults changes)) [''power'', ''on''] = Some (Leaf 1)"
proof -
  have proper: "proper changes" by (simp add: changes_def)
  have "at changes [''power'', ''limit''] = Some (Leaf 300)" "\<not> is_mapping (at (Mapping defaults) [''power'', ''limit''])"
    by (simp_all add: changes_def defaults_def is_mapping_def)
  moreover have "silent changes [''power'', ''on'']"
    unfolding silent_def changes_def
    by (rule exI [of _ "[''power'']"], rule exI [of _ "''on''"], rule exI [of _ "[]"], rule exI [of _ "[(''limit'', Leaf 300)]"]) simp
  moreover have "at (Mapping defaults) [''power'', ''on''] = Some (Leaf 1)" by (simp add: defaults_def)
  ultimately show ?thesis
    using override_at_path [OF proper, of "[''power'', ''limit'']" 300 defaults]
      override_at_path [OF proper, of "[''power'', ''on'']" 0 defaults] by auto
qed

theorem removal_of_entry_witness:
  "map_of (dict_merge True defaults (Mapping [(''power'', Leaf 0)])) ''power'' = map_of defaults ''power'' \<and>
   map_of (dict_merge True defaults (Mapping [(''fan'', Leaf 0)])) ''fan'' = Some (Leaf 0)"
  using removal_of_entry [of "[(''power'', Leaf 0)]" "''power''" 0 defaults]
    removal_of_entry [of "[(''fan'', Leaf 0)]" "''fan''" 0 defaults]
  by (simp add: defaults_def)

end
