(* ===== verification/UserArea.thy ===== *)
theory UserArea
  imports Versions "HOL-Library.Word"
begin

text \<open>
  The user area of the one-time programmable memory, from \<open>otp-user-area.py\<close> of \<open>meta-nvidia\<close>: a file with one value in a
  line, values that the command line replaces, and the bytes that are made from them.
\<close>

section \<open>Numbers and bytes\<close>

definition hex_val :: "char \<Rightarrow> int option" where
  "hex_val c =
     (let n = int (of_char c)
      in if 48 \<le> n \<and> n \<le> 57 then Some (n - 48) else if 97 \<le> n \<and> n \<le> 102 then Some (n - 87)
         else if 65 \<le> n \<and> n \<le> 70 then Some (n - 55) else None)"

text \<open>\<open>int(value, 16)\<close> of a text that starts with 0x: groups of digits with single underscores before or between them.\<close>

definition hex_group :: "string \<Rightarrow> int option" where
  "hex_group s = foldl (\<lambda>n c. Option.bind n (\<lambda>n. map_option (\<lambda>d. n * 16 + d) (hex_val c))) (Some 0) s"

definition int_hex :: "string \<Rightarrow> int res" where
  "int_hex s =
     (let groups = split_on CHR ''_'' (drop 2 (strip s));
          groups = (case groups of [] # (g # gs) \<Rightarrow> g # gs | _ \<Rightarrow> groups)
      in if list_all (\<lambda>g. g \<noteq> []) groups
         then (case hex_group (concat groups) of None \<Rightarrow> Inl (ValueError s) | Some n \<Rightarrow> Inr n)
         else Inl (ValueError s))"

text \<open>\<open>x.to_bytes(n, "big")\<close> and \<open>bytes.fromhex(s)\<close>, which skips the blanks of ASCII only.\<close>

definition ascii_blank :: "char \<Rightarrow> bool" where
  "ascii_blank c \<longleftrightarrow> c \<in> set [CHR '' '', CHR 0x09, CHR 0x0A, CHR 0x0B, CHR 0x0C, CHR 0x0D]"

abbreviation overflow_error :: exn where
  "overflow_error \<equiv> PlainException ''OverflowError''"

fun big_endian :: "nat \<Rightarrow> int \<Rightarrow> 8 word list" where
  "big_endian 0 x = []"
| "big_endian (Suc n) x = big_endian n (x div 256) @ [word_of_int x]"

definition to_bytes :: "int \<Rightarrow> nat \<Rightarrow> 8 word list res" where
  "to_bytes x n = (if 0 \<le> x \<and> x < 256 ^ n then Inr (big_endian n x) else Inl overflow_error)"

fun fromhex :: "string \<Rightarrow> 8 word list res" where
  "fromhex [] = Inr []"
| "fromhex (c # s) =
     (if ascii_blank c then fromhex s
      else case s of
        [] \<Rightarrow> Inl (ValueError [c])
      | d # t \<Rightarrow>
          (case (hex_val c, hex_val d) of
             (Some a, Some b) \<Rightarrow> rbind (fromhex t) (\<lambda>bytes. Inr (word_of_int (a * 16 + b) # bytes))
           | _ \<Rightarrow> Inl (ValueError [c, d])))"

section \<open>Reading the values\<close>

datatype area_value = AInt int | AStr string

definition area_value_of :: "string \<Rightarrow> area_value res" where
  "area_value_of value = (if prefix ''0x'' value then rbind (int_hex value) (\<lambda>n. Inr (AInt n)) else Inr (AStr value))"

definition unpack_error :: exn where
  "unpack_error = ValueError ''unpack''"

definition load_line :: "string \<Rightarrow> (string, area_value) dict \<Rightarrow> (string, area_value) dict res" where
  "load_line line conf =
     (if CHR '':'' \<in> set line
      then (case split_on CHR '':'' line of
              [key, v] \<Rightarrow> rbind (area_value_of (strip v)) (\<lambda>x. Inr (AList.update (strip key) x conf))
            | _ \<Rightarrow> Inl unpack_error)
      else Inr conf)"

definition load_yaml :: "string list \<Rightarrow> (string, area_value) dict res" where
  "load_yaml contents = rfold load_line contents []"

definition patch_one :: "string \<Rightarrow> (string, area_value) dict \<Rightarrow> (string, area_value) dict res" where
  "patch_one p data =
     (case split_on CHR ''='' p of
        [key, v] \<Rightarrow>
          if has_key data key then rbind (area_value_of v) (\<lambda>x. Inr (AList.update key x data))
          else Inl (PlainException (''Unknown key: '' @ key))
      | _ \<Rightarrow> Inl unpack_error)"

definition patch :: "(string, area_value) dict \<Rightarrow> string list \<Rightarrow> (string, area_value) dict res" where
  "patch data patches = rfold patch_one patches data"

section \<open>Writing the area\<close>

datatype area_field = Number nat | Bytes nat

text \<open>The fields in their order, with their lengths; the lengths of the second kind are checked at the end.\<close>

definition mapper :: "(string \<times> area_field) list" where
  "mapper =
     [(''data_format_ver'', Number 1), (''model_id'', Number 2), (''hsm_id'', Number 1), (''model_data_ver'', Number 1),
      (''ik_subca_id'', Number 1), (''tls_subca_id'', Number 1), (''reserved'', Number 1), (''unique_dev_id'', Number 8),
      (''global_key_mat'', Bytes 64), (''dev_id_pkey'', Bytes 48), (''ik_cert_sig'', Bytes 96), (''tls_pkey'', Bytes 48),
      (''tls_cert_sig'', Bytes 96)]"

definition field_bytes :: "area_field \<Rightarrow> area_value \<Rightarrow> 8 word list res" where
  "field_bytes field x =
     (case field of
        Number n \<Rightarrow> (case x of AInt i \<Rightarrow> to_bytes i n | AStr s \<Rightarrow> Inl AttributeError)
      | Bytes n \<Rightarrow> (case x of AStr s \<Rightarrow> fromhex s | AInt i \<Rightarrow> Inl TypeError))"

abbreviation assertion_error :: "string \<Rightarrow> exn" where
  "assertion_error t \<equiv> PlainException (''AssertionError: '' @ t)"

definition map_field :: "(string, area_value) dict \<Rightarrow> string \<times> area_field \<Rightarrow> 8 word list res" where
  "map_field data f =
     (case map_of data (fst f) of
        None \<Rightarrow> Inl (assertion_error (''Invalid key: '' @ fst f))
      | Some x \<Rightarrow> field_bytes (snd f) x)"

definition check_length :: "(string \<times> area_field) \<times> 8 word list \<Rightarrow> unit \<Rightarrow> unit res" where
  "check_length r u =
     (case snd (fst r) of
        Bytes n \<Rightarrow> if length (snd r) = n then Inr () else Inl (assertion_error (''Invalid length for key '' @ fst (fst r)))
      | Number n \<Rightarrow> Inr ())"

definition save_bin :: "(string, area_value) dict \<Rightarrow> 8 word list res" where
  "save_bin data =
     rbind (rmap (map_field data) mapper) (\<lambda>result.
     rbind (rfold check_length (zip mapper result) ()) (\<lambda>_. Inr (concat result)))"

definition make_area :: "string list \<Rightarrow> string list \<Rightarrow> 8 word list res" where
  "make_area contents patches = rbind (load_yaml contents) (\<lambda>data. rbind (patch data patches) save_bin)"

end
