(* ===== verification/UserAreaSpec.thy ===== *)
theory UserAreaSpec
  imports UserArea
begin

text \<open>
  The layout of the user area: it has 368 bytes, each field stands at its place, and what is read back from there is the value
  that was given.
\<close>

section \<open>Bytes\<close>

definition read_number :: "8 word list \<Rightarrow> int" where
  "read_number = foldl (\<lambda>n b. n * 256 + uint b) 0"

lemma length_big_endian [simp]: "length (big_endian n x) = n"
  by (induction n arbitrary: x) auto

lemma read_big_endian: "0 \<le> x \<Longrightarrow> x < 256 ^ n \<Longrightarrow> read_number (big_endian n x) = x"
proof (induction n arbitrary: x)
  case (Suc n)
  have "x div 256 < 256 ^ n" using Suc.prems by simp
  then have "read_number (big_endian n (x div 256)) = x div 256" using Suc by simp
  moreover have "uint (word_of_int x :: 8 word) = x mod 256" by (simp add: uint_word_of_int)
  ultimately show ?case by (simp add: read_number_def)
qed (simp add: read_number_def)

lemma to_bytes_read: "to_bytes x n = Inr bytes \<Longrightarrow> read_number bytes = x"
  by (auto simp: to_bytes_def read_big_endian split: if_splits)

section \<open>The layout\<close>

definition field_length :: "area_field \<Rightarrow> nat" where
  "field_length field = (case field of Number n \<Rightarrow> n | Bytes n \<Rightarrow> n)"

text \<open>The fields with the places they begin at.\<close>

fun places :: "nat \<Rightarrow> (string \<times> area_field) list \<Rightarrow> (string \<times> area_field \<times> nat) list" where
  "places at [] = []"
| "places at ((key, field) # fs) = (key, field, at) # places (at + field_length field) fs"

definition holds_field :: "(string, area_value) dict \<Rightarrow> 8 word list \<Rightarrow> string \<times> area_field \<times> nat \<Rightarrow> bool" where
  "holds_field data bytes p =
     (case p of (key, field, at) \<Rightarrow>
        let part = take (field_length field) (drop at bytes)
        in case field of
             Number n \<Rightarrow> map_of data key = Some (AInt (read_number part))
           | Bytes n \<Rightarrow> \<exists>s. map_of data key = Some (AStr s) \<and> fromhex s = Inr part)"

definition field_ok :: "(string, area_value) dict \<Rightarrow> string \<times> area_field \<Rightarrow> 8 word list \<Rightarrow> bool" where
  "field_ok data f part \<longleftrightarrow> map_field data f = Inr part \<and> length part = field_length (snd f)"

lemma field_ok_holds:
  assumes "field_ok data (key, field) part" and "take (field_length field) (drop at bytes) = part"
  shows "holds_field data bytes (key, field, at)"
proof -
  obtain x where x: "map_of data key = Some x" "field_bytes field x = Inr part"
    using assms(1) by (auto simp: field_ok_def map_field_def split: option.splits)
  then show ?thesis using assms(2) to_bytes_read
    by (auto simp: holds_field_def field_bytes_def split: area_field.splits area_value.splits)
qed

lemma parts_hold:
  assumes "list_all2 (field_ok data) fs parts"
  shows "list_all (holds_field data (before @ concat parts)) (places (length before) fs)"
  using assms
proof (induction fs parts arbitrary: before rule: list_all2_induct)
  case (Cons f fs part parts)
  obtain key field where f: "f = (key, field)" by fastforce
  have len: "length part = field_length field" using Cons.hyps(1) by (simp add: field_ok_def f)
  have "holds_field data (before @ part @ concat parts) (key, field, length before)"
    using Cons.hyps(1) by (intro field_ok_holds) (simp_all add: f len)
  moreover have "list_all (holds_field data (before @ part @ concat parts)) (places (length before + field_length field) fs)"
    using Cons.IH [of "before @ part"] by (simp add: len)
  ultimately show ?case by (simp add: f)
qed simp

lemma rmap_parts: "rmap g fs = Inr parts \<Longrightarrow> list_all2 (\<lambda>f part. g f = Inr part) fs parts"
  by (induction fs arbitrary: parts) (auto simp: rbind_eq_Inr)

lemma checked_lengths:
  assumes "rfold check_length (zip fs parts) () = Inr ()" and "list_all2 (\<lambda>f part. map_field data f = Inr part) fs parts"
  shows "list_all2 (field_ok data) fs parts"
  using assms(2,1)
proof (induction fs parts rule: list_all2_induct)
  case (Cons f fs part parts)
  have "length part = field_length (snd f)"
    using Cons by (cases f)
      (auto simp: rbind_eq_Inr check_length_def field_length_def map_field_def field_bytes_def to_bytes_def
        split: area_field.splits if_splits option.splits area_value.splits)
  then show ?case using Cons by (auto simp: field_ok_def rbind_eq_Inr)
qed simp

lemma parts_length: "list_all2 (field_ok data) fs parts \<Longrightarrow> length (concat parts) = (\<Sum>f\<leftarrow>fs. field_length (snd f))"
  by (induction fs parts rule: list_all2_induct) (auto simp: field_ok_def)

text \<open>C34: when a user area is written it has 368 bytes, and at the place of each field stand the bytes of its value: a number in
  big-endian order that is read back as the number, or the bytes that the text of hexadecimal digits gives.\<close>

theorem saved_layout:
  assumes "save_bin data = Inr bytes"
  shows "length bytes = 368 \<and>
    list_all (holds_field data bytes)
      [(''data_format_ver'', Number 1, 0), (''model_id'', Number 2, 1), (''hsm_id'', Number 1, 3), (''model_data_ver'', Number 1, 4),
       (''ik_subca_id'', Number 1, 5), (''tls_subca_id'', Number 1, 6), (''reserved'', Number 1, 7), (''unique_dev_id'', Number 8, 8),
       (''global_key_mat'', Bytes 64, 16), (''dev_id_pkey'', Bytes 48, 80), (''ik_cert_sig'', Bytes 96, 128),
       (''tls_pkey'', Bytes 48, 224), (''tls_cert_sig'', Bytes 96, 272)]"
proof -
  obtain parts where parts: "rmap (map_field data) mapper = Inr parts" "rfold check_length (zip mapper parts) () = Inr ()"
    and bytes: "bytes = concat parts"
    using assms by (auto simp: save_bin_def rbind_eq_Inr)
  have ok: "list_all2 (field_ok data) mapper parts" by (rule checked_lengths [OF parts(2) rmap_parts [OF parts(1)]])
  have "length bytes = 368" using parts_length [OF ok] by (simp add: bytes mapper_def field_length_def)
  moreover have "list_all (holds_field data bytes) (places 0 mapper)"
    using parts_hold [OF ok, of "[]"] by (simp add: bytes)
  moreover have "places 0 mapper =
      [(''data_format_ver'', Number 1, 0), (''model_id'', Number 2, 1), (''hsm_id'', Number 1, 3), (''model_data_ver'', Number 1, 4),
       (''ik_subca_id'', Number 1, 5), (''tls_subca_id'', Number 1, 6), (''reserved'', Number 1, 7), (''unique_dev_id'', Number 8, 8),
       (''global_key_mat'', Bytes 64, 16), (''dev_id_pkey'', Bytes 48, 80), (''ik_cert_sig'', Bytes 96, 128),
       (''tls_pkey'', Bytes 48, 224), (''tls_cert_sig'', Bytes 96, 272)]" by code_simp
  ultimately show ?thesis by simp
qed

text \<open>A number that is not written with 0x stays a text, which no field for a number takes.\<close>

lemma plain_numbers_fail:
  assumes "map_of data ''data_format_ver'' = Some (AStr s)"
  shows "save_bin data = Inl AttributeError"
  by (simp add: save_bin_def mapper_def map_field_def field_bytes_def assms)

definition sample_area :: "(string, area_value) dict" where
  "sample_area =
     [(''data_format_ver'', AInt 1), (''model_id'', AInt 770), (''hsm_id'', AInt 3), (''model_data_ver'', AInt 1),
      (''ik_subca_id'', AInt 2), (''tls_subca_id'', AInt 2), (''reserved'', AInt 0), (''unique_dev_id'', AInt 66051),
      (''global_key_mat'', AStr (replicate 128 CHR ''a'')), (''dev_id_pkey'', AStr (replicate 96 CHR ''1'')),
      (''ik_cert_sig'', AStr (replicate 192 CHR ''2'')), (''tls_pkey'', AStr (replicate 96 CHR ''3'')),
      (''tls_cert_sig'', AStr (replicate 192 CHR ''4''))]"

lemma fromhex_replicate:
  "hex_val c = Some a \<Longrightarrow> \<not> ascii_blank c \<Longrightarrow> fromhex (replicate (2 * n) c) = Inr (replicate n (word_of_int (a * 16 + a)))"
  by (induction n) (simp_all add: numeral_2_eq_2)

theorem saved_layout_witness:
  "\<exists>bytes. save_bin sample_area = Inr bytes \<and> length bytes = 368 \<and> read_number (take 2 (drop 1 bytes)) = 770"
proof -
  have digits: "hex_val CHR ''a'' = Some 10" "hex_val CHR ''1'' = Some 1" "hex_val CHR ''2'' = Some 2" "hex_val CHR ''3'' = Some 3"
      "hex_val CHR ''4'' = Some 4" "\<not> ascii_blank CHR ''a''" "\<not> ascii_blank CHR ''1''" "\<not> ascii_blank CHR ''2''" "\<not> ascii_blank CHR ''3''"
      "\<not> ascii_blank CHR ''4''" by code_simp+
  have hex: "hex_val c = Some a \<Longrightarrow> \<not> ascii_blank c \<Longrightarrow> fromhex (replicate 128 c) = Inr (replicate 64 (word_of_int (a * 16 + a)))"
      "hex_val c = Some a \<Longrightarrow> \<not> ascii_blank c \<Longrightarrow> fromhex (replicate 96 c) = Inr (replicate 48 (word_of_int (a * 16 + a)))"
      "hex_val c = Some a \<Longrightarrow> \<not> ascii_blank c \<Longrightarrow> fromhex (replicate 192 c) = Inr (replicate 96 (word_of_int (a * 16 + a)))" for c a
    using fromhex_replicate [of c a 64] fromhex_replicate [of c a 48] fromhex_replicate [of c a 96] by simp_all
  have "\<exists>bytes. save_bin sample_area = Inr bytes"
    by (simp add: save_bin_def mapper_def map_field_def sample_area_def field_bytes_def to_bytes_def hex digits check_length_def)
  then obtain bytes where bytes: "save_bin sample_area = Inr bytes" ..
  from saved_layout [OF bytes] bytes show ?thesis
    by (auto simp: holds_field_def sample_area_def field_length_def Let_def)
qed

end
