(* ===== verification/HashServ.thy ===== *)
theory HashServ
  imports Prelude
begin

text \<open>
  The hash equivalence server: \<open>hashserv/server.py\<close> and its tables, \<open>hashserv/sqlite.py\<close>. Tasks are known by a method and a
  task hash. A report says which output a task had, by an output hash; tasks with the same output get the same unique
  hash, which the table of unique hashes keeps for each task.

  A call is a request with the user who makes it, the time and what the server upstream, if there is one, answers meanwhile. Which
  rows the database takes for the oldest is a parameter.
\<close>

section \<open>The tables\<close>

record unihash_row =
  u_method :: string
  u_taskhash :: string
  u_unihash :: string
  u_gc_mark :: string

text \<open>The optional columns are a dictionary.\<close>

record outhash_row =
  o_method :: string
  o_taskhash :: string
  o_outhash :: string
  o_created :: "int option"
  o_info :: "(string, string) dict"

record hs_db =
  db_unihashes :: "unihash_row list"
  db_outhashes :: "outhash_row list"
  db_gc_mark :: "string option"

text \<open>\<open>hs_last\<close>: whether \<open>cursor.lastrowid\<close> of a new cursor is set by an INSERT that is ignored.\<close>

record hs_server =
  hs_read_only :: bool
  hs_anon_perms :: "string list"
  hs_oldest :: "outhash_row list \<Rightarrow> outhash_row option"
  hs_last :: bool

definition is_task :: "string \<Rightarrow> string \<Rightarrow> unihash_row \<Rightarrow> bool" where
  "is_task method taskhash r \<longleftrightarrow> u_method r = method \<and> u_taskhash r = taskhash"

definition get_equivalent :: "string \<Rightarrow> string \<Rightarrow> hs_db \<Rightarrow> unihash_row option" where
  "get_equivalent method taskhash db = List.find (is_task method taskhash) (db_unihashes db)"

text \<open>A row of outputs joined with the row of its task.\<close>

definition joined :: "hs_db \<Rightarrow> outhash_row \<Rightarrow> unihash_row option" where
  "joined db r = get_equivalent (o_method r) (o_taskhash r) db"

definition oldest_joined :: "hs_server \<Rightarrow> (outhash_row \<Rightarrow> bool) \<Rightarrow> hs_db \<Rightarrow> (outhash_row \<times> unihash_row) option" where
  "oldest_joined srv P db =
     (case hs_oldest srv (filter (\<lambda>r. P r \<and> joined db r \<noteq> None) (db_outhashes db)) of
        None \<Rightarrow> None
      | Some r \<Rightarrow> Some (r, the (joined db r)))"

definition get_unihash_by_taskhash_full :: "hs_server \<Rightarrow> string \<Rightarrow> string \<Rightarrow> hs_db \<Rightarrow> (outhash_row \<times> unihash_row) option" where
  "get_unihash_by_taskhash_full srv method taskhash = oldest_joined srv (\<lambda>r. o_method r = method \<and> o_taskhash r = taskhash)"

definition get_unihash_by_outhash :: "hs_server \<Rightarrow> string \<Rightarrow> string \<Rightarrow> hs_db \<Rightarrow> (outhash_row \<times> unihash_row) option" where
  "get_unihash_by_outhash srv method outhash = oldest_joined srv (\<lambda>r. o_method r = method \<and> o_outhash r = outhash)"

definition get_outhash_row :: "hs_server \<Rightarrow> string \<Rightarrow> string \<Rightarrow> hs_db \<Rightarrow> outhash_row option" where
  "get_outhash_row srv method outhash db =
     hs_oldest srv (filter (\<lambda>r. o_method r = method \<and> o_outhash r = outhash) (db_outhashes db))"

definition get_equivalent_for_outhash :: "hs_server \<Rightarrow> string \<Rightarrow> string \<Rightarrow> string \<Rightarrow> hs_db \<Rightarrow> string option" where
  "get_equivalent_for_outhash srv method outhash taskhash db =
     map_option (\<lambda>(r, u). u_unihash u)
       (oldest_joined srv (\<lambda>r. o_method r = method \<and> o_outhash r = outhash \<and> o_taskhash r \<noteq> taskhash) db)"

definition unihash_exists :: "string \<Rightarrow> hs_db \<Rightarrow> bool" where
  "unihash_exists unihash db = list_ex (\<lambda>r. u_unihash r = unihash) (db_unihashes db)"

definition current_mark :: "hs_db \<Rightarrow> string" where
  "current_mark db = (case db_gc_mark db of None \<Rightarrow> [] | Some mark \<Rightarrow> mark)"

definition insert_unihash :: "string \<Rightarrow> string \<Rightarrow> string \<Rightarrow> hs_db \<Rightarrow> hs_db" where
  "insert_unihash method taskhash unihash db =
     (if get_equivalent method taskhash db \<noteq> None then db
      else db\<lparr>db_unihashes := db_unihashes db @
        [\<lparr>u_method = method, u_taskhash = taskhash, u_unihash = unihash, u_gc_mark = current_mark db\<rparr>]\<rparr>)"

definition same_output :: "outhash_row \<Rightarrow> outhash_row \<Rightarrow> bool" where
  "same_output r r' \<longleftrightarrow> o_method r = o_method r' \<and> o_taskhash r = o_taskhash r' \<and> o_outhash r = o_outhash r'"

definition insert_outhash :: "hs_server \<Rightarrow> outhash_row \<Rightarrow> hs_db \<Rightarrow> bool \<times> hs_db" where
  "insert_outhash srv row db =
     (if list_ex (same_output row) (db_outhashes db) then (hs_last srv, db)
      else (True, db\<lparr>db_outhashes := db_outhashes db @ [row]\<rparr>))"

text \<open>Conditions for rows; those on the time of creation are left out. A condition on no column of a table deletes nothing.\<close>

type_synonym condition = "(string, string option) dict"

definition unihash_column :: "unihash_row \<Rightarrow> string \<Rightarrow> string option" where
  "unihash_column r c =
     map_of [(''method'', u_method r), (''taskhash'', u_taskhash r), (''unihash'', u_unihash r), (''gc_mark'', u_gc_mark r)] c"

definition outhash_column :: "outhash_row \<Rightarrow> string \<Rightarrow> string option" where
  "outhash_column r c =
     map_of ([(''method'', o_method r), (''taskhash'', o_taskhash r), (''outhash'', o_outhash r)] @ o_info r) c"

definition unihash_columns :: "string list" where
  "unihash_columns = [''method'', ''taskhash'', ''unihash'', ''gc_mark'']"

definition outhash_columns :: "string list" where
  "outhash_columns = [''method'', ''taskhash'', ''outhash'', ''owner'', ''PN'', ''PV'', ''PR'', ''task'', ''outhash_siginfo'']"

definition condition_of :: "string list \<Rightarrow> condition \<Rightarrow> (string \<times> string) list" where
  "condition_of columns cond =
     concat (map (\<lambda>c. case map_of cond c of Some (Some v) \<Rightarrow> [(c, v)] | _ \<Rightarrow> []) columns)"

definition meets :: "(string \<times> string) list \<Rightarrow> (string \<Rightarrow> string option) \<Rightarrow> bool" where
  "meets where column \<longleftrightarrow> where \<noteq> [] \<and> list_all (\<lambda>(c, v). column c = Some v) where"

definition hs_remove :: "condition \<Rightarrow> hs_db \<Rightarrow> nat \<times> hs_db" where
  "hs_remove cond db =
     (let out = (\<lambda>r. meets (condition_of outhash_columns cond) (outhash_column r));
          uni = (\<lambda>r. meets (condition_of unihash_columns cond) (unihash_column r))
      in (length (filter out (db_outhashes db)) + length (filter uni (db_unihashes db)),
          db\<lparr>db_outhashes := filter (\<lambda>r. \<not> out r) (db_outhashes db), db_unihashes := filter (\<lambda>r. \<not> uni r) (db_unihashes db)\<rparr>))"

definition gc_mark :: "string \<Rightarrow> condition \<Rightarrow> hs_db \<Rightarrow> nat \<times> hs_db" where
  "gc_mark mark cond db =
     (let marked = (\<lambda>r. meets (condition_of unihash_columns cond) (unihash_column r))
      in (length (filter marked (db_unihashes db)),
          db\<lparr>db_gc_mark := Some mark,
            db_unihashes := map (\<lambda>r. if marked r then r\<lparr>u_gc_mark := mark\<rparr> else r) (db_unihashes db)\<rparr>))"

definition gc_sweep :: "hs_db \<Rightarrow> nat \<times> hs_db" where
  "gc_sweep db =
     (let swept = (\<lambda>r. case db_gc_mark db of None \<Rightarrow> False | Some mark \<Rightarrow> u_gc_mark r \<noteq> mark)
      in (length (filter swept (db_unihashes db)),
          db\<lparr>db_unihashes := filter (\<lambda>r. \<not> swept r) (db_unihashes db), db_gc_mark := None\<rparr>))"

definition is_unused :: "int \<Rightarrow> hs_db \<Rightarrow> outhash_row \<Rightarrow> bool" where
  "is_unused oldest db r \<longleftrightarrow> (case o_created r of None \<Rightarrow> False | Some t \<Rightarrow> t < oldest) \<and> joined db r = None"

definition clean_unused :: "int \<Rightarrow> hs_db \<Rightarrow> nat \<times> hs_db" where
  "clean_unused oldest db =
     (length (filter (is_unused oldest db) (db_outhashes db)),
      db\<lparr>db_outhashes := filter (\<lambda>r. \<not> is_unused oldest db r) (db_outhashes db)\<rparr>)"

section \<open>Calls\<close>

record hs_user =
  hu_name :: string
  hu_perms :: "string list"

record unihash_data =
  ud_method :: string
  ud_taskhash :: string
  ud_unihash :: string

text \<open>A row of outputs, with the unique hash unless it was not asked for.\<close>

record out_data =
  od_row :: outhash_row
  od_unihash :: "string option"

record hs_upstream =
  up_taskhash :: "string \<Rightarrow> string \<Rightarrow> unihash_data option"
  up_taskhash_all :: "string \<Rightarrow> string \<Rightarrow> out_data option"
  up_outhash :: "string \<Rightarrow> string \<Rightarrow> string \<Rightarrow> out_data option"
  up_unihash :: "string \<Rightarrow> string \<Rightarrow> string option"
  up_exists :: "string \<Rightarrow> bool"

record report_data =
  rp_method :: string
  rp_taskhash :: string
  rp_outhash :: string
  rp_unihash :: string
  rp_info :: "(string, string) dict"

datatype hs_request =
    Get string string bool
  | GetStream string string
  | Backfill string string
  | GetOuthash string string string bool
  | Exists string
  | Report report_data
  | EquivReport string string string
  | Remove condition
  | GcMark string condition
  | GcSweep string
  | CleanUnused int

record hs_call =
  hc_user :: "hs_user option"
  hc_now :: int
  hc_upstream :: "hs_upstream option"
  hc_request :: hs_request

datatype hs_answer =
    AUnihash "unihash_data option"
  | AOut "out_data option"
  | AText string
  | ACount nat
  | ADone

section \<open>Permissions\<close>

definition user_has_permissions :: "hs_server \<Rightarrow> hs_user option \<Rightarrow> string list \<Rightarrow> bool \<Rightarrow> bool" where
  "user_has_permissions srv user perms allow_anon \<longleftrightarrow>
     allow_anon \<and> (''@all'' \<in> set (hs_anon_perms srv) \<or> set perms \<subseteq> set (hs_anon_perms srv)) \<or>
     (case user of None \<Rightarrow> False | Some u \<Rightarrow> ''@all'' \<in> set (hu_perms u) \<or> set perms \<subseteq> set (hu_perms u))"

abbreviation invoke_error :: exn where
  "invoke_error \<equiv> PlainException ''InvokeError''"

definition permitted :: "hs_server \<Rightarrow> hs_call \<Rightarrow> string list \<Rightarrow> (hs_db, hs_answer) meth \<Rightarrow> (hs_db, hs_answer) meth" where
  "permitted srv c perms m = (if user_has_permissions srv (hc_user c) perms True then m else mraise invoke_error)"

section \<open>Reading and reporting\<close>

definition row_data :: "unihash_row \<Rightarrow> unihash_data" where
  "row_data r = \<lparr>ud_method = u_method r, ud_taskhash = u_taskhash r, ud_unihash = u_unihash r\<rparr>"

definition joined_data :: "outhash_row \<times> unihash_row \<Rightarrow> out_data" where
  "joined_data p = \<lparr>od_row = fst p, od_unihash = Some (u_unihash (snd p))\<rparr>"

text \<open>A missing answer of the server upstream does nothing here, an answer without a unique hash is a \<open>KeyError\<close>.\<close>

definition update_unified :: "hs_server \<Rightarrow> out_data option \<Rightarrow> (hs_db, unit) meth" where
  "update_unified srv d =
     (case d of
        None \<Rightarrow> mreturn ()
      | Some d \<Rightarrow>
          (case od_unihash d of
             None \<Rightarrow> mraise (KeyError ''unihash'')
           | Some u \<Rightarrow>
               mupd (\<lambda>db. snd (insert_outhash srv (od_row d) (insert_unihash (o_method (od_row d)) (o_taskhash (od_row d)) u db)))))"

text \<open>Where the server upstream has no answer, the code reads the method of \<open>None\<close>.\<close>

definition server_unihash :: "hs_server \<Rightarrow> hs_upstream option \<Rightarrow> string \<Rightarrow> string \<Rightarrow> (hs_db, unihash_data option) meth" where
  "server_unihash srv upstream method taskhash =
     mread (\<lambda>db. case get_equivalent method taskhash db of
         Some r \<Rightarrow> mreturn (Some (row_data r))
       | None \<Rightarrow>
           (case upstream of
              None \<Rightarrow> mreturn None
            | Some up \<Rightarrow>
                (case up_taskhash up method taskhash of
                   None \<Rightarrow> mraise TypeError
                 | Some d \<Rightarrow> mthen (mupd (insert_unihash (ud_method d) (ud_taskhash d) (ud_unihash d))) (mreturn (Some d)))))"

definition get_unihash_all :: "hs_server \<Rightarrow> hs_upstream option \<Rightarrow> string \<Rightarrow> string \<Rightarrow> (hs_db, out_data option) meth" where
  "get_unihash_all srv upstream method taskhash =
     mread (\<lambda>db. case get_unihash_by_taskhash_full srv method taskhash db of
         Some p \<Rightarrow> mreturn (Some (joined_data p))
       | None \<Rightarrow>
           (case upstream of
              None \<Rightarrow> mreturn None
            | Some up \<Rightarrow> mthen (update_unified srv (up_taskhash_all up method taskhash)) (mreturn (up_taskhash_all up method taskhash))))"

definition get_outhash :: "hs_server \<Rightarrow> hs_upstream option \<Rightarrow> string \<Rightarrow> string \<Rightarrow> string \<Rightarrow> bool \<Rightarrow> (hs_db, out_data option) meth" where
  "get_outhash srv upstream method outhash taskhash with_unihash =
     mread (\<lambda>db.
       case (if with_unihash then map_option joined_data (get_unihash_by_outhash srv method outhash db)
             else map_option (\<lambda>r. \<lparr>od_row = r, od_unihash = None\<rparr>) (get_outhash_row srv method outhash db)) of
         Some d \<Rightarrow> mreturn (Some d)
       | None \<Rightarrow>
           (case upstream of
              None \<Rightarrow> mreturn None
            | Some up \<Rightarrow> mthen (update_unified srv (up_outhash up method outhash taskhash)) (mreturn (up_outhash up method outhash taskhash))))"

definition report_answer :: "report_data \<Rightarrow> string \<Rightarrow> hs_answer" where
  "report_answer d unihash = AUnihash (Some \<lparr>ud_method = rp_method d, ud_taskhash = rp_taskhash d, ud_unihash = unihash\<rparr>)"

definition report_readonly :: "hs_server \<Rightarrow> hs_call \<Rightarrow> report_data \<Rightarrow> (hs_db, hs_answer) meth" where
  "report_readonly srv c d =
     mbind (get_outhash srv (hc_upstream c) (rp_method d) (rp_outhash d) (rp_taskhash d) True) (\<lambda>info.
       case info of
         None \<Rightarrow> mreturn (report_answer d (rp_unihash d))
       | Some i \<Rightarrow> (case od_unihash i of None \<Rightarrow> mraise (KeyError ''unihash'') | Some u \<Rightarrow> mreturn (report_answer d u)))"

definition report_row :: "hs_call \<Rightarrow> report_data \<Rightarrow> outhash_row" where
  "report_row c d =
     \<lparr>o_method = rp_method d, o_taskhash = rp_taskhash d, o_outhash = rp_outhash d, o_created = Some (hc_now c),
      o_info = (let info = filter (\<lambda>(k, v). k \<in> set [''owner'', ''PN'', ''PV'', ''PR'', ''task'', ''outhash_siginfo'']) (rp_info d)
        in case hc_user c of None \<Rightarrow> info | Some u \<Rightarrow> AList.update ''owner'' (hu_name u) info)\<rparr>"

text \<open>The unique hash of a new output: that of the oldest other task with the output, or of the server upstream, or the reported one.\<close>

definition new_unihash :: "hs_server \<Rightarrow> hs_call \<Rightarrow> report_data \<Rightarrow> hs_db \<Rightarrow> string res" where
  "new_unihash srv c d db =
     (case get_equivalent_for_outhash srv (rp_method d) (rp_outhash d) (rp_taskhash d) db of
        Some u \<Rightarrow> Inr u
      | None \<Rightarrow>
          (case Option.bind (hc_upstream c) (\<lambda>up. up_outhash up (rp_method d) (rp_outhash d) (rp_taskhash d)) of
             None \<Rightarrow> Inr (rp_unihash d)
           | Some o' \<Rightarrow> (case od_unihash o' of None \<Rightarrow> Inl (KeyError ''unihash'') | Some u \<Rightarrow> Inr u)))"

definition store_report :: "hs_server \<Rightarrow> hs_call \<Rightarrow> report_data \<Rightarrow> (hs_db, unit) meth" where
  "store_report srv c d =
     mread (\<lambda>db. case insert_outhash srv (report_row c d) db of (inserted, db) \<Rightarrow>
       mthen (mupd (\<lambda>_. db))
         (if inserted
          then mbind (mlift (new_unihash srv c d db)) (\<lambda>u. mupd (insert_unihash (rp_method d) (rp_taskhash d) u))
          else mreturn ()))"

definition handle_report :: "hs_server \<Rightarrow> hs_call \<Rightarrow> report_data \<Rightarrow> (hs_db, hs_answer) meth" where
  "handle_report srv c d =
     (if hs_read_only srv \<or> \<not> user_has_permissions srv (hc_user c) [''@report''] True then report_readonly srv c d
      else mthen (store_report srv c d)
        (mbind (server_unihash srv (hc_upstream c) (rp_method d) (rp_taskhash d)) (\<lambda>u.
           mreturn (report_answer d (case u of None \<Rightarrow> rp_unihash d | Some u \<Rightarrow> ud_unihash u)))))"

definition handle_equivreport :: "string \<Rightarrow> string \<Rightarrow> string \<Rightarrow> (hs_db, hs_answer) meth" where
  "handle_equivreport method taskhash unihash =
     mthen (mupd (insert_unihash method taskhash unihash))
       (mread (\<lambda>db. mreturn (AUnihash (map_option row_data (get_equivalent method taskhash db)))))"

section \<open>Streams, and the tasks that are fetched later\<close>

definition handle_get_stream :: "hs_call \<Rightarrow> string \<Rightarrow> string \<Rightarrow> (hs_db, hs_answer) meth" where
  "handle_get_stream c method taskhash =
     mread (\<lambda>db. mreturn (AText (case get_equivalent method taskhash db of
         Some r \<Rightarrow> u_unihash r
       | None \<Rightarrow> (case Option.bind (hc_upstream c) (\<lambda>up. up_unihash up method taskhash) of None \<Rightarrow> [] | Some u \<Rightarrow> u))))"

definition handle_exists :: "hs_call \<Rightarrow> string \<Rightarrow> (hs_db, hs_answer) meth" where
  "handle_exists c unihash =
     mread (\<lambda>db. mreturn (AText (if unihash_exists unihash db \<or>
       (case hc_upstream c of None \<Rightarrow> False | Some up \<Rightarrow> up_exists up unihash) then ''true'' else ''false'')))"

definition backfill :: "hs_call \<Rightarrow> string \<Rightarrow> string \<Rightarrow> (hs_db, hs_answer) meth" where
  "backfill c method taskhash =
     (case Option.bind (hc_upstream c) (\<lambda>up. up_taskhash up method taskhash) of
        None \<Rightarrow> mreturn ADone
      | Some d \<Rightarrow> mthen (mupd (insert_unihash (ud_method d) (ud_taskhash d) (ud_unihash d))) (mreturn ADone))"

section \<open>Administration\<close>

definition counted :: "(hs_db \<Rightarrow> nat \<times> hs_db) \<Rightarrow> (hs_db, hs_answer) meth" where
  "counted f db = (case f db of (n, db) \<Rightarrow> (Inr (ACount n), db))"

definition handle_gc_sweep :: "string \<Rightarrow> (hs_db, hs_answer) meth" where
  "handle_gc_sweep mark =
     mread (\<lambda>db. if current_mark db = [] \<or> mark \<noteq> current_mark db then mraise invoke_error else counted gc_sweep)"

text \<open>The time is that of the call minus a negative number of seconds.\<close>

definition handle_clean_unused :: "hs_call \<Rightarrow> int \<Rightarrow> (hs_db, hs_answer) meth" where
  "handle_clean_unused c max_age = counted (clean_unused (hc_now c - (- max_age)))"

section \<open>One call, and many\<close>

text \<open>A server that only reads does not know the requests that write.\<close>

definition only_writable :: "hs_server \<Rightarrow> (hs_db, hs_answer) meth \<Rightarrow> (hs_db, hs_answer) meth" where
  "only_writable srv m = (if hs_read_only srv then mraise (PlainException ''ClientError'') else m)"

definition hs_handle :: "hs_server \<Rightarrow> hs_call \<Rightarrow> (hs_db, hs_answer) meth" where
  "hs_handle srv c =
     (case hc_request c of
        Get method taskhash fetch_all \<Rightarrow> permitted srv c [''@read'']
          (if fetch_all then mbind (get_unihash_all srv (hc_upstream c) method taskhash) (\<lambda>d. mreturn (AOut d))
           else mbind (server_unihash srv (hc_upstream c) method taskhash) (\<lambda>d. mreturn (AUnihash d)))
      | GetStream method taskhash \<Rightarrow> permitted srv c [''@read''] (handle_get_stream c method taskhash)
      | Backfill method taskhash \<Rightarrow> backfill c method taskhash
      | GetOuthash method outhash taskhash with_unihash \<Rightarrow> permitted srv c [''@read'']
          (mbind (get_outhash srv (hc_upstream c) method outhash taskhash with_unihash) (\<lambda>d. mreturn (AOut d)))
      | Exists unihash \<Rightarrow> permitted srv c [''@read''] (handle_exists c unihash)
      | Report d \<Rightarrow> permitted srv c [''@read''] (handle_report srv c d)
      | EquivReport method taskhash unihash \<Rightarrow>
          only_writable srv (permitted srv c [''@read'', ''@report''] (handle_equivreport method taskhash unihash))
      | Remove cond \<Rightarrow> only_writable srv (permitted srv c [''@db-admin''] (counted (hs_remove cond)))
      | GcMark mark cond \<Rightarrow> only_writable srv (permitted srv c [''@db-admin''] (counted (gc_mark mark cond)))
      | GcSweep mark \<Rightarrow> only_writable srv (permitted srv c [''@db-admin''] (handle_gc_sweep mark))
      | CleanUnused max_age \<Rightarrow> only_writable srv (permitted srv c [''@db-admin''] (handle_clean_unused c max_age)))"

fun hs_serve :: "hs_server \<Rightarrow> hs_call list \<Rightarrow> hs_db \<Rightarrow> hs_answer res list \<times> hs_db" where
  "hs_serve srv [] db = ([], db)"
| "hs_serve srv (c # cs) db =
     (case hs_handle srv c db of (answer, db) \<Rightarrow> case hs_serve srv cs db of (answers, db) \<Rightarrow> (answer # answers, db))"

definition empty_db :: hs_db where
  "empty_db = \<lparr>db_unihashes = [], db_outhashes = [], db_gc_mark = None\<rparr>"

end
