(* ===== verification/HashServSpec.thy ===== *)
theory HashServSpec
  imports HashServ
begin

text \<open>
  What the hash equivalence server promises: the unique hash of a task does not change, tasks with the same output have the
  same one as long as tasks are deterministic, and where the server fails.
\<close>

section \<open>What inserting does\<close>

definition settled_as :: "hs_db \<Rightarrow> string \<Rightarrow> string \<Rightarrow> string \<Rightarrow> bool" where
  "settled_as db method taskhash unihash \<longleftrightarrow> map_option u_unihash (get_equivalent method taskhash db) = Some unihash"

text \<open>Every output belongs to a task with a unique hash.\<close>

definition covered :: "hs_db \<Rightarrow> bool" where
  "covered db \<longleftrightarrow> (\<forall>r \<in> set (db_outhashes db). joined db r \<noteq> None)"

lemma find_append: "List.find P (xs @ ys) = (case List.find P xs of None \<Rightarrow> List.find P ys | Some x \<Rightarrow> Some x)"
  by (induction xs) auto

lemma get_after_insert:
  "get_equivalent m t (insert_unihash m' t' u db) =
     (if get_equivalent m t db = None \<and> m = m' \<and> t = t' then Some \<lparr>u_method = m, u_taskhash = t, u_unihash = u, u_gc_mark = current_mark db\<rparr>
      else get_equivalent m t db)"
  by (auto simp: get_equivalent_def insert_unihash_def find_append is_task_def split: option.split)

lemma outhashes_insert [simp]: "db_outhashes (insert_unihash m t u db) = db_outhashes db"
  by (simp add: insert_unihash_def)

lemma get_after_output [simp]: "get_equivalent m t (snd (insert_outhash srv row db)) = get_equivalent m t db"
  by (simp add: get_equivalent_def insert_outhash_def)

lemma outputs_after: "set (db_outhashes (snd (insert_outhash srv row db))) \<subseteq> insert row (set (db_outhashes db))"
  by (auto simp: insert_outhash_def)

lemma covered_insert: "covered db \<Longrightarrow> covered (insert_unihash m t u db)"
  by (auto simp: covered_def joined_def get_after_insert)

lemma covered_output:
  assumes "covered db"
  shows "covered (insert_unihash (o_method row) (o_taskhash row) u (snd (insert_outhash srv row db)))"
    and "covered (snd (insert_outhash srv row (insert_unihash (o_method row) (o_taskhash row) u db)))"
  using assms outputs_after [of srv row db] outputs_after [of srv row "insert_unihash (o_method row) (o_taskhash row) u db"]
  by (auto simp: covered_def joined_def get_after_insert)

lemma settled_unique: "settled_as db m t u \<Longrightarrow> settled_as db m t v \<Longrightarrow> u = v"
  by (auto simp: settled_as_def)

lemma settled_insert: "settled_as db m t u \<Longrightarrow> settled_as (insert_unihash m' t' u' db) m t u"
  by (auto simp: settled_as_def get_after_insert)

lemma settled_output [simp]: "settled_as (snd (insert_outhash srv row db)) m t u = settled_as db m t u"
  by (simp add: settled_as_def)

section \<open>Calls that delete nothing\<close>

definition honest :: "hs_upstream \<Rightarrow> bool" where
  "honest up \<longleftrightarrow> (\<forall>m t d. up_taskhash up m t = Some d \<longrightarrow> ud_method d = m \<and> ud_taskhash d = t) \<and>
     (\<forall>m t d. up_taskhash_all up m t = Some d \<longrightarrow> od_unihash d \<noteq> None) \<and>
     (\<forall>m o' t d. up_outhash up m o' t = Some d \<longrightarrow> od_unihash d \<noteq> None)"

definition plain_call :: "hs_server \<Rightarrow> hs_call \<Rightarrow> bool" where
  "plain_call srv c \<longleftrightarrow>
     (case hc_request c of Remove _ \<Rightarrow> False | GcSweep _ \<Rightarrow> False
        | Report _ \<Rightarrow> user_has_permissions srv (hc_user c) [''@report''] True | _ \<Rightarrow> True) \<and>
     (\<forall>up. hc_upstream c = Some up \<longrightarrow> honest up)"

definition keeps :: "(string \<times> string \<times> string) set \<Rightarrow> hs_db \<Rightarrow> bool" where
  "keeps S db \<longleftrightarrow> covered db \<and> (\<forall>(m, t, u) \<in> S. settled_as db m t u)"

abbreviation kept :: "(string \<times> string \<times> string) set \<Rightarrow> (hs_db, 'a) meth \<Rightarrow> bool" where
  "kept S m \<equiv> stable (keeps S) (\<lambda>_. keeps S) m"

lemma keeps_insert: "keeps S db \<Longrightarrow> keeps S (insert_unihash m t u db)"
  by (auto simp: keeps_def covered_insert settled_insert)

lemma kept_unified:
  assumes "\<And>x. d = Some x \<Longrightarrow> od_unihash x \<noteq> None"
  shows "kept S (update_unified srv d)"
proof (cases d)
  case (Some x)
  then obtain u where "od_unihash x = Some u" using assms by fastforce
  then show ?thesis unfolding update_unified_def Some
    by (simp, intro stable_upd) (auto simp: keeps_def covered_output settled_insert)
qed (simp add: update_unified_def stable_return)

lemma kept_get_unihash: "kept S (server_unihash srv upstream m t)"
  unfolding server_unihash_def
  by (rule stable_read) (auto split: option.split intro!: stable_rules keeps_insert)

lemma kept_get_all:
  assumes "\<And>up. upstream = Some up \<Longrightarrow> honest up"
  shows "kept S (get_unihash_all srv upstream m t)"
  unfolding get_unihash_all_def
  by (rule stable_read) (use assms in \<open>auto split: option.split intro!: stable_return stable_then kept_unified simp: honest_def\<close>)

lemma kept_get_outhash:
  assumes "\<And>up. upstream = Some up \<Longrightarrow> honest up"
  shows "kept S (get_outhash srv upstream m out t w)"
  unfolding get_outhash_def
  by (rule stable_read) (use assms in \<open>auto split: option.split intro!: stable_return stable_then kept_unified simp: honest_def\<close>)

lemma store_report_eval:
  assumes "\<And>up. hc_upstream c = Some up \<Longrightarrow> honest up"
  shows "\<exists>u. store_report srv c d db =
    (Inr (), if fst (insert_outhash srv (report_row c d) db)
       then insert_unihash (rp_method d) (rp_taskhash d) u (snd (insert_outhash srv (report_row c d) db)) else db) \<and>
    new_unihash srv c d (snd (insert_outhash srv (report_row c d) db)) = Inr u"
proof -
  have "\<exists>u. new_unihash srv c d (snd (insert_outhash srv (report_row c d) db)) = Inr u"
  proof -
    have "\<exists>u. od_unihash x = Some u" if "hc_upstream c = Some y" "up_outhash y m o' t = Some x" for x y m o' t
      using assms [OF that(1)] that(2) by (simp add: honest_def)
    then show ?thesis by (fastforce simp: new_unihash_def bind_eq_Some_conv split: option.split)
  qed
  then obtain u where "new_unihash srv c d (snd (insert_outhash srv (report_row c d) db)) = Inr u" ..
  then show ?thesis
    by (intro exI [of _ u]) (auto simp: store_report_def result_simps insert_outhash_def split: prod.splits if_splits)
qed

lemma report_row_fields [simp]: "o_method (report_row c d) = rp_method d" "o_taskhash (report_row c d) = rp_taskhash d"
    "o_outhash (report_row c d) = rp_outhash d"
  by (simp_all add: report_row_def)

lemma kept_store_report:
  assumes "\<And>up. hc_upstream c = Some up \<Longrightarrow> honest up"
  shows "kept S (store_report srv c d)"
proof -
  have "keeps S (snd (store_report srv c d db)) \<and> (\<exists>x. fst (store_report srv c d db) = Inr x)" if "keeps S db" for db
  proof -
    obtain u where "store_report srv c d db =
      (Inr (), if fst (insert_outhash srv (report_row c d) db)
       then insert_unihash (rp_method d) (rp_taskhash d) u (snd (insert_outhash srv (report_row c d) db)) else db)"
      using store_report_eval [OF assms] by blast
    then show ?thesis using that covered_output(1) [of db "report_row c d" u srv]
      by (auto simp: keeps_def settled_insert)
  qed
  then show ?thesis by (auto simp: stable_def triple_def split: prod.splits sum.splits) (metis fst_conv snd_conv Inl_Inr_False)+
qed

lemma kept_lift: "kept S (mlift r)"
  by (rule stable_lift)

lemma kept_read_only_parts:
  "kept S (handle_get_stream c m t)" "kept S (handle_exists c u)" "kept S (backfill c m t)" "kept S (handle_equivreport m t u)"
  unfolding handle_get_stream_def handle_exists_def backfill_def handle_equivreport_def
  by (auto intro!: stable_rules keeps_insert split: option.split)

lemma kept_mark: "kept S (counted (gc_mark mark cond))"
proof -
  have get: "map_option u_unihash (get_equivalent m t (snd (gc_mark mark cond db))) = map_option u_unihash (get_equivalent m t db)" for m t db
  proof -
    have "map_option u_unihash (List.find (is_task m t) (map (\<lambda>r. if Q r then r\<lparr>u_gc_mark := mark\<rparr> else r) rs)) =
        map_option u_unihash (List.find (is_task m t) rs)" for Q rs
      by (induction rs) (auto simp: is_task_def)
    then show ?thesis by (simp add: gc_mark_def get_equivalent_def Let_def)
  qed
  have "keeps S (snd (gc_mark mark cond db))" if "keeps S db" for db
  proof -
    have "db_outhashes (snd (gc_mark mark cond db)) = db_outhashes db" by (simp add: gc_mark_def Let_def)
    moreover have "get_equivalent m t (snd (gc_mark mark cond db)) = None \<longleftrightarrow> get_equivalent m t db = None" for m t
      using get [of m t db] by (metis option.map_disc_iff)
    ultimately show ?thesis using that by (auto simp: keeps_def covered_def joined_def settled_as_def get)
  qed
  then show ?thesis by (auto simp: stable_def triple_def counted_def split: prod.splits dest: snd_eqD) (metis snd_conv)
qed

lemma kept_clean: "kept S (handle_clean_unused c age)"
  by (auto simp: stable_def triple_def handle_clean_unused_def counted_def clean_unused_def keeps_def covered_def joined_def settled_as_def
      get_equivalent_def)

lemma kept_report:
  assumes "\<And>up. hc_upstream c = Some up \<Longrightarrow> honest up"
  shows "kept S (handle_report srv c d)"
  unfolding handle_report_def report_readonly_def
  by (auto intro!: stable_rules kept_get_outhash kept_store_report kept_get_unihash assms split: option.split)

lemma kept_handle:
  assumes "plain_call srv c"
  shows "kept S (hs_handle srv c)"
proof -
  have honest: "\<And>up. hc_upstream c = Some up \<Longrightarrow> honest up" using assms by (simp add: plain_call_def)
  show ?thesis
  proof (cases "hc_request c")
    case (Remove cond)
    then show ?thesis using assms by (simp add: plain_call_def)
  next
    case (GcSweep mark)
    then show ?thesis using assms by (simp add: plain_call_def)
  qed (auto simp: hs_handle_def permitted_def only_writable_def
      intro!: stable_rules kept_read_only_parts kept_mark kept_clean kept_report kept_get_unihash kept_get_all kept_get_outhash honest)
qed

section \<open>Answers\<close>

lemma get_unihash_settled:
  assumes "server_unihash srv upstream m t db = (Inr (Some d), db')" and "\<And>up. upstream = Some up \<Longrightarrow> honest up"
  shows "settled_as db' (ud_method d) (ud_taskhash d) (ud_unihash d) \<and> ud_method d = m \<and> ud_taskhash d = t"
proof (cases "get_equivalent m t db")
  case (Some r)
  then have "is_task m t r" by (auto simp: get_equivalent_def find_Some_iff)
  then show ?thesis using assms(1) Some
    by (auto simp: server_unihash_def result_simps row_data_def settled_as_def is_task_def)
next
  case None
  then obtain up where up: "upstream = Some up" "up_taskhash up m t = Some d"
      "db' = insert_unihash (ud_method d) (ud_taskhash d) (ud_unihash d) db"
    using assms(1) by (auto simp: server_unihash_def result_simps split: option.splits)
  then have "ud_method d = m \<and> ud_taskhash d = t" using assms(2) [OF up(1)] by (simp add: honest_def)
  then show ?thesis by (simp add: up(3) settled_as_def get_after_insert None)
qed

lemma report_settled:
  assumes "handle_report srv c d db = (Inr (AUnihash (Some x)), db')" and "keeps {} db" and "\<not> hs_read_only srv"
    and "user_has_permissions srv (hc_user c) [''@report''] True" and "\<And>up. hc_upstream c = Some up \<Longrightarrow> honest up"
  shows "settled_as db' (ud_method x) (ud_taskhash x) (ud_unihash x) \<and> ud_method x = rp_method d \<and> ud_taskhash x = rp_taskhash d"
proof -
  obtain db1 y where store: "store_report srv c d db = (Inr y, db1)"
    using store_report_eval [where srv = srv and c = c and d = d and db = db, OF assms(5)] by blast
  obtain u where u: "db1 = (if fst (insert_outhash srv (report_row c d) db)
       then insert_unihash (rp_method d) (rp_taskhash d) u (snd (insert_outhash srv (report_row c d) db)) else db)"
    using store_report_eval [where srv = srv and c = c and d = d and db = db, OF assms(5)] store by auto
  have known: "get_equivalent (rp_method d) (rp_taskhash d) db1 \<noteq> None"
  proof (cases "fst (insert_outhash srv (report_row c d) db)")
    case False
    then obtain r where "r \<in> set (db_outhashes db)" "same_output (report_row c d) r"
      by (auto simp: insert_outhash_def list_ex_iff split: if_splits)
    then show ?thesis using assms(2) False by (auto simp: u keeps_def covered_def joined_def same_output_def)
  qed (simp add: u get_after_insert)
  then obtain r where r: "get_equivalent (rp_method d) (rp_taskhash d) db1 = Some r" by blast
  have "is_task (rp_method d) (rp_taskhash d) r" using r by (auto simp: get_equivalent_def find_Some_iff)
  moreover have "x = \<lparr>ud_method = rp_method d, ud_taskhash = rp_taskhash d, ud_unihash = u_unihash r\<rparr> \<and> db' = db1"
    using assms(1,3,4) store r
    by (auto simp: handle_report_def result_simps server_unihash_def report_answer_def row_data_def)
  ultimately show ?thesis using r by (simp add: settled_as_def)
qed

lemma answer_settled:
  assumes "hs_handle srv c db = (Inr (AUnihash (Some x)), db')" and "keeps {} db" and "\<not> hs_read_only srv" and "plain_call srv c"
  shows "settled_as db' (ud_method x) (ud_taskhash x) (ud_unihash x)"
proof -
  have honest: "\<And>up. hc_upstream c = Some up \<Longrightarrow> honest up" using assms(4) by (simp add: plain_call_def)
  show ?thesis
  proof (cases "hc_request c")
    case (Get m t fetch_all)
    then have "server_unihash srv (hc_upstream c) m t db = (Inr (Some x), db')"
      using assms(1) by (auto simp: hs_handle_def permitted_def result_simps split: if_splits prod.splits sum.splits)
    then show ?thesis using get_unihash_settled [OF _ honest] by blast
  next
    case (Report d)
    then have "handle_report srv c d db = (Inr (AUnihash (Some x)), db')" "user_has_permissions srv (hc_user c) [''@report''] True"
      using assms(1,4) by (auto simp: hs_handle_def permitted_def plain_call_def result_simps split: if_splits)
    then show ?thesis using report_settled [OF _ assms(2,3) _ honest] by blast
  next
    case (EquivReport m t u)
    then have "db' = insert_unihash m t u db" "get_equivalent m t db' = Some r \<Longrightarrow> x = row_data r"
        "get_equivalent m t db' \<noteq> None" for r
      using assms(1) by (auto simp: hs_handle_def permitted_def only_writable_def handle_equivreport_def result_simps get_after_insert split: if_splits)
    then obtain r where r: "get_equivalent m t db' = Some r" "x = row_data r" by blast
    then have "is_task m t r" by (auto simp: get_equivalent_def find_Some_iff)
    then show ?thesis using r by (simp add: settled_as_def row_data_def is_task_def)
  qed (use assms(1,4) in \<open>auto simp: hs_handle_def permitted_def only_writable_def plain_call_def result_simps handle_get_stream_def handle_exists_def
      backfill_def counted_def handle_clean_unused_def split: if_splits prod.splits sum.splits option.splits\<close>)
qed

lemma serve_keeps:
  assumes "\<forall>c \<in> set calls. plain_call srv c" and "keeps S db"
  shows "keeps S (snd (hs_serve srv calls db))"
  using assms
proof (induction calls arbitrary: db)
  case (Cons c calls)
  obtain a db1 where step: "hs_handle srv c db = (a, db1)" by fastforce
  have "keeps S db1"
    using kept_handle [of srv c S] Cons.prems step by (cases a) (auto simp: stable_def triple_def)
  then show ?case using Cons by (simp add: step split: prod.splits) (metis snd_conv)
qed simp

lemma serve_settled:
  assumes "\<forall>c \<in> set calls. plain_call srv c" and "keeps {} db" and "\<not> hs_read_only srv"
    and "hs_serve srv calls db = (answers, db')" and "Inr (AUnihash (Some x)) \<in> set answers"
  shows "settled_as db' (ud_method x) (ud_taskhash x) (ud_unihash x)"
  using assms(1,2,4,5)
proof (induction calls arbitrary: db answers)
  case (Cons c calls)
  obtain a db1 where step: "hs_handle srv c db = (a, db1)" by fastforce
  obtain as where rest: "hs_serve srv calls db1 = (as, db')" "answers = a # as"
    using Cons.prems(3) by (auto simp: step split: prod.splits)
  have keeps: "keeps {} db1"
    using kept_handle [of srv c "{}"] Cons.prems step by (cases a) (auto simp: stable_def triple_def)
  show ?case
  proof (cases "Inr (AUnihash (Some x)) \<in> set as")
    case True
    then show ?thesis using Cons.IH [OF _ keeps rest(1)] Cons.prems(1) by simp
  next
    case False
    then have "a = Inr (AUnihash (Some x))" using Cons.prems(4) rest(2) by auto
    then have "settled_as db1 (ud_method x) (ud_taskhash x) (ud_unihash x)"
      using answer_settled [of srv c db x db1] Cons.prems(1,2) assms(3) step by simp
    then have "keeps {(ud_method x, ud_taskhash x, ud_unihash x)} db1" using keeps by (simp add: keeps_def)
    then have "keeps {(ud_method x, ud_taskhash x, ud_unihash x)} db'"
      using serve_keeps [of calls srv _ db1] Cons.prems(1) rest(1) by (metis list.set_intros(2) snd_conv)
    then show ?thesis by (simp add: keeps_def)
  qed
qed simp

text \<open>C35: the unique hash of a task does not change. Whatever is asked by whom, as long as nothing is removed or swept and those who
  report may do so, any two answers that give the unique hash of one task give the same, and it is the one in the table.\<close>

theorem unihash_never_changes:
  assumes "hs_serve srv calls empty_db = (answers, db)" and "\<forall>c \<in> set calls. plain_call srv c" and "\<not> hs_read_only srv"
    and "Inr (AUnihash (Some x)) \<in> set answers" and "Inr (AUnihash (Some y)) \<in> set answers"
    and "ud_method x = ud_method y" and "ud_taskhash x = ud_taskhash y"
  shows "ud_unihash x = ud_unihash y \<and> settled_as db (ud_method x) (ud_taskhash x) (ud_unihash x)"
proof -
  have "keeps {} empty_db" by (simp add: keeps_def covered_def empty_db_def)
  note settled = serve_settled [OF assms(2) this assms(3,1)]
  show ?thesis using settled [OF assms(4)] settled [OF assms(5)] assms(6,7) by (auto simp: settled_as_def)
qed

section \<open>Tasks with the same output\<close>

definition picks :: "hs_server \<Rightarrow> bool" where
  "picks srv \<longleftrightarrow> (\<forall>rs. case hs_oldest srv rs of None \<Rightarrow> rs = [] | Some r \<Rightarrow> r \<in> set rs)"

lemma picksD: "picks srv \<Longrightarrow> case hs_oldest srv rs of None \<Rightarrow> rs = [] | Some r \<Rightarrow> r \<in> set rs"
  unfolding picks_def by (erule allE)

text \<open>A report of a task whose output is a function of the task.\<close>

definition report_of :: "hs_server \<Rightarrow> (string \<Rightarrow> string \<Rightarrow> string) \<Rightarrow> hs_call \<Rightarrow> report_data \<Rightarrow> bool" where
  "report_of srv output c d \<longleftrightarrow> hc_request c = Report d \<and> rp_outhash d = output (rp_method d) (rp_taskhash d) \<and>
     hc_upstream c = None \<and> user_has_permissions srv (hc_user c) [''@read''] True \<and> user_has_permissions srv (hc_user c) [''@report''] True"

definition reported :: "hs_db \<Rightarrow> string \<Rightarrow> string \<Rightarrow> bool" where
  "reported db m t \<longleftrightarrow> (\<exists>r \<in> set (db_outhashes db). o_method r = m \<and> o_taskhash r = t)"

text \<open>The tables after reports of such tasks: tasks with the same output have the same unique hash.\<close>

definition classes :: "(string \<Rightarrow> string \<Rightarrow> string) \<Rightarrow> hs_db \<Rightarrow> bool" where
  "classes output db \<longleftrightarrow> (\<forall>r \<in> set (db_outhashes db). o_outhash r = output (o_method r) (o_taskhash r)) \<and>
     (\<forall>m t. get_equivalent m t db \<noteq> None \<longleftrightarrow> reported db m t) \<and>
     (\<forall>m t t' u. output m t = output m t' \<and> settled_as db m t u \<and> reported db m t' \<longrightarrow> settled_as db m t' u)"

lemma classes_known: "classes output db \<Longrightarrow> get_equivalent m t db \<noteq> None \<longleftrightarrow> reported db m t"
  unfolding classes_def by blast

lemma classes_output: "classes output db \<Longrightarrow> r \<in> set (db_outhashes db) \<Longrightarrow> o_outhash r = output (o_method r) (o_taskhash r)"
  unfolding classes_def by blast

lemma classes_covered: "classes output db \<Longrightarrow> covered db"
  by (auto simp: classes_def covered_def joined_def reported_def)

lemma new_unihash_fits:
  assumes "picks srv" and "classes output db" and "report_of srv output c d" and "\<not> reported db (rp_method d) (rp_taskhash d)"
  shows "\<exists>u. new_unihash srv c d (snd (insert_outhash srv (report_row c d) db)) = Inr u \<and>
    (\<forall>t. output (rp_method d) t = rp_outhash d \<and> reported db (rp_method d) t \<longrightarrow> settled_as db (rp_method d) t u)"
proof -
  define db1 where "db1 = snd (insert_outhash srv (report_row c d) db)"
  define P where "P = (\<lambda>r :: outhash_row. o_method r = rp_method d \<and> o_outhash r = rp_outhash d \<and> o_taskhash r \<noteq> rp_taskhash d)"
  have equiv: "get_equivalent m t db1 = get_equivalent m t db" for m t by (simp add: db1_def)
  then have joined: "joined db1 r = joined db r" for r by (simp add: joined_def)
  have rows: "filter (\<lambda>r. P r \<and> joined db1 r \<noteq> None) (db_outhashes db1) = filter (\<lambda>r. P r \<and> joined db r \<noteq> None) (db_outhashes db)"
    unfolding joined by (simp add: db1_def insert_outhash_def P_def)
  have query: "get_equivalent_for_outhash srv (rp_method d) (rp_outhash d) (rp_taskhash d) db1 =
      (case hs_oldest srv (filter (\<lambda>r. P r \<and> joined db r \<noteq> None) (db_outhashes db)) of
         None \<Rightarrow> None | Some r \<Rightarrow> Some (u_unihash (the (joined db r))))"
    unfolding get_equivalent_for_outhash_def oldest_joined_def P_def [symmetric] joined rows [unfolded joined] by (simp split: option.split)
  show ?thesis
  proof (cases "hs_oldest srv (filter (\<lambda>r. P r \<and> joined db r \<noteq> None) (db_outhashes db))")
    case None
    then have none: "filter (\<lambda>r. P r \<and> joined db r \<noteq> None) (db_outhashes db) = []"
      using picksD [OF assms(1), of "filter (\<lambda>r. P r \<and> joined db r \<noteq> None) (db_outhashes db)"] by (simp only: None option.case)
    have "\<not> reported db (rp_method d) t" if "output (rp_method d) t = rp_outhash d" for t
    proof
      assume "reported db (rp_method d) t"
      then obtain r where r: "r \<in> set (db_outhashes db)" "o_method r = rp_method d" "o_taskhash r = t" by (auto simp: reported_def)
      then have "P r" "joined db r \<noteq> None"
        using assms(2,4) that by (auto simp: P_def classes_def joined_def reported_def)
      then show False using r(1) none by (auto simp: filter_empty_conv)
    qed
    moreover have "new_unihash srv c d db1 = Inr (rp_unihash d)"
      unfolding new_unihash_def query None using assms(3) by (simp add: report_of_def)
    ultimately show ?thesis by (auto simp: db1_def)
  next
    case (Some r)
    have "r \<in> set (filter (\<lambda>r. P r \<and> joined db r \<noteq> None) (db_outhashes db))"
      using picksD [OF assms(1), of "filter (\<lambda>r. P r \<and> joined db r \<noteq> None) (db_outhashes db)"] by (simp only: Some option.case)
    then have r: "r \<in> set (db_outhashes db)" "P r" "joined db r \<noteq> None" by auto
    then obtain row where row: "joined db r = Some row" by blast
    have "new_unihash srv c d db1 = Inr (u_unihash row)"
      unfolding new_unihash_def query Some by (simp add: row)
    moreover have "settled_as db (rp_method d) (o_taskhash r) (u_unihash row)" "output (rp_method d) (o_taskhash r) = rp_outhash d"
      using r row assms(2) by (auto simp: settled_as_def joined_def P_def classes_def)
    ultimately show ?thesis using assms(2) unfolding db1_def classes_def by metis
  qed
qed

lemma classes_new:
  assumes "classes output db" and "\<not> reported db m t" and "output m t = o_outhash row" and "o_method row = m" and "o_taskhash row = t"
    and "\<forall>t'. output m t' = o_outhash row \<and> reported db m t' \<longrightarrow> settled_as db m t' u"
    and "db' = insert_unihash m t u (snd (insert_outhash srv row db))"
  shows "classes output db' \<and> settled_as db' m t u \<and> reported db' m t"
proof -
  have none: "get_equivalent m t db = None" using classes_known [OF assms(1), of m t] assms(2) by blast
  have fresh: "\<not> list_ex (same_output row) (db_outhashes db)"
    using assms(2,4,5) by (auto simp: list_ex_iff same_output_def reported_def)
  have outs: "db_outhashes db' = db_outhashes db @ [row]" by (simp add: assms(7) insert_outhash_def fresh)
  have rep: "reported db' m' t' \<longleftrightarrow> reported db m' t' \<or> m' = m \<and> t' = t" for m' t'
    using assms(4,5) by (auto simp: reported_def outs)
  have get: "get_equivalent m' t' db' = (if m' = m \<and> t' = t then Some \<lparr>u_method = m, u_taskhash = t, u_unihash = u, u_gc_mark = current_mark (snd (insert_outhash srv row db))\<rparr>
      else get_equivalent m' t' db)" for m' t'
    by (auto simp: assms(7) get_after_insert none)
  have set: "settled_as db' m' t' v \<longleftrightarrow> (if m' = m \<and> t' = t then v = u else settled_as db m' t' v)" for m' t' v
    by (auto simp: settled_as_def get)
  have old: "settled_as db m' t' v \<Longrightarrow> reported db m' t'" for m' t' v
    using assms(1) by (auto simp: settled_as_def classes_def)
  have classes: "settled_as db m' t2 v" if "output m' t1 = output m' t2" "settled_as db m' t1 v" "reported db m' t2" for m' t1 t2 v
    using assms(1) that by (auto simp: classes_def)
  have "settled_as db' m' t2 v" if same: "output m' t1 = output m' t2" "settled_as db' m' t1 v" "reported db' m' t2" for m' t1 t2 v
  proof -
    consider "m' = m \<and> t1 = t" "m' = m \<and> t2 = t" | "m' = m \<and> t1 = t" "\<not> (m' = m \<and> t2 = t)"
      | "\<not> (m' = m \<and> t1 = t)" "m' = m \<and> t2 = t" | "\<not> (m' = m \<and> t1 = t)" "\<not> (m' = m \<and> t2 = t)" by blast
    then show ?thesis
    proof cases
      case 1 then show ?thesis using same by simp
    next
      case 2 then show ?thesis using same assms(3,6) by (simp add: set rep)
    next
      case 3
      then have "settled_as db m t1 v" using same(2) by (simp add: set)
      moreover from this have "settled_as db m t1 u" using assms(3,6) same(1) 3 old by simp
      ultimately have "v = u" by (rule settled_unique)
      then show ?thesis using 3 by (simp add: set)
    next
      case 4
      then have "settled_as db m' t1 v" "reported db m' t2" using same by (auto simp: set rep)
      then show ?thesis using classes [OF same(1)] 4(2) by (auto simp: set)
    qed
  qed
  moreover have "get_equivalent m' t' db' \<noteq> None \<longleftrightarrow> reported db' m' t'" for m' t'
    using classes_known [OF assms(1), of m' t'] by (auto simp: get rep)
  moreover have "\<forall>r \<in> set (db_outhashes db'). o_outhash r = output (o_method r) (o_taskhash r)"
    using classes_output [OF assms(1)] assms(3-5) by (auto simp: outs)
  ultimately have "classes output db'" unfolding classes_def by blast
  then show ?thesis by (simp add: set rep)
qed

lemma report_classes:
  assumes "picks srv" and "classes output db" and "report_of srv output c d" and "\<not> hs_read_only srv"
  shows "\<exists>u db'. hs_handle srv c db = (Inr (report_answer d u), db') \<and> classes output db' \<and>
    settled_as db' (rp_method d) (rp_taskhash d) u \<and> reported db' (rp_method d) (rp_taskhash d)"
proof -
  have plain: "\<And>up. hc_upstream c = Some up \<Longrightarrow> honest up" using assms(3) by (simp add: report_of_def)
  obtain u where store: "store_report srv c d db =
    (Inr (), if fst (insert_outhash srv (report_row c d) db)
       then insert_unihash (rp_method d) (rp_taskhash d) u (snd (insert_outhash srv (report_row c d) db)) else db)"
    and u: "new_unihash srv c d (snd (insert_outhash srv (report_row c d) db)) = Inr u"
    using store_report_eval [where srv = srv and c = c and d = d and db = db, OF plain] by blast
  define db' where "db' = (if fst (insert_outhash srv (report_row c d) db)
       then insert_unihash (rp_method d) (rp_taskhash d) u (snd (insert_outhash srv (report_row c d) db)) else db)"
  have out: "rp_outhash d = output (rp_method d) (rp_taskhash d)" using assms(3) by (simp add: report_of_def)
  have after: "classes output db' \<and> reported db' (rp_method d) (rp_taskhash d)"
  proof (cases "reported db (rp_method d) (rp_taskhash d)")
    case True
    then obtain r where "r \<in> set (db_outhashes db)" "o_method r = rp_method d" "o_taskhash r = rp_taskhash d"
      by (auto simp: reported_def)
    then have "list_ex (same_output (report_row c d)) (db_outhashes db)"
      using classes_output [OF assms(2)] out by (auto simp: list_ex_iff same_output_def intro!: bexI [of _ r])
    moreover have "get_equivalent (rp_method d) (rp_taskhash d) db \<noteq> None" using classes_known [OF assms(2)] True by blast
    ultimately have "db' = db" by (simp add: db'_def insert_outhash_def insert_unihash_def)
    then show ?thesis using True assms(2) by simp
  next
    case False
    then have "\<not> list_ex (same_output (report_row c d)) (db_outhashes db)"
      by (auto simp: list_ex_iff same_output_def reported_def)
    then have "db' = insert_unihash (rp_method d) (rp_taskhash d) u (snd (insert_outhash srv (report_row c d) db))"
      by (simp add: db'_def insert_outhash_def)
    moreover have "\<forall>t. output (rp_method d) t = o_outhash (report_row c d) \<and> reported db (rp_method d) t \<longrightarrow> settled_as db (rp_method d) t u"
      using new_unihash_fits [OF assms(1-3) False] u by simp
    ultimately show ?thesis
      using classes_new [OF assms(2) False, of "report_row c d" u db' srv] out by simp
  qed
  then have "get_equivalent (rp_method d) (rp_taskhash d) db' \<noteq> None" using classes_known by blast
  then obtain r where r: "get_equivalent (rp_method d) (rp_taskhash d) db' = Some r" by blast
  have "hs_handle srv c db = (Inr (report_answer d (u_unihash r)), db')"
    using assms(3,4) store r unfolding db'_def [symmetric]
    by (auto simp: hs_handle_def permitted_def report_of_def handle_report_def result_simps server_unihash_def row_data_def)
  then show ?thesis using after r by (auto simp: settled_as_def)
qed

lemma reported_kept:
  assumes "report_of srv output c d" and "\<not> hs_read_only srv" and "hs_handle srv c db = (a, db')" and "reported db m t"
  shows "reported db' m t"
proof -
  have plain: "\<And>up. hc_upstream c = Some up \<Longrightarrow> honest up" using assms(1) by (simp add: report_of_def)
  obtain u where store: "store_report srv c d db =
    (Inr (), if fst (insert_outhash srv (report_row c d) db)
       then insert_unihash (rp_method d) (rp_taskhash d) u (snd (insert_outhash srv (report_row c d) db)) else db)"
    using store_report_eval [where srv = srv and c = c and d = d and db = db, OF plain] by blast
  have "db' = snd (store_report srv c d db)"
    using assms(1-3) store
    by (auto simp: hs_handle_def permitted_def report_of_def handle_report_def result_simps server_unihash_def split: option.splits)
  then show ?thesis using assms(4) by (auto simp: store reported_def insert_outhash_def)
qed

lemma serve_classes:
  assumes "picks srv" and "\<not> hs_read_only srv" and "list_all2 (report_of srv output) calls ds" and "classes output db"
  shows "\<exists>us db'. hs_serve srv calls db = (map2 (\<lambda>d u. Inr (report_answer d u)) ds us, db') \<and> length us = length ds \<and> classes output db' \<and>
    (\<forall>m t. reported db m t \<longrightarrow> reported db' m t) \<and>
    (\<forall>i < length ds. settled_as db' (rp_method (ds ! i)) (rp_taskhash (ds ! i)) (us ! i) \<and>
       reported db' (rp_method (ds ! i)) (rp_taskhash (ds ! i)))"
  using assms(3,4)
proof (induction calls ds arbitrary: db rule: list_all2_induct)
  case Nil
  then show ?case by (intro exI [of _ "[]"] exI [of _ db]) simp
next
  case (Cons c calls d ds)
  obtain u db1 where first: "hs_handle srv c db = (Inr (report_answer d u), db1)" "classes output db1"
      "settled_as db1 (rp_method d) (rp_taskhash d) u" "reported db1 (rp_method d) (rp_taskhash d)"
    using report_classes [OF assms(1) Cons.prems Cons.hyps(1) assms(2)] by blast
  obtain us db' where rest: "hs_serve srv calls db1 = (map2 (\<lambda>d u. Inr (report_answer d u)) ds us, db')" "length us = length ds"
      "classes output db'" "\<forall>m t. reported db1 m t \<longrightarrow> reported db' m t"
      "\<forall>i < length ds. settled_as db' (rp_method (ds ! i)) (rp_taskhash (ds ! i)) (us ! i) \<and>
         reported db' (rp_method (ds ! i)) (rp_taskhash (ds ! i))"
    using Cons.IH [OF first(2)] by blast
  have "\<forall>c \<in> set calls. plain_call srv c"
    using Cons.hyps(2) by (auto simp: list_all2_conv_all_nth in_set_conv_nth report_of_def plain_call_def)
  moreover have "keeps {(rp_method d, rp_taskhash d, u)} db1" using first(2,3) by (simp add: keeps_def classes_covered)
  ultimately have "keeps {(rp_method d, rp_taskhash d, u)} db'" using serve_keeps [of calls srv _ db1] by (simp add: rest(1))
  then have "settled_as db' (rp_method d) (rp_taskhash d) u" by (simp add: keeps_def)
  moreover have "\<forall>m t. reported db m t \<longrightarrow> reported db' m t"
    using reported_kept [OF Cons.hyps(1) assms(2) first(1)] rest(4) by blast
  ultimately show ?case using first(1,4) rest
    by (intro exI [of _ "u # us"] exI [of _ db']) (auto simp: less_Suc_eq_0_disj)
qed

text \<open>C36: when the output of each task is a function of the task, tasks with the same output get the same unique hash, in whatever
  order they are reported, by whom, and whichever of several rows the database takes for the oldest.\<close>

theorem same_output_same_unihash:
  assumes "picks srv" and "\<not> hs_read_only srv" and "list_all2 (report_of srv output) calls ds"
  shows "\<exists>us. fst (hs_serve srv calls empty_db) = map2 (\<lambda>d u. Inr (report_answer d u)) ds us \<and> length us = length ds \<and>
    (\<forall>i < length ds. \<forall>j < length ds. rp_method (ds ! i) = rp_method (ds ! j) \<and> rp_outhash (ds ! i) = rp_outhash (ds ! j) \<longrightarrow>
       us ! i = us ! j)"
proof -
  have "classes output empty_db"
    by (simp add: classes_def empty_db_def reported_def get_equivalent_def)
  then obtain us db where us: "hs_serve srv calls empty_db = (map2 (\<lambda>d u. Inr (report_answer d u)) ds us, db)" "length us = length ds"
      and classes: "classes output db"
      and settled: "\<And>i. i < length ds \<Longrightarrow> settled_as db (rp_method (ds ! i)) (rp_taskhash (ds ! i)) (us ! i)"
        "\<And>i. i < length ds \<Longrightarrow> reported db (rp_method (ds ! i)) (rp_taskhash (ds ! i))"
    using serve_classes [OF assms] by blast
  have out: "rp_outhash (ds ! i) = output (rp_method (ds ! i)) (rp_taskhash (ds ! i))" if "i < length ds" for i
    using assms(3) that by (auto simp: list_all2_conv_all_nth report_of_def)
  have "us ! i = us ! j" if ij: "i < length ds" "j < length ds" "rp_method (ds ! i) = rp_method (ds ! j)" "rp_outhash (ds ! i) = rp_outhash (ds ! j)" for i j
  proof (rule settled_unique [OF _ settled(1) [OF ij(2)]])
    show "settled_as db (rp_method (ds ! j)) (rp_taskhash (ds ! j)) (us ! i)"
      using classes settled(1) [OF ij(1)] settled(2) [OF ij(2)] out [OF ij(1)] out [OF ij(2)] ij(3,4) by (simp add: classes_def)
  qed
  then show ?thesis using us by auto
qed

section \<open>Where it fails\<close>

text \<open>C37: the age that is given when unused outputs are cleaned has no effect: the more seconds they may be old, the later they may
  have been made. Every output of a task without a unique hash that was made before the call is deleted.\<close>

theorem clean_unused_ignores_age:
  assumes "hc_request c = CleanUnused max_age" and "0 \<le> max_age" and "user_has_permissions srv (hc_user c) [''@db-admin''] True"
    and "\<not> hs_read_only srv" and "r \<in> set (db_outhashes db)" and "joined db r = None" and "o_created r = Some time" and "time < hc_now c"
  shows "\<exists>n db'. hs_handle srv c db = (Inr (ACount n), db') \<and> r \<notin> set (db_outhashes db')"
  using assms by (auto simp: hs_handle_def permitted_def only_writable_def handle_clean_unused_def counted_def clean_unused_def is_unused_def)

text \<open>A task that neither the server nor the one upstream knows.\<close>

lemma unknown_task_fails:
  assumes "get_equivalent m t db = None" and "up_taskhash up m t = None"
  shows "server_unihash srv (Some up) m t db = (Inl TypeError, db)"
  using assms by (simp add: server_unihash_def result_simps)

section \<open>Calls\<close>

definition sample_server :: hs_server where
  "sample_server = \<lparr>hs_read_only = False, hs_anon_perms = [''@read'', ''@report'', ''@db-admin''],
     hs_oldest = (\<lambda>rs. case rs of [] \<Rightarrow> None | r # _ \<Rightarrow> Some r), hs_last = False\<rparr>"

definition sample_report :: "string \<Rightarrow> report_data" where
  "sample_report t = \<lparr>rp_method = ''outhash'', rp_taskhash = t, rp_outhash = ''out'', rp_unihash = t, rp_info = []\<rparr>"

definition sample_call :: "hs_request \<Rightarrow> hs_call" where
  "sample_call r = \<lparr>hc_user = None, hc_now = 10, hc_upstream = None, hc_request = r\<rparr>"

lemma sample_may: "user_has_permissions sample_server (hc_user (sample_call r)) [p] True \<longleftrightarrow> p \<in> set [''@read'', ''@report'', ''@db-admin'']"
  by (auto simp: user_has_permissions_def sample_server_def sample_call_def)

lemma sample_anyone: "user_has_permissions sample_server None [p] True \<longleftrightarrow> p \<in> set [''@read'', ''@report'', ''@db-admin'']"
  by (auto simp: user_has_permissions_def sample_server_def)

theorem unihash_never_changes_witness:
  "\<exists>answers db x. hs_serve sample_server [sample_call (Report (sample_report ''t'')), sample_call (Get ''outhash'' ''t'' False)] empty_db = (answers, db) \<and>
     answers = [Inr (AUnihash (Some x)), Inr (AUnihash (Some x))] \<and> settled_as db ''outhash'' ''t'' (ud_unihash x)"
proof -
  let ?calls = "[sample_call (Report (sample_report ''t'')), sample_call (Get ''outhash'' ''t'' False)]"
  let ?x = "\<lparr>ud_method = ''outhash'', ud_taskhash = ''t'', ud_unihash = ''t''\<rparr>"
  have plain: "\<forall>c \<in> set ?calls. plain_call sample_server c"
    by (simp add: plain_call_def sample_call_def sample_anyone)
  have answers: "fst (hs_serve sample_server ?calls empty_db) = [Inr (AUnihash (Some ?x)), Inr (AUnihash (Some ?x))]"
    by code_simp
  then obtain db where served: "hs_serve sample_server ?calls empty_db = ([Inr (AUnihash (Some ?x)), Inr (AUnihash (Some ?x))], db)"
    by (metis prod.collapse)
  have "settled_as db ''outhash'' ''t'' (ud_unihash ?x)"
    using unihash_never_changes [OF served plain, of ?x ?x] by (simp add: sample_server_def)
  then show ?thesis using served by blast
qed

theorem same_output_same_unihash_witness:
  "\<exists>u v. fst (hs_serve sample_server [sample_call (Report (sample_report ''t'')), sample_call (Report (sample_report ''s''))] empty_db) =
     [Inr (report_answer (sample_report ''t'') u), Inr (report_answer (sample_report ''s'') v)] \<and> u = v"
proof -
  let ?ds = "[sample_report ''t'', sample_report ''s'']"
  have picks: "picks sample_server" by (simp add: picks_def sample_server_def split: list.split)
  have reports: "list_all2 (report_of sample_server (\<lambda>m t. ''out'')) (map (\<lambda>d. sample_call (Report d)) ?ds) ?ds"
    by (simp add: report_of_def sample_call_def sample_report_def sample_anyone)
  obtain us where us: "fst (hs_serve sample_server (map (\<lambda>d. sample_call (Report d)) ?ds) empty_db) =
      map2 (\<lambda>d u. Inr (report_answer d u)) ?ds us" "length us = length ?ds" "us ! 0 = us ! 1"
    using same_output_same_unihash [OF picks _ reports] by (auto simp: sample_server_def sample_report_def)
  obtain u v where "us = [u, v]" using us(2) by (auto simp: length_Suc_conv)
  then show ?thesis using us(1,3) by auto
qed

definition old_row :: outhash_row where
  "old_row = \<lparr>o_method = ''outhash'', o_taskhash = ''t'', o_outhash = ''out'', o_created = Some 9, o_info = []\<rparr>"

theorem clean_unused_ignores_age_witness:
  "\<exists>n db'. hs_handle sample_server (sample_call (CleanUnused 1000)) (empty_db\<lparr>db_outhashes := [old_row]\<rparr>) = (Inr (ACount n), db') \<and>
     old_row \<notin> set (db_outhashes db')"
  by (rule clean_unused_ignores_age [where max_age = 1000 and time = 9])
    (simp_all add: sample_anyone sample_call_def old_row_def joined_def get_equivalent_def empty_db_def, simp add: sample_server_def)

end
