(* ===== verification/Spec2Isabelle.thy ===== *)
theory Spec2Isabelle
  imports Prelude PyString Versions DepStrings DataCache Providers TaskData TaskFailure TaskResolve ResolveEnds
    Tid TaskGraph RunQueueData RecursiveDeps ActiveTasks RunQueuePrepare Scheduler
    ExecState SceneQueue SceneBuild ExecTasks Migrations Execute RunQueue ExecSample ExecFrames ExecInvariant
    ExecSafety ExecOutcome ExecTermination
    VarText VarStore VarLookup VarUpdate VarOverrides VarFrames VarCache VarTable
    Regex ConfParse BBParse TaskTable TaskSpec
    Statements Paths ParseFiles ParseEval AssignSpec Events Recipes
    SigData SigSpec SigGen SigLocks SigGenSpec SigUnihash PRServ PRSpec
    Firewall FirewallSpec Settings SettingsSpec UserArea UserAreaSpec
    HashServ HashServSpec
begin

text \<open>
  \<^bold>\<open>What this library is\<close>. A verification library of the BitBake core, \<open>src/poky/bitbake/lib/bb\<close>, of the parts of
  \<open>src/poky/meta/lib/oe\<close> and of \<open>src/poky/bitbake/lib\<close> that decide with it what is built, and of the small
  programs of the layers in this repository that have logic of their own.

  \<^bold>\<open>How the program works\<close>. A build reads configuration files, recipes and classes (\<open>bb/parse\<close>); their statements
  fill a variable store for each recipe (\<open>bb/data_smart.py\<close>), in which tasks are flags of variables
  (\<open>bb/build.py\<close>). What a recipe contributes goes into the tables of the recipe cache (\<open>bb/cache.py\<close>). For the targets that
  were asked for, providers are chosen among the recipes (\<open>bb/providers.py\<close>, with the order of versions in \<open>bb/utils.py\<close>) and
  what they need is found in turn (\<open>bb/taskdata.py\<close>). The run queue makes a graph of tasks from it, takes the signature of each task
  from \<open>bb/data.py\<close>, \<open>bb/siggen.py\<close> and \<open>oe/sstatesig.py\<close>, decides which tasks can be replaced by restoring earlier results,
  and sends the others to workers when their dependencies have ended (\<open>bb/runqueue.py\<close>). What packages are built gets
  revisions from the PR service (\<open>prserv\<close>), and tasks with equal output get equal hashes from the hash server (\<open>hashserv\<close>). Events tell handlers and user interfaces what happens (\<open>bb/event.py\<close>).

  \<^bold>\<open>How it is modelled\<close>. A Python object that keeps state is a record, with the fields of the object. A method is a function from the
  state to its result and the state that it leaves, and the result is either a value or an exception (\<open>Prelude\<close>, type
  \<open>meth\<close>); so an exception that is caught leaves its changes behind, as in Python. A dictionary is a list of pairs in the order of
  insertion. A set whose order the code can see is a list without duplicates, and theorems hold for each order. Texts are lists of
  8-bit characters; Python's integers are \<open>int\<close> or \<open>nat\<close>, bytes are \<open>8 word\<close>. Whatever is not under \<open>src\<close> is a parameter: hash
  functions, regular expressions that users write, what inline Python gives, the files, the database, the answers of servers, the workers
  and the operating system.

  \<^bold>\<open>Common theories\<close>. \<open>Prelude\<close>: exceptions, results, methods, the rules \<open>triple\<close> and \<open>stable\<close> for them, dictionaries and
  sets, with the collections \<open>result_simps\<close>, \<open>stable_rules\<close> and \<open>dict_simps\<close>. \<open>PyString\<close>: the methods of \<open>str\<close> and \<open>int\<close> that
  the code calls. \<open>Regex\<close>: regular expressions as functions that list the matches in the order in which Python's
  \<open>re\<close> tries them. \<open>Paths\<close>: the functions of \<open>posixpath\<close> and \<open>bb.utils.which\<close>.

  \<^bold>\<open>Versions, recipes and providers\<close>. \<open>Versions\<close>: \<open>explode_version\<close>, \<open>split_version\<close> and the \<open>vercmp\<close> family of \<open>bb/utils.py\<close>; the
  comparison agrees with a linear order on parsed versions, so it is a total preorder. \<open>DepStrings\<close>: \<open>explode_deps\<close>,
  \<open>explode_dep_versions2\<close>, \<open>join_deps\<close>, which read back what they print. \<open>DataCache\<close>: \<open>CoreRecipeInfo\<close> of \<open>bb/cache.py\<close> and the tables it fills.
  \<open>Providers\<close>: \<open>bb/providers.py\<close>; what is chosen is among what provides the item and was not rejected.

  \<^bold>\<open>Task data\<close>. \<open>TaskData\<close>, \<open>TaskFailure\<close>, \<open>TaskResolve\<close>: the class \<open>TaskData\<close> of \<open>bb/taskdata.py\<close>. When the build goes on after failures
  (\<open>halt\<close> is off), adding, failing and resolving targets keep the tables consistent, and failing a file takes back what depended on
  it. \<open>ResolveEnds\<close>: the rounds of \<open>add_unresolved\<close> come to an end, and when incomplete resolution is not allowed and no error was
  raised, no target is left open. With \<open>halt\<close> on, an exception can end a removal half way, and nothing is claimed.

  \<^bold>\<open>Making the run queue\<close>. \<open>Tid\<close>: identifiers of tasks. \<open>TaskGraph\<close>: \<open>calculate_task_weights\<close> and the search for dependency loops.
  \<open>RunQueueData\<close>, \<open>RecursiveDeps\<close>, \<open>ActiveTasks\<close>, \<open>RunQueuePrepare\<close>: the steps of \<open>RunQueueData.prepare\<close> in their order. When
  \<open>prepare\<close> returns, the graph is closed and acyclic and the reverse dependencies fit; weights are what paths make them; the
  active tasks are those that are reached from the targets; the loop over recursive dependencies ends at a
  fixpoint; with a generator that answers for each task, the hash loop returns, and each task has its hash, given after all that it
  depends on.

  \<^bold>\<open>Executing it\<close>. \<open>Scheduler\<close>: statistics and the three schedulers. \<open>ExecState\<close>, \<open>SceneQueue\<close>, \<open>SceneBuild\<close>, \<open>ExecTasks\<close>, \<open>Migrations\<close>,
  \<open>Execute\<close>, \<open>RunQueue\<close>: \<open>SQData\<close>, \<open>RunQueueExecute\<close>, \<open>build_scenequeue_data\<close> and the phases of \<open>RunQueue\<close>. A run is a sequence of calls
  of \<open>execute_runqueue\<close>, with what workers and servers answered before each as its input. \<open>ExecFrames\<close> and \<open>ExecInvariant\<close> say
  what an invariant needs to hold in every state of a run, as the locale \<open>exec_invariant\<close>, with a second predicate for what is left
  when a fakeroot worker could not be started; \<open>ExecSafety\<close> and \<open>ExecOutcome\<close> interpret it: no task starts before its dependencies
  ended, or twice; what was sent to the workers and is not reported ended, tasks and setscene tasks together, stays within the limit,
  when workers report each end once; that all is done is reported only when it is so, if setscene is not enforced and no worker dies;
  where enforced setscene goes wrong, and that a task which it refuses is refused in every call. \<open>ExecTermination\<close>: every call in every
  state returns or raises an exception. \<open>ExecSample\<close> holds the inputs of the witnesses.

  \<^bold>\<open>Variables\<close>. \<open>VarText\<close>, \<open>VarStore\<close>, \<open>VarLookup\<close>, \<open>VarUpdate\<close>: the regular expressions, the layers, \<open>expandWithRefs\<close>, \<open>getVarFlag\<close> and the
  methods of \<open>DataSmart\<close> that change it. \<open>VarFrames\<close>: what was set is read back. \<open>VarOverrides\<close>, \<open>VarTable\<close>: the override
  that wins, and the table of overrides. \<open>VarCache\<close>: the cache of expanded values changes no result of expanded lookups with the default arguments; the locale \<open>lookup_sim\<close> is interpreted for a
  lookup with and one without the cache.

  \<^bold>\<open>Parsing\<close>. \<open>ConfParse\<close>, \<open>BBParse\<close>: the readers of \<open>ConfHandler.py\<close> and \<open>BBHandler.py\<close>; what is printed is parsed back, and a
  line may be broken with backslashes. \<open>Statements\<close>, \<open>ParseFiles\<close>, \<open>ParseEval\<close>: the \<open>eval\<close> methods of \<open>bb/parse/ast.py\<close>, files with what they
  include and inherit. \<open>AssignSpec\<close>: a configuration file does to the store what the rules for the operators say. \<open>TaskTable\<close>,
  \<open>TaskSpec\<close>: \<open>addtask\<close> and \<open>deltask\<close> implement the edits of a graph. \<open>Events\<close>, \<open>Recipes\<close>: \<open>bb/event.py\<close>, \<open>finalize\<close> and \<open>multi_finalize\<close>;
  the variants of a recipe are the entries of \<open>BBCLASSEXTEND\<close> that \<open>__ONLYFINALISE\<close> lets through.

  \<^bold>\<open>Signatures\<close>. \<open>SigData\<close>, \<open>SigSpec\<close>: \<open>bb/data.py\<close>; the base hash is that of what the task reaches, in a sorted order. \<open>SigGen\<close>,
  \<open>SigLocks\<close>: the generators of \<open>bb/siggen.py\<close> and \<open>oe/sstatesig.py\<close>. \<open>SigGenSpec\<close>, \<open>SigUnihash\<close>: task hashes do not depend on orders, can be computed
  again from what is dumped, and unique hashes are found once.

  \<^bold>\<open>Services and scripts\<close>. \<open>PRServ\<close>, \<open>PRSpec\<close>: \<open>prserv/__init__.py\<close>, \<open>db.py\<close> and \<open>serv.py\<close>; no two outputs of a package share a revision, and
  where the revisions do go wrong. \<open>HashServ\<close>, \<open>HashServSpec\<close>: \<open>hashserv/server.py\<close> and \<open>sqlite.py\<close>; unique hashes do not
  change, and tasks with the same output share one. \<open>Firewall\<close>, \<open>FirewallSpec\<close>: \<open>meta-axiado/.../fwl_dmn.py\<close>; it only ever installs rules that
  accept, each with its number in the mark. \<open>Settings\<close>, \<open>SettingsSpec\<close>: \<open>merge_settings.py\<close> and \<open>merge_yamls.py\<close> of \<open>meta-phosphor\<close>, by the path of an entry. \<open>UserArea\<close>,
  \<open>UserAreaSpec\<close>: \<open>otp-user-area.py\<close> of \<open>meta-nvidia\<close>; the layout of the 368 bytes.

  \<^bold>\<open>Interfaces\<close>. The locale \<open>comparator\<close> (a three-way comparison, \<open>Versions\<close>) is interpreted by \<open>vercmp\<close> and by the order of files in \<open>Providers\<close>,
  \<open>priority_order\<close> (\<open>Scheduler\<close>) by the speed and the completion order, \<open>exec_invariant\<close> by the order of tasks and by the load,
  \<open>lookup_sim\<close> by the lookups of \<open>VarCache\<close>.

  \<^bold>\<open>Loops and fuel\<close>. A loop that is not structural runs with fuel, and a theorem says that it is enough: the failures of \<open>TaskFailure\<close> with the
  number of files, targets and recursions that are left (\<open>fail_fuel\<close>, each step fails something that had not failed); the
  rounds of resolution with two more than the recipe files that have tasks (a round that leaves something open has added a file); the
  weights, the loop of recursive dependencies, the hash loop and the loops of the setscene queue (\<open>sq_fuel\<close>) with the number of tasks
  or edges, since each round deals with a new one; the search of dependencies in \<open>SigSpec\<close> with the names that can be met. Two recursions have
  no bound in the code but Python's limit on nested calls: the expansion of values that refer to each other, and files that
  include each other. There fuel is an argument, and theorems say what holds for every amount, or for one that suffices.

  \<^bold>\<open>Not modelled\<close>. Python's limit on recursion; messages, warnings and progress events; threads, processes and locks, so that methods and
  requests run one after the other. Of the modelled classes: the stamp cache, the limits on pressure, the environment and data sent
  to workers, the log of fakeroot, schedulers of users; histories of variables and of included files, \<open>get_hash\<close>, writes to a store after a copy of it was
  made; the cache of statements with its time stamps; \<open>report_unihash\<close>, the comparison and the files of signatures; code parsers
  (\<open>codeparser.py\<close>), whose results are parameters. Whole subsystems are left out because they consist of
  calls to the operating system, to programs or to servers (fetchers, cooker, server, workers, cache files, user interfaces, package
  managers, developer tools, image creation), because they are generated or third-party code (\<open>spdx30.py\<close>, \<open>ply\<close>, \<open>bs4\<close>,
  \<open>pyinotify\<close>, \<open>pysh\<close>), or because they are tests.
\<close>

end
